(* ===== verification/Prelude.thy ===== *)
theory Prelude
  imports Main "HOL-Library.Word"
begin

text \<open>
  Shared vocabulary of the RumBoot development: names for the C integer types, the
  collections of simplification rules that the component theories extend, and generic
  facts about words and lists that several components use.
\<close>

unbundle bit_operations_syntax

type_synonym u8 = "8 word"
type_synonym u16 = "16 word"
type_synonym u32 = "32 word"
type_synonym u64 = "64 word"

named_theorems c_defs \<open>definitions a component's proofs unfold\<close>

section \<open>Words\<close>

lemma word_xor_cancel_left [simp]: "(a :: 'a::len word) XOR (a XOR b) = b"
  by (simp flip: xor.assoc)

lemma word_xor_left_eq_iff [simp]: "(a :: 'a::len word) XOR b = a XOR c \<longleftrightarrow> b = c"
  by (metis word_xor_cancel_left)

lemma word_xor_right_eq_iff [simp]: "(b :: 'a::len word) XOR a = c XOR a \<longleftrightarrow> b = c"
  by (metis word_xor_left_eq_iff xor.commute)

lemma word_mask_split: "(x :: 'a::len word) = (x AND m) XOR (x AND NOT m)"
  by (rule bit_word_eqI) (auto simp: bit_simps)

lemma ucast_xor [simp]: "ucast ((a :: 'a::len word) XOR b) = (ucast a XOR ucast b :: 'b::len word)"
  by (rule bit_word_eqI) (auto simp: bit_simps)

lemma ucast_u8_u32 [simp]: "ucast (ucast (x :: u8) :: u32) = x"
  by (rule bit_word_eqI) (auto simp: bit_simps)

lemma unat_u8_less [simp]: "unat (x :: u8) < 256"
proof -
  have "unat x < 2 ^ LENGTH(8)" by (rule unsigned_less)
  then show ?thesis by simp
qed

lemma FF_eq_mask: "(0xFF :: 'a::len word) = mask 8"
  by (simp add: mask_eq_exp_minus_1)

lemma unat_and_FF_less [simp]: "unat ((x :: 'a::len word) AND 0xFF) < 256"
proof -
  have "x AND 0xFF = take_bit 8 x" by (simp add: take_bit_eq_mask FF_eq_mask)
  moreover have "take_bit 8 (unat x) < 2 ^ 8" by (rule take_bit_nat_less_exp)
  ultimately show ?thesis by (simp add: unsigned_take_bit_eq)
qed

section \<open>Iteration\<close>

lemma funpow_compose: "(f ^^ m) ((f ^^ n) x) = (f ^^ (m + n)) x"
  by (simp add: funpow_add)

lemma funpow_linear:
  fixes f :: "'a::len word \<Rightarrow> 'a word"
  assumes "\<And>a b. f (a XOR b) = f a XOR f b"
  shows "(f ^^ n) (a XOR b) = (f ^^ n) a XOR (f ^^ n) b"
  by (induction n) (simp_all add: assms)

lemma funpow_inj:
  fixes f :: "'a \<Rightarrow> 'a"
  assumes "\<And>a b. f a = f b \<Longrightarrow> a = b"
  shows "(f ^^ n) a = (f ^^ n) b \<Longrightarrow> a = b"
  by (induction n) (auto dest: assms)

lemma linear_injI:
  fixes f :: "'a::len word \<Rightarrow> 'b::len word"
  assumes lin: "\<And>a b. f (a XOR b) = f a XOR f b" and zero: "\<And>x. f x = 0 \<Longrightarrow> x = 0"
    and eq: "f a = f b"
  shows "a = b"
proof -
  have "f (a XOR b) = 0" by (simp add: lin eq)
  then have "a XOR b = 0" by (rule zero)
  then show ?thesis by (metis word_xor_left_eq_iff xor_self_eq)
qed

lemma funpow_8: "((f :: 'a \<Rightarrow> 'a) ^^ 8) x = f (f (f (f (f (f (f (f x)))))))"
  by (simp add: eval_nat_numeral)

section \<open>Tables of a linear function, by doubling\<close>

text \<open>
  A 256-entry table of a function that is linear over XOR is determined by its eight
  entries at the powers of two: each power doubles the table.
\<close>

definition table_double :: "'a::len word list \<Rightarrow> 'a word \<Rightarrow> 'a word list" where
  "table_double xs b = xs @ map (\<lambda>x. b XOR x) xs"

lemma length_table_double [simp]: "length (table_double xs b) = 2 * length xs"
  by (simp add: table_double_def)

lemma of_nat_add_pow2_xor:
  assumes "i < 2 ^ k"
  shows "(of_nat (2 ^ k + i) :: 'a::len word) = 2 ^ k XOR of_nat i"
proof -
  have nb: "\<not> bit i k" using assms by (simp add: bit_iff_odd)
  have "(2 ^ k :: nat) AND i = 0"
    using nb by (auto intro!: bit_eqI simp: bit_and_iff bit_exp_iff)
  then have "(2 ^ k :: nat) + i = 2 ^ k XOR i"
    by (rule disjunctive_add_eq_xor)
  then have "(of_nat (2 ^ k + i) :: 'a word) = of_nat (2 ^ k XOR i)"
    by simp
  then show ?thesis
    by (simp only: of_nat_xor_eq of_nat_power of_nat_numeral)
qed

lemma table_double_nth:
  fixes f :: "'a::len word \<Rightarrow> 'b::len word"
  assumes lin: "\<And>a b. f (a XOR b) = f a XOR f b"
    and len: "length xs = 2 ^ k" and xs: "\<And>i. i < 2 ^ k \<Longrightarrow> xs ! i = f (of_nat i)"
    and i: "i < 2 ^ Suc k"
  shows "table_double xs (f (2 ^ k)) ! i = f (of_nat i)"
proof (cases "i < 2 ^ k")
  case True
  then show ?thesis using len xs by (simp add: table_double_def nth_append)
next
  case False
  define j where "j = i - 2 ^ k"
  have j: "j < 2 ^ k" "i = 2 ^ k + j" using False i by (auto simp: j_def)
  then have "table_double xs (f (2 ^ k)) ! i = f (2 ^ k) XOR f (of_nat j)"
    using len xs by (simp add: table_double_def nth_append)
  also have "\<dots> = f (of_nat (2 ^ k + j))"
    by (simp only: lin of_nat_add_pow2_xor [OF j(1)])
  finally show ?thesis using j(2) by simp
qed

lemma table_256_nth:
  fixes f :: "'a::len word \<Rightarrow> 'b::len word"
  assumes lin: "\<And>a b. f (a XOR b) = f a XOR f b"
    and tab: "tab = foldl table_double [0] (map f [1, 2, 4, 8, 16, 32, 64, 128])"
  shows "length tab = 256 \<and> (\<forall>i < 256. tab ! i = f (of_nat i))"
proof -
  let ?P = "\<lambda>k xs. length xs = (2::nat) ^ k \<and> (\<forall>i < 2 ^ k. xs ! i = f (of_nat i))"
  have f0: "f 0 = 0" using lin [of 0 0] by simp
  have step: "?P (Suc k) (table_double xs (f (2 ^ k)))" if "?P k xs" for k xs
    using table_double_nth [OF lin, of xs k] that by auto
  have "?P 0 [0]" by (simp add: f0)
  from step [OF step [OF step [OF step [OF step [OF step [OF step [OF step [OF this]]]]]]]]
  have "?P 8 tab" by (simp add: tab numeral_eq_Suc del: of_nat_Suc)
  then show ?thesis by simp
qed

end
