(* ===== verification/Crc.thy ===== *)
theory Crc
  imports Prelude
begin

text \<open>
  The checksums of the code: \<open>crc32\<close> (\<open>src/lib/algo/crc32.c\<close>, used for boot headers and
  image data), \<open>crc8\<close> (\<open>src/lib/algo/crc8.c\<close>, the RMAP checksum) and the CRC-16 of
  XMODEM packets (\<open>crc_xmodem_update\<close> of \<open>src/lib/xmodem.c\<close>). A buffer and its size are
  a list of bytes.
\<close>

section \<open>The tables and loops of the source\<close>

definition crc32_tab :: "u32 list" where
  "crc32_tab =
  [0x00000000, 0x77073096, 0xee0e612c, 0x990951ba, 0x076dc419, 0x706af48f, 0xe963a535, 0x9e6495a3,
   0x0edb8832, 0x79dcb8a4, 0xe0d5e91e, 0x97d2d988, 0x09b64c2b, 0x7eb17cbd, 0xe7b82d07, 0x90bf1d91,
   0x1db71064, 0x6ab020f2, 0xf3b97148, 0x84be41de, 0x1adad47d, 0x6ddde4eb, 0xf4d4b551, 0x83d385c7,
   0x136c9856, 0x646ba8c0, 0xfd62f97a, 0x8a65c9ec, 0x14015c4f, 0x63066cd9, 0xfa0f3d63, 0x8d080df5,
   0x3b6e20c8, 0x4c69105e, 0xd56041e4, 0xa2677172, 0x3c03e4d1, 0x4b04d447, 0xd20d85fd, 0xa50ab56b,
   0x35b5a8fa, 0x42b2986c, 0xdbbbc9d6, 0xacbcf940, 0x32d86ce3, 0x45df5c75, 0xdcd60dcf, 0xabd13d59,
   0x26d930ac, 0x51de003a, 0xc8d75180, 0xbfd06116, 0x21b4f4b5, 0x56b3c423, 0xcfba9599, 0xb8bda50f,
   0x2802b89e, 0x5f058808, 0xc60cd9b2, 0xb10be924, 0x2f6f7c87, 0x58684c11, 0xc1611dab, 0xb6662d3d,
   0x76dc4190, 0x01db7106, 0x98d220bc, 0xefd5102a, 0x71b18589, 0x06b6b51f, 0x9fbfe4a5, 0xe8b8d433,
   0x7807c9a2, 0x0f00f934, 0x9609a88e, 0xe10e9818, 0x7f6a0dbb, 0x086d3d2d, 0x91646c97, 0xe6635c01,
   0x6b6b51f4, 0x1c6c6162, 0x856530d8, 0xf262004e, 0x6c0695ed, 0x1b01a57b, 0x8208f4c1, 0xf50fc457,
   0x65b0d9c6, 0x12b7e950, 0x8bbeb8ea, 0xfcb9887c, 0x62dd1ddf, 0x15da2d49, 0x8cd37cf3, 0xfbd44c65,
   0x4db26158, 0x3ab551ce, 0xa3bc0074, 0xd4bb30e2, 0x4adfa541, 0x3dd895d7, 0xa4d1c46d, 0xd3d6f4fb,
   0x4369e96a, 0x346ed9fc, 0xad678846, 0xda60b8d0, 0x44042d73, 0x33031de5, 0xaa0a4c5f, 0xdd0d7cc9,
   0x5005713c, 0x270241aa, 0xbe0b1010, 0xc90c2086, 0x5768b525, 0x206f85b3, 0xb966d409, 0xce61e49f,
   0x5edef90e, 0x29d9c998, 0xb0d09822, 0xc7d7a8b4, 0x59b33d17, 0x2eb40d81, 0xb7bd5c3b, 0xc0ba6cad,
   0xedb88320, 0x9abfb3b6, 0x03b6e20c, 0x74b1d29a, 0xead54739, 0x9dd277af, 0x04db2615, 0x73dc1683,
   0xe3630b12, 0x94643b84, 0x0d6d6a3e, 0x7a6a5aa8, 0xe40ecf0b, 0x9309ff9d, 0x0a00ae27, 0x7d079eb1,
   0xf00f9344, 0x8708a3d2, 0x1e01f268, 0x6906c2fe, 0xf762575d, 0x806567cb, 0x196c3671, 0x6e6b06e7,
   0xfed41b76, 0x89d32be0, 0x10da7a5a, 0x67dd4acc, 0xf9b9df6f, 0x8ebeeff9, 0x17b7be43, 0x60b08ed5,
   0xd6d6a3e8, 0xa1d1937e, 0x38d8c2c4, 0x4fdff252, 0xd1bb67f1, 0xa6bc5767, 0x3fb506dd, 0x48b2364b,
   0xd80d2bda, 0xaf0a1b4c, 0x36034af6, 0x41047a60, 0xdf60efc3, 0xa867df55, 0x316e8eef, 0x4669be79,
   0xcb61b38c, 0xbc66831a, 0x256fd2a0, 0x5268e236, 0xcc0c7795, 0xbb0b4703, 0x220216b9, 0x5505262f,
   0xc5ba3bbe, 0xb2bd0b28, 0x2bb45a92, 0x5cb36a04, 0xc2d7ffa7, 0xb5d0cf31, 0x2cd99e8b, 0x5bdeae1d,
   0x9b64c2b0, 0xec63f226, 0x756aa39c, 0x026d930a, 0x9c0906a9, 0xeb0e363f, 0x72076785, 0x05005713,
   0x95bf4a82, 0xe2b87a14, 0x7bb12bae, 0x0cb61b38, 0x92d28e9b, 0xe5d5be0d, 0x7cdcefb7, 0x0bdbdf21,
   0x86d3d2d4, 0xf1d4e242, 0x68ddb3f8, 0x1fda836e, 0x81be16cd, 0xf6b9265b, 0x6fb077e1, 0x18b74777,
   0x88085ae6, 0xff0f6a70, 0x66063bca, 0x11010b5c, 0x8f659eff, 0xf862ae69, 0x616bffd3, 0x166ccf45,
   0xa00ae278, 0xd70dd2ee, 0x4e048354, 0x3903b3c2, 0xa7672661, 0xd06016f7, 0x4969474d, 0x3e6e77db,
   0xaed16a4a, 0xd9d65adc, 0x40df0b66, 0x37d83bf0, 0xa9bcae53, 0xdebb9ec5, 0x47b2cf7f, 0x30b5ffe9,
   0xbdbdf21c, 0xcabac28a, 0x53b39330, 0x24b4a3a6, 0xbad03605, 0xcdd70693, 0x54de5729, 0x23d967bf,
   0xb3667a2e, 0xc4614ab8, 0x5d681b02, 0x2a6f2b94, 0xb40bbe37, 0xc30c8ea1, 0x5a05df1b, 0x2d02ef8d]"

fun crc32_loop :: "u32 \<Rightarrow> u8 list \<Rightarrow> u32" where
  "crc32_loop crc [] = crc"
| "crc32_loop crc (p # ps) =
     crc32_loop ((crc32_tab ! unat ((crc XOR ucast p) AND 0xFF)) XOR drop_bit 8 crc) ps"

definition crc32 :: "u32 \<Rightarrow> u8 list \<Rightarrow> u32" where
  "crc32 crc buf = crc32_loop (crc XOR NOT 0) buf XOR NOT 0"

definition rmap_crc :: "u8 list" where
  "rmap_crc =
  [0x00, 0x07, 0x0e, 0x09, 0x1c, 0x1b, 0x12, 0x15, 0x38, 0x3f, 0x36, 0x31, 0x24, 0x23, 0x2a, 0x2d,
   0x70, 0x77, 0x7e, 0x79, 0x6c, 0x6b, 0x62, 0x65, 0x48, 0x4f, 0x46, 0x41, 0x54, 0x53, 0x5a, 0x5d,
   0xe0, 0xe7, 0xee, 0xe9, 0xfc, 0xfb, 0xf2, 0xf5, 0xd8, 0xdf, 0xd6, 0xd1, 0xc4, 0xc3, 0xca, 0xcd,
   0x90, 0x97, 0x9e, 0x99, 0x8c, 0x8b, 0x82, 0x85, 0xa8, 0xaf, 0xa6, 0xa1, 0xb4, 0xb3, 0xba, 0xbd,
   0xc7, 0xc0, 0xc9, 0xce, 0xdb, 0xdc, 0xd5, 0xd2, 0xff, 0xf8, 0xf1, 0xf6, 0xe3, 0xe4, 0xed, 0xea,
   0xb7, 0xb0, 0xb9, 0xbe, 0xab, 0xac, 0xa5, 0xa2, 0x8f, 0x88, 0x81, 0x86, 0x93, 0x94, 0x9d, 0x9a,
   0x27, 0x20, 0x29, 0x2e, 0x3b, 0x3c, 0x35, 0x32, 0x1f, 0x18, 0x11, 0x16, 0x03, 0x04, 0x0d, 0x0a,
   0x57, 0x50, 0x59, 0x5e, 0x4b, 0x4c, 0x45, 0x42, 0x6f, 0x68, 0x61, 0x66, 0x73, 0x74, 0x7d, 0x7a,
   0x89, 0x8e, 0x87, 0x80, 0x95, 0x92, 0x9b, 0x9c, 0xb1, 0xb6, 0xbf, 0xb8, 0xad, 0xaa, 0xa3, 0xa4,
   0xf9, 0xfe, 0xf7, 0xf0, 0xe5, 0xe2, 0xeb, 0xec, 0xc1, 0xc6, 0xcf, 0xc8, 0xdd, 0xda, 0xd3, 0xd4,
   0x69, 0x6e, 0x67, 0x60, 0x75, 0x72, 0x7b, 0x7c, 0x51, 0x56, 0x5f, 0x58, 0x4d, 0x4a, 0x43, 0x44,
   0x19, 0x1e, 0x17, 0x10, 0x05, 0x02, 0x0b, 0x0c, 0x21, 0x26, 0x2f, 0x28, 0x3d, 0x3a, 0x33, 0x34,
   0x4e, 0x49, 0x40, 0x47, 0x52, 0x55, 0x5c, 0x5b, 0x76, 0x71, 0x78, 0x7f, 0x6a, 0x6d, 0x64, 0x63,
   0x3e, 0x39, 0x30, 0x37, 0x22, 0x25, 0x2c, 0x2b, 0x06, 0x01, 0x08, 0x0f, 0x1a, 0x1d, 0x14, 0x13,
   0xae, 0xa9, 0xa0, 0xa7, 0xb2, 0xb5, 0xbc, 0xbb, 0x96, 0x91, 0x98, 0x9f, 0x8a, 0x8d, 0x84, 0x83,
   0xde, 0xd9, 0xd0, 0xd7, 0xc2, 0xc5, 0xcc, 0xcb, 0xe6, 0xe1, 0xe8, 0xef, 0xfa, 0xfd, 0xf4, 0xf3]"

definition calc_rmap_crc :: "u8 \<Rightarrow> u8 \<Rightarrow> u8" where
  "calc_rmap_crc crc byte = rmap_crc ! unat (crc XOR byte)"

text \<open>
  The accumulator of \<open>crc8\<close> is a 32-bit parameter; each step passes its low byte on and
  the result is its low byte.
\<close>

fun crc8 :: "u32 \<Rightarrow> u8 list \<Rightarrow> u8" where
  "crc8 crc [] = ucast crc"
| "crc8 crc (p # ps) = crc8 (ucast (calc_rmap_crc (ucast crc) p)) ps"

definition crc_xmodem_bit :: "u16 \<Rightarrow> u16" where
  "crc_xmodem_bit crc =
     (if crc AND 0x8000 \<noteq> 0 then push_bit 1 crc XOR 0x1021 else push_bit 1 crc)"

definition crc_xmodem_update :: "u16 \<Rightarrow> u8 \<Rightarrow> u16" where
  "crc_xmodem_update crc data = (crc_xmodem_bit ^^ 8) (crc XOR push_bit 8 (ucast data))"


section \<open>Reference: the shift registers the tables were made from\<close>

text \<open>One bit of the reflected CRC-32 register (polynomial 0xEDB88320, towards the right).\<close>

definition crc32_bit :: "u32 \<Rightarrow> u32" where
  "crc32_bit c = (if bit c 0 then drop_bit 1 c XOR 0xEDB88320 else drop_bit 1 c)"

definition crc32_byte :: "u32 \<Rightarrow> u8 \<Rightarrow> u32" where
  "crc32_byte c b = (crc32_bit ^^ 8) (c XOR ucast b)"

text \<open>One bit of the RMAP register (polynomial 0x07, towards the left).\<close>

definition crc8_bit :: "u8 \<Rightarrow> u8" where
  "crc8_bit c = (if bit c 7 then push_bit 1 c XOR 0x07 else push_bit 1 c)"

definition crc8_byte :: "u8 \<Rightarrow> u8 \<Rightarrow> u8" where
  "crc8_byte c b = (crc8_bit ^^ 8) (c XOR b)"

lemma crc32_bit_xor: "crc32_bit (a XOR b) = crc32_bit a XOR crc32_bit b"
  by (rule bit_word_eqI) (auto simp: crc32_bit_def bit_simps)

lemma crc8_bit_xor: "crc8_bit (a XOR b) = crc8_bit a XOR crc8_bit b"
  by (rule bit_word_eqI) (auto simp: crc8_bit_def bit_simps)

lemma crc_xmodem_bit_alt:
  "crc_xmodem_bit c = (if bit c 15 then push_bit 1 c XOR 0x1021 else push_bit 1 c)"
proof -
  have "(c AND 0x8000 \<noteq> 0) = bit c 15"
    using and_exp_eq_0_iff_not_bit [of c 15] by simp
  then show ?thesis by (simp add: crc_xmodem_bit_def)
qed

lemma crc_xmodem_bit_xor: "crc_xmodem_bit (a XOR b) = crc_xmodem_bit a XOR crc_xmodem_bit b"
  by (rule bit_word_eqI) (auto simp: crc_xmodem_bit_alt bit_simps)

lemmas crc32_bits_xor = funpow_linear [of crc32_bit, OF crc32_bit_xor]
  and crc8_bits_xor = funpow_linear [of crc8_bit, OF crc8_bit_xor]
  and crc_xmodem_bits_xor = funpow_linear [of crc_xmodem_bit, OF crc_xmodem_bit_xor]

lemma crc32_bit_zero: "crc32_bit x = 0 \<Longrightarrow> x = 0"
proof -
  assume z: "crc32_bit x = 0"
  have b0: "\<not> bit x 0"
  proof
    assume "bit x 0"
    then have "bit (crc32_bit x) 31"
      by (auto simp: crc32_bit_def bit_simps dest: bit_imp_le_length)
    then show False by (simp add: z)
  qed
  then have "drop_bit 1 x = 0" using z by (simp add: crc32_bit_def)
  then have "bit (drop_bit 1 x) m = False" for m by simp
  then have "\<not> bit x n" for n using b0 by (cases n) (auto simp: bit_drop_bit_eq)
  then show "x = 0" by (auto intro: bit_word_eqI)
qed

lemma msb_register_zero:
  fixes x :: "'a::len word"
  assumes "(if bit x (LENGTH('a) - 1) then push_bit 1 x XOR p else push_bit 1 x) = 0"
    and p: "bit p 0"
  shows "x = 0"
proof -
  have top: "\<not> bit x (LENGTH('a) - 1)"
  proof
    assume "bit x (LENGTH('a) - 1)"
    with assms have "bit (push_bit 1 x XOR p) 0 = False" by simp
    moreover have "\<not> bit (push_bit 1 x) 0" by (simp only: bit_push_bit_iff) simp
    ultimately show False using p by (auto simp only: bit_xor_iff)
  qed
  with assms have z: "push_bit 1 x = 0" by simp
  have "\<not> bit x n" for n
  proof (cases "Suc n < LENGTH('a)")
    case True
    have "bit (push_bit 1 x) (Suc n) = bit x n" using True
      by (simp only: bit_push_bit_iff possible_bit_word) simp
    then show ?thesis unfolding z by simp
  next
    case False
    then show ?thesis using top
      by (metis One_nat_def bit_imp_le_length diff_Suc_1' less_antisym Suc_lessI diff_Suc_Suc diff_zero not_less_eq)
  qed
  then show ?thesis by (auto intro: bit_word_eqI)
qed

lemmas crc32_bit_inj = linear_injI [of crc32_bit, OF crc32_bit_xor crc32_bit_zero]

lemma crc8_bit_inj: "crc8_bit a = crc8_bit b \<Longrightarrow> a = b"
  by (rule linear_injI [of crc8_bit, OF crc8_bit_xor], rule msb_register_zero [where p = "0x07 :: u8"])
    (simp_all add: crc8_bit_def)

lemma crc_xmodem_bit_inj: "crc_xmodem_bit a = crc_xmodem_bit b \<Longrightarrow> a = b"
  by (rule linear_injI [of crc_xmodem_bit, OF crc_xmodem_bit_xor], rule msb_register_zero [where p = "0x1021 :: u16"])
    (simp_all add: crc_xmodem_bit_alt)

section \<open>The tables are the registers' tables\<close>

lemma crc32_tab_doubling:
  "crc32_tab = foldl table_double [0] (map (crc32_bit ^^ 8) [1, 2, 4, 8, 16, 32, 64, 128])"
  by (simp add: crc32_bit_def funpow_8 table_double_def crc32_tab_def)

lemma rmap_crc_doubling:
  "rmap_crc = foldl table_double [0] (map (crc8_bit ^^ 8) [1, 2, 4, 8, 16, 32, 64, 128])"
  by (simp add: crc8_bit_def funpow_8 table_double_def rmap_crc_def)

lemma crc32_tab_nth: "i < 256 \<Longrightarrow> crc32_tab ! i = (crc32_bit ^^ 8) (of_nat i)"
  using table_256_nth [OF crc32_bits_xor crc32_tab_doubling] by blast

lemma rmap_crc_nth: "i < 256 \<Longrightarrow> rmap_crc ! i = (crc8_bit ^^ 8) (of_nat i)"
  using table_256_nth [OF crc8_bits_xor rmap_crc_doubling] by blast

lemma calc_rmap_crc_eq: "calc_rmap_crc c b = crc8_byte c b"
  by (simp add: calc_rmap_crc_def crc8_byte_def rmap_crc_nth)

text \<open>Bits that have not reached the feedback end are only shifted.\<close>

lemma crc32_bit_low: "\<not> bit x 0 \<Longrightarrow> crc32_bit x = drop_bit 1 x"
  by (simp add: crc32_bit_def)

lemma crc32_bits_shift:
  "n \<le> 32 \<Longrightarrow> (\<And>i. i < n \<Longrightarrow> \<not> bit x i) \<Longrightarrow> (crc32_bit ^^ n) x = drop_bit n x"
proof (induction n)
  case (Suc n)
  then have "(crc32_bit ^^ n) x = drop_bit n x" by simp
  moreover have "\<not> bit (drop_bit n x) 0" using Suc.prems(2) [of n] by (simp add: bit_simps)
  ultimately show ?case by (simp add: crc32_bit_low)
qed simp

lemma crc32_tab_step:
  "(crc32_tab ! unat ((crc XOR ucast p) AND 0xFF)) XOR drop_bit 8 crc = crc32_byte crc p"
proof -
  let ?x = "crc XOR ucast p"
  have lo: "crc32_tab ! unat (?x AND 0xFF) = (crc32_bit ^^ 8) (?x AND 0xFF)"
    by (simp add: crc32_tab_nth)
  have "\<not> bit (?x AND NOT 0xFF) i" if "i < 8" for i
    using that by (simp add: FF_eq_mask bit_simps)
  then have "(crc32_bit ^^ 8) (?x AND NOT 0xFF) = drop_bit 8 (?x AND NOT 0xFF)"
    by (rule crc32_bits_shift [rotated]) simp_all
  also have "\<dots> = drop_bit 8 crc"
    by (rule bit_word_eqI) (auto simp: FF_eq_mask bit_simps dest: bit_imp_le_length)
  finally have hi: "(crc32_bit ^^ 8) (?x AND NOT 0xFF) = drop_bit 8 crc" .
  have "(crc32_bit ^^ 8) ?x = (crc32_bit ^^ 8) (?x AND 0xFF) XOR (crc32_bit ^^ 8) (?x AND NOT 0xFF)"
    by (simp only: flip: crc32_bits_xor word_mask_split)
  then show ?thesis by (simp only: crc32_byte_def lo hi)
qed

lemma crc32_loop_eq: "crc32_loop c xs = foldl crc32_byte c xs"
  by (induction c xs rule: crc32_loop.induct) (simp_all only: crc32_loop.simps foldl.simps crc32_tab_step)

lemma crc8_eq: "crc8 c xs = foldl crc8_byte (ucast c) xs"
  by (induction c xs rule: crc8.induct) (simp_all add: calc_rmap_crc_eq ucast_u8_u32)

section \<open>The contract of a byte-wise checksum register\<close>

locale byte_crc =
  fixes step :: "'r \<Rightarrow> u8 \<Rightarrow> 'r" and window :: nat
  assumes step_inj: "step r b = step r' b \<Longrightarrow> r = r'"
    and window_inj: "length xs = length ys \<Longrightarrow> length xs \<le> window \<Longrightarrow>
      foldl step r xs = foldl step r ys \<Longrightarrow> xs = ys"
begin

lemma run_inj: "foldl step r xs = foldl step r' xs \<Longrightarrow> r = r'"
  by (induction xs arbitrary: r r') (auto dest: step_inj)

text \<open>Any change confined to \<open>window\<close> consecutive bytes changes the register.\<close>

lemma detects_burst:
  assumes "length u = length v" "length u \<le> window" "u \<noteq> v"
  shows "foldl step r (pre @ u @ post) \<noteq> foldl step r (pre @ v @ post)"
  using assms by (auto dest!: run_inj dest: window_inj [OF assms(1,2)])

end

section \<open>The three checksums meet the contract\<close>

text \<open>The bytes of a window, the first in the low end.\<close>

fun le_word :: "u8 list \<Rightarrow> 'a::len word" where
  "le_word [] = 0"
| "le_word (b # bs) = ucast b XOR push_bit 8 (le_word bs)"

lemma bit_le_word:
  "bit (le_word bs :: 'a::len word) n \<longleftrightarrow>
     n < LENGTH('a) \<and> n < 8 * length bs \<and> bit (bs ! (n div 8)) (n mod 8)"
proof (induction bs arbitrary: n)
  case (Cons b bs)
  show ?case
  proof (cases "n < 8")
    case True
    then show ?thesis by (auto simp: bit_simps)
  next
    case False
    then have "n div 8 = Suc ((n - 8) div 8)" "n mod 8 = (n - 8) mod 8"
      by (simp_all add: le_div_geq le_mod_geq)
    with False Cons [of "n - 8"] show ?thesis
      by (auto simp: bit_simps dest: bit_imp_le_length)
  qed
qed simp

lemma le_word_inj:
  assumes len: "length xs = length ys" "8 * length xs \<le> LENGTH('a)"
    and eq: "(le_word xs :: 'a::len word) = le_word ys"
  shows "xs = ys"
proof (rule nth_equalityI)
  fix i assume i: "i < length xs"
  show "xs ! i = ys ! i"
  proof (rule bit_word_eqI)
    fix m assume m: "m < LENGTH(8)"
    have "bit (le_word xs :: 'a word) (8 * i + m) = bit (le_word ys :: 'a word) (8 * i + m)"
      by (simp only: eq)
    then show "bit (xs ! i) m = bit (ys ! i) m"
      using i m len by (simp add: bit_le_word)
  qed
qed (rule len(1))

lemma crc32_window:
  "length bs \<le> 4 \<Longrightarrow> foldl crc32_byte r bs = (crc32_bit ^^ (8 * length bs)) (r XOR le_word bs)"
proof (induction bs arbitrary: r)
  case (Cons b bs)
  let ?w = "le_word bs :: u32"
  have "\<not> bit (push_bit 8 ?w) i" if "i < 8" for i using that by (simp add: bit_simps)
  then have "(crc32_bit ^^ 8) (push_bit 8 ?w) = drop_bit 8 (push_bit 8 ?w)"
    by (rule crc32_bits_shift [rotated]) simp_all
  also have "\<dots> = ?w"
    using Cons.prems by (intro bit_word_eqI) (auto simp: bit_simps bit_le_word)
  finally have "crc32_byte r b XOR ?w = (crc32_bit ^^ 8) (r XOR le_word (b # bs))"
    by (simp add: crc32_byte_def crc32_bits_xor xor.assoc)
  then have "foldl crc32_byte r (b # bs) =
      (crc32_bit ^^ (8 * length bs)) ((crc32_bit ^^ 8) (r XOR le_word (b # bs)))"
    using Cons by simp
  then show ?case by (simp add: funpow_compose add.commute)
qed simp

lemma crc32_bits_inj [simp]: "(crc32_bit ^^ n) a = (crc32_bit ^^ n) b \<longleftrightarrow> a = b"
  using funpow_inj [of crc32_bit n a b, OF crc32_bit_inj] by blast

lemma crc32_byte_inj: "crc32_byte r b = crc32_byte r' b \<Longrightarrow> r = r'"
  by (simp add: crc32_byte_def)

interpretation crc32_reg: byte_crc crc32_byte 4
proof
  show "xs = ys" if len: "length xs = length ys" "length xs \<le> 4"
    and eq: "foldl crc32_byte r xs = foldl crc32_byte r ys" for r xs ys
  proof -
    have "(le_word xs :: u32) = le_word ys"
      using len eq by (simp add: crc32_window)
    then show ?thesis using len by (intro le_word_inj [where 'a = 32]) simp_all
  qed
qed (rule crc32_byte_inj)

text \<open>The registers that shift to the left take the first byte of a window in the high end.\<close>

lemma crc8_bits_inj [simp]: "(crc8_bit ^^ n) a = (crc8_bit ^^ n) b \<longleftrightarrow> a = b"
  using funpow_inj [of crc8_bit n a b, OF crc8_bit_inj] by blast

lemma crc8_byte_inj: "crc8_byte r b = crc8_byte r' b' \<longleftrightarrow> r XOR b = r' XOR b'"
  by (simp add: crc8_byte_def)

interpretation crc8_reg: byte_crc crc8_byte 1
proof
  show "r = r'" if "crc8_byte r b = crc8_byte r' b" for r r' b
    using that by (simp add: crc8_byte_inj)
  show "xs = ys" if len: "length xs = length ys" "length xs \<le> 1"
    and eq: "foldl crc8_byte r xs = foldl crc8_byte r ys" for r xs ys
  proof (cases xs)
    case (Cons x zs)
    with len obtain y where "xs = [x]" "ys = [y]" by (cases ys) auto
    with eq show ?thesis by (simp add: crc8_byte_inj)
  qed (use len in simp)
qed

lemma crc_xmodem_bits_inj [simp]: "(crc_xmodem_bit ^^ n) a = (crc_xmodem_bit ^^ n) b \<longleftrightarrow> a = b"
  using funpow_inj [of crc_xmodem_bit n a b, OF crc_xmodem_bit_inj] by blast

lemma crc_xmodem_bit_low: "\<not> bit x 15 \<Longrightarrow> crc_xmodem_bit x = push_bit 1 x"
  by (simp only: crc_xmodem_bit_alt if_False)

lemma crc_xmodem_bits_shift:
  "n \<le> 8 \<Longrightarrow> (\<And>i. 8 \<le> i \<Longrightarrow> \<not> bit x i) \<Longrightarrow> (crc_xmodem_bit ^^ n) x = push_bit n x"
proof (induction n)
  case (Suc n)
  then have IH: "(crc_xmodem_bit ^^ n) x = push_bit n x" by simp
  have "\<not> bit (push_bit n x) 15" using Suc.prems by (simp add: bit_simps)
  then have "crc_xmodem_bit (push_bit n x) = push_bit 1 (push_bit n x)"
    by (rule crc_xmodem_bit_low)
  then show ?case by (simp only: funpow.simps comp_apply IH push_bit_push_bit plus_1_eq_Suc)
qed simp

lemma crc_xmodem_two:
  "crc_xmodem_update (crc_xmodem_update r a) b =
     (crc_xmodem_bit ^^ 16) (r XOR push_bit 8 (ucast a) XOR ucast b)"
proof -
  have "(crc_xmodem_bit ^^ 8) (ucast b) = push_bit 8 (ucast b)"
    by (rule crc_xmodem_bits_shift) (auto simp: bit_simps dest: bit_imp_le_length)
  then have "crc_xmodem_update (crc_xmodem_update r a) b =
      (crc_xmodem_bit ^^ 8) ((crc_xmodem_bit ^^ 8) (r XOR push_bit 8 (ucast a) XOR ucast b))"
    by (simp add: crc_xmodem_update_def crc_xmodem_bits_xor xor.assoc)
  then show ?thesis by (simp add: funpow_compose)
qed

lemma be_word_inj:
  fixes a b :: u8
  assumes "push_bit 8 (ucast a) XOR ucast b = (push_bit 8 (ucast a') XOR ucast b' :: u16)"
  shows "a = a' \<and> b = b'"
proof
  have eq: "bit (push_bit 8 (ucast a) XOR ucast b :: u16) n =
      bit (push_bit 8 (ucast a') XOR ucast b' :: u16) n" for n by (simp only: assms)
  show "a = a'"
  proof (rule bit_word_eqI)
    fix n assume "n < LENGTH(8)"
    then show "bit a n = bit a' n" using eq [of "8 + n"]
      by (auto simp: bit_simps dest: bit_imp_le_length)
  qed
  show "b = b'"
  proof (rule bit_word_eqI)
    fix n assume "n < LENGTH(8)"
    then show "bit b n = bit b' n" using eq [of n] by (simp add: bit_simps)
  qed
qed

interpretation crc_xmodem_reg: byte_crc crc_xmodem_update 2
proof
  show inj: "r = r'" if "crc_xmodem_update r b = crc_xmodem_update r' b" for r r' b
    using that by (simp add: crc_xmodem_update_def)
  show "xs = ys" if len: "length xs = length ys" "length xs \<le> 2"
    and eq: "foldl crc_xmodem_update r xs = foldl crc_xmodem_update r ys" for r xs ys
  proof (cases "length xs = 2")
    case True
    then obtain a b a' b' where "xs = [a, b]" "ys = [a', b']"
      using len by (auto simp: length_Suc_conv numeral_2_eq_2)
    with eq be_word_inj show ?thesis by (auto simp: crc_xmodem_two xor.assoc)
  next
    case False
    show ?thesis
    proof (cases xs)
      case (Cons x zs)
      with len False obtain y where xy: "xs = [x]" "ys = [y]"
        by (cases ys; cases zs) auto
      with eq have "push_bit 8 (ucast x) XOR ucast (0 :: u8) = (push_bit 8 (ucast y) XOR ucast (0 :: u8) :: u16)"
        by (simp add: crc_xmodem_update_def)
      then show ?thesis using xy be_word_inj by blast
    qed (use len in simp)
  qed
qed

section \<open>Properties\<close>

text \<open>C13: On every buffer and for every starting value, the table-driven \<open>crc32\<close> computes
  the bit-serial reflected CRC-32 (polynomial 0xEDB88320, register and result complemented):
  all 256 entries of \<open>crc32_tab\<close> and the update step are right.\<close>

theorem crc32_is_bit_serial:
  "crc32 crc buf = foldl crc32_byte (crc XOR NOT 0) buf XOR NOT 0"
  by (simp only: crc32_def crc32_loop_eq)

text \<open>Feeding \<open>crc32\<close> its own result continues the checksum, so that a buffer may be
  checksummed piecewise, as the upload callback \<open>memcpy_cb\<close> does packet by packet.\<close>

theorem crc32_incremental: "crc32 (crc32 crc xs) ys = crc32 crc (xs @ ys)"
  by (simp add: crc32_def crc32_loop_eq xor.assoc)

lemma crc32_burst:
  assumes "length u = length v" "length u \<le> 4" "u \<noteq> v"
  shows "crc32 crc (pre @ u @ post) \<noteq> crc32 crc (pre @ v @ post)"
  using crc32_reg.detects_burst [OF assms] by (simp add: crc32_def crc32_loop_eq)

text \<open>\<open>crc32\<close> detects every error burst that is confined to four consecutive bytes,
  whatever precedes and follows it.\<close>

theorem crc32_detects_burst:
  assumes "length u = length v" "length u \<le> 4" "u \<noteq> v"
  shows "crc32 crc (pre @ u @ post) \<noteq> crc32 crc (pre @ v @ post)"
  by (rule crc32_burst [OF assms])

theorem crc32_detects_burst_witness:
  "crc32 0 ([1] @ [2, 3, 4, 5] @ [6]) \<noteq> crc32 0 ([1] @ [9, 3, 4, 0] @ [6])"
  by (rule crc32_detects_burst) simp_all

text \<open>The table-driven \<open>crc8\<close> computes the bit-serial checksum with polynomial 0x07,
  and starts from the low byte of its 32-bit seed only.\<close>

theorem crc8_is_bit_serial: "crc8 crc buf = foldl crc8_byte (ucast crc) buf"
  by (rule crc8_eq)

text \<open>\<open>crc8\<close> detects every corrupted byte: two buffers that differ in exactly one byte
  have different checksums.\<close>

theorem crc8_detects_byte:
  assumes "b \<noteq> b'"
  shows "crc8 crc (pre @ b # post) \<noteq> crc8 crc (pre @ b' # post)"
  using crc8_reg.detects_burst [of "[b]" "[b']"] assms by (simp add: crc8_eq)

theorem crc8_detects_byte_witness: "crc8 0 ([7] @ 1 # [2]) \<noteq> crc8 0 ([7] @ 3 # [2])"
  by (rule crc8_detects_byte) simp

end
