(* ===== verification/C_Memory.thy ===== *)
theory C_Memory
  imports Prelude
begin

text \<open>
  The byte-addressed memory of the 32-bit targets (pointers and \<open>size_t\<close> have 32 bits, address
  arithmetic wraps), the accesses of the C code at the widths it uses in either byte order,
  \<open>memcpy\<close>, \<open>memmove\<close> and \<open>memset\<close>, and the byte-swap macros of
  \<open>include/rumboot/bitswapper.h\<close>.
\<close>

type_synonym mem = "u32 \<Rightarrow> u8"

section \<open>Ranges\<close>

definition in_range :: "u32 \<Rightarrow> u32 \<Rightarrow> nat \<Rightarrow> bool" where
  "in_range x a n \<longleftrightarrow> unat (x - a) < n"

definition separate :: "u32 \<Rightarrow> nat \<Rightarrow> u32 \<Rightarrow> nat \<Rightarrow> bool" where
  "separate a n b k \<longleftrightarrow> unat a + n \<le> unat b \<and> unat b + k \<le> 2 ^ 32
     \<or> unat b + k \<le> unat a \<and> unat a + n \<le> 2 ^ 32"

lemma unat_u32_less [simp]: "unat (x :: u32) < 4294967296"
proof -
  have "unat x < 2 ^ LENGTH(32)" by (rule unsigned_less)
  then show ?thesis by simp
qed

lemma unat_of_nat_u32: "n < 2 ^ 32 \<Longrightarrow> unat (of_nat n :: u32) = n"
  by (simp add: unat_of_nat)

lemma in_range_offset: "n \<le> 2 ^ 32 \<Longrightarrow> i < n \<Longrightarrow> in_range (a + of_nat i) a n"
  by (simp add: in_range_def unat_of_nat)

lemma in_rangeE:
  assumes "in_range x a n"
  obtains i where "i < n" "x = a + of_nat i"
  using assms by (intro that [of "unat (x - a)"]) (auto simp: in_range_def)

lemma separate_sym: "separate a n b k \<longleftrightarrow> separate b k a n"
  by (auto simp: separate_def)

lemma unat_add_small: "unat a + i < 2 ^ 32 \<Longrightarrow> unat (a + of_nat i :: u32) = unat a + i"
  by (simp add: unat_word_ariths unat_of_nat)

lemma separate_not_in_range:
  assumes "separate a n b k" "in_range x a n"
  shows "\<not> in_range x b k"
proof -
  obtain i where i: "i < n" "x = a + of_nat i" using assms(2) by (rule in_rangeE)
  have lt: "unat a + i < 2 ^ 32"
    using assms(1) i(1) unat_u32_less [of a] unat_u32_less [of b] by (auto simp: separate_def)
  have x: "unat x = unat a + i" unfolding i(2) by (rule unat_add_small [OF lt])
  show ?thesis
  proof (cases "unat b + k \<le> unat a \<and> unat a + n \<le> 2 ^ 32")
    case True
    then show ?thesis using x by (auto simp: in_range_def unat_sub_if')
  next
    case False
    then have "unat a + n \<le> unat b" "unat b + k \<le> 2 ^ 32" using assms(1) by (auto simp: separate_def)
    then show ?thesis using x i(1) by (auto simp: in_range_def unat_sub_if')
  qed
qed

section \<open>Blocks\<close>

definition mem_read :: "mem \<Rightarrow> u32 \<Rightarrow> nat \<Rightarrow> u8 list" where
  "mem_read m a n = map (\<lambda>i. m (a + of_nat i)) [0..<n]"

definition mem_write :: "mem \<Rightarrow> u32 \<Rightarrow> u8 list \<Rightarrow> mem" where
  "mem_write m a bs = (\<lambda>x. if unat (x - a) < length bs then bs ! unat (x - a) else m x)"

definition memmove :: "u32 \<Rightarrow> u32 \<Rightarrow> nat \<Rightarrow> mem \<Rightarrow> mem" where
  "memmove dst src n m = mem_write m dst (mem_read m src n)"

definition memset :: "u32 \<Rightarrow> u8 \<Rightarrow> nat \<Rightarrow> mem \<Rightarrow> mem" where
  "memset dst c n m = mem_write m dst (replicate n c)"

lemma length_mem_read [simp]: "length (mem_read m a n) = n"
  by (simp add: mem_read_def)

lemma mem_read_nth [simp]: "i < n \<Longrightarrow> mem_read m a n ! i = m (a + of_nat i)"
  by (simp add: mem_read_def)

lemma mem_read_0 [simp]: "mem_read m a 0 = []"
  by (simp add: mem_read_def)

lemma mem_write_Nil [simp]: "mem_write m a [] = m"
  by (simp add: mem_write_def)

lemma mem_write_in: "in_range x a (length bs) \<Longrightarrow> mem_write m a bs x = bs ! unat (x - a)"
  by (simp add: mem_write_def in_range_def)

lemma mem_write_out: "\<not> in_range x a (length bs) \<Longrightarrow> mem_write m a bs x = m x"
  by (simp add: mem_write_def in_range_def)

lemma mem_read_cong: "(\<And>x. in_range x a n \<Longrightarrow> m x = m' x) \<Longrightarrow> n \<le> 2 ^ 32 \<Longrightarrow> mem_read m a n = mem_read m' a n"
  by (rule nth_equalityI) (auto simp: in_range_offset)

lemma mem_read_write_same:
  "length bs \<le> 2 ^ 32 \<Longrightarrow> n = length bs \<Longrightarrow> mem_read (mem_write m a bs) a n = bs"
  by (rule nth_equalityI) (auto simp: mem_write_def unat_of_nat)

lemma mem_read_write_separate:
  assumes "separate a n b (length bs)"
  shows "mem_read (mem_write m b bs) a n = mem_read m a n"
proof (rule mem_read_cong)
  show "mem_write m b bs x = m x" if "in_range x a n" for x
    by (rule mem_write_out) (rule separate_not_in_range [OF assms that])
  show "n \<le> 2 ^ 32" using assms unat_u32_less [of b] by (auto simp: separate_def)
qed

lemma mem_read_add: "mem_read m a (n + k) = mem_read m a n @ mem_read m (a + of_nat n) k"
  by (rule nth_equalityI) (auto simp: nth_append add.assoc simp flip: of_nat_add)

lemma mem_read_take: "k \<le> n \<Longrightarrow> take k (mem_read m a n) = mem_read m a k"
  by (simp add: mem_read_def take_map)

lemma mem_read_drop: "k \<le> n \<Longrightarrow> drop k (mem_read m a n) = mem_read m (a + of_nat k) (n - k)"
  by (rule nth_equalityI) (auto simp: algebra_simps)

lemma mem_write_append:
  assumes "length xs + length ys \<le> 2 ^ 32"
  shows "mem_write (mem_write m a xs) (a + of_nat (length xs)) ys = mem_write m a (xs @ ys)"
proof
  fix x
  have l: "length xs < 2 ^ 32 \<or> ys = []" using assms by (cases ys) auto
  let ?d = "unat (x - a)"
  have sub: "x - (a + of_nat (length xs)) = (x - a) - of_nat (length xs)" by simp
  show "mem_write (mem_write m a xs) (a + of_nat (length xs)) ys x = mem_write m a (xs @ ys) x"
  proof (cases "ys = []")
    case False
    then have lx: "unat (of_nat (length xs) :: u32) = length xs" using l by (simp add: unat_of_nat)
    show ?thesis
    proof (cases "?d < length xs")
      case True
      then have "unat ((x - a) - of_nat (length xs)) \<ge> length ys"
        using assms lx by (simp add: unat_sub_if')
      then show ?thesis using True by (simp add: mem_write_def sub nth_append)
    next
      case False
      then have "unat ((x - a) - of_nat (length xs)) = ?d - length xs"
        using lx by (simp add: unat_sub_if')
      then show ?thesis using False by (auto simp: mem_write_def sub nth_append)
    qed
  qed simp
qed

section \<open>Byte order\<close>

definition u16_of :: "bool \<Rightarrow> u8 list \<Rightarrow> u16" where
  "u16_of be bs = foldl (\<lambda>w b. push_bit 8 w OR ucast b) 0 (if be then bs else rev bs)"

definition u32_of :: "bool \<Rightarrow> u8 list \<Rightarrow> u32" where
  "u32_of be bs = foldl (\<lambda>w b. push_bit 8 w OR ucast b) 0 (if be then bs else rev bs)"

definition u64_of :: "bool \<Rightarrow> u8 list \<Rightarrow> u64" where
  "u64_of be bs = foldl (\<lambda>w b. push_bit 8 w OR ucast b) 0 (if be then bs else rev bs)"

definition bytes_of :: "bool \<Rightarrow> nat \<Rightarrow> 'a::len word \<Rightarrow> u8 list" where
  "bytes_of be n w = (let le = map (\<lambda>i. ucast (drop_bit (8 * i) w)) [0..<n] in if be then rev le else le)"

definition load16 :: "bool \<Rightarrow> mem \<Rightarrow> u32 \<Rightarrow> u16" where "load16 be m a = u16_of be (mem_read m a 2)"
definition load32 :: "bool \<Rightarrow> mem \<Rightarrow> u32 \<Rightarrow> u32" where "load32 be m a = u32_of be (mem_read m a 4)"
definition load64 :: "bool \<Rightarrow> mem \<Rightarrow> u32 \<Rightarrow> u64" where "load64 be m a = u64_of be (mem_read m a 8)"
definition store16 :: "bool \<Rightarrow> u32 \<Rightarrow> u16 \<Rightarrow> mem \<Rightarrow> mem" where "store16 be a w m = mem_write m a (bytes_of be 2 w)"
definition store32 :: "bool \<Rightarrow> u32 \<Rightarrow> u32 \<Rightarrow> mem \<Rightarrow> mem" where "store32 be a w m = mem_write m a (bytes_of be 4 w)"
definition store64 :: "bool \<Rightarrow> u32 \<Rightarrow> u64 \<Rightarrow> mem \<Rightarrow> mem" where "store64 be a w m = mem_write m a (bytes_of be 8 w)"

lemma length_bytes_of [simp]: "length (bytes_of be n w) = n"
  by (simp add: bytes_of_def Let_def)

definition swap16 :: "u16 \<Rightarrow> u16" where
  "swap16 value = push_bit 8 (value AND 0x00FF) OR drop_bit 8 (value AND 0xFF00)"

definition swap32 :: "u32 \<Rightarrow> u32" where
  "swap32 value =
     push_bit 24 (value AND 0x000000FF) OR push_bit 8 (value AND 0x0000FF00) OR
     drop_bit 8 (value AND 0x00FF0000) OR drop_bit 24 (value AND 0xFF000000)"

definition swap64 :: "u64 \<Rightarrow> u64" where
  "swap64 value =
     (push_bit 56 value AND 0xFF00000000000000) OR (push_bit 40 value AND 0x00FF000000000000) OR
     (push_bit 24 value AND 0x0000FF0000000000) OR (push_bit 8 value AND 0x000000FF00000000) OR
     (drop_bit 8 value AND 0x00000000FF000000) OR (drop_bit 24 value AND 0x0000000000FF0000) OR
     (drop_bit 40 value AND 0x000000000000FF00) OR (drop_bit 56 value AND 0x00000000000000FF)"

lemmas c_loads = load16_def load32_def load64_def store16_def store32_def store64_def

lemma upt_2: "[0..<2] = [0, 1::nat]" by (simp add: upt_conv_Cons)
lemma upt_4: "[0..<4] = [0, 1, 2, 3::nat]" by (simp add: upt_conv_Cons)
lemma upt_8: "[0..<8] = [0, 1, 2, 3, 4, 5, 6, 7::nat]" by (simp add: upt_conv_Cons)

section \<open>Bytes and words\<close>

lemma byte_masks:
  "(0x00FF :: u16) = mask 8" "(0xFF00 :: u16) = push_bit 8 (mask 8)"
  "(0x000000FF :: u32) = mask 8" "(0x0000FF00 :: u32) = push_bit 8 (mask 8)"
  "(0x00FF0000 :: u32) = push_bit 16 (mask 8)" "(0xFF000000 :: u32) = push_bit 24 (mask 8)"
  by (simp_all add: mask_eq_exp_minus_1)

lemma byte_masks64:
  "(0x00000000000000FF :: u64) = mask 8" "(0x000000000000FF00 :: u64) = push_bit 8 (mask 8)"
  "(0x0000000000FF0000 :: u64) = push_bit 16 (mask 8)" "(0x00000000FF000000 :: u64) = push_bit 24 (mask 8)"
  "(0x000000FF00000000 :: u64) = push_bit 32 (mask 8)" "(0x0000FF0000000000 :: u64) = push_bit 40 (mask 8)"
  "(0x00FF000000000000 :: u64) = push_bit 48 (mask 8)" "(0xFF00000000000000 :: u64) = push_bit 56 (mask 8)"
  by (simp_all add: mask_eq_exp_minus_1)

lemma list_2E: assumes "length bs = 2" obtains a b where "bs = [a, b]"
  using assms by (auto simp: numeral_eq_Suc length_Suc_conv)
lemma list_4E: assumes "length bs = 4" obtains a b c d where "bs = [a, b, c, d]"
  using assms by (auto simp: numeral_eq_Suc length_Suc_conv)
lemma list_8E: assumes "length bs = 8" obtains a b c d e f g h where "bs = [a, b, c, d, e, f, g, h]"
  using assms by (auto simp: numeral_eq_Suc length_Suc_conv)


lemma all_less_16: "(\<forall>n < (16 :: nat). P n) \<longleftrightarrow> P 0 \<and> P 1 \<and> P 2 \<and> P 3 \<and> P 4 \<and> P 5 \<and> P 6 \<and> P 7 \<and> P 8 \<and> P 9 \<and> P 10 \<and> P 11
    \<and> P 12 \<and> P 13 \<and> P 14 \<and> P 15"
  by (simp add: numeral_eq_Suc All_less_Suc conj_ac)

lemma all_less_32: "(\<forall>n < (32 :: nat). P n) \<longleftrightarrow> P 0 \<and> P 1 \<and> P 2 \<and> P 3 \<and> P 4 \<and> P 5 \<and> P 6 \<and> P 7 \<and> P 8 \<and> P 9 \<and> P 10 \<and> P 11
    \<and> P 12 \<and> P 13 \<and> P 14 \<and> P 15 \<and> P 16 \<and> P 17 \<and> P 18 \<and> P 19 \<and> P 20 \<and> P 21 \<and> P 22 \<and> P 23
    \<and> P 24 \<and> P 25 \<and> P 26 \<and> P 27 \<and> P 28 \<and> P 29 \<and> P 30 \<and> P 31"
  by (simp add: numeral_eq_Suc All_less_Suc conj_ac)

lemma all_less_64: "(\<forall>n < (64 :: nat). P n) \<longleftrightarrow> P 0 \<and> P 1 \<and> P 2 \<and> P 3 \<and> P 4 \<and> P 5 \<and> P 6 \<and> P 7 \<and> P 8 \<and> P 9 \<and> P 10 \<and> P 11
    \<and> P 12 \<and> P 13 \<and> P 14 \<and> P 15 \<and> P 16 \<and> P 17 \<and> P 18 \<and> P 19 \<and> P 20 \<and> P 21 \<and> P 22 \<and> P 23
    \<and> P 24 \<and> P 25 \<and> P 26 \<and> P 27 \<and> P 28 \<and> P 29 \<and> P 30 \<and> P 31 \<and> P 32 \<and> P 33 \<and> P 34 \<and> P 35
    \<and> P 36 \<and> P 37 \<and> P 38 \<and> P 39 \<and> P 40 \<and> P 41 \<and> P 42 \<and> P 43 \<and> P 44 \<and> P 45 \<and> P 46 \<and> P 47
    \<and> P 48 \<and> P 49 \<and> P 50 \<and> P 51 \<and> P 52 \<and> P 53 \<and> P 54 \<and> P 55 \<and> P 56 \<and> P 57 \<and> P 58 \<and> P 59
    \<and> P 60 \<and> P 61 \<and> P 62 \<and> P 63"
  by (simp add: numeral_eq_Suc All_less_Suc conj_ac)


lemma word_eq_bits:
  fixes x y :: "'a::len word"
  assumes "\<forall>n < LENGTH('a). bit x n = bit y n"
  shows "x = y"
  using assms by (intro bit_word_eqI) simp

lemma bit_u8 [simp]: "8 \<le> n \<Longrightarrow> \<not> bit (a :: u8) n"
  by (auto dest: bit_imp_le_length)

lemmas bit_ops = bit_or_iff bit_and_iff bit_push_bit_iff bit_drop_bit_eq bit_ucast_iff

lemma swap16_u16_of: "length bs = 2 \<Longrightarrow> swap16 (u16_of be bs) = u16_of (\<not> be) bs"
  by (erule list_2E, rule word_eq_bits) (simp add: all_less_16 swap16_def u16_of_def bit_ops)
lemma swap32_u32_of: "length bs = 4 \<Longrightarrow> swap32 (u32_of be bs) = u32_of (\<not> be) bs"
  by (erule list_4E, rule word_eq_bits) (simp add: all_less_32 swap32_def u32_of_def bit_ops)
lemma swap64_u64_of: "length bs = 8 \<Longrightarrow> swap64 (u64_of be bs) = u64_of (\<not> be) bs"
  by (erule list_8E, rule word_eq_bits) (simp add: all_less_64 swap64_def u64_of_def bit_ops)

lemma word_eq_bits8: "(\<forall>n < 8. bit x n = bit y n) \<Longrightarrow> x = (y :: u8)"
  by (rule word_eq_bits) simp

lemma all_less_8: "(\<forall>n < (8 :: nat). P n) \<longleftrightarrow> P 0 \<and> P 1 \<and> P 2 \<and> P 3 \<and> P 4 \<and> P 5 \<and> P 6 \<and> P 7"
  by (simp add: numeral_eq_Suc All_less_Suc conj_ac)

lemma bytes_of_u16_of: "length bs = 2 \<Longrightarrow> bytes_of be 2 (u16_of be bs) = bs"
  by (erule list_2E) (auto intro!: word_eq_bits8 simp: bytes_of_def u16_of_def upt_2 all_less_8 bit_ops)
lemma bytes_of_u32_of: "length bs = 4 \<Longrightarrow> bytes_of be 4 (u32_of be bs) = bs"
  by (erule list_4E) (auto intro!: word_eq_bits8 simp: bytes_of_def u32_of_def upt_4 all_less_8 bit_ops)
lemma bytes_of_u64_of: "length bs = 8 \<Longrightarrow> bytes_of be 8 (u64_of be bs) = bs"
  by (erule list_8E) (auto intro!: word_eq_bits8 simp: bytes_of_def u64_of_def upt_8 all_less_8 bit_ops)

lemma u16_of_bytes_of: "u16_of be (bytes_of be 2 w) = w"
  by (rule word_eq_bits) (simp add: bytes_of_def u16_of_def upt_2 all_less_16 bit_ops)
lemma u32_of_bytes_of: "u32_of be (bytes_of be 4 w) = w"
  by (rule word_eq_bits) (simp add: bytes_of_def u32_of_def upt_4 all_less_32 bit_ops)
lemma u64_of_bytes_of: "u64_of be (bytes_of be 8 w) = w"
  by (rule word_eq_bits) (simp add: bytes_of_def u64_of_def upt_8 all_less_64 bit_ops)

lemma load16_store16 [simp]: "load16 be (store16 be a w m) a = w"
  by (simp add: c_loads mem_read_write_same u16_of_bytes_of)
lemma load32_store32 [simp]: "load32 be (store32 be a w m) a = w"
  by (simp add: c_loads mem_read_write_same u32_of_bytes_of)
lemma load64_store64 [simp]: "load64 be (store64 be a w m) a = w"
  by (simp add: c_loads mem_read_write_same u64_of_bytes_of)

lemma swap16_load16: "swap16 (load16 be m a) = load16 (\<not> be) m a"
  by (simp add: c_loads swap16_u16_of)
lemma swap32_load32: "swap32 (load32 be m a) = load32 (\<not> be) m a"
  by (simp add: c_loads swap32_u32_of)
lemma swap64_load64: "swap64 (load64 be m a) = load64 (\<not> be) m a"
  by (simp add: c_loads swap64_u64_of)

lemma swap32_involutive [simp]: "swap32 (swap32 w) = w"
  using swap32_u32_of [of "bytes_of True 4 w" True] swap32_u32_of [of "bytes_of True 4 w" False]
  by (simp add: u32_of_bytes_of)

lemma store32_load32: "store32 be a (load32 be m a) m = m"
proof
  fix x
  have b: "bytes_of be 4 (load32 be m a) = mem_read m a 4"
    by (simp add: c_loads bytes_of_u32_of)
  show "store32 be a (load32 be m a) m x = m x"
    unfolding store32_def b by (simp add: mem_write_def)
qed

section \<open>Accesses relative to a base\<close>

text \<open>Two offsets from one base: the accesses are apart when the offsets are.\<close>

lemma in_range_shift: "in_range (a + x) (a + y) n = in_range x y n"
  by (simp add: in_range_def)

lemma mem_read_write_offset:
  assumes "separate x n y (length bs)"
  shows "mem_read (mem_write m (a + y) bs) (a + x) n = mem_read m (a + x) n"
proof (rule mem_read_cong)
  fix z
  assume "in_range z (a + x) n"
  then have "in_range (a + (z - a)) (a + x) n" by simp
  then have "\<not> in_range (z - a) y (length bs)"
    using separate_not_in_range [OF assms] by (simp only: in_range_shift) blast
  then show "mem_write m (a + y) bs z = m z"
    by (intro mem_write_out) (simp add: in_range_def algebra_simps)
next
  show "n \<le> 2 ^ 32" using assms unat_u32_less [of x] unat_u32_less [of y]
    by (auto simp: separate_def)
qed

lemma byte_write_offset:
  assumes "separate x 1 y (length bs)"
  shows "mem_write m (a + y) bs (a + x) = m (a + x)"
  using mem_read_write_offset [OF assms, of m a] by (simp add: mem_read_def)

text \<open>The bytes of a range around an overwritten part.\<close>

lemma mem_read_write_inside:
  assumes "k + length u \<le> n" "n < 2 ^ 32"
  shows "mem_read (mem_write m (a + of_nat k) u) a n
    = mem_read m a k @ u @ mem_read m (a + of_nat (k + length u)) (n - k - length u)"
proof (rule nth_equalityI)
  fix i
  assume "i < length (mem_read (mem_write m (a + of_nat k) u) a n)"
  then have i: "i < n" by simp
  have ki: "unat (of_nat k :: u32) = k" "unat (of_nat i :: u32) = i"
    using assms i by (simp_all add: unat_of_nat_u32)
  have d: "unat ((of_nat i :: u32) - of_nat k) = (if k \<le> i then i - k else 2 ^ 32 + i - k)"
    using ki by (simp add: unat_sub_if') (simp add: add.commute)
  have l: "mem_read (mem_write m (a + of_nat k) u) a n ! i
      = (if k \<le> i \<and> i - k < length u then u ! (i - k) else m (a + of_nat i))"
  proof -
    have "mem_read (mem_write m (a + of_nat k) u) a n ! i
      = (if unat ((of_nat i :: u32) - of_nat k) < length u then u ! unat ((of_nat i :: u32) - of_nat k)
         else m (a + of_nat i))"
      using i by (simp add: mem_write_def)
    moreover have "\<not> 2 ^ 32 + i - k < length u" using assms by linarith
    ultimately show ?thesis unfolding d by (cases "k \<le> i") (simp_all only: if_True if_False simp_thms)
  qed
  consider "i < k" | "k \<le> i" "i < k + length u" | "k + length u \<le> i" by linarith
  then show "mem_read (mem_write m (a + of_nat k) u) a n ! i =
    (mem_read m a k @ u @ mem_read m (a + of_nat (k + length u)) (n - k - length u)) ! i"
  proof cases
    case 3
    then have "(of_nat (k + length u) + of_nat (i - k - length u) :: u32) = of_nat i"
      by (simp flip: of_nat_add)
    then have e: "a + of_nat (k + length u) + of_nat (i - k - length u) = a + of_nat i"
      by (simp only: add.assoc)
    have "mem_read m (a + of_nat (k + length u)) (n - k - length u) ! (i - k - length u) = m (a + of_nat i)"
      using 3 i by (subst mem_read_nth, linarith) (simp only: e)
    then show ?thesis using 3 by (simp only: l nth_append length_mem_read) auto
  next
    case 1
    then show ?thesis by (simp only: l nth_append length_mem_read) auto
  next
    case 2
    then show ?thesis by (simp only: l nth_append length_mem_read) auto
  qed
qed (use assms in simp)

lemma mem_read_split:
  assumes "k + j \<le> n"
  shows "mem_read m a n = mem_read m a k @ mem_read m (a + of_nat k) j @ mem_read m (a + of_nat (k + j)) (n - k - j)"
  using mem_read_add [of m a k "n - k"] mem_read_add [of m "a + of_nat k" j "n - k - j"] assms
  by (simp add: add.assoc)

lemma separate_small: "x + n \<le> y \<Longrightarrow> y + k < 2 ^ 32 \<Longrightarrow> separate (of_nat x) n (of_nat y) k"
  by (simp add: separate_def unat_of_nat)

lemma separate_small': "y + k \<le> x \<Longrightarrow> x + n < 2 ^ 32 \<Longrightarrow> separate (of_nat x) n (of_nat y) k"
  by (simp add: separate_def unat_of_nat)

lemma read_unchanged_after:
  assumes "y + length u \<le> x" "x + n < 2 ^ 32"
  shows "mem_read (mem_write m (a + of_nat y) u) (a + of_nat x) n = mem_read m (a + of_nat x) n"
  by (rule mem_read_write_offset) (rule separate_small' [OF assms])

lemma read_unchanged_before:
  assumes "x + n \<le> y" "y + length u < 2 ^ 32"
  shows "mem_read (mem_write m (a + of_nat y) u) (a + of_nat x) n = mem_read m (a + of_nat x) n"
  by (rule mem_read_write_offset) (rule separate_small [OF assms])

text \<open>Reading back part of what was written.\<close>

lemma mem_read_write_part:
  assumes "i + n \<le> length bs" "length bs \<le> 2 ^ 32"
  shows "mem_read (mem_write m a bs) (a + of_nat i) n = take n (drop i bs)"
proof -
  have "mem_read (mem_write m a bs) (a + of_nat i) n = take n (drop i (mem_read (mem_write m a bs) a (length bs)))"
    using assms(1) by (simp add: mem_read_drop mem_read_take)
  then show ?thesis by (simp add: mem_read_write_same [OF assms(2) refl])
qed

lemma mem_write_nth:
  assumes "i < length bs" "length bs \<le> 2 ^ 32"
  shows "mem_write m a bs (a + of_nat i) = bs ! i"
  using assms by (simp add: mem_write_def unat_of_nat_u32)

end
