(* ===== verification/Lzss.thy ===== *)
theory Lzss
  imports Prelude
begin

text \<open>
  The compressed format that \<open>src/lib/algo/heatshrink_decoder.c\<close> reads and
  \<open>src/lib/algo/heatshrink_encoder.c\<close> writes, as a reference function on bit strings. It is
  a specification: the decoder's state machine is proved to compute it.
\<close>


section \<open>Bit strings\<close>

definition of_bits :: "bool list \<Rightarrow> 'a::len word" where
  "of_bits bs = foldl (\<lambda>acc b. push_bit 1 acc OR of_bool b) 0 bs"

definition to_bits :: "nat \<Rightarrow> 'a::len word \<Rightarrow> bool list" where
  "to_bits n w = map (\<lambda>i. bit w (n - 1 - i)) [0..<n]"

lemma length_to_bits [simp]: "length (to_bits n w) = n"
  by (simp add: to_bits_def)

lemma of_bits_snoc: "of_bits (bs @ [b]) = push_bit 1 (of_bits bs) OR of_bool b"
  by (simp add: of_bits_def)

lemma of_bits_Nil [simp]: "of_bits [] = 0"
  by (simp add: of_bits_def)

lemma bit_of_bits:
  "bit (of_bits bs :: 'a::len word) i \<longleftrightarrow> i < LENGTH('a) \<and> i < length bs \<and> bs ! (length bs - 1 - i)"
proof (induction bs arbitrary: i rule: rev_induct)
  case (snoc b bs)
  show ?case
  proof (cases i)
    case 0
    then show ?thesis unfolding of_bits_snoc
      by (simp only: bit_or_iff bit_push_bit_iff) (simp add: bit_of_bool_iff nth_append)
  next
    case (Suc j)
    have "length bs - j = Suc (length bs - Suc j)" if "j < length bs" using that by simp
    then show ?thesis unfolding of_bits_snoc using Suc snoc.IH [of j]
      by (simp only: bit_or_iff bit_push_bit_iff) (auto simp: bit_of_bool_iff nth_append)
  qed
qed simp

lemma of_bits_append:
  "(of_bits (xs @ ys) :: 'a::len word) = push_bit (length ys) (of_bits xs) OR of_bits ys"
  by (rule bit_word_eqI) (auto simp: bit_of_bits bit_or_iff bit_push_bit_iff nth_append)

lemma to_bits_of_bits: "length bs = n \<Longrightarrow> n \<le> LENGTH('a) \<Longrightarrow> to_bits n (of_bits bs :: 'a::len word) = bs"
  by (rule nth_equalityI) (auto simp: to_bits_def bit_of_bits)

lemma of_bits_to_bits: "of_bits (to_bits n (w :: 'a::len word)) = take_bit n w"
  by (rule bit_word_eqI) (auto simp: bit_of_bits to_bits_def bit_take_bit_iff)

lemma unat_of_bits_less: "unat (of_bits bs :: 'a::len word) < 2 ^ length bs"
proof -
  have "(of_bits bs :: 'a word) = take_bit (length bs) (of_bits bs)"
    by (rule bit_word_eqI) (auto simp: bit_of_bits bit_take_bit_iff)
  then have "unat (of_bits bs :: 'a word) = take_bit (length bs) (unat (of_bits bs :: 'a word))"
    by (metis unsigned_take_bit_eq)
  then show ?thesis by (metis take_bit_nat_less_exp)
qed

abbreviation bits_of_bytes :: "u8 list \<Rightarrow> bool list" where
  "bits_of_bytes bs \<equiv> concat (map (to_bits 8) bs)"

lemma length_bits_of_bytes [simp]: "length (bits_of_bytes bs) = 8 * length bs"
  by (induction bs) auto

section \<open>Specification: the compressed format\<close>

text \<open>The byte \<open>d\<close> places back in the output; the window starts out as zeros.\<close>

definition lookback :: "u8 list \<Rightarrow> nat \<Rightarrow> u8" where
  "lookback out d = (if 1 \<le> d \<and> d \<le> length out then out ! (length out - d) else 0)"

fun copy_back :: "nat \<Rightarrow> nat \<Rightarrow> u8 list \<Rightarrow> u8 list" where
  "copy_back 0 d out = out"
| "copy_back (Suc n) d out = copy_back n d (out @ [lookback out d])"

lemma length_copy_back [simp]: "length (copy_back n d out) = length out + n"
  by (induction n d out rule: copy_back.induct) auto

text \<open>
  A token is a tag bit 1 and a literal byte, or a tag bit 0, the distance less one in 11
  bits and the length less one in 4 bits. An incomplete last token is padding.
\<close>

function lzss :: "bool list \<Rightarrow> u8 list \<Rightarrow> u8 list" where
  "lzss [] out = out"
| "lzss (True # bs) out =
     (if 8 \<le> length bs then lzss (drop 8 bs) (out @ [of_bits (take 8 bs)]) else out)"
| "lzss (False # bs) out =
     (if 15 \<le> length bs then
        lzss (drop 15 bs) (copy_back (unat (of_bits (take 4 (drop 11 bs)) :: u16) + 1)
                                     (unat (of_bits (take 11 bs) :: u16) + 1) out)
      else out)"
  by pat_completeness auto
termination by (relation "measure (\<lambda>(bs, _). length bs)") auto

end
