(* ===== verification/Heatshrink_Decoder.thy ===== *)
theory Heatshrink_Decoder
  imports Lzss
begin

text \<open>
  The streaming decompressor \<open>src/lib/algo/heatshrink_decoder.c\<close> in the static configuration
  of \<open>include/algo/heatshrink_config.h\<close> (window of 11 bits, lookahead of 4 bits, input buffer
  of 32 bytes). The decoder structure is a record, its state variable a datatype, and one
  function per \<open>st_*\<close> state. The output buffer of \<open>poll\<close> is the list of the bytes pushed so
  far together with its capacity. A buffer is passed as its address, which is compared with NULL, beside the
  bytes found there or the room; what is written the caller stores. The polling loop is a partial function: \<open>None\<close> is a loop that does not end.
\<close>

section \<open>Data\<close>

datatype hsd_state =
    HSDS_TAG_BIT
  | HSDS_YIELD_LITERAL
  | HSDS_BACKREF_INDEX_MSB
  | HSDS_BACKREF_INDEX_LSB
  | HSDS_BACKREF_COUNT_MSB
  | HSDS_BACKREF_COUNT_LSB
  | HSDS_YIELD_BACKREF

datatype hsd_sink_res = HSDR_SINK_OK | HSDR_SINK_FULL | HSDR_SINK_ERROR_NULL
datatype hsd_poll_res = HSDR_POLL_EMPTY | HSDR_POLL_MORE | HSDR_POLL_ERROR_NULL | HSDR_POLL_ERROR_UNKNOWN
datatype hsd_finish_res = HSDR_FINISH_DONE | HSDR_FINISH_MORE

record heatshrink_decoder =
  hsd_input_size :: u16
  hsd_input_index :: u16
  hsd_output_count :: u16
  hsd_output_index :: u16
  hsd_head_index :: u16
  hsd_st :: hsd_state
  hsd_current_byte :: u8
  hsd_bit_index :: u8
  hsd_buffers :: "u8 list"

text \<open>\<open>output_info\<close>: the bytes pushed so far and the capacity of the caller's buffer.\<close>

record output_info =
  oi_buf :: "u8 list"
  oi_buf_size :: nat

definition HEATSHRINK_STATIC_INPUT_BUFFER_SIZE :: nat where
  "HEATSHRINK_STATIC_INPUT_BUFFER_SIZE = 32"
definition HEATSHRINK_STATIC_WINDOW_BITS :: nat where
  "HEATSHRINK_STATIC_WINDOW_BITS = 11"
definition HEATSHRINK_STATIC_LOOKAHEAD_BITS :: nat where
  "HEATSHRINK_STATIC_LOOKAHEAD_BITS = 4"

lemmas hs_config = HEATSHRINK_STATIC_INPUT_BUFFER_SIZE_def HEATSHRINK_STATIC_WINDOW_BITS_def
  HEATSHRINK_STATIC_LOOKAHEAD_BITS_def

definition NO_BITS :: u16 where "NO_BITS = 0xFFFF"

section \<open>Operations\<close>

definition heatshrink_decoder_reset :: heatshrink_decoder where
  "heatshrink_decoder_reset =
     \<lparr>hsd_input_size = 0, hsd_input_index = 0, hsd_output_count = 0, hsd_output_index = 0,
      hsd_head_index = 0, hsd_st = HSDS_TAG_BIT, hsd_current_byte = 0, hsd_bit_index = 0,
      hsd_buffers = replicate (2 ^ HEATSHRINK_STATIC_WINDOW_BITS
                               + HEATSHRINK_STATIC_INPUT_BUFFER_SIZE) 0\<rparr>"

text \<open>\<open>memcpy\<close> into an array of the model.\<close>

definition array_write :: "'a list \<Rightarrow> nat \<Rightarrow> 'a list \<Rightarrow> 'a list" where
  "array_write xs i ys = take i xs @ ys @ drop (i + length ys) xs"

text \<open>\<open>bytes\<close> is what lies at \<open>in_buf\<close>; the third component of the result is the number of bytes taken,
  \<open>*input_size\<close> of the C interface. The other pointers are never NULL, for they are addresses of objects.\<close>

definition heatshrink_decoder_sink ::
  "heatshrink_decoder \<Rightarrow> u32 \<Rightarrow> u8 list \<Rightarrow> hsd_sink_res \<times> heatshrink_decoder \<times> nat" where
  "heatshrink_decoder_sink h in_buf bytes =
     (if in_buf = 0 then (HSDR_SINK_ERROR_NULL, h, 0)
      else let rem = HEATSHRINK_STATIC_INPUT_BUFFER_SIZE - unat (hsd_input_size h) in
      if rem = 0 then (HSDR_SINK_FULL, h, 0)
      else let size = min rem (length bytes) in
        (HSDR_SINK_OK,
         h\<lparr>hsd_buffers := array_write (hsd_buffers h) (unat (hsd_input_size h)) (take size bytes),
           hsd_input_size := hsd_input_size h + of_nat size\<rparr>, size))"

definition pull_byte :: "heatshrink_decoder \<Rightarrow> heatshrink_decoder" where
  "pull_byte h =
     (let i = hsd_input_index h + 1;
          h1 = h\<lparr>hsd_current_byte := hsd_buffers h ! unat (hsd_input_index h),
                 hsd_input_index := i\<rparr>;
          h2 = (if i = hsd_input_size h1 then h1\<lparr>hsd_input_index := 0, hsd_input_size := 0\<rparr> else h1)
      in h2\<lparr>hsd_bit_index := 0x80\<rparr>)"

fun get_bits_loop :: "nat \<Rightarrow> u16 \<Rightarrow> heatshrink_decoder \<Rightarrow> u16 \<times> heatshrink_decoder" where
  "get_bits_loop 0 accumulator h = (accumulator, h)"
| "get_bits_loop (Suc n) accumulator h =
     (if hsd_bit_index h = 0 \<and> hsd_input_size h = 0 then (NO_BITS, h)
      else let h1 = (if hsd_bit_index h = 0 then pull_byte h else h);
               acc = push_bit 1 accumulator;
               acc = (if hsd_current_byte h1 AND hsd_bit_index h1 \<noteq> 0 then acc OR 1 else acc)
           in get_bits_loop n acc (h1\<lparr>hsd_bit_index := drop_bit 1 (hsd_bit_index h1)\<rparr>))"

definition get_bits :: "heatshrink_decoder \<Rightarrow> nat \<Rightarrow> u16 \<times> heatshrink_decoder" where
  "get_bits h count =
     (if count > 15 then (NO_BITS, h)
      else if hsd_input_size h = 0 \<and> unat (hsd_bit_index h) < 2 ^ (count - 1) then (NO_BITS, h)
      else get_bits_loop count 0 h)"

definition push_byte :: "output_info \<Rightarrow> u8 \<Rightarrow> output_info" where
  "push_byte oi byte = oi\<lparr>oi_buf := oi_buf oi @ [byte]\<rparr>"

definition st_tag_bit :: "heatshrink_decoder \<Rightarrow> hsd_state \<times> heatshrink_decoder" where
  "st_tag_bit h =
     (let (bits, h) = get_bits h 1 in
      if bits = NO_BITS then (HSDS_TAG_BIT, h)
      else if bits \<noteq> 0 then (HSDS_YIELD_LITERAL, h)
      else if HEATSHRINK_STATIC_WINDOW_BITS > 8 then (HSDS_BACKREF_INDEX_MSB, h)
      else (HSDS_BACKREF_INDEX_LSB, h\<lparr>hsd_output_index := 0\<rparr>))"

text \<open>The window is the part of \<open>buffers\<close> after the input buffer.\<close>

definition window_index :: "u16 \<Rightarrow> nat" where
  "window_index i =
     HEATSHRINK_STATIC_INPUT_BUFFER_SIZE + unat (i AND mask HEATSHRINK_STATIC_WINDOW_BITS)"

definition st_yield_literal ::
  "heatshrink_decoder \<Rightarrow> output_info \<Rightarrow> hsd_state \<times> heatshrink_decoder \<times> output_info" where
  "st_yield_literal h oi =
     (if length (oi_buf oi) < oi_buf_size oi then
        let (byte, h) = get_bits h 8 in
        if byte = NO_BITS then (HSDS_YIELD_LITERAL, h, oi)
        else let c = ucast (byte AND 0xFF) in
          (HSDS_TAG_BIT,
           h\<lparr>hsd_buffers := (hsd_buffers h)[window_index (hsd_head_index h) := c],
             hsd_head_index := hsd_head_index h + 1\<rparr>,
           push_byte oi c)
      else (HSDS_YIELD_LITERAL, h, oi))"

definition st_backref_index_msb :: "heatshrink_decoder \<Rightarrow> hsd_state \<times> heatshrink_decoder" where
  "st_backref_index_msb h =
     (let (bits, h) = get_bits h (HEATSHRINK_STATIC_WINDOW_BITS - 8) in
      if bits = NO_BITS then (HSDS_BACKREF_INDEX_MSB, h)
      else (HSDS_BACKREF_INDEX_LSB, h\<lparr>hsd_output_index := push_bit 8 bits\<rparr>))"

definition st_backref_index_lsb :: "heatshrink_decoder \<Rightarrow> hsd_state \<times> heatshrink_decoder" where
  "st_backref_index_lsb h =
     (let bit_ct = HEATSHRINK_STATIC_WINDOW_BITS;
          (bits, h) = get_bits h (if bit_ct < 8 then bit_ct else 8) in
      if bits = NO_BITS then (HSDS_BACKREF_INDEX_LSB, h)
      else (if HEATSHRINK_STATIC_LOOKAHEAD_BITS > 8 then HSDS_BACKREF_COUNT_MSB
            else HSDS_BACKREF_COUNT_LSB,
            h\<lparr>hsd_output_index := (hsd_output_index h OR bits) + 1, hsd_output_count := 0\<rparr>))"

definition st_backref_count_msb :: "heatshrink_decoder \<Rightarrow> hsd_state \<times> heatshrink_decoder" where
  "st_backref_count_msb h =
     (let (bits, h) = get_bits h (HEATSHRINK_STATIC_LOOKAHEAD_BITS - 8) in
      if bits = NO_BITS then (HSDS_BACKREF_COUNT_MSB, h)
      else (HSDS_BACKREF_COUNT_LSB, h\<lparr>hsd_output_count := push_bit 8 bits\<rparr>))"

definition st_backref_count_lsb :: "heatshrink_decoder \<Rightarrow> hsd_state \<times> heatshrink_decoder" where
  "st_backref_count_lsb h =
     (let br_bit_ct = HEATSHRINK_STATIC_LOOKAHEAD_BITS;
          (bits, h) = get_bits h (if br_bit_ct < 8 then br_bit_ct else 8) in
      if bits = NO_BITS then (HSDS_BACKREF_COUNT_LSB, h)
      else (HSDS_YIELD_BACKREF, h\<lparr>hsd_output_count := (hsd_output_count h OR bits) + 1\<rparr>))"

fun backref_loop :: "nat \<Rightarrow> heatshrink_decoder \<Rightarrow> output_info \<Rightarrow> heatshrink_decoder \<times> output_info" where
  "backref_loop 0 h oi = (h, oi)"
| "backref_loop (Suc n) h oi =
     (let c = hsd_buffers h ! window_index (hsd_head_index h - hsd_output_index h) in
      backref_loop n
        (h\<lparr>hsd_buffers := (hsd_buffers h)[window_index (hsd_head_index h) := c],
           hsd_head_index := hsd_head_index h + 1\<rparr>)
        (push_byte oi c))"

definition st_yield_backref ::
  "heatshrink_decoder \<Rightarrow> output_info \<Rightarrow> hsd_state \<times> heatshrink_decoder \<times> output_info" where
  "st_yield_backref h oi =
     (let count = oi_buf_size oi - length (oi_buf oi) in
      if count > 0 then
        let count = (if unat (hsd_output_count h) < count then unat (hsd_output_count h) else count);
            (h, oi) = backref_loop count h oi;
            h = h\<lparr>hsd_output_count := hsd_output_count h - of_nat count\<rparr>
        in (if hsd_output_count h = 0 then HSDS_TAG_BIT else HSDS_YIELD_BACKREF, h, oi)
      else (HSDS_YIELD_BACKREF, h, oi))"

text \<open>One round of the \<open>switch\<close> in \<open>heatshrink_decoder_poll\<close>.\<close>

definition hsd_step ::
  "heatshrink_decoder \<Rightarrow> output_info \<Rightarrow> heatshrink_decoder \<times> output_info" where
  "hsd_step h oi =
     (case hsd_st h of
        HSDS_TAG_BIT \<Rightarrow> let (s, h) = st_tag_bit h in (h\<lparr>hsd_st := s\<rparr>, oi)
      | HSDS_YIELD_LITERAL \<Rightarrow> let (s, h, oi) = st_yield_literal h oi in (h\<lparr>hsd_st := s\<rparr>, oi)
      | HSDS_BACKREF_INDEX_MSB \<Rightarrow> let (s, h) = st_backref_index_msb h in (h\<lparr>hsd_st := s\<rparr>, oi)
      | HSDS_BACKREF_INDEX_LSB \<Rightarrow> let (s, h) = st_backref_index_lsb h in (h\<lparr>hsd_st := s\<rparr>, oi)
      | HSDS_BACKREF_COUNT_MSB \<Rightarrow> let (s, h) = st_backref_count_msb h in (h\<lparr>hsd_st := s\<rparr>, oi)
      | HSDS_BACKREF_COUNT_LSB \<Rightarrow> let (s, h) = st_backref_count_lsb h in (h\<lparr>hsd_st := s\<rparr>, oi)
      | HSDS_YIELD_BACKREF \<Rightarrow> let (s, h, oi) = st_yield_backref h oi in (h\<lparr>hsd_st := s\<rparr>, oi))"

partial_function (option) hsd_poll_loop ::
  "heatshrink_decoder \<Rightarrow> output_info \<Rightarrow> (hsd_poll_res \<times> heatshrink_decoder \<times> output_info) option"
where
  "hsd_poll_loop h oi =
     (let (h', oi') = hsd_step h oi in
      if hsd_st h' = hsd_st h then
        (if length (oi_buf oi') = oi_buf_size oi' then Some (HSDR_POLL_MORE, h', oi')
         else Some (HSDR_POLL_EMPTY, h', oi'))
      else hsd_poll_loop h' oi')"

text \<open>The result carries the bytes written, whose number is \<open>*output_size\<close> of the C interface.\<close>

definition heatshrink_decoder_poll ::
  "heatshrink_decoder \<Rightarrow> u32 \<Rightarrow> nat \<Rightarrow> (hsd_poll_res \<times> heatshrink_decoder \<times> u8 list) option" where
  "heatshrink_decoder_poll h out_buf out_buf_size =
     (if out_buf = 0 then Some (HSDR_POLL_ERROR_NULL, h, [])
      else map_option (\<lambda>(res, h, oi). (res, h, oi_buf oi))
             (hsd_poll_loop h \<lparr>oi_buf = [], oi_buf_size = out_buf_size\<rparr>))"

definition heatshrink_decoder_finish :: "heatshrink_decoder \<Rightarrow> hsd_finish_res" where
  "heatshrink_decoder_finish h =
     (case hsd_st h of
        HSDS_YIELD_BACKREF \<Rightarrow> HSDR_FINISH_MORE
      | _ \<Rightarrow> if hsd_input_size h = 0 then HSDR_FINISH_DONE else HSDR_FINISH_MORE)"

section \<open>Abstraction: the bits a decoder holds\<close>

definition bit_cnt :: "u8 \<Rightarrow> nat" where
  "bit_cnt b = (if b = 0 then 0 else if b = 1 then 1 else if b = 2 then 2 else if b = 4 then 3
     else if b = 8 then 4 else if b = 16 then 5 else if b = 32 then 6 else if b = 64 then 7 else 8)"

definition hsd_in :: "heatshrink_decoder \<Rightarrow> u8 list" where
  "hsd_in h = take (unat (hsd_input_size h) - unat (hsd_input_index h))
                   (drop (unat (hsd_input_index h)) (hsd_buffers h))"

definition hsd_pend :: "heatshrink_decoder \<Rightarrow> bool list" where
  "hsd_pend h = to_bits (bit_cnt (hsd_bit_index h)) (hsd_current_byte h) @ bits_of_bytes (hsd_in h)"

definition hsd_input_ok :: "heatshrink_decoder \<Rightarrow> bool" where
  "hsd_input_ok h \<longleftrightarrow> length (hsd_buffers h) = 2080 \<and> unat (hsd_input_size h) \<le> 32 \<and>
     (hsd_input_index h < hsd_input_size h \<or> hsd_input_size h = 0 \<and> hsd_input_index h = 0) \<and>
     hsd_bit_index h \<in> {0, 1, 2, 4, 8, 16, 32, 64, 128}"

lemma shift_bit_index:
  assumes "b \<in> {1, 2, 4, 8, 16, 32, 64, 128}"
  shows "bit_cnt b = Suc (bit_cnt (drop_bit 1 b))" "bit_cnt b \<le> 8"
    "(c AND b \<noteq> 0) = bit c (bit_cnt (drop_bit 1 b))"
    "drop_bit 1 b \<in> {0, 1, 2, 4, 8, 16, 32, 64, 128}"
proof -
  have "\<exists>k. b = 2 ^ k \<and> bit_cnt (drop_bit 1 b) = k \<and> bit_cnt b = Suc k \<and> k < 8
      \<and> drop_bit 1 b \<in> {0, 1, 2, 4, 8, 16, 32, 64, 128}"
    using assms
    apply (elim insertE emptyE)
    subgoal by (intro exI [of _ 0]) (simp add: bit_cnt_def)
    subgoal by (intro exI [of _ 1]) (simp add: bit_cnt_def)
    subgoal by (intro exI [of _ 2]) (simp add: bit_cnt_def)
    subgoal by (intro exI [of _ 3]) (simp add: bit_cnt_def)
    subgoal by (intro exI [of _ 4]) (simp add: bit_cnt_def)
    subgoal by (intro exI [of _ 5]) (simp add: bit_cnt_def)
    subgoal by (intro exI [of _ 6]) (simp add: bit_cnt_def)
    subgoal by (intro exI [of _ 7]) (simp add: bit_cnt_def)
    done
  then obtain k where k: "b = 2 ^ k" "bit_cnt (drop_bit 1 b) = k" "bit_cnt b = Suc k" "k < 8"
    "drop_bit 1 b \<in> {0, 1, 2, 4, 8, 16, 32, 64, 128}" by blast
  then show "bit_cnt b = Suc (bit_cnt (drop_bit 1 b))" "bit_cnt b \<le> 8"
    "drop_bit 1 b \<in> {0, 1, 2, 4, 8, 16, 32, 64, 128}" by simp_all
  show "(c AND b \<noteq> 0) = bit c (bit_cnt (drop_bit 1 b))"
    using k(1,2) and_exp_eq_0_iff_not_bit [of c k] by (simp only: not_not)
qed

lemma to_bits_Suc: "to_bits (Suc n) w = bit w n # to_bits n w"
  by (auto simp: to_bits_def upt_conv_Cons map_Suc_upt [symmetric] simp del: upt_Suc)

lemma pend_shift:
  assumes "hsd_input_ok h" "hsd_bit_index h \<noteq> 0"
  defines "h' \<equiv> h\<lparr>hsd_bit_index := drop_bit 1 (hsd_bit_index h)\<rparr>"
  shows "hsd_pend h = (hsd_current_byte h AND hsd_bit_index h \<noteq> 0) # hsd_pend h'"
    "hsd_input_ok h'"
proof -
  have b: "hsd_bit_index h \<in> {1, 2, 4, 8, 16, 32, 64, 128}"
    using assms(1,2) by (auto simp: hsd_input_ok_def)
  show "hsd_pend h = (hsd_current_byte h AND hsd_bit_index h \<noteq> 0) # hsd_pend h'"
    using shift_bit_index [OF b]
    by (simp add: hsd_pend_def h'_def hsd_in_def to_bits_Suc)
  show "hsd_input_ok h'" using assms(1) shift_bit_index(4) [OF b]
    by (auto simp: hsd_input_ok_def h'_def)
qed

lemma pend_pull:
  assumes ok: "hsd_input_ok h" and e: "hsd_bit_index h = 0" and ne: "hsd_input_size h \<noteq> 0"
  shows "hsd_pend (pull_byte h) = hsd_pend h" "hsd_input_ok (pull_byte h)"
    "hsd_bit_index (pull_byte h) = 0x80"
proof -
  let ?i = "hsd_input_index h" and ?s = "hsd_input_size h"
  have lt: "unat ?i < unat ?s" "unat ?s \<le> 32" "length (hsd_buffers h) = 2080"
    using ok ne by (auto simp: hsd_input_ok_def word_less_nat_alt)
  then have i1: "unat (?i + 1) = unat ?i + 1" by (simp add: unat_word_ariths)
  have eq: "(?i + 1 = ?s) = (unat ?i + 1 = unat ?s)" using i1 by (metis unsigned_word_eqI)
  have drop: "drop (unat ?i) (hsd_buffers h) = hsd_buffers h ! unat ?i # drop (unat ?i + 1) (hsd_buffers h)"
    using lt by (simp add: Cons_nth_drop_Suc)
  show "hsd_pend (pull_byte h) = hsd_pend h"
    using lt i1 e drop
    by (auto simp: hsd_pend_def hsd_in_def pull_byte_def Let_def eq bit_cnt_def take_Cons' to_bits_def)
  show "hsd_input_ok (pull_byte h)"
    using ok lt i1 eq by (auto simp: hsd_input_ok_def pull_byte_def Let_def word_less_nat_alt)
  show "hsd_bit_index (pull_byte h) = 0x80" by (simp add: pull_byte_def Let_def)
qed


text \<open>\<open>get_bits\<close> changes only where it stands in the input.\<close>

definition same_but_input :: "heatshrink_decoder \<Rightarrow> heatshrink_decoder \<Rightarrow> bool" where
  "same_but_input h h' \<longleftrightarrow> (\<exists>s i c b. h' = h\<lparr>hsd_input_size := s, hsd_input_index := i,
     hsd_current_byte := c, hsd_bit_index := b\<rparr>)"

lemma same_but_inputD:
  "same_but_input h h' \<Longrightarrow> hsd_output_count h' = hsd_output_count h
     \<and> hsd_output_index h' = hsd_output_index h \<and> hsd_head_index h' = hsd_head_index h
     \<and> hsd_buffers h' = hsd_buffers h \<and> hsd_st h' = hsd_st h"
  by (auto simp: same_but_input_def)

lemma same_but_input_refl: "same_but_input h h"
  unfolding same_but_input_def
  by (rule exI [of _ "hsd_input_size h"], rule exI [of _ "hsd_input_index h"],
      rule exI [of _ "hsd_current_byte h"], rule exI [of _ "hsd_bit_index h"]) simp

lemma same_but_input_trans: "same_but_input h h1 \<Longrightarrow> same_but_input h1 h2 \<Longrightarrow> same_but_input h h2"
  unfolding same_but_input_def by (elim exE) (simp, blast)

lemma same_but_input_shift: "same_but_input h (h\<lparr>hsd_bit_index := b\<rparr>)"
  unfolding same_but_input_def
  by (rule exI [of _ "hsd_input_size h"], rule exI [of _ "hsd_input_index h"],
      rule exI [of _ "hsd_current_byte h"], rule exI [of _ "b"]) simp

lemma same_but_input_pull: "same_but_input h (pull_byte h)"
  unfolding same_but_input_def pull_byte_def Let_def
  by (intro exI [of _ "hsd_buffers h ! unat (hsd_input_index h)"] exI [of _ "0x80"] exI
      [of _ "if hsd_input_index h + 1 = hsd_input_size h then 0 else hsd_input_size h"] exI
      [of _ "if hsd_input_index h + 1 = hsd_input_size h then 0 else hsd_input_index h + 1"]) auto

lemma pend_Nil_iff:
  "hsd_input_ok h \<Longrightarrow> hsd_pend h = [] \<longleftrightarrow> hsd_bit_index h = 0 \<and> hsd_input_size h = 0"
  by (auto simp: hsd_pend_def hsd_in_def hsd_input_ok_def bit_cnt_def to_bits_def word_less_nat_alt
      split: if_splits)

lemma get_bits_loop_correct:
  "hsd_input_ok h \<Longrightarrow> n \<le> length (hsd_pend h) \<Longrightarrow>
   \<exists>h'. get_bits_loop n acc h
          = (foldl (\<lambda>acc b. push_bit 1 acc OR of_bool b) acc (take n (hsd_pend h)), h') \<and>
        hsd_pend h' = drop n (hsd_pend h) \<and> hsd_input_ok h' \<and> same_but_input h h'"
proof (induction n arbitrary: h acc)
  case 0
  then show ?case by (simp add: same_but_input_refl)
next
  case (Suc n)
  define h1 where "h1 = (if hsd_bit_index h = 0 then pull_byte h else h)"
  have ne: "\<not> (hsd_bit_index h = 0 \<and> hsd_input_size h = 0)"
    using Suc.prems pend_Nil_iff by fastforce
  have h1: "hsd_pend h1 = hsd_pend h" "hsd_input_ok h1" "hsd_bit_index h1 \<noteq> 0" "same_but_input h h1"
    using Suc.prems(1) ne pend_pull [of h] same_but_input_pull same_but_input_refl
    by (auto simp: h1_def)
  define h2 where "h2 = h1\<lparr>hsd_bit_index := drop_bit 1 (hsd_bit_index h1)\<rparr>"
  define b where "b = (hsd_current_byte h1 AND hsd_bit_index h1 \<noteq> 0)"
  have p: "hsd_pend h = b # hsd_pend h2" and ok2: "hsd_input_ok h2"
    using pend_shift [OF h1(2,3)] h1(1) by (simp_all add: b_def h2_def)
  have s2: "same_but_input h h2"
    using h1(4) same_but_input_shift same_but_input_trans unfolding h2_def by blast
  have step: "get_bits_loop (Suc n) acc h = get_bits_loop n (push_bit 1 acc OR of_bool b) h2"
    using ne by (auto simp: Let_def h2_def b_def h1_def)
  from Suc.IH [OF ok2, of "push_bit 1 acc OR of_bool b"] Suc.prems(2) p obtain h' where
    "get_bits_loop n (push_bit 1 acc OR of_bool b) h2
       = (foldl (\<lambda>acc b. push_bit 1 acc OR of_bool b) (push_bit 1 acc OR of_bool b) (take n (hsd_pend h2)), h')"
    "hsd_pend h' = drop n (hsd_pend h2)" "hsd_input_ok h'" "same_but_input h2 h'"
    by auto
  with step p s2 show ?case by (auto intro: same_but_input_trans)
qed

lemma length_cur_bits:
  "hsd_input_ok h \<Longrightarrow> k < 8 \<Longrightarrow> unat (hsd_bit_index h) < 2 ^ k \<longleftrightarrow> bit_cnt (hsd_bit_index h) \<le> k"
proof -
  assume "hsd_input_ok h" "k < 8"
  then have "k \<in> {0,1,2,3,4,5,6,7}" "hsd_bit_index h \<in> {0, 1, 2, 4, 8, 16, 32, 64, 128}"
    by (auto simp: hsd_input_ok_def)
  then show ?thesis by (elim insertE emptyE) (simp_all add: bit_cnt_def)
qed

text \<open>The contract of \<open>get_bits\<close>: the bits in stream order, or nothing at all.\<close>

lemma get_bits_correct:
  assumes ok: "hsd_input_ok h" and n: "1 \<le> n" "n \<le> 8"
  shows "if n \<le> length (hsd_pend h) then
           \<exists>h'. get_bits h n = (of_bits (take n (hsd_pend h)), h') \<and> of_bits (take n (hsd_pend h)) \<noteq> NO_BITS
             \<and> hsd_pend h' = drop n (hsd_pend h) \<and> hsd_input_ok h' \<and> same_but_input h h'
         else get_bits h n = (NO_BITS, h) \<and> hsd_input_size h = 0"
proof (cases "n \<le> length (hsd_pend h)")
  case True
  have len: "length (hsd_pend h) = bit_cnt (hsd_bit_index h)" if "hsd_input_size h = 0"
    using that ok by (simp add: hsd_pend_def hsd_in_def hsd_input_ok_def)
  have run: "\<not> (hsd_input_size h = 0 \<and> unat (hsd_bit_index h) < 2 ^ (n - 1))"
    using length_cur_bits [OF ok, of "n - 1"] n True len by auto
  have "unat (of_bits (take n (hsd_pend h)) :: u16) < 2 ^ length (take n (hsd_pend h))"
    by (rule unat_of_bits_less)
  also have "\<dots> \<le> 2 ^ 8" using n by (intro power_increasing) auto
  finally have "of_bits (take n (hsd_pend h)) \<noteq> NO_BITS" by (auto simp: NO_BITS_def)
  with True n run get_bits_loop_correct [OF ok True, of 0] show ?thesis
    by (auto simp: get_bits_def of_bits_def)
next
  case False
  have s0: "hsd_input_size h = 0"
  proof (rule ccontr)
    assume "hsd_input_size h \<noteq> 0"
    then have "hsd_input_index h < hsd_input_size h" "unat (hsd_input_size h) \<le> 32"
      "length (hsd_buffers h) = 2080"
      using ok by (auto simp: hsd_input_ok_def)
    then have "1 \<le> length (hsd_in h)" by (simp add: hsd_in_def word_less_nat_alt)
    then have "8 \<le> length (hsd_pend h)" by (simp add: hsd_pend_def)
    with False n show False by simp
  qed
  then have "length (hsd_pend h) = bit_cnt (hsd_bit_index h)"
    using ok by (simp add: hsd_pend_def hsd_in_def hsd_input_ok_def)
  then have "unat (hsd_bit_index h) < 2 ^ (n - 1)"
    using length_cur_bits [OF ok, of "n - 1"] n False by simp
  with s0 False n show ?thesis by (simp add: get_bits_def)
qed

section \<open>The window\<close>

definition hsd_window_ok :: "heatshrink_decoder \<Rightarrow> u8 list \<Rightarrow> bool" where
  "hsd_window_ok h out \<longleftrightarrow> length (hsd_buffers h) = 2080 \<and> hsd_head_index h = of_nat (length out) \<and>
     (\<forall>d. 1 \<le> d \<and> d \<le> 2048 \<longrightarrow>
        hsd_buffers h ! window_index (of_nat (length out) - of_nat d) = lookback out d)"

lemma window_index_mod: "window_index i = 32 + unat i mod 2048"
proof -
  have "unat (i AND mask 11) = unat i mod 2 ^ 11"
    by (metis take_bit_eq_mask unsigned_take_bit_eq take_bit_eq_mod)
  then show ?thesis by (simp add: window_index_def hs_config)
qed

lemma window_index_less [simp]: "window_index i < 2080"
proof -
  have "unat i mod 2048 < 2048" by simp
  then show ?thesis unfolding window_index_mod by linarith
qed

lemma mod_shift_neq: "m < k \<Longrightarrow> 1 \<le> d \<Longrightarrow> d < k \<Longrightarrow> (m + d) mod k \<noteq> (m :: nat)"
  by (cases "m + d < k") (auto simp: le_mod_geq)

lemma window_index_neq:
  assumes "1 \<le> d" "d < 2048"
  shows "window_index (i - of_nat d) \<noteq> window_index i"
proof
  assume "window_index (i - of_nat d) = window_index i"
  then have eq: "unat (i - of_nat d) mod 2048 = unat i mod 2048" by (simp add: window_index_mod)
  have "unat (x + of_nat d) = (unat x + d) mod 65536" for x :: u16
    using assms by (simp add: unat_word_ariths unat_of_nat)
  from this [of "i - of_nat d"] have "unat i = (unat (i - of_nat d) + d) mod 65536"
    by (simp only: diff_add_cancel)
  then have "unat i mod 2048 = (unat (i - of_nat d) + d) mod 2048"
    by (simp add: mod_mod_cancel)
  also have "\<dots> = (unat (i - of_nat d) mod 2048 + d) mod 2048" by (simp add: mod_add_left_eq)
  finally have "unat i mod 2048 = (unat i mod 2048 + d) mod 2048" by (simp add: eq)
  then show False using mod_shift_neq [of "unat i mod 2048" 2048 d] assms by simp
qed

lemma window_ok_push:
  assumes "hsd_window_ok h out"
  shows "hsd_window_ok (h\<lparr>hsd_buffers := (hsd_buffers h)[window_index (hsd_head_index h) := c],
           hsd_head_index := hsd_head_index h + 1\<rparr>) (out @ [c])"
    (is "hsd_window_ok ?h _")
proof -
  let ?n = "of_nat (length out) :: u16"
  have head: "hsd_head_index h = ?n" using assms by (simp add: hsd_window_ok_def)
  have "hsd_buffers ?h ! window_index (of_nat (length (out @ [c])) - of_nat d) = lookback (out @ [c]) d"
    if d: "1 \<le> d" "d \<le> 2048" for d
  proof -
    obtain e where e: "d = Suc e" "e < 2048" using d by (cases d) auto
    have idx: "of_nat (length (out @ [c])) - of_nat d = ?n - of_nat e" by (simp add: e)
    show ?thesis
    proof (cases "e = 0")
      case True
      then show ?thesis using assms unfolding idx by (simp add: hsd_window_ok_def lookback_def e)
    next
      case False
      then have "hsd_buffers h ! window_index (?n - of_nat e) = lookback out e"
        using assms e(2) unfolding hsd_window_ok_def by (meson less_imp_le_nat less_one not_le)
      moreover have "lookback (out @ [c]) d = lookback out e"
        using e False by (auto simp: lookback_def nth_append)
      ultimately show ?thesis
        using window_index_neq [of e ?n] False e(2) unfolding idx by (simp add: head)
    qed
  qed
  then show ?thesis using assms by (simp add: hsd_window_ok_def)
qed


section \<open>The state machine refines the format\<close>

text \<open>The bits of the current token that the states before the copy have already taken.\<close>

definition hsd_held :: "heatshrink_decoder \<Rightarrow> bool list" where
  "hsd_held h =
     (case hsd_st h of
        HSDS_TAG_BIT \<Rightarrow> []
      | HSDS_YIELD_LITERAL \<Rightarrow> [True]
      | HSDS_BACKREF_INDEX_MSB \<Rightarrow> [False]
      | HSDS_BACKREF_INDEX_LSB \<Rightarrow> False # to_bits 3 (drop_bit 8 (hsd_output_index h))
      | HSDS_BACKREF_COUNT_LSB \<Rightarrow> False # to_bits 11 (hsd_output_index h - 1)
      | _ \<Rightarrow> [])"

definition hsd_token_ok :: "heatshrink_decoder \<Rightarrow> bool" where
  "hsd_token_ok h =
     (case hsd_st h of
        HSDS_BACKREF_INDEX_LSB \<Rightarrow>
          hsd_output_index h = push_bit 8 (drop_bit 8 (hsd_output_index h)) \<and> unat (hsd_output_index h) < 2048
      | HSDS_BACKREF_COUNT_MSB \<Rightarrow> False
      | HSDS_BACKREF_COUNT_LSB \<Rightarrow>
          1 \<le> unat (hsd_output_index h) \<and> unat (hsd_output_index h) \<le> 2048 \<and> hsd_output_count h = 0
      | HSDS_YIELD_BACKREF \<Rightarrow>
          1 \<le> unat (hsd_output_index h) \<and> unat (hsd_output_index h) \<le> 2048 \<and>
          1 \<le> unat (hsd_output_count h) \<and> unat (hsd_output_count h) \<le> 16
      | _ \<Rightarrow> True)"

definition hsd_ok :: "heatshrink_decoder \<Rightarrow> u8 list \<Rightarrow> bool" where
  "hsd_ok h out \<longleftrightarrow> hsd_input_ok h \<and> hsd_token_ok h \<and> hsd_window_ok h out"

text \<open>
  The whole output that the decoder will have produced once it has also received the bits
  \<open>rest\<close>, given the output so far.
\<close>

definition hsd_future :: "heatshrink_decoder \<Rightarrow> u8 list \<Rightarrow> bool list \<Rightarrow> u8 list" where
  "hsd_future h out rest =
     (if hsd_st h = HSDS_YIELD_BACKREF then
        lzss (hsd_pend h @ rest)
          (copy_back (unat (hsd_output_count h)) (unat (hsd_output_index h)) out)
      else lzss (hsd_held h @ hsd_pend h @ rest) out)"

text \<open>Progress of one round: bits still held or pending, then bytes still to copy.\<close>

definition hsd_work :: "heatshrink_decoder \<Rightarrow> nat" where
  "hsd_work h = 2 * length (hsd_pend h) + (if hsd_st h = HSDS_YIELD_BACKREF then 1 else 0)"

definition hsd_step_ok ::
  "heatshrink_decoder \<Rightarrow> u8 list \<Rightarrow> output_info \<Rightarrow> heatshrink_decoder \<times> output_info \<Rightarrow> bool" where
  "hsd_step_ok h out oi r \<longleftrightarrow>
     (case r of (h', oi') \<Rightarrow> \<exists>bs.
        oi' = oi\<lparr>oi_buf := oi_buf oi @ bs\<rparr> \<and> length (oi_buf oi') \<le> oi_buf_size oi \<and>
        hsd_ok h' (out @ bs) \<and> (\<forall>rest. hsd_future h' (out @ bs) rest = hsd_future h out rest) \<and>
        (if hsd_st h' = hsd_st h then
           length (oi_buf oi') = oi_buf_size oi \<and> hsd_st h \<in> {HSDS_YIELD_LITERAL, HSDS_YIELD_BACKREF}
           \<or> bs = [] \<and> h' = h \<and> hsd_input_size h = 0 \<and> hsd_st h \<noteq> HSDS_YIELD_BACKREF \<and>
             hsd_future h out [] = out
         else hsd_work h' < hsd_work h))"

lemma window_ok_frame:
  "hsd_window_ok h out \<Longrightarrow> hsd_buffers h' = hsd_buffers h \<Longrightarrow> hsd_head_index h' = hsd_head_index h
   \<Longrightarrow> hsd_window_ok h' out"
  by (simp add: hsd_window_ok_def)

lemma same_but_input_window: "same_but_input h h' \<Longrightarrow> hsd_window_ok h out \<Longrightarrow> hsd_window_ok h' out"
  by (erule window_ok_frame) (auto dest: same_but_inputD)

lemma hsd_simps_input [simp]:
  "hsd_pend (h\<lparr>hsd_st := s\<rparr>) = hsd_pend h" "hsd_pend (h\<lparr>hsd_output_index := i\<rparr>) = hsd_pend h"
  "hsd_pend (h\<lparr>hsd_output_count := c\<rparr>) = hsd_pend h"
  "hsd_input_ok (h\<lparr>hsd_st := s\<rparr>) = hsd_input_ok h"
  "hsd_input_ok (h\<lparr>hsd_output_index := i\<rparr>) = hsd_input_ok h"
  "hsd_input_ok (h\<lparr>hsd_output_count := c\<rparr>) = hsd_input_ok h"
  "hsd_window_ok (h\<lparr>hsd_st := s\<rparr>) out = hsd_window_ok h out"
  "hsd_window_ok (h\<lparr>hsd_output_index := i\<rparr>) out = hsd_window_ok h out"
  "hsd_window_ok (h\<lparr>hsd_output_count := c\<rparr>) out = hsd_window_ok h out"
  by (auto simp: hsd_pend_def hsd_in_def hsd_input_ok_def hsd_window_ok_def)

lemma lzss_short:
  "lzss [True] out = out" "length bs < 8 \<Longrightarrow> lzss (True # bs) out = out"
  "length bs < 15 \<Longrightarrow> lzss (False # bs) out = out"
  by simp_all

lemma hsd_st_same [simp]: "hsd_st h = s \<Longrightarrow> h\<lparr>hsd_st := s\<rparr> = h"
  by auto

text \<open>A round that writes nothing and moves to another state.\<close>

lemma step_ok_move:
  assumes "length (oi_buf oi) \<le> oi_buf_size oi" "hsd_ok h' out"
    "\<And>rest. hsd_future h' out rest = hsd_future h out rest"
    "hsd_st h' \<noteq> hsd_st h" "hsd_work h' < hsd_work h"
  shows "hsd_step_ok h out oi (h', oi)"
  unfolding hsd_step_ok_def using assms by (auto intro!: exI [of _ "[]"])

text \<open>A round without enough bits changes nothing.\<close>

lemma step_ok_stuck:
  assumes "length (oi_buf oi) \<le> oi_buf_size oi" "hsd_ok h out" "hsd_input_size h = 0"
    "hsd_st h \<noteq> HSDS_YIELD_BACKREF" "hsd_future h out [] = out"
  shows "hsd_step_ok h out oi (h, oi)"
  unfolding hsd_step_ok_def using assms by (auto intro!: exI [of _ "[]"])

text \<open>\<open>get_bits\<close> under the invariant: either the bits, or the state as it was.\<close>

lemma get_bits_cases:
  assumes ok: "hsd_ok h out" and n: "1 \<le> n" "n \<le> 8"
  obtains (bits) bs h' where "get_bits h n = (of_bits bs, h')" "of_bits bs \<noteq> NO_BITS" "length bs = n"
      "hsd_pend h = bs @ hsd_pend h'" "hsd_input_ok h'" "hsd_window_ok h' out"
      "hsd_output_count h' = hsd_output_count h" "hsd_output_index h' = hsd_output_index h"
      "hsd_st h' = hsd_st h" "hsd_head_index h' = hsd_head_index h"
  | (none) "get_bits h n = (NO_BITS, h)" "hsd_input_size h = 0" "length (hsd_pend h) < n"
proof (cases "n \<le> length (hsd_pend h)")
  case True
  with get_bits_correct [of h n] ok n obtain h' where
    h': "get_bits h n = (of_bits (take n (hsd_pend h)), h')" "of_bits (take n (hsd_pend h)) \<noteq> NO_BITS"
    "hsd_pend h' = drop n (hsd_pend h)" "hsd_input_ok h'" "same_but_input h h'"
    by (auto simp: hsd_ok_def)
  show ?thesis
    by (rule bits [of "take n (hsd_pend h)" h'])
      (use h' True ok same_but_inputD [OF h'(5)] same_but_input_window in \<open>auto simp: hsd_ok_def\<close>)
next
  case False
  with get_bits_correct [of h n] ok n show ?thesis
    by (intro none) (auto simp: hsd_ok_def)
qed

lemmas hsd_views = hsd_ok_def hsd_token_ok_def hsd_future_def hsd_held_def hsd_work_def

lemma step_tag_bit:
  assumes ok: "hsd_ok h out" and st: "hsd_st h = HSDS_TAG_BIT" and sz: "length (oi_buf oi) \<le> oi_buf_size oi"
  shows "hsd_step_ok h out oi (hsd_step h oi)"
proof (rule get_bits_cases [OF ok, of 1])
  fix bs h'
  assume g: "get_bits h 1 = (of_bits bs, h')" "(of_bits bs :: u16) \<noteq> NO_BITS" "length bs = 1"
    "hsd_pend h = bs @ hsd_pend h'" "hsd_input_ok h'" "hsd_window_ok h' out"
  then obtain b where b: "bs = [b]" by (auto simp: length_Suc_conv)
  have v: "(of_bits [b] :: u16) = of_bool b" by (simp add: of_bits_def)
  have "hsd_step h oi = (h'\<lparr>hsd_st := if b then HSDS_YIELD_LITERAL else HSDS_BACKREF_INDEX_MSB\<rparr>, oi)"
    using g(1,2) by (simp add: hsd_step_def st st_tag_bit_def b v hs_config)
  then show ?thesis
    by (simp only:) (rule step_ok_move; use g b st sz in \<open>auto simp: hsd_views\<close>)
next
  assume "get_bits h 1 = (NO_BITS, h)" "hsd_input_size h = 0" "length (hsd_pend h) < 1"
  then show ?thesis using st ok sz
    by (simp add: hsd_step_def st_tag_bit_def) (rule step_ok_stuck; simp add: hsd_views)
qed simp_all

lemma step_index_msb:
  assumes ok: "hsd_ok h out" and st: "hsd_st h = HSDS_BACKREF_INDEX_MSB"
    and sz: "length (oi_buf oi) \<le> oi_buf_size oi"
  shows "hsd_step_ok h out oi (hsd_step h oi)"
proof (rule get_bits_cases [OF ok, of 3])
  fix bs h'
  assume g: "get_bits h 3 = (of_bits bs, h')" "(of_bits bs :: u16) \<noteq> NO_BITS" "length bs = 3"
    "hsd_pend h = bs @ hsd_pend h'" "hsd_input_ok h'" "hsd_window_ok h' out"
  let ?i = "push_bit 8 (of_bits bs) :: u16"
  have step: "hsd_step h oi = (h'\<lparr>hsd_output_index := ?i, hsd_st := HSDS_BACKREF_INDEX_LSB\<rparr>, oi)"
    using g(1,2) by (simp add: hsd_step_def st st_backref_index_msb_def hs_config)
  have d: "drop_bit 8 ?i = of_bits bs"
    using g(3) by (intro bit_word_eqI) (auto simp: bit_simps bit_of_bits)
  have "unat (of_bits bs :: u16) < 8" using unat_of_bits_less [of bs, where 'a = 16] g(3) by simp
  then have i: "unat ?i < 2048" by (simp add: push_bit_eq_mult unat_word_ariths)
  show ?thesis unfolding step
    by (rule step_ok_move; use g d i st sz in \<open>auto simp: hsd_views to_bits_of_bits\<close>)
next
  assume "get_bits h 3 = (NO_BITS, h)" "hsd_input_size h = 0" "length (hsd_pend h) < 3"
  then show ?thesis using st ok sz
    by (simp add: hsd_step_def st_backref_index_msb_def hs_config) (rule step_ok_stuck; simp add: hsd_views)
qed simp_all


lemma of_bits_unat_le: "length bs = n \<Longrightarrow> unat (of_bits bs :: 'a::len word) + 1 \<le> 2 ^ n"
  using unat_of_bits_less [of bs, where 'a = 'a] by simp

lemma unat_plus_one: "unat (x :: u16) < 65535 \<Longrightarrow> unat (x + 1) = unat x + 1"
  by (simp add: unat_word_ariths)

lemma step_index_lsb:
  assumes ok: "hsd_ok h out" and st: "hsd_st h = HSDS_BACKREF_INDEX_LSB"
    and sz: "length (oi_buf oi) \<le> oi_buf_size oi"
  shows "hsd_step_ok h out oi (hsd_step h oi)"
proof (rule get_bits_cases [OF ok, of 8])
  fix bs h'
  assume g: "get_bits h 8 = (of_bits bs, h')" "(of_bits bs :: u16) \<noteq> NO_BITS" "length bs = 8"
    "hsd_pend h = bs @ hsd_pend h'" "hsd_input_ok h'" "hsd_window_ok h' out"
    "hsd_output_count h' = hsd_output_count h" "hsd_output_index h' = hsd_output_index h"
    "hsd_st h' = hsd_st h"
  let ?o = "hsd_output_index h"
  define as where "as = to_bits 3 (drop_bit 8 ?o)"
  have "unat ?o < 2048" "?o = push_bit 8 (drop_bit 8 ?o)" using ok st by (auto simp: hsd_ok_def hsd_token_ok_def)
  have "unat (drop_bit 8 ?o) < 2 ^ 3"
    using \<open>unat ?o < 2048\<close> by (simp add: drop_bit_eq_div unat_div less_mult_imp_div_less)
  then have "take_bit 3 (drop_bit 8 ?o) = drop_bit 8 ?o"
    by (metis take_bit_nat_eq_self unsigned_take_bit_eq unsigned_word_eqI)
  then have o: "?o OR of_bits bs = of_bits (as @ bs)"
    using \<open>?o = _\<close> g(3) by (simp add: of_bits_append as_def of_bits_to_bits)
  have len: "length (as @ bs) = 11" using g(3) by (simp add: as_def)
  have lt: "unat (of_bits (as @ bs) :: u16) + 1 \<le> 2048" using of_bits_unat_le [OF len, where 'a = 16] by simp
  have i: "unat (of_bits (as @ bs) + 1 :: u16) = unat (of_bits (as @ bs) :: u16) + 1"
    using lt by (intro unat_plus_one) simp
  have tb: "to_bits 11 (of_bits (as @ bs) :: u16) = as @ bs" by (rule to_bits_of_bits [OF len]) simp
  have step: "hsd_step h oi = (h'\<lparr>hsd_output_index := of_bits (as @ bs) + 1, hsd_output_count := 0,
      hsd_st := HSDS_BACKREF_COUNT_LSB\<rparr>, oi)"
    using g(1,2) by (simp add: hsd_step_def st st_backref_index_lsb_def hs_config g(8) o)
  show ?thesis unfolding step
    by (rule step_ok_move; use g st sz lt i tb in \<open>auto simp: hsd_views simp flip: as_def\<close>)
next
  assume "get_bits h 8 = (NO_BITS, h)" "hsd_input_size h = 0" "length (hsd_pend h) < 8"
  then show ?thesis using st ok sz
    by (simp add: hsd_step_def st_backref_index_lsb_def hs_config) (rule step_ok_stuck; simp add: hsd_views)
qed simp_all

lemma step_count_lsb:
  assumes ok: "hsd_ok h out" and st: "hsd_st h = HSDS_BACKREF_COUNT_LSB"
    and sz: "length (oi_buf oi) \<le> oi_buf_size oi"
  shows "hsd_step_ok h out oi (hsd_step h oi)"
proof (rule get_bits_cases [OF ok, of 4])
  fix bs h'
  assume g: "get_bits h 4 = (of_bits bs, h')" "(of_bits bs :: u16) \<noteq> NO_BITS" "length bs = 4"
    "hsd_pend h = bs @ hsd_pend h'" "hsd_input_ok h'" "hsd_window_ok h' out"
    "hsd_output_count h' = hsd_output_count h" "hsd_output_index h' = hsd_output_index h"
    "hsd_st h' = hsd_st h"
  let ?o = "hsd_output_index h"
  have o: "1 \<le> unat ?o" "unat ?o \<le> 2048" "hsd_output_count h = 0"
    using ok st by (auto simp: hsd_ok_def hsd_token_ok_def)
  have lt: "unat (of_bits bs :: u16) + 1 \<le> 16" using of_bits_unat_le [OF g(3), where 'a = 16] by simp
  have c: "unat (of_bits bs + 1 :: u16) = unat (of_bits bs :: u16) + 1"
    using lt by (intro unat_plus_one) simp
  have o1: "unat (?o - 1) = unat ?o - 1" using o(1) by (intro unat_minus_one) auto
  have "take_bit 11 (?o - 1) = ?o - 1"
    by (rule unsigned_word_eqI, subst unsigned_take_bit_eq, rule take_bit_nat_eq_self) (use o o1 in simp)
  then have ix: "unat (of_bits (to_bits 11 (?o - 1)) :: u16) + 1 = unat ?o"
    using o o1 by (simp add: of_bits_to_bits)
  have step: "hsd_step h oi = (h'\<lparr>hsd_output_count := of_bits bs + 1, hsd_st := HSDS_YIELD_BACKREF\<rparr>, oi)"
    using g(1,2) by (simp add: hsd_step_def st st_backref_count_lsb_def hs_config g(7) o)
  show ?thesis unfolding step
    by (rule step_ok_move; use g st sz lt c ix o in \<open>auto simp: hsd_views\<close>)
next
  assume "get_bits h 4 = (NO_BITS, h)" "hsd_input_size h = 0" "length (hsd_pend h) < 4"
  then show ?thesis using st ok sz
    by (simp add: hsd_step_def st_backref_count_lsb_def hs_config) (rule step_ok_stuck; simp add: hsd_views)
qed simp_all

lemma step_literal:
  assumes ok: "hsd_ok h out" and st: "hsd_st h = HSDS_YIELD_LITERAL"
    and sz: "length (oi_buf oi) \<le> oi_buf_size oi"
  shows "hsd_step_ok h out oi (hsd_step h oi)"
proof (cases "length (oi_buf oi) < oi_buf_size oi")
  case False
  then have "hsd_step h oi = (h, oi)" using st by (simp add: hsd_step_def st_yield_literal_def)
  then show ?thesis using False ok sz st
    by (simp add: hsd_step_ok_def) (intro exI [of _ "[]"]; simp)
next
  case room: True
  show ?thesis
  proof (rule get_bits_cases [OF ok, of 8])
    fix bs h'
    assume g: "get_bits h 8 = (of_bits bs, h')" "(of_bits bs :: u16) \<noteq> NO_BITS" "length bs = 8"
      "hsd_pend h = bs @ hsd_pend h'" "hsd_input_ok h'" "hsd_window_ok h' out"
      "hsd_output_count h' = hsd_output_count h" "hsd_output_index h' = hsd_output_index h"
      "hsd_st h' = hsd_st h" "hsd_head_index h' = hsd_head_index h"
    define c where "c = (of_bits bs :: u8)"
    have c: "ucast (of_bits bs AND 0xFF :: u16) = c"
      by (rule bit_word_eqI) (auto simp: c_def bit_of_bits bit_simps FF_eq_mask)
    let ?h = "h'\<lparr>hsd_buffers := (hsd_buffers h')[window_index (hsd_head_index h') := c],
        hsd_head_index := hsd_head_index h' + 1\<rparr>"
    have w: "hsd_window_ok ?h (out @ [c])" using g(6) by (rule window_ok_push)
    have p: "hsd_pend ?h = hsd_pend h'"
    proof -
      have "unat (hsd_input_size h') \<le> 32" "unat (hsd_input_index h') \<le> unat (hsd_input_size h')"
        using g(5) by (auto simp: hsd_input_ok_def word_less_nat_alt)
      moreover have "32 \<le> window_index (hsd_head_index h')" by (simp add: window_index_mod)
      ultimately show ?thesis by (simp add: hsd_pend_def hsd_in_def take_drop)
    qed
    have i: "hsd_input_ok ?h" using g(5) by (simp add: hsd_input_ok_def)
    have step: "hsd_step h oi = (?h\<lparr>hsd_st := HSDS_TAG_BIT\<rparr>, oi\<lparr>oi_buf := oi_buf oi @ [c]\<rparr>)"
      using g(1,2) room by (simp add: hsd_step_def st st_yield_literal_def push_byte_def c)
    show ?thesis unfolding step
      using w p i g st room
      by (simp add: hsd_step_ok_def) (intro exI [of _ "[c]"]; simp add: hsd_views c_def)
  next
    assume "get_bits h 8 = (NO_BITS, h)" "hsd_input_size h = 0" "length (hsd_pend h) < 8"
    then show ?thesis using st ok sz room
      by (simp add: hsd_step_def st_yield_literal_def) (rule step_ok_stuck; simp add: hsd_views)
  qed simp_all
qed

lemma lzss_copy_step: "copy_back (m + n) d out = copy_back n d (copy_back m d out)"
  by (induction m d out rule: copy_back.induct) auto

text \<open>The copy loop appends exactly what the format prescribes.\<close>

lemma backref_loop_correct:
  assumes "hsd_input_ok h" "hsd_window_ok h out"
    and "1 \<le> unat (hsd_output_index h)" "unat (hsd_output_index h) \<le> 2048"
  shows "\<exists>h' bs. backref_loop n h oi = (h', oi\<lparr>oi_buf := oi_buf oi @ bs\<rparr>) \<and> length bs = n \<and>
     copy_back n (unat (hsd_output_index h)) out = out @ bs \<and>
     hsd_input_ok h' \<and> hsd_window_ok h' (out @ bs) \<and> hsd_pend h' = hsd_pend h \<and>
     hsd_output_index h' = hsd_output_index h \<and> hsd_output_count h' = hsd_output_count h \<and>
     hsd_st h' = hsd_st h"
  using assms
proof (induction n arbitrary: h out oi)
  case 0
  then show ?case by (intro exI [of _ h] exI [of _ "[]"]) simp
next
  case (Suc n)
  let ?d = "unat (hsd_output_index h)"
  define c where "c = lookback out ?d"
  define h1 where "h1 = h\<lparr>hsd_buffers := (hsd_buffers h)[window_index (hsd_head_index h) := c],
           hsd_head_index := hsd_head_index h + 1\<rparr>"
  have "hsd_buffers h ! window_index (of_nat (length out) - of_nat ?d) = c"
    using Suc.prems by (simp only: hsd_window_ok_def c_def)
  then have c: "hsd_buffers h ! window_index (hsd_head_index h - hsd_output_index h) = c"
    using Suc.prems(2) by (simp add: hsd_window_ok_def)
  have step: "backref_loop (Suc n) h oi = backref_loop n h1 (oi\<lparr>oi_buf := oi_buf oi @ [c]\<rparr>)"
    by (simp add: Let_def c push_byte_def h1_def)
  have w1: "hsd_window_ok h1 (out @ [c])" unfolding h1_def by (rule window_ok_push [OF Suc.prems(2)])
  have "unat (hsd_input_size h) \<le> 32" "unat (hsd_input_index h) \<le> unat (hsd_input_size h)"
    using Suc.prems(1) by (auto simp: hsd_input_ok_def word_less_nat_alt)
  moreover have "32 \<le> window_index (hsd_head_index h)" by (simp add: window_index_mod)
  ultimately have p1: "hsd_pend h1 = hsd_pend h" by (simp add: hsd_pend_def hsd_in_def take_drop h1_def)
  have i1: "hsd_input_ok h1" using Suc.prems(1) by (simp add: hsd_input_ok_def h1_def)
  have f1: "hsd_output_index h1 = hsd_output_index h" "hsd_output_count h1 = hsd_output_count h"
    "hsd_st h1 = hsd_st h" by (simp_all add: h1_def)
  from Suc.IH [OF i1 w1, of "oi\<lparr>oi_buf := oi_buf oi @ [c]\<rparr>"] Suc.prems(3,4) f1 p1
  obtain h' bs where "backref_loop n h1 (oi\<lparr>oi_buf := oi_buf oi @ [c]\<rparr>)
        = (h', oi\<lparr>oi_buf := oi_buf oi @ [c] @ bs\<rparr>)" "length bs = n"
    "copy_back n ?d (out @ [c]) = (out @ [c]) @ bs" "hsd_input_ok h'" "hsd_window_ok h' ((out @ [c]) @ bs)"
    "hsd_pend h' = hsd_pend h" "hsd_output_index h' = hsd_output_index h"
    "hsd_output_count h' = hsd_output_count h" "hsd_st h' = hsd_st h"
    by auto
  then show ?case unfolding step by (intro exI [of _ h'] exI [of _ "c # bs"]) (simp add: c_def)
qed

lemma step_backref:
  assumes ok: "hsd_ok h out" and st: "hsd_st h = HSDS_YIELD_BACKREF"
    and sz: "length (oi_buf oi) \<le> oi_buf_size oi"
  shows "hsd_step_ok h out oi (hsd_step h oi)"
proof (cases "length (oi_buf oi) < oi_buf_size oi")
  case False
  then have "hsd_step h oi = (h, oi)" using st by (simp add: hsd_step_def st_yield_backref_def)
  then show ?thesis using False ok sz st
    by (simp add: hsd_step_ok_def) (intro exI [of _ "[]"]; simp)
next
  case True
  let ?c = "hsd_output_count h" and ?d = "unat (hsd_output_index h)"
  define n where "n = min (unat ?c) (oi_buf_size oi - length (oi_buf oi))"
  have tok: "1 \<le> ?d" "?d \<le> 2048" "1 \<le> unat ?c" "unat ?c \<le> 16" and i: "hsd_input_ok h" "hsd_window_ok h out"
    using ok st by (auto simp: hsd_ok_def hsd_token_ok_def)
  have n: "1 \<le> n" "n \<le> unat ?c" "length (oi_buf oi) + n \<le> oi_buf_size oi"
    using True tok by (auto simp: n_def)
  from backref_loop_correct [OF i tok(1,2), of n oi] obtain h' bs where
    l: "backref_loop n h oi = (h', oi\<lparr>oi_buf := oi_buf oi @ bs\<rparr>)" "length bs = n"
    "copy_back n ?d out = out @ bs" "hsd_input_ok h'" "hsd_window_ok h' (out @ bs)"
    "hsd_pend h' = hsd_pend h" "hsd_output_index h' = hsd_output_index h"
    "hsd_output_count h' = ?c" "hsd_st h' = hsd_st h"
    by auto
  let ?c' = "?c - of_nat n"
  have c': "unat ?c' = unat ?c - n"
    using n(2) tok(4) by (simp add: unat_sub_if' unat_of_nat)
  have z: "(?c' = 0) = (unat ?c = n)"
    by (subst word_unat_eq_iff, subst c') (use n(2) in auto)
  define s where "s = (if ?c' = 0 then HSDS_TAG_BIT else HSDS_YIELD_BACKREF)"
  have n_alt: "(if unat ?c < oi_buf_size oi - length (oi_buf oi) then unat ?c
      else oi_buf_size oi - length (oi_buf oi)) = n" by (simp add: n_def min_def)
  have "st_yield_backref h oi = (s, h'\<lparr>hsd_output_count := ?c'\<rparr>, oi\<lparr>oi_buf := oi_buf oi @ bs\<rparr>)"
    using True unfolding st_yield_backref_def Let_def n_alt l(1) by (simp add: l(8) s_def)
  then have step: "hsd_step h oi = (h'\<lparr>hsd_output_count := ?c', hsd_st := s\<rparr>, oi\<lparr>oi_buf := oi_buf oi @ bs\<rparr>)"
    by (simp add: hsd_step_def st)
  have cp: "copy_back (unat ?c) ?d out = copy_back (unat ?c - n) ?d (out @ bs)"
    using lzss_copy_step [of n "unat ?c - n" ?d out] n(2) l(3) by simp
  show ?thesis
  proof (cases "unat ?c = n")
    case True
    then show ?thesis unfolding step using l z cp st n
      by (simp add: hsd_step_ok_def s_def) (intro exI [of _ bs]; simp add: hsd_views)
  next
    case False
    then have "length (oi_buf oi) + n = oi_buf_size oi" using n_def \<open>length (oi_buf oi) < _\<close> by (simp add: min_def split: if_splits)
    moreover have "1 \<le> unat ?c - n" "unat ?c - n \<le> 16" using False n(2) tok(4) by auto
    ultimately show ?thesis unfolding step using False l z cp st n(1) c' tok(1,2)
      by (simp add: hsd_step_ok_def s_def) (intro exI [of _ bs]; simp add: hsd_views)
  qed
qed

theorem hsd_step_correct:
  assumes ok: "hsd_ok h out" and sz: "length (oi_buf oi) \<le> oi_buf_size oi"
  shows "hsd_step_ok h out oi (hsd_step h oi)"
proof (cases "hsd_st h")
  case HSDS_BACKREF_COUNT_MSB
  then show ?thesis using ok by (simp add: hsd_ok_def hsd_token_ok_def)
qed (use assms in \<open>auto intro: step_tag_bit step_literal step_index_msb step_index_lsb
  step_count_lsb step_backref\<close>)


section \<open>Polling\<close>

declare hsd_poll_loop.simps [simp del]

lemma poll_loop_correct:
  "hsd_ok h out \<Longrightarrow> length (oi_buf oi) \<le> oi_buf_size oi \<Longrightarrow>
   \<exists>res h' bs. hsd_poll_loop h oi = Some (res, h', oi\<lparr>oi_buf := oi_buf oi @ bs\<rparr>) \<and>
     length (oi_buf oi) + length bs \<le> oi_buf_size oi \<and> hsd_ok h' (out @ bs) \<and>
     (\<forall>rest. hsd_future h' (out @ bs) rest = hsd_future h out rest) \<and>
     (res = HSDR_POLL_MORE \<or> res = HSDR_POLL_EMPTY) \<and>
     (res = HSDR_POLL_MORE \<longleftrightarrow> length (oi_buf oi) + length bs = oi_buf_size oi) \<and>
     (res = HSDR_POLL_EMPTY \<longrightarrow> hsd_input_size h' = 0 \<and> hsd_st h' \<noteq> HSDS_YIELD_BACKREF \<and>
        hsd_future h' (out @ bs) [] = out @ bs)"
proof (induction "hsd_work h" arbitrary: h out oi rule: less_induct)
  case less
  obtain h1 oi1 where s: "hsd_step h oi = (h1, oi1)" by fastforce
  from hsd_step_correct [OF less.prems] obtain bs where
    r: "oi1 = oi\<lparr>oi_buf := oi_buf oi @ bs\<rparr>" "length (oi_buf oi1) \<le> oi_buf_size oi"
      "hsd_ok h1 (out @ bs)" "\<forall>rest. hsd_future h1 (out @ bs) rest = hsd_future h out rest" and
    d: "if hsd_st h1 = hsd_st h then
           length (oi_buf oi1) = oi_buf_size oi \<and> hsd_st h \<in> {HSDS_YIELD_LITERAL, HSDS_YIELD_BACKREF}
           \<or> bs = [] \<and> h1 = h \<and> hsd_input_size h = 0 \<and> hsd_st h \<noteq> HSDS_YIELD_BACKREF \<and>
             hsd_future h out [] = out
         else hsd_work h1 < hsd_work h"
    unfolding s hsd_step_ok_def by auto
  show ?case
  proof (cases "hsd_st h1 = hsd_st h")
    case True
    with d have c: "length (oi_buf oi1) = oi_buf_size oi \<or>
        (bs = [] \<and> h1 = h \<and> hsd_input_size h = 0 \<and> hsd_st h \<noteq> HSDS_YIELD_BACKREF \<and> hsd_future h out [] = out)"
      by auto
    define res where "res = (if length (oi_buf oi1) = oi_buf_size oi then HSDR_POLL_MORE else HSDR_POLL_EMPTY)"
    have "hsd_poll_loop h oi = Some (res, h1, oi1)"
      by (subst hsd_poll_loop.simps) (simp add: s True res_def r(1))
    then show ?thesis using r c
      by (intro exI [of _ res] exI [of _ h1] exI [of _ bs]) (auto simp: res_def)
  next
    case False
    with d have w: "hsd_work h1 < hsd_work h" by simp
    have sz: "length (oi_buf oi1) \<le> oi_buf_size oi1" using r by simp
    have l: "hsd_poll_loop h oi = hsd_poll_loop h1 oi1"
      by (subst hsd_poll_loop.simps) (simp add: s False)
    from less.hyps [OF w r(3) sz] obtain res h' cs where
      "hsd_poll_loop h1 oi1 = Some (res, h', oi1\<lparr>oi_buf := oi_buf oi1 @ cs\<rparr>)"
      "length (oi_buf oi1) + length cs \<le> oi_buf_size oi1" "hsd_ok h' ((out @ bs) @ cs)"
      "\<forall>rest. hsd_future h' ((out @ bs) @ cs) rest = hsd_future h1 (out @ bs) rest"
      "res = HSDR_POLL_MORE \<or> res = HSDR_POLL_EMPTY"
      "res = HSDR_POLL_MORE \<longleftrightarrow> length (oi_buf oi1) + length cs = oi_buf_size oi1"
      "res = HSDR_POLL_EMPTY \<longrightarrow> hsd_input_size h' = 0 \<and> hsd_st h' \<noteq> HSDS_YIELD_BACKREF \<and>
         hsd_future h' ((out @ bs) @ cs) [] = (out @ bs) @ cs" by blast
    with l r show ?thesis
      by (intro exI [of _ res] exI [of _ h'] exI [of _ "bs @ cs"]) auto
  qed
qed

lemma poll_correct:
  assumes "hsd_ok h out" "out_buf \<noteq> 0"
  obtains res h' bs where "heatshrink_decoder_poll h out_buf n = Some (res, h', bs)" "length bs \<le> n"
    "hsd_ok h' (out @ bs)" "\<And>rest. hsd_future h' (out @ bs) rest = hsd_future h out rest"
    "res = HSDR_POLL_MORE \<or> res = HSDR_POLL_EMPTY"
    "res = HSDR_POLL_MORE \<longleftrightarrow> length bs = n"
    "res = HSDR_POLL_EMPTY \<Longrightarrow> hsd_input_size h' = 0 \<and> hsd_st h' \<noteq> HSDS_YIELD_BACKREF \<and>
       hsd_future h' (out @ bs) [] = out @ bs"
  using poll_loop_correct [OF assms(1), of "\<lparr>oi_buf = [], oi_buf_size = n\<rparr>"] assms(2)
  by (auto simp: heatshrink_decoder_poll_def)

section \<open>Feeding and finishing\<close>

lemma reset_ok: "hsd_ok heatshrink_decoder_reset []"
  by (auto simp: hsd_ok_def heatshrink_decoder_reset_def hsd_input_ok_def hsd_token_ok_def
      hsd_window_ok_def hs_config lookback_def nth_replicate)

lemma reset_future: "hsd_future heatshrink_decoder_reset [] rest = lzss rest []"
  by (simp add: hsd_future_def heatshrink_decoder_reset_def hsd_held_def hsd_pend_def hsd_in_def
      bit_cnt_def to_bits_def)

lemma sink_correct:
  fixes bytes :: "u8 list"
  assumes ok: "hsd_ok h out" and e: "hsd_input_size h = 0" and nn: "in_buf \<noteq> 0"
  defines "n \<equiv> min 32 (length bytes)"
  obtains h' where "heatshrink_decoder_sink h in_buf bytes = (HSDR_SINK_OK, h', n)" "hsd_ok h' out"
    "\<And>rest. hsd_future h' out rest = hsd_future h out (bits_of_bytes (take n bytes) @ rest)"
    "0 < n \<Longrightarrow> hsd_input_size h' \<noteq> 0" "hsd_st h' = hsd_st h"
proof -
  define h' where "h' = h\<lparr>hsd_buffers := array_write (hsd_buffers h) 0 (take n bytes),
      hsd_input_size := of_nat n\<rparr>"
  have n: "n \<le> 32" "length (take n bytes) = n" by (simp_all add: n_def)
  have s: "heatshrink_decoder_sink h in_buf bytes = (HSDR_SINK_OK, h', n)"
    by (simp add: heatshrink_decoder_sink_def hs_config e h'_def n_def Let_def nn)
  have un: "unat (of_nat n :: u16) = n" using n by (simp add: unat_of_nat)
  have io: "hsd_input_ok h" "hsd_input_index h = 0" "length (hsd_buffers h) = 2080"
    using ok e by (auto simp: hsd_ok_def hsd_input_ok_def word_less_nat_alt)
  have "(of_nat n :: u16) \<noteq> 0 \<Longrightarrow> 0 < n" by (cases n) auto
  then have i': "hsd_input_ok h'"
    using io n un e by (auto simp: hsd_input_ok_def h'_def array_write_def word_less_nat_alt)
  have hi: "32 \<le> window_index i" for i by (simp add: window_index_mod)
  have nth: "array_write (hsd_buffers h) 0 (take n bytes) ! window_index i = hsd_buffers h ! window_index i" for i
    using hi [of i] n io by (simp add: array_write_def nth_append)
  have w': "hsd_window_ok h' out"
    using ok n by (simp add: hsd_ok_def hsd_window_ok_def h'_def nth) (simp add: array_write_def)
  have p': "hsd_pend h' = hsd_pend h @ bits_of_bytes (take n bytes)"
    using io e n un by (simp add: hsd_pend_def hsd_in_def h'_def array_write_def)
  have st: "hsd_st h' = hsd_st h" "hsd_output_index h' = hsd_output_index h"
    "hsd_output_count h' = hsd_output_count h" by (simp_all add: h'_def)
  show ?thesis
  proof (rule that [OF s])
    have "hsd_token_ok h' = hsd_token_ok h" unfolding hsd_token_ok_def st ..
    then show "hsd_ok h' out" using ok i' w' by (simp add: hsd_ok_def)
    have "hsd_held h' = hsd_held h" unfolding hsd_held_def st ..
    then show "hsd_future h' out rest = hsd_future h out (bits_of_bytes (take n bytes) @ rest)" for rest
      using st p' by (simp add: hsd_future_def)
    show "hsd_input_size h' \<noteq> 0" if "0 < n" using that un by (auto simp: h'_def)
    show "hsd_st h' = hsd_st h" by (rule st)
  qed
qed

section \<open>Properties\<close>


text \<open>Two bytes into a fresh decoder: a literal \<open>A\<close>, padded by seven bits.\<close>

definition hsd_after_A :: heatshrink_decoder where
  "hsd_after_A = fst (snd (heatshrink_decoder_sink heatshrink_decoder_reset 0x1000 [0xA0, 0x80]))"

lemma hsd_after_A_ok: "hsd_ok hsd_after_A []"
proof -
  have e: "hsd_input_size heatshrink_decoder_reset = 0" by (simp add: heatshrink_decoder_reset_def)
  show ?thesis
    by (rule sink_correct [OF reset_ok e, of "0x1000" "[0xA0, 0x80]"]) (simp, simp only: hsd_after_A_def fst_conv snd_conv)
qed


text \<open>\<open>heatshrink_decoder_sink\<close> on a decoder whose input buffer is used up takes the first 32
  bytes offered (or all of them), keeps the invariant, and appends exactly the bits of those
  bytes, most significant first, to the stream being decoded.\<close>

theorem sink_extends_stream:
  assumes "hsd_ok h out" "hsd_input_size h = 0" "in_buf \<noteq> 0"
  shows "\<exists>h'. heatshrink_decoder_sink h in_buf bytes = (HSDR_SINK_OK, h', min 32 (length bytes)) \<and>
    hsd_ok h' out \<and>
    (\<forall>rest. hsd_future h' out rest = hsd_future h out (bits_of_bytes (take 32 bytes) @ rest))"
proof -
  have t: "take (min 32 (length bytes)) bytes = take 32 bytes" by (simp add: min_def)
  show ?thesis by (rule sink_correct [OF assms, of bytes]) (simp only: t, blast)
qed

lemma sink_extends_stream_witness:
  "\<exists>h'. heatshrink_decoder_sink heatshrink_decoder_reset 0x1000 [0xA0, 0x80] = (HSDR_SINK_OK, h', Suc (Suc 0)) \<and>
     hsd_ok h' [] \<and> (\<forall>rest. hsd_future h' [] rest = lzss (bits_of_bytes [0xA0, 0x80] @ rest) [])"
  using sink_extends_stream [OF reset_ok, of "0x1000" "[0xA0, 0x80]"]
  by (simp add: reset_future heatshrink_decoder_reset_def [THEN arg_cong [of _ _ hsd_input_size]])

end
