(* ===== verification/Decompress.thy ===== *)
theory Decompress
  imports C_Memory Heatshrink_Decoder
begin

text \<open>
  \<open>rumboot_decompress_buffer\<close> of \<open>src/lib/bootimage.c\<close>: the loop that feeds a compressed image
  from one area of memory to the heatshrink decoder and stores what it yields in another.
  The result is the \<open>int\<close> of the C function with the memory it leaves; \<open>None\<close> is a run that
  does not end.
\<close>

definition EBADDATACRC :: int where "EBADDATACRC = 7"

text \<open>The \<open>do ... while (pres == HSDR_POLL_MORE)\<close> loop; \<open>Inl\<close> leaves the function.\<close>

partial_function (option) decompress_drain ::
  "u32 \<Rightarrow> u32 \<Rightarrow> heatshrink_decoder \<Rightarrow> u32 \<Rightarrow> mem \<Rightarrow> ((int + heatshrink_decoder \<times> u32) \<times> mem) option" where
  "decompress_drain decompressed_data output_size hsd polled m =
     (case heatshrink_decoder_poll hsd (decompressed_data + polled) (unat (output_size - polled)) of
        None \<Rightarrow> None
      | Some (pres, hsd, bytes) \<Rightarrow>
          if pres = HSDR_POLL_ERROR_NULL \<or> pres = HSDR_POLL_ERROR_UNKNOWN then Some (Inl (- EBADDATACRC), m)
          else
            let m = mem_write m (decompressed_data + polled) bytes;
                polled = polled + of_nat (length bytes)
            in if pres = HSDR_POLL_MORE then decompress_drain decompressed_data output_size hsd polled m
               else Some (Inr (hsd, polled), m))"

text \<open>The outer loop; \<open>data_direction\<close> is fixed before it.\<close>

partial_function (option) decompress_loop ::
  "bool \<Rightarrow> u32 \<Rightarrow> u32 \<Rightarrow> u32 \<Rightarrow> u32 \<Rightarrow> u32 \<Rightarrow> u32 \<Rightarrow> heatshrink_decoder \<Rightarrow> mem \<Rightarrow> (int \<times> mem) option"
where
  "decompress_loop data_direction compressed_data decompressed_data input_length output_size
      sunk polled hsd m =
     (if sunk < input_length then
        let (ret, hsd, count) =
              heatshrink_decoder_sink hsd (compressed_data + sunk)
                (mem_read m (compressed_data + sunk) (unat (input_length - sunk)))
        in if ret = HSDR_SINK_ERROR_NULL then Some (- EBADDATACRC, m)
           else let sunk = sunk + of_nat count
        in if sunk = input_length \<and> heatshrink_decoder_finish hsd \<noteq> HSDR_FINISH_MORE
           then Some (- EBADDATACRC, m)
           else case decompress_drain decompressed_data output_size hsd polled m of
               None \<Rightarrow> None
             | Some (Inl err, m) \<Rightarrow> Some (err, m)
             | Some (Inr (hsd, polled), m) \<Rightarrow>
                 if sunk = input_length \<and> heatshrink_decoder_finish hsd = HSDR_FINISH_DONE
                 then Some (sint polled, m)
                 else if (compressed_data + sunk > decompressed_data + polled) \<noteq> data_direction
                 then Some (- EBADDATACRC, m)
                 else decompress_loop data_direction compressed_data decompressed_data input_length
                        output_size sunk polled hsd m
      else Some (sint polled, m))"

definition rumboot_decompress_buffer ::
  "u32 \<Rightarrow> u32 \<Rightarrow> u32 \<Rightarrow> u32 \<Rightarrow> mem \<Rightarrow> (int \<times> mem) option" where
  "rumboot_decompress_buffer compressed_data decompressed_data input_length output_size m =
     decompress_loop (compressed_data > decompressed_data) compressed_data decompressed_data
       input_length output_size 0 0 heatshrink_decoder_reset m"

declare decompress_drain.simps [simp del] decompress_loop.simps [simp del]

section \<open>The output only grows\<close>

lemma prefix_copy_back: "\<exists>bs. copy_back n d out = out @ bs"
  by (induction n d out rule: copy_back.induct) auto

lemma prefix_lzss: "\<exists>cs. lzss bs out = out @ cs"
proof (induction bs out rule: lzss.induct)
  case (3 bs out)
  then show ?case
    using prefix_copy_back [of "unat (of_bits (take 4 (drop 11 bs)) :: u16) + 1"
        "unat (of_bits (take 11 bs) :: u16) + 1" out]
    by (auto simp del: copy_back.simps)
qed auto

lemma future_prefix: "\<exists>cs. hsd_future h out rest = out @ cs"
proof (cases "hsd_st h = HSDS_YIELD_BACKREF")
  case True
  obtain bs where "copy_back (unat (hsd_output_count h)) (unat (hsd_output_index h)) out = out @ bs"
    using prefix_copy_back by blast
  with True prefix_lzss [of "hsd_pend h @ rest" "out @ bs"] show ?thesis
    by (auto simp: hsd_future_def)
qed (simp add: hsd_future_def prefix_lzss)

lemma lzss_more_bits: "\<exists>cs. lzss (bs @ rest) out = lzss bs out @ cs"
proof (induction bs out rule: lzss.induct)
  case (1 out)
  then show ?case using prefix_lzss by simp
next
  case (2 bs out)
  then show ?case using prefix_lzss [of "True # bs @ rest" out] by auto
next
  case (3 bs out)
  then show ?case using prefix_lzss [of "False # bs @ rest" out]
    by (cases "15 \<le> length bs") (simp_all del: copy_back.simps lzss.simps(3), simp_all del: copy_back.simps)
qed

lemma future_more_bits: "length (hsd_future h out []) \<le> length (hsd_future h out rest)"
proof -
  have "\<exists>cs. hsd_future h out rest = hsd_future h out [] @ cs"
  proof (cases "hsd_st h = HSDS_YIELD_BACKREF")
    case True
    then show ?thesis using lzss_more_bits [of "hsd_pend h" rest] by (simp add: hsd_future_def)
  next
    case False
    then show ?thesis using lzss_more_bits [of "hsd_held h @ hsd_pend h" rest] by (simp add: hsd_future_def)
  qed
  then show ?thesis by auto
qed

lemma future_length: "length out \<le> length (hsd_future h out rest)"
  using future_prefix [of h out rest] by auto

section \<open>Draining and the whole loop\<close>

lemma drain_correct:
  assumes ok: "hsd_ok h out" and p: "polled = of_nat (length out)" and nn: "d + polled \<noteq> 0"
    and room: "length (hsd_future h out []) < unat output_size"
  obtains h' bs where
    "decompress_drain d output_size h polled m
       = Some (Inr (h', of_nat (length (out @ bs))), mem_write m (d + polled) bs)"
    "hsd_ok h' (out @ bs)" "\<And>rest. hsd_future h' (out @ bs) rest = hsd_future h out rest"
    "hsd_input_size h' = 0" "hsd_st h' \<noteq> HSDS_YIELD_BACKREF" "hsd_future h out [] = out @ bs"
proof -
  let ?n = "unat (output_size - polled)"
  have lo: "length out < unat output_size" using future_length [of out h "[]"] room by simp
  then have up: "unat polled = length out" using unat_u32_less [of output_size]
    by (simp add: p unat_of_nat_u32 del: unat_u32_less)
  then have n: "?n = unat output_size - length out" using lo by (simp add: unat_sub_if')
  obtain res h' bs where r: "heatshrink_decoder_poll h (d + polled) ?n = Some (res, h', bs)" "length bs \<le> ?n"
    "hsd_ok h' (out @ bs)" "\<And>rest. hsd_future h' (out @ bs) rest = hsd_future h out rest"
    "res = HSDR_POLL_MORE \<or> res = HSDR_POLL_EMPTY" "res = HSDR_POLL_MORE \<longleftrightarrow> length bs = ?n"
    "res = HSDR_POLL_EMPTY \<Longrightarrow> hsd_input_size h' = 0 \<and> hsd_st h' \<noteq> HSDS_YIELD_BACKREF \<and>
       hsd_future h' (out @ bs) [] = out @ bs"
    using poll_correct [OF ok nn, of ?n] by blast
  have "length (out @ bs) \<le> length (hsd_future h out [])"
    using future_length [of "out @ bs" h' "[]"] r(4) by simp
  then have "length bs \<noteq> ?n" using room n lo by simp
  then have e: "res = HSDR_POLL_EMPTY" using r(5,6) by blast
  have "decompress_drain d output_size h polled m
      = Some (Inr (h', of_nat (length (out @ bs))), mem_write m (d + polled) bs)"
    by (subst decompress_drain.simps) (use r(1) e in \<open>simp add: Let_def p\<close>)
  then show ?thesis using r e by (intro that) auto
qed

text \<open>The output area keeps what was written when the input area lies elsewhere.\<close>

lemma finish_more: "hsd_input_size h \<noteq> 0 \<Longrightarrow> heatshrink_decoder_finish h = HSDR_FINISH_MORE"
  by (simp add: heatshrink_decoder_finish_def split: hsd_state.split)

lemma finish_done: "hsd_input_size h = 0 \<Longrightarrow> hsd_st h \<noteq> HSDS_YIELD_BACKREF \<Longrightarrow>
  heatshrink_decoder_finish h = HSDR_FINISH_DONE"
  by (simp add: heatshrink_decoder_finish_def split: hsd_state.split)


text \<open>
  How far the decoder is after \<open>s\<close> bytes of input, and areas that do not clash: the output lies behind the
  input, or before it and the write position stays behind the read position whenever a part of the input has been
  used up. The latter is how an image is unpacked in place.
\<close>

definition decoded :: "u8 list \<Rightarrow> nat \<Rightarrow> nat" where
  "decoded data s = length (lzss (bits_of_bytes (take s data)) [])"

definition no_clash :: "u32 \<Rightarrow> u32 \<Rightarrow> u8 list \<Rightarrow> bool" where
  "no_clash c d data \<longleftrightarrow> unat c + length data \<le> unat d \<or>
     unat d < unat c \<and> unat c + length data \<le> 2 ^ 32 \<and>
     (\<forall>s < length data. 0 < s \<and> 32 dvd s \<longrightarrow> unat d + decoded data s < unat c + s)"

lemma decoded_mono: "decoded data s \<le> length (lzss (bits_of_bytes data) [])"
proof -
  have "bits_of_bytes data = bits_of_bytes (take s data) @ bits_of_bytes (drop s data)"
    by (simp flip: concat_append map_append)
  then show ?thesis
    using lzss_more_bits [of "bits_of_bytes (take s data)" "bits_of_bytes (drop s data)" "[]"] by (auto simp: decoded_def)
qed

lemma separate_no_clash:
  assumes "separate c (length data) d (length (lzss (bits_of_bytes data) []))" "c \<noteq> d"
  shows "no_clash c d data"
proof (cases "unat c + length data \<le> unat d")
  case False
  then have s: "unat d + length (lzss (bits_of_bytes data) []) \<le> unat c" "unat c + length data \<le> 2 ^ 32"
    using assms(1) by (auto simp: separate_def)
  moreover have "unat d < unat c" using s(1) assms(2) by (auto simp: word_unat_eq_iff le_eq_less_or_eq)
  moreover have "unat d + decoded data k < unat c + k" if "0 < k" for k using decoded_mono [of data k] s(1) that by simp
  ultimately show ?thesis by (simp add: no_clash_def)
qed (simp add: no_clash_def)

lemma no_clash_position:
  fixes c d :: u32
  assumes nc: "no_clash c d data" and s: "s < length data" "32 dvd s" and d: "unat d + decoded data s < 2 ^ 32"
  shows "separate (c + of_nat s) (length data - s) d (decoded data s)"
    "0 < s \<Longrightarrow> (c + of_nat s > d + of_nat (decoded data s)) = (c > d)"
    "c \<noteq> 0 \<Longrightarrow> c + of_nat s \<noteq> 0"
proof -
  have "unat d < 2 ^ 32" by simp
  then have "unat c + s < 2 ^ 32" using nc s(1) unfolding no_clash_def by linarith
  then have c: "unat (c + of_nat s) = unat c + s" by (rule unat_add_small)
  have e: "unat (d + of_nat (decoded data s)) = unat d + decoded data s" by (rule unat_add_small [OF d])
  have z: "s = 0 \<Longrightarrow> decoded data s = 0" by (simp add: decoded_def)
  show "separate (c + of_nat s) (length data - s) d (decoded data s)"
  proof (cases "unat c + length data \<le> unat d")
    case True
    then show ?thesis using s(1) d unfolding separate_def c by linarith
  next
    case False
    then have "unat d + decoded data s < unat c + s" "unat c + length data \<le> 2 ^ 32"
      using nc s z by (cases "s = 0", auto simp: no_clash_def)
    then show ?thesis using s(1) unfolding separate_def c by linarith
  qed
  show "(c + of_nat s > d + of_nat (decoded data s)) = (c > d)" if "0 < s"
    using nc s that by (auto simp: no_clash_def word_less_nat_alt c e)
  show "c + of_nat s \<noteq> 0" if "c \<noteq> 0" using that c by (auto simp: word_unat_eq_iff)
qed

text \<open>One round of the outer loop, from a state in which \<open>out\<close> is what the first \<open>s\<close> bytes decode to.\<close>

definition in_step :: "u8 list \<Rightarrow> nat \<Rightarrow> heatshrink_decoder \<Rightarrow> u8 list \<Rightarrow> bool" where
  "in_step data s h out \<longleftrightarrow> hsd_ok h out \<and>
     (\<forall>rest. hsd_future h out rest = lzss (bits_of_bytes (take s data) @ rest) [])"

lemma loop_round:
  fixes c d input_length output_size :: u32 and m0 :: mem
  defines "n \<equiv> unat input_length"
  defines "data \<equiv> mem_read m0 c n"
  assumes nc: "no_clash c d data" and nn: "c \<noteq> 0" and d: "unat d + length out < 2 ^ 32"
    and st: "in_step data s h out" "hsd_input_size h = 0" "out = lzss (bits_of_bytes (take s data)) []"
    and s: "s < n" "32 dvd s"
  obtains h1 k where "0 < k" "s + k \<le> n" "s + k < n \<longrightarrow> 32 dvd s + k" "in_step data (s + k) h1 out"
    "decompress_loop dir c d input_length output_size (of_nat s) polled h (mem_write m0 d out) =
       (case decompress_drain d output_size h1 polled (mem_write m0 d out) of
          None \<Rightarrow> None
        | Some (Inl err, m) \<Rightarrow> Some (err, m)
        | Some (Inr (hsd, polled), m) \<Rightarrow>
            if s + k = n \<and> heatshrink_decoder_finish hsd = HSDR_FINISH_DONE then Some (sint polled, m)
            else if (c + of_nat (s + k) > d + polled) \<noteq> dir then Some (- EBADDATACRC, m)
            else decompress_loop dir c d input_length output_size (of_nat (s + k)) polled hsd m)"
proof -
  let ?m = "mem_write m0 d out" and ?data = "drop s data"
  define k where "k = min 32 (n - s)"
  have ld: "length data = n" by (simp add: data_def)
  have lo: "length out = decoded data s" by (simp add: st(3) decoded_def)
  have pos: "separate (c + of_nat s) (n - s) d (length out)" "c + of_nat s \<noteq> 0"
    using no_clash_position [OF nc, of s] s d nn by (simp_all add: ld lo)
  have nlt: "n < 2 ^ 32" by (simp add: n_def)
  have us: "unat (of_nat s :: u32) = s" using s nlt by (simp add: unat_of_nat_u32)
  have lt: "of_nat s < input_length" using us s by (simp add: word_less_nat_alt n_def)
  have rem: "unat (input_length - of_nat s) = n - s" using us s by (simp add: unat_sub_if' n_def)
  have rd: "mem_read ?m (c + of_nat s) (n - s) = ?data"
    using mem_read_write_separate [OF pos(1)] mem_read_drop [of s n m0 c] s by (simp add: data_def)
  have tk: "take (min 32 (length ?data)) ?data = take k ?data" "min 32 (length ?data) = k"
    by (simp_all add: k_def ld)
  have ok: "hsd_ok h out" using st(1) by (simp add: in_step_def)
  obtain h1 where h1: "heatshrink_decoder_sink h (c + of_nat s) ?data = (HSDR_SINK_OK, h1, k)" "hsd_ok h1 out"
    "\<And>rest. hsd_future h1 out rest = hsd_future h out (bits_of_bytes (take k ?data) @ rest)"
    "0 < k \<Longrightarrow> hsd_input_size h1 \<noteq> 0"
    by (rule sink_correct [OF ok st(2) pos(2), of ?data, unfolded tk]) blast
  have k: "0 < k" "s + k \<le> n" "s + k < n \<longrightarrow> 32 dvd s + k" using s by (auto simp: k_def min_def)
  have f1: "heatshrink_decoder_finish h1 = HSDR_FINISH_MORE" by (rule finish_more [OF h1(4) [OF k(1)]])
  have "bits_of_bytes (take s data) @ bits_of_bytes (take k ?data) = bits_of_bytes (take (s + k) data)"
    by (simp only: take_add flip: concat_append map_append)
  then have "in_step data (s + k) h1 out" using st(1) h1(2,3) by (simp add: in_step_def flip: append_assoc)
  moreover have sk: "(of_nat s :: u32) + of_nat k = of_nat (s + k)" by simp
  have "unat (of_nat (s + k) :: u32) = s + k" using k(2) nlt by (intro unat_of_nat_u32) simp
  then have fin: "(of_nat (s + k) = input_length) = (s + k = n)" by (simp add: n_def word_unat_eq_iff)
  ultimately show ?thesis
    by (intro that [OF k], simp, subst decompress_loop.simps)
      (simp only: lt rem rd h1(1) Let_def prod.case sk fin f1 if_True simp_thms if_False hsd_sink_res.distinct)
qed

text \<open>A drain that ends leaves the decoder in step, with its input used up.\<close>

lemma drained:
  assumes st: "in_step data s h out" and d: "d \<noteq> 0" "unat d + length (lzss (bits_of_bytes (take s data)) []) < 2 ^ 32"
    and room: "decoded data s < unat output_size"
  obtains h' bs where
    "decompress_drain d output_size h (of_nat (length out)) (mem_write m d out)
       = Some (Inr (h', of_nat (length (out @ bs))), mem_write m d (out @ bs))"
    "in_step data s h' (out @ bs)" "hsd_input_size h' = 0" "heatshrink_decoder_finish h' = HSDR_FINISH_DONE"
    "out @ bs = lzss (bits_of_bytes (take s data)) []"
proof -
  have ok: "hsd_ok h out" and fut: "\<And>rest. hsd_future h out rest = lzss (bits_of_bytes (take s data) @ rest) []"
    using st by (auto simp: in_step_def)
  have le: "length out \<le> decoded data s" using future_length [of out h "[]"] fut [of "[]"] by (simp add: decoded_def)
  have "unat d + length out < 2 ^ 32" using le d(2) by (simp add: decoded_def)
  then have "unat (d + of_nat (length out)) = unat d + length out" by (rule unat_add_small)
  then have nn: "d + of_nat (length out) \<noteq> 0" using d(1) by (auto simp: word_unat_eq_iff)
  have rm: "length (hsd_future h out []) < unat output_size" using room by (simp add: fut decoded_def)
  obtain h' bs where dr: "decompress_drain d output_size h (of_nat (length out)) (mem_write m d out)
       = Some (Inr (h', of_nat (length (out @ bs))), mem_write (mem_write m d out) (d + of_nat (length out)) bs)"
    "hsd_ok h' (out @ bs)" "\<And>rest. hsd_future h' (out @ bs) rest = hsd_future h out rest"
    "hsd_input_size h' = 0" "hsd_st h' \<noteq> HSDS_YIELD_BACKREF" "hsd_future h out [] = out @ bs"
    by (rule drain_correct [OF ok refl nn rm]) blast
  have w: "out @ bs = lzss (bits_of_bytes (take s data)) []" using dr(6) by (simp add: fut)
  have "length (out @ bs) < 2 ^ 32" using d(2) unfolding w by simp
  then have "mem_write (mem_write m d out) (d + of_nat (length out)) bs = mem_write m d (out @ bs)"
    by (intro mem_write_append) simp
  moreover have "in_step data s h' (out @ bs)" using dr(2,3) fut by (simp add: in_step_def)
  ultimately show ?thesis using dr(1) w finish_done [OF dr(4,5)] dr(4) by (intro that) simp_all
qed

lemma loop_correct:
  fixes c d input_length output_size :: u32 and m0 :: mem
  defines "n \<equiv> unat input_length"
  defines "data \<equiv> mem_read m0 c n"
  defines "whole \<equiv> lzss (bits_of_bytes data) []"
  assumes nc: "no_clash c d data" "unat d + length whole < 2 ^ 32"
    and room: "length whole < unat output_size" and nn: "c \<noteq> 0" "d \<noteq> 0"
  shows "\<lbrakk>in_step data s h out; hsd_input_size h = 0; out = lzss (bits_of_bytes (take s data)) []; s < n; 32 dvd s\<rbrakk> \<Longrightarrow>
   decompress_loop (c > d) c d input_length output_size (of_nat s) (of_nat (length out)) h
     (mem_write m0 d out) = Some (sint (of_nat (length whole) :: u32), mem_write m0 d whole)"
proof (induction "n - s" arbitrary: h out s rule: less_induct)
  case less
  let ?m = "mem_write m0 d out"
  have ld: "length data = n" by (simp add: data_def)
  have dl: "decoded data j \<le> length whole" for j unfolding whole_def by (rule decoded_mono)
  have "unat d + length out < 2 ^ 32" using dl [of s] nc(2) less.prems(3) by (simp add: decoded_def)
  note round = loop_round [OF nc(1) [unfolded data_def n_def] nn(1) this less.prems(1-3) [unfolded data_def n_def]
      less.prems(4) [unfolded n_def] less.prems(5), folded n_def, folded data_def, where dir = "c > d"
      and output_size = output_size and polled = "of_nat (length out)"]
  obtain h1 k where r: "0 < k" "s + k \<le> n" "s + k < n \<longrightarrow> 32 dvd s + k" "in_step data (s + k) h1 out"
    "decompress_loop (c > d) c d input_length output_size (of_nat s) (of_nat (length out)) h ?m =
       (case decompress_drain d output_size h1 (of_nat (length out)) ?m of
          None \<Rightarrow> None
        | Some (Inl err, m) \<Rightarrow> Some (err, m)
        | Some (Inr (hsd, polled), m) \<Rightarrow>
            if s + k = n \<and> heatshrink_decoder_finish hsd = HSDR_FINISH_DONE then Some (sint polled, m)
            else if (c + of_nat (s + k) > d + polled) \<noteq> (c > d) then Some (- EBADDATACRC, m)
            else decompress_loop (c > d) c d input_length output_size (of_nat (s + k)) polled hsd m)"
    by (rule round)
  have rm: "decoded data (s + k) < unat output_size" using dl [of "s + k"] room by simp
  have dd: "unat d + decoded data (s + k) < 2 ^ 32" using dl [of "s + k"] nc(2) by simp
  obtain h2 bs where dr:
    "decompress_drain d output_size h1 (of_nat (length out)) ?m
       = Some (Inr (h2, of_nat (length (out @ bs))), mem_write m0 d (out @ bs))"
    "in_step data (s + k) h2 (out @ bs)" "hsd_input_size h2 = 0" "heatshrink_decoder_finish h2 = HSDR_FINISH_DONE"
    "out @ bs = lzss (bits_of_bytes (take (s + k) data)) []"
    by (rule drained [OF r(4) nn(2) dd [unfolded decoded_def] rm])
  show ?case
  proof (cases "s + k = n")
    case True
    then have "whole = out @ bs" using dr(5) by (simp add: whole_def ld)
    then show ?thesis unfolding r(5) dr(1) using True dr(4) by simp
  next
    case False
    then have sn: "s + k < n" "32 dvd s + k" using r(2,3) by auto
    have "length (out @ bs) = decoded data (s + k)" by (simp only: dr(5) decoded_def)
    then have cl: "(c + of_nat (s + k) > d + of_nat (length (out @ bs))) = (c > d)"
      using no_clash_position(2) [OF nc(1), of "s + k"] sn dd r(1) by (simp add: ld del: of_nat_add)
    have ih: "decompress_loop (c > d) c d input_length output_size (of_nat (s + k)) (of_nat (length (out @ bs))) h2
       (mem_write m0 d (out @ bs)) = Some (sint (of_nat (length whole) :: u32), mem_write m0 d whole)"
      by (rule less.hyps [OF _ dr(2,3,5) sn]) (use r(1) sn in simp)
    show ?thesis unfolding r(5) dr(1)
      by (simp only: option.case prod.case sum.case False cl ih if_False simp_thms)
  qed
qed

lemma reset_in_step: "in_step data 0 heatshrink_decoder_reset []" "hsd_input_size heatshrink_decoder_reset = 0"
  by (simp_all add: in_step_def reset_ok reset_future, simp add: heatshrink_decoder_reset_def)

section \<open>Properties\<close>


text \<open>A literal \<open>A\<close> and a copy of three bytes from distance one.\<close>

definition AAAA_packed :: "u8 list" where "AAAA_packed = [0xA0, 0x80, 0x01, 0x00]"

lemma AAAA_decoded: "lzss (bits_of_bytes AAAA_packed) [] = [0x41, 0x41, 0x41, 0x41]"
  by (simp add: AAAA_packed_def to_bits_def upt_8 of_bits_def lookback_def numeral_3_eq_3)


text \<open>For areas that do not overlap.\<close>

lemma decompress_correct':
  fixes c d input_length output_size :: u32 and m :: mem
  defines "n \<equiv> unat input_length"
  defines "whole \<equiv> lzss (bits_of_bytes (mem_read m c n)) []"
  assumes "separate c n d (length whole)" "unat d + length whole < 2 ^ 32" "c \<noteq> d" "c \<noteq> 0" "d \<noteq> 0"
    and "length whole < unat output_size"
  shows "rumboot_decompress_buffer c d input_length output_size m
           = Some (sint (of_nat (length whole) :: u32), mem_write m d whole)"
proof (cases "n = 0")
  case True
  then show ?thesis unfolding rumboot_decompress_buffer_def whole_def n_def
    by (subst decompress_loop.simps) (simp add: word_less_nat_alt)
next
  case False
  have "no_clash c d (mem_read m c n)" using assms(3,5) by (intro separate_no_clash) (simp_all add: whole_def)
  from loop_correct [OF this [unfolded n_def] assms(4) [unfolded whole_def n_def] assms(8) [unfolded whole_def n_def]
      assms(6,7) reset_in_step] False
  show ?thesis by (simp add: rumboot_decompress_buffer_def n_def whole_def)
qed

section \<open>An output area that is too small\<close>

text \<open>When the output area is used up the decoder asks for more room for ever.\<close>

lemma poll_full:
  assumes "heatshrink_decoder_poll h a 0 = Some (res, h', bs)" "hsd_ok h out" "a \<noteq> 0"
  shows "res = HSDR_POLL_MORE \<and> bs = [] \<and> hsd_ok h' out"
  using poll_correct [OF assms(2,3), of 0] assms(1) by fastforce

lemma drain_returns_room:
  assumes "decompress_drain d s h p m = Some r"
  shows "\<forall>out. hsd_ok h out \<longrightarrow> d + p \<noteq> 0 \<longrightarrow> s \<noteq> p"
    (is "?R d s h p m r")
proof (rule decompress_drain.raw_induct [of ?R, OF _ assms], goal_cases)
  case (1 drain d s h p m r)
  show ?case
  proof (intro allI impI notI)
    fix out
    assume ok: "hsd_ok h out" and nn: "d + p \<noteq> 0" and eq: "s = p"
    obtain res h' bs where q: "heatshrink_decoder_poll h (d + p) 0 = Some (res, h', bs)"
      by (rule poll_correct [OF ok nn, of 0])
    have f: "res = HSDR_POLL_MORE" "bs = []" "hsd_ok h' out" using poll_full [OF q ok nn] by auto
    then have "drain d p h' p m = Some r" using 1(2) q by (simp add: eq)
    from 1(1) [OF this] f(3) nn show False by blast
  qed
qed

lemma drain_full: "hsd_ok h out \<Longrightarrow> d + polled \<noteq> 0 \<Longrightarrow> decompress_drain d polled h polled m = None"
  using drain_returns_room [of d polled h polled m] by (cases "decompress_drain d polled h polled m") auto

lemma drain_overrun:
  assumes ok: "hsd_ok h out" and p: "polled = of_nat (length out)"
    and room: "unat output_size \<le> length (hsd_future h out [])" "length out \<le> unat output_size"
    and d: "d \<noteq> 0" "unat d + unat output_size < 2 ^ 32"
  shows "decompress_drain d output_size h polled m = None"
proof -
  let ?n = "unat (output_size - polled)"
  have "unat (d + of_nat k) = unat d + k" if "k \<le> unat output_size" for k
    by (rule unat_add_small) (use that d(2) in simp)
  then have pos: "d + of_nat k \<noteq> 0" if "k \<le> unat output_size" for k using that d(1) by (auto simp: word_unat_eq_iff)
  have nn: "d + polled \<noteq> 0" "d + output_size \<noteq> 0" using pos [OF room(2)] pos [of "unat output_size"] by (simp_all add: p)
  have up: "unat polled = length out" using room(2) unat_u32_less [of output_size]
    by (simp add: p unat_of_nat_u32 del: unat_u32_less)
  then have n: "?n = unat output_size - length out" using room(2) by (simp add: unat_sub_if')
  obtain res h' bs where r: "heatshrink_decoder_poll h (d + polled) ?n = Some (res, h', bs)" "length bs \<le> ?n"
    "hsd_ok h' (out @ bs)" "\<And>rest. hsd_future h' (out @ bs) rest = hsd_future h out rest"
    "res = HSDR_POLL_MORE \<or> res = HSDR_POLL_EMPTY" "res = HSDR_POLL_MORE \<longleftrightarrow> length bs = ?n"
    "res = HSDR_POLL_EMPTY \<Longrightarrow> hsd_input_size h' = 0 \<and> hsd_st h' \<noteq> HSDS_YIELD_BACKREF \<and>
       hsd_future h' (out @ bs) [] = out @ bs"
    using poll_correct [OF ok nn(1), of ?n] by blast
  have e: "res = HSDR_POLL_MORE"
  proof (rule ccontr)
    assume no: "res \<noteq> HSDR_POLL_MORE"
    then have "hsd_future h out [] = out @ bs" using r(4,5,7) by simp
    then have "length bs = ?n" using room r(2) n by simp
    with r(6) no show False by simp
  qed
  have "of_nat (length bs) = output_size - polled" using r(6) e by simp
  then have "decompress_drain d output_size h polled m
      = decompress_drain d output_size h' output_size (mem_write m (d + polled) bs)"
    by (subst decompress_drain.simps) (simp add: r(1) e Let_def)
  also have "\<dots> = None" using r(3) nn(2) by (rule drain_full)
  finally show ?thesis .
qed

lemma loop_overrun:
  fixes c d input_length output_size :: u32 and m0 :: mem
  defines "n \<equiv> unat input_length"
  defines "data \<equiv> mem_read m0 c n"
  defines "whole \<equiv> lzss (bits_of_bytes data) []"
  assumes nc: "no_clash c d data" "unat d + unat output_size < 2 ^ 32"
    and room: "unat output_size \<le> length whole" and nn: "c \<noteq> 0" "d \<noteq> 0"
  shows "\<lbrakk>in_step data s h out; hsd_input_size h = 0; out = lzss (bits_of_bytes (take s data)) []; s < n; 32 dvd s;
     length out \<le> unat output_size\<rbrakk> \<Longrightarrow>
   decompress_loop (c > d) c d input_length output_size (of_nat s) (of_nat (length out)) h (mem_write m0 d out) = None"
proof (induction "n - s" arbitrary: h out s rule: less_induct)
  case less
  let ?m = "mem_write m0 d out"
  have ld: "length data = n" by (simp add: data_def)
  have "unat d + length out < 2 ^ 32" using less.prems(6) nc(2) by simp
  note round = loop_round [OF nc(1) [unfolded data_def n_def] nn(1) this less.prems(1-3) [unfolded data_def n_def]
      less.prems(4) [unfolded n_def] less.prems(5), folded n_def, folded data_def, where dir = "c > d"
      and output_size = output_size and polled = "of_nat (length out)"]
  obtain h1 k where r: "0 < k" "s + k \<le> n" "s + k < n \<longrightarrow> 32 dvd s + k" "in_step data (s + k) h1 out"
    "decompress_loop (c > d) c d input_length output_size (of_nat s) (of_nat (length out)) h ?m =
       (case decompress_drain d output_size h1 (of_nat (length out)) ?m of
          None \<Rightarrow> None
        | Some (Inl err, m) \<Rightarrow> Some (err, m)
        | Some (Inr (hsd, polled), m) \<Rightarrow>
            if s + k = n \<and> heatshrink_decoder_finish hsd = HSDR_FINISH_DONE then Some (sint polled, m)
            else if (c + of_nat (s + k) > d + polled) \<noteq> (c > d) then Some (- EBADDATACRC, m)
            else decompress_loop (c > d) c d input_length output_size (of_nat (s + k)) polled hsd m)"
    by (rule round)
  have fut: "length (hsd_future h1 out []) = decoded data (s + k)" using r(4) by (simp add: in_step_def decoded_def)
  show ?case
  proof (cases "unat output_size \<le> decoded data (s + k)")
    case True
    have "hsd_ok h1 out" using r(4) by (simp add: in_step_def)
    from drain_overrun [OF this refl _ less.prems(6) nn(2) nc(2)] True
    show ?thesis unfolding r(5) by (simp add: fut)
  next
    case False
    then have rm: "decoded data (s + k) < unat output_size" by simp
    then have dd: "unat d + decoded data (s + k) < 2 ^ 32" using nc(2) by simp
    obtain h2 bs where dr:
      "decompress_drain d output_size h1 (of_nat (length out)) ?m
         = Some (Inr (h2, of_nat (length (out @ bs))), mem_write m0 d (out @ bs))"
      "in_step data (s + k) h2 (out @ bs)" "hsd_input_size h2 = 0" "heatshrink_decoder_finish h2 = HSDR_FINISH_DONE"
      "out @ bs = lzss (bits_of_bytes (take (s + k) data)) []"
      by (rule drained [OF r(4) nn(2) dd [unfolded decoded_def] rm])
    have lob: "length (out @ bs) = decoded data (s + k)" by (simp only: dr(5) decoded_def)
    have "s + k \<noteq> n" using rm room by (auto simp: decoded_def whole_def ld)
    then have sn: "s + k < n" "32 dvd s + k" using r(2,3) by auto
    have cl: "(c + of_nat (s + k) > d + of_nat (length (out @ bs))) = (c > d)"
      using no_clash_position(2) [OF nc(1), of "s + k"] sn dd r(1) by (simp add: lob ld del: of_nat_add length_append)
    have ih: "decompress_loop (c > d) c d input_length output_size (of_nat (s + k)) (of_nat (length (out @ bs))) h2
       (mem_write m0 d (out @ bs)) = None"
      by (rule less.hyps [OF _ dr(2,3,5) sn]) (use r(1) sn rm lob in simp_all)
    show ?thesis unfolding r(5) dr(1)
      by (simp only: option.case prod.case sum.case \<open>s + k \<noteq> n\<close> cl ih if_False simp_thms)
  qed
qed

text \<open>A result that is at least as long as \<open>output_size\<close> (in particular one that fits exactly) makes
  \<open>rumboot_decompress_buffer\<close> run for ever.\<close>

lemma decompress_overrun:
  fixes c d input_length output_size :: u32 and m :: mem
  defines "n \<equiv> unat input_length"
  assumes "no_clash c d (mem_read m c n)" "unat d + unat output_size < 2 ^ 32" "c \<noteq> 0" "d \<noteq> 0"
    and "unat output_size \<le> length (lzss (bits_of_bytes (mem_read m c n)) [])" "0 < n"
  shows "rumboot_decompress_buffer c d input_length output_size m = None"
  using loop_overrun [OF assms(2) [unfolded n_def] assms(3) assms(6) [unfolded n_def] assms(4,5) reset_in_step] assms(7)
  by (simp add: rumboot_decompress_buffer_def n_def)

end
