(* ===== verification/Boot_Image.thy ===== *)
theory Boot_Image
  imports Crc Decompress
begin

text \<open>
  Boot images: the header of \<open>include/rumboot/boot.h\<close> and its validation, placement and
  execution in \<open>src/lib/bootimage.c\<close>, for a 32-bit target built without
  \<open>CMAKE_BUILD_TYPE_DEBUG\<close>. The header lives in memory and is accessed at the offsets of the
  packed structure in the byte order of the CPU. What the target provides (clusters, chip
  identity, memory map) is the record \<open>platform\<close>; function pointers into it are functions on
  the world, which is the memory with the state \<open>'d\<close> of the devices, and \<open>None\<close> is a call that
  does not return. Console output is left out.
\<close>

section \<open>Data\<close>

record 'd world =
  w_mem :: mem
  w_dev :: 'd

record 'd rumboot_cpu_cluster =
  cl_base :: u32
  cl_kill :: "('d world \<Rightarrow> 'd world) option"
  cl_poll :: "('d world \<Rightarrow> (int \<times> 'd world) option) option"
  cl_start :: "(u32 \<Rightarrow> u32 \<Rightarrow> int \<Rightarrow> 'd world \<Rightarrow> (int \<times> 'd world) option) option"

record 'd platform =
  pf_big_endian :: bool
  pf_endian_swap :: bool
  pf_chip_id :: u8
  pf_header_version :: u8
  pf_cpus :: "'d rumboot_cpu_cluster list"
  pf_check_entry_points :: "mem \<Rightarrow> u32 \<Rightarrow> bool"
  pf_spl_size :: u32
  pf_run :: "u32 \<Rightarrow> u32 list \<Rightarrow> 'd world \<Rightarrow> (int \<times> 'd world) option"

definition RUMBOOT_HEADER_MAGIC :: u32 where "RUMBOOT_HEADER_MAGIC = 0xb01dface"

definition RUMBOOT_FLAG_COMPRESS :: nat where "RUMBOOT_FLAG_COMPRESS = 0"
definition RUMBOOT_FLAG_DATA :: nat where "RUMBOOT_FLAG_DATA = 1"
definition RUMBOOT_FLAG_DECAPS :: nat where "RUMBOOT_FLAG_DECAPS = 4"
definition RUMBOOT_FLAG_RELOCATE :: nat where "RUMBOOT_FLAG_RELOCATE = 5"
definition RUMBOOT_FLAG_SYNC :: nat where "RUMBOOT_FLAG_SYNC = 6"
definition RUMBOOT_FLAG_KILL :: nat where "RUMBOOT_FLAG_KILL = 7"

text \<open>\<open>flags & RUMBOOT_FLAG_x\<close>; the constants above are the shift counts of the masks.\<close>

definition has_flag :: "u8 \<Rightarrow> nat \<Rightarrow> bool" where
  "has_flag flags k \<longleftrightarrow> flags AND push_bit k 1 \<noteq> 0"

lemmas boot_flags = RUMBOOT_FLAG_COMPRESS_def RUMBOOT_FLAG_DATA_def RUMBOOT_FLAG_DECAPS_def
  RUMBOOT_FLAG_RELOCATE_def RUMBOOT_FLAG_SYNC_def RUMBOOT_FLAG_KILL_def

definition EBADMAGIC :: int where "EBADMAGIC = 1"
definition EBADVERSION :: int where "EBADVERSION = 2"
definition EBADHDRCRC :: int where "EBADHDRCRC = 3"
definition EBADCHIPID :: int where "EBADCHIPID = 4"
definition EBADENTRY :: int where "EBADENTRY = 5"
definition EBADHEADER :: int where "EBADHEADER = 6"
definition ETOOBIG :: int where "ETOOBIG = 8"
definition EBADSOURCE :: int where "EBADSOURCE = 9"
definition EIO :: int where "EIO = 10"
definition ETOHOST :: int where "ETOHOST = 11"
definition EBADCLUSTERID :: int where "EBADCLUSTERID = 12"
definition EMAXERROR :: int where "EMAXERROR = 13"

lemmas boot_errors = EBADMAGIC_def EBADVERSION_def EBADHDRCRC_def EBADCHIPID_def EBADENTRY_def
  EBADHEADER_def EBADDATACRC_def ETOOBIG_def EBADSOURCE_def EIO_def ETOHOST_def
  EBADCLUSTERID_def EMAXERROR_def

definition boot_errors_table :: "string list" where
  "boot_errors_table =
     [''Success'', ''Bad Magic'', ''Bad header version'', ''Bad Header CRC32'', ''Bad ChipId'',
      ''Bad entry point(s)'', ''Bad header'', ''Bad data CRC32'', ''Image too big'',
      ''Bad boot source'', ''I/O Error'', ''To Host Mode'', ''Bad Target Cluster'', ''Unknown'']"

text \<open>On a 32-bit \<open>int\<close>; \<open>None\<close> is an index outside the table.\<close>

definition rumboot_strerror :: "32 word \<Rightarrow> string option" where
  "rumboot_strerror err =
     (let err = (if sint err < 0 then - err else err);
          err = (if sint err > EMAXERROR then of_int EMAXERROR else err)
      in if 0 \<le> sint err then Some (boot_errors_table ! nat (sint err)) else None)"

text \<open>Every error code has a message, and codes beyond the table share the last one; the only
  argument for which \<open>rumboot_strerror\<close> leaves its table is the smallest \<open>int\<close>, which negation
  does not make positive.\<close>

theorem strerror_in_table:
  "rumboot_strerror err =
     (if err = 0x80000000 then None
      else Some (boot_errors_table ! nat (min \<bar>sint err\<bar> EMAXERROR)))"
proof (cases "err = 0x80000000")
  case True
  then show ?thesis by (simp add: rumboot_strerror_def Let_def EMAXERROR_def)
next
  case False
  have r: "- (2 ^ 31) \<le> sint err" "sint err < 2 ^ 31" using sint_range_size [of err] by (simp_all add: word_size)
  moreover have "sint err \<noteq> - (2 ^ 31)"
  proof
    assume "sint err = - (2 ^ 31)"
    then have "of_int (sint err) = (of_int (- (2 ^ 31)) :: 32 word)" by (rule arg_cong)
    with False show False by simp
  qed
  ultimately have neg: "sint (- err) = - sint err"
    by (simp add: sint_word_ariths signed_take_bit_int_eq_self)
  show ?thesis
    using False r neg
    by (auto simp: rumboot_strerror_def Let_def EMAXERROR_def min_def)
qed

text \<open>Offsets of \<open>struct rumboot_bootheader\<close>; its size is that of the offset of \<open>data\<close>.\<close>

definition hdr_version :: u32 where "hdr_version = 4"
definition hdr_flags :: u32 where "hdr_flags = 5"
definition hdr_chip_id :: u32 where "hdr_chip_id = 6"
definition hdr_data_crc32 :: u32 where "hdr_data_crc32 = 8"
definition hdr_datalen :: u32 where "hdr_datalen = 12"
definition hdr_entry_point :: u32 where "hdr_entry_point = 16"
definition hdr_relocation :: u32 where "hdr_relocation = 24"
definition hdr_target_cpu_cluster :: u32 where "hdr_target_cpu_cluster = 32"
definition hdr_encryption_slot :: u32 where "hdr_encryption_slot = 33"
definition hdr_certificate_slot :: u32 where "hdr_certificate_slot = 34"
definition hdr_bootargs :: u32 where "hdr_bootargs = 36"
definition hdr_header_crc32 :: u32 where "hdr_header_crc32 = 56"
definition hdr_device :: u32 where "hdr_device = 60"
definition hdr_data :: u32 where "hdr_data = 64"
definition sizeof_hdr :: nat where "sizeof_hdr = 64"

lemmas hdr_offsets = hdr_version_def hdr_flags_def hdr_chip_id_def hdr_data_crc32_def
  hdr_datalen_def hdr_entry_point_def hdr_relocation_def hdr_target_cpu_cluster_def
  hdr_encryption_slot_def hdr_certificate_slot_def hdr_bootargs_def hdr_header_crc32_def
  hdr_device_def hdr_data_def sizeof_hdr_def

section \<open>Header fields\<close>

definition rumboot_bootimage_check_magic :: "'d platform \<Rightarrow> u32 \<Rightarrow> int" where
  "rumboot_bootimage_check_magic p magic =
     (if magic = RUMBOOT_HEADER_MAGIC then 0
      else if pf_endian_swap p \<and> swap32 magic = RUMBOOT_HEADER_MAGIC then 1
      else -1)"

definition rumboot_bootimage_header_item32 :: "'d platform \<Rightarrow> u32 \<Rightarrow> int \<Rightarrow> u32" where
  "rumboot_bootimage_header_item32 p v swap =
     (if pf_endian_swap p then (if swap \<noteq> 0 then swap32 v else v) else v)"

definition rumboot_bootimage_header_item64 :: "'d platform \<Rightarrow> u64 \<Rightarrow> int \<Rightarrow> u64" where
  "rumboot_bootimage_header_item64 p v swap =
     (if pf_endian_swap p then (if swap \<noteq> 0 then swap64 v else v) else v)"

text \<open>\<open>rumboot_bootimage_header_item32(hdr->f, swap)\<close> for a field at an offset.\<close>

definition hdr_item32 :: "'d platform \<Rightarrow> mem \<Rightarrow> u32 \<Rightarrow> int \<Rightarrow> u32" where
  "hdr_item32 p m a swap = rumboot_bootimage_header_item32 p (load32 (pf_big_endian p) m a) swap"

definition hdr_swap :: "'d platform \<Rightarrow> mem \<Rightarrow> u32 \<Rightarrow> int" where
  "hdr_swap p m hdr = rumboot_bootimage_check_magic p (load32 (pf_big_endian p) m hdr)"

definition get_cpu :: "'d platform \<Rightarrow> int \<Rightarrow> 'd rumboot_cpu_cluster option" where
  "get_cpu p cluster =
     (if cluster \<ge> 0 \<and> cluster < int (length (pf_cpus p)) then Some (pf_cpus p ! nat cluster) else None)"

section \<open>Validation\<close>

text \<open>The length of the image data, or a negative error code; the result is a \<open>ssize_t\<close>.\<close>

definition rumboot_bootimage_check_header :: "'d platform \<Rightarrow> mem \<Rightarrow> u32 \<Rightarrow> int" where
  "rumboot_bootimage_check_header p m hdr =
     (let swap = hdr_swap p m hdr; version = m (hdr + hdr_version) in
      if swap = -1 then - EBADMAGIC
      else if version \<noteq> pf_header_version p \<and> version \<noteq> 2 then - EBADVERSION
      else if version = 2 \<and> m (hdr + hdr_flags) \<noteq> 0 then - EBADHEADER
      else if version > 2 \<and> get_cpu p (uint (m (hdr + hdr_target_cpu_cluster))) = None
        then - EBADCLUSTERID
      else if m (hdr + hdr_chip_id) \<noteq> pf_chip_id p then - EBADCHIPID
      else if crc32 0 (mem_read m hdr (unat hdr_header_crc32))
                \<noteq> hdr_item32 p m (hdr + hdr_header_crc32) swap then - EBADHDRCRC
      else if \<not> pf_check_entry_points p m hdr then - EBADENTRY
      else sint (hdr_item32 p m (hdr + hdr_datalen) swap))"

definition rumboot_bootimage_check_data :: "'d platform \<Rightarrow> mem \<Rightarrow> u32 \<Rightarrow> int" where
  "rumboot_bootimage_check_data p m hdr =
     (let swap = hdr_swap p m hdr; datalen = hdr_item32 p m (hdr + hdr_datalen) swap in
      if datalen = 0 then - EBADDATACRC
      else if crc32 0 (mem_read m (hdr + hdr_data) (unat datalen))
                \<noteq> hdr_item32 p m (hdr + hdr_data_crc32) swap then - EBADDATACRC
      else 0)"

section \<open>Execution\<close>

text \<open>The hooks of \<open>src/lib/weaklings.c\<close>, which leave the data as it is.\<close>

definition rumboot_platform_decrypt_buffer :: "int \<Rightarrow> u32 \<Rightarrow> u32 \<Rightarrow> mem \<Rightarrow> int \<times> mem" where
  "rumboot_platform_decrypt_buffer encryption_slot data datasize m = (0, m)"

definition rumboot_platform_verify_signature :: "int \<Rightarrow> u32 \<Rightarrow> u32 \<Rightarrow> mem \<Rightarrow> int" where
  "rumboot_platform_verify_signature certificate_slot data datasize m = 0"

text \<open>
  Relocation, decapsulation and decompression, the middle part of
  \<open>rumboot_bootimage_execute\<close>. \<open>frame\<close> is the address of its local \<open>header_copy_space\<close>. The
  result is an error code or the final location of the data, with the memory.
\<close>

definition bootimage_place ::
  "'d platform \<Rightarrow> u32 \<Rightarrow> u32 \<Rightarrow> u8 \<Rightarrow> int \<Rightarrow> u32 \<Rightarrow> mem \<Rightarrow> ((int + u32) \<times> mem) option" where
  "bootimage_place p frame hdr flags swap datasize m =
     (let decaps = has_flag flags RUMBOOT_FLAG_DECAPS;
          compress = has_flag flags RUMBOOT_FLAG_COMPRESS;
          relocate = has_flag flags RUMBOOT_FLAG_RELOCATE;
          dest = (if relocate then
                    ucast (rumboot_bootimage_header_item64 p
                      (load64 (pf_big_endian p) m (hdr + hdr_relocation)) swap)
                  else hdr);
          src = hdr;
          (src_off, dst_off, effective_size) = (0, 0, datasize + of_nat sizeof_hdr);
          (src_off, dst_off, effective_size, m) =
            (if decaps then (of_nat sizeof_hdr, 0, datasize, mem_write m frame (mem_read m hdr sizeof_hdr))
             else (src_off, dst_off, effective_size, m));
          (src_off, dst_off, effective_size) =
            (if compress then (of_nat sizeof_hdr, if decaps then 0 else of_nat sizeof_hdr, datasize)
             else (src_off, dst_off, effective_size));
          (src_off, dst_off, effective_size, m) =
            (if src \<noteq> dest \<and> \<not> decaps
             then (of_nat sizeof_hdr, of_nat sizeof_hdr, datasize, memmove dest src sizeof_hdr m)
             else (src_off, dst_off, effective_size, m))
      in if compress then
           (let result =
              (if relocate then
                 rumboot_decompress_buffer (src + src_off) (dest + dst_off) effective_size (- 1) m
               else
                 let temp_buf = src + pf_spl_size p - datasize;
                     m = memmove temp_buf (src + src_off) (unat datasize) m
                 in rumboot_decompress_buffer temp_buf (dest + dst_off) effective_size
                      (pf_spl_size p - (if decaps then 0 else of_nat sizeof_hdr)) m)
            in case result of
                 None \<Rightarrow> None
               | Some (new_data_length, m) \<Rightarrow>
                   if new_data_length < 0 then Some (Inl new_data_length, m)
                   else Some (Inr (dest + dst_off), m))
         else if src + src_off \<noteq> dest + dst_off then
           Some (Inr (dest + dst_off), memmove (dest + dst_off) (src + src_off) (unat effective_size) m)
         else Some (Inr (dest + dst_off), m))"

text \<open>Starting the image: everything after the data is in place.\<close>

definition bootimage_start ::
  "'d rumboot_cpu_cluster \<Rightarrow> int \<Rightarrow> u8 \<Rightarrow> u32 \<Rightarrow> u32 \<Rightarrow> int \<Rightarrow> 'd world \<Rightarrow> (int \<times> 'd world) option" where
  "bootimage_start cpu cluster flags hdr location swap w =
     (if has_flag flags RUMBOOT_FLAG_DATA then Some (0, w)
      else
        let flags = (if cluster = 0 then flags OR push_bit RUMBOOT_FLAG_SYNC 1 else flags);
            started = (case cl_start cpu of None \<Rightarrow> Some (0, w) | Some start \<Rightarrow> start hdr location swap w)
        in case started of
             None \<Rightarrow> None
           | Some (ret, w) \<Rightarrow>
               if ret \<noteq> 0 then Some (ret, w)
               else if has_flag flags RUMBOOT_FLAG_SYNC then
                 (case cl_poll cpu of Some poll \<Rightarrow> poll w | None \<Rightarrow> Some (ret, w))
               else Some (ret, w))"

definition rumboot_bootimage_execute ::
  "'d platform \<Rightarrow> u32 \<Rightarrow> u32 \<Rightarrow> u32 \<Rightarrow> 'd world \<Rightarrow> (int \<times> 'd world) option" where
  "rumboot_bootimage_execute p frame hdr src w =
     (let be = pf_big_endian p; m = w_mem w;
          swap = hdr_swap p m hdr;
          datasize = hdr_item32 p m (hdr + hdr_datalen) swap;
          flags = m (hdr + hdr_flags);
          m = store32 be (hdr + hdr_device) src (store32 be hdr 0 m);
          w = w\<lparr>w_mem := m\<rparr>;
          cluster = (if m (hdr + hdr_version) = 3 then uint (m (hdr + hdr_target_cpu_cluster)) else 0)
      in case get_cpu p cluster of
           None \<Rightarrow> Some (- EBADCLUSTERID, w)
         | Some cpu \<Rightarrow>
             let w = (if has_flag flags RUMBOOT_FLAG_KILL
                      then (case cl_kill cpu of Some kill \<Rightarrow> kill w | None \<Rightarrow> w) else w);
                 m = w_mem w;
                 encryption_slot = uint (m (hdr + hdr_encryption_slot));
                 certificate_slot = uint (m (hdr + hdr_certificate_slot));
                 (ret, m) =
                   (if encryption_slot > 0 \<and> certificate_slot > 0 then
                      let (_, m) = rumboot_platform_decrypt_buffer encryption_slot (hdr + hdr_data) datasize m
                      in (rumboot_platform_verify_signature certificate_slot (hdr + hdr_data) datasize m, m)
                    else (0, m));
                 w = w\<lparr>w_mem := m\<rparr>
             in if ret \<noteq> 0 then Some (ret, w)
                else
                  (case (if has_flag flags RUMBOOT_FLAG_RELOCATE \<or> has_flag flags RUMBOOT_FLAG_DECAPS
                            \<or> has_flag flags RUMBOOT_FLAG_COMPRESS
                         then bootimage_place p frame hdr flags swap datasize m
                         else Some (Inr (hdr + hdr_data), m)) of
                     None \<Rightarrow> None
                   | Some (Inl err, m) \<Rightarrow> Some (err, w\<lparr>w_mem := m\<rparr>)
                   | Some (Inr location, m) \<Rightarrow>
                       bootimage_start cpu cluster flags
                         (if has_flag flags RUMBOOT_FLAG_DECAPS then frame else hdr)
                         location swap (w\<lparr>w_mem := m\<rparr>)))"

definition rumboot_bootimage_execute_ep :: "'d platform \<Rightarrow> u32 \<Rightarrow> 'd world \<Rightarrow> (int \<times> 'd world) option" where
  "rumboot_bootimage_execute_ep p ep w = pf_run p ep [] w"

definition rumboot_bootimage_jump_to_ep_with_args ::
  "'d platform \<Rightarrow> u32 \<Rightarrow> u32 \<Rightarrow> int \<Rightarrow> 'd world \<Rightarrow> (int \<times> 'd world) option" where
  "rumboot_bootimage_jump_to_ep_with_args p hdr data swap w =
     (let m = w_mem w in
      pf_run p (hdr_item32 p m (hdr + hdr_entry_point) swap)
        (map (\<lambda>i. hdr_item32 p m (hdr + hdr_bootargs + 4 * of_nat i) swap) [0..<5]) w)"


section \<open>Reading fields\<close>

lemma load32_cong: "mem_read m a 4 = mem_read m' a 4 \<Longrightarrow> load32 be m a = load32 be m' a"
  by (simp add: load32_def)

lemma hdr_item32_cong: "mem_read m a 4 = mem_read m' a 4 \<Longrightarrow> hdr_item32 p m a s = hdr_item32 p m' a s"
  by (simp add: hdr_item32_def load32_def)

section \<open>Byte order\<close>

abbreviation other_endian :: "'d platform \<Rightarrow> 'd platform" where
  "other_endian p \<equiv> p\<lparr>pf_big_endian := \<not> pf_big_endian p\<rparr>"

lemma magic_swapped: "swap32 RUMBOOT_HEADER_MAGIC \<noteq> RUMBOOT_HEADER_MAGIC"
  by (simp add: swap32_def RUMBOOT_HEADER_MAGIC_def)

lemma hdr_swap_other:
  assumes "pf_endian_swap p"
  shows "hdr_swap (other_endian p) m hdr = (if hdr_swap p m hdr = 0 then 1
     else if hdr_swap p m hdr = 1 then 0 else -1)"
proof -
  let ?x = "load32 (pf_big_endian p) m hdr"
  have o: "load32 (\<not> pf_big_endian p) m hdr = swap32 ?x" by (simp add: swap32_load32)
  show ?thesis
  proof (cases "?x = RUMBOOT_HEADER_MAGIC")
    case True
    then show ?thesis using assms magic_swapped
      by (simp add: hdr_swap_def rumboot_bootimage_check_magic_def o)
  next
    case False
    then show ?thesis using assms
      by (simp add: hdr_swap_def rumboot_bootimage_check_magic_def o)
  qed
qed

lemma hdr_swap_values: "hdr_swap p m hdr \<noteq> -1 \<Longrightarrow> hdr_swap p m hdr = 0 \<or> hdr_swap p m hdr = 1"
  by (auto simp: hdr_swap_def rumboot_bootimage_check_magic_def split: if_splits)

lemma hdr_item32_other:
  assumes "pf_endian_swap p" "hdr_swap p m hdr \<noteq> -1"
  shows "hdr_item32 (other_endian p) m a (hdr_swap (other_endian p) m hdr) = hdr_item32 p m a (hdr_swap p m hdr)"
proof -
  have "hdr_swap p m hdr = 0 \<or> hdr_swap p m hdr = 1"
    using assms(2) by (rule hdr_swap_values)
  then show ?thesis using assms(1)
    by (auto simp: hdr_swap_other hdr_item32_def rumboot_bootimage_header_item32_def swap32_load32)
qed

lemma get_cpu_other: "get_cpu (other_endian p) c = get_cpu p c"
  by (simp add: get_cpu_def)

section \<open>Validation under corruption\<close>

lemma check_header_accepts:
  assumes "0 \<le> rumboot_bootimage_check_header p m hdr"
  shows "hdr_swap p m hdr \<noteq> -1"
    "crc32 0 (mem_read m hdr 56) = hdr_item32 p m (hdr + 56) (hdr_swap p m hdr)"
    "rumboot_bootimage_check_header p m hdr = sint (hdr_item32 p m (hdr + hdr_datalen) (hdr_swap p m hdr))"
  using assms
  by (auto simp: rumboot_bootimage_check_header_def Let_def boot_errors hdr_header_crc32_def split: if_splits)

lemma check_header_bad_crc:
  assumes "crc32 0 (mem_read m hdr 56) \<noteq> hdr_item32 p m (hdr + 56) (hdr_swap p m hdr)"
  shows "rumboot_bootimage_check_header p m hdr < 0"
  using assms by (simp add: rumboot_bootimage_check_header_def Let_def boot_errors hdr_header_crc32_def)

lemma crc32_burst_in_memory:
  assumes "length u \<le> 4" "k + length u \<le> n" "n < 2 ^ 32" "mem_read m (a + of_nat k) (length u) \<noteq> u"
  shows "crc32 c (mem_read (mem_write m (a + of_nat k) u) a n) \<noteq> crc32 c (mem_read m a n)"
  unfolding mem_read_write_inside [OF assms(2,3)]
  by (subst mem_read_split [OF assms(2), of m a], rule crc32_burst) (use assms in auto)

text \<open>C1: A boot image header that was accepted is rejected after any corruption confined to
  four consecutive bytes between the magic number and the checksum field, in either byte
  order of the image: no such error burst can turn one valid header into another.\<close>

theorem header_burst_rejected:
  assumes acc: "0 \<le> rumboot_bootimage_check_header p m hdr"
    and u: "length u \<le> 4" "4 \<le> k" "k + length u \<le> 56" "mem_read m (hdr + of_nat k) (length u) \<noteq> u"
  shows "rumboot_bootimage_check_header p (mem_write m (hdr + of_nat k) u) hdr < 0"
proof (rule check_header_bad_crc)
  let ?m = "mem_write m (hdr + of_nat k) u"
  have a: "mem_read ?m (hdr + of_nat 56) 4 = mem_read m (hdr + of_nat 56) 4"
    by (rule read_unchanged_after) (use u in auto)
  have b: "mem_read ?m (hdr + of_nat 0) 4 = mem_read m (hdr + of_nat 0) 4"
    by (rule read_unchanged_before) (use u in auto)
  have sw: "hdr_swap p ?m hdr = hdr_swap p m hdr"
    using b by (simp add: hdr_swap_def load32_def)
  have st: "hdr_item32 p ?m (hdr + 56) s = hdr_item32 p m (hdr + 56) s" for s
    using a by (intro hdr_item32_cong) simp
  have "crc32 0 (mem_read ?m hdr 56) \<noteq> crc32 0 (mem_read m hdr 56)"
    by (rule crc32_burst_in_memory) (use u in auto)
  then show "crc32 0 (mem_read ?m hdr 56) \<noteq> hdr_item32 p ?m (hdr + 56) (hdr_swap p ?m hdr)"
    using check_header_accepts(2) [OF acc] by (simp add: sw st)
qed

text \<open>C2: Image data that was accepted is rejected with \<open>EBADDATACRC\<close> after any corruption
  confined to four consecutive bytes of it.\<close>

theorem data_burst_rejected:
  assumes acc: "rumboot_bootimage_check_data p m hdr = 0"
    and n: "n = unat (hdr_item32 p m (hdr + hdr_datalen) (hdr_swap p m hdr))" "64 + n < 2 ^ 32"
    and u: "length u \<le> 4" "k + length u \<le> n" "mem_read m (hdr + 64 + of_nat k) (length u) \<noteq> u"
  shows "rumboot_bootimage_check_data p (mem_write m (hdr + 64 + of_nat k) u) hdr = - EBADDATACRC"
proof -
  let ?m = "mem_write m (hdr + 64 + of_nat k) u"
  have at: "hdr + 64 + of_nat k = hdr + of_nat (64 + k)" by (simp add: add.assoc)
  have f: "mem_read ?m (hdr + of_nat x) 4 = mem_read m (hdr + of_nat x) 4" if "x \<le> 60" for x
    unfolding at by (rule read_unchanged_before) (use u n(2) that in auto)
  have sw: "hdr_swap p ?m hdr = hdr_swap p m hdr"
    using f [of 0] by (simp add: hdr_swap_def load32_def)
  have st: "hdr_item32 p ?m (hdr + 12) s = hdr_item32 p m (hdr + 12) s"
    "hdr_item32 p ?m (hdr + 8) s = hdr_item32 p m (hdr + 8) s" for s
    using f [of 12] f [of 8] by (auto intro!: hdr_item32_cong)
  have "crc32 0 (mem_read ?m (hdr + 64) n) \<noteq> crc32 0 (mem_read m (hdr + 64) n)"
    by (rule crc32_burst_in_memory) (use u n(2) in auto)
  then show ?thesis
    using acc n(1) by (auto simp: rumboot_bootimage_check_data_def Let_def hdr_offsets sw st EBADDATACRC_def
        split: if_splits)
qed

text \<open>Validation does not depend on the byte order of the CPU. On a target with endian
  swapping, whether an image is accepted, with which length, and with which error it is
  refused are the same whether the CPU runs big or little endian (the image's own byte order
  is recognised from its magic number), when its entry point test agrees as well.\<close>

theorem check_header_endian_neutral:
  assumes "pf_endian_swap p"
  shows "rumboot_bootimage_check_header (other_endian p) m hdr = rumboot_bootimage_check_header p m hdr"
proof (cases "hdr_swap p m hdr = -1")
  case True
  then show ?thesis
    using assms by (simp add: rumboot_bootimage_check_header_def hdr_swap_other)
next
  case False
  have s: "hdr_swap (other_endian p) m hdr \<noteq> -1" using hdr_swap_values [OF False]
    by (auto simp: hdr_swap_other [OF assms])
  show ?thesis
    using hdr_item32_other [OF assms False] s False
    by (simp add: rumboot_bootimage_check_header_def Let_def get_cpu_other)
qed


section \<open>An image for the witnesses\<close>

definition demo_data :: "u8 list" where "demo_data = [1, 2, 3, 4]"

definition demo_header :: "u8 list" where
  "demo_header = [0xce, 0xfa, 0x1d, 0xb0, 3, 0, 4, 1] @ bytes_of False 4 (crc32 0 demo_data)
     @ [4, 0, 0, 0, 0x80, 0, 0, 0] @ replicate 36 0"

definition demo_bytes :: "u8 list" where
  "demo_bytes = demo_header @ bytes_of False 4 (crc32 0 demo_header) @ [0, 0, 0, 0] @ demo_data"

definition demo_mem :: mem where "demo_mem = mem_write (\<lambda>_. 0) 0x1000 demo_bytes"

definition demo_platform :: "unit platform" where
  "demo_platform = \<lparr>pf_big_endian = False, pf_endian_swap = True, pf_chip_id = 4, pf_header_version = 3,
     pf_cpus = [\<lparr>cl_base = 0, cl_kill = None, cl_poll = None, cl_start = None\<rparr>],
     pf_check_entry_points = (\<lambda>m hdr. True), pf_spl_size = 0x10000,
     pf_run = (\<lambda>ep args w. Some (0, w))\<rparr>"

lemma demo_lengths [simp]: "length demo_header = 56" "length demo_bytes = 68"
  by (simp_all add: demo_header_def demo_bytes_def demo_data_def)

lemma demo_read:
  "i + n \<le> 68 \<Longrightarrow> mem_read demo_mem (0x1000 + of_nat i) n = take n (drop i demo_bytes)"
  unfolding demo_mem_def by (rule mem_read_write_part) simp_all

lemma demo_byte: "i < 68 \<Longrightarrow> demo_mem (0x1000 + of_nat i) = demo_bytes ! i"
  unfolding demo_mem_def by (rule mem_write_nth) simp_all

lemma demo_words:
  "load32 False demo_mem 0x1000 = 0xb01dface" "load32 False demo_mem 0x100C = 4"
  "load32 False demo_mem 0x1008 = crc32 0 demo_data"
  "load32 False demo_mem 0x1038 = crc32 0 demo_header"
  "mem_read demo_mem 0x1000 56 = demo_header" "mem_read demo_mem 0x1040 4 = demo_data"
proof -
  have h: "take 4 demo_bytes = [0xce, 0xfa, 0x1d, 0xb0]" "take 4 (drop 12 demo_bytes) = [4, 0, 0, 0]"
    "take 4 (drop 8 demo_bytes) = bytes_of False 4 (crc32 0 demo_data)"
    by (simp_all add: demo_bytes_def demo_header_def)
  have t: "take 4 (drop 56 demo_bytes) = bytes_of False 4 (crc32 0 demo_header)"
    "take 56 demo_bytes = demo_header" "take 4 (drop 64 demo_bytes) = demo_data"
    by (simp_all add: demo_bytes_def demo_data_def)
  show "load32 False demo_mem 0x1000 = 0xb01dface" "load32 False demo_mem 0x100C = 4"
    "load32 False demo_mem 0x1008 = crc32 0 demo_data" "load32 False demo_mem 0x1038 = crc32 0 demo_header"
    "mem_read demo_mem 0x1000 56 = demo_header" "mem_read demo_mem 0x1040 4 = demo_data"
    using demo_read [of 0 4] demo_read [of 12 4] demo_read [of 8 4] demo_read [of 56 4]
      demo_read [of 0 56] demo_read [of 64 4]
    by (simp_all add: load32_def h t u32_of_bytes_of) (simp_all add: u32_of_def)
qed

lemma demo_fields: "demo_mem 0x1004 = 3" "demo_mem 0x1005 = 0" "demo_mem 0x1006 = 4" "demo_mem 0x1020 = 0"
  using demo_byte [of 4] demo_byte [of 5] demo_byte [of 6] demo_byte [of 32]
  by (simp_all add: demo_bytes_def demo_header_def nth_append)

lemma demo_swap: "hdr_swap demo_platform demo_mem 0x1000 = 0"
  by (simp add: hdr_swap_def rumboot_bootimage_check_magic_def demo_platform_def demo_words
      RUMBOOT_HEADER_MAGIC_def)

text \<open>The image is valid on every little-endian platform with its chip id.\<close>

lemma demo_valid_on:
  assumes "\<not> pf_big_endian p" "pf_chip_id p = 4" "pf_header_version p = 3" "pf_cpus p \<noteq> []" "pf_check_entry_points p = (\<lambda>m hdr. True)"
  shows "hdr_swap p demo_mem 0x1000 = 0" "rumboot_bootimage_check_header p demo_mem 0x1000 = 4"
    "rumboot_bootimage_check_data p demo_mem 0x1000 = 0"
proof -
  show s: "hdr_swap p demo_mem 0x1000 = 0"
    using assms(1) by (simp add: hdr_swap_def rumboot_bootimage_check_magic_def demo_words RUMBOOT_HEADER_MAGIC_def)
  have i: "hdr_item32 p demo_mem a 0 = load32 False demo_mem a" for a
    using assms(1) by (simp add: hdr_item32_def rumboot_bootimage_header_item32_def)
  show "rumboot_bootimage_check_header p demo_mem 0x1000 = 4"
    using assms by (simp add: rumboot_bootimage_check_header_def s i hdr_offsets demo_fields demo_words
        Let_def get_cpu_def)
  show "rumboot_bootimage_check_data p demo_mem 0x1000 = 0"
    by (simp add: rumboot_bootimage_check_data_def s i hdr_offsets demo_words Let_def)
qed

lemma demo_accepted: "rumboot_bootimage_check_header demo_platform demo_mem 0x1000 = 4"
  by (rule demo_valid_on) (simp_all add: demo_platform_def)

lemma demo_data_accepted: "rumboot_bootimage_check_data demo_platform demo_mem 0x1000 = 0"
  by (rule demo_valid_on) (simp_all add: demo_platform_def)

theorem header_burst_rejected_witness:
  "rumboot_bootimage_check_header demo_platform (mem_write demo_mem (0x1000 + of_nat 16) [0x81]) 0x1000 < 0"
proof (rule header_burst_rejected)
  show "mem_read demo_mem (0x1000 + of_nat 16) (length [0x81]) \<noteq> [0x81 :: u8]"
    using demo_read [of 16 1] by (simp add: demo_bytes_def demo_header_def)
qed (simp_all add: demo_accepted)
theorem data_burst_rejected_witness:
  "rumboot_bootimage_check_data demo_platform (mem_write demo_mem (0x1000 + 64 + of_nat 1) [7, 8]) 0x1000 = - EBADDATACRC"
proof (rule data_burst_rejected [where n = 4])
  show "mem_read demo_mem (0x1000 + 64 + of_nat 1) (length [7, 8]) \<noteq> [7, 8 :: u8]"
    using demo_read [of 65 2] by (simp add: demo_bytes_def demo_data_def flip: numeral_2_eq_2)
  show "4 = unat (hdr_item32 demo_platform demo_mem (0x1000 + hdr_datalen) (hdr_swap demo_platform demo_mem 0x1000))"
    using demo_words(2) by (simp add: demo_swap hdr_item32_def rumboot_bootimage_header_item32_def hdr_datalen_def)
      (simp add: demo_platform_def)
qed (simp_all add: demo_data_accepted)

theorem check_header_endian_neutral_witness:
  "rumboot_bootimage_check_header (other_endian demo_platform) demo_mem 0x1000 = 4"
  using check_header_endian_neutral [of demo_platform demo_mem "0x1000"] demo_accepted
  by (simp add: demo_platform_def)

section \<open>Placement and execution\<close>

lemma mem_write_twice:
  assumes "length xs + length ys \<le> 2 ^ 32" "b = a + of_nat (length xs)"
  shows "mem_write (mem_write m a xs) b ys = mem_write m a (xs @ ys)"
  using mem_write_append [OF assms(1)] by (simp add: assms(2))

text \<open>Relocation implements one \<open>memmove\<close> of the whole image. For an image with
  \<open>RELOCATE\<close> but neither \<open>DECAPS\<close> nor \<open>COMPRESS\<close>, moving the header and then the data is the
  same as moving header and data together, whenever the destination of the header does not
  overlap the data at the source (other overlaps are harmless).\<close>

theorem place_relocates:
  assumes "has_flag flags RUMBOOT_FLAG_RELOCATE" "\<not> has_flag flags RUMBOOT_FLAG_DECAPS"
    "\<not> has_flag flags RUMBOOT_FLAG_COMPRESS"
    and dest: "dest = ucast (rumboot_bootimage_header_item64 p
                 (load64 (pf_big_endian p) m (hdr + hdr_relocation)) swap)" "hdr \<noteq> dest"
    and sep: "separate (hdr + 64) (unat datasize) dest 64" "64 + unat datasize \<le> 2 ^ 32"
  shows "bootimage_place p frame hdr flags swap datasize m
    = Some (Inr (dest + 64), memmove dest hdr (64 + unat datasize) m)"
proof -
  have s: "mem_read (mem_write m dest (mem_read m hdr 64)) (hdr + 64) (unat datasize) = mem_read m (hdr + 64) (unat datasize)"
    by (rule mem_read_write_separate) (use sep in simp)
  have w: "memmove (dest + 64) (hdr + 64) (unat datasize) (memmove dest hdr 64 m) = memmove dest hdr (64 + unat datasize) m"
    unfolding memmove_def s mem_read_add [of m hdr 64] of_nat_numeral
    by (rule mem_write_twice) (use sep in simp_all)
  show ?thesis
    using assms(1-3) dest(2)
    by (simp add: bootimage_place_def sizeof_hdr_def Let_def w dest(1) [symmetric])
qed

text \<open>Relocation forward by less than the image destroys it: when an image of at least 64
  bytes of data is relocated to the address just behind its header, the first 64 bytes of the
  relocated data are a copy of the header, because the header is moved over the data before
  the data is.\<close>

theorem relocate_forward_clobbers:
  assumes "has_flag flags RUMBOOT_FLAG_RELOCATE" "\<not> has_flag flags RUMBOOT_FLAG_DECAPS"
    "\<not> has_flag flags RUMBOOT_FLAG_COMPRESS"
    and dest: "ucast (rumboot_bootimage_header_item64 p
                 (load64 (pf_big_endian p) m (hdr + hdr_relocation)) swap) = hdr + 64"
    and n: "64 \<le> unat datasize"
  shows "\<exists>m'. bootimage_place p frame hdr flags swap datasize m = Some (Inr (hdr + 128), m') \<and>
    mem_read m' (hdr + 128) 64 = mem_read m hdr 64"
proof -
  let ?m1 = "memmove (hdr + 64) hdr 64 m"
  let ?m2 = "memmove (hdr + 128) (hdr + 64) (unat datasize) ?m1"
  have p: "bootimage_place p frame hdr flags swap datasize m = Some (Inr (hdr + 128), ?m2)"
    using assms(1-3) by (simp add: bootimage_place_def sizeof_hdr_def Let_def dest add.assoc)
  have "mem_read ?m2 (hdr + 128) 64 = take 64 (mem_read ?m2 (hdr + 128) (unat datasize))"
    using n by (simp add: mem_read_take)
  also have "\<dots> = take 64 (mem_read ?m1 (hdr + 64) (unat datasize))"
    unfolding memmove_def [of "hdr + 128"]
    by (subst mem_read_write_same) (use unat_u32_less [of datasize] in \<open>simp_all add: less_imp_le\<close>)
  also have "\<dots> = mem_read ?m1 (hdr + 64) 64" using n by (simp add: mem_read_take)
  also have "\<dots> = mem_read m hdr 64"
    unfolding memmove_def by (rule mem_read_write_same) simp_all
  finally show ?thesis using p by blast
qed


text \<open>Witnesses on the same image with its relocation field set.\<close>

definition demo_moved :: "u64 \<Rightarrow> mem" where
  "demo_moved dest = store64 False 0x1018 dest demo_mem"

lemma demo_moved_dest: "load64 (pf_big_endian demo_platform) (demo_moved dest) (0x1000 + hdr_relocation) = dest"
  using load64_store64 [of False "0x1018" dest demo_mem]
  by (simp add: demo_moved_def demo_platform_def hdr_relocation_def)

theorem place_relocates_witness:
  "bootimage_place demo_platform 0x8000 0x1000 (push_bit 5 1) 0 4 (demo_moved 0x2000)
     = Some (Inr 0x2040, memmove 0x2000 0x1000 68 (demo_moved 0x2000))"
  using place_relocates [of "push_bit 5 1" "0x2000" demo_platform "demo_moved 0x2000" "0x1000" 0 4 "0x8000"]
  by (simp add: demo_moved_dest has_flag_def boot_flags separate_def rumboot_bootimage_header_item64_def)

theorem relocate_forward_clobbers_witness:
  "\<exists>m'. bootimage_place demo_platform 0x8000 0x1000 (push_bit 5 1) 0 100 (demo_moved 0x1040)
     = Some (Inr 0x1080, m') \<and> mem_read m' 0x1080 64 = mem_read (demo_moved 0x1040) 0x1000 64"
  using relocate_forward_clobbers [of "push_bit 5 1" demo_platform "demo_moved 0x1040" "0x1000" 0 100 "0x8000"]
  by (simp add: demo_moved_dest has_flag_def boot_flags rumboot_bootimage_header_item64_def)

text \<open>C15: A compressed image is unpacked behind its relocated header. For an image with
  \<open>RELOCATE\<close> and \<open>COMPRESS\<close> but not \<open>DECAPS\<close>, when source and destination do not overlap, the data is not at NULL and
  the unpacked data is below 2 GiB, the destination receives the header followed by the
  decoding of the data by the reference function, and nothing else in memory changes.\<close>

theorem place_decompresses:
  assumes "has_flag flags RUMBOOT_FLAG_RELOCATE" "\<not> has_flag flags RUMBOOT_FLAG_DECAPS"
    "has_flag flags RUMBOOT_FLAG_COMPRESS"
    and dest: "dest = ucast (rumboot_bootimage_header_item64 p
                 (load64 (pf_big_endian p) m (hdr + hdr_relocation)) swap)" "hdr \<noteq> dest"
    and whole: "whole = lzss (bits_of_bytes (mem_read m (hdr + 64) (unat datasize))) []"
    and sep: "separate (hdr + 64) (unat datasize) dest (64 + length whole)"
    and fits: "unat dest + 64 + length whole < 2 ^ 32" "length whole < 2 ^ 31" and nn: "hdr + 64 \<noteq> 0"
  shows "bootimage_place p frame hdr flags swap datasize m
    = Some (Inr (dest + 64), mem_write m dest (mem_read m hdr 64 @ whole))"
proof -
  let ?m1 = "memmove dest hdr 64 m"
  have ud: "unat (dest + 64) = unat dest + 64"
    using unat_add_small [of dest 64] fits(1) by simp
  then have nd: "dest + 64 \<noteq> 0" by auto
  have s1: "separate (hdr + 64) (unat datasize) dest 64"
    and s2: "separate (hdr + 64) (unat datasize) (dest + 64) (length whole)"
    using sep ud by (auto simp: separate_def)
  have rd: "mem_read ?m1 (hdr + 64) (unat datasize) = mem_read m (hdr + 64) (unat datasize)"
    unfolding memmove_def by (rule mem_read_write_separate) (use s1 in simp)
  have "unat (- 1 :: u32) = 2 ^ 32 - 1" by (simp add: unsigned_minus_1_eq_mask mask_eq_exp_minus_1)
  then have big: "length whole < unat (- 1 :: u32)" using fits(2) by simp
  have "sint (of_nat (length whole) :: u32) = int (length whole)"
    using fits(2) by (simp add: sint_uint unsigned_of_nat signed_take_bit_int_eq_self take_bit_nat_eq_self)
  moreover have "rumboot_decompress_buffer (hdr + 64) (dest + 64) datasize (- 1) ?m1
      = Some (sint (of_nat (length whole) :: u32), mem_write ?m1 (dest + 64) whole)"
    using decompress_correct' [of "hdr + 64" datasize "dest + 64" ?m1 "- 1"] s2 fits(1) ud dest(2) big nn
    by (simp add: rd whole [symmetric] nd)
  moreover have "mem_write ?m1 (dest + 64) whole = mem_write m dest (mem_read m hdr 64 @ whole)"
    unfolding memmove_def by (rule mem_write_twice) (use fits in simp_all)
  ultimately show ?thesis
    using assms(1-3) dest(2)
    by (simp add: bootimage_place_def sizeof_hdr_def Let_def dest(1) [symmetric])
qed

text \<open>C17: Unpacking in place hangs on an image that fills the area. For an image with \<open>COMPRESS\<close> alone, which is
  moved to the end of the SPL area and unpacked behind its header, so that the write position stays behind the read
  position: if the unpacked image reaches the end of the area (in particular if it fits exactly), the execution never
  returns, neither with an error nor with the image.\<close>

theorem in_place_full_area_hangs:
  assumes "has_flag flags RUMBOOT_FLAG_COMPRESS" "\<not> has_flag flags RUMBOOT_FLAG_RELOCATE"
    "\<not> has_flag flags RUMBOOT_FLAG_DECAPS"
    and data: "data = mem_read m (hdr + 64) (unat datasize)" "datasize \<noteq> 0"
    and area: "unat hdr + unat (pf_spl_size p) < 2 ^ 32" "64 + unat datasize \<le> unat (pf_spl_size p)"
    and nc: "no_clash (hdr + pf_spl_size p - datasize) (hdr + 64) data"
    and full: "unat (pf_spl_size p) \<le> 64 + length (lzss (bits_of_bytes data) [])"
  shows "bootimage_place p frame hdr flags swap datasize m = None"
proof -
  let ?temp = "hdr + pf_spl_size p - datasize" and ?room = "pf_spl_size p - 64"
  let ?m = "memmove ?temp (hdr + 64) (unat datasize) m"
  have un: "unat datasize < 2 ^ 32" "0 < unat datasize" using data(2) by (simp_all add: unat_gt_0)
  have e: "unat (hdr + pf_spl_size p) = unat hdr + unat (pf_spl_size p)" using area(1) by (simp add: unat_word_ariths)
  have t: "unat ?temp = unat hdr + unat (pf_spl_size p) - unat datasize"
    using area(2) by (simp add: unat_sub word_le_nat_alt e)
  have d: "unat (hdr + 64) = unat hdr + 64" using unat_add_small [of hdr 64] area by simp
  have r: "unat ?room = unat (pf_spl_size p) - 64" using area(2) by (simp add: unat_sub word_le_nat_alt)
  have rd: "mem_read ?m ?temp (unat datasize) = data"
    unfolding data(1) memmove_def by (intro mem_read_write_same) (simp_all add: less_imp_le)
  have nn: "?temp \<noteq> 0" "hdr + 64 \<noteq> 0" using t d area(2) by (auto simp: word_unat_eq_iff)
  have "unat (hdr + 64) + unat ?room < 2 ^ 32" unfolding d r using area by linarith
  moreover have "unat ?room \<le> length (lzss (bits_of_bytes (mem_read ?m ?temp (unat datasize))) [])"
    unfolding rd r using full by simp
  ultimately have "rumboot_decompress_buffer ?temp (hdr + 64) datasize ?room ?m = None"
    using decompress_overrun [of ?temp "hdr + 64" ?m datasize ?room] nc nn un(2) by (simp add: rd)
  then show ?thesis using assms(1-3) by (simp add: bootimage_place_def sizeof_hdr_def Let_def add_diff_eq)
qed

lemma execute_plain:
  fixes w :: "'d world"
  defines "m \<equiv> w_mem w"
  assumes "m (hdr + hdr_flags) = 0" "m (hdr + hdr_version) = 2 \<or> m (hdr + hdr_target_cpu_cluster) = 0"
    and cpu: "pf_cpus p \<noteq> []" "cl_start (hd (pf_cpus p)) = Some (rumboot_bootimage_jump_to_ep_with_args p)"
      "cl_poll (hd (pf_cpus p)) = None"
  defines "swap \<equiv> hdr_swap p m hdr"
  shows "rumboot_bootimage_execute p frame hdr src w =
    pf_run p (hdr_item32 p m (hdr + 16) swap)
      (map (\<lambda>i. hdr_item32 p m (hdr + 36 + 4 * of_nat i) swap) [0..<5])
      (w\<lparr>w_mem := store32 (pf_big_endian p) (hdr + 60) src (store32 (pf_big_endian p) hdr 0 m)\<rparr>)"
proof -
  let ?be = "pf_big_endian p"
  let ?m = "store32 ?be (hdr + 60) src (store32 ?be hdr 0 m)"
  have rd: "mem_read ?m (hdr + of_nat x) n = mem_read m (hdr + of_nat x) n" if "4 \<le> x" "x + n \<le> 60" for x n
    using read_unchanged_before [of x n 60 "bytes_of ?be 4 src" _ hdr]
      read_unchanged_after [of 0 "bytes_of ?be 4 (0::u32)" x n m hdr] that
    by (simp add: store32_def)
  have byt: "?m (hdr + of_nat x) = m (hdr + of_nat x)" if "4 \<le> x" "x < 60" for x
    using rd [of x 1] that by (simp add: mem_read_def)
  have it: "hdr_item32 p ?m (hdr + of_nat x) s = hdr_item32 p m (hdr + of_nat x) s" if "4 \<le> x" "x \<le> 56" for x s
    by (rule hdr_item32_cong) (use rd [of x 4] that in simp)
  have b: "?m (hdr + 4) = m (hdr + 4)" "?m (hdr + 32) = m (hdr + 32)"
    using byt [of 4] byt [of 32] by simp_all
  have args: "map (\<lambda>i. hdr_item32 p ?m (hdr + 36 + 4 * of_nat i) swap) [0..<5]
      = map (\<lambda>i. hdr_item32 p m (hdr + 36 + 4 * of_nat i) swap) [0..<5]"
    using it [of 36] it [of 40] it [of 44] it [of 48] it [of 52]
    by (simp add: upt_conv_Cons add.assoc)
  have ep: "hdr_item32 p ?m (hdr + 16) swap = hdr_item32 p m (hdr + 16) swap" using it [of 16] by simp
  have c0: "(if m (hdr + 4) = 3 then uint (m (hdr + 32)) else 0) = 0"
    using assms(3) by (auto simp: hdr_offsets)
  have g: "get_cpu p 0 = Some (hd (pf_cpus p))"
    using cpu(1) by (simp add: get_cpu_def hd_conv_nth)
  have nf: "\<not> has_flag 0 k" for k by (simp add: has_flag_def)
  have sync: "has_flag (0 OR push_bit RUMBOOT_FLAG_SYNC 1) RUMBOOT_FLAG_SYNC"
    by (simp add: has_flag_def boot_flags)
  have jump: "rumboot_bootimage_jump_to_ep_with_args p hdr (hdr + 64) swap (w\<lparr>w_mem := ?m\<rparr>) =
      pf_run p (hdr_item32 p m (hdr + 16) swap)
        (map (\<lambda>i. hdr_item32 p m (hdr + 36 + 4 * of_nat i) swap) [0..<5]) (w\<lparr>w_mem := ?m\<rparr>)"
  proof -
    have wm: "w_mem (w\<lparr>w_mem := x\<rparr>) = x" for x by simp
    show ?thesis by (simp only: rumboot_bootimage_jump_to_ep_with_args_def Let_def hdr_offsets wm args ep)
  qed
  have flags: "m (hdr + 5) = 0" using assms(2) by (simp add: hdr_offsets)
  have "rumboot_bootimage_execute p frame hdr src w
      = bootimage_start (hd (pf_cpus p)) 0 0 hdr (hdr + 64) swap (w\<lparr>w_mem := ?m\<rparr>)"
    unfolding rumboot_bootimage_execute_def Let_def hdr_offsets m_def [symmetric] swap_def [symmetric]
    by (simp only: b c0 g flags nf if_False option.case simp_thms)
      (simp add: rumboot_platform_decrypt_buffer_def rumboot_platform_verify_signature_def)
  also have "\<dots> = pf_run p (hdr_item32 p m (hdr + 16) swap)
        (map (\<lambda>i. hdr_item32 p m (hdr + 36 + 4 * of_nat i) swap) [0..<5]) (w\<lparr>w_mem := ?m\<rparr>)"
    by (simp only: bootimage_start_def nf if_False Let_def cpu(2,3) option.case jump sync if_True simp_thms)
      (auto split: option.split)
  finally show ?thesis .
qed

text \<open>C14: A plain image is entered at its entry point. For an image without flags for the boot
  cluster, \<open>rumboot_bootimage_execute\<close> calls the code at the entry point of the header with the
  five boot arguments of the header, all read in the byte order of the image, after wiping
  the magic number and storing the source in the device field, and returns what it returns.\<close>

theorem execute_plain_runs_entry:
  fixes w :: "'d world"
  defines "m \<equiv> w_mem w"
  assumes "m (hdr + hdr_flags) = 0" "m (hdr + hdr_version) = 2 \<or> m (hdr + hdr_target_cpu_cluster) = 0"
    and cpu: "pf_cpus p \<noteq> []" "cl_start (hd (pf_cpus p)) = Some (rumboot_bootimage_jump_to_ep_with_args p)"
      "cl_poll (hd (pf_cpus p)) = None"
  defines "swap \<equiv> hdr_swap p m hdr"
  shows "rumboot_bootimage_execute p frame hdr src w =
    pf_run p (hdr_item32 p m (hdr + 16) swap)
      (map (\<lambda>i. hdr_item32 p m (hdr + 36 + 4 * of_nat i) swap) [0..<5])
      (w\<lparr>w_mem := store32 (pf_big_endian p) (hdr + 60) src (store32 (pf_big_endian p) hdr 0 m)\<rparr>)"
  unfolding m_def swap_def
  by (rule execute_plain) (use assms(2-) in \<open>simp_all add: m_def\<close>)


lemma place_code:
  "bootimage_place p frame hdr flags swap datasize m = Some (Inl err, m') \<Longrightarrow> err < 0"
  by (auto simp: bootimage_place_def Let_def split: if_splits option.splits)

text \<open>A data-only image is never executed. For an image with the \<open>DATA\<close> flag and without
  \<open>KILL\<close>, \<open>rumboot_bootimage_execute\<close> leaves the devices untouched and calls no code of the
  image or of its cluster, whatever the result of the placement is; the code it returns is 0
  or a negative error.\<close>

theorem data_image_not_started:
  assumes "has_flag (w_mem w (hdr + hdr_flags)) RUMBOOT_FLAG_DATA"
    "\<not> has_flag (w_mem w (hdr + hdr_flags)) RUMBOOT_FLAG_KILL"
    and r: "rumboot_bootimage_execute p frame hdr src w = Some (ret, w')"
  shows "w_dev w' = w_dev w \<and> ret \<le> 0"
  using assms
  by (auto simp: rumboot_bootimage_execute_def bootimage_start_def Let_def EBADCLUSTERID_def
      rumboot_platform_decrypt_buffer_def rumboot_platform_verify_signature_def
      split: if_splits option.splits sum.splits dest!: place_code)


section \<open>Witnesses for placement and execution\<close>

definition demo_packed :: mem where
  "demo_packed = mem_write (demo_moved 0x2000) 0x1040 AAAA_packed"

lemma demo_packed_dest: "load64 (pf_big_endian demo_platform) demo_packed (0x1000 + hdr_relocation) = 0x2000"
proof -
  have "mem_read demo_packed 0x1018 8 = mem_read (demo_moved 0x2000) 0x1018 8"
    unfolding demo_packed_def by (rule mem_read_write_separate) (simp add: separate_def AAAA_packed_def)
  then have "load64 False demo_packed 0x1018 = load64 False (demo_moved 0x2000) 0x1018"
    by (simp add: load64_def)
  then show ?thesis using demo_moved_dest [of "0x2000"]
    by (simp add: hdr_relocation_def demo_platform_def)
qed

theorem place_decompresses_witness:
  "bootimage_place demo_platform 0x8000 0x1000 0x21 0 4 demo_packed
     = Some (Inr 0x2040, mem_write demo_packed 0x2000 (mem_read demo_packed 0x1000 64 @ [0x41, 0x41, 0x41, 0x41]))"
proof -
  have r: "mem_read demo_packed 0x1040 4 = AAAA_packed"
    unfolding demo_packed_def by (rule mem_read_write_same) (simp_all add: AAAA_packed_def)
  show ?thesis
    using place_decompresses [of "0x21" "0x2000" demo_platform demo_packed "0x1000" 0
        "[0x41, 0x41, 0x41, 0x41]" 4 "0x8000"]
    by (simp add: demo_packed_dest has_flag_def boot_flags separate_def r AAAA_decoded
        rumboot_bootimage_header_item64_def)
qed

text \<open>Four bytes that unpack to seventeen, in an area that they fill.\<close>

definition tight_image :: mem where "tight_image = mem_write (\<lambda>_. 0) 0x1040 [0xA0, 0x80, 0x07, 0x80]"

theorem in_place_full_area_hangs_witness:
  "bootimage_place (demo_platform\<lparr>pf_spl_size := 81\<rparr>) 0x8000 0x1000 1 0 4 tight_image = None"
proof -
  have r: "mem_read tight_image 0x1040 4 = [0xA0, 0x80, 0x07, 0x80]"
    unfolding tight_image_def by (rule mem_read_write_same) simp_all
  have "length (copy_back n d out) = length out + n" for n d out by (induction n d out rule: copy_back.induct) simp_all
  then have "length (lzss (bits_of_bytes [0xA0, 0x80, 0x07, 0x80]) []) = 17"
    by (simp add: to_bits_def upt_8 of_bits_def del: copy_back.simps)
  moreover have "no_clash 0x104D 0x1040 [0xA0, 0x80, 0x07, 0x80]"
    by (auto simp: no_clash_def dest!: dvd_imp_le)
  ultimately show ?thesis
    using in_place_full_area_hangs [of 1 "[0xA0, 0x80, 0x07, 0x80]" tight_image "0x1000" 4
        "demo_platform\<lparr>pf_spl_size := 81\<rparr>" "0x8000" 0]
    by (simp add: has_flag_def boot_flags r)
qed

definition boot_platform :: "unit platform" where
  "boot_platform = demo_platform\<lparr>pf_cpus := [\<lparr>cl_base = 0, cl_kill = None, cl_poll = None,
     cl_start = Some (rumboot_bootimage_jump_to_ep_with_args demo_platform)\<rparr>]\<rparr>"

lemma boot_platform_simps:
  "pf_big_endian boot_platform = False" "pf_endian_swap boot_platform = True"
  "pf_run boot_platform = (\<lambda>ep args w. Some (0, w))"
  "rumboot_bootimage_jump_to_ep_with_args boot_platform = rumboot_bootimage_jump_to_ep_with_args demo_platform"
  by (auto simp: boot_platform_def demo_platform_def rumboot_bootimage_jump_to_ep_with_args_def
      hdr_item32_def rumboot_bootimage_header_item32_def intro!: ext)

theorem execute_plain_runs_entry_witness:
  "rumboot_bootimage_execute boot_platform 0x8000 0x1000 7 \<lparr>w_mem = demo_mem, w_dev = ()\<rparr>
     = Some (0, \<lparr>w_mem = store32 False 0x103C 7 (store32 False 0x1000 0 demo_mem), w_dev = ()\<rparr>)"
proof -
  have "cl_start (hd (pf_cpus boot_platform)) = Some (rumboot_bootimage_jump_to_ep_with_args boot_platform)"
    unfolding boot_platform_simps(4) by (simp add: boot_platform_def)
  then show ?thesis
    using execute_plain_runs_entry [of "\<lparr>w_mem = demo_mem, w_dev = ()\<rparr>" "0x1000" boot_platform "0x8000" 7]
    by (simp add: boot_platform_simps hdr_offsets demo_fields) (simp add: boot_platform_def)
qed

definition demo_data_only :: mem where "demo_data_only = mem_write demo_mem 0x1005 [2]"

lemma demo_data_only_runs:
  "rumboot_bootimage_execute boot_platform 0x8000 0x1000 7 \<lparr>w_mem = demo_data_only, w_dev = ()\<rparr>
     = Some (0, \<lparr>w_mem = store32 False 0x103C 7 (store32 False 0x1000 0 demo_data_only), w_dev = ()\<rparr>)"
proof -
  have f: "demo_data_only 0x1005 = 2" by (simp add: demo_data_only_def mem_write_def)
  have "store32 False 0x103C 7 (store32 False 0x1000 0 demo_data_only) 0x1020 = 0"
    using demo_fields by (simp add: store32_def mem_write_def demo_data_only_def)
  moreover have "get_cpu boot_platform 0 = Some (hd (pf_cpus boot_platform))"
    by (simp add: boot_platform_def get_cpu_def)
  ultimately show ?thesis
    by (simp add: rumboot_bootimage_execute_def bootimage_start_def Let_def hdr_offsets f has_flag_def
        boot_flags boot_platform_simps rumboot_platform_decrypt_buffer_def
        rumboot_platform_verify_signature_def)
qed

theorem data_image_not_started_witness:
  "w_dev \<lparr>w_mem = store32 False 0x103C 7 (store32 False 0x1000 0 demo_data_only), w_dev = ()\<rparr>
     = w_dev \<lparr>w_mem = demo_data_only, w_dev = ()\<rparr> \<and> (0 :: int) \<le> 0"
proof (rule data_image_not_started [OF _ _ demo_data_only_runs])
  have "demo_data_only 0x1005 = 2" by (simp add: demo_data_only_def mem_write_def)
  then show "has_flag (w_mem \<lparr>w_mem = demo_data_only, w_dev = ()\<rparr> (0x1000 + hdr_flags)) RUMBOOT_FLAG_DATA"
    "\<not> has_flag (w_mem \<lparr>w_mem = demo_data_only, w_dev = ()\<rparr> (0x1000 + hdr_flags)) RUMBOOT_FLAG_KILL"
    by (simp_all add: hdr_flags_def has_flag_def boot_flags)
qed

end
