(* ===== verification/Boot_Source.thy ===== *)
theory Boot_Source
  imports Boot_Image
begin

text \<open>
  Boot sources, \<open>src/lib/bootsource.c\<close>: initialisation, aligned reads, loading an image,
  trying one source, and the chain over all sources of the platform. The plugin of a source
  is a record of functions on the world that receive the source's configuration; the table of
  sources is the list of its entries before the sentinel, and a pointer into it an index.
\<close>

section \<open>Data\<close>

record 'd bootsource_cfg =
  bs_addr :: u32
  bs_base :: u32
  bs_offset :: u64
  bs_base_freq_khz :: u32
  bs_iface_freq_khz :: u32
  bs_slave_addr :: u32
  bs_chipselect :: "(u32 \<Rightarrow> int \<Rightarrow> 'd world \<Rightarrow> 'd world) option"

record 'd rumboot_bootmodule =
  bm_align :: u32
  bm_init :: "('d bootsource_cfg \<Rightarrow> u32 \<Rightarrow> 'd world \<Rightarrow> (bool \<times> 'd world) option) option"
  bm_deinit :: "('d bootsource_cfg \<Rightarrow> u32 \<Rightarrow> 'd world \<Rightarrow> 'd world option) option"
  bm_read :: "'d bootsource_cfg \<Rightarrow> u32 \<Rightarrow> u32 \<Rightarrow> u32 \<Rightarrow> u32 \<Rightarrow> 'd world \<Rightarrow> (u32 \<times> 'd world) option"

record 'd rumboot_bootsource =
  bs_cfg :: "'d bootsource_cfg"
  bs_plugin :: "'d rumboot_bootmodule"
  bs_enable :: "(u32 \<Rightarrow> 'd world \<Rightarrow> bool \<times> 'd world) option"
  bs_disable :: "(u32 \<Rightarrow> 'd world \<Rightarrow> 'd world) option"

section \<open>Operations\<close>

definition round_up_to_align :: "u32 \<Rightarrow> u32 \<Rightarrow> u32" where
  "round_up_to_align value align =
     (if align = 0 then value
      else let misalign = value mod align in
        if misalign \<noteq> 0 then value + (align - misalign) else value)"

definition describe_next_step :: "int \<Rightarrow> string" where
  "describe_next_step code =
     (if code > 0 then ''boot from another device''
      else if code = 0 then ''boot from next device''
      else ''switch to host mode'')"

definition bootsource_disable :: "'d rumboot_bootsource \<Rightarrow> u32 \<Rightarrow> 'd world \<Rightarrow> 'd world" where
  "bootsource_disable src pdata w =
     (case bs_disable src of Some f \<Rightarrow> f pdata w | None \<Rightarrow> w)"

definition bootsource_deinit :: "'d rumboot_bootsource \<Rightarrow> u32 \<Rightarrow> 'd world \<Rightarrow> 'd world option" where
  "bootsource_deinit src pdata w =
     map_option (bootsource_disable src pdata)
       (case bm_deinit (bs_plugin src) of Some f \<Rightarrow> f (bs_cfg src) pdata w | None \<Rightarrow> Some w)"

definition bootsource_init :: "'d rumboot_bootsource \<Rightarrow> u32 \<Rightarrow> 'd world \<Rightarrow> (bool \<times> 'd world) option" where
  "bootsource_init src pdata w =
     (let (ret, w) = (case bs_enable src of Some f \<Rightarrow> f pdata w | None \<Rightarrow> (True, w)) in
      if \<not> ret then Some (ret, bootsource_disable src pdata w)
      else
        (case (case bm_init (bs_plugin src) of Some f \<Rightarrow> f (bs_cfg src) pdata w
               | None \<Rightarrow> Some (True, w)) of
           None \<Rightarrow> None
         | Some (ret, w) \<Rightarrow>
             if \<not> ret then map_option (\<lambda>w. (ret, w)) (bootsource_deinit src pdata w) else Some (True, w)))"

definition bootsource_read ::
  "'d rumboot_bootsource \<Rightarrow> u32 \<Rightarrow> u32 \<Rightarrow> u32 \<Rightarrow> u32 \<Rightarrow> 'd world \<Rightarrow> (u32 \<times> 'd world) option" where
  "bootsource_read src pdata dest offset len w =
     (let align = bm_align (bs_plugin src) in
      if align \<noteq> 0 \<and> offset mod align \<noteq> 0 then Some (0, w)
      else let len = (if align \<noteq> 0 then len - len mod align else len)
           in bm_read (bs_plugin src) (bs_cfg src) pdata dest offset len w)"

definition bootsource_load_img ::
  "'d platform \<Rightarrow> 'd rumboot_bootsource \<Rightarrow> u32 \<Rightarrow> u32 \<Rightarrow> u32 \<Rightarrow> u32 \<Rightarrow> 'd world
     \<Rightarrow> (int \<times> u32 \<times> 'd world) option" where
  "bootsource_load_img p src pdata hdr maxsize offset w =
     (let align = bm_align (bs_plugin src);
          toread = (if align = 0 then of_nat sizeof_hdr else align);
          toread = (if of_nat sizeof_hdr > toread then round_up_to_align (of_nat sizeof_hdr) align
                    else toread)
      in case bootsource_read src pdata hdr offset toread w of
           None \<Rightarrow> None
         | Some (count, w) \<Rightarrow>
             if count < toread then Some (- EIO, offset, w)
             else
               let offset = offset + count; ret = rumboot_bootimage_check_header p (w_mem w) hdr in
               if ret < 0 then Some (ret, offset, w)
               else
                 let len = round_up_to_align (of_int ret) align in
                 if len + of_nat sizeof_hdr > maxsize then Some (- ETOOBIG, offset, w)
                 else
                   (case bootsource_read src pdata (hdr + hdr_data + (count - of_nat sizeof_hdr)) offset len w of
                      None \<Rightarrow> None
                    | Some (_, w) \<Rightarrow>
                        Some (rumboot_bootimage_check_data p (w_mem w) hdr, offset + len, w)))"

text \<open>\<open>frame\<close> is the address of the local header copy of \<open>rumboot_bootimage_execute\<close>.\<close>

definition bootsource_try_source_once ::
  "'d platform \<Rightarrow> u32 \<Rightarrow> 'd rumboot_bootsource \<Rightarrow> u32 \<Rightarrow> u32 \<Rightarrow> u32 \<Rightarrow> u32 \<Rightarrow> 'd world
     \<Rightarrow> (int \<times> u32 \<times> 'd world) option" where
  "bootsource_try_source_once p frame src pdata dst maxsize offset w =
     (case bootsource_init src pdata w of
        None \<Rightarrow> None
      | Some (ok, w) \<Rightarrow>
          if \<not> ok then Some (- EBADSOURCE, offset, w)
          else
            let offset = round_up_to_align offset (bm_align (bs_plugin src)) in
            case bootsource_load_img p src pdata dst maxsize offset w of
              None \<Rightarrow> None
            | Some (ret, offset, w) \<Rightarrow>
                (case bootsource_deinit src pdata w of
                   None \<Rightarrow> None
                 | Some w \<Rightarrow>
                     if ret \<noteq> 0 then
                       Some (ret, offset, w\<lparr>w_mem := store32 (pf_big_endian p) dst (of_int (- ret)) (w_mem w)\<rparr>)
                     else
                       map_option (\<lambda>(ret, w). (ret, offset, w))
                         (rumboot_bootimage_execute p frame dst (bs_addr (bs_cfg src)) w)))"

partial_function (option) bootsource_try_single ::
  "'d platform \<Rightarrow> u32 \<Rightarrow> 'd rumboot_bootsource \<Rightarrow> u32 \<Rightarrow> u32 \<Rightarrow> u32 \<Rightarrow> u32 \<Rightarrow> 'd world
     \<Rightarrow> (int \<times> u32 \<times> 'd world) option" where
  "bootsource_try_single p frame src pdata dst maxsize offset w =
     (case bootsource_try_source_once p frame src pdata dst maxsize offset w of
        None \<Rightarrow> None
      | Some (ret, offset, w) \<Rightarrow>
          if ret = 0 then bootsource_try_single p frame src pdata dst maxsize offset w
          else Some (ret, offset, w))"

text \<open>The walk over the table; \<open>src->name\<close> is non-null for an index below its length.\<close>

function find_source_loop :: "nat \<Rightarrow> nat \<Rightarrow> int \<Rightarrow> int \<Rightarrow> nat" where
  "find_source_loop n src i bootid =
     (if i = bootid then src
      else if src + 1 < n then find_source_loop n (src + 1) (i + 1) bootid
      else src + 1)"
  by pat_completeness auto
termination by (relation "measure (\<lambda>(n, src, _). n - src)") auto

definition find_source_by_id :: "'d rumboot_bootsource list \<Rightarrow> int \<Rightarrow> nat option" where
  "find_source_by_id srcs bootid =
     (let src = find_source_loop (length srcs) 0 0 bootid in
      if src < length srcs then Some src else None)"

partial_function (option) bootsource_chain_from ::
  "'d platform \<Rightarrow> u32 \<Rightarrow> 'd rumboot_bootsource list \<Rightarrow> u32 \<Rightarrow> u32 \<Rightarrow> u32 \<Rightarrow> nat option \<Rightarrow> 'd world
     \<Rightarrow> 'd world option" where
  "bootsource_chain_from p frame srcs pdata hdr maxsize src w =
     (case src of
        None \<Rightarrow> Some w
      | Some k \<Rightarrow>
          if k < length srcs then
            (case bootsource_try_single p frame (srcs ! k) pdata hdr maxsize
                    (ucast (bs_offset (bs_cfg (srcs ! k)))) w of
               None \<Rightarrow> None
             | Some (ret, offset, w) \<Rightarrow>
                 if ret > 0 then
                   bootsource_chain_from p frame srcs pdata hdr maxsize (find_source_by_id srcs (ret - 1)) w
                 else if ret = - ETOHOST then Some w
                 else bootsource_chain_from p frame srcs pdata hdr maxsize (Some (k + 1)) w)
          else Some w)"

definition bootsource_try_chain ::
  "'d platform \<Rightarrow> u32 \<Rightarrow> 'd rumboot_bootsource list \<Rightarrow> u32 \<Rightarrow> u32 \<Rightarrow> u32 \<Rightarrow> 'd world \<Rightarrow> 'd world option" where
  "bootsource_try_chain p frame srcs pdata hdr maxsize w =
     bootsource_chain_from p frame srcs pdata hdr maxsize (Some 0) w"

definition bootsource_try_by_id ::
  "'d platform \<Rightarrow> u32 \<Rightarrow> 'd rumboot_bootsource list \<Rightarrow> int \<Rightarrow> u32 \<Rightarrow> u32 \<Rightarrow> u32 \<Rightarrow> 'd world
     \<Rightarrow> (int \<times> 'd world) option" where
  "bootsource_try_by_id p frame srcs bootid pdata hdr maxsize w =
     (case find_source_by_id srcs bootid of
        Some k \<Rightarrow>
          map_option (\<lambda>(ret, offset, w). (ret, w))
            (bootsource_try_source_once p frame (srcs ! k) pdata hdr maxsize
               (ucast (bs_offset (bs_cfg (srcs ! k)))) w)
      | None \<Rightarrow> Some (- EBADSOURCE, w))"

declare find_source_loop.simps [simp del]


section \<open>Alignment\<close>

definition aligned :: "u32 \<Rightarrow> u32 \<Rightarrow> bool" where
  "aligned align x \<longleftrightarrow> align = 0 \<or> x mod align = 0"

lemma unat_mod_u32: "unat (x mod y) = unat x mod unat (y :: u32)"
  by (rule unat_mod_distrib)

lemma mod_le_u32: "x mod y \<le> (x :: u32)"
  by (simp add: word_le_nat_alt unat_mod_u32)

lemma aligned_unat: "aligned align x \<longleftrightarrow> align = 0 \<or> unat x mod unat align = 0"
  by (metis aligned_def unat_mod_u32 unsigned_0 unsigned_eq_0_iff)

lemma aligned_down: "align \<noteq> 0 \<Longrightarrow> aligned align (x - x mod align)"
proof -
  assume a: "align \<noteq> 0"
  have "x mod align \<le> x" by (simp add: word_le_nat_alt unat_mod_u32)
  then have "unat (x - x mod align) = unat x - unat x mod unat align"
    by (simp add: unat_sub unat_mod_u32)
  then show ?thesis by (simp add: aligned_unat minus_mod_eq_mult_div)
qed

lemma in_range_add:
  assumes "in_range x (a + t) n" "unat t + n \<le> 2 ^ 32"
  shows "in_range x a (unat t + n)" "\<not> in_range x a (unat t)"
proof -
  define y where "y = x - (a + t)"
  have lt: "unat y < n" using assms(1) by (simp add: in_range_def y_def)
  have "x - a = y + t" by (simp add: y_def)
  then have "unat (x - a) = unat y + unat t"
    using lt assms(2) by (simp add: unat_word_ariths)
  then show "in_range x a (unat t + n)" "\<not> in_range x a (unat t)" using lt by (auto simp: in_range_def)
qed

definition header_read_size :: "u32 \<Rightarrow> u32" where
  "header_read_size align =
     (let toread = (if align = 0 then of_nat sizeof_hdr else align) in
      if of_nat sizeof_hdr > toread then round_up_to_align (of_nat sizeof_hdr) align else toread)"

lemma round_up_spec:
  assumes "align \<noteq> 0" "unat value + unat align \<le> 2 ^ 32"
  defines "r \<equiv> round_up_to_align value align"
  shows "aligned align r" "unat value \<le> unat r" "unat r < unat value + unat align"
proof -
  let ?a = "unat align" and ?v = "unat value"
  have a: "0 < ?a" using assms(1) by (simp add: unat_gt_0)
  have "aligned align r \<and> ?v \<le> unat r \<and> unat r < ?v + ?a"
  proof (cases "value mod align = 0")
    case True
    then show ?thesis using assms(1) a by (simp add: r_def round_up_to_align_def aligned_def)
  next
    case False
    have m: "0 < ?v mod ?a" using False by (metis gr0I unat_mod_u32 unsigned_eq_0_iff)
    have ml: "?v mod ?a < ?a" using a by simp
    have s: "unat (align - value mod align) = ?a - ?v mod ?a"
      using ml by (simp add: unat_sub word_le_nat_alt unat_mod_u32)
    have lt: "?v + (?a - ?v mod ?a) < 2 ^ 32" using m ml assms(2) by linarith
    then have up: "unat (value + (align - value mod align)) = ?v + (?a - ?v mod ?a)"
      by (simp add: unat_word_ariths s)
    have "?v + (?a - ?v mod ?a) = ?a * (?v div ?a) + ?a"
      using ml mult_div_mod_eq [of ?a ?v] by linarith
    then have "(?v + (?a - ?v mod ?a)) mod ?a = 0" by simp
    moreover have "r = value + (align - value mod align)"
      using False assms(1) by (simp add: r_def round_up_to_align_def Let_def)
    ultimately show ?thesis using up m ml by (simp add: aligned_unat)
  qed
  then show "aligned align r" "unat value \<le> unat r" "unat r < unat value + unat align" by auto
qed

section \<open>The table of sources\<close>

lemma find_source_loop_spec:
  "src < n \<Longrightarrow> find_source_loop n src i bootid =
     (if i \<le> bootid \<and> bootid < i + int (n - src) then src + nat (bootid - i) else n)"
proof (induction n src i bootid rule: find_source_loop.induct)
  case (1 n src i bootid)
  show ?case
  proof (cases "i = bootid")
    case True
    then show ?thesis using "1.prems" by (simp add: find_source_loop.simps)
  next
    case False
    show ?thesis
    proof (cases "src + 1 < n")
      case True
      have "find_source_loop n src i bootid = find_source_loop n (src + 1) (i + 1) bootid"
        using False True by (simp add: find_source_loop.simps)
      then show ?thesis using "1.IH" [OF False True True] False "1.prems" by auto
    next
      case last: False
      then have "n = src + 1" using "1.prems" by simp
      then show ?thesis using False by (simp add: find_source_loop.simps)
    qed
  qed
qed

lemma find_source_by_id_spec:
  "srcs \<noteq> [] \<Longrightarrow> find_source_by_id srcs bootid =
     (if 0 \<le> bootid \<and> bootid < int (length srcs) then Some (nat bootid) else None)"
  by (auto simp: find_source_by_id_def find_source_loop_spec Let_def nat_less_iff split: if_splits)

text \<open>Lookup of a boot source by number. On a platform with at least one source,
  \<open>find_source_by_id\<close> yields the source with that index when there is one and NULL for every
  other number, negative ones included: the walk over the table never runs past its sentinel.\<close>

theorem find_source_in_table:
  assumes "srcs \<noteq> []"
  shows "find_source_by_id srcs bootid =
     (if 0 \<le> bootid \<and> bootid < int (length srcs) then Some (nat bootid) else None)"
  by (rule find_source_by_id_spec [OF assms])

theorem find_source_in_table_witness:
  "\<forall>s0 s1 :: unit rumboot_bootsource. find_source_by_id [s0, s1] 1 = Some 1
     \<and> find_source_by_id [s0, s1] 2 = None \<and> find_source_by_id [s0, s1] (- 1) = None"
  by (simp add: find_source_in_table)

section \<open>The chain\<close>

declare bootsource_chain_from.simps [simp del] bootsource_try_single.simps [simp del]

abbreviation single_at where
  "single_at p frame srcs pdata hdr maxsize k w \<equiv>
     bootsource_try_single p frame (srcs ! k) pdata hdr maxsize (ucast (bs_offset (bs_cfg (srcs ! k)))) w"

lemma chain_None [simp]: "bootsource_chain_from p frame srcs pdata hdr maxsize None w = Some w"
  by (simp add: bootsource_chain_from.simps)

lemma chain_end: "length srcs \<le> k \<Longrightarrow> bootsource_chain_from p frame srcs pdata hdr maxsize (Some k) w = Some w"
  by (simp add: bootsource_chain_from.simps)

lemma chain_next:
  assumes "k < length srcs" "single_at p frame srcs pdata hdr maxsize k w = Some (ret, off, w')"
    "ret \<le> 0" "ret \<noteq> - ETOHOST"
  shows "bootsource_chain_from p frame srcs pdata hdr maxsize (Some k) w
    = bootsource_chain_from p frame srcs pdata hdr maxsize (Some (k + 1)) w'"
  by (subst bootsource_chain_from.simps) (use assms in simp)

lemma chain_host:
  assumes "k < length srcs" "single_at p frame srcs pdata hdr maxsize k w = Some (- ETOHOST, off, w')"
  shows "bootsource_chain_from p frame srcs pdata hdr maxsize (Some k) w = Some w'"
  by (subst bootsource_chain_from.simps) (use assms in \<open>simp add: ETOHOST_def\<close>)

lemma chain_jump:
  assumes "k < length srcs" "single_at p frame srcs pdata hdr maxsize k w = Some (ret, off, w')" "0 < ret"
  shows "bootsource_chain_from p frame srcs pdata hdr maxsize (Some k) w
    = bootsource_chain_from p frame srcs pdata hdr maxsize (find_source_by_id srcs (ret - 1)) w'"
  by (subst bootsource_chain_from.simps) (use assms in simp)

text \<open>The worlds after trying the sources one after the other.\<close>

fun after_sources ::
  "'d platform \<Rightarrow> u32 \<Rightarrow> 'd rumboot_bootsource list \<Rightarrow> u32 \<Rightarrow> u32 \<Rightarrow> u32 \<Rightarrow> 'd world \<Rightarrow> 'd world option" where
  "after_sources p frame [] pdata hdr maxsize w = Some w"
| "after_sources p frame (s # ss) pdata hdr maxsize w =
     (case bootsource_try_single p frame s pdata hdr maxsize (ucast (bs_offset (bs_cfg s))) w of
        Some (ret, off, w') \<Rightarrow> after_sources p frame ss pdata hdr maxsize w'
      | None \<Rightarrow> None)"

lemma chain_falls_through_from:
  assumes "\<And>s w ret off w'. s \<in> set (drop k srcs) \<Longrightarrow>
     bootsource_try_single p frame s pdata hdr maxsize (ucast (bs_offset (bs_cfg s))) w = Some (ret, off, w')
     \<Longrightarrow> ret < 0 \<and> ret \<noteq> - ETOHOST"
    and k: "k \<le> length srcs"
  shows "bootsource_chain_from p frame srcs pdata hdr maxsize (Some k) w
    = after_sources p frame (drop k srcs) pdata hdr maxsize w"
  using assms
proof (induction "length srcs - k" arbitrary: k w)
  case 0
  then show ?case by (simp add: chain_end)
next
  case (Suc n)
  then have k: "k < length srcs" and d: "drop k srcs = srcs ! k # drop (k + 1) srcs"
    by (auto simp: Cons_nth_drop_Suc)
  show ?case
  proof (cases "single_at p frame srcs pdata hdr maxsize k w")
    case None
    then show ?thesis unfolding d by (subst bootsource_chain_from.simps) (simp add: k)
  next
    case (Some r)
    obtain ret off w' where r: "r = (ret, off, w')" by (cases r)
    have "ret < 0 \<and> ret \<noteq> - ETOHOST"
      using Suc.prems(1) [of "srcs ! k" w ret off w'] d Some r by simp
    then have "bootsource_chain_from p frame srcs pdata hdr maxsize (Some k) w
        = bootsource_chain_from p frame srcs pdata hdr maxsize (Some (k + 1)) w'"
      using chain_next [OF k, of p frame pdata hdr maxsize w ret off w'] Some r by simp
    also have "\<dots> = after_sources p frame (drop (k + 1) srcs) pdata hdr maxsize w'"
    proof (rule Suc.hyps(1))
      show "n = length srcs - (k + 1)" using Suc.hyps(2) by simp
      show "ret < 0 \<and> ret \<noteq> - ETOHOST"
        if "s \<in> set (drop (k + 1) srcs)" "bootsource_try_single p frame s pdata hdr maxsize
          (ucast (bs_offset (bs_cfg s))) w = Some (ret, off, w')" for s w ret off w'
        using Suc.prems(1) [of s w ret off w'] that d by simp
      show "k + 1 \<le> length srcs" using k by simp
    qed
    finally show ?thesis unfolding d using Some r by simp
  qed
qed

lemma chain_all_fail:
  assumes "\<And>s w ret off w'. s \<in> set srcs \<Longrightarrow>
     bootsource_try_single p frame s pdata hdr maxsize (ucast (bs_offset (bs_cfg s))) w = Some (ret, off, w')
     \<Longrightarrow> ret < 0 \<and> ret \<noteq> - ETOHOST"
  shows "bootsource_try_chain p frame srcs pdata hdr maxsize w = after_sources p frame srcs pdata hdr maxsize w"
  unfolding bootsource_try_chain_def
  using chain_falls_through_from [of 0 srcs p frame pdata hdr maxsize w] assms by simp

text \<open>
  A source delivers no image: it cannot be initialised, or loading reports an error other than
  a request for host mode. Nothing of it is executed then, and what an executed image returns,
  where documentation and code disagree, plays no part.
\<close>

definition delivers_no_image ::
  "'d platform \<Rightarrow> u32 \<Rightarrow> u32 \<Rightarrow> u32 \<Rightarrow> 'd rumboot_bootsource \<Rightarrow> 'd world \<Rightarrow> bool" where
  "delivers_no_image p pdata hdr maxsize src w \<longleftrightarrow>
     (case bootsource_init src pdata w of
        Some (True, w1) \<Rightarrow>
          (case bootsource_load_img p src pdata hdr maxsize
                  (round_up_to_align (ucast (bs_offset (bs_cfg src))) (bm_align (bs_plugin src))) w1 of
             Some (ret, offset, w2) \<Rightarrow> ret < 0 \<and> ret \<noteq> - ETOHOST
           | None \<Rightarrow> True)
      | _ \<Rightarrow> True)"

lemma no_image_fails:
  assumes "delivers_no_image p pdata hdr maxsize s w"
    and "bootsource_try_single p frame s pdata hdr maxsize (ucast (bs_offset (bs_cfg s))) w = Some (ret, off, w')"
  shows "ret < 0 \<and> ret \<noteq> - ETOHOST"
proof -
  have "bootsource_try_source_once p frame s pdata hdr maxsize (ucast (bs_offset (bs_cfg s))) w = Some (r, off', w2)
      \<Longrightarrow> r < 0 \<and> r \<noteq> - ETOHOST" for r off' w2
    using assms(1)
    by (auto simp: bootsource_try_source_once_def delivers_no_image_def Let_def EBADSOURCE_def ETOHOST_def
        split: option.splits if_splits bool.splits)
  then show ?thesis
    using assms(2) by (subst (asm) bootsource_try_single.simps) (auto split: option.splits if_splits)
qed


section \<open>The contract of a plugin, and what loading guarantees\<close>

lemma check_header_local:
  assumes "mem_read m hdr 64 = mem_read m' hdr 64"
    and "pf_check_entry_points p m hdr = pf_check_entry_points p m' hdr"
  shows "rumboot_bootimage_check_header p m hdr = rumboot_bootimage_check_header p m' hdr"
proof -
  have rd: "mem_read m (hdr + of_nat i) n = mem_read m' (hdr + of_nat i) n" if "i + n \<le> 64" for i n
  proof -
    have "mem_read m (hdr + of_nat i) n = take n (drop i (mem_read m hdr 64))"
      using that by (simp add: mem_read_drop mem_read_take)
    also have "\<dots> = mem_read m' (hdr + of_nat i) n"
      unfolding assms(1) using that by (simp add: mem_read_drop mem_read_take)
    finally show ?thesis .
  qed
  have b: "m (hdr + of_nat i) = m' (hdr + of_nat i)" if "i < 64" for i
    using rd [of i 1] that by (simp add: mem_read_def)
  have it: "hdr_item32 p m (hdr + of_nat i) s = hdr_item32 p m' (hdr + of_nat i) s" if "i + 4 \<le> 64" for i s
    by (rule hdr_item32_cong) (rule rd [OF that])
  have "hdr_swap p m hdr = hdr_swap p m' hdr"
    using rd [of 0 4] by (simp add: hdr_swap_def load32_def)
  then show ?thesis
    using b [of 4] b [of 5] b [of 6] b [of 32] it [of 12] it [of 56] rd [of 0 56] assms(2)
    by (simp add: rumboot_bootimage_check_header_def Let_def hdr_offsets)
qed

text \<open>The source \<open>src\<close> reads through \<open>read\<close> with alignment \<open>align\<close>.\<close>

definition reads_with ::
  "u32 \<Rightarrow> (u32 \<Rightarrow> u32 \<Rightarrow> u32 \<Rightarrow> 'd world \<Rightarrow> (u32 \<times> 'd world) option) \<Rightarrow> 'd rumboot_bootsource \<Rightarrow> u32 \<Rightarrow> bool" where
  "reads_with align read src pdata \<longleftrightarrow> bm_align (bs_plugin src) = align \<and>
     (\<forall>dest offset len w. bm_read (bs_plugin src) (bs_cfg src) pdata dest offset len w = read dest offset len w)"

text \<open>
  What the loader relies on: for aligned requests a plugin transfers at most as many bytes as
  were asked for, changes no memory outside the destination, and is ready for the next request
  when it has transferred all of them. \<open>ready\<close> is the state in which it may be used: for a
  controller with a DMA engine of its own, that no transfer is under way.
\<close>

locale boot_reader =
  fixes align :: u32
    and read :: "u32 \<Rightarrow> u32 \<Rightarrow> u32 \<Rightarrow> 'd world \<Rightarrow> (u32 \<times> 'd world) option"
    and ready :: "'d world \<Rightarrow> bool"
  assumes align_small: "unat align \<le> 2 ^ 16"
    and count_le: "ready w \<Longrightarrow> aligned align offset \<Longrightarrow> aligned align len \<Longrightarrow>
      read dest offset len w = Some (n, w') \<Longrightarrow> n \<le> len"
    and still_ready: "ready w \<Longrightarrow> aligned align offset \<Longrightarrow> aligned align len \<Longrightarrow>
      read dest offset len w = Some (n, w') \<Longrightarrow> n = len \<Longrightarrow> ready w'"
    and frame: "ready w \<Longrightarrow> aligned align offset \<Longrightarrow> aligned align len \<Longrightarrow>
      read dest offset len w = Some (n, w') \<Longrightarrow> \<not> in_range x dest (unat len) \<Longrightarrow> w_mem w' x = w_mem w x"
begin

lemma bootsource_read_contract:
  assumes "reads_with align read src pdata" "ready w"
    and rd: "bootsource_read src pdata dest offset len w = Some (n, w')"
  shows "n \<le> len" "\<not> in_range x dest (unat len) \<Longrightarrow> w_mem w' x = w_mem w x" "n = len \<Longrightarrow> ready w'"
proof -
  define len' where "len' = (if align \<noteq> 0 then len - len mod align else len)"
  have le: "len' \<le> len"
    using unat_sub [OF mod_le_u32, of len align] by (auto simp: len'_def word_le_nat_alt)
  have al: "aligned align len'" using aligned_down [of align len] by (auto simp: len'_def aligned_def)
  have r: "bootsource_read src pdata dest offset len w
      = (if aligned align offset then read dest offset len' w else Some (0, w))"
    using assms(1) by (auto simp: reads_with_def bootsource_read_def len'_def aligned_def Let_def)
  show "n \<le> len"
    using count_le [of w offset len' dest n w'] assms(2) al le rd by (auto simp: r split: if_splits)
  show "w_mem w' x = w_mem w x" if "\<not> in_range x dest (unat len)"
    using frame [of w offset len' dest n w' x] assms(2) al le that rd
    by (auto simp: r in_range_def word_le_nat_alt split: if_splits)
  show "ready w'" if "n = len"
    using count_le [of w offset len' dest n w'] still_ready [of w offset len' dest n w'] assms(2) al le rd that
    by (auto simp: r split: if_splits)
qed

lemma header_read_size_spec:
  "64 \<le> unat (header_read_size align)" "unat (header_read_size align) \<le> 2 ^ 16 + 64"
proof -
  have "64 \<le> unat (header_read_size align) \<and> unat (header_read_size align) \<le> 2 ^ 16 + 64"
  proof (cases "align = 0 \<or> 64 \<le> align")
    case True
    then show ?thesis using align_small
      by (auto simp: header_read_size_def sizeof_hdr_def Let_def word_le_nat_alt word_less_nat_alt)
  next
    case False
    then have "header_read_size align = round_up_to_align 64 align"
      by (auto simp: header_read_size_def sizeof_hdr_def Let_def not_le)
    then show ?thesis
      using round_up_spec(2,3) [of align 64] False align_small by simp
  qed
  then show "64 \<le> unat (header_read_size align)" "unat (header_read_size align) \<le> 2 ^ 16 + 64" by auto
qed

lemma image_read_size:
  assumes "0 \<le> (ret :: int)" "ret < 2 ^ 31"
  shows "unat (round_up_to_align (of_int ret) align) < 2 ^ 31 + 2 ^ 16"
proof -
  have u: "unat (of_int ret :: u32) = nat ret"
    using assms by (simp add: unat_eq_nat_uint unsigned_of_int take_bit_int_eq_self)
  have nr: "nat ret < 2 ^ 31" using assms by simp
  show ?thesis
  proof (cases "align = 0")
    case True
    then show ?thesis using u nr by (simp add: round_up_to_align_def)
  next
    case False
    then show ?thesis using round_up_spec(3) [of align "of_int ret"] u align_small nr by simp
  qed
qed

text \<open>Everything the loader has done when it returns.\<close>

lemma load_img_effect:
  assumes src: "reads_with align read src pdata" and rdy: "ready w"
    and load: "bootsource_load_img p src pdata hdr maxsize offset w = Some (ret, offset', w')"
  defines "toread \<equiv> header_read_size align"
  obtains w1 :: "'d world" and len where
    "\<And>x. \<not> in_range x hdr (unat toread) \<Longrightarrow> w_mem w1 x = w_mem w x"
    "\<And>x. \<not> in_range x hdr (unat toread + (unat maxsize - 64)) \<Longrightarrow> w_mem w' x = w_mem w x"
    "\<And>x. in_range x hdr 64 \<Longrightarrow> w_mem w' x = w_mem w1 x"
    "ret < 0 \<or> 0 \<le> rumboot_bootimage_check_header p (w_mem w1) hdr \<and>
       ret = rumboot_bootimage_check_data p (w_mem w') hdr \<and>
       len = round_up_to_align (of_int (rumboot_bootimage_check_header p (w_mem w1) hdr)) align \<and>
       offset' = offset + toread + len"
proof -
  have al: "bm_align (bs_plugin src) = align" using src by (simp add: reads_with_def)
  have s64: "(of_nat sizeof_hdr :: u32) = 64" by (simp add: sizeof_hdr_def)
  have load0: "Some (ret, offset', w') = (case bootsource_read src pdata hdr offset toread w of
      None \<Rightarrow> None
    | Some (count, w1) \<Rightarrow> if count < toread then Some (- EIO, offset, w1)
      else if rumboot_bootimage_check_header p (w_mem w1) hdr < 0
      then Some (rumboot_bootimage_check_header p (w_mem w1) hdr, offset + count, w1)
      else if round_up_to_align (of_int (rumboot_bootimage_check_header p (w_mem w1) hdr)) align + 64 > maxsize
      then Some (- ETOOBIG, offset + count, w1)
      else (case bootsource_read src pdata (hdr + hdr_data + (count - 64)) (offset + count)
               (round_up_to_align (of_int (rumboot_bootimage_check_header p (w_mem w1) hdr)) align) w1 of
          None \<Rightarrow> None
        | Some (_, w2) \<Rightarrow> Some (rumboot_bootimage_check_data p (w_mem w2) hdr, offset + count +
            round_up_to_align (of_int (rumboot_bootimage_check_header p (w_mem w1) hdr)) align, w2)))"
    unfolding load [symmetric] bootsource_load_img_def al Let_def
      header_read_size_def [of align, unfolded Let_def, symmetric] toread_def [symmetric]
    by (simp only: s64)
  then obtain count w1 where r1: "bootsource_read src pdata hdr offset toread w = Some (count, w1)"
    by (auto split: option.splits)
  have f1: "count \<le> toread" "\<And>x. \<not> in_range x hdr (unat toread) \<Longrightarrow> w_mem w1 x = w_mem w x"
    by (rule bootsource_read_contract [OF src rdy r1])+
  let ?chk = "rumboot_bootimage_check_header p (w_mem w1) hdr"
  note load' = load0 [unfolded r1 option.case prod.case]
  show ?thesis
  proof (cases "count < toread \<or> ?chk < 0 \<or> round_up_to_align (of_int ?chk) align + 64 > maxsize")
    case True
    then have "w' = w1" "ret < 0" using load' by (auto simp: boot_errors Let_def split: if_splits)
    then show ?thesis using f1 by (intro that [of w1 0]) (auto simp: in_range_def)
  next
    case False
    define len where "len = round_up_to_align (of_int ?chk) align"
    have ct: "count = toread" and c0: "0 \<le> ?chk" and fit: "len + 64 \<le> maxsize"
      using False f1(1) by (auto simp: len_def)
    have dest: "hdr + hdr_data + (toread - 64) = hdr + toread" by (simp add: hdr_data_def)
    obtain n2 w2 where r2: "bootsource_read src pdata (hdr + toread) (offset + toread) len w1 = Some (n2, w2)"
      and res: "w' = w2" "ret = rumboot_bootimage_check_data p (w_mem w2) hdr" "offset' = offset + toread + len"
      using load' False unfolding ct dest len_def [symmetric] by (auto split: option.splits)
    have "?chk < 2 ^ 31"
      using c0 check_header_accepts(3) [of p "w_mem w1" hdr] sint_lt [where 'a = 32]
      by (simp add: del: sint_lt)
    then have l31: "unat len < 2 ^ 31 + 2 ^ 16" unfolding len_def by (rule image_read_size [OF c0])
    then have "unat (len + 64) = unat len + 64" by (simp add: unat_word_ariths)
    then have lm: "unat len \<le> unat maxsize - 64" using fit by (simp add: word_le_nat_alt)
    have nw: "unat toread + unat len \<le> 2 ^ 32" "64 \<le> unat toread"
      using l31 header_read_size_spec by (simp_all add: toread_def)
    have rdy1: "ready w1" by (rule bootsource_read_contract(3) [OF src rdy r1 ct])
    have f2: "w_mem w2 x = w_mem w1 x" if "\<not> in_range x (hdr + toread) (unat len)" for x
      by (rule bootsource_read_contract(2) [OF src rdy1 r2 that])
    show ?thesis
    proof (rule that [of w1 len])
      show "w_mem w' x = w_mem w x" if "\<not> in_range x hdr (unat toread + (unat maxsize - 64))" for x
      proof -
        have "\<not> in_range x hdr (unat toread + unat len)" "\<not> in_range x hdr (unat toread)"
          using that lm by (auto simp: in_range_def)
        then show ?thesis using f1(2) f2 in_range_add(1) [OF _ nw(1)] res(1) by metis
      qed
      show "w_mem w' x = w_mem w1 x" if "in_range x hdr 64" for x
      proof -
        have "in_range x hdr (unat toread)" using that nw(2) by (simp add: in_range_def)
        then show ?thesis using f2 in_range_add(2) [OF _ nw(1)] res(1) by metis
      qed
    qed (use f1 res c0 in \<open>auto simp: len_def\<close>)
  qed
qed

text \<open>A zero result is only returned for a validated image.\<close>

lemma load_img_validated:
  assumes "reads_with align read src pdata" "ready w"
    and entry: "\<And>m m'. mem_read m hdr 64 = mem_read m' hdr 64 \<Longrightarrow>
      pf_check_entry_points p m hdr = pf_check_entry_points p m' hdr"
    and load: "bootsource_load_img p src pdata hdr maxsize offset w = Some (0, offset', w')"
  shows "0 \<le> rumboot_bootimage_check_header p (w_mem w') hdr"
    "rumboot_bootimage_check_data p (w_mem w') hdr = 0"
proof -
  obtain w1 :: "'d world" and len where e0: "\<And>x. in_range x hdr 64 \<Longrightarrow> w_mem w' x = w_mem w1 x"
    "(0::int) < 0 \<or> 0 \<le> rumboot_bootimage_check_header p (w_mem w1) hdr \<and>
       0 = rumboot_bootimage_check_data p (w_mem w') hdr \<and>
       len = round_up_to_align (of_int (rumboot_bootimage_check_header p (w_mem w1) hdr)) align \<and>
       offset' = offset + header_read_size align + len"
    by (rule load_img_effect [OF assms(1,2) load]) blast
  then have e: "0 \<le> rumboot_bootimage_check_header p (w_mem w1) hdr"
    "0 = rumboot_bootimage_check_data p (w_mem w') hdr" by auto
  have same: "mem_read (w_mem w') hdr 64 = mem_read (w_mem w1) hdr 64"
    by (rule mem_read_cong) (use e0(1) in auto)
  show "0 \<le> rumboot_bootimage_check_header p (w_mem w') hdr"
    using e(1) check_header_local [OF same entry [OF same]] by simp
  show "rumboot_bootimage_check_data p (w_mem w') hdr = 0" using e(2) by simp
qed

text \<open>Nothing is written beyond the image area when the header is read by itself.\<close>

lemma load_img_confined:
  assumes "reads_with align read src pdata" "ready w" "header_read_size align = 64" "64 \<le> unat maxsize"
    and load: "bootsource_load_img p src pdata hdr maxsize offset w = Some (ret, offset', w')"
    and x: "\<not> in_range x hdr (unat maxsize)"
  shows "w_mem w' x = w_mem w x"
  by (rule load_img_effect [OF assms(1,2) load]) (use assms(3,4) x in auto)

end

section \<open>Witnesses and the length that is an error code\<close>

definition absent_source :: "unit rumboot_bootsource" where
  "absent_source = \<lparr>bs_cfg = \<lparr>bs_addr = 0x7000, bs_base = 0, bs_offset = 8192, bs_base_freq_khz = 0,
       bs_iface_freq_khz = 0, bs_slave_addr = 0, bs_chipselect = None\<rparr>,
     bs_plugin = \<lparr>bm_align = 512, bm_init = None, bm_deinit = None,
       bm_read = (\<lambda>cfg pdata dest offset len w. Some (0, w))\<rparr>,
     bs_enable = Some (\<lambda>pdata w. (False, w)), bs_disable = None\<rparr>"

lemma absent_source_fails:
  "bootsource_try_single p frame absent_source pdata hdr maxsize offset w = Some (- EBADSOURCE, offset, w)"
  by (subst bootsource_try_single.simps)
    (simp add: bootsource_try_source_once_def bootsource_init_def bootsource_disable_def
      absent_source_def EBADSOURCE_def)

text \<open>A source whose medium is there and holds only zeros.\<close>

definition blank_source :: "unit rumboot_bootsource" where
  "blank_source = \<lparr>bs_cfg = \<lparr>bs_addr = 0x7000, bs_base = 0, bs_offset = 0, bs_base_freq_khz = 0,
       bs_iface_freq_khz = 0, bs_slave_addr = 0, bs_chipselect = None\<rparr>,
     bs_plugin = \<lparr>bm_align = 0, bm_init = None, bm_deinit = None,
       bm_read = (\<lambda>cfg pdata dest offset len w.
         Some (len, w\<lparr>w_mem := mem_write (w_mem w) dest (replicate (unat len) 0)\<rparr>))\<rparr>,
     bs_enable = None, bs_disable = None\<rparr>"

lemma blank_header_rejected:
  "rumboot_bootimage_check_header demo_platform (mem_write m a (replicate 64 0)) a = - EBADMAGIC"
proof -
  have "mem_read (mem_write m a (replicate 64 0)) a 4 = replicate 4 0"
    using mem_read_write_part [of 0 4 "replicate 64 (0 :: u8)" m a] by simp
  then have "load32 False (mem_write m a (replicate 64 0)) a = 0"
    by (simp add: load32_def u32_of_def numeral_eq_Suc)
  then show ?thesis
    by (simp add: rumboot_bootimage_check_header_def hdr_swap_def rumboot_bootimage_check_magic_def
        RUMBOOT_HEADER_MAGIC_def demo_platform_def swap32_def)
qed

lemma blank_source_loads:
  "bootsource_load_img demo_platform blank_source pdata hdr maxsize offset w
     = Some (- EBADMAGIC, offset + 64, w\<lparr>w_mem := mem_write (w_mem w) hdr (replicate 64 0)\<rparr>)"
  by (simp add: bootsource_load_img_def blank_source_def bootsource_read_def round_up_to_align_def
      sizeof_hdr_def blank_header_rejected EBADMAGIC_def Let_def)

lemma blank_source_init:
  "bootsource_init blank_source pdata w = Some (True, w)"
  "bm_align (bs_plugin blank_source) = 0" "bs_offset (bs_cfg blank_source) = 0"
  by (simp_all add: blank_source_def bootsource_init_def)


text \<open>The chain stops at a request for host mode. If the source with index \<open>k\<close> is reached
  and returns \<open>-ETOHOST\<close>, the chain returns at once: the sources after it are not tried, so
  the outcome is the same for every table that agrees up to and including \<open>k\<close>.\<close>

theorem chain_stops_at_host_request:
  assumes "\<And>s w ret off w'. s \<in> set pre \<Longrightarrow>
     bootsource_try_single p frame s pdata hdr maxsize (ucast (bs_offset (bs_cfg s))) w = Some (ret, off, w')
     \<Longrightarrow> ret < 0 \<and> ret \<noteq> - ETOHOST"
    and "after_sources p frame pre pdata hdr maxsize w = Some w1"
    and "bootsource_try_single p frame s pdata hdr maxsize (ucast (bs_offset (bs_cfg s))) w1
      = Some (- ETOHOST, off, w2)"
  shows "bootsource_try_chain p frame (pre @ s # rest) pdata hdr maxsize w = Some w2"
proof -
  let ?srcs = "pre @ s # rest"
  have "bootsource_chain_from p frame ?srcs pdata hdr maxsize (Some k) w
      = bootsource_chain_from p frame ?srcs pdata hdr maxsize (Some (length pre)) w'"
    if "k \<le> length pre" "after_sources p frame (drop k pre) pdata hdr maxsize w = Some w'" for k w w'
    using that
  proof (induction "length pre - k" arbitrary: k w)
    case 0
    then show ?case by simp
  next
    case (Suc n)
    then have k: "k < length pre" and d: "drop k pre = pre ! k # drop (k + 1) pre"
      by (auto simp: Cons_nth_drop_Suc)
    then have a: "?srcs ! k = pre ! k" by (simp add: nth_append)
    obtain ret off v where r: "single_at p frame ?srcs pdata hdr maxsize k w = Some (ret, off, v)"
      and v: "after_sources p frame (drop (k + 1) pre) pdata hdr maxsize v = Some w'"
      using Suc.prems(2) unfolding d by (auto simp: a split: option.splits)
    have "ret < 0 \<and> ret \<noteq> - ETOHOST"
      using assms(1) [of "pre ! k" w ret off v] r k by (simp add: a)
    then have "bootsource_chain_from p frame ?srcs pdata hdr maxsize (Some k) w
        = bootsource_chain_from p frame ?srcs pdata hdr maxsize (Some (k + 1)) v"
      using chain_next [of k ?srcs p frame pdata hdr maxsize w ret off v] r k by simp
    then show ?case using Suc.hyps(1) [of "k + 1" v] Suc.hyps(2) v k by simp
  qed
  from this [of 0 w w1] assms(2)
  have "bootsource_try_chain p frame ?srcs pdata hdr maxsize w
      = bootsource_chain_from p frame ?srcs pdata hdr maxsize (Some (length pre)) w1"
    by (simp add: bootsource_try_chain_def)
  also have "\<dots> = Some w2"
    by (rule chain_host) (use assms(3) in simp_all)
  finally show ?thesis .
qed

text \<open>A header whose length field has its top bit set, in a source that is mapped at the header's place.\<close>

definition huge_header :: "u8 list" where
  "huge_header = [0xce, 0xfa, 0x1d, 0xb0, 3, 0, 4, 1] @ bytes_of False 4 (0 :: u32)
     @ [0xF5, 0xFF, 0xFF, 0xFF, 0x80, 0, 0, 0] @ replicate 36 0"

definition huge_bytes :: "u8 list" where
  "huge_bytes = huge_header @ bytes_of False 4 (crc32 0 huge_header) @ [0, 0, 0, 0]"

definition huge_mem :: mem where "huge_mem = mem_write (\<lambda>_. 0) 0x1000 huge_bytes"

definition mapped_source :: "unit rumboot_bootsource" where
  "mapped_source = \<lparr>bs_cfg = \<lparr>bs_addr = 0x7000, bs_base = 0, bs_offset = 0, bs_base_freq_khz = 0,
       bs_iface_freq_khz = 0, bs_slave_addr = 0, bs_chipselect = None\<rparr>,
     bs_plugin = \<lparr>bm_align = 0, bm_init = None, bm_deinit = None,
       bm_read = (\<lambda>cfg pdata dest offset len w. Some (len, w))\<rparr>,
     bs_enable = None, bs_disable = None\<rparr>"

lemma huge_accepted: "rumboot_bootimage_check_header demo_platform huge_mem 0x1000 = - ETOHOST"
proof -
  have l [simp]: "length huge_header = 56" "length huge_bytes = 64"
    by (simp_all add: huge_header_def huge_bytes_def)
  have rd: "mem_read huge_mem (0x1000 + of_nat i) n = take n (drop i huge_bytes)" if "i + n \<le> 64" for i n
    unfolding huge_mem_def by (rule mem_read_write_part) (use that in simp_all)
  have by': "huge_mem (0x1000 + of_nat i) = huge_bytes ! i" if "i < 64" for i
    unfolding huge_mem_def by (rule mem_write_nth) (use that in simp_all)
  have h: "take 4 huge_bytes = [0xce, 0xfa, 0x1d, 0xb0]" "take 4 (drop 12 huge_bytes) = [0xF5, 0xFF, 0xFF, 0xFF]"
    "take 4 (drop 56 huge_bytes) = bytes_of False 4 (crc32 0 huge_header)" "take 56 huge_bytes = huge_header"
    by (simp_all add: huge_bytes_def) (simp_all add: huge_header_def)
  have w: "load32 False huge_mem 0x1000 = 0xb01dface" "load32 False huge_mem 0x100C = 0xFFFFFFF5"
    "load32 False huge_mem 0x1038 = crc32 0 huge_header" "mem_read huge_mem 0x1000 56 = huge_header"
    using rd [of 0 4] rd [of 12 4] rd [of 56 4] rd [of 0 56]
    by (simp_all add: load32_def h u32_of_bytes_of) (simp_all add: u32_of_def)
  have b: "huge_mem 0x1004 = 3" "huge_mem 0x1005 = 0" "huge_mem 0x1006 = 4" "huge_mem 0x1020 = 0"
    using by' [of 4] by' [of 5] by' [of 6] by' [of 32]
    by (simp_all add: huge_bytes_def huge_header_def nth_append)
  have s: "hdr_swap demo_platform huge_mem 0x1000 = 0"
    by (simp add: hdr_swap_def rumboot_bootimage_check_magic_def demo_platform_def w RUMBOOT_HEADER_MAGIC_def)
  show ?thesis
    using s by (simp add: rumboot_bootimage_check_header_def hdr_item32_def rumboot_bootimage_header_item32_def
      hdr_offsets b w Let_def get_cpu_def ETOHOST_def)
    (simp add: demo_platform_def w)
qed

lemma huge_source_asks_host:
  "bootsource_try_single demo_platform frame mapped_source pdata 0x1000 maxsize 0 \<lparr>w_mem = huge_mem, w_dev = ()\<rparr>
     = Some (- ETOHOST, 64, \<lparr>w_mem = store32 False 0x1000 11 huge_mem, w_dev = ()\<rparr>)"
  by (subst bootsource_try_single.simps)
    (simp add: bootsource_try_source_once_def bootsource_init_def bootsource_deinit_def bootsource_disable_def
      bootsource_load_img_def bootsource_read_def mapped_source_def round_up_to_align_def huge_accepted
      sizeof_hdr_def ETOHOST_def Let_def demo_platform_def [THEN arg_cong [of _ _ pf_big_endian]])

theorem chain_stops_at_host_request_witness:
  "bootsource_try_chain demo_platform 0x8000 ([absent_source] @ mapped_source # [absent_source]) 0 0x1000 0x4000
     \<lparr>w_mem = huge_mem, w_dev = ()\<rparr> = Some \<lparr>w_mem = store32 False 0x1000 11 huge_mem, w_dev = ()\<rparr>"
proof (rule chain_stops_at_host_request)
  show "ret < 0 \<and> ret \<noteq> - ETOHOST"
    if "s \<in> set [absent_source]" "bootsource_try_single demo_platform 0x8000 s 0 0x1000 0x4000
      (ucast (bs_offset (bs_cfg s))) w = Some (ret, off, w')" for s w ret off w'
    using that by (auto simp: absent_source_fails EBADSOURCE_def ETOHOST_def)
  show "after_sources demo_platform 0x8000 [absent_source] 0 0x1000 0x4000 \<lparr>w_mem = huge_mem, w_dev = ()\<rparr>
      = Some \<lparr>w_mem = huge_mem, w_dev = ()\<rparr>"
    by (simp add: absent_source_fails)
  show "bootsource_try_single demo_platform 0x8000 mapped_source 0 0x1000 0x4000
      (ucast (bs_offset (bs_cfg mapped_source))) \<lparr>w_mem = huge_mem, w_dev = ()\<rparr>
      = Some (- ETOHOST, 64, \<lparr>w_mem = store32 False 0x1000 11 huge_mem, w_dev = ()\<rparr>)"
    using huge_source_asks_host by (simp add: mapped_source_def)
qed

end
