(* ===== verification/Hardware.thy ===== *)
theory Hardware
  imports C_Memory
begin

text \<open>
  Register access, \<open>include/rumboot/io.h\<close>, and the free-running microsecond timer. The devices
  have a state of an arbitrary type \<open>'d\<close>; the record \<open>hw\<close> says how it answers: a read may
  change it, and so may asking the time. Drivers are functions on that state.
\<close>

record 'd hw =
  hw_read32 :: "u32 \<Rightarrow> 'd \<Rightarrow> u32 \<times> 'd"
  hw_write32 :: "u32 \<Rightarrow> u32 \<Rightarrow> 'd \<Rightarrow> 'd"
  hw_uptime :: "'d \<Rightarrow> u32 \<times> 'd"

definition ioread32 :: "('d, 'e) hw_scheme \<Rightarrow> u32 \<Rightarrow> 'd \<Rightarrow> u32 \<times> 'd" where
  "ioread32 hw addr d = hw_read32 hw addr d"

definition iowrite32 :: "('d, 'e) hw_scheme \<Rightarrow> u32 \<Rightarrow> u32 \<Rightarrow> 'd \<Rightarrow> 'd" where
  "iowrite32 hw v addr d = hw_write32 hw v addr d"

definition rumboot_platform_get_uptime :: "'d hw \<Rightarrow> 'd \<Rightarrow> u32 \<times> 'd" where
  "rumboot_platform_get_uptime hw d = hw_uptime hw d"

text \<open>The accesses of the other widths.\<close>

record 'd hw_wide = "'d hw" +
  hw_read8 :: "u32 \<Rightarrow> 'd \<Rightarrow> u8 \<times> 'd"
  hw_write8 :: "u8 \<Rightarrow> u32 \<Rightarrow> 'd \<Rightarrow> 'd"
  hw_read16 :: "u32 \<Rightarrow> 'd \<Rightarrow> u16 \<times> 'd"
  hw_write16 :: "u16 \<Rightarrow> u32 \<Rightarrow> 'd \<Rightarrow> 'd"
  hw_read64 :: "u32 \<Rightarrow> 'd \<Rightarrow> u64 \<times> 'd"
  hw_write64 :: "u64 \<Rightarrow> u32 \<Rightarrow> 'd \<Rightarrow> 'd"

definition ioread8 :: "'d hw_wide \<Rightarrow> u32 \<Rightarrow> 'd \<Rightarrow> u8 \<times> 'd" where "ioread8 hw addr d = hw_read8 hw addr d"
definition iowrite8 :: "'d hw_wide \<Rightarrow> u8 \<Rightarrow> u32 \<Rightarrow> 'd \<Rightarrow> 'd" where "iowrite8 hw v addr d = hw_write8 hw v addr d"
definition ioread16 :: "'d hw_wide \<Rightarrow> u32 \<Rightarrow> 'd \<Rightarrow> u16 \<times> 'd" where "ioread16 hw addr d = hw_read16 hw addr d"
definition iowrite16 :: "'d hw_wide \<Rightarrow> u16 \<Rightarrow> u32 \<Rightarrow> 'd \<Rightarrow> 'd" where "iowrite16 hw v addr d = hw_write16 hw v addr d"
definition ioread64 :: "'d hw_wide \<Rightarrow> u32 \<Rightarrow> 'd \<Rightarrow> u64 \<times> 'd" where "ioread64 hw addr d = hw_read64 hw addr d"
definition iowrite64 :: "'d hw_wide \<Rightarrow> u64 \<Rightarrow> u32 \<Rightarrow> 'd \<Rightarrow> 'd" where "iowrite64 hw v addr d = hw_write64 hw v addr d"

text \<open>\<open>1 << i\<close> and tests of one bit of a register.\<close>

definition BIT :: "nat \<Rightarrow> u32" where "BIT i = push_bit i 1"

lemma bit_BIT: "bit (BIT i) j \<longleftrightarrow> j = i \<and> i < 32"
  by (auto simp: BIT_def bit_exp_iff possible_bit_def)

lemma and_BIT: "w AND BIT i \<noteq> 0 \<longleftrightarrow> bit w i"
  using and_exp_eq_0_iff_not_bit [of w i] by (simp add: BIT_def)

text \<open>The same shift of an \<open>int\<close> when the result becomes an unsigned 64-bit value: bit 31 is the sign and is
  extended; shifts by 32 and more, undefined in C, give 0.\<close>

definition int_shl :: "nat \<Rightarrow> u64" where "int_shl i = scast (BIT i)"

definition iobit :: "('d, 'e) hw_scheme \<Rightarrow> u32 \<Rightarrow> nat \<Rightarrow> 'd \<Rightarrow> bool \<times> 'd" where
  "iobit hw addr i d = (let (v, d) = ioread32 hw addr d in (v AND BIT i \<noteq> 0, d))"

text \<open>Read, change, write back.\<close>

definition iomodify32 :: "('d, 'e) hw_scheme \<Rightarrow> u32 \<Rightarrow> (u32 \<Rightarrow> u32) \<Rightarrow> 'd \<Rightarrow> 'd" where
  "iomodify32 hw addr f d = (let (v, d) = ioread32 hw addr d in iowrite32 hw (f v) addr d)"

text \<open>
  \<open>LOOP_UNTIL_TIMEOUT\<close> of \<open>include/rumboot/timer.h\<close>: the body runs while less than \<open>timeout_us\<close>
  have passed since the start; it yields a value to leave the loop, and \<open>None\<close> to go on. The
  loop itself yields \<open>None\<close> at the timeout; a clock that stands still makes it run for ever.
\<close>

partial_function (option) loop_until_from ::
  "'d hw \<Rightarrow> u32 \<Rightarrow> u32 \<Rightarrow> ('d \<Rightarrow> 'a option \<times> 'd) \<Rightarrow> 'd \<Rightarrow> ('a option \<times> 'd) option" where
  "loop_until_from hw start timeout_us body d =
     (let (now, d) = rumboot_platform_get_uptime hw d in
      if now - start < timeout_us then
        (case body d of
           (Some r, d) \<Rightarrow> Some (Some r, d)
         | (None, d) \<Rightarrow> loop_until_from hw start timeout_us body d)
      else Some (None, d))"

definition loop_until_timeout ::
  "'d hw \<Rightarrow> u32 \<Rightarrow> ('d \<Rightarrow> 'a option \<times> 'd) \<Rightarrow> 'd \<Rightarrow> ('a option \<times> 'd) option" where
  "loop_until_timeout hw timeout_us body d =
     (let (start, d) = rumboot_platform_get_uptime hw d in loop_until_from hw start timeout_us body d)"

text \<open>Delays by polling the timer.\<close>

definition udelay :: "'d hw \<Rightarrow> u32 \<Rightarrow> 'd \<Rightarrow> 'd option" where
  "udelay hw us d = map_option snd (loop_until_timeout hw us (\<lambda>d. (None :: unit option, d)) d)"

fun mdelay_loop :: "'d hw \<Rightarrow> nat \<Rightarrow> 'd \<Rightarrow> 'd option" where
  "mdelay_loop hw 0 d = Some d"
| "mdelay_loop hw (Suc ms) d = (case udelay hw 1000 d of None \<Rightarrow> None | Some d \<Rightarrow> mdelay_loop hw ms d)"

definition mdelay :: "'d hw \<Rightarrow> u32 \<Rightarrow> 'd \<Rightarrow> 'd option" where
  "mdelay hw ms d = mdelay_loop hw (unat ms) d"

section \<open>Devices that proofs speak of\<close>

text \<open>What the register accesses say: a clock that advances whenever it is asked, and a record of the writes.\<close>

definition recorded :: "'d hw \<Rightarrow> ('d \<Rightarrow> u32) \<Rightarrow> ('d \<Rightarrow> (u32 \<times> u32) list) \<Rightarrow> bool" where
  "recorded hw clk log \<longleftrightarrow>
     (\<forall>d. fst (hw_uptime hw d) = clk d \<and> clk (snd (hw_uptime hw d)) = clk d + 1 \<and> log (snd (hw_uptime hw d)) = log d) \<and>
     (\<forall>a d. clk (snd (hw_read32 hw a d)) = clk d \<and> log (snd (hw_read32 hw a d)) = log d) \<and>
     (\<forall>v a d. clk (hw_write32 hw v a d) = clk d \<and> log (hw_write32 hw v a d) = log d @ [(a, v)])"

definition reads_as :: "'d hw \<Rightarrow> u32 \<Rightarrow> (u32 \<Rightarrow> bool) \<Rightarrow> bool" where
  "reads_as hw a P \<longleftrightarrow> (\<forall>d. P (fst (hw_read32 hw a d)))"

lemma recordedD:
  assumes "recorded hw clk log"
  shows "ioread32 hw a d = (v, d') \<Longrightarrow> clk d' = clk d \<and> log d' = log d"
    "clk (iowrite32 hw v a d) = clk d" "log (iowrite32 hw v a d) = log d @ [(a, v)]"
    "rumboot_platform_get_uptime hw d = (now, d') \<Longrightarrow> now = clk d \<and> clk d' = clk d + 1 \<and> log d' = log d"
  using assms unfolding recorded_def ioread32_def iowrite32_def rumboot_platform_get_uptime_def
  by (metis snd_conv fst_conv)+

lemma reads_asD: "reads_as hw a P \<Longrightarrow> ioread32 hw a d = (v, d') \<Longrightarrow> P v"
  unfolding reads_as_def ioread32_def by (metis fst_conv)

lemma elapsed_next:
  fixes now start t :: u32
  assumes "now - start < t"
  shows "unat t - unat (now + 1 - start) < unat t - unat (now - start)"
proof -
  have "now - start \<noteq> -1" using assms word_order.extremum_strict [of t] by auto
  then have "1 + (now - start) \<noteq> 0" by (metis add.commute add_eq_0_iff2)
  then have "unat (now - start + 1) = unat (now - start) + 1" by (simp add: unatSuc add.commute)
  moreover have e: "now + 1 - start = now - start + 1" by simp
  ultimately show ?thesis unfolding e using assms by (simp add: word_less_nat_alt)
qed

text \<open>Registers that keep what is written.\<close>

definition flat_regs :: "(u32 \<Rightarrow> u32) hw" where
  "flat_regs = \<lparr>hw_read32 = (\<lambda>a d. (d a, d)), hw_write32 = (\<lambda>v a d. d(a := v)), hw_uptime = (\<lambda>d. (0, d))\<rparr>"

lemma flat_regs_access [simp]:
  "ioread32 flat_regs a d = (d a, d)" "iowrite32 flat_regs v a d = d(a := v)"
  by (simp_all add: ioread32_def iowrite32_def flat_regs_def)

end
