(* ===== verification/Pl022.thy ===== *)
theory Pl022
  imports Hardware
begin

text \<open>
  The SSP driver \<open>src/lib/drivers/pl022.c\<close>: the divisor search of \<open>pl022_set_speed\<close>, set-up, the
  FIFO flags and the polled transfer. The 16-bit counters of the search stay below 257 and are
  natural numbers. A transfer reads and writes its buffers through two functions on a state
  of their owner, so that they may be local arrays, memory, or the same array.
\<close>

section \<open>Data\<close>

datatype pl022_variant = PL022_VARIANT_GSPI | PL022_VARIANT_DUMB | PL022_VARIANT_SHELUHIN

record pl022_config =
  ssp_clk :: u32
  spi_clk :: u32
  data_size :: u32
  variant :: pl022_variant
  soft_cs :: bool

definition PL022_CR0 :: u32 where "PL022_CR0 = 0x0"
definition PL022_CR1 :: u32 where "PL022_CR1 = 0x4"
definition PL022_DR :: u32 where "PL022_DR = 0x8"
definition PL022_SR :: u32 where "PL022_SR = 0xc"
definition PL022_CPSR :: u32 where "PL022_CPSR = 0x10"
definition SSPSR_SOFTCS :: u32 where "SSPSR_SOFTCS = 0xCC"
definition PL022_SR__BSY_i :: nat where "PL022_SR__BSY_i = 4"
definition PL022_SR__RFF_i :: nat where "PL022_SR__RFF_i = 3"
definition PL022_SR__RNE_i :: nat where "PL022_SR__RNE_i = 2"
definition PL022_SR__TNF_i :: nat where "PL022_SR__TNF_i = 1"
definition PL022_CR1__SOD_i :: nat where "PL022_CR1__SOD_i = 3"
definition PL022_CR1__SSE_i :: nat where "PL022_CR1__SSE_i = 1"

definition CPSDVR_MIN :: nat where "CPSDVR_MIN = 2"
definition CPSDVR_MAX :: nat where "CPSDVR_MAX = 254"
definition SCR_MIN :: nat where "SCR_MIN = 0"
definition SCR_MAX :: nat where "SCR_MAX = 255"

section \<open>Speed\<close>

definition set_data_size :: "'d hw \<Rightarrow> u32 \<Rightarrow> u32 \<Rightarrow> 'd \<Rightarrow> 'd" where
  "set_data_size hw base bits d =
     iomodify32 hw (base + PL022_CR0) (\<lambda>v. (v AND NOT 15) OR ((bits - 1) AND 15)) d"

definition spi_rate :: "nat \<Rightarrow> nat \<Rightarrow> nat \<Rightarrow> nat" where
  "spi_rate rate cpsdvsr scr = rate div (cpsdvsr * (1 + scr))"

text \<open>The inner loop: the first \<open>scr\<close> whose rate is not above the wanted one.\<close>

function scr_loop :: "nat \<Rightarrow> nat \<Rightarrow> nat \<Rightarrow> nat \<Rightarrow> nat option" where
  "scr_loop rate freq cpsdvsr scr =
     (if scr \<le> SCR_MAX then
        (if spi_rate rate cpsdvsr scr > freq then scr_loop rate freq cpsdvsr (scr + 1) else Some scr)
      else None)"
  by pat_completeness auto
termination by (relation "measure (\<lambda>(_, _, _, scr). SCR_MAX + 1 - scr)") auto

text \<open>The outer loop, with \<open>best_freq\<close>, \<open>best_cpsdvsr\<close>, \<open>best_scr\<close> and \<open>found\<close>.\<close>

function speed_loop ::
  "nat \<Rightarrow> nat \<Rightarrow> nat \<Rightarrow> nat \<times> nat \<times> nat \<Rightarrow> bool \<Rightarrow> nat \<times> nat \<times> nat" where
  "speed_loop rate freq cpsdvsr best found =
     (if cpsdvsr \<le> CPSDVR_MAX \<and> \<not> found then
        (case scr_loop rate freq cpsdvsr SCR_MIN of
           None \<Rightarrow> speed_loop rate freq (cpsdvsr + 2) best found
         | Some scr \<Rightarrow>
             let tmp = spi_rate rate cpsdvsr scr in
             if tmp > fst best
             then speed_loop rate freq (cpsdvsr + 2) (tmp, cpsdvsr, scr) (tmp = freq)
             else speed_loop rate freq (cpsdvsr + 2) best found)
      else best)"
  by pat_completeness auto
termination by (relation "measure (\<lambda>(_, _, cpsdvsr, _, _). CPSDVR_MAX + 1 - cpsdvsr)") auto

declare scr_loop.simps [simp del] speed_loop.simps [simp del]

definition pl022_set_speed :: "'d hw \<Rightarrow> u32 \<Rightarrow> pl022_config \<Rightarrow> 'd \<Rightarrow> int \<times> 'd" where
  "pl022_set_speed hw base conf d =
     (let freq = unat (spi_clk conf); rate = unat (ssp_clk conf);
          min_tclk = spi_rate rate CPSDVR_MAX SCR_MAX
      in if freq < min_tclk then (-1, d)
         else
           let (best_freq, best_cpsdvsr, best_scr) = speed_loop rate freq CPSDVR_MIN (0, 0, 0) False;
               d = iowrite32 hw (of_nat best_cpsdvsr AND 0xFF) (base + PL022_CPSR) d;
               d = iomodify32 hw (base + PL022_CR0)
                     (\<lambda>v. (v AND NOT 0xff00) OR push_bit 8 (of_nat best_scr AND 0xFF)) d
           in (0, d))"

section \<open>Set-up\<close>

definition pl022_enable :: "'d hw \<Rightarrow> u32 \<Rightarrow> 'd \<Rightarrow> 'd" where
  "pl022_enable hw base d =
     iomodify32 hw (base + PL022_CR1) (\<lambda>v. v OR BIT PL022_CR1__SOD_i OR BIT PL022_CR1__SSE_i) d"

definition pl022_disable :: "'d hw \<Rightarrow> u32 \<Rightarrow> 'd \<Rightarrow> 'd" where
  "pl022_disable hw base d =
     iomodify32 hw (base + PL022_CR1)
       (\<lambda>v. (v OR BIT PL022_CR1__SOD_i) AND NOT (BIT PL022_CR1__SSE_i)) d"

definition pl022_slave_output :: "'d hw \<Rightarrow> u32 \<Rightarrow> bool \<Rightarrow> 'd \<Rightarrow> 'd" where
  "pl022_slave_output hw base enable d =
     iomodify32 hw (base + PL022_CR1)
       (\<lambda>v. if enable then v AND NOT (BIT PL022_CR1__SOD_i) else v OR BIT PL022_CR1__SOD_i) d"

text \<open>\<open>None\<close> is \<open>rumboot_platform_panic\<close>.\<close>

definition pl022_init :: "'d hw \<Rightarrow> u32 \<Rightarrow> pl022_config \<Rightarrow> 'd \<Rightarrow> 'd option" where
  "pl022_init hw base conf d =
     (let d = pl022_disable hw base d;
          d = snd (pl022_set_speed hw base conf d);
          d = set_data_size hw base (data_size conf) d
      in if soft_cs conf \<and> variant conf \<noteq> PL022_VARIANT_GSPI then None
         else if variant conf \<noteq> PL022_VARIANT_GSPI then Some (pl022_enable hw base d)
         else
           let d = iomodify32 hw (base + SSPSR_SOFTCS)
                     (\<lambda>v. if soft_cs conf then v OR BIT 1 else v AND NOT (BIT 1)) d
           in Some (pl022_enable hw base d))"

definition pl022_internal_cs :: "'d hw \<Rightarrow> u32 \<Rightarrow> int \<Rightarrow> 'd \<Rightarrow> 'd" where
  "pl022_internal_cs hw base select d =
     iomodify32 hw (base + SSPSR_SOFTCS) (\<lambda>v. if select \<noteq> 0 then v OR BIT 0 else v AND NOT (BIT 0)) d"

definition pl022_tx_empty :: "'d hw \<Rightarrow> u32 \<Rightarrow> 'd \<Rightarrow> bool \<times> 'd" where
  "pl022_tx_empty hw base d = (let (b, d) = iobit hw (base + PL022_SR) PL022_SR__BSY_i d in (\<not> b, d))"

definition pl022_tx_avail :: "'d hw \<Rightarrow> u32 \<Rightarrow> 'd \<Rightarrow> bool \<times> 'd" where
  "pl022_tx_avail hw base d = iobit hw (base + PL022_SR) PL022_SR__TNF_i d"

definition pl022_rx_empty :: "'d hw \<Rightarrow> u32 \<Rightarrow> 'd \<Rightarrow> bool \<times> 'd" where
  "pl022_rx_empty hw base d = (let (b, d) = iobit hw (base + PL022_SR) PL022_SR__RNE_i d in (\<not> b, d))"

definition pl022_rx_full :: "'d hw \<Rightarrow> u32 \<Rightarrow> 'd \<Rightarrow> bool \<times> 'd" where
  "pl022_rx_full hw base d = iobit hw (base + PL022_SR) PL022_SR__RFF_i d"

section \<open>Transfer\<close>

text \<open>
  One round of the loop of \<open>pl022_xfer_timeout\<close>: receive if possible, send if possible.
  \<open>get i b\<close> is byte \<open>i\<close> of \<open>wrbuf\<close> (0xff without one) and \<open>put i x b\<close> stores byte \<open>i\<close> of
  \<open>rdbuf\<close> (nothing without one).
\<close>

record xfer =
  x_written :: u32
  x_read :: u32
  x_lastop :: u32

definition xfer_receive ::
  "'d hw \<Rightarrow> u32 \<Rightarrow> (u32 \<Rightarrow> u8 \<Rightarrow> 'b \<Rightarrow> 'b) \<Rightarrow> u32 \<Rightarrow> xfer \<Rightarrow> 'b \<Rightarrow> 'd \<Rightarrow> xfer \<times> 'b \<times> 'd" where
  "xfer_receive hw base put n s b d =
     (let (rx, d) = (if x_read s < n then let (e, d) = pl022_rx_empty hw base d in (\<not> e, d) else (False, d))
      in if rx then
           let (v, d) = ioread32 hw (base + PL022_DR) d;
               b = put (x_read s) (ucast (v AND 0xff)) b;
               (now, d) = rumboot_platform_get_uptime hw d
           in (s\<lparr>x_read := x_read s + 1, x_lastop := now\<rparr>, b, d)
         else (s, b, d))"

definition xfer_send ::
  "'d hw \<Rightarrow> u32 \<Rightarrow> (u32 \<Rightarrow> 'b \<Rightarrow> u8) \<Rightarrow> u32 \<Rightarrow> xfer \<Rightarrow> 'b \<Rightarrow> 'd \<Rightarrow> xfer \<times> 'd" where
  "xfer_send hw base get n s b d =
     (let (tx, d) = (if x_written s < n then pl022_tx_avail hw base d else (False, d))
      in if tx then
           let d = iowrite32 hw (ucast (get (x_written s) b)) (base + PL022_DR) d;
               (now, d) = rumboot_platform_get_uptime hw d
           in (s\<lparr>x_written := x_written s + 1, x_lastop := now\<rparr>, d)
         else (s, d))"

definition xfer_round ::
  "'d hw \<Rightarrow> u32 \<Rightarrow> (u32 \<Rightarrow> 'b \<Rightarrow> u8) \<Rightarrow> (u32 \<Rightarrow> u8 \<Rightarrow> 'b \<Rightarrow> 'b) \<Rightarrow> u32 \<Rightarrow> xfer \<Rightarrow> 'b \<Rightarrow> 'd \<Rightarrow> xfer \<times> 'b \<times> 'd" where
  "xfer_round hw base get put n s b d =
     (let (s, b, d) = xfer_receive hw base put n s b d;
          (s, d) = xfer_send hw base get n s b d
      in (s, b, d))"

partial_function (option) xfer_loop ::
  "'d hw \<Rightarrow> u32 \<Rightarrow> (u32 \<Rightarrow> 'b \<Rightarrow> u8) \<Rightarrow> (u32 \<Rightarrow> u8 \<Rightarrow> 'b \<Rightarrow> 'b) \<Rightarrow> u32 \<Rightarrow> u32 \<Rightarrow> xfer \<Rightarrow> 'b \<Rightarrow> 'd
     \<Rightarrow> (int \<times> 'b \<times> 'd) option" where
  "xfer_loop hw base get put n timeout s b d =
     (if x_read s < n \<or> x_written s < n then
        let (s, b, d) = xfer_round hw base get put n s b d;
            (late, d) = (if timeout \<noteq> 0 then
                           let (now, d) = rumboot_platform_get_uptime hw d in (now - x_lastop s > timeout, d)
                         else (False, d))
        in if late then Some (-1, b, d) else xfer_loop hw base get put n timeout s b d
      else Some (sint (x_read s), b, d))"

definition pl022_xfer_timeout ::
  "'d hw \<Rightarrow> u32 \<Rightarrow> (u32 \<Rightarrow> 'b \<Rightarrow> u8) \<Rightarrow> (u32 \<Rightarrow> u8 \<Rightarrow> 'b \<Rightarrow> 'b) \<Rightarrow> u32 \<Rightarrow> u32 \<Rightarrow> 'b \<Rightarrow> 'd
     \<Rightarrow> (int \<times> 'b \<times> 'd) option" where
  "pl022_xfer_timeout hw base get put n timeout b d =
     (let (now, d) = rumboot_platform_get_uptime hw d
      in xfer_loop hw base get put n timeout \<lparr>x_written = 0, x_read = 0, x_lastop = now\<rparr> b d)"

definition pl022_xfer ::
  "'d hw \<Rightarrow> u32 \<Rightarrow> (u32 \<Rightarrow> 'b \<Rightarrow> u8) \<Rightarrow> (u32 \<Rightarrow> u8 \<Rightarrow> 'b \<Rightarrow> 'b) \<Rightarrow> u32 \<Rightarrow> 'b \<Rightarrow> 'd \<Rightarrow> (int \<times> 'b \<times> 'd) option" where
  "pl022_xfer hw base get put n b d = pl022_xfer_timeout hw base get put n 0 b d"

section \<open>The divisor search is optimal\<close>

lemma spi_rate_antimono: "scr \<le> scr' \<Longrightarrow> 0 < c \<Longrightarrow> spi_rate rate c scr' \<le> spi_rate rate c scr"
  unfolding spi_rate_def by (rule div_le_mono2) auto

lemma scr_loop_spec:
  "case scr_loop rate freq c scr of
     None \<Rightarrow> \<forall>s. scr \<le> s \<and> s \<le> SCR_MAX \<longrightarrow> freq < spi_rate rate c s
   | Some s \<Rightarrow> scr \<le> s \<and> s \<le> SCR_MAX \<and> spi_rate rate c s \<le> freq \<and>
       (\<forall>t. scr \<le> t \<and> t < s \<longrightarrow> freq < spi_rate rate c t)"
proof (induction rate freq c scr rule: scr_loop.induct)
  case (1 rate freq c scr)
  show ?case
  proof (cases "scr \<le> SCR_MAX \<and> spi_rate rate c scr > freq")
    case True
    then have "scr_loop rate freq c scr = scr_loop rate freq c (scr + 1)"
      by (simp add: scr_loop.simps)
    then show ?thesis using "1.IH" True
      by (auto split: option.splits simp: Suc_le_eq) (metis le_neq_implies_less)+
  next
    case False
    then show ?thesis by (auto simp: scr_loop.simps)
  qed
qed

definition setting_ok :: "nat \<Rightarrow> nat \<Rightarrow> nat \<times> nat \<times> nat \<Rightarrow> bool" where
  "setting_ok rate freq best \<longleftrightarrow> (case best of (f, c, s) \<Rightarrow>
     best = (0, 0, 0) \<or> even c \<and> 2 \<le> c \<and> c \<le> 254 \<and> s \<le> 255 \<and> f = spi_rate rate c s \<and> f \<le> freq)"

definition best_below :: "nat \<Rightarrow> nat \<Rightarrow> nat \<Rightarrow> nat \<Rightarrow> bool" where
  "best_below rate freq n f \<longleftrightarrow> (\<forall>c s. even c \<and> 2 \<le> c \<and> c < n \<and> s \<le> 255 \<and> spi_rate rate c s \<le> freq
     \<longrightarrow> spi_rate rate c s \<le> f)"

lemma best_below_step:
  assumes b: "best_below rate freq c f" and fg: "f \<le> g" and c: "even c" "2 \<le> c"
    and col: "\<And>s. s \<le> 255 \<Longrightarrow> spi_rate rate c s \<le> freq \<Longrightarrow> spi_rate rate c s \<le> g"
  shows "best_below rate freq (c + 2) g"
  unfolding best_below_def
proof (intro allI impI)
  fix c' s
  assume a: "even c' \<and> 2 \<le> c' \<and> c' < c + 2 \<and> s \<le> 255 \<and> spi_rate rate c' s \<le> freq"
  then have "c' < c \<or> c' = c" using c(1) by (auto elim!: evenE)
  then show "spi_rate rate c' s \<le> g"
    using a b fg col by (auto simp: best_below_def intro: le_trans)
qed

lemma speed_loop_spec:
  "even cps \<Longrightarrow> 2 \<le> cps \<Longrightarrow> setting_ok rate freq best \<Longrightarrow> best_below rate freq cps (fst best) \<Longrightarrow>
   found \<longrightarrow> fst best = freq \<Longrightarrow>
   setting_ok rate freq (speed_loop rate freq cps best found) \<and>
   best_below rate freq 255 (fst (speed_loop rate freq cps best found))"
proof (induction rate freq cps best found rule: speed_loop.induct)
  case (1 rate freq cps best found)
  show ?case
  proof (cases "cps \<le> CPSDVR_MAX \<and> \<not> found")
    case False
    then have r: "speed_loop rate freq cps best found = best"
      by (subst speed_loop.simps, rule if_not_P)
    have "best_below rate freq 255 (fst best)"
      using False "1.prems"(4,5) by (auto simp: best_below_def CPSDVR_MAX_def)
    then show ?thesis using r "1.prems"(3) by simp
  next
    case run: True
    have nxt: "even (cps + 2)" "2 \<le> cps + 2" using "1.prems"(1) by auto
    note scr = scr_loop_spec [where rate = rate and freq = freq and c = cps and scr = SCR_MIN]
    show ?thesis
    proof (cases "scr_loop rate freq cps SCR_MIN")
      case None
      have "best_below rate freq (cps + 2) (fst best)"
      proof (rule best_below_step [OF "1.prems"(4) le_refl "1.prems"(1,2)])
        show "spi_rate rate cps s \<le> fst best" if "s \<le> 255" "spi_rate rate cps s \<le> freq" for s
          using scr None that by (auto simp: SCR_MIN_def SCR_MAX_def dest: leD)
      qed
      then show ?thesis
        using "1.IH"(1) [OF run None nxt "1.prems"(3)] "1.prems"(5) run None
        by (subst (1 2) speed_loop.simps) auto
    next
      case (Some s)
      define tmp where "tmp = spi_rate rate cps s"
      have s: "s \<le> 255" "tmp \<le> freq" "\<And>t. t < s \<Longrightarrow> freq < spi_rate rate cps t"
        using scr Some by (auto simp: SCR_MIN_def SCR_MAX_def tmp_def)
      have col: "spi_rate rate cps t \<le> tmp" if "spi_rate rate cps t \<le> freq" for t
        using spi_rate_antimono [of s t cps rate] s(3) [of t] that "1.prems"(2)
        by (cases "t < s") (auto simp: tmp_def)
      show ?thesis
      proof (cases "tmp > fst best")
        case True
        have "setting_ok rate freq (tmp, cps, s)"
          using s "1.prems"(1,2) run by (simp add: setting_ok_def tmp_def CPSDVR_MAX_def)
        moreover have "best_below rate freq (cps + 2) tmp"
          by (rule best_below_step [OF "1.prems"(4) _ "1.prems"(1,2)]) (use True col in auto)
        ultimately show ?thesis
          using "1.IH"(2) [OF run Some refl] nxt True run Some
          by (subst (1 2) speed_loop.simps) (simp add: Let_def tmp_def)
      next
        case False
        have "best_below rate freq (cps + 2) (fst best)"
          by (rule best_below_step [OF "1.prems"(4) le_refl "1.prems"(1,2)])
            (use False col in \<open>meson le_trans not_le_imp_less less_imp_le\<close>)
        then show ?thesis
          using "1.IH"(3) [OF run Some refl _ nxt "1.prems"(3)] False "1.prems"(5) run Some
          by (subst (1 2) speed_loop.simps) (auto simp: Let_def tmp_def)
      qed
    qed
  qed
qed

text \<open>C18: The clock divisors that \<open>pl022_set_speed\<close> searches for are optimal. The search ends
  with a pair of divisors in the range of the hardware whose rate does not exceed the wanted
  frequency, and no other pair in that range has a rate that is closer to it from below; it
  ends without one only if every pair yields rate 0 or a rate above the wanted frequency.\<close>

theorem speed_search_optimal:
  assumes "speed_loop rate freq CPSDVR_MIN (0, 0, 0) False = (f, c, s)"
  shows "((f, c, s) = (0, 0, 0) \<or>
       even c \<and> 2 \<le> c \<and> c \<le> 254 \<and> s \<le> 255 \<and> f = spi_rate rate c s \<and> f \<le> freq) \<and>
     (\<forall>c' s'. even c' \<and> 2 \<le> c' \<and> c' \<le> 254 \<and> s' \<le> 255 \<and> spi_rate rate c' s' \<le> freq \<longrightarrow>
       spi_rate rate c' s' \<le> f)"
proof -
  have "setting_ok rate freq (f, c, s) \<and> best_below rate freq 255 f"
    using speed_loop_spec [of CPSDVR_MIN rate freq "(0, 0, 0)" False] assms
    by (simp add: CPSDVR_MIN_def setting_ok_def best_below_def)
  then show ?thesis by (auto simp: setting_ok_def best_below_def)
qed

lemma speed_search_example: "speed_loop 100 30 CPSDVR_MIN (0, 0, 0) False = (25, 2, 1)"
  by (simp add: speed_loop.simps scr_loop.simps spi_rate_def CPSDVR_MIN_def CPSDVR_MAX_def SCR_MIN_def SCR_MAX_def)

theorem speed_search_optimal_witness:
  "even (2 :: nat) \<and> spi_rate 100 2 1 = 25 \<and> spi_rate 100 4 0 \<le> 25"
  using speed_search_optimal [OF speed_search_example] by (auto simp: spi_rate_def)

end
