(* ===== verification/Boot_Plugins.thy ===== *)
theory Boot_Plugins
  imports Boot_Source Pl022
begin

text \<open>
  The boot source plugins of \<open>src/lib/bootsrc\<close>: \<open>physmap\<close> (memory-mapped NOR), \<open>boilerplate\<close>,
  \<open>eeprom\<close> (I2C) and \<open>spiflash\<close> (SPI), as \<open>read\<close>, \<open>init\<close> and \<open>deinit\<close> functions of a module
  record, and the proof that each meets the contract of the loader. \<open>be\<close> is the byte order of
  the CPU, \<open>hw\<close> the behaviour of the registers.
\<close>

section \<open>physmap\<close>

text \<open>The copy loop, by 64-bit words, with the two pointers and the counter.\<close>

partial_function (option) physmap_loop ::
  "bool \<Rightarrow> u32 \<Rightarrow> u32 \<Rightarrow> u32 \<Rightarrow> u32 \<Rightarrow> mem \<Rightarrow> mem option" where
  "physmap_loop be limit i dest from m =
     (if i < limit then
        physmap_loop be limit (i + 8) (dest + 8) (from + 8) (store64 be dest (load64 be m from) m)
      else Some m)"

definition physmap_read ::
  "bool \<Rightarrow> 'd bootsource_cfg \<Rightarrow> u32 \<Rightarrow> u32 \<Rightarrow> u32 \<Rightarrow> u32 \<Rightarrow> 'd world \<Rightarrow> (u32 \<times> 'd world) option" where
  "physmap_read be src pdata to offset len w =
     (case physmap_loop be (offset + len) offset to (bs_base src + offset) (w_mem w) of
        None \<Rightarrow> None
      | Some m \<Rightarrow> Some (len, w\<lparr>w_mem := m\<rparr>))"

definition g_bootmodule_physmap :: "bool \<Rightarrow> 'd rumboot_bootmodule" where
  "g_bootmodule_physmap be =
     \<lparr>bm_align = 8, bm_init = Some (\<lambda>src pdata w. Some (True, w)),
      bm_deinit = Some (\<lambda>src pdata w. Some w), bm_read = physmap_read be\<rparr>"

section \<open>boilerplate\<close>

definition boilerplate_read ::
  "'d bootsource_cfg \<Rightarrow> u32 \<Rightarrow> u32 \<Rightarrow> u32 \<Rightarrow> u32 \<Rightarrow> 'd world \<Rightarrow> (u32 \<times> 'd world) option" where
  "boilerplate_read src pdata to offset len w = Some (0, w)"

definition g_bootmodule_boilerplate :: "'d rumboot_bootmodule" where
  "g_bootmodule_boilerplate =
     \<lparr>bm_align = 0, bm_init = Some (\<lambda>src pdata w. Some (True, w)),
      bm_deinit = Some (\<lambda>src pdata w. Some w), bm_read = boilerplate_read\<rparr>"

section \<open>eeprom\<close>

definition EEPROM_PAGE_SIZE :: u32 where "EEPROM_PAGE_SIZE = 32"
definition I2C_DEVICE_ID_VALUE :: u32 where "I2C_DEVICE_ID_VALUE = 0x012C012C"
definition I2C_ID :: u32 where "I2C_ID = 0x0"
definition I2C_SOFTR :: u32 where "I2C_SOFTR = 0x00C"
definition I2C_CTRL :: u32 where "I2C_CTRL = 0x010"
definition I2C_STATUS :: u32 where "I2C_STATUS = 0x018"
definition I2C_NUMBER :: u32 where "I2C_NUMBER = 0x01C"
definition I2C_STAT_RST :: u32 where "I2C_STAT_RST = 0x020"
definition I2C_PRESCALE :: u32 where "I2C_PRESCALE = 0x024"
definition I2C_TRANSMIT :: u32 where "I2C_TRANSMIT = 0x030"
definition I2C_RECEIVE :: u32 where "I2C_RECEIVE = 0x430"

definition CMD_READ_REPEAT_STOP :: u32 where
  "CMD_READ_REPEAT_STOP = BIT 0 OR BIT 3 OR BIT 1 OR BIT 5 OR BIT 6"

definition get_i2c_clk :: "u32 \<Rightarrow> u32 \<Rightarrow> u32" where
  "get_i2c_clk clk_apb pr = clk_apb div (5 * (pr + 1))"

definition calc_best_pr :: "u32 \<Rightarrow> u32 \<Rightarrow> u32" where
  "calc_best_pr clk_apb clk_i2c = clk_apb div (5 * clk_i2c) - 1"

definition i2c_stat_rst :: "'d hw \<Rightarrow> u32 \<Rightarrow> 'd \<Rightarrow> 'd" where
  "i2c_stat_rst hw base d =
     iowrite32 hw 0 (base + I2C_STAT_RST) (iowrite32 hw 1 (base + I2C_STAT_RST)
       (iowrite32 hw 0 (base + I2C_STAT_RST) d))"

definition i2c_reset :: "'d hw \<Rightarrow> u32 \<Rightarrow> 'd \<Rightarrow> 'd" where
  "i2c_reset hw base d = iowrite32 hw 0 (base + I2C_SOFTR) (iowrite32 hw 1 (base + I2C_SOFTR) d)"

definition i2c_is_nack :: "'d hw \<Rightarrow> u32 \<Rightarrow> 'd \<Rightarrow> bool \<times> 'd" where
  "i2c_is_nack hw base d = iobit hw (base + I2C_STATUS) 9 d"

definition i2c_is_arblost :: "'d hw \<Rightarrow> u32 \<Rightarrow> 'd \<Rightarrow> bool \<times> 'd" where
  "i2c_is_arblost hw base d = iobit hw (base + I2C_STATUS) 1 d"

definition i2c_is_busy :: "'d hw \<Rightarrow> u32 \<Rightarrow> 'd \<Rightarrow> bool \<times> 'd" where
  "i2c_is_busy hw base d = iobit hw (base + I2C_STATUS) 0 d"

definition i2c_resetinit :: "'d hw \<Rightarrow> u32 \<Rightarrow> u32 \<Rightarrow> 'd \<Rightarrow> 'd" where
  "i2c_resetinit hw base prescaler d = iowrite32 hw prescaler (base + I2C_PRESCALE) (i2c_reset hw base d)"

text \<open>Body of the wait for the address phase: \<open>True\<close> is sent, \<open>False\<close> an error.\<close>

definition eeprom_wait_sent :: "'d hw \<Rightarrow> u32 \<Rightarrow> 'd \<Rightarrow> bool option \<times> 'd" where
  "eeprom_wait_sent hw base d =
     (let (sent, d) = iobit hw (base + I2C_STATUS) 4 d in
      if sent then (Some True, d)
      else let (nack, d) = i2c_is_nack hw base d in
        if nack then (Some False, d)
        else let (lost, d) = i2c_is_arblost hw base d in
          if lost then (Some False, d) else (None, d))"

text \<open>Body of the wait for a byte, and of the wait for the bus.\<close>

definition eeprom_wait_byte :: "'d hw \<Rightarrow> u32 \<Rightarrow> 'd \<Rightarrow> unit option \<times> 'd" where
  "eeprom_wait_byte hw base d =
     (let (empty, d) = iobit hw (base + I2C_STATUS) 7 d in (if \<not> empty then Some () else None, d))"

definition eeprom_wait_idle :: "'d hw \<Rightarrow> u32 \<Rightarrow> 'd \<Rightarrow> unit option \<times> 'd" where
  "eeprom_wait_idle hw base d =
     (let d = i2c_stat_rst hw base d; (busy, d) = i2c_is_busy hw base d
      in (if \<not> busy then Some () else None, d))"

text \<open>
  The loop over the bytes: the first argument is \<open>len\<close>. The result says whether it ran to its
  end, with the number of bytes received.
\<close>

fun eeprom_bytes ::
  "nat \<Rightarrow> 'd hw \<Rightarrow> u32 \<Rightarrow> u32 \<Rightarrow> u32 \<Rightarrow> 'd world \<Rightarrow> (bool \<times> u32 \<times> 'd world) option" where
  "eeprom_bytes 0 hw base dst ret w = Some (True, ret, w)"
| "eeprom_bytes (Suc n) hw base dst ret w =
     (case loop_until_timeout hw 100 (eeprom_wait_byte hw base) (w_dev w) of
        None \<Rightarrow> None
      | Some (have_bytes, d) \<Rightarrow>
          let (nack, d) = (if n \<noteq> 0 then i2c_is_nack hw base d else (False, d)) in
          if nack then Some (False, ret, w\<lparr>w_dev := d\<rparr>)
          else let (lost, d) = i2c_is_arblost hw base d in
            if lost \<or> have_bytes = None then Some (False, ret, w\<lparr>w_dev := d\<rparr>)
            else let (v, d) = ioread32 hw (base + I2C_RECEIVE) d in
              eeprom_bytes n hw base (dst + 1) (ret + 1)
                (w\<lparr>w_mem := mem_write (w_mem w) dst [ucast v], w_dev := d\<rparr>))"

definition eeprom_read_chunk ::
  "bool \<Rightarrow> 'd hw \<Rightarrow> 'd bootsource_cfg \<Rightarrow> u32 \<Rightarrow> u8 \<Rightarrow> u16 \<Rightarrow> u32 \<Rightarrow> u32 \<Rightarrow> 'd world \<Rightarrow> (u32 \<times> 'd world) option"
where
  "eeprom_read_chunk be hw src epd devaddr offset dst len w =
     (let base = bs_base src; d = w_dev w;
          d = iowrite32 hw 0 (base + I2C_STATUS) d;
          d = iowrite32 hw (push_bit 1 (ucast devaddr)) (base + I2C_TRANSMIT) d;
          d = iowrite32 hw (ucast (drop_bit 8 offset)) (base + I2C_TRANSMIT) d;
          d = iowrite32 hw (ucast (offset AND 0xff)) (base + I2C_TRANSMIT) d;
          d = iowrite32 hw (BIT 0 OR BIT 1 OR BIT 4) (base + I2C_CTRL) d
      in case loop_until_timeout hw 100 (eeprom_wait_sent hw base) d of
           None \<Rightarrow> None
         | Some (sent, d) \<Rightarrow>
             if sent \<noteq> Some True then Some (0, w\<lparr>w_dev := i2c_stat_rst hw base d\<rparr>)
             else
               let d = i2c_stat_rst hw base d;
                   d = iowrite32 hw len (base + I2C_NUMBER) d;
                   d = iowrite32 hw (push_bit 1 (ucast devaddr) OR 1) (base + I2C_TRANSMIT) d;
                   d = iowrite32 hw CMD_READ_REPEAT_STOP (base + I2C_CTRL) d
               in case eeprom_bytes (unat len) hw base dst 0 (w\<lparr>w_dev := d\<rparr>) of
                    None \<Rightarrow> None
                  | Some (finished, ret, w) \<Rightarrow>
                      if \<not> finished then Some (ret, w\<lparr>w_dev := i2c_stat_rst hw base (w_dev w)\<rparr>)
                      else
                        (case loop_until_timeout hw 40 (eeprom_wait_idle hw base) (w_dev w) of
                           None \<Rightarrow> None
                         | Some (_, d) \<Rightarrow>
                             let (_, d) = i2c_is_busy hw base d;
                                 d = i2c_resetinit hw base (load32 be (w_mem w) epd) d
                             in Some (ret, w\<lparr>w_dev := i2c_stat_rst hw base d\<rparr>)))"

definition eeprom_init ::
  "bool \<Rightarrow> 'd hw \<Rightarrow> 'd bootsource_cfg \<Rightarrow> u32 \<Rightarrow> 'd world \<Rightarrow> (bool \<times> 'd world) option" where
  "eeprom_init be hw src epd w =
     (let base = bs_base src; (tmp, d) = ioread32 hw (base + I2C_ID) (w_dev w) in
      if tmp \<noteq> I2C_DEVICE_ID_VALUE then Some (False, w\<lparr>w_dev := d\<rparr>)
      else
        let d = i2c_stat_rst hw base d; (tmp, d) = ioread32 hw (base + I2C_STATUS) d in
        if tmp AND BIT 25 = 0 \<or> tmp AND BIT 23 = 0 then Some (False, w\<lparr>w_dev := d\<rparr>)
        else
          let pr = calc_best_pr (bs_base_freq_khz src * 1000) (bs_iface_freq_khz src * 1000)
          in Some (True, w\<lparr>w_mem := store32 be epd pr (w_mem w), w_dev := i2c_resetinit hw base pr d\<rparr>))"

definition eeprom_deinit :: "'d hw \<Rightarrow> 'd bootsource_cfg \<Rightarrow> u32 \<Rightarrow> 'd world \<Rightarrow> 'd world" where
  "eeprom_deinit hw src pdata w = w\<lparr>w_dev := i2c_reset hw (bs_base src) (w_dev w)\<rparr>"

text \<open>The loop over pages; the device offset is cut to 16 bits.\<close>

function eeprom_read_loop ::
  "bool \<Rightarrow> 'd hw \<Rightarrow> 'd bootsource_cfg \<Rightarrow> u32 \<Rightarrow> u32 \<Rightarrow> u32 \<Rightarrow> u32 \<Rightarrow> u32 \<Rightarrow> 'd world \<Rightarrow> (u32 \<times> 'd world) option"
where
  "eeprom_read_loop be hw src pdata dest offset len transferred w =
     (if len = 0 then Some (transferred, w)
      else
        let toread = (if len < EEPROM_PAGE_SIZE then len else EEPROM_PAGE_SIZE) in
        case eeprom_read_chunk be hw src pdata (ucast (bs_slave_addr src)) (ucast offset) dest toread w of
          None \<Rightarrow> None
        | Some (actual, w) \<Rightarrow>
            if actual \<noteq> toread then Some (transferred + actual, w)
            else eeprom_read_loop be hw src pdata (dest + toread) (offset + toread) (len - toread)
                   (transferred + actual) w)"
  by pat_completeness auto
termination
  by (relation "measure (\<lambda>(_, _, _, _, _, _, len, _, _). unat len)")
    (auto simp: EEPROM_PAGE_SIZE_def word_less_nat_alt unat_sub_if' unat_gt_0 split: if_splits)

definition eeprom_read ::
  "bool \<Rightarrow> 'd hw \<Rightarrow> 'd bootsource_cfg \<Rightarrow> u32 \<Rightarrow> u32 \<Rightarrow> u32 \<Rightarrow> u32 \<Rightarrow> 'd world \<Rightarrow> (u32 \<times> 'd world) option" where
  "eeprom_read be hw src pdata to offset len w = eeprom_read_loop be hw src pdata to offset len 0 w"

definition g_bootmodule_eeprom :: "bool \<Rightarrow> 'd hw \<Rightarrow> 'd rumboot_bootmodule" where
  "g_bootmodule_eeprom be hw =
     \<lparr>bm_align = 0, bm_init = Some (eeprom_init be hw), bm_deinit = Some (\<lambda>src pdata w. Some (eeprom_deinit hw src pdata w)),
      bm_read = eeprom_read be hw\<rparr>"

section \<open>spiflash\<close>

definition SPIFLASH_READDATA :: u8 where "SPIFLASH_READDATA = 0x03"

definition spi_cs :: "'d hw \<Rightarrow> 'd bootsource_cfg \<Rightarrow> u32 \<Rightarrow> int \<Rightarrow> 'd world \<Rightarrow> 'd world" where
  "spi_cs hw src pdata select w =
     (case bs_chipselect src of
        Some cs \<Rightarrow> cs pdata select (w\<lparr>w_dev := pl022_internal_cs hw (bs_base src) 1 (w_dev w)\<rparr>)
      | None \<Rightarrow> w\<lparr>w_dev := pl022_internal_cs hw (bs_base src) select (w_dev w)\<rparr>)"

text \<open>The command is sent from and received into the same local array.\<close>

definition spiflash_read_flash ::
  "'d hw \<Rightarrow> u32 \<Rightarrow> u32 \<Rightarrow> u32 \<Rightarrow> u32 \<Rightarrow> 'd world \<Rightarrow> 'd world option" where
  "spiflash_read_flash hw base offset dest len w =
     (let cmd = [SPIFLASH_READDATA, ucast (drop_bit 16 offset AND 0xff), ucast (drop_bit 8 offset AND 0xff),
                 ucast (offset AND 0xff)];
          timeout = 100 + len * 4
      in case pl022_xfer_timeout hw base (\<lambda>i b. b ! unat i) (\<lambda>i x b. b[unat i := x]) 4 timeout cmd (w_dev w) of
           None \<Rightarrow> None
         | Some (_, _, d) \<Rightarrow>
             (case pl022_xfer_timeout hw base (\<lambda>i b. 0xff) (\<lambda>i x m. mem_write m (dest + i) [x]) len timeout
                     (w_mem w) d of
                None \<Rightarrow> None
              | Some (_, m, d) \<Rightarrow> Some (w\<lparr>w_mem := m, w_dev := d\<rparr>)))"

text \<open>The first field of the private data, a pointer back to the source, is set.\<close>

definition spiflash_init ::
  "bool \<Rightarrow> 'd hw \<Rightarrow> 'd bootsource_cfg \<Rightarrow> u32 \<Rightarrow> 'd world \<Rightarrow> (bool \<times> 'd world) option" where
  "spiflash_init be hw src pdata w =
     (let conf = \<lparr>ssp_clk = bs_base_freq_khz src * 1000, spi_clk = bs_iface_freq_khz src * 1000,
                  data_size = 8, variant = PL022_VARIANT_GSPI, soft_cs = True\<rparr>
      in case pl022_init hw (bs_base src) conf (w_dev w) of
           None \<Rightarrow> None
         | Some d \<Rightarrow> Some (True, w\<lparr>w_mem := store32 be pdata (bs_addr src) (w_mem w), w_dev := d\<rparr>))"

definition spiflash_deinit :: "'d hw \<Rightarrow> 'd bootsource_cfg \<Rightarrow> u32 \<Rightarrow> 'd world \<Rightarrow> 'd world" where
  "spiflash_deinit hw src pdata w =
     w\<lparr>w_dev := iomodify32 hw (bs_base src + PL022_CR1) (\<lambda>v. v AND NOT (BIT PL022_CR1__SSE_i)) (w_dev w)\<rparr>"

definition spiflash_read ::
  "'d hw \<Rightarrow> 'd bootsource_cfg \<Rightarrow> u32 \<Rightarrow> u32 \<Rightarrow> u32 \<Rightarrow> u32 \<Rightarrow> 'd world \<Rightarrow> (u32 \<times> 'd world) option" where
  "spiflash_read hw src pdata to offset len w =
     (case spiflash_read_flash hw (bs_base src) offset to len (spi_cs hw src pdata 0 w) of
        None \<Rightarrow> None
      | Some w \<Rightarrow> Some (len, spi_cs hw src pdata 1 w))"

definition g_bootmodule_spiflash :: "bool \<Rightarrow> 'd hw \<Rightarrow> 'd rumboot_bootmodule" where
  "g_bootmodule_spiflash be hw =
     \<lparr>bm_align = 0, bm_init = Some (spiflash_init be hw), bm_deinit = Some (\<lambda>src pdata w. Some (spiflash_deinit hw src pdata w)),
      bm_read = spiflash_read hw\<rparr>"

declare eeprom_read_loop.simps [simp del]


section \<open>physmap meets the contract\<close>

declare physmap_loop.simps [simp del]

lemma mem_write_frame: "\<not> in_range x a (length bs) \<Longrightarrow> mem_write m a bs x = m x"
  by (rule mem_write_out)

lemma store64_frame: "\<not> in_range x a 8 \<Longrightarrow> store64 be a v m x = m x"
  by (simp add: store64_def mem_write_out)

lemma in_range_later: "in_range x (a + 8) n \<Longrightarrow> 8 + n \<le> 2 ^ 32 \<Longrightarrow> in_range x a (8 + n)"
  using in_range_add(1) [of x a 8 n] by simp

lemma physmap_loop_frame:
  "unat i + 8 * k = unat limit \<Longrightarrow>
   \<exists>m'. physmap_loop be limit i dest from m = Some m' \<and> (\<forall>x. \<not> in_range x dest (8 * k) \<longrightarrow> m' x = m x)"
proof (induction k arbitrary: i dest "from" m)
  case 0
  then show ?case by (subst physmap_loop.simps) (simp add: word_less_nat_alt)
next
  case (Suc k)
  have lt: "unat i + 8 + 8 * k = unat limit" using Suc.prems by simp
  then have i8: "unat (i + 8) = unat i + 8"
    using unat_add_small [of i 8] unat_u32_less [of limit] by simp
  obtain m' where m': "physmap_loop be limit (i + 8) (dest + 8) (from + 8) (store64 be dest (load64 be m from) m) = Some m'"
    "\<And>x. \<not> in_range x (dest + 8) (8 * k) \<Longrightarrow> m' x = store64 be dest (load64 be m from) m x"
    using Suc.IH [of "i + 8" "dest + 8" "from + 8" "store64 be dest (load64 be m from) m"] i8 lt by auto
  have "m' x = m x" if "\<not> in_range x dest (8 * Suc k)" for x
  proof -
    have "unat limit < 4294967296" by (rule unat_u32_less)
    with lt have "8 + 8 * k < 4294967296" by linarith
    then have "8 + 8 * k \<le> 2 ^ 32" by simp
    then have "\<not> in_range x (dest + 8) (8 * k)" using that in_range_later [of x dest "8 * k"] by auto
    moreover have "\<not> in_range x dest 8" using that by (auto simp: in_range_def)
    ultimately show ?thesis using m'(2) store64_frame by metis
  qed
  moreover have "i < limit" using lt by (simp add: word_less_nat_alt)
  ultimately show ?case using m'(1) by (subst physmap_loop.simps) auto
qed

lemma physmap_request:
  assumes "aligned 8 offset" "aligned 8 len"
  obtains k where "unat offset + 8 * k = unat (offset + len)" "8 * k = unat len"
  | "offset + len \<le> offset"
proof -
  have "unat offset mod 8 = 0" "unat len mod 8 = 0"
    using assms unfolding aligned_unat by simp_all
  then have k: "8 * (unat len div 8) = unat len"
    using mult_div_mod_eq [of 8 "unat len"] by linarith
  show ?thesis
  proof (cases "unat offset + unat len < 2 ^ 32")
    case True
    then have "unat (offset + len) = unat offset + unat len" by (simp add: unat_word_ariths)
    then show ?thesis using that(1) [OF _ k] k by simp
  next
    case False
    have "unat (offset + len) = unat offset + unat len - 2 ^ 32"
      using False by (simp add: unat_plus_if')
    moreover have "unat len < 4294967296" by (rule unat_u32_less)
    ultimately have "unat (offset + len) \<le> unat offset" by (simp del: unat_u32_less)
    then show ?thesis using that(2) by (simp only: word_le_nat_alt)
  qed
qed

lemma physmap_read_frame:
  assumes "aligned 8 offset" "aligned 8 len"
  shows "\<exists>w'. physmap_read be src pdata to offset len w = Some (len, w') \<and>
    (\<forall>x. \<not> in_range x to (unat len) \<longrightarrow> w_mem w' x = w_mem w x)"
proof (rule physmap_request [OF assms])
  fix k
  assume "unat offset + 8 * k = unat (offset + len)" "8 * k = unat len"
  with physmap_loop_frame [of offset k "offset + len" be to "bs_base src + offset" "w_mem w"]
  show ?thesis by (auto simp: physmap_read_def)
next
  assume "offset + len \<le> offset"
  then have "physmap_loop be (offset + len) offset to (bs_base src + offset) (w_mem w) = Some (w_mem w)"
    by (subst physmap_loop.simps, intro if_not_P) (simp add: not_less)
  then show ?thesis by (simp add: physmap_read_def)
qed

interpretation physmap_src: boot_reader 8 "physmap_read be src pdata" "\<lambda>_. True" for be and src :: "'d bootsource_cfg" and pdata
proof unfold_locales
  fix offset len dest n x and w w' :: "'d world"
  assume a: "aligned 8 offset" "aligned 8 len" and r: "physmap_read be src pdata dest offset len w = Some (n, w')"
  show "n \<le> len" using physmap_read_frame [OF a, of be src pdata dest w] r by auto
  show "\<not> in_range x dest (unat len) \<Longrightarrow> w_mem w' x = w_mem w x"
    using physmap_read_frame [OF a, of be src pdata dest w] r by auto
qed simp

interpretation boilerplate_src: boot_reader 0 "boilerplate_read src pdata" "\<lambda>_. True" for src pdata
  by unfold_locales (auto simp: boilerplate_read_def)

section \<open>eeprom meets the contract\<close>

lemma eeprom_bytes_frame:
  "eeprom_bytes k hw base dst ret w = Some (ok, ret', w') \<Longrightarrow> unat ret + k < 2 ^ 32 \<Longrightarrow>
   unat ret \<le> unat ret' \<and> unat ret' \<le> unat ret + k \<and>
   (\<forall>x. \<not> in_range x dst k \<longrightarrow> w_mem w' x = w_mem w x)"
proof (induction k arbitrary: dst ret w)
  case 0
  then show ?case by simp
next
  case (Suc k)
  have r1: "unat (ret + 1) = unat ret + 1" using unat_add_small [of ret 1] Suc.prems(2) by simp
  show ?case
  proof (cases "ok = False \<and> ret' = ret \<and> w_mem w' = w_mem w")
    case True
    then show ?thesis by simp
  next
    case False
    then obtain v d where n: "eeprom_bytes k hw base (dst + 1) (ret + 1)
        (w\<lparr>w_mem := mem_write (w_mem w) dst [v], w_dev := d\<rparr>) = Some (ok, ret', w')"
      using Suc.prems(1) by (auto simp: Let_def split: option.splits prod.splits if_splits)
    from Suc.IH [OF n] r1 Suc.prems(2) have ih: "unat ret + 1 \<le> unat ret'" "unat ret' \<le> unat ret + 1 + k"
      "\<And>x. \<not> in_range x (dst + 1) k \<Longrightarrow> w_mem w' x = mem_write (w_mem w) dst [v] x" by auto
    have "w_mem w' x = w_mem w x" if "\<not> in_range x dst (Suc k)" for x
    proof -
      have "\<not> in_range x (dst + 1) k"
        using that in_range_add(1) [of x dst 1 k] Suc.prems(2) by auto
      moreover have "\<not> in_range x dst 1" using that by (auto simp: in_range_def)
      ultimately show ?thesis using ih(3) [of x] by (simp add: mem_write_out)
    qed
    then show ?thesis using ih(1,2) by auto
  qed
qed

lemma eeprom_chunk_frame:
  assumes "eeprom_read_chunk be hw src epd devaddr offset dst len w = Some (n, w')"
  shows "n \<le> len" "\<not> in_range x dst (unat len) \<Longrightarrow> w_mem w' x = w_mem w x"
proof -
  have "n \<le> len \<and> (\<not> in_range x dst (unat len) \<longrightarrow> w_mem w' x = w_mem w x)"
  proof (cases "n = 0 \<and> w_mem w' = w_mem w")
    case True
    then show ?thesis by simp
  next
    case False
    then obtain d ok w1 where b: "eeprom_bytes (unat len) hw (bs_base src) dst 0 (w\<lparr>w_dev := d\<rparr>) = Some (ok, n, w1)"
      "w_mem w' = w_mem w1"
      using assms by (auto simp: eeprom_read_chunk_def Let_def split: option.splits prod.splits if_splits)
    then show ?thesis using eeprom_bytes_frame [OF b(1)] by (auto simp: word_le_nat_alt)
  qed
  then show "n \<le> len" "\<not> in_range x dst (unat len) \<Longrightarrow> w_mem w' x = w_mem w x" by auto
qed

lemma eeprom_loop_frame:
  "eeprom_read_loop be hw src pdata dest offset len transferred w = Some (n, w') \<Longrightarrow>
   unat transferred + unat len < 2 ^ 32 \<Longrightarrow>
   unat n \<le> unat transferred + unat len \<and> (\<forall>x. \<not> in_range x dest (unat len) \<longrightarrow> w_mem w' x = w_mem w x)"
proof (induction be hw src pdata dest offset len transferred w rule: eeprom_read_loop.induct)
  case (1 be hw src pdata dest offset len transferred w)
  show ?case
  proof (cases "len = 0")
    case True
    then show ?thesis using "1.prems" by (simp add: eeprom_read_loop.simps)
  next
    case False
    define toread where "toread = (if len < EEPROM_PAGE_SIZE then len else EEPROM_PAGE_SIZE)"
    have le: "toread \<le> len" by (auto simp: toread_def)
    obtain actual w1 where c: "eeprom_read_chunk be hw src pdata (ucast (bs_slave_addr src)) (ucast offset) dest toread w
        = Some (actual, w1)"
      using "1.prems"(1) False
      by (subst (asm) eeprom_read_loop.simps) (auto simp: Let_def toread_def split: option.splits)
    note f = eeprom_chunk_frame [OF c]
    have step: "eeprom_read_loop be hw src pdata dest offset len transferred w =
        (if actual \<noteq> toread then Some (transferred + actual, w1)
         else eeprom_read_loop be hw src pdata (dest + toread) (offset + toread) (len - toread)
                (transferred + actual) w1)"
      using False c by (subst eeprom_read_loop.simps) (simp add: Let_def toread_def [symmetric])
    have al: "unat actual \<le> unat toread" "unat toread \<le> unat len"
      using f(1) le by (simp_all add: word_le_nat_alt)
    have ta: "unat (transferred + actual) = unat transferred + unat actual"
      using al "1.prems"(2) by (simp add: unat_word_ariths)
    have fr: "w_mem w1 x = w_mem w x" if "\<not> in_range x dest (unat len)" for x
      using that al f(2) [of x] by (auto simp: in_range_def)
    show ?thesis
    proof (cases "actual = toread")
      case False
      then show ?thesis using step "1.prems"(1) ta al fr by auto
    next
      case True
      have lt: "unat (len - toread) = unat len - unat toread" using le by (simp add: unat_sub)
      have n: "eeprom_read_loop be hw src pdata (dest + toread) (offset + toread) (len - toread)
                (transferred + actual) w1 = Some (n, w')" using step True "1.prems"(1) by simp
      have ih: "unat n \<le> unat (transferred + actual) + unat (len - toread)"
        "\<And>x. \<not> in_range x (dest + toread) (unat (len - toread)) \<Longrightarrow> w_mem w' x = w_mem w1 x"
        using "1.IH" [OF False toread_def c refl _ n] True ta lt al "1.prems"(2) by auto
      have "w_mem w' x = w_mem w x" if x: "\<not> in_range x dest (unat len)" for x
      proof -
        have "unat toread + unat (len - toread) = unat len" using lt al by simp
        then have "\<not> in_range x (dest + toread) (unat (len - toread))"
          using x in_range_add(1) [of x dest toread "unat (len - toread)"] unat_u32_less [of len] by auto
        then show ?thesis using ih(2) fr [OF x] by simp
      qed
      then show ?thesis using ih(1) ta lt al True by auto
    qed
  qed
qed

interpretation eeprom_src: boot_reader 0 "eeprom_read be hw src pdata" "\<lambda>_. True" for be hw and src :: "'d bootsource_cfg" and pdata
proof unfold_locales
  fix offset len dest n x and w w' :: "'d world"
  assume r: "eeprom_read be hw src pdata dest offset len w = Some (n, w')"
  have "unat n \<le> unat len \<and> (\<forall>x. \<not> in_range x dest (unat len) \<longrightarrow> w_mem w' x = w_mem w x)"
    using eeprom_loop_frame [OF r [unfolded eeprom_read_def]] by simp
  then show "n \<le> len" "\<not> in_range x dest (unat len) \<Longrightarrow> w_mem w' x = w_mem w x"
    by (auto simp: word_le_nat_alt)
qed simp


section \<open>spiflash meets the contract\<close>

lemma xfer_receive_cases:
  assumes "xfer_receive hw base put n s b d = (s', b', d')"
  shows "s' = s \<and> b' = b \<or> x_read s < n \<and> x_read s' = x_read s + 1 \<and> x_written s' = x_written s \<and>
     (\<exists>x. b' = put (x_read s) x b)"
  using assms unfolding xfer_receive_def Let_def by (auto split: if_splits prod.splits)

lemma xfer_send_cases:
  assumes "xfer_send hw base get n s b d = (s', d')"
  shows "s' = s \<or> x_written s < n \<and> x_written s' = x_written s + 1 \<and> x_read s' = x_read s"
  using assms unfolding xfer_send_def Let_def by (auto split: if_splits prod.splits)

lemma xfer_round_keeps:
  assumes "xfer_round hw base get put n s b d = (s', b', d')" "Q b" "x_read s \<le> n" "x_written s \<le> n"
    and "\<And>i x b. i < n \<Longrightarrow> Q b \<Longrightarrow> Q (put i x b)"
  shows "Q b' \<and> x_read s' \<le> n \<and> x_written s' \<le> n"
proof -
  obtain s1 d1 where r: "xfer_receive hw base put n s b d = (s1, b', d1)"
    and w: "xfer_send hw base get n s1 b' d1 = (s', d')"
    using assms(1) by (auto simp: xfer_round_def split: prod.splits)
  have "Q b' \<and> x_read s1 \<le> n \<and> x_written s1 \<le> n"
    using xfer_receive_cases [OF r] assms(2-5) by (auto simp: inc_le)
  then show ?thesis using xfer_send_cases [OF w] by (auto simp: inc_le)
qed

lemma xfer_loop_keeps:
  assumes "xfer_loop hw base get put n timeout s b d = Some r"
    and put: "\<And>i x b. i < n \<Longrightarrow> Q b \<Longrightarrow> Q (put i x b)"
  shows "Q b \<longrightarrow> x_read s \<le> n \<longrightarrow> x_written s \<le> n \<longrightarrow> (case r of (ret, b', d') \<Rightarrow> Q b' \<and> (ret = -1 \<or> ret = sint n))"
proof -
  let ?P = "\<lambda>hw base get put n timeout s b d r. (\<forall>i x b. i < n \<longrightarrow> Q b \<longrightarrow> Q (put i x b)) \<longrightarrow>
     Q b \<longrightarrow> x_read s \<le> n \<longrightarrow> x_written s \<le> n \<longrightarrow> (case r of (ret, b', d') \<Rightarrow> Q b' \<and> (ret = -1 \<or> ret = sint n))"
  have "?P hw base get put n timeout s b d r"
  proof (rule xfer_loop.raw_induct [of ?P, OF _ assms(1)], goal_cases)
    case (1 loop hw base get put n timeout s b d r)
    show ?case
    proof (intro impI)
      assume q: "\<forall>i x b. i < n \<longrightarrow> Q b \<longrightarrow> Q (put i x b)" "Q b" "x_read s \<le> n" "x_written s \<le> n"
      show "case r of (ret, b', d') \<Rightarrow> Q b' \<and> (ret = -1 \<or> ret = sint n)"
      proof (cases "x_read s < n \<or> x_written s < n")
        case True
        obtain s1 b1 d1 where r1: "xfer_round hw base get put n s b d = (s1, b1, d1)" by (metis prod_cases3)
        have k: "Q b1 \<and> x_read s1 \<le> n \<and> x_written s1 \<le> n"
          by (rule xfer_round_keeps [OF r1]) (use q in auto)
        obtain late d2 where l: "(if timeout \<noteq> 0 then
             let (now, d) = rumboot_platform_get_uptime hw d1 in (now - x_lastop s1 > timeout, d)
           else (False, d1)) = (late, d2)" by fastforce
        have st: "(if late then Some (-1, b1, d2) else loop hw base get put n timeout s1 b1 d2) = Some r"
          using "1"(2) True by (simp only: if_True r1 Let_def prod.case l [unfolded Let_def])
        show ?thesis
        proof (cases late)
          case True
          then have "r = (-1, b1, d2)" using st by simp
          then show ?thesis using k by simp
        next
          case False
          then have "loop hw base get put n timeout s1 b1 d2 = Some r" using st by simp
          from "1"(1) [OF this] show ?thesis using q(1) k by blast
        qed
      next
        case False
        then have "x_read s = n" using q(3) by simp
        then show ?thesis using "1"(2) False q(2) by auto
      qed
    qed
  qed
  then show ?thesis using put by blast
qed

lemma pl022_xfer_keeps:
  assumes "pl022_xfer_timeout hw base get put n timeout b d = Some (ret, b', d')" "Q b"
    and "\<And>i x b. i < n \<Longrightarrow> Q b \<Longrightarrow> Q (put i x b)"
  shows "Q b' \<and> (ret = -1 \<or> ret = sint n)"
proof -
  obtain now d1 where "xfer_loop hw base get put n timeout \<lparr>x_written = 0, x_read = 0, x_lastop = now\<rparr> b d1
      = Some (ret, b', d')"
    using assms(1) by (auto simp: pl022_xfer_timeout_def split: prod.splits)
  from xfer_loop_keeps [where Q = Q, OF this assms(3)] assms(2) show ?thesis by simp
qed

lemma in_range_index: "i < n \<Longrightarrow> \<not> in_range x a (unat n) \<Longrightarrow> mem_write m (a + i) [v] x = m x"
  by (rule mem_write_out) (auto simp: in_range_def word_less_nat_alt unsigned_eq_0_iff)

definition internal_cs :: "'d bootsource_cfg \<Rightarrow> 'd bootsource_cfg" where
  "internal_cs src = src\<lparr>bs_chipselect := None\<rparr>"

lemma spiflash_read_frame:
  assumes "spiflash_read hw (internal_cs src) pdata to offset len w = Some (n, w')"
  shows "n = len" "\<not> in_range x to (unat len) \<Longrightarrow> w_mem w' x = w_mem w x"
proof -
  define d0 where "d0 = pl022_internal_cs hw (bs_base src) 0 (w_dev w)"
  have cs: "spi_cs hw (internal_cs src) pdata k v = v\<lparr>w_dev := pl022_internal_cs hw (bs_base src) k (w_dev v)\<rparr>" for k v
    by (simp add: spi_cs_def internal_cs_def)
  have base: "bs_base (internal_cs src) = bs_base src" by (simp add: internal_cs_def)
  obtain w1 where f: "spiflash_read_flash hw (bs_base src) offset to len (w\<lparr>w_dev := d0\<rparr>) = Some w1"
    and w1: "n = len" "w' = w1\<lparr>w_dev := pl022_internal_cs hw (bs_base src) 1 (w_dev w1)\<rparr>"
    using assms unfolding spiflash_read_def cs base d0_def by (auto split: option.splits)
  have "\<exists>t d. \<exists>ret m d'. pl022_xfer_timeout hw (bs_base src) (\<lambda>i b. 0xff) (\<lambda>i x m. mem_write m (to + i) [x]) len
      t (w_mem w) d = Some (ret, m, d') \<and> w_mem w1 = m"
    using f unfolding spiflash_read_flash_def Let_def by (auto split: option.splits) blast
  then obtain t d ret m d' where x: "pl022_xfer_timeout hw (bs_base src) (\<lambda>i b. 0xff)
      (\<lambda>i x m. mem_write m (to + i) [x]) len t (w_mem w) d = Some (ret, m, d')"
    and r: "n = len" "w_mem w' = m" using w1 by auto
  show "n = len" by (rule r)
  show "w_mem w' x = w_mem w x" if "\<not> in_range x to (unat len)"
    using pl022_xfer_keeps [OF x, of "\<lambda>m. m x = w_mem w x"] in_range_index [OF _ that] r(2) by simp
qed

interpretation spiflash_src: boot_reader 0 "spiflash_read hw (internal_cs src) pdata" "\<lambda>_. True"
  for hw and src :: "'d bootsource_cfg" and pdata
proof unfold_locales
  fix offset len dest n x and w w' :: "'d world"
  assume r: "spiflash_read hw (internal_cs src) pdata dest offset len w = Some (n, w')"
  show "n \<le> len" using spiflash_read_frame(1) [OF r] by simp
  show "\<not> in_range x dest (unat len) \<Longrightarrow> w_mem w' x = w_mem w x" by (rule spiflash_read_frame(2) [OF r])
qed simp


section \<open>Loading from each kind of source\<close>

lemma header_read_size_0: "header_read_size 0 = 64"
  by (simp add: header_read_size_def sizeof_hdr_def)

lemma header_read_size_8: "header_read_size 8 = 64"
  by (simp add: header_read_size_def sizeof_hdr_def round_up_to_align_def)

lemma reads_physmap:
  "reads_with 8 (physmap_read be (bs_cfg src) pdata) (src\<lparr>bs_plugin := g_bootmodule_physmap be\<rparr>) pdata"
  by (simp add: reads_with_def g_bootmodule_physmap_def)

lemma reads_eeprom:
  "reads_with 0 (eeprom_read be hw (bs_cfg src) pdata) (src\<lparr>bs_plugin := g_bootmodule_eeprom be hw\<rparr>) pdata"
  by (simp add: reads_with_def g_bootmodule_eeprom_def)

lemma reads_spiflash:
  "reads_with 0 (spiflash_read hw (internal_cs cfg) pdata)
     (src\<lparr>bs_cfg := internal_cs cfg, bs_plugin := g_bootmodule_spiflash be hw\<rparr>) pdata"
  by (simp add: reads_with_def g_bootmodule_spiflash_def)

text \<open>The entry point test of the platform looks at the header only.\<close>

definition entry_test_local :: "'d platform \<Rightarrow> u32 \<Rightarrow> bool" where
  "entry_test_local p hdr \<longleftrightarrow> (\<forall>m m'. mem_read m hdr 64 = mem_read m' hdr 64 \<longrightarrow>
     pf_check_entry_points p m hdr = pf_check_entry_points p m' hdr)"

lemma entry_test_localD:
  "entry_test_local p hdr \<Longrightarrow> mem_read m hdr 64 = mem_read m' hdr 64 \<Longrightarrow>
   pf_check_entry_points p m hdr = pf_check_entry_points p m' hdr"
  unfolding entry_test_local_def by blast

text \<open>C5: Loading an image from memory-mapped NOR flash is safe: whatever the flash contains, the
  loader writes nowhere but in the \<open>maxsize\<close> bytes it was given, and it reports success only
  when the header and the data that are then in memory both pass validation.\<close>

theorem nor_load_safe:
  assumes "bootsource_load_img p (src\<lparr>bs_plugin := g_bootmodule_physmap be\<rparr>) pdata hdr maxsize offset w
      = Some (ret, offset', w')"
    and "64 \<le> unat maxsize" "entry_test_local p hdr"
  shows "(\<forall>x. \<not> in_range x hdr (unat maxsize) \<longrightarrow> w_mem w' x = w_mem w x) \<and>
    (ret = 0 \<longrightarrow> 0 \<le> rumboot_bootimage_check_header p (w_mem w') hdr \<and>
       rumboot_bootimage_check_data p (w_mem w') hdr = 0)"
proof (intro conjI allI impI)
  note rd = reads_physmap [of be src pdata]
  show "w_mem w' x = w_mem w x" if "\<not> in_range x hdr (unat maxsize)" for x
    by (rule physmap_src.load_img_confined [OF rd TrueI header_read_size_8 assms(2,1) that])
  assume z: "ret = 0"
  note load = assms(1) [unfolded z]
  show "0 \<le> rumboot_bootimage_check_header p (w_mem w') hdr"
    by (rule physmap_src.load_img_validated(1) [OF rd TrueI entry_test_localD [OF assms(3)] load])
  show "rumboot_bootimage_check_data p (w_mem w') hdr = 0"
    by (rule physmap_src.load_img_validated(2) [OF rd TrueI entry_test_localD [OF assms(3)] load])
qed

text \<open>C6: Loading an image from an I2C EEPROM or from SPI flash behind the internal chip select is
  safe in the same sense, whatever the bus does: the registers may answer anything, time out,
  or report errors at any point.\<close>

theorem serial_load_safe:
  assumes "source = src\<lparr>bs_plugin := g_bootmodule_eeprom be hw\<rparr> \<or>
      source = src\<lparr>bs_cfg := internal_cs cfg, bs_plugin := g_bootmodule_spiflash be hw\<rparr>"
    and load: "bootsource_load_img p source pdata hdr maxsize offset w = Some (ret, offset', w')"
    and "64 \<le> unat maxsize" "entry_test_local p hdr"
  shows "(\<forall>x. \<not> in_range x hdr (unat maxsize) \<longrightarrow> w_mem w' x = w_mem w x) \<and>
    (ret = 0 \<longrightarrow> 0 \<le> rumboot_bootimage_check_header p (w_mem w') hdr \<and>
       rumboot_bootimage_check_data p (w_mem w') hdr = 0)"
  using assms(1)
proof
  assume s: "source = src\<lparr>bs_plugin := g_bootmodule_eeprom be hw\<rparr>"
  note rd = reads_eeprom [of be hw src pdata]
  show ?thesis
    using eeprom_src.load_img_confined [OF rd TrueI header_read_size_0 assms(3) load [unfolded s]]
      eeprom_src.load_img_validated [OF rd TrueI entry_test_localD [OF assms(4)]] load s by blast
next
  assume s: "source = src\<lparr>bs_cfg := internal_cs cfg, bs_plugin := g_bootmodule_spiflash be hw\<rparr>"
  note rd = reads_spiflash [where hw = hw and cfg = cfg and pdata = pdata and src = src and be = be]
  show ?thesis
    using spiflash_src.load_img_confined [OF rd TrueI header_read_size_0 assms(3) load [unfolded s]]
      spiflash_src.load_img_validated [OF rd TrueI entry_test_localD [OF assms(4)]] load s by blast
qed

section \<open>What physmap copies\<close>

lemma store64_load64: "store64 be dest (load64 be m from) m = mem_write m dest (mem_read m from 8)"
  by (simp add: store64_def load64_def bytes_of_u64_of)

lemma separate_tail:
  assumes "separate a (8 + n) b (8 + n)" "0 < n"
  shows "separate (a + 8) n b 8" "separate (a + 8) n (b + 8) n" "separate a 8 b 8"
proof -
  have "unat (a + 8) = unat a + 8" "unat (b + 8) = unat b + 8"
    using unat_add_small [of a 8] unat_add_small [of b 8] assms by (auto simp: separate_def)
  then show "separate (a + 8) n b 8" "separate (a + 8) n (b + 8) n" "separate a 8 b 8"
    using assms(1) by (auto simp: separate_def)
qed

lemma physmap_loop_copies:
  "unat i + 8 * k = unat limit \<Longrightarrow> separate from (8 * k) dest (8 * k) \<Longrightarrow>
   physmap_loop be limit i dest from m = Some (memmove dest from (8 * k) m)"
proof (induction k arbitrary: i dest "from" m)
  case 0
  then show ?case by (subst physmap_loop.simps) (simp add: word_less_nat_alt memmove_def)
next
  case (Suc k)
  have "unat limit < 4294967296" by (rule unat_u32_less)
  moreover have "unat i + (8 + 8 * k) = unat limit" using Suc.prems(1) by simp
  ultimately have k32: "8 + 8 * k < 4294967296" by linarith
  have i8: "unat (i + 8) = unat i + 8" "i < limit"
    using unat_add_small [of i 8] Suc.prems(1) \<open>unat limit < _\<close> by (simp_all add: word_less_nat_alt del: unat_u32_less)
  let ?m = "mem_write m dest (mem_read m from 8)"
  have step: "physmap_loop be limit i dest from m = physmap_loop be limit (i + 8) (dest + 8) (from + 8) ?m"
    using i8(2) by (subst physmap_loop.simps) (simp add: store64_load64)
  show ?case
  proof (cases "k = 0")
    case True
    then show ?thesis unfolding step using i8 Suc.prems(1)
      by (subst physmap_loop.simps) (simp add: word_less_nat_alt memmove_def)
  next
    case False
    note sep = separate_tail [of "from" "8 * k" dest, OF Suc.prems(2) [unfolded mult_Suc_right]] 
    have "physmap_loop be limit (i + 8) (dest + 8) (from + 8) ?m = Some (memmove (dest + 8) (from + 8) (8 * k) ?m)"
      by (rule Suc.IH) (use i8 Suc.prems(1) sep False in auto)
    moreover have "mem_read ?m (from + 8) (8 * k) = mem_read m (from + 8) (8 * k)"
      by (rule mem_read_write_separate) (use sep False in simp)
    moreover have "mem_read m from (8 + 8 * k) = mem_read m from 8 @ mem_read m (from + 8) (8 * k)"
      using mem_read_add [of m "from" 8 "8 * k"] by simp
    ultimately show ?thesis unfolding step memmove_def
      using mem_write_twice [of "mem_read m from 8" "mem_read m (from + 8) (8 * k)" "dest + 8" dest m] k32 by simp
  qed
qed

text \<open>An aligned read from memory-mapped flash terminates, reports the whole length, and copies
  exactly the requested bytes of the flash to the destination, in either byte order.\<close>

theorem physmap_read_copies:
  assumes "aligned 8 offset" "aligned 8 len" "unat offset + unat len < 2 ^ 32"
    and "separate (bs_base src + offset) (unat len) to (unat len)"
  shows "physmap_read be src pdata to offset len w
    = Some (len, w\<lparr>w_mem := memmove to (bs_base src + offset) (unat len) (w_mem w)\<rparr>)"
proof -
  have ol: "unat (offset + len) = unat offset + unat len" using assms(3) by (simp add: unat_word_ariths)
  have "unat len mod 8 = 0" using assms(2) unfolding aligned_unat by simp
  then have k: "8 * (unat len div 8) = unat len" using mult_div_mod_eq [of 8 "unat len"] by linarith
  show ?thesis
    using physmap_loop_copies [of offset "unat len div 8" "offset + len" "bs_base src + offset" to be "w_mem w"]
      assms(4) by (simp add: physmap_read_def k ol)
qed


section \<open>Witnesses\<close>

text \<open>NOR flash at \<open>0x20000000\<close> that holds the demonstration image.\<close>

definition nor_mem :: mem where "nor_mem = mem_write (\<lambda>_. 0) 0x20000000 demo_bytes"

definition nor_cfg :: "unit bootsource_cfg" where
  "nor_cfg = \<lparr>bs_addr = 0x7000, bs_base = 0x20000000, bs_offset = 0, bs_base_freq_khz = 0,
     bs_iface_freq_khz = 0, bs_slave_addr = 0, bs_chipselect = None\<rparr>"

definition nor_loaded :: mem where "nor_loaded = memmove 0x1000 0x20000000 72 nor_mem"

theorem physmap_read_copies_witness:
  "physmap_read False nor_cfg 0 0x1000 0 64 \<lparr>w_mem = nor_mem, w_dev = ()\<rparr>
     = Some (64, \<lparr>w_mem = memmove 0x1000 0x20000000 64 nor_mem, w_dev = ()\<rparr>)"
  using physmap_read_copies [of 0 64 nor_cfg "0x1000" False 0 "\<lparr>w_mem = nor_mem, w_dev = ()\<rparr>"]
  by (simp add: aligned_def nor_cfg_def separate_def)

lemma nor_reads:
  "physmap_read False nor_cfg 0 0x1000 0 64 \<lparr>w_mem = nor_mem, w_dev = ()\<rparr>
     = Some (64, \<lparr>w_mem = memmove 0x1000 0x20000000 64 nor_mem, w_dev = ()\<rparr>)"
  "physmap_read False nor_cfg 0 0x1040 64 8 \<lparr>w_mem = memmove 0x1000 0x20000000 64 nor_mem, w_dev = ()\<rparr>
     = Some (8, \<lparr>w_mem = nor_loaded, w_dev = ()\<rparr>)"
proof -
  have l: "physmap_loop False 64 0 0x1000 0x20000000 nor_mem = Some (memmove 0x1000 0x20000000 64 nor_mem)"
    using physmap_loop_copies [of 0 8 64 "0x20000000" "0x1000" False nor_mem] by (simp add: separate_def)
  show "physmap_read False nor_cfg 0 0x1000 0 64 \<lparr>w_mem = nor_mem, w_dev = ()\<rparr>
     = Some (64, \<lparr>w_mem = memmove 0x1000 0x20000000 64 nor_mem, w_dev = ()\<rparr>)"
    by (simp add: physmap_read_def nor_cfg_def l)
  let ?m = "memmove 0x1000 0x20000000 64 nor_mem"
  have "mem_read ?m 0x20000040 8 = mem_read nor_mem 0x20000040 8"
    unfolding memmove_def by (rule mem_read_write_separate) (simp add: separate_def)
  moreover have "mem_read nor_mem 0x20000000 72 = mem_read nor_mem 0x20000000 64 @ mem_read nor_mem 0x20000040 8"
    using mem_read_add [of nor_mem "0x20000000" 64 8] by simp
  ultimately have "memmove 0x1040 0x20000040 8 ?m = nor_loaded"
    unfolding memmove_def nor_loaded_def
    using mem_write_twice [of "mem_read nor_mem 0x20000000 64" "mem_read nor_mem 0x20000040 8" "0x1040" "0x1000" nor_mem]
    by simp
  then have "physmap_loop False 72 64 0x1040 0x20000040 ?m = Some nor_loaded"
    using physmap_loop_copies [of 64 1 72 "0x20000040" "0x1040" False ?m] by (simp add: separate_def)
  then show "physmap_read False nor_cfg 0 0x1040 64 8 \<lparr>w_mem = ?m, w_dev = ()\<rparr> = Some (8, \<lparr>w_mem = nor_loaded, w_dev = ()\<rparr>)"
    by (simp add: physmap_read_def nor_cfg_def)
qed

lemma nor_same:
  "mem_read (memmove 0x1000 0x20000000 64 nor_mem) 0x1000 64 = mem_read demo_mem 0x1000 64"
  "mem_read nor_loaded 0x1000 68 = mem_read demo_mem 0x1000 68"
proof -
  have n: "mem_read nor_mem 0x20000000 k = take k demo_bytes" if "k \<le> 68" for k
    using mem_read_write_part [of 0 k demo_bytes "\<lambda>_. 0" "0x20000000"] that by (simp add: nor_mem_def)
  have d: "mem_read demo_mem 0x1000 k = take k demo_bytes" if "k \<le> 68" for k
    using demo_read [of 0 k] that by simp
  show "mem_read (memmove 0x1000 0x20000000 64 nor_mem) 0x1000 64 = mem_read demo_mem 0x1000 64"
    using mem_read_write_same [of "mem_read nor_mem 0x20000000 64" 64 nor_mem "0x1000"] n [of 64] d [of 64]
    by (simp add: memmove_def)
  have "mem_read nor_loaded 0x1000 68 = take 68 (mem_read nor_mem 0x20000000 72)"
    using mem_read_write_part [of 0 68 "mem_read nor_mem 0x20000000 72" nor_mem "0x1000"]
    by (simp add: nor_loaded_def memmove_def)
  then show "mem_read nor_loaded 0x1000 68 = mem_read demo_mem 0x1000 68"
    using n [of 68] d [of 68] by (simp add: mem_read_take)
qed

lemma check_data_local:
  assumes "mem_read m hdr (64 + n) = mem_read m' hdr (64 + n)"
    and n: "n = unat (hdr_item32 p m (hdr + hdr_datalen) (hdr_swap p m hdr))"
  shows "rumboot_bootimage_check_data p m hdr = rumboot_bootimage_check_data p m' hdr"
proof -
  have rd: "mem_read m (hdr + of_nat i) k = mem_read m' (hdr + of_nat i) k" if "i + k \<le> 64 + n" for i k
  proof -
    have "mem_read m (hdr + of_nat i) k = take k (drop i (mem_read m hdr (64 + n)))"
      using that by (simp add: mem_read_drop mem_read_take)
    also have "\<dots> = mem_read m' (hdr + of_nat i) k"
      unfolding assms(1) using that by (simp add: mem_read_drop mem_read_take)
    finally show ?thesis .
  qed
  have it: "hdr_item32 p m (hdr + of_nat i) s = hdr_item32 p m' (hdr + of_nat i) s" if "i + 4 \<le> 64" for i s
    by (rule hdr_item32_cong) (rule rd, use that in simp)
  have "hdr_swap p m hdr = hdr_swap p m' hdr"
    using rd [of 0 4] by (simp add: hdr_swap_def load32_def)
  then show ?thesis
    using it [of 12] it [of 8] rd [of 64 n] n
    by (simp add: rumboot_bootimage_check_data_def Let_def hdr_offsets)
qed

definition nor_source :: "unit rumboot_bootsource" where
  "nor_source = (absent_source\<lparr>bs_cfg := nor_cfg\<rparr>)\<lparr>bs_plugin := g_bootmodule_physmap False\<rparr>"

lemma nor_source_simps:
  "bs_plugin nor_source = g_bootmodule_physmap False" "bs_cfg nor_source = nor_cfg"
  "bm_align (bs_plugin nor_source) = 8"
  by (simp_all add: nor_source_def g_bootmodule_physmap_def)

lemma nor_bootsource_reads:
  "bootsource_read nor_source 0 0x1000 0 64 \<lparr>w_mem = nor_mem, w_dev = ()\<rparr>
     = Some (64, \<lparr>w_mem = memmove 0x1000 0x20000000 64 nor_mem, w_dev = ()\<rparr>)"
  "bootsource_read nor_source 0 0x1040 64 8 \<lparr>w_mem = memmove 0x1000 0x20000000 64 nor_mem, w_dev = ()\<rparr>
     = Some (8, \<lparr>w_mem = nor_loaded, w_dev = ()\<rparr>)"
  by (simp_all add: bootsource_read_def nor_source_simps g_bootmodule_physmap_def nor_reads)

lemma nor_header_ok:
  "rumboot_bootimage_check_header demo_platform (memmove 0x1000 0x20000000 64 nor_mem) 0x1000 = 4"
  using check_header_local [OF nor_same(1), of demo_platform] demo_accepted
  by (simp add: demo_platform_def)

lemma demo_datalen:
  "unat (hdr_item32 demo_platform demo_mem (0x1000 + hdr_datalen) (hdr_swap demo_platform demo_mem 0x1000)) = 4"
  using demo_words(2) by (simp add: demo_swap hdr_item32_def rumboot_bootimage_header_item32_def hdr_datalen_def)
    (simp add: demo_platform_def)

lemma nor_data_ok: "rumboot_bootimage_check_data demo_platform nor_loaded 0x1000 = 0"
proof -
  have "mem_read demo_mem 0x1000 (64 + 4) = mem_read nor_loaded 0x1000 (64 + 4)"
    using nor_same(2) by simp
  from check_data_local [OF this demo_datalen [symmetric]] demo_data_accepted show ?thesis by simp
qed

lemma nor_loads:
  "bootsource_load_img demo_platform nor_source 0 0x1000 0x100 0 \<lparr>w_mem = nor_mem, w_dev = ()\<rparr>
     = Some (0, 72, \<lparr>w_mem = nor_loaded, w_dev = ()\<rparr>)"
proof -
  have s64: "(of_nat sizeof_hdr :: u32) = 64" by (simp add: sizeof_hdr_def)
  have r8: "round_up_to_align 4 8 = 8" by (simp add: round_up_to_align_def)
  have c: "((64 :: u32) < 64) = False" "((4 :: int) < 0) = False" "((0x100 :: u32) < 8 + 64) = False"
    "(0x1000 :: u32) + hdr_data + (64 - 64) = 0x1040" "(0 :: u32) + 64 = 64" "(64 :: u32) + 8 = 72"
    by (simp_all add: hdr_data_def)
  have wm: "w_mem \<lparr>w_mem = x, w_dev = ()\<rparr> = x" for x by simp
  show ?thesis
    unfolding bootsource_load_img_def nor_source_simps(3) Let_def s64
      header_read_size_def [of 8, unfolded Let_def s64, symmetric] header_read_size_8
    by (simp only: nor_bootsource_reads nor_header_ok nor_data_ok wm r8 c option.case prod.case if_False of_int_numeral)
qed

theorem nor_load_safe_witness:
  "nor_loaded 0x2000 = nor_mem 0x2000 \<and>
    0 \<le> rumboot_bootimage_check_header demo_platform nor_loaded 0x1000 \<and>
    rumboot_bootimage_check_data demo_platform nor_loaded 0x1000 = 0"
proof -
  have e: "entry_test_local demo_platform 0x1000" by (simp add: entry_test_local_def demo_platform_def)
  show ?thesis
    using nor_load_safe [OF nor_loads [unfolded nor_source_def] _ e] by (simp add: in_range_def)
qed

text \<open>An EEPROM that does not acknowledge its address.\<close>

definition nack_hw :: "unit hw" where
  "nack_hw = \<lparr>hw_read32 = (\<lambda>a d. (0x200, d)), hw_write32 = (\<lambda>v a d. d), hw_uptime = (\<lambda>d. (0, d))\<rparr>"

definition eeprom_source :: "unit rumboot_bootsource" where
  "eeprom_source = absent_source\<lparr>bs_plugin := g_bootmodule_eeprom False nack_hw\<rparr>"

lemma eeprom_nack:
  "bootsource_load_img demo_platform eeprom_source 0 0x1000 0x100 0 \<lparr>w_mem = nor_mem, w_dev = ()\<rparr>
     = Some (- EIO, 0, \<lparr>w_mem = nor_mem, w_dev = ()\<rparr>)"
proof -
  have io: "ioread32 nack_hw a d = (0x200, d)" "iowrite32 nack_hw v a d = d"
    "rumboot_platform_get_uptime nack_hw d = (0, d)" for a v d
    by (simp_all add: ioread32_def iowrite32_def rumboot_platform_get_uptime_def nack_hw_def)
  have w: "loop_until_timeout nack_hw 100 (eeprom_wait_sent nack_hw base) d = Some (Some False, d)" for base d
  proof -
    have "loop_until_from nack_hw 0 100 (eeprom_wait_sent nack_hw base) d = Some (Some False, d)"
      by (subst loop_until_from.simps) (simp add: io eeprom_wait_sent_def iobit_def i2c_is_nack_def BIT_def)
    then show ?thesis by (simp add: loop_until_timeout_def io)
  qed
  have c: "eeprom_read_chunk False nack_hw src epd devaddr offset dst len v = Some (0, v)" for src epd devaddr offset dst len v
    by (simp add: eeprom_read_chunk_def io w i2c_stat_rst_def Let_def)
  have "eeprom_read_loop False nack_hw src pdata dest offset 64 0 v = Some (0, v)" for src pdata dest offset v
    by (subst eeprom_read_loop.simps) (simp add: c EEPROM_PAGE_SIZE_def Let_def)
  then show ?thesis
    by (simp add: bootsource_load_img_def bootsource_read_def eeprom_source_def g_bootmodule_eeprom_def
        eeprom_read_def sizeof_hdr_def)
qed

theorem serial_load_safe_witness:
  "\<exists>w. bootsource_load_img demo_platform eeprom_source 0 0x1000 0x100 0 \<lparr>w_mem = nor_mem, w_dev = ()\<rparr>
     = Some (- EIO, 0, w) \<and> w_mem w 0x2000 = nor_mem 0x2000"
proof -
  have e: "entry_test_local demo_platform 0x1000" by (simp add: entry_test_local_def demo_platform_def)
  show ?thesis
    using serial_load_safe [OF disjI1 [OF eeprom_source_def] eeprom_nack _ e] eeprom_nack
    by (simp add: in_range_def)
qed

end
