(* ===== verification/Xmodem.thy ===== *)
theory Xmodem
  imports Crc C_Memory
begin

text \<open>
  XMODEM transfers, \<open>src/lib/xmodem.c\<close> and \<open>include/rumboot/xmodem.h\<close>. The serial line is a state
  \<open>'d\<close> with \<open>getchar\<close>, which answers a character or a negative number at a timeout, and
  \<open>putchar\<close>. Packets go to a callback on a state \<open>'b\<close> of their receiver, as in the C code;
  \<open>xmodem_get\<close> is its instance for memory. \<open>char_signed\<close> says whether plain \<open>char\<close> is signed
  on the target. \<open>None\<close> is a line that never falls silent.
\<close>

section \<open>Data\<close>

record 'd serial =
  s_getchar :: "u32 \<Rightarrow> 'd \<Rightarrow> int \<times> 'd"
  s_putchar :: "u8 \<Rightarrow> 'd \<Rightarrow> 'd"

definition SOH :: int where "SOH = 0x01"
definition STX :: int where "STX = 0x02"
definition EOT :: int where "EOT = 0x04"
definition ACK :: int where "ACK = 0x06"
definition NAK :: int where "NAK = 0x15"
definition CAN :: int where "CAN = 0x18"
definition CTRLZ :: int where "CTRLZ = 0x1A"
definition XMODEM_TIMEOUT_DELAY :: u32 where "XMODEM_TIMEOUT_DELAY = 1000000"
definition XMODEM_RETRY_LIMIT :: int where "XMODEM_RETRY_LIMIT = 128"
definition XMODEM_ERROR_REMOTECANCEL :: int where "XMODEM_ERROR_REMOTECANCEL = -1"
definition XMODEM_ERROR_OUTOFSYNC :: int where "XMODEM_ERROR_OUTOFSYNC = -2"
definition XMODEM_ERROR_RETRYEXCEED :: int where "XMODEM_ERROR_RETRYEXCEED = -3"
definition XMODEM_BUFFER_SIZE :: nat where "XMODEM_BUFFER_SIZE = 1024"

lemmas xmodem_chars = SOH_def STX_def EOT_def ACK_def NAK_def CAN_def CTRLZ_def

text \<open>\<open>response\<close>, \<open>seqnum\<close>, \<open>pktsize\<close>, \<open>crcflag\<close>, \<open>retry\<close>, \<open>pos\<close> and \<open>totalbytes\<close> of the receiver.\<close>

record xmodem_rx =
  rx_response :: u8
  rx_seqnum :: u8
  rx_pktsize :: nat
  rx_crcflag :: bool
  rx_retry :: u8
  rx_pos :: u32
  rx_totalbytes :: u32

section \<open>Checksums\<close>

definition xmodem_chksum :: "bool \<Rightarrow> u8 list \<Rightarrow> nat \<Rightarrow> bool" where
  "xmodem_chksum crcflag buffer len =
     (if crcflag then
        foldl crc_xmodem_update 0 (take len buffer)
          = push_bit 8 (ucast (buffer ! len)) + ucast (buffer ! (len + 1))
      else foldl (+) 0 (take len buffer) = buffer ! len)"

section \<open>Receiving\<close>

partial_function (option) xmodem_flush_input :: "'d serial \<Rightarrow> 'd \<Rightarrow> 'd option" where
  "xmodem_flush_input line d =
     (let (c, d) = s_getchar line (XMODEM_TIMEOUT_DELAY div 2) d in
      if c \<ge> 0 then xmodem_flush_input line d else Some d)"

text \<open>The loop that fills \<open>xmbuf\<close> after its first byte; \<open>None\<close> in the first component is a timeout.\<close>

fun xmodem_fill :: "nat \<Rightarrow> 'd serial \<Rightarrow> 'd \<Rightarrow> u8 list option \<times> 'd" where
  "xmodem_fill 0 line d = (Some [], d)"
| "xmodem_fill (Suc n) line d =
     (let (c, d) = s_getchar line XMODEM_TIMEOUT_DELAY d in
      if c \<ge> 0 then
        (case xmodem_fill n line d of
           (Some bs, d) \<Rightarrow> (Some (of_int c # bs), d)
         | (None, d) \<Rightarrow> (None, d))
      else (None, d))"

definition xmodem_cancel3 :: "'d serial \<Rightarrow> 'd \<Rightarrow> 'd" where
  "xmodem_cancel3 line d =
     s_putchar line (of_int CAN) (s_putchar line (of_int CAN) (s_putchar line (of_int CAN) d))"

text \<open>\<open>retry > 0\<close> for a \<open>char\<close>.\<close>

definition retry_left :: "bool \<Rightarrow> u8 \<Rightarrow> bool" where
  "retry_left char_signed retry = (if char_signed then sint retry > 0 else uint retry > 0)"

text \<open>Flush, then finish with an error code or a length.\<close>

definition xmodem_leave ::
  "'d serial \<Rightarrow> ('d \<Rightarrow> 'd) \<Rightarrow> int \<Rightarrow> 'b \<Rightarrow> 'd \<Rightarrow> ((int + xmodem_rx) \<times> 'b \<times> 'd) option" where
  "xmodem_leave line after ret b d =
     map_option (\<lambda>d. (Inl ret, b, after d)) (xmodem_flush_input line d)"

text \<open>A packet that was not received, or was damaged: one retry less, and \<open>NAK\<close>.\<close>

definition xmodem_nak ::
  "'d serial \<Rightarrow> xmodem_rx \<Rightarrow> 'b \<Rightarrow> 'd \<Rightarrow> ((int + xmodem_rx) \<times> 'b \<times> 'd) option" where
  "xmodem_nak line s b d =
     map_option (\<lambda>d. (Inr (s\<lparr>rx_retry := rx_retry s - 1, rx_response := of_int NAK\<rparr>), b, d))
       (xmodem_flush_input line d)"

text \<open>The part of the loop after the first character of a packet.\<close>

definition xmodem_packet ::
  "(u32 \<Rightarrow> u8 list \<Rightarrow> 'b \<Rightarrow> 'b) \<Rightarrow> 'd serial \<Rightarrow> xmodem_rx \<Rightarrow> 'b \<Rightarrow> 'd
     \<Rightarrow> ((int + xmodem_rx) \<times> 'b \<times> 'd) option" where
  "xmodem_packet recv_cb line s b d =
     (let s = (if rx_response s = 0x43 then s\<lparr>rx_crcflag := True\<rparr> else s) in
      case xmodem_fill (rx_pktsize s + of_bool (rx_crcflag s) + 3) line d of
        (None, d) \<Rightarrow> xmodem_nak line s b d
      | (Some buf, d) \<Rightarrow>
          if buf ! 0 = NOT (buf ! 1) \<and> xmodem_chksum (rx_crcflag s) (drop 2 buf) (rx_pktsize s) then
            (if buf ! 0 = rx_seqnum s then
               Some (Inr (s\<lparr>rx_pos := rx_pos s + of_nat (rx_pktsize s),
                            rx_totalbytes := rx_totalbytes s + of_nat (rx_pktsize s),
                            rx_seqnum := rx_seqnum s + 1,
                            rx_retry := of_int XMODEM_RETRY_LIMIT,
                            rx_response := of_int ACK\<rparr>),
                     recv_cb (rx_pos s) (take (rx_pktsize s) (drop 2 buf)) b, d)
             else if buf ! 0 = rx_seqnum s - 1 then Some (Inr (s\<lparr>rx_response := of_int ACK\<rparr>), b, d)
             else xmodem_leave line (xmodem_cancel3 line) XMODEM_ERROR_OUTOFSYNC b d)
          else xmodem_nak line s b d)"

text \<open>One round of the loop of \<open>xmodem_get_async\<close>.\<close>

definition xmodem_round ::
  "(u32 \<Rightarrow> u8 list \<Rightarrow> 'b \<Rightarrow> 'b) \<Rightarrow> 'd serial \<Rightarrow> xmodem_rx \<Rightarrow> 'b \<Rightarrow> 'd
     \<Rightarrow> ((int + xmodem_rx) \<times> 'b \<times> 'd) option" where
  "xmodem_round recv_cb line s b d =
     (let d = (if rx_response s \<noteq> 0 then s_putchar line (rx_response s) d else d);
          (c, d) = s_getchar line XMODEM_TIMEOUT_DELAY d
      in if c < 0 then
           Some (Inr (s\<lparr>rx_retry := rx_retry s - 1,
                        rx_response := (if rx_response s \<noteq> 0x43 then 0 else rx_response s)\<rparr>), b, d)
         else if c = SOH then xmodem_packet recv_cb line (s\<lparr>rx_pktsize := 128\<rparr>) b d
         else if c = STX then xmodem_packet recv_cb line (s\<lparr>rx_pktsize := 1024\<rparr>) b d
         else if c = EOT then
           xmodem_leave line (s_putchar line (of_int ACK)) (sint (rx_totalbytes s)) b d
         else if c = CAN then
           (let (c, d) = s_getchar line XMODEM_TIMEOUT_DELAY d in
            if c = CAN then xmodem_leave line (s_putchar line (of_int ACK)) XMODEM_ERROR_REMOTECANCEL b d
            else xmodem_packet recv_cb line s b d)
         else xmodem_packet recv_cb line s b d)"

partial_function (option) xmodem_loop ::
  "bool \<Rightarrow> (u32 \<Rightarrow> u8 list \<Rightarrow> 'b \<Rightarrow> 'b) \<Rightarrow> 'd serial \<Rightarrow> xmodem_rx \<Rightarrow> 'b \<Rightarrow> 'd \<Rightarrow> (int \<times> 'b \<times> 'd) option"
where
  "xmodem_loop char_signed recv_cb line s b d =
     (if retry_left char_signed (rx_retry s) then
        (case xmodem_round recv_cb line s b d of
           None \<Rightarrow> None
         | Some (Inl ret, b, d) \<Rightarrow> Some (ret, b, d)
         | Some (Inr s, b, d) \<Rightarrow> xmodem_loop char_signed recv_cb line s b d)
      else
        map_option (\<lambda>d. (XMODEM_ERROR_RETRYEXCEED, b, xmodem_cancel3 line d))
          (xmodem_flush_input line d))"

definition xmodem_rx_start :: xmodem_rx where
  "xmodem_rx_start = \<lparr>rx_response = 0x43, rx_seqnum = 1, rx_pktsize = 128, rx_crcflag = False,
     rx_retry = of_int XMODEM_RETRY_LIMIT, rx_pos = 0, rx_totalbytes = 0\<rparr>"

text \<open>The C function never looks at \<open>maxszs\<close>.\<close>

definition xmodem_get_async ::
  "bool \<Rightarrow> u32 \<Rightarrow> (u32 \<Rightarrow> u8 list \<Rightarrow> 'b \<Rightarrow> 'b) \<Rightarrow> 'd serial \<Rightarrow> 'b \<Rightarrow> 'd \<Rightarrow> (int \<times> 'b \<times> 'd) option" where
  "xmodem_get_async char_signed maxszs recv_cb line b d =
     xmodem_loop char_signed recv_cb line xmodem_rx_start b d"

definition memcpy_cb :: "u32 \<Rightarrow> u32 \<Rightarrow> u8 list \<Rightarrow> mem \<Rightarrow> mem" where
  "memcpy_cb to curpos data m = mem_write m (to + curpos) data"

definition xmodem_get :: "bool \<Rightarrow> 'd serial \<Rightarrow> u32 \<Rightarrow> u32 \<Rightarrow> mem \<Rightarrow> 'd \<Rightarrow> (int \<times> mem \<times> 'd) option" where
  "xmodem_get char_signed line to maxszs m d =
     xmodem_get_async char_signed maxszs (memcpy_cb to) line m d"

section \<open>Sending\<close>

text \<open>
  The packet that \<open>xmodem_tx_async\<close> builds: 128 bytes of data, padded by one \<open>CTRLZ\<close> and zeros,
  with the sequence number and its check bytes. The \<open>crc\<close> variant stores the truth value of
  \<open>xmodem_chksum(0, ...)\<close>, which is the comparison of the sum with the byte behind the data,
  itself left from the packet before (\<open>old\<close>).
\<close>

definition xmodem_tx_payload :: "u8 list \<Rightarrow> u8 list" where
  "xmodem_tx_payload chunk =
     (if chunk = [] then of_int CTRLZ # replicate 127 0
      else if length chunk < 128 then chunk @ of_int CTRLZ # replicate (127 - length chunk) 0
      else chunk)"

definition xmodem_tx_packet :: "bool \<Rightarrow> u8 \<Rightarrow> u8 \<Rightarrow> u8 list \<Rightarrow> u8 list" where
  "xmodem_tx_packet crc old packetno chunk =
     (let data = xmodem_tx_payload chunk in
      of_int SOH # packetno # NOT packetno # data @
      (if crc then [0, of_bool (xmodem_chksum False (data @ [old]) 128)] else [foldl (+) 0 data]))"

datatype xmodem_tx_res = TX_ACKED | TX_CANCELLED | TX_FAILED

definition xmodem_puts :: "'d serial \<Rightarrow> u8 list \<Rightarrow> 'd \<Rightarrow> 'd" where
  "xmodem_puts line bs d = foldl (\<lambda>d b. s_putchar line b d) d bs"

text \<open>Sending one packet until it is acknowledged, the first argument being the tries left.\<close>

fun xmodem_tx_try :: "nat \<Rightarrow> 'd serial \<Rightarrow> u8 list \<Rightarrow> 'd \<Rightarrow> xmodem_tx_res \<times> 'd" where
  "xmodem_tx_try 0 line packet d = (TX_FAILED, d)"
| "xmodem_tx_try (Suc n) line packet d =
     (let (c, d) = s_getchar line XMODEM_TIMEOUT_DELAY (xmodem_puts line packet d) in
      if c = ACK then (TX_ACKED, d)
      else if c = CAN then
        (let (c, d) = s_getchar line XMODEM_TIMEOUT_DELAY d in
         if c = CAN then (TX_CANCELLED, d) else xmodem_tx_try n line packet d)
      else xmodem_tx_try n line packet d)"

fun xmodem_tx_eot :: "nat \<Rightarrow> 'd serial \<Rightarrow> 'd \<Rightarrow> bool \<times> 'd" where
  "xmodem_tx_eot 0 line d = (False, d)"
| "xmodem_tx_eot (Suc n) line d =
     (let (c, d) = s_getchar line (XMODEM_TIMEOUT_DELAY * 2) (s_putchar line (of_int EOT) d) in
      if c = ACK then (True, d) else xmodem_tx_eot n line d)"

text \<open>\<open>start_trans\<close>: the packets, then the end of the transmission.\<close>

function xmodem_tx_loop ::
  "(u32 \<Rightarrow> int \<Rightarrow> u8 list) \<Rightarrow> 'd serial \<Rightarrow> bool \<Rightarrow> int \<Rightarrow> u8 \<Rightarrow> u8 \<Rightarrow> u32 \<Rightarrow> int \<Rightarrow> 'd \<Rightarrow> (int \<times> 'd) option"
where
  "xmodem_tx_loop transmit_cb line crc srcsz old packetno curpos len d =
     (let c = (if srcsz - len > 128 then 128 else srcsz - len) in
      if c \<ge> 0 then
        let chunk = (if c = 0 then [] else transmit_cb curpos c);
            packet = xmodem_tx_packet crc old packetno chunk;
            (res, d) = xmodem_tx_try (nat XMODEM_RETRY_LIMIT) line packet d
        in (case res of
              TX_ACKED \<Rightarrow>
                xmodem_tx_loop transmit_cb line crc srcsz (packet ! 131) (packetno + 1)
                  (curpos + of_int c) (len + 128) d
            | TX_CANCELLED \<Rightarrow>
                map_option (\<lambda>d. (-1, d)) (xmodem_flush_input line (s_putchar line (of_int ACK) d))
            | TX_FAILED \<Rightarrow> map_option (\<lambda>d. (-4, d)) (xmodem_flush_input line (xmodem_cancel3 line d)))
      else
        let (acked, d) = xmodem_tx_eot 10 line d in
        map_option (\<lambda>d. (if acked then len else -5, d)) (xmodem_flush_input line d))"
  by pat_completeness auto
termination
  by (relation "measure (\<lambda>(_, _, _, srcsz, _, _, _, len, _). nat (srcsz - len + 1))") (auto split: if_splits)

text \<open>The synchronisation loop before it.\<close>

fun xmodem_tx_sync ::
  "nat \<Rightarrow> (u32 \<Rightarrow> int \<Rightarrow> u8 list) \<Rightarrow> 'd serial \<Rightarrow> u8 \<Rightarrow> int \<Rightarrow> 'd \<Rightarrow> (int \<times> 'd) option" where
  "xmodem_tx_sync 0 transmit_cb line stale srcsz d =
     map_option (\<lambda>d. (-2, d)) (xmodem_flush_input line (xmodem_cancel3 line d))"
| "xmodem_tx_sync (Suc n) transmit_cb line stale srcsz d =
     (let (c, d) = s_getchar line (XMODEM_TIMEOUT_DELAY * 2) d in
      if c = 0x43 then xmodem_tx_loop transmit_cb line True srcsz stale 1 0 0 d
      else if c = NAK then xmodem_tx_loop transmit_cb line False srcsz stale 1 0 0 d
      else if c = CAN then
        (let (c, d) = s_getchar line XMODEM_TIMEOUT_DELAY d in
         if c = CAN then map_option (\<lambda>d. (-1, d)) (xmodem_flush_input line (s_putchar line (of_int ACK) d))
         else xmodem_tx_sync n transmit_cb line stale srcsz d)
      else xmodem_tx_sync n transmit_cb line stale srcsz d)"

definition xmodem_tx_async ::
  "(u32 \<Rightarrow> int \<Rightarrow> u8 list) \<Rightarrow> 'd serial \<Rightarrow> u8 \<Rightarrow> int \<Rightarrow> 'd \<Rightarrow> (int \<times> 'd) option" where
  "xmodem_tx_async transmit_cb line stale srcsz d = xmodem_tx_sync 16 transmit_cb line stale srcsz d"

definition xmodem_send :: "mem \<Rightarrow> u32 \<Rightarrow> 'd serial \<Rightarrow> u8 \<Rightarrow> int \<Rightarrow> 'd \<Rightarrow> (int \<times> 'd) option" where
  "xmodem_send m ptr line stale len d =
     xmodem_tx_async (\<lambda>curpos n. mem_read m (ptr + curpos) (nat n)) line stale len d"

declare xmodem_tx_loop.simps [simp del]

section \<open>What is received\<close>

text \<open>Delivering blocks one behind the other through the callback.\<close>

fun deliver :: "(u32 \<Rightarrow> u8 list \<Rightarrow> 'b \<Rightarrow> 'b) \<Rightarrow> u32 \<Rightarrow> u8 list list \<Rightarrow> 'b \<Rightarrow> 'b" where
  "deliver cb pos [] b = b"
| "deliver cb pos (x # xs) b = deliver cb (pos + of_nat (length x)) xs (cb pos x b)"

lemma deliver_snoc:
  "deliver cb pos (xs @ [x]) b = cb (pos + of_nat (length (concat xs))) x (deliver cb pos xs b)"
  by (induction xs arbitrary: pos b) (auto simp: algebra_simps)

section \<open>A line with a given input\<close>

text \<open>What was put on the line is kept in the second component; an empty input times out.\<close>

definition wire :: "(int list \<times> u8 list) serial" where
  "wire = \<lparr>s_getchar = (\<lambda>t (i, o'). case i of [] \<Rightarrow> (-1, ([], o')) | c # cs \<Rightarrow> (c, (cs, o'))),
           s_putchar = (\<lambda>c (i, o'). (i, o' @ [c]))\<rparr>"

lemma wire_simps [simp]:
  "s_getchar wire t ([], o') = (-1, ([], o'))"
  "s_getchar wire t (c # cs, o') = (c, (cs, o'))"
  "s_putchar wire x (i, o') = (i, o' @ [x])"
  by (simp_all add: wire_def)

text \<open>The packets an XMODEM sender with CRC transmits for some blocks, and its end.\<close>

definition xmodem_frame :: "u8 \<Rightarrow> u8 list \<Rightarrow> int list" where
  "xmodem_frame k x =
     (let crc = foldl crc_xmodem_update 0 x in
      (if length x = 1024 then STX else SOH) #
        map uint (k # NOT k # x @ [ucast (drop_bit 8 crc), ucast crc]))"

fun xmodem_frames :: "u8 \<Rightarrow> u8 list list \<Rightarrow> int list" where
  "xmodem_frames k [] = [EOT]"
| "xmodem_frames k (x # xs) = xmodem_frame k x @ xmodem_frames (k + 1) xs"

lemma xmodem_fill_wire:
  "xmodem_fill (length bs) wire (map uint bs @ rest, o') = (Some bs, (rest, o'))"
  by (induction bs arbitrary: o') auto

lemma xmodem_flush_wire: "xmodem_flush_input wire ([], o') = Some ([], o')"
  by (subst xmodem_flush_input.simps) simp

lemma be16_split:
  fixes c :: u16
  shows "push_bit 8 (ucast (ucast (drop_bit 8 c) :: u8)) + ucast (ucast c :: u8) = c"
proof -
  have "push_bit 8 (ucast (ucast (drop_bit 8 c) :: u8)) AND (ucast (ucast c :: u8) :: u16) = 0"
    by (rule bit_word_eqI) (auto simp: bit_simps)
  moreover have "push_bit 8 (ucast (ucast (drop_bit 8 c) :: u8)) OR (ucast (ucast c :: u8) :: u16) = c"
    by (rule bit_word_eqI) (auto simp: bit_simps)
  ultimately show ?thesis by (simp add: disjunctive_add_eq_or)
qed

lemma xmodem_chksum_frame:
  assumes "crc = foldl crc_xmodem_update 0 x"
  shows "xmodem_chksum True (x @ [ucast (drop_bit 8 crc), ucast crc]) (length x)"
  using assms be16_split [of crc] by (simp add: xmodem_chksum_def nth_append)

lemma xmodem_packet_frame:
  assumes "rx_seqnum s = k" "rx_pktsize s = length x" "rx_crcflag s \<or> rx_response s = 0x43"
  shows "xmodem_packet cb wire s b (tl (xmodem_frame k x) @ rest, o') =
    Some (Inr (s\<lparr>rx_crcflag := True, rx_pos := rx_pos s + of_nat (length x),
                 rx_totalbytes := rx_totalbytes s + of_nat (length x), rx_seqnum := k + 1,
                 rx_retry := of_int XMODEM_RETRY_LIMIT, rx_response := of_int ACK\<rparr>),
          cb (rx_pos s) x b, (rest, o'))"
proof -
  define crc where "crc = foldl crc_xmodem_update 0 x"
  define bs where "bs = k # NOT k # x @ [ucast (drop_bit 8 crc), ucast crc]"
  define s1 where "s1 = (if rx_response s = 0x43 then s\<lparr>rx_crcflag := True\<rparr> else s)"
  have s1: "s1 = s\<lparr>rx_crcflag := True\<rparr>" using assms(3) by (auto simp: s1_def)
  have len: "rx_pktsize s1 + of_bool (rx_crcflag s1) + 3 = length bs"
    by (simp add: s1 assms(2) bs_def)
  have fr: "tl (xmodem_frame k x) = map uint bs"
    by (simp add: xmodem_frame_def crc_def bs_def Let_def)
  have drop2: "drop 2 bs = x @ [ucast (drop_bit 8 crc), ucast crc]" by (simp add: bs_def)
  have ck: "xmodem_chksum True (drop 2 bs) (length x)"
    unfolding drop2 by (rule xmodem_chksum_frame [OF crc_def])
  have nb: "bs ! 0 = k" "bs ! Suc 0 = NOT k" by (simp_all add: bs_def)
  have tk: "take (length x) (drop 2 bs) = x" by (simp add: drop2)
  show ?thesis
    unfolding xmodem_packet_def s1_def [symmetric] Let_def len fr xmodem_fill_wire prod.case option.case
    by (simp add: s1 assms(1,2) ck nb tk)
qed

lemma xmodem_round_frame:
  assumes "rx_seqnum s = k" "length x \<in> {128, 1024}" "rx_crcflag s \<or> rx_response s = 0x43"
  shows "\<exists>s' o2. xmodem_round cb wire s b (xmodem_frame k x @ rest, o') =
      Some (Inr s', cb (rx_pos s) x b, (rest, o2)) \<and> rx_crcflag s' \<and> rx_seqnum s' = k + 1 \<and>
      rx_pos s' = rx_pos s + of_nat (length x) \<and>
      rx_totalbytes s' = rx_totalbytes s + of_nat (length x) \<and> rx_retry s' = 128"
proof -
  define c where "c = (if length x = 1024 then STX else SOH)"
  have fr: "xmodem_frame k x = c # tl (xmodem_frame k x)"
    by (simp add: xmodem_frame_def c_def Let_def)
  define s2 where "s2 = s\<lparr>rx_pktsize := length x\<rparr>"
  have r: "xmodem_round cb wire s b (xmodem_frame k x @ rest, o') =
      xmodem_packet cb wire s2 b (tl (xmodem_frame k x) @ rest,
        if rx_response s \<noteq> 0 then o' @ [rx_response s] else o')"
    using assms(2) by (subst fr) (auto simp: xmodem_round_def c_def xmodem_chars s2_def)
  show ?thesis
    unfolding r using assms
    by (subst xmodem_packet_frame) (auto simp: s2_def XMODEM_RETRY_LIMIT_def)
qed

lemma xmodem_loop_frames:
  assumes "rx_seqnum s = k" "\<forall>x \<in> set blocks. length x \<in> {128, 1024}"
    "rx_crcflag s \<or> rx_response s = 0x43" "rx_retry s = 128"
  shows "\<exists>o2. xmodem_loop False cb wire s b (xmodem_frames k blocks, o') =
    Some (sint (rx_totalbytes s + of_nat (length (concat blocks))),
          deliver cb (rx_pos s) blocks b, ([], o2))"
  using assms
proof (induction blocks arbitrary: s k b o')
  case Nil
  then show ?case
    by (subst xmodem_loop.simps)
      (auto simp: retry_left_def xmodem_round_def xmodem_chars xmodem_leave_def xmodem_flush_wire)
next
  case (Cons x xs)
  obtain s' o2 where r: "xmodem_round cb wire s b (xmodem_frames k (x # xs), o') =
      Some (Inr s', cb (rx_pos s) x b, (xmodem_frames (k + 1) xs, o2))"
    and s': "rx_crcflag s'" "rx_seqnum s' = k + 1" "rx_pos s' = rx_pos s + of_nat (length x)"
      "rx_totalbytes s' = rx_totalbytes s + of_nat (length x)" "rx_retry s' = 128"
    using xmodem_round_frame [of s k x cb b "xmodem_frames (k + 1) xs" o'] Cons.prems by auto
  have "xmodem_loop False cb wire s b (xmodem_frames k (x # xs), o') =
      xmodem_loop False cb wire s' (cb (rx_pos s) x b) (xmodem_frames (k + 1) xs, o2)"
    by (subst xmodem_loop.simps) (simp only: r Cons.prems(4) retry_left_def, simp)
  with Cons.IH [of s' "k + 1" "cb (rx_pos s) x b" o2] Cons.prems(2) s' show ?case
    by (simp add: algebra_simps)
qed

lemma xmodem_upload_arrives:
  assumes "\<forall>x \<in> set blocks. length x \<in> {128, 1024}" "length (concat blocks) < 2 ^ 31"
  shows "\<exists>sent. xmodem_get False wire to maxszs m (xmodem_frames 1 blocks, out) =
    Some (int (length (concat blocks)), mem_write m to (concat blocks), ([], sent))"
proof -
  have d: "deliver (memcpy_cb to) pos blocks m = mem_write m (to + pos) (concat blocks)"
    if "length (concat blocks) < 2 ^ 31" for pos blocks m
    using that
  proof (induction blocks arbitrary: pos m)
    case (Cons x xs)
    then show ?case using mem_write_append [of x "concat xs" m "to + pos"] by (simp add: memcpy_cb_def add.assoc)
  qed simp
  have "sint (of_nat (length (concat blocks)) :: u32) = int (length (concat blocks))"
    using assms(2) by (simp add: sint_uint unsigned_of_nat signed_take_bit_int_eq_self take_bit_nat_eq_self)
  then show ?thesis
    using xmodem_loop_frames [of xmodem_rx_start 1 blocks "memcpy_cb to" m out] assms d [of blocks 0 m]
    by (simp add: xmodem_get_def xmodem_get_async_def xmodem_rx_start_def XMODEM_RETRY_LIMIT_def)
qed

section \<open>Whatever arrives\<close>

text \<open>
  The input of \<open>wire\<close> is any list of characters, with negative numbers where the line is silent for the time of a
  timeout. A packet is its number, the complement, the data and the CRC of the data. \<open>carried k blocks input\<close>: the
  input contains, one behind the other and without overlap, a packet for each of the blocks, behind some character
  each, with the numbers \<open>k\<close>, \<open>k + 1\<close> and so on, modulo 256.
\<close>

definition packet_bytes :: "u8 \<Rightarrow> u8 list \<Rightarrow> u8 list" where
  "packet_bytes k x = (let crc = foldl crc_xmodem_update 0 x in k # NOT k # x @ [ucast (drop_bit 8 crc), ucast crc])"

inductive carried :: "u8 \<Rightarrow> u8 list list \<Rightarrow> int list \<Rightarrow> bool" where
  carried_none: "carried k [] input"
| carried_packet: "map of_int cs = packet_bytes k x \<Longrightarrow> list_all (\<lambda>c. 0 \<le> c) cs \<Longrightarrow> carried (k + 1) xs rest
    \<Longrightarrow> carried k (x # xs) (pre @ c # cs @ rest)"

lemma carried_behind:
  assumes "carried k xs rest"
  shows "carried k xs (pre @ rest)"
  using assms
proof cases
  case (carried_packet cs x xs' rest' pre' c)
  then show ?thesis using carried.carried_packet [of cs k x xs' rest' "pre @ pre'" c] by simp
qed (simp add: carried_none)

lemma fill_wire_reads:
  "xmodem_fill n wire (input, o') = (r, (rest, o2)) \<Longrightarrow> \<exists>cs. input = cs @ rest \<and>
     (case r of Some bs \<Rightarrow> map of_int cs = bs \<and> list_all (\<lambda>c. 0 \<le> c) cs \<and> length bs = n | None \<Rightarrow> True)"
proof (induction n arbitrary: input r)
  case (Suc n)
  show ?case
  proof (cases input)
    case Nil
    then show ?thesis using Suc.prems by simp
  next
    case (Cons c cs)
    show ?thesis
    proof (cases "c \<ge> 0")
      case True
      obtain r' rest' o3 where f: "xmodem_fill n wire (cs, o') = (r', (rest', o3))" by (metis prod.collapse)
      have e: "r = map_option (\<lambda>bs. of_int c # bs) r'" "rest' = rest" "o3 = o2"
        using Suc.prems True Cons f by (auto split: option.splits)
      from Suc.IH [OF f [unfolded e(2,3)]] obtain ds where "cs = ds @ rest"
        "case r' of Some bs \<Rightarrow> map of_int ds = bs \<and> list_all (\<lambda>c. 0 \<le> c) ds \<and> length bs = n | None \<Rightarrow> True" by blast
      then show ?thesis using e(1) True Cons by (intro exI [of _ "c # ds"]) (auto split: option.splits)
    next
      case False
      then show ?thesis using Suc.prems Cons by (intro exI [of _ "[c]"]) auto
    qed
  qed
qed simp

lemma flush_wire_reads:
  assumes "xmodem_flush_input wire d = Some d'"
  shows "\<exists>pre. fst d = pre @ fst d'"
proof -
  let ?R = "\<lambda>line d d'. line = wire \<longrightarrow> (\<exists>pre. fst d = pre @ fst d')"
  have "?R wire d d'"
  proof (rule xmodem_flush_input.raw_induct [of ?R, OF _ assms], goal_cases)
    case (1 f line d d')
    show ?case
    proof
      assume w: "line = wire"
      obtain input o' where d: "d = (input, o')" by (cases d)
      show "\<exists>pre. fst d = pre @ fst d'"
      proof (cases input)
        case (Cons c cs)
        show ?thesis
        proof (cases "c \<ge> 0")
          case True
          then have "f wire (cs, o') = Some d'" using "1"(2) w d Cons by simp
          from "1"(1) [OF this] obtain pre where "cs = pre @ fst d'" by auto
          then show ?thesis using d Cons by (intro exI [of _ "c # pre"]) simp
        next
          case False
          then show ?thesis using "1"(2) w d Cons by (intro exI [of _ "[c]"]) auto
        qed
      qed (use "1"(2) w d in auto)
    qed
  qed
  then show ?thesis by simp
qed

lemma crc_bytes:
  fixes a b :: u8 and c :: u16
  assumes "c = push_bit 8 (ucast a) + ucast b"
  shows "a = ucast (drop_bit 8 c)" "b = ucast c"
proof -
  have z: "push_bit 8 (ucast a) AND (ucast b :: u16) = 0" by (rule bit_word_eqI) (auto simp: bit_simps)
  have c: "c = push_bit 8 (ucast a) OR ucast b" using assms disjunctive_add_eq_or [OF z] by simp
  show "a = ucast (drop_bit 8 c)" "b = ucast c" unfolding c by (rule bit_word_eqI; auto simp: bit_simps)+
qed

lemma packet_from_bytes:
  assumes "length bs = n + 4" "bs ! 0 = NOT (bs ! 1)" "xmodem_chksum True (drop 2 bs) n"
  shows "bs = packet_bytes (bs ! 0) (take n (drop 2 bs))"
proof -
  define x where "x = take n (drop 2 bs)"
  have "bs = bs ! 0 # bs ! 1 # drop 2 bs"
    using assms(1) by (cases bs; cases "tl bs") (auto simp: eval_nat_numeral)
  moreover have "bs ! 1 = NOT (bs ! 0)" using assms(2) by simp
  moreover have "drop 2 bs = x @ [drop 2 bs ! n, drop 2 bs ! (n + 1)]"
    unfolding x_def using assms(1) by (intro nth_equalityI) (auto simp: nth_append less_Suc_eq nth_Cons' min_def)
  moreover have "drop 2 bs ! n = ucast (drop_bit 8 (foldl crc_xmodem_update 0 x))"
    "drop 2 bs ! (n + 1) = ucast (foldl crc_xmodem_update 0 x)"
    using assms(3) unfolding xmodem_chksum_def x_def [symmetric] by (simp_all only: if_True crc_bytes)
  ultimately show ?thesis unfolding packet_bytes_def x_def [symmetric] Let_def by metis
qed

text \<open>One round: nothing is delivered, or the data of one packet with the expected number.\<close>

definition rx_ready :: "xmodem_rx \<Rightarrow> bool" where
  "rx_ready s \<longleftrightarrow> (rx_crcflag s \<or> rx_response s = 0x43) \<and> rx_pktsize s \<in> {128, 1024}"

definition round_ok :: "(u32 \<Rightarrow> u8 list \<Rightarrow> 'b \<Rightarrow> 'b) \<Rightarrow> xmodem_rx \<Rightarrow> 'b \<Rightarrow> int list \<Rightarrow> int + xmodem_rx \<Rightarrow> 'b \<Rightarrow> int list \<Rightarrow> bool" where
  "round_ok cb s b input r b1 rest \<longleftrightarrow>
     (case r of
        Inl ret \<Rightarrow> b1 = b \<and> (ret = sint (rx_totalbytes s) \<or> ret \<in> {-1, -2, -3})
      | Inr s' \<Rightarrow> rx_ready s' \<and>
          (b1 = b \<and> (\<exists>pre. input = pre @ rest) \<and> rx_seqnum s' = rx_seqnum s \<and> rx_pos s' = rx_pos s \<and>
             rx_totalbytes s' = rx_totalbytes s \<or>
           (\<exists>x pre c cs. input = pre @ c # cs @ rest \<and> map of_int cs = packet_bytes (rx_seqnum s) x \<and>
              list_all (\<lambda>c. 0 \<le> c) cs \<and> length x \<in> {128, 1024} \<and> b1 = cb (rx_pos s) x b \<and>
              rx_seqnum s' = rx_seqnum s + 1 \<and> rx_pos s' = rx_pos s + of_nat (length x) \<and>
              rx_totalbytes s' = rx_totalbytes s + of_nat (length x))))"

lemma leave_wire:
  assumes "xmodem_leave line f ret b d = Some (r, b1, d1)" "ret = sint (rx_totalbytes s) \<or> ret \<in> {-1, -2, -3}"
  shows "round_ok cb s b input r b1 rest"
  using assms by (auto simp: xmodem_leave_def round_ok_def)

lemma nak_wire:
  assumes "xmodem_nak wire s b (input, o') = Some (r, b1, (rest, o2))" "rx_ready s" "rx_crcflag s"
  shows "round_ok cb s b (pre @ input) r b1 rest"
proof -
  obtain d where d: "xmodem_flush_input wire (input, o') = Some d" "d = (rest, o2)"
    "r = Inr (s\<lparr>rx_retry := rx_retry s - 1, rx_response := of_int NAK\<rparr>)" "b1 = b"
    using assms(1) by (auto simp: xmodem_nak_def)
  from flush_wire_reads [OF d(1)] obtain p where "input = p @ rest" using d(2) by auto
  then show ?thesis using d(3,4) assms(2,3) by (auto simp: round_ok_def rx_ready_def intro: exI [of _ "pre @ p"])
qed

lemma packet_wire:
  assumes "xmodem_packet cb wire s b (input, o') = Some (r, b1, (rest, o2))" "rx_ready s"
  shows "round_ok cb s b (pre @ c # input) r b1 rest"
proof -
  define s1 where "s1 = s\<lparr>rx_crcflag := True\<rparr>"
  have s1: "(if rx_response s = 0x43 then s\<lparr>rx_crcflag := True\<rparr> else s) = s1"
    using assms(2) by (cases s) (auto simp: s1_def rx_ready_def)
  have rs: "rx_ready s1" "rx_crcflag s1" "rx_pktsize s1 = rx_pktsize s" "rx_seqnum s1 = rx_seqnum s"
    "rx_pos s1 = rx_pos s" "rx_totalbytes s1 = rx_totalbytes s" using assms(2) by (auto simp: s1_def rx_ready_def)
  have same: "round_ok cb s1 b i r b1 rest = round_ok cb s b i r b1 rest" for i
    by (simp add: round_ok_def rs cong: sum.case_cong)
  define n where "n = rx_pktsize s"
  have n: "n \<in> {128, 1024}" using assms(2) by (simp add: n_def rx_ready_def)
  obtain buf mid o3 where f: "xmodem_fill (n + 4) wire (input, o') = (buf, (mid, o3))" by (metis prod.collapse)
  have len: "rx_pktsize s1 + of_bool (rx_crcflag s1) + 3 = n + 4" by (simp add: rs n_def)
  show ?thesis
  proof (cases buf)
    case None
    have "xmodem_nak wire s1 b (mid, o3) = Some (r, b1, (rest, o2))"
      using assms(1) unfolding xmodem_packet_def s1 Let_def len f None by simp
    moreover obtain cs where "input = cs @ mid" using fill_wire_reads [OF f] by auto
    ultimately show ?thesis using nak_wire [of s1 b mid o3 r b1 rest o2 cb "pre @ c # cs"] rs same by simp
  next
    case (Some bs)
    obtain cs where cs: "input = cs @ mid" "map of_int cs = bs" "list_all (\<lambda>c. 0 \<le> c) cs" "length bs = n + 4"
      using fill_wire_reads [OF f] Some by auto
    define x where "x = take n (drop 2 bs)"
    have lx: "length x = n" using cs(4) by (simp add: x_def)
    have run: "(if bs ! 0 = NOT (bs ! 1) \<and> xmodem_chksum True (drop 2 bs) n then
            (if bs ! 0 = rx_seqnum s then
               Some (Inr (s1\<lparr>rx_pos := rx_pos s + of_nat n, rx_totalbytes := rx_totalbytes s + of_nat n,
                            rx_seqnum := rx_seqnum s + 1, rx_retry := of_int XMODEM_RETRY_LIMIT,
                            rx_response := of_int ACK\<rparr>), cb (rx_pos s) x b, (mid, o3))
             else if bs ! 0 = rx_seqnum s - 1 then Some (Inr (s1\<lparr>rx_response := of_int ACK\<rparr>), b, (mid, o3))
             else xmodem_leave wire (xmodem_cancel3 wire) XMODEM_ERROR_OUTOFSYNC b (mid, o3))
          else xmodem_nak wire s1 b (mid, o3)) = Some (r, b1, (rest, o2))"
      using assms(1) unfolding xmodem_packet_def s1 Let_def len f Some
      by (simp only: prod.case option.case rs n_def x_def)
    show ?thesis
    proof (cases "bs ! 0 = NOT (bs ! 1) \<and> xmodem_chksum True (drop 2 bs) n")
      case bad: False
      then have "xmodem_nak wire s1 b (mid, o3) = Some (r, b1, (rest, o2))" using run by (simp only: if_False)
      then show ?thesis using nak_wire [of s1 b mid o3 r b1 rest o2 cb "pre @ c # cs"] rs same cs(1) by simp
    next
      case True
      then have pb: "bs = packet_bytes (bs ! 0) x" unfolding x_def using packet_from_bytes [OF cs(4)] by blast
      consider "bs ! 0 = rx_seqnum s" | "bs ! 0 = rx_seqnum s - 1" "bs ! 0 \<noteq> rx_seqnum s"
        | "bs ! 0 \<noteq> rx_seqnum s" "bs ! 0 \<noteq> rx_seqnum s - 1" by blast
      then show ?thesis
      proof cases
        case 1
        then have e: "r = Inr (s1\<lparr>rx_pos := rx_pos s + of_nat n, rx_totalbytes := rx_totalbytes s + of_nat n,
                            rx_seqnum := rx_seqnum s + 1, rx_retry := of_int XMODEM_RETRY_LIMIT,
                            rx_response := of_int ACK\<rparr>)" "b1 = cb (rx_pos s) x b" "rest = mid"
          using run True by simp_all
        have "map of_int cs = packet_bytes (rx_seqnum s) x" using pb 1 cs(2) by simp
        then show ?thesis using e cs(1,3) n lx rs
          by (auto simp: round_ok_def rx_ready_def intro!: exI [of _ x] exI [of _ pre])
      next
        case 2
        then have "r = Inr (s1\<lparr>rx_response := of_int ACK\<rparr>)" "b1 = b" "rest = mid" using run True by simp_all
        then show ?thesis using cs(1) rs by (auto simp: round_ok_def rx_ready_def intro: exI [of _ "pre @ c # cs"])
      next
        case 3
        then have "xmodem_leave wire (xmodem_cancel3 wire) XMODEM_ERROR_OUTOFSYNC b (mid, o3) = Some (r, b1, (rest, o2))"
          using run True by simp
        then show ?thesis by (rule leave_wire) (simp add: XMODEM_ERROR_OUTOFSYNC_def)
      qed
    qed
  qed
qed

lemma round_wire:
  assumes "xmodem_round cb wire s b (input, o') = Some (r, b1, (rest, o2))" "rx_ready s"
  shows "round_ok cb s b input r b1 rest"
proof -
  have sz: "round_ok cb (s\<lparr>rx_pktsize := n\<rparr>) b i r b1 rest = round_ok cb s b i r b1 rest" for n i
    by (simp add: round_ok_def cong: sum.case_cong)
  have rz: "rx_ready (s\<lparr>rx_pktsize := n\<rparr>)" if "n \<in> {128, 1024}" for n using assms(2) that by (simp add: rx_ready_def)
  obtain o3 where o: "xmodem_round cb wire s b (input, o') =
    (let (c, d) = s_getchar wire XMODEM_TIMEOUT_DELAY (input, o3)
      in if c < 0 then
           Some (Inr (s\<lparr>rx_retry := rx_retry s - 1,
                        rx_response := (if rx_response s \<noteq> 0x43 then 0 else rx_response s)\<rparr>), b, d)
         else if c = SOH then xmodem_packet cb wire (s\<lparr>rx_pktsize := 128\<rparr>) b d
         else if c = STX then xmodem_packet cb wire (s\<lparr>rx_pktsize := 1024\<rparr>) b d
         else if c = EOT then xmodem_leave wire (s_putchar wire (of_int ACK)) (sint (rx_totalbytes s)) b d
         else if c = CAN then
           (let (c, d) = s_getchar wire XMODEM_TIMEOUT_DELAY d in
            if c = CAN then xmodem_leave wire (s_putchar wire (of_int ACK)) XMODEM_ERROR_REMOTECANCEL b d
            else xmodem_packet cb wire s b d)
         else xmodem_packet cb wire s b d)"
    by (rule that [of "if rx_response s \<noteq> 0 then o' @ [rx_response s] else o'"]) (simp add: xmodem_round_def Let_def)
  obtain c i2 where g: "s_getchar wire XMODEM_TIMEOUT_DELAY (input, o3) = (c, (i2, o3))"
    "input = [] \<and> i2 = [] \<and> c = -1 \<or> input = c # i2" by (cases input) auto
  note run = assms(1) [unfolded o g(1) Let_def prod.case]
  show ?thesis
  proof (cases "c < 0")
    case True
    then have "r = Inr (s\<lparr>rx_retry := rx_retry s - 1, rx_response := (if rx_response s \<noteq> 0x43 then 0 else rx_response s)\<rparr>)"
      "b1 = b" "rest = i2" using run by simp_all
    moreover have "\<exists>pre. input = pre @ i2" using g(2) by (auto intro: exI [of _ "[c]"])
    ultimately show ?thesis using assms(2) by (auto simp: round_ok_def rx_ready_def)
  next
    case False
    then have i: "input = c # i2" using g(2) by auto
    have pk: "round_ok cb s b input r b1 rest" if "xmodem_packet cb wire s b (i2, o3) = Some (r, b1, (rest, o2))"
      using packet_wire [OF that assms(2), of "[]" c] i by simp
    have pz: "round_ok cb s b input r b1 rest"
      if "xmodem_packet cb wire (s\<lparr>rx_pktsize := n\<rparr>) b (i2, o3) = Some (r, b1, (rest, o2))" "n \<in> {128, 1024}" for n
      using packet_wire [OF that(1) rz [OF that(2)], of "[]" c] i sz by simp
    consider "c = SOH" | "c = STX" | "c = EOT" | "c = CAN" | "c \<noteq> SOH" "c \<noteq> STX" "c \<noteq> EOT" "c \<noteq> CAN" by blast
    then show ?thesis
    proof cases
      case 1
      then show ?thesis using run False by (intro pz [of 128]) simp_all
    next
      case 2
      then show ?thesis using run False by (intro pz [of 1024]) (simp_all add: xmodem_chars)
    next
      case 3
      then have "xmodem_leave wire (s_putchar wire (of_int ACK)) (sint (rx_totalbytes s)) b (i2, o3) = Some (r, b1, (rest, o2))"
        using run False by (simp add: xmodem_chars)
      then show ?thesis by (rule leave_wire) simp
    next
      case 4
      obtain c2 i3 where g2: "s_getchar wire XMODEM_TIMEOUT_DELAY (i2, o3) = (c2, (i3, o3))"
        "i2 = [] \<and> i3 = [] \<or> i2 = c2 # i3" by (cases i2) auto
      have run2: "(if c2 = CAN then xmodem_leave wire (s_putchar wire (of_int ACK)) XMODEM_ERROR_REMOTECANCEL b (i3, o3)
          else xmodem_packet cb wire s b (i3, o3)) = Some (r, b1, (rest, o2))"
        using run False 4 by (simp add: xmodem_chars g2(1))
      show ?thesis
      proof (cases "c2 = CAN")
        case True
        then have "xmodem_leave wire (s_putchar wire (of_int ACK)) XMODEM_ERROR_REMOTECANCEL b (i3, o3) = Some (r, b1, (rest, o2))"
          using run2 by simp
        then show ?thesis by (rule leave_wire) (simp add: XMODEM_ERROR_REMOTECANCEL_def)
      next
        case no: False
        then have p: "xmodem_packet cb wire s b (i3, o3) = Some (r, b1, (rest, o2))" using run2 by simp
        show ?thesis using packet_wire [OF p assms(2), of "[]" c] packet_wire [OF p assms(2), of "[c]" c2] g2(2) i
          by auto
      qed
    next
      case 5
      then show ?thesis using run False by (intro pk) simp
    qed
  qed
qed

lemma loop_wire:
  assumes "xmodem_loop sg cb line s b d = Some r"
  shows "line = wire \<longrightarrow> rx_ready s \<longrightarrow> (case r of (ret, b', d') \<Rightarrow> \<exists>blocks. b' = deliver cb (rx_pos s) blocks b \<and>
    (\<forall>x \<in> set blocks. length x \<in> {128, 1024}) \<and> carried (rx_seqnum s) blocks (fst d) \<and>
    (ret = sint (rx_totalbytes s + of_nat (length (concat blocks))) \<or> ret \<in> {-1, -2, -3}))"
    (is "?R sg cb line s b d r")
proof (rule xmodem_loop.raw_induct [of ?R, OF _ assms], goal_cases)
  case (1 loop sg cb line s b d r)
  show ?case
  proof (intro impI)
    assume w: "line = wire" and rd: "rx_ready s"
    obtain input o' where d: "d = (input, o')" by (cases d)
    obtain ret b' d' where r: "r = (ret, b', d')" by (cases r)
    let ?C = "\<lambda>s b input. \<exists>blocks. b' = deliver cb (rx_pos s) blocks b \<and>
      (\<forall>x \<in> set blocks. length x \<in> {128, 1024}) \<and> carried (rx_seqnum s) blocks input \<and>
      (ret = sint (rx_totalbytes s + of_nat (length (concat blocks))) \<or> ret \<in> {-1, -2, -3})"
    have none: "?C s b input" if "b' = b" "ret = sint (rx_totalbytes s) \<or> ret \<in> {-1, -2, -3}"
      using that by (intro exI [of _ "[]"]) (auto intro: carried_none)
    have "?C s b input"
    proof (cases "retry_left sg (rx_retry s)")
      case True
      obtain q b2 rest o2 where q: "xmodem_round cb wire s b (input, o') = Some (q, b2, (rest, o2))"
        using "1"(2) True w d by (auto split: option.splits)
      have ok: "round_ok cb s b input q b2 rest" by (rule round_wire [OF q rd])
      show ?thesis
      proof (cases q)
        case (Inl e)
        then show ?thesis using "1"(2) True w d q r ok by (intro none) (auto simp: round_ok_def)
      next
        case (Inr s2)
        then have "loop sg cb wire s2 b2 (rest, o2) = Some r" using "1"(2) True w d q by simp
        from "1"(1) [OF this] ok Inr have ih: "?C s2 b2 rest" by (simp add: round_ok_def r)
        then obtain blocks where bl: "b' = deliver cb (rx_pos s2) blocks b2"
          "\<forall>x \<in> set blocks. length x \<in> {128, 1024}" "carried (rx_seqnum s2) blocks rest"
          "ret = sint (rx_totalbytes s2 + of_nat (length (concat blocks))) \<or> ret \<in> {-1, -2, -3}" by blast
        show ?thesis
        proof (cases "b2 = b \<and> (\<exists>pre. input = pre @ rest) \<and> rx_seqnum s2 = rx_seqnum s \<and> rx_pos s2 = rx_pos s \<and>
             rx_totalbytes s2 = rx_totalbytes s")
          case True
          then show ?thesis using bl carried_behind [OF bl(3)] by (intro exI [of _ blocks]) auto
        next
          case False
          then obtain x pre c cs where x: "input = pre @ c # cs @ rest" "map of_int cs = packet_bytes (rx_seqnum s) x"
            "list_all (\<lambda>c. 0 \<le> c) cs" "length x \<in> {128, 1024}" "b2 = cb (rx_pos s) x b"
            "rx_seqnum s2 = rx_seqnum s + 1" "rx_pos s2 = rx_pos s + of_nat (length x)"
            "rx_totalbytes s2 = rx_totalbytes s + of_nat (length x)"
            using ok Inr by (auto simp: round_ok_def)
          have "carried (rx_seqnum s) (x # blocks) input"
            unfolding x(1) by (rule carried_packet [OF x(2,3)]) (use bl(3) x(6) in simp)
          then show ?thesis using bl(1,2,4) x by (intro exI [of _ "x # blocks"]) (auto simp: add.assoc)
        qed
      qed
    next
      case False
      then have "ret = XMODEM_ERROR_RETRYEXCEED" "b' = b" using "1"(2) w d r by auto
      then show ?thesis by (intro none) (simp_all add: XMODEM_ERROR_RETRYEXCEED_def)
    qed
    then show "case r of (ret, b', d') \<Rightarrow> \<exists>blocks. b' = deliver cb (rx_pos s) blocks b \<and>
      (\<forall>x \<in> set blocks. length x \<in> {128, 1024}) \<and> carried (rx_seqnum s) blocks (fst d) \<and>
      (ret = sint (rx_totalbytes s + of_nat (length (concat blocks))) \<or> ret \<in> {-1, -2, -3})"
      by (simp add: r d)
  qed
qed


text \<open>C8: An upload from a sender that follows the protocol arrives: for any list of blocks of
  128 or 1024 bytes sent as XMODEM packets with CRC, numbered from 1 modulo 256, and the end of
  transmission, \<open>xmodem_get\<close> returns their length and leaves exactly their bytes, one behind the
  other, at \<open>to\<close>. (Where plain \<open>char\<close> is unsigned.)\<close>

theorem xmodem_upload_roundtrip:
  assumes "\<forall>x \<in> set blocks. length x \<in> {128, 1024}" "length (concat blocks) < 2 ^ 31"
  shows "\<exists>sent. xmodem_get False wire to maxszs m (xmodem_frames 1 blocks, []) =
    Some (int (length (concat blocks)), mem_write m to (concat blocks), ([], sent))"
  using assms by (rule xmodem_upload_arrives)

text \<open>A packet of 128 bytes arrives.\<close>

theorem xmodem_upload_roundtrip_witness:
  "\<exists>sent. xmodem_get False wire 0x40000 0x1000 (\<lambda>_. 0) (xmodem_frames 1 [replicate 128 0x5A], []) =
    Some (128, mem_write (\<lambda>_. 0) 0x40000 (replicate 128 0x5A), ([], sent))"
  using xmodem_upload_roundtrip [where blocks = "[replicate 128 0x5A]" and to = "0x40000" and maxszs = "0x1000" and m = "\<lambda>_. 0"] by simp

text \<open>Two packets of which the first is repeated: the repetition is acknowledged and dropped.\<close>

lemma repeated_packet:
  assumes "rx_seqnum s = k + 1" "rx_crcflag s" "length x \<in> {128, 1024}"
  shows "\<exists>o2. xmodem_round cb wire s b (xmodem_frame k x @ rest, o') =
    Some (Inr (s\<lparr>rx_pktsize := length x, rx_response := of_int ACK\<rparr>), b, (rest, o2))"
proof -
  define crc where "crc = foldl crc_xmodem_update 0 x"
  define bs where "bs = k # NOT k # x @ [ucast (drop_bit 8 crc), ucast crc]"
  have fr: "xmodem_frame k x = (if length x = 1024 then STX else SOH) # map uint bs"
    by (simp add: xmodem_frame_def crc_def bs_def Let_def)
  have drop2: "drop 2 bs = x @ [ucast (drop_bit 8 crc), ucast crc]" by (simp add: bs_def)
  have ck: "xmodem_chksum True (drop 2 bs) (length x)"
    unfolding drop2 by (rule xmodem_chksum_frame [OF crc_def])
  have nb: "bs ! 0 = k" "bs ! Suc 0 = NOT k" by (simp_all add: bs_def)
  have ne: "k \<noteq> k + 1" by simp
  define s2 where "s2 = s\<lparr>rx_pktsize := length x\<rparr>"
  have s2: "(if rx_response s2 = 0x43 then s2\<lparr>rx_crcflag := True\<rparr> else s2) = s2"
    using assms(2) by (cases s) (auto simp: s2_def)
  have len: "rx_pktsize s2 + of_bool (rx_crcflag s2) + 3 = length bs" by (simp add: s2_def assms(2) bs_def)
  have "xmodem_packet cb wire s2 b (map uint bs @ rest, o3) =
    Some (Inr (s2\<lparr>rx_response := of_int ACK\<rparr>), b, (rest, o3))" for o3
    unfolding xmodem_packet_def s2 Let_def len xmodem_fill_wire prod.case option.case
    using ck nb ne assms(1,2) by (simp add: s2_def)
  then show ?thesis unfolding fr using assms(3) by (auto simp: xmodem_round_def xmodem_chars s2_def)
qed


section \<open>Packets sent\<close>

text \<open>The packets of the sender. With checksums each packet passes the receiver's check. With
  CRC it passes only if the CRC of its data is by chance the number 1 or 0 that the sender
  computed instead of it, so a CRC receiver rejects practically every packet.\<close>

theorem xmodem_tx_packet_check:
  assumes "length chunk \<le> 128"
  shows "xmodem_chksum False (drop 3 (xmodem_tx_packet False old k chunk)) 128 \<and>
    (xmodem_chksum True (drop 3 (xmodem_tx_packet True old k chunk)) 128 \<longleftrightarrow>
      foldl crc_xmodem_update 0 (xmodem_tx_payload chunk) = of_bool (foldl (+) 0 (xmodem_tx_payload chunk) = old))"
proof -
  define data where "data = xmodem_tx_payload chunk"
  have len: "length data = 128"
    using assms(1) by (simp add: data_def xmodem_tx_payload_def)
  have d3: "drop 3 (xmodem_tx_packet c old k chunk) = data @
      (if c then [0, of_bool (xmodem_chksum False (data @ [old]) 128)] else [foldl (+) 0 data])" for c
    by (simp add: xmodem_tx_packet_def data_def Let_def)
  show ?thesis
    unfolding data_def [symmetric] by (simp add: d3 xmodem_chksum_def len nth_append)
qed

theorem xmodem_tx_packet_check_witness:
  "\<not> xmodem_chksum True (drop 3 (xmodem_tx_packet True 0 1 [])) 128"
proof -
  have pay: "xmodem_tx_payload [] = [0x1A] @ replicate 127 0"
    by (simp only: xmodem_tx_payload_def CTRLZ_def) simp
  have up0: "crc_xmodem_update 0 0 = 0"
    by (simp add: crc_xmodem_update_def crc_xmodem_bit_def eval_nat_numeral)
  have zero: "foldl crc_xmodem_update 0 (replicate n 0) = 0" for n
    by (induction n) (simp_all add: up0)
  have sum: "foldl (+) a (replicate n 0) = a" for a :: u8 and n
    by (induction n) simp_all
  have "foldl crc_xmodem_update 0 ([0x1A] @ replicate 127 0) \<noteq> foldl crc_xmodem_update 0 ([0] @ replicate 127 0)"
    using crc_xmodem_reg.detects_burst [where u = "[0x1A]" and v = "[0]" and pre = "[]" and r = 0] by simp
  then have "foldl crc_xmodem_update 0 (xmodem_tx_payload []) \<noteq> 0"
    using zero [of 128] by (simp add: pay eval_nat_numeral)
  moreover have "foldl (+) 0 (xmodem_tx_payload []) \<noteq> (0 :: u8)"
    by (simp only: pay foldl_append sum) simp
  moreover have "xmodem_chksum True (drop 3 (xmodem_tx_packet True 0 1 [])) 128 \<longleftrightarrow>
      foldl crc_xmodem_update 0 (xmodem_tx_payload []) =
        of_bool (foldl (+) 0 (xmodem_tx_payload []) = (0 :: u8))"
    using xmodem_tx_packet_check [of "[]" 0 1] by simp
  ultimately show ?thesis by simp
qed

end
