(* ===== verification/Malloc.thy ===== *)
theory Malloc
  imports C_Memory
begin

text \<open>
  The allocator of \<open>src/lib/malloc.c\<close>: several heaps, each a region with a position that only
  grows. The part of \<open>rumboot_platform_runtime_info\<close> that it owns is the record \<open>runtime\<close>,
  whose table has \<open>RUMBOOT_PLATFORM_NUM_HEAPS\<close> entries, the length of the list. \<open>None\<close> is
  \<open>rumboot_platform_panic\<close>, which does not return, or an index outside the table. Addresses have
  32 bits, and \<open>align\<close> and \<open>misalign\<close> take part in 32-bit arithmetic.
\<close>

section \<open>State\<close>

record rumboot_heap =
  hp_start :: u32
  hp_end :: u32
  hp_pos :: u32
  hp_save :: u32
  hp_name :: string

record runtime =
  num_heaps :: nat
  heaps :: "rumboot_heap list"

section \<open>Operations\<close>

definition rumboot_malloc_from_heap_misaligned ::
  "nat \<Rightarrow> u32 \<Rightarrow> u32 \<Rightarrow> u32 \<Rightarrow> runtime \<Rightarrow> (u32 \<times> runtime) option" where
  "rumboot_malloc_from_heap_misaligned heap_id len align misalign rt =
     (if heap_id < length (heaps rt) then
        let hp = heaps rt ! heap_id;
            pad = (if align \<noteq> 0 then hp_pos hp mod align else 0);
            pos = (if pad \<noteq> 0 then hp_pos hp + (align - pad) else hp_pos hp);
            pos = pos + misalign;
            ret = pos;
            pos = pos + len
        in if pos \<ge> hp_end hp then None
           else Some (ret, rt\<lparr>heaps := (heaps rt)[heap_id := hp\<lparr>hp_pos := pos\<rparr>]\<rparr>)
      else None)"

definition rumboot_malloc_from_heap :: "nat \<Rightarrow> u32 \<Rightarrow> runtime \<Rightarrow> (u32 \<times> runtime) option" where
  "rumboot_malloc_from_heap heap_id len rt = rumboot_malloc_from_heap_misaligned heap_id len 4 0 rt"

definition rumboot_malloc_from_heap_aligned :: "nat \<Rightarrow> u32 \<Rightarrow> u32 \<Rightarrow> runtime \<Rightarrow> (u32 \<times> runtime) option" where
  "rumboot_malloc_from_heap_aligned heap_id sz align rt =
     rumboot_malloc_from_heap_misaligned heap_id sz align 0 rt"

definition rumboot_malloc :: "u32 \<Rightarrow> runtime \<Rightarrow> (u32 \<times> runtime) option" where
  "rumboot_malloc len rt = rumboot_malloc_from_heap 0 len rt"

definition rumboot_free :: "u32 \<Rightarrow> runtime \<Rightarrow> runtime" where
  "rumboot_free ptr rt = rt"

text \<open>The loops over the first \<open>num_heaps\<close> entries, from an index on; \<open>-1\<close> when none matches.\<close>

function heap_search :: "(rumboot_heap \<Rightarrow> bool) \<Rightarrow> nat \<Rightarrow> runtime \<Rightarrow> int" where
  "heap_search found i rt =
     (if i < num_heaps rt then
        if found (heaps rt ! i) then int i else heap_search found (i + 1) rt
      else -1)"
  by pat_completeness auto
termination by (relation "measure (\<lambda>(_, i, rt). num_heaps rt - i)") auto

definition rumboot_malloc_heap_by_addr :: "u32 \<Rightarrow> runtime \<Rightarrow> int" where
  "rumboot_malloc_heap_by_addr addr rt = heap_search (\<lambda>hp. hp_start hp \<le> addr \<and> addr < hp_end hp) 0 rt"

definition rumboot_malloc_heap_by_name :: "string \<Rightarrow> runtime \<Rightarrow> int" where
  "rumboot_malloc_heap_by_name name rt = heap_search (\<lambda>hp. hp_name hp = name) 0 rt"

definition rumboot_malloc_heap_name :: "nat \<Rightarrow> runtime \<Rightarrow> string option" where
  "rumboot_malloc_heap_name heap_id rt =
     (if heap_id < num_heaps rt then Some (hp_name (heaps rt ! heap_id)) else None)"

definition rumboot_malloc_num_heaps :: "runtime \<Rightarrow> nat" where
  "rumboot_malloc_num_heaps rt = num_heaps rt"

definition rumboot_malloc_heap_length :: "nat \<Rightarrow> runtime \<Rightarrow> u32" where
  "rumboot_malloc_heap_length heap_id rt =
     (if heap_id < num_heaps rt then hp_end (heaps rt ! heap_id) - hp_start (heaps rt ! heap_id) else 0)"

text \<open>The loop that looks for an entry without a start address.\<close>

function free_slot :: "nat \<Rightarrow> rumboot_heap list \<Rightarrow> nat" where
  "free_slot i hs =
     (if i < length hs then if hp_start (hs ! i) \<noteq> 0 then free_slot (i + 1) hs else i else i)"
  by pat_completeness auto
termination by (relation "measure (\<lambda>(i, hs). length hs - i)") auto

definition rumboot_malloc_register_heap ::
  "string \<Rightarrow> u32 \<Rightarrow> u32 \<Rightarrow> runtime \<Rightarrow> (int \<times> runtime) option" where
  "rumboot_malloc_register_heap name heap_start heap_end rt =
     (if heap_start = heap_end then Some (-1, rt)
      else if heap_end < heap_start then None
      else let i = free_slot 0 (heaps rt) in
        if i = length (heaps rt) then None
        else Some (int i,
          rt\<lparr>heaps := (heaps rt)[i := \<lparr>hp_start = heap_start, hp_end = heap_end, hp_pos = heap_start,
                                      hp_save = heap_start, hp_name = name\<rparr>],
             num_heaps := num_heaps rt + 1\<rparr>))"

text \<open>The loop over the first \<open>num_heaps\<close> entries that saves or restores the positions.\<close>

definition rumboot_malloc_update_heaps :: "bool \<Rightarrow> runtime \<Rightarrow> runtime" where
  "rumboot_malloc_update_heaps save rt =
     rt\<lparr>heaps := map (\<lambda>hp. if save then hp\<lparr>hp_save := hp_pos hp\<rparr> else hp\<lparr>hp_pos := hp_save hp\<rparr>)
                   (take (num_heaps rt) (heaps rt)) @ drop (num_heaps rt) (heaps rt)\<rparr>"

definition rumboot_memdup :: "u32 \<Rightarrow> u32 \<Rightarrow> runtime \<Rightarrow> mem \<Rightarrow> (u32 \<times> runtime \<times> mem) option" where
  "rumboot_memdup src len rt m =
     (case rumboot_malloc len rt of
        None \<Rightarrow> None
      | Some (ret, rt) \<Rightarrow>
          if ret = 0 then None else Some (ret, rt, mem_write m ret (mem_read m src (unat len))))"

definition rumboot_malloc_from_named_heap_misaligned ::
  "string \<Rightarrow> u32 \<Rightarrow> u32 \<Rightarrow> u32 \<Rightarrow> runtime \<Rightarrow> (u32 \<times> runtime) option" where
  "rumboot_malloc_from_named_heap_misaligned heap_name len align misalign rt =
     (let id = rumboot_malloc_heap_by_name heap_name rt in
      if id < 0 then None else rumboot_malloc_from_heap_misaligned (nat id) len align misalign rt)"

definition rumboot_malloc_from_named_heap :: "string \<Rightarrow> u32 \<Rightarrow> runtime \<Rightarrow> (u32 \<times> runtime) option" where
  "rumboot_malloc_from_named_heap heap_name len rt =
     rumboot_malloc_from_named_heap_misaligned heap_name len 4 0 rt"

definition rumboot_malloc_from_named_heap_aligned ::
  "string \<Rightarrow> u32 \<Rightarrow> u32 \<Rightarrow> runtime \<Rightarrow> (u32 \<times> runtime) option" where
  "rumboot_malloc_from_named_heap_aligned heap_name sz align rt =
     rumboot_malloc_from_named_heap_misaligned heap_name sz align 0 rt"

declare heap_search.simps [simp del] free_slot.simps [simp del]

section \<open>One allocation\<close>

text \<open>A request from \<open>hp\<close> that cannot wrap around the end of the address space.\<close>

definition no_wrap :: "rumboot_heap \<Rightarrow> u32 \<Rightarrow> u32 \<Rightarrow> u32 \<Rightarrow> bool" where
  "no_wrap hp len align misalign \<longleftrightarrow>
     unat (hp_pos hp) + unat align + unat misalign + unat len < 2 ^ 32"

text \<open>The specification: the address as a natural number.\<close>

definition align_up :: "nat \<Rightarrow> nat \<Rightarrow> nat" where
  "align_up a p = (if a \<noteq> 0 \<and> p mod a \<noteq> 0 then p + (a - p mod a) else p)"

definition block_start :: "rumboot_heap \<Rightarrow> u32 \<Rightarrow> u32 \<Rightarrow> nat" where
  "block_start hp align misalign = align_up (unat align) (unat (hp_pos hp)) + unat misalign"

lemma align_up_bounds: "p \<le> align_up a p" "align_up a p \<le> p + a"
  unfolding align_up_def by (simp_all only: le_add1 order_refl add_left_mono diff_le_self split: if_split) simp_all

lemma align_up_multiple: "a \<noteq> 0 \<Longrightarrow> align_up a p mod a = 0"
proof -
  assume nz: "a \<noteq> 0"
  then have "p mod a < a" by simp
  moreover have "a * (p div a) + p mod a = p" by (rule mult_div_mod_eq)
  moreover have "a * (p div a + 1) = a * (p div a) + a" by simp
  ultimately have "p + (a - p mod a) = a * (p div a + 1)" by linarith
  then have "(p + (a - p mod a)) mod a = 0" by (simp only: mod_mult_self1_is_0)
  then show ?thesis unfolding align_up_def using nz by auto
qed

lemma malloc_position:
  fixes p :: u32
  assumes "unat p + unat align < 2 ^ 32"
  defines "pad \<equiv> (if align \<noteq> 0 then p mod align else 0)"
  shows "unat (if pad \<noteq> 0 then p + (align - pad) else p) = align_up (unat align) (unat p)"
proof (cases "pad = 0")
  case True
  then have "align = 0 \<or> unat p mod unat align = 0"
    by (simp add: pad_def unsigned_eq_0_iff flip: unat_mod_distrib split: if_splits)
  then show ?thesis using True by (auto simp: align_up_def)
next
  case False
  then have a: "align \<noteq> 0" "pad = p mod align" by (auto simp: pad_def split: if_splits)
  then have u: "unat pad = unat p mod unat align" by (simp add: unat_mod_distrib)
  then have nz: "unat p mod unat align \<noteq> 0" "unat align \<noteq> 0"
    using False a(1) by (simp_all add: unsigned_eq_0_iff flip: u)
  then have lt: "unat p mod unat align < unat align" by simp
  then have "unat (align - pad) = unat align - unat p mod unat align"
    by (simp add: unat_sub word_le_nat_alt u)
  then have "unat (p + (align - pad)) = unat p + (unat align - unat p mod unat align)"
    using assms(1) by (simp add: unat_word_ariths)
  then show ?thesis using False nz by (simp add: align_up_def)
qed

lemma block_bounds:
  "unat (hp_pos hp) + unat misalign \<le> block_start hp align misalign"
  "block_start hp align misalign \<le> unat (hp_pos hp) + unat align + unat misalign"
  using align_up_bounds [where p = "unat (hp_pos hp)" and a = "unat align"] by (auto simp: block_start_def)

lemma malloc_steps:
  assumes "no_wrap hp len align misalign"
  defines "pad \<equiv> (if align \<noteq> 0 then hp_pos hp mod align else 0)"
  defines "pos \<equiv> (if pad \<noteq> 0 then hp_pos hp + (align - pad) else hp_pos hp)"
  shows "unat (pos + misalign) = block_start hp align misalign"
    "unat (pos + misalign + len) = block_start hp align misalign + unat len"
proof -
  have s: "unat (hp_pos hp) + unat align + unat misalign + unat len < 2 ^ 32"
    using assms(1) by (simp add: no_wrap_def)
  then have "unat pos = align_up (unat align) (unat (hp_pos hp))"
    unfolding pos_def pad_def by (intro malloc_position) simp
  then have "unat pos + unat misalign = block_start hp align misalign" by (simp add: block_start_def)
  moreover have "block_start hp align misalign + unat len < 2 ^ 32"
    using block_bounds(2) [of hp align misalign] s by simp
  ultimately show "unat (pos + misalign) = block_start hp align misalign"
    "unat (pos + misalign + len) = block_start hp align misalign + unat len"
    by (simp_all add: unat_word_ariths)
qed

lemma malloc_spec:
  assumes "heap_id < length (heaps rt)" "no_wrap (heaps rt ! heap_id) len align misalign"
  defines "hp \<equiv> heaps rt ! heap_id"
  defines "a \<equiv> block_start hp align misalign"
  shows "rumboot_malloc_from_heap_misaligned heap_id len align misalign rt =
    (if a + unat len < unat (hp_end hp) then
       Some (of_nat a, rt\<lparr>heaps := (heaps rt)[heap_id := hp\<lparr>hp_pos := of_nat (a + unat len)\<rparr>]\<rparr>)
     else None)"
proof -
  have eq: "x = of_nat n" if "unat x = n" for x :: u32 and n using that by auto
  note st = malloc_steps [OF assms(2), folded hp_def a_def]
  show ?thesis
    using assms(1) eq [OF st(1)] eq [OF st(2)] st
    by (simp add: rumboot_malloc_from_heap_misaligned_def Let_def hp_def [symmetric] word_le_nat_alt not_less)
qed


section \<open>Sequences of allocations\<close>

text \<open>Heaps that are sane: positions inside, and no two registered heaps overlap.\<close>

definition heap_ok :: "rumboot_heap \<Rightarrow> bool" where
  "heap_ok hp \<longleftrightarrow> hp_start hp \<le> hp_pos hp \<and> hp_pos hp \<le> hp_end hp"

definition heaps_ok :: "runtime \<Rightarrow> bool" where
  "heaps_ok rt \<longleftrightarrow> (\<forall>i < length (heaps rt). heap_ok (heaps rt ! i)) \<and>
     (\<forall>i < length (heaps rt). \<forall>j < length (heaps rt). i \<noteq> j \<longrightarrow>
        hp_end (heaps rt ! i) \<le> hp_start (heaps rt ! j) \<or> hp_end (heaps rt ! j) \<le> hp_start (heaps rt ! i))"

text \<open>A block is an address and a length. \<open>run\<close> performs requests until one panics.\<close>

type_synonym request = "nat \<times> u32 \<times> u32 \<times> u32"

fun run :: "request list \<Rightarrow> runtime \<Rightarrow> (u32 \<times> u32) list \<Rightarrow> (u32 \<times> u32) list \<times> runtime" where
  "run [] rt blocks = (blocks, rt)"
| "run ((heap_id, len, align, misalign) # reqs) rt blocks =
     (case rumboot_malloc_from_heap_misaligned heap_id len align misalign rt of
        None \<Rightarrow> (blocks, rt)
      | Some (ret, rt) \<Rightarrow> run reqs rt (blocks @ [(ret, len)]))"

definition request_ok :: "runtime \<Rightarrow> request \<Rightarrow> bool" where
  "request_ok rt r \<longleftrightarrow> (case r of (heap_id, len, align, misalign) \<Rightarrow> heap_id < length (heaps rt) \<longrightarrow>
     unat (hp_end (heaps rt ! heap_id)) + unat align + unat misalign + unat len < 2 ^ 32)"

definition apart :: "u32 \<times> u32 \<Rightarrow> u32 \<times> u32 \<Rightarrow> bool" where
  "apart b c \<longleftrightarrow> unat (fst b) + unat (snd b) \<le> unat (fst c) \<or> unat (fst c) + unat (snd c) \<le> unat (fst b)"

text \<open>Each block lies in the used part of a heap.\<close>

definition block_used :: "runtime \<Rightarrow> u32 \<times> u32 \<Rightarrow> bool" where
  "block_used rt b \<longleftrightarrow> (\<exists>i < length (heaps rt). hp_start (heaps rt ! i) \<le> fst b \<and>
     unat (fst b) + unat (snd b) \<le> unat (hp_pos (heaps rt ! i)))"

definition blocks_ok :: "runtime \<Rightarrow> (u32 \<times> u32) list \<Rightarrow> bool" where
  "blocks_ok rt blocks \<longleftrightarrow> heaps_ok rt \<and> (\<forall>b \<in> set blocks. block_used rt b) \<and>
     sorted_wrt apart blocks"

text \<open>What a successful request changes.\<close>

lemma malloc_success:
  assumes ok: "heaps_ok rt" and req: "request_ok rt (heap_id, len, align, misalign)"
    and m: "rumboot_malloc_from_heap_misaligned heap_id len align misalign rt = Some (ret, rt')"
  obtains hp hp' where "heap_id < length (heaps rt)" "hp = heaps rt ! heap_id"
    "rt' = rt\<lparr>heaps := (heaps rt)[heap_id := hp']\<rparr>" "hp' = hp\<lparr>hp_pos := hp_pos hp'\<rparr>"
    "unat ret = block_start hp align misalign" "unat (hp_pos hp) \<le> unat ret"
    "unat (hp_pos hp') = unat ret + unat len" "hp_pos hp' < hp_end hp"
proof -
  have i: "heap_id < length (heaps rt)"
    using m by (auto simp: rumboot_malloc_from_heap_misaligned_def split: if_splits)
  let ?hp = "heaps rt ! heap_id"
  have "unat (hp_pos ?hp) \<le> unat (hp_end ?hp)"
    using ok i by (auto simp: heaps_ok_def heap_ok_def word_le_nat_alt)
  then have nw: "no_wrap ?hp len align misalign"
    using req i by (simp add: request_ok_def no_wrap_def)
  let ?a = "block_start ?hp align misalign"
  have "?a + unat len < 2 ^ 32"
    using block_bounds(2) [of ?hp align misalign] nw unfolding no_wrap_def by linarith
  then have u: "unat (of_nat ?a :: u32) = ?a" "unat (of_nat (?a + unat len) :: u32) = ?a + unat len"
    by (simp_all only: unat_of_nat_u32)
  have r: "?a + unat len < unat (hp_end ?hp)" "ret = of_nat ?a"
    "rt' = rt\<lparr>heaps := (heaps rt)[heap_id := ?hp\<lparr>hp_pos := of_nat (?a + unat len)\<rparr>]\<rparr>"
    using m unfolding malloc_spec [OF i nw] by (auto split: if_splits)
  show thesis
  proof (rule that [of ?hp "?hp\<lparr>hp_pos := of_nat (?a + unat len)\<rparr>"])
    show "hp_pos (?hp\<lparr>hp_pos := of_nat (?a + unat len)\<rparr>) < hp_end ?hp"
      using r(1) u(2) by (simp add: word_less_nat_alt)
    show "unat (hp_pos ?hp) \<le> unat ret"
      using block_bounds(1) [of ?hp misalign align] by (simp add: r(2) u(1))
  qed (use i r u in simp_all)
qed

lemma blocks_step:
  assumes ok: "blocks_ok rt blocks" and req: "request_ok rt (heap_id, len, align, misalign)"
    and m: "rumboot_malloc_from_heap_misaligned heap_id len align misalign rt = Some (ret, rt')"
  shows "blocks_ok rt' (blocks @ [(ret, len)])"
    and "length (heaps rt') = length (heaps rt)"
    and "\<And>i. i < length (heaps rt) \<Longrightarrow> hp_start (heaps rt' ! i) = hp_start (heaps rt ! i) \<and>
           hp_end (heaps rt' ! i) = hp_end (heaps rt ! i)"
proof -
  have hok: "heaps_ok rt" using ok by (simp add: blocks_ok_def)
  obtain hp hp' where i: "heap_id < length (heaps rt)" "hp = heaps rt ! heap_id"
    and rt': "rt' = rt\<lparr>heaps := (heaps rt)[heap_id := hp']\<rparr>" "hp' = hp\<lparr>hp_pos := hp_pos hp'\<rparr>"
    and a: "unat (hp_pos hp) \<le> unat ret" "unat (hp_pos hp') = unat ret + unat len" "hp_pos hp' < hp_end hp"
    by (rule malloc_success [OF hok req m])
  have hp': "hp_start hp' = hp_start hp" "hp_end hp' = hp_end hp" by (subst rt'(2), simp)+
  show len: "length (heaps rt') = length (heaps rt)" by (simp add: rt'(1))
  show same: "hp_start (heaps rt' ! k) = hp_start (heaps rt ! k) \<and> hp_end (heaps rt' ! k) = hp_end (heaps rt ! k)"
    if "k < length (heaps rt)" for k
    using that hp' i by (cases "k = heap_id") (simp_all add: rt'(1))
  have hpok: "heap_ok hp" using hok i by (simp add: heaps_ok_def)
  have ok': "heap_ok hp'"
    using hpok a by (auto simp: heap_ok_def hp' word_le_nat_alt word_less_nat_alt)
  have nth: "heaps rt' ! k = (if k = heap_id then hp' else heaps rt ! k)" if "k < length (heaps rt)" for k
    using that i by (simp add: rt'(1))
  have hk: "heap_ok (heaps rt' ! k)" if "k < length (heaps rt)" for k
    using hok ok' that nth [OF that] by (simp add: heaps_ok_def)
  have hok': "heaps_ok rt'"
    unfolding heaps_ok_def len using hk
  proof (intro conjI allI impI)
    fix k l assume "k < length (heaps rt)" "l < length (heaps rt)" "k \<noteq> l"
    then show "hp_end (heaps rt' ! k) \<le> hp_start (heaps rt' ! l) \<or> hp_end (heaps rt' ! l) \<le> hp_start (heaps rt' ! k)"
      using hok same [of k] same [of l] by (simp add: heaps_ok_def)
  qed
  have mono: "unat (hp_pos (heaps rt ! k)) \<le> unat (hp_pos (heaps rt' ! k))" if "k < length (heaps rt)" for k
    using that i(2) a by (simp add: nth)
  have old: "block_used rt' b" if b: "block_used rt b" for b
  proof -
    obtain k where k: "k < length (heaps rt)" "hp_start (heaps rt ! k) \<le> fst b"
      "unat (fst b) + unat (snd b) \<le> unat (hp_pos (heaps rt ! k))"
      using b by (auto simp: block_used_def)
    then show ?thesis
      unfolding block_used_def len using mono [OF k(1)] same [OF k(1)]
      by (intro exI [of _ k] conjI) (simp_all)
  qed
  have new: "block_used rt' (ret, len)"
    unfolding block_used_def len
  proof (intro exI conjI)
    show "hp_start (heaps rt' ! heap_id) \<le> fst (ret, len)"
      using a(1) hpok hp' nth [OF i(1)] by (simp add: heap_ok_def word_le_nat_alt)
    show "unat (fst (ret, len)) + unat (snd (ret, len)) \<le> unat (hp_pos (heaps rt' ! heap_id))"
      using a(2) nth [OF i(1)] by simp
  qed (rule i(1))
  have "apart b (ret, len)" if b: "block_used rt b" for b
  proof -
    obtain k where k: "k < length (heaps rt)" "hp_start (heaps rt ! k) \<le> fst b"
      "unat (fst b) + unat (snd b) \<le> unat (hp_pos (heaps rt ! k))"
      using b by (auto simp: block_used_def)
    have ko: "unat (hp_pos (heaps rt ! k)) \<le> unat (hp_end (heaps rt ! k))"
      using hok k(1) by (auto simp: heaps_ok_def heap_ok_def word_le_nat_alt)
    show ?thesis
    proof (cases "k = heap_id")
      case True
      then show ?thesis using k(3) a(1) i(2) by (simp add: apart_def)
    next
      case False
      then have "hp_end (heaps rt ! k) \<le> hp_start hp \<or> hp_end hp \<le> hp_start (heaps rt ! k)"
        using hok k(1) i by (simp add: heaps_ok_def)
      then show ?thesis
        using k(2,3) ko a hpok unfolding apart_def heap_ok_def word_le_nat_alt word_less_nat_alt fst_conv snd_conv
        by linarith
    qed
  qed
  then show "blocks_ok rt' (blocks @ [(ret, len)])"
    using ok old new hok' unfolding blocks_ok_def sorted_wrt_append by simp
qed

lemma run_blocks:
  assumes "blocks_ok rt blocks" "\<forall>r \<in> set reqs. request_ok rt r"
  shows "case run reqs rt blocks of (blocks', rt') \<Rightarrow> blocks_ok rt' blocks' \<and>
    length (heaps rt') = length (heaps rt) \<and> (\<forall>i < length (heaps rt).
      hp_start (heaps rt' ! i) = hp_start (heaps rt ! i) \<and> hp_end (heaps rt' ! i) = hp_end (heaps rt ! i))"
  using assms
proof (induction reqs rt blocks rule: run.induct)
  case (1 rt blocks)
  then show ?case by simp
next
  case (2 heap_id len align misalign reqs rt blocks)
  show ?case
  proof (cases "rumboot_malloc_from_heap_misaligned heap_id len align misalign rt")
    case None
    then show ?thesis using 2 by simp
  next
    case (Some r)
    obtain ret rt1 where r: "r = (ret, rt1)" by (cases r)
    note m = Some [unfolded r]
    have rq: "request_ok rt (heap_id, len, align, misalign)" using "2.prems"(2) by simp
    note st = blocks_step [OF "2.prems"(1) rq m]
    have "request_ok rt1 q" if "request_ok rt q" for q
      using that st(2,3) by (auto simp: request_ok_def)
    then have "\<forall>q \<in> set reqs. request_ok rt1 q" using "2.prems"(2) by simp
    from "2.IH" [OF m refl st(1) this] show ?thesis using st(2,3) m by (auto split: prod.splits)
  qed
qed

text \<open>C21: Allocations never overlap. From heaps that do not overlap, whatever sequence of requests
  is served until one panics, the blocks returned are pairwise disjoint, each lies inside one
  heap and strictly before its end, provided no request is so large that 32-bit arithmetic
  wraps around.\<close>

theorem allocations_disjoint:
  assumes "heaps_ok rt" "\<forall>r \<in> set reqs. request_ok rt r" "run reqs rt [] = (blocks, rt')"
  shows "sorted_wrt apart blocks \<and> heaps_ok rt' \<and>
    (\<forall>b \<in> set blocks. \<exists>i < length (heaps rt). hp_start (heaps rt ! i) \<le> fst b \<and>
       unat (fst b) + unat (snd b) \<le> unat (hp_end (heaps rt ! i)))"
proof -
  have "blocks_ok rt []" using assms(1) by (simp add: blocks_ok_def)
  from run_blocks [OF this assms(2)] have r: "blocks_ok rt' blocks" "length (heaps rt') = length (heaps rt)"
    "\<forall>i < length (heaps rt). hp_start (heaps rt' ! i) = hp_start (heaps rt ! i) \<and>
       hp_end (heaps rt' ! i) = hp_end (heaps rt ! i)"
    using assms(3) by simp_all
  have "\<exists>i < length (heaps rt). hp_start (heaps rt ! i) \<le> fst b \<and>
       unat (fst b) + unat (snd b) \<le> unat (hp_end (heaps rt ! i))" if b: "b \<in> set blocks" for b
  proof -
    obtain k where k: "k < length (heaps rt')" "hp_start (heaps rt' ! k) \<le> fst b"
      "unat (fst b) + unat (snd b) \<le> unat (hp_pos (heaps rt' ! k))"
      using r(1) b by (auto simp: blocks_ok_def block_used_def)
    have "unat (hp_pos (heaps rt' ! k)) \<le> unat (hp_end (heaps rt' ! k))"
      using r(1) k(1) by (auto simp: blocks_ok_def heaps_ok_def heap_ok_def word_le_nat_alt)
    then show ?thesis using k r(2,3) by (intro exI [of _ k]) auto
  qed
  then show ?thesis using r(1) by (auto simp: blocks_ok_def)
qed

text \<open>What one allocation returns, on every branch. When the request cannot wrap around, the
  result is the first address from the position of the heap on that is a multiple of \<open>align\<close>
  (any address for \<open>align\<close> 0) plus \<open>misalign\<close>, and the position moves behind the block; the
  allocator panics exactly when the block would reach or pass the end of the heap, so a heap can
  never be used up to its last byte.\<close>

theorem malloc_functional:
  assumes "heap_id < length (heaps rt)" "no_wrap (heaps rt ! heap_id) len align misalign"
  shows "rumboot_malloc_from_heap_misaligned heap_id len align misalign rt =
    (let hp = heaps rt ! heap_id;
         a = align_up (unat align) (unat (hp_pos hp)) + unat misalign
     in if a + unat len < unat (hp_end hp) then
          Some (of_nat a, rt\<lparr>heaps := (heaps rt)[heap_id := hp\<lparr>hp_pos := of_nat (a + unat len)\<rparr>]\<rparr>)
        else None)"
  unfolding malloc_spec [OF assms] by (simp add: block_start_def Let_def)

text \<open>Without that proviso the allocator hands out memory that is not there. A request that
  reaches past the end of the address space is granted, and the heap's position moves backwards,
  so that later blocks overlap earlier ones.\<close>

theorem malloc_wraps_around:
  assumes "heap_id < length (heaps rt)" "hp = heaps rt ! heap_id" "heap_ok hp" "hp_pos hp mod 4 = 0"
    and "unat (hp_pos hp) + unat len \<ge> 2 ^ 32"
  shows "rumboot_malloc_from_heap heap_id len rt =
      Some (hp_pos hp, rt\<lparr>heaps := (heaps rt)[heap_id := hp\<lparr>hp_pos := hp_pos hp + len\<rparr>]\<rparr>) \<and>
    hp_pos hp + len < hp_pos hp"
proof -
  have b: "unat len < 2 ^ 32" "unat (hp_pos hp) < 2 ^ 32" by simp_all
  have "unat (hp_pos hp + len) = (unat (hp_pos hp) + unat len) mod 2 ^ 32"
    by (simp add: unat_word_ariths)
  also have "\<dots> = unat (hp_pos hp) + unat len - 2 ^ 32"
    using b assms(5) by (subst le_mod_geq, simp, intro mod_less, linarith)
  finally have l: "hp_pos hp + len < hp_pos hp"
    using b assms(5) unfolding word_less_nat_alt by linarith
  then have "\<not> hp_end hp \<le> hp_pos hp + len" using assms(3) by (auto simp: heap_ok_def)
  then show ?thesis using l assms(1,4)
    by (simp add: rumboot_malloc_from_heap_def rumboot_malloc_from_heap_misaligned_def assms(2) [symmetric] Let_def)
qed

lemma heap_search_found:
  assumes "i \<le> k" "k < num_heaps rt" "f (heaps rt ! k)" "\<forall>j < k. i \<le> j \<longrightarrow> \<not> f (heaps rt ! j)"
  shows "heap_search f i rt = int k"
  using assms
proof (induction f i rt rule: heap_search.induct)
  case (1 f i rt)
  show ?case
  proof (cases "i = k")
    case True
    then show ?thesis using 1 by (subst heap_search.simps) simp
  next
    case False
    then have "i < num_heaps rt" "\<not> f (heaps rt ! i)" using 1 by simp_all
    moreover have "heap_search f (i + 1) rt = int k"
      using False 1 by simp
    ultimately show ?thesis by (subst heap_search.simps) simp
  qed
qed

text \<open>The heap of a block is found again from its address: \<open>rumboot_malloc_heap_by_addr\<close> of
  the address of a block answers the number of the heap it came from.\<close>

theorem heap_by_addr_of_block:
  assumes ok: "heaps_ok rt" and id: "heap_id < num_heaps rt" "num_heaps rt \<le> length (heaps rt)"
    and req: "request_ok rt (heap_id, len, align, misalign)"
    and m: "rumboot_malloc_from_heap_misaligned heap_id len align misalign rt = Some (ret, rt')"
  shows "rumboot_malloc_heap_by_addr ret rt' = int heap_id"
proof -
  obtain hp hp' where hp: "hp = heaps rt ! heap_id" and rt': "rt' = rt\<lparr>heaps := (heaps rt)[heap_id := hp']\<rparr>"
      "hp' = hp\<lparr>hp_pos := hp_pos hp'\<rparr>"
    and a: "unat (hp_pos hp) \<le> unat ret" "unat (hp_pos hp') = unat ret + unat len" "hp_pos hp' < hp_end hp"
    by (rule malloc_success [OF ok req m])
  have st: "blocks_ok rt []" using ok by (simp add: blocks_ok_def)
  note same = blocks_step(3) [OF st req m]
  have n: "num_heaps rt' = num_heaps rt" by (simp add: rt'(1))
  let ?f = "\<lambda>hp. hp_start hp \<le> ret \<and> ret < hp_end hp"
  have "heap_ok hp" using ok id by (simp add: heaps_ok_def hp)
  then have inside: "hp_start hp \<le> ret" "ret < hp_end hp"
    using a unfolding heap_ok_def word_le_nat_alt word_less_nat_alt by linarith+
  show ?thesis
    unfolding rumboot_malloc_heap_by_addr_def
  proof (rule heap_search_found)
    show "?f (heaps rt' ! heap_id)" using inside same [of heap_id] id by (simp add: hp)
    show "\<forall>j < heap_id. 0 \<le> j \<longrightarrow> \<not> ?f (heaps rt' ! j)"
    proof (intro allI impI)
      fix j assume j: "j < heap_id"
      then have "hp_end (heaps rt ! j) \<le> hp_start hp \<or> hp_end hp \<le> hp_start (heaps rt ! j)"
        using ok id by (simp add: heaps_ok_def hp)
      then show "\<not> ?f (heaps rt' ! j)" using inside same [of j] j id by auto
    qed
  qed (use id n in simp_all)
qed

section \<open>Registering heaps, saving and restoring\<close>

text \<open>Registering a heap beside the others keeps them apart; entries without a start are empty.\<close>

lemma free_slot_spec:
  "i \<le> length hs \<Longrightarrow> i \<le> free_slot i hs \<and> free_slot i hs \<le> length hs \<and>
    (\<forall>j. i \<le> j \<and> j < free_slot i hs \<longrightarrow> hp_start (hs ! j) \<noteq> 0) \<and>
    (free_slot i hs < length hs \<longrightarrow> hp_start (hs ! free_slot i hs) = 0)"
proof (induction i hs rule: free_slot.induct)
  case (1 i hs)
  show ?case
  proof (cases "i < length hs \<and> hp_start (hs ! i) \<noteq> 0")
    case True
    with 1 have "i + 1 \<le> free_slot (i + 1) hs \<and> free_slot (i + 1) hs \<le> length hs \<and>
      (\<forall>j. i + 1 \<le> j \<and> j < free_slot (i + 1) hs \<longrightarrow> hp_start (hs ! j) \<noteq> 0) \<and>
      (free_slot (i + 1) hs < length hs \<longrightarrow> hp_start (hs ! free_slot (i + 1) hs) = 0)" by auto
    moreover have "free_slot i hs = free_slot (i + 1) hs"
      using True by (subst free_slot.simps) simp
    ultimately show ?thesis using True by (metis Suc_eq_plus1 Suc_leI Suc_leD le_neq_implies_less)
  next
    case False
    then have "free_slot i hs = i" by (subst free_slot.simps) auto
    then show ?thesis using False 1 by auto
  qed
qed

lemma register_heap_ok:
  assumes "heaps_ok rt" "heap_start < heap_end"
    and "\<And>i. i < length (heaps rt) \<Longrightarrow> hp_end (heaps rt ! i) \<le> heap_start \<or> heap_end \<le> hp_start (heaps rt ! i)"
    and "rumboot_malloc_register_heap name heap_start heap_end rt = Some (i, rt')"
  shows "heaps_ok rt' \<and> 0 \<le> i \<and> hp_start (heaps rt ! nat i) = 0 \<and> num_heaps rt' = num_heaps rt + 1"
proof -
  let ?k = "free_slot 0 (heaps rt)"
  have k: "?k < length (heaps rt)" "i = int ?k" and rt': "num_heaps rt' = num_heaps rt + 1"
    "heaps rt' = (heaps rt)[?k := \<lparr>hp_start = heap_start, hp_end = heap_end, hp_pos = heap_start,
                                      hp_save = heap_start, hp_name = name\<rparr>]"
    using assms(2,4) free_slot_spec [of 0 "heaps rt"]
    by (auto simp: rumboot_malloc_register_heap_def Let_def split: if_splits)
  have "heaps_ok rt'"
    using assms(1,2,3) k(1) unfolding heaps_ok_def rt'(2) length_list_update
    by (auto simp: nth_list_update heap_ok_def)
  then show ?thesis using k free_slot_spec [of 0 "heaps rt"] rt' by auto
qed

text \<open>Restoring undoes every allocation from the registered heaps since the last save.\<close>

lemma restore_after_save:
  assumes "i < num_heaps rt" "i < length (heaps rt)" "num_heaps rt' = num_heaps rt"
    and "length (heaps rt') = length (heaps rt)"
    and "hp_save (heaps rt' ! i) = hp_save (heaps (rumboot_malloc_update_heaps True rt) ! i)"
  shows "hp_pos (heaps (rumboot_malloc_update_heaps False rt') ! i) = hp_pos (heaps rt ! i)"
  using assms by (simp add: rumboot_malloc_update_heaps_def nth_append)

section \<open>Witnesses\<close>

definition two_heaps :: runtime where
  "two_heaps = \<lparr>num_heaps = 2, heaps =
     [\<lparr>hp_start = 0x1000, hp_end = 0x2000, hp_pos = 0x1001, hp_save = 0x1000, hp_name = ''IM0''\<rparr>,
      \<lparr>hp_start = 0xFFFF0000, hp_end = 0xFFFFF000, hp_pos = 0xFFFF0000, hp_save = 0xFFFF0000, hp_name = ''DDR''\<rparr>]\<rparr>"

lemma two_heaps_ok: "heaps_ok two_heaps"
proof -
  have len: "length (heaps two_heaps) = 2" by (simp add: two_heaps_def)
  have all2: "(\<forall>i < (2 :: nat). P i) \<longleftrightarrow> P 0 \<and> P 1" for P by (auto simp: less_2_cases_iff)
  show ?thesis
    unfolding heaps_ok_def len all2 by (simp add: heap_ok_def two_heaps_def)
qed

theorem allocations_disjoint_witness:
  "sorted_wrt apart [(0x1008, 16), (0x1020, 4)] \<and>
   heaps_ok (snd (run [(0, 16, 8, 0), (0, 4, 16, 0)] two_heaps []))"
proof -
  let ?reqs = "[(0, 16, 8, 0), (0, 4, 16, 0)]"
  have "fst (run ?reqs two_heaps []) = [(0x1008, 16), (0x1020, 4)]"
    by (simp add: two_heaps_def rumboot_malloc_from_heap_misaligned_def)
  then have r: "run ?reqs two_heaps [] = ([(0x1008, 16), (0x1020, 4)], snd (run ?reqs two_heaps []))"
    by (metis prod.collapse)
  have "\<forall>r \<in> set ?reqs. request_ok two_heaps r" by (simp add: request_ok_def two_heaps_def)
  from allocations_disjoint [OF two_heaps_ok this r] show ?thesis by blast
qed

theorem malloc_functional_witness:
  "rumboot_malloc_from_heap_misaligned 0 0x20 0x10 2 two_heaps =
     Some (0x1012, two_heaps\<lparr>heaps := (heaps two_heaps)[0 := (heaps two_heaps ! 0)\<lparr>hp_pos := 0x1032\<rparr>]\<rparr>)"
  using malloc_functional [of 0 two_heaps "0x20" "0x10" 2]
  by (simp add: two_heaps_def no_wrap_def align_up_def Let_def)

theorem malloc_wraps_around_witness:
  "rumboot_malloc_from_heap 1 0x20000 two_heaps =
     Some (0xFFFF0000, two_heaps\<lparr>heaps := (heaps two_heaps)[1 := (heaps two_heaps ! 1)\<lparr>hp_pos := 0x10000\<rparr>]\<rparr>)"
  using malloc_wraps_around [of 1 two_heaps "heaps two_heaps ! 1" "0x20000"]
  by (simp add: two_heaps_def heap_ok_def)

theorem heap_by_addr_of_block_witness:
  "rumboot_malloc_heap_by_addr 0xFFFF0000
     (two_heaps\<lparr>heaps := (heaps two_heaps)[1 := (heaps two_heaps ! 1)\<lparr>hp_pos := 0xFFFF0010\<rparr>]\<rparr>) = 1"
proof -
  have "rumboot_malloc_from_heap_misaligned 1 0x10 4 0 two_heaps = Some (0xFFFF0000,
      two_heaps\<lparr>heaps := (heaps two_heaps)[1 := (heaps two_heaps ! 1)\<lparr>hp_pos := 0xFFFF0010\<rparr>]\<rparr>)"
    by (simp add: two_heaps_def rumboot_malloc_from_heap_misaligned_def)
  from heap_by_addr_of_block [OF two_heaps_ok _ _ _ this] show ?thesis
    by (simp add: two_heaps_def request_ok_def)
qed

end
