(* ===== verification/Heatshrink_Encoder.thy ===== *)
theory Heatshrink_Encoder
  imports Heatshrink_Decoder
begin

text \<open>
  The compressor, \<open>src/lib/algo/heatshrink_encoder.c\<close>, in the static configuration with the search
  index: a window of \<open>2 ^ 11\<close> bytes and lookahead of \<open>2 ^ 4\<close>. The C buffer of \<open>2 * 2 ^ 11\<close> bytes holds
  the backlog and behind it the input. The output side is the \<open>output_info\<close> of the decoder, which
  the C file declares once more. \<open>None\<close> is a loop that does not end.
\<close>

section \<open>State\<close>

datatype hse_state =
    HSES_NOT_FULL
  | HSES_FILLED
  | HSES_SEARCH
  | HSES_YIELD_TAG_BIT
  | HSES_YIELD_LITERAL
  | HSES_YIELD_BR_INDEX
  | HSES_YIELD_BR_LENGTH
  | HSES_SAVE_BACKLOG
  | HSES_FLUSH_BITS
  | HSES_DONE

datatype hse_sink_res = HSER_SINK_OK | HSER_SINK_ERROR_NULL | HSER_SINK_ERROR_MISUSE
datatype hse_poll_res = HSER_POLL_EMPTY | HSER_POLL_MORE | HSER_POLL_ERROR_NULL | HSER_POLL_ERROR_MISUSE
datatype hse_finish_res = HSER_FINISH_DONE | HSER_FINISH_MORE

record heatshrink_encoder =
  he_input_size :: u16
  he_match_scan_index :: u16
  he_match_length :: u16
  he_match_pos :: u16
  he_outgoing_bits :: u16
  he_outgoing_bits_count :: u8
  he_flags :: u8
  he_st :: hse_state
  he_current_byte :: u8
  he_bit_index :: u8
  he_index :: "16 word list"
  he_buffer :: "u8 list"

definition FLAG_IS_FINISHING :: u8 where "FLAG_IS_FINISHING = 0x01"
definition MATCH_NOT_FOUND :: u16 where "MATCH_NOT_FOUND = 0xFFFF"
definition HEATSHRINK_LITERAL_MARKER :: u8 where "HEATSHRINK_LITERAL_MARKER = 0x01"
definition HEATSHRINK_BACKREF_MARKER :: u8 where "HEATSHRINK_BACKREF_MARKER = 0x00"

section \<open>Small helpers\<close>

definition get_input_buffer_size :: u16 where
  "get_input_buffer_size = push_bit HEATSHRINK_STATIC_WINDOW_BITS 1"

definition get_input_offset :: u16 where "get_input_offset = get_input_buffer_size"

definition get_lookahead_size :: u16 where
  "get_lookahead_size = push_bit HEATSHRINK_STATIC_LOOKAHEAD_BITS 1"

definition is_finishing :: "heatshrink_encoder \<Rightarrow> bool" where
  "is_finishing h \<longleftrightarrow> he_flags h AND FLAG_IS_FINISHING \<noteq> 0"

definition can_take_byte :: "output_info \<Rightarrow> bool" where
  "can_take_byte oi \<longleftrightarrow> length (oi_buf oi) < oi_buf_size oi"

section \<open>Reset, sink, finish\<close>

text \<open>As in C the index and \<open>match_pos\<close> are left as they are.\<close>

definition heatshrink_encoder_reset :: "heatshrink_encoder \<Rightarrow> heatshrink_encoder" where
  "heatshrink_encoder_reset h =
     h\<lparr>he_buffer := replicate (2 * 2 ^ HEATSHRINK_STATIC_WINDOW_BITS) 0, he_input_size := 0,
       he_st := HSES_NOT_FULL, he_match_scan_index := 0, he_flags := 0, he_bit_index := 0x80,
       he_current_byte := 0, he_match_length := 0, he_outgoing_bits := 0, he_outgoing_bits_count := 0\<rparr>"

text \<open>A buffer is passed as its address, which is compared with NULL, beside the bytes found there or the room.\<close>

definition heatshrink_encoder_sink ::
  "heatshrink_encoder \<Rightarrow> u32 \<Rightarrow> u8 list \<Rightarrow> hse_sink_res \<times> heatshrink_encoder \<times> nat" where
  "heatshrink_encoder_sink h in_buf bytes =
     (if in_buf = 0 then (HSER_SINK_ERROR_NULL, h, 0)
      else if is_finishing h then (HSER_SINK_ERROR_MISUSE, h, 0)
      else if he_st h \<noteq> HSES_NOT_FULL then (HSER_SINK_ERROR_MISUSE, h, 0)
      else
        let write_offset = get_input_offset + he_input_size h;
            rem = get_input_buffer_size - he_input_size h;
            cp_sz = (if unat rem < length bytes then rem else of_nat (length bytes));
            h = h\<lparr>he_buffer := array_write (he_buffer h) (unat write_offset) (take (unat cp_sz) bytes),
                  he_input_size := he_input_size h + cp_sz\<rparr>
        in (HSER_SINK_OK, if cp_sz = rem then h\<lparr>he_st := HSES_FILLED\<rparr> else h, unat cp_sz))"

definition heatshrink_encoder_finish :: "heatshrink_encoder \<Rightarrow> hse_finish_res \<times> heatshrink_encoder" where
  "heatshrink_encoder_finish h =
     (let h = h\<lparr>he_flags := he_flags h OR FLAG_IS_FINISHING\<rparr>;
          h = (if he_st h = HSES_NOT_FULL then h\<lparr>he_st := HSES_FILLED\<rparr> else h)
      in (if he_st h = HSES_DONE then HSER_FINISH_DONE else HSER_FINISH_MORE, h))"

section \<open>Bit output\<close>

fun push_bits_loop :: "nat \<Rightarrow> u8 \<Rightarrow> heatshrink_encoder \<Rightarrow> output_info \<Rightarrow> heatshrink_encoder \<times> output_info" where
  "push_bits_loop 0 bits h oi = (h, oi)"
| "push_bits_loop (Suc i) bits h oi =
     (let h = (if bits AND push_bit i 1 \<noteq> 0
               then h\<lparr>he_current_byte := he_current_byte h OR he_bit_index h\<rparr> else h);
          h = h\<lparr>he_bit_index := drop_bit 1 (he_bit_index h)\<rparr>
      in if he_bit_index h = 0 then
           push_bits_loop i bits (h\<lparr>he_bit_index := 0x80, he_current_byte := 0\<rparr>)
             (push_byte oi (he_current_byte h))
         else push_bits_loop i bits h oi)"

definition push_bits ::
  "heatshrink_encoder \<Rightarrow> nat \<Rightarrow> u8 \<Rightarrow> output_info \<Rightarrow> heatshrink_encoder \<times> output_info" where
  "push_bits h count bits oi =
     (if count = 8 \<and> he_bit_index h = 0x80 then (h, push_byte oi bits)
      else push_bits_loop count bits h oi)"

definition add_tag_bit :: "heatshrink_encoder \<Rightarrow> output_info \<Rightarrow> u8 \<Rightarrow> heatshrink_encoder \<times> output_info" where
  "add_tag_bit h oi tag = push_bits h 1 tag oi"

definition push_outgoing_bits ::
  "heatshrink_encoder \<Rightarrow> output_info \<Rightarrow> nat \<times> heatshrink_encoder \<times> output_info" where
  "push_outgoing_bits h oi =
     (let (count, bits) =
            (if unat (he_outgoing_bits_count h) > 8
             then (8, ucast (drop_bit (unat (he_outgoing_bits_count h) - 8) (he_outgoing_bits h)))
             else (unat (he_outgoing_bits_count h), ucast (he_outgoing_bits h)))
      in if count > 0 then
           let (h, oi) = push_bits h count bits oi
           in (count, h\<lparr>he_outgoing_bits_count := he_outgoing_bits_count h - of_nat count\<rparr>, oi)
         else (count, h, oi))"

definition push_literal_byte :: "heatshrink_encoder \<Rightarrow> output_info \<Rightarrow> heatshrink_encoder \<times> output_info" where
  "push_literal_byte h oi =
     (let processed_offset = he_match_scan_index h - 1;
          input_offset = get_input_offset + processed_offset
      in push_bits h 8 (he_buffer h ! unat input_offset) oi)"

section \<open>Search\<close>

text \<open>The loop over the buffer; \<open>last\<close> is the array of the last position of every byte.\<close>

fun do_indexing_loop :: "nat \<Rightarrow> nat \<Rightarrow> u8 list \<Rightarrow> 16 word list \<Rightarrow> 16 word list \<Rightarrow> 16 word list" where
  "do_indexing_loop 0 i data last_pos index = index"
| "do_indexing_loop (Suc n) i data last_pos index =
     (let v = unat (data ! i); lv = last_pos ! v
      in do_indexing_loop n (Suc i) data (last_pos[v := of_nat i]) (index[i := lv]))"

definition do_indexing :: "heatshrink_encoder \<Rightarrow> heatshrink_encoder" where
  "do_indexing h =
     (let end = get_input_offset + he_input_size h
      in h\<lparr>he_index := do_indexing_loop (unat end) 0 (he_buffer h) (replicate 256 0xFFFF) (he_index h)\<rparr>)"

text \<open>How many bytes at \<open>p\<close> and \<open>q\<close> agree, from \<open>len\<close> on and at most \<open>maxlen\<close>.\<close>

function match_len :: "u8 list \<Rightarrow> nat \<Rightarrow> nat \<Rightarrow> nat \<Rightarrow> nat \<Rightarrow> nat" where
  "match_len buf p q len maxlen =
     (if len < maxlen \<and> buf ! (p + len) = buf ! (q + len) then match_len buf p q (len + 1) maxlen else len)"
  by pat_completeness auto
termination by (relation "measure (\<lambda>(_, _, _, len, maxlen). maxlen - len)") auto

partial_function (option) find_match_loop ::
  "heatshrink_encoder \<Rightarrow> u16 \<Rightarrow> u16 \<Rightarrow> nat \<Rightarrow> 16 word \<Rightarrow> nat \<Rightarrow> u16 \<Rightarrow> (nat \<times> u16) option" where
  "find_match_loop h start end maxlen pos match_maxlen match_index =
     (if sint pos - sint start \<ge> 0 then
        let p = nat (sint pos); q = unat end in
        if he_buffer h ! (p + match_maxlen) \<noteq> he_buffer h ! (q + match_maxlen) then
          find_match_loop h start end maxlen (he_index h ! p) match_maxlen match_index
        else
          let len = match_len (he_buffer h) p q 1 maxlen in
          if len > match_maxlen then
            (if len = maxlen then Some (len, pos)
             else find_match_loop h start end maxlen (he_index h ! p) len pos)
          else find_match_loop h start end maxlen (he_index h ! p) match_maxlen match_index
      else Some (match_maxlen, match_index))"

text \<open>The result is \<open>match_pos\<close> with the value stored in \<open>match_length\<close>.\<close>

definition find_longest_match ::
  "heatshrink_encoder \<Rightarrow> u16 \<Rightarrow> u16 \<Rightarrow> u16 \<Rightarrow> (u16 \<times> u16) option" where
  "find_longest_match h start end maxlen =
     (case find_match_loop h start end (unat maxlen) (he_index h ! unat end) 0 MATCH_NOT_FOUND of
        None \<Rightarrow> None
      | Some (match_maxlen, match_index) \<Rightarrow>
          let break_even_point = 1 + HEATSHRINK_STATIC_WINDOW_BITS + HEATSHRINK_STATIC_LOOKAHEAD_BITS
          in Some (if match_maxlen > break_even_point div 8
                   then (end - match_index, of_nat match_maxlen) else (MATCH_NOT_FOUND, 0)))"

section \<open>The state machine\<close>

definition st_step_search :: "heatshrink_encoder \<Rightarrow> (hse_state \<times> heatshrink_encoder) option" where
  "st_step_search h =
     (let window_length = get_input_buffer_size; lookahead_sz = get_lookahead_size;
          msi = he_match_scan_index h; fin = is_finishing h
      in if uint msi > uint (he_input_size h) - (if fin then 1 else uint lookahead_sz) then
           Some (if fin then HSES_FLUSH_BITS else HSES_SAVE_BACKLOG, h)
         else
           let end = get_input_offset + msi; start = end - window_length;
               max_possible = (if uint (he_input_size h) - uint msi < uint lookahead_sz
                               then he_input_size h - msi else lookahead_sz)
           in case find_longest_match h start end max_possible of
                None \<Rightarrow> None
              | Some (match_pos, match_length) \<Rightarrow>
                  if match_pos = MATCH_NOT_FOUND then
                    Some (HSES_YIELD_TAG_BIT,
                          h\<lparr>he_match_scan_index := he_match_scan_index h + 1, he_match_length := 0\<rparr>)
                  else Some (HSES_YIELD_TAG_BIT,
                          h\<lparr>he_match_pos := match_pos, he_match_length := match_length\<rparr>))"

definition st_yield_tag_bit ::
  "heatshrink_encoder \<Rightarrow> output_info \<Rightarrow> hse_state \<times> heatshrink_encoder \<times> output_info" where
  "st_yield_tag_bit h oi =
     (if can_take_byte oi then
        if he_match_length h = 0 then
          let (h, oi) = add_tag_bit h oi HEATSHRINK_LITERAL_MARKER in (HSES_YIELD_LITERAL, h, oi)
        else
          let (h, oi) = add_tag_bit h oi HEATSHRINK_BACKREF_MARKER
          in (HSES_YIELD_BR_INDEX,
              h\<lparr>he_outgoing_bits := he_match_pos h - 1,
                he_outgoing_bits_count := of_nat HEATSHRINK_STATIC_WINDOW_BITS\<rparr>, oi)
      else (HSES_YIELD_TAG_BIT, h, oi))"

text \<open>Named apart from the decoder's function of the same name.\<close>

definition enc_yield_literal ::
  "heatshrink_encoder \<Rightarrow> output_info \<Rightarrow> hse_state \<times> heatshrink_encoder \<times> output_info" where
  "enc_yield_literal h oi =
     (if can_take_byte oi then let (h, oi) = push_literal_byte h oi in (HSES_SEARCH, h, oi)
      else (HSES_YIELD_LITERAL, h, oi))"

definition st_yield_br_index ::
  "heatshrink_encoder \<Rightarrow> output_info \<Rightarrow> hse_state \<times> heatshrink_encoder \<times> output_info" where
  "st_yield_br_index h oi =
     (if can_take_byte oi then
        let (count, h, oi) = push_outgoing_bits h oi in
        if count > 0 then (HSES_YIELD_BR_INDEX, h, oi)
        else (HSES_YIELD_BR_LENGTH,
              h\<lparr>he_outgoing_bits := he_match_length h - 1,
                he_outgoing_bits_count := of_nat HEATSHRINK_STATIC_LOOKAHEAD_BITS\<rparr>, oi)
      else (HSES_YIELD_BR_INDEX, h, oi))"

definition st_yield_br_length ::
  "heatshrink_encoder \<Rightarrow> output_info \<Rightarrow> hse_state \<times> heatshrink_encoder \<times> output_info" where
  "st_yield_br_length h oi =
     (if can_take_byte oi then
        let (count, h, oi) = push_outgoing_bits h oi in
        if count > 0 then (HSES_YIELD_BR_LENGTH, h, oi)
        else (HSES_SEARCH,
              h\<lparr>he_match_scan_index := he_match_scan_index h + he_match_length h,
                he_match_length := 0\<rparr>, oi)
      else (HSES_YIELD_BR_LENGTH, h, oi))"

definition save_backlog :: "heatshrink_encoder \<Rightarrow> heatshrink_encoder" where
  "save_backlog h =
     (let input_buf_sz = get_input_buffer_size; msi = he_match_scan_index h;
          rem = input_buf_sz - msi; shift_sz = input_buf_sz + rem
      in h\<lparr>he_buffer := array_write (he_buffer h) 0
                          (take (unat shift_sz) (drop (unat (input_buf_sz - rem)) (he_buffer h))),
           he_match_scan_index := 0,
           he_input_size := he_input_size h - (input_buf_sz - rem)\<rparr>)"

definition st_save_backlog :: "heatshrink_encoder \<Rightarrow> hse_state \<times> heatshrink_encoder" where
  "st_save_backlog h = (HSES_NOT_FULL, save_backlog h)"

definition st_flush_bit_buffer ::
  "heatshrink_encoder \<Rightarrow> output_info \<Rightarrow> hse_state \<times> heatshrink_encoder \<times> output_info" where
  "st_flush_bit_buffer h oi =
     (if he_bit_index h = 0x80 then (HSES_DONE, h, oi)
      else if can_take_byte oi then (HSES_DONE, h, push_byte oi (he_current_byte h))
      else (HSES_FLUSH_BITS, h, oi))"

text \<open>
  One round of the \<open>switch\<close> in \<open>heatshrink_encoder_poll\<close>: \<open>Inl\<close> returns to the caller.
  \<open>HSES_FLUSH_BITS\<close> falls through into \<open>HSES_DONE\<close>.
\<close>

definition hse_step ::
  "heatshrink_encoder \<Rightarrow> output_info
     \<Rightarrow> ((hse_poll_res \<times> heatshrink_encoder \<times> output_info) + (heatshrink_encoder \<times> output_info)) option" where
  "hse_step h oi =
     (case he_st h of
        HSES_NOT_FULL \<Rightarrow> Some (Inl (HSER_POLL_EMPTY, h, oi))
      | HSES_FILLED \<Rightarrow> Some (Inr ((do_indexing h)\<lparr>he_st := HSES_SEARCH\<rparr>, oi))
      | HSES_SEARCH \<Rightarrow> map_option (\<lambda>(s, h). Inr (h\<lparr>he_st := s\<rparr>, oi)) (st_step_search h)
      | HSES_YIELD_TAG_BIT \<Rightarrow> let (s, h, oi) = st_yield_tag_bit h oi in Some (Inr (h\<lparr>he_st := s\<rparr>, oi))
      | HSES_YIELD_LITERAL \<Rightarrow> let (s, h, oi) = enc_yield_literal h oi in Some (Inr (h\<lparr>he_st := s\<rparr>, oi))
      | HSES_YIELD_BR_INDEX \<Rightarrow> let (s, h, oi) = st_yield_br_index h oi in Some (Inr (h\<lparr>he_st := s\<rparr>, oi))
      | HSES_YIELD_BR_LENGTH \<Rightarrow> let (s, h, oi) = st_yield_br_length h oi in Some (Inr (h\<lparr>he_st := s\<rparr>, oi))
      | HSES_SAVE_BACKLOG \<Rightarrow> let (s, h) = st_save_backlog h in Some (Inr (h\<lparr>he_st := s\<rparr>, oi))
      | HSES_FLUSH_BITS \<Rightarrow> let (s, h, oi) = st_flush_bit_buffer h oi
                          in Some (Inl (HSER_POLL_EMPTY, h\<lparr>he_st := s\<rparr>, oi))
      | HSES_DONE \<Rightarrow> Some (Inl (HSER_POLL_EMPTY, h, oi)))"

partial_function (option) hse_poll_loop ::
  "heatshrink_encoder \<Rightarrow> output_info \<Rightarrow> (hse_poll_res \<times> heatshrink_encoder \<times> output_info) option"
where
  "hse_poll_loop h oi =
     (case hse_step h oi of
        None \<Rightarrow> None
      | Some (Inl r) \<Rightarrow> Some r
      | Some (Inr (h', oi')) \<Rightarrow>
          if he_st h' = he_st h \<and> length (oi_buf oi') = oi_buf_size oi'
          then Some (HSER_POLL_MORE, h', oi')
          else hse_poll_loop h' oi')"

definition heatshrink_encoder_poll ::
  "heatshrink_encoder \<Rightarrow> u32 \<Rightarrow> nat \<Rightarrow> (hse_poll_res \<times> heatshrink_encoder \<times> u8 list) option" where
  "heatshrink_encoder_poll h out_buf out_buf_size =
     (if out_buf = 0 then Some (HSER_POLL_ERROR_NULL, h, [])
      else if out_buf_size = 0 then Some (HSER_POLL_ERROR_MISUSE, h, [])
      else map_option (\<lambda>(res, h, oi). (res, h, oi_buf oi))
             (hse_poll_loop h \<lparr>oi_buf = [], oi_buf_size = out_buf_size\<rparr>))"

declare match_len.simps [simp del]

end
