(* ===== verification/Encoder_Correct.thy ===== *)
theory Encoder_Correct
  imports Heatshrink_Encoder
begin

text \<open>
  Correctness of the compressor. \<open>codes\<close> says what a bit string decodes to, \<open>enc_bits\<close> describes the
  partly filled output byte, \<open>chain_ok\<close> the search index, \<open>enc_ok\<close> the invariant of the state machine
  with the tokens in flight. Every round of the machine keeps the invariant and makes progress or
  stops for lack of room, so a poll returns; \<open>enc_run\<close> are the sequences of calls of the interface.
\<close>

section \<open>What a bit string decodes to\<close>

definition codes :: "bool list \<Rightarrow> u8 list \<Rightarrow> bool" where
  "codes bits out \<longleftrightarrow> (\<forall>rest. lzss (bits @ rest) [] = lzss rest out) \<and> length bits \<le> 9 * length out"

lemma codes_Nil: "codes [] []"
  by (simp add: codes_def)

lemma of_bits_to_bits_small: "take_bit n w = w \<Longrightarrow> of_bits (to_bits n (w :: 'a::len word)) = w"
  by (simp add: of_bits_to_bits)

lemma take_bit_small: "unat (w :: 'a::len word) < 2 ^ n \<Longrightarrow> take_bit n w = w"
  by (metis take_bit_nat_eq_self unsigned_take_bit_eq unsigned_word_eqI)

lemma less_8_cases: "(n :: nat) < 8 \<Longrightarrow> n \<in> {0, 1, 2, 3, 4, 5, 6, 7}"
  by (simp only: insert_iff empty_iff) presburger

lemma codes_literal:
  assumes "codes bits out"
  shows "codes (bits @ True # to_bits 8 c) (out @ [c])"
proof -
  have "lzss (True # to_bits 8 c @ rest) out = lzss rest (out @ [c])" for rest
    by (simp add: of_bits_to_bits take_bit_word_eq_self)
  then show ?thesis using assms by (simp add: codes_def)
qed

lemma codes_backref:
  fixes d l :: u16
  assumes "codes bits out" "1 \<le> unat d" "unat d \<le> 2048" "3 \<le> unat l" "unat l \<le> 16"
  shows "codes (bits @ False # to_bits 11 (d - 1) @ to_bits 4 (l - 1)) (copy_back (unat l) (unat d) out)"
proof -
  have u: "unat (d - 1) = unat d - 1" "unat (l - 1) = unat l - 1"
    using assms(2,4) by (simp_all add: unat_sub word_le_nat_alt)
  then have t: "of_bits (to_bits 11 (d - 1)) = d - 1" "of_bits (to_bits 4 (l - 1)) = l - 1"
    using assms(3,5) by (simp_all add: of_bits_to_bits take_bit_small)
  have "lzss (False # to_bits 11 (d - 1) @ to_bits 4 (l - 1) @ rest) out
      = lzss rest (copy_back (unat l) (unat d) out)" for rest
    using assms(2,4) by (simp add: t u)
  then show ?thesis using assms(1,4) by (simp add: codes_def)
qed

lemma codes_pad: "codes bits out \<Longrightarrow> length pad < 8 \<Longrightarrow> lzss (bits @ pad) [] = out"
  by (cases pad; cases "hd pad") (auto simp: codes_def dest: spec [of _ "[]"])

section \<open>Bits on their way to the output\<close>

text \<open>\<open>p\<close> are the bits that wait in \<open>current_byte\<close>.\<close>

definition enc_bits :: "heatshrink_encoder \<Rightarrow> bool list \<Rightarrow> bool" where
  "enc_bits h p \<longleftrightarrow> length p < 8 \<and> he_bit_index h = drop_bit (length p) 0x80 \<and>
     he_current_byte h = of_bits (p @ replicate (8 - length p) False)"

lemma set_next_bit:
  assumes "length p < 8"
  shows "(of_bits (p @ replicate (8 - length p) False) :: u8) OR (if b then drop_bit (length p) 0x80 else 0)
    = of_bits (p @ b # replicate (7 - length p) False)"
proof (rule bit_word_eqI)
  fix i assume "i < LENGTH(8)"
  then have i: "i < 8" by simp
  have m: "bit (drop_bit n (0x80 :: u8)) j \<longleftrightarrow> n + j = 7" for n j
    using bit_push_bit_iff [of 7 "1 :: u8" "n + j"] by (auto simp: bit_1_iff bit_drop_bit_eq)
  show "bit (of_bits (p @ replicate (8 - length p) False) OR (if b then drop_bit (length p) 0x80 else 0) :: u8) i
      = bit (of_bits (p @ b # replicate (7 - length p) False) :: u8) i"
    using assms i by (auto simp: bit_or_iff bit_of_bits m nth_append nth_Cons')
qed

lemma of_bits_zeros: "of_bits (replicate n False) = 0"
  by (rule bit_word_eqI) (auto simp: bit_of_bits)

lemma next_index:
  assumes "length p < 8"
  shows "drop_bit 1 (drop_bit (length p) (0x80 :: u8)) = drop_bit (length p + 1) 0x80"
    "drop_bit (length p + 1) (0x80 :: u8) = 0 \<longleftrightarrow> length p = 7"
proof -
  have "length p \<in> {0, 1, 2, 3, 4, 5, 6, 7}" using assms by (rule less_8_cases)
  then show "drop_bit (length p + 1) (0x80 :: u8) = 0 \<longleftrightarrow> length p = 7" by auto
qed simp

text \<open>Output only changes these two fields.\<close>

definition same_but_bits :: "heatshrink_encoder \<Rightarrow> heatshrink_encoder \<Rightarrow> bool" where
  "same_but_bits h h' \<longleftrightarrow> h' = h\<lparr>he_bit_index := he_bit_index h', he_current_byte := he_current_byte h'\<rparr>"

lemma push_bits_loop_correct:
  assumes "enc_bits h p" "n \<le> 8"
  shows "\<exists>h' p' bs. push_bits_loop n bits h oi = (h', oi\<lparr>oi_buf := oi_buf oi @ bs\<rparr>) \<and>
    same_but_bits h h' \<and> enc_bits h' p' \<and> bits_of_bytes bs @ p' = p @ to_bits n bits"
  using assms
proof (induction n arbitrary: h p oi)
  case 0
  then show ?case
    by (intro exI [of _ h] exI [of _ p] exI [of _ "[]"]) (simp add: same_but_bits_def to_bits_def)
next
  case (Suc i)
  define b where "b = bit bits i"
  have tb: "(bits AND push_bit i 1 \<noteq> 0) = b"
    by (simp add: b_def bit_iff_and_push_bit_not_eq_0)
  have p: "length p < 8" "he_bit_index h = drop_bit (length p) 0x80"
    "he_current_byte h = of_bits (p @ replicate (8 - length p) False)"
    using Suc.prems by (simp_all add: enc_bits_def)
  define h1 where "h1 = h\<lparr>he_current_byte := of_bits (p @ b # replicate (7 - length p) False),
    he_bit_index := drop_bit (length p + 1) 0x80\<rparr>"
  have h1: "(if bits AND push_bit i 1 \<noteq> 0
               then h\<lparr>he_current_byte := he_current_byte h OR he_bit_index h\<rparr> else h)\<lparr>he_bit_index := 
             drop_bit 1 (he_bit_index (if bits AND push_bit i 1 \<noteq> 0
               then h\<lparr>he_current_byte := he_current_byte h OR he_bit_index h\<rparr> else h))\<rparr> = h1"
    using set_next_bit [OF p(1), of b] next_index(1) [OF p(1)] p(3)
    unfolding tb h1_def by (cases b) (simp_all add: p(2))
  show ?case
  proof (cases "length p = 7")
    case True
    define h2 where "h2 = h1\<lparr>he_bit_index := 0x80, he_current_byte := 0\<rparr>"
    define c where "c = he_current_byte h1"
    have e: "push_bits_loop (Suc i) bits h oi = push_bits_loop i bits h2 (push_byte oi c)"
      using next_index(2) [OF p(1)] True
      by (simp only: push_bits_loop.simps Let_def h1) (simp add: h2_def c_def h1_def)
    have "enc_bits h2 []" by (simp add: enc_bits_def h2_def of_bits_zeros)
    from Suc.IH [OF this, of "push_byte oi c"] Suc.prems(2) obtain h' p' bs where
      r: "push_bits_loop i bits h2 (push_byte oi c) = (h', (push_byte oi c)\<lparr>oi_buf := oi_buf (push_byte oi c) @ bs\<rparr>)"
        "same_but_bits h2 h'" "enc_bits h' p'" "bits_of_bytes bs @ p' = to_bits i bits" by auto
    have "to_bits 8 c = p @ [b]"
      using True by (simp add: c_def h1_def to_bits_of_bits)
    then have "bits_of_bytes (c # bs) @ p' = p @ to_bits (Suc i) bits"
      using r(4) by (simp add: to_bits_Suc b_def)
    moreover have "same_but_bits h h'"
      using r(2) unfolding same_but_bits_def h2_def h1_def by simp
    ultimately show ?thesis using e r(1,3)
      by (intro exI [of _ h'] exI [of _ p'] exI [of _ "c # bs"]) (simp add: push_byte_def)
  next
    case False
    have e: "push_bits_loop (Suc i) bits h oi = push_bits_loop i bits h1 oi"
      using next_index(2) [OF p(1)] False
      by (simp only: push_bits_loop.simps Let_def h1) (simp add: h1_def)
    have "replicate (7 - length p) False = replicate (8 - length (p @ [b])) False" by simp
    then have "enc_bits h1 (p @ [b])" using p(1) False by (simp add: enc_bits_def h1_def)
    from Suc.IH [OF this, of oi] Suc.prems(2) obtain h' p' bs where
      r: "push_bits_loop i bits h1 oi = (h', oi\<lparr>oi_buf := oi_buf oi @ bs\<rparr>)"
        "same_but_bits h1 h'" "enc_bits h' p'" "bits_of_bytes bs @ p' = (p @ [b]) @ to_bits i bits" by auto
    moreover have "same_but_bits h h'"
      using r(2) unfolding same_but_bits_def h1_def by simp
    ultimately show ?thesis using e
      by (intro exI [of _ h'] exI [of _ p'] exI [of _ bs]) (simp add: to_bits_Suc b_def)
  qed
qed

lemma push_bits_correct:
  assumes "enc_bits h p" "n \<le> 8"
  obtains h' p' bs where "push_bits h n bits oi = (h', oi\<lparr>oi_buf := oi_buf oi @ bs\<rparr>)"
    "same_but_bits h h'" "enc_bits h' p'" "bits_of_bytes bs @ p' = p @ to_bits n bits" "length bs \<le> 1"
proof -
  have one: "length bs \<le> 1" if "bits_of_bytes bs @ p' = p @ to_bits n bits" for bs p'
  proof -
    have "length (bits_of_bytes bs @ p') = length p + n" unfolding that by simp
    then have "8 * length bs \<le> length p + n" by simp
    moreover have "length p < 8" using assms(1) by (simp add: enc_bits_def)
    ultimately show ?thesis using assms(2) by linarith
  qed
  show thesis
  proof (cases "n = 8 \<and> he_bit_index h = 0x80")
    case True
    have "length p \<in> {0, 1, 2, 3, 4, 5, 6, 7}"
      using assms(1) by (intro less_8_cases) (simp add: enc_bits_def)
    then have "p = []" using True assms(1) by (auto simp: enc_bits_def)
    then show ?thesis
      using True assms(1) by (intro that [of h "[bits]" p]) (simp_all add: push_bits_def push_byte_def same_but_bits_def)
  next
    case False
    then have "push_bits h n bits oi = push_bits_loop n bits h oi" by (auto simp: push_bits_def)
    with push_bits_loop_correct [OF assms, of bits oi] show ?thesis using that one by metis
  qed
qed

section \<open>The search index\<close>

lemma sint_of_nat16: "n < 32768 \<Longrightarrow> sint (of_nat n :: 16 word) = int n"
  by (simp add: sint_uint unsigned_of_nat signed_take_bit_int_eq_self take_bit_nat_eq_self)

text \<open>Each entry points to an earlier place with the same byte, or is \<open>-1\<close>.\<close>

definition chain_ok :: "u8 list \<Rightarrow> nat \<Rightarrow> 16 word list \<Rightarrow> bool" where
  "chain_ok data n index \<longleftrightarrow> (\<forall>i < n. - 1 \<le> sint (index ! i) \<and> sint (index ! i) < int i \<and>
     (0 \<le> sint (index ! i) \<longrightarrow> data ! nat (sint (index ! i)) = data ! i))"

definition last_ok :: "u8 list \<Rightarrow> nat \<Rightarrow> 16 word list \<Rightarrow> bool" where
  "last_ok data i last_pos \<longleftrightarrow> length last_pos = 256 \<and> (\<forall>v < 256. - 1 \<le> sint (last_pos ! v) \<and>
     sint (last_pos ! v) < int i \<and> (0 \<le> sint (last_pos ! v) \<longrightarrow> unat (data ! nat (sint (last_pos ! v))) = v))"

lemma do_indexing_loop_ok:
  assumes "chain_ok data i index" "last_ok data i last_pos" "i + n \<le> length index" "length index \<le> 4096"
  shows "chain_ok data (i + n) (do_indexing_loop n i data last_pos index) \<and>
    length (do_indexing_loop n i data last_pos index) = length index"
  using assms
proof (induction n arbitrary: i last_pos index)
  case 0
  then show ?case by simp
next
  case (Suc n)
  define v where "v = unat (data ! i)"
  have v: "v < 256" using unsigned_less [of "data ! i"] by (simp add: v_def)
  have si: "sint (of_nat i :: 16 word) = int i" using Suc.prems(3,4) by (intro sint_of_nat16) simp
  define lv where "lv = last_pos ! v"
  have lv: "- 1 \<le> sint lv" "sint lv < int i" "0 \<le> sint lv \<longrightarrow> unat (data ! nat (sint lv)) = v"
    using Suc.prems(2) v by (simp_all add: last_ok_def lv_def)
  have c: "chain_ok data (Suc i) (index[i := lv])"
    unfolding chain_ok_def
  proof (intro allI impI)
    fix k assume k: "k < Suc i"
    show "- 1 \<le> sint (index[i := lv] ! k) \<and> sint (index[i := lv] ! k) < int k \<and>
      (0 \<le> sint (index[i := lv] ! k) \<longrightarrow> data ! nat (sint (index[i := lv] ! k)) = data ! k)"
    proof (cases "k = i")
      case True
      then show ?thesis using lv Suc.prems(3) by (auto simp: v_def unsigned_word_eqI)
    next
      case False
      then show ?thesis using Suc.prems(1) k by (simp add: chain_ok_def)
    qed
  qed
  have l: "last_ok data (Suc i) (last_pos[v := of_nat i])"
    unfolding last_ok_def
  proof (intro conjI allI impI)
    show "length (last_pos[v := of_nat i]) = 256" using Suc.prems(2) by (simp add: last_ok_def)
    fix w assume w: "w < (256 :: nat)"
    have len: "length last_pos = 256" using Suc.prems(2) by (simp add: last_ok_def)
    have "- 1 \<le> sint (last_pos[v := of_nat i] ! w) \<and> sint (last_pos[v := of_nat i] ! w) < int (Suc i) \<and>
      (0 \<le> sint (last_pos[v := of_nat i] ! w) \<longrightarrow> unat (data ! nat (sint (last_pos[v := of_nat i] ! w))) = w)"
    proof (cases "w = v")
      case True
      then show ?thesis using len v by (simp add: si v_def)
    next
      case False
      then show ?thesis using Suc.prems(2) w by (auto simp: last_ok_def)
    qed
    then show "- 1 \<le> sint (last_pos[v := of_nat i] ! w)" "sint (last_pos[v := of_nat i] ! w) < int (Suc i)"
      "0 \<le> sint (last_pos[v := of_nat i] ! w) \<Longrightarrow> unat (data ! nat (sint (last_pos[v := of_nat i] ! w))) = w"
      by simp_all
  qed
  from Suc.IH [OF c l] Suc.prems(3,4) show ?case
    by (simp add: Let_def v_def [symmetric] lv_def [symmetric])
qed

section \<open>Matches\<close>

lemma match_len_spec:
  assumes "len \<le> maxlen" "\<forall>j < len. buf ! (p + j) = buf ! (q + j)"
  shows "len \<le> match_len buf p q len maxlen \<and> match_len buf p q len maxlen \<le> maxlen \<and>
    (\<forall>j < match_len buf p q len maxlen. buf ! (p + j) = buf ! (q + j))"
  using assms
proof (induction buf p q len maxlen rule: match_len.induct)
  case (1 buf p q len maxlen)
  show ?case
  proof (cases "len < maxlen \<and> buf ! (p + len) = buf ! (q + len)")
    case True
    have m: "match_len buf p q len maxlen = match_len buf p q (len + 1) maxlen"
      using True by (subst match_len.simps) simp
    have "\<forall>j < len + 1. buf ! (p + j) = buf ! (q + j)" using True "1.prems"(2) by (auto simp: less_Suc_eq)
    with "1.IH" [OF True] True show ?thesis unfolding m by auto
  next
    case False
    have "match_len buf p q len maxlen = len" using False by (subst match_len.simps) auto
    then show ?thesis using "1.prems" by simp
  qed
qed

definition match_at :: "u8 list \<Rightarrow> u16 \<Rightarrow> nat \<Rightarrow> nat \<Rightarrow> u16 \<Rightarrow> bool" where
  "match_at buf start q mm mi \<longleftrightarrow> sint start \<le> sint mi \<and> sint mi < int q \<and>
     (\<forall>j < mm. buf ! (nat (sint mi) + j) = buf ! (q + j))"

lemma find_match_loop_ok:
  assumes "chain_ok (he_buffer h) n (he_index h)" "unat end = q" "q < n" "1 \<le> maxlen" "0 \<le> sint start"
    and "- 1 \<le> sint pos" "sint pos < int q"
    and "0 \<le> sint pos \<longrightarrow> he_buffer h ! nat (sint pos) = he_buffer h ! q"
    and "mm < maxlen" "mm = 0 \<or> match_at (he_buffer h) start q mm mi"
  shows "\<exists>mm' mi'. find_match_loop h start end maxlen pos mm mi = Some (mm', mi') \<and> mm' \<le> maxlen \<and>
    (mm' = 0 \<or> match_at (he_buffer h) start q mm' mi')"
  using assms(6-)
proof (induction "nat (sint pos + 1)" arbitrary: pos mm mi rule: less_induct)
  case less
  let ?b = "he_buffer h"
  show ?case
  proof (cases "sint pos - sint start \<ge> 0")
    case False
    then have "find_match_loop h start end maxlen pos mm mi = Some (mm, mi)"
      by (subst find_match_loop.simps) simp
    then show ?thesis using less.prems(4,5) by auto
  next
    case True
    define p where "p = nat (sint pos)"
    have p: "int p = sint pos" "p < q" "p < n" "sint start \<le> sint pos"
      using True less.prems(2) assms(3,5) by (auto simp: p_def)
    define nx where "nx = he_index h ! p"
    have nx: "- 1 \<le> sint nx" "sint nx < int p" "0 \<le> sint nx \<longrightarrow> ?b ! nat (sint nx) = ?b ! p"
      using assms(1) p(3) by (simp_all add: chain_ok_def nx_def)
    have same: "?b ! p = ?b ! q" using less.prems(3) p(1) by (simp add: p_def)
    have rec: "\<exists>mm' mi'. find_match_loop h start end maxlen nx mm2 mi2 = Some (mm', mi') \<and> mm' \<le> maxlen \<and>
        (mm' = 0 \<or> match_at ?b start q mm' mi')"
      if "mm2 < maxlen" "mm2 = 0 \<or> match_at ?b start q mm2 mi2" for mm2 mi2
    proof (rule less.hyps)
      show "nat (sint nx + 1) < nat (sint pos + 1)" using nx(1,2) p(1) by simp
    qed (use nx p same that in auto)
    define len where "len = match_len ?b p q 1 maxlen"
    have len: "1 \<le> len" "len \<le> maxlen" "\<forall>j < len. ?b ! (p + j) = ?b ! (q + j)"
      using match_len_spec [of 1 maxlen ?b p q] assms(4) same by (simp_all add: len_def)
    have good: "match_at ?b start q len pos"
      using len(3) p by (simp add: match_at_def p_def [symmetric])
    have unf: "find_match_loop h start end maxlen pos mm mi =
        (if ?b ! (p + mm) \<noteq> ?b ! (q + mm) then find_match_loop h start end maxlen nx mm mi
         else if len > mm then
           (if len = maxlen then Some (len, pos) else find_match_loop h start end maxlen nx len pos)
         else find_match_loop h start end maxlen nx mm mi)"
      using True by (subst find_match_loop.simps) (simp only: True assms(2) Let_def p_def [symmetric] nx_def [symmetric] len_def [symmetric] if_True)
    show ?thesis
      unfolding unf using rec [OF less.prems(4,5)] rec [of len pos] good len by (auto split: if_split)
  qed
qed

lemma find_longest_match_ok:
  assumes "chain_ok (he_buffer h) n (he_index h)" "unat end < n" "n \<le> 4096" "1 \<le> unat maxlen" "unat maxlen \<le> 16"
    and "2048 \<le> unat end" "start = end - 2048"
  shows "\<exists>mp ml. find_longest_match h start end maxlen = Some (mp, ml) \<and>
    (mp = MATCH_NOT_FOUND \<or>
     mp \<noteq> MATCH_NOT_FOUND \<and> 3 \<le> unat ml \<and> unat ml \<le> unat maxlen \<and> 1 \<le> unat mp \<and> unat mp \<le> 2048 \<and>
     (\<forall>j < unat ml. he_buffer h ! (unat end - unat mp + j) = he_buffer h ! (unat end + j)))"
proof -
  have st: "unat start = unat end - 2048"
    using assms(6,7) by (simp add: unat_sub word_le_nat_alt)
  have ss: "sint w = int (unat w)" if "unat w < 32768" for w :: u16
    using sint_of_nat16 [OF that] by simp
  define q where "q = unat end"
  have q: "q < n" "2048 \<le> q" "q < 4096" using assms(2,3,6) by (simp_all add: q_def)
  have s0: "sint start = int (q - 2048)" using ss [of start] st q unfolding q_def [symmetric] by simp
  define pos where "pos = he_index h ! q"
  have pos: "- 1 \<le> sint pos" "sint pos < int q"
    "0 \<le> sint pos \<longrightarrow> he_buffer h ! nat (sint pos) = he_buffer h ! q"
    using assms(1) q(1) by (simp_all add: chain_ok_def pos_def)
  have "0 \<le> sint start" using s0 by simp
  note loop = find_match_loop_ok [OF assms(1) q_def [symmetric] q(1) assms(4) this pos,
      where mm = 0 and mi = MATCH_NOT_FOUND]
  obtain mm mi where r: "find_match_loop h start end (unat maxlen) pos 0 MATCH_NOT_FOUND = Some (mm, mi)"
    "mm \<le> unat maxlen" "mm = 0 \<or> match_at (he_buffer h) start q mm mi"
    using loop assms(4) by auto
  have be: "(1 + HEATSHRINK_STATIC_WINDOW_BITS + HEATSHRINK_STATIC_LOOKAHEAD_BITS) div 8 = (2 :: nat)"
    by (simp add: HEATSHRINK_STATIC_WINDOW_BITS_def HEATSHRINK_STATIC_LOOKAHEAD_BITS_def)
  have f: "find_longest_match h start end maxlen =
      Some (if mm > 2 then (end - mi, of_nat mm) else (MATCH_NOT_FOUND, 0))"
    unfolding find_longest_match_def q_def [symmetric] pos_def [symmetric] r(1) option.case prod.case Let_def be ..
  show ?thesis
  proof (cases "mm > 2")
    case False
    then show ?thesis using f by simp
  next
    case True
    then have m: "match_at (he_buffer h) start q mm mi" using r(3) by simp
    define k where "k = nat (sint mi)"
    have a: "int (q - 2048) \<le> sint mi" "sint mi < int q" using m s0 by (simp_all add: match_at_def)
    then have ki: "sint mi = int k" by (simp add: k_def)
    have k: "sint mi = int k" "q - 2048 \<le> k" "k < q" using a ki by simp_all
    have "of_int (sint mi) = mi" by simp
    then have "mi = of_nat k" by (simp add: k(1))
    then have uk: "unat mi = k" using k(3) q(3) by (simp add: unat_of_nat)
    have up: "unat (end - mi) = q - k"
      using k(3) q_def uk by (simp add: unat_sub word_le_nat_alt)
    have ul: "unat (of_nat mm :: u16) = mm" using r(2) assms(5) by (simp add: unat_of_nat)
    have "unat (end - mi) \<noteq> unat MATCH_NOT_FOUND"
      unfolding up using q(3) by (simp add: MATCH_NOT_FOUND_def)
    then have "end - mi \<noteq> MATCH_NOT_FOUND" by (rule contrapos_nn) (rule arg_cong)
    moreover have "he_buffer h ! (q - (q - k) + j) = he_buffer h ! (q + j)" if "j < mm" for j
      using m that k by (simp add: match_at_def)
    ultimately show ?thesis
      unfolding f q_def [symmetric] using True up ul r(2) k q by (intro exI [of _ "end - mi"] exI [of _ "of_nat mm"]) auto
  qed
qed

section \<open>The invariant\<close>

text \<open>The stream behind the window of zeros from which the encoder starts.\<close>

definition stream :: "u8 list \<Rightarrow> u8 list" where "stream inp = replicate 2048 0 @ inp"

lemma lookback_stream:
  assumes "1 \<le> d" "d \<le> 2048" "k \<le> length inp"
  shows "lookback (take k inp) d = stream inp ! (2048 + k - d)"
  using assms by (auto simp: lookback_def stream_def nth_append)

lemma copy_back_stream:
  assumes "1 \<le> d" "d \<le> 2048" "k + l \<le> length inp"
    and "\<forall>j < l. stream inp ! (2048 + k - d + j) = stream inp ! (2048 + k + j)"
  shows "copy_back l d (take k inp) = take (k + l) inp"
  using assms(3,4)
proof (induction l arbitrary: k)
  case 0
  then show ?case by simp
next
  case (Suc l)
  have "lookback (take k inp) d = stream inp ! (2048 + k)"
    using lookback_stream [OF assms(1,2), of k inp] Suc.prems by (auto dest: spec [of _ 0])
  also have "\<dots> = inp ! k" using Suc.prems(1) by (simp add: stream_def nth_append)
  finally have "take k inp @ [lookback (take k inp) d] = take (Suc k) inp"
    using Suc.prems(1) by (simp add: take_Suc_conv_app_nth)
  moreover have "stream inp ! (2048 + Suc k - d + j) = stream inp ! (2048 + Suc k + j)" if "j < l" for j
  proof -
    have e: "2048 + Suc k - d + j = 2048 + k - d + Suc j" "2048 + Suc k + j = 2048 + k + Suc j"
      using assms(2) by simp_all
    have "Suc j < Suc l" using that by simp
    from Suc.prems(2) [rule_format, OF this] show ?thesis by (simp only: e)
  qed
  ultimately show ?case using Suc.IH [of "Suc k"] Suc.prems(1) by simp
qed

text \<open>\<open>c\<close> bytes of the input have left the input part of the buffer.\<close>

definition he_data :: "u8 list \<Rightarrow> nat \<Rightarrow> heatshrink_encoder \<Rightarrow> bool" where
  "he_data inp c h \<longleftrightarrow> length (he_buffer h) = 4096 \<and> length (he_index h) = 4096 \<and>
     unat (he_input_size h) \<le> 2048 \<and> length inp = c + unat (he_input_size h) \<and>
     unat (he_match_scan_index h) \<le> unat (he_input_size h) \<and>
     (\<forall>j < 2048 + unat (he_input_size h). he_buffer h ! j = stream inp ! (c + j))"

definition match_ok :: "u8 list \<Rightarrow> nat \<Rightarrow> heatshrink_encoder \<Rightarrow> bool" where
  "match_ok inp k h \<longleftrightarrow> 1 \<le> unat (he_match_pos h) \<and> unat (he_match_pos h) \<le> 2048 \<and>
     3 \<le> unat (he_match_length h) \<and> unat (he_match_length h) \<le> 16 \<and>
     k + unat (he_match_length h) \<le> length inp \<and>
     copy_back (unat (he_match_length h)) (unat (he_match_pos h)) (take k inp)
       = take (k + unat (he_match_length h)) inp"

text \<open>What the bits produced so far decode to, in each state.\<close>

definition enc_token :: "u8 list \<Rightarrow> nat \<Rightarrow> bool list \<Rightarrow> heatshrink_encoder \<Rightarrow> bool" where
  "enc_token inp c bits h \<longleftrightarrow>
     (let k = c + unat (he_match_scan_index h);
          pending = to_bits (unat (he_outgoing_bits_count h)) (he_outgoing_bits h)
      in case he_st h of
        HSES_NOT_FULL \<Rightarrow> codes bits (take c inp) \<and> he_match_scan_index h = 0 \<and>
          unat (he_input_size h) < 2048 \<and> \<not> is_finishing h
      | HSES_FILLED \<Rightarrow> codes bits (take c inp) \<and> he_match_scan_index h = 0
      | HSES_SEARCH \<Rightarrow> codes bits (take k inp)
      | HSES_YIELD_TAG_BIT \<Rightarrow>
          if he_match_length h = 0 then he_match_scan_index h \<noteq> 0 \<and> codes bits (take (k - 1) inp)
          else codes bits (take k inp) \<and> match_ok inp k h
      | HSES_YIELD_LITERAL \<Rightarrow>
          he_match_scan_index h \<noteq> 0 \<and> (\<exists>bits0. bits = bits0 @ [True] \<and> codes bits0 (take (k - 1) inp))
      | HSES_YIELD_BR_INDEX \<Rightarrow> match_ok inp k h \<and> unat (he_outgoing_bits_count h) \<le> 11 \<and>
          (\<exists>bits0. bits @ pending = bits0 @ False # to_bits 11 (he_match_pos h - 1) \<and> codes bits0 (take k inp))
      | HSES_YIELD_BR_LENGTH \<Rightarrow> match_ok inp k h \<and> unat (he_outgoing_bits_count h) \<le> 4 \<and>
          (\<exists>bits0. bits @ pending = bits0 @ False # to_bits 11 (he_match_pos h - 1)
              @ to_bits 4 (he_match_length h - 1) \<and> codes bits0 (take k inp))
      | HSES_SAVE_BACKLOG \<Rightarrow> codes bits (take k inp) \<and> unat (he_input_size h) = 2048 \<and>
          2032 < unat (he_match_scan_index h) \<and> \<not> is_finishing h
      | HSES_FLUSH_BITS \<Rightarrow> codes bits inp \<and> is_finishing h
      | HSES_DONE \<Rightarrow> is_finishing h)"

definition indexed :: "hse_state \<Rightarrow> bool" where
  "indexed s \<longleftrightarrow> s \<in> {HSES_SEARCH, HSES_YIELD_TAG_BIT, HSES_YIELD_LITERAL, HSES_YIELD_BR_INDEX, HSES_YIELD_BR_LENGTH}"

text \<open>\<open>out\<close> are the bytes handed to the caller so far.\<close>

definition enc_ok :: "u8 list \<Rightarrow> u8 list \<Rightarrow> heatshrink_encoder \<Rightarrow> bool" where
  "enc_ok inp out h \<longleftrightarrow> (\<exists>c p. he_data inp c h \<and>
     (he_st h \<noteq> HSES_NOT_FULL \<longrightarrow> is_finishing h \<or> unat (he_input_size h) = 2048) \<and>
     (indexed (he_st h) \<longrightarrow> chain_ok (he_buffer h) (2048 + unat (he_input_size h)) (he_index h)) \<and>
     (if he_st h = HSES_DONE then is_finishing h \<and> lzss (bits_of_bytes out) [] = inp \<and> 8 * length out \<le> 9 * length inp + 7
      else enc_bits h p \<and> enc_token inp c (bits_of_bytes out @ p) h))"

definition hse_work :: "heatshrink_encoder \<Rightarrow> nat" where
  "hse_work h =
     (let r = unat (he_input_size h) - unat (he_match_scan_index h); n = unat (he_outgoing_bits_count h)
      in case he_st h of
        HSES_FILLED \<Rightarrow> 40 * r + 31
      | HSES_SEARCH \<Rightarrow> 40 * r + 30
      | HSES_YIELD_TAG_BIT \<Rightarrow> if he_match_length h = 0 then 40 * r + 60 else 40 * r + 29
      | HSES_YIELD_LITERAL \<Rightarrow> 40 * r + 50
      | HSES_YIELD_BR_INDEX \<Rightarrow> 40 * r + 10 + n
      | HSES_YIELD_BR_LENGTH \<Rightarrow> 40 * r + 1 + n
      | HSES_SAVE_BACKLOG \<Rightarrow> 1
      | HSES_FLUSH_BITS \<Rightarrow> 1
      | _ \<Rightarrow> 0)"

lemma same_but_bits_fields:
  assumes "same_but_bits h h'"
  shows "he_input_size h' = he_input_size h" "he_match_scan_index h' = he_match_scan_index h"
    "he_match_length h' = he_match_length h" "he_match_pos h' = he_match_pos h"
    "he_outgoing_bits h' = he_outgoing_bits h" "he_outgoing_bits_count h' = he_outgoing_bits_count h"
    "he_flags h' = he_flags h" "he_st h' = he_st h" "he_index h' = he_index h" "he_buffer h' = he_buffer h"
  by (subst assms [unfolded same_but_bits_def]; simp)+

lemma enc_const:
  "unat get_input_buffer_size = 2048" "get_input_offset = 2048" "unat get_lookahead_size = 16"
  "get_input_buffer_size = 2048" "uint get_lookahead_size = 16" "get_lookahead_size = 16"
  by (simp_all add: get_input_buffer_size_def get_input_offset_def get_lookahead_size_def
      HEATSHRINK_STATIC_WINDOW_BITS_def HEATSHRINK_STATIC_LOOKAHEAD_BITS_def)

lemma enc_bits_frame: "enc_bits h p \<Longrightarrow> he_bit_index h' = he_bit_index h \<Longrightarrow>
    he_current_byte h' = he_current_byte h \<Longrightarrow> enc_bits h' p"
  by (simp add: enc_bits_def)

section \<open>Outgoing bits\<close>

lemma to_bits_ucast: "n \<le> 8 \<Longrightarrow> to_bits n (ucast (w :: u16) :: u8) = to_bits n w"
  by (rule nth_equalityI) (auto simp: to_bits_def bit_ucast_iff)

lemma to_bits_split: "8 < n \<Longrightarrow> n \<le> 16 \<Longrightarrow> to_bits n w = to_bits 8 (ucast (drop_bit (n - 8) (w :: u16)) :: u8) @ to_bits (n - 8) w"
  by (rule nth_equalityI) (auto simp: to_bits_def bit_ucast_iff bit_drop_bit_eq nth_append)

lemma push_outgoing_correct:
  assumes "enc_bits h p" "unat (he_outgoing_bits_count h) \<le> 11"
  obtains count h' p' bs where
    "push_outgoing_bits h oi = (count, h', oi\<lparr>oi_buf := oi_buf oi @ bs\<rparr>)"
    "count = 0 \<longleftrightarrow> unat (he_outgoing_bits_count h) = 0" "length bs \<le> 1"
    "unat (he_outgoing_bits_count h') = unat (he_outgoing_bits_count h) - count" "count \<le> unat (he_outgoing_bits_count h)"
    "same_but_bits h (h'\<lparr>he_outgoing_bits_count := he_outgoing_bits_count h\<rparr>)" "enc_bits h' p'"
    "bits_of_bytes bs @ p' @ to_bits (unat (he_outgoing_bits_count h')) (he_outgoing_bits h)
      = p @ to_bits (unat (he_outgoing_bits_count h)) (he_outgoing_bits h)"
proof -
  let ?n = "unat (he_outgoing_bits_count h)" and ?w = "he_outgoing_bits h"
  define count where "count = (if ?n > 8 then 8 else ?n)"
  define bits :: u8 where "bits = (if ?n > 8 then ucast (drop_bit (?n - 8) ?w) else ucast ?w)"
  have c: "count \<le> 8" "count \<le> ?n" "count = 0 \<longleftrightarrow> ?n = 0" by (auto simp: count_def)
  have tb: "to_bits ?n ?w = to_bits count bits @ to_bits (?n - count) ?w"
    using to_bits_split [of ?n ?w] assms(2) by (auto simp: count_def bits_def to_bits_ucast to_bits_def [of 0])
  show thesis
  proof (cases "count = 0")
    case True
    then have "push_outgoing_bits h oi = (0, h, oi)"
      using c(3) by (simp add: push_outgoing_bits_def)
    then show ?thesis using True c assms(1)
      by (intro that [of 0 h "[]" p]) (simp_all add: same_but_bits_def)
  next
    case False
    obtain h' p' bs where r: "push_bits h count bits oi = (h', oi\<lparr>oi_buf := oi_buf oi @ bs\<rparr>)"
      "same_but_bits h h'" "enc_bits h' p'" "bits_of_bytes bs @ p' = p @ to_bits count bits" "length bs \<le> 1"
      by (rule push_bits_correct [OF assms(1) c(1)])
    define h2 where "h2 = h'\<lparr>he_outgoing_bits_count := he_outgoing_bits_count h' - of_nat count\<rparr>"
    have e: "push_outgoing_bits h oi = (count, h2, oi\<lparr>oi_buf := oi_buf oi @ bs\<rparr>)"
      using False r(1) unfolding push_outgoing_bits_def h2_def
      by (cases "?n > 8") (simp_all add: count_def bits_def)
    note f = same_but_bits_fields [OF r(2)]
    have "unat (of_nat count :: u8) = count" using c(1) by (simp add: unat_of_nat)
    then have u: "unat (he_outgoing_bits_count h2) = ?n - count"
      using c(2) by (simp add: h2_def f unat_sub word_le_nat_alt)
    have "h2\<lparr>he_outgoing_bits_count := he_outgoing_bits_count h\<rparr> = h'"
      by (simp add: h2_def flip: f(6))
    then have s: "same_but_bits h (h2\<lparr>he_outgoing_bits_count := he_outgoing_bits_count h\<rparr>)" using r(2) by simp
    have "enc_bits h2 p'" by (rule enc_bits_frame [OF r(3)]) (simp_all add: h2_def)
    moreover have "bits_of_bytes bs @ p' @ to_bits (unat (he_outgoing_bits_count h2)) ?w = p @ to_bits ?n ?w"
      unfolding u tb using r(4) by simp
    ultimately show ?thesis using that [OF e c(3) r(5) u c(2) s] by blast
  qed
qed

section \<open>One step\<close>

lemma unat_add_u16: "unat a + unat b < 65536 \<Longrightarrow> unat (a + b :: u16) = unat a + unat b"
  by (simp add: unat_add_lem [THEN iffD1])

definition enc_goes ::
  "u8 list \<Rightarrow> u8 list \<Rightarrow> heatshrink_encoder \<Rightarrow> output_info \<Rightarrow> heatshrink_encoder \<Rightarrow> output_info \<Rightarrow> bool" where
  "enc_goes inp out h oi h' oi' \<longleftrightarrow> (\<exists>bs. oi' = oi\<lparr>oi_buf := oi_buf oi @ bs\<rparr> \<and>
     length (oi_buf oi) + length bs \<le> oi_buf_size oi \<and> enc_ok inp (out @ bs) h' \<and>
     is_finishing h' = is_finishing h)"

definition enc_moves :: "heatshrink_encoder \<Rightarrow> heatshrink_encoder \<Rightarrow> output_info \<Rightarrow> bool" where
  "enc_moves h h' oi' \<longleftrightarrow> hse_work h' < hse_work h \<or> he_st h' = he_st h \<and> length (oi_buf oi') = oi_buf_size oi'"

lemma enc_okI:
  assumes "he_data inp c h" "is_finishing h \<or> unat (he_input_size h) = 2048 \<or> he_st h = HSES_NOT_FULL"
    "indexed (he_st h) \<Longrightarrow> chain_ok (he_buffer h) (2048 + unat (he_input_size h)) (he_index h)"
    "he_st h \<noteq> HSES_DONE" "enc_bits h p" "enc_token inp c (bits_of_bytes out @ p) h"
  shows "enc_ok inp out h"
  using assms unfolding enc_ok_def by (intro exI [of _ c] exI [of _ p]) auto

lemma enc_okE:
  assumes "enc_ok inp out h" "he_st h \<noteq> HSES_DONE"
  obtains c p where "he_data inp c h"
    "is_finishing h \<or> unat (he_input_size h) = 2048 \<or> he_st h = HSES_NOT_FULL"
    "indexed (he_st h) \<longrightarrow> chain_ok (he_buffer h) (2048 + unat (he_input_size h)) (he_index h)"
    "enc_bits h p" "enc_token inp c (bits_of_bytes out @ p) h"
  using assms unfolding enc_ok_def by auto

lemma he_data_frame:
  assumes "he_data inp c h" "he_buffer h' = he_buffer h" "length (he_index h') = length (he_index h)"
    "he_input_size h' = he_input_size h" "unat (he_match_scan_index h') \<le> unat (he_input_size h)"
  shows "he_data inp c h'"
  using assms by (simp add: he_data_def)

lemma is_finishing_cong: "he_flags h' = he_flags h \<Longrightarrow> is_finishing h' = is_finishing h"
  by (simp add: is_finishing_def)

lemma bits_of_bytes_append: "bits_of_bytes (xs @ ys) = bits_of_bytes xs @ bits_of_bytes ys"
  by simp

lemma step_filled:
  assumes ok: "enc_ok inp out h" and st: "he_st h = HSES_FILLED" and sz: "length (oi_buf oi) \<le> oi_buf_size oi"
  shows "\<exists>h'. hse_step h oi = Some (Inr (h', oi)) \<and> enc_goes inp out h oi h' oi \<and> enc_moves h h' oi"
proof -
  obtain c p where d: "he_data inp c h"
    "is_finishing h \<or> unat (he_input_size h) = 2048 \<or> he_st h = HSES_NOT_FULL"
    "enc_bits h p" "enc_token inp c (bits_of_bytes out @ p) h"
    using ok st by (auto elim!: enc_okE)
  define h' where "h' = (do_indexing h)\<lparr>he_st := HSES_SEARCH\<rparr>"
  have s: "unat (he_input_size h) \<le> 2048" "length (he_index h) = 4096" using d(1) by (simp_all add: he_data_def)
  have u: "unat (get_input_offset + he_input_size h) = 2048 + unat (he_input_size h)"
    using s(1) by (simp add: enc_const unat_add_u16)
  have "chain_ok (he_buffer h) 0 (he_index h)" "last_ok (he_buffer h) 0 (replicate 256 0xFFFF)"
    by (simp_all add: chain_ok_def last_ok_def)
  from do_indexing_loop_ok [OF this, of "2048 + unat (he_input_size h)"] s
  have ch: "chain_ok (he_buffer h') (2048 + unat (he_input_size h')) (he_index h')" "length (he_index h') = 4096"
    by (simp_all add: h'_def do_indexing_def u)
  have f: "he_buffer h' = he_buffer h" "he_input_size h' = he_input_size h" "he_flags h' = he_flags h"
    "he_match_scan_index h' = he_match_scan_index h" "he_st h' = HSES_SEARCH"
    "he_bit_index h' = he_bit_index h" "he_current_byte h' = he_current_byte h"
    by (simp_all add: h'_def do_indexing_def Let_def)
  have "he_data inp c h'"
    by (rule he_data_frame [OF d(1)]) (use f ch s d(1) in \<open>simp_all add: he_data_def\<close>)
  moreover have "enc_token inp c (bits_of_bytes out @ p) h'"
    using d(4) st by (simp add: enc_token_def Let_def f)
  ultimately have "enc_ok inp out h'"
    using d(2) st ch(1) enc_bits_frame [OF d(3) f(6,7)] is_finishing_cong [OF f(3)]
    by (intro enc_okI [of _ c _ p]) (auto simp: f)
  moreover have "hse_work h' < hse_work h" by (simp add: hse_work_def f st)
  ultimately show ?thesis
    using sz is_finishing_cong [OF f(3)] unfolding enc_goes_def enc_moves_def
    by (intro exI [of _ h'] conjI exI [of _ "[]"]) (simp_all add: hse_step_def st h'_def)
qed

lemma step_search:
  assumes ok: "enc_ok inp out h" and st: "he_st h = HSES_SEARCH" and sz: "length (oi_buf oi) \<le> oi_buf_size oi"
  shows "\<exists>h'. hse_step h oi = Some (Inr (h', oi)) \<and> enc_goes inp out h oi h' oi \<and> enc_moves h h' oi"
proof -
  obtain c p where d: "he_data inp c h"
    "is_finishing h \<or> unat (he_input_size h) = 2048 \<or> he_st h = HSES_NOT_FULL"
    "chain_ok (he_buffer h) (2048 + unat (he_input_size h)) (he_index h)"
    "enc_bits h p" "enc_token inp c (bits_of_bytes out @ p) h"
    using ok st by (auto elim!: enc_okE simp: indexed_def)
  define m where "m = unat (he_match_scan_index h)"
  define s where "s = unat (he_input_size h)"
  have b: "s \<le> 2048" "m \<le> s" "length inp = c + s" "length (he_buffer h) = 4096" "length (he_index h) = 4096"
    "\<And>j. j < 2048 + s \<Longrightarrow> he_buffer h ! j = stream inp ! (c + j)"
    using d(1) by (simp_all add: he_data_def m_def s_def)
  have k: "codes (bits_of_bytes out @ p) (take (c + m) inp)"
    using d(5) st by (simp add: enc_token_def Let_def m_def)
  have fin: "\<not> is_finishing h \<Longrightarrow> s = 2048" using d(2) st by (simp add: s_def)
  have leave: "\<exists>h'. hse_step h oi = Some (Inr (h', oi)) \<and> enc_goes inp out h oi h' oi \<and> enc_moves h h' oi"
    if "st_step_search h = Some (ns, h1)" "enc_ok inp out (h1\<lparr>he_st := ns\<rparr>)"
      "he_flags h1 = he_flags h" "hse_work (h1\<lparr>he_st := ns\<rparr>) < hse_work h" for ns h1
    using that sz unfolding enc_goes_def enc_moves_def
    by (intro exI [of _ "h1\<lparr>he_st := ns\<rparr>"] conjI exI [of _ "[]"]) (simp_all add: hse_step_def st is_finishing_def)
  define lim where "lim = (if is_finishing h then 1 else 16 :: int)"
  have cond: "(uint (he_match_scan_index h) > uint (he_input_size h) - (if is_finishing h then 1 else uint get_lookahead_size))
      \<longleftrightarrow> int m > int s - lim"
    by (simp add: m_def s_def lim_def enc_const)
  show ?thesis
  proof (cases "int m > int s - lim")
    case True
    define ns where "ns = (if is_finishing h then HSES_FLUSH_BITS else HSES_SAVE_BACKLOG)"
    have e: "st_step_search h = Some (ns, h)"
      unfolding st_step_search_def Let_def cond using True by (simp add: ns_def)
    have "he_data inp c (h\<lparr>he_st := ns\<rparr>)" by (rule he_data_frame [OF d(1)]) (use b in \<open>simp_all add: m_def s_def\<close>)
    moreover have "enc_token inp c (bits_of_bytes out @ p) (h\<lparr>he_st := ns\<rparr>)"
    proof (cases "is_finishing h")
      case True
      then have "m = s" using \<open>int m > int s - lim\<close> b(2) by (simp add: lim_def)
      then show ?thesis using True k b(3) by (simp add: enc_token_def Let_def ns_def is_finishing_def)
    next
      case False
      then have "s = 2048" "2032 < m" using True fin by (simp_all add: lim_def)
      then show ?thesis using False k by (simp add: enc_token_def Let_def ns_def is_finishing_def m_def s_def)
    qed
    ultimately have "enc_ok inp out (h\<lparr>he_st := ns\<rparr>)"
      using d(2) st enc_bits_frame [OF d(4)]
      by (cases "is_finishing h"; intro enc_okI [of _ c _ p]) (auto simp: ns_def indexed_def is_finishing_def)
    then show ?thesis by (rule leave [OF e]) (simp_all add: hse_work_def ns_def st)
  next
    case False
    then have ms: "m < s" "is_finishing h \<or> m + 16 \<le> s" by (auto simp: lim_def split: if_splits)
    define q where "q = get_input_offset + he_match_scan_index h"
    define mx where "mx = (if uint (he_input_size h) - uint (he_match_scan_index h) < uint get_lookahead_size
                               then he_input_size h - he_match_scan_index h else get_lookahead_size)"
    have ue: "unat q = 2048 + m"
      using b ms by (simp add: q_def enc_const unat_add_u16 m_def)
    have i: "uint (he_input_size h) = int s" "uint (he_match_scan_index h) = int m" by (simp_all add: s_def m_def)
    have um: "unat mx = min (s - m) 16"
    proof -
      have w: "unat (he_input_size h - he_match_scan_index h) = s - m"
        using b(2) by (simp add: unat_sub word_le_nat_alt s_def m_def)
      have "int s - int m < 16 \<longleftrightarrow> s - m < 16" using b(2) by linarith
      then show ?thesis unfolding mx_def i enc_const by (simp add: w split: if_split)
    qed
    have e: "st_step_search h = (case find_longest_match h (q - get_input_buffer_size) q mx of
                None \<Rightarrow> None
              | Some (match_pos, match_length) \<Rightarrow>
                  if match_pos = MATCH_NOT_FOUND then
                    Some (HSES_YIELD_TAG_BIT,
                          h\<lparr>he_match_scan_index := he_match_scan_index h + 1, he_match_length := 0\<rparr>)
                  else Some (HSES_YIELD_TAG_BIT,
                          h\<lparr>he_match_pos := match_pos, he_match_length := match_length\<rparr>))"
      unfolding st_step_search_def Let_def cond q_def [symmetric] mx_def [symmetric] using False by simp
    have "\<exists>mp ml. find_longest_match h (q - get_input_buffer_size) q mx = Some (mp, ml) \<and>
      (mp = MATCH_NOT_FOUND \<or>
       mp \<noteq> MATCH_NOT_FOUND \<and> 3 \<le> unat ml \<and> unat ml \<le> unat mx \<and> 1 \<le> unat mp \<and> unat mp \<le> 2048 \<and>
       (\<forall>j < unat ml. he_buffer h ! (unat q - unat mp + j) = he_buffer h ! (unat q + j)))"
      by (rule find_longest_match_ok [OF d(3) [folded s_def]]) (use b ms ue um in \<open>simp_all add: enc_const\<close>)
    then obtain mp ml where f: "find_longest_match h (q - get_input_buffer_size) q mx = Some (mp, ml)"
      "mp = MATCH_NOT_FOUND \<or>
       mp \<noteq> MATCH_NOT_FOUND \<and> 3 \<le> unat ml \<and> unat ml \<le> unat mx \<and> 1 \<le> unat mp \<and> unat mp \<le> 2048 \<and>
       (\<forall>j < unat ml. he_buffer h ! (unat q - unat mp + j) = he_buffer h ! (unat q + j))" by blast
    show ?thesis
    proof (cases "mp = MATCH_NOT_FOUND")
      case True
      define h1 where "h1 = h\<lparr>he_match_scan_index := he_match_scan_index h + 1, he_match_length := 0\<rparr>"
      have e1: "st_step_search h = Some (HSES_YIELD_TAG_BIT, h1)" using True by (simp add: e f(1) h1_def)
      have u1: "unat (he_match_scan_index h + 1) = m + 1" using b ms by (simp add: m_def unat_add_u16)
      then have nz: "he_match_scan_index h + 1 \<noteq> 0" by (intro notI) simp
      have "he_data inp c (h1\<lparr>he_st := HSES_YIELD_TAG_BIT\<rparr>)"
        by (rule he_data_frame [OF d(1)]) (use ms u1 in \<open>simp_all add: h1_def s_def\<close>)
      moreover have "enc_token inp c (bits_of_bytes out @ p) (h1\<lparr>he_st := HSES_YIELD_TAG_BIT\<rparr>)"
        using k nz u1 by (simp add: enc_token_def Let_def h1_def)
      ultimately have "enc_ok inp out (h1\<lparr>he_st := HSES_YIELD_TAG_BIT\<rparr>)"
        using d(2,3) st enc_bits_frame [OF d(4)]
        by (intro enc_okI [of _ c _ p]) (auto simp: h1_def is_finishing_def)
      moreover have "hse_work (h1\<lparr>he_st := HSES_YIELD_TAG_BIT\<rparr>) < hse_work h"
        using ms u1 by (simp add: hse_work_def h1_def st m_def [symmetric] s_def [symmetric])
      ultimately show ?thesis by (intro leave [OF e1]) (simp_all add: h1_def)
    next
      case False
      with f(2) have g: "3 \<le> unat ml" "unat ml \<le> s - m" "unat ml \<le> 16" "1 \<le> unat mp" "unat mp \<le> 2048"
        "\<And>j. j < unat ml \<Longrightarrow> he_buffer h ! (2048 + m - unat mp + j) = he_buffer h ! (2048 + m + j)"
        unfolding um ue by auto
      define h1 where "h1 = h\<lparr>he_match_pos := mp, he_match_length := ml\<rparr>"
      have e1: "st_step_search h = Some (HSES_YIELD_TAG_BIT, h1)" using False by (simp add: e f(1) h1_def)
      have "stream inp ! (2048 + (c + m) - unat mp + j) = stream inp ! (2048 + (c + m) + j)" if j: "j < unat ml" for j
      proof -
        have "2048 + m - unat mp + j < 2048 + s" "2048 + m + j < 2048 + s" using j g(2,4,5) ms by linarith+
        then have "stream inp ! (c + (2048 + m - unat mp + j)) = stream inp ! (c + (2048 + m + j))"
          using g(6) [OF j] by (simp only: b(6))
        moreover have "c + (2048 + m - unat mp + j) = 2048 + (c + m) - unat mp + j"
          "c + (2048 + m + j) = 2048 + (c + m) + j" using g(5) by simp_all
        ultimately show ?thesis by (simp only:)
      qed
      then have "copy_back (unat ml) (unat mp) (take (c + m) inp) = take (c + m + unat ml) inp"
        using g b ms by (intro copy_back_stream) auto
      then have mo: "match_ok inp (c + m) (h1\<lparr>he_st := HSES_YIELD_TAG_BIT\<rparr>)"
        using g b ms by (simp add: match_ok_def h1_def)
      have nz: "ml \<noteq> 0" using g(1) by (intro notI) simp
      have "he_data inp c (h1\<lparr>he_st := HSES_YIELD_TAG_BIT\<rparr>)"
        by (rule he_data_frame [OF d(1)]) (use b in \<open>simp_all add: h1_def s_def m_def\<close>)
      moreover have "enc_token inp c (bits_of_bytes out @ p) (h1\<lparr>he_st := HSES_YIELD_TAG_BIT\<rparr>)"
        using k nz mo by (simp add: enc_token_def Let_def h1_def m_def)
      ultimately have "enc_ok inp out (h1\<lparr>he_st := HSES_YIELD_TAG_BIT\<rparr>)"
        using d(2,3) st enc_bits_frame [OF d(4)]
        by (intro enc_okI [of _ c _ p]) (auto simp: h1_def is_finishing_def)
      moreover have "hse_work (h1\<lparr>he_st := HSES_YIELD_TAG_BIT\<rparr>) < hse_work h"
        using nz by (simp add: hse_work_def h1_def st)
      ultimately show ?thesis by (intro leave [OF e1]) (simp_all add: h1_def)
    qed
  qed
qed

text \<open>A step that writes at most one byte, from a state that needs room for it.\<close>

lemma step_writes:
  assumes "hse_step h oi = Some (Inr (h', oi\<lparr>oi_buf := oi_buf oi @ bs\<rparr>))"
    "length (oi_buf oi) < oi_buf_size oi" "length bs \<le> 1" "enc_ok inp (out @ bs) h'"
    "he_flags h' = he_flags h" "hse_work h' < hse_work h"
  shows "\<exists>h' oi'. hse_step h oi = Some (Inr (h', oi')) \<and> enc_goes inp out h oi h' oi' \<and> enc_moves h h' oi'"
  using assms unfolding enc_goes_def enc_moves_def
  by (intro exI [of _ h'] exI [of _ "oi\<lparr>oi_buf := oi_buf oi @ bs\<rparr>"] conjI exI [of _ bs])
     (simp_all add: is_finishing_def)

lemma step_blocked:
  assumes "hse_step h oi = Some (Inr (h\<lparr>he_st := he_st h\<rparr>, oi))" "\<not> can_take_byte oi"
    "length (oi_buf oi) \<le> oi_buf_size oi" "enc_ok inp out h"
  shows "\<exists>h' oi'. hse_step h oi = Some (Inr (h', oi')) \<and> enc_goes inp out h oi h' oi' \<and> enc_moves h h' oi'"
  using assms unfolding enc_goes_def enc_moves_def can_take_byte_def
  by (intro exI [of _ h] exI [of _ oi] conjI exI [of _ "[]"]) simp_all

lemma enc_ok_advance:
  assumes "he_data inp c h" "is_finishing h \<or> unat (he_input_size h) = 2048 \<or> he_st h = HSES_NOT_FULL"
    "chain_ok (he_buffer h) (2048 + unat (he_input_size h)) (he_index h)"
    "he_buffer h' = he_buffer h" "he_index h' = he_index h" "he_input_size h' = he_input_size h"
    "he_flags h' = he_flags h" "unat (he_match_scan_index h') \<le> unat (he_input_size h)"
    "he_st h \<noteq> HSES_NOT_FULL" "he_st h' \<noteq> HSES_DONE"
    "enc_bits h' p" "enc_token inp c (bits_of_bytes out @ p) h'"
  shows "enc_ok inp out h'"
  using assms he_data_frame [OF assms(1), of h'] is_finishing_cong [of h' h]
  by (intro enc_okI [of _ c _ p]) auto

lemma step_tag:
  assumes ok: "enc_ok inp out h" and st: "he_st h = HSES_YIELD_TAG_BIT"
    and sz: "length (oi_buf oi) \<le> oi_buf_size oi"
  shows "\<exists>h' oi'. hse_step h oi = Some (Inr (h', oi')) \<and> enc_goes inp out h oi h' oi' \<and> enc_moves h h' oi'"
proof (cases "can_take_byte oi")
  case False
  then show ?thesis using ok sz
    by (intro step_blocked) (simp_all add: hse_step_def st st_yield_tag_bit_def)
next
  case True
  then have room: "length (oi_buf oi) < oi_buf_size oi" by (simp add: can_take_byte_def)
  obtain c p where d: "he_data inp c h"
    "is_finishing h \<or> unat (he_input_size h) = 2048 \<or> he_st h = HSES_NOT_FULL"
    "chain_ok (he_buffer h) (2048 + unat (he_input_size h)) (he_index h)"
    "enc_bits h p" "enc_token inp c (bits_of_bytes out @ p) h"
    using ok st by (auto elim!: enc_okE simp: indexed_def)
  have b: "unat (he_match_scan_index h) \<le> unat (he_input_size h)" using d(1) by (simp add: he_data_def)
  define tag where "tag = (if he_match_length h = 0 then HEATSHRINK_LITERAL_MARKER else HEATSHRINK_BACKREF_MARKER)"
  obtain h1 p' bs where r: "push_bits h 1 tag oi = (h1, oi\<lparr>oi_buf := oi_buf oi @ bs\<rparr>)"
    "same_but_bits h h1" "enc_bits h1 p'" "bits_of_bytes bs @ p' = p @ to_bits 1 tag" "length bs \<le> 1"
    by (rule push_bits_correct [OF d(4), of 1 tag oi]) simp_all
  note f = same_but_bits_fields [OF r(2)]
  have tb: "bits_of_bytes (out @ bs) @ p' = bits_of_bytes out @ p @ [he_match_length h = 0]"
    using r(4) by (simp add: tag_def HEATSHRINK_LITERAL_MARKER_def HEATSHRINK_BACKREF_MARKER_def to_bits_def)
  let ?k = "c + unat (he_match_scan_index h)"
  show ?thesis
  proof (cases "he_match_length h = 0")
    case m: True
    let ?h = "h1\<lparr>he_st := HSES_YIELD_LITERAL\<rparr>"
    have "hse_step h oi = Some (Inr (?h, oi\<lparr>oi_buf := oi_buf oi @ bs\<rparr>))"
      using r(1) True m by (simp add: hse_step_def st st_yield_tag_bit_def add_tag_bit_def tag_def)
    moreover have "enc_token inp c (bits_of_bytes (out @ bs) @ p') ?h"
      using d(5) m unfolding tb by (simp add: enc_token_def Let_def st f)
    then have "enc_ok inp (out @ bs) ?h"
      by (intro enc_ok_advance [OF d(1,2,3)]) (use f r(3) b st in \<open>simp_all add: enc_bits_def\<close>)
    moreover have "hse_work ?h < hse_work h" using m by (simp add: hse_work_def st f)
    ultimately show ?thesis using room r(5) by (intro step_writes) (simp_all add: f)
  next
    case m: False
    define h2 where "h2 = h1\<lparr>he_outgoing_bits := he_match_pos h1 - 1,
      he_outgoing_bits_count := of_nat HEATSHRINK_STATIC_WINDOW_BITS, he_st := HSES_YIELD_BR_INDEX\<rparr>"
    have e: "hse_step h oi = Some (Inr (h2, oi\<lparr>oi_buf := oi_buf oi @ bs\<rparr>))"
      using r(1) True m by (simp add: hse_step_def st st_yield_tag_bit_def add_tag_bit_def tag_def h2_def)
    have w: "HEATSHRINK_STATIC_WINDOW_BITS = 11" by (simp add: HEATSHRINK_STATIC_WINDOW_BITS_def)
    have t: "codes (bits_of_bytes out @ p) (take ?k inp)" "match_ok inp ?k h"
      using d(5) m by (simp_all add: enc_token_def Let_def st)
    then have "enc_token inp c (bits_of_bytes (out @ bs) @ p') h2"
      unfolding tb using m
      by (auto simp: enc_token_def Let_def h2_def f w match_ok_def intro!: exI [of _ "bits_of_bytes out @ p"])
    then have "enc_ok inp (out @ bs) h2"
      by (intro enc_ok_advance [OF d(1,2,3)]) (use f r(3) b st in \<open>simp_all add: h2_def enc_bits_def\<close>)
    moreover have "hse_work h2 < hse_work h" using m by (simp add: hse_work_def st f h2_def w)
    ultimately show ?thesis using e room r(5) by (intro step_writes) (simp_all add: f h2_def)
  qed
qed

lemma enc_step_literal:
  assumes ok: "enc_ok inp out h" and st: "he_st h = HSES_YIELD_LITERAL"
    and sz: "length (oi_buf oi) \<le> oi_buf_size oi"
  shows "\<exists>h' oi'. hse_step h oi = Some (Inr (h', oi')) \<and> enc_goes inp out h oi h' oi' \<and> enc_moves h h' oi'"
proof (cases "can_take_byte oi")
  case False
  then show ?thesis using ok sz
    by (intro step_blocked) (simp_all add: hse_step_def st enc_yield_literal_def)
next
  case True
  then have room: "length (oi_buf oi) < oi_buf_size oi" by (simp add: can_take_byte_def)
  obtain c p where d: "he_data inp c h"
    "is_finishing h \<or> unat (he_input_size h) = 2048 \<or> he_st h = HSES_NOT_FULL"
    "chain_ok (he_buffer h) (2048 + unat (he_input_size h)) (he_index h)"
    "enc_bits h p" "enc_token inp c (bits_of_bytes out @ p) h"
    using ok st by (auto elim!: enc_okE simp: indexed_def)
  define m where "m = unat (he_match_scan_index h)"
  have b: "m \<le> unat (he_input_size h)" "unat (he_input_size h) \<le> 2048" "length inp = c + unat (he_input_size h)"
    "\<And>j. j < 2048 + unat (he_input_size h) \<Longrightarrow> he_buffer h ! j = stream inp ! (c + j)"
    using d(1) by (simp_all add: he_data_def m_def)
  obtain bits0 where t: "he_match_scan_index h \<noteq> 0" "bits_of_bytes out @ p = bits0 @ [True]"
    "codes bits0 (take (c + m - 1) inp)"
    using d(5) st by (auto simp: enc_token_def Let_def m_def)
  have m: "1 \<le> m" using t(1) by (simp add: m_def unat_gt_0 Suc_le_eq)
  have um: "unat (he_match_scan_index h - 1) = m - 1"
    using m by (simp add: m_def unat_sub word_le_nat_alt)
  then have ui: "unat (get_input_offset + (he_match_scan_index h - 1)) = 2048 + (m - 1)"
    using b by (subst unat_add_u16) (simp_all add: enc_const)
  have "he_buffer h ! (2048 + (m - 1)) = stream inp ! (c + (2048 + (m - 1)))" using b m by simp
  also have "\<dots> = inp ! (c + m - 1)" using m by (simp add: stream_def nth_append)
  finally have v: "he_buffer h ! (2048 + (m - 1)) = inp ! (c + m - 1)" .
  obtain h1 p' bs where r: "push_bits h 8 (inp ! (c + m - 1)) oi = (h1, oi\<lparr>oi_buf := oi_buf oi @ bs\<rparr>)"
    "same_but_bits h h1" "enc_bits h1 p'" "bits_of_bytes bs @ p' = p @ to_bits 8 (inp ! (c + m - 1))" "length bs \<le> 1"
    by (rule push_bits_correct [OF d(4), of 8 "inp ! (c + m - 1)" oi]) simp_all
  note f = same_but_bits_fields [OF r(2)]
  let ?h = "h1\<lparr>he_st := HSES_SEARCH\<rparr>"
  have "hse_step h oi = Some (Inr (?h, oi\<lparr>oi_buf := oi_buf oi @ bs\<rparr>))"
    using r(1) True by (simp add: hse_step_def st enc_yield_literal_def push_literal_byte_def ui v [unfolded One_nat_def])
  moreover have "bits_of_bytes (out @ bs) @ p' = bits0 @ True # to_bits 8 (inp ! (c + m - 1))"
    using r(4) t(2) by simp
  moreover have "take (c + m) inp = take (c + m - 1) inp @ [inp ! (c + m - 1)]"
    using m b take_Suc_conv_app_nth [of "c + m - 1" inp] by simp
  ultimately have "enc_token inp c (bits_of_bytes (out @ bs) @ p') ?h" and
    e: "hse_step h oi = Some (Inr (?h, oi\<lparr>oi_buf := oi_buf oi @ bs\<rparr>))"
    using codes_literal [OF t(3)] by (simp_all add: enc_token_def Let_def f m_def)
  then have "enc_ok inp (out @ bs) ?h"
    by (intro enc_ok_advance [OF d(1,2,3)]) (use f r(3) b st in \<open>simp_all add: enc_bits_def m_def\<close>)
  moreover have "hse_work ?h < hse_work h" by (simp add: hse_work_def st f)
  ultimately show ?thesis using e room r(5) by (intro step_writes) (simp_all add: f)
qed

lemma step_br_index:
  assumes ok: "enc_ok inp out h" and st: "he_st h = HSES_YIELD_BR_INDEX"
    and sz: "length (oi_buf oi) \<le> oi_buf_size oi"
  shows "\<exists>h' oi'. hse_step h oi = Some (Inr (h', oi')) \<and> enc_goes inp out h oi h' oi' \<and> enc_moves h h' oi'"
proof (cases "can_take_byte oi")
  case False
  then show ?thesis using ok sz
    by (intro step_blocked) (simp_all add: hse_step_def st st_yield_br_index_def)
next
  case True
  then have room: "length (oi_buf oi) < oi_buf_size oi" by (simp add: can_take_byte_def)
  obtain c p where d: "he_data inp c h"
    "is_finishing h \<or> unat (he_input_size h) = 2048 \<or> he_st h = HSES_NOT_FULL"
    "chain_ok (he_buffer h) (2048 + unat (he_input_size h)) (he_index h)"
    "enc_bits h p" "enc_token inp c (bits_of_bytes out @ p) h"
    using ok st by (auto elim!: enc_okE simp: indexed_def)
  have b: "unat (he_match_scan_index h) \<le> unat (he_input_size h)" using d(1) by (simp add: he_data_def)
  let ?k = "c + unat (he_match_scan_index h)"
  obtain bits0 where t: "match_ok inp ?k h" "unat (he_outgoing_bits_count h) \<le> 11" "codes bits0 (take ?k inp)"
    "(bits_of_bytes out @ p) @ to_bits (unat (he_outgoing_bits_count h)) (he_outgoing_bits h)
      = bits0 @ False # to_bits 11 (he_match_pos h - 1)"
    using d(5) st by (auto simp: enc_token_def Let_def)
  obtain count h1 p' bs where r: "push_outgoing_bits h oi = (count, h1, oi\<lparr>oi_buf := oi_buf oi @ bs\<rparr>)"
    "count = 0 \<longleftrightarrow> unat (he_outgoing_bits_count h) = 0" "length bs \<le> 1"
    "unat (he_outgoing_bits_count h1) = unat (he_outgoing_bits_count h) - count" "count \<le> unat (he_outgoing_bits_count h)"
    "same_but_bits h (h1\<lparr>he_outgoing_bits_count := he_outgoing_bits_count h\<rparr>)" "enc_bits h1 p'"
    "bits_of_bytes bs @ p' @ to_bits (unat (he_outgoing_bits_count h1)) (he_outgoing_bits h)
      = p @ to_bits (unat (he_outgoing_bits_count h)) (he_outgoing_bits h)"
    by (rule push_outgoing_correct [OF d(4) t(2)])
  note f = same_but_bits_fields [OF r(6), simplified]
  have tb: "bits_of_bytes (out @ bs) @ p' @ to_bits (unat (he_outgoing_bits_count h1)) (he_outgoing_bits h)
      = bits0 @ False # to_bits 11 (he_match_pos h - 1)"
    using r(8) t(4) by simp
  show ?thesis
  proof (cases "count = 0")
    case z: False
    let ?h = "h1\<lparr>he_st := HSES_YIELD_BR_INDEX\<rparr>"
    have e: "hse_step h oi = Some (Inr (?h, oi\<lparr>oi_buf := oi_buf oi @ bs\<rparr>))"
      using r(1) True z by (simp add: hse_step_def st st_yield_br_index_def)
    have "enc_token inp c (bits_of_bytes (out @ bs) @ p') ?h"
      using t(1,2,3) r(4) tb
      by (auto simp: enc_token_def Let_def f match_ok_def intro!: exI [of _ bits0])
    then have "enc_ok inp (out @ bs) ?h"
      by (intro enc_ok_advance [OF d(1,2,3)]) (use f r(7) b st in \<open>simp_all add: enc_bits_def\<close>)
    moreover have "hse_work ?h < hse_work h" using r(4,5) z by (simp add: hse_work_def st f)
    ultimately show ?thesis using e room r(3) by (intro step_writes) (simp_all add: f)
  next
    case z: True
    define h2 where "h2 = h1\<lparr>he_outgoing_bits := he_match_length h1 - 1,
      he_outgoing_bits_count := of_nat HEATSHRINK_STATIC_LOOKAHEAD_BITS, he_st := HSES_YIELD_BR_LENGTH\<rparr>"
    have e: "hse_step h oi = Some (Inr (h2, oi\<lparr>oi_buf := oi_buf oi @ bs\<rparr>))"
      using r(1) True z by (simp add: hse_step_def st st_yield_br_index_def h2_def)
    have w: "HEATSHRINK_STATIC_LOOKAHEAD_BITS = 4" by (simp add: HEATSHRINK_STATIC_LOOKAHEAD_BITS_def)
    have "to_bits (unat (he_outgoing_bits_count h1)) (he_outgoing_bits h) = []"
      using r(2,4) z by (simp add: to_bits_def)
    then have tb2: "bits_of_bytes (out @ bs) @ p' = bits0 @ False # to_bits 11 (he_match_pos h - 1)" using tb by simp
    have "enc_token inp c (bits_of_bytes (out @ bs) @ p') h2"
      using t(1,3) unfolding tb2
      by (auto simp: enc_token_def Let_def f h2_def w match_ok_def intro!: exI [of _ bits0])
    then have "enc_ok inp (out @ bs) h2"
      by (intro enc_ok_advance [OF d(1,2,3)]) (use f r(7) b st in \<open>simp_all add: enc_bits_def h2_def\<close>)
    moreover have "hse_work h2 < hse_work h" by (simp add: hse_work_def st f h2_def w)
    ultimately show ?thesis using e room r(3) by (intro step_writes) (simp_all add: f h2_def)
  qed
qed

lemma step_br_length:
  assumes ok: "enc_ok inp out h" and st: "he_st h = HSES_YIELD_BR_LENGTH"
    and sz: "length (oi_buf oi) \<le> oi_buf_size oi"
  shows "\<exists>h' oi'. hse_step h oi = Some (Inr (h', oi')) \<and> enc_goes inp out h oi h' oi' \<and> enc_moves h h' oi'"
proof (cases "can_take_byte oi")
  case False
  then show ?thesis using ok sz
    by (intro step_blocked) (simp_all add: hse_step_def st st_yield_br_length_def)
next
  case True
  then have room: "length (oi_buf oi) < oi_buf_size oi" by (simp add: can_take_byte_def)
  obtain c p where d: "he_data inp c h"
    "is_finishing h \<or> unat (he_input_size h) = 2048 \<or> he_st h = HSES_NOT_FULL"
    "chain_ok (he_buffer h) (2048 + unat (he_input_size h)) (he_index h)"
    "enc_bits h p" "enc_token inp c (bits_of_bytes out @ p) h"
    using ok st by (auto elim!: enc_okE simp: indexed_def)
  have b: "unat (he_match_scan_index h) \<le> unat (he_input_size h)" "unat (he_input_size h) \<le> 2048"
    "length inp = c + unat (he_input_size h)"
    using d(1) by (simp_all add: he_data_def)
  let ?k = "c + unat (he_match_scan_index h)"
  obtain bits0 where t: "match_ok inp ?k h" "unat (he_outgoing_bits_count h) \<le> 4" "codes bits0 (take ?k inp)"
    "(bits_of_bytes out @ p) @ to_bits (unat (he_outgoing_bits_count h)) (he_outgoing_bits h)
      = bits0 @ False # to_bits 11 (he_match_pos h - 1) @ to_bits 4 (he_match_length h - 1)"
    using d(5) st by (auto simp: enc_token_def Let_def)
  have t11: "unat (he_outgoing_bits_count h) \<le> 11" using t(2) by simp
  obtain count h1 p' bs where r: "push_outgoing_bits h oi = (count, h1, oi\<lparr>oi_buf := oi_buf oi @ bs\<rparr>)"
    "count = 0 \<longleftrightarrow> unat (he_outgoing_bits_count h) = 0" "length bs \<le> 1"
    "unat (he_outgoing_bits_count h1) = unat (he_outgoing_bits_count h) - count" "count \<le> unat (he_outgoing_bits_count h)"
    "same_but_bits h (h1\<lparr>he_outgoing_bits_count := he_outgoing_bits_count h\<rparr>)" "enc_bits h1 p'"
    "bits_of_bytes bs @ p' @ to_bits (unat (he_outgoing_bits_count h1)) (he_outgoing_bits h)
      = p @ to_bits (unat (he_outgoing_bits_count h)) (he_outgoing_bits h)"
    by (rule push_outgoing_correct [OF d(4) t11])
  note f = same_but_bits_fields [OF r(6), simplified]
  have tb: "bits_of_bytes (out @ bs) @ p' @ to_bits (unat (he_outgoing_bits_count h1)) (he_outgoing_bits h)
      = bits0 @ False # to_bits 11 (he_match_pos h - 1) @ to_bits 4 (he_match_length h - 1)"
    using r(8) t(4) by simp
  show ?thesis
  proof (cases "count = 0")
    case z: False
    let ?h = "h1\<lparr>he_st := HSES_YIELD_BR_LENGTH\<rparr>"
    have e: "hse_step h oi = Some (Inr (?h, oi\<lparr>oi_buf := oi_buf oi @ bs\<rparr>))"
      using r(1) True z by (simp add: hse_step_def st st_yield_br_length_def)
    have "enc_token inp c (bits_of_bytes (out @ bs) @ p') ?h"
      using t(1,2,3) r(4) tb
      by (auto simp: enc_token_def Let_def f match_ok_def intro!: exI [of _ bits0])
    then have "enc_ok inp (out @ bs) ?h"
      by (intro enc_ok_advance [OF d(1,2,3)]) (use f r(7) b st in \<open>simp_all add: enc_bits_def\<close>)
    moreover have "hse_work ?h < hse_work h" using r(4,5) z by (simp add: hse_work_def st f)
    ultimately show ?thesis using e room r(3) by (intro step_writes) (simp_all add: f)
  next
    case z: True
    define h2 where "h2 = h1\<lparr>he_match_scan_index := he_match_scan_index h1 + he_match_length h1,
      he_match_length := 0, he_st := HSES_SEARCH\<rparr>"
    have e: "hse_step h oi = Some (Inr (h2, oi\<lparr>oi_buf := oi_buf oi @ bs\<rparr>))"
      using r(1) True z by (simp add: hse_step_def st st_yield_br_length_def h2_def)
    have m: "1 \<le> unat (he_match_pos h)" "unat (he_match_pos h) \<le> 2048" "3 \<le> unat (he_match_length h)"
      "unat (he_match_length h) \<le> 16" "?k + unat (he_match_length h) \<le> length inp"
      "copy_back (unat (he_match_length h)) (unat (he_match_pos h)) (take ?k inp)
        = take (?k + unat (he_match_length h)) inp"
      using t(1) by (simp_all add: match_ok_def)
    have u: "unat (he_match_scan_index h2) = unat (he_match_scan_index h) + unat (he_match_length h)"
      using m(4,5) b by (simp add: h2_def f unat_add_u16)
    have "to_bits (unat (he_outgoing_bits_count h1)) (he_outgoing_bits h) = []"
      using r(2,4) z by (simp add: to_bits_def)
    then have "bits_of_bytes (out @ bs) @ p'
        = bits0 @ False # to_bits 11 (he_match_pos h - 1) @ to_bits 4 (he_match_length h - 1)" using tb by simp
    then have "codes (bits_of_bytes (out @ bs) @ p') (take (c + unat (he_match_scan_index h2)) inp)"
      using codes_backref [OF t(3) m(1-4)] m(6) u by (simp only: add.assoc)
    then have "enc_token inp c (bits_of_bytes (out @ bs) @ p') h2"
      by (simp add: enc_token_def h2_def)
    then have "enc_ok inp (out @ bs) h2"
      by (intro enc_ok_advance [OF d(1,2,3)])
         (use f r(7) b st u m(5) in \<open>simp_all add: enc_bits_def h2_def\<close>)
    moreover have "hse_work h2 < hse_work h"
    proof -
      have "hse_work h2 = 40 * (unat (he_input_size h) - (unat (he_match_scan_index h) + unat (he_match_length h))) + 30"
        using u by (simp add: hse_work_def h2_def f)
      moreover have "hse_work h \<ge> 40 * (unat (he_input_size h) - unat (he_match_scan_index h)) + 1"
        by (simp add: hse_work_def st)
      ultimately show ?thesis using m(3,5) b by linarith
    qed
    ultimately show ?thesis using e room r(3) by (intro step_writes) (simp_all add: f h2_def)
  qed
qed

lemma step_save_backlog:
  assumes ok: "enc_ok inp out h" and st: "he_st h = HSES_SAVE_BACKLOG"
    and sz: "length (oi_buf oi) \<le> oi_buf_size oi"
  shows "\<exists>h'. hse_step h oi = Some (Inr (h', oi)) \<and> enc_goes inp out h oi h' oi \<and> enc_moves h h' oi"
proof -
  obtain c p where d: "he_data inp c h" "enc_bits h p" "enc_token inp c (bits_of_bytes out @ p) h"
    using ok st by (auto elim!: enc_okE)
  define m where "m = unat (he_match_scan_index h)"
  have t: "codes (bits_of_bytes out @ p) (take (c + m) inp)" "unat (he_input_size h) = 2048" "2032 < m"
    "\<not> is_finishing h" using d(3) st by (simp_all add: enc_token_def Let_def m_def)
  have b: "m \<le> 2048" "length (he_buffer h) = 4096" "length (he_index h) = 4096" "length inp = c + 2048"
    "\<And>j. j < 4096 \<Longrightarrow> he_buffer h ! j = stream inp ! (c + j)"
    using d(1) t(2) by (simp_all add: he_data_def m_def)
  define h' where "h' = (save_backlog h)\<lparr>he_st := HSES_NOT_FULL\<rparr>"
  have rem: "unat (get_input_buffer_size - he_match_scan_index h) = 2048 - m"
    using b(1) by (simp add: enc_const unat_sub word_le_nat_alt m_def)
  then have sh: "unat (get_input_buffer_size + (get_input_buffer_size - he_match_scan_index h)) = 4096 - m"
    using b(1) by (subst unat_add_u16) (simp_all add: enc_const)
  have bk: "get_input_buffer_size - (get_input_buffer_size - he_match_scan_index h) = he_match_scan_index h" by simp
  have sz': "unat (he_input_size h - he_match_scan_index h) = 2048 - m"
    using t(2) b(1) by (simp add: unat_sub word_le_nat_alt m_def)
  have f: "he_buffer h' = array_write (he_buffer h) 0 (take (4096 - m) (drop m (he_buffer h)))"
    "he_match_scan_index h' = 0" "he_input_size h' = he_input_size h - he_match_scan_index h"
    "he_flags h' = he_flags h" "he_st h' = HSES_NOT_FULL" "he_index h' = he_index h"
    "he_bit_index h' = he_bit_index h" "he_current_byte h' = he_current_byte h"
    unfolding h'_def save_backlog_def Let_def sh bk m_def [symmetric] by simp_all
  have lb: "length (he_buffer h') = 4096" using b by (simp add: f array_write_def)
  have nb: "he_buffer h' ! j = stream inp ! (c + m + j)" if "j < 4096 - m" for j
  proof -
    have "he_buffer h' ! j = he_buffer h ! (m + j)"
      using that b by (simp add: f array_write_def nth_append)
    then show ?thesis using b(5) [of "m + j"] that by (simp add: add.assoc)
  qed
  have "he_data inp (c + m) h'"
    using lb nb b t by (simp add: he_data_def f sz')
  moreover have "enc_token inp (c + m) (bits_of_bytes out @ p) h'"
    using t is_finishing_cong [OF f(4)] by (simp add: enc_token_def Let_def f sz')
  ultimately have "enc_ok inp out h'"
    using enc_bits_frame [OF d(2) f(7,8)]
    by (intro enc_okI [of _ "c + m" _ p]) (auto simp: f indexed_def)
  moreover have "hse_work h' < hse_work h" by (simp add: hse_work_def f st)
  ultimately show ?thesis
    using sz is_finishing_cong [OF f(4)] unfolding enc_goes_def enc_moves_def
    by (intro exI [of _ h'] conjI exI [of _ "[]"]) (simp_all add: hse_step_def st st_save_backlog_def h'_def)
qed

text \<open>A poll ends with an empty input, or with a finished stream when there was room for the last byte.\<close>

definition enc_rest :: "heatshrink_encoder \<Rightarrow> heatshrink_encoder \<Rightarrow> output_info \<Rightarrow> bool" where
  "enc_rest h h' oi' \<longleftrightarrow> he_st h' = HSES_NOT_FULL \<or> he_st h' = HSES_DONE \<or>
     he_st h' = HSES_FLUSH_BITS \<and> he_st h = HSES_FLUSH_BITS \<and> length (oi_buf oi') = oi_buf_size oi'"

lemma step_flush:
  assumes ok: "enc_ok inp out h" and st: "he_st h = HSES_FLUSH_BITS"
    and sz: "length (oi_buf oi) \<le> oi_buf_size oi"
  shows "\<exists>h' oi'. hse_step h oi = Some (Inl (HSER_POLL_EMPTY, h', oi')) \<and> enc_goes inp out h oi h' oi' \<and>
    enc_rest h h' oi'"
proof -
  obtain c p where d: "he_data inp c h" "enc_bits h p" "codes (bits_of_bytes out @ p) inp" "is_finishing h"
    using ok st by (auto elim!: enc_okE simp: enc_token_def Let_def)
  have lp: "length p < 8" "he_bit_index h = drop_bit (length p) 0x80"
    "he_current_byte h = of_bits (p @ replicate (8 - length p) False)"
    using d(2) by (simp_all add: enc_bits_def)
  have z: "he_bit_index h = 0x80 \<longleftrightarrow> p = []"
    using less_8_cases [OF lp(1)] unfolding lp(2) by auto
  have len: "8 * length out + (if p = [] then 0 else 1) \<le> 9 * length inp"
    using d(3) by (cases p) (simp_all add: codes_def)
  have fin: "enc_ok inp (out @ bs) (h\<lparr>he_st := HSES_DONE\<rparr>)" if "lzss (bits_of_bytes (out @ bs)) [] = inp" "length bs = (if p = [] then 0 else 1)" for bs
    using that d(1,4) len he_data_frame [OF d(1), of "h\<lparr>he_st := HSES_DONE\<rparr>"]
    unfolding enc_ok_def by (intro exI [of _ c]) (simp add: indexed_def is_finishing_def he_data_def split: if_splits)
  show ?thesis
  proof (cases "p = []")
    case True
    have "lzss (bits_of_bytes (out @ [])) [] = inp"
      using codes_pad [OF d(3), of "[]"] True by simp
    from fin [OF this] show ?thesis using True z sz
      unfolding enc_goes_def enc_rest_def
      by (intro exI [of _ "h\<lparr>he_st := HSES_DONE\<rparr>"] exI [of _ oi] conjI exI [of _ "[]"])
         (simp_all add: hse_step_def st st_flush_bit_buffer_def is_finishing_def)
  next
    case False
    show ?thesis
    proof (cases "can_take_byte oi")
      case True
      have "to_bits 8 (he_current_byte h) = p @ replicate (8 - length p) False"
        using lp(1) by (simp add: lp(3) to_bits_of_bits)
      then have "lzss (bits_of_bytes (out @ [he_current_byte h])) [] = inp"
        using codes_pad [OF d(3), of "replicate (8 - length p) False"] False by simp
      from fin [OF this] show ?thesis using True False z
        unfolding enc_goes_def enc_rest_def
        by (intro exI [of _ "h\<lparr>he_st := HSES_DONE\<rparr>"] exI [of _ "push_byte oi (he_current_byte h)"] conjI
            exI [of _ "[he_current_byte h]"])
           (simp_all add: hse_step_def st st_flush_bit_buffer_def is_finishing_def push_byte_def can_take_byte_def)
    next
      case no: False
      have "h\<lparr>he_st := HSES_FLUSH_BITS\<rparr> = h" by (simp flip: st)
      then show ?thesis using no False z ok sz
        unfolding enc_goes_def enc_rest_def
        by (intro exI [of _ h] exI [of _ oi] conjI exI [of _ "[]"])
           (simp_all add: hse_step_def st st_flush_bit_buffer_def is_finishing_def can_take_byte_def)
    qed
  qed
qed

lemma hse_step_correct:
  assumes ok: "enc_ok inp out h" and sz: "length (oi_buf oi) \<le> oi_buf_size oi"
  shows "(\<exists>h' oi'. hse_step h oi = Some (Inl (HSER_POLL_EMPTY, h', oi')) \<and> enc_goes inp out h oi h' oi' \<and>
      enc_rest h h' oi') \<or>
    (\<exists>h' oi'. hse_step h oi = Some (Inr (h', oi')) \<and> enc_goes inp out h oi h' oi' \<and> enc_moves h h' oi')"
proof (cases "he_st h")
  case HSES_NOT_FULL
  then show ?thesis using ok sz
    by (auto simp: hse_step_def enc_goes_def enc_rest_def intro!: exI [of _ "[]"])
next
  case HSES_FILLED
  from step_filled [OF ok this sz] show ?thesis by blast
next
  case HSES_SEARCH
  from step_search [OF ok this sz] show ?thesis by blast
next
  case HSES_YIELD_TAG_BIT
  from step_tag [OF ok this sz] show ?thesis by blast
next
  case HSES_YIELD_LITERAL
  from enc_step_literal [OF ok this sz] show ?thesis by blast
next
  case HSES_YIELD_BR_INDEX
  from step_br_index [OF ok this sz] show ?thesis by blast
next
  case HSES_YIELD_BR_LENGTH
  from step_br_length [OF ok this sz] show ?thesis by blast
next
  case HSES_SAVE_BACKLOG
  from step_save_backlog [OF ok this sz] show ?thesis by blast
next
  case HSES_FLUSH_BITS
  from step_flush [OF ok this sz] show ?thesis by blast
next
  case HSES_DONE
  then show ?thesis using ok sz
    by (auto simp: hse_step_def enc_goes_def enc_rest_def intro!: exI [of _ "[]"])
qed

section \<open>Polling\<close>

lemma hse_poll_loop_correct:
  "enc_ok inp out h \<Longrightarrow> length (oi_buf oi) \<le> oi_buf_size oi \<Longrightarrow>
   \<exists>res h' bs. hse_poll_loop h oi = Some (res, h', oi\<lparr>oi_buf := oi_buf oi @ bs\<rparr>) \<and>
     length (oi_buf oi) + length bs \<le> oi_buf_size oi \<and> enc_ok inp (out @ bs) h' \<and>
     is_finishing h' = is_finishing h \<and> he_st h' \<noteq> HSES_SAVE_BACKLOG \<and>
     (res = HSER_POLL_MORE \<and> length (oi_buf oi) + length bs = oi_buf_size oi \<or>
      res = HSER_POLL_EMPTY \<and> (he_st h' = HSES_NOT_FULL \<or> he_st h' = HSES_DONE \<or>
        length (oi_buf oi) + length bs = oi_buf_size oi))"
proof (induction "hse_work h" arbitrary: h out oi rule: less_induct)
  case less
  from hse_step_correct [OF less.prems] show ?case
  proof (elim disjE exE conjE)
    fix h' oi'
    assume s: "hse_step h oi = Some (Inl (HSER_POLL_EMPTY, h', oi'))" "enc_goes inp out h oi h' oi'"
      "enc_rest h h' oi'"
    have "hse_poll_loop h oi = Some (HSER_POLL_EMPTY, h', oi')"
      by (subst hse_poll_loop.simps) (simp add: s(1))
    then show ?thesis using s(2,3) by (auto simp: enc_goes_def enc_rest_def)
  next
    fix h' oi'
    assume s: "hse_step h oi = Some (Inr (h', oi'))" "enc_goes inp out h oi h' oi'" "enc_moves h h' oi'"
    obtain bs where g: "oi' = oi\<lparr>oi_buf := oi_buf oi @ bs\<rparr>" "length (oi_buf oi) + length bs \<le> oi_buf_size oi"
      "enc_ok inp (out @ bs) h'" "is_finishing h' = is_finishing h"
      using s(2) by (auto simp: enc_goes_def)
    show ?thesis
    proof (cases "he_st h' = he_st h \<and> length (oi_buf oi') = oi_buf_size oi'")
      case True
      have "hse_poll_loop h oi = Some (HSER_POLL_MORE, h', oi')"
        by (subst hse_poll_loop.simps) (simp add: s(1) True)
      moreover have "he_st h' \<noteq> HSES_SAVE_BACKLOG"
        using s(1) True by (auto simp: hse_step_def st_save_backlog_def)
      ultimately show ?thesis using g True by (intro exI [of _ HSER_POLL_MORE] exI [of _ h'] exI [of _ bs]) simp
    next
      case False
      with s(3) have w: "hse_work h' < hse_work h" by (auto simp: enc_moves_def)
      have e: "hse_poll_loop h oi = hse_poll_loop h' oi'"
        by (subst hse_poll_loop.simps) (use False in \<open>auto simp: s(1)\<close>)
      have "length (oi_buf oi') \<le> oi_buf_size oi'" using g by simp
      from less.hyps [OF w g(3) this] obtain res h2 cs where
        "hse_poll_loop h' oi' = Some (res, h2, oi'\<lparr>oi_buf := oi_buf oi' @ cs\<rparr>)"
        "length (oi_buf oi') + length cs \<le> oi_buf_size oi'" "enc_ok inp ((out @ bs) @ cs) h2"
        "is_finishing h2 = is_finishing h'" "he_st h2 \<noteq> HSES_SAVE_BACKLOG"
        "res = HSER_POLL_MORE \<and> length (oi_buf oi') + length cs = oi_buf_size oi' \<or>
         res = HSER_POLL_EMPTY \<and> (he_st h2 = HSES_NOT_FULL \<or> he_st h2 = HSES_DONE \<or>
           length (oi_buf oi') + length cs = oi_buf_size oi')" by blast
      then show ?thesis using e g
        by (intro exI [of _ res] exI [of _ h2] exI [of _ "bs @ cs"]) auto
    qed
  qed
qed

text \<open>The states between two calls of the interface.\<close>

definition enc_inv :: "u8 list \<Rightarrow> u8 list \<Rightarrow> heatshrink_encoder \<Rightarrow> bool" where
  "enc_inv inp out h \<longleftrightarrow> enc_ok inp out h \<and> he_st h \<noteq> HSES_SAVE_BACKLOG"

lemma encoder_poll_correct:
  assumes "enc_inv inp out h" "0 < n" "out_buf \<noteq> 0"
  obtains res h' bs where "heatshrink_encoder_poll h out_buf n = Some (res, h', bs)" "length bs \<le> n"
    "enc_inv inp (out @ bs) h'" "is_finishing h' = is_finishing h"
    "res = HSER_POLL_MORE \<and> length bs = n \<or>
     res = HSER_POLL_EMPTY \<and> (he_st h' = HSES_NOT_FULL \<or> he_st h' = HSES_DONE \<or> length bs = n)"
  using hse_poll_loop_correct [of inp out h "\<lparr>oi_buf = [], oi_buf_size = n\<rparr>"] assms
  by (auto simp: heatshrink_encoder_poll_def enc_inv_def)

section \<open>Reset, sink and finish\<close>

lemma or_and_self: "((a :: u8) OR 1) AND 1 = 1"
  by (rule bit_word_eqI) (auto simp: bit_simps)

lemma encoder_reset_inv: "length (he_index stale) = 4096 \<Longrightarrow> enc_inv [] [] (heatshrink_encoder_reset stale)"
  unfolding enc_inv_def
  by (intro conjI enc_okI [of _ 0 _ "[]"])
     (simp_all add: heatshrink_encoder_reset_def he_data_def stream_def HEATSHRINK_STATIC_WINDOW_BITS_def
        indexed_def enc_bits_def of_bits_zeros enc_token_def codes_Nil is_finishing_def)

lemma encoder_reset_state: "he_st (heatshrink_encoder_reset stale) = HSES_NOT_FULL"
  "\<not> is_finishing (heatshrink_encoder_reset stale)"
  by (simp_all add: heatshrink_encoder_reset_def is_finishing_def)

lemma encoder_finish_correct:
  assumes "enc_inv inp out h"
  shows "enc_inv inp out (snd (heatshrink_encoder_finish h)) \<and> is_finishing (snd (heatshrink_encoder_finish h)) \<and>
    (fst (heatshrink_encoder_finish h) = HSER_FINISH_DONE \<longleftrightarrow> he_st h = HSES_DONE) \<and>
    he_st (snd (heatshrink_encoder_finish h)) \<noteq> HSES_NOT_FULL"
proof -
  define h' where "h' = snd (heatshrink_encoder_finish h)"
  have st: "he_st h' = (if he_st h = HSES_NOT_FULL then HSES_FILLED else he_st h)"
    and f: "he_buffer h' = he_buffer h" "he_input_size h' = he_input_size h" "he_index h' = he_index h"
      "he_match_scan_index h' = he_match_scan_index h" "he_bit_index h' = he_bit_index h"
      "he_current_byte h' = he_current_byte h" "he_match_length h' = he_match_length h"
      "he_match_pos h' = he_match_pos h" "he_outgoing_bits h' = he_outgoing_bits h"
      "he_outgoing_bits_count h' = he_outgoing_bits_count h"
    by (simp_all add: h'_def heatshrink_encoder_finish_def Let_def)
  have fin: "is_finishing h'"
    by (simp add: h'_def heatshrink_encoder_finish_def Let_def is_finishing_def FLAG_IS_FINISHING_def
        or_and_self)
  have r: "fst (heatshrink_encoder_finish h) = HSER_FINISH_DONE \<longleftrightarrow> he_st h = HSES_DONE"
    by (auto simp: heatshrink_encoder_finish_def Let_def)
  have "enc_ok inp out h'"
  proof (cases "he_st h = HSES_DONE")
    case True
    then show ?thesis using assms fin st unfolding enc_inv_def enc_ok_def
      by (auto simp: he_data_def f indexed_def)
  next
    case False
    then obtain c p where d: "he_data inp c h"
      "is_finishing h \<or> unat (he_input_size h) = 2048 \<or> he_st h = HSES_NOT_FULL"
      "indexed (he_st h) \<longrightarrow> chain_ok (he_buffer h) (2048 + unat (he_input_size h)) (he_index h)"
      "enc_bits h p" "enc_token inp c (bits_of_bytes out @ p) h"
      using assms unfolding enc_inv_def by (auto elim!: enc_okE)
    have "he_data inp c h'" using d(1) by (simp add: he_data_def f)
    moreover have "enc_token inp c (bits_of_bytes out @ p) h'"
      using d(5) assms fin False unfolding enc_inv_def
      by (cases "he_st h") (auto simp: enc_token_def Let_def st f match_ok_def split: if_splits)
    ultimately show ?thesis
      using d(3) fin False st enc_bits_frame [OF d(4) f(5,6)]
      by (intro enc_okI [of _ c _ p]) (auto simp: f indexed_def split: if_splits)
  qed
  then show ?thesis using fin r st assms unfolding enc_inv_def h'_def [symmetric] by auto
qed

lemma length_stream [simp]: "length (stream inp) = 2048 + length inp"
  by (simp add: stream_def)

lemma stream_append: "stream (inp @ xs) = stream inp @ xs"
  by (simp add: stream_def)

lemma encoder_sink_correct:
  assumes "enc_inv inp out h" "he_st h = HSES_NOT_FULL" "in_buf \<noteq> 0"
  obtains h' n where "heatshrink_encoder_sink h in_buf bytes = (HSER_SINK_OK, h', n)" "n \<le> length bytes"
    "bytes \<noteq> [] \<longrightarrow> 0 < n" "enc_inv (inp @ take n bytes) out h'" "\<not> is_finishing h'"
proof -
  obtain c p where d: "he_data inp c h" "enc_bits h p" "enc_token inp c (bits_of_bytes out @ p) h"
    using assms unfolding enc_inv_def by (auto elim!: enc_okE)
  define s where "s = unat (he_input_size h)"
  have t: "codes (bits_of_bytes out @ p) (take c inp)" "he_match_scan_index h = 0" "s < 2048" "\<not> is_finishing h"
    using d(3) assms(2) by (simp_all add: enc_token_def s_def)
  have b: "length (he_buffer h) = 4096" "length (he_index h) = 4096" "length inp = c + s"
    "\<And>j. j < 2048 + s \<Longrightarrow> he_buffer h ! j = stream inp ! (c + j)"
    using d(1) by (simp_all add: he_data_def s_def)
  define rem where "rem = get_input_buffer_size - he_input_size h"
  have ur: "unat rem = 2048 - s" using t(3) by (simp add: rem_def enc_const unat_sub word_le_nat_alt s_def)
  define cp where "cp = (if unat rem < length bytes then rem else of_nat (length bytes))"
  define n where "n = min (2048 - s) (length bytes)"
  have uc: "unat cp = n" using ur t(3) by (auto simp: cp_def n_def unat_of_nat)
  have cr: "cp = rem \<longleftrightarrow> n = 2048 - s" by (simp add: word_unat_eq_iff uc ur)
  define h1 where "h1 = h\<lparr>he_buffer := array_write (he_buffer h) (2048 + s) (take n bytes),
    he_input_size := he_input_size h + cp\<rparr>"
  define h' where "h' = (if n = 2048 - s then h1\<lparr>he_st := HSES_FILLED\<rparr> else h1)"
  have uo: "unat (get_input_offset + he_input_size h) = 2048 + s"
    using t(3) by (subst unat_add_u16) (simp_all add: enc_const s_def)
  have e: "heatshrink_encoder_sink h in_buf bytes = (HSER_SINK_OK, h', n)"
    unfolding heatshrink_encoder_sink_def Let_def rem_def [symmetric] cp_def [symmetric] uc cr uo
    using t(4) assms(2,3) by (simp add: h'_def h1_def)
  have us: "unat (he_input_size h + cp) = s + n"
    using t(3) uc by (subst unat_add_u16) (simp_all add: s_def n_def)
  have f: "he_buffer h' = array_write (he_buffer h) (2048 + s) (take n bytes)" "he_index h' = he_index h"
    "unat (he_input_size h') = s + n" "he_match_scan_index h' = 0" "he_flags h' = he_flags h"
    "he_bit_index h' = he_bit_index h" "he_current_byte h' = he_current_byte h"
    "he_st h' = (if n = 2048 - s then HSES_FILLED else HSES_NOT_FULL)"
    using us t(2) assms(2) by (simp_all add: h'_def h1_def)
  have fin: "\<not> is_finishing h'" using t(4) is_finishing_cong [OF f(5)] by simp
  have nl: "n \<le> length bytes" "n \<le> 2048 - s" by (simp_all add: n_def)
  have "he_buffer h' ! j = stream (inp @ take n bytes) ! (c + j)" if j: "j < 2048 + (s + n)" for j
  proof (cases "j < 2048 + s")
    case True
    then have "he_buffer h' ! j = stream inp ! (c + j)" using b t(3) by (simp add: f array_write_def nth_append)
    then show ?thesis using True b(3) by (simp add: stream_append nth_append)
  next
    case False
    have "j - (2048 + s) < n" "min (length bytes) n = n" using False j nl by auto
    then have "he_buffer h' ! j = take n bytes ! (j - (2048 + s))"
      using False b t(3) by (simp add: f array_write_def nth_append)
    then show ?thesis using False b(3) by (simp add: stream_append nth_append)
  qed
  then have "he_data (inp @ take n bytes) c h'"
    using b nl t(3) by (simp add: he_data_def f array_write_def)
  moreover have "enc_token (inp @ take n bytes) c (bits_of_bytes out @ p) h'"
  proof -
    have "n \<noteq> 2048 - s \<Longrightarrow> s + n < 2048" using nl(2) by linarith
    then show ?thesis using t(1,3) fin b(3) by (simp add: enc_token_def f)
  qed
  ultimately have "enc_inv (inp @ take n bytes) out h'"
    using enc_bits_frame [OF d(2) f(6,7)] nl t(3) unfolding enc_inv_def
    by (intro conjI enc_okI [of _ c _ p]) (auto simp: f indexed_def split: if_splits)
  moreover have "bytes \<noteq> [] \<longrightarrow> 0 < n" using t(3) by (simp add: n_def)
  ultimately show ?thesis using that e nl(1) fin by blast
qed

lemma encoder_sink_refused:
  "is_finishing h \<or> he_st h \<noteq> HSES_NOT_FULL \<or> in_buf = 0 \<Longrightarrow> heatshrink_encoder_sink h in_buf bytes =
     (if in_buf = 0 then HSER_SINK_ERROR_NULL else HSER_SINK_ERROR_MISUSE, h, 0)"
  by (auto simp: heatshrink_encoder_sink_def)

section \<open>The bound on the output\<close>

lemma enc_inv_bound:
  assumes "enc_inv inp out h"
  shows "8 * length out \<le> 9 * length inp + 7"
proof (cases "he_st h = HSES_DONE")
  case True
  then show ?thesis using assms by (auto simp: enc_inv_def enc_ok_def)
next
  case False
  then obtain c p where d: "he_data inp c h" "enc_token inp c (bits_of_bytes out @ p) h"
    using assms unfolding enc_inv_def by (auto elim!: enc_okE)
  have b: "unat (he_match_scan_index h) \<le> unat (he_input_size h)" "length inp = c + unat (he_input_size h)"
    using d(1) by (simp_all add: he_data_def)
  have *: "length (bits_of_bytes out @ p) \<le> 9 * length inp"
  proof (cases "he_st h")
    case HSES_YIELD_LITERAL
    then obtain bits0 where "he_match_scan_index h \<noteq> 0" "bits_of_bytes out @ p = bits0 @ [True]"
      "codes bits0 (take (c + unat (he_match_scan_index h) - 1) inp)"
      using d(2) by (auto simp: enc_token_def Let_def)
    then have "length (bits_of_bytes out @ p) \<le> 9 * (c + unat (he_match_scan_index h) - 1) + 1"
      "1 \<le> unat (he_match_scan_index h)"
      using b by (simp_all add: codes_def unat_gt_0 Suc_le_eq del: length_append) (simp_all add: min_def split: if_splits)
    then show ?thesis using b by linarith
  next
    case HSES_YIELD_BR_INDEX
    then obtain bits0 bits1 where q: "bits_of_bytes out @ p @ bits1 = bits0 @ False # to_bits 11 (he_match_pos h - 1)"
      "codes bits0 (take (c + unat (he_match_scan_index h)) inp)" "match_ok inp (c + unat (he_match_scan_index h)) h"
      using d(2) by (auto simp: enc_token_def Let_def)
    then have "length (bits_of_bytes out @ p @ bits1) = length bits0 + 12" by simp
    moreover have "length bits0 \<le> 9 * (c + unat (he_match_scan_index h))" using q(2) b by (simp add: codes_def)
    moreover have "c + unat (he_match_scan_index h) + 3 \<le> length inp" using q(3) by (simp add: match_ok_def)
    ultimately show ?thesis by (simp del: length_bits_of_bytes)
  next
    case HSES_YIELD_BR_LENGTH
    then obtain bits0 bits1 where q: "bits_of_bytes out @ p @ bits1 = bits0 @ False # to_bits 11 (he_match_pos h - 1)
        @ to_bits 4 (he_match_length h - 1)"
      "codes bits0 (take (c + unat (he_match_scan_index h)) inp)" "match_ok inp (c + unat (he_match_scan_index h)) h"
      using d(2) by (auto simp: enc_token_def Let_def)
    then have "length (bits_of_bytes out @ p @ bits1) = length bits0 + 16" by simp
    moreover have "length bits0 \<le> 9 * (c + unat (he_match_scan_index h))" using q(2) b by (simp add: codes_def)
    moreover have "c + unat (he_match_scan_index h) + 3 \<le> length inp" using q(3) by (simp add: match_ok_def)
    ultimately show ?thesis by (simp del: length_bits_of_bytes)
  qed (use d(2) False b in \<open>auto simp: enc_token_def Let_def codes_def min_def split: if_splits\<close>)
  then show ?thesis by simp
qed

section \<open>Runs of the interface\<close>

text \<open>Any sequence of calls: the bytes taken in so far, the bytes handed out so far, the encoder.\<close>

inductive enc_run :: "u8 list \<Rightarrow> u8 list \<Rightarrow> heatshrink_encoder \<Rightarrow> bool" where
  enc_start: "length (he_index stale) = 4096 \<Longrightarrow> enc_run [] [] (heatshrink_encoder_reset stale)"
| enc_sink: "enc_run inp out h \<Longrightarrow> heatshrink_encoder_sink h in_buf bytes = (res, h', n)
    \<Longrightarrow> enc_run (inp @ take n bytes) out h'"
| enc_poll: "enc_run inp out h \<Longrightarrow> heatshrink_encoder_poll h out_buf n = Some (res, h', bs)
    \<Longrightarrow> enc_run inp (out @ bs) h'"
| enc_finish: "enc_run inp out h \<Longrightarrow> heatshrink_encoder_finish h = (res, h') \<Longrightarrow> enc_run inp out h'"

lemma enc_run_inv: "enc_run inp out h \<Longrightarrow> enc_inv inp out h"
proof (induction rule: enc_run.induct)
  case (enc_start stale)
  then show ?case by (rule encoder_reset_inv)
next
  case (enc_sink inp out h in_buf bytes res h' n)
  show ?case
  proof (cases "he_st h = HSES_NOT_FULL \<and> in_buf \<noteq> 0")
    case True
    then have "he_st h = HSES_NOT_FULL" "in_buf \<noteq> 0" by simp_all
    from encoder_sink_correct [OF enc_sink.IH this, of bytes] show ?thesis
      using enc_sink.hyps(2) by (metis prod.inject)
  next
    case False
    then show ?thesis using enc_sink.hyps(2) enc_sink.IH by (auto simp: encoder_sink_refused)
  qed
next
  case (enc_poll inp out h out_buf n res h' bs)
  show ?case
  proof (cases "n = 0 \<or> out_buf = 0")
    case True
    then show ?thesis using enc_poll.hyps(2) enc_poll.IH by (auto simp: heatshrink_encoder_poll_def split: if_splits)
  next
    case False
    then show ?thesis
      using encoder_poll_correct [OF enc_poll.IH, of n out_buf] enc_poll.hyps(2) by (metis Pair_inject gr0I option.inject)
  qed
next
  case (enc_finish inp out h res h')
  then show ?case using encoder_finish_correct [of inp out h] by simp
qed

section \<open>Properties\<close>

text \<open>C22: Whatever the sequence of calls of \<open>sink\<close>, \<open>poll\<close> and \<open>finish\<close> (any chunks, any output
  buffer sizes, refused calls and NULL buffers included): once the encoder has reached its final state, the bytes it
  has handed out decode, under the reference definition of the format, to exactly the bytes that
  \<open>sink\<close> took.\<close>

theorem encoder_output_decodes:
  assumes "enc_run inp out h" "he_st h = HSES_DONE"
  shows "lzss (bits_of_bytes out) [] = inp"
  using enc_run_inv [OF assms(1)] assms(2) by (simp add: enc_inv_def enc_ok_def)

text \<open>C25: The encoder never hands out more than nine bits for every byte it took (with seven bits of
  padding), in every state that a sequence of calls reaches.\<close>

theorem encoder_expansion_bound:
  assumes "enc_run inp out h"
  shows "8 * length out \<le> 9 * length inp + 7"
  by (rule enc_inv_bound [OF enc_run_inv [OF assms]])

text \<open>C24: \<open>heatshrink_encoder_poll\<close> always returns: with room for \<open>n > 0\<close> bytes in a buffer that is not NULL it hands out at most
  \<open>n\<close>; \<open>MORE\<close> means that the room is used up, and \<open>EMPTY\<close> with room left means that the encoder
  waits for input or has finished.\<close>

theorem encoder_poll_returns:
  assumes "enc_run inp out h" "0 < n" "out_buf \<noteq> 0"
  shows "\<exists>res h' bs. heatshrink_encoder_poll h out_buf n = Some (res, h', bs) \<and> length bs \<le> n \<and>
    (res = HSER_POLL_MORE \<and> length bs = n \<or>
     res = HSER_POLL_EMPTY \<and> (he_st h' = HSES_NOT_FULL \<or> he_st h' = HSES_DONE \<or> length bs = n))"
  by (rule encoder_poll_correct [OF enc_run_inv [OF assms(1)] assms(2,3)]) blast

text \<open>An encoder object with arbitrary contents, as the stack may hold it.\<close>

definition stale_encoder :: heatshrink_encoder where
  "stale_encoder = \<lparr>he_input_size = 1, he_match_scan_index = 2, he_match_length = 3, he_match_pos = 4,
      he_outgoing_bits = 5, he_outgoing_bits_count = 6, he_flags = 7, he_st = HSES_DONE,
      he_current_byte = 8, he_bit_index = 9, he_index = replicate 4096 10, he_buffer = []\<rparr>"

text \<open>A short input, fed, finished and polled.\<close>

lemma short_run:
  obtains h bs where "enc_run [65, 66] bs h" "he_st h = HSES_DONE"
proof -
  define h0 where "h0 = heatshrink_encoder_reset stale_encoder"
  have r0: "enc_run [] [] h0" unfolding h0_def by (rule enc_start) (simp add: stale_encoder_def)
  have "he_st h0 = HSES_NOT_FULL" "(0x1000 :: u32) \<noteq> 0" by (simp_all add: h0_def encoder_reset_state)
  from encoder_sink_correct [OF enc_run_inv [OF r0] this, of "[65, 66]"] obtain h1 n where
    s: "heatshrink_encoder_sink h0 0x1000 [65, 66] = (HSER_SINK_OK, h1, n)" by metis
  have n: "n = 2"
    using s by (simp add: h0_def heatshrink_encoder_sink_def heatshrink_encoder_reset_def is_finishing_def Let_def enc_const)
  have r1: "enc_run [65, 66] [] h1" using enc_sink [OF r0 s] by (simp add: n)
  define h2 where "h2 = snd (heatshrink_encoder_finish h1)"
  have r2: "enc_run [65, 66] [] h2" unfolding h2_def by (rule enc_finish [OF r1 prod.collapse [symmetric]])
  have f: "is_finishing h2" "he_st h2 \<noteq> HSES_NOT_FULL"
    using encoder_finish_correct [OF enc_run_inv [OF r1]] by (simp_all add: h2_def)
  obtain res h3 bs where p: "heatshrink_encoder_poll h2 0x2000 9 = Some (res, h3, bs)" "length bs \<le> 9"
    "is_finishing h3" "enc_inv [65, 66] ([] @ bs) h3"
    "res = HSER_POLL_MORE \<and> length bs = 9 \<or>
     res = HSER_POLL_EMPTY \<and> (he_st h3 = HSES_NOT_FULL \<or> he_st h3 = HSES_DONE \<or> length bs = 9)"
    by (rule encoder_poll_correct [OF enc_run_inv [OF r2], of 9 "0x2000"]) (use f in simp_all)
  have r3: "enc_run [65, 66] bs h3" using enc_poll [OF r2 p(1)] by simp
  have "length bs \<noteq> 9" using enc_inv_bound [OF p(4)] by auto
  moreover have "he_st h3 \<noteq> HSES_NOT_FULL"
    using p(3,4) by (auto simp: enc_inv_def enc_ok_def enc_token_def Let_def)
  ultimately show ?thesis using that [OF r3] p(5) by auto
qed

lemma encoder_output_decodes_witness:
  "\<exists>out h. enc_run [65, 66] out h \<and> he_st h = HSES_DONE \<and> lzss (bits_of_bytes out) [] = [65, 66]"
proof -
  obtain h out where "enc_run [65, 66] out h" "he_st h = HSES_DONE" by (rule short_run)
  then show ?thesis using encoder_output_decodes by blast
qed

lemma encoder_expansion_bound_witness:
  "\<exists>out h. enc_run [65, 66] out h \<and> he_st h = HSES_DONE \<and> 8 * length out \<le> 9 * length [65, 66 :: u8] + 7"
proof -
  obtain h out where "enc_run [65, 66] out h" "he_st h = HSES_DONE" by (rule short_run)
  then show ?thesis using encoder_expansion_bound by blast
qed

lemma encoder_poll_returns_witness:
  "\<exists>res h' bs. heatshrink_encoder_poll (heatshrink_encoder_reset stale_encoder) 0x2000 5 = Some (res, h', bs) \<and>
     length bs \<le> 5 \<and>
     (res = HSER_POLL_MORE \<and> length bs = 5 \<or>
      res = HSER_POLL_EMPTY \<and> (he_st h' = HSES_NOT_FULL \<or> he_st h' = HSES_DONE \<or> length bs = 5))"
  by (rule encoder_poll_returns [OF enc_start]) (simp_all add: stale_encoder_def)

end
