(* ===== verification/Shrink.thy ===== *)
theory Shrink
  imports Decompress Encoder_Correct
begin

text \<open>
  \<open>src/lib/algo/shrink.c\<close>: compression and decompression of memory areas, and the pseudo random
  sequence with which the tests fill and check their buffers. The encoder lives on the C stack: the
  parameter \<open>stale\<close> is what that object happens to hold. Debug messages are left out.
\<close>

section \<open>Pseudo random sequence\<close>

text \<open>The generator's state is three \<open>int\<close>s, so its right shift is arithmetic.\<close>

record prandom =
  s1 :: "32 word"
  s2 :: "32 word"
  s3 :: "32 word"

definition prandom_reset :: prandom where
  "prandom_reset = \<lparr>s1 = 100, s2 = 200, s3 = 300\<rparr>"

definition TAUSWORTHE :: "32 word \<Rightarrow> nat \<Rightarrow> nat \<Rightarrow> 32 word \<Rightarrow> nat \<Rightarrow> 32 word" where
  "TAUSWORTHE s a b c d = push_bit d (s AND c) XOR signed_drop_bit b (push_bit a s XOR s)"

definition prandom32 :: "prandom \<Rightarrow> u32 \<times> prandom" where
  "prandom32 p =
     (let p = p\<lparr>s1 := TAUSWORTHE (s1 p) 13 19 4294967294 12\<rparr>;
          p = p\<lparr>s2 := TAUSWORTHE (s2 p) 2 25 4294967288 4\<rparr>;
          p = p\<lparr>s3 := TAUSWORTHE (s3 p) 3 11 4294967280 17\<rparr>
      in (s1 p XOR s2 p XOR s3 p, p))"

text \<open>\<open>n\<close> rounds of the loops over the buffer, from index \<open>i\<close> on.\<close>

fun fill_loop :: "nat \<Rightarrow> u32 \<Rightarrow> u32 \<Rightarrow> prandom \<Rightarrow> mem \<Rightarrow> mem" where
  "fill_loop 0 buf i p m = m"
| "fill_loop (Suc n) buf i p m =
     (let (r, p) = prandom32 p
      in fill_loop n buf (i + 1) p (m(buf + i := ucast (drop_bit 24 r))))"

definition fill_buff_with_random_seq :: "u32 \<Rightarrow> u32 \<Rightarrow> mem \<Rightarrow> mem" where
  "fill_buff_with_random_seq buf sz m = fill_loop (unat sz) buf 0 prandom_reset m"

fun check_loop :: "nat \<Rightarrow> u32 \<Rightarrow> u32 \<Rightarrow> prandom \<Rightarrow> mem \<Rightarrow> bool" where
  "check_loop 0 buf i p m = True"
| "check_loop (Suc n) buf i p m =
     (let (r, p) = prandom32 p; random = (ucast (drop_bit 24 r) :: u8)
      in if m (buf + i) \<noteq> random then False else check_loop n buf (i + 1) p m)"

definition check_buf_with_random_seq :: "u32 \<Rightarrow> u32 \<Rightarrow> mem \<Rightarrow> bool" where
  "check_buf_with_random_seq buf sz m = check_loop (unat sz) buf 0 prandom_reset m"

section \<open>Compression\<close>

partial_function (option) shrink_drain ::
  "u32 \<Rightarrow> u32 \<Rightarrow> heatshrink_encoder \<Rightarrow> u32 \<Rightarrow> mem
     \<Rightarrow> (hse_poll_res \<times> heatshrink_encoder \<times> u32 \<times> mem) option" where
  "shrink_drain compbuf comp_sz encoder polled m =
     (case heatshrink_encoder_poll encoder (compbuf + polled) (unat (comp_sz - polled)) of
        None \<Rightarrow> None
      | Some (res_poll, encoder, bytes) \<Rightarrow>
          if res_poll = HSER_POLL_ERROR_NULL \<or> res_poll = HSER_POLL_ERROR_MISUSE then Some (res_poll, encoder, polled, m)
          else
            let m = mem_write m (compbuf + polled) bytes;
                polled = polled + of_nat (length bytes)
            in if res_poll = HSER_POLL_MORE then shrink_drain compbuf comp_sz encoder polled m
               else Some (res_poll, encoder, polled, m))"

partial_function (option) shrink_loop ::
  "u32 \<Rightarrow> u32 \<Rightarrow> u32 \<Rightarrow> u32 \<Rightarrow> u32 \<Rightarrow> u32 \<Rightarrow> heatshrink_encoder \<Rightarrow> mem \<Rightarrow> (u32 \<times> mem) option"
where
  "shrink_loop inbuf input_size compbuf comp_sz sunk polled encoder m =
     (if sunk < input_size then
        let (res_sink, encoder, count) =
              heatshrink_encoder_sink encoder (inbuf + sunk) (mem_read m (inbuf + sunk) (unat (input_size - sunk)))
        in if res_sink = HSER_SINK_ERROR_NULL \<or> res_sink = HSER_SINK_ERROR_MISUSE then Some (polled, m)
           else
             let sunk = sunk + of_nat count;
                 (res_finish, encoder) =
                   (if sunk = input_size then heatshrink_encoder_finish encoder else (HSER_FINISH_MORE, encoder))
             in if res_finish \<noteq> HSER_FINISH_MORE then Some (polled, m)
                else case shrink_drain compbuf comp_sz encoder polled m of
                    None \<Rightarrow> None
                  | Some (res_poll, encoder, polled, m) \<Rightarrow>
                      if res_poll \<noteq> HSER_POLL_EMPTY then Some (polled, m)
                      else if sunk = input_size then
                        let (res_finish, encoder) = heatshrink_encoder_finish encoder
                        in if res_finish \<noteq> HSER_FINISH_DONE then Some (polled, m)
                           else shrink_loop inbuf input_size compbuf comp_sz sunk polled encoder m
                      else shrink_loop inbuf input_size compbuf comp_sz sunk polled encoder m
      else Some (polled, m))"

definition shrink :: "heatshrink_encoder \<Rightarrow> u32 \<Rightarrow> u32 \<Rightarrow> u32 \<Rightarrow> u32 \<Rightarrow> mem \<Rightarrow> (u32 \<times> mem) option" where
  "shrink stale inbuf input_size compbuf comp_sz m =
     shrink_loop inbuf input_size compbuf comp_sz 0 0 (heatshrink_encoder_reset stale) m"

section \<open>Decompression\<close>

text \<open>An inner \<open>None\<close> leaves the function.\<close>

partial_function (option) unshrink_drain ::
  "u32 \<Rightarrow> u32 \<Rightarrow> heatshrink_decoder \<Rightarrow> u32 \<Rightarrow> mem \<Rightarrow> ((heatshrink_decoder \<times> u32) option \<times> mem) option" where
  "unshrink_drain decompbuf decomp_sz decoder polled m =
     (case heatshrink_decoder_poll decoder (decompbuf + polled) (unat (decomp_sz - polled)) of
        None \<Rightarrow> None
      | Some (res_poll, decoder, bytes) \<Rightarrow>
          if res_poll = HSDR_POLL_ERROR_NULL \<or> res_poll = HSDR_POLL_ERROR_UNKNOWN then Some (None, m)
          else
            let m = mem_write m (decompbuf + polled) bytes;
                polled = polled + of_nat (length bytes)
            in if res_poll = HSDR_POLL_MORE then unshrink_drain decompbuf decomp_sz decoder polled m
               else Some (Some (decoder, polled), m))"

partial_function (option) unshrink_loop ::
  "u32 \<Rightarrow> u32 \<Rightarrow> u32 \<Rightarrow> u32 \<Rightarrow> u32 \<Rightarrow> u32 \<Rightarrow> heatshrink_decoder \<Rightarrow> mem \<Rightarrow> mem option" where
  "unshrink_loop compbuf compressed_size decompbuf decomp_sz sunk polled decoder m =
     (if sunk < compressed_size then
        let (res_sink, decoder, count) =
              heatshrink_decoder_sink decoder (compbuf + sunk)
                (mem_read m (compbuf + sunk) (unat (compressed_size - sunk)))
        in if res_sink = HSDR_SINK_ERROR_NULL then Some m
           else let sunk = sunk + of_nat count
        in if sunk = compressed_size \<and> heatshrink_decoder_finish decoder \<noteq> HSDR_FINISH_MORE then Some m
           else case unshrink_drain decompbuf decomp_sz decoder polled m of
               None \<Rightarrow> None
             | Some (None, m) \<Rightarrow> Some m
             | Some (Some (decoder, polled), m) \<Rightarrow>
                 if sunk = compressed_size \<and> heatshrink_decoder_finish decoder \<noteq> HSDR_FINISH_DONE then Some m
                 else unshrink_loop compbuf compressed_size decompbuf decomp_sz sunk polled decoder m
      else Some m)"

text \<open>The expected size only serves a debug message.\<close>

definition unshrink :: "u32 \<Rightarrow> u32 \<Rightarrow> u32 \<Rightarrow> u32 \<Rightarrow> u32 \<Rightarrow> mem \<Rightarrow> mem option" where
  "unshrink compbuf compressed_size decompbuf decomp_sz etalon_sz m =
     unshrink_loop compbuf compressed_size decompbuf decomp_sz 0 0 heatshrink_decoder_reset m"

declare shrink_drain.simps [simp del] shrink_loop.simps [simp del]
  unshrink_drain.simps [simp del] unshrink_loop.simps [simp del]

section \<open>The sequence\<close>

fun random_seq :: "nat \<Rightarrow> prandom \<Rightarrow> u8 list" where
  "random_seq 0 p = []"
| "random_seq (Suc n) p = (case prandom32 p of (r, p) \<Rightarrow> ucast (drop_bit 24 r) # random_seq n p)"

lemma length_random_seq [simp]: "length (random_seq n p) = n"
  by (induction n arbitrary: p) (auto split: prod.split)

lemma mem_write_one: "m(a := v) = mem_write m a [v]"
  by (rule ext) (auto simp: mem_write_def unat_eq_zero)

lemma fill_loop_writes:
  assumes "length xs + n \<le> 2 ^ 32"
  shows "fill_loop n buf (of_nat (length xs)) p (mem_write m buf xs) = mem_write m buf (xs @ random_seq n p)"
  using assms
proof (induction n arbitrary: xs p)
  case (Suc n)
  obtain r q where r: "prandom32 p = (r, q)" by fastforce
  have w: "(mem_write m buf xs)(buf + of_nat (length xs) := v) = mem_write m buf (xs @ [v])" for v
    unfolding mem_write_one by (rule mem_write_append) (use Suc.prems in simp)
  have "(of_nat (length xs) :: u32) + 1 = of_nat (length (xs @ [v]))" for v :: u8 by simp
  then show ?case using Suc.IH [of "xs @ [ucast (drop_bit 24 r)]" q] Suc.prems
    by (simp add: r w add.commute)
qed simp

lemma fill_buff_writes:
  "fill_buff_with_random_seq buf sz m = mem_write m buf (random_seq (unat sz) prandom_reset)"
  using fill_loop_writes [of "[]" "unat sz" buf prandom_reset m] unat_u32_less [of sz]
  by (simp add: fill_buff_with_random_seq_def less_imp_le del: unat_u32_less)

lemma check_loop_compares:
  "check_loop n buf i p m \<longleftrightarrow> mem_read m (buf + i) n = random_seq n p"
proof (induction n arbitrary: i p)
  case (Suc n)
  obtain r q where r: "prandom32 p = (r, q)" by fastforce
  have "mem_read m (buf + i) (Suc n) = m (buf + i) # mem_read m (buf + (i + 1)) n"
    using mem_read_add [of m "buf + i" 1 n] by (simp add: mem_read_def add.assoc)
  then show ?case using Suc.IH [of "i + 1" q] by (auto simp: r)
qed simp

lemma check_buf_compares:
  "check_buf_with_random_seq buf sz m \<longleftrightarrow> mem_read m buf (unat sz) = random_seq (unat sz) prandom_reset"
  by (simp add: check_buf_with_random_seq_def check_loop_compares)

section \<open>shrink\<close>

lemma shrink_drain_correct:
  fixes compbuf comp_sz :: u32 and m0 :: mem
  defines "cs \<equiv> unat comp_sz"
  assumes "enc_inv inp out h" "length out \<le> cs" and nn: "compbuf \<noteq> 0" "unat compbuf + cs \<le> 2 ^ 32"
  shows "\<exists>res h' bs. shrink_drain compbuf comp_sz h (of_nat (length out)) (mem_write m0 compbuf out) =
      Some (res, h', of_nat (length (out @ bs)), mem_write m0 compbuf (out @ bs)) \<and>
    length (out @ bs) \<le> cs \<and> enc_inv inp (out @ bs) h' \<and> is_finishing h' = is_finishing h \<and>
    ((res = HSER_POLL_ERROR_MISUSE \<or> res = HSER_POLL_ERROR_NULL) \<and> length (out @ bs) = cs \<or>
     res = HSER_POLL_EMPTY \<and> (he_st h' = HSES_NOT_FULL \<or> he_st h' = HSES_DONE \<or> length (out @ bs) = cs))"
proof -
  define full_res where "full_res = (if compbuf + comp_sz = 0 then HSER_POLL_ERROR_NULL else HSER_POLL_ERROR_MISUSE)"
  have fr: "full_res = HSER_POLL_ERROR_MISUSE \<or> full_res = HSER_POLL_ERROR_NULL" "full_res \<noteq> HSER_POLL_EMPTY"
    by (simp_all add: full_res_def)
  have cs: "cs < 2 ^ 32" unfolding cs_def by simp
  have room: "unat (comp_sz - of_nat (length xs)) = cs - length xs" if "length xs \<le> cs" for xs :: "u8 list"
  proof -
    have "unat (of_nat (length xs) :: u32) = length xs" using that cs by (intro unat_of_nat_u32) simp
    then show ?thesis using that by (simp add: cs_def unat_sub word_le_nat_alt)
  qed
  have full: "shrink_drain compbuf comp_sz k (of_nat (length xs)) m
      = Some (full_res, k, of_nat (length xs), m)" if "length xs = cs" for k m and xs :: "u8 list"
  proof -
    have "(of_nat (length xs) :: u32) = comp_sz" by (simp add: that cs_def)
    then show ?thesis
      using room [of xs] that by (subst shrink_drain.simps) (simp add: heatshrink_encoder_poll_def full_res_def)
  qed
  show ?thesis
  proof (cases "length out = cs")
    case True
    then show ?thesis using full [OF True] assms(2,3) fr
      by (intro exI [of _ full_res] exI [of _ h] exI [of _ "[]"]) simp
  next
    case False
    then have n: "0 < cs - length out" using assms(3) by simp
    have "unat (compbuf + of_nat (length out)) = unat compbuf + length out" using n nn(2) by (intro unat_add_small) simp
    then have pos: "compbuf + of_nat (length out) \<noteq> 0" using nn(1) by (auto simp: word_unat_eq_iff)
    obtain res h' bs where r: "heatshrink_encoder_poll h (compbuf + of_nat (length out)) (cs - length out) = Some (res, h', bs)"
      "length bs \<le> cs - length out" "enc_inv inp (out @ bs) h'" "is_finishing h' = is_finishing h"
      "res = HSER_POLL_MORE \<and> length bs = cs - length out \<or>
       res = HSER_POLL_EMPTY \<and> (he_st h' = HSES_NOT_FULL \<or> he_st h' = HSES_DONE \<or> length bs = cs - length out)"
      by (rule encoder_poll_correct [OF assms(2) n pos])
    have l: "length (out @ bs) \<le> cs" using r(2) assms(3) by simp
    have w: "mem_write (mem_write m0 compbuf out) (compbuf + of_nat (length out)) bs = mem_write m0 compbuf (out @ bs)"
      using l cs by (intro mem_write_append) simp
    have unf: "shrink_drain compbuf comp_sz h (of_nat (length out)) (mem_write m0 compbuf out) =
      (if res = HSER_POLL_MORE then shrink_drain compbuf comp_sz h' (of_nat (length (out @ bs))) (mem_write m0 compbuf (out @ bs))
       else Some (res, h', of_nat (length (out @ bs)), mem_write m0 compbuf (out @ bs)))"
      by (subst shrink_drain.simps) (use r(5) in \<open>auto simp: room [OF assms(3)] r(1) w\<close>)
    show ?thesis
    proof (cases "res = HSER_POLL_MORE")
      case True
      then have c: "length (out @ bs) = cs" using r(5) n by simp
      show ?thesis unfolding unf using full [OF c] True r(3,4) c
        by (intro exI [of _ full_res] exI [of _ h'] exI [of _ bs] conjI)
           (use fr in \<open>simp_all del: length_append\<close>)
    next
      case no: False
      then show ?thesis using unf r(3,4,5) l n
        by (intro exI [of _ res] exI [of _ h'] exI [of _ bs]) auto
    qed
  qed
qed

lemma enc_states:
  assumes "enc_inv inp out h"
  shows "he_st h = HSES_DONE \<Longrightarrow> is_finishing h \<and> lzss (bits_of_bytes out) [] = inp"
    "he_st h = HSES_NOT_FULL \<Longrightarrow> \<not> is_finishing h"
  using assms by (auto simp: enc_inv_def enc_ok_def enc_token_def Let_def)

text \<open>Enough room: \<open>fits\<close>.\<close>

lemma shrink_loop_correct:
  fixes inbuf input_size compbuf comp_sz :: u32 and m0 :: mem
  defines "n \<equiv> unat input_size" and "cs \<equiv> unat comp_sz"
  defines "data \<equiv> mem_read m0 inbuf n"
  assumes sep: "separate inbuf n compbuf cs" and nn: "inbuf \<noteq> 0" "compbuf \<noteq> 0"
  shows "s \<le> n \<Longrightarrow> enc_inv (take s data) out h \<Longrightarrow> length out \<le> cs \<Longrightarrow>
    (9 * n + 7 < 8 * cs \<longrightarrow> (if s < n then he_st h = HSES_NOT_FULL else he_st h = HSES_DONE)) \<Longrightarrow>
    \<exists>out'. shrink_loop inbuf input_size compbuf comp_sz (of_nat s) (of_nat (length out)) h (mem_write m0 compbuf out)
        = Some (of_nat (length out'), mem_write m0 compbuf out') \<and> length out' \<le> cs \<and>
      (9 * n + 7 < 8 * cs \<longrightarrow> lzss (bits_of_bytes out') [] = data \<and> 8 * length out' \<le> 9 * n + 7)"
proof (induction "n - s" arbitrary: s out h rule: less_induct)
  case less
  let ?m = "mem_write m0 compbuf out"
  have nlt: "n < 2 ^ 32" unfolding n_def by simp
  have us: "unat (of_nat s :: u32) = s" using less.prems(1) nlt by (simp add: unat_of_nat_u32)
  have ld: "length data = n" by (simp add: data_def)
  show ?case
  proof (cases "s < n")
    case False
    then have s: "s = n" using less.prems(1) by simp
    have "\<not> of_nat s < input_size" using us s by (simp add: word_less_nat_alt n_def)
    then have "shrink_loop inbuf input_size compbuf comp_sz (of_nat s) (of_nat (length out)) h ?m
        = Some (of_nat (length out), ?m)" by (subst shrink_loop.simps) simp
    then show ?thesis using less.prems(2-4) enc_inv_bound [OF less.prems(2)] enc_states(1) [OF less.prems(2)] s ld
      by (intro exI [of _ out]) auto
  next
    case True
    have fit: "unat compbuf + cs \<le> 2 ^ 32" "unat inbuf + n \<le> 2 ^ 32"
      using sep unat_u32_less [of inbuf] unat_u32_less [of compbuf] unfolding separate_def by linarith+
    have "unat (inbuf + of_nat s) = unat inbuf + s" using True fit(2) by (intro unat_add_small) simp
    then have pos: "inbuf + of_nat s \<noteq> 0" using nn(1) by (auto simp: word_unat_eq_iff)
    have lt: "of_nat s < input_size" using us True by (simp add: word_less_nat_alt n_def)
    have rem: "unat (input_size - of_nat s) = n - s" using us True by (simp add: unat_sub word_le_nat_alt n_def)
    have sep': "separate inbuf n compbuf (length out)" using sep less.prems(3) by (auto simp: separate_def)
    have rd: "mem_read ?m (inbuf + of_nat s) (n - s) = drop s data"
      using mem_read_write_separate [OF sep'] mem_read_drop [of s n ?m inbuf] True by (simp add: data_def)
    show ?thesis
    proof (cases "he_st h = HSES_NOT_FULL")
      case False
      have "shrink_loop inbuf input_size compbuf comp_sz (of_nat s) (of_nat (length out)) h ?m
        = Some (of_nat (length out), ?m)"
        by (subst shrink_loop.simps) (simp add: lt encoder_sink_refused False pos)
      then show ?thesis using less.prems(3,4) False True by (intro exI [of _ out]) auto
    next
      case nf: True
      obtain h1 k where h1: "heatshrink_encoder_sink h (inbuf + of_nat s) (drop s data) = (HSER_SINK_OK, h1, k)"
        "k \<le> length (drop s data)" "drop s data \<noteq> [] \<longrightarrow> 0 < k"
        "enc_inv (take s data @ take k (drop s data)) out h1" "\<not> is_finishing h1"
        by (rule encoder_sink_correct [OF less.prems(2) nf pos, of "drop s data"])
      have k: "0 < k" "s + k \<le> n" using h1(2,3) True ld by auto
      have tk: "take s data @ take k (drop s data) = take (s + k) data" by (simp add: take_add)
      have sk: "(of_nat s :: u32) + of_nat k = of_nat (s + k)" by simp
      have usk: "unat (of_nat (s + k) :: u32) = s + k" using k(2) nlt by (simp only: unat_of_nat_u32)
      then have fin: "(of_nat (s + k) = input_size) = (s + k = n)" by (simp only: n_def word_unat_eq_iff)
      define h2 where "h2 = (if s + k = n then snd (heatshrink_encoder_finish h1) else h1)"
      have h2: "enc_inv (take (s + k) data) out h2" "is_finishing h2 = (s + k = n)"
        using encoder_finish_correct [OF h1(4)] h1(4,5) by (auto simp: h2_def tk)
      have nd: "he_st h1 \<noteq> HSES_DONE" using enc_states(1) [OF h1(4)] h1(5) by auto
      have fm: "(if s + k = n then heatshrink_encoder_finish h1 else (HSER_FINISH_MORE, h1)) = (HSER_FINISH_MORE, h2)"
        using encoder_finish_correct [OF h1(4)] nd
        by (cases "heatshrink_encoder_finish h1"; cases "fst (heatshrink_encoder_finish h1)") (auto simp: h2_def)
      obtain res h3 bs where d: "shrink_drain compbuf comp_sz h2 (of_nat (length out)) ?m =
          Some (res, h3, of_nat (length (out @ bs)), mem_write m0 compbuf (out @ bs))"
        "length (out @ bs) \<le> cs" "enc_inv (take (s + k) data) (out @ bs) h3" "is_finishing h3 = is_finishing h2"
        "(res = HSER_POLL_ERROR_MISUSE \<or> res = HSER_POLL_ERROR_NULL) \<and> length (out @ bs) = cs \<or>
         res = HSER_POLL_EMPTY \<and> (he_st h3 = HSES_NOT_FULL \<or> he_st h3 = HSES_DONE \<or> length (out @ bs) = cs)"
        using shrink_drain_correct [OF h2(1), of comp_sz compbuf m0] less.prems(3) nn(2) fit(1) unfolding cs_def by blast
      have unf: "shrink_loop inbuf input_size compbuf comp_sz (of_nat s) (of_nat (length out)) h ?m =
        (if res \<noteq> HSER_POLL_EMPTY then Some (of_nat (length (out @ bs)), mem_write m0 compbuf (out @ bs))
         else if s + k = n then
           let (res_finish, encoder) = heatshrink_encoder_finish h3
           in if res_finish \<noteq> HSER_FINISH_DONE then Some (of_nat (length (out @ bs)), mem_write m0 compbuf (out @ bs))
              else shrink_loop inbuf input_size compbuf comp_sz (of_nat (s + k)) (of_nat (length (out @ bs))) encoder
                (mem_write m0 compbuf (out @ bs))
         else shrink_loop inbuf input_size compbuf comp_sz (of_nat (s + k)) (of_nat (length (out @ bs))) h3
                (mem_write m0 compbuf (out @ bs)))"
        by (subst shrink_loop.simps)
           (simp only: lt rem rd h1(1) Let_def prod.case sk fin fm d(1) option.case hse_sink_res.distinct
             simp_thms if_True if_False)
      have small: "9 * n + 7 < 8 * cs \<Longrightarrow> length (out @ bs) \<noteq> cs"
        using enc_inv_bound [OF d(3)] k(2) ld by auto
      have stop: ?thesis if "shrink_loop inbuf input_size compbuf comp_sz (of_nat s) (of_nat (length out)) h ?m =
          Some (of_nat (length (out @ bs)), mem_write m0 compbuf (out @ bs))" "\<not> 9 * n + 7 < 8 * cs"
        using that d(2) by (intro exI [of _ "out @ bs"]) simp
      have go: ?thesis if "shrink_loop inbuf input_size compbuf comp_sz (of_nat s) (of_nat (length out)) h ?m =
          shrink_loop inbuf input_size compbuf comp_sz (of_nat (s + k)) (of_nat (length (out @ bs))) g
            (mem_write m0 compbuf (out @ bs))" "enc_inv (take (s + k) data) (out @ bs) g"
        "9 * n + 7 < 8 * cs \<longrightarrow> (if s + k < n then he_st g = HSES_NOT_FULL else he_st g = HSES_DONE)" for g
      proof -
        have "n - (s + k) < n - s" using k True by simp
        from less.hyps [OF this k(2) that(2) d(2) that(3)] show ?thesis using that(1) by simp
      qed
      consider "res \<noteq> HSER_POLL_EMPTY" | "res = HSER_POLL_EMPTY" "s + k = n" "he_st h3 = HSES_DONE"
        | "res = HSER_POLL_EMPTY" "s + k = n" "he_st h3 \<noteq> HSES_DONE" | "res = HSER_POLL_EMPTY" "s + k < n"
        using k(2) by linarith
      then show ?thesis
      proof cases
        case 1
        then show ?thesis using unf d(5) small by (intro stop) auto
      next
        case 2
        obtain g where g: "heatshrink_encoder_finish h3 = (HSER_FINISH_DONE, g)" "he_st g = HSES_DONE"
          using 2(3) by (auto simp: heatshrink_encoder_finish_def Let_def)
        have "enc_inv (take (s + k) data) (out @ bs) g" using encoder_finish_correct [OF d(3)] g(1) by simp
        then show ?thesis using 2 unf g by (intro go [of g]) simp_all
      next
        case 3
        have "fst (heatshrink_encoder_finish h3) \<noteq> HSER_FINISH_DONE"
          using encoder_finish_correct [OF d(3)] 3 by simp
        moreover have "\<not> 9 * n + 7 < 8 * cs"
          using d(4,5) h2(2) 3 small enc_states(2) [OF d(3)] by auto
        ultimately show ?thesis using 3 unf
          by (intro stop) (cases "heatshrink_encoder_finish h3"; simp)+
      next
        case 4
        have "9 * n + 7 < 8 * cs \<longrightarrow> he_st h3 = HSES_NOT_FULL"
          using d(4,5) h2(2) 4 small enc_states(1) [OF d(3)] by auto
        then show ?thesis using 4 unf d(3) by (intro go [of h3]) simp_all
      qed
    qed
  qed
qed

lemma shrink_correct:
  fixes inbuf input_size compbuf comp_sz :: u32 and m :: mem
  assumes "length (he_index stale) = 4096" "separate inbuf (unat input_size) compbuf (unat comp_sz)"
    "inbuf \<noteq> 0" "compbuf \<noteq> 0"
  shows "\<exists>out. shrink stale inbuf input_size compbuf comp_sz m = Some (of_nat (length out), mem_write m compbuf out) \<and>
    length out \<le> unat comp_sz \<and>
    (9 * unat input_size + 7 < 8 * unat comp_sz \<longrightarrow>
       lzss (bits_of_bytes out) [] = mem_read m inbuf (unat input_size) \<and>
       8 * length out \<le> 9 * unat input_size + 7)"
proof (cases "input_size = 0")
  case True
  have "shrink stale inbuf 0 compbuf comp_sz m = Some (0, m)"
    unfolding shrink_def by (subst shrink_loop.simps) simp
  then show ?thesis using True by (intro exI [of _ "[]"]) simp
next
  case False
  then have "0 < unat input_size" by (simp add: unat_gt_0)
  then show ?thesis
    using shrink_loop_correct [OF assms(2-4), of 0 m "[]" "heatshrink_encoder_reset stale"]
      encoder_reset_inv [OF assms(1)] encoder_reset_state(1) by (simp add: shrink_def)
qed

section \<open>unshrink\<close>

text \<open>The inner loop is that of \<open>rumboot_decompress_buffer\<close>.\<close>

lemma unshrink_drain_raw:
  assumes "decompress_drain d n h polled m = Some r"
  shows "unshrink_drain d n h polled m = Some (case r of (Inl err, m) \<Rightarrow> (None, m) | (Inr x, m) \<Rightarrow> (Some x, m))"
    (is "?R d n h polled m r")
proof (rule decompress_drain.raw_induct [of ?R, OF _ assms], goal_cases)
  case (1 f d n h polled m r)
  then show ?case
    by (subst unshrink_drain.simps) (auto simp: Let_def split: option.splits prod.splits if_splits)
qed

lemma unshrink_drain_result:
  "decompress_drain d n h polled m = Some (Inr x, m') \<Longrightarrow> unshrink_drain d n h polled m = Some (Some x, m')"
  using unshrink_drain_raw by fastforce

lemma unshrink_loop_correct:
  fixes c d sz room :: u32 and m0 :: mem
  defines "n \<equiv> unat sz"
  assumes sep: "separate c n d (length whole)" "unat d + length whole < 2 ^ 32"
    and room: "length whole < unat room" and nn: "c \<noteq> 0" "d \<noteq> 0"
  shows "\<lbrakk>hsd_ok h out; hsd_input_size h = 0;
     hsd_future h out (bits_of_bytes (drop s (mem_read m0 c n))) = whole; s < n\<rbrakk> \<Longrightarrow>
   unshrink_loop c sz d room (of_nat s) (of_nat (length out)) h (mem_write m0 d out)
     = Some (mem_write m0 d whole)"
proof (induction "n - s" arbitrary: h out s rule: less_induct)
  case less
  let ?m = "mem_write m0 d out" and ?data = "drop s (mem_read m0 c n)"
  define k where "k = min 32 (n - s)"
  have lo: "length out \<le> length whole" using future_length [of out h] less.prems(3) by metis
  have sep': "separate c n d (length out)" using sep lo by (auto simp: separate_def)
  have nlt: "n < 2 ^ 32" by (simp add: n_def)
  have s: "s < n" by fact
  have us: "unat (of_nat s :: u32) = s" using s nlt by (simp add: unat_of_nat_u32)
  have lt: "of_nat s < sz" using us s by (simp add: word_less_nat_alt n_def)
  have rem: "unat (sz - of_nat s) = n - s" using us s by (simp add: unat_sub_if' n_def)
  have rd: "mem_read ?m (c + of_nat s) (n - s) = ?data"
    using mem_read_write_separate [OF sep'] mem_read_drop [of s n ?m c] s by simp
  have tk: "take (min 32 (length ?data)) ?data = take k ?data" "min 32 (length ?data) = k"
    by (simp_all add: k_def)
  have "unat d \<le> 2 ^ 32" using less_imp_le [OF unsigned_less [of d]] by simp
  then have "unat c + n \<le> 2 ^ 32" using sep(1) unfolding separate_def by linarith
  then have "unat (c + of_nat s) = unat c + s" using s by (intro unat_add_small) simp
  then have pc: "c + of_nat s \<noteq> 0" using nn(1) by (auto simp: word_unat_eq_iff)
  have "unat (d + of_nat (length out)) = unat d + length out" using lo sep(2) by (intro unat_add_small) simp
  then have pd: "d + of_nat (length out) \<noteq> 0" using nn(2) by (auto simp: word_unat_eq_iff)
  obtain h1 where h1: "heatshrink_decoder_sink h (c + of_nat s) ?data = (HSDR_SINK_OK, h1, k)" "hsd_ok h1 out"
    "\<And>rest. hsd_future h1 out rest = hsd_future h out (bits_of_bytes (take k ?data) @ rest)"
    "0 < k \<Longrightarrow> hsd_input_size h1 \<noteq> 0"
    by (rule sink_correct [OF less.prems(1,2) pc, of ?data, unfolded tk]) blast
  have k: "0 < k" "s + k \<le> n" using s by (auto simp: k_def)
  have f1: "heatshrink_decoder_finish h1 = HSDR_FINISH_MORE" by (rule finish_more [OF h1(4) [OF k(1)]])
  have "drop (s + k) (mem_read m0 c n) = drop k ?data" by (simp add: add.commute)
  then have "bits_of_bytes (take k ?data) @ bits_of_bytes (drop (s + k) (mem_read m0 c n)) = bits_of_bytes ?data"
    by (simp only: append_take_drop_id flip: concat_append map_append)
  then have tot: "hsd_future h1 out (bits_of_bytes (drop (s + k) (mem_read m0 c n))) = whole"
    using less.prems(3) by (simp only: h1(3))
  have sk: "(of_nat s :: u32) + of_nat k = of_nat (s + k)" by simp
  have "unat (of_nat (s + k) :: u32) = s + k" using k(2) nlt by (intro unat_of_nat_u32) simp
  then have fin: "(of_nat (s + k) = sz) = (s + k = n)" and nl: "\<not> (of_nat n :: u32) < sz"
    by (simp_all add: n_def word_unat_eq_iff)
  have "length (hsd_future h1 out []) < unat room"
    using future_more_bits [of h1 out] tot room by (metis le_less_trans)
  then obtain h2 bs where dr:
    "decompress_drain d room h1 (of_nat (length out)) ?m
       = Some (Inr (h2, of_nat (length (out @ bs))), mem_write ?m (d + of_nat (length out)) bs)"
    "hsd_ok h2 (out @ bs)" "\<And>rest. hsd_future h2 (out @ bs) rest = hsd_future h1 out rest"
    "hsd_input_size h2 = 0" "hsd_st h2 \<noteq> HSDS_YIELD_BACKREF" "hsd_future h1 out [] = out @ bs"
    by (rule drain_correct [OF h1(2) refl pd]) blast
  have "length (out @ bs) \<le> length whole" using future_length [of "out @ bs" h2] dr(3) tot by metis
  then have mw: "mem_write ?m (d + of_nat (length out)) bs = mem_write m0 d (out @ bs)"
    using sep(2) by (intro mem_write_append) simp
  have f2: "heatshrink_decoder_finish h2 = HSDR_FINISH_DONE" by (rule finish_done [OF dr(4,5)])
  have unf: "unshrink_loop c sz d room (of_nat s) (of_nat (length out)) h ?m =
      unshrink_loop c sz d room (of_nat (s + k)) (of_nat (length (out @ bs))) h2 (mem_write m0 d (out @ bs))"
    by (subst unshrink_loop.simps)
       (simp only: lt rem rd h1(1) Let_def prod.case sk fin f1 f2 unshrink_drain_result [OF dr(1)] mw option.case
         hsd_sink_res.distinct simp_thms if_True if_False)
  show ?case
  proof (cases "s + k = n")
    case True
    then have "whole = out @ bs" using tot dr(6) by simp
    then show ?thesis unfolding unf True by (subst unshrink_loop.simps) (simp only: nl if_False)
  next
    case False
    then show ?thesis unfolding unf by (intro less.hyps) (use k dr tot s in auto)
  qed
qed

lemma unshrink_correct:
  fixes c d sz room :: u32 and m :: mem
  defines "whole \<equiv> lzss (bits_of_bytes (mem_read m c (unat sz))) []"
  assumes "separate c (unat sz) d (length whole)" "unat d + length whole < 2 ^ 32" "length whole < unat room" "c \<noteq> 0" "d \<noteq> 0"
  shows "unshrink c sz d room etalon m = Some (mem_write m d whole)"
proof (cases "sz = 0")
  case True
  then show ?thesis unfolding unshrink_def by (subst unshrink_loop.simps) (simp add: whole_def)
next
  case False
  then have "0 < unat sz" by (simp add: unat_gt_0)
  have st: "hsd_input_size heatshrink_decoder_reset = 0" by (simp add: heatshrink_decoder_reset_def)
  have f: "hsd_future heatshrink_decoder_reset [] (bits_of_bytes (drop 0 (mem_read m c (unat sz)))) = whole"
    by (simp add: reset_future whole_def)
  from unshrink_loop_correct [OF assms(2,3,4,5,6) reset_ok st f \<open>0 < unat sz\<close>] show ?thesis
    by (simp add: unshrink_def)
qed

section \<open>Properties\<close>

text \<open>\<open>shrink\<close> always returns. It changes nothing but the destination buffer, of which it uses at
  most \<open>comp_sz\<close> bytes, and returns the number of bytes it stored.\<close>

theorem shrink_stays_in_buffer:
  fixes inbuf input_size compbuf comp_sz :: u32
  assumes "length (he_index stale) = 4096" "separate inbuf (unat input_size) compbuf (unat comp_sz)"
    "inbuf \<noteq> 0" "compbuf \<noteq> 0"
  shows "\<exists>out. shrink stale inbuf input_size compbuf comp_sz m = Some (of_nat (length out), mem_write m compbuf out) \<and>
    length out \<le> unat comp_sz"
  using shrink_correct [OF assms, of m] by blast

lemma shrink_stays_in_buffer_witness:
  "\<exists>out. shrink stale_encoder 0x1000 20 0x2000 3 (\<lambda>_. 1) = Some (of_nat (length out), mem_write (\<lambda>_. 1) 0x2000 out) \<and>
     length out \<le> 3"
  using shrink_stays_in_buffer [of stale_encoder "0x1000" 20 "0x2000" 3 "\<lambda>_. 1"]
  by (simp add: separate_def stale_encoder_def)



text \<open>The check of the test buffer holds exactly when every byte of it is the byte that the fill
  routine would store there: it accepts what was filled, in any memory, and rejects any change.\<close>

theorem check_detects_any_change:
  "check_buf_with_random_seq buf sz m \<longleftrightarrow>
     mem_read m buf (unat sz) = mem_read (fill_buff_with_random_seq buf sz m') buf (unat sz)"
proof -
  have "mem_read (mem_write m' buf (random_seq (unat sz) prandom_reset)) buf (unat sz)
      = random_seq (unat sz) prandom_reset"
    by (rule mem_read_write_same) (simp_all add: less_imp_le)
  then show ?thesis by (simp add: check_buf_compares fill_buff_writes)
qed

end
