(* ===== verification/Irq.thy ===== *)
theory Irq
  imports Malloc
begin

text \<open>
  The interrupt subsystem, \<open>src/irq.c\<close>: tables of handlers, controllers, dispatch. The state
  \<open>irq_sys\<close> is the part of \<open>rumboot_platform_runtime_info\<close> that it keeps, the heap from which tables
  are allocated, the tables by their addresses, and the device \<open>'d\<close> behind the controllers. Address
  \<open>0\<close> is \<open>NULL\<close>. \<open>None\<close> is \<open>rumboot_platform_panic\<close>, or an access outside a table or through a pointer
  that is not one. \<open>RUMBOOT_ATOMIC_BLOCK\<close> keeps interrupts out, so its body is one step.
  \<open>RUMBOOT_PLATFORM_NUM_IRQS\<close> is the argument \<open>nirqs\<close>; \<open>RUMBOOT_PLATFORM_NUM_IRQ_CONTROLLERS\<close> is the
  length of \<open>irq_ctl_dev\<close>. Handlers are names of type \<open>'h\<close>; \<open>call\<close> and \<open>xcall\<close> are what running them does.
\<close>

section \<open>State\<close>

text \<open>The operations of a controller may also change the IRQ type in the runtime information.\<close>

record 'd irq_controller =
  ctl_first :: int
  ctl_last :: int
  ctl_init :: "'d \<Rightarrow> 'd option"
  ctl_configure :: "int \<Rightarrow> u32 \<Rightarrow> bool \<Rightarrow> 'd \<Rightarrow> 'd option"
  ctl_begin :: "int \<Rightarrow> int \<times> 'd \<Rightarrow> (u32 \<times> int \<times> 'd) option"
  ctl_end :: "int \<Rightarrow> int \<times> 'd \<Rightarrow> (int \<times> 'd) option"
  ctl_generate_swint :: "int \<Rightarrow> 'd \<Rightarrow> 'd option"
  ctl_slave_save :: "('d \<Rightarrow> 'd) option"
  ctl_slave_restore :: "('d \<Rightarrow> 'd) option"
  ctl_adjust_priority :: "(int \<Rightarrow> int \<Rightarrow> 'd \<Rightarrow> 'd option) option"
  ctl_priority_max :: int
  ctl_priority_min :: int
  ctl_priority_default :: int

record 'h irq_entry =
  ie_handler :: "'h option"
  ie_arg :: u32
  ie_flags :: u32
  ie_priority :: int
  ie_count :: u32

record ('d, 'h) irq_sys =
  irq_heaps :: runtime
  irq_ctl_dev :: "'d irq_controller option list"
  num_irq_controllers :: nat
  irq_handler_table :: u32
  irq_def_hndlr :: "'h option"
  irq_def_arg :: u32
  irq_exception_hndlr :: "'h option"
  irq_context_counter :: int
  irq_type :: int
  irq_tables :: "u32 \<Rightarrow> 'h irq_entry list option"
  irq_dev :: 'd

definition RUMBOOT_IRQ_TYPE_NORMAL :: int where "RUMBOOT_IRQ_TYPE_NORMAL = 1"
definition RUMBOOT_IRQ_TYPE_EXCEPTION :: int where "RUMBOOT_IRQ_TYPE_EXCEPTION = 2"
definition RUMBOOT_IRQ_TYPE_SOFT :: int where "RUMBOOT_IRQ_TYPE_SOFT = 3"

definition exception_names :: "string list" where
  "exception_names =
     [''Prefetch Abort'', ''Data Abort'', ''Undefined Instruction'', ''Software Exception'',
      ''Machine Check'', ''Data Storage'', ''Inst Storage'', ''Alignment'', ''Program'',
      ''Floating-Point Unavailable'', ''System Call'', ''Auxiliary Processor Unavailable'',
      ''Decrementer'', ''Fixed-Interval Timer'', ''Watchdog Timer'', ''Data TLB Error'',
      ''Inst TLB Error'', ''Debug'', ''Overflow'']"

section \<open>Controllers\<close>

definition check_irq_id :: "nat \<Rightarrow> int \<Rightarrow> bool" where
  "check_irq_id nirqs num \<longleftrightarrow> \<not> (num < 0 \<or> num > int nirqs)"

text \<open>The walk over the array stops at the first \<open>NULL\<close>; without one it runs over its end.\<close>

function controller_search :: "nat \<Rightarrow> int \<Rightarrow> 'd irq_controller option list \<Rightarrow> 'd irq_controller option" where
  "controller_search i irq ctls =
     (if i < length ctls then
        case ctls ! i of
          None \<Rightarrow> None
        | Some ctl \<Rightarrow> if irq \<le> ctl_last ctl \<and> irq \<ge> ctl_first ctl then Some ctl
                      else controller_search (i + 1) irq ctls
      else None)"
  by pat_completeness auto
termination by (relation "measure (\<lambda>(i, irq, ctls). length ctls - i)") auto

definition rumboot_irq_controller_by_irq :: "int \<Rightarrow> ('d, 'h) irq_sys \<Rightarrow> 'd irq_controller option" where
  "rumboot_irq_controller_by_irq irq s = controller_search 0 irq (irq_ctl_dev s)"

text \<open>The inner \<open>None\<close> is a \<open>NULL\<close> entry.\<close>

definition rumboot_irq_controller_by_id :: "int \<Rightarrow> ('d, 'h) irq_sys \<Rightarrow> 'd irq_controller option option" where
  "rumboot_irq_controller_by_id num s =
     (if num > int (length (irq_ctl_dev s)) \<or> num < 0 then None
      else if nat num < length (irq_ctl_dev s) then Some (irq_ctl_dev s ! nat num) else None)"

definition rumboot_irq_register_controller ::
  "'d irq_controller \<Rightarrow> ('d, 'h) irq_sys \<Rightarrow> ('d, 'h) irq_sys option" where
  "rumboot_irq_register_controller ctl s =
     (if num_irq_controllers s \<ge> length (irq_ctl_dev s) then None
      else map_option (\<lambda>d. s\<lparr>irq_ctl_dev := (irq_ctl_dev s)[num_irq_controllers s := Some ctl],
                   num_irq_controllers := num_irq_controllers s + 1, irq_dev := d\<rparr>)
             (ctl_init ctl (irq_dev s)))"

section \<open>Tables\<close>

definition sizeof_irq_entry :: nat where "sizeof_irq_entry = 20"

definition rumboot_irq_table_get :: "('d, 'h) irq_sys \<Rightarrow> u32" where
  "rumboot_irq_table_get s = irq_handler_table s"

definition rumboot_irq_table_fetch :: "u32 \<Rightarrow> ('d, 'h) irq_sys \<Rightarrow> u32 option" where
  "rumboot_irq_table_fetch tbl s =
     (let tbl = (if tbl = 0 then rumboot_irq_table_get s else tbl) in if tbl = 0 then None else Some tbl)"

text \<open>Reading and writing \<open>tbl[irq]\<close>.\<close>

definition irq_entry_at :: "u32 \<Rightarrow> int \<Rightarrow> ('d, 'h) irq_sys \<Rightarrow> 'h irq_entry option" where
  "irq_entry_at tbl irq s =
     (case irq_tables s tbl of
        None \<Rightarrow> None
      | Some es \<Rightarrow> if 0 \<le> irq \<and> nat irq < length es then Some (es ! nat irq) else None)"

definition irq_entry_set :: "u32 \<Rightarrow> int \<Rightarrow> 'h irq_entry \<Rightarrow> ('d, 'h) irq_sys \<Rightarrow> ('d, 'h) irq_sys option" where
  "irq_entry_set tbl irq e s =
     (case irq_tables s tbl of
        None \<Rightarrow> None
      | Some es \<Rightarrow> if 0 \<le> irq \<and> nat irq < length es
                   then Some (s\<lparr>irq_tables := (irq_tables s)(tbl \<mapsto> es[nat irq := e])\<rparr>) else None)"

definition rumboot_irq_free :: "u32 \<Rightarrow> ('d, 'h) irq_sys \<Rightarrow> ('d, 'h) irq_sys" where
  "rumboot_irq_free tbl s = s\<lparr>irq_heaps := rumboot_free tbl (irq_heaps s)\<rparr>"

definition cleared_entry :: "'h irq_entry" where
  "cleared_entry = \<lparr>ie_handler = None, ie_arg = 0, ie_flags = 0, ie_priority = 0, ie_count = 0\<rparr>"

definition rumboot_irq_create :: "nat \<Rightarrow> u32 \<Rightarrow> ('d, 'h) irq_sys \<Rightarrow> (u32 \<times> ('d, 'h) irq_sys) option" where
  "rumboot_irq_create nirqs copyfrom s =
     (let copyfrom = (if copyfrom = 0 \<and> rumboot_irq_table_get s \<noteq> 0 then rumboot_irq_table_get s else copyfrom)
      in case rumboot_malloc (of_nat (sizeof_irq_entry * (nirqs + 1))) (irq_heaps s) of
           None \<Rightarrow> None
         | Some (tbl, rt) \<Rightarrow>
             if tbl = 0 then None
             else
               let contents = (if copyfrom \<noteq> 0 then irq_tables s copyfrom
                               else Some (replicate (nirqs + 1) cleared_entry))
               in case contents of
                    None \<Rightarrow> None
                  | Some es \<Rightarrow> Some (tbl, s\<lparr>irq_heaps := rt, irq_tables := (irq_tables s)(tbl \<mapsto> es)\<rparr>))"

definition rumboot_irq_set_default_handler :: "'h option \<Rightarrow> u32 \<Rightarrow> ('d, 'h) irq_sys \<Rightarrow> ('d, 'h) irq_sys" where
  "rumboot_irq_set_default_handler handler arg s = s\<lparr>irq_def_hndlr := handler, irq_def_arg := arg\<rparr>"

definition rumboot_irq_set_exception_handler :: "'h option \<Rightarrow> ('d, 'h) irq_sys \<Rightarrow> ('d, 'h) irq_sys" where
  "rumboot_irq_set_exception_handler handler s = s\<lparr>irq_exception_hndlr := handler\<rparr>"

definition rumboot_irq_set_handler ::
  "nat \<Rightarrow> u32 \<Rightarrow> int \<Rightarrow> u32 \<Rightarrow> 'h option \<Rightarrow> u32 \<Rightarrow> ('d, 'h) irq_sys \<Rightarrow> ('d, 'h) irq_sys option" where
  "rumboot_irq_set_handler nirqs tbl irq flags handler arg s =
     (case rumboot_irq_controller_by_irq irq s of
        None \<Rightarrow> None
      | Some ctl \<Rightarrow>
          if irq > int nirqs - 1 then None
          else
            let tbl = (if tbl = 0 then rumboot_irq_table_get s else tbl) in
            if tbl = 0 then None
            else case irq_entry_at tbl irq s of
                None \<Rightarrow> None
              | Some e \<Rightarrow>
                  irq_entry_set tbl irq
                    (e\<lparr>ie_handler := handler, ie_arg := arg, ie_flags := flags,
                       ie_priority := ctl_priority_default ctl\<rparr>) s)"

section \<open>Priorities, enabling and activation\<close>

definition rumboot_irq_priority_adjust ::
  "u32 \<Rightarrow> int \<Rightarrow> int \<Rightarrow> ('d, 'h) irq_sys \<Rightarrow> (int \<times> ('d, 'h) irq_sys) option" where
  "rumboot_irq_priority_adjust tbl irq priority s =
     (case (rumboot_irq_controller_by_irq irq s, rumboot_irq_table_fetch tbl s) of
        (Some ctl, Some tbl) \<Rightarrow>
          let priority = (if priority = 0 then ctl_priority_default ctl else priority);
              priority = (if priority > ctl_priority_max ctl then ctl_priority_max ctl else priority);
              priority = (if priority < ctl_priority_min ctl then ctl_priority_min ctl else priority)
          in case irq_entry_at tbl irq s of
               None \<Rightarrow> None
             | Some e \<Rightarrow>
                 case irq_entry_set tbl irq (e\<lparr>ie_priority := priority\<rparr>) s of
                   None \<Rightarrow> None
                 | Some s \<Rightarrow>
                     if tbl = rumboot_irq_table_get s then
                       case ctl_adjust_priority ctl of
                         None \<Rightarrow> Some (ie_priority e, s)
                       | Some adjust \<Rightarrow>
                           map_option (\<lambda>d. (ie_priority e, s\<lparr>irq_dev := d\<rparr>))
                             (adjust (irq - ctl_first ctl) priority (irq_dev s))
                     else Some (ie_priority e, s)
      | _ \<Rightarrow> None)"

definition rumboot_irq_priority_get :: "u32 \<Rightarrow> int \<Rightarrow> ('d, 'h) irq_sys \<Rightarrow> int option" where
  "rumboot_irq_priority_get tbl irq s = map_option ie_priority (irq_entry_at tbl irq s)"

definition rumboot_irq_prioity_get_max :: "int \<Rightarrow> ('d, 'h) irq_sys \<Rightarrow> int option" where
  "rumboot_irq_prioity_get_max irq s = map_option ctl_priority_max (rumboot_irq_controller_by_irq irq s)"

definition rumboot_irq_prioity_get_min :: "int \<Rightarrow> ('d, 'h) irq_sys \<Rightarrow> int option" where
  "rumboot_irq_prioity_get_min irq s = map_option ctl_priority_min (rumboot_irq_controller_by_irq irq s)"

definition rumboot_irq_enable :: "int \<Rightarrow> ('d, 'h) irq_sys \<Rightarrow> ('d, 'h) irq_sys option" where
  "rumboot_irq_enable irq s =
     (case (rumboot_irq_table_fetch 0 s, rumboot_irq_controller_by_irq irq s) of
        (Some tbl, Some ctl) \<Rightarrow>
          (case irq_entry_at tbl irq s of
             None \<Rightarrow> None
           | Some e \<Rightarrow>
               case ctl_configure ctl (irq - ctl_first ctl) (ie_flags e) True (irq_dev s) of
                 None \<Rightarrow> None
               | Some d \<Rightarrow>
                   map_option snd (rumboot_irq_priority_adjust tbl irq (ie_priority e) (s\<lparr>irq_dev := d\<rparr>)))
      | _ \<Rightarrow> None)"

definition rumboot_irq_disable :: "int \<Rightarrow> ('d, 'h) irq_sys \<Rightarrow> ('d, 'h) irq_sys option" where
  "rumboot_irq_disable irq s =
     (case (rumboot_irq_controller_by_irq irq s, rumboot_irq_table_fetch 0 s) of
        (Some ctl, Some tbl) \<Rightarrow>
          (case irq_entry_at tbl irq s of
             None \<Rightarrow> None
           | Some e \<Rightarrow>
               map_option (\<lambda>d. s\<lparr>irq_dev := d\<rparr>)
                 (ctl_configure ctl (irq - ctl_first ctl) (ie_flags e) False (irq_dev s)))
      | _ \<Rightarrow> None)"

text \<open>The loops over all lines, from \<open>i\<close> on.\<close>

fun enable_all_loop :: "nat \<Rightarrow> int \<Rightarrow> ('d, 'h) irq_sys \<Rightarrow> ('d, 'h) irq_sys option" where
  "enable_all_loop 0 i s = Some s"
| "enable_all_loop (Suc n) i s =
     (case rumboot_irq_enable i s of None \<Rightarrow> None | Some s \<Rightarrow> enable_all_loop n (i + 1) s)"

definition rumboot_irq_enable_all :: "nat \<Rightarrow> ('d, 'h) irq_sys \<Rightarrow> ('d, 'h) irq_sys option" where
  "rumboot_irq_enable_all nirqs s = enable_all_loop nirqs 0 s"

fun activate_loop :: "u32 \<Rightarrow> nat \<Rightarrow> int \<Rightarrow> ('d, 'h) irq_sys \<Rightarrow> ('d, 'h) irq_sys option" where
  "activate_loop tbl 0 i s = Some s"
| "activate_loop tbl (Suc n) i s =
     (case irq_entry_at tbl i s of
        None \<Rightarrow> None
      | Some e \<Rightarrow>
          if ie_handler e \<noteq> None then
            (case rumboot_irq_enable i s of None \<Rightarrow> None | Some s \<Rightarrow> activate_loop tbl n (i + 1) s)
          else activate_loop tbl n (i + 1) s)"

definition rumboot_irq_table_activate :: "nat \<Rightarrow> u32 \<Rightarrow> ('d, 'h) irq_sys \<Rightarrow> ('d, 'h) irq_sys option" where
  "rumboot_irq_table_activate nirqs tbl s =
     (let s = s\<lparr>irq_handler_table := tbl\<rparr>
      in if tbl \<noteq> 0 then activate_loop tbl nirqs 0 s else Some s)"

definition rumboot_irq_swint :: "int \<Rightarrow> ('d, 'h) irq_sys \<Rightarrow> ('d, 'h) irq_sys option" where
  "rumboot_irq_swint irq s =
     (case rumboot_irq_controller_by_irq irq s of
        None \<Rightarrow> None
      | Some ctl \<Rightarrow>
          map_option (\<lambda>d. s\<lparr>irq_dev := d\<rparr>) (ctl_generate_swint ctl (irq - ctl_first ctl) (irq_dev s)))"

section \<open>Dispatch\<close>

definition process_irq ::
  "('h \<Rightarrow> int \<Rightarrow> u32 \<Rightarrow> ('d, 'h) irq_sys \<Rightarrow> ('d, 'h) irq_sys option) \<Rightarrow> nat \<Rightarrow> int
     \<Rightarrow> ('d, 'h) irq_sys \<Rightarrow> ('d, 'h) irq_sys option" where
  "process_irq call nirqs num s =
     (let tbl = rumboot_irq_table_get s in
      if \<not> check_irq_id nirqs num then None
      else
        let after = (\<lambda>s. if tbl \<noteq> 0 then
                           (case irq_entry_at tbl num s of
                              None \<Rightarrow> None
                            | Some e \<Rightarrow> irq_entry_set tbl num (e\<lparr>ie_count := ie_count e + 1\<rparr>) s)
                         else Some s);
            default = (case irq_def_hndlr s of
                         Some h \<Rightarrow> (case call h num (irq_def_arg s) s of None \<Rightarrow> None | Some s \<Rightarrow> after s)
                       | None \<Rightarrow> None)
        in if tbl \<noteq> 0 then
             (case irq_entry_at tbl num s of
                None \<Rightarrow> None
              | Some e \<Rightarrow>
                  (case ie_handler e of
                     Some h \<Rightarrow> (case call h num (ie_arg e) s of None \<Rightarrow> None | Some s \<Rightarrow> after s)
                   | None \<Rightarrow> default))
           else default)"

definition rumboot_irq_get_count :: "nat \<Rightarrow> int \<Rightarrow> ('d, 'h) irq_sys \<Rightarrow> u32 option" where
  "rumboot_irq_get_count nirqs irq s =
     (if \<not> check_irq_id nirqs irq then None
      else if rumboot_irq_table_get s \<noteq> 0 then map_option ie_count (irq_entry_at (rumboot_irq_table_get s) irq s)
      else Some 0)"

definition rumboot_irq_reset_count :: "nat \<Rightarrow> int \<Rightarrow> ('d, 'h) irq_sys \<Rightarrow> ('d, 'h) irq_sys option" where
  "rumboot_irq_reset_count nirqs irq s =
     (if \<not> check_irq_id nirqs irq then None
      else if rumboot_irq_table_get s \<noteq> 0 then
        (case irq_entry_at (rumboot_irq_table_get s) irq s of
           None \<Rightarrow> None
         | Some e \<Rightarrow> irq_entry_set (rumboot_irq_table_get s) irq (e\<lparr>ie_count := 0\<rparr>) s)
      else Some s)"

text \<open>The \<open>switch\<close> over the type.\<close>

definition irq_serve ::
  "('h \<Rightarrow> int \<Rightarrow> u32 \<Rightarrow> ('d, 'h) irq_sys \<Rightarrow> ('d, 'h) irq_sys option)
     \<Rightarrow> ('h \<Rightarrow> int \<Rightarrow> string \<Rightarrow> ('d, 'h) irq_sys \<Rightarrow> ('d, 'h) irq_sys option)
     \<Rightarrow> nat \<Rightarrow> 'd irq_controller option \<Rightarrow> u32 \<Rightarrow> int \<Rightarrow> ('d, 'h) irq_sys \<Rightarrow> ('d, 'h) irq_sys option" where
  "irq_serve call xcall nirqs ctl type num s =
     (if sint type = RUMBOOT_IRQ_TYPE_NORMAL then
        (case ctl of
           None \<Rightarrow> None
         | Some ctl \<Rightarrow>
             (case ctl_begin ctl num (irq_type s, irq_dev s) of
                None \<Rightarrow> None
              | Some (num, t, d) \<Rightarrow>
                  (case process_irq call nirqs (sint num) (s\<lparr>irq_type := t, irq_dev := d\<rparr>) of
                     None \<Rightarrow> None
                   | Some s \<Rightarrow>
                       map_option (\<lambda>(t, d). s\<lparr>irq_type := t, irq_dev := d\<rparr>)
                         (ctl_end ctl (sint num) (irq_type s, irq_dev s)))))
      else if sint type = RUMBOOT_IRQ_TYPE_SOFT then process_irq call nirqs num s
      else if sint type = RUMBOOT_IRQ_TYPE_EXCEPTION then
        (case irq_exception_hndlr s of
           None \<Rightarrow> None
         | Some h \<Rightarrow>
             if 0 \<le> num \<and> nat num < length exception_names
             then xcall h num (exception_names ! nat num) s else None)
      else Some s)"

definition rumboot_irq_core_dispatch ::
  "('h \<Rightarrow> int \<Rightarrow> u32 \<Rightarrow> ('d, 'h) irq_sys \<Rightarrow> ('d, 'h) irq_sys option)
     \<Rightarrow> ('h \<Rightarrow> int \<Rightarrow> string \<Rightarrow> ('d, 'h) irq_sys \<Rightarrow> ('d, 'h) irq_sys option)
     \<Rightarrow> nat \<Rightarrow> u32 \<Rightarrow> u32 \<Rightarrow> int \<Rightarrow> ('d, 'h) irq_sys \<Rightarrow> ('d, 'h) irq_sys option" where
  "rumboot_irq_core_dispatch call xcall nirqs ctrl type num s =
     (case rumboot_irq_controller_by_id (sint ctrl) s of
        None \<Rightarrow> None
      | Some ctl \<Rightarrow>
          let prevtype = irq_type s;
              s = s\<lparr>irq_context_counter := irq_context_counter s + 1, irq_type := sint type\<rparr>
          in map_option (\<lambda>s. s\<lparr>irq_type := prevtype, irq_context_counter := irq_context_counter s - 1\<rparr>)
               (irq_serve call xcall nirqs ctl type num s))"

definition rumboot_irq_get_context :: "('d, 'h) irq_sys \<Rightarrow> int" where
  "rumboot_irq_get_context s = irq_context_counter s"

definition rumboot_irq_current_type :: "('d, 'h) irq_sys \<Rightarrow> int" where
  "rumboot_irq_current_type s = irq_type s"

declare controller_search.simps [simp del]

section \<open>Programs over the interface\<close>

text \<open>
  What code outside this theory may do, a handler included: call the interface, or work on the
  device. A step sees the state it runs in, so it may use addresses that it got before.
\<close>

datatype ('d, 'h) irq_call =
    Call_register "'d irq_controller"
  | Call_create u32
  | Call_free u32
  | Call_set_handler u32 int u32 "'h option" u32
  | Call_set_default "'h option" u32
  | Call_set_exception "'h option"
  | Call_activate u32
  | Call_enable int
  | Call_enable_all
  | Call_disable int
  | Call_adjust u32 int int
  | Call_swint int
  | Call_reset_count int
  | Call_dispatch u32 u32 int
  | Call_device "'d \<Rightarrow> 'd"

definition do_call ::
  "('h \<Rightarrow> int \<Rightarrow> u32 \<Rightarrow> ('d, 'h) irq_sys \<Rightarrow> ('d, 'h) irq_sys option)
     \<Rightarrow> ('h \<Rightarrow> int \<Rightarrow> string \<Rightarrow> ('d, 'h) irq_sys \<Rightarrow> ('d, 'h) irq_sys option)
     \<Rightarrow> nat \<Rightarrow> ('d, 'h) irq_call \<Rightarrow> ('d, 'h) irq_sys \<Rightarrow> ('d, 'h) irq_sys option" where
  "do_call call xcall nirqs c s =
     (case c of
        Call_register ctl \<Rightarrow> rumboot_irq_register_controller ctl s
      | Call_create tbl \<Rightarrow> map_option snd (rumboot_irq_create nirqs tbl s)
      | Call_free tbl \<Rightarrow> Some (rumboot_irq_free tbl s)
      | Call_set_handler tbl irq flags h arg \<Rightarrow> rumboot_irq_set_handler nirqs tbl irq flags h arg s
      | Call_set_default h arg \<Rightarrow> Some (rumboot_irq_set_default_handler h arg s)
      | Call_set_exception h \<Rightarrow> Some (rumboot_irq_set_exception_handler h s)
      | Call_activate tbl \<Rightarrow> rumboot_irq_table_activate nirqs tbl s
      | Call_enable irq \<Rightarrow> rumboot_irq_enable irq s
      | Call_enable_all \<Rightarrow> rumboot_irq_enable_all nirqs s
      | Call_disable irq \<Rightarrow> rumboot_irq_disable irq s
      | Call_adjust tbl irq p \<Rightarrow> map_option snd (rumboot_irq_priority_adjust tbl irq p s)
      | Call_swint irq \<Rightarrow> rumboot_irq_swint irq s
      | Call_reset_count irq \<Rightarrow> rumboot_irq_reset_count nirqs irq s
      | Call_dispatch ctrl type num \<Rightarrow> rumboot_irq_core_dispatch call xcall nirqs ctrl type num s
      | Call_device f \<Rightarrow> Some (s\<lparr>irq_dev := f (irq_dev s)\<rparr>))"

fun do_calls ::
  "('h \<Rightarrow> int \<Rightarrow> u32 \<Rightarrow> ('d, 'h) irq_sys \<Rightarrow> ('d, 'h) irq_sys option)
     \<Rightarrow> ('h \<Rightarrow> int \<Rightarrow> string \<Rightarrow> ('d, 'h) irq_sys \<Rightarrow> ('d, 'h) irq_sys option)
     \<Rightarrow> nat \<Rightarrow> (('d, 'h) irq_sys \<Rightarrow> ('d, 'h) irq_call) list \<Rightarrow> ('d, 'h) irq_sys \<Rightarrow> ('d, 'h) irq_sys option" where
  "do_calls call xcall nirqs [] s = Some s"
| "do_calls call xcall nirqs (c # cs) s =
     (case do_call call xcall nirqs (c s) s of
        None \<Rightarrow> None
      | Some s \<Rightarrow> do_calls call xcall nirqs cs s)"

text \<open>Running a program whose handlers are given by \<open>prog\<close> and \<open>xprog\<close>, with at most \<open>k - 1\<close> nested interrupts.\<close>

fun run_prog ::
  "('h \<Rightarrow> int \<Rightarrow> u32 \<Rightarrow> (('d, 'h) irq_sys \<Rightarrow> ('d, 'h) irq_call) list)
     \<Rightarrow> ('h \<Rightarrow> int \<Rightarrow> string \<Rightarrow> (('d, 'h) irq_sys \<Rightarrow> ('d, 'h) irq_call) list)
     \<Rightarrow> nat \<Rightarrow> nat \<Rightarrow> (('d, 'h) irq_sys \<Rightarrow> ('d, 'h) irq_call) list \<Rightarrow> ('d, 'h) irq_sys \<Rightarrow> ('d, 'h) irq_sys option" where
  "run_prog prog xprog nirqs 0 cs s = None"
| "run_prog prog xprog nirqs (Suc k) cs s =
     do_calls (\<lambda>h num arg. run_prog prog xprog nirqs k (prog h num arg))
       (\<lambda>h num name. run_prog prog xprog nirqs k (xprog h num name)) nirqs cs s"

section \<open>Context\<close>

definition same_context :: "('d, 'h) irq_sys \<Rightarrow> ('d, 'h) irq_sys \<Rightarrow> bool" where
  "same_context s s' \<longleftrightarrow> irq_context_counter s' = irq_context_counter s \<and> irq_type s' = irq_type s"

lemma same_context_refl [simp]: "same_context s s"
  by (simp add: same_context_def)

lemma same_context_trans: "same_context s s1 \<Longrightarrow> same_context s1 s2 \<Longrightarrow> same_context s s2"
  by (simp add: same_context_def)

text \<open>What every operation but dispatch leaves alone.\<close>

named_theorems irq_frame

lemma entry_set_context [irq_frame]: "irq_entry_set tbl irq e s = Some s' \<Longrightarrow> same_context s s'"
  by (auto simp: irq_entry_set_def same_context_def split: option.splits if_splits)

text \<open>The priority that is stored: the wish, or the default for 0, moved into the controller's range.\<close>

definition clamp_priority :: "'d irq_controller \<Rightarrow> int \<Rightarrow> int" where
  "clamp_priority ctl p =
     max (ctl_priority_min ctl) (min (ctl_priority_max ctl) (if p = 0 then ctl_priority_default ctl else p))"

lemma clamp_priority_eq:
  "(let priority = (if p = 0 then ctl_priority_default ctl else p);
        priority = (if priority > ctl_priority_max ctl then ctl_priority_max ctl else priority)
    in if priority < ctl_priority_min ctl then ctl_priority_min ctl else priority) = clamp_priority ctl p"
  by (simp add: clamp_priority_def Let_def max_def min_def)

lemma adjustE:
  assumes "rumboot_irq_priority_adjust tbl irq p s = Some (r, s')"
  obtains t ctl es d where "rumboot_irq_table_fetch tbl s = Some t" "rumboot_irq_controller_by_irq irq s = Some ctl"
    "irq_tables s t = Some es" "0 \<le> irq" "nat irq < length es" "r = ie_priority (es ! nat irq)"
    "s' = s\<lparr>irq_tables := (irq_tables s)(t \<mapsto> es[nat irq := (es ! nat irq)\<lparr>ie_priority := clamp_priority ctl p\<rparr>]),
           irq_dev := d\<rparr>"
    "if t = rumboot_irq_table_get s \<and> ctl_adjust_priority ctl \<noteq> None
     then the (ctl_adjust_priority ctl) (irq - ctl_first ctl) (clamp_priority ctl p) (irq_dev s) = Some d
     else d = irq_dev s"
proof -
  obtain t ctl where f: "rumboot_irq_table_fetch tbl s = Some t" "rumboot_irq_controller_by_irq irq s = Some ctl"
    using assms by (auto simp: rumboot_irq_priority_adjust_def split: option.splits)
  note u = assms [unfolded rumboot_irq_priority_adjust_def f prod.case option.case
      clamp_priority_eq [unfolded Let_def] Let_def]
  then obtain es where e: "irq_tables s t = Some es" "0 \<le> irq" "nat irq < length es"
    by (auto simp: irq_entry_at_def split: option.splits if_splits)
  define s1 where "s1 = s\<lparr>irq_tables := (irq_tables s)(t \<mapsto> es[nat irq := (es ! nat irq)\<lparr>ie_priority := clamp_priority ctl p\<rparr>])\<rparr>"
  have g: "rumboot_irq_table_get s1 = rumboot_irq_table_get s" "irq_dev s1 = irq_dev s"
    by (simp_all add: s1_def rumboot_irq_table_get_def)
  have "irq_entry_set t irq ((es ! nat irq)\<lparr>ie_priority := clamp_priority ctl p\<rparr>) s = Some s1"
    "irq_entry_at t irq s = Some (es ! nat irq)"
    using e by (simp_all add: irq_entry_set_def irq_entry_at_def s1_def)
  note v = u [unfolded this option.case g]
  have w: "s1\<lparr>irq_dev := irq_dev s\<rparr> = s1" by (simp add: s1_def)
  have "\<exists>d. s' = s1\<lparr>irq_dev := d\<rparr> \<and> r = ie_priority (es ! nat irq) \<and>
    (if t = rumboot_irq_table_get s \<and> ctl_adjust_priority ctl \<noteq> None
     then the (ctl_adjust_priority ctl) (irq - ctl_first ctl) (clamp_priority ctl p) (irq_dev s) = Some d
     else d = irq_dev s)"
  proof (cases "t = rumboot_irq_table_get s \<and> ctl_adjust_priority ctl \<noteq> None")
    case True
    then show ?thesis using v by (auto simp: g)
  next
    case False
    then have "s1 = s' \<and> r = ie_priority (es ! nat irq)" using v by (auto split: if_splits option.splits)
    then show ?thesis unfolding if_not_P [OF False] using w by (intro exI [of _ "irq_dev s"]) simp
  qed
  then show ?thesis using that [OF f e] by (auto simp: s1_def)
qed

lemma adjust_context [irq_frame]: "rumboot_irq_priority_adjust tbl irq p s = Some (r, s') \<Longrightarrow> same_context s s'"
  by (erule adjustE) (simp add: same_context_def)

lemma enable_context [irq_frame]: "rumboot_irq_enable irq s = Some s' \<Longrightarrow> same_context s s'"
  by (auto simp: rumboot_irq_enable_def split: option.splits dest!: adjust_context) (auto simp: same_context_def)

lemma activate_loop_context: "activate_loop tbl n i s = Some s' \<Longrightarrow> same_context s s'"
  by (induction tbl n i s rule: activate_loop.induct)
     (auto split: option.splits if_splits intro: same_context_trans dest: enable_context)

lemma enable_all_context: "enable_all_loop n i s = Some s' \<Longrightarrow> same_context s s'"
  by (induction n i s rule: enable_all_loop.induct)
     (auto split: option.splits intro: same_context_trans dest: enable_context)

lemma process_irq_context:
  assumes "\<And>h num arg s s'. call h num arg s = Some s' \<Longrightarrow> same_context s s'"
    and "process_irq call nirqs num s = Some s'"
  shows "same_context s s'"
proof -
  have after: "same_context s1 s2"
    if "(if tbl \<noteq> 0 then case irq_entry_at tbl num s1 of None \<Rightarrow> None
           | Some e \<Rightarrow> irq_entry_set tbl num (e\<lparr>ie_count := ie_count e + 1\<rparr>) s1 else Some s1) = Some s2" for tbl s1 s2
    using that by (auto split: if_splits option.splits dest: entry_set_context)
  show ?thesis
    using assms(2) unfolding process_irq_def Let_def
    by (auto split: if_splits option.splits dest!: assms(1) entry_set_context intro: same_context_trans)
qed

lemma dispatch_context:
  assumes "\<And>h num arg s s'. call h num arg s = Some s' \<Longrightarrow> same_context s s'"
    and "\<And>h num name s s'. xcall h num name s = Some s' \<Longrightarrow> same_context s s'"
    and "rumboot_irq_core_dispatch call xcall nirqs ctrl type num s = Some s'"
  shows "same_context s s'"
proof -
  have serve: "irq_context_counter s2 = irq_context_counter s1"
    if "irq_serve call xcall nirqs ctl type num s1 = Some s2" for ctl s1 s2
    using that unfolding irq_serve_def
    by (auto simp: same_context_def split: if_splits option.splits prod.splits
        dest!: process_irq_context [OF assms(1), rotated] assms(2))
  show ?thesis
    using assms(3) unfolding rumboot_irq_core_dispatch_def Let_def
    by (auto simp: same_context_def split: option.splits dest: serve)
qed

lemma do_call_context:
  assumes "\<And>h num arg s s'. call h num arg s = Some s' \<Longrightarrow> same_context s s'"
    and "\<And>h num name s s'. xcall h num name s = Some s' \<Longrightarrow> same_context s s'"
    and "do_call call xcall nirqs c s = Some s'"
  shows "same_context s s'"
  using assms(3)
proof (cases c)
  case (Call_set_handler tbl irq flags h arg)
  then show ?thesis using assms(3)
    by (auto simp: do_call_def rumboot_irq_set_handler_def Let_def split: option.splits if_splits dest: entry_set_context)
next
  case (Call_activate tbl)
  then have "same_context (s\<lparr>irq_handler_table := tbl\<rparr>) s'"
    using assms(3) by (auto simp: do_call_def rumboot_irq_table_activate_def Let_def split: if_splits dest: activate_loop_context)
  then show ?thesis by (simp add: same_context_def)
next
  case (Call_dispatch ctrl type num)
  then show ?thesis using assms(3) dispatch_context [OF assms(1,2)] by (simp add: do_call_def)
next
  case (Call_reset_count irq)
  then show ?thesis using assms(3)
    by (auto simp: do_call_def rumboot_irq_reset_count_def split: option.splits if_splits dest: entry_set_context)
qed (use assms(3) in \<open>auto simp: do_call_def rumboot_irq_enable_all_def dest: irq_frame enable_all_context\<close>,
     (auto simp: rumboot_irq_register_controller_def rumboot_irq_create_def rumboot_irq_free_def
       rumboot_irq_set_default_handler_def rumboot_irq_set_exception_handler_def rumboot_irq_disable_def
       rumboot_irq_swint_def same_context_def Let_def split: if_splits option.splits)?)

lemma run_prog_context: "run_prog prog xprog nirqs k cs s = Some s' \<Longrightarrow> same_context s s'"
proof (induction k arbitrary: cs s s')
  case (Suc k)
  have "do_calls (\<lambda>h num arg. run_prog prog xprog nirqs k (prog h num arg))
       (\<lambda>h num name. run_prog prog xprog nirqs k (xprog h num name)) nirqs cs s = Some s' \<Longrightarrow> same_context s s'" for s
  proof (induction cs arbitrary: s)
    case (Cons c cs)
    then show ?case
      using do_call_context [of "\<lambda>h num arg. run_prog prog xprog nirqs k (prog h num arg)"
          "\<lambda>h num name. run_prog prog xprog nirqs k (xprog h num name)" nirqs "c s" s] Suc.IH
      by (auto split: option.splits intro: same_context_trans)
  qed simp
  then show ?case using Suc.prems by simp
qed simp

section \<open>The invariant\<close>

text \<open>
  Every table has an entry for each line and one more, lies in the used part of heap 0, and does not
  overlap another; the active table is one of them; the controllers fill the array from the front.
\<close>

definition irq_table_size :: "nat \<Rightarrow> nat" where
  "irq_table_size nirqs = sizeof_irq_entry * (nirqs + 1)"

definition irq_heap_ok :: "nat \<Rightarrow> runtime \<Rightarrow> bool" where
  "irq_heap_ok nirqs rt \<longleftrightarrow> heaps rt \<noteq> [] \<and> hp_start (heaps rt ! 0) \<noteq> 0 \<and>
     hp_start (heaps rt ! 0) \<le> hp_pos (heaps rt ! 0) \<and> hp_pos (heaps rt ! 0) \<le> hp_end (heaps rt ! 0) \<and>
     unat (hp_end (heaps rt ! 0)) + 4 + irq_table_size nirqs < 2 ^ 32"

definition irq_tables_ok :: "nat \<Rightarrow> ('d, 'h) irq_sys \<Rightarrow> bool" where
  "irq_tables_ok nirqs s \<longleftrightarrow>
     (\<forall>t es. irq_tables s t = Some es \<longrightarrow> length es = nirqs + 1 \<and>
        hp_start (heaps (irq_heaps s) ! 0) \<le> t \<and>
        unat t + irq_table_size nirqs \<le> unat (hp_pos (heaps (irq_heaps s) ! 0))) \<and>
     (\<forall>t u. irq_tables s t \<noteq> None \<longrightarrow> irq_tables s u \<noteq> None \<longrightarrow> t \<noteq> u \<longrightarrow>
        unat t + irq_table_size nirqs \<le> unat u \<or> unat u + irq_table_size nirqs \<le> unat t)"

definition irq_ok :: "nat \<Rightarrow> ('d, 'h) irq_sys \<Rightarrow> bool" where
  "irq_ok nirqs s \<longleftrightarrow> 0 < nirqs \<and> irq_heap_ok nirqs (irq_heaps s) \<and> irq_tables_ok nirqs s \<and>
     (irq_handler_table s = 0 \<or> irq_tables s (irq_handler_table s) \<noteq> None) \<and>
     num_irq_controllers s \<le> length (irq_ctl_dev s) \<and>
     (\<forall>i < length (irq_ctl_dev s). irq_ctl_dev s ! i \<noteq> None \<longleftrightarrow> i < num_irq_controllers s)"

text \<open>What most operations leave as it is: everything but the contents of entries, and the device.\<close>

definition irq_keeps :: "('d, 'h) irq_sys \<Rightarrow> ('d, 'h) irq_sys \<Rightarrow> bool" where
  "irq_keeps s s' \<longleftrightarrow> irq_heaps s' = irq_heaps s \<and> irq_ctl_dev s' = irq_ctl_dev s \<and>
     num_irq_controllers s' = num_irq_controllers s \<and> irq_handler_table s' = irq_handler_table s \<and>
     (\<forall>t. map_option length (irq_tables s' t) = map_option length (irq_tables s t))"

lemma irq_keeps_refl [simp]: "irq_keeps s s"
  by (simp add: irq_keeps_def)

lemma irq_keeps_trans: "irq_keeps s s1 \<Longrightarrow> irq_keeps s1 s2 \<Longrightarrow> irq_keeps s s2"
  by (simp add: irq_keeps_def)

lemma irq_keeps_table:
  assumes "irq_keeps s s'"
  shows "irq_tables s' t = None \<longleftrightarrow> irq_tables s t = None"
    "irq_tables s' t = Some es \<Longrightarrow> \<exists>es0. irq_tables s t = Some es0 \<and> length es0 = length es"
proof -
  have "map_option length (irq_tables s' t) = map_option length (irq_tables s t)"
    using assms by (simp add: irq_keeps_def)
  then show "irq_tables s' t = None \<longleftrightarrow> irq_tables s t = None"
    "irq_tables s' t = Some es \<Longrightarrow> \<exists>es0. irq_tables s t = Some es0 \<and> length es0 = length es"
    by (cases "irq_tables s t"; cases "irq_tables s' t"; simp)+
qed

lemma tables_okD:
  assumes "irq_tables_ok nirqs s"
  shows "irq_tables s t = Some es \<Longrightarrow> length es = nirqs + 1"
    "irq_tables s t = Some es \<Longrightarrow> hp_start (heaps (irq_heaps s) ! 0) \<le> t"
    "irq_tables s t = Some es \<Longrightarrow> unat t + irq_table_size nirqs \<le> unat (hp_pos (heaps (irq_heaps s) ! 0))"
    "irq_tables s t = Some es \<Longrightarrow> irq_tables s u = Some fs \<Longrightarrow> t \<noteq> u \<Longrightarrow>
      unat t + irq_table_size nirqs \<le> unat u \<or> unat u + irq_table_size nirqs \<le> unat t"
  using assms unfolding irq_tables_ok_def by blast+

lemma tables_okI:
  assumes "\<And>t es. irq_tables s t = Some es \<Longrightarrow> length es = nirqs + 1 \<and>
        hp_start (heaps (irq_heaps s) ! 0) \<le> t \<and>
        unat t + irq_table_size nirqs \<le> unat (hp_pos (heaps (irq_heaps s) ! 0))"
    and "\<And>t u es fs. irq_tables s t = Some es \<Longrightarrow> irq_tables s u = Some fs \<Longrightarrow> t \<noteq> u \<Longrightarrow>
      unat t + irq_table_size nirqs \<le> unat u \<or> unat u + irq_table_size nirqs \<le> unat t"
  shows "irq_tables_ok nirqs s"
  using assms unfolding irq_tables_ok_def by blast

lemma irq_ok_keeps:
  assumes "irq_ok nirqs s" "irq_keeps s s'"
  shows "irq_ok nirqs s'"
proof -
  note d = irq_keeps_table [OF assms(2)]
  have k: "irq_heaps s' = irq_heaps s" "irq_handler_table s' = irq_handler_table s"
    "irq_ctl_dev s' = irq_ctl_dev s" "num_irq_controllers s' = num_irq_controllers s"
    using assms(2) by (simp_all add: irq_keeps_def)
  have ok: "irq_tables_ok nirqs s" using assms(1) by (simp add: irq_ok_def)
  have "irq_tables_ok nirqs s'"
  proof (rule tables_okI)
    fix t es assume "irq_tables s' t = Some es"
    with d(2) obtain es0 where "irq_tables s t = Some es0" "length es0 = length es" by blast
    with tables_okD [OF ok] show "length es = nirqs + 1 \<and> hp_start (heaps (irq_heaps s') ! 0) \<le> t \<and>
        unat t + irq_table_size nirqs \<le> unat (hp_pos (heaps (irq_heaps s') ! 0))" by (simp add: k(1))
  next
    fix t u es fs assume "irq_tables s' t = Some es" "irq_tables s' u = Some fs" and n: "t \<noteq> u"
    with d(2) obtain es0 fs0 where "irq_tables s t = Some es0" "irq_tables s u = Some fs0" by blast
    from tables_okD(4) [OF ok this n] show "unat t + irq_table_size nirqs \<le> unat u \<or>
      unat u + irq_table_size nirqs \<le> unat t" .
  qed
  then show ?thesis using assms(1) d(1) unfolding irq_ok_def k by simp
qed

named_theorems irq_keep

lemma entry_set_keeps [irq_keep]: "irq_entry_set tbl irq e s = Some s' \<Longrightarrow> irq_keeps s s'"
  by (auto simp: irq_entry_set_def irq_keeps_def split: option.splits if_splits)

lemma adjust_keeps [irq_keep]: "rumboot_irq_priority_adjust tbl irq p s = Some (r, s') \<Longrightarrow> irq_keeps s s'"
  by (erule adjustE) (simp add: irq_keeps_def)

lemma device_keeps: "irq_keeps s (s\<lparr>irq_dev := d\<rparr>)" "irq_keeps (s\<lparr>irq_dev := d\<rparr>) s' \<longleftrightarrow> irq_keeps s s'"
  by (auto simp: irq_keeps_def)

lemma enable_keeps [irq_keep]: "rumboot_irq_enable irq s = Some s' \<Longrightarrow> irq_keeps s s'"
  by (auto simp: rumboot_irq_enable_def device_keeps split: option.splits dest!: adjust_keeps)

lemma activate_loop_keeps: "activate_loop tbl n i s = Some s' \<Longrightarrow> irq_keeps s s'"
  by (induction tbl n i s rule: activate_loop.induct)
     (auto split: option.splits if_splits intro: irq_keeps_trans dest: enable_keeps)

lemma enable_all_keeps: "enable_all_loop n i s = Some s' \<Longrightarrow> irq_keeps s s'"
  by (induction n i s rule: enable_all_loop.induct)
     (auto split: option.splits intro: irq_keeps_trans dest: enable_keeps)

lemma malloc_table:
  assumes ok: "irq_heap_ok nirqs rt" and m: "rumboot_malloc (of_nat (irq_table_size nirqs)) rt = Some (t, rt')"
  shows "unat (hp_pos (heaps rt ! 0)) \<le> unat t \<and>
    unat t + irq_table_size nirqs = unat (hp_pos (heaps rt' ! 0)) \<and>
    hp_start (heaps rt' ! 0) = hp_start (heaps rt ! 0) \<and> irq_heap_ok nirqs rt' \<and>
    hp_pos (heaps rt ! 0) \<le> hp_pos (heaps rt' ! 0)"
proof -
  let ?n = "irq_table_size nirqs" and ?hp = "heaps rt ! 0"
  have l: "0 < length (heaps rt)" using ok by (simp add: irq_heap_ok_def)
  have n: "unat (of_nat ?n :: u32) = ?n" using ok by (intro unat_of_nat_u32) (simp add: irq_heap_ok_def)
  have pe: "unat (hp_pos ?hp) \<le> unat (hp_end ?hp)" using ok by (simp add: irq_heap_ok_def word_le_nat_alt)
  have lt: "unat (hp_end ?hp) + 4 + ?n < 2 ^ 32" using ok by (simp add: irq_heap_ok_def)
  have nw: "no_wrap ?hp (of_nat ?n) 4 0" unfolding no_wrap_def n using pe lt by simp
  let ?a = "block_start ?hp 4 0"
  have b: "unat (hp_pos ?hp) \<le> ?a" "?a \<le> unat (hp_pos ?hp) + 4" using block_bounds(1) [of ?hp 0 4] block_bounds(2) [of ?hp 4 0] by simp_all
  have u: "unat (of_nat ?a :: u32) = ?a" "unat (of_nat (?a + ?n) :: u32) = ?a + ?n"
    using b(2) pe lt by (intro unat_of_nat_u32; simp)+
  have r: "?a + ?n < unat (hp_end ?hp)" "t = of_nat ?a"
    "rt' = rt\<lparr>heaps := (heaps rt)[0 := ?hp\<lparr>hp_pos := of_nat (?a + ?n)\<rparr>]\<rparr>"
    using m unfolding rumboot_malloc_def rumboot_malloc_from_heap_def malloc_spec [OF l nw] n
    by (auto split: if_splits)
  have h: "heaps rt' ! 0 = ?hp\<lparr>hp_pos := of_nat (?a + ?n)\<rparr>" using r(3) l by simp
  have st: "unat (hp_start ?hp) \<le> unat (hp_pos ?hp)" using ok by (simp add: irq_heap_ok_def word_le_nat_alt)
  have p': "unat (hp_pos (heaps rt' ! 0)) = ?a + ?n" unfolding h using u(2) by simp
  have "irq_heap_ok nirqs rt'"
    using ok r(1,3) l st b(1) u(2) unfolding irq_heap_ok_def by (simp add: h word_le_nat_alt del: of_nat_add)
  moreover have "hp_pos ?hp \<le> hp_pos (heaps rt' ! 0)" using b(1) p' by (simp add: word_le_nat_alt)
  ultimately show ?thesis using b(1) p' by (simp add: r(2) u(1)) (simp add: h)
qed

lemma createE:
  assumes "rumboot_irq_create nirqs copyfrom s = Some (t, s')" and ok: "irq_ok nirqs s"
  obtains es rt where "t \<noteq> 0" "irq_tables s t = None"
    "es = (if copyfrom \<noteq> 0 then the (irq_tables s copyfrom)
           else if irq_handler_table s \<noteq> 0 then the (irq_tables s (irq_handler_table s))
           else replicate (nirqs + 1) cleared_entry)"
    "copyfrom \<noteq> 0 \<Longrightarrow> irq_tables s copyfrom \<noteq> None" "length es = nirqs + 1"
    "s' = s\<lparr>irq_heaps := rt, irq_tables := (irq_tables s)(t \<mapsto> es)\<rparr>"
    "irq_ok nirqs s'"
proof -
  define cf where "cf = (if copyfrom = 0 \<and> rumboot_irq_table_get s \<noteq> 0 then rumboot_irq_table_get s else copyfrom)"
  note u = assms(1) [unfolded rumboot_irq_create_def Let_def cf_def [symmetric] irq_table_size_def [symmetric]]
  obtain rt es where m: "rumboot_malloc (of_nat (irq_table_size nirqs)) (irq_heaps s) = Some (t, rt)" "t \<noteq> 0"
    and e: "(if cf \<noteq> 0 then irq_tables s cf else Some (replicate (nirqs + 1) cleared_entry)) = Some es"
    and s': "s' = s\<lparr>irq_heaps := rt, irq_tables := (irq_tables s)(t \<mapsto> es)\<rparr>"
    using u by (auto split: option.splits if_splits)
  have hok: "irq_heap_ok nirqs (irq_heaps s)" and tok: "irq_tables_ok nirqs s" using ok by (simp_all add: irq_ok_def)
  note mt = malloc_table [OF hok m(1)]
  have pos: "0 < irq_table_size nirqs" by (simp add: irq_table_size_def sizeof_irq_entry_def)
  have len: "length es = nirqs + 1"
    using e tok by (auto simp: irq_tables_ok_def split: if_splits)
  note T = tables_okD [OF tok]
  have apart: "unat u + irq_table_size nirqs \<le> unat t" if "irq_tables s u = Some fs" for u fs
    using T(3) [OF that] mt by linarith
  have fresh: "irq_tables s t = None"
  proof (rule ccontr)
    assume "irq_tables s t \<noteq> None"
    then obtain fs where "irq_tables s t = Some fs" by blast
    from apart [OF this] show False using pos by linarith
  qed
  have hs: "hp_start (heaps rt ! 0) = hp_start (heaps (irq_heaps s) ! 0)" using mt by blast
  have old: "length fs = nirqs + 1 \<and> hp_start (heaps rt ! 0) \<le> u \<and>
      unat u + irq_table_size nirqs \<le> unat (hp_pos (heaps rt ! 0))" if "irq_tables s u = Some fs" for u fs
  proof -
    have "unat (hp_pos (heaps (irq_heaps s) ! 0)) \<le> unat (hp_pos (heaps rt ! 0))" using mt by (simp add: word_le_nat_alt)
    then show ?thesis using T(1-3) [OF that] unfolding hs by linarith
  qed
  have "hp_start (heaps (irq_heaps s) ! 0) \<le> hp_pos (heaps (irq_heaps s) ! 0)" using hok by (simp add: irq_heap_ok_def)
  then have "unat (hp_start (heaps rt ! 0)) \<le> unat t" using mt unfolding hs word_le_nat_alt by linarith
  then have new: "length es = nirqs + 1 \<and> hp_start (heaps rt ! 0) \<le> t \<and>
      unat t + irq_table_size nirqs \<le> unat (hp_pos (heaps rt ! 0))" using len mt by (simp add: word_le_nat_alt)
  have "irq_tables_ok nirqs s'"
  proof (rule tables_okI)
    fix u fs assume "irq_tables s' u = Some fs"
    then have "u = t \<and> fs = es \<or> irq_tables s u = Some fs" by (simp add: s' split: if_splits)
    then show "length fs = nirqs + 1 \<and> hp_start (heaps (irq_heaps s') ! 0) \<le> u \<and>
        unat u + irq_table_size nirqs \<le> unat (hp_pos (heaps (irq_heaps s') ! 0))"
      using new old by (auto simp: s')
  next
    fix u v fs gs assume "irq_tables s' u = Some fs" "irq_tables s' v = Some gs" "u \<noteq> v"
    then have "u = t \<and> irq_tables s v = Some gs \<or> v = t \<and> irq_tables s u = Some fs \<or>
        irq_tables s u = Some fs \<and> irq_tables s v = Some gs" "u \<noteq> v" by (auto simp: s' split: if_splits)
    then show "unat u + irq_table_size nirqs \<le> unat v \<or> unat v + irq_table_size nirqs \<le> unat u"
      using apart T(4) by blast
  qed
  then have "irq_ok nirqs s'"
    using ok mt unfolding irq_ok_def by (simp add: s')
  moreover have "es = (if copyfrom \<noteq> 0 then the (irq_tables s copyfrom)
           else if irq_handler_table s \<noteq> 0 then the (irq_tables s (irq_handler_table s))
           else replicate (nirqs + 1) cleared_entry)"
    "copyfrom \<noteq> 0 \<Longrightarrow> irq_tables s copyfrom \<noteq> None"
    using e by (auto simp: cf_def rumboot_irq_table_get_def split: if_splits)
  ultimately show ?thesis using that m(2) fresh len s' by blast
qed

lemma process_irq_ok:
  assumes "\<And>h num arg s s'. call h num arg s = Some s' \<Longrightarrow> irq_ok nirqs s \<Longrightarrow> irq_ok nirqs s'"
    and "process_irq call nirqs num s = Some s'" "irq_ok nirqs s"
  shows "irq_ok nirqs s'"
  using assms(2,3) unfolding process_irq_def Let_def
  by (auto split: if_splits option.splits dest!: assms(1) entry_set_keeps elim: irq_ok_keeps)

lemma keeps_softly:
  "irq_keeps s (s\<lparr>irq_context_counter := c, irq_type := t\<rparr>)" "irq_keeps s (s\<lparr>irq_type := t, irq_dev := d\<rparr>)"
  "irq_keeps s (s\<lparr>irq_type := t, irq_context_counter := c\<rparr>)"
  by (simp_all add: irq_keeps_def)

lemma dispatch_ok:
  assumes "\<And>h num arg s s'. call h num arg s = Some s' \<Longrightarrow> irq_ok nirqs s \<Longrightarrow> irq_ok nirqs s'"
    and "\<And>h num name s s'. xcall h num name s = Some s' \<Longrightarrow> irq_ok nirqs s \<Longrightarrow> irq_ok nirqs s'"
    and "rumboot_irq_core_dispatch call xcall nirqs ctrl type num s = Some s'" "irq_ok nirqs s"
  shows "irq_ok nirqs s'"
proof -
  have proc: "irq_ok nirqs s2" if "process_irq call nirqs n s1 = Some s2" "irq_ok nirqs s1" for n s1 s2
    by (rule process_irq_ok [OF _ that]) (erule (1) assms(1))
  have serve: "irq_ok nirqs s2" if "irq_serve call xcall nirqs ctl type num s1 = Some s2" "irq_ok nirqs s1" for ctl s1 s2
  proof (cases "sint type = RUMBOOT_IRQ_TYPE_NORMAL")
    case True
    have "\<exists>n t d s3 t' d'. process_irq call nirqs n (s1\<lparr>irq_type := t, irq_dev := d\<rparr>) = Some s3 \<and>
      s2 = s3\<lparr>irq_type := t', irq_dev := d'\<rparr>"
      using that(1) True unfolding irq_serve_def by (simp split: option.splits prod.splits) blast
    then obtain n t d s3 t' d' where
      "process_irq call nirqs n (s1\<lparr>irq_type := t, irq_dev := d\<rparr>) = Some s3"
      "s2 = s3\<lparr>irq_type := t', irq_dev := d'\<rparr>" by blast
    then show ?thesis using proc irq_ok_keeps [OF that(2) keeps_softly(2)] irq_ok_keeps [OF _ keeps_softly(2)] by metis
  next
    case False
    show ?thesis
    proof (cases "sint type = RUMBOOT_IRQ_TYPE_SOFT")
      case True
      then have "process_irq call nirqs num s1 = Some s2" using that(1) False unfolding irq_serve_def by simp
      then show ?thesis using proc that(2) by blast
    next
      case n: False
      then show ?thesis using that False assms(2) unfolding irq_serve_def
        by (simp split: if_splits option.splits)
    qed
  qed
  obtain ctl s2 where
    "irq_serve call xcall nirqs ctl type num (s\<lparr>irq_context_counter := irq_context_counter s + 1, irq_type := sint type\<rparr>)
      = Some s2"
    "s' = s2\<lparr>irq_type := irq_type s, irq_context_counter := irq_context_counter s2 - 1\<rparr>"
    using assms(3) unfolding rumboot_irq_core_dispatch_def Let_def by (auto split: option.splits)
  then show ?thesis
    using serve [OF _ irq_ok_keeps [OF assms(4) keeps_softly(1)]] irq_ok_keeps [OF _ keeps_softly(3)] by metis
qed

lemma do_call_ok:
  assumes "\<And>h num arg s s'. call h num arg s = Some s' \<Longrightarrow> irq_ok nirqs s \<Longrightarrow> irq_ok nirqs s'"
    and "\<And>h num name s s'. xcall h num name s = Some s' \<Longrightarrow> irq_ok nirqs s \<Longrightarrow> irq_ok nirqs s'"
    and "do_call call xcall nirqs c s = Some s'" and ok: "irq_ok nirqs s"
  shows "irq_ok nirqs s'"
proof -
  have k: ?thesis if "irq_keeps s s'" using irq_ok_keeps [OF ok that] .
  show ?thesis
  proof (cases c)
    case (Call_register ctl)
    then obtain d where r: "num_irq_controllers s < length (irq_ctl_dev s)"
      "s' = s\<lparr>irq_ctl_dev := (irq_ctl_dev s)[num_irq_controllers s := Some ctl],
                   num_irq_controllers := num_irq_controllers s + 1, irq_dev := d\<rparr>"
      using assms(3) by (auto simp: do_call_def rumboot_irq_register_controller_def split: if_splits)
    have "(irq_ctl_dev s)[num_irq_controllers s := Some ctl] ! i \<noteq> None \<longleftrightarrow> i < num_irq_controllers s + 1"
      if "i < length (irq_ctl_dev s)" for i
      using ok that r(1) by (cases "i = num_irq_controllers s") (auto simp: irq_ok_def)
    then show ?thesis using ok r(1) unfolding irq_ok_def irq_tables_ok_def r(2) by simp
  next
    case (Call_create tbl)
    then obtain t where "rumboot_irq_create nirqs tbl s = Some (t, s')" using assms(3) by (auto simp: do_call_def)
    then show ?thesis by (rule createE [OF _ ok])
  next
    case (Call_activate tbl)
    let ?s = "s\<lparr>irq_handler_table := tbl\<rparr>"
    have r: "(if tbl \<noteq> 0 then activate_loop tbl nirqs 0 ?s else Some ?s) = Some s'"
      using assms(3) Call_activate by (simp add: do_call_def rumboot_irq_table_activate_def Let_def)
    have n: "0 < nirqs" using ok by (simp add: irq_ok_def)
    have "irq_ok nirqs ?s"
    proof (cases "tbl = 0")
      case True
      then show ?thesis using ok by (simp add: irq_ok_def irq_tables_ok_def)
    next
      case False
      then have "irq_tables s tbl \<noteq> None"
        using r n by (cases nirqs) (auto simp: irq_entry_at_def split: option.splits)
      then show ?thesis using ok by (simp add: irq_ok_def irq_tables_ok_def)
    qed
    then show ?thesis using r by (auto split: if_splits dest: activate_loop_keeps elim: irq_ok_keeps)
  next
    case (Call_dispatch ctrl type num)
    then have d: "rumboot_irq_core_dispatch call xcall nirqs ctrl type num s = Some s'"
      using assms(3) by (simp add: do_call_def)
    show ?thesis by (rule dispatch_ok [OF _ _ d ok]) (erule (1) assms(1), erule (1) assms(2))
  next
    case (Call_set_handler tbl irq flags h arg)
    then show ?thesis using assms(3)
      by (intro k) (auto simp: do_call_def rumboot_irq_set_handler_def Let_def split: option.splits if_splits dest: entry_set_keeps)
  next
    case (Call_enable irq)
    then show ?thesis using assms(3) by (intro k) (simp add: do_call_def enable_keeps)
  next
    case Call_enable_all
    then show ?thesis using assms(3) by (intro k) (simp add: do_call_def rumboot_irq_enable_all_def enable_all_keeps)
  next
    case (Call_adjust tbl irq p)
    then show ?thesis using assms(3) by (intro k) (auto simp: do_call_def dest: adjust_keeps)
  next
    case (Call_reset_count irq)
    then show ?thesis using assms(3)
      by (intro k) (auto simp: do_call_def rumboot_irq_reset_count_def split: option.splits if_splits dest: entry_set_keeps)
  next
    case (Call_disable irq)
    then show ?thesis using assms(3)
      by (intro k) (auto simp: do_call_def rumboot_irq_disable_def device_keeps split: option.splits)
  next
    case (Call_swint irq)
    then show ?thesis using assms(3)
      by (intro k) (auto simp: do_call_def rumboot_irq_swint_def device_keeps split: option.splits)
  next
    case (Call_free tbl)
    then have "s' = s\<lparr>irq_heaps := irq_heaps s\<rparr>"
      using assms(3) by (simp add: do_call_def rumboot_irq_free_def rumboot_free_def)
    then show ?thesis by (intro k) (simp add: irq_keeps_def)
  next
    case (Call_set_default h arg)
    then have "s' = s\<lparr>irq_def_hndlr := h, irq_def_arg := arg\<rparr>"
      using assms(3) by (simp add: do_call_def rumboot_irq_set_default_handler_def)
    then show ?thesis by (intro k) (simp add: irq_keeps_def)
  next
    case (Call_set_exception h)
    then have "s' = s\<lparr>irq_exception_hndlr := h\<rparr>"
      using assms(3) by (simp add: do_call_def rumboot_irq_set_exception_handler_def)
    then show ?thesis by (intro k) (simp add: irq_keeps_def)
  next
    case (Call_device f)
    then have "s' = s\<lparr>irq_dev := f (irq_dev s)\<rparr>" using assms(3) by (simp add: do_call_def)
    then show ?thesis by (intro k) (simp add: irq_keeps_def)
  qed
qed

lemma do_calls_ok:
  assumes "\<And>h num arg s s'. call h num arg s = Some s' \<Longrightarrow> irq_ok nirqs s \<Longrightarrow> irq_ok nirqs s'"
    and "\<And>h num name s s'. xcall h num name s = Some s' \<Longrightarrow> irq_ok nirqs s \<Longrightarrow> irq_ok nirqs s'"
  shows "do_calls call xcall nirqs cs s = Some s' \<Longrightarrow> irq_ok nirqs s \<Longrightarrow> irq_ok nirqs s'"
proof (induction cs arbitrary: s)
  case (Cons c cs)
  obtain s1 where 1: "do_call call xcall nirqs (c s) s = Some s1" "do_calls call xcall nirqs cs s1 = Some s'"
    using Cons.prems(1) by (cases "do_call call xcall nirqs (c s) s") simp_all
  have "irq_ok nirqs s1" by (rule do_call_ok [OF _ _ 1(1) Cons.prems(2)]) (erule (1) assms(1), erule (1) assms(2))
  then show ?case by (rule Cons.IH [OF 1(2)])
qed simp

lemma run_prog_ok: "run_prog prog xprog nirqs k cs s = Some s' \<Longrightarrow> irq_ok nirqs s \<Longrightarrow> irq_ok nirqs s'"
proof (induction k arbitrary: cs s s')
  case (Suc k)
  show ?case by (rule do_calls_ok [OF _ _ Suc.prems(1) [unfolded run_prog.simps] Suc.prems(2)]) (erule (1) Suc.IH, erule (1) Suc.IH)
qed simp

section \<open>Delivery\<close>

lemma set_handlerE:
  assumes "rumboot_irq_set_handler nirqs tbl irq flags h arg s = Some s'" "tbl \<noteq> 0"
  obtains ctl e where "rumboot_irq_controller_by_irq irq s = Some ctl" "irq \<le> int nirqs - 1" "0 \<le> irq"
    "irq_entry_at tbl irq s = Some e"
    "irq_entry_set tbl irq (e\<lparr>ie_handler := h, ie_arg := arg, ie_flags := flags,
       ie_priority := ctl_priority_default ctl\<rparr>) s = Some s'"
proof -
  obtain ctl where c: "rumboot_irq_controller_by_irq irq s = Some ctl"
    using assms(1) unfolding rumboot_irq_set_handler_def by (cases "rumboot_irq_controller_by_irq irq s") simp_all
  note u = assms(1) [unfolded rumboot_irq_set_handler_def c option.case Let_def if_not_P [OF assms(2)]]
  then have i: "\<not> irq > int nirqs - 1" by (cases "irq > int nirqs - 1") simp_all
  note v = u [unfolded if_not_P [OF i]]
  then obtain e where e: "irq_entry_at tbl irq s = Some e" using assms(2) by (cases "irq_entry_at tbl irq s") simp_all
  moreover from e have "0 \<le> irq" by (auto simp: irq_entry_at_def split: option.splits if_splits)
  ultimately show ?thesis using v assms(2) i c that by simp
qed

lemma entry_at_set:
  assumes "irq_entry_set tbl irq e s = Some s'"
  shows "irq_entry_at tbl irq s' = Some e" "irq_handler_table s' = irq_handler_table s"
    "irq_def_hndlr s' = irq_def_hndlr s" "irq_ctl_dev s' = irq_ctl_dev s"
  using assms by (auto simp: irq_entry_set_def irq_entry_at_def split: option.splits if_splits)

lemma entry_set_defined: "irq_entry_at tbl irq s = Some e0 \<Longrightarrow> \<exists>s'. irq_entry_set tbl irq e s = Some s'"
  by (auto simp: irq_entry_set_def irq_entry_at_def split: option.splits if_splits)

text \<open>Enabling lines changes neither handlers nor arguments nor counts.\<close>

definition same_vectors :: "u32 \<Rightarrow> int \<Rightarrow> ('d, 'h) irq_sys \<Rightarrow> ('d, 'h) irq_sys \<Rightarrow> bool" where
  "same_vectors tbl irq s s' \<longleftrightarrow>
     map_option (\<lambda>e. (ie_handler e, ie_arg e, ie_flags e, ie_count e)) (irq_entry_at tbl irq s') =
     map_option (\<lambda>e. (ie_handler e, ie_arg e, ie_flags e, ie_count e)) (irq_entry_at tbl irq s)"

lemma adjust_vectors:
  assumes "rumboot_irq_priority_adjust t i p s = Some (r, s')"
  shows "same_vectors tbl irq s s'"
  using assms
proof (rule adjustE)
  fix u ctl es d
  assume "irq_tables s u = Some es" "0 \<le> i" "nat i < length es"
    "s' = s\<lparr>irq_tables := (irq_tables s)(u \<mapsto> es[nat i := (es ! nat i)\<lparr>ie_priority := clamp_priority ctl p\<rparr>]),
           irq_dev := d\<rparr>"
  then show ?thesis
    by (cases "nat irq = nat i") (auto simp: same_vectors_def irq_entry_at_def split: option.splits)
qed

lemma enable_vectors: "rumboot_irq_enable i s = Some s' \<Longrightarrow> same_vectors tbl irq s s'"
  by (auto simp: rumboot_irq_enable_def split: option.splits dest!: adjust_vectors [where tbl = tbl and irq = irq])
     (auto simp: same_vectors_def irq_entry_at_def)

lemma activate_vectors: "activate_loop t n i s = Some s' \<Longrightarrow> same_vectors tbl irq s s'"
  by (induction t n i s rule: activate_loop.induct)
     (auto split: option.splits if_splits simp: same_vectors_def dest: enable_vectors [where tbl = tbl and irq = irq])

end
