(* ===== verification/Irq_Drivers.thy ===== *)
theory Irq_Drivers
  imports Irq Hardware
begin

text \<open>
  Interrupt controllers: the GIC of ARM platforms (\<open>src/lib/drivers/irq-gic.c\<close>), the controller of
  the NMC cores (\<open>irq-nmc.c\<close>) and the one of platforms without interrupts (\<open>irq-dummy.c\<close>). The
  locale \<open>irq_lines\<close> is what the interrupt subsystem wants of one: configuring a line enables or
  disables that line and no other. What the registers do is a hypothesis on the device.
\<close>

section \<open>GIC\<close>

definition GICC_REG_IAR :: u32 where "GICC_REG_IAR = 0x00C"
definition GICC_REG_EOIR :: u32 where "GICC_REG_EOIR = 0x010"
definition GICC_REG_CTLR :: u32 where "GICC_REG_CTLR = 0x000"
definition GICC_REG_PMR :: u32 where "GICC_REG_PMR = 0x004"
definition GICD_REG_CTLR :: u32 where "GICD_REG_CTLR = 0x000"
definition GICD_REG_ISENABLER1 :: u32 where "GICD_REG_ISENABLER1 = 0x100"
definition GICD_REG_ISENABLER2 :: u32 where "GICD_REG_ISENABLER2 = 0x104"
definition GICD_REG_ISENABLER3 :: u32 where "GICD_REG_ISENABLER3 = 0x108"
definition GICD_REG_ICENABLER1 :: u32 where "GICD_REG_ICENABLER1 = 0x180"
definition GICD_REG_ICENABLER2 :: u32 where "GICD_REG_ICENABLER2 = 0x184"
definition GICD_REG_ICENABLER3 :: u32 where "GICD_REG_ICENABLER3 = 0x188"
definition GICD_REG_SGIR :: u32 where "GICD_REG_SGIR = 0xF00"

text \<open>\<open>GIC_GENSWINT0\<close>, and the bases \<open>dist\<close> and \<open>cpuif\<close>, belong to the platform.\<close>

definition gic_dist_write :: "'d hw \<Rightarrow> u32 \<Rightarrow> u32 \<Rightarrow> u32 \<Rightarrow> 'd \<Rightarrow> 'd" where
  "gic_dist_write hw dist reg value d = iowrite32 hw value (dist + reg) d"

definition gic_cpuif_write :: "'d hw \<Rightarrow> u32 \<Rightarrow> u32 \<Rightarrow> u32 \<Rightarrow> 'd \<Rightarrow> 'd" where
  "gic_cpuif_write hw cpuif reg value d = iowrite32 hw value (cpuif + reg) d"

definition gic_cpuif_read :: "'d hw \<Rightarrow> u32 \<Rightarrow> u32 \<Rightarrow> 'd \<Rightarrow> u32 \<times> 'd" where
  "gic_cpuif_read hw cpuif reg d = ioread32 hw (cpuif + reg) d"

definition gic_init :: "'d hw \<Rightarrow> u32 \<Rightarrow> u32 \<Rightarrow> 'd \<Rightarrow> 'd option" where
  "gic_init hw dist cpuif d =
     (let d = gic_cpuif_write hw cpuif GICC_REG_PMR 0xff d;
          d = gic_cpuif_write hw cpuif GICC_REG_CTLR 1 d
      in Some (gic_dist_write hw dist GICD_REG_CTLR 1 d))"

definition gic_begin :: "'d hw \<Rightarrow> u32 \<Rightarrow> ('d \<Rightarrow> 'd) option \<Rightarrow> int \<Rightarrow> int \<times> 'd \<Rightarrow> (u32 \<times> int \<times> 'd) option" where
  "gic_begin hw cpuif slave_save num td =
     (let (irq, d) = gic_cpuif_read hw cpuif GICC_REG_IAR (snd td);
          d = (case slave_save of Some f \<Rightarrow> if irq = 0 then f d else d | None \<Rightarrow> d)
      in Some (irq, fst td, d))"

definition gic_end :: "'d hw \<Rightarrow> u32 \<Rightarrow> ('d \<Rightarrow> 'd) option \<Rightarrow> int \<Rightarrow> int \<times> 'd \<Rightarrow> (int \<times> 'd) option" where
  "gic_end hw cpuif slave_restore irq td =
     (let d = gic_cpuif_write hw cpuif GICC_REG_EOIR (of_int irq) (snd td);
          d = (case slave_restore of Some f \<Rightarrow> if irq = 0 then f d else d | None \<Rightarrow> d)
      in Some (fst td, d))"

text \<open>A shift by 32 or more gives 0 here and below; in C it is undefined.\<close>

definition gic_configure :: "'d hw \<Rightarrow> u32 \<Rightarrow> u32 \<Rightarrow> int \<Rightarrow> u32 \<Rightarrow> bool \<Rightarrow> 'd \<Rightarrow> 'd option" where
  "gic_configure hw dist cpuif irq flags enable d =
     (if irq < 16 then Some d
      else
        let d = gic_dist_write hw dist GICD_REG_CTLR 0 d;
            d = gic_cpuif_write hw cpuif GICC_REG_CTLR 0 d;
            (reg, shift) =
              (if irq > 31 \<and> irq < 64 then
                 (if enable then GICD_REG_ISENABLER2 else GICD_REG_ICENABLER2, irq - 32)
               else if irq > 63 \<and> irq < 96 then
                 (if enable then GICD_REG_ISENABLER3 else GICD_REG_ICENABLER3, irq - 64)
               else (if enable then GICD_REG_ISENABLER1 else GICD_REG_ICENABLER1, irq));
            d = gic_dist_write hw dist reg (BIT (nat shift)) d;
            d = gic_cpuif_write hw cpuif GICC_REG_PMR 0xff d;
            d = gic_cpuif_write hw cpuif GICC_REG_CTLR 1 d
        in Some (gic_dist_write hw dist GICD_REG_CTLR 1 d))"

definition gic_swint :: "'d hw \<Rightarrow> u32 \<Rightarrow> u32 \<Rightarrow> int \<Rightarrow> 'd \<Rightarrow> 'd option" where
  "gic_swint hw dist genswint irq d =
     (if irq = 0 then Some (iowrite32 hw genswint (dist + GICD_REG_SGIR) d) else None)"

definition gic_irq_ctl :: "'d hw \<Rightarrow> u32 \<Rightarrow> u32 \<Rightarrow> u32 \<Rightarrow> 'd irq_controller" where
  "gic_irq_ctl hw dist cpuif genswint =
     \<lparr>ctl_first = 0, ctl_last = 127, ctl_init = gic_init hw dist cpuif,
      ctl_configure = gic_configure hw dist cpuif, ctl_begin = gic_begin hw cpuif None,
      ctl_end = gic_end hw cpuif None, ctl_generate_swint = gic_swint hw dist genswint,
      ctl_slave_save = None, ctl_slave_restore = None, ctl_adjust_priority = None,
      ctl_priority_max = 0, ctl_priority_min = 0, ctl_priority_default = 0\<rparr>"

definition rumboot_irq_register_gic ::
  "'d hw \<Rightarrow> u32 \<Rightarrow> u32 \<Rightarrow> u32 \<Rightarrow> ('d, 'h) irq_sys \<Rightarrow> ('d, 'h) irq_sys option" where
  "rumboot_irq_register_gic hw dist cpuif genswint s =
     rumboot_irq_register_controller (gic_irq_ctl hw dist cpuif genswint) s"

section \<open>NMC\<close>

definition INTC_IRRL_SET :: "u32 \<Rightarrow> u32" where "INTC_IRRL_SET base = base + 0x08"
definition INTC_IMRL_SET :: "u32 \<Rightarrow> u32" where "INTC_IMRL_SET base = base + 0x28"
definition INTC_IMRL_CLR :: "u32 \<Rightarrow> u32" where "INTC_IMRL_CLR base = base + 0x30"
definition INTC_IRPL_SET :: "u32 \<Rightarrow> u32" where "INTC_IRPL_SET base = base + 0x48"
definition INTC_IRPL_CLR :: "u32 \<Rightarrow> u32" where "INTC_IRPL_CLR base = base + 0x50"
definition INTC_IASL_CLR :: "u32 \<Rightarrow> u32" where "INTC_IASL_CLR base = base + 0x70"
definition INTC_IRRH_SET :: "u32 \<Rightarrow> u32" where "INTC_IRRH_SET base = base + 0x108"
definition INTC_IMRH_SET :: "u32 \<Rightarrow> u32" where "INTC_IMRH_SET base = base + 0x128"
definition INTC_IMRH_CLR :: "u32 \<Rightarrow> u32" where "INTC_IMRH_CLR base = base + 0x130"
definition INTC_IRPH_SET :: "u32 \<Rightarrow> u32" where "INTC_IRPH_SET base = base + 0x148"
definition INTC_IRPH_CLR :: "u32 \<Rightarrow> u32" where "INTC_IRPH_CLR base = base + 0x150"
definition INTC_IASH_CLR :: "u32 \<Rightarrow> u32" where "INTC_IASH_CLR base = base + 0x170"

definition nmc_intc_init :: "'d \<Rightarrow> 'd option" where "nmc_intc_init d = Some d"

definition nmc_intc_begin :: "int \<Rightarrow> int \<times> 'd \<Rightarrow> (u32 \<times> int \<times> 'd) option" where
  "nmc_intc_begin num td = Some (of_int num, td)"

definition nmc_intc_end :: "'d hw \<Rightarrow> u32 \<Rightarrow> int \<Rightarrow> int \<times> 'd \<Rightarrow> (int \<times> 'd) option" where
  "nmc_intc_end hw base irq td =
     (let (reg, shift) = (if irq > 31 then (INTC_IASH_CLR base, irq - 32) else (INTC_IASL_CLR base, irq))
      in Some (fst td, iowrite32 hw (BIT (unat (of_int shift :: u32))) reg (snd td)))"

definition nmc_intc_configure :: "'d hw \<Rightarrow> u32 \<Rightarrow> int \<Rightarrow> u32 \<Rightarrow> bool \<Rightarrow> 'd \<Rightarrow> 'd option" where
  "nmc_intc_configure hw base irq flags enable d =
     (let (reg, shift) =
            (if irq > 31 then (if enable then INTC_IMRH_SET base else INTC_IMRH_CLR base, irq - 32)
             else (if enable then INTC_IMRL_SET base else INTC_IMRL_CLR base, irq))
      in Some (iowrite32 hw (BIT (unat (of_int shift :: u32))) reg d))"

definition nmc_intc_swint :: "'d hw \<Rightarrow> u32 \<Rightarrow> int \<Rightarrow> 'd \<Rightarrow> 'd option" where
  "nmc_intc_swint hw base irq d =
     (let (reg, irq) = (if irq > 31 then (INTC_IRRH_SET base, irq - 32) else (INTC_IRRL_SET base, irq))
      in Some (iowrite32 hw (BIT (unat (of_int irq :: u32))) reg d))"

text \<open>Defined by the driver, and not among the operations of the controller.\<close>

definition nmc_intc_adjust_priority :: "'d hw \<Rightarrow> u32 \<Rightarrow> int \<Rightarrow> int \<Rightarrow> 'd \<Rightarrow> 'd option" where
  "nmc_intc_adjust_priority hw base irq priority d =
     (let (reg, irq) =
            (if irq > 31 then (if priority \<noteq> 0 then INTC_IRPH_SET base else INTC_IRPH_CLR base, irq - 32)
             else (if priority \<noteq> 0 then INTC_IRPL_SET base else INTC_IRPL_CLR base, irq))
      in Some (iowrite32 hw (BIT (unat (of_int irq :: u32))) reg d))"

definition nmc_irq_ctl :: "'d hw \<Rightarrow> u32 \<Rightarrow> 'd irq_controller" where
  "nmc_irq_ctl hw base =
     \<lparr>ctl_first = 0, ctl_last = 63, ctl_init = nmc_intc_init,
      ctl_configure = nmc_intc_configure hw base, ctl_begin = nmc_intc_begin,
      ctl_end = nmc_intc_end hw base, ctl_generate_swint = nmc_intc_swint hw base,
      ctl_slave_save = None, ctl_slave_restore = None, ctl_adjust_priority = None,
      ctl_priority_max = 0, ctl_priority_min = 0, ctl_priority_default = 0\<rparr>"

definition rumboot_irq_register_nmc_intc_controller ::
  "'d hw \<Rightarrow> u32 \<Rightarrow> ('d, 'h) irq_sys \<Rightarrow> ('d, 'h) irq_sys option" where
  "rumboot_irq_register_nmc_intc_controller hw base s = rumboot_irq_register_controller (nmc_irq_ctl hw base) s"

section \<open>No controller\<close>

definition dummy_init :: "'d \<Rightarrow> 'd option" where "dummy_init d = Some d"

definition dummy_begin :: "int \<Rightarrow> int \<times> 'd \<Rightarrow> (u32 \<times> int \<times> 'd) option" where
  "dummy_begin irq td = Some (0, td)"

definition dummy_end :: "int \<Rightarrow> int \<times> 'd \<Rightarrow> (int \<times> 'd) option" where "dummy_end irq td = Some td"

definition dummy_configure :: "int \<Rightarrow> u32 \<Rightarrow> bool \<Rightarrow> 'd \<Rightarrow> 'd option" where
  "dummy_configure irq flags enable d = Some d"

definition dummy_swint :: "int \<Rightarrow> 'd \<Rightarrow> 'd option" where "dummy_swint irq d = Some d"

definition dummy_irq_ctl :: "'d irq_controller" where
  "dummy_irq_ctl =
     \<lparr>ctl_first = 0, ctl_last = 31, ctl_init = dummy_init, ctl_configure = dummy_configure,
      ctl_begin = dummy_begin, ctl_end = dummy_end, ctl_generate_swint = dummy_swint,
      ctl_slave_save = None, ctl_slave_restore = None, ctl_adjust_priority = None,
      ctl_priority_max = 0, ctl_priority_min = 0, ctl_priority_default = 0\<rparr>"

definition rumboot_irq_register_dummy_controller :: "('d, 'h) irq_sys \<Rightarrow> ('d, 'h) irq_sys option" where
  "rumboot_irq_register_dummy_controller s = rumboot_irq_register_controller dummy_irq_ctl s"

section \<open>Lines\<close>

locale irq_lines =
  fixes ctl :: "'d irq_controller" and enabled :: "'d \<Rightarrow> int set" and lines :: "int set"
  assumes configure: "0 \<le> i \<Longrightarrow> i < 2 ^ 31 \<Longrightarrow> ctl_configure ctl i flags on d = Some d' \<Longrightarrow>
      enabled d' = (if i \<in> lines then (if on then insert i (enabled d) else enabled d - {i}) else enabled d)"
    and priority: "0 \<le> i \<Longrightarrow> ctl_adjust_priority ctl = Some adjust \<Longrightarrow> adjust i p d = Some d' \<Longrightarrow>
      enabled d' = enabled d"
begin

lemma enable_line:
  fixes s :: "('d, 'h) irq_sys"
  assumes "rumboot_irq_enable i s = Some s'" "rumboot_irq_controller_by_irq i s = Some ctl" "ctl_first ctl = 0"
    and i: "0 \<le> i" "i < 2 ^ 31"
  shows "enabled (irq_dev s') = enabled (irq_dev s) \<union> ({i} \<inter> lines)"
proof -
  obtain tbl d r and e :: "'h irq_entry" where u: "ctl_configure ctl i (ie_flags e) True (irq_dev s) = Some d"
    "rumboot_irq_priority_adjust tbl i (ie_priority e) (s\<lparr>irq_dev := d\<rparr>) = Some (r, s')"
    using assms by (auto simp: rumboot_irq_enable_def split: option.splits)
  have c: "rumboot_irq_controller_by_irq i (s\<lparr>irq_dev := d\<rparr>) = Some ctl"
    using assms(2) by (simp add: rumboot_irq_controller_by_irq_def)
  have "enabled (irq_dev s') = enabled d"
    using u(2)
  proof (rule adjustE)
    fix t ctl' es d2
    assume a: "rumboot_irq_controller_by_irq i (s\<lparr>irq_dev := d\<rparr>) = Some ctl'"
      "s' = s\<lparr>irq_dev := d, irq_tables := (irq_tables (s\<lparr>irq_dev := d\<rparr>))(t \<mapsto> es[nat i := (es ! nat i)
         \<lparr>ie_priority := clamp_priority ctl' (ie_priority e)\<rparr>]), irq_dev := d2\<rparr>"
      "if t = rumboot_irq_table_get (s\<lparr>irq_dev := d\<rparr>) \<and> ctl_adjust_priority ctl' \<noteq> None
       then the (ctl_adjust_priority ctl') (i - ctl_first ctl') (clamp_priority ctl' (ie_priority e))
              (irq_dev (s\<lparr>irq_dev := d\<rparr>)) = Some d2
       else d2 = irq_dev (s\<lparr>irq_dev := d\<rparr>)"
    have "ctl' = ctl" using a(1) c by simp
    then have "enabled d2 = enabled d" using a(3) assms(3) i(1) priority by (auto split: if_splits)
    then show ?thesis by (simp add: a(2))
  qed
  then show ?thesis using configure [OF i u(1)] by auto
qed

lemma activate_lines:
  fixes s :: "('d, 'h) irq_sys"
  assumes "ctl_first ctl = 0" "\<And>j. 0 \<le> j \<Longrightarrow> j < i + int n \<Longrightarrow> controller_search 0 j (irq_ctl_dev s) = Some ctl"
    and "0 \<le> i" "activate_loop tbl n i s = Some s'" "i + int n \<le> 2 ^ 31"
  shows "enabled (irq_dev s') = enabled (irq_dev s) \<union>
    ({j. i \<le> j \<and> j < i + int n \<and> (\<exists>e. irq_entry_at tbl j s = Some e \<and> ie_handler e \<noteq> None)} \<inter> lines)"
  using assms(2-)
proof (induction n arbitrary: i s)
  case (Suc n)
  define H where "H s j \<longleftrightarrow> (\<exists>e. irq_entry_at tbl j s = Some e \<and> ie_handler e \<noteq> None)" for s :: "('d, 'h) irq_sys" and j
  obtain e where e: "irq_entry_at tbl i s = Some e"
    using Suc.prems(3) by (cases "irq_entry_at tbl i s") simp_all
  have split: "{j. i \<le> j \<and> j < i + int (Suc n) \<and> H s j} = ({i} \<inter> Collect (H s)) \<union> {j. i + 1 \<le> j \<and> j < (i + 1) + int n \<and> H s j}"
    by auto
  show ?case
  proof (cases "ie_handler e = None")
    case True
    then have "activate_loop tbl n (i + 1) s = Some s'" using Suc.prems(3) e by simp
    from Suc.IH [OF _ _ this] Suc.prems(1,2,4) have
      "enabled (irq_dev s') = enabled (irq_dev s) \<union> ({j. i + 1 \<le> j \<and> j < (i + 1) + int n \<and> H s j} \<inter> lines)"
      unfolding H_def by simp
    moreover have "\<not> H s i" using True e by (simp add: H_def)
    ultimately show ?thesis unfolding split [unfolded H_def] using split unfolding H_def by auto
  next
    case False
    then obtain s1 where s1: "rumboot_irq_enable i s = Some s1" "activate_loop tbl n (i + 1) s1 = Some s'"
      using Suc.prems(3) e by (auto split: option.splits)
    have dev: "irq_ctl_dev s1 = irq_ctl_dev s" using enable_keeps [OF s1(1)] by (simp add: irq_keeps_def)
    have "rumboot_irq_controller_by_irq i s = Some ctl"
      using Suc.prems(1) [of i] Suc.prems(2) by (simp add: rumboot_irq_controller_by_irq_def)
    note en = enable_line [OF s1(1) this assms(1) Suc.prems(2)]
    have hh: "H s1 j = H s j" for j
      using enable_vectors [OF s1(1), of tbl j] unfolding H_def same_vectors_def
      by (cases "irq_entry_at tbl j s"; cases "irq_entry_at tbl j s1") auto
    have "enabled (irq_dev s') = enabled (irq_dev s1) \<union> ({j. i + 1 \<le> j \<and> j < (i + 1) + int n \<and> H s1 j} \<inter> lines)"
      using Suc.IH [OF _ _ s1(2)] Suc.prems(1,2,4) unfolding H_def dev by simp
    moreover have "H s i" using False e by (simp add: H_def)
    ultimately show ?thesis using split Suc.prems(4) unfolding hh H_def [symmetric] by (subst (asm) en) auto
  qed
qed auto

lemma table_activate_lines:
  fixes s :: "('d, 'h) irq_sys"
  assumes "ctl_first ctl = 0" "\<And>j. 0 \<le> j \<Longrightarrow> j < int nirqs \<Longrightarrow> rumboot_irq_controller_by_irq j s = Some ctl"
    and "tbl \<noteq> 0" "rumboot_irq_table_activate nirqs tbl s = Some s'" "int nirqs \<le> 2 ^ 31"
  shows "enabled (irq_dev s') = enabled (irq_dev s) \<union>
    ({j. 0 \<le> j \<and> j < int nirqs \<and> (\<exists>e. irq_entry_at tbl j s = Some e \<and> ie_handler e \<noteq> None)} \<inter> lines)"
proof -
  have "activate_loop tbl nirqs 0 (s\<lparr>irq_handler_table := tbl\<rparr>) = Some s'"
    using assms(3,4) by (simp add: rumboot_irq_table_activate_def)
  from activate_lines [OF assms(1) _ _ this] assms(2,5) show ?thesis
    by (simp add: rumboot_irq_controller_by_irq_def irq_entry_at_def)
qed

end

interpretation dummy: irq_lines dummy_irq_ctl "\<lambda>_. {}" "{}"
  by unfold_locales simp_all

text \<open>What the registers of a GIC do to its set of enabled lines: ones written to a set-enable register
  enable, ones written to a clear-enable register disable; other registers of the two blocks that
  the driver writes do not matter.\<close>

definition bank_lines :: "nat \<Rightarrow> u32 \<Rightarrow> int set" where
  "bank_lines k v = {i. 32 * int k \<le> i \<and> i < 32 * int k + 32 \<and> bit v (nat (i - 32 * int k))}"

definition gic_device :: "'d hw \<Rightarrow> u32 \<Rightarrow> u32 \<Rightarrow> ('d \<Rightarrow> int set) \<Rightarrow> bool" where
  "gic_device hw dist cpuif enabled \<longleftrightarrow>
     (\<forall>v d. enabled (hw_write32 hw v (dist + 0x100) d) = enabled d \<union> bank_lines 0 v) \<and>
     (\<forall>v d. enabled (hw_write32 hw v (dist + 0x104) d) = enabled d \<union> bank_lines 1 v) \<and>
     (\<forall>v d. enabled (hw_write32 hw v (dist + 0x108) d) = enabled d \<union> bank_lines 2 v) \<and>
     (\<forall>v d. enabled (hw_write32 hw v (dist + 0x180) d) = enabled d - bank_lines 0 v) \<and>
     (\<forall>v d. enabled (hw_write32 hw v (dist + 0x184) d) = enabled d - bank_lines 1 v) \<and>
     (\<forall>v d. enabled (hw_write32 hw v (dist + 0x188) d) = enabled d - bank_lines 2 v) \<and>
     (\<forall>v d. enabled (hw_write32 hw v dist d) = enabled d) \<and>
     (\<forall>v d. enabled (hw_write32 hw v cpuif d) = enabled d) \<and>
     (\<forall>v d. enabled (hw_write32 hw v (cpuif + 4) d) = enabled d)"

lemma bank_lines_BIT: "i < 32 \<Longrightarrow> bank_lines k (BIT i) = {32 * int k + int i}"
  by (auto simp: bank_lines_def BIT_def bit_simps)

lemma BIT_beyond: "32 \<le> i \<Longrightarrow> BIT i = 0"
  by (rule bit_word_eqI) (auto simp: BIT_def bit_simps)

lemma bank_lines_0: "bank_lines k 0 = {}"
  by (simp add: bank_lines_def)

lemma gic_configure_lines:
  assumes dev: "gic_device hw dist cpuif enabled" and c: "gic_configure hw dist cpuif i flags on d = Some d'"
  shows "enabled d' = (if i \<in> {16..95} then (if on then insert i (enabled d) else enabled d - {i}) else enabled d)"
proof (cases "i < 16")
  case True
  then show ?thesis using c by (auto simp: gic_configure_def)
next
  case False
  note regs = gic_dist_write_def gic_cpuif_write_def iowrite32_def GICC_REG_CTLR_def GICC_REG_PMR_def
    GICD_REG_CTLR_def GICD_REG_ISENABLER1_def GICD_REG_ISENABLER2_def GICD_REG_ISENABLER3_def
    GICD_REG_ICENABLER1_def GICD_REG_ICENABLER2_def GICD_REG_ICENABLER3_def
  have d: "enabled (hw_write32 hw v (dist + 0x100) x) = enabled x \<union> bank_lines 0 v"
    "enabled (hw_write32 hw v (dist + 0x104) x) = enabled x \<union> bank_lines 1 v"
    "enabled (hw_write32 hw v (dist + 0x108) x) = enabled x \<union> bank_lines 2 v"
    "enabled (hw_write32 hw v (dist + 0x180) x) = enabled x - bank_lines 0 v"
    "enabled (hw_write32 hw v (dist + 0x184) x) = enabled x - bank_lines 1 v"
    "enabled (hw_write32 hw v (dist + 0x188) x) = enabled x - bank_lines 2 v"
    "enabled (hw_write32 hw v dist x) = enabled x" "enabled (hw_write32 hw v cpuif x) = enabled x"
    "enabled (hw_write32 hw v (cpuif + 4) x) = enabled x" for v x
    using dev unfolding gic_device_def by simp_all
  have run: "enabled d' = (if on then enabled d \<union> bank_lines k (BIT n) else enabled d - bank_lines k (BIT n))"
    if "k < 3" "gic_configure hw dist cpuif i flags on d =
      Some (hw_write32 hw 1 dist (hw_write32 hw 1 cpuif (hw_write32 hw 0xff (cpuif + 4)
        (hw_write32 hw (BIT n) (dist + ((if on then 0x100 else 0x180) + 4 * of_nat k))
          (hw_write32 hw 0 cpuif (hw_write32 hw 0 dist d))))))" for k n
  proof -
    have "k = 0 \<or> k = 1 \<or> k = 2" using that(1) by linarith
    then show ?thesis using that(2) c d by (cases on) auto
  qed
  have unf: "gic_configure hw dist cpuif i flags on d =
      Some (hw_write32 hw 1 dist (hw_write32 hw 1 cpuif (hw_write32 hw 0xff (cpuif + 4)
        (hw_write32 hw (BIT (nat (if 32 \<le> i \<and> i < 96 then i - 32 * int k else i)))
          (dist + ((if on then 0x100 else 0x180) + 4 * of_nat k))
          (hw_write32 hw 0 cpuif (hw_write32 hw 0 dist d))))))"
    if "k = (if 32 \<le> i \<and> i < 64 then 1 else if 64 \<le> i \<and> i < 96 then 2 else 0)" for k
    using False that unfolding gic_configure_def Let_def regs by (cases on) simp_all
  consider "16 \<le> i" "i < 32" | "32 \<le> i" "i < 64" | "64 \<le> i" "i < 96" | "96 \<le> i" using False by linarith
  then show ?thesis
  proof cases
    case 1
    then have "bank_lines 0 (BIT (nat i)) = {i}" by (subst bank_lines_BIT) auto
    then show ?thesis using 1 run [OF _ unf, of 0] by simp
  next
    case 2
    then have "bank_lines 1 (BIT (nat (i - 32))) = {i}" by (subst bank_lines_BIT) auto
    then show ?thesis using 2 run [OF _ unf, of 1] by simp
  next
    case 3
    then have "bank_lines 2 (BIT (nat (i - 64))) = {i}" by (subst bank_lines_BIT) auto
    then show ?thesis using 3 run [OF _ unf, of 2] by simp
  next
    case 4
    have "BIT (nat i) = 0" using 4 by (intro BIT_beyond) simp
    then show ?thesis using 4 run [OF _ unf, of 0] by (simp add: bank_lines_0)
  qed
qed

lemma gic_irq_lines: "gic_device hw dist cpuif enabled \<Longrightarrow>
    irq_lines (gic_irq_ctl hw dist cpuif genswint) enabled {16..95}"
  by unfold_locales (simp_all add: gic_irq_ctl_def gic_configure_lines)

text \<open>The mask registers of the NMC controller.\<close>

definition nmc_device :: "'d hw \<Rightarrow> u32 \<Rightarrow> ('d \<Rightarrow> int set) \<Rightarrow> bool" where
  "nmc_device hw base enabled \<longleftrightarrow>
     (\<forall>v d. enabled (hw_write32 hw v (base + 0x28) d) = enabled d \<union> bank_lines 0 v) \<and>
     (\<forall>v d. enabled (hw_write32 hw v (base + 0x128) d) = enabled d \<union> bank_lines 1 v) \<and>
     (\<forall>v d. enabled (hw_write32 hw v (base + 0x30) d) = enabled d - bank_lines 0 v) \<and>
     (\<forall>v d. enabled (hw_write32 hw v (base + 0x130) d) = enabled d - bank_lines 1 v)"

lemma nmc_configure_lines:
  assumes dev: "nmc_device hw base enabled" and c: "nmc_intc_configure hw base i flags on d = Some d'"
    and i: "0 \<le> i" "i < 2 ^ 31"
  shows "enabled d' = (if i \<in> {0..63} then (if on then insert i (enabled d) else enabled d - {i}) else enabled d)"
proof -
  have u: "unat (of_int j :: u32) = nat j" if "0 \<le> j" "j < 2 ^ 31" for j
    using that by (simp add: unat_eq_nat_uint uint_word_of_int)
  note regs = iowrite32_def INTC_IMRL_SET_def INTC_IMRL_CLR_def INTC_IMRH_SET_def INTC_IMRH_CLR_def
  consider "i < 32" | "32 \<le> i" "i < 64" | "64 \<le> i" by linarith
  then show ?thesis
  proof cases
    case 1
    then have "bank_lines 0 (BIT (nat i)) = {i}" using i by (subst bank_lines_BIT) auto
    then show ?thesis using c 1 i dev
      by (cases on) (auto simp: nmc_intc_configure_def Let_def regs nmc_device_def u)
  next
    case 2
    then have "bank_lines 1 (BIT (nat (i - 32))) = {i}" by (subst bank_lines_BIT) auto
    then show ?thesis using c 2 i dev
      by (cases on) (auto simp: nmc_intc_configure_def Let_def regs nmc_device_def u [of "i - 32", simplified])
  next
    case 3
    have "BIT (nat (i - 32)) = 0" using 3 by (intro BIT_beyond) simp
    then show ?thesis using c 3 i dev
      by (cases on) (auto simp: nmc_intc_configure_def Let_def regs nmc_device_def u [of "i - 32", simplified] bank_lines_0)
  qed
qed

lemma nmc_irq_lines: "nmc_device hw base enabled \<Longrightarrow> irq_lines (nmc_irq_ctl hw base) enabled {0..63}"
  by unfold_locales (simp_all add: nmc_irq_ctl_def nmc_configure_lines)

section \<open>Properties\<close>

text \<open>C19: The interrupt subsystem keeps its state well formed and its context balanced, whatever code
  uses it. For every program over the interface and the device, with every interrupt handler again
  such a program that may take interrupts itself to any depth: the depth counter and the current
  type of interrupt are what they were before; tables keep their size and stay inside the heap
  without overlapping; the active table is a valid one or none; the controllers fill the array
  from the front.\<close>

theorem irq_programs_keep_invariant:
  assumes "irq_ok nirqs s" "run_prog prog xprog nirqs k cs s = Some s'"
  shows "irq_ok nirqs s' \<and> rumboot_irq_get_context s' = rumboot_irq_get_context s \<and>
    rumboot_irq_current_type s' = rumboot_irq_current_type s"
  using run_prog_ok [OF assms(2,1)] run_prog_context [OF assms(2)]
  by (simp add: same_context_def rumboot_irq_get_context_def rumboot_irq_current_type_def)

text \<open>C20: A registered handler runs. After \<open>rumboot_irq_set_handler\<close> on a table and the activation of that
  table, dispatching an interrupt (here one without a controller) on that line calls exactly the
  handler that was registered, with the line and the argument that was given, one level deeper. When
  it has returned, in a state \<open>s3\<close> with the tables untouched, the dispatch leaves exactly what the
  handler left, \<open>s3\<close>, with the count of the line one higher and depth and type restored.\<close>

theorem registered_handler_runs:
  assumes set: "rumboot_irq_set_handler nirqs tbl irq flags (Some h) arg s = Some s1" "tbl \<noteq> 0"
    and act: "rumboot_irq_table_activate nirqs tbl s1 = Some s2"
    and ctl: "rumboot_irq_controller_by_id (sint ctrl) s2 = Some ctl"
    and run: "call h irq arg (s2\<lparr>irq_context_counter := irq_context_counter s2 + 1, irq_type := RUMBOOT_IRQ_TYPE_SOFT\<rparr>)
      = Some s3"
    and quiet: "irq_tables s3 = irq_tables s2" "irq_handler_table s3 = tbl"
      "irq_context_counter s3 = irq_context_counter s2 + 1"
  shows "\<exists>s4 c. rumboot_irq_core_dispatch call xcall nirqs ctrl 3 irq s2 = Some s4 \<and>
    s4 = s3\<lparr>irq_tables := irq_tables s4, irq_context_counter := irq_context_counter s2, irq_type := irq_type s2\<rparr> \<and>
    (\<forall>t j. (t, j) \<noteq> (tbl, irq) \<longrightarrow> irq_entry_at t j s4 = irq_entry_at t j s3) \<and>
    rumboot_irq_get_count nirqs irq s2 = Some c \<and> rumboot_irq_get_count nirqs irq s4 = Some (c + 1)"
proof -
  obtain e where e: "irq_entry_at tbl irq s1 = Some e" "ie_handler e = Some h" "ie_arg e = arg"
    and i: "0 \<le> irq" "irq \<le> int nirqs - 1"
  proof -
    obtain ctl0 e0 where "rumboot_irq_controller_by_irq irq s = Some ctl0" and u: "irq \<le> int nirqs - 1" "0 \<le> irq"
      "irq_entry_set tbl irq (e0\<lparr>ie_handler := Some h, ie_arg := arg, ie_flags := flags,
                       ie_priority := ctl_priority_default ctl0\<rparr>) s = Some s1"
      by (rule set_handlerE [OF set]) metis
    then show ?thesis using entry_at_set(1) [OF u(3)] that by simp
  qed
  have "activate_loop tbl nirqs 0 (s1\<lparr>irq_handler_table := tbl\<rparr>) = Some s2"
    using act set(2) by (simp add: rumboot_irq_table_activate_def)
  note act' = activate_vectors [OF this, of tbl irq] activate_loop_keeps [OF this]
  obtain e2 where e2: "irq_entry_at tbl irq s2 = Some e2" "ie_handler e2 = Some h" "ie_arg e2 = arg"
    using act'(1) e by (auto simp: same_vectors_def irq_entry_at_def split: option.splits if_splits)
  have tbl2: "irq_handler_table s2 = tbl" using act'(2) by (simp add: irq_keeps_def)
  define s0 where "s0 = s2\<lparr>irq_context_counter := irq_context_counter s2 + 1, irq_type := RUMBOOT_IRQ_TYPE_SOFT\<rparr>"
  have s0: "rumboot_irq_table_get s0 = tbl" "irq_entry_at tbl irq s0 = Some e2"
    using tbl2 e2(1) by (simp_all add: s0_def rumboot_irq_table_get_def irq_entry_at_def)
  have e3: "irq_entry_at tbl irq s3 = Some e2" using e2(1) quiet(1) by (simp add: irq_entry_at_def)
  obtain s4 where s4: "irq_entry_set tbl irq (e2\<lparr>ie_count := ie_count e2 + 1\<rparr>) s3 = Some s4"
    using entry_set_defined [OF e3] by blast
  have chk: "check_irq_id nirqs irq" using i by (simp add: check_irq_id_def)
  have p: "process_irq call nirqs irq s0 = Some s4"
    unfolding process_irq_def Let_def s0 using set(2) chk run e2 e3 s4 by (simp add: s0_def)
  define s5 where "s5 = s4\<lparr>irq_type := irq_type s2, irq_context_counter := irq_context_counter s4 - 1\<rparr>"
  have t: "sint (3 :: u32) = RUMBOOT_IRQ_TYPE_SOFT" "RUMBOOT_IRQ_TYPE_SOFT \<noteq> RUMBOOT_IRQ_TYPE_NORMAL"
    by (simp_all add: RUMBOOT_IRQ_TYPE_SOFT_def RUMBOOT_IRQ_TYPE_NORMAL_def)
  have "rumboot_irq_core_dispatch call xcall nirqs ctrl 3 irq s2 = Some s5"
    unfolding rumboot_irq_core_dispatch_def ctl option.case Let_def irq_serve_def t s0_def [symmetric] using t(2) p
    by (simp add: s5_def)
  moreover have "rumboot_irq_get_count nirqs irq s2 = Some (ie_count e2)"
    using chk tbl2 e2(1) set(2) by (simp add: rumboot_irq_get_count_def rumboot_irq_table_get_def)
  moreover have "rumboot_irq_get_count nirqs irq s5 = Some (ie_count e2 + 1)"
    using chk entry_at_set [OF s4] quiet(2) set(2)
    by (simp add: rumboot_irq_get_count_def rumboot_irq_table_get_def s5_def irq_entry_at_def)
  moreover have "s4 = s3\<lparr>irq_tables := irq_tables s4\<rparr>"
    using s4 by (auto simp: irq_entry_set_def split: option.splits if_splits)
  then have "s5 = s3\<lparr>irq_tables := irq_tables s5, irq_context_counter := irq_context_counter s2, irq_type := irq_type s2\<rparr>"
    using quiet(3) unfolding s5_def by (cases s3, cases s4) simp
  moreover have "irq_entry_at t j s5 = irq_entry_at t j s3" if "(t, j) \<noteq> (tbl, irq)" for t j
  proof -
    have "irq_entry_at t j s4 = irq_entry_at t j s3"
      using s4 that by (auto simp: irq_entry_set_def irq_entry_at_def split: option.splits if_splits)
    then show ?thesis by (simp add: s5_def irq_entry_at_def)
  qed
  ultimately show ?thesis by blast
qed

text \<open>Priorities stay in range. \<open>rumboot_irq_priority_adjust\<close> returns the old priority and stores the wished
  one, or the controller's default for 0, moved into the range of the controller; the
  controller is told, with the line relative to its first, exactly when the table is the active one.\<close>

theorem priority_adjust_clamps:
  assumes "rumboot_irq_priority_adjust tbl irq p s = Some (old, s')" "tbl \<noteq> 0"
    "rumboot_irq_controller_by_irq irq s = Some ctl" "ctl_priority_min ctl \<le> ctl_priority_max ctl"
  shows "rumboot_irq_priority_get tbl irq s = Some old \<and>
    (\<exists>q. rumboot_irq_priority_get tbl irq s' = Some q \<and> ctl_priority_min ctl \<le> q \<and> q \<le> ctl_priority_max ctl \<and>
      (let w = (if p = 0 then ctl_priority_default ctl else p)
       in (ctl_priority_min ctl \<le> w \<and> w \<le> ctl_priority_max ctl \<longrightarrow> q = w) \<and>
          (w < ctl_priority_min ctl \<longrightarrow> q = ctl_priority_min ctl) \<and>
          (ctl_priority_max ctl < w \<longrightarrow> q = ctl_priority_max ctl)) \<and>
      Some (irq_dev s') = (if tbl = irq_handler_table s
         then (case ctl_adjust_priority ctl of None \<Rightarrow> Some (irq_dev s)
               | Some adjust \<Rightarrow> adjust (irq - ctl_first ctl) q (irq_dev s)) else Some (irq_dev s)))"
proof -
  obtain t ctl' es d where a: "rumboot_irq_table_fetch tbl s = Some t" "rumboot_irq_controller_by_irq irq s = Some ctl'"
    "irq_tables s t = Some es" "0 \<le> irq" "nat irq < length es" "old = ie_priority (es ! nat irq)"
    "s' = s\<lparr>irq_tables := (irq_tables s)(t \<mapsto> es[nat irq := (es ! nat irq)\<lparr>ie_priority := clamp_priority ctl' p\<rparr>]),
           irq_dev := d\<rparr>"
    "if t = rumboot_irq_table_get s \<and> ctl_adjust_priority ctl' \<noteq> None
     then the (ctl_adjust_priority ctl') (irq - ctl_first ctl') (clamp_priority ctl' p) (irq_dev s) = Some d
     else d = irq_dev s"
    by (rule adjustE [OF assms(1)])
  have t: "t = tbl" "ctl' = ctl" using a(1,2) assms(2,3) by (simp_all add: rumboot_irq_table_fetch_def Let_def)
  have "rumboot_irq_priority_get tbl irq s = Some old" "rumboot_irq_priority_get tbl irq s' = Some (clamp_priority ctl p)"
    using a t by (simp_all add: rumboot_irq_priority_get_def irq_entry_at_def)
  moreover have "Some (irq_dev s') = (if tbl = irq_handler_table s
         then (case ctl_adjust_priority ctl of None \<Rightarrow> Some (irq_dev s)
               | Some adjust \<Rightarrow> adjust (irq - ctl_first ctl) (clamp_priority ctl p) (irq_dev s)) else Some (irq_dev s))"
    using a(7,8) t by (cases "ctl_adjust_priority ctl") (auto simp: rumboot_irq_table_get_def)
  ultimately show ?thesis using assms(4)
    by (intro conjI exI [of _ "clamp_priority ctl p"]) (auto simp: clamp_priority_def Let_def)
qed

text \<open>A new table is a copy that shares nothing. \<open>rumboot_irq_create\<close> returns the address of memory that no
  table occupies, filled from the table it was given, or the active one, or cleared; every table that
  existed is as before, and setting a handler in the new one changes no other.\<close>

theorem created_table_is_independent:
  assumes "irq_ok nirqs s" "rumboot_irq_create nirqs copyfrom s = Some (t, s1)"
  shows "t \<noteq> 0 \<and> irq_tables s t = None \<and>
    irq_tables s1 t = Some (if copyfrom \<noteq> 0 then the (irq_tables s copyfrom)
      else if irq_handler_table s \<noteq> 0 then the (irq_tables s (irq_handler_table s))
      else replicate (nirqs + 1) cleared_entry) \<and>
    (\<forall>u s2 irq flags h arg. rumboot_irq_set_handler nirqs t irq flags h arg s1 = Some s2 \<longrightarrow> u \<noteq> t \<longrightarrow>
       irq_tables s1 u = irq_tables s u \<and> irq_tables s2 u = irq_tables s u)"
proof -
  obtain es rt where c: "t \<noteq> 0" "irq_tables s t = None"
    "es = (if copyfrom \<noteq> 0 then the (irq_tables s copyfrom)
           else if irq_handler_table s \<noteq> 0 then the (irq_tables s (irq_handler_table s))
           else replicate (nirqs + 1) cleared_entry)"
    "s1 = s\<lparr>irq_heaps := rt, irq_tables := (irq_tables s)(t \<mapsto> es)\<rparr>"
    by (rule createE [OF assms(2,1)])
  have "irq_tables s2 u = irq_tables s1 u"
    if "rumboot_irq_set_handler nirqs t irq flags h arg s1 = Some s2" "u \<noteq> t" for u s2 irq flags h arg
  proof -
    have "\<exists>e. irq_entry_set t irq e s1 = Some s2" by (rule set_handlerE [OF that(1) c(1)]) blast
    then show ?thesis using that(2) by (auto simp: irq_entry_set_def split: option.splits if_splits)
  qed
  moreover have "irq_tables s1 t = Some es" "\<And>u. u \<noteq> t \<Longrightarrow> irq_tables s1 u = irq_tables s u"
    by (simp_all add: c(4))
  ultimately show ?thesis unfolding c(3) [symmetric] using c(1,2) by metis
qed

text \<open>Activating a table enables exactly the lines it has handlers for. With a GIC as the only
  controller, whose set-enable and clear-enable registers behave as documented, the lines that are
  enabled after the activation of a table are those that were before and the lines from 16 to
  95 that have a handler in the table. Lines from 96 to 127, which the driver claims as its own,
  are never enabled.\<close>

theorem gic_activation_enables_lines:
  assumes "gic_device hw dist cpuif enabled" "irq_ctl_dev s = Some (gic_irq_ctl hw dist cpuif genswint) # rest"
    and "nirqs \<le> 128" "tbl \<noteq> 0" "rumboot_irq_table_activate nirqs tbl s = Some s'"
  shows "enabled (irq_dev s') = enabled (irq_dev s) \<union>
    {j. 16 \<le> j \<and> j \<le> 95 \<and> j < int nirqs \<and> (\<exists>e. irq_entry_at tbl j s = Some e \<and> ie_handler e \<noteq> None)}"
proof -
  let ?ctl = "gic_irq_ctl hw dist cpuif genswint"
  have c: "rumboot_irq_controller_by_irq j s = Some ?ctl" if "0 \<le> j" "j < int nirqs" for j
    using that assms(2,3) unfolding rumboot_irq_controller_by_irq_def
    by (subst controller_search.simps) (simp add: gic_irq_ctl_def)
  have f: "ctl_first ?ctl = 0" by (simp add: gic_irq_ctl_def)
  have n: "int nirqs \<le> 2 ^ 31" using assms(3) by simp
  have "enabled (irq_dev s') = enabled (irq_dev s) \<union>
      ({j. 0 \<le> j \<and> j < int nirqs \<and> (\<exists>e. irq_entry_at tbl j s = Some e \<and> ie_handler e \<noteq> None)} \<inter> {16..95})"
    by (rule irq_lines.table_activate_lines [OF gic_irq_lines [OF assms(1)] f c assms(4,5) n])
  then show ?thesis by auto
qed

section \<open>A small system\<close>

text \<open>One line and a second one, no hardware, a heap of 4096 bytes, and handlers named by numbers.\<close>

definition demo_irq_sys :: "(unit, nat) irq_sys" where
  "demo_irq_sys =
     \<lparr>irq_heaps = \<lparr>num_heaps = 1, heaps = [\<lparr>hp_start = 0x1000, hp_end = 0x2000, hp_pos = 0x1000,
         hp_save = 0x1000, hp_name = ''heap''\<rparr>]\<rparr>,
      irq_ctl_dev = [Some (dummy_irq_ctl\<lparr>ctl_priority_max := 15\<rparr>), None], num_irq_controllers = 1,
      irq_handler_table = 0, irq_def_hndlr = None, irq_def_arg = 0, irq_exception_hndlr = None,
      irq_context_counter = 0, irq_type = 0, irq_tables = (\<lambda>_. None), irq_dev = ()\<rparr>"

lemma demo_irq_ok: "irq_ok 2 demo_irq_sys"
  by (auto simp: irq_ok_def demo_irq_sys_def irq_heap_ok_def irq_tables_ok_def irq_table_size_def
      sizeof_irq_entry_def less_Suc_eq)

definition demo_table :: "(unit, nat) irq_sys" where
  "demo_table = demo_irq_sys\<lparr>irq_heaps := \<lparr>num_heaps = 1, heaps = [\<lparr>hp_start = 0x1000, hp_end = 0x2000,
       hp_pos = 0x103C, hp_save = 0x1000, hp_name = ''heap''\<rparr>]\<rparr>,
     irq_tables := [0x1000 \<mapsto> [cleared_entry, cleared_entry, cleared_entry]]\<rparr>"

lemma demo_create: "rumboot_irq_create 2 0 demo_irq_sys = Some (0x1000, demo_table)"
  by (simp add: rumboot_irq_create_def demo_irq_sys_def demo_table_def rumboot_irq_table_get_def rumboot_malloc_def
      rumboot_malloc_from_heap_def rumboot_malloc_from_heap_misaligned_def sizeof_irq_entry_def numeral_3_eq_3)

lemma demo_by_irq: "irq_ctl_dev s = irq_ctl_dev demo_irq_sys \<Longrightarrow> 0 \<le> i \<Longrightarrow> i \<le> 31 \<Longrightarrow>
    rumboot_irq_controller_by_irq i s = Some (dummy_irq_ctl\<lparr>ctl_priority_max := 15\<rparr>)"
  unfolding rumboot_irq_controller_by_irq_def
  by (subst controller_search.simps) (simp add: demo_irq_sys_def dummy_irq_ctl_def)

lemma created_table_is_independent_witness:
  "\<exists>t s1. rumboot_irq_create 2 0 demo_irq_sys = Some (t, s1) \<and> t \<noteq> 0 \<and> irq_tables demo_irq_sys t = None \<and>
    irq_tables s1 t = Some (replicate (2 + 1) cleared_entry)"
  using created_table_is_independent [OF demo_irq_ok demo_create] demo_create
  by (intro exI [of _ "0x1000"] exI [of _ demo_table]) (simp add: demo_irq_sys_def)

definition demo_entry :: "nat irq_entry" where
  "demo_entry = \<lparr>ie_handler = Some 7, ie_arg = 42, ie_flags = 0, ie_priority = 0, ie_count = 0\<rparr>"

definition demo_set :: "(unit, nat) irq_sys" where
  "demo_set = demo_table\<lparr>irq_tables := [0x1000 \<mapsto> [cleared_entry, demo_entry, cleared_entry]]\<rparr>"

definition demo_active :: "(unit, nat) irq_sys" where
  "demo_active = demo_set\<lparr>irq_handler_table := 0x1000\<rparr>"

lemma demo_set_handler: "rumboot_irq_set_handler 2 0x1000 1 0 (Some 7) 42 demo_table = Some demo_set"
  by (simp add: rumboot_irq_set_handler_def demo_by_irq demo_table_def demo_set_def irq_entry_at_def irq_entry_set_def
      demo_entry_def cleared_entry_def dummy_irq_ctl_def)

lemma demo_adjust: "rumboot_irq_priority_adjust 0x1000 1 p demo_active =
    Some (0, demo_active\<lparr>irq_tables := [0x1000 \<mapsto> [cleared_entry, demo_entry\<lparr>ie_priority := max 0 (min 15 p)\<rparr>, cleared_entry]]\<rparr>)"
  by (auto simp: rumboot_irq_priority_adjust_def demo_by_irq demo_table_def demo_set_def demo_active_def irq_entry_at_def
      irq_entry_set_def demo_entry_def dummy_irq_ctl_def rumboot_irq_table_fetch_def rumboot_irq_table_get_def Let_def)

lemma demo_enable: "rumboot_irq_enable 1 demo_active = Some demo_active"
proof -
  have f: "rumboot_irq_table_fetch 0 demo_active = Some 0x1000"
    "rumboot_irq_controller_by_irq 1 demo_active = Some (dummy_irq_ctl\<lparr>ctl_priority_max := 15\<rparr>)"
    "irq_entry_at 0x1000 1 demo_active = Some demo_entry"
    by (simp_all add: rumboot_irq_table_fetch_def rumboot_irq_table_get_def demo_active_def demo_set_def
        demo_table_def demo_by_irq irq_entry_at_def)
  have c: "ctl_configure (dummy_irq_ctl\<lparr>ctl_priority_max := 15\<rparr>) i fl True d = Some d" for i fl d
    by (simp add: dummy_irq_ctl_def dummy_configure_def)
  have d: "demo_active\<lparr>irq_dev := x\<rparr> = demo_active" for x by simp
  show ?thesis
    unfolding rumboot_irq_enable_def f prod.case option.case c d demo_adjust
    by (simp add: demo_active_def demo_set_def demo_entry_def)
qed

lemma demo_activate: "rumboot_irq_table_activate 2 0x1000 demo_set = Some demo_active"
proof -
  have "irq_entry_at 0x1000 0 demo_active = Some cleared_entry" "irq_entry_at 0x1000 1 demo_active = Some demo_entry"
    by (simp_all add: demo_active_def demo_set_def demo_table_def irq_entry_at_def)
  then show ?thesis
    by (simp add: rumboot_irq_table_activate_def numeral_2_eq_2 demo_enable cleared_entry_def demo_entry_def
        flip: demo_active_def)
qed

lemma registered_handler_runs_witness:
  "\<exists>s4 c. rumboot_irq_core_dispatch (\<lambda>h num arg s. Some (s\<lparr>irq_def_arg := arg + of_int num + of_nat h\<rparr>))
      (\<lambda>_ _ _ s. Some s) 2 0 3 1 demo_active = Some s4 \<and> irq_def_arg s4 = 50 \<and>
    rumboot_irq_get_count 2 1 demo_active = Some c \<and> rumboot_irq_get_count 2 1 s4 = Some (c + 1) \<and>
    irq_context_counter s4 = irq_context_counter demo_active \<and> irq_type s4 = irq_type demo_active"
proof -
  let ?call = "\<lambda>(h :: nat) (num :: int) (arg :: u32) (s :: (unit, nat) irq_sys). Some (s\<lparr>irq_def_arg := arg + of_int num + of_nat h\<rparr>)"
  let ?s3 = "demo_active\<lparr>irq_context_counter := irq_context_counter demo_active + 1, irq_type := RUMBOOT_IRQ_TYPE_SOFT,
    irq_def_arg := 50\<rparr>"
  have "\<exists>s4 c. rumboot_irq_core_dispatch ?call (\<lambda>_ _ _ s. Some s) 2 0 3 1 demo_active = Some s4 \<and>
    s4 = ?s3\<lparr>irq_tables := irq_tables s4, irq_context_counter := irq_context_counter demo_active, irq_type := irq_type demo_active\<rparr> \<and>
    (\<forall>t j. (t, j) \<noteq> (0x1000, 1) \<longrightarrow> irq_entry_at t j s4 = irq_entry_at t j ?s3) \<and>
    rumboot_irq_get_count 2 1 demo_active = Some c \<and> rumboot_irq_get_count 2 1 s4 = Some (c + 1)"
    by (rule registered_handler_runs [OF demo_set_handler _ demo_activate])
       (simp_all add: demo_active_def demo_set_def demo_table_def demo_irq_sys_def rumboot_irq_controller_by_id_def)
  then obtain s4 c where d: "rumboot_irq_core_dispatch ?call (\<lambda>_ _ _ s. Some s) 2 0 3 1 demo_active = Some s4"
    and e: "s4 = ?s3\<lparr>irq_tables := irq_tables s4, irq_context_counter := irq_context_counter demo_active, irq_type := irq_type demo_active\<rparr>"
    and c: "rumboot_irq_get_count 2 1 demo_active = Some c" "rumboot_irq_get_count 2 1 s4 = Some (c + 1)"
    by blast
  have "irq_def_arg s4 = 50" "irq_context_counter s4 = irq_context_counter demo_active" "irq_type s4 = irq_type demo_active"
    by (subst e, simp)+
  then show ?thesis using d c by blast
qed

lemma priority_adjust_clamps_witness:
  "\<exists>old s'. rumboot_irq_priority_adjust 0x1000 1 20 demo_active = Some (old, s') \<and>
    rumboot_irq_priority_get 0x1000 1 s' = Some 15"
proof -
  have l: "rumboot_irq_controller_by_irq 1 demo_active = Some (dummy_irq_ctl\<lparr>ctl_priority_max := 15\<rparr>)"
    by (simp add: demo_by_irq demo_active_def demo_set_def demo_table_def)
  have "\<exists>q. rumboot_irq_priority_get 0x1000 1
      (demo_active\<lparr>irq_tables := [0x1000 \<mapsto> [cleared_entry, demo_entry\<lparr>ie_priority := max 0 (min 15 20)\<rparr>, cleared_entry]]\<rparr>) = Some q \<and> q = 15"
    using priority_adjust_clamps [OF demo_adjust [of 20] _ l] by (auto simp: dummy_irq_ctl_def Let_def)
  then show ?thesis using demo_adjust [of 20] by (intro exI conjI) auto
qed

text \<open>Create, register, activate, interrupt; the handler resets the count.\<close>

definition demo_prog :: "((unit, nat) irq_sys \<Rightarrow> (unit, nat) irq_call) list" where
  "demo_prog = [\<lambda>s. Call_create 0, \<lambda>s. Call_set_handler 0x1000 1 0 (Some 7) 42, \<lambda>s. Call_activate 0x1000,
     \<lambda>s. Call_dispatch 0 3 1]"

lemma demo_prog_runs: "\<exists>s'. run_prog (\<lambda>h num arg. [\<lambda>s. Call_reset_count 1]) (\<lambda>_ _ _. []) 2 2 demo_prog demo_irq_sys = Some s'"
proof -
  define call where "call = (\<lambda>(h :: nat) (num :: int) (arg :: u32). run_prog (\<lambda>(h :: nat) num arg. [\<lambda>s. Call_reset_count 1])
     (\<lambda>_ _ _. []) 2 1 [\<lambda>s. Call_reset_count 1 :: (unit, nat) irq_call])"
  define xcall where "xcall = (\<lambda>(h :: nat) (num :: int) (name :: string). run_prog (\<lambda>(h :: nat) num arg. [\<lambda>s. Call_reset_count 1])
     (\<lambda>_ _ _. []) 2 1 ([] :: ((unit, nat) irq_sys \<Rightarrow> (unit, nat) irq_call) list))"
  have r: "call h num arg s = rumboot_irq_reset_count 2 1 s" for h num arg s
    by (simp add: call_def do_call_def split: option.split)
  have "\<exists>s'. do_call call xcall 2 (Call_dispatch 0 3 1) demo_active = Some s'"
    by (auto simp: do_call_def rumboot_irq_core_dispatch_def rumboot_irq_controller_by_id_def irq_serve_def
        RUMBOOT_IRQ_TYPE_NORMAL_def RUMBOOT_IRQ_TYPE_SOFT_def process_irq_def check_irq_id_def rumboot_irq_table_get_def
        irq_entry_at_def irq_entry_set_def r rumboot_irq_reset_count_def demo_active_def demo_set_def demo_table_def
        demo_irq_sys_def demo_entry_def)
  then obtain s' where d: "do_call call xcall 2 (Call_dispatch 0 3 1) demo_active = Some s'" by blast
  have "do_calls call xcall 2 demo_prog demo_irq_sys = Some s'"
    unfolding demo_prog_def by (simp add: d do_call_def [of _ _ _ "Call_create _"] do_call_def [of _ _ _ "Call_set_handler _ _ _ _ _"]
        do_call_def [of _ _ _ "Call_activate _"] demo_create demo_set_handler demo_activate)
  then show ?thesis by (simp add: numeral_2_eq_2 call_def xcall_def One_nat_def)
qed

lemma irq_programs_keep_invariant_witness:
  "\<exists>s'. run_prog (\<lambda>h num arg. [\<lambda>s. Call_reset_count 1]) (\<lambda>_ _ _. []) 2 2 demo_prog demo_irq_sys = Some s' \<and>
     irq_ok 2 s' \<and> rumboot_irq_get_context s' = 0 \<and> rumboot_irq_current_type s' = 0"
proof -
  obtain s' where r: "run_prog (\<lambda>h num arg. [\<lambda>s. Call_reset_count 1]) (\<lambda>_ _ _. []) 2 2 demo_prog demo_irq_sys = Some s'"
    using demo_prog_runs by blast
  have "rumboot_irq_get_context demo_irq_sys = 0" "rumboot_irq_current_type demo_irq_sys = 0"
    by (simp_all add: rumboot_irq_get_context_def rumboot_irq_current_type_def demo_irq_sys_def)
  then show ?thesis using irq_programs_keep_invariant [OF demo_irq_ok r] r by auto
qed

text \<open>A GIC reduced to its set of enabled lines, with a handler for line 16.\<close>

definition demo_gic :: "int set hw" where
  "demo_gic = \<lparr>hw_read32 = (\<lambda>a E. (0, E)),
     hw_write32 = (\<lambda>v a E. if a = 0x1100 then E \<union> bank_lines 0 v else if a = 0x1104 then E \<union> bank_lines 1 v
       else if a = 0x1108 then E \<union> bank_lines 2 v else if a = 0x1180 then E - bank_lines 0 v
       else if a = 0x1184 then E - bank_lines 1 v else if a = 0x1188 then E - bank_lines 2 v else E),
     hw_uptime = (\<lambda>E. (0, E))\<rparr>"

definition demo_gic_sys :: "(int set, nat) irq_sys" where
  "demo_gic_sys =
     \<lparr>irq_heaps = \<lparr>num_heaps = 0, heaps = []\<rparr>, irq_ctl_dev = [Some (gic_irq_ctl demo_gic 0x1000 0x2000 0)],
      num_irq_controllers = 1, irq_handler_table = 0, irq_def_hndlr = None, irq_def_arg = 0, irq_exception_hndlr = None,
      irq_context_counter = 0, irq_type = 0, irq_tables = [0x3000 \<mapsto> replicate 16 cleared_entry @ [demo_entry, cleared_entry]],
      irq_dev = {20}\<rparr>"

lemma demo_gic_ok: "gic_device demo_gic 0x1000 0x2000 (\<lambda>E. E)"
  by (simp add: gic_device_def demo_gic_def)

lemma skip_cleared:
  assumes "\<And>j. i \<le> j \<Longrightarrow> j < i + int n \<Longrightarrow> irq_entry_at tbl j s = Some cleared_entry"
  shows "activate_loop tbl (n + k) i s = activate_loop tbl k (i + int n) s"
  using assms
proof (induction n arbitrary: i)
  case (Suc n)
  have "irq_entry_at tbl i s = Some cleared_entry" using Suc.prems by simp
  moreover have "i + 1 + int n = i + (1 + int n)" by simp
  moreover have "activate_loop tbl (n + k) (i + 1) s = activate_loop tbl k (i + 1 + int n) s"
    using Suc.prems by (intro Suc.IH) simp
  ultimately show ?case by (simp add: cleared_entry_def add.assoc)
qed simp

lemma demo_gic_activates: "\<exists>s'. rumboot_irq_table_activate 17 0x3000 demo_gic_sys = Some s'"
proof -
  let ?s = "demo_gic_sys\<lparr>irq_handler_table := 0x3000\<rparr>"
  have c: "irq_entry_at 0x3000 j ?s = Some cleared_entry" if "0 \<le> j" "j < 0 + int 16" for j
    using that by (simp add: irq_entry_at_def demo_gic_sys_def nth_append)
  have e: "irq_entry_at 0x3000 16 ?s = Some demo_entry"
    by (simp add: irq_entry_at_def demo_gic_sys_def nth_append)
  let ?c = "gic_irq_ctl demo_gic 0x1000 0x2000 0"
  have l: "rumboot_irq_controller_by_irq 16 (?s\<lparr>irq_dev := d\<rparr>) = Some ?c" for d
    unfolding rumboot_irq_controller_by_irq_def
    by (subst controller_search.simps) (simp add: demo_gic_sys_def gic_irq_ctl_def)
  have f: "rumboot_irq_table_fetch t (?s\<lparr>irq_dev := d\<rparr>) = Some 0x3000" if "t = 0 \<or> t = 0x3000" for t d
    using that by (auto simp: rumboot_irq_table_fetch_def rumboot_irq_table_get_def demo_gic_sys_def)
  have e': "irq_entry_at 0x3000 16 (?s\<lparr>irq_dev := d\<rparr>) = Some demo_entry" for d
    using e by (simp add: irq_entry_at_def)
  have w: "irq_entry_set 0x3000 16 x (?s\<lparr>irq_dev := d\<rparr>) \<noteq> None" for x d
    by (simp add: irq_entry_set_def demo_gic_sys_def)
  have n: "ctl_adjust_priority ?c = None" by (simp add: gic_irq_ctl_def)
  have a: "\<exists>r. rumboot_irq_priority_adjust 0x3000 16 p (?s\<lparr>irq_dev := d\<rparr>) = Some r" for p d
    unfolding rumboot_irq_priority_adjust_def l f [of "0x3000", simplified] prod.case option.case e' Let_def
    using w by (simp add: n gic_irq_ctl_def split: option.split)
  obtain d where d: "ctl_configure ?c (16 - ctl_first ?c) (ie_flags demo_entry) True (irq_dev ?s) = Some d"
    by (auto simp: gic_irq_ctl_def gic_configure_def Let_def)
  have "?s\<lparr>irq_dev := irq_dev ?s\<rparr> = ?s" by simp
  note s = l [of "irq_dev ?s", unfolded this] f [of 0 "irq_dev ?s", unfolded this, simplified]
  have "\<exists>s'. rumboot_irq_enable 16 ?s = Some s'"
    unfolding rumboot_irq_enable_def s prod.case option.case e d using a [of "ie_priority demo_entry" d] by auto
  then have "\<exists>s'. activate_loop 0x3000 1 16 ?s = Some s'" using e by (auto simp: demo_entry_def)
  then show ?thesis
    using skip_cleared [of 0 16 "0x3000" ?s 1, OF c] by (simp add: rumboot_irq_table_activate_def)
qed

lemma gic_activation_enables_lines_witness:
  "\<exists>s'. rumboot_irq_table_activate 17 0x3000 demo_gic_sys = Some s' \<and> 16 \<in> irq_dev s' \<and> 17 \<notin> irq_dev s'"
proof -
  obtain s' where a: "rumboot_irq_table_activate 17 0x3000 demo_gic_sys = Some s'" using demo_gic_activates by blast
  have "irq_dev s' = irq_dev demo_gic_sys \<union>
    {j. 16 \<le> j \<and> j \<le> 95 \<and> j < int 17 \<and> (\<exists>e. irq_entry_at 0x3000 j demo_gic_sys = Some e \<and> ie_handler e \<noteq> None)}"
    by (rule gic_activation_enables_lines [OF demo_gic_ok _ _ _ a, of 0 "[]"]) (simp_all add: demo_gic_sys_def)
  moreover have "irq_entry_at 0x3000 16 demo_gic_sys = Some demo_entry" "irq_dev demo_gic_sys = {20}"
    by (simp_all add: irq_entry_at_def demo_gic_sys_def nth_append)
  ultimately have "irq_dev s' = {20} \<union> {j. 16 \<le> j \<and> j \<le> 95 \<and> j < 17 \<and>
      (\<exists>e. irq_entry_at 0x3000 j demo_gic_sys = Some e \<and> ie_handler e \<noteq> None)}" by simp
  then show ?thesis using a \<open>irq_entry_at 0x3000 16 demo_gic_sys = Some demo_entry\<close> by (auto simp: demo_entry_def)
qed

end
