(* ===== verification/Sdio.thy ===== *)
theory Sdio
  imports Boot_Plugins
begin

text \<open>
  Booting from SD and MMC cards, \<open>src/lib/bootsrc/sdio.c\<close> and \<open>include/regs/regs_sdio.h\<close>. The
  controller copies blocks to memory by DMA, so its registers act on the whole world:
  \<open>hw :: 'd world hw\<close>. \<open>be\<close> is the byte order of the CPU; the big-endian targets are the PowerPC
  ones, which \<open>format_response\<close> distinguishes. \<open>v2d\<close> is \<open>rumboot_virt_to_dma\<close> of the platform. The
  private data lies at \<open>pdata\<close> with 32-bit pointers and enumerations. Messages are left out.
\<close>

section \<open>Registers\<close>

definition SDIO_INT_STATUS :: u32 where "SDIO_INT_STATUS = 0x308"
definition SPISDIO_ENABLE :: u32 where "SPISDIO_ENABLE = 0x300"
definition SPISDIO_SDIO_CLK_DIVIDE :: u32 where "SPISDIO_SDIO_CLK_DIVIDE = 0x304"
definition SPISDIO_SDIO_INT_MASKS :: u32 where "SPISDIO_SDIO_INT_MASKS = 0x30C"
definition SPISDIO_SPI_IRQMASKS :: u32 where "SPISDIO_SPI_IRQMASKS = 0x0D8"
definition SDIO_SDR_CARD_BLOCK_SET_REG :: u32 where "SDIO_SDR_CARD_BLOCK_SET_REG = 0x00"
definition SDIO_SDR_CTRL_REG :: u32 where "SDIO_SDR_CTRL_REG = 0x04"
definition SDIO_SDR_CMD_ARGUMENT_REG :: u32 where "SDIO_SDR_CMD_ARGUMENT_REG = 0x08"
definition SDIO_SDR_ADDRESS_REG :: u32 where "SDIO_SDR_ADDRESS_REG = 0x0C"
definition SDIO_SDR_ERROR_ENABLE_REG :: u32 where "SDIO_SDR_ERROR_ENABLE_REG = 0x14"
definition SDIO_SDR_RESPONSE1_REG :: u32 where "SDIO_SDR_RESPONSE1_REG = 0x18"
definition SDIO_SDR_RESPONSE2_REG :: u32 where "SDIO_SDR_RESPONSE2_REG = 0x1C"
definition SDIO_SDR_RESPONSE3_REG :: u32 where "SDIO_SDR_RESPONSE3_REG = 0x20"
definition SDIO_SDR_RESPONSE4_REG :: u32 where "SDIO_SDR_RESPONSE4_REG = 0x24"
definition SDIO_DCCR_0 :: u32 where "SDIO_DCCR_0 = 0x28"
definition SDIO_DCCR_1 :: u32 where "SDIO_DCCR_1 = 0x38"
definition SDIO_DCDSAR_1 :: u32 where "SDIO_DCDSAR_1 = 0x40"
definition SDIO_DCDTR_1 :: u32 where "SDIO_DCDTR_1 = 0x44"
definition SDIO_SDR_BUF_TRAN_RESP_REG :: u32 where "SDIO_SDR_BUF_TRAN_RESP_REG = 0x48"
definition SDIO_BUF_TRAN_CTRL_REG :: u32 where "SDIO_BUF_TRAN_CTRL_REG = 0x50"

definition SDIO_RESPONSE_NONE :: u32 where "SDIO_RESPONSE_NONE = 0"
definition SDIO_RESPONSE_R2 :: u32 where "SDIO_RESPONSE_R2 = 1"
definition SDIO_RESPONSE_R1367 :: u32 where "SDIO_RESPONSE_R1367 = 2"

definition SPISDIO_SDIO_INT_STATUS_CAR_ERR :: u32 where "SPISDIO_SDIO_INT_STATUS_CAR_ERR = 0x40"
definition SPISDIO_SDIO_INT_STATUS_CMD_DONE :: u32 where "SPISDIO_SDIO_INT_STATUS_CMD_DONE = 0x20"
definition SPISDIO_SDIO_INT_STATUS_TRAN_DONE :: u32 where "SPISDIO_SDIO_INT_STATUS_TRAN_DONE = 0x10"
definition SPISDIO_SDIO_INT_STATUS_BUF_FINISH :: u32 where "SPISDIO_SDIO_INT_STATUS_BUF_FINISH = 0x04"
definition SPISDIO_SDIO_INT_STATUS_CH1_FINISH :: u32 where "SPISDIO_SDIO_INT_STATUS_CH1_FINISH = 0x02"
definition SPISDIO_SDIO_INT_STATUS_CH0_FINISH :: u32 where "SPISDIO_SDIO_INT_STATUS_CH0_FINISH = 0x01"
definition SDR_TRAN_SDC_DAT_DONE :: u32 where "SDR_TRAN_SDC_DAT_DONE = 2"
definition SDR_TRAN_SDC_CMD_DONE :: u32 where "SDR_TRAN_SDC_CMD_DONE = 4"
definition SDR_TRAN_SDC_ERR :: u32 where "SDR_TRAN_SDC_ERR = 0x10"
definition DSSR_CHANNEL_TR_DONE :: u32 where "DSSR_CHANNEL_TR_DONE = 0x00080000"

definition BUFER_TRANS_START :: u32 where "BUFER_TRANS_START = 0x04"
definition DCDTR_1_VAL_512 :: u32 where "DCDTR_1_VAL_512 = 0x200"
definition DCCR_1_VAL :: u32 where "DCCR_1_VAL = 0x00020F01"
definition SDIO_TIMEOUT_US :: u32 where "SDIO_TIMEOUT_US = 80000000"
definition SDIO_ATTEMPTS_NUMBER :: nat where "SDIO_ATTEMPTS_NUMBER = 4"

lemmas sdio_regs = SDIO_INT_STATUS_def SPISDIO_ENABLE_def SPISDIO_SDIO_CLK_DIVIDE_def SPISDIO_SDIO_INT_MASKS_def
  SPISDIO_SPI_IRQMASKS_def SDIO_SDR_CARD_BLOCK_SET_REG_def SDIO_SDR_CTRL_REG_def SDIO_SDR_CMD_ARGUMENT_REG_def
  SDIO_SDR_ADDRESS_REG_def SDIO_SDR_ERROR_ENABLE_REG_def SDIO_SDR_RESPONSE1_REG_def SDIO_SDR_RESPONSE2_REG_def
  SDIO_SDR_RESPONSE3_REG_def SDIO_SDR_RESPONSE4_REG_def SDIO_DCCR_0_def SDIO_DCCR_1_def SDIO_DCDSAR_1_def
  SDIO_DCDTR_1_def SDIO_SDR_BUF_TRAN_RESP_REG_def SDIO_BUF_TRAN_CTRL_REG_def

section \<open>Data\<close>

text \<open>\<open>enum sd_card_type\<close>, kept in memory as a number.\<close>

definition SDIO_CARD_UNKNOWN :: u32 where "SDIO_CARD_UNKNOWN = 0"
definition SDIO_CARD_OLD :: u32 where "SDIO_CARD_OLD = 1"
definition SDIO_CARD_MMC :: u32 where "SDIO_CARD_MMC = 2"
definition SDIO_CARD_SDSC :: u32 where "SDIO_CARD_SDSC = 3"
definition SDIO_CARD_SDHC :: u32 where "SDIO_CARD_SDHC = 4"
definition SDIO_CARD_EMMC :: u32 where "SDIO_CARD_EMMC = 7"
definition SDIO_CARD_MAX :: u32 where "SDIO_CARD_MAX = 8"

text \<open>A null \<open>buf\<close> is 0.\<close>

record sdio_request =
  rq_cmd :: u32
  rq_resp :: u32
  rq_crc :: u32
  rq_idx :: u32
  rq_arg :: u32
  rq_cmd55_arg :: u32
  rq_buf :: u32
  rq_is_acmd :: bool
  rq_is_read :: bool
  rq_int_buf_num :: u32
  rq_data_lanes :: int

definition empty_request :: sdio_request where
  "empty_request = \<lparr>rq_cmd = 0, rq_resp = SDIO_RESPONSE_NONE, rq_crc = 0, rq_idx = 0, rq_arg = 0,
     rq_cmd55_arg = 0, rq_buf = 0, rq_is_acmd = False, rq_is_read = False, rq_int_buf_num = 0, rq_data_lanes = 0\<rparr>"

text \<open>Offsets in \<open>struct sdio_private_data\<close>, and of \<open>oid\<close> and \<open>pnm\<close> in \<open>struct sd_cid\<close>.\<close>

definition pd_cardtype :: u32 where "pd_cardtype = 4"
definition pd_ident :: u32 where "pd_ident = 8"
definition pd_ocr :: u32 where "pd_ocr = 24"
definition pd_cid :: u32 where "pd_cid = 28"
definition cid_oid :: u32 where "cid_oid = 1"
definition cid_pnm :: u32 where "cid_pnm = 3"
definition sizeof_sdio_private_data :: nat where "sizeof_sdio_private_data = 44"

section \<open>Requests\<close>

definition sdio_request_start :: "'d hw \<Rightarrow> u32 \<Rightarrow> sdio_request \<Rightarrow> 'd \<Rightarrow> 'd" where
  "sdio_request_start hw base rq d =
     (let lanes = (if rq_data_lanes rq = 4 then 1 else 0);
          cmd_ctrl = push_bit 16 (rq_cmd rq) OR push_bit 12 (rq_idx rq) OR push_bit 13 (rq_crc rq)
            OR push_bit 10 (rq_resp rq) OR push_bit 4 1 OR lanes;
          (cmd_ctrl, d) =
            (if rq_buf rq \<noteq> 0 then
               (let d = iowrite32 hw (push_bit 2 (rq_int_buf_num rq)) (base + SDIO_SDR_ADDRESS_REG) d;
                    d = iowrite32 hw (push_bit 8 1 OR 1) (base + SDIO_SDR_CARD_BLOCK_SET_REG) d
                in (cmd_ctrl OR push_bit 14 1 OR (if rq_is_read rq then push_bit 8 1 else 0), d))
             else (cmd_ctrl, d));
          d = iowrite32 hw (rq_arg rq) (base + SDIO_SDR_CMD_ARGUMENT_REG) d
      in iowrite32 hw cmd_ctrl (base + SDIO_SDR_CTRL_REG) d)"

text \<open>The status, with every event in it acknowledged.\<close>

definition sdio_ack :: "'d hw \<Rightarrow> u32 \<Rightarrow> u32 \<Rightarrow> u32 \<Rightarrow> u32 \<Rightarrow> 'd \<Rightarrow> 'd" where
  "sdio_ack hw status event v reg d = (if status AND event \<noteq> 0 then iowrite32 hw v reg d else d)"

definition sdio_get_events :: "'d hw \<Rightarrow> u32 \<Rightarrow> 'd \<Rightarrow> u32 \<times> 'd" where
  "sdio_get_events hw base d =
     (let (status, d) = ioread32 hw (base + SDIO_INT_STATUS) d;
          resp = base + SDIO_SDR_BUF_TRAN_RESP_REG;
          d = sdio_ack hw status SPISDIO_SDIO_INT_STATUS_CAR_ERR SDR_TRAN_SDC_ERR resp d;
          d = sdio_ack hw status SPISDIO_SDIO_INT_STATUS_CMD_DONE SDR_TRAN_SDC_CMD_DONE resp d;
          d = sdio_ack hw status SPISDIO_SDIO_INT_STATUS_CH0_FINISH DSSR_CHANNEL_TR_DONE (base + SDIO_DCCR_0) d;
          d = sdio_ack hw status SPISDIO_SDIO_INT_STATUS_CH1_FINISH DSSR_CHANNEL_TR_DONE (base + SDIO_DCCR_1) d;
          d = sdio_ack hw status SPISDIO_SDIO_INT_STATUS_BUF_FINISH 1 resp d
      in (status, sdio_ack hw status SPISDIO_SDIO_INT_STATUS_TRAN_DONE SDR_TRAN_SDC_DAT_DONE resp d))"

text \<open>The loop of \<open>wait\<close>.\<close>

partial_function (option) wait_loop :: "'d hw \<Rightarrow> u32 \<Rightarrow> u32 \<Rightarrow> u32 \<Rightarrow> u32 \<Rightarrow> 'd \<Rightarrow> (bool \<times> 'd) option" where
  "wait_loop hw base flag start status d =
     (let (tmp, d) = sdio_get_events hw base d; status = status OR tmp in
      if status AND SPISDIO_SDIO_INT_STATUS_CAR_ERR \<noteq> 0 then Some (False, d)
      else if status AND flag = flag then Some (True, d)
      else let (now, d) = rumboot_platform_get_uptime hw d in
        if now - start < SDIO_TIMEOUT_US then wait_loop hw base flag start status d else Some (False, d))"

definition sdio_wait :: "'d hw \<Rightarrow> u32 \<Rightarrow> u32 \<Rightarrow> 'd \<Rightarrow> (bool \<times> 'd) option" where
  "sdio_wait hw base flag d =
     (let (start, d) = rumboot_platform_get_uptime hw d in
      case wait_loop hw base flag start 0 d of
        None \<Rightarrow> None
      | Some (ret, d) \<Rightarrow>
          let (now, d) = rumboot_platform_get_uptime hw d in
          Some (if now - start > SDIO_TIMEOUT_US then False else ret, d))"

text \<open>\<open>sdio_request_execute\<close> behind its prelude for application commands.\<close>

definition sdio_request_run :: "(u32 \<Rightarrow> u32) \<Rightarrow> 'd hw \<Rightarrow> u32 \<Rightarrow> sdio_request \<Rightarrow> 'd \<Rightarrow> (bool \<times> 'd) option" where
  "sdio_request_run v2d hw base rq d =
     (case sdio_wait hw base SPISDIO_SDIO_INT_STATUS_CMD_DONE (sdio_request_start hw base rq d) of
        None \<Rightarrow> None
      | Some (ret, d) \<Rightarrow>
          if rq_buf rq = 0 \<or> \<not> ret then Some (ret, d)
          else
            case sdio_wait hw base SPISDIO_SDIO_INT_STATUS_TRAN_DONE d of
              None \<Rightarrow> None
            | Some (_, d) \<Rightarrow>
                let d = iowrite32 hw (BUFER_TRANS_START OR rq_int_buf_num rq) (base + SDIO_BUF_TRAN_CTRL_REG) d;
                    d = iowrite32 hw DCDTR_1_VAL_512 (base + SDIO_DCDTR_1) d;
                    d = iowrite32 hw (v2d (rq_buf rq)) (base + SDIO_DCDSAR_1) d;
                    d = iowrite32 hw DCCR_1_VAL (base + SDIO_DCCR_1) d
                in sdio_wait hw base (SPISDIO_SDIO_INT_STATUS_CH1_FINISH OR SPISDIO_SDIO_INT_STATUS_BUF_FINISH) d)"

definition card_start_acmd :: "(u32 \<Rightarrow> u32) \<Rightarrow> 'd hw \<Rightarrow> u32 \<Rightarrow> u32 \<Rightarrow> 'd \<Rightarrow> (bool \<times> 'd) option" where
  "card_start_acmd v2d hw base arg d =
     sdio_request_run v2d hw base
       (empty_request\<lparr>rq_cmd := 55, rq_resp := SDIO_RESPONSE_NONE, rq_crc := 1, rq_idx := 1, rq_arg := arg\<rparr>) d"

definition sdio_request_execute :: "(u32 \<Rightarrow> u32) \<Rightarrow> 'd hw \<Rightarrow> u32 \<Rightarrow> sdio_request \<Rightarrow> 'd \<Rightarrow> (bool \<times> 'd) option" where
  "sdio_request_execute v2d hw base rq d =
     (if rq_is_acmd rq then
        (case card_start_acmd v2d hw base (rq_cmd55_arg rq) d of
           None \<Rightarrow> None
         | Some (ok, d) \<Rightarrow> if \<not> ok then Some (False, d) else sdio_request_run v2d hw base rq d)
      else sdio_request_run v2d hw base rq d)"

definition card_reset :: "(u32 \<Rightarrow> u32) \<Rightarrow> 'd hw \<Rightarrow> u32 \<Rightarrow> 'd \<Rightarrow> (bool \<times> 'd) option" where
  "card_reset v2d hw base d =
     (case sdio_request_execute v2d hw base empty_request d of
        None \<Rightarrow> None
      | Some (_, d) \<Rightarrow> sdio_request_execute v2d hw base empty_request d)"

section \<open>Cards\<close>

definition pd_load :: "bool \<Rightarrow> u32 \<Rightarrow> 'd world \<Rightarrow> u32" where "pd_load be a w = load32 be (w_mem w) a"

definition pd_store :: "bool \<Rightarrow> u32 \<Rightarrow> u32 \<Rightarrow> 'd world \<Rightarrow> 'd world" where
  "pd_store be a v w = w\<lparr>w_mem := store32 be a v (w_mem w)\<rparr>"

definition isprintable :: "u8 \<Rightarrow> bool" where
  "isprintable c \<longleftrightarrow> 0x41 \<le> c \<and> c \<le> 0x5A \<or> 0x61 \<le> c \<and> c \<le> 0x7A \<or> 0x21 \<le> c \<and> c \<le> 0x3F"

definition parse_cid :: "u32 \<Rightarrow> 'd world \<Rightarrow> 'd world" where
  "parse_cid pdata w =
     (let oid = mem_read (w_mem w) (pdata + pd_cid + cid_oid) 2; pnm = mem_read (w_mem w) (pdata + pd_cid + cid_pnm) 5
      in w\<lparr>w_mem := mem_write (w_mem w) (pdata + pd_ident)
             (filter isprintable oid @ [0x20] @ filter isprintable pnm @ [0])\<rparr>)"

definition calc_div :: "u32 \<Rightarrow> u32 \<Rightarrow> u32" where
  "calc_div freq_base_khz freq_sdio_khz = (freq_base_khz * 1000) div 2 div (freq_sdio_khz * 1000) - 1"

definition format_response :: "bool \<Rightarrow> u32 \<Rightarrow> u32" where
  "format_response be x = (if be then x else swap32 x)"

text \<open>The four response words, stored in \<open>cid.regs\<close> from the last to the first.\<close>

definition read_response :: "bool \<Rightarrow> 'd world hw \<Rightarrow> u32 \<Rightarrow> u32 \<Rightarrow> u32 \<Rightarrow> u32 \<Rightarrow> 'd world \<Rightarrow> 'd world" where
  "read_response be hw base pdata i reg w =
     (let (v, w) = ioread32 hw (base + reg) w in pd_store be (pdata + pd_cid + 4 * i) (format_response be v) w)"

definition read_responses :: "bool \<Rightarrow> 'd world hw \<Rightarrow> u32 \<Rightarrow> u32 \<Rightarrow> 'd world \<Rightarrow> 'd world" where
  "read_responses be hw base pdata w =
     read_response be hw base pdata 0 SDIO_SDR_RESPONSE4_REG
       (read_response be hw base pdata 1 SDIO_SDR_RESPONSE3_REG
         (read_response be hw base pdata 2 SDIO_SDR_RESPONSE2_REG
           (read_response be hw base pdata 3 SDIO_SDR_RESPONSE1_REG w)))"

definition read_ocr :: "bool \<Rightarrow> 'd world hw \<Rightarrow> u32 \<Rightarrow> u32 \<Rightarrow> 'd world \<Rightarrow> 'd world" where
  "read_ocr be hw base pdata w =
     (let (v, w) = ioread32 hw (base + SDIO_SDR_RESPONSE1_REG) w in pd_store be (pdata + pd_ocr) v w)"

definition ocr_bit :: "bool \<Rightarrow> u32 \<Rightarrow> nat \<Rightarrow> 'd world \<Rightarrow> bool" where
  "ocr_bit be pdata i w \<longleftrightarrow> pd_load be (pdata + pd_ocr) w AND push_bit i 1 \<noteq> 0"

section \<open>Initialisation\<close>

fun init_sd_attempts ::
  "nat \<Rightarrow> bool \<Rightarrow> (u32 \<Rightarrow> u32) \<Rightarrow> 'd world hw \<Rightarrow> u32 \<Rightarrow> u32 \<Rightarrow> sdio_request \<Rightarrow> 'd world \<Rightarrow> (bool \<times> 'd world) option" where
  "init_sd_attempts 0 be v2d hw base pdata rq w = Some (False, w)"
| "init_sd_attempts (Suc n) be v2d hw base pdata rq w =
     (case sdio_request_execute v2d hw base rq w of
        None \<Rightarrow> None
      | Some (ok, w) \<Rightarrow>
          if \<not> ok then init_sd_attempts n be v2d hw base pdata rq w
          else
            let w = read_ocr be hw base pdata (read_responses be hw base pdata w) in
            if ocr_bit be pdata 31 w then Some (True, w)
            else (case mdelay hw 250 w of
                    None \<Rightarrow> None
                  | Some w \<Rightarrow> init_sd_attempts n be v2d hw base pdata rq w))"

definition card_init_sd ::
  "bool \<Rightarrow> (u32 \<Rightarrow> u32) \<Rightarrow> 'd world hw \<Rightarrow> u32 \<Rightarrow> u32 \<Rightarrow> 'd world \<Rightarrow> (bool \<times> 'd world) option" where
  "card_init_sd be v2d hw base pdata w =
     (let old = (pd_load be (pdata + pd_cardtype) w = SDIO_CARD_OLD);
          rq = empty_request\<lparr>rq_cmd := 41, rq_resp := SDIO_RESPONSE_R1367, rq_is_acmd := True, rq_crc := 1,
                 rq_idx := 1, rq_arg := (if old then 0x80ff8000 else 0x80ff8000 OR 0x40000000)\<rparr>
      in case init_sd_attempts SDIO_ATTEMPTS_NUMBER be v2d hw base pdata rq w of
           None \<Rightarrow> None
         | Some (initialized, w) \<Rightarrow>
             Some (initialized,
               if pd_load be (pdata + pd_cardtype) w \<noteq> SDIO_CARD_OLD
               then pd_store be (pdata + pd_cardtype)
                      (if ocr_bit be pdata 30 w then SDIO_CARD_SDHC else SDIO_CARD_SDSC) w
               else w))"

fun init_mmc_attempts ::
  "nat \<Rightarrow> bool \<Rightarrow> (u32 \<Rightarrow> u32) \<Rightarrow> 'd world hw \<Rightarrow> u32 \<Rightarrow> u32 \<Rightarrow> sdio_request \<Rightarrow> 'd world \<Rightarrow> (bool \<times> 'd world) option" where
  "init_mmc_attempts 0 be v2d hw base pdata rq w = Some (False, w)"
| "init_mmc_attempts (Suc n) be v2d hw base pdata rq w =
     (case sdio_request_execute v2d hw base rq w of
        None \<Rightarrow> None
      | Some (ok, w) \<Rightarrow>
          if \<not> ok then init_mmc_attempts n be v2d hw base pdata rq w
          else
            let w = read_ocr be hw base pdata w in
            if ocr_bit be pdata 31 w then
              Some (True, pd_store be (pdata + pd_cardtype)
                (if ocr_bit be pdata 30 w then SDIO_CARD_EMMC else SDIO_CARD_MMC) w)
            else (case mdelay hw 250 w of
                    None \<Rightarrow> None
                  | Some w \<Rightarrow> init_mmc_attempts n be v2d hw base pdata rq w))"

definition card_init_mmc ::
  "bool \<Rightarrow> (u32 \<Rightarrow> u32) \<Rightarrow> 'd world hw \<Rightarrow> u32 \<Rightarrow> u32 \<Rightarrow> 'd world \<Rightarrow> (bool \<times> 'd world) option" where
  "card_init_mmc be v2d hw base pdata w =
     init_mmc_attempts (SDIO_ATTEMPTS_NUMBER * 8) be v2d hw base pdata
       (empty_request\<lparr>rq_cmd := 1, rq_resp := SDIO_RESPONSE_R1367, rq_idx := 1, rq_arg := 0xc0ff8080\<rparr>) w"

text \<open>\<open>goto error\<close> when a step fails.\<close>

definition or_error :: "(bool \<times> 'w) option \<Rightarrow> ('w \<Rightarrow> (bool \<times> 'w) option) \<Rightarrow> (bool \<times> 'w) option" where
  "or_error r f = (case r of None \<Rightarrow> None | Some (ok, w) \<Rightarrow> if ok then f w else Some (False, w))"

text \<open>The hardware reset; the loop waits for its bit to fall.\<close>

partial_function (option) sdio_reset_wait :: "'d hw \<Rightarrow> u32 \<Rightarrow> 'd \<Rightarrow> 'd option" where
  "sdio_reset_wait hw base d =
     (let (v, d) = ioread32 hw (base + SDIO_SDR_CTRL_REG) d in
      if v AND push_bit 7 1 \<noteq> 0 then sdio_reset_wait hw base d else Some d)"

definition sdio_setup :: "'d hw \<Rightarrow> u32 \<Rightarrow> u32 \<Rightarrow> 'd \<Rightarrow> 'd option" where
  "sdio_setup hw base divl d =
     (let d = iowrite32 hw divl (base + SPISDIO_SDIO_CLK_DIVIDE) d;
          d = iowrite32 hw 1 (base + SPISDIO_ENABLE) d;
          d = iowrite32 hw (push_bit 7 1) (base + SDIO_SDR_CTRL_REG) d
      in case sdio_reset_wait hw base d of
           None \<Rightarrow> None
         | Some d \<Rightarrow>
             let d = iowrite32 hw 0x7F (base + SPISDIO_SDIO_INT_MASKS) d;
                 d = iowrite32 hw 0 (base + SPISDIO_SPI_IRQMASKS) d
             in Some (iowrite32 hw 0x16F (base + SDIO_SDR_ERROR_ENABLE_REG) d))"

text \<open>\<open>CMD8\<close>: what kind of card answers.\<close>

definition sdio_probe ::
  "bool \<Rightarrow> (u32 \<Rightarrow> u32) \<Rightarrow> 'd world hw \<Rightarrow> u32 \<Rightarrow> u32 \<Rightarrow> 'd world \<Rightarrow> 'd world option" where
  "sdio_probe be v2d hw base pdata w =
     (case sdio_request_execute v2d hw base
             (empty_request\<lparr>rq_cmd := 8, rq_arg := 0x1AA, rq_resp := SDIO_RESPONSE_R1367, rq_idx := 1, rq_crc := 1\<rparr>) w of
        None \<Rightarrow> None
      | Some (ok, w) \<Rightarrow>
          if \<not> ok then Some (pd_store be (pdata + pd_cardtype) SDIO_CARD_OLD w)
          else
            let (v, w) = ioread32 hw (base + SDIO_SDR_RESPONSE1_REG) w
            in Some (pd_store be (pdata + pd_cardtype) (if v \<noteq> 0x1AA then SDIO_CARD_OLD else SDIO_CARD_UNKNOWN) w))"

text \<open>\<open>CMD2\<close>, \<open>CMD3\<close>, \<open>CMD7\<close>, \<open>CMD16\<close> and \<open>ACMD6\<close>, which bring an initialised card to the transfer state.\<close>

definition sdio_cmd :: "u32 \<Rightarrow> u32 \<Rightarrow> u32 \<Rightarrow> sdio_request" where
  "sdio_cmd cmd resp arg = empty_request\<lparr>rq_cmd := cmd, rq_resp := resp, rq_idx := 1, rq_crc := 1, rq_arg := arg\<rparr>"

definition sdio_select ::
  "bool \<Rightarrow> (u32 \<Rightarrow> u32) \<Rightarrow> 'd world hw \<Rightarrow> u32 \<Rightarrow> u32 \<Rightarrow> 'd world \<Rightarrow> (bool \<times> 'd world) option" where
  "sdio_select be v2d hw base pdata w =
     or_error (sdio_request_execute v2d hw base (sdio_cmd 2 SDIO_RESPONSE_R2 0) w) (\<lambda>w.
       let w = parse_cid pdata (read_responses be hw base pdata w);
           w = (if pd_load be (pdata + pd_cardtype) w \<ge> SDIO_CARD_MAX
                then pd_store be (pdata + pd_cardtype) SDIO_CARD_UNKNOWN w else w)
       in or_error (sdio_request_execute v2d hw base (sdio_cmd 3 SDIO_RESPONSE_R1367 0) w) (\<lambda>w.
         let (rca, w) = ioread32 hw (base + SDIO_SDR_RESPONSE1_REG) w; rca = drop_bit 16 rca
         in or_error (sdio_request_execute v2d hw base (sdio_cmd 7 SDIO_RESPONSE_R1367 (push_bit 16 rca)) w) (\<lambda>w.
           or_error (sdio_request_execute v2d hw base (sdio_cmd 16 SDIO_RESPONSE_R1367 512) w) (\<lambda>w.
             if pd_load be (pdata + pd_cardtype) w \<noteq> SDIO_CARD_MMC then
               sdio_request_execute v2d hw base
                 ((sdio_cmd 6 SDIO_RESPONSE_R1367 2)\<lparr>rq_is_acmd := True, rq_cmd55_arg := push_bit 16 rca\<rparr>) w
             else Some (True, w)))))"

definition sdio_init ::
  "bool \<Rightarrow> (u32 \<Rightarrow> u32) \<Rightarrow> 'd world hw \<Rightarrow> 'd bootsource_cfg \<Rightarrow> u32 \<Rightarrow> 'd world \<Rightarrow> (bool \<times> 'd world) option" where
  "sdio_init be v2d hw src pdata w =
     (let base = bs_base src;
          divl = calc_div (bs_base_freq_khz src) 400;
          divh = calc_div (bs_base_freq_khz src) (bs_iface_freq_khz src)
      in case sdio_setup hw base divl w of
           None \<Rightarrow> None
         | Some w \<Rightarrow>
             map_option (\<lambda>(ok, w). if ok then (True, iowrite32 hw divh (base + SPISDIO_SDIO_CLK_DIVIDE) w)
                                   else (False, iowrite32 hw 0 (base + SPISDIO_ENABLE) w))
               (or_error (card_reset v2d hw base w) (\<lambda>w.
                  case sdio_probe be v2d hw base pdata w of
                    None \<Rightarrow> None
                  | Some w \<Rightarrow>
                      case card_init_sd be v2d hw base pdata w of
                        None \<Rightarrow> None
                      | Some (initialized, w) \<Rightarrow>
                          or_error (if initialized then Some (True, w)
                                    else or_error (card_reset v2d hw base w) (card_init_mmc be v2d hw base pdata))
                            (sdio_select be v2d hw base pdata))))"

definition sdio_deinit :: "(u32 \<Rightarrow> u32) \<Rightarrow> 'd world hw \<Rightarrow> 'd bootsource_cfg \<Rightarrow> u32 \<Rightarrow> 'd world \<Rightarrow> 'd world option" where
  "sdio_deinit v2d hw src pdata w =
     (case sdio_request_execute v2d hw (bs_base src) empty_request w of
        None \<Rightarrow> None
      | Some (_, w) \<Rightarrow>
          let (reg, w) = ioread32 hw (bs_base src + SPISDIO_ENABLE) w
          in Some (iowrite32 hw (reg AND NOT (push_bit 1 1)) (bs_base src + SPISDIO_ENABLE) w))"

section \<open>Reading\<close>

definition sd_read_block ::
  "bool \<Rightarrow> (u32 \<Rightarrow> u32) \<Rightarrow> 'd world hw \<Rightarrow> 'd bootsource_cfg \<Rightarrow> u32 \<Rightarrow> u32 \<Rightarrow> u64 \<Rightarrow> 'd world \<Rightarrow> (int \<times> 'd world) option" where
  "sd_read_block be v2d hw src pdata ram offset w =
     (if offset mod 512 \<noteq> 0 then Some (-1, w)
      else
        let cardtype = pd_load be (pdata + pd_cardtype) w;
            real_offset = (if cardtype = SDIO_CARD_SDHC then offset div 512 else offset);
            real_offset = (if cardtype = SDIO_CARD_EMMC then real_offset div 512 else real_offset);
            rq = empty_request\<lparr>rq_cmd := 17, rq_resp := SDIO_RESPONSE_R1367, rq_crc := 1, rq_idx := 1,
                   rq_arg := ucast real_offset, rq_buf := ram, rq_is_read := True,
                   rq_data_lanes := (if cardtype = SDIO_CARD_MMC \<or> cardtype = SDIO_CARD_EMMC then 1 else 4)\<rparr>
        in map_option (\<lambda>(ok, w). (if ok then 512 else -1, w)) (sdio_request_execute v2d hw (bs_base src) rq w))"

function sdio_read_loop ::
  "bool \<Rightarrow> (u32 \<Rightarrow> u32) \<Rightarrow> 'd world hw \<Rightarrow> 'd bootsource_cfg \<Rightarrow> u32 \<Rightarrow> u32 \<Rightarrow> u32 \<Rightarrow> u32 \<Rightarrow> u32 \<Rightarrow> 'd world
     \<Rightarrow> (u32 \<times> 'd world) option" where
  "sdio_read_loop be v2d hw src pdata to offset len count w =
     (if len = 0 then Some (count, w)
      else case sd_read_block be v2d hw src pdata to (ucast offset) w of
             None \<Rightarrow> None
           | Some (n, w) \<Rightarrow>
               if n \<noteq> 512 then Some (count, w)
               else sdio_read_loop be v2d hw src pdata (to + 512) (offset + 512)
                      (if len \<ge> 512 then len - 512 else 0) (count + 512) w)"
  by pat_completeness auto
termination
proof (relation "measure (\<lambda>(be, v2d, hw, src, pdata, to, offset, len, count, w). unat len)", simp_all, goal_cases)
  case (1 len)
  then show ?case by (auto simp: word_le_nat_alt unat_sub unat_gt_0)
qed

declare sdio_read_loop.simps [simp del]

definition sdio_read ::
  "bool \<Rightarrow> (u32 \<Rightarrow> u32) \<Rightarrow> 'd world hw \<Rightarrow> 'd bootsource_cfg \<Rightarrow> u32 \<Rightarrow> u32 \<Rightarrow> u32 \<Rightarrow> u32 \<Rightarrow> 'd world \<Rightarrow> (u32 \<times> 'd world) option"
where
  "sdio_read be v2d hw src pdata to offset len w = sdio_read_loop be v2d hw src pdata to offset len 0 w"

definition g_bootmodule_sdio :: "bool \<Rightarrow> (u32 \<Rightarrow> u32) \<Rightarrow> 'd world hw \<Rightarrow> 'd rumboot_bootmodule" where
  "g_bootmodule_sdio be v2d hw =
     \<lparr>bm_align = 512, bm_init = Some (sdio_init be v2d hw), bm_deinit = Some (sdio_deinit v2d hw),
      bm_read = sdio_read be v2d hw\<rparr>"

section \<open>What the controller may do to memory\<close>

text \<open>
  The hypothesis on the controller, for its channel to memory: the registers \<open>DCDSAR_1\<close> and
  \<open>DCDTR_1\<close> keep the DMA address and the length written to them. A write to \<open>DCCR_1\<close> other than
  the acknowledgement \<open>DSSR_CHANNEL_TR_DONE\<close> may start a transfer of that many bytes to that
  address, if none is running; nothing is said of a start during a transfer. While a transfer
  runs, memory may change within its buffer at any time, so at any access or reading of the
  clock. The transfer is over at the latest when the status reports \<open>CH1_FINISH\<close>; when none is
  running, nothing else changes memory. \<open>chan\<close> is the state of the channel in the device.
\<close>

record sd_chan =
  ch_dst :: u32
  ch_len :: u32
  ch_run :: "(u32 \<times> u32) option"

definition sd_within :: "(u32 \<Rightarrow> u32) \<Rightarrow> (u32 \<times> u32) option \<Rightarrow> mem \<Rightarrow> mem \<Rightarrow> bool" where
  "sd_within v2d run m m' \<longleftrightarrow>
     (case run of None \<Rightarrow> m' = m
      | Some (dst, len) \<Rightarrow> \<forall>buf x. v2d buf = dst \<longrightarrow> \<not> in_range x buf (unat len) \<longrightarrow> m' x = m x)"

text \<open>What may happen between two worlds besides the writes that program the channel.\<close>

definition sd_step :: "(u32 \<Rightarrow> u32) \<Rightarrow> ('d \<Rightarrow> sd_chan) \<Rightarrow> 'd world \<Rightarrow> 'd world \<Rightarrow> bool" where
  "sd_step v2d chan w w' \<longleftrightarrow>
     (let c = chan (w_dev w); c' = chan (w_dev w')
      in ch_dst c' = ch_dst c \<and> ch_len c' = ch_len c \<and> (ch_run c' = None \<or> ch_run c' = ch_run c) \<and>
         sd_within v2d (ch_run c) (w_mem w) (w_mem w'))"

definition sd_write :: "(u32 \<Rightarrow> u32) \<Rightarrow> ('d \<Rightarrow> sd_chan) \<Rightarrow> u32 \<Rightarrow> u32 \<Rightarrow> u32 \<Rightarrow> 'd world \<Rightarrow> 'd world \<Rightarrow> bool" where
  "sd_write v2d chan base v a w w' \<longleftrightarrow>
     (let c = chan (w_dev w); c' = chan (w_dev w')
      in ch_dst c' = (if a = base + SDIO_DCDSAR_1 then v else ch_dst c) \<and>
         ch_len c' = (if a = base + SDIO_DCDTR_1 then v else ch_len c) \<and>
         (if a = base + SDIO_DCCR_1 \<and> v \<noteq> DSSR_CHANNEL_TR_DONE then
            ch_run c = None \<longrightarrow>
              (ch_run c' = None \<or> ch_run c' = Some (ch_dst c, ch_len c)) \<and>
              sd_within v2d (Some (ch_dst c, ch_len c)) (w_mem w) (w_mem w')
          else (ch_run c' = None \<or> ch_run c' = ch_run c) \<and> sd_within v2d (ch_run c) (w_mem w) (w_mem w')))"

definition sd_device :: "(u32 \<Rightarrow> u32) \<Rightarrow> 'd world hw \<Rightarrow> u32 \<Rightarrow> ('d \<Rightarrow> sd_chan) \<Rightarrow> bool" where
  "sd_device v2d hw base chan \<longleftrightarrow>
     (\<forall>a w. sd_step v2d chan w (snd (hw_read32 hw a w))) \<and>
     (\<forall>w. fst (hw_read32 hw (base + SDIO_INT_STATUS) w) AND SPISDIO_SDIO_INT_STATUS_CH1_FINISH \<noteq> 0 \<longrightarrow>
        ch_run (chan (w_dev (snd (hw_read32 hw (base + SDIO_INT_STATUS) w)))) = None) \<and>
     (\<forall>w. sd_step v2d chan w (snd (hw_uptime hw w))) \<and>
     (\<forall>v a w. sd_write v2d chan base v a w (hw_write32 hw v a w))"

text \<open>No transfer is under way.\<close>

definition sd_idle :: "('d \<Rightarrow> sd_chan) \<Rightarrow> 'd world \<Rightarrow> bool" where
  "sd_idle chan w \<longleftrightarrow> ch_run (chan (w_dev w)) = None"

lemma sd_within_refl [simp]: "sd_within v2d run m m" by (cases run) (auto simp: sd_within_def)

lemma sd_step_refl [simp]: "sd_step v2d chan w w" by (simp add: sd_step_def)

lemma sd_step_trans: "sd_step v2d chan w w1 \<Longrightarrow> sd_step v2d chan w1 w2 \<Longrightarrow> sd_step v2d chan w w2"
  by (auto simp: sd_step_def sd_within_def Let_def split: option.splits)

lemma sd_step_idle:
  assumes "sd_step v2d chan w w'" "sd_idle chan w"
  shows "sd_idle chan w'" "w_mem w' = w_mem w"
  using assms by (auto simp: sd_step_def sd_idle_def sd_within_def Let_def)

lemma sd_read_step: "sd_device v2d hw base chan \<Longrightarrow> ioread32 hw a w = (v, w') \<Longrightarrow> sd_step v2d chan w w'"
  unfolding sd_device_def ioread32_def by (metis snd_conv)

lemma sd_read_finished:
  "sd_device v2d hw base chan \<Longrightarrow> ioread32 hw (base + SDIO_INT_STATUS) w = (v, w') \<Longrightarrow>
     v AND SPISDIO_SDIO_INT_STATUS_CH1_FINISH \<noteq> 0 \<Longrightarrow> sd_idle chan w'"
  unfolding sd_device_def ioread32_def sd_idle_def by (metis fst_conv snd_conv)

lemma sd_uptime_step:
  "sd_device v2d hw base chan \<Longrightarrow> rumboot_platform_get_uptime hw w = (v, w') \<Longrightarrow> sd_step v2d chan w w'"
  unfolding sd_device_def rumboot_platform_get_uptime_def by (metis snd_conv)

lemma sd_write_step:
  assumes "sd_device v2d hw base chan" "r \<noteq> SDIO_DCDSAR_1" "r \<noteq> SDIO_DCDTR_1"
    "r \<noteq> SDIO_DCCR_1 \<or> v = DSSR_CHANNEL_TR_DONE"
  shows "sd_step v2d chan w (iowrite32 hw v (base + r) w)"
proof -
  have "sd_write v2d chan base v (base + r) w (iowrite32 hw v (base + r) w)"
    using assms(1) by (simp add: sd_device_def iowrite32_def)
  then show ?thesis using assms(2-4) by (auto simp: sd_write_def sd_step_def Let_def split: if_splits)
qed

lemma sd_reg_other [simp]:
  "SDIO_SDR_BUF_TRAN_RESP_REG \<noteq> SDIO_DCDSAR_1" "SDIO_SDR_BUF_TRAN_RESP_REG \<noteq> SDIO_DCCR_1"
  "SDIO_SDR_BUF_TRAN_RESP_REG \<noteq> SDIO_DCDTR_1" "SDIO_BUF_TRAN_CTRL_REG \<noteq> SDIO_DCDSAR_1"
  "SDIO_BUF_TRAN_CTRL_REG \<noteq> SDIO_DCCR_1" "SDIO_BUF_TRAN_CTRL_REG \<noteq> SDIO_DCDTR_1"
  "SDIO_DCCR_0 \<noteq> SDIO_DCDSAR_1" "SDIO_DCCR_0 \<noteq> SDIO_DCCR_1" "SDIO_DCCR_0 \<noteq> SDIO_DCDTR_1"
  "SDIO_DCCR_1 \<noteq> SDIO_DCDSAR_1" "SDIO_DCCR_1 \<noteq> SDIO_DCDTR_1"
  "SDIO_DCDTR_1 \<noteq> SDIO_DCDSAR_1" "SDIO_DCDTR_1 \<noteq> SDIO_DCCR_1"
  "SDIO_DCDSAR_1 \<noteq> SDIO_DCDTR_1" "SDIO_DCDSAR_1 \<noteq> SDIO_DCCR_1"
  "SDIO_SDR_ADDRESS_REG \<noteq> SDIO_DCDSAR_1" "SDIO_SDR_ADDRESS_REG \<noteq> SDIO_DCCR_1" "SDIO_SDR_ADDRESS_REG \<noteq> SDIO_DCDTR_1"
  "SDIO_SDR_CARD_BLOCK_SET_REG \<noteq> SDIO_DCDSAR_1" "SDIO_SDR_CARD_BLOCK_SET_REG \<noteq> SDIO_DCCR_1"
  "SDIO_SDR_CARD_BLOCK_SET_REG \<noteq> SDIO_DCDTR_1"
  "SDIO_SDR_CMD_ARGUMENT_REG \<noteq> SDIO_DCDSAR_1" "SDIO_SDR_CMD_ARGUMENT_REG \<noteq> SDIO_DCCR_1"
  "SDIO_SDR_CMD_ARGUMENT_REG \<noteq> SDIO_DCDTR_1"
  "SDIO_SDR_CTRL_REG \<noteq> SDIO_DCDSAR_1" "SDIO_SDR_CTRL_REG \<noteq> SDIO_DCCR_1" "SDIO_SDR_CTRL_REG \<noteq> SDIO_DCDTR_1"
  "DCCR_1_VAL \<noteq> DSSR_CHANNEL_TR_DONE" "DSSR_CHANNEL_TR_DONE \<noteq> DCCR_1_VAL"
  by (simp_all add: sdio_regs DSSR_CHANNEL_TR_DONE_def DCCR_1_VAL_def)

lemma sd_events_step:
  assumes "sd_device v2d hw base chan" "sdio_get_events hw base w = (v, w')"
  shows "sd_step v2d chan w w'" "v AND SPISDIO_SDIO_INT_STATUS_CH1_FINISH \<noteq> 0 \<Longrightarrow> sd_idle chan w'"
proof -
  have b: "sd_step v2d chan w (sdio_ack hw st ev v (base + r) w1)"
    if "sd_step v2d chan w w1" "r \<noteq> SDIO_DCDSAR_1" "r \<noteq> SDIO_DCDTR_1" "r \<noteq> SDIO_DCCR_1 \<or> v = DSSR_CHANNEL_TR_DONE"
    for st ev v r w w1
    using sd_step_trans [OF that(1) sd_write_step [OF assms(1) that(2-4)]] that(1) by (simp add: sdio_ack_def)
  obtain st w1 where r: "ioread32 hw (base + SDIO_INT_STATUS) w = (st, w1)" by (cases "ioread32 hw (base + SDIO_INT_STATUS) w")
  note w' = assms(2) [unfolded sdio_get_events_def r Let_def prod.case prod.inject, THEN conjunct2, symmetric]
  have s: "sd_step v2d chan w1 w'" unfolding w' by (intro b sd_step_refl) simp_all
  show "sd_step v2d chan w w'" by (rule sd_step_trans [OF sd_read_step [OF assms(1) r] s])
  have "v = st" using assms(2) by (simp add: sdio_get_events_def r Let_def)
  then show "sd_idle chan w'" if "v AND SPISDIO_SDIO_INT_STATUS_CH1_FINISH \<noteq> 0"
    using sd_read_finished [OF assms(1) r] that sd_step_idle(1) [OF s] by simp
qed

text \<open>A wait for \<open>CH1_FINISH\<close> that succeeds leaves the channel idle.\<close>

definition sd_waited :: "(u32 \<Rightarrow> u32) \<Rightarrow> ('d \<Rightarrow> sd_chan) \<Rightarrow> u32 \<Rightarrow> u32 \<Rightarrow> 'd world \<Rightarrow> bool \<Rightarrow> 'd world \<Rightarrow> bool" where
  "sd_waited v2d chan flag status w ok w' \<longleftrightarrow> sd_step v2d chan w w' \<and>
     (ok \<longrightarrow> flag AND SPISDIO_SDIO_INT_STATUS_CH1_FINISH \<noteq> 0 \<longrightarrow>
        (status AND SPISDIO_SDIO_INT_STATUS_CH1_FINISH \<noteq> 0 \<longrightarrow> sd_idle chan w) \<longrightarrow> sd_idle chan w')"

lemma and_or_nonzero: "(a OR b) AND c \<noteq> (0 :: u32) \<longleftrightarrow> a AND c \<noteq> 0 \<or> b AND c \<noteq> 0"
  by (simp add: bit.conj_disj_distrib2 or_eq_0_iff)

lemma and_flag_nonzero: "s AND flag = flag \<Longrightarrow> flag AND c \<noteq> 0 \<Longrightarrow> s AND c \<noteq> (0 :: u32)"
  by (metis and.assoc and.commute and_zero_eq)

lemma sd_waited_stop: "sd_step v2d chan w w1 \<Longrightarrow> sd_waited v2d chan flag status w False w1"
  by (simp add: sd_waited_def)

lemma sd_waited_found:
  assumes "sd_step v2d chan w w1" "st AND SPISDIO_SDIO_INT_STATUS_CH1_FINISH \<noteq> 0 \<Longrightarrow> sd_idle chan w1"
    and "(status OR st) AND flag = flag"
  shows "sd_waited v2d chan flag status w ok w1"
proof -
  have "sd_idle chan w1" if "flag AND SPISDIO_SDIO_INT_STATUS_CH1_FINISH \<noteq> 0"
    "status AND SPISDIO_SDIO_INT_STATUS_CH1_FINISH \<noteq> 0 \<longrightarrow> sd_idle chan w"
    using and_flag_nonzero [OF assms(3) that(1)] that(2) assms(2) sd_step_idle(1) [OF assms(1)]
    unfolding and_or_nonzero by blast
  then show ?thesis using assms(1) unfolding sd_waited_def by blast
qed

lemma sd_waited_again:
  assumes "sd_step v2d chan w w1" "st AND SPISDIO_SDIO_INT_STATUS_CH1_FINISH \<noteq> 0 \<Longrightarrow> sd_idle chan w1"
    and "sd_step v2d chan w1 w2" "sd_waited v2d chan flag (status OR st) w2 ok w'"
  shows "sd_waited v2d chan flag status w ok w'"
  using assms(4) sd_step_trans [OF assms(1) sd_step_trans [OF assms(3)]] assms(2)
    sd_step_idle(1) [OF assms(1)] sd_step_idle(1) [OF assms(3)]
  unfolding sd_waited_def and_or_nonzero by blast

lemma sd_wait_loop_step:
  assumes dev: "sd_device v2d hw base chan" and run: "wait_loop hw base flag start status w = Some (ok, w')"
  shows "sd_waited v2d chan flag status w ok w'"
proof -
  have "sd_device v2d hw base chan \<longrightarrow> sd_waited v2d chan flag status w (fst (ok, w')) (snd (ok, w'))"
  proof (rule wait_loop.raw_induct [of "\<lambda>hw base flag start status w r.
        sd_device v2d hw base chan \<longrightarrow> sd_waited v2d chan flag status w (fst r) (snd r)", OF _ run], rule impI)
    fix f :: "'a world hw \<Rightarrow> u32 \<Rightarrow> u32 \<Rightarrow> u32 \<Rightarrow> u32 \<Rightarrow> 'a world \<Rightarrow> (bool \<times> 'a world) option"
      and hw base flag start status w r
    assume ih: "\<And>hw base flag start status w r. f hw base flag start status w = Some r \<Longrightarrow>
        sd_device v2d hw base chan \<longrightarrow> sd_waited v2d chan flag status w (fst r) (snd r)"
      and step: "(let (tmp, d) = sdio_get_events hw base w; status = status OR tmp
          in if status AND SPISDIO_SDIO_INT_STATUS_CAR_ERR \<noteq> 0 then Some (False, d)
             else if status AND flag = flag then Some (True, d)
             else let (now, d) = rumboot_platform_get_uptime hw d
               in if now - start < SDIO_TIMEOUT_US then f hw base flag start status d else Some (False, d)) = Some r"
      and d: "sd_device v2d hw base chan"
    obtain st w1 where e: "sdio_get_events hw base w = (st, w1)" by (cases "sdio_get_events hw base w")
    obtain now w2 where u: "rumboot_platform_get_uptime hw w1 = (now, w2)" by (cases "rumboot_platform_get_uptime hw w1")
    note q = sd_events_step(1) [OF d e] and f1 = sd_events_step(2) [OF d e] and q2 = sd_uptime_step [OF d u]
    note step' = step [unfolded e Let_def prod.case u]
    show "sd_waited v2d chan flag status w (fst r) (snd r)"
    proof (cases "(status OR st) AND SPISDIO_SDIO_INT_STATUS_CAR_ERR \<noteq> 0")
      case True
      then have "r = (False, w1)" using step' by simp
      then show ?thesis using sd_waited_stop [OF q] by simp
    next
      case ok: False
      show ?thesis
      proof (cases "(status OR st) AND flag = flag")
        case True
        then have "r = (True, w1)" using step' ok by simp
        then show ?thesis using sd_waited_found [OF q f1 True] by simp
      next
        case False
        then have s: "(if now - start < SDIO_TIMEOUT_US then f hw base flag start (status OR st) w2 else Some (False, w2)) = Some r"
          using step' ok by simp
        show ?thesis
        proof (cases "now - start < SDIO_TIMEOUT_US")
          case True
          then have "sd_waited v2d chan flag (status OR st) w2 (fst r) (snd r)" using ih d s by simp
          from sd_waited_again [OF q _ q2 this] show ?thesis using f1 by blast
        next
          case False
          then have "r = (False, w2)" using s by simp
          then show ?thesis using sd_waited_stop [OF sd_step_trans [OF q q2]] by simp
        qed
      qed
    qed
  qed
  then show ?thesis using dev by simp
qed

lemma sd_wait_step:
  assumes "sd_device v2d hw base chan" "sdio_wait hw base flag w = Some (ok, w')"
  shows "sd_step v2d chan w w'" "ok \<Longrightarrow> flag AND SPISDIO_SDIO_INT_STATUS_CH1_FINISH \<noteq> 0 \<Longrightarrow> sd_idle chan w'"
proof -
  obtain start w1 where u: "rumboot_platform_get_uptime hw w = (start, w1)" by (cases "rumboot_platform_get_uptime hw w")
  then obtain ok2 w2 where l: "wait_loop hw base flag start 0 w1 = Some (ok2, w2)"
    using assms(2) by (auto simp: sdio_wait_def split: option.splits)
  obtain now w3 where u2: "rumboot_platform_get_uptime hw w2 = (now, w3)" by (cases "rumboot_platform_get_uptime hw w2")
  have w': "w' = w3" "ok \<Longrightarrow> ok2" using assms(2) by (auto simp: sdio_wait_def u l u2 split: if_splits)
  have q: "sd_waited v2d chan flag 0 w1 ok2 w2" by (rule sd_wait_loop_step [OF assms(1) l])
  note s = sd_uptime_step [OF assms(1) u] sd_uptime_step [OF assms(1) u2]
  show "sd_step v2d chan w w'"
    using s q sd_step_trans unfolding w'(1) sd_waited_def by blast
  show "sd_idle chan w'" if "ok" "flag AND SPISDIO_SDIO_INT_STATUS_CH1_FINISH \<noteq> 0"
    using q w' that sd_step_idle(1) [OF s(2)] by (simp add: sd_waited_def)
qed

lemma sd_start_step:
  assumes "sd_device v2d hw base chan"
  shows "sd_step v2d chan w (sdio_request_start hw base rq w)"
proof -
  have b: "sd_step v2d chan w (iowrite32 hw v (base + r) w1)"
    if "sd_step v2d chan w w1" "r \<noteq> SDIO_DCDSAR_1" "r \<noteq> SDIO_DCDTR_1" "r \<noteq> SDIO_DCCR_1" for v r w1
    using sd_step_trans [OF that(1) sd_write_step [OF assms]] that(2-4) by blast
  show ?thesis
    unfolding sdio_request_start_def Let_def
    by (cases "rq_buf rq = 0") (auto intro!: b)
qed

text \<open>
  From an idle channel a request without data leaves memory alone, one with data writes its
  buffer only; one that succeeds leaves the channel idle again.
\<close>

lemma sd_run_frame:
  assumes dev: "sd_device v2d hw base chan" and idle: "sd_idle chan w"
    and run: "sdio_request_run v2d hw base rq w = Some (ok, w')"
  shows "rq_buf rq = 0 \<or> \<not> in_range x (rq_buf rq) 512 \<Longrightarrow> w_mem w' x = w_mem w x" "ok \<Longrightarrow> sd_idle chan w'"
proof -
  let ?s = "sdio_request_start hw base rq w"
  obtain ok1 w1 where w1: "sdio_wait hw base SPISDIO_SDIO_INT_STATUS_CMD_DONE ?s = Some (ok1, w1)"
    using run by (auto simp: sdio_request_run_def split: option.splits)
  note q1 = sd_step_idle [OF sd_step_trans [OF sd_start_step [OF dev, of w rq] sd_wait_step(1) [OF dev w1]] idle]
  have "(rq_buf rq = 0 \<or> \<not> in_range x (rq_buf rq) 512 \<longrightarrow> w_mem w' x = w_mem w x) \<and> (ok \<longrightarrow> sd_idle chan w')"
  proof (cases "rq_buf rq = 0 \<or> \<not> ok1")
    case True
    then show ?thesis using run q1 by (auto simp: sdio_request_run_def w1)
  next
    case False
    obtain ok2 w2 where w2: "sdio_wait hw base SPISDIO_SDIO_INT_STATUS_TRAN_DONE w1 = Some (ok2, w2)"
      using run False by (auto simp: sdio_request_run_def w1 split: option.splits)
    define a where "a = iowrite32 hw (BUFER_TRANS_START OR rq_int_buf_num rq) (base + SDIO_BUF_TRAN_CTRL_REG) w2"
    define b where "b = iowrite32 hw DCDTR_1_VAL_512 (base + SDIO_DCDTR_1) a"
    define c where "c = iowrite32 hw (v2d (rq_buf rq)) (base + SDIO_DCDSAR_1) b"
    define e where "e = iowrite32 hw DCCR_1_VAL (base + SDIO_DCCR_1) c"
    have w3: "sdio_wait hw base (SPISDIO_SDIO_INT_STATUS_CH1_FINISH OR SPISDIO_SDIO_INT_STATUS_BUF_FINISH) e = Some (ok, w')"
      using run False by (simp add: sdio_request_run_def w1 w2 a_def b_def c_def e_def)
    note q2 = sd_step_idle [OF sd_wait_step(1) [OF dev w2] q1(1)]
    have "sd_step v2d chan w2 a" unfolding a_def by (rule sd_write_step [OF dev]) simp_all
    note qa = sd_step_idle [OF this q2(1)]
    have wr: "sd_write v2d chan base v r u (iowrite32 hw v r u)" for v r u
      using dev by (simp add: sd_device_def iowrite32_def)
    have qb: "sd_idle chan b" "w_mem b = w_mem a" "ch_len (chan (w_dev b)) = DCDTR_1_VAL_512"
      using wr [of DCDTR_1_VAL_512 "base + SDIO_DCDTR_1" a] qa(1)
      by (auto simp: b_def [symmetric] sd_write_def sd_idle_def sd_within_def Let_def)
    have qc: "sd_idle chan c" "w_mem c = w_mem b" "ch_len (chan (w_dev c)) = DCDTR_1_VAL_512"
      "ch_dst (chan (w_dev c)) = v2d (rq_buf rq)"
      using wr [of "v2d (rq_buf rq)" "base + SDIO_DCDSAR_1" b] qb
      by (auto simp: c_def [symmetric] sd_write_def sd_idle_def sd_within_def Let_def)
    let ?run = "Some (v2d (rq_buf rq), DCDTR_1_VAL_512)"
    have qe: "ch_run (chan (w_dev e)) = None \<or> ch_run (chan (w_dev e)) = ?run"
      "sd_within v2d ?run (w_mem c) (w_mem e)"
      using wr [of DCCR_1_VAL "base + SDIO_DCCR_1" c] qc
      by (auto simp: e_def [symmetric] sd_write_def sd_idle_def Let_def)
    have "sd_step v2d chan e w'" by (rule sd_wait_step(1) [OF dev w3])
    then have "sd_within v2d ?run (w_mem e) (w_mem w')"
      using qe(1) by (auto simp: sd_step_def sd_within_def Let_def)
    then have "w_mem w' x = w_mem w x" if "\<not> in_range x (rq_buf rq) 512"
      using that qe(2) q1(2) q2(2) qa(2) qb(2) qc(2) by (simp add: sd_within_def DCDTR_1_VAL_512_def)
    moreover have "sd_idle chan w'" if ok
      by (rule sd_wait_step(2) [OF dev w3 that])
        (simp add: SPISDIO_SDIO_INT_STATUS_CH1_FINISH_def SPISDIO_SDIO_INT_STATUS_BUF_FINISH_def)
    ultimately show ?thesis using False by auto
  qed
  then show "rq_buf rq = 0 \<or> \<not> in_range x (rq_buf rq) 512 \<Longrightarrow> w_mem w' x = w_mem w x" "ok \<Longrightarrow> sd_idle chan w'"
    by auto
qed

lemma sd_block_frame:
  assumes "sd_device v2d hw (bs_base src) chan" "sd_idle chan w"
    and "sd_read_block be v2d hw src pdata to offset w = Some (n, w')"
  shows "\<not> in_range x to 512 \<Longrightarrow> w_mem w' x = w_mem w x" "n = 512 \<Longrightarrow> sd_idle chan w'"
  using assms(3) sd_run_frame [OF assms(1,2)] assms(2)
  by (auto simp: sd_read_block_def sdio_request_execute_def empty_request_def Let_def split: if_splits)

lemma sd_aligned_512:
  assumes "len mod 512 = (0 :: u32)" "len \<noteq> 0"
  shows "512 \<le> len" "(len - 512) mod 512 = 0" "unat (len - 512) = unat len - 512"
proof -
  have m: "unat len mod 512 = 0" using assms(1) aligned_unat [of 512 len] by (simp add: aligned_def)
  have "unat len \<noteq> 0" using assms(2) by (simp add: unat_eq_zero)
  then have n: "512 \<le> unat len" using m by (cases "unat len < 512") simp_all
  then show "512 \<le> len" by (simp add: word_le_nat_alt)
  then show u: "unat (len - 512) = unat len - 512" by (simp add: unat_sub)
  have "(unat len - 512) mod 512 = 0" using m n by (simp add: mod_if)
  then have "aligned 512 (len - 512)" unfolding aligned_unat using u by simp
  then show "(len - 512) mod 512 = 0" by (simp add: aligned_def)
qed

lemma sd_loop_contract:
  assumes "sd_device v2d hw (bs_base src) chan" "sd_idle chan w" "len mod 512 = 0"
    and "sdio_read_loop be v2d hw src pdata to offset len count w = Some (n, w')"
  shows "(\<exists>k \<le> unat len. n = count + of_nat k \<and> (k = unat len \<longrightarrow> sd_idle chan w')) \<and>
    (\<not> in_range x to (unat len) \<longrightarrow> w_mem w' x = w_mem w x)"
  using assms
proof (induction be v2d hw src pdata to offset len count w arbitrary: n w' rule: sdio_read_loop.induct)
  case (1 be v2d hw src pdata to offset len count w)
  note dev = 1(2) and idle = 1(3) and al = 1(4) and run = 1(5)
  show ?case
  proof (cases "len = 0")
    case True
    then show ?thesis using run idle by (auto simp: sdio_read_loop.simps intro!: exI [of _ 0])
  next
    case False
    note a = sd_aligned_512 [OF al False]
    obtain m w1 where b: "sd_read_block be v2d hw src pdata to (ucast offset) w = Some (m, w1)"
      using run False by (subst (asm) sdio_read_loop.simps) (auto split: option.splits)
    have f1: "w_mem w1 x = w_mem w x" if "\<not> in_range x to (unat len)"
      using sd_block_frame(1) [OF dev idle b] that a(1) by (auto simp: in_range_def word_le_nat_alt)
    show ?thesis
    proof (cases "m = 512")
      case False
      then have "n = count" "w' = w1"
        using run \<open>len \<noteq> 0\<close> b by (simp_all add: sdio_read_loop.simps)
      then show ?thesis using f1 \<open>len \<noteq> 0\<close> by (auto intro!: exI [of _ 0] simp: unat_eq_zero)
    next
      case True
      then have "sdio_read_loop be v2d hw src pdata (to + 512) (offset + 512) (len - 512) (count + 512) w1 = Some (n, w')"
        using run \<open>len \<noteq> 0\<close> b a(1) by (subst (asm) sdio_read_loop.simps) simp
      then have ih: "(\<exists>k \<le> unat (len - 512). n = count + 512 + of_nat k \<and> (k = unat (len - 512) \<longrightarrow> sd_idle chan w')) \<and>
          (\<not> in_range x (to + 512) (unat (len - 512)) \<longrightarrow> w_mem w' x = w_mem w1 x)"
        using 1(1) [OF \<open>len \<noteq> 0\<close> b refl, of n w'] True dev a(1,2) sd_block_frame(2) [OF dev idle b] by simp
      then obtain k where k: "k \<le> unat len - 512" "n = count + 512 + of_nat k" "k = unat len - 512 \<longrightarrow> sd_idle chan w'"
        using a(3) by auto
      have "n = count + of_nat (k + 512)" using k(2) by simp
      moreover have "k + 512 \<le> unat len" using k(1) a(1) by (simp add: word_le_nat_alt)
      moreover have "k + 512 = unat len \<longrightarrow> sd_idle chan w'" using k(3) by auto
      ultimately have "\<exists>k \<le> unat len. n = count + of_nat k \<and> (k = unat len \<longrightarrow> sd_idle chan w')" by blast
      moreover have "w_mem w' x = w_mem w x" if x: "\<not> in_range x to (unat len)"
      proof -
        have "unat (512 :: u32) + unat (len - 512) = unat len" using a by (simp add: word_le_nat_alt)
        moreover have "unat len \<le> 4294967296" by (rule less_imp_le [OF unat_u32_less])
        ultimately have "\<not> in_range x (to + 512) (unat (len - 512))"
          using in_range_add(1) [of x to 512 "unat (len - 512)"] x by auto
        then show ?thesis using ih f1 x by simp
      qed
      ultimately show ?thesis by blast
    qed
  qed
qed

section \<open>Loading from a card\<close>

lemma sdio_reader:
  assumes "sd_device v2d hw (bs_base src) chan"
  shows "boot_reader 512 (sdio_read be v2d hw src pdata) (sd_idle chan)"
proof unfold_locales
  fix offset len dest n x and w w' :: "'a world"
  assume i: "sd_idle chan w" and l: "aligned 512 len" and r: "sdio_read be v2d hw src pdata dest offset len w = Some (n, w')"
  have c: "(\<exists>k \<le> unat len. n = 0 + of_nat k \<and> (k = unat len \<longrightarrow> sd_idle chan w')) \<and>
      (\<not> in_range x dest (unat len) \<longrightarrow> w_mem w' x = w_mem w x)"
    by (rule sd_loop_contract [OF assms i _ r [unfolded sdio_read_def]]) (use l in \<open>simp add: aligned_def\<close>)
  then obtain k where k: "k \<le> unat len" "n = of_nat k" "k = unat len \<longrightarrow> sd_idle chan w'" by auto
  have "k < 4294967296" using k(1) unat_u32_less [of len] by linarith
  then have u: "unat n = k" by (simp add: k(2) unat_of_nat)
  show "n \<le> len" using u k(1) by (simp add: word_le_nat_alt)
  show "sd_idle chan w'" if "n = len" using u k(3) that by simp
  show "\<not> in_range x dest (unat len) \<Longrightarrow> w_mem w' x = w_mem w x" using c by blast
qed simp

lemma header_read_size_512: "header_read_size 512 = 512"
  by (simp add: header_read_size_def sizeof_hdr_def)

lemma reads_sdio:
  "reads_with 512 (sdio_read be v2d hw (bs_cfg src) pdata) (src\<lparr>bs_plugin := g_bootmodule_sdio be v2d hw\<rparr>) pdata"
  by (simp add: reads_with_def g_bootmodule_sdio_def)

text \<open>C11: Loading from an SD or MMC card writes at most 448 bytes more than it was given room for,
  whatever the card and the bus do, when it starts with no transfer under way, and reports success
  only when header and data that are then in memory validate. (The block with the header is read
  whole, which the size check forgets.) It rests on the length given to the channel and on the wait
  for its end before the next start.\<close>

theorem sd_load_confined:
  assumes dev: "sd_device v2d hw (bs_base (bs_cfg src)) chan" and idle: "sd_idle chan w"
    and load: "bootsource_load_img p (src\<lparr>bs_plugin := g_bootmodule_sdio be v2d hw\<rparr>) pdata hdr maxsize offset w
      = Some (ret, offset', w')"
    and room: "64 \<le> unat maxsize" "entry_test_local p hdr"
  shows "(\<forall>x. \<not> in_range x hdr (unat maxsize + 448) \<longrightarrow> w_mem w' x = w_mem w x) \<and>
    (ret = 0 \<longrightarrow> 0 \<le> rumboot_bootimage_check_header p (w_mem w') hdr \<and>
       rumboot_bootimage_check_data p (w_mem w') hdr = 0)"
proof -
  note rd = boot_reader.load_img_effect [OF sdio_reader [OF dev] reads_sdio idle load]
    and va = boot_reader.load_img_validated [OF sdio_reader [OF dev] reads_sdio idle entry_test_localD [OF room(2)]]
  have "w_mem w' x = w_mem w x" if "\<not> in_range x hdr (unat maxsize + 448)" for x
    by (rule rd) (use that room(1) in \<open>auto simp: header_read_size_512 in_range_def\<close>)
  then show ?thesis using va load by blast
qed

text \<open>C12: The size check of the loader forgets the padding of the first block: from a source with
  blocks of 512 bytes, an image whose length, rounded up to \<open>L\<close>, is accepted for \<open>maxsize\<close> bytes is
  read up to \<open>512 + L\<close> bytes behind the start of the area, and every byte between \<open>maxsize\<close> and
  that is overwritten with what the source holds there.\<close>

theorem sd_load_overruns:
  assumes src: "bm_align (bs_plugin src) = 512"
      "\<And>dest offset len w. offset mod 512 = 0 \<Longrightarrow> len mod 512 = 0 \<Longrightarrow>
        bm_read (bs_plugin src) (bs_cfg src) pdata dest offset len w = Some (len, w\<lparr>w_mem :=
          mem_write (w_mem w) dest (map content [unat offset ..< unat offset + unat len])\<rparr>)"
    and off: "offset mod 512 = 0" "unat offset + 512 + L < 2 ^ 32"
    and hdr: "0 \<le> rumboot_bootimage_check_header p (mem_write (w_mem w) hdr (map content [unat offset ..< unat offset + 512])) hdr"
      "unat (round_up_to_align (of_int (rumboot_bootimage_check_header p
         (mem_write (w_mem w) hdr (map content [unat offset ..< unat offset + 512])) hdr)) 512) = L"
    and room: "L + 64 \<le> unat maxsize" "unat maxsize + k < L + 512" "L mod 512 = 0" "512 \<le> L"
  shows "\<exists>ret offset' w'. bootsource_load_img p src pdata hdr maxsize offset w = Some (ret, offset', w') \<and>
    w_mem w' (hdr + maxsize + of_nat k) = content (unat offset + unat maxsize + k)"
proof -
  let ?w1 = "w\<lparr>w_mem := mem_write (w_mem w) hdr (map content [unat offset ..< unat offset + 512])\<rparr>"
  define len where "len = round_up_to_align (of_int (rumboot_bootimage_check_header p (w_mem ?w1) hdr)) 512"
  have l: "unat len = L" using hdr(2) by (simp add: len_def)
  then have l2: "len mod 512 = 0" using room(3) aligned_unat [of 512 len] by (simp add: aligned_def)
  have o2: "unat (offset + 512) = unat offset + 512" using off(2) by (simp add: unat_word_ariths)
  have o3: "(offset + 512) mod 512 = 0"
    using off(1) o2 aligned_unat [of 512 offset] aligned_unat [of 512 "offset + 512"] by (simp add: aligned_def)
  have "unat (len + 64) = L + 64" using l off(2) room by (simp add: unat_word_ariths)
  then have fit: "\<not> len + 64 > maxsize" using room(1) by (simp add: word_less_nat_alt)
  let ?w2 = "?w1\<lparr>w_mem := mem_write (w_mem ?w1) (hdr + 512) (map content [unat offset + 512 ..< unat offset + 512 + L])\<rparr>"
  have le: "round_up_to_align (of_int (rumboot_bootimage_check_header p
      (mem_write (w_mem w) hdr (map content [unat offset..<unat offset + 512])) hdr)) 512 = len"
    by (simp add: len_def)
  have "bootsource_load_img p src pdata hdr maxsize offset w
      = Some (rumboot_bootimage_check_data p (w_mem ?w2) hdr, offset + 512 + len, ?w2)"
    using src(2) [OF off(1), of 512 hdr w] src(2) [OF o3 l2, of "512 + hdr" ?w1] fit hdr(1) o2 l
    by (simp add: bootsource_load_img_def src(1) sizeof_hdr_def bootsource_read_def off(1) o3 l2 hdr_data_def Let_def le add.commute [of hdr 512])
  moreover have "w_mem ?w2 (hdr + maxsize + of_nat k) = content (unat offset + unat maxsize + k)"
  proof -
    define j where "j = unat maxsize + k - 512"
    have j: "j < L" "unat maxsize + k = j + 512" using room by (auto simp: j_def)
    have "hdr + maxsize + of_nat k = hdr + of_nat (unat maxsize + k)" by simp
    also have "\<dots> = hdr + 512 + of_nat j" unfolding j(2) by simp
    finally have e: "hdr + maxsize + of_nat k = hdr + 512 + of_nat j" .
    have "w_mem ?w2 (hdr + 512 + of_nat j) = map content [unat offset + 512 ..< unat offset + 512 + L] ! j"
      using j(1) off(2) by (simp add: mem_write_nth)
    moreover have c: "unat offset + unat maxsize + k = unat offset + 512 + j" using j(2) by simp
    ultimately show ?thesis unfolding e c using j(1) by simp
  qed
  ultimately show ?thesis by blast
qed

section \<open>Transfer errors, and a simulated controller\<close>

text \<open>
  A controller at address 0 whose interrupt status is scripted. Its channel copies the block
  buffer to memory while it runs, which it does from the start up to the status with \<open>CH1_FINISH\<close>.
\<close>

record sd_sim =
  sim_status :: "u32 list"
  sim_chan :: sd_chan
  sim_buf :: "u8 list"

definition sd_sim_status :: "u32 \<Rightarrow> u32 list \<Rightarrow> sd_sim world \<Rightarrow> sd_sim world" where
  "sd_sim_status s ss w =
     (let c = sim_chan (w_dev w); w' = w\<lparr>w_dev := (w_dev w)\<lparr>sim_status := ss\<rparr>\<rparr>
      in if s AND SPISDIO_SDIO_INT_STATUS_CH1_FINISH = 0 then w'
         else (case ch_run c of
             None \<Rightarrow> w'
           | Some (dst, len) \<Rightarrow> \<lparr>w_mem = mem_write (w_mem w) dst (take (unat len) (sim_buf (w_dev w))),
               w_dev = (w_dev w)\<lparr>sim_status := ss, sim_chan := c\<lparr>ch_run := None\<rparr>\<rparr>\<rparr>))"

definition sd_sim_hw :: "sd_sim world hw" where
  "sd_sim_hw =
     \<lparr>hw_read32 = (\<lambda>a w. if a = SDIO_INT_STATUS then
          (case sim_status (w_dev w) of [] \<Rightarrow> (0, w) | s # ss \<Rightarrow> (s, sd_sim_status s ss w))
        else (0, w)),
      hw_write32 = (\<lambda>v a w. let c = sim_chan (w_dev w) in w\<lparr>w_dev := (w_dev w)\<lparr>sim_chan :=
        (if a = SDIO_DCDSAR_1 then c\<lparr>ch_dst := v\<rparr> else if a = SDIO_DCDTR_1 then c\<lparr>ch_len := v\<rparr>
         else if a = SDIO_DCCR_1 \<and> v = DCCR_1_VAL then c\<lparr>ch_run := Some (ch_dst c, ch_len c)\<rparr> else c)\<rparr>\<rparr>),
      hw_uptime = (\<lambda>w. (0, w))\<rparr>"

lemma sd_sim_status_step: "sd_step (\<lambda>a. a) sim_chan w (sd_sim_status s ss w)"
  by (auto simp: sd_step_def sd_sim_status_def sd_within_def Let_def mem_write_def in_range_def split: option.splits)

lemma sd_sim_status_finished:
  "s AND SPISDIO_SDIO_INT_STATUS_CH1_FINISH \<noteq> 0 \<Longrightarrow> ch_run (sim_chan (w_dev (sd_sim_status s ss w))) = None"
  by (auto simp: sd_sim_status_def Let_def split: option.splits)

lemma sd_sim_device: "sd_device (\<lambda>a. a) sd_sim_hw 0 sim_chan"
proof -
  have "sd_write (\<lambda>a. a) sim_chan 0 v a w (hw_write32 sd_sim_hw v a w)" for v a w
    by (auto simp: sd_write_def sd_sim_hw_def Let_def sd_within_def)
  then show ?thesis
    by (auto simp: sd_device_def sd_sim_hw_def sd_sim_status_step sd_sim_status_finished split: list.splits)
qed

lemma sim_read [simp]:
  "ioread32 sd_sim_hw a w = (if a = SDIO_INT_STATUS then
      (case sim_status (w_dev w) of [] \<Rightarrow> (0, w) | s # ss \<Rightarrow> (s, sd_sim_status s ss w))
     else (0, w))"
  "rumboot_platform_get_uptime sd_sim_hw w = (0, w)"
  by (simp_all add: ioread32_def rumboot_platform_get_uptime_def sd_sim_hw_def)

lemma sim_write [simp]:
  "r \<noteq> SDIO_DCDSAR_1 \<Longrightarrow> r \<noteq> SDIO_DCDTR_1 \<Longrightarrow> r \<noteq> SDIO_DCCR_1 \<or> v \<noteq> DCCR_1_VAL \<Longrightarrow> iowrite32 sd_sim_hw v r w = w"
  by (auto simp: iowrite32_def sd_sim_hw_def)

lemma sim_events:
  "sim_status (w_dev w) = s # ss \<Longrightarrow> sdio_get_events sd_sim_hw 0 w = (s, sd_sim_status s ss w)"
  by (simp add: sdio_get_events_def sdio_ack_def Let_def)

lemma sim_wait:
  assumes "sim_status (w_dev w) = s # ss" "s AND 0x40 \<noteq> 0 \<or> s AND flag = flag"
  shows "sdio_wait sd_sim_hw 0 flag w = Some (s AND 0x40 = 0, sd_sim_status s ss w)"
  using assms by (subst sdio_wait_def, simp, subst wait_loop.simps)
    (auto simp: sim_events SPISDIO_SDIO_INT_STATUS_CAR_ERR_def SDIO_TIMEOUT_US_def Let_def)

lemma sim_start: "sdio_request_start sd_sim_hw 0 rq w = w"
  using sim_write [of SDIO_SDR_CARD_BLOCK_SET_REG] by (simp add: sdio_request_start_def Let_def)

text \<open>The channel when it has copied a block to \<open>a\<close>.\<close>

definition sim_block_chan :: "u32 \<Rightarrow> sd_chan" where
  "sim_block_chan a = \<lparr>ch_dst = a, ch_len = 512, ch_run = None\<rparr>"

lemma sim_block:
  assumes "sim_status (w_dev w) = s1 # s2 # s3 # ss" "s1 AND 0x40 = 0" "s1 AND 0x20 = 0x20" "s1 AND 2 = 0" "s2 AND 2 = 0"
    "s2 AND 0x40 \<noteq> 0 \<or> s2 AND 0x10 = 0x10" "s3 AND 0x40 = 0" "s3 AND 6 = 6" "rq_buf rq \<noteq> 0"
  shows "sdio_request_run (\<lambda>a. a) sd_sim_hw 0 rq w = Some (True,
    \<lparr>w_mem = mem_write (w_mem w) (rq_buf rq) (take 512 (sim_buf (w_dev w))),
     w_dev = (w_dev w)\<lparr>sim_status := ss, sim_chan := sim_block_chan (rq_buf rq)\<rparr>\<rparr>)"
proof -
  let ?c = "\<lparr>ch_dst = rq_buf rq, ch_len = 512, ch_run = Some (rq_buf rq, 512)\<rparr>"
  let ?w1 = "w\<lparr>w_dev := (w_dev w)\<lparr>sim_status := s2 # s3 # ss\<rparr>\<rparr>"
  let ?w2 = "w\<lparr>w_dev := (w_dev w)\<lparr>sim_status := s3 # ss\<rparr>\<rparr>"
  let ?w3 = "w\<lparr>w_dev := (w_dev w)\<lparr>sim_status := s3 # ss, sim_chan := ?c\<rparr>\<rparr>"
  have "s3 AND 2 = (s3 AND 6) AND 2" by (simp add: and.assoc)
  then have b3: "s3 AND 2 = 2" by (simp only: assms(8)) simp
  have w1: "sdio_wait sd_sim_hw 0 0x20 w = Some (True, ?w1)"
    using sim_wait [of w s1 "s2 # s3 # ss" "0x20"] assms by (simp add: sd_sim_status_def SPISDIO_SDIO_INT_STATUS_CH1_FINISH_def)
  have w2: "sdio_wait sd_sim_hw 0 0x10 ?w1 = Some (s2 AND 0x40 = 0, ?w2)"
    using sim_wait [of ?w1 s2 "s3 # ss" "0x10"] assms by (simp add: sd_sim_status_def SPISDIO_SDIO_INT_STATUS_CH1_FINISH_def)
  have w3: "sdio_wait sd_sim_hw 0 6 ?w3 = Some (True, \<lparr>w_mem = mem_write (w_mem w) (rq_buf rq) (take 512 (sim_buf (w_dev w))),
     w_dev = (w_dev w)\<lparr>sim_status := ss, sim_chan := sim_block_chan (rq_buf rq)\<rparr>\<rparr>)"
    using sim_wait [of ?w3 s3 ss 6] assms b3
    by (simp add: sd_sim_status_def sim_block_chan_def SPISDIO_SDIO_INT_STATUS_CH1_FINISH_def)
  have d: "iowrite32 sd_sim_hw DCCR_1_VAL SDIO_DCCR_1 (iowrite32 sd_sim_hw (rq_buf rq) SDIO_DCDSAR_1
      (iowrite32 sd_sim_hw DCDTR_1_VAL_512 SDIO_DCDTR_1 ?w2)) = ?w3"
    by (simp add: iowrite32_def sd_sim_hw_def DCDTR_1_VAL_512_def)
  show ?thesis
    by (simp add: sdio_request_run_def sim_start SPISDIO_SDIO_INT_STATUS_CMD_DONE_def SPISDIO_SDIO_INT_STATUS_TRAN_DONE_def
        SPISDIO_SDIO_INT_STATUS_CH1_FINISH_def SPISDIO_SDIO_INT_STATUS_BUF_FINISH_def w1 w2 w3 d assms(9) Let_def)
qed

lemma sim_read_block:
  assumes "bs_base src = 0" "to \<noteq> 0" "offset mod 512 = 0" "length buf = 512"
    and "s1 AND 0x40 = 0" "s1 AND 0x20 = 0x20" "s1 AND 2 = 0" "s2 AND 2 = 0" "s2 AND 0x40 \<noteq> 0 \<or> s2 AND 0x10 = 0x10" "s3 AND 0x40 = 0" "s3 AND 6 = 6"
  shows "sdio_read be (\<lambda>a. a) sd_sim_hw src pdata to offset 512
      \<lparr>w_mem = m, w_dev = \<lparr>sim_status = s1 # s2 # s3 # ss, sim_chan = x, sim_buf = buf\<rparr>\<rparr>
    = Some (512, \<lparr>w_mem = mem_write m to buf, w_dev = \<lparr>sim_status = ss, sim_chan = sim_block_chan to, sim_buf = buf\<rparr>\<rparr>)"
proof -
  have "unat offset mod 512 = 0" using assms(3) aligned_unat [of 512 offset] by (simp add: aligned_def)
  then have "unat (ucast offset :: u64) mod 512 = 0"
    by (simp add: unsigned_ucast_eq take_bit_nat_eq_self order_less_trans [OF unat_u32_less])
  moreover have "unat ((ucast offset :: u64) mod 512) = unat (ucast offset :: u64) mod 512" by (simp add: unat_mod_distrib)
  ultimately have o: "(ucast offset :: u64) mod 512 = 0" by (metis unat_eq_zero)
  show ?thesis
    using assms o
    by (subst sdio_read_def, subst sdio_read_loop.simps, subst sdio_read_loop.simps)
      (simp add: sd_read_block_def sdio_request_execute_def empty_request_def sim_block)
qed

text \<open>An aborted transfer counts as success. When the card acknowledges the read command
  (status \<open>0x20\<close>) and then reports an error instead of the data (\<open>0x40\<close>), the block that happens to
  be in the controller's buffer is copied to memory and \<open>sdio_read\<close> returns the full length.\<close>

theorem sd_aborted_transfer_succeeds:
  assumes "bs_base src = 0" "to \<noteq> 0" "length buf = 512"
  shows "sdio_read be (\<lambda>a. a) sd_sim_hw src pdata to 0 512
      \<lparr>w_mem = m, w_dev = \<lparr>sim_status = [0x20, 0x40, 0x06], sim_chan = x, sim_buf = buf\<rparr>\<rparr>
    = Some (512, \<lparr>w_mem = mem_write m to buf, w_dev = \<lparr>sim_status = [], sim_chan = sim_block_chan to, sim_buf = buf\<rparr>\<rparr>)"
  using sim_read_block [of src to 0 buf "0x20" "0x40" "0x06"] assms by simp

section \<open>Witnesses\<close>

definition sd_cfg :: "'d bootsource_cfg" where
  "sd_cfg = \<lparr>bs_addr = 0x7000, bs_base = 0, bs_offset = 0, bs_base_freq_khz = 100000,
     bs_iface_freq_khz = 25000, bs_slave_addr = 0, bs_chipselect = None\<rparr>"

definition sd_block :: "u8 list" where "sd_block = demo_bytes @ replicate 444 0"

lemma sd_block_length [simp]: "length sd_block = 512" by (simp add: sd_block_def)

theorem sd_aborted_transfer_succeeds_witness:
  "sdio_read False (\<lambda>a. a) sd_sim_hw sd_cfg 0x7000 0x1000 0 512
      \<lparr>w_mem = (\<lambda>_. 0), w_dev = \<lparr>sim_status = [0x20, 0x40, 0x06], sim_chan = sim_block_chan 0, sim_buf = replicate 512 7\<rparr>\<rparr>
    = Some (512, \<lparr>w_mem = mem_write (\<lambda>_. 0) 0x1000 (replicate 512 7),
        w_dev = \<lparr>sim_status = [], sim_chan = sim_block_chan 0x1000, sim_buf = replicate 512 7\<rparr>\<rparr>)"
  by (rule sd_aborted_transfer_succeeds) (simp_all add: sd_cfg_def)

lemma sd_block_mem: "mem_write (\<lambda>_. 0) 0x1000 sd_block = demo_mem"
  unfolding demo_mem_def sd_block_def by (rule ext) (simp add: mem_write_def nth_append)

text \<open>Two blocks with the same contents, the demonstration image.\<close>

definition sd_loaded :: mem where "sd_loaded = mem_write demo_mem 0x1200 sd_block"

lemma sd_loaded_read: "x + n \<le> 0x200 \<Longrightarrow> mem_read sd_loaded (0x1000 + of_nat x) n = mem_read demo_mem (0x1000 + of_nat x) n"
  using read_unchanged_before [of x n "0x200" sd_block demo_mem "0x1000"] by (simp add: sd_loaded_def)

definition sd_pf :: "sd_sim platform" where
  "sd_pf = \<lparr>pf_big_endian = False, pf_endian_swap = True, pf_chip_id = 4, pf_header_version = 3,
     pf_cpus = [\<lparr>cl_base = 0, cl_kill = None, cl_poll = None, cl_start = None\<rparr>],
     pf_check_entry_points = (\<lambda>m hdr. True), pf_spl_size = 0x10000, pf_run = (\<lambda>ep args w. Some (0, w))\<rparr>"

lemmas sd_pf_valid = demo_valid_on [of sd_pf, unfolded sd_pf_def, simplified, folded sd_pf_def]

lemma sd_loaded_data: "rumboot_bootimage_check_data sd_pf sd_loaded 0x1000 = 0"
proof -
  have l: "load32 be sd_loaded (0x1000 + of_nat x) = load32 be demo_mem (0x1000 + of_nat x)" if "x < 0x100" for be x
    by (rule load32_cong) (rule sd_loaded_read, use that in simp)
  have i: "hdr_item32 p sd_loaded (0x1000 + of_nat x) s = hdr_item32 p demo_mem (0x1000 + of_nat x) s" if "x < 0x100"
    for p :: "sd_sim platform" and x s using l [OF that] by (simp add: hdr_item32_def)
  have "hdr_swap sd_pf sd_loaded 0x1000 = hdr_swap sd_pf demo_mem 0x1000" using l [of 0] by (simp add: hdr_swap_def)
  moreover have "mem_read sd_loaded 0x1040 4 = mem_read demo_mem 0x1040 4" using sd_loaded_read [of 64 4] by simp
  moreover have "hdr_item32 sd_pf demo_mem 0x100C 0 = 4"
    by (simp add: hdr_item32_def rumboot_bootimage_header_item32_def sd_pf_def demo_words)
  ultimately show ?thesis
    using i [of 8] i [of 12] sd_pf_valid(1,3) by (simp add: rumboot_bootimage_check_data_def hdr_offsets Let_def)
qed

definition sd_source :: "'d world hw \<Rightarrow> 'd rumboot_bootsource" where
  "sd_source hw = \<lparr>bs_cfg = sd_cfg, bs_plugin = g_bootmodule_sdio False (\<lambda>a. a) hw, bs_enable = None, bs_disable = None\<rparr>"

lemma sd_source_loads:
  "bootsource_load_img sd_pf (sd_source sd_sim_hw) 0x7000 0x1000 576 0
     \<lparr>w_mem = (\<lambda>_. 0), w_dev = \<lparr>sim_status = [0x20, 0x10, 0x06, 0x20, 0x10, 0x06], sim_chan = sim_block_chan 0, sim_buf = sd_block\<rparr>\<rparr>
   = Some (0, 1024, \<lparr>w_mem = sd_loaded, w_dev = \<lparr>sim_status = [], sim_chan = sim_block_chan 0x1200, sim_buf = sd_block\<rparr>\<rparr>)"
proof -
  have b: "bm_align (bs_plugin (sd_source sd_sim_hw)) = 512" "bs_cfg (sd_source sd_sim_hw) = sd_cfg"
    "bm_read (bs_plugin (sd_source sd_sim_hw)) = sdio_read False (\<lambda>a. a) sd_sim_hw"
    by (simp_all add: sd_source_def g_bootmodule_sdio_def)
  have z: "bs_base sd_cfg = 0" by (simp add: sd_cfg_def)
  have r1: "sdio_read False (\<lambda>a. a) sd_sim_hw sd_cfg 0x7000 0x1000 0 512
     \<lparr>w_mem = (\<lambda>_. 0), w_dev = \<lparr>sim_status = [0x20, 0x10, 0x06, 0x20, 0x10, 0x06], sim_chan = sim_block_chan 0, sim_buf = sd_block\<rparr>\<rparr>
   = Some (512, \<lparr>w_mem = demo_mem, w_dev = \<lparr>sim_status = [0x20, 0x10, 0x06], sim_chan = sim_block_chan 0x1000, sim_buf = sd_block\<rparr>\<rparr>)"
    using sim_read_block [OF z, of "0x1000" 0 sd_block "0x20" "0x10" "0x06"] by (simp add: sd_block_mem)
  have r2: "sdio_read False (\<lambda>a. a) sd_sim_hw sd_cfg 0x7000 0x1200 512 512
     \<lparr>w_mem = demo_mem, w_dev = \<lparr>sim_status = [0x20, 0x10, 0x06], sim_chan = sim_block_chan 0x1000, sim_buf = sd_block\<rparr>\<rparr>
   = Some (512, \<lparr>w_mem = sd_loaded, w_dev = \<lparr>sim_status = [], sim_chan = sim_block_chan 0x1200, sim_buf = sd_block\<rparr>\<rparr>)"
    using sim_read_block [OF z, of "0x1200" 512 sd_block "0x20" "0x10" "0x06"] by (simp add: sd_loaded_def)
  show ?thesis
    by (simp add: bootsource_load_img_def b sizeof_hdr_def bootsource_read_def r1 r2 sd_pf_valid sd_loaded_data
        round_up_to_align_def hdr_data_def Let_def)
qed

theorem sd_load_confined_witness:
  "sd_loaded 0x1400 = 0 \<and> 0 \<le> rumboot_bootimage_check_header sd_pf sd_loaded 0x1000 \<and>
     rumboot_bootimage_check_data sd_pf sd_loaded 0x1000 = 0"
proof -
  have s: "sd_source sd_sim_hw = (sd_source sd_sim_hw)\<lparr>bs_plugin := g_bootmodule_sdio False (\<lambda>a. a) sd_sim_hw\<rparr>"
    by (simp add: sd_source_def)
  have d: "sd_device (\<lambda>a. a) sd_sim_hw (bs_base (bs_cfg (sd_source sd_sim_hw))) sim_chan"
    using sd_sim_device by (simp add: sd_source_def sd_cfg_def)
  have loads: "bootsource_load_img sd_pf ((sd_source sd_sim_hw)\<lparr>bs_plugin := g_bootmodule_sdio False (\<lambda>a. a) sd_sim_hw\<rparr>) 0x7000 0x1000 576 0
     \<lparr>w_mem = (\<lambda>_. 0), w_dev = \<lparr>sim_status = [0x20, 0x10, 0x06, 0x20, 0x10, 0x06], sim_chan = sim_block_chan 0, sim_buf = sd_block\<rparr>\<rparr>
   = Some (0, 1024, \<lparr>w_mem = sd_loaded, w_dev = \<lparr>sim_status = [], sim_chan = sim_block_chan 0x1200, sim_buf = sd_block\<rparr>\<rparr>)"
    using sd_source_loads s by simp
  have "entry_test_local sd_pf 0x1000" by (simp add: entry_test_local_def sd_pf_def)
  from sd_load_confined [OF d _ loads _ this]
  have "(\<forall>x. \<not> in_range x 0x1000 1024 \<longrightarrow> sd_loaded x = 0) \<and> 0 \<le> rumboot_bootimage_check_header sd_pf sd_loaded 0x1000 \<and>
     rumboot_bootimage_check_data sd_pf sd_loaded 0x1000 = 0"
    by (simp add: sd_idle_def sim_block_chan_def)
  moreover have "\<not> in_range 0x1400 0x1000 1024" by (simp add: in_range_def)
  ultimately show ?thesis by blast
qed

text \<open>A card whose second block is filled with sevens: the byte behind an area of 576 bytes is one of them.\<close>

definition sevens :: "nat \<Rightarrow> u8" where "sevens i = (if i < 512 then sd_block ! i else 7)"

definition sevens_source :: "unit rumboot_bootsource" where
  "sevens_source = \<lparr>bs_cfg = sd_cfg, bs_plugin = \<lparr>bm_align = 512, bm_init = None, bm_deinit = None,
     bm_read = (\<lambda>cfg pdata dest offset len w.
       Some (len, w\<lparr>w_mem := mem_write (w_mem w) dest (map sevens [unat offset ..< unat offset + unat len])\<rparr>))\<rparr>,
     bs_enable = None, bs_disable = None\<rparr>"

theorem sd_load_overruns_witness:
  "\<exists>ret offset' w'. bootsource_load_img demo_platform sevens_source 0x7000 0x1000 576 0 \<lparr>w_mem = (\<lambda>_. 0), w_dev = ()\<rparr>
      = Some (ret, offset', w') \<and> w_mem w' (0x1000 + 576) = 7"
proof -
  have b: "mem_write (\<lambda>_. 0) 0x1000 (map sevens [0 ..< 512]) = demo_mem"
    unfolding sd_block_mem [symmetric] by (rule arg_cong [where f = "mem_write _ _"]) (rule nth_equalityI, simp_all add: sevens_def)
  show ?thesis
    using sd_load_overruns [of sevens_source "0x7000" sevens 0 512 demo_platform "\<lparr>w_mem = (\<lambda>_. 0), w_dev = ()\<rparr>" "0x1000" 576 0]
    by (simp add: sevens_source_def b demo_accepted round_up_to_align_def sevens_def)
qed

end
