(* ===== verification/Bootrom.thy ===== *)
theory Bootrom
  imports Boot_Source Hardware Xmodem
begin

text \<open>
  The boot ROM, \<open>src/platform/common/bootrom/bootrom.c\<close>: walk over the boot sources, then host mode,
  where a host uploads images by XMODEM or places them in the SPL area by other means (a debugger,
  the network). The endless loop of host mode is a number of rounds. The hooks of the platform
  are the record \<open>host_platform\<close>; a hook gets the world. Logo and messages are left out.
\<close>

section \<open>Data\<close>

record rumboot_config =
  cfg_hostmode :: bool
  cfg_secure_boot :: bool
  cfg_selftest :: int
  cfg_edcl :: int
  cfg_legacyboot :: bool
  cfg_baudrate :: int

record 'd host_platform =
  hp_line :: "'d serial"
  hp_char_signed :: bool
  hp_hw :: "'d hw"
  hp_spl :: u32
  hp_persistent :: u32
  hp_read_config :: "'d world \<Rightarrow> rumboot_config \<times> 'd world"
  hp_init_loader :: "rumboot_config \<Rightarrow> 'd world \<Rightarrow> 'd world"
  hp_selftest :: "rumboot_config \<Rightarrow> 'd world \<Rightarrow> (int \<times> 'd world) option"
  hp_enter_host_mode :: "rumboot_config \<Rightarrow> 'd world \<Rightarrow> 'd world"
  hp_sv_event :: "string \<Rightarrow> 'd world \<Rightarrow> 'd world"

section \<open>Host mode\<close>

text \<open>The upload after an \<open>X\<close>.\<close>

definition hostmode_upload :: "'d platform \<Rightarrow> 'd host_platform \<Rightarrow> u32 \<Rightarrow> 'd world \<Rightarrow> 'd world option" where
  "hostmode_upload p h maxsize w =
     (case xmodem_get (hp_char_signed h) (hp_line h) (hp_spl h) maxsize (w_mem w) (w_dev w) of
        None \<Rightarrow> None
      | Some (ret, m, d) \<Rightarrow>
          if ret > 0 then map_option (\<lambda>d. \<lparr>w_mem = m, w_dev = d\<rparr>) (mdelay (hp_hw h) 100 d)
          else Some \<lparr>w_mem = store32 (pf_big_endian p) (hp_spl h) (of_int (- ret)) m, w_dev = d\<rparr>)"

text \<open>The first half of a round: a character from the host, and what it asks for.\<close>

definition hostmode_receive :: "'d platform \<Rightarrow> 'd host_platform \<Rightarrow> u32 \<Rightarrow> 'd world \<Rightarrow> 'd world option" where
  "hostmode_receive p h maxsize w =
     (let be = pf_big_endian p; hdr = hp_spl h;
          w = hp_sv_event h ''HOST'' w;
          (c, d) = s_getchar (hp_line h) 100 (w_dev w);
          w = w\<lparr>w_dev := d\<rparr>
      in case (if c = 0x58 then hostmode_upload p h maxsize w else Some w) of
           None \<Rightarrow> None
         | Some w \<Rightarrow>
             let w = (if c = 0x65 then hp_sv_event h ''EASTER_EGG'' w else w)
             in Some (if load32 be (w_mem w) (hdr + hdr_device) \<noteq> 0
                      then w\<lparr>w_mem := store32 be (hdr + hdr_device) 0 (w_mem w)\<rparr> else w))"

text \<open>The second half: validation and execution of what lies in the SPL area.\<close>

definition hostmode_boot ::
  "'d platform \<Rightarrow> 'd host_platform \<Rightarrow> u32 \<Rightarrow> 'd rumboot_bootsource list \<Rightarrow> u32 \<Rightarrow> u32 \<Rightarrow> 'd world \<Rightarrow> 'd world option"
where
  "hostmode_boot p h frame srcs pdata maxsize w =
     (let be = pf_big_endian p; hdr = hp_spl h;
          len = rumboot_bootimage_check_header p (w_mem w) hdr
      in if len = - EBADMAGIC then Some w
         else if len < 0 then Some (w\<lparr>w_mem := store32 be hdr (of_int (- len)) (w_mem w)\<rparr>)
         else if rumboot_bootimage_check_data p (w_mem w) hdr = 0 then
           (case rumboot_bootimage_execute p frame hdr 0 w of
              None \<Rightarrow> None
            | Some (ret, w) \<Rightarrow>
                if ret > 0 then
                  map_option snd (bootsource_try_by_id p frame srcs (ret - 1) pdata hdr maxsize w)
                else Some w)
         else Some (w\<lparr>w_mem := store32 be hdr (of_int EBADDATACRC) (w_mem w)\<rparr>))"

definition hostmode_round ::
  "'d platform \<Rightarrow> 'd host_platform \<Rightarrow> u32 \<Rightarrow> 'd rumboot_bootsource list \<Rightarrow> u32 \<Rightarrow> u32 \<Rightarrow> 'd world \<Rightarrow> 'd world option"
where
  "hostmode_round p h frame srcs pdata maxsize w =
     (case hostmode_receive p h maxsize w of
        None \<Rightarrow> None
      | Some w \<Rightarrow> hostmode_boot p h frame srcs pdata maxsize w)"

fun hostmode_rounds ::
  "nat \<Rightarrow> 'd platform \<Rightarrow> 'd host_platform \<Rightarrow> u32 \<Rightarrow> 'd rumboot_bootsource list \<Rightarrow> u32 \<Rightarrow> u32 \<Rightarrow> 'd world \<Rightarrow> 'd world option"
where
  "hostmode_rounds 0 p h frame srcs pdata maxsize w = Some w"
| "hostmode_rounds (Suc n) p h frame srcs pdata maxsize w =
     (case hostmode_round p h frame srcs pdata maxsize w of
        None \<Rightarrow> None
      | Some w \<Rightarrow> hostmode_rounds n p h frame srcs pdata maxsize w)"

definition hostmode_loop ::
  "nat \<Rightarrow> 'd platform \<Rightarrow> 'd host_platform \<Rightarrow> u32 \<Rightarrow> 'd rumboot_bootsource list \<Rightarrow> rumboot_config \<Rightarrow> u32 \<Rightarrow> 'd world \<Rightarrow> 'd world option"
where
  "hostmode_loop n p h frame srcs conf pdata w =
     hostmode_rounds n p h frame srcs pdata (pf_spl_size p) (hp_enter_host_mode h conf w)"

section \<open>The ROM\<close>

text \<open>
  \<open>main\<close>. Its first call, \<open>rumboot_irq_set_exception_handler\<close>, only stores a pointer in the runtime information (the
  model is in \<open>Irq\<close>), which is used when the CPU takes an exception; it is left out here, as exceptions are. So are
  the performance marks and messages.
\<close>

definition bootrom_main ::
  "nat \<Rightarrow> 'd platform \<Rightarrow> 'd host_platform \<Rightarrow> u32 \<Rightarrow> 'd rumboot_bootsource list \<Rightarrow> u32 \<Rightarrow> 'd world \<Rightarrow> 'd world option"
where
  "bootrom_main n p h frame srcs pdata w =
     (let w = w\<lparr>w_mem := store32 (pf_big_endian p) (hp_persistent h) 0 (w_mem w)\<rparr>;
          (conf, w) = hp_read_config h w;
          w = hp_init_loader h conf w
      in case (if cfg_selftest conf > 0 then map_option snd (hp_selftest h conf w) else Some w) of
           None \<Rightarrow> None
         | Some w \<Rightarrow>
             if cfg_hostmode conf then hostmode_loop n p h frame srcs conf pdata w
             else (case bootsource_try_chain p frame srcs pdata (hp_spl h) (pf_spl_size p) w of
                     None \<Rightarrow> None
                   | Some w \<Rightarrow> hostmode_loop n p h frame srcs conf pdata w))"

section \<open>What is rejected is not run\<close>

lemma bad_magic:
  assumes "0 < n" "n \<le> 2 ^ 31"
  shows "rumboot_bootimage_check_header p (store32 (pf_big_endian p) hdr (of_int n) m) hdr = - EBADMAGIC"
proof -
  define v :: u32 where "v = of_int n"
  have "uint v = n" using assms by (simp add: v_def unsigned_of_int take_bit_int_eq_self)
  then have "v \<noteq> 0xb01dface" "v \<noteq> 0xcefa1db0" using assms by auto
  moreover have "swap32 v = 0xb01dface \<Longrightarrow> v = 0xcefa1db0"
    using swap32_involutive [of v] by (simp add: swap32_def)
  ultimately have "hdr_swap p (store32 (pf_big_endian p) hdr v m) hdr = -1"
    by (auto simp: hdr_swap_def rumboot_bootimage_check_magic_def RUMBOOT_HEADER_MAGIC_def)
  then show ?thesis by (simp add: rumboot_bootimage_check_header_def v_def)
qed

lemma check_header_ge: "- (2 ^ 31) \<le> rumboot_bootimage_check_header p m hdr"
proof -
  have "- (2 ^ 31) \<le> sint x" for x :: u32 using sint_ge [of x] by simp
  then show ?thesis by (simp add: rumboot_bootimage_check_header_def Let_def boot_errors)
qed

text \<open>C10: Host mode never runs what it has not validated. When, after the host's character was
  served, the header in the SPL area is not accepted or the checksum of the data is wrong, the
  round ends without running anything: it changes no device and at most the four bytes of the
  magic number, which is invalid afterwards, so that the image is not looked at again.\<close>

theorem host_rejects_without_running:
  assumes "hostmode_receive p h maxsize w = Some w1"
    and "rumboot_bootimage_check_header p (w_mem w1) (hp_spl h) < 0 \<or>
      rumboot_bootimage_check_data p (w_mem w1) (hp_spl h) \<noteq> 0"
  shows "\<exists>w2. hostmode_round p h frame srcs pdata maxsize w = Some w2 \<and> w_dev w2 = w_dev w1 \<and>
    (\<forall>x. \<not> in_range x (hp_spl h) 4 \<longrightarrow> w_mem w2 x = w_mem w1 x) \<and>
    rumboot_bootimage_check_header p (w_mem w2) (hp_spl h) = - EBADMAGIC"
proof -
  let ?len = "rumboot_bootimage_check_header p (w_mem w1) (hp_spl h)"
  have out: "store32 be (hp_spl h) v m x = m x" if "\<not> in_range x (hp_spl h) 4" for be v m x
    using that by (simp add: store32_def mem_write_out)
  consider "?len = - EBADMAGIC" | "?len \<noteq> - EBADMAGIC" "?len < 0"
    | "\<not> ?len < 0" "rumboot_bootimage_check_data p (w_mem w1) (hp_spl h) \<noteq> 0"
    using assms(2) by (auto simp: boot_errors)
  then show ?thesis
  proof cases
    case 1
    then show ?thesis by (simp add: hostmode_round_def assms(1) hostmode_boot_def)
  next
    case 2
    then have "rumboot_bootimage_check_header p (store32 (pf_big_endian p) (hp_spl h) (of_int (- ?len)) (w_mem w1)) (hp_spl h)
        = - EBADMAGIC"
      using check_header_ge [of p "w_mem w1" "hp_spl h"] by (intro bad_magic) auto
    then show ?thesis using 2 by (simp add: hostmode_round_def assms(1) hostmode_boot_def out Let_def)
  next
    case 3
    have "?len \<noteq> - EBADMAGIC" using 3 by (auto simp: boot_errors)
    moreover have "rumboot_bootimage_check_header p (store32 (pf_big_endian p) (hp_spl h) (of_int EBADDATACRC) (w_mem w1)) (hp_spl h)
        = - EBADMAGIC"
      by (intro bad_magic) (simp_all add: EBADDATACRC_def)
    ultimately show ?thesis using 3 by (simp add: hostmode_round_def assms(1) hostmode_boot_def out Let_def)
  qed
qed

section \<open>From the failure of all sources to an uploaded image\<close>

text \<open>The memory after the upload of some blocks, with the device field cleared.\<close>

definition uploaded :: "'d platform \<Rightarrow> 'd host_platform \<Rightarrow> u8 list list \<Rightarrow> mem \<Rightarrow> mem" where
  "uploaded p h blocks m = store32 (pf_big_endian p) (hp_spl h + hdr_device) 0 (mem_write m (hp_spl h) (concat blocks))"

lemma clear_device: "load32 be m a = 0 \<Longrightarrow> store32 be a 0 m = m"
  using store32_load32 [of be a m] by simp

lemma cleared_device_stays:
  "store32 be (hdr + hdr_device) 0 (store32 be hdr 0 (store32 be (hdr + hdr_device) 0 m))
     = store32 be hdr 0 (store32 be (hdr + hdr_device) 0 m)"
proof
  fix x
  have "\<not> in_range x hdr 4" if "in_range x (hdr + 60) 4"
  proof -
    have "unat (y + 60) = unat y + 60" if "unat y < 4" for y :: u32
      using that by (simp add: unat_word_ariths)
    from this [of "x - (hdr + 60)"] that show ?thesis by (simp add: in_range_def)
  qed
  then show "store32 be (hdr + hdr_device) 0 (store32 be hdr 0 (store32 be (hdr + hdr_device) 0 m)) x
     = store32 be hdr 0 (store32 be (hdr + hdr_device) 0 m) x"
    by (cases "in_range x (hdr + 60) 4") (simp_all add: store32_def mem_write_def in_range_def hdr_device_def)
qed

lemma host_upload_received:
  assumes "hp_line h = wire" "\<not> hp_char_signed h" "w_dev (hp_sv_event h ''HOST'' w) = (0x58 # xmodem_frames 1 blocks, out)"
    and "\<forall>x \<in> set blocks. length x \<in> {128, 1024}" "blocks \<noteq> []" "length (concat blocks) < 2 ^ 31"
    and "\<And>d. mdelay (hp_hw h) 100 d \<noteq> None"
  shows "\<exists>d. hostmode_receive p h maxsize w = Some \<lparr>w_mem = uploaded p h blocks (w_mem (hp_sv_event h ''HOST'' w)), w_dev = d\<rparr>"
proof -
  let ?w = "hp_sv_event h ''HOST'' w"
  obtain sent where g: "xmodem_get False wire (hp_spl h) maxsize (w_mem ?w) (xmodem_frames 1 blocks, out)
      = Some (int (length (concat blocks)), mem_write (w_mem ?w) (hp_spl h) (concat blocks), ([], sent))"
    using xmodem_upload_arrives [OF assms(4,6), of "hp_spl h" maxsize "w_mem ?w" out] by blast
  have "0 < length (concat blocks)"
    using assms(4,5) by (cases blocks) auto
  moreover obtain d where "mdelay (hp_hw h) 100 ([], sent) = Some d" using assms(7) by blast
  ultimately have u: "hostmode_upload p h maxsize (?w\<lparr>w_dev := (xmodem_frames 1 blocks, out)\<rparr>)
      = Some \<lparr>w_mem = mem_write (w_mem ?w) (hp_spl h) (concat blocks), w_dev = d\<rparr>"
    using assms(1,2) g by (simp add: hostmode_upload_def)
  show ?thesis
    using u assms(1,3) clear_device by (auto simp: hostmode_receive_def Let_def uploaded_def)
qed

text \<open>C9: The ROM boots what a host uploads when no boot source works. If self test and forced
  host mode are off, every source of the table fails (none with the request for host mode), and
  the host answers the host mode with an \<open>X\<close> and an XMODEM upload of an image that validates and
  starts the boot cluster without relocation or decompression, then the first round of host mode
  runs the entry point of the uploaded image with its boot arguments, in the memory the upload
  left (magic number wiped); a positive answer boots from the source of that number.\<close>

theorem rom_boots_host_upload:
  assumes conf: "hp_read_config h (w\<lparr>w_mem := store32 (pf_big_endian p) (hp_persistent h) 0 (w_mem w)\<rparr>) = (conf, w0)"
      "cfg_selftest conf \<le> 0" "\<not> cfg_hostmode conf"
    and fail: "\<And>s w ret off w'. s \<in> set srcs \<Longrightarrow> bootsource_try_single p frame s pdata (hp_spl h) (pf_spl_size p)
      (ucast (bs_offset (bs_cfg s))) w = Some (ret, off, w') \<Longrightarrow> ret < 0 \<and> ret \<noteq> - ETOHOST"
    and after: "after_sources p frame srcs pdata (hp_spl h) (pf_spl_size p) (hp_init_loader h conf w0) = Some w1"
    and host: "hp_sv_event h ''HOST'' (hp_enter_host_mode h conf w1) = w2"
      "hp_line h = wire" "\<not> hp_char_signed h" "w_dev w2 = (0x58 # xmodem_frames 1 blocks, out)"
      "\<And>d. mdelay (hp_hw h) 100 d \<noteq> None"
    and blocks: "\<forall>x \<in> set blocks. length x \<in> {128, 1024}" "blocks \<noteq> []" "length (concat blocks) < 2 ^ 31"
  defines "m \<equiv> uploaded p h blocks (w_mem w2)"
  assumes valid: "0 \<le> rumboot_bootimage_check_header p m (hp_spl h)" "rumboot_bootimage_check_data p m (hp_spl h) = 0"
    and plain: "m (hp_spl h + hdr_flags) = 0"
      "m (hp_spl h + hdr_version) = 2 \<or> m (hp_spl h + hdr_target_cpu_cluster) = 0"
    and cpu: "pf_cpus p \<noteq> []" "cl_start (hd (pf_cpus p)) = Some (rumboot_bootimage_jump_to_ep_with_args p)"
      "cl_poll (hd (pf_cpus p)) = None"
  defines "swap \<equiv> hdr_swap p m (hp_spl h)"
  shows "\<exists>d. bootrom_main 1 p h frame srcs pdata w =
    (case pf_run p (hdr_item32 p m (hp_spl h + hdr_entry_point) swap)
        (map (\<lambda>i. hdr_item32 p m (hp_spl h + hdr_bootargs + 4 * of_nat i) swap) [0..<5])
        \<lparr>w_mem = store32 (pf_big_endian p) (hp_spl h) 0 m, w_dev = d\<rparr> of
      None \<Rightarrow> None
    | Some (ret, w) \<Rightarrow>
        if ret > 0 then map_option snd (bootsource_try_by_id p frame srcs (ret - 1) pdata (hp_spl h) (pf_spl_size p) w)
        else Some w)"
proof -
  obtain d where r: "hostmode_receive p h (pf_spl_size p) (hp_enter_host_mode h conf w1) = Some \<lparr>w_mem = m, w_dev = d\<rparr>"
    using host_upload_received [OF host(2,3) _ blocks host(5), of "hp_enter_host_mode h conf w1" out p "pf_spl_size p"] host(1,4)
    by (auto simp: m_def)
  have c: "bootsource_try_chain p frame srcs pdata (hp_spl h) (pf_spl_size p) (hp_init_loader h conf w0) = Some w1"
    using chain_all_fail [of srcs p frame pdata "hp_spl h" "pf_spl_size p"] fail after by metis
  have z: "store32 (pf_big_endian p) (hp_spl h + hdr_device) 0 (store32 (pf_big_endian p) (hp_spl h) 0 m)
      = store32 (pf_big_endian p) (hp_spl h) 0 m"
    unfolding m_def uploaded_def by (rule cleared_device_stays)
  have e: "rumboot_bootimage_execute p frame (hp_spl h) 0 \<lparr>w_mem = m, w_dev = d\<rparr> =
      pf_run p (hdr_item32 p m (hp_spl h + hdr_entry_point) swap)
        (map (\<lambda>i. hdr_item32 p m (hp_spl h + hdr_bootargs + 4 * of_nat i) swap) [0..<5])
        \<lparr>w_mem = store32 (pf_big_endian p) (hp_spl h) 0 m, w_dev = d\<rparr>"
    using execute_plain [of "\<lparr>w_mem = m, w_dev = d\<rparr>" "hp_spl h" p frame 0] plain cpu z
    by (simp add: swap_def hdr_entry_point_def hdr_bootargs_def hdr_device_def)
  have "rumboot_bootimage_check_header p m (hp_spl h) \<noteq> - EBADMAGIC"
    using valid(1) by (auto simp: boot_errors)
  then have "hostmode_round p h frame srcs pdata (pf_spl_size p) (hp_enter_host_mode h conf w1) =
      (case rumboot_bootimage_execute p frame (hp_spl h) 0 \<lparr>w_mem = m, w_dev = d\<rparr> of
        None \<Rightarrow> None
      | Some (ret, w) \<Rightarrow>
          if ret > 0 then map_option snd (bootsource_try_by_id p frame srcs (ret - 1) pdata (hp_spl h) (pf_spl_size p) w)
          else Some w)"
    using valid by (simp add: hostmode_round_def r hostmode_boot_def Let_def)
  then show ?thesis
    unfolding e
    by (intro exI [of _ d]) (use conf c in \<open>simp add: bootrom_main_def hostmode_loop_def split: option.splits\<close>)
qed

section \<open>Witnesses\<close>

text \<open>A platform on the serial line \<open>wire\<close>, with a timer that advances by a millisecond whenever
  it is read and logs that on the line; what an image does is to replace the log.\<close>

definition host_base :: "(int list \<times> u8 list) platform" where
  "host_base = \<lparr>pf_big_endian = False, pf_endian_swap = True, pf_chip_id = 4, pf_header_version = 3,
     pf_cpus = [], pf_check_entry_points = (\<lambda>m hdr. True), pf_spl_size = 0x10000,
     pf_run = (\<lambda>ep args w. Some (0, w\<lparr>w_dev := ([], [0x42])\<rparr>))\<rparr>"

definition host_pf :: "(int list \<times> u8 list) platform" where
  "host_pf = host_base\<lparr>pf_cpus := [\<lparr>cl_base = 0, cl_kill = None, cl_poll = None,
     cl_start = Some (rumboot_bootimage_jump_to_ep_with_args host_base)\<rparr>]\<rparr>"

definition host_conf :: rumboot_config where
  "host_conf = \<lparr>cfg_hostmode = False, cfg_secure_boot = False, cfg_selftest = 0, cfg_edcl = 0,
     cfg_legacyboot = False, cfg_baudrate = 115200\<rparr>"

definition host_demo :: "(int list \<times> u8 list) host_platform" where
  "host_demo = \<lparr>hp_line = wire, hp_char_signed = False,
     hp_hw = \<lparr>hw_read32 = (\<lambda>a d. (0, d)), hw_write32 = (\<lambda>v a d. d),
       hw_uptime = (\<lambda>(i, out). (1000 * of_nat (length out), (i, out @ [0])))\<rparr>,
     hp_spl = 0x1000, hp_persistent = 0x400, hp_read_config = (\<lambda>w. (host_conf, w)),
     hp_init_loader = (\<lambda>conf w. w), hp_selftest = (\<lambda>conf w. Some (0, w)),
     hp_enter_host_mode = (\<lambda>conf w. w), hp_sv_event = (\<lambda>name w. w)\<rparr>"

definition host_source :: "(int list \<times> u8 list) rumboot_bootsource" where
  "host_source = \<lparr>bs_cfg = \<lparr>bs_addr = 0x7000, bs_base = 0, bs_offset = 8192, bs_base_freq_khz = 0,
       bs_iface_freq_khz = 0, bs_slave_addr = 0, bs_chipselect = None\<rparr>,
     bs_plugin = \<lparr>bm_align = 512, bm_init = None, bm_deinit = None,
       bm_read = (\<lambda>cfg pdata dest offset len w. Some (0, w))\<rparr>,
     bs_enable = Some (\<lambda>pdata w. (False, w)), bs_disable = None\<rparr>"

lemma host_source_fails:
  "bootsource_try_single p frame host_source pdata hdr maxsize offset w = Some (- EBADSOURCE, offset, w)"
  by (subst bootsource_try_single.simps)
    (simp add: bootsource_try_source_once_def bootsource_init_def bootsource_disable_def
      host_source_def EBADSOURCE_def)

lemma host_udelay: "udelay (hp_hw host_demo) 1000 (i, out) = Some (i, out @ [0, 0])"
  by (simp add: udelay_def loop_until_timeout_def rumboot_platform_get_uptime_def host_demo_def loop_until_from.simps
      algebra_simps)

lemma host_mdelay: "mdelay (hp_hw host_demo) ms d \<noteq> None"
proof -
  have "mdelay_loop (hp_hw host_demo) n (i, out) \<noteq> None" for n i out
    by (induction n arbitrary: out) (simp_all add: host_udelay)
  then show ?thesis by (cases d) (simp add: mdelay_def)
qed

lemma load32_zero: "load32 False (\<lambda>_. 0) a = 0"
  by (simp add: load32_def u32_of_def mem_read_def upt_rec)

lemma host_simps:
  "pf_big_endian host_pf = False" "pf_endian_swap host_pf = True" "pf_chip_id host_pf = 4" "pf_header_version host_pf = 3"
  "pf_check_entry_points host_pf = (\<lambda>m hdr. True)" "pf_spl_size host_pf = 0x10000"
  "pf_run host_pf = (\<lambda>ep args w. Some (0, w\<lparr>w_dev := ([], [0x42])\<rparr>))"
  "get_cpu host_pf 0 = Some (hd (pf_cpus host_pf))" "pf_cpus host_pf \<noteq> []" "cl_poll (hd (pf_cpus host_pf)) = None"
  "cl_start (hd (pf_cpus host_pf)) = Some (rumboot_bootimage_jump_to_ep_with_args host_pf)"
  by (auto simp: host_pf_def host_base_def get_cpu_def rumboot_bootimage_jump_to_ep_with_args_def
      hdr_item32_def rumboot_bootimage_header_item32_def intro!: ext)

lemma host_uploaded: "uploaded host_pf host_demo [demo_bytes @ replicate 60 0] (\<lambda>_. 0) = demo_mem"
proof -
  have b: "mem_write (\<lambda>_. 0) 0x1000 (demo_bytes @ replicate 60 0) = demo_mem"
    unfolding demo_mem_def
    by (rule ext) (simp add: mem_write_def nth_append)
  have "load32 False demo_mem 0x103C = 0"
    using demo_read [of 60 4] by (simp add: load32_def demo_bytes_def demo_data_def u32_of_def)
  then show ?thesis using clear_device by (simp add: uploaded_def host_simps host_demo_def hdr_device_def b)
qed

lemmas host_image_valid = demo_valid_on [of host_pf, simplified host_simps, simplified]

theorem rom_boots_host_upload_witness:
  "\<exists>m. bootrom_main 1 host_pf host_demo 0x8000 [host_source] 0x7000
     \<lparr>w_mem = (\<lambda>_. 0), w_dev = (0x58 # xmodem_frames 1 [demo_bytes @ replicate 60 0], [])\<rparr>
     = Some \<lparr>w_mem = m, w_dev = ([], [0x42])\<rparr>"
proof -
  let ?w = "\<lparr>w_mem = (\<lambda>_. 0), w_dev = (0x58 # xmodem_frames 1 [demo_bytes @ replicate 60 0], [])\<rparr>"
  have z: "store32 False 0x400 0 (\<lambda>_. 0) = (\<lambda>_. 0)"
    by (rule clear_device) (rule load32_zero)
  note hd = host_demo_def host_platform.simps
  note t = rom_boots_host_upload [where h = host_demo and w = ?w and p = host_pf and conf = host_conf and ?w0.0 = ?w
        and srcs = "[host_source]" and frame = "0x8000" and pdata = "0x7000" and ?w1.0 = ?w and ?w2.0 = ?w
        and blocks = "[demo_bytes @ replicate 60 0]" and out = "[]", unfolded world.simps host_uploaded]
  have "\<exists>d. bootrom_main 1 host_pf host_demo 0x8000 [host_source] 0x7000 ?w
      = (case pf_run host_pf (hdr_item32 host_pf demo_mem (hp_spl host_demo + hdr_entry_point) (hdr_swap host_pf demo_mem (hp_spl host_demo)))
        (map (\<lambda>i. hdr_item32 host_pf demo_mem (hp_spl host_demo + hdr_bootargs + 4 * of_nat i) (hdr_swap host_pf demo_mem (hp_spl host_demo))) [0..<5])
        \<lparr>w_mem = store32 (pf_big_endian host_pf) (hp_spl host_demo) 0 demo_mem, w_dev = d\<rparr> of
      None \<Rightarrow> None
    | Some (ret, w) \<Rightarrow>
        if ret > 0 then map_option snd (bootsource_try_by_id host_pf 0x8000 [host_source] (ret - 1) 0x7000 (hp_spl host_demo) (pf_spl_size host_pf) w)
        else Some w)"
  proof (rule t, goal_cases)
    case 1
    then show ?case by (simp add: hd host_simps z)
  next
    case (4 s w ret off w')
    then show ?case by (auto simp: host_source_fails EBADSOURCE_def ETOHOST_def)
  next
    case (10 d)
    show ?case by (rule host_mdelay)
  qed (simp_all add: host_simps host_image_valid demo_fields hdr_offsets host_source_fails host_conf_def,
       simp_all add: hd host_image_valid demo_fields)
  then show ?thesis by (auto simp: host_simps)
qed

text \<open>A magic number without a valid header.\<close>

theorem host_rejects_without_running_witness:
  "\<exists>w2. hostmode_round host_pf host_demo 0x8000 [] 0x7000 0x10000
      \<lparr>w_mem = store32 False 0x1000 RUMBOOT_HEADER_MAGIC (\<lambda>_. 0), w_dev = ([], [])\<rparr> = Some w2 \<and>
    w_dev w2 = ([], []) \<and> rumboot_bootimage_check_header host_pf (w_mem w2) 0x1000 = - EBADMAGIC"
proof -
  let ?m = "store32 False 0x1000 RUMBOOT_HEADER_MAGIC (\<lambda>_. 0)"
  let ?w = "\<lparr>w_mem = ?m, w_dev = ([], [])\<rparr> :: (int list \<times> u8 list) world"
  have "mem_read ?m (0x1000 + of_nat 60) 4 = mem_read (\<lambda>_. 0) (0x1000 + of_nat 60) 4"
    using read_unchanged_after [of 0 "bytes_of False 4 RUMBOOT_HEADER_MAGIC" 60 4 "\<lambda>_. 0" "0x1000"]
    by (simp add: store32_def)
  then have "load32 False ?m 0x103C = 0" using load32_cong [of ?m "0x103C" "\<lambda>_. 0" False] by (simp add: load32_zero)
  then have r: "hostmode_receive host_pf host_demo 0x10000 ?w = Some ?w"
    by (simp add: hostmode_receive_def host_demo_def host_simps hdr_device_def)
  have v: "?m 0x1004 = 0" by (simp add: store32_def mem_write_def)
  have c: "rumboot_bootimage_check_header host_pf ?m 0x1000 < 0"
    by (simp add: rumboot_bootimage_check_header_def hdr_version_def v boot_errors Let_def host_simps)
  show ?thesis
    using host_rejects_without_running [OF r, of "0x8000" "[]" "0x7000"] c by (auto simp: host_demo_def)
qed

end
