(* ===== verification/Aes.thy ===== *)
theory Aes
  imports C_Memory
begin

text \<open>
  AES-128, \<open>src/lib/algo/aes.c\<close> and \<open>include/algo/aes.h\<close>, in the configuration of the header: ECB, CBC
  and CTR. A state is the list of the 16 bytes of \<open>state_t\<close> (\<open>state[i][j]\<close> is element \<open>4i + j\<close>), the
  context a record, and the buffer lies in memory. The context is an object of its own, so buffer
  and context do not overlap. The loops over the buffer count their rounds.
\<close>

section \<open>Tables\<close>

definition sbox :: "u8 list" where
  "sbox =
    [0x63, 0x7c, 0x77, 0x7b, 0xf2, 0x6b, 0x6f, 0xc5, 0x30, 0x01, 0x67, 0x2b, 0xfe, 0xd7, 0xab, 0x76,
     0xca, 0x82, 0xc9, 0x7d, 0xfa, 0x59, 0x47, 0xf0, 0xad, 0xd4, 0xa2, 0xaf, 0x9c, 0xa4, 0x72, 0xc0,
     0xb7, 0xfd, 0x93, 0x26, 0x36, 0x3f, 0xf7, 0xcc, 0x34, 0xa5, 0xe5, 0xf1, 0x71, 0xd8, 0x31, 0x15,
     0x04, 0xc7, 0x23, 0xc3, 0x18, 0x96, 0x05, 0x9a, 0x07, 0x12, 0x80, 0xe2, 0xeb, 0x27, 0xb2, 0x75,
     0x09, 0x83, 0x2c, 0x1a, 0x1b, 0x6e, 0x5a, 0xa0, 0x52, 0x3b, 0xd6, 0xb3, 0x29, 0xe3, 0x2f, 0x84,
     0x53, 0xd1, 0x00, 0xed, 0x20, 0xfc, 0xb1, 0x5b, 0x6a, 0xcb, 0xbe, 0x39, 0x4a, 0x4c, 0x58, 0xcf,
     0xd0, 0xef, 0xaa, 0xfb, 0x43, 0x4d, 0x33, 0x85, 0x45, 0xf9, 0x02, 0x7f, 0x50, 0x3c, 0x9f, 0xa8,
     0x51, 0xa3, 0x40, 0x8f, 0x92, 0x9d, 0x38, 0xf5, 0xbc, 0xb6, 0xda, 0x21, 0x10, 0xff, 0xf3, 0xd2,
     0xcd, 0x0c, 0x13, 0xec, 0x5f, 0x97, 0x44, 0x17, 0xc4, 0xa7, 0x7e, 0x3d, 0x64, 0x5d, 0x19, 0x73,
     0x60, 0x81, 0x4f, 0xdc, 0x22, 0x2a, 0x90, 0x88, 0x46, 0xee, 0xb8, 0x14, 0xde, 0x5e, 0x0b, 0xdb,
     0xe0, 0x32, 0x3a, 0x0a, 0x49, 0x06, 0x24, 0x5c, 0xc2, 0xd3, 0xac, 0x62, 0x91, 0x95, 0xe4, 0x79,
     0xe7, 0xc8, 0x37, 0x6d, 0x8d, 0xd5, 0x4e, 0xa9, 0x6c, 0x56, 0xf4, 0xea, 0x65, 0x7a, 0xae, 0x08,
     0xba, 0x78, 0x25, 0x2e, 0x1c, 0xa6, 0xb4, 0xc6, 0xe8, 0xdd, 0x74, 0x1f, 0x4b, 0xbd, 0x8b, 0x8a,
     0x70, 0x3e, 0xb5, 0x66, 0x48, 0x03, 0xf6, 0x0e, 0x61, 0x35, 0x57, 0xb9, 0x86, 0xc1, 0x1d, 0x9e,
     0xe1, 0xf8, 0x98, 0x11, 0x69, 0xd9, 0x8e, 0x94, 0x9b, 0x1e, 0x87, 0xe9, 0xce, 0x55, 0x28, 0xdf,
     0x8c, 0xa1, 0x89, 0x0d, 0xbf, 0xe6, 0x42, 0x68, 0x41, 0x99, 0x2d, 0x0f, 0xb0, 0x54, 0xbb, 0x16]"

definition rsbox :: "u8 list" where
  "rsbox =
    [0x52, 0x09, 0x6a, 0xd5, 0x30, 0x36, 0xa5, 0x38, 0xbf, 0x40, 0xa3, 0x9e, 0x81, 0xf3, 0xd7, 0xfb,
     0x7c, 0xe3, 0x39, 0x82, 0x9b, 0x2f, 0xff, 0x87, 0x34, 0x8e, 0x43, 0x44, 0xc4, 0xde, 0xe9, 0xcb,
     0x54, 0x7b, 0x94, 0x32, 0xa6, 0xc2, 0x23, 0x3d, 0xee, 0x4c, 0x95, 0x0b, 0x42, 0xfa, 0xc3, 0x4e,
     0x08, 0x2e, 0xa1, 0x66, 0x28, 0xd9, 0x24, 0xb2, 0x76, 0x5b, 0xa2, 0x49, 0x6d, 0x8b, 0xd1, 0x25,
     0x72, 0xf8, 0xf6, 0x64, 0x86, 0x68, 0x98, 0x16, 0xd4, 0xa4, 0x5c, 0xcc, 0x5d, 0x65, 0xb6, 0x92,
     0x6c, 0x70, 0x48, 0x50, 0xfd, 0xed, 0xb9, 0xda, 0x5e, 0x15, 0x46, 0x57, 0xa7, 0x8d, 0x9d, 0x84,
     0x90, 0xd8, 0xab, 0x00, 0x8c, 0xbc, 0xd3, 0x0a, 0xf7, 0xe4, 0x58, 0x05, 0xb8, 0xb3, 0x45, 0x06,
     0xd0, 0x2c, 0x1e, 0x8f, 0xca, 0x3f, 0x0f, 0x02, 0xc1, 0xaf, 0xbd, 0x03, 0x01, 0x13, 0x8a, 0x6b,
     0x3a, 0x91, 0x11, 0x41, 0x4f, 0x67, 0xdc, 0xea, 0x97, 0xf2, 0xcf, 0xce, 0xf0, 0xb4, 0xe6, 0x73,
     0x96, 0xac, 0x74, 0x22, 0xe7, 0xad, 0x35, 0x85, 0xe2, 0xf9, 0x37, 0xe8, 0x1c, 0x75, 0xdf, 0x6e,
     0x47, 0xf1, 0x1a, 0x71, 0x1d, 0x29, 0xc5, 0x89, 0x6f, 0xb7, 0x62, 0x0e, 0xaa, 0x18, 0xbe, 0x1b,
     0xfc, 0x56, 0x3e, 0x4b, 0xc6, 0xd2, 0x79, 0x20, 0x9a, 0xdb, 0xc0, 0xfe, 0x78, 0xcd, 0x5a, 0xf4,
     0x1f, 0xdd, 0xa8, 0x33, 0x88, 0x07, 0xc7, 0x31, 0xb1, 0x12, 0x10, 0x59, 0x27, 0x80, 0xec, 0x5f,
     0x60, 0x51, 0x7f, 0xa9, 0x19, 0xb5, 0x4a, 0x0d, 0x2d, 0xe5, 0x7a, 0x9f, 0x93, 0xc9, 0x9c, 0xef,
     0xa0, 0xe0, 0x3b, 0x4d, 0xae, 0x2a, 0xf5, 0xb0, 0xc8, 0xeb, 0xbb, 0x3c, 0x83, 0x53, 0x99, 0x61,
     0x17, 0x2b, 0x04, 0x7e, 0xba, 0x77, 0xd6, 0x26, 0xe1, 0x69, 0x14, 0x63, 0x55, 0x21, 0x0c, 0x7d]"

definition Rcon :: "u8 list" where
  "Rcon = [0x8d, 0x01, 0x02, 0x04, 0x08, 0x10, 0x20, 0x40, 0x80, 0x1b, 0x36]"

definition Nb :: nat where "Nb = 4"
definition Nk :: nat where "Nk = 4"
definition Nr :: nat where "Nr = 10"
definition AES_BLOCKLEN :: nat where "AES_BLOCKLEN = 16"

record AES_ctx =
  RoundKey :: "u8 list"
  Iv :: "u8 list"

definition getSBoxValue :: "u8 \<Rightarrow> u8" where "getSBoxValue num = sbox ! unat num"

definition getSBoxInvert :: "u8 \<Rightarrow> u8" where "getSBoxInvert num = rsbox ! unat num"

section \<open>Key schedule\<close>

text \<open>One round of the second loop: the words are appended in order.\<close>

definition key_word :: "nat \<Rightarrow> u8 list \<Rightarrow> u8 list" where
  "key_word i rk =
     (let tempa = take 4 (drop ((i - 1) * 4) rk);
          tempa = (if i mod Nk = 0
                   then (let t = map getSBoxValue (rotate1 tempa) in (t ! 0 XOR Rcon ! (i div Nk)) # tl t)
                   else tempa)
      in rk @ map2 (XOR) (take 4 (drop ((i - Nk) * 4) rk)) tempa)"

definition KeyExpansion :: "u8 list \<Rightarrow> u8 list" where
  "KeyExpansion key = foldl (\<lambda>rk i. key_word i rk) (take (4 * Nk) key) [Nk ..< Nb * (Nr + 1)]"

definition AES_init_ctx :: "AES_ctx \<Rightarrow> u8 list \<Rightarrow> AES_ctx" where
  "AES_init_ctx ctx key = ctx\<lparr>RoundKey := KeyExpansion key\<rparr>"

definition AES_init_ctx_iv :: "AES_ctx \<Rightarrow> u8 list \<Rightarrow> u8 list \<Rightarrow> AES_ctx" where
  "AES_init_ctx_iv ctx key iv = ctx\<lparr>RoundKey := KeyExpansion key, Iv := take AES_BLOCKLEN iv\<rparr>"

definition AES_ctx_set_iv :: "AES_ctx \<Rightarrow> u8 list \<Rightarrow> AES_ctx" where
  "AES_ctx_set_iv ctx iv = ctx\<lparr>Iv := take AES_BLOCKLEN iv\<rparr>"

section \<open>Rounds\<close>

definition AddRoundKey :: "nat \<Rightarrow> u8 list \<Rightarrow> u8 list \<Rightarrow> u8 list" where
  "AddRoundKey round state rk = map2 (XOR) state (take 16 (drop (round * Nb * 4) rk))"

definition SubBytes :: "u8 list \<Rightarrow> u8 list" where "SubBytes state = map getSBoxValue state"

definition ShiftRows :: "u8 list \<Rightarrow> u8 list" where
  "ShiftRows s = [s ! 0, s ! 5, s ! 10, s ! 15, s ! 4, s ! 9, s ! 14, s ! 3,
                  s ! 8, s ! 13, s ! 2, s ! 7, s ! 12, s ! 1, s ! 6, s ! 11]"

definition xtime :: "u8 \<Rightarrow> u8" where
  "xtime x = push_bit 1 x XOR (drop_bit 7 x AND 1) * 0x1b"

text \<open>One column of \<open>MixColumns\<close>.\<close>

definition mix_column :: "u8 list \<Rightarrow> u8 list" where
  "mix_column s =
     (let t = s ! 0; Tmp = s ! 0 XOR s ! 1 XOR s ! 2 XOR s ! 3
      in [s ! 0 XOR (xtime (s ! 0 XOR s ! 1) XOR Tmp), s ! 1 XOR (xtime (s ! 1 XOR s ! 2) XOR Tmp),
          s ! 2 XOR (xtime (s ! 2 XOR s ! 3) XOR Tmp), s ! 3 XOR (xtime (s ! 3 XOR t) XOR Tmp)])"

definition column :: "nat \<Rightarrow> u8 list \<Rightarrow> u8 list" where "column i s = take 4 (drop (4 * i) s)"

definition MixColumns :: "u8 list \<Rightarrow> u8 list" where
  "MixColumns s = concat (map (\<lambda>i. mix_column (column i s)) [0..<4])"

definition Multiply :: "u8 \<Rightarrow> u8 \<Rightarrow> u8" where
  "Multiply x y =
     (y AND 1) * x XOR (drop_bit 1 y AND 1) * xtime x XOR (drop_bit 2 y AND 1) * xtime (xtime x)
     XOR (drop_bit 3 y AND 1) * xtime (xtime (xtime x)) XOR (drop_bit 4 y AND 1) * xtime (xtime (xtime (xtime x)))"

definition inv_mix_column :: "u8 list \<Rightarrow> u8 list" where
  "inv_mix_column s =
     (let a = s ! 0; b = s ! 1; c = s ! 2; d = s ! 3
      in [Multiply a 0x0e XOR Multiply b 0x0b XOR Multiply c 0x0d XOR Multiply d 0x09,
          Multiply a 0x09 XOR Multiply b 0x0e XOR Multiply c 0x0b XOR Multiply d 0x0d,
          Multiply a 0x0d XOR Multiply b 0x09 XOR Multiply c 0x0e XOR Multiply d 0x0b,
          Multiply a 0x0b XOR Multiply b 0x0d XOR Multiply c 0x09 XOR Multiply d 0x0e])"

definition InvMixColumns :: "u8 list \<Rightarrow> u8 list" where
  "InvMixColumns s = concat (map (\<lambda>i. inv_mix_column (column i s)) [0..<4])"

definition InvSubBytes :: "u8 list \<Rightarrow> u8 list" where "InvSubBytes state = map getSBoxInvert state"

definition InvShiftRows :: "u8 list \<Rightarrow> u8 list" where
  "InvShiftRows s = [s ! 0, s ! 13, s ! 10, s ! 7, s ! 4, s ! 1, s ! 14, s ! 11,
                     s ! 8, s ! 5, s ! 2, s ! 15, s ! 12, s ! 9, s ! 6, s ! 3]"

section \<open>The block cipher\<close>

text \<open>The loop with \<open>n\<close> rounds to go before the last one.\<close>

fun cipher_loop :: "nat \<Rightarrow> u8 list \<Rightarrow> u8 list \<Rightarrow> u8 list" where
  "cipher_loop 0 rk s = ShiftRows (SubBytes s)"
| "cipher_loop (Suc n) rk s =
     cipher_loop n rk (AddRoundKey (Nr - Suc n) (MixColumns (ShiftRows (SubBytes s))) rk)"

definition Cipher :: "u8 list \<Rightarrow> u8 list \<Rightarrow> u8 list" where
  "Cipher s rk = AddRoundKey Nr (cipher_loop (Nr - 1) rk (AddRoundKey 0 s rk)) rk"

fun inv_cipher_loop :: "nat \<Rightarrow> u8 list \<Rightarrow> u8 list \<Rightarrow> u8 list" where
  "inv_cipher_loop 0 rk s = AddRoundKey 0 (InvSubBytes (InvShiftRows s)) rk"
| "inv_cipher_loop (Suc round) rk s =
     inv_cipher_loop round rk (InvMixColumns (AddRoundKey (Suc round) (InvSubBytes (InvShiftRows s)) rk))"

definition InvCipher :: "u8 list \<Rightarrow> u8 list \<Rightarrow> u8 list" where
  "InvCipher s rk = inv_cipher_loop (Nr - 1) rk (AddRoundKey Nr s rk)"

section \<open>Modes of operation\<close>

definition AES_ECB_encrypt :: "AES_ctx \<Rightarrow> u32 \<Rightarrow> mem \<Rightarrow> mem" where
  "AES_ECB_encrypt ctx buf m = mem_write m buf (Cipher (mem_read m buf 16) (RoundKey ctx))"

definition AES_ECB_decrypt :: "AES_ctx \<Rightarrow> u32 \<Rightarrow> mem \<Rightarrow> mem" where
  "AES_ECB_decrypt ctx buf m = mem_write m buf (InvCipher (mem_read m buf 16) (RoundKey ctx))"

definition XorWithIv :: "u8 list \<Rightarrow> u8 list \<Rightarrow> u8 list" where "XorWithIv buf iv = map2 (XOR) buf iv"

text \<open>How often \<open>for (i = 0; i < length; i += 16)\<close> runs, for lengths where \<open>i\<close> does not wrap around.\<close>

definition aes_blocks :: "nat \<Rightarrow> nat" where "aes_blocks len = (len + 15) div 16"

fun cbc_encrypt_loop :: "nat \<Rightarrow> u8 list \<Rightarrow> u8 list \<Rightarrow> u32 \<Rightarrow> mem \<Rightarrow> u8 list \<times> mem" where
  "cbc_encrypt_loop 0 rk iv buf m = (iv, m)"
| "cbc_encrypt_loop (Suc n) rk iv buf m =
     (let block = Cipher (XorWithIv (mem_read m buf 16) iv) rk
      in cbc_encrypt_loop n rk block (buf + 16) (mem_write m buf block))"

definition AES_CBC_encrypt_buffer :: "AES_ctx \<Rightarrow> u32 \<Rightarrow> nat \<Rightarrow> mem \<Rightarrow> AES_ctx \<times> mem" where
  "AES_CBC_encrypt_buffer ctx buf len m =
     (let (iv, m) = cbc_encrypt_loop (aes_blocks len) (RoundKey ctx) (Iv ctx) buf m in (ctx\<lparr>Iv := iv\<rparr>, m))"

fun cbc_decrypt_loop :: "nat \<Rightarrow> u8 list \<Rightarrow> u8 list \<Rightarrow> u32 \<Rightarrow> mem \<Rightarrow> u8 list \<times> mem" where
  "cbc_decrypt_loop 0 rk iv buf m = (iv, m)"
| "cbc_decrypt_loop (Suc n) rk iv buf m =
     (let storeNextIv = mem_read m buf 16
      in cbc_decrypt_loop n rk storeNextIv (buf + 16)
           (mem_write m buf (XorWithIv (InvCipher storeNextIv rk) iv)))"

definition AES_CBC_decrypt_buffer :: "AES_ctx \<Rightarrow> u32 \<Rightarrow> nat \<Rightarrow> mem \<Rightarrow> AES_ctx \<times> mem" where
  "AES_CBC_decrypt_buffer ctx buf len m =
     (let (iv, m) = cbc_decrypt_loop (aes_blocks len) (RoundKey ctx) (Iv ctx) buf m in (ctx\<lparr>Iv := iv\<rparr>, m))"

text \<open>The counter, incremented from its last byte; the argument is \<open>bi + 1\<close>.\<close>

fun increment_iv :: "nat \<Rightarrow> u8 list \<Rightarrow> u8 list" where
  "increment_iv 0 iv = iv"
| "increment_iv (Suc bi) iv =
     (if iv ! bi = 255 then increment_iv bi (iv[bi := 0]) else iv[bi := iv ! bi + 1])"

fun ctr_loop :: "nat \<Rightarrow> u8 list \<Rightarrow> nat \<Rightarrow> u8 list \<Rightarrow> u8 list \<Rightarrow> u32 \<Rightarrow> mem \<Rightarrow> u8 list \<times> mem" where
  "ctr_loop 0 rk bi buffer iv buf m = (iv, m)"
| "ctr_loop (Suc n) rk bi buffer iv buf m =
     (let (bi, buffer, iv) =
            (if bi = AES_BLOCKLEN then (0, Cipher iv rk, increment_iv AES_BLOCKLEN iv) else (bi, buffer, iv))
      in ctr_loop n rk (bi + 1) buffer iv (buf + 1) (m(buf := m buf XOR buffer ! bi)))"

text \<open>\<open>buffer\<close> is filled in the first round.\<close>

definition AES_CTR_xcrypt_buffer :: "AES_ctx \<Rightarrow> u32 \<Rightarrow> nat \<Rightarrow> mem \<Rightarrow> AES_ctx \<times> mem" where
  "AES_CTR_xcrypt_buffer ctx buf len m =
     (let (iv, m) = ctr_loop len (RoundKey ctx) AES_BLOCKLEN [] (Iv ctx) buf m in (ctx\<lparr>Iv := iv\<rparr>, m))"

section \<open>Each step is undone by its inverse\<close>

lemma sbox_inverted: "map (\<lambda>x. rsbox ! unat x) sbox = map of_nat [0 ..< 256]"
  by code_simp

lemma sbox_length: "length sbox = 256" by (simp add: sbox_def)

lemma invert_sbox [simp]: "getSBoxInvert (getSBoxValue x) = x"
proof -
  have "unat x < 256" using unsigned_less [of x, where 'a = nat] by simp
  then have "map (\<lambda>x. rsbox ! unat x) sbox ! unat x = x" unfolding sbox_inverted by simp
  then show ?thesis using \<open>unat x < 256\<close> by (simp add: getSBoxInvert_def getSBoxValue_def sbox_length)
qed

lemma inv_sub_bytes [simp]: "InvSubBytes (SubBytes s) = s"
  by (simp add: InvSubBytes_def SubBytes_def o_def)

lemma list_16: "length s = 16 \<Longrightarrow> s = [s ! 0, s ! 1, s ! 2, s ! 3, s ! 4, s ! 5, s ! 6, s ! 7,
   s ! 8, s ! 9, s ! 10, s ! 11, s ! 12, s ! 13, s ! 14, s ! 15]"
  by (rule nth_equalityI) (auto simp: less_Suc_eq numeral_eq_Suc nth_Cons')

lemma inv_shift_rows [simp]: "length s = 16 \<Longrightarrow> InvShiftRows (ShiftRows s) = s"
  using list_16 [of s] by (simp add: InvShiftRows_def ShiftRows_def)

lemma xtime_xor: "xtime (x XOR y) = xtime x XOR xtime y"
proof -
  have t: "drop_bit 7 x AND 1 = of_bool (bit x 7)" for x :: u8
    by (simp add: bit_iff_odd_drop_bit and_one_eq mod_2_eq_odd)
  have e: "xtime x = push_bit 1 x XOR (if bit x 7 then 0x1b else 0)" for x
    by (simp add: xtime_def t)
  show ?thesis unfolding e by (rule bit_word_eqI) (auto simp: bit_simps)
qed

lemma multiply_consts:
  "Multiply x 0x0e = xtime x XOR xtime (xtime x) XOR xtime (xtime (xtime x))"
  "Multiply x 0x0b = x XOR xtime x XOR xtime (xtime (xtime x))"
  "Multiply x 0x0d = x XOR xtime (xtime x) XOR xtime (xtime (xtime x))"
  "Multiply x 0x09 = x XOR xtime (xtime (xtime x))"
  by (simp_all add: Multiply_def)

lemmas xor_ac = xor.assoc xor.commute xor.left_commute

lemma xor_cancel [simp]: "x XOR (x XOR y) = (y :: 'a::len word)"
  by (simp flip: xor.assoc)

lemma inv_mix_column: "length s = 4 \<Longrightarrow> inv_mix_column (mix_column s) = s"
proof -
  assume "length s = 4"
  then obtain a b c d where "s = [a, b, c, d]" by (auto simp: numeral_eq_Suc length_Suc_conv)
  then show ?thesis
    by (simp add: inv_mix_column_def mix_column_def multiply_consts xtime_xor xor_ac)
qed

lemma mix_column_length [simp]: "length (mix_column s) = 4" by (simp add: mix_column_def Let_def)

lemma columns: "length s = 16 \<Longrightarrow> concat (map (\<lambda>i. column i s) [0..<4]) = s"
  using take_add [of 4 4 s] take_add [of 8 4 s] take_add [of 12 4 s] by (simp add: column_def upt_rec)

lemma inv_mix_columns [simp]:
  assumes "length s = 16"
  shows "InvMixColumns (MixColumns s) = s"
proof -
  have l: "length (column i s) = 4" if "i < 4" for i using that assms by (simp add: column_def)
  have "column i (MixColumns s) = mix_column (column i s)" if "i < 4" for i
  proof -
    have "i = 0 \<or> i = 1 \<or> i = 2 \<or> i = 3" using that by auto
    then show ?thesis by (auto simp: column_def MixColumns_def upt_rec)
  qed
  then have "InvMixColumns (MixColumns s) = concat (map (\<lambda>i. column i s) [0..<4])"
    unfolding InvMixColumns_def using l by (intro arg_cong [where f = concat] map_cong) (simp_all add: inv_mix_column)
  then show ?thesis using columns [OF assms] by simp
qed

lemma xor_twice: "length b = length a \<Longrightarrow> map2 (XOR) (map2 (XOR) a b) b = (a :: u8 list)"
  by (induction a b rule: list_induct2') (auto simp: xor.assoc)

lemma step_lengths [simp]:
  "length (ShiftRows s) = 16" "length (SubBytes s) = length s" "length (MixColumns s) = 16"
  "length (InvShiftRows s) = 16" "length (InvSubBytes s) = length s"
  by (simp_all add: ShiftRows_def SubBytes_def MixColumns_def InvShiftRows_def InvSubBytes_def length_concat o_def upt_rec)

lemma add_round_key_length [simp]: "length rk = 176 \<Longrightarrow> round \<le> 10 \<Longrightarrow> length (AddRoundKey round s rk) = min (length s) 16"
  by (simp add: AddRoundKey_def Nb_def)

lemma add_round_key_twice [simp]:
  "length s = 16 \<Longrightarrow> length rk = 176 \<Longrightarrow> round \<le> 10 \<Longrightarrow> AddRoundKey round (AddRoundKey round s rk) rk = s"
  by (simp add: AddRoundKey_def Nb_def xor_twice)

section \<open>The cipher\<close>

lemma cipher_loop_length: "length s = 16 \<Longrightarrow> length rk = 176 \<Longrightarrow> n \<le> 9 \<Longrightarrow> length (cipher_loop n rk s) = 16"
  by (induction n arbitrary: s) (simp_all add: Nr_def)

text \<open>The rounds of both directions, grouped so that they meet in the middle.\<close>

fun rounds :: "nat \<Rightarrow> u8 list \<Rightarrow> u8 list \<Rightarrow> u8 list" where
  "rounds 0 rk s = s"
| "rounds (Suc n) rk s = AddRoundKey (Suc n) (MixColumns (ShiftRows (SubBytes (rounds n rk s)))) rk"

lemma rounds_length: "length s = 16 \<Longrightarrow> length rk = 176 \<Longrightarrow> n \<le> 9 \<Longrightarrow> length (rounds n rk s) = 16"
  by (induction n) simp_all

lemma cipher_loop_rounds:
  "n \<le> 9 \<Longrightarrow> cipher_loop n rk (rounds (9 - n) rk s) = ShiftRows (SubBytes (rounds 9 rk s))"
proof (induction n)
  case (Suc n)
  have "rounds (9 - n) rk s = AddRoundKey (Nr - Suc n) (MixColumns (ShiftRows (SubBytes (rounds (9 - Suc n) rk s)))) rk"
    using Suc.prems by (simp add: Suc_diff_Suc [symmetric] Nr_def)
  then show ?case using Suc by simp
qed simp

lemma inv_cipher_loop_rounds:
  "length s = 16 \<Longrightarrow> length rk = 176 \<Longrightarrow> n \<le> 9 \<Longrightarrow>
   inv_cipher_loop n rk (ShiftRows (SubBytes (rounds n rk s))) = AddRoundKey 0 s rk"
  by (induction n) (simp_all add: rounds_length)

lemma cipher_length [simp]: "length s = 16 \<Longrightarrow> length rk = 176 \<Longrightarrow> length (Cipher s rk) = 16"
  by (simp add: Cipher_def Nr_def cipher_loop_length)

lemma inv_cipher_cipher:
  assumes "length s = 16" "length rk = 176"
  shows "InvCipher (Cipher s rk) rk = s"
proof -
  let ?a = "AddRoundKey 0 s rk"
  have c: "cipher_loop 9 rk ?a = ShiftRows (SubBytes (rounds 9 rk ?a))"
    using cipher_loop_rounds [of 9 rk ?a] by simp
  show ?thesis
    using assms inv_cipher_loop_rounds [of ?a rk 9] rounds_length [of ?a rk 9]
    by (simp add: Cipher_def InvCipher_def Nr_def c)
qed

section \<open>The modes on lists of bytes\<close>

fun cbc_enc :: "nat \<Rightarrow> u8 list \<Rightarrow> u8 list \<Rightarrow> u8 list \<Rightarrow> u8 list \<times> u8 list" where
  "cbc_enc 0 rk iv p = (iv, [])"
| "cbc_enc (Suc n) rk iv p =
     (let b = Cipher (XorWithIv (take 16 p) iv) rk; (iv', c) = cbc_enc n rk b (drop 16 p) in (iv', b @ c))"

fun cbc_dec :: "nat \<Rightarrow> u8 list \<Rightarrow> u8 list \<Rightarrow> u8 list \<Rightarrow> u8 list \<times> u8 list" where
  "cbc_dec 0 rk iv c = (iv, [])"
| "cbc_dec (Suc n) rk iv c =
     (let p = XorWithIv (InvCipher (take 16 c) rk) iv; (iv', ps) = cbc_dec n rk (take 16 c) (drop 16 c) in (iv', p @ ps))"

text \<open>The key stream of counter mode, which depends on the counter only.\<close>

fun ctr_stream :: "nat \<Rightarrow> u8 list \<Rightarrow> nat \<Rightarrow> u8 list \<Rightarrow> u8 list \<Rightarrow> u8 list \<times> u8 list" where
  "ctr_stream 0 rk bi buffer iv = (iv, [])"
| "ctr_stream (Suc n) rk bi buffer iv =
     (let (bi, buffer, iv) =
            (if bi = AES_BLOCKLEN then (0, Cipher iv rk, increment_iv AES_BLOCKLEN iv) else (bi, buffer, iv));
          (iv', ks) = ctr_stream n rk (bi + 1) buffer iv
      in (iv', buffer ! bi # ks))"

lemma xor_iv_length [simp]: "length (XorWithIv a b) = min (length a) (length b)" by (simp add: XorWithIv_def)

lemma xor_iv_twice: "length b = length a \<Longrightarrow> XorWithIv (XorWithIv a b) b = a"
  by (simp add: XorWithIv_def xor_twice)

lemma cbc_enc_length:
  "length p = 16 * n \<Longrightarrow> length rk = 176 \<Longrightarrow> length iv = 16 \<Longrightarrow>
   length (snd (cbc_enc n rk iv p)) = 16 * n \<and> length (fst (cbc_enc n rk iv p)) = 16"
  by (induction n arbitrary: iv p) (simp_all add: Let_def case_prod_beta)

lemma cbc_dec_enc:
  "length p = 16 * n \<Longrightarrow> length rk = 176 \<Longrightarrow> length iv = 16 \<Longrightarrow>
   cbc_dec n rk iv (snd (cbc_enc n rk iv p)) = (fst (cbc_enc n rk iv p), p)"
proof (induction n arbitrary: iv p)
  case (Suc n)
  let ?b = "Cipher (XorWithIv (take 16 p) iv) rk"
  have b: "length ?b = 16" using Suc.prems by simp
  moreover have "XorWithIv (InvCipher ?b rk) iv = take 16 p"
    using Suc.prems by (simp add: inv_cipher_cipher xor_iv_twice)
  ultimately show ?case using Suc.IH [of "drop 16 p" ?b] Suc.prems by (simp add: Let_def case_prod_beta)
qed simp

lemma mem_block_step:
  assumes "length b = 16" "16 + 16 * n < 2 ^ 32"
  shows "mem_read (mem_write m buf b) (buf + 16) (16 * n) = drop 16 (mem_read m buf (16 + 16 * n))"
    "mem_read m buf 16 = take 16 (mem_read m buf (16 + 16 * n))"
    "length ys = 16 * n \<Longrightarrow> mem_write (mem_write m buf b) (buf + 16) ys = mem_write m buf (b @ ys)"
  using read_unchanged_after [of 0 b 16 "16 * n" m buf] assms mem_read_add [of m buf 16 "16 * n"]
    mem_write_append [of b ys m buf]
  by simp_all

lemma cbc_encrypt_memory:
  "16 * n < 2 ^ 32 \<Longrightarrow> length rk = 176 \<Longrightarrow> length iv = 16 \<Longrightarrow>
   cbc_encrypt_loop n rk iv buf m =
     (fst (cbc_enc n rk iv (mem_read m buf (16 * n))), mem_write m buf (snd (cbc_enc n rk iv (mem_read m buf (16 * n)))))"
proof (induction n arbitrary: iv buf m)
  case (Suc n)
  let ?p = "mem_read m buf (16 + 16 * n)"
  let ?b = "Cipher (XorWithIv (take 16 ?p) iv) rk"
  have b: "length ?b = 16" using Suc.prems by simp
  note st = mem_block_step [OF b, where n = n and m = m and buf = buf]
  have "length (snd (cbc_enc n rk ?b (drop 16 ?p))) = 16 * n"
    using cbc_enc_length [of "drop 16 ?p" n rk ?b] b Suc.prems by simp
  then show ?case
    using Suc.IH [of ?b "buf + 16" "mem_write m buf ?b"] Suc.prems b st by (simp add: Let_def case_prod_beta)
qed simp

lemma inv_mix_columns_length [simp]: "length (InvMixColumns s) = 16"
  by (simp add: InvMixColumns_def inv_mix_column_def length_concat o_def Let_def upt_rec)

lemma inv_cipher_length [simp]: "length s = 16 \<Longrightarrow> length rk = 176 \<Longrightarrow> length (InvCipher s rk) = 16"
proof -
  have "length s = 16 \<Longrightarrow> length rk = 176 \<Longrightarrow> n \<le> 9 \<Longrightarrow> length (inv_cipher_loop n rk s) = 16" for n s
    by (induction n arbitrary: s) simp_all
  then show "length s = 16 \<Longrightarrow> length rk = 176 \<Longrightarrow> length (InvCipher s rk) = 16"
    by (simp add: InvCipher_def Nr_def)
qed

lemma cbc_dec_length:
  "length c = 16 * n \<Longrightarrow> length rk = 176 \<Longrightarrow> length iv = 16 \<Longrightarrow> length (snd (cbc_dec n rk iv c)) = 16 * n"
  by (induction n arbitrary: iv c) (simp_all add: Let_def case_prod_beta)

lemma cbc_decrypt_memory:
  "16 * n < 2 ^ 32 \<Longrightarrow> length rk = 176 \<Longrightarrow> length iv = 16 \<Longrightarrow>
   cbc_decrypt_loop n rk iv buf m =
     (fst (cbc_dec n rk iv (mem_read m buf (16 * n))), mem_write m buf (snd (cbc_dec n rk iv (mem_read m buf (16 * n)))))"
proof (induction n arbitrary: iv buf m)
  case (Suc n)
  let ?c = "mem_read m buf (16 + 16 * n)"
  let ?b = "XorWithIv (InvCipher (take 16 ?c) rk) iv"
  have b: "length ?b = 16" using Suc.prems by simp
  note st = mem_block_step [OF b, where n = n and m = m and buf = buf]
  have "length (snd (cbc_dec n rk (take 16 ?c) (drop 16 ?c))) = 16 * n"
    using cbc_dec_length [of "drop 16 ?c" n rk "take 16 ?c"] Suc.prems by simp
  then show ?case
    using Suc.IH [of "take 16 ?c" "buf + 16" "mem_write m buf ?b"] Suc.prems b st by (simp add: Let_def case_prod_beta)
qed simp

lemma ctr_memory:
  "n < 2 ^ 32 \<Longrightarrow> ctr_loop n rk bi buffer iv buf m =
     (fst (ctr_stream n rk bi buffer iv), mem_write m buf (map2 (XOR) (mem_read m buf n) (snd (ctr_stream n rk bi buffer iv))))"
proof (induction n arbitrary: bi buffer iv buf m)
  case (Suc n)
  have w: "m(buf := v) = mem_write m buf [v]" for v
    by (rule ext) (auto simp: mem_write_def unat_eq_zero)
  have r: "mem_read m buf (Suc n) = m buf # mem_read m (buf + 1) n"
    using mem_read_add [of m buf 1 n] by (simp add: mem_read_def)
  have k: "mem_read (mem_write m buf [v]) (buf + 1) n = mem_read m (buf + 1) n" for v
    using read_unchanged_after [of 0 "[v]" 1 n m buf] Suc.prems by simp
  have a: "mem_write (mem_write m buf [v]) (buf + 1) ys = mem_write m buf (v # ys)" if "length ys \<le> n" for v ys
    using mem_write_append [of "[v]" ys m buf] Suc.prems that by simp
  show ?case
    using Suc.prems by (simp add: Suc.IH w k r a Let_def case_prod_beta)
qed simp

lemma ctr_stream_length: "length (snd (ctr_stream n rk bi buffer iv)) = n"
  by (induction n arbitrary: bi buffer iv) (simp_all add: Let_def case_prod_beta)

section \<open>Key expansion\<close>

lemma key_expansion_length:
  assumes "length key = 16"
  shows "length (KeyExpansion key) = 176"
proof -
  have "length (foldl (\<lambda>rk i. key_word i rk) rk [i ..< i + n]) = 4 * (i + n)"
    if "length rk = 4 * i" "4 \<le> i" for rk i n
    using that
  proof (induction n)
    case (Suc n)
    then have "length (key_word (i + n) (foldl (\<lambda>rk i. key_word i rk) rk [i ..< i + n])) = 4 * (i + Suc n)"
      by (simp add: key_word_def Let_def Nk_def)
    then show ?case by simp
  qed simp
  from this [of "take 16 key" 4 40] show ?thesis using assms by (simp add: KeyExpansion_def Nk_def Nb_def Nr_def)
qed

section \<open>Round trips\<close>

text \<open>C34: CBC decryption undoes CBC encryption in place: for a context with an expanded key and any
  initialisation vector, decrypting a buffer of whole blocks that was encrypted restores the
  memory, and both calls leave the same vector (the last block of cipher text) for the next one.\<close>

theorem aes_cbc_roundtrip:
  assumes "length key = 16" "length (Iv ctx) = 16" "RoundKey ctx = KeyExpansion key" "16 * n < 2 ^ 32"
    and "AES_CBC_encrypt_buffer ctx buf (16 * n) m = (ctx1, m1)"
  shows "AES_CBC_decrypt_buffer ctx buf (16 * n) m1 = (ctx1, m) \<and>
    (\<forall>x. \<not> in_range x buf (16 * n) \<longrightarrow> m1 x = m x)"
proof -
  let ?p = "mem_read m buf (16 * n)"
  have rk: "length (RoundKey ctx) = 176" using assms key_expansion_length by simp
  have b: "aes_blocks (16 * n) = n" by (simp add: aes_blocks_def)
  let ?e = "cbc_enc n (RoundKey ctx) (Iv ctx) ?p"
  have e: "ctx1 = ctx\<lparr>Iv := fst ?e\<rparr>" "m1 = mem_write m buf (snd ?e)"
    using assms(5) cbc_encrypt_memory [OF assms(4) rk assms(2), of buf m]
    by (auto simp: AES_CBC_encrypt_buffer_def b)
  have l: "length (snd ?e) = 16 * n" using cbc_enc_length [OF _ rk assms(2), of ?p n] by simp
  have r: "mem_read m1 buf (16 * n) = snd ?e"
    unfolding e(2) by (rule mem_read_write_same) (use l assms(4) in simp_all)
  have d: "cbc_dec n (RoundKey ctx) (Iv ctx) (snd ?e) = (fst ?e, ?p)"
    using cbc_dec_enc [OF _ rk assms(2), of ?p n] by simp
  have "mem_write m1 buf ?p = m"
    unfolding e(2) by (rule ext) (simp add: mem_write_def l)
  then show ?thesis
    using cbc_decrypt_memory [OF assms(4) rk assms(2), of buf m1] l
    by (simp add: AES_CBC_decrypt_buffer_def b r d e(1)) (simp add: e(2) mem_write_out)
qed

text \<open>Counter mode is its own inverse, for every length, context and counter: a second call from
  the same counter restores the memory, and both leave the same counter.\<close>

theorem aes_ctr_involution:
  assumes "len < 2 ^ 32" "AES_CTR_xcrypt_buffer ctx buf len m = (ctx1, m1)"
  shows "AES_CTR_xcrypt_buffer ctx buf len m1 = (ctx1, m)"
proof -
  let ?s = "ctr_stream len (RoundKey ctx) AES_BLOCKLEN [] (Iv ctx)"
  let ?c = "map2 (XOR) (mem_read m buf len) (snd ?s)"
  have e: "ctx1 = ctx\<lparr>Iv := fst ?s\<rparr>" "m1 = mem_write m buf ?c"
    using assms(2) by (auto simp: AES_CTR_xcrypt_buffer_def ctr_memory [OF assms(1)])
  have "mem_read m1 buf len = ?c"
    unfolding e(2) by (rule mem_read_write_same) (use assms(1) in \<open>simp_all add: ctr_stream_length\<close>)
  moreover have "map2 (XOR) ?c (snd ?s) = mem_read m buf len" by (rule xor_twice) (simp add: ctr_stream_length)
  moreover have "mem_write m1 buf (mem_read m buf len) = m"
    unfolding e(2) by (rule ext) (simp add: mem_write_def ctr_stream_length)
  ultimately show ?thesis by (simp add: AES_CTR_xcrypt_buffer_def ctr_memory [OF assms(1)] e(1))
qed

section \<open>Published vectors and witnesses\<close>

definition nist_key :: "u8 list" where
  "nist_key = [0x2b, 0x7e, 0x15, 0x16, 0x28, 0xae, 0xd2, 0xa6, 0xab, 0xf7, 0x15, 0x88, 0x09, 0xcf, 0x4f, 0x3c]"

definition nist_plain :: "u8 list" where
  "nist_plain = [0x6b, 0xc1, 0xbe, 0xe2, 0x2e, 0x40, 0x9f, 0x96, 0xe9, 0x3d, 0x7e, 0x11, 0x73, 0x93, 0x17, 0x2a]"

text \<open>The first vector that the head of the source file quotes from SP 800-38A.\<close>

lemma nist_schedule: "KeyExpansion nist_key =
  [0x2b, 0x7e, 0x15, 0x16, 0x28, 0xae, 0xd2, 0xa6, 0xab, 0xf7, 0x15, 0x88, 0x09, 0xcf, 0x4f, 0x3c, 0xa0, 0xfa, 0xfe, 0x17, 0x88, 0x54, 0x2c, 0xb1, 0x23, 0xa3, 0x39, 0x39, 0x2a, 0x6c, 0x76, 0x05, 0xf2, 0xc2, 0x95, 0xf2, 0x7a, 0x96, 0xb9, 0x43, 0x59, 0x35, 0x80, 0x7a, 0x73, 0x59, 0xf6, 0x7f, 0x3d, 0x80, 0x47, 0x7d, 0x47, 0x16, 0xfe, 0x3e, 0x1e, 0x23, 0x7e, 0x44, 0x6d, 0x7a, 0x88, 0x3b, 0xef, 0x44, 0xa5, 0x41, 0xa8, 0x52, 0x5b, 0x7f, 0xb6, 0x71, 0x25, 0x3b, 0xdb, 0x0b, 0xad, 0x00, 0xd4, 0xd1, 0xc6, 0xf8, 0x7c, 0x83, 0x9d, 0x87, 0xca, 0xf2, 0xb8, 0xbc, 0x11, 0xf9, 0x15, 0xbc, 0x6d, 0x88, 0xa3, 0x7a, 0x11, 0x0b, 0x3e, 0xfd, 0xdb, 0xf9, 0x86, 0x41, 0xca, 0x00, 0x93, 0xfd, 0x4e, 0x54, 0xf7, 0x0e, 0x5f, 0x5f, 0xc9, 0xf3, 0x84, 0xa6, 0x4f, 0xb2, 0x4e, 0xa6, 0xdc, 0x4f, 0xea, 0xd2, 0x73, 0x21, 0xb5, 0x8d, 0xba, 0xd2, 0x31, 0x2b, 0xf5, 0x60, 0x7f, 0x8d, 0x29, 0x2f, 0xac, 0x77, 0x66, 0xf3, 0x19, 0xfa, 0xdc, 0x21, 0x28, 0xd1, 0x29, 0x41, 0x57, 0x5c, 0x00, 0x6e, 0xd0, 0x14, 0xf9, 0xa8, 0xc9, 0xee, 0x25, 0x89, 0xe1, 0x3f, 0x0c, 0xc8, 0xb6, 0x63, 0x0c, 0xa6]"
  unfolding KeyExpansion_def nist_key_def Nk_def Nb_def Nr_def
  by (simp add: upt_rec key_word_def Let_def Nk_def Rcon_def getSBoxValue_def sbox_def)

definition demo_ctx :: AES_ctx where "demo_ctx = \<lparr>RoundKey = KeyExpansion nist_key, Iv = map of_nat [0 ..< 16]\<rparr>"

theorem aes_cbc_roundtrip_witness:
  "\<exists>ctx1 m1. AES_CBC_encrypt_buffer demo_ctx 0x1000 32 (\<lambda>_. 0) = (ctx1, m1) \<and>
     AES_CBC_decrypt_buffer demo_ctx 0x1000 32 m1 = (ctx1, (\<lambda>_. 0))"
proof -
  obtain ctx1 m1 where e: "AES_CBC_encrypt_buffer demo_ctx 0x1000 (16 * 2) (\<lambda>_. 0) = (ctx1, m1)"
    by (cases "AES_CBC_encrypt_buffer demo_ctx 0x1000 (16 * 2) (\<lambda>_. 0)")
  have "length (Iv demo_ctx) = 16" by (simp add: demo_ctx_def upt_rec)
  with aes_cbc_roundtrip [OF _ this _ _ e, of nist_key] show ?thesis
    using e by (simp add: demo_ctx_def nist_key_def)
qed

theorem aes_ctr_involution_witness:
  "\<exists>ctx1 m1. AES_CTR_xcrypt_buffer demo_ctx 0x1000 21 (\<lambda>_. 0) = (ctx1, m1) \<and>
     AES_CTR_xcrypt_buffer demo_ctx 0x1000 21 m1 = (ctx1, (\<lambda>_. 0))"
proof -
  obtain ctx1 m1 where e: "AES_CTR_xcrypt_buffer demo_ctx 0x1000 21 (\<lambda>_. 0) = (ctx1, m1)"
    by (cases "AES_CTR_xcrypt_buffer demo_ctx 0x1000 21 (\<lambda>_. 0)")
  then show ?thesis using aes_ctr_involution [OF _ e] by simp
qed

end
