(* ===== verification/Printf.thy ===== *)
theory Printf
  imports C_Memory
begin

text \<open>
  Formatted output, \<open>src/lib/printf.c\<close> and \<open>src/lib/hexdump.c\<close>, without the floating point part that
  the build never enables. What a function sends to \<open>rumboot_putchar\<close> is a string; \<open>rumboot_putchar\<close>
  itself turns it into what the platform puts on the wire. Variable arguments are 32-bit slots, as on
  the 32-bit targets; \<open>None\<close> is a format that takes more arguments than there are. An \<open>int\<close> is an
  integer: signed overflow of widths is undefined in C and not modelled.
\<close>

section \<open>Flags and digits\<close>

definition ZEROPAD :: u32 where "ZEROPAD = 1"
definition SIGN :: u32 where "SIGN = 2"
definition PLUS :: u32 where "PLUS = 4"
definition SPACE :: u32 where "SPACE = 8"
definition LEFT :: u32 where "LEFT = 16"
definition HEX_PREP :: u32 where "HEX_PREP = 32"
definition UPPERCASE :: u32 where "UPPERCASE = 64"

lemmas flag_defs = ZEROPAD_def SIGN_def PLUS_def SPACE_def LEFT_def HEX_PREP_def UPPERCASE_def

definition flag :: "u32 \<Rightarrow> u32 \<Rightarrow> bool" where "flag t f \<longleftrightarrow> t AND f \<noteq> 0"

definition is_digit :: "char \<Rightarrow> bool" where
  "is_digit c \<longleftrightarrow> (48 :: int) \<le> of_char c \<and> (of_char c :: int) \<le> 57"

definition lower_digits :: string where "lower_digits = ''0123456789abcdefghijklmnopqrstuvwxyz''"
definition upper_digits :: string where "upper_digits = ''0123456789ABCDEFGHIJKLMNOPQRSTUVWXYZ''"

fun strnlen :: "mem \<Rightarrow> u32 \<Rightarrow> nat \<Rightarrow> nat" where
  "strnlen m s count = (if m s = 0 \<or> count = 0 then 0 else Suc (strnlen m (s + 1) (count - 1)))"

declare strnlen.simps [simp del]

text \<open>The number is kept in an \<open>int\<close> of 32 bits; a digit is added before \<open>'0'\<close> is taken away. Overflow, which C leaves
  undefined, wraps here.\<close>

fun skip_atoi :: "u32 \<Rightarrow> string \<Rightarrow> u32 \<times> string" where
  "skip_atoi i [] = (i, [])"
| "skip_atoi i (c # s) = (if is_digit c then skip_atoi (i * 10 + of_char c - 48) s else (i, c # s))"

definition rumboot_skip_atoi :: "string \<Rightarrow> int \<times> string" where
  "rumboot_skip_atoi s = (let (i, s) = skip_atoi 0 s in (sint i, s))"

section \<open>Numbers and addresses\<close>

text \<open>\<open>while (low < n--) rumboot_putchar(c)\<close>: the output and the value of \<open>n\<close> afterwards.\<close>

definition pad_loop :: "int \<Rightarrow> int \<Rightarrow> char \<Rightarrow> string \<times> int" where
  "pad_loop low n c = (replicate (nat (n - low)) c, min low n - 1)"

definition number_sign :: "u32 \<Rightarrow> int \<Rightarrow> u32 \<Rightarrow> string \<times> u32 \<times> int" where
  "number_sign num n type =
     (if flag type SIGN then
        if sint num < 0 then (''-'', - num, n - 1)
        else if flag type PLUS then (''+'', num, n - 1)
        else if flag type SPACE then ('' '', num, n - 1)
        else ([], num, n)
      else ([], num, n))"

text \<open>The digits in the order of \<open>tmp\<close>, the lowest first.\<close>

function number_digits :: "string \<Rightarrow> u32 \<Rightarrow> u32 \<Rightarrow> string" where
  "number_digits dig num base =
     (if num = 0 \<or> base < 2 then [] else dig ! unat (num mod base) # number_digits dig (num div base) base)"
  by pat_completeness auto
termination
proof (relation "measure (\<lambda>(dig, num, base). unat num)")
  fix dig and num base :: u32
  assume "\<not> (num = 0 \<or> base < 2)"
  then have "0 < unat num" "1 < unat base" by (auto simp: word_less_nat_alt unat_gt_0)
  then show "((dig, num div base, base), dig, num, base) \<in> measure (\<lambda>(dig, num, base). unat num)"
    by (simp add: unat_div)
qed simp

declare number_digits.simps [simp del]

definition hex_prefix :: "int \<Rightarrow> string" where
  "hex_prefix base = (if base = 8 then ''0'' else if base = 16 then [CHR ''0'', lower_digits ! 33] else [])"

definition rumboot_number :: "u32 \<Rightarrow> int \<Rightarrow> int \<Rightarrow> int \<Rightarrow> u32 \<Rightarrow> string" where
  "rumboot_number num base n precision type =
     (let dig = (if flag type UPPERCASE then upper_digits else lower_digits);
          type = (if flag type LEFT then type AND NOT ZEROPAD else type)
      in if base < 2 \<or> 36 < base then []
         else
           let c = (if flag type ZEROPAD then CHR ''0'' else CHR '' '');
               (sign, num, n) = number_sign num n type;
               n = (if flag type HEX_PREP then if base = 16 then n - 2 else if base = 8 then n - 1 else n else n);
               tmp = (if num = 0 then ''0'' else number_digits dig num (of_int base));
               i = int (length tmp);
               precision = (if i > precision then i else precision);
               n = n - precision;
               (spaces, n) = (if flag type (ZEROPAD OR LEFT) then ([], n) else pad_loop 0 n (CHR '' ''));
               prefix = (if flag type HEX_PREP then hex_prefix base else []);
               (fill, n) = (if flag type LEFT then ([], n) else pad_loop 0 n c)
           in spaces @ sign @ prefix @ fill @ fst (pad_loop i precision (CHR ''0'')) @ rev tmp
              @ fst (pad_loop 0 n (CHR '' '')))"

definition eaddr_text :: "string \<Rightarrow> u8 list \<Rightarrow> string" where
  "eaddr_text dig addr =
     concat (map (\<lambda>i. (if i \<noteq> 0 then '':'' else []) @
       [dig ! unat (drop_bit 4 (addr ! i)), dig ! unat (addr ! i AND 0x0F)]) [0..<6])"

text \<open>A text that is right or left justified, as \<open>eaddr\<close>, \<open>iaddr\<close> and \<open>%s\<close> do.\<close>

definition justify :: "string \<Rightarrow> int \<Rightarrow> u32 \<Rightarrow> string" where
  "justify text n type =
     (let len = int (length text);
          (spaces, n) = (if flag type LEFT then ([], n) else pad_loop len n (CHR '' ''))
      in spaces @ text @ fst (pad_loop len n (CHR '' '')))"

definition eaddr :: "mem \<Rightarrow> u32 \<Rightarrow> int \<Rightarrow> int \<Rightarrow> u32 \<Rightarrow> string" where
  "eaddr m addr n precision type =
     justify (eaddr_text (if flag type UPPERCASE then upper_digits else lower_digits) (mem_read m addr 6)) n type"

definition iaddr_byte :: "nat \<Rightarrow> string" where
  "iaddr_byte n =
     (if n = 0 then [lower_digits ! 0]
      else if n \<ge> 100 then
        [lower_digits ! (n div 100), lower_digits ! (n mod 100 div 10), lower_digits ! (n mod 100 mod 10)]
      else if n \<ge> 10 then [lower_digits ! (n div 10), lower_digits ! (n mod 10)]
      else [lower_digits ! n])"

definition iaddr_text :: "u8 list \<Rightarrow> string" where
  "iaddr_text addr = concat (map (\<lambda>i. (if i \<noteq> 0 then ''.'' else []) @ iaddr_byte (unat (addr ! i))) [0..<4])"

definition iaddr :: "mem \<Rightarrow> u32 \<Rightarrow> int \<Rightarrow> int \<Rightarrow> u32 \<Rightarrow> string" where
  "iaddr m addr n precision type = justify (iaddr_text (mem_read m addr 4)) n type"

section \<open>Directives\<close>

fun va_arg :: "u32 list \<Rightarrow> (u32 \<times> u32 list) option" where
  "va_arg [] = None"
| "va_arg (a # args) = Some (a, args)"

fun parse_flags :: "u32 \<Rightarrow> string \<Rightarrow> u32 \<times> string" where
  "parse_flags flags [] = (flags, [])"
| "parse_flags flags (c # s) =
     (if c = CHR ''-'' then parse_flags (flags OR LEFT) s
      else if c = CHR ''+'' then parse_flags (flags OR PLUS) s
      else if c = CHR '' '' then parse_flags (flags OR SPACE) s
      else if c = CHR ''#'' then parse_flags (flags OR HEX_PREP) s
      else if c = CHR ''0'' then parse_flags (flags OR ZEROPAD) s
      else (flags, c # s))"

definition starts :: "(char \<Rightarrow> bool) \<Rightarrow> string \<Rightarrow> bool" where
  "starts P s \<longleftrightarrow> s \<noteq> [] \<and> P (hd s)"

definition parse_width :: "u32 \<Rightarrow> string \<Rightarrow> u32 list \<Rightarrow> (int \<times> u32 \<times> string \<times> u32 list) option" where
  "parse_width flags s args =
     (if starts is_digit s then (let (w, s) = rumboot_skip_atoi s in Some (w, flags, s, args))
      else if starts (\<lambda>c. c = CHR ''*'') s then
        case va_arg args of None \<Rightarrow> None
        | Some (a, args) \<Rightarrow>
            Some (if sint a < 0 then (- sint a, flags OR LEFT, tl s, args) else (sint a, flags, tl s, args))
      else Some (-1, flags, s, args))"

definition parse_precision :: "string \<Rightarrow> u32 list \<Rightarrow> (int \<times> string \<times> u32 list) option" where
  "parse_precision s args =
     (if starts (\<lambda>c. c = CHR ''.'') s then
        let s = tl s
        in if starts is_digit s then (let (p, s) = rumboot_skip_atoi s in Some (if p < 0 then 0 else p, s, args))
           else if starts (\<lambda>c. c = CHR ''*'') s then
             case va_arg args of None \<Rightarrow> None
             | Some (a, args) \<Rightarrow> Some (if sint a < 0 then 0 else sint a, tl s, args)
           else Some (0, s, args)
      else Some (-1, s, args))"

definition parse_qualifier :: "string \<Rightarrow> char option \<times> string" where
  "parse_qualifier s =
     (if starts (\<lambda>c. c = CHR ''l'' \<or> c = CHR ''L'') s then (Some (hd s), tl s) else (None, s))"

definition conv_char :: "u32 \<Rightarrow> int \<Rightarrow> u32 \<Rightarrow> string" where
  "conv_char flags field_width a =
     (let (spaces, field_width) =
            (if flag flags LEFT then ([], field_width)
             else (replicate (nat (field_width - 1)) (CHR '' ''), min (field_width - 1) 0))
      in spaces @ [char_of (unat a)] @ replicate (nat (field_width - 1)) (CHR '' ''))"

definition conv_string :: "mem \<Rightarrow> u32 \<Rightarrow> int \<Rightarrow> int \<Rightarrow> u32 \<Rightarrow> string" where
  "conv_string m flags field_width precision s =
     (let count = unat (of_int precision :: u32);
          text = (if s = 0 then take count ''<NULL>''
                  else map (\<lambda>b. char_of (unat b)) (mem_read m s (strnlen m s count)))
      in justify text field_width flags)"

text \<open>The conversion character and what follows it: output, rest of the format, remaining arguments.
  At the end of the format \<open>--fmt\<close> lets the loop end.\<close>

definition conversion :: "mem \<Rightarrow> u32 \<Rightarrow> int \<Rightarrow> int \<Rightarrow> char option \<Rightarrow> char \<Rightarrow> u32 \<Rightarrow> string option" where
  "conversion m flags field_width precision qualifier c a =
     (if c = CHR ''c'' then Some (conv_char flags field_width a)
      else if c = CHR ''s'' then Some (conv_string m flags field_width precision a)
      else if c = CHR ''p'' then
        Some (if field_width = -1 then rumboot_number a 16 8 precision (flags OR ZEROPAD)
              else rumboot_number a 16 field_width precision flags)
      else if c = CHR ''A'' \<or> c = CHR ''a'' then
        (let flags = (if c = CHR ''A'' then flags OR UPPERCASE else flags)
         in Some (if qualifier = Some (CHR ''l'') then eaddr m a field_width precision flags
                  else iaddr m a field_width precision flags))
      else if c = CHR ''o'' then Some (rumboot_number a 8 field_width precision flags)
      else if c = CHR ''X'' then Some (rumboot_number a 16 field_width precision (flags OR UPPERCASE))
      else if c = CHR ''x'' then Some (rumboot_number a 16 field_width precision flags)
      else if c = CHR ''d'' \<or> c = CHR ''i'' then Some (rumboot_number a 10 field_width precision (flags OR SIGN))
      else if c = CHR ''u'' then Some (rumboot_number a 10 field_width precision flags)
      else None)"

definition takes_argument :: "char \<Rightarrow> bool" where
  "takes_argument c \<longleftrightarrow> c \<in> set ''cspAaoXxdiu''"

definition vprintf_directive :: "mem \<Rightarrow> string \<Rightarrow> u32 list \<Rightarrow> (string \<times> string \<times> u32 list) option" where
  "vprintf_directive m s args =
     (let (flags, s) = parse_flags 0 s in
      case parse_width flags s args of None \<Rightarrow> None
      | Some (field_width, flags, s, args) \<Rightarrow>
      case parse_precision s args of None \<Rightarrow> None
      | Some (precision, s, args) \<Rightarrow>
      let (qualifier, s) = parse_qualifier s in
      case s of [] \<Rightarrow> Some (''%'', [], args)
      | c # s \<Rightarrow>
        if takes_argument c then
          case va_arg args of None \<Rightarrow> None
          | Some (a, args) \<Rightarrow>
              map_option (\<lambda>out. (out, s, args)) (conversion m flags field_width precision qualifier c a)
        else Some ((if c \<noteq> CHR ''%'' then ''%'' else []) @ [c], s, args))"

lemma skip_atoi_length: "length (snd (skip_atoi i s)) \<le> length s"
  by (induction i s rule: skip_atoi.induct) (auto intro: le_SucI)

lemma parse_flags_length: "length (snd (parse_flags f s)) \<le> length s"
  by (induction f s rule: parse_flags.induct) (auto intro: le_SucI)

lemma parse_width_length: "parse_width f s args = Some (w, f', s', args') \<Longrightarrow> length s' \<le> length s"
  using skip_atoi_length [of 0 s]
  by (auto simp: parse_width_def rumboot_skip_atoi_def Let_def split: if_splits option.splits prod.splits)

lemma parse_precision_length: "parse_precision s args = Some (p, s', args') \<Longrightarrow> length s' \<le> length s"
  using skip_atoi_length [of 0 "tl s"]
  by (auto simp: parse_precision_def rumboot_skip_atoi_def Let_def split: if_splits option.splits prod.splits)

lemma directive_length:
  assumes "vprintf_directive m s args = Some (out, s', args')"
  shows "length s' \<le> length s"
proof -
  obtain f s1 where 1: "parse_flags 0 s = (f, s1)" by force
  obtain w f2 s2 a2 where 2: "parse_width f s1 args = Some (w, f2, s2, a2)"
    using assms 1 by (auto simp: vprintf_directive_def split: option.splits)
  obtain p s3 a3 where 3: "parse_precision s2 a2 = Some (p, s3, a3)"
    using assms 1 2 by (auto simp: vprintf_directive_def split: option.splits)
  obtain q s4 where 4: "parse_qualifier s3 = (q, s4)" by force
  have "length s4 \<le> length s3" using 4 by (auto simp: parse_qualifier_def split: if_splits)
  moreover have "length s' \<le> length s4"
    using assms 1 2 3 4 by (auto simp: vprintf_directive_def split: option.splits list.splits if_splits)
  ultimately show ?thesis
    using parse_flags_length [of 0 s] parse_width_length [OF 2] parse_precision_length [OF 3] 1 by simp
qed

section \<open>Formats\<close>

function rumboot_vprintf :: "mem \<Rightarrow> string \<Rightarrow> u32 list \<Rightarrow> string option" where
  "rumboot_vprintf m [] args = Some []"
| "rumboot_vprintf m (c # s) args =
     (if c \<noteq> CHR ''%'' then map_option (Cons c) (rumboot_vprintf m s args)
      else case vprintf_directive m s args of None \<Rightarrow> None
           | Some (out, s, args) \<Rightarrow> map_option ((@) out) (rumboot_vprintf m s args))"
  by pat_completeness auto
termination
proof (relation "measure (\<lambda>(m, s, args). length s)")
  fix m c s args x out s' args' y
  assume "vprintf_directive m s args = Some x" "(out, y) = x" "(s', args') = y"
  then have "vprintf_directive m s args = Some (out, s', args')" by simp
  then have "length s' \<le> length s" by (rule directive_length)
  then show "((m, s', args'), m, c # s, args) \<in> measure (\<lambda>(m, s, args). length s)" by simp
qed simp_all

definition rumboot_putchar :: "bool \<Rightarrow> char \<Rightarrow> string" where
  "rumboot_putchar silent c = (if silent then [] else if c = CHR 0x0A then [CHR 0x0D, c] else [c])"

definition rumboot_printf :: "bool \<Rightarrow> mem \<Rightarrow> string \<Rightarrow> u32 list \<Rightarrow> string option" where
  "rumboot_printf silent m fmt args =
     map_option (\<lambda>out. concat (map (rumboot_putchar silent) out)) (rumboot_vprintf m fmt args)"

section \<open>Hex dumps\<close>

definition HEXDUMP_COLS :: nat where "HEXDUMP_COLS = 16"

definition isprint :: "u8 \<Rightarrow> bool" where "isprint b \<longleftrightarrow> 32 \<le> b \<and> b < 127"

definition hexdump_ascii :: "mem \<Rightarrow> u32 \<Rightarrow> nat \<Rightarrow> nat \<Rightarrow> char" where
  "hexdump_ascii m a len j =
     (let b = m (a + of_nat j)
      in if len \<le> j then CHR '' '' else if isprint b then char_of (unat b) else CHR ''.'')"

definition hexdump_cell :: "mem \<Rightarrow> u32 \<Rightarrow> nat \<Rightarrow> nat \<Rightarrow> string" where
  "hexdump_cell m a len i =
     (if i mod HEXDUMP_COLS = 0 then the (rumboot_vprintf m ''0x%06x: '' [of_nat i]) else []) @
     (if i < len then the (rumboot_vprintf m ''%02x '' [ucast (m (a + of_nat i))]) else ''   '') @
     (if i mod HEXDUMP_COLS = HEXDUMP_COLS - 1
      then map (hexdump_ascii m a len) [i - (HEXDUMP_COLS - 1) ..< Suc i] @ [CHR 0x0A] else [])"

definition rumboot_hexdump :: "mem \<Rightarrow> u32 \<Rightarrow> nat \<Rightarrow> string" where
  "rumboot_hexdump m a len =
     concat (map (hexdump_cell m a len)
       [0 ..< len + (if len mod HEXDUMP_COLS \<noteq> 0 then HEXDUMP_COLS - len mod HEXDUMP_COLS else 0)])"

section \<open>Reading numbers back\<close>

lemma upt_10: "n < 10 \<Longrightarrow> n \<in> {0, 1, 2, 3, 4, 5, 6, 7, 8, 9 :: nat}" by auto

lemma decimal_digit:
  assumes "n < 10"
  shows "is_digit (lower_digits ! n)" "of_char (lower_digits ! n) = (48 + int n :: int)"
  using upt_10 [OF assms] by (auto simp: lower_digits_def is_digit_def)

lemma digits_step:
  assumes "num \<noteq> 0" "2 \<le> base"
  shows "number_digits dig num base = dig ! unat (num mod base) # number_digits dig (num div base) base"
  using assms by (subst number_digits.simps) (simp add: not_less)

lemma digits_0 [simp]: "number_digits dig 0 base = []"
  by (subst number_digits.simps) simp

lemma uint_divmod: "uint (num div base) * uint base + int (unat (num mod base)) = uint (num :: u32)"
  by (simp add: uint_div uint_mod flip: uint_nat)

lemma skip_atoi_digits:
  "skip_atoi i (rev (number_digits lower_digits num 10) @ s) =
     skip_atoi (i * 10 ^ length (number_digits lower_digits num 10) + num) s"
proof (induction "unat num" arbitrary: num s rule: less_induct)
  case less
  show ?case
  proof (cases "num = 0")
    case False
    define d where "d = unat (num mod 10)"
    have "0 < unat num" using False by (simp add: unat_gt_0)
    then have IH: "\<And>s. skip_atoi i (rev (number_digits lower_digits (num div 10) 10) @ s) =
      skip_atoi (i * 10 ^ length (number_digits lower_digits (num div 10) 10) + num div 10) s"
      by (intro less) (simp add: unat_div)
    have d: "d < 10" by (simp add: d_def unat_mod)
    have n: "num = num div 10 * 10 + of_nat d" using div_mult_mod_eq [of num 10] by (simp add: d_def)
    have "(of_char (lower_digits ! d) :: u32) = of_int (of_char (lower_digits ! d))" by (simp only: of_int_of_char)
    then have w: "(of_char (lower_digits ! d) :: u32) = 48 + of_nat d" using decimal_digit [OF d] by simp
    have st: "number_digits lower_digits num 10 = lower_digits ! d # number_digits lower_digits (num div 10) 10"
      using digits_step [OF False, of 10 lower_digits] by (simp flip: d_def)
    have "skip_atoi i (rev (number_digits lower_digits num 10) @ s) =
        skip_atoi ((i * 10 ^ length (number_digits lower_digits (num div 10) 10) + num div 10) * 10 + of_nat d) s"
      using decimal_digit [OF d] by (simp add: st IH w add.assoc)
    also have "(i * 10 ^ length (number_digits lower_digits (num div 10) 10) + num div 10) * 10 + of_nat d =
        i * 10 ^ length (number_digits lower_digits num 10) + (num div 10 * 10 + of_nat d)"
      by (simp add: st algebra_simps)
    finally show ?thesis by (simp only: n [symmetric])
  qed simp
qed

lemma starts_digit [simp]: "starts P [] = False" "starts P (c # s) = P c"
  by (simp_all add: starts_def)

lemma bare_directive:
  assumes "takes_argument c" "\<not> is_digit c" "c \<notin> set ''-+ #0*.lL''"
  shows "vprintf_directive m (c # s) (a # args) =
    map_option (\<lambda>out. (out, s, args)) (conversion m 0 (-1) (-1) None c a)"
  using assms by (simp add: vprintf_directive_def parse_width_def parse_precision_def parse_qualifier_def)

lemma decimal_text: "rumboot_number num 10 (-1) (-1) 0 = (if num = 0 then ''0'' else rev (number_digits lower_digits num 10))"
  by (simp add: rumboot_number_def Let_def flag_def flag_defs number_sign_def pad_loop_def)

lemma decimal_reads_back: "rumboot_skip_atoi (rumboot_number num 10 (-1) (-1) 0) = (sint num, [])"
  using skip_atoi_digits [of 0 num "[]"]
  by (simp add: decimal_text rumboot_skip_atoi_def is_digit_def)

lemma signed_text:
  "rumboot_number num 10 (-1) (-1) SIGN =
     (if sint num < 0 then CHR ''-'' # rumboot_number (- num) 10 (-1) (-1) 0 else rumboot_number num 10 (-1) (-1) 0)"
  by (simp add: rumboot_number_def Let_def flag_def flag_defs number_sign_def pad_loop_def)

lemma sint_u32: "sint (n :: u32) = (if 2 ^ 31 \<le> uint n then uint n - 2 ^ 32 else uint n)"
proof -
  have u: "0 \<le> uint n" "uint n < 2 ^ 32" using uint_lt2p [of n] by simp_all
  have "sint n = signed_take_bit 31 (uint n)" by (simp add: sint_uint)
  also have "\<dots> = (uint n + 2 ^ 31) mod 2 ^ 32 - 2 ^ 31"
    by (simp add: signed_take_bit_eq_take_bit_shift take_bit_eq_mod)
  also have "\<dots> = (if 2 ^ 31 \<le> uint n then uint n - 2 ^ 32 else uint n)"
  proof (cases "2 ^ 31 \<le> uint n")
    case True
    have "(uint n + 2 ^ 31) mod 2 ^ 32 = (uint n + 2 ^ 31 - 2 ^ 32) mod 2 ^ 32"
      by (rule minus_mod_self2 [symmetric])
    also have "\<dots> = uint n + 2 ^ 31 - 2 ^ 32" using u True by (intro mod_pos_pos_trivial) simp_all
    finally have "(uint n + 2 ^ 31) mod 2 ^ 32 = uint n + 2 ^ 31 - 2 ^ 32" .
    then show ?thesis using True by simp
  next
    case False
    then have "(uint n + 2 ^ 31) mod 2 ^ 32 = uint n + 2 ^ 31" using u by (intro mod_pos_pos_trivial) simp_all
    then show ?thesis using False by simp
  qed
  finally show ?thesis .
qed

lemma abs_value: "uint (if sint n < 0 then - n else n) = \<bar>sint (n :: u32)\<bar>"
proof -
  have "0 \<le> uint n" "uint n < 2 ^ 32" using uint_lt2p [of n] by simp_all
  moreover have "uint (- n) = 2 ^ 32 - uint n" if "0 < uint n"
  proof -
    have "uint (- n) = (- uint n) mod 2 ^ 32" by (simp add: uint_word_ariths)
    also have "\<dots> = (- uint n + 2 ^ 32) mod 2 ^ 32" by (rule mod_add_self2 [symmetric])
    also have "\<dots> = - uint n + 2 ^ 32"
      using that \<open>uint n < 2 ^ 32\<close> by (intro mod_pos_pos_trivial) simp_all
    finally show ?thesis by simp
  qed
  ultimately show ?thesis by (cases "uint n = 0") (simp_all add: sint_u32)
qed

lemma abs_back: "\<bar>sint (n :: u32)\<bar> < 2 ^ 31 \<Longrightarrow> sint (if sint n < 0 then - n else n) = \<bar>sint n\<bar>"
  using abs_value [of n] by (simp add: sint_u32 [of "if sint n < 0 then - n else n"])

text \<open>C38: \<open>%d\<close> prints decimal notation: the text that \<open>rumboot_printf\<close> produces for an argument, after its minus
  sign for a negative number, is read back by the parser of the same file as the absolute value of the
  argument, with nothing left over. The arguments are those for which no sum of the parser leaves the range
  of \<open>int\<close>; the last sum is the number plus the code of \<open>'0'\<close>, 48.\<close>

theorem printf_decimal_roundtrip:
  assumes "\<bar>sint n\<bar> + 48 < 2 ^ 31"
  shows "\<exists>text. rumboot_vprintf m ''%d'' [n] = Some (if sint n < 0 then CHR ''-'' # text else text) \<and>
     rumboot_skip_atoi text = (\<bar>sint n\<bar>, [])"
proof (intro exI conjI)
  let ?t = "rumboot_number (if sint n < 0 then - n else n) 10 (-1) (-1) 0"
  have "vprintf_directive m ''d'' [n] = Some (rumboot_number n 10 (-1) (-1) SIGN, [], [])"
    by (simp add: bare_directive takes_argument_def is_digit_def conversion_def)
  then show "rumboot_vprintf m ''%d'' [n] = Some (if sint n < 0 then CHR ''-'' # ?t else ?t)"
    by (simp add: signed_text)
  have "\<bar>sint n\<bar> < 2 ^ 31" using assms by simp
  then show "rumboot_skip_atoi ?t = (\<bar>sint n\<bar>, [])"
    by (simp only: decimal_reads_back abs_back)
qed

text \<open>The smallest number of the range.\<close>

theorem printf_decimal_roundtrip_witness:
  "\<exists>text. rumboot_vprintf (\<lambda>_. 0) ''%d'' [0x80000031] = Some (CHR ''-'' # text) \<and>
     rumboot_skip_atoi text = (2147483599, [])"
proof -
  have v: "sint (0x80000031 :: u32) = - 2147483599" by simp
  show ?thesis using printf_decimal_roundtrip [of "0x80000031" "\<lambda>_. 0", unfolded v] by simp
qed

section \<open>Field widths\<close>

lemma flag_bits [simp]:
  "flag t ZEROPAD \<longleftrightarrow> bit t 0" "flag t SIGN \<longleftrightarrow> bit t 1" "flag t PLUS \<longleftrightarrow> bit t 2" "flag t SPACE \<longleftrightarrow> bit t 3"
  "flag t LEFT \<longleftrightarrow> bit t 4" "flag t HEX_PREP \<longleftrightarrow> bit t 5" "flag t UPPERCASE \<longleftrightarrow> bit t 6"
  using and_exp_eq_0_iff_not_bit [of t 0] and_exp_eq_0_iff_not_bit [of t 1] and_exp_eq_0_iff_not_bit [of t 2]
    and_exp_eq_0_iff_not_bit [of t 3] and_exp_eq_0_iff_not_bit [of t 4] and_exp_eq_0_iff_not_bit [of t 5]
    and_exp_eq_0_iff_not_bit [of t 6]
  by (simp_all add: flag_def flag_defs)

lemma flag_either [simp]: "flag t (ZEROPAD OR LEFT) \<longleftrightarrow> bit t 0 \<or> bit t 4"
  using flag_bits(1,5) [of t] by (simp add: flag_def bit.conj_disj_distrib or_eq_0_iff)

lemma clear_zeropad [simp]: "bit (t AND NOT ZEROPAD) k \<longleftrightarrow> k \<noteq> 0 \<and> bit (t :: u32) k"
  by (cases k) (auto simp: bit_simps flag_defs dest: bit_imp_le_length)

lemma length_number_digits:
  assumes "2 \<le> base" "num \<noteq> 0"
  shows "0 < length (number_digits dig num base)"
    "unat base ^ (length (number_digits dig num base) - 1) \<le> unat num"
    "unat num < unat base ^ length (number_digits dig num base)"
proof -
  show "0 < length (number_digits dig num base)" using digits_step [OF assms(2,1)] by simp
  have "unat base ^ (length (number_digits dig num base) - 1) \<le> unat num \<and>
    unat num < unat base ^ length (number_digits dig num base)"
    using assms(2)
  proof (induction "unat num" arbitrary: num rule: less_induct)
    case less
    let ?q = "num div base"
    have b: "1 < unat base" using assms(1) by (simp add: word_le_nat_alt)
    have q: "unat ?q = unat num div unat base" by (simp add: unat_div)
    have r: "unat num = unat ?q * unat base + unat num mod unat base" by (simp add: q)
    have m: "unat num mod unat base < unat base" using b by simp
    have pos: "0 < unat num" using less.prems by (simp add: unat_gt_0)
    show ?case
    proof (cases "?q = 0")
      case True
      then show ?thesis using digits_step [OF less.prems assms(1), of dig] r m pos by simp
    next
      case False
      then obtain k where k: "length (number_digits dig ?q base) = Suc k"
        using digits_step [OF False assms(1)] by simp
      have "unat base ^ k \<le> unat ?q" "unat ?q < unat base ^ Suc k"
        using less.hyps [OF _ False] b pos by (simp_all add: q k)
      then have "unat base ^ k * unat base \<le> unat num" "unat num < unat base ^ Suc k * unat base"
        using b by (simp_all add: q less_eq_div_iff_mult_less_eq div_less_iff_less_mult)
      then show ?thesis using digits_step [OF less.prems assms(1), of dig] k by (simp add: mult.commute)
    qed
  qed
  then show "unat base ^ (length (number_digits dig num base) - 1) \<le> unat num"
    "unat num < unat base ^ length (number_digits dig num base)" by simp_all
qed


text \<open>What \<open>rumboot_number\<close> puts before the digits.\<close>

definition sign_width :: "u32 \<Rightarrow> u32 \<Rightarrow> nat" where
  "sign_width num type = (if flag type SIGN \<and> (sint num < 0 \<or> flag type PLUS \<or> flag type SPACE) then 1 else 0)"

definition prefix_width :: "int \<Rightarrow> u32 \<Rightarrow> nat" where
  "prefix_width base type = (if flag type HEX_PREP then if base = 16 then 2 else if base = 8 then 1 else 0 else 0)"

definition magnitude :: "u32 \<Rightarrow> u32 \<Rightarrow> u32" where
  "magnitude num type = (if flag type SIGN \<and> sint num < 0 then - num else num)"

lemma number_sign_parts:
  "\<exists>s. number_sign num n type = (s, magnitude num type, n - int (sign_width num type)) \<and> length s = sign_width num type"
  by (simp add: number_sign_def magnitude_def sign_width_def)

definition magnitude_digits :: "u32 \<Rightarrow> int \<Rightarrow> u32 \<Rightarrow> string" where
  "magnitude_digits num base type =
     (let v = magnitude num type
      in if v = 0 then ''0''
         else number_digits (if flag type UPPERCASE then upper_digits else lower_digits) v (of_int base))"

lemma pad_loop_spent [simp]: "fst (pad_loop 0 (snd (pad_loop 0 n c)) d) = []"
  by (simp add: pad_loop_def)

lemma length_pad_loop [simp]: "length (fst (pad_loop low n c)) = nat (n - low)"
  by (simp add: pad_loop_def)

lemma prefix_length: "length (if flag type HEX_PREP then hex_prefix base else []) = prefix_width base type"
  by (simp add: hex_prefix_def prefix_width_def)

text \<open>The three ways a number is laid out: left justified, filled with zeros, or right justified.\<close>

lemma number_layout:
  fixes num type :: u32 and base n precision :: int
  assumes "2 \<le> base" "base \<le> 36"
  defines "tmp \<equiv> magnitude_digits num base type"
  defines "p \<equiv> max (int (length tmp)) precision"
  defines "k \<equiv> n - int (sign_width num type) - int (prefix_width base type) - p"
  defines "zeros \<equiv> fst (pad_loop (int (length tmp)) p (CHR ''0''))"
  defines "pre \<equiv> (if flag type HEX_PREP then hex_prefix base else [])"
  obtains sign where "length sign = sign_width num type"
    "rumboot_number num base n precision type =
       (if flag type LEFT then sign @ pre @ zeros @ rev tmp @ fst (pad_loop 0 k (CHR '' ''))
        else if flag type ZEROPAD then sign @ pre @ fst (pad_loop 0 k (CHR ''0'')) @ zeros @ rev tmp
        else fst (pad_loop 0 k (CHR '' '')) @ sign @ pre @ zeros @ rev tmp)"
proof -
  define type' where "type' = (if bit type 4 then type AND NOT ZEROPAD else type)"
  have t: "bit type' j \<longleftrightarrow> bit type j \<and> \<not> (j = 0 \<and> bit type 4)" for j by (auto simp: type'_def)
  have w: "sign_width num type' = sign_width num type" "magnitude num type' = magnitude num type"
    by (simp_all add: sign_width_def magnitude_def t)
  obtain sign where s: "number_sign num n type' = (sign, magnitude num type, n - int (sign_width num type))"
    "length sign = sign_width num type"
    using number_sign_parts [of num n type'] by (auto simp: w)
  have sz: "(if flag type' HEX_PREP then if base = 16 then n - int (sign_width num type) - 2
      else if base = 8 then n - int (sign_width num type) - 1 else n - int (sign_width num type)
      else n - int (sign_width num type)) = n - int (sign_width num type) - int (prefix_width base type)"
    by (simp add: prefix_width_def t)
  have tm: "(if magnitude num type = 0 then ''0'' else
      number_digits (if flag type UPPERCASE then upper_digits else lower_digits) (magnitude num type) (of_int base)) = tmp"
    by (simp add: tmp_def magnitude_digits_def Let_def)
  have p: "(if precision < int (length tmp) then int (length tmp) else precision) = p" by (simp add: p_def)
  have b: "\<not> (base < 2 \<or> 36 < base)" using assms(1,2) by simp
  have "rumboot_number num base n precision type =
       (if flag type LEFT then sign @ pre @ zeros @ rev tmp @ fst (pad_loop 0 k (CHR '' ''))
        else if flag type ZEROPAD then sign @ pre @ fst (pad_loop 0 k (CHR ''0'')) @ zeros @ rev tmp
        else fst (pad_loop 0 k (CHR '' '')) @ sign @ pre @ zeros @ rev tmp)"
    unfolding rumboot_number_def Let_def type'_def [symmetric] flag_bits(5) s prod.case sz tm p k_def [symmetric]
      if_not_P [OF b]
    by (simp add: t pre_def zeros_def case_prod_unfold)
  with s(2) that show thesis by blast
qed

lemma length_rumboot_number:
  assumes "2 \<le> base" "base \<le> 36"
  shows "int (length (rumboot_number num base n precision type)) =
    max n (int (sign_width num type + prefix_width base type) + max (int (length (magnitude_digits num base type))) precision)"
proof -
  define tmp where "tmp = magnitude_digits num base type"
  define p where "p = max (int (length tmp)) precision"
  define k where "k = n - int (sign_width num type) - int (prefix_width base type) - p"
  define pre where "pre = (if flag type HEX_PREP then hex_prefix base else [])"
  obtain sign where s: "length sign = sign_width num type" and n: "rumboot_number num base n precision type =
      (if flag type LEFT then sign @ pre @ fst (pad_loop (int (length tmp)) p (CHR ''0'')) @ rev tmp @ fst (pad_loop 0 k (CHR '' ''))
       else if flag type ZEROPAD then
         sign @ pre @ fst (pad_loop 0 k (CHR ''0'')) @ fst (pad_loop (int (length tmp)) p (CHR ''0'')) @ rev tmp
       else fst (pad_loop 0 k (CHR '' '')) @ sign @ pre @ fst (pad_loop (int (length tmp)) p (CHR ''0'')) @ rev tmp)"
    by (rule number_layout [OF assms, of num type n precision, folded tmp_def, folded p_def, folded k_def pre_def],
      rule that)
  have "length pre = prefix_width base type" unfolding pre_def by (rule prefix_length)
  then have "length (rumboot_number num base n precision type) =
      sign_width num type + prefix_width base type + nat (p - int (length tmp)) + length tmp + nat k"
    unfolding n by (simp add: s)
  moreover have "int (length tmp) \<le> p" by (simp add: p_def)
  ultimately have "int (length (rumboot_number num base n precision type)) =
      int (sign_width num type + prefix_width base type) + p + max k 0" by simp
  then show ?thesis unfolding tmp_def [symmetric] p_def [symmetric] k_def by linarith
qed

lemma length_magnitude_digits:
  fixes num type :: u32
  assumes "2 \<le> base" "base \<le> 36"
  defines "d \<equiv> length (magnitude_digits num base type)"
  shows "0 < d" "unat (magnitude num type) < nat base ^ d" "d = 1 \<or> nat base ^ (d - 1) \<le> unat (magnitude num type)"
proof -
  let ?v = "magnitude num type"
  have b: "unat (of_int base :: u32) = nat base" "(2 :: u32) \<le> of_int base"
    using assms(1,2) by (simp_all add: word_le_nat_alt unsigned_of_int take_bit_int_eq_self)
  show "0 < d" "unat ?v < nat base ^ d" "d = 1 \<or> nat base ^ (d - 1) \<le> unat ?v"
    using length_number_digits [OF b(2), of ?v] assms(1) b(1)
    by (auto simp: d_def magnitude_digits_def Let_def)
qed


text \<open>Field widths: the text of a number is exactly as wide as the larger of the field width and
  its own length: sign, prefix, and the larger of the precision and the number of digits, where that
  number is the least with which the magnitude can be written in the base. So nothing is ever cut
  off or padded twice, whatever combination of flags, width and precision is given.\<close>

theorem printf_number_width:
  assumes "2 \<le> base" "base \<le> 36"
  shows "\<exists>d. 0 < d \<and> unat (magnitude num type) < nat base ^ d
      \<and> (d = 1 \<or> nat base ^ (d - 1) \<le> unat (magnitude num type))
      \<and> int (length (rumboot_number num base n precision type)) =
          max n (int (sign_width num type + prefix_width base type) + max (int d) precision)"
  using length_magnitude_digits [OF assms, of num type] length_rumboot_number [OF assms, of num n precision type]
  by blast

theorem printf_number_width_witness:
  "\<exists>d. 0 < d \<and> unat (magnitude 0xFF 0x21) < nat 16 ^ d
      \<and> (d = 1 \<or> nat 16 ^ (d - 1) \<le> unat (magnitude 0xFF 0x21))
      \<and> int (length (rumboot_number 0xFF 16 8 (-1) 0x21)) =
          max 8 (int (sign_width 0xFF 0x21 + prefix_width 16 0x21) + max (int d) (-1))"
  by (rule printf_number_width) simp_all

lemma replicate_2: "replicate 2 x = [x, x]"
  by (simp add: numeral_2_eq_2)

lemma printf_example:
  "rumboot_vprintf (\<lambda>_. 0) ''%-4d|%#06x|%5s|%%'' [0xFFFFFFF9, 0xAB, 0] = Some ''-7  |0x00ab|<NULL>|%''"
  by (simp add: vprintf_directive_def parse_width_def parse_precision_def parse_qualifier_def is_digit_def
      rumboot_skip_atoi_def takes_argument_def conversion_def conv_string_def justify_def rumboot_number_def
      number_sign_def pad_loop_def hex_prefix_def flag_defs lower_digits_def digits_step
      flag_def Let_def unsigned_minus_1_eq_mask mask_eq_exp_minus_1 replicate_2 del: flag_bits)

end
