(* ===== verification/Ini.thy ===== *)
theory Ini
  imports Prelude
begin

text \<open>
  The parser of configuration files, \<open>src/lib/ini.c\<close> with the settings of \<open>include/algo/ini.h\<close> (inline
  comments, no continuation lines, no byte order mark, errors do not stop the parser, buffer of 200
  bytes on the stack), and the dispatch of sections in \<open>targets/configtool/ini_loader.c\<close>. A C string is a
  list of characters without its terminator; a handler is a function on the user's state.
\<close>

section \<open>Strings\<close>

definition MAX_SECTION :: nat where "MAX_SECTION = 50"
definition MAX_NAME :: nat where "MAX_NAME = 50"
definition INI_MAX_LINE :: nat where "INI_MAX_LINE = 200"
definition INI_START_COMMENT_PREFIXES :: string where "INI_START_COMMENT_PREFIXES = '';#''"
definition INI_INLINE_COMMENT_PREFIXES :: string where "INI_INLINE_COMMENT_PREFIXES = '';''"

definition isspace :: "char \<Rightarrow> bool" where
  "isspace c \<longleftrightarrow> c = CHR '' '' \<or> (9 :: nat) \<le> of_char c \<and> (of_char c :: nat) \<le> 13"

definition c_string :: "string \<Rightarrow> string" where "c_string s = takeWhile (\<lambda>c. c \<noteq> CHR 0x00) s"

definition rstrip :: "string \<Rightarrow> string" where "rstrip s = rev (dropWhile isspace (rev s))"

definition lskip :: "string \<Rightarrow> string" where "lskip s = dropWhile isspace s"

text \<open>\<open>find_chars_or_comment\<close> gives the text before the place it finds and the text from there on; without
  \<open>chars\<close> only a comment ends the search.\<close>

fun find_from :: "string option \<Rightarrow> bool \<Rightarrow> string \<Rightarrow> string \<times> string" where
  "find_from chars was_space [] = ([], [])"
| "find_from chars was_space (c # s) =
     (if (case chars of None \<Rightarrow> False | Some cs \<Rightarrow> c \<in> set cs) \<or> was_space \<and> c \<in> set INI_INLINE_COMMENT_PREFIXES
      then ([], c # s)
      else (let (before, rest) = find_from chars (isspace c) s in (c # before, rest)))"

definition find_chars_or_comment :: "string \<Rightarrow> string option \<Rightarrow> string \<times> string" where
  "find_chars_or_comment s chars = find_from chars False s"

definition strncpy0 :: "string \<Rightarrow> nat \<Rightarrow> string" where "strncpy0 src n = take (n - 1) src"

section \<open>Lines\<close>

text \<open>A handler gets the user's state, section, name, value and line number.\<close>

type_synonym 'u ini_handler = "'u \<Rightarrow> string \<Rightarrow> string \<Rightarrow> string \<Rightarrow> nat \<Rightarrow> bool \<times> 'u"

record 'u ini_state =
  ini_user :: 'u
  ini_section :: string
  ini_prev_name :: string
  ini_lineno :: nat
  ini_error :: nat

definition ini_fail :: "'u ini_state \<Rightarrow> 'u ini_state" where
  "ini_fail st = (if ini_error st = 0 then st\<lparr>ini_error := ini_lineno st\<rparr> else st)"

definition ini_pair :: "'u ini_handler \<Rightarrow> string \<Rightarrow> string \<Rightarrow> 'u ini_state \<Rightarrow> 'u ini_state" where
  "ini_pair handler before rest st =
     (let name = rstrip before;
          (value, _) = find_chars_or_comment (tl rest) None;
          value = rstrip (lskip value);
          st = st\<lparr>ini_prev_name := strncpy0 name MAX_NAME\<rparr>;
          (ok, user) = handler (ini_user st) (ini_section st) name value (ini_lineno st);
          st = st\<lparr>ini_user := user\<rparr>
      in if \<not> ok then ini_fail st else st)"

definition ini_line :: "'u ini_handler \<Rightarrow> string \<Rightarrow> 'u ini_state \<Rightarrow> 'u ini_state" where
  "ini_line handler line st =
     (let st = st\<lparr>ini_lineno := ini_lineno st + 1\<rparr>;
          start = lskip (rstrip (c_string line))
      in if start = [] \<or> hd start \<in> set INI_START_COMMENT_PREFIXES then st
         else if hd start = CHR ''['' then
           (let (name, rest) = find_chars_or_comment (tl start) (Some '']'')
            in if rest \<noteq> [] \<and> hd rest = CHR '']''
               then st\<lparr>ini_section := strncpy0 name MAX_SECTION, ini_prev_name := []\<rparr>
               else ini_fail st)
         else
           (let (before, rest) = find_chars_or_comment start (Some ''=:'')
            in if rest \<noteq> [] \<and> (hd rest = CHR ''='' \<or> hd rest = CHR '':'')
               then ini_pair handler before rest st
               else ini_fail st))"

section \<open>Streams\<close>

text \<open>A reader gives a line of at most \<open>num - 1\<close> characters and the rest of the stream.\<close>

type_synonym 's ini_reader = "nat \<Rightarrow> 's \<Rightarrow> (string \<times> 's) option"

partial_function (option) ini_loop ::
  "'s ini_reader \<Rightarrow> 'u ini_handler \<Rightarrow> 's \<Rightarrow> 'u ini_state \<Rightarrow> 'u ini_state option" where
  "ini_loop reader handler stream st =
     (case reader INI_MAX_LINE stream of None \<Rightarrow> Some st
      | Some (line, stream) \<Rightarrow> ini_loop reader handler stream (ini_line handler line st))"

definition ini_start :: "'u \<Rightarrow> 'u ini_state" where
  "ini_start user = \<lparr>ini_user = user, ini_section = [], ini_prev_name = [], ini_lineno = 0, ini_error = 0\<rparr>"

definition ini_parse_stream :: "'s ini_reader \<Rightarrow> 's \<Rightarrow> 'u ini_handler \<Rightarrow> 'u \<Rightarrow> (int \<times> 'u) option" where
  "ini_parse_stream reader stream handler user =
     map_option (\<lambda>st. (int (ini_error st), ini_user st)) (ini_loop reader handler stream (ini_start user))"

fun take_line :: "nat \<Rightarrow> string \<Rightarrow> string \<times> string" where
  "take_line 0 s = ([], s)"
| "take_line (Suc n) [] = ([], [])"
| "take_line (Suc n) (c # s) =
     (if c = CHR 0x0A then ([c], s) else (let (line, rest) = take_line n s in (c # line, rest)))"

definition ini_reader_string :: "string ini_reader" where
  "ini_reader_string num s = (if s = [] \<or> num < 2 then None else Some (take_line (num - 1) s))"

definition ini_parse_string :: "string \<Rightarrow> 'u ini_handler \<Rightarrow> 'u \<Rightarrow> (int \<times> 'u) option" where
  "ini_parse_string s handler user = ini_parse_stream ini_reader_string (c_string s) handler user"

text \<open>\<open>fgets\<close> of the C library, on the bytes of a file that are left.\<close>

definition fgets :: "string ini_reader" where
  "fgets num s = (if s = [] then None else Some (take_line (num - 1) s))"

definition ini_parse_file :: "string \<Rightarrow> 'u ini_handler \<Rightarrow> 'u \<Rightarrow> (int \<times> 'u) option" where
  "ini_parse_file file handler user = ini_parse_stream fgets file handler user"

text \<open>\<open>fopen\<close> is the file system, a partial map from names to contents.\<close>

definition ini_parse :: "(string \<rightharpoonup> string) \<Rightarrow> string \<Rightarrow> 'u ini_handler \<Rightarrow> 'u \<Rightarrow> (int \<times> 'u) option" where
  "ini_parse fopen filename handler user =
     (case fopen filename of None \<Rightarrow> Some (-1, user) | Some file \<Rightarrow> ini_parse_file file handler user)"

section \<open>Sections of the configuration tool\<close>

text \<open>A filter: its section, its handler and what applies the collected data, both on the user data
  \<open>'d\<close> and the state \<open>'w\<close> of the machine.\<close>

record ('d, 'w) sectionfilter =
  sf_section :: string
  sf_handler :: "string \<Rightarrow> string \<Rightarrow> string \<Rightarrow> nat \<Rightarrow> 'd \<times> 'w \<Rightarrow> 'd \<times> 'w"
  sf_apply :: "('d \<Rightarrow> 'w \<Rightarrow> 'w) option"

text \<open>\<open>prevsection\<close>, \<open>curfilter\<close> (\<open>None\<close> for the null pointer and for the sentinel, which has neither
  handler nor apply), the user data and the machine.\<close>

record ('d, 'w) config =
  cf_prevsection :: string
  cf_curfilter :: "('d, 'w) sectionfilter option"
  cf_data :: 'd
  cf_world :: 'w

definition MAX_SECTION_LEN :: nat where "MAX_SECTION_LEN = 128"

definition config_apply :: "('d, 'w) config \<Rightarrow> ('d, 'w) config" where
  "config_apply cf =
     (case cf_curfilter cf of None \<Rightarrow> cf
      | Some f \<Rightarrow>
          (case sf_apply f of None \<Rightarrow> cf | Some apply \<Rightarrow> cf\<lparr>cf_world := apply (cf_data cf) (cf_world cf)\<rparr>))"

text \<open>\<open>zero\<close> is the user data that \<open>bzero\<close> leaves.\<close>

definition config_enter ::
  "('d, 'w) sectionfilter list \<Rightarrow> 'd \<Rightarrow> string \<Rightarrow> ('d, 'w) config \<Rightarrow> ('d, 'w) config" where
  "config_enter filters zero section cf =
     (config_apply cf)\<lparr>cf_data := zero, cf_prevsection := section,
       cf_curfilter := find (\<lambda>f. sf_section f = section) filters\<rparr>"

definition config_pair :: "string \<Rightarrow> string \<Rightarrow> string \<Rightarrow> nat \<Rightarrow> ('d, 'w) config \<Rightarrow> ('d, 'w) config" where
  "config_pair section name value lineno cf =
     (case cf_curfilter cf of None \<Rightarrow> cf
      | Some f \<Rightarrow>
          (let (d, w) = sf_handler f section name value lineno (cf_data cf, cf_world cf)
           in cf\<lparr>cf_data := d, cf_world := w\<rparr>))"

text \<open>The handler ends without a return value, so \<open>returned\<close> is whatever the caller then finds, at each call
  (there is one at most for a line) something else. \<open>None\<close> is the panic for a long section name.\<close>

definition theini_handler ::
  "('d, 'w) sectionfilter list \<Rightarrow> 'd \<Rightarrow> (nat \<Rightarrow> bool) \<Rightarrow> ('d, 'w) config option ini_handler" where
  "theini_handler filters zero returned cf section name value lineno =
     (returned lineno,
      Option.bind cf (\<lambda>cf.
        if cf_prevsection cf = [] \<or> cf_prevsection cf \<noteq> section then
          if length section > MAX_SECTION_LEN then None
          else Some (config_pair section name value lineno (config_enter filters zero section cf))
        else Some (config_pair section name value lineno cf)))"

definition config_parse ::
  "('d, 'w) sectionfilter list \<Rightarrow> 'd \<Rightarrow> 'd \<Rightarrow> (nat \<Rightarrow> bool) \<Rightarrow> string \<Rightarrow> 'w \<Rightarrow> (int \<times> ('d, 'w) config option) option" where
  "config_parse filters zero userdata returned s w =
     ini_parse_string s (theini_handler filters zero returned)
       (Some \<lparr>cf_prevsection = [], cf_curfilter = None, cf_data = userdata, cf_world = w\<rparr>)"

text \<open>\<open>the_exitcode\<close> is part of the machine and read with \<open>exitcode\<close>. \<open>None\<close>: \<open>main\<close> does not return, because of
  a panic or in the loop after a reported error.\<close>

definition config_main ::
  "('w \<Rightarrow> int) \<Rightarrow> ('d, 'w) sectionfilter list \<Rightarrow> 'd \<Rightarrow> 'd \<Rightarrow> (nat \<Rightarrow> bool) \<Rightarrow> string \<Rightarrow> 'w \<Rightarrow> (int \<times> 'w) option" where
  "config_main exitcode filters zero userdata returned s w =
     (case config_parse filters zero userdata returned s w of
        Some (ret, Some cf) \<Rightarrow> if ret \<noteq> 0 then None else Some (exitcode (cf_world cf), cf_world cf)
      | _ \<Rightarrow> None)"

section \<open>What a handler is called with\<close>

definition stripped :: "string \<Rightarrow> bool" where
  "stripped s \<longleftrightarrow> s = [] \<or> \<not> isspace (hd s) \<and> \<not> isspace (last s)"

lemma rstrip_last: "rstrip s = [] \<or> \<not> isspace (last (rstrip s))"
  using hd_dropWhile [of isspace "rev s"] by (auto simp: rstrip_def last_rev)

lemma strip_Nil [simp]: "rstrip [] = []" "lskip [] = []"
  by (simp_all add: rstrip_def lskip_def)

lemma rstrip_prefix: "\<exists>t. s = rstrip s @ t"
  by (metis rev_append rev_rev_ident rstrip_def takeWhile_dropWhile_id)

lemma rstrip_hd: "rstrip s \<noteq> [] \<Longrightarrow> hd (rstrip s) = hd s"
  using rstrip_prefix [of s] by (metis hd_append2)

lemma rstrip_length: "length (rstrip s) \<le> length s"
  using rstrip_prefix [of s] by (metis length_append le_add1)

lemma rstrip_set: "set (rstrip s) \<subseteq> set s"
  using rstrip_prefix [of s] by (metis Un_upper1 set_append)

lemma lskip_hd: "lskip s = [] \<or> \<not> isspace (hd (lskip s))"
  using hd_dropWhile [of isspace s] by (auto simp: lskip_def)

lemma lskip_length: "length (lskip s) \<le> length s"
  by (simp add: lskip_def length_dropWhile_le)

lemma find_from_split:
  "find_from cs w s = (a, b) \<Longrightarrow> s = a @ b \<and> (\<forall>X. cs = Some X \<longrightarrow> set a \<inter> set X = {})"
  by (induction cs w s arbitrary: a b rule: find_from.induct) (auto split: if_splits prod.splits)

lemma take_line_length: "length (fst (take_line n s)) \<le> n"
  by (induction n s rule: take_line.induct) (auto split: prod.splits)

lemma take_line_split: "fst (take_line n s) @ snd (take_line n s) = s"
  by (induction n s rule: take_line.induct) (auto split: prod.splits)

definition ini_args_ok :: "string \<Rightarrow> string \<Rightarrow> string \<Rightarrow> nat \<Rightarrow> bool" where
  "ini_args_ok section name value lineno \<longleftrightarrow> length section < MAX_SECTION \<and> CHR '']'' \<notin> set section
     \<and> stripped name \<and> CHR ''='' \<notin> set name \<and> CHR '':'' \<notin> set name \<and> stripped value
     \<and> length name + length value + 1 < INI_MAX_LINE \<and> 0 < lineno"

definition ini_state_ok :: "('u \<Rightarrow> bool) \<Rightarrow> 'u ini_state \<Rightarrow> bool" where
  "ini_state_ok P st \<longleftrightarrow> P (ini_user st) \<and> length (ini_section st) < MAX_SECTION \<and> CHR '']'' \<notin> set (ini_section st)
     \<and> ini_error st \<le> ini_lineno st"

definition handler_keeps :: "('u \<Rightarrow> bool) \<Rightarrow> 'u ini_handler \<Rightarrow> bool" where
  "handler_keeps P handler \<longleftrightarrow>
     (\<forall>u section name value lineno. P u \<longrightarrow> ini_args_ok section name value lineno \<longrightarrow>
        P (snd (handler u section name value lineno)))"

lemma ini_fail_fields [simp]:
  "ini_user (ini_fail st) = ini_user st" "ini_section (ini_fail st) = ini_section st"
  "ini_lineno (ini_fail st) = ini_lineno st"
  "ini_error (ini_fail st) = (if ini_error st = 0 then ini_lineno st else ini_error st)"
  by (simp_all add: ini_fail_def)

lemma value_stripped: "stripped (rstrip (lskip s))"
  using lskip_hd [of s] rstrip_hd [of "lskip s"] rstrip_last [of "lskip s"]
  by (cases "rstrip (lskip s) = []") (auto simp: stripped_def)

lemma name_stripped:
  assumes "start = before @ rest" "start = [] \<or> \<not> isspace (hd start)"
  shows "stripped (rstrip before)"
proof (cases "rstrip before = []")
  case False
  then have "before \<noteq> []" by (auto simp: rstrip_def)
  then show ?thesis using False assms rstrip_hd [OF False] rstrip_last [of before] by (simp add: stripped_def)
qed (simp add: stripped_def)

lemma ini_pair_ok:
  assumes "ini_state_ok P st" "handler_keeps P handler" "0 < ini_lineno st"
    and "start = before @ rest" "rest \<noteq> []" "\<not> isspace (hd start)" "length start < INI_MAX_LINE"
    and "CHR ''='' \<notin> set before" "CHR '':'' \<notin> set before"
  shows "ini_state_ok P (ini_pair handler before rest st) \<and> ini_lineno (ini_pair handler before rest st) = ini_lineno st"
proof -
  obtain v c where v: "find_chars_or_comment (tl rest) None = (v, c)" by force
  let ?name = "rstrip before" and ?val = "rstrip (lskip v)"
  obtain ok u where h: "handler (ini_user st) (ini_section st) ?name ?val (ini_lineno st) = (ok, u)" by force
  have "length v \<le> length (tl rest)"
    using v find_from_split [of None False "tl rest" v c] by (auto simp: find_chars_or_comment_def)
  then have "length ?name + length ?val + 1 < INI_MAX_LINE"
    using rstrip_length [of before] rstrip_length [of "lskip v"] lskip_length [of v] assms(4,5,7)
    by (cases rest) auto
  then have "ini_args_ok (ini_section st) ?name ?val (ini_lineno st)"
    using assms name_stripped [OF assms(4)] value_stripped [of v] rstrip_set [of before]
    by (auto simp: ini_args_ok_def ini_state_ok_def)
  then have "P u" using assms(1,2) h unfolding handler_keeps_def ini_state_ok_def by (metis snd_conv)
  then show ?thesis using assms(1) by (simp add: ini_pair_def v h Let_def ini_state_ok_def)
qed

lemma ini_line_ok:
  assumes "ini_state_ok P st" "handler_keeps P handler" "length line < INI_MAX_LINE"
  shows "ini_state_ok P (ini_line handler line st) \<and> ini_lineno (ini_line handler line st) = ini_lineno st + 1"
proof -
  let ?st = "st\<lparr>ini_lineno := ini_lineno st + 1\<rparr>" and ?start = "lskip (rstrip (c_string line))"
  have st: "ini_state_ok P ?st" using assms(1) by (auto simp: ini_state_ok_def)
  have l: "length ?start < INI_MAX_LINE"
    using assms(3) lskip_length [of "rstrip (c_string line)"] rstrip_length [of "c_string line"]
      length_takeWhile_le [of "\<lambda>c. c \<noteq> CHR 0x00" line] by (simp add: c_string_def)
  consider "?start = [] \<or> hd ?start \<in> set INI_START_COMMENT_PREFIXES"
    | "?start \<noteq> []" "hd ?start \<notin> set INI_START_COMMENT_PREFIXES" "hd ?start = CHR ''[''"
    | "?start \<noteq> []" "hd ?start \<notin> set INI_START_COMMENT_PREFIXES" "hd ?start \<noteq> CHR ''[''" by blast
  then show ?thesis
  proof cases
    case 1
    then show ?thesis using st by (auto simp: ini_line_def Let_def)
  next
    case 2
    obtain name rest where f: "find_chars_or_comment (tl ?start) (Some '']'') = (name, rest)" by force
    then have "CHR '']'' \<notin> set name"
      using find_from_split [of "Some '']''" False] by (fastforce simp: find_chars_or_comment_def)
    then have "CHR '']'' \<notin> set (strncpy0 name MAX_SECTION) \<and> length (strncpy0 name MAX_SECTION) < MAX_SECTION"
      by (auto simp: strncpy0_def MAX_SECTION_def dest: in_set_takeD)
    then show ?thesis using st 2 f by (auto simp: ini_line_def Let_def ini_state_ok_def)
  next
    case 3
    obtain before rest where f: "find_chars_or_comment ?start (Some ''=:'') = (before, rest)" by force
    then have b: "?start = before @ rest" "CHR ''='' \<notin> set before" "CHR '':'' \<notin> set before"
      using find_from_split [of "Some ''=:''" False ?start before rest] by (auto simp: find_chars_or_comment_def)
    show ?thesis
    proof (cases "rest \<noteq> [] \<and> (hd rest = CHR ''='' \<or> hd rest = CHR '':'')")
      case True
      have "ini_state_ok P (ini_pair handler before rest ?st) \<and> ini_lineno (ini_pair handler before rest ?st) = ini_lineno ?st"
        using ini_pair_ok [OF st assms(2) _ b(1) _ _ l b(2,3)] True 3(1) lskip_hd by auto
      then show ?thesis using True 3 f by (simp add: ini_line_def Let_def)
    next
      case False
      then show ?thesis using st 3 f by (auto simp: ini_line_def Let_def ini_state_ok_def)
    qed
  qed
qed

lemma ini_loop_ok:
  assumes "ini_state_ok P st" "handler_keeps P handler"
  shows "\<exists>st'. ini_loop ini_reader_string handler s st = Some st' \<and> ini_state_ok P st'
    \<and> ini_lineno st' \<le> ini_lineno st + length s"
  using assms(1)
proof (induction "length s" arbitrary: s st rule: less_induct)
  case less
  show ?case
  proof (cases "s = []")
    case True
    then show ?thesis
      by (subst ini_loop.simps) (use less.prems in \<open>simp add: ini_reader_string_def\<close>)
  next
    case False
    obtain line rest where t: "take_line (INI_MAX_LINE - 1) s = (line, rest)" by force
    have r: "ini_reader_string INI_MAX_LINE s = Some (line, rest)"
      using False t by (simp add: ini_reader_string_def INI_MAX_LINE_def)
    have s: "s = line @ rest" using take_line_split [of "INI_MAX_LINE - 1" s] t by simp
    have l: "length line < INI_MAX_LINE"
      using take_line_length [of "INI_MAX_LINE - 1" s] t by (simp add: INI_MAX_LINE_def)
    have "line \<noteq> []"
      using t False by (cases s) (auto simp: INI_MAX_LINE_def eval_nat_numeral split: if_splits prod.splits)
    then obtain st' where "ini_loop ini_reader_string handler rest (ini_line handler line st) = Some st'"
      "ini_state_ok P st'" "ini_lineno st' \<le> ini_lineno (ini_line handler line st) + length rest"
      using less.hyps [of rest "ini_line handler line st"] ini_line_ok [OF less.prems assms(2) l] s by auto
    moreover have "ini_loop ini_reader_string handler s st = ini_loop ini_reader_string handler rest (ini_line handler line st)"
      by (subst ini_loop.simps) (simp add: r)
    ultimately show ?thesis
      using ini_line_ok [OF less.prems assms(2) l] s \<open>line \<noteq> []\<close> by (cases line) auto
  qed
qed

text \<open>C36: The parser of configuration files is total and types its calls: on every text, however
  malformed, it returns, and whatever the handler does, each of its calls gets a section shorter
  than 50 characters, a name without separators, name and value without surrounding white space and
  short enough for the line buffer, and a positive line number. So a property that the handler keeps
  for such arguments holds at the end; and a reported error is the number of a line of the text.\<close>

theorem ini_calls_well_formed:
  assumes "handler_keeps P handler" "P user"
  shows "\<exists>error user'. ini_parse_string input handler user = Some (error, user') \<and> P user'
    \<and> 0 \<le> error \<and> error \<le> int (length input)"
proof -
  have "ini_state_ok P (ini_start user)" using assms(2) by (simp add: ini_state_ok_def ini_start_def MAX_SECTION_def)
  then obtain st where "ini_loop ini_reader_string handler (c_string input) (ini_start user) = Some st"
    "ini_state_ok P st" "ini_lineno st \<le> length (c_string input)"
    using ini_loop_ok [OF _ assms(1), of "ini_start user" "c_string input"] by (auto simp: ini_start_def)
  then show ?thesis
    using length_takeWhile_le [of "\<lambda>c. c \<noteq> CHR 0x00" input]
    by (simp add: ini_parse_string_def ini_parse_stream_def ini_state_ok_def c_string_def)
qed


section \<open>Configurations that are read back\<close>

type_synonym ini_config = "(string \<times> (string \<times> string) list) list"

abbreviation newline :: char where "newline \<equiv> CHR 0x0A"

definition render_pair :: "string \<times> string \<Rightarrow> string" where "render_pair p = fst p @ ''='' @ snd p @ [newline]"

definition render_section :: "string \<times> (string \<times> string) list \<Rightarrow> string" where
  "render_section s = ''['' @ fst s @ '']'' @ [newline] @ concat (map render_pair (snd s))"

definition render :: "ini_config \<Rightarrow> string" where "render c = concat (map render_section c)"

definition plain :: "string \<Rightarrow> bool" where
  "plain s \<longleftrightarrow> CHR '';'' \<notin> set s \<and> newline \<notin> set s \<and> CHR 0x00 \<notin> set s"

definition pair_ok :: "string \<times> string \<Rightarrow> bool" where
  "pair_ok p \<longleftrightarrow> (case p of (n, v) \<Rightarrow> plain n \<and> plain v \<and> stripped n \<and> stripped v \<and> n \<noteq> [] \<and> hd n \<notin> set ''[#''
     \<and> CHR ''='' \<notin> set n \<and> CHR '':'' \<notin> set n \<and> length n + length v + 2 < INI_MAX_LINE)"

definition config_ok :: "ini_config \<Rightarrow> bool" where
  "config_ok c \<longleftrightarrow> (\<forall>(s, ps) \<in> set c. plain s \<and> CHR '']'' \<notin> set s \<and> length s < MAX_SECTION \<and> list_all pair_ok ps)"

text \<open>The calls that a configuration stands for, and the first line whose handler answers 0.\<close>

fun pair_calls :: "'u ini_handler \<Rightarrow> string \<Rightarrow> nat \<Rightarrow> (string \<times> string) list \<Rightarrow> 'u \<times> nat \<Rightarrow> 'u \<times> nat" where
  "pair_calls handler s k [] ue = ue"
| "pair_calls handler s k ((n, v) # ps) (u, e) =
     (let (ok, u) = handler u s n v (k + 1)
      in pair_calls handler s (k + 1) ps (u, if \<not> ok \<and> e = 0 then k + 1 else e))"

fun config_calls :: "'u ini_handler \<Rightarrow> nat \<Rightarrow> ini_config \<Rightarrow> 'u \<times> nat \<Rightarrow> 'u \<times> nat" where
  "config_calls handler k [] ue = ue"
| "config_calls handler k ((s, ps) # c) ue =
     config_calls handler (k + 1 + length ps) c (pair_calls handler s (k + 1) ps ue)"

lemma take_line_newline:
  "newline \<notin> set l \<Longrightarrow> length l < n \<Longrightarrow> take_line n (l @ newline # rest) = (l @ [newline], rest)"
proof (induction n arbitrary: l)
  case (Suc n)
  then show ?case by (cases l) auto
qed simp

lemma find_from_plain:
  assumes "CHR '';'' \<notin> set s" "\<And>X. cs = Some X \<Longrightarrow> set s \<inter> set X = {}"
  shows "find_from cs w (s @ t) = (let (a, b) = find_from cs (if s = [] then w else isspace (last s)) t in (s @ a, b))"
  using assms
proof (induction s arbitrary: w)
  case (Cons c s)
  then show ?case
    by (cases cs) (auto simp: INI_INLINE_COMMENT_PREFIXES_def split: prod.splits)
qed (simp split: prod.splits)

lemma c_string_plain: "CHR 0x00 \<notin> set s \<Longrightarrow> c_string s = s"
  by (auto simp: c_string_def takeWhile_eq_all_conv)

lemma rstrip_space: "isspace c \<Longrightarrow> rstrip (s @ [c]) = rstrip s"
  by (simp add: rstrip_def)

lemma rstrip_stripped: "stripped s \<Longrightarrow> rstrip s = s"
  by (cases s rule: rev_cases) (auto simp: rstrip_def stripped_def)

lemma lskip_stripped: "stripped s \<Longrightarrow> lskip s = s"
  by (cases s) (auto simp: lskip_def stripped_def)

lemma isspace_values [simp]:
  "isspace newline" "\<not> isspace (CHR ''['')" "\<not> isspace (CHR '']'')" "\<not> isspace (CHR ''='')"
  by (simp_all add: isspace_def)

lemma line_section:
  assumes "plain s" "CHR '']'' \<notin> set s" "length s < MAX_SECTION"
  shows "ini_line handler (''['' @ s @ '']'' @ [newline]) st =
    st\<lparr>ini_lineno := ini_lineno st + 1, ini_section := s, ini_prev_name := []\<rparr>"
proof -
  let ?l = "''['' @ s @ '']''"
  have 1: "stripped ?l" by (simp add: stripped_def)
  have 2: "c_string (?l @ [newline]) = ?l @ [newline]" using assms(1) by (simp add: c_string_plain plain_def)
  have 3: "find_chars_or_comment (s @ '']'') (Some '']'') = (s, '']'')"
    using assms(1,2) find_from_plain [of s "Some '']''" False "'']''"]
    by (simp add: find_chars_or_comment_def plain_def)
  have 4: "strncpy0 s MAX_SECTION = s" using assms(3) by (simp add: strncpy0_def)
  have "lskip (rstrip (c_string (?l @ [newline]))) = ?l"
    unfolding 2 using 1 by (simp only: rstrip_space isspace_values rstrip_stripped lskip_stripped)
  then show ?thesis using 3 4 by (simp add: ini_line_def Let_def INI_START_COMMENT_PREFIXES_def)
qed

lemma line_pair:
  assumes "pair_ok (n, v)"
  shows "ini_line handler (render_pair (n, v)) st =
    (let (ok, u) = handler (ini_user st) (ini_section st) n v (ini_lineno st + 1);
         st = st\<lparr>ini_lineno := ini_lineno st + 1, ini_prev_name := strncpy0 n MAX_NAME, ini_user := u\<rparr>
     in if ok then st else ini_fail st)"
proof -
  let ?l = "n @ ''='' @ v"
  have p: "plain n" "plain v" "stripped n" "stripped v" "n \<noteq> []" "CHR ''='' \<notin> set n" "CHR '':'' \<notin> set n"
    "hd n \<notin> set ''[#''" using assms by (auto simp: pair_ok_def)
  have 1: "stripped ?l" using p(3,4,5) by (auto simp: stripped_def)
  have 2: "c_string (?l @ [newline]) = ?l @ [newline]" using p(1,2) by (simp add: c_string_plain plain_def)
  have "CHR '';'' \<notin> set n" "CHR '';'' \<notin> set v" using p(1,2) by (simp_all add: plain_def)
  then have 3: "find_chars_or_comment ?l (Some ''=:'') = (n, ''='' @ v)" "find_chars_or_comment v None = (v, [])"
    using p(6,7) find_from_plain [of n "Some ''=:''" False "''='' @ v"] find_from_plain [of v None False "[]"]
    by (simp_all add: find_chars_or_comment_def)
  have 4: "lskip (rstrip (c_string (?l @ [newline]))) = ?l"
    unfolding 2 using 1 by (simp only: rstrip_space isspace_values rstrip_stripped lskip_stripped)
  have 5: "rstrip n = n" "rstrip (lskip v) = v" using p(3,4) by (simp_all add: rstrip_stripped lskip_stripped)
  have "hd n \<noteq> CHR ''['' \<and> hd n \<notin> set INI_START_COMMENT_PREFIXES"
    using p(1,5,8) by (cases n) (auto simp: INI_START_COMMENT_PREFIXES_def plain_def)
  then show ?thesis
    using 3 4 5 p(5) by (simp add: render_pair_def ini_line_def ini_pair_def Let_def split: prod.splits)
qed

lemma loop_line:
  assumes "newline \<notin> set l" "length l + 1 < INI_MAX_LINE"
  shows "ini_loop ini_reader_string handler (l @ newline # rest) st =
    ini_loop ini_reader_string handler rest (ini_line handler (l @ [newline]) st)"
  using take_line_newline [OF assms(1), of "INI_MAX_LINE - 1" rest] assms(2)
  by (subst ini_loop.simps) (simp add: ini_reader_string_def INI_MAX_LINE_def)


lemma loop_pairs:
  assumes "list_all pair_ok ps"
    and "pair_calls handler (ini_section st) (ini_lineno st) ps (ini_user st, ini_error st) = (u, e)"
  shows "\<exists>st'. ini_loop ini_reader_string handler (concat (map render_pair ps) @ rest) st =
      ini_loop ini_reader_string handler rest st'
    \<and> ini_user st' = u \<and> ini_error st' = e \<and> ini_lineno st' = ini_lineno st + length ps"
  using assms
proof (induction ps arbitrary: st)
  case (Cons p ps)
  obtain n v where p: "p = (n, v)" by force
  obtain ok w where h: "handler (ini_user st) (ini_section st) n v (ini_lineno st + 1) = (ok, w)" by force
  let ?st = "ini_line handler (render_pair (n, v)) st"
  have ok: "pair_ok (n, v)" using Cons.prems(1) p by simp
  then have l: "newline \<notin> set (n @ ''='' @ v)" "length (n @ ''='' @ v) + 1 < INI_MAX_LINE"
    by (auto simp: pair_ok_def plain_def)
  have st: "ini_user ?st = w" "ini_section ?st = ini_section st" "ini_lineno ?st = ini_lineno st + 1"
    "ini_error ?st = (if \<not> ok \<and> ini_error st = 0 then ini_lineno st + 1 else ini_error st)"
    using line_pair [OF ok, of handler st] h by (simp_all add: Let_def)
  have "pair_calls handler (ini_section ?st) (ini_lineno ?st) ps (ini_user ?st, ini_error ?st) = (u, e)"
    using Cons.prems(2) h by (simp add: st p)
  from Cons.IH [OF _ this] Cons.prems(1) obtain st' where
    "ini_loop ini_reader_string handler (concat (map render_pair ps) @ rest) ?st =
      ini_loop ini_reader_string handler rest st'"
    "ini_user st' = u" "ini_error st' = e" "ini_lineno st' = ini_lineno ?st + length ps" by auto
  moreover have "ini_loop ini_reader_string handler (render_pair (n, v) @ concat (map render_pair ps) @ rest) st =
      ini_loop ini_reader_string handler (concat (map render_pair ps) @ rest) ?st"
    using loop_line [OF l, of handler "concat (map render_pair ps) @ rest" st] by (simp add: render_pair_def)
  ultimately show ?case unfolding p st(3) by auto
qed auto

lemma loop_config:
  assumes "config_ok c" "config_calls handler (ini_lineno st) c (ini_user st, ini_error st) = (u, e)"
  shows "\<exists>st'. ini_loop ini_reader_string handler (render c) st = Some st' \<and> ini_user st' = u \<and> ini_error st' = e"
  using assms
proof (induction c arbitrary: st)
  case Nil
  then show ?case by (subst ini_loop.simps) (simp add: render_def ini_reader_string_def)
next
  case (Cons s c)
  obtain sec ps where s: "s = (sec, ps)" by force
  have ok: "plain sec" "CHR '']'' \<notin> set sec" "length sec < MAX_SECTION" "list_all pair_ok ps" "config_ok c"
    using Cons.prems(1) by (auto simp: config_ok_def s)
  let ?st = "ini_line handler (''['' @ sec @ '']'' @ [newline]) st"
  have st: "?st = st\<lparr>ini_lineno := ini_lineno st + 1, ini_section := sec, ini_prev_name := []\<rparr>"
    by (rule line_section [OF ok(1-3)])
  obtain u1 e1 where c1: "pair_calls handler sec (ini_lineno st + 1) ps (ini_user st, ini_error st) = (u1, e1)" by force
  obtain st1 where 1: "ini_loop ini_reader_string handler (concat (map render_pair ps) @ render c) ?st =
      ini_loop ini_reader_string handler (render c) st1"
    "ini_user st1 = u1" "ini_error st1 = e1" "ini_lineno st1 = ini_lineno st + 1 + length ps"
    using loop_pairs [OF ok(4), of handler ?st u1 e1 "render c"] c1 unfolding st by auto
  have "config_calls handler (ini_lineno st1) c (ini_user st1, ini_error st1) = (u, e)"
    using Cons.prems(2) c1 1 by (simp add: s)
  from Cons.IH [OF ok(5) this] obtain st2 where 2: "ini_loop ini_reader_string handler (render c) st1 = Some st2"
    "ini_user st2 = u" "ini_error st2 = e" by blast
  have "ini_loop ini_reader_string handler (render ((sec, ps) # c)) st =
      ini_loop ini_reader_string handler (concat (map render_pair ps) @ render c) ?st"
    using loop_line [of "''['' @ sec @ '']''" handler "concat (map render_pair ps) @ render c" st] ok(1,3)
    by (simp add: render_def render_section_def plain_def MAX_SECTION_def INI_MAX_LINE_def)
  then show ?case using 1(1) 2 by (simp add: s)
qed

lemma pairs_no_nul: "list_all pair_ok ps \<Longrightarrow> CHR 0x00 \<notin> set (concat (map render_pair ps))"
  by (induction ps) (auto simp: render_pair_def pair_ok_def plain_def)

lemma render_no_nul: "config_ok c \<Longrightarrow> CHR 0x00 \<notin> set (render c)"
proof (induction c)
  case (Cons s c)
  then have "CHR 0x00 \<notin> set (concat (map render_pair (snd s)))" "plain (fst s)" "CHR 0x00 \<notin> set (render c)"
    by (auto simp: config_ok_def intro!: pairs_no_nul simp del: set_concat)
  then show ?case by (simp add: render_def render_section_def plain_def del: set_concat)
qed (simp add: render_def)

lemma ini_render_reads:
  assumes "config_ok c" "config_calls handler 0 c (user, 0) = (user', e)"
  shows "ini_parse_string (render c) handler user = Some (int e, user')"
proof -
  obtain st where "ini_loop ini_reader_string handler (render c) (ini_start user) = Some st"
    "ini_user st = user'" "ini_error st = e"
    using loop_config [OF assms(1), of handler "ini_start user" user' e] assms(2) by (auto simp: ini_start_def)
  then show ?thesis
    by (simp add: ini_parse_string_def ini_parse_stream_def c_string_plain [OF render_no_nul [OF assms(1)]])
qed

text \<open>C35: Configurations survive being written and read: for sections, names and values without the
  characters that structure a file, parsing the rendered text calls the handler exactly once per
  pair, in order, with its section, name, value and line, threads the user's state through the calls
  and returns the first line whose call answered 0, or 0.\<close>

theorem ini_render_roundtrip:
  assumes "config_ok c" "config_calls handler 0 c (user, 0) = (user', e)"
  shows "ini_parse_string (render c) handler user = Some (int e, user')"
  using assms by (rule ini_render_reads)

definition ini_log :: "(string \<times> string \<times> string \<times> nat) list ini_handler" where
  "ini_log u s n v k = (n \<noteq> ''bad'', u @ [(s, n, v, k)])"

definition demo_config :: ini_config where
  "demo_config = [(''PCIe'', [(''speed'', ''3''), (''bad'', ''x y'')]), (''EXIT'', [(''mode'', ''host'')])]"

theorem ini_render_roundtrip_witness:
  "ini_parse_string (render demo_config) ini_log [] =
     Some (3, [(''PCIe'', ''speed'', ''3'', 2), (''PCIe'', ''bad'', ''x y'', 3), (''EXIT'', ''mode'', ''host'', 5)])"
proof -
  have "config_ok demo_config"
    by (simp add: config_ok_def demo_config_def pair_ok_def plain_def stripped_def isspace_def MAX_SECTION_def
        INI_MAX_LINE_def)
  moreover have "config_calls ini_log 0 demo_config ([], 0) =
    ([(''PCIe'', ''speed'', ''3'', 2), (''PCIe'', ''bad'', ''x y'', 3), (''EXIT'', ''mode'', ''host'', 5)], 3)"
    by (simp add: demo_config_def ini_log_def)
  ultimately show ?thesis using ini_render_roundtrip [of demo_config ini_log "[]" _ 3] by simp
qed

text \<open>A file with comments, blanks, a line without a separator, a handler that fails and a section without an end.\<close>

definition rough_text :: string where
  "rough_text = ''# x'' @ [newline] @ ''[ PCIe ]'' @ [newline] @ '' speed = 3 ; fast'' @ [newline] @ ''bad: y''
     @ [newline] @ ''nothing'' @ [newline] @ ''[b''"

text \<open>The loop with a bound on the number of lines, to evaluate it.\<close>

fun ini_steps :: "nat \<Rightarrow> 'u ini_handler \<Rightarrow> string \<Rightarrow> 'u ini_state \<Rightarrow> 'u ini_state option" where
  "ini_steps 0 handler s st = None"
| "ini_steps (Suc n) handler s st =
     (case ini_reader_string INI_MAX_LINE s of None \<Rightarrow> Some st
      | Some (line, s) \<Rightarrow> ini_steps n handler s (ini_line handler line st))"

lemma ini_steps_loop: "ini_steps n handler s st = Some st' \<Longrightarrow> ini_loop ini_reader_string handler s st = Some st'"
  by (induction n handler s st rule: ini_steps.induct)
    (simp, subst ini_loop.simps, auto split: option.splits)

lemma rough_parsed:
  "ini_parse_string rough_text ini_log [] = Some (4, [('' PCIe '', ''speed'', ''3'', 3), ('' PCIe '', ''bad'', ''y'', 4)])"
proof -
  have "map_option (\<lambda>st. (int (ini_error st), ini_user st)) (ini_steps 7 ini_log (c_string rough_text) (ini_start []))
    = Some (4, [('' PCIe '', ''speed'', ''3'', 3), ('' PCIe '', ''bad'', ''y'', 4)])"
    by code_simp
  then show ?thesis
    by (auto simp: ini_parse_string_def ini_parse_stream_def simp del: ini_steps.simps dest!: ini_steps_loop)
qed

theorem ini_calls_well_formed_witness:
  "ini_parse_string rough_text ini_log [] = Some (4, [('' PCIe '', ''speed'', ''3'', 3), ('' PCIe '', ''bad'', ''y'', 4)]) \<and>
   ini_args_ok '' PCIe '' ''speed'' ''3'' 3 \<and> ini_args_ok '' PCIe '' ''bad'' ''y'' 4 \<and> (4 :: int) \<le> int (length rough_text)"
proof -
  let ?P = "list_all (\<lambda>(s, n, v, k). ini_args_ok s n v k)"
  have "handler_keeps ?P ini_log" by (simp add: handler_keeps_def ini_log_def)
  from ini_calls_well_formed [OF this, of "[]" rough_text] show ?thesis
    by (simp add: rough_parsed)
qed

section \<open>The last section of a configuration\<close>

definition drop_apply :: "string \<Rightarrow> ('d, 'w) sectionfilter \<Rightarrow> ('d, 'w) sectionfilter" where
  "drop_apply s f = (if sf_section f = s then f\<lparr>sf_apply := None\<rparr> else f)"

definition same_config :: "string \<Rightarrow> ('d, 'w) config \<Rightarrow> ('d, 'w) config \<Rightarrow> bool" where
  "same_config s x y \<longleftrightarrow> cf_prevsection x = cf_prevsection y \<and> cf_data x = cf_data y \<and> cf_world x = cf_world y
     \<and> cf_curfilter y = map_option (drop_apply s) (cf_curfilter x)
     \<and> (\<forall>f. cf_curfilter x = Some f \<longrightarrow> sf_section f = cf_prevsection x)"

definition same_configs :: "string \<Rightarrow> string \<Rightarrow> ('d, 'w) config option \<Rightarrow> ('d, 'w) config option \<Rightarrow> bool" where
  "same_configs s t a b \<longleftrightarrow>
     rel_option (\<lambda>x y. same_config s x y \<and> (cf_prevsection x = s \<longrightarrow> t = s)) a b"

lemma find_drop_apply:
  "find (\<lambda>f. sf_section f = t) (map (drop_apply s) filters) =
     map_option (drop_apply s) (find (\<lambda>f. sf_section f = t) filters)"
  by (induction filters) (auto simp: drop_apply_def)

lemma drop_apply_handler [simp]: "sf_handler (drop_apply s f) = sf_handler f" "sf_section (drop_apply s f) = sf_section f"
  by (simp_all add: drop_apply_def)

lemma apply_same_config:
  assumes "same_config s x y" "cf_prevsection x \<noteq> s"
  shows "cf_world (config_apply x) = cf_world (config_apply y)"
  using assms by (cases "cf_curfilter x") (auto simp: same_config_def config_apply_def drop_apply_def split: option.splits)

lemma enter_same_config:
  assumes "same_config s x y" "cf_prevsection x \<noteq> s"
  shows "same_config s (config_enter filters zero t x) (config_enter (map (drop_apply s) filters) zero t y)"
  using apply_same_config [OF assms]
  by (auto simp: same_config_def config_enter_def find_drop_apply find_Some_iff)

lemma pair_same_config:
  assumes "same_config s x y"
  shows "same_config s (config_pair t n v k x) (config_pair t n v k y)"
  using assms by (cases "cf_curfilter x") (auto simp: same_config_def config_pair_def split: prod.splits)

lemma pair_prevsection [simp]: "cf_prevsection (config_pair t n v k x) = cf_prevsection x"
  by (simp add: config_pair_def split: option.splits prod.splits)

lemma handler_same_config:
  assumes "same_configs s t a b" "s \<noteq> []"
  shows "same_configs s t (snd (theini_handler filters zero r a t n v k))
    (snd (theini_handler (map (drop_apply s) filters) zero r b t n v k))"
proof (cases a)
  case None
  then show ?thesis using assms(1) by (simp add: same_configs_def theini_handler_def)
next
  case (Some x)
  then obtain y where y: "b = Some y" "same_config s x y" "cf_prevsection x = s \<longrightarrow> t = s"
    using assms(1) by (auto simp: same_configs_def option_rel_Some1)
  then have p: "cf_prevsection y = cf_prevsection x" by (simp add: same_config_def)
  show ?thesis
  proof (cases "cf_prevsection x = [] \<or> cf_prevsection x \<noteq> t")
    case True
    then have "cf_prevsection x \<noteq> s" using y(3) assms(2) by auto
    then show ?thesis
      using True Some y p pair_same_config [OF enter_same_config [OF y(2)]]
      by (auto simp: theini_handler_def same_configs_def config_enter_def)
  next
    case False
    then show ?thesis using Some y p pair_same_config [OF y(2)] by (auto simp: theini_handler_def same_configs_def)
  qed
qed

lemma pairs_same_config:
  assumes "same_configs s t a b" "s \<noteq> []"
  shows "snd (pair_calls (theini_handler filters zero r) t k ps (a, e)) =
      snd (pair_calls (theini_handler (map (drop_apply s) filters) zero r) t k ps (b, e))
    \<and> same_configs s t (fst (pair_calls (theini_handler filters zero r) t k ps (a, e)))
      (fst (pair_calls (theini_handler (map (drop_apply s) filters) zero r) t k ps (b, e)))"
  using assms(1)
proof (induction ps arbitrary: a b e k)
  case (Cons p ps)
  obtain n v where p: "p = (n, v)" by force
  have f: "fst (theini_handler fs zero r c t n v k') = r k'" for fs and c :: "('a, 'b) config option" and k'
    by (simp add: theini_handler_def)
  show ?case
    using Cons.IH [OF handler_same_config [OF Cons.prems assms(2), of filters zero r n v "k + 1"], of "k + 1"]
    by (simp add: p case_prod_unfold Let_def f)
qed simp

lemma config_same_config:
  assumes "same_configs s t a b" "s \<noteq> []" "t \<noteq> s" "s \<notin> fst ` set c"
  shows "\<exists>e1 a1 b1. config_calls (theini_handler filters zero r) k (c @ [(s, ps)]) (a, e) = (a1, e1)
    \<and> config_calls (theini_handler (map (drop_apply s) filters) zero r) k (c @ [(s, ps)]) (b, e) = (b1, e1)
    \<and> same_configs s s a1 b1"
  using assms(1,3,4)
proof (induction c arbitrary: t a b e k)
  case Nil
  then have "same_configs s s a b" by (auto simp: same_configs_def elim: option.rel_mono_strong)
  from pairs_same_config [OF this assms(2), of filters zero r "k + 1" ps e] show ?case
    by (auto simp: prod_eq_iff)
next
  case (Cons tp c)
  obtain t' qs where tp: "tp = (t', qs)" by force
  have "same_configs s t' a b" using Cons.prems(1,2) by (auto simp: same_configs_def elim: option.rel_mono_strong)
  from pairs_same_config [OF this assms(2), of filters zero r "k + 1" qs e]
  obtain a1 b1 e1 where 1: "pair_calls (theini_handler filters zero r) t' (k + 1) qs (a, e) = (a1, e1)"
    "pair_calls (theini_handler (map (drop_apply s) filters) zero r) t' (k + 1) qs (b, e) = (b1, e1)"
    "same_configs s t' a1 b1" by (auto simp: prod_eq_iff)
  have "t' \<noteq> s" "s \<notin> fst ` set c" using Cons.prems(3) tp by auto
  from Cons.IH [OF 1(3) this] show ?case using 1(1,2) by (simp add: tp)
qed

text \<open>C37: The configuration tool never applies the last section of a configuration: what it has collected
  is applied when the next section begins, and nothing begins after the last one. So for every
  configuration whose last section differs from the others, removing the \<open>apply\<close> function of that
  section changes neither the result of the parser, nor the state of the machine, nor what \<open>main\<close> returns.\<close>

theorem config_last_section_not_applied:
  assumes "config_ok (c @ [(s, ps)])" "s \<noteq> []" "s \<notin> fst ` set c"
  shows "\<exists>e a b. config_parse filters zero d r (render (c @ [(s, ps)])) w = Some (e, a)
    \<and> config_parse (map (drop_apply s) filters) zero d r (render (c @ [(s, ps)])) w = Some (e, b)
    \<and> map_option cf_world a = map_option cf_world b
    \<and> config_main exitcode filters zero d r (render (c @ [(s, ps)])) w
        = config_main exitcode (map (drop_apply s) filters) zero d r (render (c @ [(s, ps)])) w"
proof -
  let ?cf = "Some \<lparr>cf_prevsection = [], cf_curfilter = None, cf_data = d, cf_world = w\<rparr>"
  have "same_configs s [] ?cf ?cf" by (simp add: same_configs_def same_config_def)
  from config_same_config [OF this assms(2) _ assms(3), of filters zero r 0 ps 0] assms(2)
  obtain e a b where 1: "config_calls (theini_handler filters zero r) 0 (c @ [(s, ps)]) (?cf, 0) = (a, e)"
    "config_calls (theini_handler (map (drop_apply s) filters) zero r) 0 (c @ [(s, ps)]) (?cf, 0) = (b, e)"
    "same_configs s s a b" by auto
  have ab: "map_option cf_world a = map_option cf_world b"
    using 1(3) by (cases a; cases b) (auto simp: same_configs_def same_config_def)
  have p: "config_parse filters zero d r (render (c @ [(s, ps)])) w = Some (int e, a)"
    "config_parse (map (drop_apply s) filters) zero d r (render (c @ [(s, ps)])) w = Some (int e, b)"
    using ini_render_reads [OF assms(1) 1(1)] ini_render_reads [OF assms(1) 1(2)] unfolding config_parse_def by blast+
  have "config_main exitcode filters zero d r (render (c @ [(s, ps)])) w
      = config_main exitcode (map (drop_apply s) filters) zero d r (render (c @ [(s, ps)])) w"
    using ab by (cases a; cases b) (simp_all add: config_main_def p)
  then show ?thesis using p ab by blast
qed


definition demo_filter :: "(nat, nat) sectionfilter" where
  "demo_filter = \<lparr>sf_section = ''PCIe'', sf_handler = \<lambda>_ _ _ k (d, w). (k, w), sf_apply = Some (\<lambda>d w. w + d)\<rparr>"

theorem config_last_section_not_applied_witness:
  "(\<exists>e a. config_parse [demo_filter] 0 0 (\<lambda>_. True) (render ([] @ [(''PCIe'', [(''speed'', ''3'')])])) 7 = Some (e, a)
    \<and> map_option cf_world a = Some 7)
    \<and> config_main int [demo_filter] 0 0 (\<lambda>_. True) (render ([] @ [(''PCIe'', [(''speed'', ''3'')])])) 7 = Some (7, 7)"
proof -
  let ?c = "[] @ [(''PCIe'', [(''speed'', ''3'')])]"
  have ok: "config_ok ?c"
    by (simp add: config_ok_def pair_ok_def plain_def stripped_def isspace_def MAX_SECTION_def INI_MAX_LINE_def)
  let ?f = "drop_apply ''PCIe'' demo_filter"
  have "config_calls (theini_handler [?f] 0 (\<lambda>_. True)) 0 ?c
      (Some \<lparr>cf_prevsection = [], cf_curfilter = None, cf_data = 0, cf_world = 7\<rparr>, 0) =
    (Some \<lparr>cf_prevsection = ''PCIe'', cf_curfilter = Some ?f, cf_data = 2, cf_world = 7\<rparr>, 0)"
    by (simp add: theini_handler_def config_enter_def config_pair_def config_apply_def demo_filter_def drop_apply_def
        MAX_SECTION_LEN_def)
  from ini_render_reads [OF ok this]
  have p: "config_parse [?f] 0 0 (\<lambda>_. True) (render ?c) 7 =
    Some (0, Some \<lparr>cf_prevsection = ''PCIe'', cf_curfilter = Some ?f, cf_data = 2, cf_world = 7\<rparr>)"
    by (simp add: config_parse_def)
  then have "config_main int [?f] 0 0 (\<lambda>_. True) (render ?c) 7 = Some (7, 7)" by (simp add: config_main_def)
  then show ?thesis
    using config_last_section_not_applied [OF ok, of "[demo_filter]" 0 0 "\<lambda>_. True" 7 int] p by auto
qed

end
