(* ===== verification/Memtest.thy ===== *)
theory Memtest
  imports Hardware
begin

text \<open>
  The memory tests, \<open>src/lib/memtest.c\<close>, on a memory that answers like a device, so that faulty memory
  can be described. Error counts are natural numbers, which a 64-bit counter never exceeds.
\<close>

section \<open>Patterns\<close>

definition patterns :: "u32 list" where
  "patterns = [0, 0xffffffff, 0x55555555, 0xaaaaaaaa, 0x11111111, 0x22222222, 0x44444444, 0x88888888, 0x33333333,
     0x66666666, 0x99999999, 0xcccccccc, 0x77777777, 0xbbbbbbbb, 0xdddddddd, 0xeeeeeeee, 0x7a6c7258]"

text \<open>The loop over the bits of \<open>mask\<close>.\<close>

definition bit_test :: "u32 \<Rightarrow> u32 \<Rightarrow> nat" where
  "bit_test reg pattern =
     (let mask = reg XOR pattern
      in if mask \<noteq> 0 then length (filter (\<lambda>i. mask AND BIT i \<noteq> 0) [0..<32]) else 0)"

text \<open>The words \<open>p = start; p < end; p++\<close>: none when \<open>end\<close> wraps around.\<close>

definition memtest_words :: "u32 \<Rightarrow> u32 \<Rightarrow> u32 list" where
  "memtest_words start_phys n =
     (let end_phys = start_phys + 4 * (n div 4)
      in if start_phys < end_phys then map (\<lambda>i. start_phys + 4 * of_nat i) [0 ..< unat (n div 4)] else [])"

fun fill_words :: "('d, 'e) hw_scheme \<Rightarrow> u32 \<Rightarrow> u32 list \<Rightarrow> 'd \<Rightarrow> 'd" where
  "fill_words hw pattern [] d = d"
| "fill_words hw pattern (p # ps) d = fill_words hw pattern ps (iowrite32 hw pattern p d)"

fun check_words :: "('d, 'e) hw_scheme \<Rightarrow> u32 \<Rightarrow> u32 list \<Rightarrow> nat \<Rightarrow> 'd \<Rightarrow> nat \<times> 'd" where
  "check_words hw pattern [] errors d = (errors, d)"
| "check_words hw pattern (p # ps) errors d =
     (let (tmp, d) = ioread32 hw p d
      in if tmp = pattern then check_words hw pattern ps errors d
         else check_words hw pattern ps (errors + bit_test tmp pattern) (iowrite32 hw pattern p d))"

definition memtest_once :: "('d, 'e) hw_scheme \<Rightarrow> u32 \<Rightarrow> u32 \<Rightarrow> u32 \<Rightarrow> 'd \<Rightarrow> nat \<times> 'd" where
  "memtest_once hw pattern start_phys n d =
     (let ps = memtest_words start_phys n in check_words hw pattern ps 0 (fill_words hw pattern ps d))"

fun memtest_loop :: "('d, 'e) hw_scheme \<Rightarrow> u32 list \<Rightarrow> u32 \<Rightarrow> u32 \<Rightarrow> nat \<Rightarrow> 'd \<Rightarrow> nat \<times> 'd" where
  "memtest_loop hw [] start_phys n errors d = (errors, d)"
| "memtest_loop hw (pattern # ps) start_phys n errors d =
     (let (k, d) = memtest_once hw pattern start_phys n d
      in memtest_loop hw ps start_phys n (errors + k) d)"

definition memtest :: "('d, 'e) hw_scheme \<Rightarrow> u32 \<Rightarrow> u32 \<Rightarrow> 'd \<Rightarrow> nat \<times> 'd" where
  "memtest hw start_phys n d = memtest_loop hw patterns start_phys n 0 d"

partial_function (option) check_pattern_loop ::
  "('d, 'e) hw_scheme \<Rightarrow> u32 \<Rightarrow> bool \<Rightarrow> u32 \<Rightarrow> u32 \<Rightarrow> nat \<Rightarrow> 'd \<Rightarrow> (nat \<times> 'd) option" where
  "check_pattern_loop hw pattern refresh i end_phys errors d =
     (if i < end_phys then
        (let (v, d) = ioread32 hw i d;
             buf = bit_test v pattern;
             d = (if buf \<noteq> 0 \<and> refresh then iowrite32 hw pattern i d else d)
         in check_pattern_loop hw pattern refresh (i + 4) end_phys (errors + buf) d)
      else Some (errors, d))"

definition memtest_check_pattern ::
  "('d, 'e) hw_scheme \<Rightarrow> u32 \<Rightarrow> bool \<Rightarrow> u32 \<Rightarrow> u32 \<Rightarrow> 'd \<Rightarrow> (nat \<times> 'd) option" where
  "memtest_check_pattern hw pattern refresh mem_start len d =
     check_pattern_loop hw pattern refresh mem_start (mem_start + len) 0 d"

partial_function (option) memtest_fill_pattern :: "('d, 'e) hw_scheme \<Rightarrow> u32 \<Rightarrow> u32 \<Rightarrow> u32 \<Rightarrow> 'd \<Rightarrow> 'd option" where
  "memtest_fill_pattern hw ptr len pattern d =
     (if len \<noteq> 0 then memtest_fill_pattern hw (ptr + 4) (len - 4) pattern (iowrite32 hw pattern ptr d) else Some d)"

section \<open>Faulty memory\<close>

text \<open>Words whose bits outside \<open>good\<close> are stuck at the bits of \<open>stuck\<close>.\<close>

definition stuck_ram :: "(u32 \<Rightarrow> u32) \<Rightarrow> (u32 \<Rightarrow> u32) \<Rightarrow> (u32 \<Rightarrow> u32) hw" where
  "stuck_ram good stuck =
     \<lparr>hw_read32 = \<lambda>a d. ((d a AND good a) OR (stuck a AND NOT (good a)), d), hw_write32 = \<lambda>v a d. d(a := v),
      hw_uptime = \<lambda>d. (0, d)\<rparr>"

lemma ram_simps [simp]:
  "ioread32 (stuck_ram good stuck) a d = ((d a AND good a) OR (stuck a AND NOT (good a)), d)"
  "iowrite32 (stuck_ram good stuck) v a d = d(a := v)"
  by (simp_all add: ioread32_def iowrite32_def stuck_ram_def)

lemma bit_test_0: "bit_test reg pattern = 0 \<longleftrightarrow> reg = pattern"
proof
  assume "bit_test reg pattern = 0"
  then have "\<forall>i < 32. \<not> bit (reg XOR pattern) i"
    by (auto simp: bit_test_def Let_def and_BIT filter_empty_conv split: if_splits)
  then show "reg = pattern" by (intro bit_word_eqI) (auto simp: bit_simps)
qed (simp add: bit_test_def)

lemma fill_words_value: "fill_words (stuck_ram good stuck) v ps d = (\<lambda>a. if a \<in> set ps then v else d a)"
  by (induction ps arbitrary: d) auto

lemma bit_test_same [simp]: "bit_test v v = 0"
  by (simp add: bit_test_def)

definition stuck_read :: "(u32 \<Rightarrow> u32) \<Rightarrow> (u32 \<Rightarrow> u32) \<Rightarrow> u32 \<Rightarrow> u32 \<Rightarrow> u32" where
  "stuck_read good stuck v a = (v AND good a) OR (stuck a AND NOT (good a))"

text \<open>Every word of the region holds the pattern when the second loop begins, and keeps it.\<close>

lemma check_words_value:
  assumes "\<And>a. a \<in> set ps \<Longrightarrow> d a = v"
  shows "check_words (stuck_ram good stuck) v ps errors d =
    (errors + (\<Sum>a\<leftarrow>ps. bit_test (stuck_read good stuck v a) v), d)"
  using assms
proof (induction ps arbitrary: errors)
  case (Cons p ps)
  then have "d(p := v) = d" by auto
  then show ?case using Cons by (auto simp: stuck_read_def)
qed simp

lemma memtest_once_value:
  "memtest_once (stuck_ram good stuck) v start_phys n d =
     (let ps = memtest_words start_phys n
      in (\<Sum>a\<leftarrow>ps. bit_test (stuck_read good stuck v a) v, \<lambda>a. if a \<in> set ps then v else d a))"
  by (simp add: memtest_once_def Let_def fill_words_value check_words_value)

lemma memtest_loop_value:
  "memtest_loop (stuck_ram good stuck) (vs @ [v]) start_phys n errors d =
     (let ps = memtest_words start_phys n
      in (errors + (\<Sum>v\<leftarrow>vs @ [v]. \<Sum>a\<leftarrow>ps. bit_test (stuck_read good stuck v a) v), \<lambda>a. if a \<in> set ps then v else d a))"
proof (induction vs arbitrary: errors d)
  case Nil
  then show ?case by (simp add: memtest_once_value Let_def)
next
  case (Cons w vs)
  show ?case by (simp add: memtest_once_value Let_def Cons.IH) (auto simp: Let_def)
qed

lemma stuck_read_all:
  "(\<forall>v \<in> set patterns. stuck_read good stuck v a = v) \<longleftrightarrow> good a = - 1"
proof
  assume l: "\<forall>v \<in> set patterns. stuck_read good stuck v a = v"
  have "stuck_read good stuck 0 a = 0" "stuck_read good stuck 0xffffffff a = 0xffffffff" using l by (simp_all add: patterns_def)
  moreover have "(0xffffffff :: u32) = - 1" by simp
  ultimately have 1: "stuck a AND NOT (good a) = 0" "good a OR (stuck a AND NOT (good a)) = - 1"
    by (simp_all add: stuck_read_def)
  show "good a = - 1" using 1(2) unfolding 1(1) by simp
qed (simp add: stuck_read_def)

text \<open>The tested words, spelled out.\<close>

lemma memtest_words_region:
  assumes "unat start_phys + unat n < 2 ^ 32"
  shows "set (memtest_words start_phys n) = {start_phys + 4 * of_nat i | i. i < unat n div 4}"
proof -
  have d: "unat (n div 4) = unat n div 4" by (simp add: unat_div)
  have "4 * (unat n div 4) \<le> unat n" by simp
  moreover have "unat start_phys + unat n < 4294967296" using assms by simp
  ultimately have "4 * (unat n div 4) < 4294967296" by linarith
  then have m: "unat (4 * (n div 4)) = 4 * (unat n div 4)"
    using d by (simp add: unat_word_ariths(2))
  have e: "unat (start_phys + 4 * (n div 4)) = unat start_phys + 4 * (unat n div 4)"
    using m assms by (simp add: unat_word_ariths(1))
  show ?thesis
  proof (cases "unat n div 4 = 0")
    case True
    then show ?thesis using d by (auto simp: memtest_words_def Let_def)
  next
    case False
    then have "start_phys < start_phys + 4 * (n div 4)" using e by (simp add: word_less_nat_alt)
    then show ?thesis using d by (auto simp: memtest_words_def Let_def)
  qed
qed

text \<open>What \<open>memtest\<close> leaves in the region is the last pattern of the table.\<close>

lemma memtest_value:
  "memtest (stuck_ram good stuck) start_phys n d =
     (\<Sum>v\<leftarrow>patterns. \<Sum>a\<leftarrow>memtest_words start_phys n. bit_test (stuck_read good stuck v a) v,
      \<lambda>a. if a \<in> set (memtest_words start_phys n) then 0x7a6c7258 else d a)"
proof -
  have p: "patterns = butlast patterns @ [0x7a6c7258]" by (simp add: patterns_def)
  show ?thesis unfolding memtest_def by (subst (1 2) p) (simp only: memtest_loop_value Let_def add_0)
qed

text \<open>C39: The memory test finds every stuck bit: on memory whose words may have bits stuck at 0 or 1, in
  any places, \<open>memtest\<close> answers 0 errors exactly if none of the \<open>size / 4\<close> words from \<open>start_phys\<close> on has a
  stuck bit. It changes no word outside this region.\<close>

theorem memtest_finds_stuck_bits:
  assumes "unat start_phys + unat n < 2 ^ 32"
  shows "(fst (memtest (stuck_ram good stuck) start_phys n d) = 0 \<longleftrightarrow>
      (\<forall>i < unat n div 4. good (start_phys + 4 * of_nat i) = - 1))
   \<and> (\<forall>a. (\<forall>i < unat n div 4. a \<noteq> start_phys + 4 * of_nat i) \<longrightarrow>
        snd (memtest (stuck_ram good stuck) start_phys n d) a = d a)"
proof -
  note r = memtest_words_region [OF assms]
  have "fst (memtest (stuck_ram good stuck) start_phys n d) = 0 \<longleftrightarrow>
      (\<forall>a \<in> set (memtest_words start_phys n). \<forall>v \<in> set patterns. stuck_read good stuck v a = v)"
    unfolding memtest_value fst_conv sum_list_eq_0_iff by (auto simp: sum_list_eq_0_iff bit_test_0)
  then show ?thesis unfolding stuck_read_all r by (auto simp: memtest_value r)
qed

text \<open>A bit stuck at 1 in the last of three words, the size being no multiple of a word; and a sound memory.\<close>

theorem memtest_finds_stuck_bits_witness:
  "fst (memtest (stuck_ram (\<lambda>a. if a = 0x1008 then 0xFFFFFFFE else - 1) (\<lambda>_. - 1)) 0x1000 14 (\<lambda>_. 5)) \<noteq> 0
   \<and> fst (memtest (stuck_ram (\<lambda>a. if a = 0x100C then 0xFFFFFFFE else - 1) (\<lambda>_. - 1)) 0x1000 14 (\<lambda>_. 5)) = 0
   \<and> snd (memtest (stuck_ram (\<lambda>a. if a = 0x1008 then 0xFFFFFFFE else - 1) (\<lambda>_. - 1)) 0x1000 14 (\<lambda>_. 5)) 0x100C = 5"
proof -
  have i: "(\<forall>i < 3. P i) \<longleftrightarrow> P 0 \<and> P 1 \<and> P 2" for P :: "nat \<Rightarrow> bool"
    by (auto simp: less_Suc_eq numeral_3_eq_3 numeral_2_eq_2)
  show ?thesis
    using memtest_finds_stuck_bits [of "0x1000" 14 "\<lambda>a. if a = 0x1008 then 0xFFFFFFFE else - 1" "\<lambda>_. - 1" "\<lambda>_. 5"]
      memtest_finds_stuck_bits [of "0x1000" 14 "\<lambda>a. if a = 0x100C then 0xFFFFFFFE else - 1" "\<lambda>_. - 1" "\<lambda>_. 5"]
    by (simp add: i)
qed

section \<open>Filling\<close>

text \<open>\<open>memtest_fill_pattern\<close> counts down by the size of a word and stops at zero only.\<close>

lemma unat_minus_4: "unat (len - 4 :: u32) mod 4 = unat len mod 4"
proof (cases "4 \<le> len")
  case True
  then have "unat (len - 4) = unat len - 4" "4 \<le> unat len" by (simp_all add: unat_sub word_le_nat_alt)
  then show ?thesis by (simp add: le_mod_geq)
next
  case False
  then have "unat len < 4" "unat (len - 4) = 2 ^ 32 + unat len - 4"
    by (simp_all add: unat_sub_if' word_le_nat_alt)
  then show ?thesis using mod_mult_self2 [of "unat len" 4 "2 ^ 30 - 1"] by (simp add: add.commute)
qed

lemma fill_pattern_multiple:
  assumes "memtest_fill_pattern hw ptr len pattern d = Some d'"
  shows "unat len mod 4 = 0"
proof (rule memtest_fill_pattern.raw_induct [of "\<lambda>hw ptr len pattern d d'. unat len mod 4 = 0", OF _ assms], goal_cases)
  case (1 f hw ptr len pattern d d')
  then show ?case using unat_minus_4 [of len] by (cases "len = 0") auto
qed

lemma fill_pattern_hangs: "unat len mod 4 \<noteq> 0 \<Longrightarrow> memtest_fill_pattern hw ptr len pattern d = None"
  using fill_pattern_multiple [of hw ptr len pattern d] by (cases "memtest_fill_pattern hw ptr len pattern d") auto

lemma fill_pattern_fills:
  assumes "4 * k < 2 ^ 32"
  shows "memtest_fill_pattern hw ptr (4 * of_nat k) pattern d =
     Some (fill_words hw pattern (map (\<lambda>i. ptr + 4 * of_nat i) [0..<k]) d)"
  using assms
proof (induction k arbitrary: ptr d)
  case 0
  then show ?case by (subst memtest_fill_pattern.simps) simp
next
  case (Suc k)
  have "unat (4 * of_nat (Suc k) :: u32) = 4 * Suc k"
    using unat_of_nat_u32 [of "4 * Suc k"] Suc.prems by simp
  then have n: "(4 * of_nat (Suc k) :: u32) \<noteq> 0" by (metis mult_eq_0_iff nat.distinct(1) unsigned_0 zero_neq_numeral)
  have "map (\<lambda>i. ptr + 4 * of_nat i) [0..<Suc k] = ptr # map (\<lambda>i. (ptr + 4) + 4 * of_nat i) [0..<k]"
    by (simp add: upt_conv_Cons map_Suc_upt [symmetric] algebra_simps del: upt_Suc)
  then show ?case
    using Suc.IH [of "ptr + 4" "iowrite32 hw pattern ptr d"] Suc.prems n
    by (subst memtest_fill_pattern.simps) (simp del: upt_Suc add: algebra_simps)
qed

end
