(* ===== verification/Bitswapper.thy ===== *)
theory Bitswapper
  imports Hardware
begin

text \<open>
  The bit swapper, \<open>src/lib/bitswapper.c\<close>, which undoes permuted data lines of memory chips. Shifts of
  \<open>int\<close> are \<open>int_shl\<close>.
\<close>

section \<open>Words\<close>

record bitswapper =
  num_bits :: int
  endian_swap :: bool
  dst :: "u8 list"

definition bitswapper_transmute :: "bitswapper \<Rightarrow> u64 \<Rightarrow> u64" where
  "bitswapper_transmute swp data =
     (let ret = foldl (\<lambda>ret i. ret OR (if data AND int_shl i \<noteq> 0 then int_shl (unat (dst swp ! i)) else 0))
                  0 [0 ..< nat (num_bits swp)]
      in if \<not> endian_swap swp then ret
         else if num_bits swp = 64 then ucast (swap32 (ucast (swap64 ret)))
         else if num_bits swp = 32 then ucast (swap32 (ucast ret))
         else if num_bits swp = 16 then ucast (swap16 (ucast ret))
         else ret)"

definition bitswapper_transmute_reverse :: "bitswapper \<Rightarrow> u64 \<Rightarrow> u64" where
  "bitswapper_transmute_reverse swp data =
     (let data = (if \<not> endian_swap swp then data
                  else if num_bits swp = 64 then ucast (swap32 (ucast (swap64 data)))
                  else if num_bits swp = 32 then ucast (swap32 (ucast data))
                  else if num_bits swp = 16 then ucast (swap16 (ucast data))
                  else data)
      in foldl (\<lambda>ret i. ret OR (if data AND int_shl (unat (dst swp ! i)) \<noteq> 0 then int_shl i else 0))
           0 [0 ..< nat (num_bits swp)])"

section \<open>Arrays\<close>

text \<open>The counter \<open>i\<close> advances by the bytes of an element, but it indexes elements.\<close>

definition transmute_element :: "bool \<Rightarrow> bitswapper \<Rightarrow> u32 \<Rightarrow> nat \<Rightarrow> mem \<Rightarrow> mem" where
  "transmute_element be swp data i m =
     (if num_bits swp = 8 then
        (let a = data + of_nat i in m(a := ucast (bitswapper_transmute swp (ucast (m a)))))
      else if num_bits swp = 16 then
        (let a = data + 2 * of_nat i in store16 be a (ucast (bitswapper_transmute swp (ucast (load16 be m a)))) m)
      else if num_bits swp = 32 then
        (let a = data + 4 * of_nat i in store32 be a (ucast (bitswapper_transmute swp (ucast (load32 be m a)))) m)
      else if num_bits swp = 64 then
        (let a = data + 8 * of_nat i in store64 be a (bitswapper_transmute swp (load64 be m a)) m)
      else m)"

text \<open>\<open>None\<close> is the panic for an odd length and the division by zero for less than 8 bits.\<close>

definition bitswapper_transmute_array :: "bool \<Rightarrow> bitswapper \<Rightarrow> u32 \<Rightarrow> nat \<Rightarrow> mem \<Rightarrow> mem option" where
  "bitswapper_transmute_array be swp data len m =
     (let w = nat (num_bits swp) div 8
      in if w = 0 \<or> len mod w \<noteq> 0 then None
         else Some (foldl (\<lambda>m k. transmute_element be swp data (w * k) m) m [0 ..< len div w]))"

section \<open>Permutations are undone\<close>

lemma bit_int_shl: "k < 32 \<Longrightarrow> bit (int_shl k) j \<longleftrightarrow> j < 64 \<and> (j = k \<or> k = 31 \<and> 31 \<le> j)"
  by (auto simp: int_shl_def BIT_def bit_signed_iff bit_exp_iff possible_bit_def min_def)

definition tests :: "u64 \<Rightarrow> nat \<Rightarrow> bool" where "tests data i \<longleftrightarrow> data AND int_shl i \<noteq> 0"

lemma tests_bits: "k < 32 \<Longrightarrow> tests data k \<longleftrightarrow> (\<exists>j < 64. bit data j \<and> (j = k \<or> k = 31 \<and> 31 \<le> j))"
  by (auto simp: tests_def bit_eq_iff bit_simps bit_int_shl possible_bit_def)

lemma tests_line: "k < 31 \<Longrightarrow> tests data k \<longleftrightarrow> bit data k"
  by (simp add: tests_bits)

lemma tests_31: "tests data 31 \<longleftrightarrow> (\<exists>j. 31 \<le> j \<and> j < 64 \<and> bit data j)"
  by (auto simp: tests_bits)

lemma bit_fold_or:
  "bit (foldl (\<lambda>ret i. ret OR f i) w is) j \<longleftrightarrow> bit w j \<or> (\<exists>i \<in> set is. bit (f i :: u64) j)"
  by (induction "is" arbitrary: w) (auto simp: bit_simps)

definition swapper_ok :: "nat \<Rightarrow> bitswapper \<Rightarrow> bool" where
  "swapper_ok n swp \<longleftrightarrow> n \<le> 32 \<and> num_bits swp = int n \<and>
     (\<forall>i < n. unat (dst swp ! i) < n) \<and> (\<forall>i < n. \<forall>j < n. dst swp ! i = dst swp ! j \<longrightarrow> i = j)"

definition permuted :: "bitswapper \<Rightarrow> nat \<Rightarrow> u64 \<Rightarrow> u64" where
  "permuted swp n data =
     foldl (\<lambda>ret i. ret OR (if data AND int_shl i \<noteq> 0 then int_shl (unat (dst swp ! i)) else 0)) 0 [0 ..< n]"

lemma bit_permuted:
  assumes "\<And>i. i < n \<Longrightarrow> unat (dst swp ! i) < 32"
  shows "j < 31 \<Longrightarrow> bit (permuted swp n data) j \<longleftrightarrow> (\<exists>i < n. tests data i \<and> unat (dst swp ! i) = j)"
    and "31 \<le> j \<Longrightarrow> j < 64 \<Longrightarrow> bit (permuted swp n data) j \<longleftrightarrow> (\<exists>i < n. tests data i \<and> unat (dst swp ! i) = 31)"
proof -
  have b: "bit (permuted swp n data) j \<longleftrightarrow> (\<exists>i < n. tests data i \<and> bit (int_shl (unat (dst swp ! i))) j)" for j
    unfolding permuted_def bit_fold_or tests_def by auto
  have b: "bit (permuted swp n data) j \<longleftrightarrow> (\<exists>i < n. tests data i \<and> j < 64 \<and>
      (j = unat (dst swp ! i) \<or> unat (dst swp ! i) = 31 \<and> 31 \<le> j))" for j
    unfolding b using bit_int_shl [OF assms] by blast
  show "j < 31 \<Longrightarrow> bit (permuted swp n data) j \<longleftrightarrow> (\<exists>i < n. tests data i \<and> unat (dst swp ! i) = j)"
    unfolding b by auto
  show "31 \<le> j \<Longrightarrow> j < 64 \<Longrightarrow> bit (permuted swp n data) j \<longleftrightarrow> (\<exists>i < n. tests data i \<and> unat (dst swp ! i) = 31)"
  proof -
    assume j: "31 \<le> j" "j < 64"
    have "j = unat (dst swp ! i) \<or> unat (dst swp ! i) = 31 \<and> 31 \<le> j \<longleftrightarrow> unat (dst swp ! i) = 31" if "i < n" for i
      using assms [OF that] j by linarith
    then show ?thesis unfolding b using j by blast
  qed
qed

lemma tests_permuted:
  assumes "swapper_ok n swp" "k < n"
  shows "tests (permuted swp n data) (unat (dst swp ! k)) \<longleftrightarrow> tests data k"
proof -
  have d: "unat (dst swp ! i) < 32" if "i < n" for i
    using assms(1) that by (auto simp: swapper_ok_def intro: less_le_trans)
  have inj: "unat (dst swp ! i) = unat (dst swp ! k) \<longleftrightarrow> i = k" if "i < n" for i
    using assms that by (auto simp: swapper_ok_def simp flip: word_unat_eq_iff)
  show ?thesis
  proof (cases "unat (dst swp ! k) < 31")
    case True
    have "tests (permuted swp n data) (unat (dst swp ! k)) \<longleftrightarrow>
        (\<exists>i < n. tests data i \<and> unat (dst swp ! i) = unat (dst swp ! k))"
      unfolding tests_line [OF True] by (rule bit_permuted(1) [OF d True])
    then show ?thesis using inj assms(2) by auto
  next
    case False
    then have k: "unat (dst swp ! k) = 31" using d [OF assms(2)] by simp
    have "tests (permuted swp n data) 31 \<longleftrightarrow> (\<exists>i < n. tests data i \<and> unat (dst swp ! i) = 31)"
      unfolding tests_31 using bit_permuted(2) [of n swp _ data, OF d] by (metis le_refl less_numeral_simps(2) numeral_less_iff semiring_norm(76-81))
    then show ?thesis unfolding k using inj assms(2) k by auto
  qed
qed


lemma swap16_involutive [simp]: "swap16 (swap16 w) = w"
  using swap16_u16_of [of "bytes_of True 2 w" True] swap16_u16_of [of "bytes_of True 2 w" False]
  by (simp add: u16_of_bytes_of)

lemma ucast_back [simp]: "ucast (ucast (w :: u16) :: u64) = w" "ucast (ucast (v :: u32) :: u64) = v"
  by (rule bit_word_eqI; simp add: bit_simps)+

lemma bit_31_only: "31 \<le> j \<Longrightarrow> j < 32 \<Longrightarrow> j = (31 :: nat)"
  by simp

text \<open>What the second swap makes of the result of the first: the same lines.\<close>

definition swapped_back :: "bitswapper \<Rightarrow> u64 \<Rightarrow> u64" where
  "swapped_back swp ret =
     (if endian_swap swp \<and> num_bits swp = 32 then ucast (ucast ret :: u32)
      else if endian_swap swp \<and> num_bits swp = 16 then ucast (ucast ret :: u16)
      else ret)"

lemma tests_swapped_back:
  assumes "swapper_ok n swp" "k < n"
  shows "tests (swapped_back swp (permuted swp n data)) (unat (dst swp ! k)) \<longleftrightarrow> tests (permuted swp n data) (unat (dst swp ! k))"
proof -
  let ?k = "unat (dst swp ! k)"
  have n: "num_bits swp = int n" "?k < n" "n \<le> 32" using assms by (auto simp: swapper_ok_def)
  have d: "unat (dst swp ! i) < 32" if "i < n" for i
    using assms(1) that by (auto simp: swapper_ok_def intro: less_le_trans)
  show ?thesis
  proof (cases "?k < 31")
    case True
    then show ?thesis
      unfolding tests_line [OF True] using n by (auto simp: swapped_back_def bit_simps)
  next
    case False
    then have k: "?k = 31" "n = 32" using n by auto
    have "bit (permuted swp n data) 31 \<longleftrightarrow> tests (permuted swp n data) 31"
      unfolding tests_31 using bit_permuted(2) [of n swp _ data, OF d]
      by (metis le_refl less_numeral_simps(2) numeral_less_iff semiring_norm(76-81))
    moreover have "tests (swapped_back swp (permuted swp n data)) 31 \<longleftrightarrow> bit (permuted swp n data) 31" if "endian_swap swp"
      using that n(1) k(2) by (auto simp: tests_31 swapped_back_def bit_simps dest: bit_31_only)
    ultimately show ?thesis using n(1) k by (auto simp: swapped_back_def)
  qed
qed

text \<open>The bit swapper is undone by its reverse: for words of up to 32 bits and any permutation of their
  lines, with or without swapping bytes, \<open>bitswapper_transmute_reverse\<close> gives back the word that
  \<open>bitswapper_transmute\<close> took, in the bits of the word (bits above it may be set, since bit 31 is
  shifted as an \<open>int\<close>).\<close>

theorem bitswapper_roundtrip:
  assumes "swapper_ok n swp" "take_bit n data = data"
  shows "take_bit n (bitswapper_transmute_reverse swp (bitswapper_transmute swp data)) = data"
proof (rule bit_word_eqI)
  fix j assume "j < LENGTH(64)"
  let ?d = "\<lambda>i. unat (dst swp ! i)"
  let ?y = "swapped_back swp (permuted swp n data)"
  have n: "num_bits swp = int n" "n \<le> 32" using assms(1) by (auto simp: swapper_ok_def)
  have r: "bitswapper_transmute_reverse swp (bitswapper_transmute swp data) =
      foldl (\<lambda>ret i. ret OR (if tests ?y (?d i) then int_shl i else 0)) 0 [0 ..< n]"
    using n by (simp add: bitswapper_transmute_def bitswapper_transmute_reverse_def Let_def swapped_back_def
        permuted_def [symmetric] tests_def)
  show "bit (take_bit n (bitswapper_transmute_reverse swp (bitswapper_transmute swp data))) j = bit data j"
  proof (cases "j < n")
    case True
    have "bit (int_shl i) j \<longleftrightarrow> j = i" if "i < n" for i
      using bit_int_shl [of i j] that True n(2) by auto
    then have "bit (bitswapper_transmute_reverse swp (bitswapper_transmute swp data)) j \<longleftrightarrow> tests ?y (?d j)"
      unfolding r bit_fold_or using True by auto
    also have "\<dots> \<longleftrightarrow> tests data j"
      using tests_swapped_back [OF assms(1) True] tests_permuted [OF assms(1) True] by simp
    also have "\<dots> \<longleftrightarrow> bit data j"
    proof (cases "j < 31")
      case False
      then have "j = 31" "n = 32" using True n(2) by auto
      moreover have "i < 32" if "bit data i" for i
        using that by (subst (asm) assms(2) [symmetric]) (simp add: \<open>n = 32\<close> bit_take_bit_iff)
      ultimately have "i = 31" if "31 \<le> i" "bit data i" for i using that bit_31_only [of i] by auto
      then show ?thesis unfolding \<open>j = 31\<close> tests_31 by (metis less_numeral_simps(2) numeral_less_iff order_refl semiring_norm(76-81))
    qed (rule tests_line)
    finally show ?thesis using True by (simp add: bit_take_bit_iff)
  next
    case False
    then show ?thesis using assms(2) by (metis bit_take_bit_iff)
  qed
qed

definition demo_swapper :: bitswapper where
  "demo_swapper = \<lparr>num_bits = 8, endian_swap = False, dst = [7, 6, 5, 4, 3, 2, 1, 0]\<rparr>"

lemma demo_swapper_bits: "bitswapper_transmute demo_swapper 0xB1 = 0x8D"
  by (simp add: bitswapper_transmute_def demo_swapper_def upt_rec int_shl_def BIT_def)

theorem bitswapper_roundtrip_witness:
  "take_bit 8 (bitswapper_transmute_reverse demo_swapper (bitswapper_transmute demo_swapper 0xB1)) = 0xB1"
proof (rule bitswapper_roundtrip)
  show "swapper_ok 8 demo_swapper" by (simp add: swapper_ok_def demo_swapper_def all_less_8)
qed simp

text \<open>An array of 16-bit elements: of four bytes, the first and the third element are transmuted, and the
  third lies behind the array.\<close>

lemma transmute_array_overruns:
  assumes "num_bits swp = 16"
  shows "bitswapper_transmute_array be swp data 4 m = Some (transmute_element be swp data 2 (transmute_element be swp data 0 m))"
  using assms by (simp add: bitswapper_transmute_array_def Let_def upt_rec)

end
