(* ===== verification/Regpoker.thy ===== *)
theory Regpoker
  imports Hardware
begin

text \<open>
  The register checker, \<open>src/lib/regpoker.c\<close>: a table of registers is read or written and compared, and
  the failures are counted. A table ends with its sentinel, the end of the list. The accesses to
  device control registers of PowerPC are left out.
\<close>

section \<open>The checker\<close>

datatype checker_type = REGPOKER_EOL | REGPOKER_READ8 | REGPOKER_WRITE8 | REGPOKER_READ16 | REGPOKER_WRITE16
  | REGPOKER_READ32 | REGPOKER_WRITE32 | REGPOKER_READ64 | REGPOKER_WRITE64

record 'd regpoker_checker =
  rp_name :: string
  rp_tp :: checker_type
  rp_base :: u32
  rp_expected :: u64
  rp_mask :: u64
  rp_readfunc :: "(u32 \<Rightarrow> 'd \<Rightarrow> u64 \<times> 'd) option"
  rp_writefunc :: "(u64 \<Rightarrow> u32 \<Rightarrow> 'd \<Rightarrow> 'd) option"

text \<open>An access of \<open>sz\<close> bits; values are carried in 64 bits, cut to the width.\<close>

definition io_read :: "'d hw_wide \<Rightarrow> nat \<Rightarrow> u32 \<Rightarrow> 'd \<Rightarrow> u64 \<times> 'd" where
  "io_read hw sz addr d =
     (if sz = 8 then apfst ucast (ioread8 hw addr d)
      else if sz = 16 then apfst ucast (ioread16 hw addr d)
      else if sz = 32 then apfst ucast (ioread32 hw addr d)
      else ioread64 hw addr d)"

definition io_write :: "'d hw_wide \<Rightarrow> nat \<Rightarrow> u64 \<Rightarrow> u32 \<Rightarrow> 'd \<Rightarrow> 'd" where
  "io_write hw sz v addr d =
     (if sz = 8 then iowrite8 hw (ucast v) addr d
      else if sz = 16 then iowrite16 hw (ucast v) addr d
      else if sz = 32 then iowrite32 hw (ucast v) addr d
      else iowrite64 hw v addr d)"

definition poke_read :: "'d hw_wide \<Rightarrow> 'd regpoker_checker \<Rightarrow> nat \<Rightarrow> u32 \<Rightarrow> 'd \<Rightarrow> u64 \<times> 'd" where
  "poke_read hw c sz addr d =
     apfst (take_bit sz) (case rp_readfunc c of Some f \<Rightarrow> f addr d | None \<Rightarrow> io_read hw sz addr d)"

definition poke_write :: "'d hw_wide \<Rightarrow> 'd regpoker_checker \<Rightarrow> nat \<Rightarrow> u64 \<Rightarrow> u32 \<Rightarrow> 'd \<Rightarrow> 'd" where
  "poke_write hw c sz v addr d =
     (case rp_writefunc c of Some f \<Rightarrow> f v addr d | None \<Rightarrow> io_write hw sz v addr d)"

definition READCHECK :: "'d hw_wide \<Rightarrow> u32 \<Rightarrow> nat \<Rightarrow> 'd regpoker_checker \<Rightarrow> 'd \<Rightarrow> nat \<times> 'd" where
  "READCHECK hw offset sz c d =
     (let address = rp_base c + offset;
          (v, d) = poke_read hw c sz address d
      in (if v AND take_bit sz (rp_mask c) \<noteq> take_bit sz (rp_expected c) then 1 else 0, d))"

text \<open>\<open>v = (1 << i)\<close>, a shift of an \<open>int\<close>.\<close>

definition int_bit :: "nat \<Rightarrow> nat \<Rightarrow> u64" where
  "int_bit sz i = take_bit sz (int_shl i)"

fun write_loop :: "'d hw_wide \<Rightarrow> nat \<Rightarrow> 'd regpoker_checker \<Rightarrow> u32 \<Rightarrow> nat list \<Rightarrow> nat \<times> 'd \<Rightarrow> nat \<times> 'd" where
  "write_loop hw sz c address [] (fails, d) = (fails, d)"
| "write_loop hw sz c address (i # is) (fails, d) =
     (let v = int_bit sz i
      in if v AND take_bit sz (rp_mask c) \<noteq> 0 then
           let d = poke_write hw c sz v address d;
               (readback, d) = poke_read hw c sz address d
           in write_loop hw sz c address is
                (if readback AND take_bit sz (rp_mask c) \<noteq> v then fails + 1 else fails, d)
         else write_loop hw sz c address is (fails, d))"

definition WRITECHECK :: "'d hw_wide \<Rightarrow> u32 \<Rightarrow> nat \<Rightarrow> 'd regpoker_checker \<Rightarrow> 'd \<Rightarrow> nat \<times> 'd" where
  "WRITECHECK hw offset sz c d =
     (let address = rp_base c + offset;
          (fails, d) = (if take_bit sz (rp_mask c) \<noteq> 0 then write_loop hw sz c address [0..<sz] (0, d) else (0, d))
      in (fails, poke_write hw c sz (take_bit sz (rp_expected c)) address d))"

definition regpoker_check :: "'d hw_wide \<Rightarrow> u32 \<Rightarrow> 'd regpoker_checker \<Rightarrow> 'd \<Rightarrow> nat \<times> 'd" where
  "regpoker_check hw offset c d =
     (case rp_tp c of
        REGPOKER_EOL \<Rightarrow> (0, d)
      | REGPOKER_READ8 \<Rightarrow> READCHECK hw offset 8 c d
      | REGPOKER_READ16 \<Rightarrow> READCHECK hw offset 16 c d
      | REGPOKER_READ32 \<Rightarrow> READCHECK hw offset 32 c d
      | REGPOKER_READ64 \<Rightarrow> READCHECK hw offset 64 c d
      | REGPOKER_WRITE8 \<Rightarrow> WRITECHECK hw offset 8 c d
      | REGPOKER_WRITE16 \<Rightarrow> WRITECHECK hw offset 16 c d
      | REGPOKER_WRITE32 \<Rightarrow> WRITECHECK hw offset 32 c d
      | REGPOKER_WRITE64 \<Rightarrow> WRITECHECK hw offset 64 c d)"

fun rumboot_regpoker_check_array :: "'d hw_wide \<Rightarrow> 'd regpoker_checker list \<Rightarrow> u32 \<Rightarrow> 'd \<Rightarrow> nat \<times> 'd" where
  "rumboot_regpoker_check_array hw [] offset d = (0, d)"
| "rumboot_regpoker_check_array hw (c # array) offset d =
     (if rp_tp c = REGPOKER_EOL then (0, d)
      else let (k, d) = regpoker_check hw offset c d;
               (fails, d) = rumboot_regpoker_check_array hw array offset d
           in (k + fails, d))"

section \<open>Faulty registers\<close>

text \<open>A 32-bit register whose writable bits are \<open>good\<close>: the others read as in \<open>stuck\<close>.\<close>

definition faulty_register :: "u32 \<Rightarrow> u32 \<Rightarrow> u32 hw_wide" where
  "faulty_register good stuck =
     \<lparr>hw_read32 = \<lambda>_ d. ((d AND good) OR (stuck AND NOT good), d), hw_write32 = \<lambda>v _ d. v, hw_uptime = \<lambda>d. (0, d),
      hw_read8 = \<lambda>_ d. (0, d), hw_write8 = \<lambda>_ _ d. d, hw_read16 = \<lambda>_ d. (0, d), hw_write16 = \<lambda>_ _ d. d,
      hw_read64 = \<lambda>_ d. (0, d), hw_write64 = \<lambda>_ _ d. d\<rparr>"

definition rw_check :: "u32 \<Rightarrow> u64 \<Rightarrow> 'd regpoker_checker" where
  "rw_check m reset = \<lparr>rp_name = [], rp_tp = REGPOKER_WRITE32, rp_base = 0, rp_expected = reset, rp_mask = ucast m,
     rp_readfunc = None, rp_writefunc = None\<rparr>"

lemma int_bit_32: "i < 32 \<Longrightarrow> int_bit 32 i = ucast (BIT i)"
  by (rule bit_word_eqI) (auto simp: int_bit_def int_shl_def bit_simps bit_BIT bit_signed_iff)

lemma ucast_u32_simps [simp]:
  "take_bit 32 (ucast (w :: u32) :: u64) = ucast w" "ucast (ucast w :: u64) = w"
  "(ucast w :: u64) AND ucast v = ucast (w AND v)" "(ucast w :: u64) = ucast v \<longleftrightarrow> w = v" "(ucast w :: u64) = 0 \<longleftrightarrow> w = 0"
proof -
  show "(ucast w :: u64) AND ucast v = ucast (w AND v)" by (rule bit_word_eqI) (auto simp: bit_simps)
  show 1: "take_bit 32 (ucast w :: u64) = ucast w" by (rule bit_word_eqI) (auto simp: bit_simps dest: bit_imp_le_length)
  show 2: "ucast (ucast w :: u64) = w" for w :: u32 by (rule bit_word_eqI) (auto simp: bit_simps)
  show 3: "(ucast w :: u64) = ucast v \<longleftrightarrow> w = v" for v :: u32 by (metis 2)
  show "(ucast w :: u64) = 0 \<longleftrightarrow> w = 0" by (metis 2 3 unsigned_0)
qed

definition faulty_read :: "u32 \<Rightarrow> u32 \<Rightarrow> u32 \<Rightarrow> u32" where
  "faulty_read good stuck v = (v AND good) OR (stuck AND NOT good)"

lemma write_loop_value:
  assumes "\<forall>i \<in> set is. i < 32"
  shows "fst (write_loop (faulty_register good stuck) 32 (rw_check m reset) a is (fails, d)) =
    fails + length (filter (\<lambda>i. bit m i \<and> faulty_read good stuck (BIT i) AND m \<noteq> BIT i) is)"
  using assms
proof (induction "is" arbitrary: fails d)
  case (Cons i "is")
  have b: "BIT i AND m = 0 \<longleftrightarrow> \<not> bit m i"
    using and_exp_eq_0_iff_not_bit [of m i] by (simp add: BIT_def and.commute)
  show ?case
    using Cons
    by (simp add: int_bit_32 rw_check_def poke_write_def poke_read_def io_read_def io_write_def iowrite32_def
        ioread32_def faulty_register_def faulty_read_def Let_def b)
qed simp

lemma regpoker_value:
  "fst (rumboot_regpoker_check_array (faulty_register good stuck) [rw_check m reset] offset d) =
    length (filter (\<lambda>i. bit m i \<and> faulty_read good stuck (BIT i) AND m \<noteq> BIT i) [0..<32])"
  using write_loop_value [of "[0..<32]" good stuck m reset offset 0 d]
  by (simp add: regpoker_check_def WRITECHECK_def rw_check_def Let_def case_prod_unfold)

text \<open>The write check of the register checker finds every stuck bit: on a register whose bits may be
  stuck, checked through a mask of at least two bits, it counts no failure exactly if no bit under the
  mask is stuck. (A mask of a single bit cannot see that bit stuck at one: only ones are written.)\<close>

theorem regpoker_finds_stuck_bits:
  assumes "bit m i" "bit m j" "i \<noteq> j"
  shows "fst (rumboot_regpoker_check_array (faulty_register good stuck) [rw_check m reset] offset d) = 0 \<longleftrightarrow>
    m AND NOT good = 0"
proof -
  have "(\<forall>k < 32. bit m k \<longrightarrow> faulty_read good stuck (BIT k) AND m = BIT k) \<longleftrightarrow> (\<forall>k < 32. bit m k \<longrightarrow> bit good k)"
    (is "?A \<longleftrightarrow> ?B")
  proof
    assume A: ?A
    show ?B
    proof (intro allI impI, rule ccontr)
      fix k assume k: "k < 32" "bit m k" "\<not> bit good k"
      obtain l where l: "bit m l" "l \<noteq> k" using assms by metis
      then have "l < 32" by (auto dest: bit_imp_le_length)
      have "bit (faulty_read good stuck (BIT k) AND m) k" using A k by (simp add: bit_BIT)
      then have "bit stuck k" using k by (simp add: faulty_read_def bit_simps)
      then have "bit (faulty_read good stuck (BIT l) AND m) k" using k by (simp add: faulty_read_def bit_simps)
      then show False using A l \<open>l < 32\<close> by (simp add: bit_BIT)
    qed
  next
    assume B: ?B
    then have B: "bit m k \<Longrightarrow> bit good k" for k using bit_imp_le_length [of m k] by simp
    show ?A
      by (intro allI impI bit_word_eqI) (use B in \<open>auto simp: faulty_read_def bit_simps bit_BIT\<close>)
  qed
  moreover have "m AND NOT good = 0 \<longleftrightarrow> (\<forall>k < 32. bit m k \<longrightarrow> bit good k)"
    by (auto simp: bit_eq_iff bit_simps)
  ultimately show ?thesis unfolding regpoker_value by (auto simp: filter_empty_conv)
qed

theorem regpoker_finds_stuck_bits_witness:
  "fst (rumboot_regpoker_check_array (faulty_register 0xFFFFFFFE 1) [rw_check 3 0] 0x100 5) \<noteq> 0"
  using regpoker_finds_stuck_bits [of 3 0 1 "0xFFFFFFFE" 1 0 "0x100" 5] by (simp add: bit_numeral_rec)

end
