(* ===== verification/Testsuite.thy ===== *)
theory Testsuite
  imports Malloc
begin

text \<open>
  The test suites of the library, \<open>src/lib/testsuite.c\<close>. A test is a function on the heap table and the
  rest of the world, \<open>None\<close> when it panics; the heaps are saved before and restored after each test.
  Messages are left out.
\<close>

section \<open>Suites\<close>

definition TESTSUITE_RESULTSTRUCT_MAGIC :: u32 where "TESTSUITE_RESULTSTRUCT_MAGIC = 0xfead1eaf"

record 'w rumboot_test =
  test_name :: string
  check_func :: "u32 \<Rightarrow> runtime \<times> 'w \<Rightarrow> (bool \<times> runtime \<times> 'w) option"
  test_baseaddr :: u32
  should_skip :: "(u32 \<Rightarrow> 'w \<Rightarrow> bool \<times> 'w) option"

record rumboot_test_result =
  res_name :: string
  res_result :: u32
  res_ticks :: u32

text \<open>The array \<open>results\<close> holds \<open>num_tests\<close> entries; the caller provides the room for more.\<close>

record rumboot_testsuite_results =
  ts_magic :: u32
  ts_results :: "rumboot_test_result list"

definition test_suite_init :: "rumboot_testsuite_results option \<Rightarrow> rumboot_testsuite_results option" where
  "test_suite_init out =
     (case out of None \<Rightarrow> None
      | Some o' \<Rightarrow> Some (o'\<lparr>ts_magic := TESTSUITE_RESULTSTRUCT_MAGIC, ts_results := []\<rparr>))"

text \<open>The result, the log, the heap table and the world; \<open>uptime\<close> reads the clock of the platform.\<close>

definition test_suite_run_single ::
  "('w \<Rightarrow> u32 \<times> 'w) \<Rightarrow> rumboot_testsuite_results option \<Rightarrow> 'w rumboot_test \<Rightarrow> runtime \<times> 'w
     \<Rightarrow> (int \<times> rumboot_testsuite_results option \<times> runtime \<times> 'w) option" where
  "test_suite_run_single uptime out test rw =
     (let (rt, w) = rw;
          (skip, w) = (case should_skip test of None \<Rightarrow> (False, w) | Some f \<Rightarrow> f (test_baseaddr test) w)
      in if skip then Some (1, out, rt, w)
         else
           let (tstart, w) = uptime w
           in case check_func test (test_baseaddr test) (rumboot_malloc_update_heaps True rt, w) of
                None \<Rightarrow> None
              | Some (result, rt, w) \<Rightarrow>
                  let rt = rumboot_malloc_update_heaps False rt;
                      (tend, w) = uptime w
                  in case out of
                       None \<Rightarrow> Some (of_bool result, None, rt, w)
                     | Some o' \<Rightarrow>
                         let (now, w) = uptime w;
                             res = \<lparr>res_name = test_name test, res_result = of_bool result, res_ticks = now - tstart\<rparr>
                         in Some (of_bool result, Some (o'\<lparr>ts_results := ts_results o' @ [res]\<rparr>), rt, w))"

fun suite_loop ::
  "('w \<Rightarrow> u32 \<times> 'w) \<Rightarrow> 'w rumboot_test list \<Rightarrow> rumboot_testsuite_results option \<Rightarrow> int \<times> int \<Rightarrow> runtime \<times> 'w
     \<Rightarrow> (int \<times> rumboot_testsuite_results option \<times> runtime \<times> 'w) option" where
  "suite_loop uptime [] out (n, num_passed) (rt, w) = Some (n - num_passed, out, rt, w)"
| "suite_loop uptime (test # list) out (n, num_passed) (rt, w) =
     (case test_suite_run_single uptime out test (rt, w) of
        None \<Rightarrow> None
      | Some (r, out, rt, w) \<Rightarrow> suite_loop uptime list out (n + 1, num_passed + r) (rt, w))"

definition test_suite_run ::
  "('w \<Rightarrow> u32 \<times> 'w) \<Rightarrow> rumboot_testsuite_results option \<Rightarrow> 'w rumboot_test list \<Rightarrow> runtime \<times> 'w
     \<Rightarrow> (int \<times> rumboot_testsuite_results option \<times> runtime \<times> 'w) option" where
  "test_suite_run uptime out suite rw = suite_loop uptime suite out (0, 0) rw"

section \<open>Heaps between tests\<close>

text \<open>A test may allocate from every heap but neither registers nor saves heaps, and it leaves \<open>save\<close> alone.\<close>

definition test_allocates :: "'w rumboot_test \<Rightarrow> bool" where
  "test_allocates test \<longleftrightarrow>
     (\<forall>a rt w r rt' w'. check_func test a (rt, w) = Some (r, rt', w') \<longrightarrow>
        num_heaps rt' = num_heaps rt \<and> (\<exists>ps. length ps = length (heaps rt) \<and>
          heaps rt' = map2 (\<lambda>hp p. hp\<lparr>hp_pos := p\<rparr>) (heaps rt) ps \<and>
          (\<forall>i < length (heaps rt). num_heaps rt \<le> i \<longrightarrow> ps ! i = hp_pos (heaps rt ! i))))"

lemma update_heaps_nth:
  "i < length (heaps rt) \<Longrightarrow> heaps (rumboot_malloc_update_heaps s rt) ! i =
     (if i < num_heaps rt then if s then (heaps rt ! i)\<lparr>hp_save := hp_pos (heaps rt ! i)\<rparr>
        else (heaps rt ! i)\<lparr>hp_pos := hp_save (heaps rt ! i)\<rparr>
      else heaps rt ! i)"
  by (simp add: rumboot_malloc_update_heaps_def nth_append min_def)

lemma update_heaps_fields [simp]:
  "num_heaps (rumboot_malloc_update_heaps s rt) = num_heaps rt"
  "length (heaps (rumboot_malloc_update_heaps s rt)) = length (heaps rt)"
  by (simp_all add: rumboot_malloc_update_heaps_def)

text \<open>Between saving and restoring, moved positions do not matter.\<close>

lemma restore_moved:
  assumes "num_heaps rt' = num_heaps rt" "length ps = length (heaps rt)"
    and "heaps rt' = map2 (\<lambda>hp p. hp\<lparr>hp_pos := p\<rparr>) (heaps (rumboot_malloc_update_heaps True rt)) ps"
    and "\<forall>i < length (heaps rt). num_heaps rt \<le> i \<longrightarrow> ps ! i = hp_pos (heaps rt ! i)"
  shows "map hp_pos (heaps (rumboot_malloc_update_heaps False rt')) = map hp_pos (heaps rt)"
proof (rule nth_equalityI)
  have l: "length (heaps rt') = length (heaps rt)" using assms(2,3) by simp
  then show "length (map hp_pos (heaps (rumboot_malloc_update_heaps False rt'))) = length (map hp_pos (heaps rt))" by simp
  fix i assume "i < length (map hp_pos (heaps (rumboot_malloc_update_heaps False rt')))"
  then have i: "i < length (heaps rt)" using l by simp
  then show "map hp_pos (heaps (rumboot_malloc_update_heaps False rt')) ! i = map hp_pos (heaps rt) ! i"
    using assms l by (simp add: update_heaps_nth)
qed

lemma run_single_result:
  assumes "test_suite_run_single uptime out test (rt, w) = Some (r, out', rt', w')" "test_allocates test"
  shows "map hp_pos (heaps rt') = map hp_pos (heaps rt) \<and> num_heaps rt' = num_heaps rt
    \<and> (\<exists>rs. out' = map_option (\<lambda>o'. o'\<lparr>ts_results := ts_results o' @ rs\<rparr>) out \<and>
          (out \<noteq> None \<longrightarrow> 1 - r = int (length (filter (\<lambda>r. res_result r = 0) rs))))"
proof -
  obtain skip w1 where s: "(case should_skip test of None \<Rightarrow> (False, w) | Some f \<Rightarrow> f (test_baseaddr test) w) = (skip, w1)" by force
  obtain tstart w2 where u: "uptime w1 = (tstart, w2)" by force
  show ?thesis
  proof (cases skip)
    case True
    then have "r = 1" "out' = out" "rt' = rt" using assms(1) s by (simp_all add: test_suite_run_single_def Let_def)
    then show ?thesis by (auto intro!: exI [of _ "[]"] simp: option.map_ident_strong)
  next
    case False
    obtain b rt1 w3 where c: "check_func test (test_baseaddr test) (rumboot_malloc_update_heaps True rt, w2) = Some (b, rt1, w3)"
      using assms(1) s u False by (auto simp: test_suite_run_single_def Let_def split: option.splits)
    let ?saved = "rumboot_malloc_update_heaps True rt"
    have "num_heaps rt1 = num_heaps ?saved \<and> (\<exists>ps. length ps = length (heaps ?saved) \<and>
        heaps rt1 = map2 (\<lambda>hp p. hp\<lparr>hp_pos := p\<rparr>) (heaps ?saved) ps \<and>
        (\<forall>i < length (heaps ?saved). num_heaps ?saved \<le> i \<longrightarrow> ps ! i = hp_pos (heaps ?saved ! i)))"
      using assms(2) c unfolding test_allocates_def by blast
    then obtain ps where p: "num_heaps rt1 = num_heaps rt" "length ps = length (heaps rt)"
      "heaps rt1 = map2 (\<lambda>hp p. hp\<lparr>hp_pos := p\<rparr>) (heaps ?saved) ps"
      "\<forall>i < length (heaps rt). num_heaps rt \<le> i \<longrightarrow> ps ! i = hp_pos (heaps rt ! i)"
      by (auto simp: update_heaps_nth)
    have rt: "rt' = rumboot_malloc_update_heaps False rt1"
      using assms(1) s u False c by (auto simp: test_suite_run_single_def Let_def split: option.splits prod.splits)
    have o: "r = of_bool b \<and> (\<exists>rs. out' = map_option (\<lambda>o'. o'\<lparr>ts_results := ts_results o' @ rs\<rparr>) out \<and>
        (out \<noteq> None \<longrightarrow> length rs = 1 \<and> res_result (hd rs) = of_bool b))"
      using assms(1) s u False c
      by (cases out) (auto simp: test_suite_run_single_def Let_def split: prod.splits
          intro!: exI [of _ "[_]"])
    then obtain rs where "out' = map_option (\<lambda>o'. o'\<lparr>ts_results := ts_results o' @ rs\<rparr>) out"
      "out \<noteq> None \<longrightarrow> 1 - r = int (length (filter (\<lambda>r. res_result r = 0) rs))"
      by (cases b) (auto simp: length_Suc_conv)
    then show ?thesis using restore_moved [OF p(1-4)] p(1) rt by auto
  qed
qed

lemma suite_loop_result:
  assumes "suite_loop uptime list out (n, k) (rt, w) = Some (r, out', rt', w')" "\<forall>t \<in> set list. test_allocates t"
  shows "map hp_pos (heaps rt') = map hp_pos (heaps rt) \<and> num_heaps rt' = num_heaps rt
    \<and> (\<exists>rs. out' = map_option (\<lambda>o'. o'\<lparr>ts_results := ts_results o' @ rs\<rparr>) out \<and>
          (out \<noteq> None \<longrightarrow> r = n - k + int (length (filter (\<lambda>r. res_result r = 0) rs))))"
  using assms
proof (induction list arbitrary: out n k rt w)
  case Nil
  then show ?case by (auto intro!: exI [of _ "[]"] simp: option.map_ident_strong)
next
  case (Cons t list)
  obtain b out1 rt1 w1 where s: "test_suite_run_single uptime out t (rt, w) = Some (b, out1, rt1, w1)"
    using Cons.prems(1) by (auto split: option.splits)
  have l: "suite_loop uptime list out1 (n + 1, k + b) (rt1, w1) = Some (r, out', rt', w')"
    using Cons.prems(1) s by simp
  from run_single_result [OF s] Cons.prems(2) obtain rs where 1:
    "map hp_pos (heaps rt1) = map hp_pos (heaps rt)" "num_heaps rt1 = num_heaps rt"
    "out1 = map_option (\<lambda>o'. o'\<lparr>ts_results := ts_results o' @ rs\<rparr>) out"
    "out \<noteq> None \<longrightarrow> 1 - b = int (length (filter (\<lambda>r. res_result r = 0) rs))" by auto
  from Cons.IH [OF l] Cons.prems(2) obtain rs' where 2:
    "map hp_pos (heaps rt') = map hp_pos (heaps rt1)" "num_heaps rt' = num_heaps rt1"
    "out' = map_option (\<lambda>o'. o'\<lparr>ts_results := ts_results o' @ rs'\<rparr>) out1"
    "out1 \<noteq> None \<longrightarrow> r = n + 1 - (k + b) + int (length (filter (\<lambda>r. res_result r = 0) rs'))" by auto
  show ?case
    using 1 2 by (cases out) (auto intro!: exI [of _ "rs @ rs'"])
qed

text \<open>A test suite leaves the heaps as they were, and its result is the number of failed tests in its
  log: for tests that only allocate, every heap is back at its position after the suite, whatever was
  allocated, and the number that \<open>test_suite_run\<close> returns is the number of log entries with result 0.\<close>

theorem suite_restores_heaps:
  assumes "test_suite_run uptime (Some log) suite (rt, w) = Some (r, log', rt', w')" "\<forall>t \<in> set suite. test_allocates t"
  shows "map hp_pos (heaps rt') = map hp_pos (heaps rt) \<and>
    (\<exists>rs. log' = Some (log\<lparr>ts_results := ts_results log @ rs\<rparr>) \<and> r = int (length (filter (\<lambda>r. res_result r = 0) rs)))"
  using suite_loop_result [of uptime suite "Some log" 0 0 rt w r log' rt' w'] assms by (auto simp: test_suite_run_def)


definition demo_test :: "u32 \<Rightarrow> nat rumboot_test" where
  "demo_test a = \<lparr>test_name = ''alloc'', check_func = \<lambda>a (rt, w).
       if num_heaps rt = 0 then None else map_option (\<lambda>(p, rt). (a \<noteq> 0, rt, w + 1)) (rumboot_malloc 8 rt),
     test_baseaddr = a, should_skip = None\<rparr>"

lemma demo_test_allocates: "test_allocates (demo_test a)"
proof -
  have "num_heaps rt' = num_heaps rt \<and> (\<exists>ps. length ps = length (heaps rt) \<and>
      heaps rt' = map2 (\<lambda>hp p. hp\<lparr>hp_pos := p\<rparr>) (heaps rt) ps \<and>
      (\<forall>i < length (heaps rt). num_heaps rt \<le> i \<longrightarrow> ps ! i = hp_pos (heaps rt ! i)))"
    if "rumboot_malloc 8 rt = Some (p, rt')" "num_heaps rt \<noteq> 0" for rt p rt'
  proof -
    from that(1) obtain q where q: "rt' = rt\<lparr>heaps := (heaps rt)[0 := (heaps rt ! 0)\<lparr>hp_pos := q\<rparr>]\<rparr>"
      by (auto simp: rumboot_malloc_def rumboot_malloc_from_heap_def rumboot_malloc_from_heap_misaligned_def Let_def
          split: if_splits)
    let ?ps = "(map hp_pos (heaps rt))[0 := q]"
    have "heaps rt' = map2 (\<lambda>hp p. hp\<lparr>hp_pos := p\<rparr>) (heaps rt) ?ps"
    proof (rule nth_equalityI)
      fix i assume "i < length (heaps rt')"
      then show "heaps rt' ! i = map2 (\<lambda>hp p. hp\<lparr>hp_pos := p\<rparr>) (heaps rt) ?ps ! i"
        by (cases "i = 0") (simp_all add: q)
    qed (simp add: q)
    then show ?thesis using that(2) by (intro conjI exI [of _ ?ps]) (auto simp: q)
  qed
  then show ?thesis by (fastforce simp: test_allocates_def demo_test_def split: if_splits)
qed


theorem suite_restores_heaps_witness:
  "\<exists>log rt' w'. test_suite_run (\<lambda>w. (of_nat w, w)) (Some \<lparr>ts_magic = 0, ts_results = []\<rparr>) [demo_test 1, demo_test 0]
      (two_heaps, 5) = Some (1, log, rt', w') \<and> map hp_pos (heaps rt') = [0x1001, 0xFFFF0000]"
proof -
  have "\<exists>log rt' w'. test_suite_run (\<lambda>w. (of_nat w, w)) (Some \<lparr>ts_magic = 0, ts_results = []\<rparr>)
      [demo_test 1, demo_test 0] (two_heaps, 5) = Some (1, log, rt', w')"
    by (simp add: test_suite_run_def test_suite_run_single_def demo_test_def two_heaps_def rumboot_malloc_def
        rumboot_malloc_update_heaps_def rumboot_malloc_from_heap_def rumboot_malloc_from_heap_misaligned_def)
  then obtain log rt' w' where r: "test_suite_run (\<lambda>w. (of_nat w, w)) (Some \<lparr>ts_magic = 0, ts_results = []\<rparr>)
      [demo_test 1, demo_test 0] (two_heaps, 5) = Some (1, log, rt', w')" by blast
  from suite_restores_heaps [OF r] have "map hp_pos (heaps rt') = map hp_pos (heaps two_heaps)"
    by (simp add: demo_test_allocates)
  then show ?thesis using r by (auto simp: two_heaps_def)
qed

end
