(* ===== verification/Gpio.thy ===== *)
theory Gpio
  imports Regpoker "HOL-Library.Signed_Division"
begin

text \<open>
  General purpose input and output: the registry of \<open>src/lib/gpio.c\<close> and the controllers PL061
  (\<open>drivers/gpio/pl061.c\<close>), RCM (\<open>drivers/gpio/rcm.c\<close>) and the dummy (\<open>drivers/gpio/dummy.c\<close>). A
  controller is a record of functions on the devices; \<open>None\<close> is a panic or an entry outside the
  table. The locale \<open>gpio_bank\<close> is what users want of the registered controllers: pins that keep
  what was written to them.
\<close>

section \<open>Controllers and their registry\<close>

definition GPIO_NUM_PER_CTRL :: int where "GPIO_NUM_PER_CTRL = 8"
definition RUMBOOT_PLATFORM_NUM_GPIO_CONTROLLERS :: nat where "RUMBOOT_PLATFORM_NUM_GPIO_CONTROLLERS = 4"

datatype gpio_direction = GPIO_INPUT | GPIO_OUTPUT

record 'd gpio_controller =
  gc_IRQ :: u32
  gc_direction :: "int \<Rightarrow> gpio_direction \<Rightarrow> 'd \<Rightarrow> 'd"
  gc_write :: "int \<Rightarrow> int \<Rightarrow> 'd \<Rightarrow> 'd"
  gc_read :: "int \<Rightarrow> 'd \<Rightarrow> u32 \<times> 'd"
  gc_IRQ_configure :: "int \<Rightarrow> int \<Rightarrow> int \<Rightarrow> 'd \<Rightarrow> int \<times> 'd"
  gc_IRQ_get_pending :: "'d \<Rightarrow> int \<times> 'd"
  gc_IRQ_clear_pending :: "int \<Rightarrow> 'd \<Rightarrow> 'd"
  gc_afsel :: "int \<Rightarrow> int \<Rightarrow> 'd \<Rightarrow> int \<times> 'd"
  gc_selftest :: "'d \<Rightarrow> int \<times> 'd"

type_synonym 'd gpio_table = "'d gpio_controller list"

definition gpio_register_ctrl :: "'d gpio_controller \<Rightarrow> 'd gpio_table \<Rightarrow> 'd gpio_table option" where
  "gpio_register_ctrl new_ctrl tbl =
     (if length tbl \<ge> RUMBOOT_PLATFORM_NUM_GPIO_CONTROLLERS then None else Some (tbl @ [new_ctrl]))"

definition check_pin :: "int \<Rightarrow> 'd gpio_table \<Rightarrow> bool" where
  "check_pin gpio tbl \<longleftrightarrow> \<not> (gpio < 0 \<or> gpio \<ge> GPIO_NUM_PER_CTRL * int (length tbl))"

definition get_ctrl :: "int \<Rightarrow> 'd gpio_table \<Rightarrow> 'd gpio_controller option" where
  "get_ctrl gpio tbl = (if check_pin gpio tbl then Some (tbl ! nat (gpio div GPIO_NUM_PER_CTRL)) else None)"

definition gpio_direction :: "int \<Rightarrow> gpio_direction \<Rightarrow> 'd gpio_table \<Rightarrow> 'd \<Rightarrow> 'd option" where
  "gpio_direction gpio direction tbl d =
     map_option (\<lambda>ctrl. gc_direction ctrl (gpio mod GPIO_NUM_PER_CTRL) direction d) (get_ctrl gpio tbl)"

definition gpio_write :: "int \<Rightarrow> int \<Rightarrow> 'd gpio_table \<Rightarrow> 'd \<Rightarrow> 'd option" where
  "gpio_write gpio value tbl d =
     map_option (\<lambda>ctrl. gc_write ctrl (gpio mod GPIO_NUM_PER_CTRL) value d) (get_ctrl gpio tbl)"

definition gpio_read :: "int \<Rightarrow> 'd gpio_table \<Rightarrow> 'd \<Rightarrow> (u32 \<times> 'd) option" where
  "gpio_read gpio tbl d = map_option (\<lambda>ctrl. gc_read ctrl (gpio mod GPIO_NUM_PER_CTRL) d) (get_ctrl gpio tbl)"

definition gpio_IRQ_configure :: "int \<Rightarrow> int \<Rightarrow> 'd gpio_table \<Rightarrow> 'd \<Rightarrow> (int \<times> 'd) option" where
  "gpio_IRQ_configure gpio flags tbl d =
     map_option (\<lambda>ctrl. gc_IRQ_configure ctrl (gpio mod GPIO_NUM_PER_CTRL) (-1) flags d) (get_ctrl gpio tbl)"

definition gpio_IRQ_enable :: "int \<Rightarrow> 'd gpio_table \<Rightarrow> 'd \<Rightarrow> 'd option" where
  "gpio_IRQ_enable gpio tbl d =
     map_option (\<lambda>ctrl. snd (gc_IRQ_configure ctrl (gpio mod GPIO_NUM_PER_CTRL) 1 (-1) d)) (get_ctrl gpio tbl)"

definition gpio_IRQ_disable :: "int \<Rightarrow> 'd gpio_table \<Rightarrow> 'd \<Rightarrow> 'd option" where
  "gpio_IRQ_disable gpio tbl d =
     map_option (\<lambda>ctrl. snd (gc_IRQ_configure ctrl (gpio mod GPIO_NUM_PER_CTRL) 0 (-1) d)) (get_ctrl gpio tbl)"

fun gpio_IRQ_get_pending :: "int \<Rightarrow> 'd gpio_table \<Rightarrow> 'd \<Rightarrow> int \<times> 'd" where
  "gpio_IRQ_get_pending irq [] d = (-1, d)"
| "gpio_IRQ_get_pending irq (ctrl # tbl) d =
     (if gc_IRQ ctrl = of_int irq then gc_IRQ_get_pending ctrl d else gpio_IRQ_get_pending irq tbl d)"

text \<open>No check of the pin here; the division truncates.\<close>

definition gpio_IRQ_clear_pending :: "int \<Rightarrow> 'd gpio_table \<Rightarrow> 'd \<Rightarrow> 'd option" where
  "gpio_IRQ_clear_pending gpio tbl d =
     (let i = gpio sdiv GPIO_NUM_PER_CTRL
      in if 0 \<le> i \<and> i < int (length tbl)
         then Some (gc_IRQ_clear_pending (tbl ! nat i) (gpio smod GPIO_NUM_PER_CTRL) d) else None)"

definition gpio_to_IRQ :: "int \<Rightarrow> 'd gpio_table \<Rightarrow> u32 option" where
  "gpio_to_IRQ gpio tbl = map_option gc_IRQ (get_ctrl gpio tbl)"

definition gpio_afsel :: "int \<Rightarrow> int \<Rightarrow> 'd gpio_table \<Rightarrow> 'd \<Rightarrow> (int \<times> 'd) option" where
  "gpio_afsel gpio value tbl d =
     map_option (\<lambda>ctrl. gc_afsel ctrl (gpio mod GPIO_NUM_PER_CTRL) value d) (get_ctrl gpio tbl)"

fun selftest_all :: "'d gpio_table \<Rightarrow> int \<Rightarrow> 'd \<Rightarrow> int \<times> 'd" where
  "selftest_all [] errors_num d = (errors_num, d)"
| "selftest_all (ctrl # tbl) errors_num d =
     (let (k, d) = gc_selftest ctrl d in selftest_all tbl (errors_num + k) d)"

text \<open>The check lets \<open>ctrl_id\<close> through when it equals the number of controllers: that entry is empty, or
  behind the table.\<close>

definition gpio_selftest :: "int \<Rightarrow> 'd gpio_table \<Rightarrow> 'd \<Rightarrow> (int \<times> 'd) option" where
  "gpio_selftest ctrl_id tbl d =
     (if ctrl_id < -1 \<or> ctrl_id > int (length tbl) then None
      else if ctrl_id = -1 then Some (selftest_all tbl 0 d)
      else if ctrl_id = int (length tbl) then None
      else Some (gc_selftest (tbl ! nat ctrl_id) d))"

section \<open>PL061\<close>

text \<open>The values of \<open>RUMBOOT_IRQ_EDGE\<close> and the other flags belong to the architecture.\<close>

record irq_flags =
  IRQ_EDGE :: int
  IRQ_LEVEL :: int
  IRQ_POS :: int
  IRQ_NEG :: int
  IRQ_HIGH :: int
  IRQ_LOW :: int

definition arm_irq_flags :: irq_flags where
  "arm_irq_flags = \<lparr>IRQ_EDGE = 2, IRQ_LEVEL = 0, IRQ_POS = 0, IRQ_NEG = 1, IRQ_HIGH = 0, IRQ_LOW = 1\<rparr>"

definition GPIO_DIR :: u32 where "GPIO_DIR = 0x400"
definition GPIO_IS :: u32 where "GPIO_IS = 0x404"
definition GPIO_IEV :: u32 where "GPIO_IEV = 0x40C"
definition GPIO_IE :: u32 where "GPIO_IE = 0x410"
definition GPIO_MIS :: u32 where "GPIO_MIS = 0x418"
definition GPIO_IC :: u32 where "GPIO_IC = 0x41C"
definition GPIO_AFSEL :: u32 where "GPIO_AFSEL = 0x420"
definition GPIO_ADDR_MASK :: u32 where "GPIO_ADDR_MASK = push_bit 2 0xFF"

definition pl061_default_array :: "'d regpoker_checker list" where
  "pl061_default_array =
     map (\<lambda>(reg, value). \<lparr>rp_name = [], rp_tp = REGPOKER_READ32, rp_base = reg, rp_expected = value, rp_mask = 0xFF,
                           rp_readfunc = None, rp_writefunc = None\<rparr>)
       [(0xFE0, 0x61), (0xFE4, 0x10), (0xFE8, 0x04), (0xFEC, 0x00), (0xFF0, 0x0D), (0xFF4, 0xF0), (0xFF8, 0x05),
        (0xFFC, 0xB1)]"

definition reg_write :: "('d, 'e) hw_scheme \<Rightarrow> u32 \<Rightarrow> int \<Rightarrow> int \<Rightarrow> 'd \<Rightarrow> 'd" where
  "reg_write hw address gpio value d =
     iomodify32 hw address
       (\<lambda>current_value. if value = 0 then current_value AND NOT (BIT (nat gpio)) else current_value OR BIT (nat gpio)) d"

text \<open>\<open>flags == A | B\<close> is \<open>(flags == A) | B\<close>.\<close>

definition eq_or :: "int \<Rightarrow> int \<Rightarrow> int \<Rightarrow> bool" where
  "eq_or flags a b \<longleftrightarrow> (if flags = a then 1 else 0) OR b \<noteq> 0"

definition get_IRQ_sense_and_event :: "irq_flags \<Rightarrow> int \<Rightarrow> (int \<times> int) option" where
  "get_IRQ_sense_and_event fl flags =
     (if eq_or flags (IRQ_EDGE fl) (IRQ_POS fl) then Some (0, 1)
      else if eq_or flags (IRQ_EDGE fl) (IRQ_NEG fl) then Some (0, 0)
      else if eq_or flags (IRQ_LEVEL fl) (IRQ_HIGH fl) then Some (1, 1)
      else if eq_or flags (IRQ_LEVEL fl) (IRQ_LOW fl) then Some (1, 0)
      else None)"

definition pl061_direction :: "'d hw_wide \<Rightarrow> u32 \<Rightarrow> int \<Rightarrow> gpio_direction \<Rightarrow> 'd \<Rightarrow> 'd" where
  "pl061_direction hw base gpio direction d =
     reg_write hw (base + GPIO_DIR) gpio (case direction of GPIO_INPUT \<Rightarrow> 0 | GPIO_OUTPUT \<Rightarrow> 1) d"

definition pl061_read :: "'d hw_wide \<Rightarrow> u32 \<Rightarrow> int \<Rightarrow> 'd \<Rightarrow> u32 \<times> 'd" where
  "pl061_read hw base gpio d =
     (let (v, d) = ioread32 hw (base + GPIO_ADDR_MASK) d in (drop_bit (nat gpio) v AND 1, d))"

definition pl061_write :: "'d hw_wide \<Rightarrow> u32 \<Rightarrow> int \<Rightarrow> int \<Rightarrow> 'd \<Rightarrow> 'd" where
  "pl061_write hw base gpio value d = reg_write hw (base + GPIO_ADDR_MASK) gpio value d"

definition pl061_IRQ_configure :: "irq_flags \<Rightarrow> 'd hw_wide \<Rightarrow> u32 \<Rightarrow> int \<Rightarrow> int \<Rightarrow> int \<Rightarrow> 'd \<Rightarrow> int \<times> 'd" where
  "pl061_IRQ_configure fl hw base gpio enable flags d =
     (if enable = 0 \<or> enable = 1 then (0, reg_write hw (base + GPIO_IE) gpio enable d)
      else case get_IRQ_sense_and_event fl flags of
             None \<Rightarrow> (-1, d)
           | Some (sense, event) \<Rightarrow>
               let d = reg_write hw (base + GPIO_IS) gpio sense d
               in (0, reg_write hw (base + GPIO_IEV) gpio event d))"

definition pl061_IRQ_get_pending :: "'d hw_wide \<Rightarrow> u32 \<Rightarrow> 'd \<Rightarrow> int \<times> 'd" where
  "pl061_IRQ_get_pending hw base d =
     (let (status, d) = ioread32 hw (base + GPIO_MIS) d in (if status = 0 then -1 else sint status, d))"

definition pl061_IRQ_clear_pending :: "'d hw_wide \<Rightarrow> u32 \<Rightarrow> int \<Rightarrow> 'd \<Rightarrow> 'd" where
  "pl061_IRQ_clear_pending hw base gpio d = reg_write hw (base + GPIO_IC) gpio 1 d"

definition pl061_afsel :: "'d hw_wide \<Rightarrow> u32 \<Rightarrow> int \<Rightarrow> int \<Rightarrow> 'd \<Rightarrow> int \<times> 'd" where
  "pl061_afsel hw base gpio value d =
     (if value = 0 \<or> value = 1 then (0, reg_write hw (base + GPIO_AFSEL) gpio value d) else (-1, d))"

definition pl061_selftest :: "'d hw_wide \<Rightarrow> u32 \<Rightarrow> 'd \<Rightarrow> int \<times> 'd" where
  "pl061_selftest hw base d = apfst int (rumboot_regpoker_check_array hw pl061_default_array base d)"

definition pl061_ctrl :: "irq_flags \<Rightarrow> 'd hw_wide \<Rightarrow> u32 \<Rightarrow> u32 \<Rightarrow> 'd gpio_controller" where
  "pl061_ctrl fl hw base irq =
     \<lparr>gc_IRQ = irq, gc_direction = pl061_direction hw base, gc_write = pl061_write hw base,
      gc_read = pl061_read hw base, gc_IRQ_configure = pl061_IRQ_configure fl hw base,
      gc_IRQ_get_pending = pl061_IRQ_get_pending hw base, gc_IRQ_clear_pending = pl061_IRQ_clear_pending hw base,
      gc_afsel = pl061_afsel hw base, gc_selftest = pl061_selftest hw base\<rparr>"

section \<open>RCM\<close>

definition GPIO_PAD_DIR :: u32 where "GPIO_PAD_DIR = 0x008"
definition GPIO_WR_DATA :: u32 where "GPIO_WR_DATA = 0x00C"
definition GPIO_RD_DATA :: u32 where "GPIO_RD_DATA = 0x010"
definition GPIO_STATUS :: u32 where "GPIO_STATUS = 0x014"
definition GPIO_IRQ_MASK :: u32 where "GPIO_IRQ_MASK = 0x018"
definition GPIO_SWITCH_SOURCE :: u32 where "GPIO_SWITCH_SOURCE = 0x024"

definition EVENT_OFFSET :: int where "EVENT_OFFSET = 2"

definition rcm_default_array :: "'d regpoker_checker list" where
  "rcm_default_array =
     map (\<lambda>(reg, value). \<lparr>rp_name = [], rp_tp = REGPOKER_READ32, rp_base = reg, rp_expected = value,
                           rp_mask = 0xFFFFFFFF, rp_readfunc = None, rp_writefunc = None\<rparr>)
       [(0, 0x4F495047), (0x004, 1)]"

definition get_sector :: "int \<Rightarrow> int" where "get_sector gpio = gpio * 4"

definition get_event_bit :: "int \<Rightarrow> int" where "get_event_bit gpio = get_sector gpio + EVENT_OFFSET"

definition get_event :: "u32 \<Rightarrow> int \<Rightarrow> int" where
  "get_event irq_mask gpio = of_bool (bit irq_mask (nat (get_event_bit gpio)))"

definition rcm_direction :: "'d hw_wide \<Rightarrow> u32 \<Rightarrow> int \<Rightarrow> gpio_direction \<Rightarrow> 'd \<Rightarrow> 'd" where
  "rcm_direction hw base gpio direction d =
     reg_write hw (base + GPIO_PAD_DIR) gpio (case direction of GPIO_INPUT \<Rightarrow> 0 | GPIO_OUTPUT \<Rightarrow> 1) d"

definition rcm_read :: "'d hw_wide \<Rightarrow> u32 \<Rightarrow> int \<Rightarrow> 'd \<Rightarrow> u32 \<times> 'd" where
  "rcm_read hw base gpio d =
     (let (v, d) = ioread32 hw (base + GPIO_RD_DATA) d in (drop_bit (nat gpio) v AND 1, d))"

definition rcm_write :: "'d hw_wide \<Rightarrow> u32 \<Rightarrow> int \<Rightarrow> int \<Rightarrow> 'd \<Rightarrow> 'd" where
  "rcm_write hw base gpio value d = reg_write hw (base + GPIO_WR_DATA) gpio value d"

definition rcm_IRQ_configure :: "irq_flags \<Rightarrow> 'd hw_wide \<Rightarrow> u32 \<Rightarrow> int \<Rightarrow> int \<Rightarrow> int \<Rightarrow> 'd \<Rightarrow> int \<times> 'd" where
  "rcm_IRQ_configure fl hw base gpio enable flags d =
     (let (irq_mask, d) = ioread32 hw (base + GPIO_IRQ_MASK) d;
          event = get_event irq_mask gpio;
          sector = get_sector gpio;
          mask_bit = sector + event
      in if enable = 0 \<or> enable = 1 then
           (let irq_mask = (if enable \<noteq> 0 then irq_mask OR BIT (nat mask_bit) else irq_mask AND NOT (BIT (nat mask_bit)))
            in (0, iowrite32 hw irq_mask (base + GPIO_IRQ_MASK) d))
         else
           case (if eq_or flags (IRQ_EDGE fl) (IRQ_POS fl) then Some 0
                 else if eq_or flags (IRQ_EDGE fl) (IRQ_NEG fl) then Some 1 else None) of
             None \<Rightarrow> (-1, d)
           | Some new_event \<Rightarrow>
               if new_event = event then (0, d)
               else
                 let irq_mask = (if bit irq_mask (nat mask_bit)
                             then (irq_mask AND NOT (BIT (nat mask_bit))) OR BIT (nat (sector + (1 - event))) else irq_mask);
                     irq_mask = (if new_event \<noteq> 0 then irq_mask OR BIT (nat (get_event_bit gpio))
                             else irq_mask AND NOT (BIT (nat (get_event_bit gpio))))
                 in (0, iowrite32 hw irq_mask (base + GPIO_IRQ_MASK) d))"

fun pending_loop :: "nat list \<Rightarrow> u32 \<Rightarrow> u32 \<Rightarrow> u32" where
  "pending_loop [] status bitmask = bitmask"
| "pending_loop (i # is) status bitmask =
     pending_loop is (drop_bit (nat (GPIO_NUM_PER_CTRL div 2)) status)
       (if bit status 0 \<or> bit status 1 then bitmask OR BIT i else bitmask)"

definition rcm_IRQ_get_pending :: "'d hw_wide \<Rightarrow> u32 \<Rightarrow> 'd \<Rightarrow> int \<times> 'd" where
  "rcm_IRQ_get_pending hw base d =
     (let (status, d) = ioread32 hw (base + GPIO_STATUS) d
      in (if status = 0 then -1 else sint (pending_loop [0 ..< nat GPIO_NUM_PER_CTRL] status 0), d))"

definition rcm_IRQ_clear_pending :: "'d hw_wide \<Rightarrow> u32 \<Rightarrow> int \<Rightarrow> 'd \<Rightarrow> 'd" where
  "rcm_IRQ_clear_pending hw base gpio d = snd (ioread32 hw (base + GPIO_STATUS) d)"

definition rcm_afsel :: "'d hw_wide \<Rightarrow> u32 \<Rightarrow> int \<Rightarrow> int \<Rightarrow> 'd \<Rightarrow> int \<times> 'd" where
  "rcm_afsel hw base gpio value d =
     (if value = 0 \<or> value = 1 then (0, reg_write hw (base + GPIO_SWITCH_SOURCE) gpio (1 - value) d) else (-1, d))"

definition rcm_selftest :: "'d hw_wide \<Rightarrow> u32 \<Rightarrow> 'd \<Rightarrow> int \<times> 'd" where
  "rcm_selftest hw base d = apfst int (rumboot_regpoker_check_array hw rcm_default_array base d)"

definition rcm_ctrl :: "irq_flags \<Rightarrow> 'd hw_wide \<Rightarrow> u32 \<Rightarrow> u32 \<Rightarrow> 'd gpio_controller" where
  "rcm_ctrl fl hw base irq =
     \<lparr>gc_IRQ = irq, gc_direction = rcm_direction hw base, gc_write = rcm_write hw base, gc_read = rcm_read hw base,
      gc_IRQ_configure = rcm_IRQ_configure fl hw base, gc_IRQ_get_pending = rcm_IRQ_get_pending hw base,
      gc_IRQ_clear_pending = rcm_IRQ_clear_pending hw base, gc_afsel = rcm_afsel hw base,
      gc_selftest = rcm_selftest hw base\<rparr>"

section \<open>The dummy\<close>

text \<open>Its state is an entry of \<open>persistent\<close> in the runtime information: pins, directions and functions of
  eight pins each. Messages are left out.\<close>

record 'd persistent_cell =
  get_state :: "'d \<Rightarrow> u32"
  set_state :: "u32 \<Rightarrow> 'd \<Rightarrow> 'd"

definition dummy_read :: "'d persistent_cell \<Rightarrow> int \<Rightarrow> 'd \<Rightarrow> u32" where
  "dummy_read self gpio d = drop_bit (nat gpio) (get_state self d) AND 1"

definition state_write :: "'d persistent_cell \<Rightarrow> int \<Rightarrow> int \<Rightarrow> 'd \<Rightarrow> 'd" where
  "state_write self gpio value d =
     (if value = 0 then set_state self (get_state self d AND NOT (BIT (nat gpio))) d
      else set_state self (get_state self d OR BIT (nat gpio)) d)"

definition dummy_write :: "'d persistent_cell \<Rightarrow> int \<Rightarrow> int \<Rightarrow> 'd \<Rightarrow> 'd" where
  "dummy_write self gpio value d =
     (if dummy_read self (gpio + GPIO_NUM_PER_CTRL) d = 1 then
        let d = state_write self gpio value d;
            opposite_pin = (if gpio < GPIO_NUM_PER_CTRL div 2 then gpio + GPIO_NUM_PER_CTRL div 2
                            else gpio - GPIO_NUM_PER_CTRL div 2)
        in if dummy_read self (opposite_pin + GPIO_NUM_PER_CTRL) d \<noteq> 0
           then state_write self opposite_pin value d else d
      else d)"

definition dummy_direction :: "'d persistent_cell \<Rightarrow> int \<Rightarrow> gpio_direction \<Rightarrow> 'd \<Rightarrow> 'd" where
  "dummy_direction self gpio direction d =
     state_write self (gpio + GPIO_NUM_PER_CTRL) (case direction of GPIO_INPUT \<Rightarrow> 0 | GPIO_OUTPUT \<Rightarrow> 1) d"

definition dummy_afsel :: "'d persistent_cell \<Rightarrow> int \<Rightarrow> int \<Rightarrow> 'd \<Rightarrow> int \<times> 'd" where
  "dummy_afsel self gpio value d = (0, state_write self (gpio + 2 * GPIO_NUM_PER_CTRL) value d)"

definition dummy_ctrl :: "'d persistent_cell \<Rightarrow> u32 \<Rightarrow> 'd gpio_controller" where
  "dummy_ctrl self irq =
     \<lparr>gc_IRQ = irq, gc_direction = dummy_direction self, gc_write = dummy_write self,
      gc_read = \<lambda>gpio d. (dummy_read self gpio d, d), gc_IRQ_configure = \<lambda>_ _ _ d. (0, d),
      gc_IRQ_get_pending = \<lambda>d. (0, d), gc_IRQ_clear_pending = \<lambda>_ d. d, gc_afsel = dummy_afsel self,
      gc_selftest = \<lambda>d. (0, d)\<rparr>"

section \<open>Pins keep what was written\<close>

definition gpio_pin_ctrl :: "'d gpio_table \<Rightarrow> int \<Rightarrow> 'd gpio_controller" where
  "gpio_pin_ctrl tbl gpio = tbl ! nat (gpio div GPIO_NUM_PER_CTRL)"

fun gpio_writes :: "(int \<times> int) list \<Rightarrow> 'd gpio_table \<Rightarrow> 'd \<Rightarrow> 'd option" where
  "gpio_writes [] tbl d = Some d"
| "gpio_writes ((gpio, value) # ws) tbl d =
     (case gpio_write gpio value tbl d of None \<Rightarrow> None | Some d \<Rightarrow> gpio_writes ws tbl d)"

fun last_value :: "(int \<times> int) list \<Rightarrow> int \<Rightarrow> bool \<Rightarrow> bool" where
  "last_value [] gpio initial = initial"
| "last_value ((g, value) # ws) gpio initial = last_value ws gpio (if g = gpio then value \<noteq> 0 else initial)"

locale gpio_bank =
  fixes tbl :: "'d gpio_table" and levels :: "'d \<Rightarrow> int set" and outs :: "int set"
  assumes pin_write: "check_pin g tbl \<Longrightarrow> g \<in> outs \<Longrightarrow>
      levels (gc_write (gpio_pin_ctrl tbl g) (g mod GPIO_NUM_PER_CTRL) v d) =
        (if v = 0 then levels d - {g} else insert g (levels d))"
    and pin_read: "check_pin g tbl \<Longrightarrow> g \<in> outs \<Longrightarrow>
      fst (gc_read (gpio_pin_ctrl tbl g) (g mod GPIO_NUM_PER_CTRL) d) = of_bool (g \<in> levels d)"
begin

lemma write_level:
  assumes "check_pin g tbl" "g \<in> outs"
  shows "\<exists>d'. gpio_write g v tbl d = Some d' \<and> levels d' = (if v = 0 then levels d - {g} else insert g (levels d))"
  using assms(1) pin_write [OF assms] by (simp add: gpio_write_def get_ctrl_def gpio_pin_ctrl_def)

lemma writes_levels:
  assumes "\<forall>(g, v) \<in> set ws. check_pin g tbl \<and> g \<in> outs"
  shows "\<exists>d'. gpio_writes ws tbl d = Some d' \<and> (\<forall>g. g \<in> levels d' \<longleftrightarrow> last_value ws g (g \<in> levels d))"
  using assms
proof (induction ws arbitrary: d)
  case (Cons w ws)
  obtain g v where w: "w = (g, v)" by force
  obtain d1 where d1: "gpio_write g v tbl d = Some d1"
    "levels d1 = (if v = 0 then levels d - {g} else insert g (levels d))"
    using write_level Cons.prems w by fastforce
  have l: "(if g = h then v \<noteq> 0 else h \<in> levels d) \<longleftrightarrow> h \<in> levels d1" for h using d1(2) by auto
  have "\<forall>(g, v) \<in> set ws. check_pin g tbl \<and> g \<in> outs" using Cons.prems by simp
  from Cons.IH [OF this, of d1] show ?case unfolding w last_value.simps l by (simp add: d1(1))
qed simp

lemma read_level: "check_pin g tbl \<Longrightarrow> g \<in> outs \<Longrightarrow> \<exists>d'. gpio_read g tbl d = Some (of_bool (g \<in> levels d), d')"
  using pin_read [of g d] by (auto simp: gpio_read_def get_ctrl_def gpio_pin_ctrl_def prod_eq_iff)

lemma writes_then_read:
  assumes "\<forall>(g, v) \<in> set ws. check_pin g tbl \<and> g \<in> outs" "check_pin h tbl" "h \<in> outs"
  shows "\<exists>d' d''. gpio_writes ws tbl d = Some d' \<and>
    gpio_read h tbl d' = Some (of_bool (last_value ws h (h \<in> levels d)), d'')"
proof -
  obtain d' where "gpio_writes ws tbl d = Some d'" "h \<in> levels d' \<longleftrightarrow> last_value ws h (h \<in> levels d)"
    using writes_levels [OF assms(1), of d] by blast
  then show ?thesis using read_level [OF assms(2,3), of d'] by auto
qed

end

text \<open>
  What PL061 data registers do. \<open>out b p\<close> says that pin \<open>p\<close> (of 8) of the controller at \<open>b\<close> is an output; then
  \<open>level b d p\<close> is what it drives: a read shows it, a read of any register and a write to another controller
  leave it, a write to its own sets it. Nothing is said of the pins that are inputs, whose bits show the
  pads, nor of the upper bits of a register.
\<close>

definition pl061_device :: "('d, 'e) hw_scheme \<Rightarrow> (u32 \<Rightarrow> nat \<Rightarrow> bool) \<Rightarrow> (u32 \<Rightarrow> 'd \<Rightarrow> nat \<Rightarrow> bool) \<Rightarrow> u32 set \<Rightarrow> bool" where
  "pl061_device hw out level bases \<longleftrightarrow>
     (\<forall>b \<in> bases. \<forall>d.
        (\<forall>p < 8. out b p \<longrightarrow> bit (fst (hw_read32 hw (b + GPIO_ADDR_MASK) d)) p = level b d p) \<and>
        (\<forall>c \<in> bases. \<forall>p < 8. out c p \<longrightarrow> level c (snd (hw_read32 hw (b + GPIO_ADDR_MASK) d)) p = level c d p)) \<and>
     (\<forall>b \<in> bases. \<forall>v d. \<forall>c \<in> bases. \<forall>p < 8. out c p \<longrightarrow>
        level c (hw_write32 hw v (b + GPIO_ADDR_MASK) d) p = (if c = b then bit v p else level c d p))"

definition pl061_table :: "irq_flags \<Rightarrow> 'd hw_wide \<Rightarrow> (u32 \<times> u32) list \<Rightarrow> 'd gpio_table" where
  "pl061_table fl hw bs = map (\<lambda>(base, irq). pl061_ctrl fl hw base irq) bs"

definition pl061_outs :: "(u32 \<Rightarrow> nat \<Rightarrow> bool) \<Rightarrow> (u32 \<times> u32) list \<Rightarrow> int set" where
  "pl061_outs out bs =
     {g. 0 \<le> g \<and> g < GPIO_NUM_PER_CTRL * int (length bs) \<and>
         out (fst (bs ! nat (g div GPIO_NUM_PER_CTRL))) (nat (g mod GPIO_NUM_PER_CTRL))}"

definition pl061_levels :: "(u32 \<Rightarrow> nat \<Rightarrow> bool) \<Rightarrow> (u32 \<Rightarrow> 'd \<Rightarrow> nat \<Rightarrow> bool) \<Rightarrow> (u32 \<times> u32) list \<Rightarrow> 'd \<Rightarrow> int set" where
  "pl061_levels out level bs d =
     {g \<in> pl061_outs out bs. level (fst (bs ! nat (g div GPIO_NUM_PER_CTRL))) d (nat (g mod GPIO_NUM_PER_CTRL))}"

lemma pin_bound:
  "0 \<le> g \<Longrightarrow> g < GPIO_NUM_PER_CTRL * int n \<Longrightarrow> nat (g div GPIO_NUM_PER_CTRL) < n \<and> nat (g mod GPIO_NUM_PER_CTRL) < 8"
  by (auto simp: GPIO_NUM_PER_CTRL_def nat_less_iff)

lemma pin_eq:
  "0 \<le> g \<Longrightarrow> 0 \<le> h \<Longrightarrow> nat (g div GPIO_NUM_PER_CTRL) = nat (h div GPIO_NUM_PER_CTRL) \<Longrightarrow>
     nat (g mod GPIO_NUM_PER_CTRL) = nat (h mod GPIO_NUM_PER_CTRL) \<longleftrightarrow> g = h"
proof
  assume a: "0 \<le> g" "0 \<le> h" "nat (g div GPIO_NUM_PER_CTRL) = nat (h div GPIO_NUM_PER_CTRL)"
    "nat (g mod GPIO_NUM_PER_CTRL) = nat (h mod GPIO_NUM_PER_CTRL)"
  then have "g div 8 = h div 8" by (simp add: GPIO_NUM_PER_CTRL_def pos_imp_zdiv_nonneg_iff eq_nat_nat_iff)
  moreover from a have "g mod 8 = h mod 8" by (simp add: GPIO_NUM_PER_CTRL_def eq_nat_nat_iff)
  ultimately show "g = h" by (metis mult_div_mod_eq)
qed simp

lemma bit_set_clear:
  "k < 32 \<Longrightarrow> bit (if v = (0 :: int) then w AND NOT (BIT k) else w OR BIT k) j \<longleftrightarrow> (if j = k then v \<noteq> 0 else bit w j)"
  by (auto simp: bit_simps BIT_def bit_exp_iff possible_bit_def dest: bit_imp_le_length)

lemma pl061_bank:
  assumes dev: "pl061_device hw out level (fst ` set bs)" and dist: "distinct (map fst bs)"
  shows "gpio_bank (pl061_table fl hw bs) (pl061_levels out level bs) (pl061_outs out bs)"
proof
  fix g v :: int and d assume "check_pin g (pl061_table fl hw bs)" and go: "g \<in> pl061_outs out bs"
  then have g: "0 \<le> g" "g < GPIO_NUM_PER_CTRL * int (length bs)"
    by (auto simp: check_pin_def pl061_table_def)
  let ?k = "nat (g div GPIO_NUM_PER_CTRL)" and ?p = "nat (g mod GPIO_NUM_PER_CTRL)"
  obtain base irq where b: "bs ! ?k = (base, irq)" by force
  have k: "?k < length bs" "?p < 8" using pin_bound [OF g] by auto
  then have base: "base \<in> fst ` set bs" using b by (metis fst_conv image_eqI nth_mem)
  have c: "gpio_pin_ctrl (pl061_table fl hw bs) g = pl061_ctrl fl hw base irq"
    using k(1) b by (simp add: gpio_pin_ctrl_def pl061_table_def)
  obtain x d1 where r: "hw_read32 hw (base + GPIO_ADDR_MASK) d = (x, d1)" by force
  have rd: "bit x p = level base d p" if "p < 8" "out base p" for p
    using dev base that r unfolding pl061_device_def by (metis fst_conv)
  have rk: "level c d1 p = level c d p" if "c \<in> fst ` set bs" "p < 8" "out c p" for c p
    using dev base that r unfolding pl061_device_def by (metis snd_conv)
  have wd: "level c (hw_write32 hw v (base + GPIO_ADDR_MASK) d) p = (if c = base then bit v p else level c d p)"
    if "c \<in> fst ` set bs" "p < 8" "out c p" for c v p d
    using dev base that unfolding pl061_device_def by blast
  define w where "w = (if v = 0 then x AND NOT (BIT ?p) else x OR BIT ?p)"
  define d2 where "d2 = hw_write32 hw w (base + GPIO_ADDR_MASK) d1"
  have wr: "gc_write (gpio_pin_ctrl (pl061_table fl hw bs) g) (g mod GPIO_NUM_PER_CTRL) v d = d2"
    unfolding c
    by (simp add: r pl061_ctrl_def pl061_write_def reg_write_def iomodify32_def ioread32_def iowrite32_def w_def d2_def)
  have same: "fst (bs ! nat (h div GPIO_NUM_PER_CTRL)) = base \<longleftrightarrow> nat (h div GPIO_NUM_PER_CTRL) = ?k"
    if "0 \<le> h" "h < GPIO_NUM_PER_CTRL * int (length bs)" for h
    using nth_eq_iff_index_eq [of "map fst bs" "nat (h div GPIO_NUM_PER_CTRL)" ?k] dist pin_bound [OF that] k(1) b
    by simp
  have bit: "h \<in> pl061_levels out level bs d2 \<longleftrightarrow> (if h = g then v \<noteq> 0 else h \<in> pl061_levels out level bs d)"
    if ho: "h \<in> pl061_outs out bs" for h
  proof -
    let ?c = "fst (bs ! nat (h div GPIO_NUM_PER_CTRL))" and ?q = "nat (h mod GPIO_NUM_PER_CTRL)"
    have h: "0 \<le> h" "h < GPIO_NUM_PER_CTRL * int (length bs)" "out ?c ?q" using ho by (simp_all add: pl061_outs_def)
    have q: "?q < 8" "?c \<in> fst ` set bs" using pin_bound [OF h(1,2)] by auto
    have "level ?c d2 ?q = (if ?c = base then bit w ?q else level ?c d ?q)"
      unfolding d2_def using wd [OF q(2,1) h(3)] rk [OF q(2,1) h(3)] by simp
    moreover have "bit w ?q \<longleftrightarrow> (if h = g then v \<noteq> 0 else level ?c d ?q)" if cb: "?c = base"
      using rd [OF q(1)] h cb same [OF h(1,2)] pin_eq [of h g] g k(2) bit_set_clear [of ?p v x ?q]
      by (simp add: w_def)
    moreover have "h = g \<Longrightarrow> ?c = base" using b by simp
    ultimately show ?thesis using ho by (auto simp: pl061_levels_def)
  qed
  show "pl061_levels out level bs (gc_write (gpio_pin_ctrl (pl061_table fl hw bs) g) (g mod GPIO_NUM_PER_CTRL) v d) =
      (if v = 0 then pl061_levels out level bs d - {g} else insert g (pl061_levels out level bs d))"
  proof (rule set_eqI)
    fix h
    show "h \<in> pl061_levels out level bs (gc_write (gpio_pin_ctrl (pl061_table fl hw bs) g) (g mod GPIO_NUM_PER_CTRL) v d)
        \<longleftrightarrow> h \<in> (if v = 0 then pl061_levels out level bs d - {g} else insert g (pl061_levels out level bs d))"
    proof (cases "h \<in> pl061_outs out bs")
      case True
      then show ?thesis unfolding wr using bit [OF True] by auto
    next
      case False
      then show ?thesis using go by (auto simp: pl061_levels_def)
    qed
  qed
next
  fix g d assume "check_pin g (pl061_table fl hw bs)" and go: "g \<in> pl061_outs out bs"
  then have g: "0 \<le> g" "g < GPIO_NUM_PER_CTRL * int (length bs)"
    by (auto simp: check_pin_def pl061_table_def)
  let ?k = "nat (g div GPIO_NUM_PER_CTRL)" and ?p = "nat (g mod GPIO_NUM_PER_CTRL)"
  obtain base irq where b: "bs ! ?k = (base, irq)" by force
  have k: "?k < length bs" "?p < 8" using pin_bound [OF g] by auto
  then have base: "base \<in> fst ` set bs" using b by (metis fst_conv image_eqI nth_mem)
  obtain x d1 where r: "hw_read32 hw (base + GPIO_ADDR_MASK) d = (x, d1)" by force
  have "out base ?p" using go b by (simp add: pl061_outs_def)
  then have "bit x ?p = level base d ?p"
    using dev base k(2) r unfolding pl061_device_def by (metis fst_conv)
  moreover have "drop_bit ?p x AND 1 = of_bool (bit x ?p)"
    by (simp add: and_one_eq bit_iff_odd_drop_bit mod_2_eq_odd)
  ultimately show "fst (gc_read (gpio_pin_ctrl (pl061_table fl hw bs) g) (g mod GPIO_NUM_PER_CTRL) d) =
      of_bool (g \<in> pl061_levels out level bs d)"
    using r k b go
    by (simp add: gpio_pin_ctrl_def pl061_table_def pl061_ctrl_def pl061_read_def ioread32_def pl061_levels_def)
qed

text \<open>
  A controller with 8 pins at each base, some of them outputs (the bits of \<open>dirs\<close>): the state has the data
  registers, input pins read \<open>pads\<close>.
\<close>

definition pl061_sim :: "(u32 \<Rightarrow> u32) \<Rightarrow> (u32 \<Rightarrow> u32) \<Rightarrow> (u32 \<Rightarrow> u32) hw_wide" where
  "pl061_sim dirs pads =
     \<lparr>hw_read32 = \<lambda>a d. (let b = a - GPIO_ADDR_MASK in ((d a AND dirs b) OR (pads b AND NOT (dirs b))) AND 0xFF, d),
      hw_write32 = \<lambda>v a d. (let b = a - GPIO_ADDR_MASK in d(a := (v AND dirs b) OR (d a AND NOT (dirs b)))),
      hw_uptime = \<lambda>d. (0, d),
      hw_read8 = \<lambda>_ d. (0, d), hw_write8 = \<lambda>_ _ d. d, hw_read16 = \<lambda>_ d. (0, d), hw_write16 = \<lambda>_ _ d. d,
      hw_read64 = \<lambda>_ d. (0, d), hw_write64 = \<lambda>_ _ d. d\<rparr>"

lemma bit_0xFF: "bit (0xFF :: int) p \<longleftrightarrow> p < 8"
proof -
  have m: "(0xFF :: int) = Bit_Operations.mask 8" by (simp add: mask_eq_exp_minus_1)
  show ?thesis unfolding m bit_mask_iff by simp
qed

lemma pl061_sim_device:
  "pl061_device (pl061_sim dirs pads) (\<lambda>b p. bit (dirs b) p) (\<lambda>b d p. bit (d (b + GPIO_ADDR_MASK)) p) bases"
  by (auto simp: pl061_device_def pl061_sim_def Let_def bit_simps bit_0xFF)

interpretation pl061_regs: gpio_bank "pl061_table fl (pl061_sim dirs pads) [(base, irq)]"
  "pl061_levels (\<lambda>b p. bit (dirs b) p) (\<lambda>b d p. bit (d (b + GPIO_ADDR_MASK)) p) [(base, irq)]"
  "pl061_outs (\<lambda>b p. bit (dirs b) p) [(base, irq)]" for fl base irq dirs pads
  by (rule pl061_bank [OF pl061_sim_device]) simp

text \<open>A plain register file, where no pin is an input.\<close>

definition register_file :: "(u32 \<Rightarrow> u32) hw_wide" where
  "register_file =
     \<lparr>hw_read32 = \<lambda>a d. (d a, d), hw_write32 = \<lambda>v a d. d(a := v), hw_uptime = \<lambda>d. (0, d),
      hw_read8 = \<lambda>_ d. (0, d), hw_write8 = \<lambda>_ _ d. d, hw_read16 = \<lambda>_ d. (0, d), hw_write16 = \<lambda>_ _ d. d,
      hw_read64 = \<lambda>_ d. (0, d), hw_write64 = \<lambda>_ _ d. d\<rparr>"

text \<open>C40: Output pins are independent and keep what is written: on any number of PL061 controllers with data
  registers of their own, of whose 8 pins each is an input or an output, after any sequence of writes to
  existing output pins, reading an output pin gives the value written last to exactly this pin, or its
  old level if none was.\<close>

theorem gpio_pins_independent:
  assumes "pl061_device hw out level (fst ` set bs)" "distinct (map fst bs)"
    and "\<forall>(g, v) \<in> set ws. check_pin g (pl061_table fl hw bs) \<and> g \<in> pl061_outs out bs"
      "check_pin h (pl061_table fl hw bs)" "h \<in> pl061_outs out bs"
  shows "\<exists>d' d''. gpio_writes ws (pl061_table fl hw bs) d = Some d' \<and>
    gpio_read h (pl061_table fl hw bs) d' = Some (of_bool (last_value ws h (h \<in> pl061_levels out level bs d)), d'')"
  by (rule gpio_bank.writes_then_read [OF pl061_bank [OF assms(1,2)] assms(3-5)])

text \<open>Two controllers; the pins 0 to 3 of each are outputs, the others read a pad that is high.\<close>

theorem gpio_pins_independent_witness:
  "\<exists>d' d''. gpio_writes [(3, 1), (11, 1), (3, 0)]
        (pl061_table arm_irq_flags (pl061_sim (\<lambda>_. 0x0F) (\<lambda>_. 0xFF)) [(0x1000, 5), (0x2000, 6)]) (\<lambda>_. 0) = Some d' \<and>
    gpio_read 11 (pl061_table arm_irq_flags (pl061_sim (\<lambda>_. 0x0F) (\<lambda>_. 0xFF)) [(0x1000, 5), (0x2000, 6)]) d' = Some (1, d'')"
  using gpio_pins_independent [of "pl061_sim (\<lambda>_. 0x0F) (\<lambda>_. 0xFF)" "\<lambda>b p. bit (0x0F :: u32) p"
      "\<lambda>b d p. bit (d (b + GPIO_ADDR_MASK)) p" "[(0x1000, 5), (0x2000, 6)]"
      "[(3, 1), (11, 1), (3, 0)]" arm_irq_flags 11 "\<lambda>_. 0", OF pl061_sim_device]
  by (simp add: check_pin_def pl061_table_def GPIO_NUM_PER_CTRL_def pl061_outs_def)

text \<open>On ARM every trigger request but a rising edge configures a falling edge: the comparison
  \<open>flags == EDGE | NEG\<close> is \<open>(flags == EDGE) | NEG\<close>, which is never 0. So a request for a level
  succeeds and the line reacts to edges.\<close>

theorem gpio_level_request_ignored:
  assumes "flags \<noteq> IRQ_EDGE arm_irq_flags OR IRQ_POS arm_irq_flags" "enable \<noteq> 0" "enable \<noteq> 1"
  shows "pl061_IRQ_configure arm_irq_flags hw base gpio enable flags d =
    pl061_IRQ_configure arm_irq_flags hw base gpio enable (IRQ_EDGE arm_irq_flags OR IRQ_NEG arm_irq_flags) d"
  using assms by (simp add: pl061_IRQ_configure_def get_IRQ_sense_and_event_def eq_or_def arm_irq_flags_def)

theorem gpio_level_request_ignored_witness:
  "pl061_IRQ_configure arm_irq_flags register_file 0x1000 3 (-1) (IRQ_LEVEL arm_irq_flags OR IRQ_HIGH arm_irq_flags) (\<lambda>_. 0xFF)
    = (0, (\<lambda>_. 0xFF)(0x1404 := 0xF7, 0x140C := 0xF7))"
proof -
  have "pl061_IRQ_configure arm_irq_flags register_file 0x1000 3 (-1) (IRQ_LEVEL arm_irq_flags OR IRQ_HIGH arm_irq_flags) (\<lambda>_. 0xFF)
    = pl061_IRQ_configure arm_irq_flags register_file 0x1000 3 (-1) (IRQ_EDGE arm_irq_flags OR IRQ_NEG arm_irq_flags) (\<lambda>_. 0xFF)"
    by (rule gpio_level_request_ignored) (simp_all add: arm_irq_flags_def)
  then show ?thesis
    by (simp add: pl061_IRQ_configure_def get_IRQ_sense_and_event_def eq_or_def arm_irq_flags_def reg_write_def
        iomodify32_def ioread32_def iowrite32_def register_file_def GPIO_IS_def GPIO_IEV_def BIT_def Let_def)
qed

end
