(* ===== verification/Mpic128.thy ===== *)
theory Mpic128
  imports Irq_Drivers
begin

text \<open>
  The interrupt controller of the PowerPC chips, \<open>src/lib/drivers/irq-mpic128.c\<close>, with its timers,
  \<open>src/platform/oi10/lib/drivers/mpic128-timers.c\<close>. Its registers are device control registers, an
  address space of its own that is reached with special instructions: the record \<open>ppc\<close>. Loops on a
  register may run for ever and then have no result.
\<close>

section \<open>Registers\<close>

record 'd ppc =
  ppc_dcr_read :: "u32 \<Rightarrow> 'd \<Rightarrow> u32 \<times> 'd"
  ppc_dcr_write :: "u32 \<Rightarrow> u32 \<Rightarrow> 'd \<Rightarrow> 'd"
  ppc_spr_read :: "u32 \<Rightarrow> 'd \<Rightarrow> u32 \<times> 'd"
  ppc_msr_write :: "u32 \<Rightarrow> 'd \<Rightarrow> 'd"

definition dcr_read :: "'d ppc \<Rightarrow> u32 \<Rightarrow> 'd \<Rightarrow> u32 \<times> 'd" where
  "dcr_read ppc addr d = ppc_dcr_read ppc addr d"

definition dcr_write :: "'d ppc \<Rightarrow> u32 \<Rightarrow> u32 \<Rightarrow> 'd \<Rightarrow> 'd" where
  "dcr_write ppc addr v d = ppc_dcr_write ppc addr v d"

definition MPIC128_VP :: "u32 \<Rightarrow> u32" where "MPIC128_VP x = 0x10000 + 0x20 * x"
definition MPIC128_DST :: "u32 \<Rightarrow> u32" where "MPIC128_DST x = 0x10010 + 0x20 * x"
definition MPIC128_IVP :: "u32 \<Rightarrow> u32" where "MPIC128_IVP x = 0x10A0 + 0x10 * x"
definition MPIC128_TVP :: "u32 \<Rightarrow> u32" where "MPIC128_TVP x = 0x1120 + 0x40 * x"
definition MPIC128_TDST :: "u32 \<Rightarrow> u32" where "MPIC128_TDST x = 0x1130 + 0x40 * x"
definition MPIC128_TBC :: "u32 \<Rightarrow> u32" where "MPIC128_TBC x = 0x1110 + 0x40 * x"
definition MPIC128_IPID_PR :: u32 where "MPIC128_IPID_PR = 0x40"
definition MPIC128_CTP_PR :: u32 where "MPIC128_CTP_PR = 0x80"
definition MPIC128_NCIAR_PR :: u32 where "MPIC128_NCIAR_PR = 0xA0"
definition MPIC128_NCEOI_PR :: u32 where "MPIC128_NCEOI_PR = 0xB0"
definition MPIC128_CIAR_PR :: u32 where "MPIC128_CIAR_PR = 0xC0"
definition MPIC128_CEOI_PR :: u32 where "MPIC128_CEOI_PR = 0xD0"
definition MPIC128_IAR_PR :: u32 where "MPIC128_IAR_PR = 0xE0"
definition MPIC128_EOI_PR :: u32 where "MPIC128_EOI_PR = 0xF0"
definition MPIC128_GCF0 :: u32 where "MPIC128_GCF0 = 0x1020"
definition MPIC128_VITC :: u32 where "MPIC128_VITC = 0x1040"
definition MPIC128_SPV :: u32 where "MPIC128_SPV = 0x10E0"
definition MPIC128_TFR :: u32 where "MPIC128_TFR = 0x10F0"

text \<open>Fields, counted from the least significant bit.\<close>

definition MPIC128_GCF0_P_i :: nat where "MPIC128_GCF0_P_i = 29"
definition MPIC128_GCF0_R_i :: nat where "MPIC128_GCF0_R_i = 31"
definition MPIC128_VITC_CRB_i :: nat where "MPIC128_VITC_CRB_i = 0"
definition MPIC128_VITC_MCB_i :: nat where "MPIC128_VITC_MCB_i = 8"
definition MPIC128_VP_VEC_i :: nat where "MPIC128_VP_VEC_i = 0"
definition MPIC128_VP_PRI_i :: nat where "MPIC128_VP_PRI_i = 16"
definition MPIC128_VP_S_i :: nat where "MPIC128_VP_S_i = 22"
definition MPIC128_VP_POL_i :: nat where "MPIC128_VP_POL_i = 23"
definition MPIC128_VP_ACT_i :: nat where "MPIC128_VP_ACT_i = 30"
definition MPIC128_VP_MSK_i :: nat where "MPIC128_VP_MSK_i = 31"

definition FIELD_MASK32 :: "nat \<Rightarrow> nat \<Rightarrow> u32" where "FIELD_MASK32 i n = push_bit i (NOT (push_bit n 0xFFFFFFFF))"

definition MPIC128_PRIOR_0 :: u32 where "MPIC128_PRIOR_0 = 0"
definition MPIC128_PRIOR_1 :: int where "MPIC128_PRIOR_1 = 1"
definition MPIC128_PRIOR_UND :: u32 where "MPIC128_PRIOR_UND = 16"
definition MPIC128_XADDR_ERR :: u32 where "MPIC128_XADDR_ERR = 0xFFFFFFFF"
definition MPIC128_INTERRUPT_SOURCE_MAX :: int where "MPIC128_INTERRUPT_SOURCE_MAX = 127"
definition MPIC128_INTERRUPT_TIMER_MAX :: int where "MPIC128_INTERRUPT_TIMER_MAX = 131"
definition MPIC128_INTERRUPT_IPID_MAX :: int where "MPIC128_INTERRUPT_IPID_MAX = 135"
definition MPIC128_IPI_0 :: int where "MPIC128_IPI_0 = 132"
definition RUMBOOT_IRQ_TYPE_CRITICAL :: int where "RUMBOOT_IRQ_TYPE_CRITICAL = 5"
definition RUMBOOT_IRQ_TYPE_MACHINECHECK :: int where "RUMBOOT_IRQ_TYPE_MACHINECHECK = 6"

definition MPIC128_GET_TI_BY_INTERRUPT_NUMBER :: "int \<Rightarrow> u32" where
  "MPIC128_GET_TI_BY_INTERRUPT_NUMBER irq = of_int irq AND 3"

section \<open>Operations\<close>

text \<open>Both loops of the driver read a register until a bit of it is clear; the last value is the result.\<close>

partial_function (option) dcr_wait_clear :: "'d ppc \<Rightarrow> u32 \<Rightarrow> nat \<Rightarrow> 'd \<Rightarrow> (u32 \<times> 'd) option" where
  "dcr_wait_clear ppc addr i d =
     (let (v, d) = dcr_read ppc addr d
      in if v AND BIT i \<noteq> 0 then dcr_wait_clear ppc addr i d else Some (v, d))"

definition mpic128_reset :: "'d ppc \<Rightarrow> u32 \<Rightarrow> 'd \<Rightarrow> 'd option" where
  "mpic128_reset ppc base0 d =
     (let (v, d) = dcr_read ppc (base0 + MPIC128_GCF0) d;
          d = dcr_write ppc (base0 + MPIC128_GCF0) (v OR BIT MPIC128_GCF0_R_i) d
      in map_option snd (dcr_wait_clear ppc (base0 + MPIC128_GCF0) MPIC128_GCF0_R_i d))"

definition mpic128_pass_through_disable :: "'d ppc \<Rightarrow> u32 \<Rightarrow> 'd \<Rightarrow> 'd" where
  "mpic128_pass_through_disable ppc base0 d =
     (let (v, d) = dcr_read ppc (base0 + MPIC128_GCF0) d
      in dcr_write ppc (base0 + MPIC128_GCF0) (v OR BIT MPIC128_GCF0_P_i) d)"

definition mpic128_set_interrupt_borders :: "'d ppc \<Rightarrow> u32 \<Rightarrow> u32 \<Rightarrow> u32 \<Rightarrow> 'd \<Rightarrow> 'd option" where
  "mpic128_set_interrupt_borders ppc base0 mc_border cr_border d =
     (if \<not> mc_border \<ge> cr_border then None
      else Some (dcr_write ppc (base0 + MPIC128_VITC)
             (push_bit MPIC128_VITC_MCB_i mc_border OR push_bit MPIC128_VITC_CRB_i cr_border) d))"

definition mpic128_init :: "'d ppc \<Rightarrow> u32 \<Rightarrow> 'd \<Rightarrow> 'd option" where
  "mpic128_init ppc base0 d =
     (case mpic128_reset ppc base0 d of
        None \<Rightarrow> None
      | Some d \<Rightarrow>
          let d = mpic128_pass_through_disable ppc base0 d
          in case mpic128_set_interrupt_borders ppc base0 MPIC128_PRIOR_UND MPIC128_PRIOR_UND d of
               None \<Rightarrow> None
             | Some d \<Rightarrow> Some (dcr_write ppc (base0 + MPIC128_CTP_PR) MPIC128_PRIOR_0 d))"

text \<open>\<open>SPR_CSRR1\<close>, the number of a register of the core, is the argument \<open>csrr1\<close>.\<close>

definition mpic128_begin :: "'d ppc \<Rightarrow> u32 \<Rightarrow> u32 \<Rightarrow> int \<Rightarrow> int \<times> 'd \<Rightarrow> (u32 \<times> int \<times> 'd) option" where
  "mpic128_begin ppc base0 csrr1 num td =
     (let (spv, d) = dcr_read ppc (base0 + MPIC128_SPV) (snd td);
          (ack, d) = dcr_read ppc (base0 + MPIC128_IAR_PR) d
      in if ack \<noteq> spv then Some (ack, RUMBOOT_IRQ_TYPE_MACHINECHECK, d)
         else
           let (ack, d) = dcr_read ppc (base0 + MPIC128_CIAR_PR) d
           in if ack \<noteq> spv then
                let (v, d) = ppc_spr_read ppc csrr1 d
                in Some (ack, RUMBOOT_IRQ_TYPE_CRITICAL, ppc_msr_write ppc v d)
              else
                let (ack, d) = dcr_read ppc (base0 + MPIC128_NCIAR_PR) d
                in Some (ack, fst td, d))"

definition mpic128_end :: "'d ppc \<Rightarrow> u32 \<Rightarrow> int \<Rightarrow> int \<times> 'd \<Rightarrow> (int \<times> 'd) option" where
  "mpic128_end ppc base0 irq td =
     (let (spv, d) = dcr_read ppc (base0 + MPIC128_SPV) (snd td)
      in if of_int irq \<noteq> spv then
           if fst td = RUMBOOT_IRQ_TYPE_MACHINECHECK then Some (fst td, dcr_write ppc (base0 + MPIC128_EOI_PR) 0 d)
           else if fst td = RUMBOOT_IRQ_TYPE_CRITICAL then Some (fst td, dcr_write ppc (base0 + MPIC128_CEOI_PR) 0 d)
           else Some (fst td, dcr_write ppc (base0 + MPIC128_NCEOI_PR) 0 d)
         else Some (fst td, d))"

definition mpic128_get_interrupt_vpaddr_by_num :: "int \<Rightarrow> u32" where
  "mpic128_get_interrupt_vpaddr_by_num irq =
     (if irq \<le> MPIC128_INTERRUPT_SOURCE_MAX then MPIC128_VP (of_int irq)
      else if irq \<le> MPIC128_INTERRUPT_TIMER_MAX then MPIC128_TVP (MPIC128_GET_TI_BY_INTERRUPT_NUMBER irq)
      else if irq \<le> MPIC128_INTERRUPT_IPID_MAX then MPIC128_IVP (MPIC128_GET_TI_BY_INTERRUPT_NUMBER irq)
      else MPIC128_XADDR_ERR)"

definition mpic128_get_interrupt_dstaddr_by_num :: "int \<Rightarrow> u32" where
  "mpic128_get_interrupt_dstaddr_by_num irq =
     (if irq \<le> MPIC128_INTERRUPT_SOURCE_MAX then MPIC128_DST (of_int irq)
      else if irq \<le> MPIC128_INTERRUPT_TIMER_MAX then MPIC128_TDST (MPIC128_GET_TI_BY_INTERRUPT_NUMBER irq)
      else MPIC128_XADDR_ERR)"

definition mpic128_mask_int :: "'d ppc \<Rightarrow> u32 \<Rightarrow> 'd \<Rightarrow> 'd" where
  "mpic128_mask_int ppc vp_addr d =
     (let (v, d) = dcr_read ppc vp_addr d in dcr_write ppc vp_addr (v OR BIT MPIC128_VP_MSK_i) d)"

definition mpic128_unmask_int :: "'d ppc \<Rightarrow> u32 \<Rightarrow> 'd \<Rightarrow> 'd" where
  "mpic128_unmask_int ppc vp_addr d =
     (let (v, d) = dcr_read ppc vp_addr d in dcr_write ppc vp_addr (v AND NOT (BIT MPIC128_VP_MSK_i)) d)"

definition mpic128_is_unmasked_int :: "'d ppc \<Rightarrow> u32 \<Rightarrow> 'd \<Rightarrow> bool \<times> 'd" where
  "mpic128_is_unmasked_int ppc vp_addr d =
     (let (vpvalue, d) = dcr_read ppc vp_addr d
      in (if vpvalue AND BIT MPIC128_VP_MSK_i \<noteq> 0 then False else True, d))"

definition enable_mpic128_vp_modify :: "'d ppc \<Rightarrow> u32 \<Rightarrow> 'd \<Rightarrow> (u32 \<times> 'd) option" where
  "enable_mpic128_vp_modify ppc vp_addr d =
     (let (vpvalue, d) = dcr_read ppc vp_addr d
      in if \<not> vpvalue AND BIT MPIC128_VP_MSK_i \<noteq> 0 \<or> vpvalue AND BIT MPIC128_VP_ACT_i \<noteq> 0
         then dcr_wait_clear ppc vp_addr MPIC128_VP_ACT_i (mpic128_mask_int ppc vp_addr d)
         else Some (vpvalue, d))"

definition mpic128_setup_interrupt_source :: "u32 \<Rightarrow> u32 \<Rightarrow> u32" where
  "mpic128_setup_interrupt_source vpvalue sense_polarity =
     (vpvalue AND NOT (FIELD_MASK32 MPIC128_VP_S_i 1 OR FIELD_MASK32 MPIC128_VP_POL_i 1)) OR sense_polarity"

definition mpic128_setup_vp :: "u32 \<Rightarrow> int \<Rightarrow> int \<Rightarrow> u32" where
  "mpic128_setup_vp vpvalue interrupt_number priority =
     (vpvalue AND NOT (FIELD_MASK32 MPIC128_VP_PRI_i 4 OR FIELD_MASK32 MPIC128_VP_VEC_i 8))
       OR (push_bit MPIC128_VP_PRI_i (of_int priority) OR push_bit MPIC128_VP_VEC_i (of_int interrupt_number))"

text \<open>\<open>Processor0\<close> is 0.\<close>

definition mpic128_setup_ext_interrupt :: "'d ppc \<Rightarrow> u32 \<Rightarrow> int \<Rightarrow> u32 \<Rightarrow> 'd \<Rightarrow> (u32 \<times> 'd) option" where
  "mpic128_setup_ext_interrupt ppc base0 irq sense_polarity d =
     (let interrupt_vpaddr = mpic128_get_interrupt_vpaddr_by_num irq
      in if interrupt_vpaddr \<noteq> MPIC128_XADDR_ERR then
           let vpaddr = base0 + interrupt_vpaddr
           in case enable_mpic128_vp_modify ppc vpaddr d of
                None \<Rightarrow> None
              | Some (vpvalue, d) \<Rightarrow>
                  let interrupt_dstaddr = mpic128_get_interrupt_dstaddr_by_num irq;
                      d = (if interrupt_dstaddr \<noteq> MPIC128_XADDR_ERR
                           then dcr_write ppc (base0 + interrupt_dstaddr) (BIT 0) d else d);
                      vpvalue = mpic128_setup_vp vpvalue irq MPIC128_PRIOR_1;
                      vpvalue = (if irq \<le> MPIC128_INTERRUPT_SOURCE_MAX
                                 then mpic128_setup_interrupt_source vpvalue sense_polarity else vpvalue)
                  in Some (interrupt_vpaddr, dcr_write ppc vpaddr vpvalue d)
         else Some (MPIC128_XADDR_ERR, d))"

definition mpic128_generate_swint :: "'d ppc \<Rightarrow> u32 \<Rightarrow> int \<Rightarrow> 'd \<Rightarrow> 'd option" where
  "mpic128_generate_swint ppc base0 irq d =
     (if irq = MPIC128_IPI_0 then Some (dcr_write ppc (base0 + MPIC128_IPID_PR) (BIT 0) d) else None)"

definition mpic128_configure :: "'d ppc \<Rightarrow> u32 \<Rightarrow> int \<Rightarrow> u32 \<Rightarrow> bool \<Rightarrow> 'd \<Rightarrow> 'd option" where
  "mpic128_configure ppc base0 irq flags enable d =
     (case mpic128_setup_ext_interrupt ppc base0 irq flags d of
        None \<Rightarrow> None
      | Some (interrupt_vpaddr, d) \<Rightarrow>
          Some (if interrupt_vpaddr \<noteq> MPIC128_XADDR_ERR \<and> enable
                then mpic128_unmask_int ppc (base0 + interrupt_vpaddr) d else d))"

definition mpic128_adjust_priority :: "'d ppc \<Rightarrow> u32 \<Rightarrow> int \<Rightarrow> int \<Rightarrow> 'd \<Rightarrow> 'd option" where
  "mpic128_adjust_priority ppc base0 irq priority d =
     (let interrupt_vpaddr = mpic128_get_interrupt_vpaddr_by_num irq
      in if interrupt_vpaddr \<noteq> MPIC128_XADDR_ERR then
           let vpaddr = base0 + interrupt_vpaddr;
               (enabled, d) = mpic128_is_unmasked_int ppc vpaddr d
           in case enable_mpic128_vp_modify ppc vpaddr d of
                None \<Rightarrow> None
              | Some (vpvalue, d) \<Rightarrow>
                  let interrupt_dstaddr = mpic128_get_interrupt_dstaddr_by_num irq;
                      d = (if interrupt_dstaddr \<noteq> MPIC128_XADDR_ERR
                           then dcr_write ppc (base0 + interrupt_dstaddr) (BIT 0) d else d);
                      vpvalue = mpic128_setup_vp vpvalue irq priority;
                      d = dcr_write ppc vpaddr vpvalue d
                  in Some (if enabled then mpic128_unmask_int ppc vpaddr d else d)
         else Some d)"

definition mpic128_irq_ctl :: "'d ppc \<Rightarrow> u32 \<Rightarrow> u32 \<Rightarrow> 'd irq_controller" where
  "mpic128_irq_ctl ppc base0 csrr1 =
     \<lparr>ctl_first = 0, ctl_last = MPIC128_INTERRUPT_IPID_MAX, ctl_init = mpic128_init ppc base0,
      ctl_configure = mpic128_configure ppc base0, ctl_begin = mpic128_begin ppc base0 csrr1,
      ctl_end = mpic128_end ppc base0, ctl_generate_swint = mpic128_generate_swint ppc base0,
      ctl_slave_save = None, ctl_slave_restore = None,
      ctl_adjust_priority = Some (mpic128_adjust_priority ppc base0),
      ctl_priority_max = 15, ctl_priority_min = 0, ctl_priority_default = 1\<rparr>"

definition rumboot_irq_register_mpic128 ::
  "'d ppc \<Rightarrow> u32 \<Rightarrow> u32 \<Rightarrow> ('d, 'h) irq_sys \<Rightarrow> ('d, 'h) irq_sys option" where
  "rumboot_irq_register_mpic128 ppc base0 csrr1 s = rumboot_irq_register_controller (mpic128_irq_ctl ppc base0 csrr1) s"

text \<open>Timers. \<open>conf\<close> is the address of the register that selects their clock. \<open>None\<close> is a failed assertion.\<close>

definition mpic128_timer_init :: "'d ppc \<Rightarrow> u32 \<Rightarrow> u32 \<Rightarrow> u32 \<Rightarrow> 'd \<Rightarrow> 'd option" where
  "mpic128_timer_init ppc conf base frequency d =
     (let (sys_conf0_reg, d) = dcr_read ppc conf d;
          d = dcr_write ppc conf ((sys_conf0_reg AND NOT (BIT 0)) OR frequency) d
      in if frequency = 0 then Some (dcr_write ppc (base + MPIC128_TFR) (25 * 1000 * 1000) d)
         else if frequency = 1 then Some (dcr_write ppc (base + MPIC128_TFR) ((25 * 1000 * 1000) div 2) d)
         else None)"

definition mpic128_start_timer :: "'d ppc \<Rightarrow> u32 \<Rightarrow> u32 \<Rightarrow> u32 \<Rightarrow> 'd \<Rightarrow> 'd" where
  "mpic128_start_timer ppc base timer_num base_count d =
     dcr_write ppc (base + MPIC128_TBC timer_num) (base_count AND 0x7FFFFFFF)
       (dcr_write ppc (base + MPIC128_TBC timer_num) ((base_count AND 0x7FFFFFFF) OR BIT 31) d)"

definition mpic128_stop_timer :: "'d ppc \<Rightarrow> u32 \<Rightarrow> u32 \<Rightarrow> 'd \<Rightarrow> 'd" where
  "mpic128_stop_timer ppc base timer_num d = dcr_write ppc (base + MPIC128_TBC timer_num) (BIT 31) d"

section \<open>Lines\<close>

definition vp_addrs :: "u32 set" where "vp_addrs = mpic128_get_interrupt_vpaddr_by_num ` {0..135}"

text \<open>
  What the registers of the controller do: a vector/priority register keeps what is written to it, except
  that the hardware owns its activity bit, and no other access changes it but a write to \<open>GCF0\<close>,
  which can reset the controller. \<open>vp\<close> is the content of these registers.
\<close>

definition mpic_device :: "'d ppc \<Rightarrow> u32 \<Rightarrow> ('d \<Rightarrow> u32 \<Rightarrow> u32) \<Rightarrow> bool" where
  "mpic_device ppc base0 vp \<longleftrightarrow>
     (\<forall>a d. vp (snd (ppc_dcr_read ppc a d)) = vp d) \<and>
     (\<forall>a d. a \<in> vp_addrs \<longrightarrow> fst (ppc_dcr_read ppc (base0 + a) d) AND NOT (BIT 30) = vp d a AND NOT (BIT 30)) \<and>
     (\<forall>a v d. a \<in> vp_addrs \<longrightarrow> vp (ppc_dcr_write ppc (base0 + a) v d) = (vp d)(a := v)) \<and>
     (\<forall>a v d. a \<notin> vp_addrs \<longrightarrow> a \<noteq> MPIC128_GCF0 \<longrightarrow> vp (ppc_dcr_write ppc (base0 + a) v d) = vp d)"

definition mpic_enabled :: "('d \<Rightarrow> u32 \<Rightarrow> u32) \<Rightarrow> 'd \<Rightarrow> int set" where
  "mpic_enabled vp d = {i. 0 \<le> i \<and> i \<le> 135 \<and> \<not> bit (vp d (mpic128_get_interrupt_vpaddr_by_num i)) 31}"

definition vp_nat :: "int \<Rightarrow> nat" where
  "vp_nat i = (if i \<le> 127 then 0x10000 + 32 * nat i else if i \<le> 131 then 0x1120 + 64 * nat (i - 128)
     else 0x10A0 + 16 * nat (i - 132))"

lemma unat_line: "0 \<le> i \<Longrightarrow> i \<le> 127 \<Longrightarrow> unat (c + 32 * of_int i :: u32) = unat c + 32 * nat i"
  if "unat c \<le> 0x20000" for c :: u32
proof -
  assume i: "0 \<le> i" "i \<le> 127"
  then have u: "unat (of_int i :: u32) = nat i" by (simp add: unat_eq_nat_uint uint_word_of_int)
  have "unat (32 * of_int i :: u32) = 32 * nat i" using i by (simp add: unat_word_ariths u)
  then show ?thesis using i that by (simp add: unat_word_ariths)
qed

lemma later_line:
  assumes "128 \<le> i" "i \<le> 135"
  obtains "i = 128" | "i = 129" | "i = 130" | "i = 131" | "i = 132" | "i = 133" | "i = 134" | "i = (135 :: int)"
  using assms by force

lemmas mpic_line_defs = mpic128_get_interrupt_vpaddr_by_num_def mpic128_get_interrupt_dstaddr_by_num_def
  MPIC128_INTERRUPT_SOURCE_MAX_def MPIC128_INTERRUPT_TIMER_MAX_def MPIC128_INTERRUPT_IPID_MAX_def
  MPIC128_GET_TI_BY_INTERRUPT_NUMBER_def MPIC128_VP_def MPIC128_TVP_def MPIC128_IVP_def MPIC128_DST_def
  MPIC128_TDST_def MPIC128_XADDR_ERR_def

lemma unat_vpaddr:
  assumes "0 \<le> i" "i \<le> 135" shows "unat (mpic128_get_interrupt_vpaddr_by_num i) = vp_nat i"
proof (cases "i \<le> 127")
  case True
  then show ?thesis using assms unat_line [of "0x10000" i] by (simp add: mpic_line_defs vp_nat_def)
next
  case False
  then have "128 \<le> i" by simp
  then show ?thesis using assms(2) by (cases rule: later_line) (simp_all add: mpic_line_defs vp_nat_def)
qed

lemma vp_nat_inj: "0 \<le> i \<Longrightarrow> i \<le> 135 \<Longrightarrow> 0 \<le> j \<Longrightarrow> j \<le> 135 \<Longrightarrow> vp_nat i = vp_nat j \<Longrightarrow> i = j"
  unfolding vp_nat_def by (auto split: if_splits)

lemma vpaddr_inj:
  assumes "0 \<le> i" "i \<le> 135" "0 \<le> j" "j \<le> 135"
  shows "mpic128_get_interrupt_vpaddr_by_num i = mpic128_get_interrupt_vpaddr_by_num j \<longleftrightarrow> i = j"
  using assms unat_vpaddr vp_nat_inj by metis

lemma vp_addrs_iff: "a \<in> vp_addrs \<longleftrightarrow> (\<exists>i. 0 \<le> i \<and> i \<le> 135 \<and> unat a = vp_nat i)"
  unfolding vp_addrs_def using unat_vpaddr by (auto simp: image_iff word_unat_eq_iff)

lemma vpaddr_in: "0 \<le> i \<Longrightarrow> i \<le> 135 \<Longrightarrow> mpic128_get_interrupt_vpaddr_by_num i \<in> vp_addrs"
  by (simp add: vp_addrs_def)

lemma dstaddr_out:
  assumes "0 \<le> i" "mpic128_get_interrupt_dstaddr_by_num i \<noteq> MPIC128_XADDR_ERR"
  shows "mpic128_get_interrupt_dstaddr_by_num i \<notin> vp_addrs" "mpic128_get_interrupt_dstaddr_by_num i \<noteq> MPIC128_GCF0"
proof -
  have le: "i \<le> 131" using assms(2) by (simp add: mpic_line_defs split: if_splits)
  have "unat (mpic128_get_interrupt_dstaddr_by_num i) =
      (if i \<le> 127 then 0x10010 + 32 * nat i else 0x1130 + 64 * nat (i - 128))"
  proof (cases "i \<le> 127")
    case True
    then show ?thesis using assms(1) unat_line [of "0x10010" i] by (simp add: mpic_line_defs)
  next
    case False
    then have "128 \<le> i" "i \<le> 135" using le by simp_all
    then show ?thesis using le by (cases rule: later_line) (simp_all add: mpic_line_defs)
  qed
  moreover have "16 + 64 * x \<noteq> 64 * y" for x y :: nat by presburger
  ultimately show "mpic128_get_interrupt_dstaddr_by_num i \<notin> vp_addrs" "mpic128_get_interrupt_dstaddr_by_num i \<noteq> MPIC128_GCF0"
    using assms(1) le unfolding vp_addrs_iff by (auto simp: vp_nat_def MPIC128_GCF0_def word_unat_eq_iff split: if_splits) presburger?
qed

text \<open>The fields of a vector/priority register.\<close>

definition vp_vector :: "u32 \<Rightarrow> u32" where "vp_vector v = v AND 0xFF"
definition vp_priority :: "u32 \<Rightarrow> u32" where "vp_priority v = drop_bit MPIC128_VP_PRI_i v AND 0xF"
definition vp_sense :: "u32 \<Rightarrow> u32" where "vp_sense v = v AND (BIT MPIC128_VP_S_i OR BIT MPIC128_VP_POL_i)"

text \<open>Words that agree outside the given bits.\<close>

definition agree_but :: "nat set \<Rightarrow> u32 \<Rightarrow> u32 \<Rightarrow> bool" where
  "agree_but S v w \<longleftrightarrow> (\<forall>n < 32. n \<notin> S \<longrightarrow> bit v n = bit w n)"

lemma agree_but_trans: "agree_but S u v \<Longrightarrow> agree_but T v w \<Longrightarrow> agree_but (S \<union> T) u w"
  by (auto simp: agree_but_def)

lemma agree_but_bit: "agree_but S v w \<Longrightarrow> n < 32 \<Longrightarrow> n \<notin> S \<Longrightarrow> bit v n = bit w n"
  by (auto simp: agree_but_def)

lemma agree_but_30: "v AND NOT (BIT 30) = w AND NOT (BIT 30) \<longleftrightarrow> agree_but {30} v w"
  by (auto simp: agree_but_def bit_eq_iff bit_simps bit_BIT)

lemma bit_small_int: "0 \<le> i \<Longrightarrow> i < 2 ^ k \<Longrightarrow> bit (of_int i :: u32) n \<Longrightarrow> n < k"
proof -
  assume i: "0 \<le> i" "i < 2 ^ k" and b: "bit (of_int i :: u32) n"
  have "bit i n" using b by (simp add: bit_word_of_int_iff)
  moreover have "take_bit k i = i" using i by (simp add: take_bit_int_eq_self)
  ultimately show "n < k" by (metis bit_take_bit_iff)
qed

lemma bit_field_mask: "bit (FIELD_MASK32 i k) n \<longleftrightarrow> i \<le> n \<and> n < i + k \<and> n < 32"
proof -
  have "(0xFFFFFFFF :: u32) = NOT 0" by simp
  then have "FIELD_MASK32 i k = push_bit i (NOT (push_bit k (NOT 0)))" by (simp only: FIELD_MASK32_def)
  then show ?thesis by (auto simp: bit_simps)
qed

lemma setup_vp_bits:
  assumes "0 \<le> i" "i \<le> 255" "0 \<le> p" "p \<le> 15" "n < 32"
  shows "bit (mpic128_setup_vp v i p) n \<longleftrightarrow>
    (if n < 8 then bit (of_int i :: u32) n else if 16 \<le> n \<and> n < 20 then bit (of_int p :: u32) (n - 16) else bit v n)"
proof -
  have "bit (of_int i :: u32) n \<Longrightarrow> n < 8" "bit (of_int p :: u32) (n - 16) \<Longrightarrow> n - 16 < 4"
    using bit_small_int [of i 8 n] bit_small_int [of p 4 "n - 16"] assms by simp_all
  then show ?thesis using assms(5)
    by (auto simp: mpic128_setup_vp_def bit_simps bit_field_mask MPIC128_VP_PRI_i_def MPIC128_VP_VEC_i_def)
qed

lemma vp_vectorI:
  assumes "\<And>n. n < 8 \<Longrightarrow> bit m n = bit (of_int i :: u32) n" "0 \<le> i" "i \<le> 255" shows "vp_vector m = of_int i"
proof (rule bit_word_eqI)
  fix n assume "n < LENGTH(32)"
  show "bit (vp_vector m) n = bit (of_int i :: u32) n"
    using assms(1) [of n] bit_small_int [of i 8 n] assms(2,3) by (auto simp: vp_vector_def FF_eq_mask bit_simps)
qed

lemma vp_priorityI:
  assumes "\<And>n. n < 4 \<Longrightarrow> bit m (n + 16) = bit (of_int p :: u32) n" "0 \<le> p" "p \<le> 15" shows "vp_priority m = of_int p"
proof (rule bit_word_eqI)
  fix n assume "n < LENGTH(32)"
  have F: "(0xF :: u32) = mask 4" by (simp add: mask_eq_exp_minus_1)
  show "bit (vp_priority m) n = bit (of_int p :: u32) n"
    using assms(1) [of n] bit_small_int [of p 4 n] assms(2,3) unfolding vp_priority_def F
    by (auto simp: MPIC128_VP_PRI_i_def bit_simps add.commute)
qed

lemma vp_senseI: "bit m 22 = bit v 22 \<Longrightarrow> bit m 23 = bit v 23 \<Longrightarrow> vp_sense m = vp_sense v"
  by (rule bit_word_eqI) (auto simp: vp_sense_def MPIC128_VP_S_i_def MPIC128_VP_POL_i_def bit_simps bit_BIT)

lemma sense_flags:
  assumes "flags AND NOT (BIT 22 OR BIT 23) = 0"
  shows "bit flags n \<Longrightarrow> n = 22 \<or> n = 23" "vp_sense flags = flags"
proof -
  have "\<not> bit (flags AND NOT (BIT 22 OR BIT 23)) n" for n unfolding assms by simp
  then have b: "bit flags n \<Longrightarrow> n = 22 \<or> n = 23" for n
    using bit_imp_le_length [of flags n] by (auto simp: bit_simps bit_BIT)
  then show "bit flags n \<Longrightarrow> n = 22 \<or> n = 23" .
  show "vp_sense flags = flags"
    by (rule bit_word_eqI) (use b in \<open>auto simp: vp_sense_def MPIC128_VP_S_i_def MPIC128_VP_POL_i_def bit_simps bit_BIT\<close>)
qed

lemma setup_source_bits: "bit (mpic128_setup_interrupt_source v flags) n \<longleftrightarrow>
    (if n = 22 \<or> n = 23 then bit flags n else bit v n \<or> bit flags n)"
  using bit_imp_le_length [of v n]
  by (auto simp: mpic128_setup_interrupt_source_def bit_simps bit_field_mask MPIC128_VP_S_i_def MPIC128_VP_POL_i_def)


lemma vp_read: "mpic_device ppc base0 vp \<Longrightarrow> vp (snd (ppc_dcr_read ppc a d)) = vp d"
  by (simp add: mpic_device_def)

lemma vp_value: "mpic_device ppc base0 vp \<Longrightarrow> a \<in> vp_addrs \<Longrightarrow> agree_but {30} (fst (ppc_dcr_read ppc (base0 + a) d)) (vp d a)"
  unfolding mpic_device_def agree_but_30 [symmetric] by blast

lemma vp_write: "mpic_device ppc base0 vp \<Longrightarrow> a \<in> vp_addrs \<Longrightarrow> vp (ppc_dcr_write ppc (base0 + a) v d) = (vp d)(a := v)"
  by (simp add: mpic_device_def)

lemma vp_other: "mpic_device ppc base0 vp \<Longrightarrow> a \<notin> vp_addrs \<Longrightarrow> a \<noteq> MPIC128_GCF0 \<Longrightarrow> vp (ppc_dcr_write ppc (base0 + a) v d) = vp d"
  by (simp add: mpic_device_def)

lemma wait_clear_vp:
  assumes dev: "mpic_device ppc base0 vp"
    and "dcr_wait_clear ppc (base0 + a) i d = Some (v, d')" "a \<in> vp_addrs"
  shows "vp d' = vp d \<and> agree_but {30} v (vp d a) \<and> \<not> bit v i"
proof -
  have "ppc = ppc \<longrightarrow> base0 + a = base0 + a \<longrightarrow>
    vp (snd (v, d')) = vp d \<and> agree_but {30} (fst (v, d')) (vp d a) \<and> \<not> bit (fst (v, d')) i"
  proof (rule dcr_wait_clear.raw_induct [of "\<lambda>p addr i d r. p = ppc \<longrightarrow> addr = base0 + a \<longrightarrow>
      vp (snd r) = vp d \<and> agree_but {30} (fst r) (vp d a) \<and> \<not> bit (fst r) i", OF _ assms(2)], goal_cases)
    case (1 f p addr i d r)
    obtain w d1 where w: "ppc_dcr_read ppc (base0 + a) d = (w, d1)" by force
    have "vp d1 = vp d" "agree_but {30} w (vp d a)"
      using vp_read [OF dev, of "base0 + a" d] vp_value [OF dev assms(3), of d] w by simp_all
    moreover obtain u e where r: "r = (u, e)" by force
    moreover have "if bit w i then f p addr i d1 = Some (u, e) else (w, d1) = (u, e)"
      if "p = ppc" "addr = base0 + a" using 1(2) w that r by (simp add: dcr_read_def and_BIT split: if_splits)
    ultimately show ?case using 1(1) [of p addr i d1 "(u, e)"] by (cases "bit w i") auto
  qed
  then show ?thesis by simp
qed

text \<open>Preparing a register: it ends masked and inactive.\<close>

lemma vp_modify:
  assumes dev: "mpic_device ppc base0 vp"
    and "enable_mpic128_vp_modify ppc (base0 + a) d = Some (v, d')" "a \<in> vp_addrs"
  shows "\<exists>m. vp d' = (vp d)(a := m) \<and> agree_but {30, 31} m (vp d a) \<and> bit m 31 \<and> agree_but {30} v m"
proof -
  obtain w d1 where w: "ppc_dcr_read ppc (base0 + a) d = (w, d1)" by force
  have r: "vp d1 = vp d" "agree_but {30} w (vp d a)"
    using vp_read [OF dev, of "base0 + a" d] vp_value [OF dev assms(3), of d] w by simp_all
  show ?thesis
  proof (cases "bit w 31 \<and> \<not> bit w 30")
    case True
    then have "v = w" "d' = d1"
      using assms(2) w by (simp_all add: enable_mpic128_vp_modify_def dcr_read_def and_BIT
          MPIC128_VP_MSK_i_def MPIC128_VP_ACT_i_def)
    then show ?thesis using r True agree_but_bit [OF r(2), of 31]
      by (intro exI [of _ "vp d a"]) (simp add: agree_but_def)
  next
    case False
    obtain u d2 where u: "ppc_dcr_read ppc (base0 + a) d1 = (u, d2)" by force
    have ur: "vp d2 = vp d" "agree_but {30} u (vp d a)"
      using vp_read [OF dev, of "base0 + a" d1] vp_value [OF dev assms(3), of d1] u r(1) by simp_all
    let ?m = "u OR BIT 31"
    have wait: "dcr_wait_clear ppc (base0 + a) 30 (ppc_dcr_write ppc (base0 + a) ?m d2) = Some (v, d')"
      using False assms(2) w u by (auto simp: enable_mpic128_vp_modify_def dcr_read_def dcr_write_def and_BIT
          mpic128_mask_int_def MPIC128_VP_MSK_i_def MPIC128_VP_ACT_i_def split: if_splits)
    from wait_clear_vp [OF dev this assms(3)] vp_write [OF dev assms(3)] ur
    have "vp d' = (vp d)(a := ?m)" "agree_but {30} v ?m" by simp_all
    moreover have "agree_but {30, 31} ?m (vp d a)"
      using ur(2) by (auto simp: agree_but_def bit_simps bit_BIT)
    ultimately show ?thesis by (intro exI [of _ ?m]) (simp add: bit_simps bit_BIT)
  qed
qed

lemma vp_unmask:
  assumes dev: "mpic_device ppc base0 vp"
    and "a \<in> vp_addrs"
  shows "\<exists>m. vp (mpic128_unmask_int ppc (base0 + a) d) = (vp d)(a := m) \<and> agree_but {30, 31} m (vp d a) \<and> \<not> bit m 31"
proof -
  obtain w d1 where w: "ppc_dcr_read ppc (base0 + a) d = (w, d1)" by force
  have "vp d1 = vp d" "agree_but {30} w (vp d a)"
    using vp_read [OF dev, of "base0 + a" d] vp_value [OF dev assms(2), of d] w by simp_all
  then show ?thesis using w vp_write [OF dev assms(2), of _ d1]
    by (intro exI [of _ "w AND NOT (BIT 31)"])
       (auto simp: mpic128_unmask_int_def dcr_read_def dcr_write_def agree_but_def MPIC128_VP_MSK_i_def bit_simps bit_BIT)
qed

lemma configure_vp:
  assumes dev: "mpic_device ppc base0 vp"
    and "mpic128_configure ppc base0 i flags on d = Some d'" "0 \<le> i" "i \<le> 135"
  defines "a \<equiv> mpic128_get_interrupt_vpaddr_by_num i"
  shows "\<exists>m. vp d' = (vp d)(a := m) \<and> (bit m 31 \<longleftrightarrow> \<not> on) \<and>
    (flags AND NOT (BIT 22 OR BIT 23) = 0 \<longrightarrow>
       vp_vector m = of_int i \<and> vp_priority m = 1 \<and> vp_sense m = (if i \<le> 127 then flags else vp_sense (vp d a)))"
proof -
  have a: "a \<in> vp_addrs" "a \<noteq> MPIC128_XADDR_ERR"
    using vpaddr_in [OF assms(3,4)] unat_vpaddr [OF assms(3,4)] assms(3,4)
    by (auto simp: a_def vp_nat_def MPIC128_XADDR_ERR_def split: if_splits)
  obtain v d1 where m: "enable_mpic128_vp_modify ppc (base0 + a) d = Some (v, d1)"
    using assms(2) a(2) by (auto simp: mpic128_configure_def mpic128_setup_ext_interrupt_def Let_def a_def split: option.splits)
  obtain x where x: "vp d1 = (vp d)(a := x)" "agree_but {30, 31} x (vp d a)" "bit x 31" "agree_but {30} v x"
    using vp_modify [OF dev m a(1)] by blast
  let ?dst = "mpic128_get_interrupt_dstaddr_by_num i"
  let ?d2 = "if ?dst \<noteq> MPIC128_XADDR_ERR then dcr_write ppc (base0 + ?dst) (BIT 0) d1 else d1"
  let ?v = "mpic128_setup_vp v i MPIC128_PRIOR_1"
  let ?w = "if i \<le> MPIC128_INTERRUPT_SOURCE_MAX then mpic128_setup_interrupt_source ?v flags else ?v"
  have d2: "vp ?d2 = vp d1" using dstaddr_out [OF assms(3)] vp_other [OF dev] by (simp add: dcr_write_def)
  have d': "d' = (if on then mpic128_unmask_int ppc (base0 + a) (dcr_write ppc (base0 + a) ?w ?d2)
      else dcr_write ppc (base0 + a) ?w ?d2)"
    using assms(2) a(2) m
    by (simp add: mpic128_configure_def mpic128_setup_ext_interrupt_def Let_def a_def [symmetric])
  have wv: "vp (dcr_write ppc (base0 + a) ?w ?d2) = (vp d)(a := ?w)"
    using vp_write [OF dev a(1)] d2 x(1) by (simp add: dcr_write_def)
  have sv: "bit ?v n \<longleftrightarrow> (if n < 8 then bit (of_int i :: u32) n else if 16 \<le> n \<and> n < 20 then n = 16 else bit v n)"
    if "n < 32" for n
    using setup_vp_bits [of i 1 n v] assms(3,4) that by (auto simp: MPIC128_PRIOR_1_def bit_1_iff)
  have w31: "bit ?w 31"
    using x(3) agree_but_bit [OF x(4), of 31] sv [of 31] by (auto simp: setup_source_bits)
  obtain m where mm: "vp d' = (vp d)(a := m)" "agree_but {30, 31} m ?w" "bit m 31 \<longleftrightarrow> \<not> on"
  proof (cases on)
    case True
    then show thesis using vp_unmask [OF dev a(1), of "dcr_write ppc (base0 + a) ?w ?d2"] d' wv that by auto
  next
    case False
    then show thesis using that [of ?w] d' wv w31 by (simp add: agree_but_def)
  qed
  have bm: "bit m n = bit ?w n" if "n < 30" for n using agree_but_bit [OF mm(2), of n] that by simp
  have old: "bit v n = bit (vp d a) n" if "n < 30" for n
    using agree_but_bit [OF agree_but_trans [OF x(4,2)], of n] that by simp
  show ?thesis
  proof (intro exI [of _ m] conjI impI)
    assume f: "flags AND NOT (BIT 22 OR BIT 23) = 0"
    note fb = sense_flags(1) [OF f]
    show "vp_vector m = of_int i"
      using assms(3,4) by (intro vp_vectorI) (auto simp: bm sv setup_source_bits dest: fb)
    have "bit m (n + 16) = bit (of_int 1 :: u32) n" if "n < 4" for n
      using that by (auto simp: bm sv setup_source_bits bit_1_iff dest: fb)
    from vp_priorityI [OF this] show "vp_priority m = 1" by simp
    have "vp_sense m = vp_sense (if i \<le> 127 then flags else vp d a)"
      by (rule vp_senseI) (auto simp: bm sv setup_source_bits old MPIC128_INTERRUPT_SOURCE_MAX_def)
    then show "vp_sense m = (if i \<le> 127 then flags else vp_sense (vp d a))"
      using sense_flags(2) [OF f] by simp
  qed (use mm in simp_all)
qed

lemma adjust_vp:
  assumes dev: "mpic_device ppc base0 vp"
    and "mpic128_adjust_priority ppc base0 i p d = Some d'" "0 \<le> i" "i \<le> 135"
  defines "a \<equiv> mpic128_get_interrupt_vpaddr_by_num i"
  shows "\<exists>m. vp d' = (vp d)(a := m) \<and> (bit m 31 \<longleftrightarrow> bit (vp d a) 31) \<and>
    (0 \<le> p \<and> p \<le> 15 \<longrightarrow> vp_vector m = of_int i \<and> vp_priority m = of_int p \<and> vp_sense m = vp_sense (vp d a))"
proof -
  have a: "a \<in> vp_addrs" "a \<noteq> MPIC128_XADDR_ERR"
    using vpaddr_in [OF assms(3,4)] unat_vpaddr [OF assms(3,4)] assms(3,4)
    by (auto simp: a_def vp_nat_def MPIC128_XADDR_ERR_def split: if_splits)
  obtain w d0 where w: "ppc_dcr_read ppc (base0 + a) d = (w, d0)" by force
  have r: "vp d0 = vp d" "bit w 31 = bit (vp d a) 31"
    using vp_read [OF dev, of "base0 + a" d] agree_but_bit [OF vp_value [OF dev a(1), of d], of 31] w by simp_all
  let ?on = "\<not> bit w 31"
  have un: "mpic128_is_unmasked_int ppc (base0 + a) d = (?on, d0)"
    using w by (simp add: mpic128_is_unmasked_int_def dcr_read_def and_BIT MPIC128_VP_MSK_i_def)
  obtain v d1 where m: "enable_mpic128_vp_modify ppc (base0 + a) d0 = Some (v, d1)"
    using assms(2) a(2) un by (auto simp: mpic128_adjust_priority_def Let_def a_def [symmetric] split: option.splits)
  obtain x where x: "vp d1 = (vp d)(a := x)" "agree_but {30, 31} x (vp d a)" "bit x 31" "agree_but {30} v x"
    using vp_modify [OF dev m a(1)] r(1) by auto
  let ?dst = "mpic128_get_interrupt_dstaddr_by_num i"
  let ?d2 = "if ?dst \<noteq> MPIC128_XADDR_ERR then dcr_write ppc (base0 + ?dst) (BIT 0) d1 else d1"
  let ?w = "mpic128_setup_vp v i p"
  have d2: "vp ?d2 = vp d1" using dstaddr_out [OF assms(3)] vp_other [OF dev] by (simp add: dcr_write_def)
  have d': "d' = (if ?on then mpic128_unmask_int ppc (base0 + a) (dcr_write ppc (base0 + a) ?w ?d2)
      else dcr_write ppc (base0 + a) ?w ?d2)"
    using assms(2) a(2) m un by (simp add: mpic128_adjust_priority_def Let_def a_def [symmetric])
  have wv: "vp (dcr_write ppc (base0 + a) ?w ?d2) = (vp d)(a := ?w)"
    using vp_write [OF dev a(1)] d2 x(1) by (simp add: dcr_write_def)
  have w31: "bit ?w 31"
    using x(3) agree_but_bit [OF x(4), of 31]
    by (simp add: mpic128_setup_vp_def bit_simps bit_field_mask MPIC128_VP_PRI_i_def MPIC128_VP_VEC_i_def)
  obtain m where mm: "vp d' = (vp d)(a := m)" "agree_but {30, 31} m ?w" "bit m 31 \<longleftrightarrow> bit w 31"
  proof (cases "bit w 31")
    case False
    then show thesis using vp_unmask [OF dev a(1), of "dcr_write ppc (base0 + a) ?w ?d2"] d' wv that by auto
  next
    case True
    then show thesis using that [of ?w] d' wv w31 by (simp add: agree_but_def)
  qed
  have bm: "bit m n = bit ?w n" if "n < 30" for n using agree_but_bit [OF mm(2), of n] that by simp
  have old: "bit v n = bit (vp d a) n" if "n < 30" for n
    using agree_but_bit [OF agree_but_trans [OF x(4,2)], of n] that by simp
  show ?thesis
  proof (intro exI [of _ m] conjI impI)
    assume pr: "0 \<le> p \<and> p \<le> 15"
    have sv: "bit ?w n \<longleftrightarrow> (if n < 8 then bit (of_int i :: u32) n
        else if 16 \<le> n \<and> n < 20 then bit (of_int p :: u32) (n - 16) else bit v n)" if "n < 32" for n
      using setup_vp_bits [of i p n v] assms(3,4) pr that by simp
    show "vp_vector m = of_int i" using assms(3,4) by (intro vp_vectorI) (auto simp: bm sv)
    show "vp_priority m = of_int p" using pr by (intro vp_priorityI) (auto simp: bm sv)
    show "vp_sense m = vp_sense (vp d a)" by (rule vp_senseI) (auto simp: bm sv old)
  qed (use mm r in simp_all)
qed

lemma enabled_update:
  assumes "0 \<le> i" "i \<le> 135" "vp d' = (vp d)(mpic128_get_interrupt_vpaddr_by_num i := m)"
  shows "mpic_enabled vp d' = (if bit m 31 then mpic_enabled vp d - {i} else insert i (mpic_enabled vp d))"
  using assms vpaddr_inj [OF _ _ assms(1,2)] by (auto simp: mpic_enabled_def)

lemma mpic_irq_lines:
  assumes dev: "mpic_device ppc base0 vp"
  shows "irq_lines (mpic128_irq_ctl ppc base0 csrr1) (mpic_enabled vp) {0..135}"
proof (unfold_locales, goal_cases)
  case (1 i flags on d d')
  then have c: "mpic128_configure ppc base0 i flags on d = Some d'" by (simp add: mpic128_irq_ctl_def)
  show ?case
  proof (cases "i \<le> 135")
    case True
    obtain m where "vp d' = (vp d)(mpic128_get_interrupt_vpaddr_by_num i := m)" "bit m 31 \<longleftrightarrow> \<not> on"
      using configure_vp [OF dev c 1(1) True] by blast
    from enabled_update [of i vp, OF 1(1) True this(1)] this(2) show ?thesis using 1(1) True by simp
  next
    case False
    then have "mpic128_get_interrupt_vpaddr_by_num i = MPIC128_XADDR_ERR" by (simp add: mpic_line_defs)
    then show ?thesis using c False by (simp add: mpic128_configure_def mpic128_setup_ext_interrupt_def)
  qed
next
  case (2 i adjust p d d')
  then have c: "mpic128_adjust_priority ppc base0 i p d = Some d'" by (auto simp: mpic128_irq_ctl_def)
  show ?case
  proof (cases "i \<le> 135")
    case True
    have i: "i \<in> mpic_enabled vp d \<longleftrightarrow> \<not> bit (vp d (mpic128_get_interrupt_vpaddr_by_num i)) 31"
      using True 2(1) by (simp add: mpic_enabled_def)
    obtain m where "vp d' = (vp d)(mpic128_get_interrupt_vpaddr_by_num i := m)"
      "bit m 31 \<longleftrightarrow> bit (vp d (mpic128_get_interrupt_vpaddr_by_num i)) 31"
      using adjust_vp [OF dev c 2(1) True] by blast
    from enabled_update [of i vp, OF 2(1) True this(1)] this(2) i show ?thesis by auto
  next
    case False
    then have "mpic128_get_interrupt_vpaddr_by_num i = MPIC128_XADDR_ERR" by (simp add: mpic_line_defs)
    then show ?thesis using c by (simp add: mpic128_adjust_priority_def)
  qed
qed

text \<open>A device with these registers: writes are kept, a read of an acknowledge register yields the vector
  at the head of its queue, or the spurious one.\<close>

record mpic_chip =
  chip_regs :: "u32 \<Rightarrow> u32"
  chip_pending :: "u32 \<Rightarrow> u32 list"
  chip_service :: "u32 \<Rightarrow> u32 list"

definition mpic_chip_read :: "u32 \<Rightarrow> mpic_chip \<Rightarrow> u32 \<times> mpic_chip" where
  "mpic_chip_read a d =
     (if a = MPIC128_SPV then (0xFF, d)
      else if a \<in> {MPIC128_IAR_PR, MPIC128_CIAR_PR, MPIC128_NCIAR_PR} then
        (case chip_pending d a of
           [] \<Rightarrow> (0xFF, d)
         | v # vs \<Rightarrow> (v AND 0x7F, d\<lparr>chip_pending := (chip_pending d)(a := vs),
             chip_service := (chip_service d)(a + 0x10 := (v AND 0x7F) # chip_service d (a + 0x10))\<rparr>))
      else (chip_regs d a AND NOT (BIT MPIC128_VP_ACT_i), d))"

definition mpic_chip_write :: "u32 \<Rightarrow> u32 \<Rightarrow> mpic_chip \<Rightarrow> mpic_chip" where
  "mpic_chip_write a v d =
     (if a \<in> {MPIC128_EOI_PR, MPIC128_CEOI_PR, MPIC128_NCEOI_PR}
      then d\<lparr>chip_service := (chip_service d)(a := tl (chip_service d a))\<rparr>
      else if a = MPIC128_GCF0 then d\<lparr>chip_regs := (chip_regs d)(a := v AND NOT (BIT 31))\<rparr>
      else d\<lparr>chip_regs := (chip_regs d)(a := v)\<rparr>)"

definition mpic_chip_ppc :: "mpic_chip ppc" where
  "mpic_chip_ppc = \<lparr>ppc_dcr_read = mpic_chip_read, ppc_dcr_write = mpic_chip_write,
     ppc_spr_read = \<lambda>_ d. (0, d), ppc_msr_write = \<lambda>_ d. d\<rparr>"

lemma not_vp_addrs: "unat a < 0x10A0 \<Longrightarrow> a \<notin> vp_addrs"
  by (auto simp: vp_addrs_iff vp_nat_def split: if_splits)

lemma spv_out: "MPIC128_SPV \<notin> vp_addrs"
  by (auto simp: vp_addrs_iff vp_nat_def MPIC128_SPV_def split: if_splits)

definition chip_vp :: "mpic_chip \<Rightarrow> u32 \<Rightarrow> u32" where
  "chip_vp d a = (if a \<in> vp_addrs then chip_regs d a else 0)"

lemma mpic_chip_device: "mpic_device mpic_chip_ppc 0 chip_vp"
proof -
  have n: "MPIC128_IAR_PR \<notin> vp_addrs" "MPIC128_CIAR_PR \<notin> vp_addrs" "MPIC128_NCIAR_PR \<notin> vp_addrs"
    "MPIC128_EOI_PR \<notin> vp_addrs" "MPIC128_CEOI_PR \<notin> vp_addrs" "MPIC128_NCEOI_PR \<notin> vp_addrs"
    "MPIC128_GCF0 \<notin> vp_addrs" and spv: "MPIC128_SPV \<notin> vp_addrs"
    using spv_out by (simp_all add: not_vp_addrs MPIC128_IAR_PR_def MPIC128_CIAR_PR_def MPIC128_NCIAR_PR_def
        MPIC128_EOI_PR_def MPIC128_CEOI_PR_def MPIC128_NCEOI_PR_def MPIC128_GCF0_def)
  have r: "chip_vp (snd (mpic_chip_read a d)) = chip_vp d" for a d
    by (simp add: mpic_chip_read_def chip_vp_def fun_eq_iff split: list.splits)
  have "fst (mpic_chip_read a d) AND NOT (BIT 30) = chip_vp d a AND NOT (BIT 30)" if "a \<in> vp_addrs" for a d
    using n spv that by (auto simp: mpic_chip_read_def chip_vp_def MPIC128_VP_ACT_i_def and.assoc)
  moreover have "chip_vp (mpic_chip_write a v d) = (if a \<in> vp_addrs then (chip_vp d)(a := v) else chip_vp d)" for a v d
    using n by (auto simp: mpic_chip_write_def chip_vp_def fun_eq_iff)
  ultimately show ?thesis by (simp add: mpic_device_def mpic_chip_ppc_def r)
qed

interpretation mpic_chip: irq_lines "mpic128_irq_ctl mpic_chip_ppc 0 0" "mpic_enabled chip_vp" "{0..135}"
  by (rule mpic_irq_lines [OF mpic_chip_device])

section \<open>Properties\<close>

lemmas mpic_ctl_sel = mpic128_irq_ctl_def irq_controller.simps

text \<open>C31: Enabling a line through the interrupt subsystem programs exactly the register of that line: its
  vector becomes the number of the line, its priority the one of the table entry moved into the range 0 to 15 (the default 1 for 0), its sense and polarity the flags of the entry, its mask is clear,
  and no vector/priority register of another line changes.\<close>

theorem mpic_line_programmed:
  fixes s :: "('d, 'h) irq_sys"
  assumes dev: "mpic_device ppc base0 vp"
    and ctl: "rumboot_irq_controller_by_irq i s = Some (mpic128_irq_ctl ppc base0 csrr1)" and i: "0 \<le> i" "i \<le> 135"
    and e: "irq_entry_at (rumboot_irq_table_get s) i s = Some e" "ie_flags e AND NOT (BIT 22 OR BIT 23) = 0"
    and run: "rumboot_irq_enable i s = Some s'"
  shows "\<exists>m. vp (irq_dev s') = (vp (irq_dev s))(mpic128_get_interrupt_vpaddr_by_num i := m) \<and> \<not> bit m 31 \<and>
    vp_vector m = of_int i \<and>
    vp_priority m = of_int (if ie_priority e = 0 then 1 else max 0 (min 15 (ie_priority e))) \<and>
    (i \<le> 127 \<longrightarrow> vp_sense m = ie_flags e)"
proof -
  let ?ctl = "mpic128_irq_ctl ppc base0 csrr1" and ?a = "mpic128_get_interrupt_vpaddr_by_num i"
  obtain d r where d: "mpic128_configure ppc base0 i (ie_flags e) True (irq_dev s) = Some d"
    "rumboot_irq_priority_adjust (rumboot_irq_table_get s) i (ie_priority e) (s\<lparr>irq_dev := d\<rparr>) = Some (r, s')"
    using run ctl e(1) by (auto simp: rumboot_irq_enable_def rumboot_irq_table_fetch_def Let_def mpic_ctl_sel split: option.splits if_splits)
  obtain m where m: "vp d = (vp (irq_dev s))(?a := m)" "\<not> bit m 31" "vp_sense m = ie_flags e \<or> 127 < i"
    using configure_vp [OF dev d(1) i] e(2) by (auto split: if_splits)
  have c: "rumboot_irq_controller_by_irq i (s\<lparr>irq_dev := d\<rparr>) = Some ?ctl"
    using ctl by (simp add: rumboot_irq_controller_by_irq_def)
  have cp: "clamp_priority ?ctl (ie_priority e) = (if ie_priority e = 0 then 1 else max 0 (min 15 (ie_priority e)))"
    by (simp add: clamp_priority_def mpic_ctl_sel)
  have adj: "mpic128_adjust_priority ppc base0 i (clamp_priority ?ctl (ie_priority e)) d = Some (irq_dev s')"
    using d(2)
  proof (rule adjustE)
    fix t ctl' es d2
    assume h: "rumboot_irq_table_fetch (rumboot_irq_table_get s) (s\<lparr>irq_dev := d\<rparr>) = Some t"
      "rumboot_irq_controller_by_irq i (s\<lparr>irq_dev := d\<rparr>) = Some ctl'"
      "s' = s\<lparr>irq_dev := d, irq_tables := (irq_tables (s\<lparr>irq_dev := d\<rparr>))(t \<mapsto> es[nat i := (es ! nat i)
         \<lparr>ie_priority := clamp_priority ctl' (ie_priority e)\<rparr>]), irq_dev := d2\<rparr>"
      "if t = rumboot_irq_table_get (s\<lparr>irq_dev := d\<rparr>) \<and> ctl_adjust_priority ctl' \<noteq> None
       then the (ctl_adjust_priority ctl') (i - ctl_first ctl') (clamp_priority ctl' (ie_priority e))
              (irq_dev (s\<lparr>irq_dev := d\<rparr>)) = Some d2
       else d2 = irq_dev (s\<lparr>irq_dev := d\<rparr>)"
    have "t = rumboot_irq_table_get (s\<lparr>irq_dev := d\<rparr>)" "ctl' = ?ctl"
      using h(1,2) c by (auto simp: rumboot_irq_table_fetch_def rumboot_irq_table_get_def Let_def split: if_splits)
    then show ?thesis using h(3,4) by (simp add: mpic_ctl_sel)
  qed
  from adjust_vp [OF dev this i] m(1) cp obtain m2 where m2: "vp (irq_dev s') = (vp d)(?a := m2)"
    "bit m2 31 \<longleftrightarrow> bit m 31" "vp_vector m2 = of_int i"
    "vp_priority m2 = of_int (clamp_priority ?ctl (ie_priority e))" "vp_sense m2 = vp_sense m"
    by (auto split: if_splits)
  then show ?thesis using m cp by (intro exI [of _ m2]) auto
qed

lemma mask_7F: "(0x7F :: u32) = mask 7"
  by (simp add: mask_eq_exp_minus_1)

definition demo_mpic :: mpic_chip where
  "demo_mpic = \<lparr>chip_regs = (\<lambda>_. BIT 31), chip_pending = (\<lambda>_. [])(MPIC128_CIAR_PR := [5]),
     chip_service = \<lambda>_. []\<rparr>"

definition demo_mpic_sys :: "(mpic_chip, unit) irq_sys" where
  "demo_mpic_sys =
     \<lparr>irq_heaps = \<lparr>num_heaps = 0, heaps = []\<rparr>, irq_ctl_dev = [Some (mpic128_irq_ctl mpic_chip_ppc 0 0)],
      num_irq_controllers = 1, irq_handler_table = 0x100, irq_def_hndlr = None, irq_def_arg = 0,
      irq_exception_hndlr = None, irq_context_counter = 0, irq_type = 0,
      irq_tables = [0x100 \<mapsto> replicate 10 \<lparr>ie_handler = Some (), ie_arg = 0, ie_flags = BIT 23, ie_priority = 9, ie_count = 0\<rparr>],
      irq_dev = demo_mpic\<rparr>"

lemma demo_mpic_lookup:
  "rumboot_irq_controller_by_irq 5 demo_mpic_sys = Some (mpic128_irq_ctl mpic_chip_ppc 0 0)"
  "rumboot_irq_controller_by_id 0 demo_mpic_sys = Some (Some (mpic128_irq_ctl mpic_chip_ppc 0 0))"
  "irq_entry_at (rumboot_irq_table_get demo_mpic_sys) 5 demo_mpic_sys =
     Some \<lparr>ie_handler = Some (), ie_arg = 0, ie_flags = BIT 23, ie_priority = 9, ie_count = 0\<rparr>"
  by (simp_all add: rumboot_irq_controller_by_irq_def rumboot_irq_controller_by_id_def demo_mpic_sys_def
      controller_search.simps [of 0] mpic_ctl_sel MPIC128_INTERRUPT_IPID_MAX_def irq_entry_at_def rumboot_irq_table_get_def)

text \<open>Activating a table enables the lines that have a handler.\<close>

lemma mpic_activation_enables_lines:
  fixes s :: "('d, 'h) irq_sys"
  assumes "mpic_device ppc base0 vp"
    and "\<And>j. 0 \<le> j \<Longrightarrow> j < int nirqs \<Longrightarrow> rumboot_irq_controller_by_irq j s = Some (mpic128_irq_ctl ppc base0 csrr1)"
    and "tbl \<noteq> 0" "rumboot_irq_table_activate nirqs tbl s = Some s'" "nirqs \<le> 136"
  shows "mpic_enabled vp (irq_dev s') = mpic_enabled vp (irq_dev s) \<union>
    {j. 0 \<le> j \<and> j < int nirqs \<and> (\<exists>e. irq_entry_at tbl j s = Some e \<and> ie_handler e \<noteq> None)}"
  using irq_lines.table_activate_lines [OF mpic_irq_lines [OF assms(1)] _ assms(2-4)] assms(5)
  by (auto simp: mpic_ctl_sel)

text \<open>With no interrupt in service the waiting loops end at once.\<close>

definition mpic_idle :: "'d ppc \<Rightarrow> bool" where
  "mpic_idle ppc \<longleftrightarrow> (\<forall>a d. \<not> bit (fst (ppc_dcr_read ppc a d)) MPIC128_VP_ACT_i)"

lemma idle_modify: "mpic_idle ppc \<Longrightarrow> enable_mpic128_vp_modify ppc a d \<noteq> None"
proof -
  assume idle: "mpic_idle ppc"
  have "dcr_wait_clear ppc a MPIC128_VP_ACT_i d = Some (dcr_read ppc a d)" for d
  proof (cases "ppc_dcr_read ppc a d")
    case (Pair v d1)
    then have "\<not> bit v MPIC128_VP_ACT_i" using idle by (metis fst_conv mpic_idle_def)
    then show ?thesis using Pair by (subst dcr_wait_clear.simps) (simp add: dcr_read_def and_BIT)
  qed
  then show ?thesis by (simp add: enable_mpic128_vp_modify_def split: prod.split)
qed

lemma idle_configure: "mpic_idle ppc \<Longrightarrow> mpic128_configure ppc base0 i flags on d \<noteq> None"
  using idle_modify [of ppc "base0 + mpic128_get_interrupt_vpaddr_by_num i" d]
  by (auto simp: mpic128_configure_def mpic128_setup_ext_interrupt_def Let_def split: option.splits)

lemma idle_adjust: "mpic_idle ppc \<Longrightarrow> mpic128_adjust_priority ppc base0 i p d \<noteq> None"
  using idle_modify [of ppc "base0 + mpic128_get_interrupt_vpaddr_by_num i"]
  by (auto simp: mpic128_adjust_priority_def Let_def split: option.splits prod.splits) (metis option.distinct(1))

lemma idle_enable:
  assumes "mpic_idle ppc" "rumboot_irq_controller_by_irq i s = Some (mpic128_irq_ctl ppc base0 csrr1)"
    "rumboot_irq_table_get s \<noteq> 0" "irq_entry_at (rumboot_irq_table_get s) i s = Some e"
  shows "rumboot_irq_enable i s \<noteq> None"
proof -
  obtain d where d: "mpic128_configure ppc base0 i (ie_flags e) True (irq_dev s) = Some d"
    using idle_configure [OF assms(1)] by fast
  let ?s = "s\<lparr>irq_dev := d\<rparr>"
  have f: "rumboot_irq_table_fetch t ?s = Some (if t = 0 then rumboot_irq_table_get s else t)" for t
    using assms(3) by (simp add: rumboot_irq_table_fetch_def rumboot_irq_table_get_def Let_def)
  have g: "irq_entry_at (rumboot_irq_table_get s) i ?s = Some e"
    "rumboot_irq_controller_by_irq i ?s = Some (mpic128_irq_ctl ppc base0 csrr1)"
    "rumboot_irq_table_fetch 0 s = Some (rumboot_irq_table_get s)"
    using assms by (simp_all add: irq_entry_at_def rumboot_irq_controller_by_irq_def rumboot_irq_table_fetch_def)
  have "rumboot_irq_priority_adjust (rumboot_irq_table_get s) i (ie_priority e) ?s \<noteq> None"
  proof -
    obtain s2 where s2: "irq_entry_set (rumboot_irq_table_get s) i
        (e\<lparr>ie_priority := clamp_priority (mpic128_irq_ctl ppc base0 csrr1) (ie_priority e)\<rparr>) ?s = Some s2"
      using entry_set_defined [OF g(1)] by blast
    show ?thesis
      unfolding rumboot_irq_priority_adjust_def f g prod.case option.case Let_def
        clamp_priority_eq [unfolded Let_def] using s2 assms(3) f idle_adjust [OF assms(1)] 
      by (simp add: g mpic_ctl_sel)
  qed
  then show ?thesis using assms(2,4) d g(3) by (auto simp: rumboot_irq_enable_def mpic_ctl_sel split: option.splits)
qed

theorem mpic_line_programmed_witness:
  "\<exists>s'. rumboot_irq_enable 5 demo_mpic_sys = Some s' \<and> (\<exists>m. chip_vp (irq_dev s') 0x100A0 = m \<and>
     \<not> bit m 31 \<and> vp_vector m = 5 \<and> vp_priority m = 9 \<and> vp_sense m = BIT 23)"
proof -
  have idle: "mpic_idle mpic_chip_ppc"
    by (auto simp: mpic_idle_def mpic_chip_ppc_def mpic_chip_read_def MPIC128_VP_ACT_i_def bit_simps bit_BIT FF_eq_mask mask_7F
        split: list.splits)
  have t: "rumboot_irq_table_get demo_mpic_sys \<noteq> 0" by (simp add: rumboot_irq_table_get_def demo_mpic_sys_def)
  obtain s' where s': "rumboot_irq_enable 5 demo_mpic_sys = Some s'"
    using idle_enable [OF idle demo_mpic_lookup(1) t demo_mpic_lookup(3)] by blast
  have "ie_flags \<lparr>ie_handler = Some (), ie_arg = 0, ie_flags = BIT 23, ie_priority = 9, ie_count = 0\<rparr> AND
      NOT (BIT 22 OR BIT 23) = 0" by (rule bit_word_eqI) (auto simp: bit_simps bit_BIT)
  from mpic_line_programmed [OF mpic_chip_device demo_mpic_lookup(1) _ _ demo_mpic_lookup(3) this s'] s'
  show ?thesis by (auto simp: mpic_line_defs)
qed

text \<open>
  What acknowledging does: reading the acknowledge register of a class takes the vector that is pending there into
  service, or yields the spurious vector; writing the end-of-interrupt register of a class ends
  what was taken last. \<open>svc\<close> are the vectors in service, by the address of that register.
\<close>

definition mpic_class :: "u32 \<Rightarrow> u32 \<Rightarrow> bool" where
  "mpic_class ar er \<longleftrightarrow> (ar, er) \<in> {(MPIC128_IAR_PR, MPIC128_EOI_PR), (MPIC128_CIAR_PR, MPIC128_CEOI_PR),
     (MPIC128_NCIAR_PR, MPIC128_NCEOI_PR)}"

definition mpic_service :: "'d ppc \<Rightarrow> u32 \<Rightarrow> u32 \<Rightarrow> ('d \<Rightarrow> u32 \<Rightarrow> u32 list) \<Rightarrow> bool" where
  "mpic_service ppc base0 spv svc \<longleftrightarrow>
     (\<forall>d. fst (ppc_dcr_read ppc (base0 + MPIC128_SPV) d) = spv \<and> svc (snd (ppc_dcr_read ppc (base0 + MPIC128_SPV) d)) = svc d) \<and>
     (\<forall>ar er d v d'. mpic_class ar er \<longrightarrow> ppc_dcr_read ppc (base0 + ar) d = (v, d') \<longrightarrow>
        svc d' = (if v = spv then svc d else (svc d)(er := v # svc d er))) \<and>
     (\<forall>ar er d v. mpic_class ar er \<longrightarrow> svc (ppc_dcr_write ppc (base0 + er) v d) = (svc d)(er := tl (svc d er))) \<and>
     (\<forall>r d. svc (snd (ppc_spr_read ppc r d)) = svc d) \<and> (\<forall>v d. svc (ppc_msr_write ppc v d) = svc d)"

lemma begin_end_service:
  assumes dev: "mpic_service ppc base0 spv svc"
    and b: "mpic128_begin ppc base0 csrr1 num (t, d) = Some (irq, t1, d1)"
    and t: "t \<noteq> RUMBOOT_IRQ_TYPE_MACHINECHECK" "t \<noteq> RUMBOOT_IRQ_TYPE_CRITICAL"
    and same: "svc d2 = svc d1" and e: "mpic128_end ppc base0 (sint irq) (t1, d2) = Some (t3, d3)"
  shows "svc d3 = svc d"
proof -
  note d = dev [unfolded mpic_service_def]
  have spv: "fst (ppc_dcr_read ppc (base0 + MPIC128_SPV) x) = spv" "svc (snd (ppc_dcr_read ppc (base0 + MPIC128_SPV) x)) = svc x"
    for x using d by blast+
  have ack: "svc d' = (if v = spv then svc x else (svc x)(er := v # svc x er))"
    if "ppc_dcr_read ppc (base0 + ar) x = (v, d')"
      "mpic_class ar er" for ar er x v d' using d that by blast
  have eoi: "svc (ppc_dcr_write ppc (base0 + er) v x) = (svc x)(er := tl (svc x er))"
    if "mpic_class ar er" for ar er v x using d that by blast
  have cl: "mpic_class MPIC128_IAR_PR MPIC128_EOI_PR" "mpic_class MPIC128_CIAR_PR MPIC128_CEOI_PR"
    "mpic_class MPIC128_NCIAR_PR MPIC128_NCEOI_PR" by (simp_all add: mpic_class_def)
  have "svc (ppc_msr_write ppc v x) = svc x" "svc (snd (ppc_spr_read ppc r x)) = svc x" for v r x
    using d by blast+
  then have rest: "svc (ppc_msr_write ppc (fst (ppc_spr_read ppc r x)) (snd (ppc_spr_read ppc r x))) = svc x" for r x
    by simp
  have fin: "svc d3 = (if irq = spv then svc d1 else
      (svc d1)(er := tl (svc d1 er)))"
    if "er = (if t1 = RUMBOOT_IRQ_TYPE_MACHINECHECK then MPIC128_EOI_PR
              else if t1 = RUMBOOT_IRQ_TYPE_CRITICAL then MPIC128_CEOI_PR else MPIC128_NCEOI_PR)" for er
  proof (cases "ppc_dcr_read ppc (base0 + MPIC128_SPV) d2")
    case (Pair v x)
    then have "v = spv" "svc x = svc d1" using spv [of d2] same by simp_all
    then show ?thesis using e Pair that eoi [OF cl(1)] eoi [OF cl(2)] eoi [OF cl(3)]
      by (auto simp: mpic128_end_def dcr_read_def dcr_write_def split: if_splits)
  qed
  obtain s0 x0 where r0: "ppc_dcr_read ppc (base0 + MPIC128_SPV) d = (s0, x0)" by force
  obtain a1 x1 where r1: "ppc_dcr_read ppc (base0 + MPIC128_IAR_PR) x0 = (a1, x1)" by force
  obtain a2 x2 where r2: "ppc_dcr_read ppc (base0 + MPIC128_CIAR_PR) x1 = (a2, x2)" by force
  obtain a3 x3 where r3: "ppc_dcr_read ppc (base0 + MPIC128_NCIAR_PR) x2 = (a3, x3)" by force
  have s0: "s0 = spv" "svc x0 = svc d" using spv [of d] r0 by simp_all
  have v1: "svc x1 = (if a1 = spv then svc d else (svc d)(MPIC128_EOI_PR := a1 # svc d MPIC128_EOI_PR))"
    using ack [OF r1 cl(1)] s0 by simp
  have v2: "svc x2 = (if a2 = spv then svc x1 else (svc x1)(MPIC128_CEOI_PR := a2 # svc x1 MPIC128_CEOI_PR))"
    using ack [OF r2 cl(2)] by simp
  have v3: "svc x3 = (if a3 = spv then svc x2 else (svc x2)(MPIC128_NCEOI_PR := a3 # svc x2 MPIC128_NCEOI_PR))"
    using ack [OF r3 cl(3)] by simp
  note types = RUMBOOT_IRQ_TYPE_MACHINECHECK_def RUMBOOT_IRQ_TYPE_CRITICAL_def
  note run = b [unfolded mpic128_begin_def dcr_read_def Let_def snd_conv fst_conv r0 r1 r2 r3 prod.case s0]
  consider "a1 \<noteq> spv" | "a1 = spv" "a2 \<noteq> spv" | "a1 = spv" "a2 = spv" by blast
  then show ?thesis
  proof cases
    case 1
    then have "irq = a1" "t1 = RUMBOOT_IRQ_TYPE_MACHINECHECK" "d1 = x1" using run by simp_all
    then show ?thesis using fin 1 v1 by simp
  next
    case 2
    then have "irq = a2" "t1 = RUMBOOT_IRQ_TYPE_CRITICAL" "svc d1 = svc x2"
      using run rest [of csrr1 x2] by (auto simp: case_prod_beta)
    then show ?thesis using fin 2 v1 v2 by (simp add: types)
  next
    case 3
    then have "irq = a3" "t1 = t" "d1 = x3" using run by simp_all
    then show ?thesis using fin 3 v1 v2 v3 t by simp
  qed
qed

lemma process_irqE:
  assumes "process_irq call nirqs num s = Some s'"
  obtains h arg s1 where "call h num arg s = Some s1" "irq_dev s' = irq_dev s1" "irq_type s' = irq_type s1"
proof -
  let ?tbl = "rumboot_irq_table_get s"
  let ?after = "\<lambda>s. if ?tbl \<noteq> 0 then case irq_entry_at ?tbl num s of None \<Rightarrow> None
     | Some e \<Rightarrow> irq_entry_set ?tbl num (e\<lparr>ie_count := ie_count e + 1\<rparr>) s else Some s"
  have after: "irq_dev y = irq_dev x \<and> irq_type y = irq_type x" if "?after x = Some y" for x y
    using that by (auto simp: irq_entry_set_def split: option.splits if_splits)
  have "\<exists>h arg s1. call h num arg s = Some s1 \<and> ?after s1 = Some s'"
    using assms unfolding process_irq_def Let_def by (simp split: if_splits option.splits) force+
  then show thesis using that after by blast
qed

text \<open>C30: Every interrupt that is acknowledged is ended, once, in the class it was taken from. Through the dispatch of
  an interrupt on this controller, with any handler that leaves the vectors in service and the
  type of the interrupt as it found them, the vectors in service afterwards are those before, be the interrupt a machine check, critical,
  normal or spurious.\<close>

theorem mpic_dispatch_balances_service:
  fixes s :: "('d, 'h) irq_sys"
  assumes dev: "mpic_service ppc base0 spv svc"
    and ctl: "rumboot_irq_controller_by_id (sint ctrl) s = Some (Some (mpic128_irq_ctl ppc base0 csrr1))"
    and call: "\<And>h num arg s s'. call h num arg s = Some s' \<Longrightarrow>
        svc (irq_dev s') = svc (irq_dev s) \<and> irq_type s' = irq_type (s :: ('d, 'h) irq_sys)"
    and run: "rumboot_irq_core_dispatch call xcall nirqs ctrl 1 num s = Some s'"
  shows "svc (irq_dev s') = svc (irq_dev s)"
proof -
  let ?s0 = "s\<lparr>irq_context_counter := irq_context_counter s + 1, irq_type := 1\<rparr>"
  obtain s1 where s1: "irq_serve call xcall nirqs (Some (mpic128_irq_ctl ppc base0 csrr1)) 1 num ?s0 = Some s1"
    "irq_dev s' = irq_dev s1"
    using run ctl by (auto simp: rumboot_irq_core_dispatch_def Let_def)
  obtain irq t d s2 t2 d2 where r: "mpic128_begin ppc base0 csrr1 num (1, irq_dev s) = Some (irq, t, d)"
    "process_irq call nirqs (sint irq) (?s0\<lparr>irq_type := t, irq_dev := d\<rparr>) = Some s2"
    "mpic128_end ppc base0 (sint irq) (irq_type s2, irq_dev s2) = Some (t2, d2)" "irq_dev s1 = d2"
    using s1(1) by (auto simp: irq_serve_def RUMBOOT_IRQ_TYPE_NORMAL_def mpic_ctl_sel split: option.splits prod.splits)
  have st: "svc (irq_dev s2) = svc d \<and> irq_type s2 = t"
  proof (rule process_irqE [OF r(2)])
    fix h arg s3 assume c: "call h (sint irq) arg (?s0\<lparr>irq_type := t, irq_dev := d\<rparr>) = Some s3"
      and e: "irq_dev s2 = irq_dev s3" "irq_type s2 = irq_type s3"
    have "svc (irq_dev s3) = svc (irq_dev (?s0\<lparr>irq_type := t, irq_dev := d\<rparr>)) \<and>
        irq_type s3 = irq_type (?s0\<lparr>irq_type := t, irq_dev := d\<rparr>)" by (rule call [OF c])
    then show ?thesis unfolding e by simp
  qed
  have "svc d2 = svc (irq_dev s)"
  proof (rule begin_end_service [OF dev r(1)])
    show "mpic128_end ppc base0 (sint irq) (t, irq_dev s2) = Some (t2, d2)" using r(3) st by simp
    show "svc (irq_dev s2) = svc d" using st by simp
  qed (simp_all add: RUMBOOT_IRQ_TYPE_MACHINECHECK_def RUMBOOT_IRQ_TYPE_CRITICAL_def)
  then show ?thesis by (simp only: s1(2) r(4))
qed

lemma mpic_chip_service: "mpic_service mpic_chip_ppc 0 0xFF chip_service"
proof -
  note regs = MPIC128_SPV_def MPIC128_IAR_PR_def MPIC128_CIAR_PR_def MPIC128_NCIAR_PR_def MPIC128_EOI_PR_def
    MPIC128_CEOI_PR_def MPIC128_NCEOI_PR_def MPIC128_GCF0_def
  have "\<not> bit (v AND 0x7F :: u32) 7" for v by (simp add: mask_7F bit_simps)
  moreover have "bit (0xFF :: u32) 7" by (simp add: FF_eq_mask bit_simps)
  ultimately have ne: "(v AND 0x7F :: u32) \<noteq> 0xFF" for v by metis
  have "chip_service d' = (if v = 0xFF then chip_service d else (chip_service d)(er := v # chip_service d er))"
    if "mpic_class ar er" "mpic_chip_read ar d = (v, d')" for ar er d v d'
    using that ne by (auto simp: mpic_class_def mpic_chip_read_def regs split: list.splits)
  moreover have "chip_service (mpic_chip_write er v d) = (chip_service d)(er := tl (chip_service d er))"
    if "mpic_class ar er" for ar er d v
    using that by (auto simp: mpic_class_def mpic_chip_write_def)
  ultimately show ?thesis
    by (simp add: mpic_service_def mpic_chip_ppc_def mpic_chip_read_def [of MPIC128_SPV])
qed

theorem mpic_dispatch_balances_service_witness:
  "\<exists>s'. rumboot_irq_core_dispatch (\<lambda>h num arg s. Some s) (\<lambda>h num name s. None) 10 0 1 0 demo_mpic_sys = Some s' \<and>
     chip_pending (irq_dev s') MPIC128_CIAR_PR = [] \<and> chip_service (irq_dev s') = (\<lambda>_. [])"
proof -
  note regs = MPIC128_SPV_def MPIC128_IAR_PR_def MPIC128_CIAR_PR_def MPIC128_NCIAR_PR_def MPIC128_EOI_PR_def
    MPIC128_CEOI_PR_def MPIC128_NCEOI_PR_def MPIC128_GCF0_def
  obtain s' where s': "rumboot_irq_core_dispatch (\<lambda>h num arg s. Some s) (\<lambda>h num name s. None) 10 0 1 0 demo_mpic_sys = Some s'"
    "chip_pending (irq_dev s') MPIC128_CIAR_PR = []"
    using demo_mpic_lookup(2)
    by (simp add: rumboot_irq_core_dispatch_def irq_serve_def mpic_ctl_sel mpic128_begin_def mpic128_end_def
        RUMBOOT_IRQ_TYPE_NORMAL_def RUMBOOT_IRQ_TYPE_CRITICAL_def RUMBOOT_IRQ_TYPE_MACHINECHECK_def
        process_irq_def check_irq_id_def mpic_chip_ppc_def mpic_chip_read_def mpic_chip_write_def dcr_read_def dcr_write_def regs
        rumboot_irq_table_get_def irq_entry_at_def irq_entry_set_def demo_mpic_sys_def demo_mpic_def Let_def)
  have "chip_service (irq_dev s') = chip_service (irq_dev demo_mpic_sys)"
    by (rule mpic_dispatch_balances_service [OF mpic_chip_service _ _ s'(1)])
       (use demo_mpic_lookup(2) in simp_all)
  then show ?thesis using s' by (auto simp: demo_mpic_sys_def demo_mpic_def)
qed

end
