(* ===== verification/Mdma_Chan.thy ===== *)
theory Mdma_Chan
  imports Malloc Hardware "HOL-Library.Monad_Syntax"
begin

text \<open>
  The library for channels of the MDMA controller, \<open>src/lib/drivers/mdma_chan_lib.c\<close> with
  \<open>include/devices/mdma_chan_api.h\<close>: channels, the transfer of a channel, the groups of a transfer
  and the nodes of a group, one descriptor in memory for each node. Objects are kept by their
  addresses in the state \<open>mdma_sys\<close>, with the heap they come from and the device \<open>'d\<close>, whose address
  space holds the registers and the descriptors. Address \<open>0\<close> is \<open>NULL\<close>. \<open>None\<close> is a panic, an access
  through a pointer that is not one, or a wait without an end. Enumerations are the integers they are
  in C, for the code checks them. The intrusive list of the groups of a transfer is the list of their
  addresses. Blocks that are atomic for interrupts are sequences here; debugging output is left out.
\<close>

section \<open>Constants\<close>

definition MDMA_DESC_OWNERSHIP :: u32 where "MDMA_DESC_OWNERSHIP = BIT 31"
definition MDMA_DESC_LINK :: u32 where "MDMA_DESC_LINK = BIT 30"
definition MDMA_DESC_INTERRUPT :: u32 where "MDMA_DESC_INTERRUPT = BIT 29"
definition MDMA_DESC_STOP :: u32 where "MDMA_DESC_STOP = BIT 28"
definition MDMA_DESC_INCREMENT :: u32 where "MDMA_DESC_INCREMENT = BIT 27"
definition MDMA_DESC_CUSTOM_W :: "u32 \<Rightarrow> u32" where "MDMA_DESC_CUSTOM_W x = push_bit 14 (x AND 0xFFF)"
definition MDMA_DESC_LENGTH :: "u32 \<Rightarrow> u32" where "MDMA_DESC_LENGTH x = x AND 0x3FFF"
definition MDMA_DESC_LENGTH_EXT :: "u32 \<Rightarrow> u32" where "MDMA_DESC_LENGTH_EXT x = x AND 0x3FFFFFF"
definition MDMA_LENGTH_LIMIT :: "bool \<Rightarrow> u32" where "MDMA_LENGTH_LIMIT ext = (if ext then 0x4000000 else 0x4000)"
definition MDMA_DESC_PITCH :: "u32 \<Rightarrow> u32" where "MDMA_DESC_PITCH x = push_bit 16 (x AND 0xFFFF)"
definition MDMA_DESC_STRLEN :: "u32 \<Rightarrow> u32" where "MDMA_DESC_STRLEN x = x AND 0xFFFF"
definition MDMA_STRLEN_LIMIT :: u32 where "MDMA_STRLEN_LIMIT = 0x10000"
definition MDMA_PITCH_LIMIT :: u32 where "MDMA_PITCH_LIMIT = 0x10000"
definition MDMA_ENABLE :: u32 where "MDMA_ENABLE = BIT 0"
definition MDMA_SUSPEND :: u32 where "MDMA_SUSPEND = BIT 0"
definition MDMA_CANCEL :: u32 where "MDMA_CANCEL = BIT 0"
definition MDMA_SETTINGS_DESC_KIND :: "u32 \<Rightarrow> u32" where "MDMA_SETTINGS_DESC_KIND x = x AND 0x3"
definition MDMA_SETTINGS_ADD_INFO :: u32 where "MDMA_SETTINGS_ADD_INFO = BIT 4"
definition MDMA_SETTINGS_DESC_GAP :: "u32 \<Rightarrow> u32" where "MDMA_SETTINGS_DESC_GAP x = push_bit 16 (x AND 0xFFFF)"

definition MDMA_STATUS_INT_DESC :: u32 where "MDMA_STATUS_INT_DESC = BIT 2"
definition MDMA_STATUS_BAD_DESC :: u32 where "MDMA_STATUS_BAD_DESC = BIT 3"
definition MDMA_STATUS_STOP_DESC :: u32 where "MDMA_STATUS_STOP_DESC = BIT 4"
definition MDMA_STATUS_DISCARD_DESC :: u32 where "MDMA_STATUS_DISCARD_DESC = BIT 5"
definition MDMA_STATUS_WAXI_ERR :: u32 where "MDMA_STATUS_WAXI_ERR = BIT 6"
definition MDMA_STATUS_AXI_ERR :: u32 where "MDMA_STATUS_AXI_ERR = BIT 7"
definition MDMA_STATUS_START_EVENT :: u32 where "MDMA_STATUS_START_EVENT = BIT 8"
definition MDMA_STATUS_IGNORE_EVENT :: u32 where "MDMA_STATUS_IGNORE_EVENT = BIT 9"
definition MDMA_STATE_CANCEL :: u32 where "MDMA_STATE_CANCEL = BIT 21"
definition MDMA_STATE_SUSPEND :: u32 where "MDMA_STATE_SUSPEND = BIT 22"
definition MDMA_SYNC_EVENT_SLAVE :: u32 where "MDMA_SYNC_EVENT_SLAVE = BIT 0"
definition MDMA_SYNC_EVENT_MASTER :: u32 where "MDMA_SYNC_EVENT_MASTER = BIT 8"

definition MDMA_GET_PRIOR :: "nat \<Rightarrow> u32 \<Rightarrow> u32" where "MDMA_GET_PRIOR i x = drop_bit (i mod 16 * 4) x AND 0xF"
definition MDMA_SET_PRIOR :: "nat \<Rightarrow> u32 \<Rightarrow> u32" where "MDMA_SET_PRIOR i x = push_bit (i mod 16 * 4) (x AND 0xF)"

definition NORMAL_DESC :: u32 where "NORMAL_DESC = 0"
definition LONG_DESC :: u32 where "LONG_DESC = 2"
definition PITCH_DESC :: u32 where "PITCH_DESC = 3"
definition MDMA_TRANS_QUEUE :: u32 where "MDMA_TRANS_QUEUE = 0"
definition MDMA_TRANS_RING :: u32 where "MDMA_TRANS_RING = 1"
definition MDMA_CHAN_POLLING :: u32 where "MDMA_CHAN_POLLING = 0"
definition MDMA_CHAN_INTERRUPT :: u32 where "MDMA_CHAN_INTERRUPT = 1"
definition MDMA_BURST_WIDTH4 :: u32 where "MDMA_BURST_WIDTH4 = 4"
definition MDMA_BURST_WIDTH8 :: u32 where "MDMA_BURST_WIDTH8 = 8"
definition MDMA_SYNC_NONE :: u32 where "MDMA_SYNC_NONE = 0"
definition MDMA_SYNC_SLAVE :: u32 where "MDMA_SYNC_SLAVE = 1"
definition MDMA_SYNC_MASTER :: u32 where "MDMA_SYNC_MASTER = 2"
definition MDMA_EVENT_MAX_NUM :: nat where "MDMA_EVENT_MAX_NUM = 16"
definition MDMA_PRIOR_MAX_NUM :: u32 where "MDMA_PRIOR_MAX_NUM = 8"
definition MDMA_CHAN_TIMEOUT :: nat where "MDMA_CHAN_TIMEOUT = 1000000"

text \<open>Registers, by their offsets in \<open>struct mdma_chan_regs\<close>.\<close>

definition reg_enable :: u32 where "reg_enable = 0x00"
definition reg_suspend :: u32 where "reg_suspend = 0x04"
definition reg_cancel :: u32 where "reg_cancel = 0x08"
definition reg_settings :: u32 where "reg_settings = 0x10"
definition reg_irq_mask :: u32 where "reg_irq_mask = 0x14"
definition reg_status :: u32 where "reg_status = 0x18"
definition reg_desc_addr :: u32 where "reg_desc_addr = 0x20"
definition reg_dma_state :: u32 where "reg_dma_state = 0x30"
definition reg_sense_list :: u32 where "reg_sense_list = 0xC0"
definition reg_signal_time :: u32 where "reg_signal_time = 0xC4"
definition reg_events_prior_l :: u32 where "reg_events_prior_l = 0xC8"
definition reg_events_prior_h :: u32 where "reg_events_prior_h = 0xCC"
definition reg_activ_events :: u32 where "reg_activ_events = 0xD0"
definition reg_ignore_events :: u32 where "reg_ignore_events = 0xD4"
definition reg_synch_events :: u32 where "reg_synch_events = 0xD8"
definition reg_event_desc_addr :: "u32 \<Rightarrow> u32" where "reg_event_desc_addr i = 0xE0 + 4 * i"

section \<open>Objects\<close>

datatype mdma_desc_type = DESC_DATA | DESC_LINK

datatype mdma_chan_state =
    MDMA_CHAN_DUMMY | MDMA_CHAN_READY | MDMA_CHAN_WAITING | MDMA_CHAN_RUNNING
  | MDMA_CHAN_SUSPENDED | MDMA_CHAN_CANCELED | MDMA_CHAN_PENDING | MDMA_CHAN_ERROR

datatype mdma_chan_error = CHAN_NONE_ERR | CHAN_RDESC_ERR | CHAN_WDESC_ERR | CHAN_DATA_ERR

record mdma_node =
  nd_group :: u32
  nd_desc_type :: mdma_desc_type
  nd_desc_indx :: nat
  nd_mem_addr :: u32
  nd_mem_size :: u32
  nd_is_stop :: bool
  nd_is_last :: bool
  nd_custom_flags :: u32

record mdma_group =
  gr_trans :: u32
  gr_node_group :: u32
  gr_node_nmb :: nat
  gr_cur_indx :: int
  gr_desc_pool_addr :: u32
  gr_desc_pool_size :: u32
  gr_gap_size :: u32
  gr_group_done :: bool

record mdma_trans =
  tr_chan :: u32
  tr_group_list :: "u32 list"
  tr_group_nmb :: nat
  tr_trans_type :: u32
  tr_first_group :: u32
  tr_cur_group :: u32
  tr_next_group :: u32
  tr_last_group :: u32
  tr_group_wait :: int
  tr_ignore_event :: bool

record mdma_cfg =
  cf_mode :: u32
  cf_desc_kind :: u32
  cf_heap_id :: nat
  cf_burst_width :: u32
  cf_pitch_width :: u32
  cf_str_length :: u32
  cf_event_indx :: int
  cf_event_prior :: u32
  cf_signal_time :: int
  cf_sync_mode :: u32
  cf_add_info :: bool
  cf_addr_inc :: bool

record mdma_chan =
  ch_regs :: u32
  ch_state :: mdma_chan_state
  ch_error :: mdma_chan_error
  ch_cfg :: mdma_cfg
  ch_trans :: u32
  ch_slave :: u32
  ch_master :: u32

record 'd mdma_sys =
  md_heaps :: runtime
  md_chans :: "u32 \<Rightarrow> mdma_chan option"
  md_trans :: "u32 \<Rightarrow> mdma_trans option"
  md_groups :: "u32 \<Rightarrow> mdma_group option"
  md_nodes :: "u32 \<Rightarrow> mdma_node list option"
  md_dev :: 'd

text \<open>Sizes with 32-bit pointers.\<close>

definition sizeof_mdma_chan :: u32 where "sizeof_mdma_chan = 68"
definition sizeof_mdma_trans :: u32 where "sizeof_mdma_trans = 44"
definition sizeof_mdma_group :: u32 where "sizeof_mdma_group = 40"
definition sizeof_mdma_node :: u32 where "sizeof_mdma_node = 28"
definition sizeof_normal_desc :: u32 where "sizeof_normal_desc = 8"
definition sizeof_long_desc :: u32 where "sizeof_long_desc = 16"
definition sizeof_pitch_desc :: u32 where "sizeof_pitch_desc = 16"

text \<open>Writing through pointers.\<close>

definition upd_chan :: "u32 \<Rightarrow> (mdma_chan \<Rightarrow> mdma_chan) \<Rightarrow> 'd mdma_sys \<Rightarrow> 'd mdma_sys option" where
  "upd_chan a f s = do { c \<leftarrow> md_chans s a; Some (s\<lparr>md_chans := (md_chans s)(a \<mapsto> f c)\<rparr>) }"

definition upd_trans :: "u32 \<Rightarrow> (mdma_trans \<Rightarrow> mdma_trans) \<Rightarrow> 'd mdma_sys \<Rightarrow> 'd mdma_sys option" where
  "upd_trans a f s = do { t \<leftarrow> md_trans s a; Some (s\<lparr>md_trans := (md_trans s)(a \<mapsto> f t)\<rparr>) }"

definition upd_group :: "u32 \<Rightarrow> (mdma_group \<Rightarrow> mdma_group) \<Rightarrow> 'd mdma_sys \<Rightarrow> 'd mdma_sys option" where
  "upd_group a f s = do { g \<leftarrow> md_groups s a; Some (s\<lparr>md_groups := (md_groups s)(a \<mapsto> f g)\<rparr>) }"

definition upd_node :: "u32 \<Rightarrow> nat \<Rightarrow> (mdma_node \<Rightarrow> mdma_node) \<Rightarrow> 'd mdma_sys \<Rightarrow> 'd mdma_sys option" where
  "upd_node a i f s = do {
     ns \<leftarrow> md_nodes s a;
     if i < length ns then Some (s\<lparr>md_nodes := (md_nodes s)(a \<mapsto> ns[i := f (ns ! i)])\<rparr>) else None }"

definition get_node :: "u32 \<Rightarrow> nat \<Rightarrow> 'd mdma_sys \<Rightarrow> mdma_node option" where
  "get_node a i s = do { ns \<leftarrow> md_nodes s a; if i < length ns then Some (ns ! i) else None }"

definition mdma_chan_write32 :: "'d hw \<Rightarrow> u32 \<Rightarrow> u32 \<Rightarrow> 'd mdma_sys \<Rightarrow> 'd mdma_sys" where
  "mdma_chan_write32 hw v reg s = s\<lparr>md_dev := iowrite32 hw v reg (md_dev s)\<rparr>"

definition mdma_chan_read32 :: "'d hw \<Rightarrow> u32 \<Rightarrow> 'd mdma_sys \<Rightarrow> u32 \<times> 'd mdma_sys" where
  "mdma_chan_read32 hw reg s = (let (v, d) = ioread32 hw reg (md_dev s) in (v, s\<lparr>md_dev := d\<rparr>))"

definition mdma_udelay :: "'d hw \<Rightarrow> u32 \<Rightarrow> 'd mdma_sys \<Rightarrow> 'd mdma_sys option" where
  "mdma_udelay hw us s = do { d \<leftarrow> udelay hw us (md_dev s); Some (s\<lparr>md_dev := d\<rparr>) }"

definition mdma_malloc :: "u32 \<Rightarrow> 'd mdma_sys \<Rightarrow> (u32 \<times> 'd mdma_sys) option" where
  "mdma_malloc len s = do { (a, rt) \<leftarrow> rumboot_malloc len (md_heaps s); Some (a, s\<lparr>md_heaps := rt\<rparr>) }"

definition mdma_free :: "u32 \<Rightarrow> 'd mdma_sys \<Rightarrow> 'd mdma_sys" where
  "mdma_free a s = s\<lparr>md_heaps := rumboot_free a (md_heaps s)\<rparr>"

section \<open>Channels and transfers\<close>

definition mdma_chan_create :: "u32 \<Rightarrow> mdma_cfg option \<Rightarrow> 'd mdma_sys \<Rightarrow> (u32 \<times> 'd mdma_sys) option" where
  "mdma_chan_create base_addr cfg s =
     (case cfg of
        None \<Rightarrow> Some (0, s)
      | Some cfg \<Rightarrow>
          if base_addr = 0 then Some (0, s)
          else do {
            (chan, s) \<leftarrow> mdma_malloc sizeof_mdma_chan s;
            if chan = 0 then Some (0, s)
            else Some (chan, s\<lparr>md_chans := (md_chans s)(chan \<mapsto>
                   \<lparr>ch_regs = base_addr, ch_state = MDMA_CHAN_DUMMY, ch_error = CHAN_NONE_ERR, ch_cfg = cfg,
                    ch_trans = 0, ch_slave = 0, ch_master = 0\<rparr>)\<rparr>) })"

definition mdma_chan_attach :: "u32 \<Rightarrow> u32 \<Rightarrow> 'd mdma_sys \<Rightarrow> (int \<times> 'd mdma_sys) option" where
  "mdma_chan_attach master slave s =
     (if master = 0 \<or> slave = 0 then Some (-1, s)
      else do {
        m \<leftarrow> md_chans s master;
        sl \<leftarrow> md_chans s slave;
        if ch_slave m \<noteq> 0 \<or> ch_master sl \<noteq> 0 then Some (-2, s)
        else if ch_state m \<noteq> MDMA_CHAN_READY \<or> ch_state sl \<noteq> MDMA_CHAN_READY then Some (-3, s)
        else do {
          s \<leftarrow> upd_chan master (\<lambda>c. c\<lparr>ch_slave := slave, ch_master := 0\<rparr>) s;
          s \<leftarrow> upd_chan slave (\<lambda>c. c\<lparr>ch_master := master, ch_slave := 0\<rparr>) s;
          Some (0, s) } })"

definition mdma_trans_create :: "u32 \<Rightarrow> u32 \<Rightarrow> 'd mdma_sys \<Rightarrow> (int \<times> 'd mdma_sys) option" where
  "mdma_trans_create chan trans_type s =
     (if chan = 0 then Some (-1, s)
      else do {
        c \<leftarrow> md_chans s chan;
        if ch_trans c \<noteq> 0 then Some (-1, s)
        else if ch_state c \<noteq> MDMA_CHAN_DUMMY then Some (-2, s)
        else do {
          (trans, s) \<leftarrow> mdma_malloc sizeof_mdma_trans s;
          if trans = 0 then Some (-3, s)
          else do {
            s \<leftarrow> upd_chan chan (\<lambda>c. c\<lparr>ch_trans := trans\<rparr>) s;
            Some (0, s\<lparr>md_trans := (md_trans s)(trans \<mapsto>
              \<lparr>tr_chan = chan, tr_group_list = [], tr_group_nmb = 0, tr_trans_type = trans_type,
               tr_first_group = 0, tr_cur_group = 0, tr_next_group = 0, tr_last_group = 0,
               tr_group_wait = 0, tr_ignore_event = False\<rparr>)\<rparr>) } } })"

section \<open>Adding a group\<close>

text \<open>The part of \<open>mdma_trans_add_group\<close> that depends on the kind of the descriptors: an error, or the size of
  a descriptor, its alignment, and how many bytes one of them may cover.\<close>

definition burst_mask :: "mdma_cfg \<Rightarrow> u32" where "burst_mask cfg = cf_burst_width cfg - 1"

definition limited :: "mdma_cfg \<Rightarrow> u32 \<Rightarrow> u32" where
  "limited cfg mem_size =
     (let lim = MDMA_LENGTH_LIMIT (\<not> cf_add_info cfg)
      in if \<not> mem_size < lim then (lim - 1) AND NOT (burst_mask cfg) else mem_size)"

definition pitch_limit :: "mdma_cfg \<Rightarrow> u32 \<Rightarrow> int + u32" where
  "pitch_limit cfg mem_size =
     (if \<not> cf_addr_inc cfg then Inl (-9)
      else if cf_str_length cfg = 0 then Inl (-10)
      else if \<not> cf_str_length cfg < MDMA_STRLEN_LIMIT then Inl (-11)
      else if cf_pitch_width cfg \<noteq> 0 \<and> cf_pitch_width cfg < cf_str_length cfg then Inl (-12)
      else if cf_pitch_width cfg \<noteq> 0 \<and> \<not> cf_pitch_width cfg < MDMA_PITCH_LIMIT then Inl (-13)
      else if cf_pitch_width cfg \<noteq> 0 \<and> cf_pitch_width cfg AND burst_mask cfg \<noteq> 0 then Inl (-14)
      else
        let num_node = sint (mem_size div cf_str_length cfg)
        in if num_node < 0 then Inl (-15)
           else if cf_str_length cfg * of_int num_node \<noteq> mem_size then Inl (-16)
           else
             let lim = MDMA_LENGTH_LIMIT (\<not> cf_add_info cfg)
             in Inr (if \<not> num_node < sint lim then (lim - 1) * cf_str_length cfg else mem_size))"

definition desc_limits :: "mdma_cfg \<Rightarrow> u32 \<Rightarrow> int + (u32 \<times> u32 \<times> u32)" where
  "desc_limits cfg mem_size =
     (if cf_desc_kind cfg = NORMAL_DESC then Inr (sizeof_normal_desc, 8, limited cfg mem_size)
      else if cf_desc_kind cfg = LONG_DESC then Inr (sizeof_long_desc, 16, limited cfg mem_size)
      else if cf_desc_kind cfg = PITCH_DESC then
        (case pitch_limit cfg mem_size of
           Inl e \<Rightarrow> Inl e
         | Inr size_limit \<Rightarrow> Inr (sizeof_pitch_desc, 16, size_limit))
      else Inl (-18))"

text \<open>The loop that makes the data nodes, from index \<open>i\<close> on.\<close>

fun data_nodes :: "mdma_cfg \<Rightarrow> u32 \<Rightarrow> u32 \<Rightarrow> nat \<Rightarrow> nat \<Rightarrow> u32 \<Rightarrow> u32 \<Rightarrow> u32 \<Rightarrow> mdma_node list" where
  "data_nodes cfg grp flags 0 i mem_addr mem_size size_limit = []"
| "data_nodes cfg grp flags (Suc n) i mem_addr mem_size size_limit =
     (let (mem_size, size_limit) =
            (if \<not> mem_size < size_limit then (mem_size - size_limit, size_limit) else (mem_size, mem_size));
          nsize = (if cf_desc_kind cfg = PITCH_DESC then size_limit div cf_str_length cfg else size_limit);
          next_addr =
            (if cf_desc_kind cfg = PITCH_DESC then
               (if cf_pitch_width cfg \<noteq> 0 then mem_addr + nsize * cf_pitch_width cfg else mem_addr)
             else if cf_addr_inc cfg then mem_addr + nsize else mem_addr)
      in \<lparr>nd_group = grp, nd_desc_type = DESC_DATA, nd_desc_indx = i, nd_mem_addr = mem_addr,
          nd_mem_size = nsize, nd_is_stop = False, nd_is_last = False, nd_custom_flags = flags\<rparr>
         # data_nodes cfg grp flags n (i + 1) next_addr mem_size size_limit)"

definition link_node :: "u32 \<Rightarrow> nat \<Rightarrow> u32 \<Rightarrow> mdma_node" where
  "link_node grp i mem_addr =
     \<lparr>nd_group = grp, nd_desc_type = DESC_LINK, nd_desc_indx = i, nd_mem_addr = mem_addr,
      nd_mem_size = 0, nd_is_stop = False, nd_is_last = True, nd_custom_flags = 0\<rparr>"

text \<open>The end of the function: the group and its nodes are filled in and linked, \<open>arr\<close> being the array of nodes.\<close>

definition add_group_finish ::
  "u32 \<Rightarrow> mdma_trans \<Rightarrow> mdma_cfg \<Rightarrow> u32 \<Rightarrow> u32 \<Rightarrow> u32 \<Rightarrow> bool \<Rightarrow> u32 \<Rightarrow> nat \<Rightarrow> u32 \<Rightarrow> u32 \<Rightarrow> mdma_group
     \<Rightarrow> 'd mdma_sys \<Rightarrow> (int \<times> 'd mdma_sys) option" where
  "add_group_finish tr t cfg mem_addr mem_size custom_flags is_last size_limit num_node grp arr g s = do {
     let s = s\<lparr>md_groups := (md_groups s)(grp \<mapsto> g)\<rparr>;
     let first = (if tr_first_group t = 0 then grp else tr_first_group t);
     fg \<leftarrow> md_groups s first;
     let ns = data_nodes cfg grp custom_flags num_node 0 mem_addr mem_size size_limit;
     if ns = [] then None
     else do {
       let ns = (if num_node < gr_node_nmb g
                 then ns @ [link_node grp num_node (if is_last then gr_desc_pool_addr fg else 0)]
                 else ns[num_node - 1 := (ns ! (num_node - 1))\<lparr>nd_is_stop := True, nd_is_last := True\<rparr>]);
       let s = s\<lparr>md_nodes := (md_nodes s)(arr \<mapsto> ns)\<rparr>;
       s \<leftarrow> (if tr_group_list t = [] then Some s
            else do {
              pg \<leftarrow> md_groups s (last (tr_group_list t));
              upd_node (gr_node_group pg) (gr_node_nmb pg - 1) (\<lambda>n. n\<lparr>nd_mem_addr := gr_desc_pool_addr g\<rparr>) s });
       Some (0, s\<lparr>md_trans := (md_trans s)(tr \<mapsto>
         t\<lparr>tr_first_group := first, tr_last_group := (if is_last then grp else tr_last_group t),
           tr_group_list := tr_group_list t @ [grp], tr_group_nmb := tr_group_nmb t + 1\<rparr>)\<rparr>) } }"

text \<open>Allocation of the array of nodes and of the pool of descriptors, after that of the group.\<close>

definition add_group_alloc ::
  "u32 \<Rightarrow> mdma_trans \<Rightarrow> mdma_cfg \<Rightarrow> u32 \<Rightarrow> u32 \<Rightarrow> u32 \<Rightarrow> bool \<Rightarrow> u32 \<Rightarrow> u32 \<Rightarrow> u32 \<Rightarrow> nat \<Rightarrow> nat \<Rightarrow> u32
     \<Rightarrow> 'd mdma_sys \<Rightarrow> (int \<times> 'd mdma_sys) option" where
  "add_group_alloc tr t cfg mem_addr mem_size custom_flags is_last gap_size desc_align size_limit num_node node_nmb grp s = do {
     (arr, s) \<leftarrow> mdma_malloc (of_nat node_nmb * sizeof_mdma_node) s;
     if arr = 0 then Some (-22, mdma_free grp s)
     else do {
       let pool_size = of_nat node_nmb * gap_size;
       (pool, rt) \<leftarrow> rumboot_malloc_from_heap_aligned (cf_heap_id cfg) pool_size desc_align (md_heaps s);
       let s = s\<lparr>md_heaps := rt\<rparr>;
       if pool = 0 then Some (-23, mdma_free grp (mdma_free arr s))
       else add_group_finish tr t cfg mem_addr mem_size custom_flags is_last size_limit num_node grp arr
              \<lparr>gr_trans = tr, gr_node_group = arr, gr_node_nmb = node_nmb, gr_cur_indx = -1, gr_desc_pool_addr = pool,
               gr_desc_pool_size = pool_size, gr_gap_size = gap_size, gr_group_done = False\<rparr> s } }"

definition add_group_build ::
  "u32 \<Rightarrow> mdma_trans \<Rightarrow> mdma_cfg \<Rightarrow> u32 \<Rightarrow> u32 \<Rightarrow> u32 \<Rightarrow> bool \<Rightarrow> u32 \<Rightarrow> u32 \<Rightarrow> u32 \<Rightarrow> int
     \<Rightarrow> 'd mdma_sys \<Rightarrow> (int \<times> 'd mdma_sys) option" where
  "add_group_build tr t cfg mem_addr mem_size custom_flags is_last gap_size desc_align size_limit num_node s = do {
     (grp, s) \<leftarrow> mdma_malloc sizeof_mdma_group s;
     if grp = 0 then Some (-20, s)
     else if is_last \<and> tr_trans_type t \<noteq> MDMA_TRANS_QUEUE \<and> tr_trans_type t \<noteq> MDMA_TRANS_RING
     then Some (-21, mdma_free grp s)
     else add_group_alloc tr t cfg mem_addr mem_size custom_flags is_last gap_size desc_align size_limit (nat num_node)
            (nat (if \<not> is_last \<or> tr_trans_type t = MDMA_TRANS_RING then num_node + 1 else num_node)) grp s }"

definition mdma_trans_add_group ::
  "u32 \<Rightarrow> u32 \<Rightarrow> u32 \<Rightarrow> u32 \<Rightarrow> bool \<Rightarrow> 'd mdma_sys \<Rightarrow> (int \<times> 'd mdma_sys) option" where
  "mdma_trans_add_group chan mem_addr mem_size custom_flags is_last s =
     (if chan = 0 then Some (-1, s)
      else do {
        c \<leftarrow> md_chans s chan;
        if ch_trans c = 0 then Some (-1, s)
        else if ch_state c \<noteq> MDMA_CHAN_DUMMY then Some (-2, s)
        else do {
          t \<leftarrow> md_trans s (ch_trans c);
          let cfg = ch_cfg c;
          if tr_last_group t \<noteq> 0 then Some (-3, s)
          else if mem_addr = 0 \<or> mem_size = 0 then Some (-4, s)
          else if cf_burst_width cfg \<noteq> MDMA_BURST_WIDTH4 \<and> cf_burst_width cfg \<noteq> MDMA_BURST_WIDTH8 then Some (-5, s)
          else if mem_addr AND burst_mask cfg \<noteq> 0 then Some (-7, s)
          else if \<not> cf_addr_inc cfg \<and> mem_size AND burst_mask cfg \<noteq> 0 then Some (-8, s)
          else
            (case desc_limits cfg mem_size of
               Inl e \<Rightarrow> Some (e, s)
             | Inr (gap_size, desc_align, size_limit) \<Rightarrow>
                 let num_node = sint (mem_size div size_limit)
                 in if num_node < 0 \<or> num_node + 2 < 0 then Some (-19, s)
                    else
                      let num_node = (if of_int num_node * size_limit \<noteq> mem_size then num_node + 1 else num_node)
                      in add_group_build (ch_trans c) t cfg mem_addr mem_size custom_flags is_last
                           gap_size desc_align size_limit num_node s) } })"

section \<open>The data nodes of a group cover the buffer\<close>

text \<open>What a node counts in: strings for pitch descriptors, bytes for the others.\<close>

definition unit_of :: "mdma_cfg \<Rightarrow> nat" where
  "unit_of cfg = (if cf_desc_kind cfg = PITCH_DESC then unat (cf_str_length cfg) else 1)"

definition node_bytes :: "mdma_cfg \<Rightarrow> mdma_node \<Rightarrow> nat" where
  "node_bytes cfg n = unat (nd_mem_size n) * unit_of cfg"

definition node_advance :: "mdma_cfg \<Rightarrow> mdma_node \<Rightarrow> u32" where
  "node_advance cfg n =
     (if cf_desc_kind cfg = PITCH_DESC then nd_mem_size n * cf_pitch_width cfg
      else if cf_addr_inc cfg then nd_mem_size n else 0)"

fun chained :: "mdma_cfg \<Rightarrow> u32 \<Rightarrow> mdma_node list \<Rightarrow> bool" where
  "chained cfg a [] = True"
| "chained cfg a (n # ns) = (nd_mem_addr n = a \<and> chained cfg (a + node_advance cfg n) ns)"

definition buffer_nodes :: "mdma_cfg \<Rightarrow> u32 \<Rightarrow> u32 \<Rightarrow> mdma_node list \<Rightarrow> bool" where
  "buffer_nodes cfg mem_addr mem_size ns \<longleftrightarrow>
     chained cfg mem_addr ns \<and> sum_list (map (node_bytes cfg) ns) = unat mem_size \<and>
     (\<forall>n \<in> set ns. nd_mem_size n \<noteq> 0 \<and> nd_mem_size n < MDMA_LENGTH_LIMIT (\<not> cf_add_info cfg))"

lemma data_nodes_length [simp]: "length (data_nodes cfg grp flags n i a m lim) = n"
  by (induction n arbitrary: i a m lim) (simp_all add: Let_def split: prod.split)

lemma data_nodes_nth:
  "k < n \<Longrightarrow> nd_group (data_nodes cfg grp flags n i a m lim ! k) = grp \<and>
     nd_desc_indx (data_nodes cfg grp flags n i a m lim ! k) = i + k \<and>
     nd_desc_type (data_nodes cfg grp flags n i a m lim ! k) = DESC_DATA \<and>
     \<not> nd_is_stop (data_nodes cfg grp flags n i a m lim ! k) \<and>
     \<not> nd_is_last (data_nodes cfg grp flags n i a m lim ! k)"
proof (induction n arbitrary: i a m lim k)
  case (Suc n)
  show ?case
  proof (cases k)
    case 0
    then show ?thesis by (simp add: Let_def split: prod.split)
  next
    case (Suc k')
    then show ?thesis using Suc.prems Suc.IH [of k'] by (simp add: Let_def split: prod.split)
  qed
qed simp

lemma data_nodes_chained: "chained cfg a (data_nodes cfg grp flags n i a m lim)"
proof (induction n arbitrary: i a m lim)
  case (Suc n)
  show ?case
    using Suc.IH by (simp add: Let_def node_advance_def split: prod.split)
qed simp

lemma data_nodes_sizes:
  assumes "m \<noteq> 0" "lim \<noteq> 0" "n * unat lim \<ge> unat m" "(n - 1) * unat lim < unat m"
    and "unit_of cfg \<noteq> 0" "unat lim mod unit_of cfg = 0" "unat m mod unit_of cfg = 0"
  shows "sum_list (map (node_bytes cfg) (data_nodes cfg grp flags n i a m lim)) = unat m \<and>
    (\<forall>x \<in> set (data_nodes cfg grp flags n i a m lim). nd_mem_size x \<noteq> 0 \<and> node_bytes cfg x \<le> unat lim)"
  using assms
proof (induction n arbitrary: i a m lim)
  case (Suc n)
  let ?u = "unit_of cfg"
  have sz: "unat (if cf_desc_kind cfg = PITCH_DESC then l div cf_str_length cfg else l) = unat l div ?u" for l
    by (simp add: unit_of_def unat_div)
  have bk: "unat l div ?u * ?u = unat l" if "unat l mod ?u = 0" for l :: u32
    using that by (metis add.right_neutral div_mult_mod_eq)
  have nz: "unat l div ?u \<noteq> 0" if "unat l mod ?u = 0" "l \<noteq> 0" for l :: u32
    using bk [OF that(1)] that(2) by (metis mult_0 unat_eq_zero)
  have pos: "0 < unat m" "0 < unat lim" using Suc.prems(1,2) by (simp_all add: unat_gt_0)
  have nb: "node_bytes cfg \<lparr>nd_group = g, nd_desc_type = ty, nd_desc_indx = k, nd_mem_addr = ad, nd_mem_size = z,
      nd_is_stop = st, nd_is_last = la, nd_custom_flags = fl\<rparr> = unat z * ?u" for g ty k ad z st la fl
    by (simp add: node_bytes_def)
  show ?case
  proof (cases "m < lim")
    case True
    have "n = 0"
    proof (rule ccontr)
      assume "n \<noteq> 0"
      then have "1 * unat lim \<le> n * unat lim" by (intro mult_le_mono1) simp
      moreover have "n * unat lim < unat m" using Suc.prems(4) by simp
      ultimately have "unat lim < unat m" by linarith
      then show False using True by (simp add: word_less_nat_alt)
    qed
    then show ?thesis
      using True Suc.prems bk [of m] nz [of m]
      by (simp add: Let_def nb sz word_less_nat_alt flip: unat_eq_zero)
  next
    case False
    then have le: "lim \<le> m" by simp
    then have u: "unat (m - lim) = unat m - unat lim" by (simp add: unat_sub)
    have le': "unat lim \<le> unat m" using le by (simp add: word_le_nat_alt)
    show ?thesis
    proof (cases "n = 0")
      case True
      then have "m = lim" using Suc.prems(3) le' by (simp add: word_unat_eq_iff)
      then show ?thesis
        using True Suc.prems bk [of lim] nz [of lim]
        by (simp add: Let_def nb sz flip: unat_eq_zero)
    next
      case n: False
      have lt: "unat lim < unat m"
      proof -
        have "1 * unat lim \<le> n * unat lim" using n by (intro mult_le_mono1) simp
        moreover have "n * unat lim < unat m" using Suc.prems(4) by simp
        ultimately show ?thesis by linarith
      qed
      have "m - lim \<noteq> 0" using lt by auto
      moreover have "unat (m - lim) \<le> n * unat lim" using Suc.prems(3) u by simp
      moreover have "(n - 1) * unat lim < unat (m - lim)"
      proof -
        have "(n - 1) * unat lim + unat lim = n * unat lim" using n by (cases n) simp_all
        then show ?thesis using Suc.prems(4) u le' by simp
      qed
      moreover have "unat (m - lim) mod ?u = 0"
      proof -
        have "?u dvd unat m - unat lim" using Suc.prems(6,7) by (intro dvd_diff_nat) auto
        then show ?thesis using u by auto
      qed
      ultimately have ih: "sum_list (map (node_bytes cfg) (data_nodes cfg grp flags n j b (m - lim) lim)) = unat m - unat lim \<and>
          (\<forall>x \<in> set (data_nodes cfg grp flags n j b (m - lim) lim). nd_mem_size x \<noteq> 0 \<and> node_bytes cfg x \<le> unat lim)" for j b
        using Suc.IH [of "m - lim" lim] Suc.prems(2,5,6) u by metis
      show ?thesis
        using False ih le' bk [of lim] nz [of lim] Suc.prems
        by (simp add: Let_def nb sz flip: unat_eq_zero)
    qed
  qed
qed simp

text \<open>What the checks before the allocation guarantee of the limit for a node.\<close>

definition width_ok :: "mdma_cfg \<Rightarrow> bool" where
  "width_ok cfg \<longleftrightarrow> cf_burst_width cfg = MDMA_BURST_WIDTH4 \<or> cf_burst_width cfg = MDMA_BURST_WIDTH8"

definition limit_ok :: "mdma_cfg \<Rightarrow> u32 \<Rightarrow> u32 \<Rightarrow> bool" where
  "limit_ok cfg mem_size lim \<longleftrightarrow>
     lim \<noteq> 0 \<and> lim \<le> mem_size \<and> (lim = mem_size \<or> 0x3FF8 \<le> unat lim) \<and> unit_of cfg \<noteq> 0 \<and>
     unat lim mod unit_of cfg = 0 \<and> unat mem_size mod unit_of cfg = 0 \<and>
     unat lim div unit_of cfg < unat (MDMA_LENGTH_LIMIT (\<not> cf_add_info cfg))"

lemma limited_ok:
  assumes "width_ok cfg" "mem_size \<noteq> 0" "cf_desc_kind cfg \<noteq> PITCH_DESC"
  shows "limit_ok cfg mem_size (limited cfg mem_size)"
proof -
  have w: "burst_mask cfg = 3 \<or> burst_mask cfg = 7"
    using assms(1) by (auto simp: width_ok_def burst_mask_def MDMA_BURST_WIDTH4_def MDMA_BURST_WIDTH8_def)
  let ?big = "(MDMA_LENGTH_LIMIT (\<not> cf_add_info cfg) - 1) AND NOT (burst_mask cfg)"
  have b: "0x3FF8 \<le> unat ?big" "unat ?big < unat (MDMA_LENGTH_LIMIT (\<not> cf_add_info cfg))"
    using w by (auto simp: MDMA_LENGTH_LIMIT_def)
  then have "?big < MDMA_LENGTH_LIMIT (\<not> cf_add_info cfg)" by (simp add: word_less_nat_alt)
  moreover have "?big \<noteq> 0" using b(1) by (metis not_numeral_le_zero unat_0)
  ultimately show ?thesis
    using assms b by (auto simp: limit_ok_def limited_def Let_def unit_of_def word_less_nat_alt word_le_nat_alt)
qed

lemma sint_nonneg:
  assumes "0 \<le> sint (w :: u32)"
  shows "sint w = uint w"
proof -
  have "sint w < 2 ^ 31" using sint_greater_eq [of w] sint_less [of w] by simp
  then have "take_bit 32 (sint w) = sint w" using assms by (simp add: take_bit_int_eq_self)
  then show ?thesis by (simp add: uint_sint)
qed

lemma pitch_limit_ok:
  assumes p: "pitch_limit cfg mem_size = Inr lim" and nz: "mem_size \<noteq> 0" and k: "cf_desc_kind cfg = PITCH_DESC"
  shows "limit_ok cfg mem_size lim"
proof -
  let ?s = "unat (cf_str_length cfg)"
  let ?n = "mem_size div cf_str_length cfg"
  have s: "cf_str_length cfg \<noteq> 0" and n: "0 \<le> sint ?n" "cf_str_length cfg * of_int (sint ?n) = mem_size"
    and lim: "lim = (if \<not> sint ?n < sint (MDMA_LENGTH_LIMIT (\<not> cf_add_info cfg))
       then (MDMA_LENGTH_LIMIT (\<not> cf_add_info cfg) - 1) * cf_str_length cfg else mem_size)"
    using p by (auto simp: pitch_limit_def Let_def split: if_splits)
  have un: "sint ?n = int (unat ?n)" using sint_nonneg [OF n(1)] by (simp only: uint_nat)
  have eq: "unat ?n * ?s = unat mem_size"
  proof -
    have e: "cf_str_length cfg * ?n = mem_size" using n(2) by simp
    have "?s * unat ?n \<le> unat mem_size" by (simp add: unat_div)
    moreover have "unat mem_size < 2 ^ 32" using unsigned_less [where 'a = nat, of mem_size] by simp
    ultimately have "?s * unat ?n < 2 ^ 32" by (rule le_less_trans)
    then have "unat (cf_str_length cfg * ?n) = ?s * unat ?n" by (simp add: unat_word_ariths)
    then show ?thesis unfolding e by (simp add: mult.commute)
  qed
  have sp: "0 < ?s" using s by (simp add: unat_gt_0)
  have md: "unat mem_size mod ?s = 0" "unat mem_size div ?s = unat ?n"
    using sp by (subst eq [symmetric], simp)+
  let ?L = "unat (MDMA_LENGTH_LIMIT (\<not> cf_add_info cfg))"
  have L: "0x4000 \<le> ?L" "sint (MDMA_LENGTH_LIMIT (\<not> cf_add_info cfg)) = int ?L"
    "unat (MDMA_LENGTH_LIMIT (\<not> cf_add_info cfg) - 1) = ?L - 1"
    by (simp_all add: MDMA_LENGTH_LIMIT_def)
  show ?thesis
  proof (cases "unat ?n < ?L")
    case True
    then have "lim = mem_size" using lim unfolding un L(2) of_nat_less_iff by simp
    then show ?thesis using nz sp True md k by (simp add: limit_ok_def unit_of_def)
  next
    case False
    then have l: "lim = (MDMA_LENGTH_LIMIT (\<not> cf_add_info cfg) - 1) * cf_str_length cfg"
      using lim unfolding un L(2) of_nat_less_iff by simp
    have le: "(?L - 1) * ?s \<le> unat mem_size"
      unfolding eq [symmetric] using False by (intro mult_le_mono1) simp
    moreover have "unat mem_size < 2 ^ 32" using unsigned_less [where 'a = nat, of mem_size] by simp
    ultimately have "(?L - 1) * ?s < 2 ^ 32" by (rule le_less_trans)
    then have u: "unat lim = (?L - 1) * ?s" by (simp add: l unat_word_ariths L(3))
    have "?L - 1 \<le> (?L - 1) * ?s" using sp by simp
    then have big: "0x3FF8 \<le> unat lim" unfolding u using L(1) by linarith
    have "lim \<noteq> 0" using big by (metis not_numeral_le_zero unat_0)
    moreover have "unat lim div ?s < ?L" unfolding u using sp L(1) by simp
    ultimately show ?thesis
      using big le u sp md k by (simp add: limit_ok_def unit_of_def word_le_nat_alt)
  qed
qed

lemma desc_limits_ok:
  assumes "desc_limits cfg mem_size = Inr (gap, al, lim)" "width_ok cfg" "mem_size \<noteq> 0"
  shows "limit_ok cfg mem_size lim" "(gap, al) \<in> {(8, 8), (16, 16)}"
  using assms limited_ok [OF assms(2,3)] pitch_limit_ok [OF _ assms(3)]
  by (auto simp: desc_limits_def NORMAL_DESC_def LONG_DESC_def PITCH_DESC_def sizeof_normal_desc_def
      sizeof_long_desc_def sizeof_pitch_desc_def split: if_splits sum.splits)

text \<open>The number of data nodes.\<close>

definition data_count :: "u32 \<Rightarrow> u32 \<Rightarrow> nat" where
  "data_count m lim = unat m div unat lim + (if unat m mod unat lim = 0 then 0 else 1)"

lemma data_count_bounds:
  assumes "lim \<noteq> 0" "m \<noteq> 0"
  shows "unat m \<le> data_count m lim * unat lim" "(data_count m lim - 1) * unat lim < unat m"
proof -
  let ?q = "unat m div unat lim" and ?r = "unat m mod unat lim"
  have l: "0 < unat lim" "0 < unat m" using assms by (simp_all add: unat_gt_0)
  have e: "unat m = ?q * unat lim + ?r" by simp
  have r: "?r < unat lim" using l by simp
  show "unat m \<le> data_count m lim * unat lim"
  proof (cases "?r = 0")
    case True
    then show ?thesis using e by (simp add: data_count_def)
  next
    case False
    then have "data_count m lim * unat lim = ?q * unat lim + unat lim" by (simp add: data_count_def)
    then show ?thesis using e r by linarith
  qed
  show "(data_count m lim - 1) * unat lim < unat m"
  proof (cases "?r = 0")
    case True
    then have "?q \<noteq> 0" using e l by (metis add.right_neutral less_irrefl mult_0)
    then have "(?q - 1) * unat lim + unat lim = ?q * unat lim" by (cases ?q) simp_all
    then show ?thesis using True e l unfolding data_count_def by simp
  next
    case False
    then have "data_count m lim - 1 = ?q" "0 < ?r" by (simp_all add: data_count_def)
    then show ?thesis unfolding \<open>data_count m lim - 1 = ?q\<close> using e by linarith
  qed
qed

section \<open>The structure of a transfer\<close>

text \<open>Fresh memory: an address below the position of its heap is never handed out again.\<close>

definition heaps_fit :: "runtime \<Rightarrow> bool" where
  "heaps_fit rt \<longleftrightarrow> heaps_ok rt \<and> (\<forall>i < length (heaps rt). unat (hp_end (heaps rt ! i)) + 2 ^ 25 < 2 ^ 32)"

definition below :: "runtime \<Rightarrow> nat \<Rightarrow> u32 \<Rightarrow> bool" where
  "below rt i a \<longleftrightarrow> i < length (heaps rt) \<and> a < hp_pos (heaps rt ! i)"

lemma malloc_fresh:
  assumes fit: "heaps_fit rt" and sz: "unat al \<le> 16" "0 < len" "unat len \<le> 2 ^ 24"
    and m: "rumboot_malloc_from_heap_misaligned i len al 0 rt = Some (a, rt')"
  shows "heaps_fit rt'" "\<not> below rt i a" "below rt' i a" "\<And>j b. below rt j b \<Longrightarrow> below rt' j b"
proof -
  have ok: "heaps_ok rt" using fit by (simp add: heaps_fit_def)
  have req: "request_ok rt (i, len, al, 0)" using fit sz by (fastforce simp: request_ok_def heaps_fit_def)
  have st: "blocks_ok rt []" using ok by (simp add: blocks_ok_def)
  note bs = blocks_step [OF st req m]
  obtain hp hp' where h: "i < length (heaps rt)" "hp = heaps rt ! i" "rt' = rt\<lparr>heaps := (heaps rt)[i := hp']\<rparr>"
    "unat (hp_pos hp) \<le> unat a" "unat (hp_pos hp') = unat a + unat len"
    by (rule malloc_success [OF ok req m])
  show "heaps_fit rt'" using fit bs by (simp add: heaps_fit_def blocks_ok_def)
  show "\<not> below rt i a" using h by (simp add: below_def word_less_nat_alt)
  show "below rt' i a" using h sz by (simp add: below_def word_less_nat_alt)
  show "below rt' j b" if "below rt j b" for j b
    using that h by (cases "j = i") (auto simp: below_def word_less_nat_alt)
qed

definition node_array :: "'d mdma_sys \<Rightarrow> u32 \<Rightarrow> mdma_node list" where
  "node_array s gp = (case md_groups s gp of None \<Rightarrow> [] | Some g \<Rightarrow>
     (case md_nodes s (gr_node_group g) of None \<Rightarrow> [] | Some ns \<Rightarrow> ns))"

definition pool_of :: "'d mdma_sys \<Rightarrow> u32 \<Rightarrow> u32" where
  "pool_of s gp = (case md_groups s gp of None \<Rightarrow> 0 | Some g \<Rightarrow> gr_desc_pool_addr g)"

definition array_of :: "'d mdma_sys \<Rightarrow> u32 \<Rightarrow> u32" where
  "array_of s gp = (case md_groups s gp of None \<Rightarrow> 0 | Some g \<Rightarrow> gr_node_group g)"

text \<open>One group: all nodes but the last are data nodes.\<close>

definition group_wf :: "'d mdma_sys \<Rightarrow> u32 \<Rightarrow> u32 \<Rightarrow> bool" where
  "group_wf s tr gp \<longleftrightarrow> (\<exists>g ns. md_groups s gp = Some g \<and> md_nodes s (gr_node_group g) = Some ns \<and>
     gr_trans g = tr \<and> length ns = gr_node_nmb g \<and> ns \<noteq> [] \<and>
     (\<forall>i < length ns. nd_group (ns ! i) = gp \<and> nd_desc_indx (ns ! i) = i) \<and>
     (\<forall>n \<in> set (butlast ns). nd_desc_type n = DESC_DATA \<and> \<not> nd_is_stop n \<and> \<not> nd_is_last n) \<and>
     nd_is_last (last ns))"

definition links_to :: "'d mdma_sys \<Rightarrow> u32 \<Rightarrow> u32 \<Rightarrow> bool" where
  "links_to s gp p \<longleftrightarrow> nd_desc_type (last (node_array s gp)) = DESC_LINK \<and> nd_mem_addr (last (node_array s gp)) = p"

definition ends_in_link :: "'d mdma_sys \<Rightarrow> u32 \<Rightarrow> bool" where
  "ends_in_link s gp \<longleftrightarrow> nd_desc_type (last (node_array s gp)) = DESC_LINK"

definition stops :: "'d mdma_sys \<Rightarrow> u32 \<Rightarrow> bool" where
  "stops s gp \<longleftrightarrow> nd_desc_type (last (node_array s gp)) = DESC_DATA \<and> nd_is_stop (last (node_array s gp))"

definition closed_wf :: "'d mdma_sys \<Rightarrow> mdma_trans \<Rightarrow> bool" where
  "closed_wf s t \<longleftrightarrow>
     (if tr_last_group t = 0 then \<forall>gp \<in> set (tr_group_list t). ends_in_link s gp
      else tr_group_list t \<noteq> [] \<and> tr_last_group t = last (tr_group_list t) \<and>
        (\<forall>gp \<in> set (butlast (tr_group_list t)). ends_in_link s gp) \<and>
        (tr_trans_type t = MDMA_TRANS_QUEUE \<and> stops s (tr_last_group t) \<or>
         tr_trans_type t = MDMA_TRANS_RING \<and> links_to s (tr_last_group t) (pool_of s (tr_first_group t))))"

definition list_wf :: "'d mdma_sys \<Rightarrow> nat \<Rightarrow> mdma_trans \<Rightarrow> bool" where
  "list_wf s heap_id t \<longleftrightarrow>
     tr_group_nmb t = length (tr_group_list t) \<and> 0 \<notin> set (tr_group_list t) \<and>
     tr_first_group t = (case tr_group_list t of [] \<Rightarrow> 0 | gp # _ \<Rightarrow> gp) \<and>
     distinct (tr_group_list t) \<and> distinct (map (array_of s) (tr_group_list t)) \<and>
     distinct (map (pool_of s) (tr_group_list t)) \<and>
     (\<forall>gp \<in> set (tr_group_list t).
        below (md_heaps s) 0 gp \<and> below (md_heaps s) 0 (array_of s gp) \<and> below (md_heaps s) heap_id (pool_of s gp))"

text \<open>The invariant of a channel \<open>c\<close> with its transfer \<open>t\<close>.\<close>

definition trans_wf :: "'d mdma_sys \<Rightarrow> mdma_chan \<Rightarrow> mdma_trans \<Rightarrow> bool" where
  "trans_wf s c t \<longleftrightarrow>
     heaps_fit (md_heaps s) \<and> md_trans s (ch_trans c) = Some t \<and> list_wf s (cf_heap_id (ch_cfg c)) t \<and>
     (\<forall>gp \<in> set (tr_group_list t). group_wf s (ch_trans c) gp) \<and>
     successively (\<lambda>gp gp'. links_to s gp (pool_of s gp')) (tr_group_list t) \<and> closed_wf s t"

definition trans_inv :: "'d mdma_sys \<Rightarrow> u32 \<Rightarrow> bool" where
  "trans_inv s chan \<longleftrightarrow> chan \<noteq> 0 \<and> (\<exists>c t. md_chans s chan = Some c \<and> ch_trans c \<noteq> 0 \<and> trans_wf s c t)"

text \<open>The data nodes of all groups, in order.\<close>

definition data_of :: "mdma_node list \<Rightarrow> mdma_node list" where
  "data_of ns = filter (\<lambda>n. nd_desc_type n = DESC_DATA) ns"

definition groups_of :: "'d mdma_sys \<Rightarrow> u32 \<Rightarrow> u32 list" where
  "groups_of s chan = (case md_chans s chan of None \<Rightarrow> [] | Some c \<Rightarrow>
     (case md_trans s (ch_trans c) of None \<Rightarrow> [] | Some t \<Rightarrow> tr_group_list t))"

definition segments :: "'d mdma_sys \<Rightarrow> u32 \<Rightarrow> mdma_node list" where
  "segments s chan = concat (map (\<lambda>gp. data_of (node_array s gp)) (groups_of s chan))"

text \<open>What the controller does, on the nodes: from the group at an address it takes the nodes in order, a link leads to
  another group, a stop bit ends the work. The second part of the result says whether it stopped.\<close>

fun run_nodes :: "mdma_node list \<Rightarrow> mdma_node list \<times> u32 option" where
  "run_nodes [] = ([], None)"
| "run_nodes (n # ns) =
     (if nd_desc_type n = DESC_LINK then ([], Some (nd_mem_addr n))
      else if nd_is_stop n then ([n], None)
      else (let (es, e) = run_nodes ns in (n # es, e)))"

fun dma_walk :: "'d mdma_sys \<Rightarrow> u32 list \<Rightarrow> nat \<Rightarrow> u32 \<Rightarrow> mdma_node list \<times> bool" where
  "dma_walk s gs 0 p = ([], False)"
| "dma_walk s gs (Suc k) p =
     (case find (\<lambda>gp. pool_of s gp = p) gs of
        None \<Rightarrow> ([], False)
      | Some gp \<Rightarrow>
          (case run_nodes (node_array s gp) of
             (es, None) \<Rightarrow> (es, True)
           | (es, Some p) \<Rightarrow> (let (fs, stopped) = dma_walk s gs k p in (es @ fs, stopped))))"

section \<open>The controller executes the segments in order\<close>

lemma run_nodes_snoc:
  assumes "\<forall>n \<in> set ns. nd_desc_type n = DESC_DATA \<and> \<not> nd_is_stop n"
  shows "run_nodes (ns @ [n]) =
    (if nd_desc_type n = DESC_LINK then (ns, Some (nd_mem_addr n)) else (ns @ [n], None))"
  using assms by (induction ns) auto

lemma run_nodes_group:
  assumes "group_wf s tr gp"
  shows "run_nodes (node_array s gp) = (data_of (node_array s gp),
    if ends_in_link s gp then Some (nd_mem_addr (last (node_array s gp))) else None)"
proof -
  obtain ns where ns: "node_array s gp = ns" "ns \<noteq> []"
    and bl: "\<forall>n \<in> set (butlast ns). nd_desc_type n = DESC_DATA \<and> \<not> nd_is_stop n"
    using assms by (auto simp: group_wf_def node_array_def)
  obtain bs n where s: "ns = bs @ [n]" using ns(2) by (metis append_butlast_last_id)
  then have d: "\<forall>n \<in> set bs. nd_desc_type n = DESC_DATA \<and> \<not> nd_is_stop n" using bl by simp
  then have "filter (\<lambda>n. nd_desc_type n = DESC_DATA) bs = bs" by (simp add: filter_id_conv)
  then show ?thesis
    using run_nodes_snoc [OF d, of n]
    by (cases "nd_desc_type n") (simp_all add: ns(1) s ends_in_link_def data_of_def)
qed

lemma find_distinct:
  assumes "distinct (map f xs)" "x \<in> set xs"
  shows "find (\<lambda>y. f y = f x) xs = Some x"
  using assms by (induction xs) (auto simp: rev_image_eqI)

lemma dma_walk_suffix:
  assumes d: "distinct (map (pool_of s) gs)" and wf: "\<forall>gp \<in> set gs. group_wf s tr gp"
    and l: "successively (\<lambda>gp gp'. links_to s gp (pool_of s gp')) gs" and gs: "gs = pre @ gp # rest"
  shows "dma_walk s gs (Suc (length rest) + k) (pool_of s gp) =
    (let es = concat (map (\<lambda>gp. data_of (node_array s gp)) (gp # rest)) in
     if ends_in_link s (last gs)
     then (let (fs, st) = dma_walk s gs k (nd_mem_addr (last (node_array s (last gs)))) in (es @ fs, st))
     else (es, True))"
  using gs
proof (induction rest arbitrary: pre gp)
  case Nil
  have f: "find (\<lambda>y. pool_of s y = pool_of s gp) gs = Some gp" by (rule find_distinct [OF d]) (simp add: Nil.prems)
  have w: "group_wf s tr gp" using wf Nil.prems by simp
  show ?case using Nil.prems f run_nodes_group [OF w] by (simp split: prod.split)
next
  case (Cons gp' rest)
  have f: "find (\<lambda>y. pool_of s y = pool_of s gp) gs = Some gp" by (rule find_distinct [OF d]) (simp add: Cons.prems)
  have w: "group_wf s tr gp" using wf Cons.prems by simp
  have "links_to s gp (pool_of s gp')" using l Cons.prems by (simp add: successively_append_iff)
  then have e: "run_nodes (node_array s gp) = (data_of (node_array s gp), Some (pool_of s gp'))"
    using run_nodes_group [OF w] by (simp add: links_to_def ends_in_link_def)
  have gs': "gs = (pre @ [gp]) @ gp' # rest" using Cons.prems by simp
  show ?case using Cons.IH [OF gs'] f e by (simp add: Let_def split: prod.split)
qed

lemma dma_walk_all:
  assumes "distinct (map (pool_of s) gs)" "\<forall>gp \<in> set gs. group_wf s tr gp"
    "successively (\<lambda>gp gp'. links_to s gp (pool_of s gp')) gs" "gs \<noteq> []"
  shows "dma_walk s gs (length gs + k) (pool_of s (hd gs)) =
    (let es = concat (map (\<lambda>gp. data_of (node_array s gp)) gs) in
     if ends_in_link s (last gs)
     then (let (fs, st) = dma_walk s gs k (nd_mem_addr (last (node_array s (last gs)))) in (es @ fs, st))
     else (es, True))"
  using dma_walk_suffix [OF assms(1-3), of "[]" "hd gs" "tl gs" k] assms(4) by (cases gs) simp_all

lemma closed_groups:
  assumes "trans_wf s c t" "md_chans s chan = Some c" "tr_last_group t \<noteq> 0"
  shows "groups_of s chan = tr_group_list t" "tr_group_list t \<noteq> []" "tr_first_group t = hd (tr_group_list t)"
    "tr_last_group t = last (tr_group_list t)" "distinct (map (pool_of s) (tr_group_list t))"
    "\<forall>g \<in> set (tr_group_list t). group_wf s (ch_trans c) g"
    "successively (\<lambda>gp gp'. links_to s gp (pool_of s gp')) (tr_group_list t)"
  using assms by (cases "tr_group_list t"; auto simp: trans_wf_def list_wf_def closed_wf_def groups_of_def)+

lemma closed_queue_walk:
  assumes "trans_wf s c t" "md_chans s chan = Some c" "tr_last_group t \<noteq> 0" "tr_trans_type t = MDMA_TRANS_QUEUE"
  shows "dma_walk s (groups_of s chan) (length (groups_of s chan)) (pool_of s (tr_first_group t)) =
    (segments s chan, True)"
proof -
  note g = closed_groups [OF assms(1-3)]
  have "stops s (last (tr_group_list t))"
    using assms(1,3,4) g(4) by (auto simp: trans_wf_def closed_wf_def MDMA_TRANS_QUEUE_def MDMA_TRANS_RING_def)
  then have "\<not> ends_in_link s (last (tr_group_list t))" by (simp add: stops_def ends_in_link_def)
  then show ?thesis using dma_walk_all [OF g(5-7) g(2), of 0] by (simp add: g(1,3) segments_def)
qed

text \<open>In a ring the controller comes back to the first group: after any number of rounds it has executed the
  segments that many times, and it has not stopped.\<close>

theorem ring_executes_rounds:
  assumes "trans_wf s c t" "md_chans s chan = Some c" "tr_last_group t \<noteq> 0" "tr_trans_type t = MDMA_TRANS_RING"
  shows "dma_walk s (groups_of s chan) (n * length (groups_of s chan)) (pool_of s (tr_first_group t)) =
    (concat (replicate n (segments s chan)), False)"
proof -
  note g = closed_groups [OF assms(1-3)]
  have "links_to s (last (tr_group_list t)) (pool_of s (hd (tr_group_list t)))"
    using assms(1,3,4) g(3,4) by (auto simp: trans_wf_def closed_wf_def MDMA_TRANS_QUEUE_def MDMA_TRANS_RING_def)
  then have e: "ends_in_link s (last (tr_group_list t))"
      "nd_mem_addr (last (node_array s (last (tr_group_list t)))) = pool_of s (hd (tr_group_list t))"
    by (simp_all add: links_to_def ends_in_link_def)
  have step: "dma_walk s (tr_group_list t) (length (tr_group_list t) + k) (pool_of s (hd (tr_group_list t))) =
      (let (fs, st) = dma_walk s (tr_group_list t) k (pool_of s (hd (tr_group_list t))) in (segments s chan @ fs, st))" for k
    using dma_walk_all [OF g(5-7) g(2), of k] by (simp add: e segments_def g(1))
  show ?thesis by (induction n) (simp_all add: g(1,3) step)
qed

section \<open>Adding a group keeps the invariant\<close>

lemma mdma_free_id [simp]: "mdma_free a s = s"
  by (simp add: mdma_free_def rumboot_free_def)

text \<open>The number of data nodes as the code computes it.\<close>

lemma num_node_count:
  assumes lim: "limit_ok cfg m lim" and m: "m \<noteq> 0"
  shows "sint (m div lim) = int (unat m div unat lim)" (is ?A)
    "(if of_int (sint (m div lim)) * lim \<noteq> m then sint (m div lim) + 1 else sint (m div lim)) = int (data_count m lim)" (is ?B)
    "data_count m lim \<noteq> 0" "data_count m lim \<le> 2 ^ 19"
proof -
  have l: "0 < unat lim" "unat lim \<le> unat m" "unat m < 2 ^ 32"
    using lim unsigned_less [where 'a = nat, of m] by (simp_all add: limit_ok_def unat_gt_0 word_le_nat_alt)
  have q: "unat m div unat lim < 2 ^ 19"
  proof (cases "lim = m")
    case False
    then have "0x3FF8 \<le> unat lim" using lim by (simp add: limit_ok_def)
    then have "unat m div unat lim \<le> unat m div 0x3FF8" by (intro div_le_mono2) simp_all
    moreover have "unat m div 0x3FF8 < 2 ^ 19" by (subst div_less_iff_less_mult, simp, rule less_trans [OF l(3)], simp)
    ultimately show ?thesis by (rule le_less_trans)
  qed (use l in simp)
  have u: "unat (m div lim) = unat m div unat lim" by (simp add: unat_div)
  have "uint (m div lim) = int (unat m div unat lim)" by (simp only: uint_nat u)
  then show a: ?A
    using q by (simp add: sint_uint signed_take_bit_int_eq_self)
  have "of_int (sint (m div lim)) * lim = m \<longleftrightarrow> unat m mod unat lim = 0"
  proof -
    have le: "unat m div unat lim * unat lim \<le> unat m" by simp
    have "(of_int (sint (m div lim)) * lim = m) = (unat (m div lim * lim) = unat m)" by (simp add: word_unat_eq_iff)
    also have "unat (m div lim * lim) = unat m div unat lim * unat lim"
      using mod_less [OF le_less_trans [OF le l(3)]] by (simp add: unat_word_ariths(2) u)
    also have "(\<dots> = unat m) = (unat m mod unat lim = 0)" by (metis add_cancel_left_right div_mult_mod_eq)
    finally show ?thesis .
  qed
  then show ?B by (simp add: a data_count_def)
  show "data_count m lim \<noteq> 0" using l by (simp add: data_count_def div_eq_0_iff)
  show "data_count m lim \<le> 2 ^ 19" using q by (simp add: data_count_def)
qed

text \<open>The nodes of a new group.\<close>

definition new_nodes :: "mdma_cfg \<Rightarrow> u32 \<Rightarrow> u32 \<Rightarrow> u32 \<Rightarrow> u32 \<Rightarrow> u32 \<Rightarrow> u32 option \<Rightarrow> mdma_node list" where
  "new_nodes cfg grp flags mem_addr mem_size lim link =
     (let n = data_count mem_size lim; ns = data_nodes cfg grp flags n 0 mem_addr mem_size lim
      in case link of
           Some p \<Rightarrow> ns @ [link_node grp n p]
         | None \<Rightarrow> ns[n - 1 := (ns ! (n - 1))\<lparr>nd_is_stop := True, nd_is_last := True\<rparr>])"

lemma butlast_update_last: "butlast (xs[length xs - 1 := x]) = butlast xs"
  by (simp add: butlast_list_update)

lemma new_nodes_wf:
  fixes cfg :: mdma_cfg and grp flags a m lim :: u32 and link :: "u32 option"
  assumes "data_count m lim \<noteq> 0"
  defines "ns \<equiv> new_nodes cfg grp flags a m lim link"
  shows "length ns = data_count m lim + (if link = None then 0 else 1)" "ns \<noteq> []"
    "\<forall>i < length ns. nd_group (ns ! i) = grp \<and> nd_desc_indx (ns ! i) = i"
    "\<forall>n \<in> set (butlast ns). nd_desc_type n = DESC_DATA \<and> \<not> nd_is_stop n \<and> \<not> nd_is_last n"
    "nd_is_last (last ns)"
    "link = None \<Longrightarrow> nd_desc_type (last ns) = DESC_DATA \<and> nd_is_stop (last ns)"
    "link = Some p \<Longrightarrow> nd_desc_type (last ns) = DESC_LINK \<and> nd_mem_addr (last ns) = p"
proof -
  let ?n = "data_count m lim"
  let ?ds = "data_nodes cfg grp flags ?n 0 a m lim"
  note nth = data_nodes_nth [where cfg = cfg and grp = grp and flags = flags and n = ?n and i = 0 and a = a and m = m and lim = lim]
  have ds: "\<forall>n \<in> set ?ds. nd_desc_type n = DESC_DATA \<and> \<not> nd_is_stop n \<and> \<not> nd_is_last n"
    using nth by (fastforce simp: in_set_conv_nth)
  have ne: "?ds \<noteq> []" using assms(1) by (metis data_nodes_length length_0_conv)
  show "length ns = ?n + (if link = None then 0 else 1)" "ns \<noteq> []"
    using ne by (simp_all add: ns_def new_nodes_def Let_def split: option.split)
  show "\<forall>i < length ns. nd_group (ns ! i) = grp \<and> nd_desc_indx (ns ! i) = i"
    using nth by (auto simp: ns_def new_nodes_def Let_def nth_append nth_list_update link_node_def split: option.splits)
  show "\<forall>n \<in> set (butlast ns). nd_desc_type n = DESC_DATA \<and> \<not> nd_is_stop n \<and> \<not> nd_is_last n"
    using ds butlast_update_last [of ?ds]
    by (auto simp: ns_def new_nodes_def Let_def split: option.split dest: in_set_butlastD)
  show "nd_is_last (last ns)"
    using ne by (auto simp: ns_def new_nodes_def Let_def link_node_def last_list_update split: option.split)
  show "nd_desc_type (last ns) = DESC_DATA \<and> nd_is_stop (last ns)" if "link = None"
    using ne that nth [of "?n - 1"] assms(1) by (simp add: ns_def new_nodes_def Let_def last_list_update)
  show "nd_desc_type (last ns) = DESC_LINK \<and> nd_mem_addr (last ns) = p" if "link = Some p"
    using that by (simp add: ns_def new_nodes_def Let_def link_node_def)
qed

lemma map_update_same:
  assumes "i < length xs" "f y = f (xs ! i)"
  shows "map f (xs[i := y]) = map f xs"
  using assms by (simp add: map_update list_update_same_conv)

lemma chained_update:
  assumes "i < length ns" "nd_mem_addr y = nd_mem_addr (ns ! i)" "nd_mem_size y = nd_mem_size (ns ! i)"
  shows "chained cfg a (ns[i := y]) = chained cfg a ns"
  using assms
proof (induction ns arbitrary: a i)
  case (Cons n ns)
  then show ?case by (cases i) (simp_all add: node_advance_def)
qed simp

text \<open>The data nodes among them cover the buffer.\<close>

lemma new_nodes_cover:
  assumes lim: "limit_ok cfg m lim" and m: "m \<noteq> 0"
  shows "buffer_nodes cfg a m (data_of (new_nodes cfg grp flags a m lim link))"
proof -
  let ?n = "data_count m lim"
  let ?ds = "data_nodes cfg grp flags ?n 0 a m lim"
  have lz: "lim \<noteq> 0" using lim by (simp add: limit_ok_def)
  have c: "?n \<noteq> 0" using num_node_count [OF lim m] by simp
  have u: "unit_of cfg \<noteq> 0" and lt: "unat lim div unit_of cfg < unat (MDMA_LENGTH_LIMIT (\<not> cf_add_info cfg))"
    using lim by (simp_all add: limit_ok_def)
  have s: "sum_list (map (node_bytes cfg) ?ds) = unat m"
    "\<forall>x \<in> set ?ds. nd_mem_size x \<noteq> 0 \<and> node_bytes cfg x \<le> unat lim"
    using data_nodes_sizes [OF m lz data_count_bounds [OF lz m] u] lim by (simp_all add: limit_ok_def)
  have small: "nd_mem_size x < MDMA_LENGTH_LIMIT (\<not> cf_add_info cfg)" if "x \<in> set ?ds" for x
  proof -
    have "unat (nd_mem_size x) * unit_of cfg \<le> unat lim" using s(2) that by (simp add: node_bytes_def)
    then have "unat (nd_mem_size x) \<le> unat lim div unit_of cfg" using u by (simp add: less_eq_div_iff_mult_less_eq)
    then show ?thesis using lt by (simp add: word_less_nat_alt)
  qed
  have b: "buffer_nodes cfg a m ?ds"
    using s small data_nodes_chained by (simp add: buffer_nodes_def)
  have d: "data_of ?ds = ?ds"
    using data_nodes_nth [where cfg = cfg and grp = grp and flags = flags and n = ?n and i = 0 and a = a and m = m and lim = lim]
    by (fastforce simp: data_of_def filter_id_conv in_set_conv_nth)
  show ?thesis
  proof (cases link)
    case (Some p)
    then show ?thesis using b d by (simp add: new_nodes_def Let_def data_of_def link_node_def)
  next
    case None
    let ?y = "(?ds ! (?n - 1))\<lparr>nd_is_stop := True, nd_is_last := True\<rparr>"
    have k: "?n - 1 < length ?ds" using c by simp
    have y: "?ds ! (?n - 1) \<in> set ?ds" using k by simp
    have "data_of (?ds[?n - 1 := ?y]) = ?ds[?n - 1 := ?y]"
    proof -
      have "\<forall>x \<in> set ?ds. nd_desc_type x = DESC_DATA" using d by (simp add: data_of_def filter_id_conv)
      then have "\<forall>x \<in> set (?ds[?n - 1 := ?y]). nd_desc_type x = DESC_DATA"
        using y set_update_subset_insert [of ?ds "?n - 1" ?y] by auto
      then show ?thesis by (simp add: data_of_def filter_id_conv)
    qed
    moreover have "buffer_nodes cfg a m (?ds[?n - 1 := ?y])"
      using b chained_update [OF k, of ?y] map_update_same [OF k, of "node_bytes cfg" ?y] y
        set_update_subset_insert [of ?ds "?n - 1" ?y]
      by (auto simp: buffer_nodes_def node_bytes_def)
    ultimately show ?thesis using None by (simp add: new_nodes_def Let_def)
  qed
qed

definition grown :: "runtime \<Rightarrow> runtime \<Rightarrow> bool" where
  "grown rt rt' \<longleftrightarrow> heaps_fit rt' \<and> (\<forall>i a. below rt i a \<longrightarrow> below rt' i a)"

definition group_link :: "mdma_trans \<Rightarrow> bool \<Rightarrow> u32 \<Rightarrow> u32 option" where
  "group_link t is_last first_pool =
     (if \<not> is_last then Some 0 else if tr_trans_type t = MDMA_TRANS_RING then Some first_pool else None)"

definition relink :: "mdma_trans \<Rightarrow> u32 \<Rightarrow> 'd mdma_sys \<Rightarrow> 'd mdma_sys option" where
  "relink t pool s =
     (if tr_group_list t = [] then Some s
      else do {
        pg \<leftarrow> md_groups s (last (tr_group_list t));
        upd_node (gr_node_group pg) (gr_node_nmb pg - 1) (\<lambda>n. n\<lparr>nd_mem_addr := pool\<rparr>) s })"

definition new_group :: "u32 \<Rightarrow> u32 \<Rightarrow> nat \<Rightarrow> u32 \<Rightarrow> u32 \<Rightarrow> mdma_group" where
  "new_group tr arr n pool gap =
     \<lparr>gr_trans = tr, gr_node_group = arr, gr_node_nmb = n, gr_cur_indx = -1, gr_desc_pool_addr = pool,
      gr_desc_pool_size = of_nat n * gap, gr_gap_size = gap, gr_group_done = False\<rparr>"

definition extended :: "mdma_trans \<Rightarrow> u32 \<Rightarrow> bool \<Rightarrow> mdma_trans" where
  "extended t grp is_last =
     t\<lparr>tr_first_group := (if tr_first_group t = 0 then grp else tr_first_group t),
       tr_last_group := (if is_last then grp else tr_last_group t),
       tr_group_list := tr_group_list t @ [grp], tr_group_nmb := tr_group_nmb t + 1\<rparr>"

text \<open>A successful call, with the state it leaves.\<close>

definition added ::
  "u32 \<Rightarrow> mdma_trans \<Rightarrow> mdma_cfg \<Rightarrow> u32 \<Rightarrow> u32 \<Rightarrow> u32 \<Rightarrow> bool \<Rightarrow> u32 \<Rightarrow> u32 \<Rightarrow> 'd mdma_sys \<Rightarrow> u32 \<Rightarrow> u32 \<Rightarrow> u32
     \<Rightarrow> runtime \<Rightarrow> 'd mdma_sys \<Rightarrow> bool" where
  "added tr t cfg a m flags is_last gap lim s grp arr pool rt s' \<longleftrightarrow>
     grp \<noteq> 0 \<and> (is_last \<longrightarrow> tr_trans_type t = MDMA_TRANS_QUEUE \<or> tr_trans_type t = MDMA_TRANS_RING) \<and>
     \<not> below (md_heaps s) 0 grp \<and> \<not> below (md_heaps s) 0 arr \<and> \<not> below (md_heaps s) (cf_heap_id cfg) pool \<and>
     below rt 0 grp \<and> below rt 0 arr \<and> below rt (cf_heap_id cfg) pool \<and>
     (\<exists>s1 link. s1 = s\<lparr>md_heaps := rt,
          md_groups := (md_groups s)(grp \<mapsto> new_group tr arr (data_count m lim + (if link = None then 0 else 1)) pool gap),
          md_nodes := (md_nodes s)(arr \<mapsto> new_nodes cfg grp flags a m lim link)\<rparr> \<and>
        link = group_link t is_last (pool_of s1 (tr_first_group (extended t grp is_last))) \<and>
        (\<exists>s2. relink t pool s1 = Some s2 \<and> s' = s2\<lparr>md_trans := (md_trans s2)(tr \<mapsto> extended t grp is_last)\<rparr>))"

lemma mdma_malloc_fresh:
  assumes m: "mdma_malloc len s = Some (a, s')" and fit: "heaps_fit (md_heaps s)" and sz: "0 < len" "unat len \<le> 2 ^ 24"
  shows "\<exists>rt. s' = s\<lparr>md_heaps := rt\<rparr> \<and> grown (md_heaps s) rt \<and> \<not> below (md_heaps s) 0 a \<and> below rt 0 a"
proof -
  obtain rt where r: "rumboot_malloc_from_heap_misaligned 0 len 4 0 (md_heaps s) = Some (a, rt)" "s' = s\<lparr>md_heaps := rt\<rparr>"
    using m by (auto simp: mdma_malloc_def rumboot_malloc_def rumboot_malloc_from_heap_def Option.bind_eq_Some_conv)
  have "unat (4 :: u32) \<le> 16" by simp
  from malloc_fresh [OF fit this sz r(1)] show ?thesis using r(2) by (auto simp: grown_def)
qed

lemma grown_trans: "grown a b \<Longrightarrow> grown b c \<Longrightarrow> grown a c"
  by (auto simp: grown_def)

lemma sizes_small:
  assumes "n \<noteq> 0" "n \<le> 2 ^ 19 + 1" "k \<in> {8, 16, 28 :: u32}"
  shows "0 < of_nat n * k" "unat (of_nat n * k) \<le> 2 ^ 24"
proof -
  have "unat (of_nat n * k) = n * unat k"
  proof -
    have "unat (of_nat n :: u32) = n" using assms(2) by (simp add: unat_of_nat)
    moreover have "n * unat k < 2 ^ 32"
      using assms(2,3) by auto
    ultimately show ?thesis by (simp add: unat_word_ariths(2))
  qed
  then show "unat (of_nat n * k) \<le> 2 ^ 24" "0 < of_nat n * k"
    using assms by (auto simp: word_less_nat_alt)
qed

lemma finish_spec:
  assumes nn: "nn = data_count m lim + (if \<not> is_last \<or> tr_trans_type t = MDMA_TRANS_RING then 1 else 0)"
    and type_ok: "is_last \<longrightarrow> tr_trans_type t = MDMA_TRANS_QUEUE \<or> tr_trans_type t = MDMA_TRANS_RING"
    and call: "add_group_finish tr t cfg a m flags is_last lim (data_count m lim) grp arr (new_group tr arr nn pool gap) s
      = Some (r, s')"
  shows "r = 0 \<and> (\<exists>s1 link. s1 = s\<lparr>md_groups := (md_groups s)(grp \<mapsto>
          new_group tr arr (data_count m lim + (if link = None then 0 else 1)) pool gap),
          md_nodes := (md_nodes s)(arr \<mapsto> new_nodes cfg grp flags a m lim link)\<rparr> \<and>
        link = group_link t is_last (pool_of s1 (tr_first_group (extended t grp is_last))) \<and>
        (\<exists>s2. relink t pool s1 = Some s2 \<and> s' = s2\<lparr>md_trans := (md_trans s2)(tr \<mapsto> extended t grp is_last)\<rparr>))"
proof -
  let ?g = "new_group tr arr nn pool gap"
  let ?s0 = "s\<lparr>md_groups := (md_groups s)(grp \<mapsto> ?g)\<rparr>"
  define F where "F = (if tr_first_group t = 0 then grp else tr_first_group t)"
  define link where "link = group_link t is_last (pool_of ?s0 F)"
  let ?s1 = "?s0\<lparr>md_nodes := (md_nodes s)(arr \<mapsto> new_nodes cfg grp flags a m lim link)\<rparr>"
  let ?ds = "data_nodes cfg grp flags (data_count m lim) 0 a m lim"
  have ext: "extended t grp is_last = t\<lparr>tr_first_group := F, tr_last_group := (if is_last then grp else tr_last_group t),
       tr_group_list := tr_group_list t @ [grp], tr_group_nmb := tr_group_nmb t + 1\<rparr>"
    by (simp add: extended_def F_def)
  have nn': "nn = data_count m lim + (if link = None then 0 else 1)"
    using nn by (simp add: group_link_def link_def)
  obtain fg where fg: "md_groups ?s0 F = Some fg"
    using call by (auto simp: add_group_finish_def Let_def Option.bind_eq_Some_conv F_def)
  have p: "pool_of ?s0 F = gr_desc_pool_addr fg" using fg by (simp add: pool_of_def)
  have g: "gr_node_nmb ?g = nn" "gr_desc_pool_addr ?g = pool" by (simp_all add: new_group_def)
  have ns: "(if data_count m lim < nn then ?ds @ [link_node grp (data_count m lim) (if is_last then gr_desc_pool_addr fg else 0)]
      else ?ds[data_count m lim - 1 := (?ds ! (data_count m lim - 1))\<lparr>nd_is_stop := True, nd_is_last := True\<rparr>])
    = new_nodes cfg grp flags a m lim link"
    unfolding new_nodes_def link_def group_link_def p by (simp add: nn Let_def)
  have up: "?s0\<lparr>md_nodes := (md_nodes ?s0)(arr \<mapsto> ns)\<rparr> = ?s0\<lparr>md_nodes := (md_nodes s)(arr \<mapsto> ns)\<rparr>" for ns by simp
  have "do { s2 \<leftarrow> relink t pool ?s1; Some (0, s2\<lparr>md_trans := (md_trans s2)(tr \<mapsto> extended t grp is_last)\<rparr>) } = Some (r, s')"
    using call unfolding add_group_finish_def Let_def F_def [symmetric] fg bind.bind_lunit g ns up relink_def ext
    by (cases "?ds = []") (simp_all only: if_True if_False option.distinct simp_thms)
  then obtain s2 where s2: "relink t pool ?s1 = Some s2" "r = 0"
      "s' = s2\<lparr>md_trans := (md_trans s2)(tr \<mapsto> extended t grp is_last)\<rparr>"
    by (auto simp: Option.bind_eq_Some_conv)
  have "link = group_link t is_last (pool_of ?s1 (tr_first_group (extended t grp is_last)))"
    unfolding ext by (simp add: link_def pool_of_def)
  moreover have "?s1 = s\<lparr>md_groups := (md_groups s)(grp \<mapsto>
      new_group tr arr (data_count m lim + (if link = None then 0 else 1)) pool gap),
      md_nodes := (md_nodes s)(arr \<mapsto> new_nodes cfg grp flags a m lim link)\<rparr>"
    by (simp only: nn' [symmetric])
  ultimately show ?thesis using s2 by blast
qed

lemma alloc_cases:
  assumes nn: "nn = data_count m lim + (if \<not> is_last \<or> tr_trans_type t = MDMA_TRANS_RING then 1 else 0)"
    and c: "data_count m lim \<noteq> 0" "data_count m lim \<le> 2 ^ 19"
    and type_ok: "is_last \<longrightarrow> tr_trans_type t = MDMA_TRANS_QUEUE \<or> tr_trans_type t = MDMA_TRANS_RING"
    and gap: "(gap, al) \<in> {(8, 8), (16, 16)}" and grp: "grp \<noteq> 0"
    and fit: "grown (md_heaps s0) rt0" "\<not> below (md_heaps s0) 0 grp" "below rt0 0 grp"
    and call: "add_group_alloc tr t cfg a m flags is_last gap al lim (data_count m lim) nn grp (s0\<lparr>md_heaps := rt0\<rparr>)
      = Some (r, s')"
  shows "r \<noteq> 0 \<and> (\<exists>rt. grown (md_heaps s0) rt \<and> s' = s0\<lparr>md_heaps := rt\<rparr>) \<or>
    r = 0 \<and> (\<exists>arr pool rt. grown (md_heaps s0) rt \<and> added tr t cfg a m flags is_last gap lim s0 grp arr pool rt s')"
proof -
  have n: "nn \<noteq> 0" "nn \<le> 2 ^ 19 + 1" using nn c by simp_all
  have fit0: "heaps_fit rt0" using fit(1) by (simp add: grown_def)
  obtain arr s1 where a1: "mdma_malloc (of_nat nn * sizeof_mdma_node) (s0\<lparr>md_heaps := rt0\<rparr>) = Some (arr, s1)"
    using call by (auto simp: add_group_alloc_def Option.bind_eq_Some_conv)
  obtain rt1 where r1: "s1 = s0\<lparr>md_heaps := rt1\<rparr>" "grown rt0 rt1" "\<not> below rt0 0 arr" "below rt1 0 arr"
    using mdma_malloc_fresh [OF a1] fit0 sizes_small [OF n, of 28] by (auto simp: sizeof_mdma_node_def)
  note call = call [unfolded add_group_alloc_def a1 bind.bind_lunit prod.case]
  show ?thesis
  proof (cases "arr = 0")
    case True
    then have "r \<noteq> 0" "s' = s0\<lparr>md_heaps := rt1\<rparr>" using call r1(1) by simp_all
    then show ?thesis using grown_trans [OF fit(1) r1(2)] by blast
  next
    case arr: False
    obtain pool rt where p: "rumboot_malloc_from_heap_misaligned (cf_heap_id cfg) (of_nat nn * gap) al 0 rt1 = Some (pool, rt)"
      using call arr r1(1) by (auto simp: Option.bind_eq_Some_conv rumboot_malloc_from_heap_aligned_def Let_def)
    have fit1: "heaps_fit rt1" using r1(2) by (simp add: grown_def)
    have g3: "gap \<in> {8, 16, 28}" and al: "unat al \<le> 16" using gap by auto
    note sz = sizes_small [OF n g3]
    note f = malloc_fresh [OF fit1 al sz p]
    have gr: "grown rt1 rt" using f(1,4) by (simp add: grown_def)
    then have gr0: "grown (md_heaps s0) rt" using fit(1) r1(2) grown_trans by blast
    have call: "(if pool = 0 then Some (-23, s0\<lparr>md_heaps := rt\<rparr>)
        else add_group_finish tr t cfg a m flags is_last lim (data_count m lim) grp arr (new_group tr arr nn pool gap)
               (s0\<lparr>md_heaps := rt\<rparr>)) = Some (r, s')"
      using call arr p
      by (simp add: r1(1) rumboot_malloc_from_heap_aligned_def Let_def new_group_def split: if_splits)
    show ?thesis
    proof (cases "pool = 0")
      case True
      then show ?thesis using call gr0 by auto
    next
      case False
      let ?s = "s0\<lparr>md_heaps := rt\<rparr>"
      have "add_group_finish tr t cfg a m flags is_last lim (data_count m lim) grp arr (new_group tr arr nn pool gap) ?s
        = Some (r, s')"
        using call False by (simp add: new_group_def)
      from finish_spec [OF nn type_ok this] have fs: "r = 0"
        "\<exists>s1 link. s1 = s0\<lparr>md_heaps := rt, md_groups := (md_groups s0)(grp \<mapsto>
            new_group tr arr (data_count m lim + (if link = None then 0 else 1)) pool gap),
            md_nodes := (md_nodes s0)(arr \<mapsto> new_nodes cfg grp flags a m lim link)\<rparr> \<and>
          link = group_link t is_last (pool_of s1 (tr_first_group (extended t grp is_last))) \<and>
          (\<exists>s2. relink t pool s1 = Some s2 \<and> s' = s2\<lparr>md_trans := (md_trans s2)(tr \<mapsto> extended t grp is_last)\<rparr>)"
        by simp_all
      have b: "\<not> below (md_heaps s0) 0 arr" "\<not> below (md_heaps s0) (cf_heap_id cfg) pool"
          "below rt 0 grp" "below rt 0 arr" "below rt (cf_heap_id cfg) pool"
        using fit r1 f gr by (auto simp: grown_def)
      have "added tr t cfg a m flags is_last gap lim s0 grp arr pool rt s'"
        unfolding added_def using grp type_ok fit(2) b fs(2) by blast
      then show ?thesis using fs(1) gr0 by blast
    qed
  qed
qed

lemma build_cases:
  assumes fit: "heaps_fit (md_heaps s)" and lim: "limit_ok cfg m lim" and m: "m \<noteq> 0"
    and gap: "(gap, al) \<in> {(8, 8), (16, 16)}"
    and call: "add_group_build tr t cfg a m flags is_last gap al lim (int (data_count m lim)) s = Some (r, s')"
  shows "r \<noteq> 0 \<and> (\<exists>rt. grown (md_heaps s) rt \<and> s' = s\<lparr>md_heaps := rt\<rparr>) \<or>
    r = 0 \<and> (\<exists>grp arr pool rt. grown (md_heaps s) rt \<and> added tr t cfg a m flags is_last gap lim s grp arr pool rt s')"
proof -
  let ?n = "data_count m lim"
  obtain grp s1 where g: "mdma_malloc sizeof_mdma_group s = Some (grp, s1)"
    using call by (auto simp: add_group_build_def Option.bind_eq_Some_conv)
  obtain rt1 where r1: "s1 = s\<lparr>md_heaps := rt1\<rparr>" "grown (md_heaps s) rt1" "\<not> below (md_heaps s) 0 grp" "below rt1 0 grp"
    using mdma_malloc_fresh [OF g fit] by (auto simp: sizeof_mdma_group_def)
  note call = call [unfolded add_group_build_def g bind.bind_lunit prod.case]
  consider "grp = 0" | "grp \<noteq> 0" "is_last" "tr_trans_type t \<noteq> MDMA_TRANS_QUEUE" "tr_trans_type t \<noteq> MDMA_TRANS_RING"
    | "grp \<noteq> 0" "is_last \<longrightarrow> tr_trans_type t = MDMA_TRANS_QUEUE \<or> tr_trans_type t = MDMA_TRANS_RING" by blast
  then show ?thesis
  proof cases
    case 1
    then show ?thesis using call r1 by auto
  next
    case 2
    then show ?thesis using call r1 by auto
  next
    case 3
    have n: "nat (if \<not> is_last \<or> tr_trans_type t = MDMA_TRANS_RING then int ?n + 1 else int ?n) =
        ?n + (if \<not> is_last \<or> tr_trans_type t = MDMA_TRANS_RING then 1 else 0)" by (simp add: nat_add_distrib)
    have "add_group_alloc tr t cfg a m flags is_last gap al lim ?n
        (?n + (if \<not> is_last \<or> tr_trans_type t = MDMA_TRANS_RING then 1 else 0)) grp (s\<lparr>md_heaps := rt1\<rparr>) = Some (r, s')"
      using call 3 unfolding n r1(1) nat_int by (simp only: if_False simp_thms split: if_splits)
    from alloc_cases [OF refl num_node_count(3,4) [OF lim m] 3(2) gap 3(1) r1(2-4) this]
    show ?thesis by blast
  qed
qed

definition set_last_addr :: "u32 \<Rightarrow> mdma_node list \<Rightarrow> mdma_node list" where
  "set_last_addr p ns = ns[length ns - 1 := (last ns)\<lparr>nd_mem_addr := p\<rparr>]"

lemma set_last_addr:
  assumes "ns \<noteq> []"
  shows "length (set_last_addr p ns) = length ns" "set_last_addr p ns \<noteq> []"
    "butlast (set_last_addr p ns) = butlast ns" "last (set_last_addr p ns) = (last ns)\<lparr>nd_mem_addr := p\<rparr>"
    "(\<forall>i < length ns. nd_group (ns ! i) = g \<and> nd_desc_indx (ns ! i) = i) \<Longrightarrow>
       \<forall>i < length ns. nd_group (set_last_addr p ns ! i) = g \<and> nd_desc_indx (set_last_addr p ns ! i) = i"
    "nd_desc_type (last ns) = DESC_LINK \<Longrightarrow> data_of (set_last_addr p ns) = data_of ns"
proof -
  show "length (set_last_addr p ns) = length ns" "set_last_addr p ns \<noteq> []"
    "butlast (set_last_addr p ns) = butlast ns" "last (set_last_addr p ns) = (last ns)\<lparr>nd_mem_addr := p\<rparr>"
    using assms by (simp_all add: set_last_addr_def butlast_list_update last_list_update)
  show "\<forall>i < length ns. nd_group (set_last_addr p ns ! i) = g \<and> nd_desc_indx (set_last_addr p ns ! i) = i"
    if "\<forall>i < length ns. nd_group (ns ! i) = g \<and> nd_desc_indx (ns ! i) = i"
    using that assms by (auto simp: set_last_addr_def nth_list_update last_conv_nth)
  obtain bs n where ns: "ns = bs @ [n]" using assms by (metis append_butlast_last_id)
  show "data_of (set_last_addr p ns) = data_of ns" if "nd_desc_type (last ns) = DESC_LINK"
    using that by (simp add: set_last_addr_def ns data_of_def list_update_append)
qed

lemma group_wf_array:
  assumes "group_wf s tr gp"
  shows "\<exists>g. md_groups s gp = Some g \<and> md_nodes s (gr_node_group g) = Some (node_array s gp) \<and>
    array_of s gp = gr_node_group g \<and> length (node_array s gp) = gr_node_nmb g \<and> node_array s gp \<noteq> []"
  using assms by (auto simp: group_wf_def node_array_def array_of_def)

lemma relink_spec:
  assumes wf: "group_wf s tr (last (tr_group_list t))" and ne: "tr_group_list t \<noteq> []"
  shows "relink t p s = Some (s\<lparr>md_nodes := (md_nodes s)(array_of s (last (tr_group_list t)) \<mapsto>
    set_last_addr p (node_array s (last (tr_group_list t))))\<rparr>)"
proof -
  obtain g where g: "md_groups s (last (tr_group_list t)) = Some g"
    "md_nodes s (gr_node_group g) = Some (node_array s (last (tr_group_list t)))"
    "array_of s (last (tr_group_list t)) = gr_node_group g"
    "length (node_array s (last (tr_group_list t))) = gr_node_nmb g" "node_array s (last (tr_group_list t)) \<noteq> []"
    using group_wf_array [OF wf] by blast
  then show ?thesis
    using ne by (simp add: relink_def upd_node_def set_last_addr_def last_conv_nth flip: g(4))
qed

text \<open>The nodes after a successful call.\<close>

lemma added_arrays:
  assumes wf: "trans_wf s c t"
    and add: "added (ch_trans c) t (ch_cfg c) a m flags is_last gap lim s grp arr pool rt s'"
  obtains link where
    "md_groups s' = (md_groups s)(grp \<mapsto> new_group (ch_trans c) arr (data_count m lim + (if link = None then 0 else 1)) pool gap)"
    "link = group_link t is_last (pool_of s' (tr_first_group (extended t grp is_last)))"
    "md_heaps s' = rt" "md_chans s' = md_chans s" "md_trans s' = (md_trans s)(ch_trans c \<mapsto> extended t grp is_last)"
    "grp \<notin> set (tr_group_list t)" "node_array s' grp = new_nodes (ch_cfg c) grp flags a m lim link"
    "md_nodes s' arr = Some (node_array s' grp)"
    "\<forall>gp \<in> set (tr_group_list t). array_of s' gp = array_of s gp \<and> array_of s gp \<noteq> arr \<and>
       pool_of s' gp = pool_of s gp \<and> pool_of s gp \<noteq> pool \<and>
       md_nodes s' (array_of s gp) = Some (node_array s' gp) \<and>
       node_array s' gp = (if gp = last (tr_group_list t) then set_last_addr pool (node_array s gp) else node_array s gp)"
proof -
  let ?gs = "tr_group_list t"
  obtain s1 link s2 where s1: "s1 = s\<lparr>md_heaps := rt, md_groups := (md_groups s)(grp \<mapsto>
        new_group (ch_trans c) arr (data_count m lim + (if link = None then 0 else 1)) pool gap),
        md_nodes := (md_nodes s)(arr \<mapsto> new_nodes (ch_cfg c) grp flags a m lim link)\<rparr>"
    and link: "link = group_link t is_last (pool_of s1 (tr_first_group (extended t grp is_last)))"
    and s2: "relink t pool s1 = Some s2" "s' = s2\<lparr>md_trans := (md_trans s2)(ch_trans c \<mapsto> extended t grp is_last)\<rparr>"
    using add unfolding added_def by blast
  have lw: "list_wf s (cf_heap_id (ch_cfg c)) t" using wf by (simp add: trans_wf_def)
  have fresh: "gp \<noteq> grp" "array_of s gp \<noteq> arr" "pool_of s gp \<noteq> pool" if "gp \<in> set ?gs" for gp
    using that lw add by (auto simp: list_wf_def added_def)
  have gwf: "group_wf s (ch_trans c) gp" if "gp \<in> set ?gs" for gp using wf that by (simp add: trans_wf_def)
  have same: "array_of s1 gp = array_of s gp \<and> pool_of s1 gp = pool_of s gp \<and> node_array s1 gp = node_array s gp \<and>
      md_nodes s1 (array_of s gp) = Some (node_array s gp) \<and> group_wf s1 (ch_trans c) gp" if gp: "gp \<in> set ?gs" for gp
  proof -
    obtain g where g: "md_groups s gp = Some g" "md_nodes s (gr_node_group g) = Some (node_array s gp)"
      "array_of s gp = gr_node_group g" using group_wf_array [OF gwf [OF gp]] by blast
    have g1: "md_groups s1 gp = Some g" "md_nodes s1 (gr_node_group g) = Some (node_array s gp)"
      using g fresh [OF gp] by (simp_all add: s1)
    have "array_of s1 gp = array_of s gp" "pool_of s1 gp = pool_of s gp" "node_array s1 gp = node_array s gp"
      using g g1 by (simp_all add: array_of_def pool_of_def node_array_def)
    moreover have "group_wf s1 (ch_trans c) gp"
      using gwf [OF gp] unfolding group_wf_def g(1) g1(1) using g(2) g1(2) by auto
    ultimately show ?thesis using g(3) g1(2) by simp
  qed
  have groups: "md_groups s2 = md_groups s1 \<and> md_heaps s2 = rt \<and> md_chans s2 = md_chans s \<and> md_trans s2 = md_trans s \<and>
      md_nodes s2 = (if ?gs = [] then md_nodes s1 else (md_nodes s1)(array_of s (last ?gs) \<mapsto>
        set_last_addr pool (node_array s (last ?gs))))"
  proof (cases "?gs = []")
    case True
    then have "s2 = s1" using s2(1) by (simp add: relink_def)
    then show ?thesis using True by (simp add: s1)
  next
    case False
    then have "last ?gs \<in> set ?gs" by simp
    from same [OF this] show ?thesis
      using s2(1) False relink_spec [of s1 "ch_trans c" t pool] by (auto simp: s1)
  qed
  have pools: "pool_of s' gp = pool_of s1 gp" "array_of s' gp = array_of s1 gp" for gp
    using groups by (simp_all add: s2(2) pool_of_def array_of_def)
  have arr: "md_nodes s' arr = Some (new_nodes (ch_cfg c) grp flags a m lim link)"
    using groups fresh(2) [of "last ?gs"] by (auto simp: s2(2) s1)
  have na: "node_array s' grp = new_nodes (ch_cfg c) grp flags a m lim link"
    using arr groups by (simp add: node_array_def s2(2) s1 new_group_def)
  have old: "array_of s' gp = array_of s gp \<and> array_of s gp \<noteq> arr \<and>
       pool_of s' gp = pool_of s gp \<and> pool_of s gp \<noteq> pool \<and>
       md_nodes s' (array_of s gp) = Some (node_array s' gp) \<and>
       node_array s' gp = (if gp = last ?gs then set_last_addr pool (node_array s gp) else node_array s gp)"
    if gp: "gp \<in> set ?gs" for gp
  proof -
    have ne: "?gs \<noteq> []" "last ?gs \<in> set ?gs" using gp by (metis empty_iff empty_set last_in_set)+
    have inj: "array_of s gp = array_of s (last ?gs) \<longleftrightarrow> gp = last ?gs"
    proof -
      have "inj_on (array_of s) (set ?gs)" using lw by (simp add: list_wf_def distinct_map)
      then show ?thesis using gp ne(2) by (rule inj_on_eq_iff)
    qed
    obtain g where g: "md_groups s gp = Some g" "array_of s gp = gr_node_group g"
      using group_wf_array [OF gwf [OF gp]] by blast
    have n: "md_nodes s' (array_of s gp) = Some (if gp = last ?gs then set_last_addr pool (node_array s gp) else node_array s gp)"
      using same [OF gp] groups inj ne by (simp add: s2(2))
    moreover have "node_array s' gp = (if gp = last ?gs then set_last_addr pool (node_array s gp) else node_array s gp)"
      using n g fresh [OF gp] groups by (simp add: node_array_def s2(2) s1)
    ultimately show ?thesis using same [OF gp] pools fresh [OF gp] by simp
  qed
  show thesis
  proof (rule that)
    show "md_groups s' = (md_groups s)(grp \<mapsto> new_group (ch_trans c) arr (data_count m lim + (if link = None then 0 else 1)) pool gap)"
      using groups by (simp add: s2(2) s1)
    show "link = group_link t is_last (pool_of s' (tr_first_group (extended t grp is_last)))"
      unfolding pools by (rule link)
    show "grp \<notin> set ?gs" using fresh(1) by blast
    show "\<forall>gp \<in> set ?gs. array_of s' gp = array_of s gp \<and> array_of s gp \<noteq> arr \<and>
       pool_of s' gp = pool_of s gp \<and> pool_of s gp \<noteq> pool \<and>
       md_nodes s' (array_of s gp) = Some (node_array s' gp) \<and>
       node_array s' gp = (if gp = last ?gs then set_last_addr pool (node_array s gp) else node_array s gp)"
      using old by blast
  qed (use groups na arr in \<open>simp_all add: s2(2)\<close>)
qed

lemma added_wf:
  assumes wf: "trans_wf s c t" and open_t: "tr_last_group t = 0"
    and gr: "grown (md_heaps s) rt" and lim: "limit_ok (ch_cfg c) m lim" and m: "m \<noteq> 0"
    and add: "added (ch_trans c) t (ch_cfg c) a m flags is_last gap lim s grp arr pool rt s'"
  shows "trans_wf s' c (extended t grp is_last)"
    "buffer_nodes (ch_cfg c) a m (data_of (node_array s' grp))"
    "concat (map (\<lambda>gp. data_of (node_array s' gp)) (tr_group_list t)) =
     concat (map (\<lambda>gp. data_of (node_array s gp)) (tr_group_list t))"
    "md_chans s' = md_chans s"
proof -
  let ?gs = "tr_group_list t"
  obtain link where
    groups: "md_groups s' = (md_groups s)(grp \<mapsto> new_group (ch_trans c) arr (data_count m lim + (if link = None then 0 else 1)) pool gap)"
    and link: "link = group_link t is_last (pool_of s' (tr_first_group (extended t grp is_last)))"
    and hp: "md_heaps s' = rt" and chans: "md_chans s' = md_chans s"
    and tr: "md_trans s' = (md_trans s)(ch_trans c \<mapsto> extended t grp is_last)"
    and grp: "grp \<notin> set ?gs" "node_array s' grp = new_nodes (ch_cfg c) grp flags a m lim link"
      "md_nodes s' arr = Some (node_array s' grp)"
    and old0: "\<forall>gp \<in> set ?gs. array_of s' gp = array_of s gp \<and> array_of s gp \<noteq> arr \<and>
       pool_of s' gp = pool_of s gp \<and> pool_of s gp \<noteq> pool \<and>
       md_nodes s' (array_of s gp) = Some (node_array s' gp) \<and>
       node_array s' gp = (if gp = last ?gs then set_last_addr pool (node_array s gp) else node_array s gp)"
    by (rule added_arrays [OF wf add])
  note old = bspec [OF old0]
  have lw: "list_wf s (cf_heap_id (ch_cfg c)) t" and cw: "closed_wf s t"
    and su: "successively (\<lambda>gp gp'. links_to s gp (pool_of s gp')) ?gs"
    using wf by (simp_all add: trans_wf_def)
  have gwf: "group_wf s (ch_trans c) gp" if "gp \<in> set ?gs" for gp using wf that by (simp add: trans_wf_def)
  have lnk: "ends_in_link s gp" if "gp \<in> set ?gs" for gp
    using cw open_t that by (simp add: closed_wf_def)
  have at: "array_of s' grp = arr" "pool_of s' grp = pool"
    using groups by (simp_all add: array_of_def pool_of_def new_group_def)
  note nw = new_nodes_wf [OF num_node_count(3) [OF lim m], where cfg = "ch_cfg c" and grp = grp and flags = flags
      and a = a and link = link, folded grp(2)]
  have lastn: "last (node_array s' gp) = (if gp = last ?gs then (last (node_array s gp))\<lparr>nd_mem_addr := pool\<rparr>
      else last (node_array s gp))" if "gp \<in> set ?gs" for gp
    using old [OF that] set_last_addr(4) group_wf_array [OF gwf [OF that]] by auto
  have type: "is_last \<Longrightarrow> tr_trans_type t = MDMA_TRANS_QUEUE \<or> tr_trans_type t = MDMA_TRANS_RING"
    using add by (simp add: added_def)
  have endl: "ends_in_link s' gp" if "gp \<in> set ?gs" for gp
    using lnk [OF that] lastn [OF that] by (auto simp: ends_in_link_def)
  have new_wf: "group_wf s' (ch_trans c) grp"
    unfolding group_wf_def using groups grp(3) nw
    by (intro exI [of _ "new_group (ch_trans c) arr (data_count m lim + (if link = None then 0 else 1)) pool gap"]
        exI [of _ "node_array s' grp"]) (simp add: new_group_def)
  have old_wf: "group_wf s' (ch_trans c) gp" if gp: "gp \<in> set ?gs" for gp
  proof -
    obtain g ns where g: "md_groups s gp = Some g" "md_nodes s (gr_node_group g) = Some ns" "gr_trans g = ch_trans c"
      "length ns = gr_node_nmb g" "ns \<noteq> []" "\<forall>i < length ns. nd_group (ns ! i) = gp \<and> nd_desc_indx (ns ! i) = i"
      "\<forall>n \<in> set (butlast ns). nd_desc_type n = DESC_DATA \<and> \<not> nd_is_stop n \<and> \<not> nd_is_last n" "nd_is_last (last ns)"
      using gwf [OF gp] by (auto simp: group_wf_def)
    have ns: "node_array s gp = ns" "array_of s gp = gr_node_group g"
      using g by (simp_all add: node_array_def array_of_def)
    have f1: "md_groups s' gp = Some g" using g(1) groups grp(1) gp by auto
    have f2: "length ns' = gr_node_nmb g \<and> ns' \<noteq> [] \<and>
        (\<forall>i < length ns'. nd_group (ns' ! i) = gp \<and> nd_desc_indx (ns' ! i) = i) \<and>
        (\<forall>n \<in> set (butlast ns'). nd_desc_type n = DESC_DATA \<and> \<not> nd_is_stop n \<and> \<not> nd_is_last n) \<and>
        nd_is_last (last ns')" if "ns' = ns \<or> ns' = set_last_addr pool ns" for ns'
      using that g(4-8) set_last_addr(1-4) [OF g(5), of pool] set_last_addr(5) [OF g(5,6), of pool]
      by (elim disjE) simp_all
    have f3: "node_array s' gp = ns \<or> node_array s' gp = set_last_addr pool ns"
      and f4: "md_nodes s' (gr_node_group g) = Some (node_array s' gp)"
      using old [OF gp] unfolding ns by presburger+
    show ?thesis
      unfolding group_wf_def
      by (rule exI [of _ g], rule exI [of _ "node_array s' gp"]) (use f1 f4 g(3) f2 [OF f3] in blast)
  qed
  have list: "list_wf s' (cf_heap_id (ch_cfg c)) (extended t grp is_last)"
  proof -
    have mp: "map (array_of s') ?gs = map (array_of s) ?gs" "map (pool_of s') ?gs = map (pool_of s) ?gs"
      using old by simp_all
    have fr: "arr \<notin> array_of s ` set ?gs" "pool \<notin> pool_of s ` set ?gs" using old by blast+
    have bel: "below rt 0 gp \<and> below rt 0 (array_of s' gp) \<and> below rt (cf_heap_id (ch_cfg c)) (pool_of s' gp)"
      if gp: "gp \<in> set ?gs" for gp
    proof -
      have "below (md_heaps s) 0 gp" "below (md_heaps s) 0 (array_of s gp)"
          "below (md_heaps s) (cf_heap_id (ch_cfg c)) (pool_of s gp)"
        using lw gp by (simp_all add: list_wf_def)
      moreover have "array_of s' gp = array_of s gp" "pool_of s' gp = pool_of s gp" using old [OF gp] by blast+
      ultimately show ?thesis using gr by (simp add: grown_def)
    qed
    have new: "grp \<noteq> 0" "below rt 0 grp" "below rt 0 arr" "below rt (cf_heap_id (ch_cfg c)) pool"
      using add by (simp_all add: added_def)
    have ext: "tr_group_list (extended t grp is_last) = ?gs @ [grp]"
        "tr_group_nmb (extended t grp is_last) = tr_group_nmb t + 1"
        "tr_first_group (extended t grp is_last) = (if tr_first_group t = 0 then grp else tr_first_group t)"
      by (simp_all add: extended_def)
    have l: "tr_group_nmb t = length ?gs" "0 \<notin> set ?gs" "tr_first_group t = (case ?gs of [] \<Rightarrow> 0 | gp # _ \<Rightarrow> gp)"
        "distinct ?gs" "distinct (map (array_of s) ?gs)" "distinct (map (pool_of s) ?gs)"
      using lw by (simp_all add: list_wf_def)
    show ?thesis
      unfolding list_wf_def ext hp
    proof (intro conjI)
      show "(if tr_first_group t = 0 then grp else tr_first_group t) = (case ?gs @ [grp] of [] \<Rightarrow> 0 | gp # _ \<Rightarrow> gp)"
        using l(2,3) by (cases ?gs) auto
      show "distinct (map (array_of s') (?gs @ [grp]))" "distinct (map (pool_of s') (?gs @ [grp]))"
        using l(5,6) fr by (simp_all only: map_append mp list.map at) simp_all
      show "\<forall>gp \<in> set (?gs @ [grp]). below rt 0 gp \<and> below rt 0 (array_of s' gp) \<and>
          below rt (cf_heap_id (ch_cfg c)) (pool_of s' gp)"
        using bel new at by simp
    qed (use l new(1) grp(1) in simp_all)
  qed
  have succ: "successively (\<lambda>gp gp'. links_to s' gp (pool_of s' gp')) (?gs @ [grp])"
  proof -
    have "successively (\<lambda>gp gp'. links_to s' gp (pool_of s' gp')) ?gs"
    proof (unfold successively_conv_nth, intro allI impI)
      fix i assume i: "Suc i < length ?gs"
      then have l: "links_to s (?gs ! i) (pool_of s (?gs ! Suc i))" using su by (simp add: successively_conv_nth)
      have d: "distinct ?gs" using lw by (simp add: list_wf_def)
      then have "?gs ! i \<noteq> last ?gs" using i by (subst last_conv_nth) (auto simp: nth_eq_iff_index_eq)
      then show "links_to s' (?gs ! i) (pool_of s' (?gs ! Suc i))"
        using l i old [of "?gs ! i"] old [of "?gs ! Suc i"] by (simp add: links_to_def)
    qed
    moreover have "links_to s' (last ?gs) (pool_of s' grp)" if "?gs \<noteq> []"
      using that lnk [of "last ?gs"] lastn [of "last ?gs"] at by (simp add: links_to_def ends_in_link_def)
    ultimately show ?thesis by (auto simp: successively_append_iff)
  qed
  have closed: "closed_wf s' (extended t grp is_last)"
  proof (cases is_last)
    case False
    then have "link = Some 0" using link by (simp add: group_link_def)
    then have "ends_in_link s' grp" using nw(7) by (simp add: ends_in_link_def)
    then show ?thesis using False endl open_t by (simp add: closed_wf_def extended_def)
  next
    case True
    have "grp \<noteq> 0" using add by (simp add: added_def)
    have "tr_trans_type t = MDMA_TRANS_QUEUE \<and> stops s' grp \<or>
        tr_trans_type t = MDMA_TRANS_RING \<and> links_to s' grp (pool_of s' (tr_first_group (extended t grp True)))"
      using type [OF True] True link nw(6,7)
      by (auto simp: group_link_def stops_def links_to_def MDMA_TRANS_QUEUE_def MDMA_TRANS_RING_def)
    then show ?thesis using True endl \<open>grp \<noteq> 0\<close> by (simp add: closed_wf_def extended_def)
  qed
  have "heaps_fit rt" using gr by (simp add: grown_def)
  then show "trans_wf s' c (extended t grp is_last)"
    unfolding trans_wf_def using list succ closed new_wf old_wf tr hp
    by (simp add: extended_def)
  show "buffer_nodes (ch_cfg c) a m (data_of (node_array s' grp))"
    unfolding grp(2) by (rule new_nodes_cover [OF lim m])
  show "concat (map (\<lambda>gp. data_of (node_array s' gp)) ?gs) = concat (map (\<lambda>gp. data_of (node_array s gp)) ?gs)"
  proof (intro arg_cong [of _ _ concat] map_cong refl)
    fix gp assume gp: "gp \<in> set ?gs"
    have "node_array s gp \<noteq> []" using group_wf_array [OF gwf [OF gp]] by blast
    then show "data_of (node_array s' gp) = data_of (node_array s gp)"
      using old [OF gp] set_last_addr(6) lnk [OF gp] by (auto simp: ends_in_link_def)
  qed
  show "md_chans s' = md_chans s" by (rule chans)
qed

lemma trans_wf_grown:
  assumes "trans_wf s c t" "grown (md_heaps s) rt"
  shows "trans_wf (s\<lparr>md_heaps := rt\<rparr>) c t"
proof -
  have na: "node_array (s\<lparr>md_heaps := rt\<rparr>) = node_array s" "pool_of (s\<lparr>md_heaps := rt\<rparr>) = pool_of s"
      "array_of (s\<lparr>md_heaps := rt\<rparr>) = array_of s"
    by (simp_all add: fun_eq_iff node_array_def pool_of_def array_of_def split: option.split)
  have "group_wf (s\<lparr>md_heaps := rt\<rparr>) = group_wf s" "links_to (s\<lparr>md_heaps := rt\<rparr>) = links_to s"
      "closed_wf (s\<lparr>md_heaps := rt\<rparr>) = closed_wf s"
    by (simp_all add: fun_eq_iff group_wf_def links_to_def closed_wf_def ends_in_link_def stops_def na)
  then show ?thesis
    using assms by (auto simp: trans_wf_def list_wf_def grown_def na)
qed

text \<open>What a call that gets past the checks hands to \<open>add_group_build\<close>.\<close>

lemma add_group_cases:
  assumes c: "md_chans s chan = Some c" "chan \<noteq> 0" "ch_trans c \<noteq> 0" and t: "md_trans s (ch_trans c) = Some t"
    and call: "mdma_trans_add_group chan a m flags is_last s = Some (r, s')"
  shows "r \<noteq> 0 \<and> s' = s \<or>
    tr_last_group t = 0 \<and> m \<noteq> 0 \<and> (\<exists>gap al lim. limit_ok (ch_cfg c) m lim \<and> (gap, al) \<in> {(8, 8), (16, 16)} \<and>
      add_group_build (ch_trans c) t (ch_cfg c) a m flags is_last gap al lim (int (data_count m lim)) s = Some (r, s'))"
proof (cases "ch_state c = MDMA_CHAN_DUMMY \<and> tr_last_group t = 0 \<and> a \<noteq> 0 \<and> m \<noteq> 0 \<and> width_ok (ch_cfg c) \<and>
      a AND burst_mask (ch_cfg c) = 0 \<and> (cf_addr_inc (ch_cfg c) \<or> m AND burst_mask (ch_cfg c) = 0)")
  case False
  then show ?thesis
    using call by (auto simp: mdma_trans_add_group_def c t width_ok_def Let_def split: if_splits)
next
  case True
  have w: "width_ok (ch_cfg c)" "m \<noteq> 0" using True by simp_all
  have call: "(case desc_limits (ch_cfg c) m of
               Inl e \<Rightarrow> Some (e, s)
             | Inr (gap_size, desc_align, size_limit) \<Rightarrow>
                 let num_node = sint (m div size_limit)
                 in if num_node < 0 \<or> num_node + 2 < 0 then Some (-19, s)
                    else
                      let num_node = (if of_int num_node * size_limit \<noteq> m then num_node + 1 else num_node)
                      in add_group_build (ch_trans c) t (ch_cfg c) a m flags is_last
                           gap_size desc_align size_limit num_node s) = Some (r, s')"
    using call True unfolding mdma_trans_add_group_def width_ok_def by (auto simp: c t Let_def)
  show ?thesis
  proof (cases "desc_limits (ch_cfg c) m")
    case (Inl e)
    then have "e \<noteq> 0"
      by (auto simp: desc_limits_def pitch_limit_def Let_def split: if_splits sum.splits)
    then show ?thesis using call Inl by auto
  next
    case (Inr gal)
    obtain gap al lim where g: "gal = (gap, al, lim)" by (cases gal)
    note d = desc_limits_ok [OF Inr [unfolded g] w]
    note n = num_node_count [OF d(1) w(2)]
    have "add_group_build (ch_trans c) t (ch_cfg c) a m flags is_last gap al lim (int (data_count m lim)) s = Some (r, s')"
      using call n(1) unfolding Inr g sum.case prod.case Let_def n(2) by (simp split: if_splits)
    then show ?thesis using d True by blast
  qed
qed

lemma add_group_inv:
  assumes inv: "trans_inv s chan" and c: "md_chans s chan = Some c"
    and call: "mdma_trans_add_group chan a m flags is_last s = Some (r, s')"
  shows "trans_inv s' chan \<and> md_chans s' = md_chans s \<and>
    (if r = 0 then \<exists>ns. segments s' chan = segments s chan @ ns \<and> buffer_nodes (ch_cfg c) a m ns
     else segments s' chan = segments s chan)"
proof -
  obtain t where t: "chan \<noteq> 0" "ch_trans c \<noteq> 0" "trans_wf s c t" using inv c by (auto simp: trans_inv_def)
  then have mt: "md_trans s (ch_trans c) = Some t" by (simp add: trans_wf_def)
  have seg: "segments s chan = concat (map (\<lambda>gp. data_of (node_array s gp)) (tr_group_list t))"
    by (simp add: segments_def groups_of_def c mt)
  from add_group_cases [OF c t(1,2) mt call] show ?thesis
  proof (elim disjE conjE exE)
    assume "r \<noteq> 0" "s' = s"
    then show ?thesis using inv by simp
  next
    fix gap al lim
    assume l: "tr_last_group t = 0" "m \<noteq> 0" "limit_ok (ch_cfg c) m lim" "(gap, al) \<in> {(8, 8), (16, 16)}"
      and b: "add_group_build (ch_trans c) t (ch_cfg c) a m flags is_last gap al lim (int (data_count m lim)) s = Some (r, s')"
    have fit: "heaps_fit (md_heaps s)" using t(3) by (simp add: trans_wf_def)
    from build_cases [OF fit l(3,2,4) b] show ?thesis
    proof (elim disjE conjE exE)
      fix rt assume r: "r \<noteq> 0" "grown (md_heaps s) rt" "s' = s\<lparr>md_heaps := rt\<rparr>"
      have "segments s' chan = segments s chan"
        by (simp add: r(3) segments_def groups_of_def node_array_def cong: option.case_cong)
      then show ?thesis using r c t trans_wf_grown [OF t(3) r(2)] by (auto simp: trans_inv_def)
    next
      fix grp arr pool rt
      assume r: "r = 0" "grown (md_heaps s) rt"
        and a: "added (ch_trans c) t (ch_cfg c) a m flags is_last gap lim s grp arr pool rt s'"
      note w = added_wf [OF t(3) l(1) r(2) l(3,2) a]
      have mt': "md_trans s' (ch_trans c) = Some (extended t grp is_last)" using w(1) by (simp add: trans_wf_def)
      have "groups_of s' chan = tr_group_list t @ [grp]"
        using w(4) by (simp add: groups_of_def c mt' extended_def)
      then have "segments s' chan = segments s chan @ data_of (node_array s' grp)"
        using w(3) by (simp add: segments_def [of s'] seg)
      then show ?thesis using r(1) w(1,2,4) t(1,2) c by (auto simp: trans_inv_def)
    qed
  qed
qed

text \<open>The type of a transfer stays.\<close>

lemma add_group_type:
  assumes inv: "trans_inv s chan" and c: "md_chans s chan = Some c" and mt: "md_trans s (ch_trans c) = Some t"
    and call: "mdma_trans_add_group chan a m flags is_last s = Some (r, s')"
  shows "\<exists>t'. md_trans s' (ch_trans c) = Some t' \<and> tr_trans_type t' = tr_trans_type t"
proof -
  have t: "chan \<noteq> 0" "ch_trans c \<noteq> 0" "trans_wf s c t" using inv c mt by (auto simp: trans_inv_def trans_wf_def)
  from add_group_cases [OF c t(1,2) mt call] show ?thesis
  proof (elim disjE conjE exE)
    assume "s' = s"
    then show ?thesis using mt by simp
  next
    fix gap al lim
    assume l: "tr_last_group t = 0" "m \<noteq> 0" "limit_ok (ch_cfg c) m lim" "(gap, al) \<in> {(8, 8), (16, 16)}"
      and b: "add_group_build (ch_trans c) t (ch_cfg c) a m flags is_last gap al lim (int (data_count m lim)) s = Some (r, s')"
    have fit: "heaps_fit (md_heaps s)" using t(3) by (simp add: trans_wf_def)
    from build_cases [OF fit l(3,2,4) b] show ?thesis
    proof (elim disjE conjE exE)
      fix rt assume "s' = s\<lparr>md_heaps := rt\<rparr>"
      then show ?thesis using mt by simp
    next
      fix grp arr pool rt
      assume r: "grown (md_heaps s) rt"
        and a: "added (ch_trans c) t (ch_cfg c) a m flags is_last gap lim s grp arr pool rt s'"
      have "md_trans s' (ch_trans c) = Some (extended t grp is_last)"
        using added_wf(1) [OF t(3) l(1) r l(3,2) a] by (simp add: trans_wf_def)
      then show ?thesis by (simp add: extended_def)
    qed
  qed
qed

text \<open>A new transfer satisfies the invariant.\<close>

lemma trans_create_inv:
  assumes "md_chans s chan = Some c" "heaps_fit (md_heaps s)"
    and "mdma_trans_create chan ty s = Some (0, s')"
  shows "trans_inv s' chan \<and> segments s' chan = []"
proof -
  obtain tr s1 where m: "mdma_malloc sizeof_mdma_trans s = Some (tr, s1)" and n: "chan \<noteq> 0" "tr \<noteq> 0"
    and s': "Some s' = map_option (\<lambda>s. s\<lparr>md_trans := (md_trans s)(tr \<mapsto>
       \<lparr>tr_chan = chan, tr_group_list = [], tr_group_nmb = 0, tr_trans_type = ty, tr_first_group = 0,
        tr_cur_group = 0, tr_next_group = 0, tr_last_group = 0, tr_group_wait = 0, tr_ignore_event = False\<rparr>)\<rparr>)
       (upd_chan chan (\<lambda>c. c\<lparr>ch_trans := tr\<rparr>) s1)"
    using assms(1,3) by (auto simp: mdma_trans_create_def Option.bind_eq_Some_conv split: if_splits)
  obtain rt where r: "s1 = s\<lparr>md_heaps := rt\<rparr>" "grown (md_heaps s) rt"
    using mdma_malloc_fresh [OF m assms(2)] by (auto simp: sizeof_mdma_trans_def)
  then show ?thesis
    using s' n assms(1)
    by (auto simp: upd_chan_def trans_inv_def trans_wf_def list_wf_def closed_wf_def grown_def segments_def groups_of_def)
qed

text \<open>C27: \<open>mdma_trans_add_group\<close> keeps the structure of a transfer: groups, arrays of nodes and pools are apart, every
  group ends in a link to the descriptors of the next, and the last one stops or leads back to the first. A call
  that succeeds adds data nodes that cover the buffer exactly, in order, each within what a descriptor can hold; a
  call that fails adds none.\<close>

theorem add_group_keeps_transfer:
  assumes inv: "trans_inv s chan" and c: "md_chans s chan = Some c"
    and call: "mdma_trans_add_group chan a m flags is_last s = Some (r, s')"
  shows "trans_inv s' chan \<and> md_chans s' = md_chans s \<and>
    (if r = 0 then \<exists>ns. segments s' chan = segments s chan @ ns \<and> buffer_nodes (ch_cfg c) a m ns
     else segments s' chan = segments s chan)"
  by (rule add_group_inv [OF assms])

section \<open>A transfer for a list of buffers\<close>

text \<open>What the drivers do: one group for every buffer, given as address, size and flags, the last one closing the transfer.\<close>

fun add_groups :: "u32 \<Rightarrow> (u32 \<times> u32 \<times> u32) list \<Rightarrow> 'd mdma_sys \<Rightarrow> 'd mdma_sys option" where
  "add_groups chan [] s = Some s"
| "add_groups chan ((a, m, flags) # bufs) s =
     (case mdma_trans_add_group chan a m flags (bufs = []) s of
        None \<Rightarrow> None
      | Some (r, s) \<Rightarrow> if r = 0 then add_groups chan bufs s else None)"

lemma add_group_extends:
  assumes inv: "trans_inv s chan" and c: "md_chans s chan = Some c" and mt: "md_trans s (ch_trans c) = Some t"
    and call: "mdma_trans_add_group chan a m flags is_last s = Some (0, s')"
  shows "\<exists>grp. grp \<noteq> 0 \<and> md_trans s' (ch_trans c) = Some (extended t grp is_last)"
proof -
  have t: "chan \<noteq> 0" "ch_trans c \<noteq> 0" "trans_wf s c t" using inv c mt by (auto simp: trans_inv_def trans_wf_def)
  from add_group_cases [OF c t(1,2) mt call]
  obtain gap al lim where l: "tr_last_group t = 0" "m \<noteq> 0" "limit_ok (ch_cfg c) m lim" "(gap, al) \<in> {(8, 8), (16, 16)}"
      and b: "add_group_build (ch_trans c) t (ch_cfg c) a m flags is_last gap al lim (int (data_count m lim)) s = Some (0, s')"
    by auto
  have fit: "heaps_fit (md_heaps s)" using t(3) by (simp add: trans_wf_def)
  from build_cases [OF fit l(3,2,4) b] obtain grp arr pool rt where r: "grown (md_heaps s) rt"
      and ad: "added (ch_trans c) t (ch_cfg c) a m flags is_last gap lim s grp arr pool rt s'"
    by auto
  have "md_trans s' (ch_trans c) = Some (extended t grp is_last)"
    using added_wf(1) [OF t(3) l(1) r l(3,2) ad] by (simp add: trans_wf_def)
  moreover have "grp \<noteq> 0" using ad by (simp add: added_def)
  ultimately show ?thesis by blast
qed

lemma add_groups_cover:
  assumes "trans_inv s chan" "md_chans s chan = Some c" "md_trans s (ch_trans c) = Some t" "bufs \<noteq> []"
    and "add_groups chan bufs s = Some s'"
  shows "trans_inv s' chan \<and> md_chans s' = md_chans s \<and>
    (\<exists>t'. md_trans s' (ch_trans c) = Some t' \<and> tr_trans_type t' = tr_trans_type t \<and> tr_last_group t' \<noteq> 0 \<and>
      length (tr_group_list t') = length (tr_group_list t) + length bufs) \<and>
    (\<exists>nss. list_all2 (\<lambda>(a, m, flags) ns. buffer_nodes (ch_cfg c) a m ns) bufs nss \<and>
      segments s' chan = segments s chan @ concat nss)"
  using assms
proof (induction bufs arbitrary: s t)
  case (Cons b bufs)
  obtain a m flags where b: "b = (a, m, flags)" by (cases b)
  obtain s1 where call: "mdma_trans_add_group chan a m flags (bufs = []) s = Some (0, s1)"
    and rest: "add_groups chan bufs s1 = Some s'"
    using Cons.prems(5) by (auto simp: b split: option.splits if_splits)
  obtain ns where i: "trans_inv s1 chan" "md_chans s1 = md_chans s" "segments s1 chan = segments s chan @ ns"
      "buffer_nodes (ch_cfg c) a m ns"
    using add_group_inv [OF Cons.prems(1,2) call] by auto
  obtain grp where g: "grp \<noteq> 0" "md_trans s1 (ch_trans c) = Some (extended t grp (bufs = []))"
    using add_group_extends [OF Cons.prems(1-3) call] by blast
  show ?case
  proof (cases "bufs = []")
    case True
    then have e: "s' = s1" using rest by simp
    show ?thesis unfolding e
      using i g True by (auto simp: extended_def b intro!: exI [of _ "[ns]"])
  next
    case False
    have c1: "md_chans s1 chan = Some c" using i(2) Cons.prems(2) by simp
    from Cons.IH [OF i(1) c1 g(2) False rest] obtain t' nss where
      h: "trans_inv s' chan" "md_chans s' = md_chans s1" "md_trans s' (ch_trans c) = Some t'"
        "tr_trans_type t' = tr_trans_type (extended t grp (bufs = []))" "tr_last_group t' \<noteq> 0"
        "length (tr_group_list t') = length (tr_group_list (extended t grp (bufs = []))) + length bufs"
        "list_all2 (\<lambda>(a, m, flags) ns. buffer_nodes (ch_cfg c) a m ns) bufs nss"
        "segments s' chan = segments s1 chan @ concat nss"
      by blast
    show ?thesis using h i by (auto simp: extended_def b intro!: exI [of _ "ns # nss"])
  qed
qed simp


section \<open>A concrete transfer\<close>

definition demo_cfg :: mdma_cfg where
  "demo_cfg = \<lparr>cf_mode = MDMA_CHAN_POLLING, cf_desc_kind = NORMAL_DESC, cf_heap_id = 1, cf_burst_width = 4,
     cf_pitch_width = 0, cf_str_length = 0, cf_event_indx = -1, cf_event_prior = 0, cf_signal_time = 0,
     cf_sync_mode = MDMA_SYNC_NONE, cf_add_info = True, cf_addr_inc = True\<rparr>"

definition demo_heaps :: runtime where
  "demo_heaps = \<lparr>num_heaps = 2, heaps =
     [\<lparr>hp_start = 0x1000, hp_end = 0x9000, hp_pos = 0x2000, hp_save = 0x1000, hp_name = ''im0''\<rparr>,
      \<lparr>hp_start = 0x20000, hp_end = 0x30000, hp_pos = 0x20100, hp_save = 0x20000, hp_name = ''em''\<rparr>]\<rparr>"

definition demo_trans :: "u32 \<Rightarrow> mdma_trans" where
  "demo_trans ty = \<lparr>tr_chan = 0x1000, tr_group_list = [0x1100, 0x1200], tr_group_nmb = 2, tr_trans_type = ty,
     tr_first_group = 0x1100, tr_cur_group = 0, tr_next_group = 0, tr_last_group = 0x1200, tr_group_wait = 0,
     tr_ignore_event = False\<rparr>"

definition demo_chan :: mdma_chan where
  "demo_chan = \<lparr>ch_regs = 0x40000000, ch_state = MDMA_CHAN_DUMMY, ch_error = CHAN_NONE_ERR, ch_cfg = demo_cfg,
     ch_trans = 0x1050, ch_slave = 0, ch_master = 0\<rparr>"

definition demo_node :: "u32 \<Rightarrow> nat \<Rightarrow> u32 \<Rightarrow> u32 \<Rightarrow> bool \<Rightarrow> mdma_node" where
  "demo_node gp i a sz stop = \<lparr>nd_group = gp, nd_desc_type = DESC_DATA, nd_desc_indx = i, nd_mem_addr = a,
     nd_mem_size = sz, nd_is_stop = stop, nd_is_last = stop, nd_custom_flags = 0\<rparr>"

text \<open>Two groups, the first with two data nodes; the second stops the queue or closes the ring.\<close>

definition demo_sys :: "u32 \<Rightarrow> unit mdma_sys" where
  "demo_sys ty = \<lparr>md_heaps = demo_heaps, md_chans = [0x1000 \<mapsto> demo_chan], md_trans = [0x1050 \<mapsto> demo_trans ty],
     md_groups = [0x1100 \<mapsto> new_group 0x1050 0x1300 3 0x20000 8,
       0x1200 \<mapsto> new_group 0x1050 0x1400 (if ty = MDMA_TRANS_QUEUE then 1 else 2) 0x20020 8],
     md_nodes = [0x1300 \<mapsto> [demo_node 0x1100 0 0x50000 0x3FFC False, demo_node 0x1100 1 0x53FFC 4 False,
                   link_node 0x1100 2 0x20020],
       0x1400 \<mapsto> (if ty = MDMA_TRANS_QUEUE then [demo_node 0x1200 0 0x60000 16 True]
                 else [demo_node 0x1200 0 0x60000 16 False, link_node 0x1200 1 0x20000])],
     md_dev = ()\<rparr>"

lemma demo_heaps_fit: "heaps_fit demo_heaps"
  by (auto simp: heaps_fit_def heaps_ok_def heap_ok_def demo_heaps_def less_Suc_eq)

lemma demo_wf:
  assumes "ty = MDMA_TRANS_QUEUE \<or> ty = MDMA_TRANS_RING"
  shows "trans_wf (demo_sys ty) demo_chan (demo_trans ty)"
proof -
  have ne: "MDMA_TRANS_RING \<noteq> MDMA_TRANS_QUEUE" by (simp add: MDMA_TRANS_RING_def MDMA_TRANS_QUEUE_def)
  have na: "node_array (demo_sys ty) 0x1100 = [demo_node 0x1100 0 0x50000 0x3FFC False,
      demo_node 0x1100 1 0x53FFC 4 False, link_node 0x1100 2 0x20020]"
    "node_array (demo_sys ty) 0x1200 = (if ty = MDMA_TRANS_QUEUE then [demo_node 0x1200 0 0x60000 16 True]
       else [demo_node 0x1200 0 0x60000 16 False, link_node 0x1200 1 0x20000])"
    "pool_of (demo_sys ty) 0x1100 = 0x20000" "pool_of (demo_sys ty) 0x1200 = 0x20020"
    "array_of (demo_sys ty) 0x1100 = 0x1300" "array_of (demo_sys ty) 0x1200 = 0x1400"
    by (simp_all add: node_array_def pool_of_def array_of_def demo_sys_def new_group_def)
  have hp: "md_heaps (demo_sys ty) = demo_heaps" by (simp add: demo_sys_def)
  have "list_wf (demo_sys ty) 1 (demo_trans ty)"
    by (simp add: list_wf_def demo_trans_def na below_def hp demo_heaps_def)
  moreover have "group_wf (demo_sys ty) 0x1050 0x1100"
    by (simp add: group_wf_def demo_sys_def new_group_def demo_node_def link_node_def less_Suc_eq numeral_3_eq_3 all_conj_distrib)
  moreover have "group_wf (demo_sys ty) 0x1050 0x1200"
    by (simp add: group_wf_def demo_sys_def new_group_def demo_node_def link_node_def less_Suc_eq numeral_2_eq_2)
  moreover have "links_to (demo_sys ty) 0x1100 0x20020"
    by (simp add: links_to_def na link_node_def)
  moreover have "closed_wf (demo_sys ty) (demo_trans ty)"
    using assms ne by (auto simp: closed_wf_def demo_trans_def ends_in_link_def stops_def links_to_def na link_node_def demo_node_def)
  moreover have "md_heaps (demo_sys ty) = demo_heaps" "md_trans (demo_sys ty) 0x1050 = Some (demo_trans ty)"
    by (simp_all add: demo_sys_def)
  ultimately show ?thesis
    by (simp add: trans_wf_def demo_heaps_fit demo_chan_def demo_cfg_def na demo_trans_def [of ty])
qed

lemma demo_groups: "groups_of (demo_sys ty) 0x1000 = [0x1100, 0x1200]"
  by (simp add: groups_of_def demo_sys_def demo_chan_def demo_trans_def)

lemma demo_chans: "md_chans (demo_sys ty) 0x1000 = Some demo_chan" "pool_of (demo_sys ty) 0x1100 = 0x20000"
  by (simp_all add: demo_sys_def pool_of_def new_group_def)

lemma demo_first: "tr_first_group (demo_trans ty) = 0x1100" "tr_last_group (demo_trans ty) = 0x1200"
    "tr_trans_type (demo_trans ty) = ty" "pool_of (demo_sys ty) 0x1100 = 0x20000" "Suc (Suc 0) = 2"
  by (simp_all add: demo_trans_def demo_chans(2))

theorem ring_executes_rounds_witness:
  "dma_walk (demo_sys MDMA_TRANS_RING) [0x1100, 0x1200] 6 0x20000 =
     (concat (replicate 3 (segments (demo_sys MDMA_TRANS_RING) 0x1000)), False)"
  using ring_executes_rounds [OF demo_wf demo_chans(1), of MDMA_TRANS_RING 3]
  by (simp add: demo_groups demo_first del: dma_walk.simps)

definition demo_open :: "unit mdma_sys" where
  "demo_open = \<lparr>md_heaps = demo_heaps, md_chans = [0x1000 \<mapsto> demo_chan], md_trans = [0x1050 \<mapsto>
     \<lparr>tr_chan = 0x1000, tr_group_list = [], tr_group_nmb = 0, tr_trans_type = MDMA_TRANS_QUEUE,
      tr_first_group = 0, tr_cur_group = 0, tr_next_group = 0, tr_last_group = 0, tr_group_wait = 0,
      tr_ignore_event = False\<rparr>], md_groups = Map.empty, md_nodes = Map.empty, md_dev = ()\<rparr>"

theorem add_group_keeps_transfer_witness:
  "\<exists>s'. mdma_trans_add_group 0x1000 0x50000 0x100 0 True demo_open = Some (0, s') \<and>
     trans_inv s' 0x1000 \<and> (\<exists>ns. segments s' 0x1000 = ns \<and> buffer_nodes demo_cfg 0x50000 0x100 ns)"
proof -
  have inv: "trans_inv demo_open 0x1000"
    by (simp add: trans_inv_def trans_wf_def list_wf_def closed_wf_def demo_open_def demo_chan_def demo_heaps_fit)
  have c: "md_chans demo_open 0x1000 = Some demo_chan" by (simp add: demo_open_def)
  have e: "segments demo_open 0x1000 = []" by (simp add: segments_def groups_of_def demo_open_def demo_chan_def)
  define t where "t = the (md_trans demo_open 0x1050)"
  have t: "md_trans demo_open 0x1050 = Some t" "tr_last_group t = 0" "tr_trans_type t = MDMA_TRANS_QUEUE"
      "tr_group_list t = []" "tr_first_group t = 0"
    by (simp_all add: t_def demo_open_def)
  have cfg: "ch_cfg demo_chan = demo_cfg" "ch_trans demo_chan = 0x1050" "ch_state demo_chan = MDMA_CHAN_DUMMY"
    by (simp_all add: demo_chan_def)
  have lim: "desc_limits demo_cfg 0x100 = Inr (8, 8, 0x100)"
    by (simp add: desc_limits_def demo_cfg_def sizeof_normal_desc_def limited_def Let_def MDMA_LENGTH_LIMIT_def)
  have "mdma_trans_add_group 0x1000 0x50000 0x100 0 True demo_open =
      add_group_build 0x1050 t demo_cfg 0x50000 0x100 0 True 8 8 0x100 1 demo_open"
    by (simp add: mdma_trans_add_group_def c t cfg lim)
       (simp add: demo_cfg_def burst_mask_def MDMA_BURST_WIDTH4_def)
  have ne: "MDMA_TRANS_QUEUE \<noteq> MDMA_TRANS_RING" by (simp add: MDMA_TRANS_RING_def MDMA_TRANS_QUEUE_def)
  have hp: "md_heaps demo_open = demo_heaps" by (simp add: demo_open_def)
  let ?H = "\<lambda>p q. \<lparr>num_heaps = 2, heaps =
     [\<lparr>hp_start = 0x1000, hp_end = 0x9000, hp_pos = p, hp_save = 0x1000, hp_name = ''im0''\<rparr>,
      \<lparr>hp_start = 0x20000, hp_end = 0x30000, hp_pos = q, hp_save = 0x20000, hp_name = ''em''\<rparr>]\<rparr>"
  have m: "rumboot_malloc sizeof_mdma_group demo_heaps = Some (0x2000, ?H 0x2028 0x20100)"
      "rumboot_malloc sizeof_mdma_node (?H 0x2028 0x20100) = Some (0x2028, ?H 0x2044 0x20100)"
      "rumboot_malloc_from_heap_aligned (Suc 0) 8 8 (?H 0x2044 0x20100) = Some (0x20100, ?H 0x2044 0x20108)"
    by (simp_all add: rumboot_malloc_def rumboot_malloc_from_heap_def rumboot_malloc_from_heap_misaligned_def
        rumboot_malloc_from_heap_aligned_def sizeof_mdma_group_def sizeof_mdma_node_def demo_heaps_def)
  have "\<exists>s'. add_group_build 0x1050 t demo_cfg 0x50000 0x100 0 True 8 8 0x100 1 demo_open = Some (0, s')"
    by (simp add: add_group_build_def add_group_alloc_def add_group_finish_def mdma_malloc_def hp t ne m demo_cfg_def
        Let_def PITCH_DESC_def NORMAL_DESC_def)
  then obtain s' where s': "mdma_trans_add_group 0x1000 0x50000 0x100 0 True demo_open = Some (0, s')"
    using \<open>mdma_trans_add_group _ _ _ _ _ _ = _\<close> by auto
  from add_group_keeps_transfer [OF inv c s'] show ?thesis using s' e by (auto simp: demo_chan_def)
qed

text \<open>Two buffers, the first of them larger than a descriptor can hold.\<close>

definition demo_start :: "unit mdma_sys" where
  "demo_start = \<lparr>md_heaps = demo_heaps, md_chans = [0x1000 \<mapsto> demo_chan\<lparr>ch_trans := 0\<rparr>], md_trans = Map.empty,
     md_groups = Map.empty, md_nodes = Map.empty, md_dev = ()\<rparr>"

lemma demo_start_added:
  "(case mdma_trans_create 0x1000 MDMA_TRANS_QUEUE demo_start of
      Some (r, s1) \<Rightarrow> r = 0 \<and> add_groups 0x1000 [(0x50000, 0x5000, 0), (0x60000, 16, 0)] s1 \<noteq> None
    | None \<Rightarrow> False)"
  by code_simp


end
