(* ===== verification/Mdma_Run.thy ===== *)
theory Mdma_Run
  imports Mdma_Chan "HOL-Library.Multiset"
begin

text \<open>
  The rest of \<open>src/lib/drivers/mdma_chan_lib.c\<close>: descriptors in memory, configuration, start, pause and
  reset of a channel, its interrupt, and the groups that the controller has finished. The state and the
  conventions are those of \<open>Mdma_Chan\<close>.
\<close>

section \<open>Errors, events and progress\<close>

definition chan_rd :: "'d hw \<Rightarrow> mdma_chan \<Rightarrow> u32 \<Rightarrow> 'd mdma_sys \<Rightarrow> u32 \<times> 'd mdma_sys" where
  "chan_rd hw c off s = mdma_chan_read32 hw (ch_regs c + off) s"

definition chan_wr :: "'d hw \<Rightarrow> mdma_chan \<Rightarrow> u32 \<Rightarrow> u32 \<Rightarrow> 'd mdma_sys \<Rightarrow> 'd mdma_sys" where
  "chan_wr hw c v off s = mdma_chan_write32 hw v (ch_regs c + off) s"

definition chan_is_error :: "u32 \<Rightarrow> u32 \<Rightarrow> 'd mdma_sys \<Rightarrow> (bool \<times> 'd mdma_sys) option" where
  "chan_is_error chan status s =
     (let err = status AND (MDMA_STATUS_DISCARD_DESC OR MDMA_STATUS_WAXI_ERR OR MDMA_STATUS_AXI_ERR)
      in if err = 0 then Some (False, s)
         else do {
           s \<leftarrow> upd_chan chan (\<lambda>c. c\<lparr>ch_error :=
                  (if err AND MDMA_STATUS_DISCARD_DESC \<noteq> 0 then CHAN_RDESC_ERR
                   else if err AND MDMA_STATUS_WAXI_ERR \<noteq> 0 then CHAN_WDESC_ERR
                   else CHAN_DATA_ERR),
                  ch_state := MDMA_CHAN_ERROR\<rparr>) s;
           Some (True, s) })"

text \<open>The two parts of \<open>chan_check_event\<close>; the result says whether one of them had something to do.\<close>

definition check_start_event :: "'d hw \<Rightarrow> u32 \<Rightarrow> u32 \<Rightarrow> 'd mdma_sys \<Rightarrow> (bool \<times> 'd mdma_sys) option" where
  "check_start_event hw chan status s =
     (if status AND MDMA_STATUS_START_EVENT = 0 then Some (False, s)
      else do {
        c \<leftarrow> md_chans s chan;
        let s = chan_wr hw c 0 reg_sense_list s;
        let (event_active, s) = chan_rd hw c reg_activ_events s;
        let s = chan_wr hw c 0 reg_activ_events s;
        s \<leftarrow> upd_chan chan (\<lambda>c. c\<lparr>ch_state := MDMA_CHAN_RUNNING\<rparr>) s;
        if event_active AND NOT (BIT (unat (cf_event_prior (ch_cfg c)))) \<noteq> 0 then None
        else Some (True, s) })"

definition check_ignore_event :: "'d hw \<Rightarrow> u32 \<Rightarrow> u32 \<Rightarrow> 'd mdma_sys \<Rightarrow> (bool \<times> 'd mdma_sys) option" where
  "check_ignore_event hw chan status s =
     (if status AND MDMA_STATUS_IGNORE_EVENT = 0 then Some (False, s)
      else do {
        c \<leftarrow> md_chans s chan;
        let (event_ignore, s) = chan_rd hw c reg_ignore_events s;
        s \<leftarrow> upd_trans (ch_trans c) (\<lambda>t. t\<lparr>tr_ignore_event := True\<rparr>) s;
        if event_ignore AND NOT (BIT (unat (cf_event_prior (ch_cfg c)))) \<noteq> 0 then None
        else Some (True, s) })"

definition chan_check_event :: "'d hw \<Rightarrow> u32 \<Rightarrow> u32 \<Rightarrow> 'd mdma_sys \<Rightarrow> (bool \<times> 'd mdma_sys) option" where
  "chan_check_event hw chan status s = do {
     (started, s) \<leftarrow> check_start_event hw chan status s;
     (ignored, s) \<leftarrow> check_ignore_event hw chan status s;
     Some (started \<or> ignored, s) }"

text \<open>The group after another one in the list of a transfer (\<open>group_node.next\<close>).\<close>

fun next_in :: "u32 list \<Rightarrow> u32 \<Rightarrow> u32 option" where
  "next_in (x # y # ys) g = (if x = g then Some y else next_in (y # ys) g)"
| "next_in _ g = None"

definition group_after :: "mdma_trans \<Rightarrow> u32 \<Rightarrow> u32 \<Rightarrow> u32 option" where
  "group_after t g no_next =
     (if g \<noteq> tr_last_group t then next_in (tr_group_list t) g
      else if tr_trans_type t = MDMA_TRANS_RING then Some (tr_first_group t)
      else Some no_next)"

text \<open>The loop of \<open>chan_trans_progress\<close>, with the budget that is left. It stops at a group that the controller
  has not given back.\<close>

fun progress_loop :: "'d hw \<Rightarrow> u32 \<Rightarrow> nat \<Rightarrow> 'd mdma_sys \<Rightarrow> 'd mdma_sys option" where
  "progress_loop hw tr 0 s = Some s"
| "progress_loop hw tr (Suc budget) s = do {
     t \<leftarrow> md_trans s tr;
     g \<leftarrow> md_groups s (tr_next_group t);
     if gr_group_done g then Some s
     else
       let desc_flags = gr_desc_pool_addr g + (gr_desc_pool_size g - 4)
       in if desc_flags AND 3 \<noteq> 0 then None
          else
            let (val, s) = mdma_chan_read32 hw desc_flags s
            in if val AND MDMA_DESC_OWNERSHIP = 0 then Some s
               else do {
                 s \<leftarrow> upd_group (tr_next_group t) (\<lambda>g. g\<lparr>gr_group_done := True\<rparr>) s;
                 nxt \<leftarrow> group_after t (tr_next_group t) (tr_next_group t);
                 s \<leftarrow> upd_trans tr (\<lambda>t. t\<lparr>tr_group_wait := tr_group_wait t + 1, tr_next_group := nxt\<rparr>) s;
                 progress_loop hw tr budget s } }"

definition chan_trans_progress :: "'d hw \<Rightarrow> u32 \<Rightarrow> int \<Rightarrow> 'd mdma_sys \<Rightarrow> (int \<times> 'd mdma_sys) option" where
  "chan_trans_progress hw chan budget s =
     (if budget < 0 then Some (-1, s)
      else if chan = 0 then Some (-2, s)
      else do {
        c \<leftarrow> md_chans s chan;
        if ch_trans c = 0 then Some (-2, s)
        else do {
          t \<leftarrow> md_trans s (ch_trans c);
          if tr_first_group t = 0 \<or> tr_last_group t = 0 then Some (-3, s)
          else do {
            let (flags, s) = chan_rd hw c reg_irq_mask s;
            let s = chan_wr hw c 0 reg_irq_mask s;
            let nxt = (if tr_cur_group t = 0 then 0
                       else if tr_next_group t = 0 then tr_cur_group t else tr_next_group t);
            s \<leftarrow> upd_trans (ch_trans c) (\<lambda>t. t\<lparr>tr_next_group := nxt\<rparr>) s;
            s \<leftarrow> (if budget = 0 \<or> nxt = 0 then Some s else progress_loop hw (ch_trans c) (nat budget) s);
            t \<leftarrow> md_trans s (ch_trans c);
            Some (tr_group_wait t, chan_wr hw c flags reg_irq_mask s) } } })"

section \<open>State, start and interrupt\<close>

definition mdma_chan_get_state :: "'d hw \<Rightarrow> u32 \<Rightarrow> 'd mdma_sys \<Rightarrow> (mdma_chan_state option \<times> 'd mdma_sys) option" where
  "mdma_chan_get_state hw chan s =
     (if chan = 0 then Some (None, s)
      else do {
        c \<leftarrow> md_chans s chan;
        if cf_mode (ch_cfg c) \<noteq> MDMA_CHAN_POLLING then Some (Some (ch_state c), s)
        else do {
          let (status, s) = chan_rd hw c reg_status s;
          (_, s) \<leftarrow> (if cf_event_indx (ch_cfg c) < 0 then Some (False, s) else chan_check_event hw chan status s);
          (err, s) \<leftarrow> chan_is_error chan status s;
          if err then Some (Some MDMA_CHAN_ERROR, s)
          else if status AND MDMA_STATUS_BAD_DESC \<noteq> 0 then do {
            s \<leftarrow> upd_chan chan (\<lambda>c. c\<lparr>ch_state := MDMA_CHAN_PENDING\<rparr>) s;
            Some (Some MDMA_CHAN_PENDING, s) }
          else if status AND MDMA_STATUS_STOP_DESC \<noteq> 0 then do {
            s \<leftarrow> upd_chan chan (\<lambda>c. c\<lparr>ch_state := MDMA_CHAN_DUMMY\<rparr>) s;
            Some (Some MDMA_CHAN_DUMMY, s) }
          else do {
            c \<leftarrow> md_chans s chan;
            Some (Some (ch_state c), s) } } })"

record chan_irq =
  irq_group :: bool
  irq_event :: bool
  irq_error :: bool
  irq_done :: bool

definition IRQ_CHAN_NONE :: chan_irq where
  "IRQ_CHAN_NONE = \<lparr>irq_group = False, irq_event = False, irq_error = False, irq_done = False\<rparr>"

definition mdma_chan_irq_cb :: "'d hw \<Rightarrow> u32 \<Rightarrow> 'd mdma_sys \<Rightarrow> (chan_irq \<times> 'd mdma_sys) option" where
  "mdma_chan_irq_cb hw chan s = do {
     c \<leftarrow> md_chans s chan;
     let (irq_mask, s) = chan_rd hw c reg_irq_mask s;
     if irq_mask = 0 then Some (IRQ_CHAN_NONE, s)
     else do {
       let (status, s) = chan_rd hw c reg_status s;
       let status = status AND irq_mask;
       if status = 0 then None
       else do {
         (ev, s) \<leftarrow> (if cf_event_indx (ch_cfg c) < 0 then Some (False, s) else chan_check_event hw chan status s);
         let ret = IRQ_CHAN_NONE\<lparr>irq_group := (status AND MDMA_STATUS_INT_DESC \<noteq> 0), irq_event := ev\<rparr>;
         (err, s) \<leftarrow> chan_is_error chan status s;
         if err then Some (ret\<lparr>irq_error := True\<rparr>, chan_wr hw c 0 reg_irq_mask s)
         else if status AND MDMA_STATUS_BAD_DESC \<noteq> 0 then do {
           s \<leftarrow> upd_chan chan (\<lambda>c. c\<lparr>ch_state := MDMA_CHAN_PENDING\<rparr>) s;
           Some (ret\<lparr>irq_done := True\<rparr>, s) }
         else if status AND MDMA_STATUS_STOP_DESC \<noteq> 0 then do {
           s \<leftarrow> upd_chan chan (\<lambda>c. c\<lparr>ch_state := MDMA_CHAN_DUMMY\<rparr>) (chan_wr hw c 0 reg_irq_mask s);
           Some (ret\<lparr>irq_done := True\<rparr>, s) }
         else Some (ret, s) } } }"

definition start_irq_mask :: "mdma_cfg \<Rightarrow> u32" where
  "start_irq_mask cfg =
     (if cf_mode cfg = MDMA_CHAN_INTERRUPT then
        MDMA_STATUS_BAD_DESC OR MDMA_STATUS_STOP_DESC OR MDMA_STATUS_DISCARD_DESC OR MDMA_STATUS_WAXI_ERR
        OR MDMA_STATUS_AXI_ERR OR MDMA_STATUS_INT_DESC
        OR (if cf_event_indx cfg < 0 then 0 else MDMA_STATUS_START_EVENT OR MDMA_STATUS_IGNORE_EVENT)
      else 0)"

definition mdma_chan_start :: "'d hw \<Rightarrow> u32 \<Rightarrow> 'd mdma_sys \<Rightarrow> (int \<times> 'd mdma_sys) option" where
  "mdma_chan_start hw chan s =
     (if chan = 0 then Some (-1, s)
      else do {
        c \<leftarrow> md_chans s chan;
        if ch_state c \<noteq> MDMA_CHAN_READY then Some (-1, s)
        else do {
          let ev = (\<not> cf_event_indx (ch_cfg c) < 0);
          let s = (if ev then chan_wr hw c 0 reg_activ_events
                                (snd (chan_rd hw c reg_activ_events (snd (chan_rd hw c reg_ignore_events s))))
                   else s);
          let s = snd (chan_rd hw c reg_status s);
          let s = (if ev then chan_wr hw c (BIT (nat (cf_event_indx (ch_cfg c)))) reg_sense_list s
                   else chan_wr hw c MDMA_ENABLE reg_enable s);
          s \<leftarrow> upd_chan chan (\<lambda>c. c\<lparr>ch_state := (if ev then MDMA_CHAN_WAITING else MDMA_CHAN_RUNNING)\<rparr>) s;
          Some (0, chan_wr hw c (start_irq_mask (ch_cfg c)) reg_irq_mask s) } })"

section \<open>Descriptors and configuration\<close>

definition desc_word :: "mdma_node \<Rightarrow> mdma_cfg \<Rightarrow> u32" where
  "desc_word node cfg =
     (if nd_desc_type node = DESC_LINK then MDMA_DESC_LINK else 0) OR
     (if nd_is_last node then MDMA_DESC_INTERRUPT else 0) OR
     (if nd_desc_type node = DESC_DATA then
        (if cf_add_info cfg
         then MDMA_DESC_CUSTOM_W (nd_custom_flags node) OR MDMA_DESC_LENGTH (nd_mem_size node)
         else MDMA_DESC_LENGTH_EXT (nd_mem_size node)) OR
        (if \<not> cf_addr_inc cfg then MDMA_DESC_INCREMENT else 0)
      else 0) OR
     (if nd_is_stop node then MDMA_DESC_STOP else 0)"

definition chan_set_desc :: "'d hw \<Rightarrow> mdma_node \<Rightarrow> mdma_cfg \<Rightarrow> 'd mdma_sys \<Rightarrow> (int \<times> 'd mdma_sys) option" where
  "chan_set_desc hw node cfg s = do {
     g \<leftarrow> md_groups s (nd_group node);
     let pool = gr_desc_pool_addr g;
     if cf_desc_kind cfg = NORMAL_DESC then
       (let desc = pool + of_nat (nd_desc_indx node) * sizeof_normal_desc;
            s = mdma_chan_write32 hw (nd_mem_addr node) desc s
        in Some (0, mdma_chan_write32 hw (desc_word node cfg) (desc + 4) s))
     else if cf_desc_kind cfg = LONG_DESC then
       (let desc = pool + of_nat (nd_desc_indx node) * sizeof_long_desc;
            s = mdma_chan_write32 hw 0 desc s;
            s = mdma_chan_write32 hw 0 (desc + 4) s;
            s = mdma_chan_write32 hw (nd_mem_addr node) (desc + 8) s
        in Some (0, mdma_chan_write32 hw (desc_word node cfg) (desc + 12) s))
     else if cf_desc_kind cfg = PITCH_DESC then
       (let desc = pool + of_nat (nd_desc_indx node) * sizeof_pitch_desc;
            s = mdma_chan_write32 hw 0 desc s;
            s = mdma_chan_write32 hw (MDMA_DESC_PITCH (cf_pitch_width cfg) OR MDMA_DESC_STRLEN (cf_str_length cfg))
                  (desc + 4) s;
            s = mdma_chan_write32 hw (nd_mem_addr node) (desc + 8) s
        in Some (0, mdma_chan_write32 hw (desc_word node cfg) (desc + 12) s))
     else Some (-1, s) }"

fun config_nodes :: "'d hw \<Rightarrow> mdma_cfg \<Rightarrow> mdma_node list \<Rightarrow> 'd mdma_sys \<Rightarrow> (int \<times> 'd mdma_sys) option" where
  "config_nodes hw cfg [] s = Some (0, s)"
| "config_nodes hw cfg (n # ns) s = do {
     (r, s) \<leftarrow> chan_set_desc hw n cfg s;
     if r \<noteq> 0 then Some (-5, s) else config_nodes hw cfg ns s }"

fun config_groups :: "'d hw \<Rightarrow> mdma_cfg \<Rightarrow> mdma_trans \<Rightarrow> u32 list \<Rightarrow> 'd mdma_sys \<Rightarrow> (int \<times> 'd mdma_sys) option" where
  "config_groups hw cfg t [] s = Some (0, s)"
| "config_groups hw cfg t (gp # gs) s = do {
     g \<leftarrow> md_groups s gp;
     if tr_trans_type t = MDMA_TRANS_RING \<and> tr_group_nmb t < 2 \<and> gr_node_nmb g < 4 then Some (-4, s)
     else do {
       ns \<leftarrow> md_nodes s (gr_node_group g);
       if length ns < gr_node_nmb g then None
       else do {
         (r, s) \<leftarrow> config_nodes hw cfg (take (gr_node_nmb g) ns) s;
         if r \<noteq> 0 then Some (r, s)
         else do {
           s \<leftarrow> upd_group gp (\<lambda>g. g\<lparr>gr_cur_indx := 0, gr_group_done := False\<rparr>) s;
           config_groups hw cfg t gs s } } } }"

text \<open>Event priorities: eight fields of four bits in each of two registers.\<close>

definition prior_at :: "nat \<Rightarrow> u32 \<times> u32 \<Rightarrow> u32" where
  "prior_at i p = (if i < 8 then MDMA_GET_PRIOR i (fst p) else MDMA_GET_PRIOR (i - 8) (snd p))"

definition set_prior_at :: "nat \<Rightarrow> u32 \<Rightarrow> u32 \<times> u32 \<Rightarrow> u32 \<times> u32" where
  "set_prior_at i v p =
     (if i < 8
      then ((fst p AND NOT (MDMA_SET_PRIOR i 0xF)) OR MDMA_SET_PRIOR i v, snd p)
      else (fst p, (snd p AND NOT (MDMA_SET_PRIOR (i - 8) 0xF)) OR MDMA_SET_PRIOR (i - 8) v))"

definition event_of_prior :: "u32 \<Rightarrow> u32 \<times> u32 \<Rightarrow> nat option" where
  "event_of_prior prior p = find (\<lambda>i. prior_at i p = prior) [0..<MDMA_EVENT_MAX_NUM]"

definition swap_prior :: "nat \<Rightarrow> u32 \<Rightarrow> nat \<Rightarrow> u32 \<times> u32 \<Rightarrow> u32 \<times> u32" where
  "swap_prior ev prior i p = set_prior_at i (prior_at ev p) (set_prior_at ev prior p)"

definition config_events :: "'d hw \<Rightarrow> mdma_chan \<Rightarrow> u32 \<Rightarrow> 'd mdma_sys \<Rightarrow> (int \<times> 'd mdma_sys) option" where
  "config_events hw c first_pool s =
     (let cfg = ch_cfg c in
      if cf_event_indx cfg < 0 then Some (0, s)
      else if \<not> cf_event_indx cfg < int MDMA_EVENT_MAX_NUM \<or> \<not> cf_event_prior cfg < MDMA_PRIOR_MAX_NUM
      then Some (-6, s)
      else if cf_sync_mode cfg \<noteq> MDMA_SYNC_SLAVE \<and> cf_sync_mode cfg \<noteq> MDMA_SYNC_MASTER
              \<and> cf_sync_mode cfg \<noteq> MDMA_SYNC_NONE
      then Some (-7, s)
      else do {
        let s = chan_wr hw c (if cf_sync_mode cfg = MDMA_SYNC_SLAVE then MDMA_SYNC_EVENT_SLAVE
                              else if cf_sync_mode cfg = MDMA_SYNC_MASTER then MDMA_SYNC_EVENT_MASTER
                              else 0) reg_synch_events s;
        let s = chan_wr hw c 0 reg_sense_list s;
        let s = chan_wr hw c 0 reg_activ_events s;
        let s = snd (chan_rd hw c reg_ignore_events s);
        let s = (if cf_signal_time cfg > 0 then chan_wr hw c (of_int (cf_signal_time cfg)) reg_signal_time s else s);
        let (prior_h, s) = chan_rd hw c reg_events_prior_h s;
        let (prior_l, s) = chan_rd hw c reg_events_prior_l s;
        i \<leftarrow> event_of_prior (cf_event_prior cfg) (prior_l, prior_h);
        let s = (if i \<noteq> nat (cf_event_indx cfg) then
                   (let p = swap_prior (nat (cf_event_indx cfg)) (cf_event_prior cfg) i (prior_l, prior_h)
                    in chan_wr hw c (snd p) reg_events_prior_h (chan_wr hw c (fst p) reg_events_prior_l s))
                 else s);
        Some (0, chan_wr hw c first_pool (reg_event_desc_addr (cf_event_prior cfg)) s) })"

definition mdma_chan_config :: "'d hw \<Rightarrow> u32 \<Rightarrow> 'd mdma_sys \<Rightarrow> (int \<times> 'd mdma_sys) option" where
  "mdma_chan_config hw chan s =
     (if chan = 0 then Some (-1, s)
      else do {
        c \<leftarrow> md_chans s chan;
        if ch_state c \<noteq> MDMA_CHAN_DUMMY then Some (-1, s)
        else if ch_trans c = 0 then Some (-2, s)
        else do {
          t \<leftarrow> md_trans s (ch_trans c);
          let cfg = ch_cfg c;
          if tr_last_group t = 0 then Some (-2, s)
          else if cf_mode cfg \<noteq> MDMA_CHAN_INTERRUPT \<and> cf_mode cfg \<noteq> MDMA_CHAN_POLLING then Some (-3, s)
          else do {
            (r, s) \<leftarrow> config_groups hw cfg t (tr_group_list t) s;
            if r \<noteq> 0 then Some (r, s)
            else do {
              s \<leftarrow> upd_trans (ch_trans c) (\<lambda>t. t\<lparr>tr_cur_group := tr_first_group t, tr_next_group := 0,
                       tr_group_wait := 0, tr_ignore_event := False\<rparr>) s;
              let s = chan_wr hw c 0 reg_irq_mask s;
              fg \<leftarrow> md_groups s (tr_first_group t);
              let s = chan_wr hw c (MDMA_SETTINGS_DESC_KIND (cf_desc_kind cfg) OR MDMA_SETTINGS_DESC_GAP (gr_gap_size fg)
                         OR (if cf_add_info cfg then MDMA_SETTINGS_ADD_INFO else 0)) reg_settings s;
              let s = chan_wr hw c (gr_desc_pool_addr fg) reg_desc_addr s;
              (r, s) \<leftarrow> config_events hw c (gr_desc_pool_addr fg) s;
              if r \<noteq> 0 then Some (r, s)
              else do {
                let s = snd (chan_rd hw c reg_status s);
                (_, s) \<leftarrow> chan_trans_progress hw chan (int (tr_group_nmb t)) s;
                s \<leftarrow> upd_chan chan (\<lambda>c. c\<lparr>ch_state := MDMA_CHAN_READY, ch_error := CHAN_NONE_ERR\<rparr>) s;
                Some (0, s) } } } } })"

section \<open>Reset and release\<close>

text \<open>The wait of \<open>mdma_chan_reset\<close>: a time-out is a panic.\<close>

fun reset_wait :: "'d hw \<Rightarrow> mdma_chan \<Rightarrow> nat \<Rightarrow> 'd mdma_sys \<Rightarrow> 'd mdma_sys option" where
  "reset_wait hw c timeout s =
     (let (v, s) = chan_rd hw c reg_enable s
      in if v AND MDMA_ENABLE = 0 then Some s
         else (case timeout of
                 0 \<Rightarrow> None
               | Suc n \<Rightarrow> do { s \<leftarrow> mdma_udelay hw 1 s; reset_wait hw c n s }))"

declare reset_wait.simps [simp del]

definition reset_head :: "'d hw \<Rightarrow> mdma_chan \<Rightarrow> 'd mdma_sys \<Rightarrow> 'd mdma_sys" where
  "reset_head hw c s =
     (let s = chan_wr hw c 0 reg_irq_mask s;
          s = (if cf_event_indx (ch_cfg c) < 0 then s
               else snd (chan_rd hw c reg_ignore_events
                           (chan_wr hw c 0 reg_activ_events (chan_wr hw c 0 reg_sense_list s))))
      in chan_wr hw c MDMA_CANCEL reg_cancel s)"

definition reset_tail :: "'d hw \<Rightarrow> u32 \<Rightarrow> mdma_chan \<Rightarrow> 'd mdma_sys \<Rightarrow> 'd mdma_sys option" where
  "reset_tail hw chan c s = do {
     let (v, s) = chan_rd hw c reg_suspend s;
     let s = (if v AND MDMA_SUSPEND \<noteq> 0 then chan_wr hw c 0 reg_suspend s else s);
     s \<leftarrow> reset_wait hw c MDMA_CHAN_TIMEOUT s;
     let (v, s) = chan_rd hw c reg_cancel s;
     if v AND MDMA_CANCEL \<noteq> 0 then None
     else upd_chan chan (\<lambda>c. c\<lparr>ch_state := MDMA_CHAN_DUMMY\<rparr>) (snd (chan_rd hw c reg_status s)) }"

text \<open>Channels may be attached in a circle; then the recursion of \<open>mdma_chan_reset\<close> has no end.\<close>

partial_function (option) mdma_chan_reset :: "'d hw \<Rightarrow> u32 \<Rightarrow> 'd mdma_sys \<Rightarrow> (int \<times> 'd mdma_sys) option" where
  "mdma_chan_reset hw chan s =
     (if chan = 0 then Some (-1, s)
      else Option.bind (md_chans s chan) (\<lambda>c.
        Option.bind (if ch_slave c \<noteq> 0
                     then Option.bind (mdma_chan_reset hw (ch_slave c) (reset_head hw c s)) (\<lambda>r. Some (snd r))
                     else Some (reset_head hw c s)) (\<lambda>s.
        Option.bind (reset_tail hw chan c s) (\<lambda>s. Some (0, s)))))"

fun free_groups :: "u32 list \<Rightarrow> 'd mdma_sys \<Rightarrow> 'd mdma_sys option" where
  "free_groups [] s = Some s"
| "free_groups (gp # gs) s = do {
     g \<leftarrow> md_groups s gp;
     let s = mdma_free (gr_node_group g) (s\<lparr>md_nodes := (md_nodes s)(gr_node_group g := None)\<rparr>);
     let s = mdma_free (gr_desc_pool_addr g) s;
     free_groups gs (mdma_free gp (s\<lparr>md_groups := (md_groups s)(gp := None)\<rparr>)) }"

definition mdma_trans_free_groups :: "'d hw \<Rightarrow> u32 \<Rightarrow> 'd mdma_sys \<Rightarrow> 'd mdma_sys option" where
  "mdma_trans_free_groups hw chan s =
     (if chan = 0 then Some s
      else do {
        c \<leftarrow> md_chans s chan;
        if ch_trans c = 0 then Some s
        else do {
          t \<leftarrow> md_trans s (ch_trans c);
          if tr_group_list t = [] then Some s
          else do {
            (_, s) \<leftarrow> mdma_chan_reset hw chan s;
            s \<leftarrow> free_groups (tr_group_list t) s;
            upd_trans (ch_trans c) (\<lambda>t. t\<lparr>tr_group_list := [], tr_group_nmb := 0, tr_first_group := 0,
              tr_cur_group := 0, tr_next_group := 0, tr_last_group := 0, tr_group_wait := 0\<rparr>) s } } })"

definition mdma_trans_destroy :: "'d hw \<Rightarrow> u32 \<Rightarrow> 'd mdma_sys \<Rightarrow> 'd mdma_sys option" where
  "mdma_trans_destroy hw chan s =
     (if chan = 0 then Some s
      else do {
        c \<leftarrow> md_chans s chan;
        if ch_trans c = 0 then Some s
        else do {
          s \<leftarrow> mdma_trans_free_groups hw chan s;
          let s = mdma_free (ch_trans c) (s\<lparr>md_trans := (md_trans s)(ch_trans c := None)\<rparr>);
          upd_chan chan (\<lambda>c. c\<lparr>ch_trans := 0\<rparr>) s } })"

definition mdma_chan_destroy :: "'d hw \<Rightarrow> u32 \<Rightarrow> 'd mdma_sys \<Rightarrow> 'd mdma_sys option" where
  "mdma_chan_destroy hw chan s =
     (if chan = 0 then Some s
      else do {
        s \<leftarrow> mdma_trans_destroy hw chan s;
        c \<leftarrow> md_chans s chan;
        s \<leftarrow> (if ch_master c \<noteq> 0 then upd_chan (ch_master c) (\<lambda>m. m\<lparr>ch_slave := 0\<rparr>) s else Some s);
        s \<leftarrow> upd_chan chan (\<lambda>c. c\<lparr>ch_master := 0\<rparr>) s;
        c \<leftarrow> md_chans s chan;
        s \<leftarrow> (if ch_slave c \<noteq> 0 then upd_chan (ch_slave c) (\<lambda>m. m\<lparr>ch_master := 0\<rparr>) s else Some s);
        Some (mdma_free chan (s\<lparr>md_chans := (md_chans s)(chan := None)\<rparr>)) })"

section \<open>Waiting, pause and resume\<close>

text \<open>The loop of \<open>mdma_chan_wait_event\<close> and \<open>mdma_chan_wait_trans_end\<close>: poll until the channel leaves the
  state \<open>st\<close>. A negative time limit means no limit. The result has the return value, what is left of the
  limit, and the state.\<close>

partial_function (option) wait_state ::
  "'d hw \<Rightarrow> u32 \<Rightarrow> mdma_chan_state \<Rightarrow> mdma_chan_state option \<Rightarrow> int \<Rightarrow> 'd mdma_sys \<Rightarrow> (int \<times> int \<times> 'd mdma_sys) option" where
  "wait_state hw chan st cur timeout s =
     (if cur \<noteq> Some st then Some (0, timeout, s)
      else if timeout = 0 then Some (1, timeout, s)
      else Option.bind (mdma_udelay hw 1 s) (\<lambda>s.
           Option.bind (mdma_chan_get_state hw chan s) (\<lambda>r.
             wait_state hw chan st (fst r) (if timeout > 0 then timeout - 1 else timeout) (snd r))))"

definition mdma_chan_wait_event :: "'d hw \<Rightarrow> u32 \<Rightarrow> int \<Rightarrow> 'd mdma_sys \<Rightarrow> (int \<times> 'd mdma_sys) option" where
  "mdma_chan_wait_event hw chan timeout s =
     (if chan = 0 then Some (-1, s)
      else do {
        (cur, s) \<leftarrow> mdma_chan_get_state hw chan s;
        (ret, _, s) \<leftarrow> wait_state hw chan MDMA_CHAN_WAITING cur timeout s;
        Some (ret, s) })"

definition mdma_chan_wait_trans_end :: "'d hw \<Rightarrow> u32 \<Rightarrow> int \<Rightarrow> 'd mdma_sys \<Rightarrow> (int \<times> 'd mdma_sys) option" where
  "mdma_chan_wait_trans_end hw chan timeout s =
     (if chan = 0 then Some (-1, s)
      else do {
        c \<leftarrow> md_chans s chan;
        if ch_trans c = 0 then Some (-1, s)
        else do {
          (cur, s) \<leftarrow> mdma_chan_get_state hw chan s;
          (ret, timeout, s) \<leftarrow> wait_state hw chan MDMA_CHAN_RUNNING cur timeout s;
          t \<leftarrow> md_trans s (ch_trans c);
          (wait_nmb, s) \<leftarrow> chan_trans_progress hw chan (if timeout \<noteq> 0 then int (tr_group_nmb t) else 1) s;
          Some (if wait_nmb < 0 then -2 else ret, s) } })"

partial_function (option) wait_group ::
  "'d hw \<Rightarrow> u32 \<Rightarrow> int \<Rightarrow> int \<Rightarrow> 'd mdma_sys \<Rightarrow> (int \<times> 'd mdma_sys) option" where
  "wait_group hw chan wait_nmb timeout s =
     (if wait_nmb \<noteq> 0 then Some (if wait_nmb < 0 then -2 else 0, s)
      else if timeout = 0 then Some (1, s)
      else Option.bind (mdma_udelay hw 1 s) (\<lambda>s.
           Option.bind (chan_trans_progress hw chan 1 s) (\<lambda>r.
             wait_group hw chan (fst r) (if timeout > 0 then timeout - 1 else timeout) (snd r))))"

definition mdma_chan_wait_group_end :: "'d hw \<Rightarrow> u32 \<Rightarrow> int \<Rightarrow> 'd mdma_sys \<Rightarrow> (int \<times> 'd mdma_sys) option" where
  "mdma_chan_wait_group_end hw chan timeout s =
     (if chan = 0 then Some (-1, s)
      else do {
        c \<leftarrow> md_chans s chan;
        if ch_trans c = 0 then Some (-1, s)
        else do {
          (wait_nmb, s) \<leftarrow> chan_trans_progress hw chan 1 s;
          wait_group hw chan wait_nmb timeout s } })"

text \<open>The interrupt mask is taken away for the time of an operation and put back after it.\<close>

definition mask_irq :: "'d hw \<Rightarrow> mdma_chan \<Rightarrow> 'd mdma_sys \<Rightarrow> u32 \<times> 'd mdma_sys" where
  "mask_irq hw c s = (let (flags, s) = chan_rd hw c reg_irq_mask s in (flags, chan_wr hw c 0 reg_irq_mask s))"

fun pause_wait :: "'d hw \<Rightarrow> mdma_chan \<Rightarrow> bool \<Rightarrow> u32 \<Rightarrow> nat \<Rightarrow> 'd mdma_sys \<Rightarrow> 'd mdma_sys option" where
  "pause_wait hw c suspend st_mask timeout s =
     (let (v, s) = chan_rd hw c reg_dma_state s
      in if v AND st_mask = 0 then Some s
         else (case timeout of
                 0 \<Rightarrow> None
               | Suc n \<Rightarrow> do {
                   s \<leftarrow> mdma_udelay hw 1 s;
                   if suspend then Some s else pause_wait hw c suspend st_mask n s }))"

declare pause_wait.simps [simp del]

definition pause_tail ::
  "'d hw \<Rightarrow> u32 \<Rightarrow> mdma_chan \<Rightarrow> bool \<Rightarrow> u32 \<Rightarrow> mdma_chan_state option \<Rightarrow> 'd mdma_sys \<Rightarrow> (int \<times> 'd mdma_sys) option" where
  "pause_tail hw chan c suspend flags cur s = do {
     s \<leftarrow> pause_wait hw c suspend (if suspend then MDMA_STATE_SUSPEND else MDMA_STATE_CANCEL) MDMA_CHAN_TIMEOUT s;
     s \<leftarrow> (if suspend then
             (let (v, s) = chan_rd hw c reg_enable s
              in if v AND MDMA_ENABLE \<noteq> 0 then upd_chan chan (\<lambda>c. c\<lparr>ch_state := MDMA_CHAN_SUSPENDED\<rparr>) s
                 else Some (chan_wr hw c 0 reg_suspend s))
           else if cur = Some MDMA_CHAN_RUNNING then upd_chan chan (\<lambda>c. c\<lparr>ch_state := MDMA_CHAN_CANCELED\<rparr>) s
           else Some s);
     (cur, s) \<leftarrow> mdma_chan_get_state hw chan (chan_wr hw c flags reg_irq_mask s);
     Some (if cur \<noteq> Some MDMA_CHAN_SUSPENDED \<and> cur \<noteq> Some MDMA_CHAN_CANCELED then -2 else 0, s) }"

partial_function (option) mdma_chan_pause :: "'d hw \<Rightarrow> u32 \<Rightarrow> bool \<Rightarrow> 'd mdma_sys \<Rightarrow> (int \<times> 'd mdma_sys) option" where
  "mdma_chan_pause hw chan suspend s =
     (if chan = 0 then Some (-1, s)
      else Option.bind (md_chans s chan) (\<lambda>c.
        Option.bind (mdma_chan_get_state hw chan (snd (mask_irq hw c s))) (\<lambda>r.
        Option.bind (let s1 = (if suspend then chan_wr hw c MDMA_SUSPEND reg_suspend (snd r)
                               else chan_wr hw c MDMA_CANCEL reg_cancel (snd r))
                     in if ch_slave c \<noteq> 0
                        then Option.bind (mdma_chan_pause hw (ch_slave c) suspend s1) (\<lambda>q. Some (snd q))
                        else Some s1) (\<lambda>s2.
          pause_tail hw chan c suspend (fst (mask_irq hw c s)) (fst r) s2))))"

definition mdma_chan_resume :: "'d hw \<Rightarrow> u32 \<Rightarrow> 'd mdma_sys \<Rightarrow> (int \<times> 'd mdma_sys) option" where
  "mdma_chan_resume hw chan s =
     (if chan = 0 then Some (-1, s)
      else do {
        c \<leftarrow> md_chans s chan;
        let (flags, s) = mask_irq hw c s;
        (cur, s) \<leftarrow> mdma_chan_get_state hw chan s;
        (ret, s) \<leftarrow>
          (if \<not> cf_event_indx (ch_cfg c) < 0 \<and> cur = Some MDMA_CHAN_PENDING then do {
             s \<leftarrow> upd_chan chan (\<lambda>c. c\<lparr>ch_state := MDMA_CHAN_WAITING\<rparr>)
                    (chan_wr hw c (BIT (nat (cf_event_indx (ch_cfg c)))) reg_sense_list s);
             Some (0, s) }
           else if cur = Some MDMA_CHAN_SUSPENDED then do {
             s \<leftarrow> upd_chan chan (\<lambda>c. c\<lparr>ch_state := MDMA_CHAN_RUNNING\<rparr>) (chan_wr hw c 0 reg_suspend s);
             Some (0, s) }
           else if cur = Some MDMA_CHAN_CANCELED \<or> cur = Some MDMA_CHAN_PENDING then do {
             s \<leftarrow> upd_chan chan (\<lambda>c. c\<lparr>ch_state := MDMA_CHAN_RUNNING\<rparr>) (chan_wr hw c MDMA_ENABLE reg_enable s);
             Some (0, s) }
           else Some (-2, s));
        Some (ret, chan_wr hw c flags reg_irq_mask s) })"

section \<open>Groups and nodes of a transfer\<close>

definition mdma_chan_get_trans :: "u32 \<Rightarrow> 'd mdma_sys \<Rightarrow> u32 option" where
  "mdma_chan_get_trans chan s = (if chan = 0 then Some 0 else do { c \<leftarrow> md_chans s chan; Some (ch_trans c) })"

definition mdma_trans_ignore_event :: "'d hw \<Rightarrow> u32 \<Rightarrow> 'd mdma_sys \<Rightarrow> (int \<times> 'd mdma_sys) option" where
  "mdma_trans_ignore_event hw tr s =
     (if tr = 0 then Some (-1, s)
      else do {
        t \<leftarrow> md_trans s tr;
        if tr_chan t = 0 then Some (-1, s)
        else do {
          c \<leftarrow> md_chans s (tr_chan t);
          let (flags, s) = mask_irq hw c s;
          s \<leftarrow> upd_trans tr (\<lambda>t. t\<lparr>tr_ignore_event := False\<rparr>) s;
          Some (if tr_ignore_event t then 1 else 0, chan_wr hw c flags reg_irq_mask s) } })"

definition mdma_trans_get_group :: "'d hw \<Rightarrow> u32 \<Rightarrow> 'd mdma_sys \<Rightarrow> (u32 \<times> 'd mdma_sys) option" where
  "mdma_trans_get_group hw tr s =
     (if tr = 0 then Some (0, s)
      else do {
        t \<leftarrow> md_trans s tr;
        if tr_chan t = 0 then Some (0, s)
        else do {
          c \<leftarrow> md_chans s (tr_chan t);
          let (flags, s) = mask_irq hw c s;
          (wait_nmb, s) \<leftarrow> chan_trans_progress hw (tr_chan t) 1 s;
          if \<not> wait_nmb > 0 then Some (0, chan_wr hw c flags reg_irq_mask s)
          else do {
            t \<leftarrow> md_trans s tr;
            if tr_cur_group t = 0 then None
            else do {
              nxt \<leftarrow> group_after t (tr_cur_group t) 0;
              s \<leftarrow> upd_trans tr (\<lambda>t. t\<lparr>tr_cur_group := nxt, tr_group_wait := tr_group_wait t - 1\<rparr>) s;
              Some (tr_cur_group t, chan_wr hw c flags reg_irq_mask s) } } } })"

fun set_descs :: "'d hw \<Rightarrow> mdma_cfg \<Rightarrow> mdma_node list \<Rightarrow> 'd mdma_sys \<Rightarrow> 'd mdma_sys option" where
  "set_descs hw cfg [] s = Some s"
| "set_descs hw cfg (n # ns) s = do { (_, s) \<leftarrow> chan_set_desc hw n cfg s; set_descs hw cfg ns s }"

definition mdma_trans_rest_group :: "'d hw \<Rightarrow> u32 \<Rightarrow> 'd mdma_sys \<Rightarrow> (int \<times> 'd mdma_sys) option" where
  "mdma_trans_rest_group hw gp s =
     (if gp = 0 then Some (-1, s)
      else do {
        g \<leftarrow> md_groups s gp;
        if gr_trans g = 0 then Some (-1, s)
        else do {
          t \<leftarrow> md_trans s (gr_trans g);
          c \<leftarrow> md_chans s (tr_chan t);
          let (flags, s) = mask_irq hw c s;
          ns \<leftarrow> md_nodes s (gr_node_group g);
          if length ns < gr_node_nmb g then None
          else do {
            s \<leftarrow> set_descs hw (ch_cfg c) (rev (take (gr_node_nmb g) ns)) s;
            s \<leftarrow> upd_group gp (\<lambda>g. g\<lparr>gr_cur_indx := 0, gr_group_done := False\<rparr>) s;
            Some (0, chan_wr hw c flags reg_irq_mask s) } } })"

text \<open>A pointer to a node is the address of the array and an index; \<open>None\<close> inside the result is \<open>NULL\<close>.\<close>

definition mdma_group_get_node :: "'d hw \<Rightarrow> u32 \<Rightarrow> 'd mdma_sys \<Rightarrow> ((u32 \<times> nat) option \<times> 'd mdma_sys) option" where
  "mdma_group_get_node hw gp s =
     (if gp = 0 then Some (None, s)
      else do {
        g \<leftarrow> md_groups s gp;
        if gr_trans g = 0 then Some (None, s)
        else do {
          t \<leftarrow> md_trans s (gr_trans g);
          c \<leftarrow> md_chans s (tr_chan t);
          let (flags, s) = mask_irq hw c s;
          if gr_cur_indx g < 0 then Some (None, chan_wr hw c flags reg_irq_mask s)
          else do {
            let i = gr_cur_indx g;
            s \<leftarrow> upd_group gp (\<lambda>g. g\<lparr>gr_cur_indx := (if \<not> i + 1 < int (gr_node_nmb g) then -1 else i + 1)\<rparr>) s;
            Some (Some (gr_node_group g, nat i), chan_wr hw c flags reg_irq_mask s) } } })"

definition rebase_check :: "mdma_node \<Rightarrow> mdma_cfg \<Rightarrow> u32 \<Rightarrow> u32 \<Rightarrow> (int + u32) option" where
  "rebase_check node cfg mem_addr mem_size =
     (if nd_desc_type node \<noteq> DESC_DATA then Some (Inl (-1))
      else if mem_addr = 0 \<or> mem_size = 0 then Some (Inl (-2))
      else if mem_addr AND burst_mask cfg \<noteq> 0 then Some (Inl (-4))
      else if \<not> cf_addr_inc cfg \<and> mem_size AND burst_mask cfg \<noteq> 0 then Some (Inl (-5))
      else if cf_desc_kind cfg = PITCH_DESC then
        (if cf_str_length cfg = 0 then None
         else
           let num_str = sint (mem_size div cf_str_length cfg)
           in Some (if num_str < 0 then Inl (-6)
                    else if cf_str_length cfg * of_int num_str \<noteq> mem_size then Inl (-7)
                    else if cf_add_info cfg \<and> \<not> num_str < sint (MDMA_LENGTH_LIMIT False) then Inl (-9)
                    else if \<not> cf_add_info cfg \<and> \<not> num_str < sint (MDMA_LENGTH_LIMIT True) then Inl (-10)
                    else Inr (of_int num_str)))
      else Some (if cf_add_info cfg \<and> \<not> mem_size < MDMA_LENGTH_LIMIT False then Inl (-11)
                 else if \<not> cf_add_info cfg \<and> \<not> mem_size < MDMA_LENGTH_LIMIT True then Inl (-12)
                 else Inr mem_size))"

definition mdma_node_rebase :: "(u32 \<times> nat) option \<Rightarrow> mdma_cfg \<Rightarrow> u32 \<Rightarrow> u32 \<Rightarrow> 'd mdma_sys \<Rightarrow> (int \<times> 'd mdma_sys) option" where
  "mdma_node_rebase node cfg mem_addr mem_size s =
     (case node of
        None \<Rightarrow> Some (-1, s)
      | Some (a, i) \<Rightarrow> do {
          n \<leftarrow> get_node a i s;
          r \<leftarrow> rebase_check n cfg mem_addr mem_size;
          case r of
            Inl e \<Rightarrow> Some (e, s)
          | Inr sz \<Rightarrow> do {
              s \<leftarrow> upd_node a i (\<lambda>n. n\<lparr>nd_mem_size := sz, nd_mem_addr := mem_addr\<rparr>) s;
              Some (0, s) } })"

definition mdma_node_get_desc :: "(u32 \<times> nat) option \<Rightarrow> 'd mdma_sys \<Rightarrow> (u32 \<times> u32) option" where
  "mdma_node_get_desc node s =
     (case node of
        None \<Rightarrow> Some (0, 0)
      | Some (a, i) \<Rightarrow> do {
          n \<leftarrow> get_node a i s;
          if nd_group n = 0 then Some (0, 0)
          else do {
            g \<leftarrow> md_groups s (nd_group n);
            Some (gr_desc_pool_addr g + gr_gap_size g * of_nat (nd_desc_indx n), gr_gap_size g) } })"

definition mdma_desc_flags_length :: "'d hw \<Rightarrow> u32 \<Rightarrow> int \<Rightarrow> 'd mdma_sys \<Rightarrow> u32 \<times> 'd mdma_sys" where
  "mdma_desc_flags_length hw desc sz s =
     (if desc = 0 then (0, s)
      else if sz < 8 \<or> sz > 16 then (0, s)
      else
        let desc_ptr = desc + (of_int sz - 4)
        in if desc_ptr AND 3 \<noteq> 0 then (0, s) else mdma_chan_read32 hw desc_ptr s)"

definition mdma_desc_user_data :: "'d hw \<Rightarrow> u32 \<Rightarrow> bool \<Rightarrow> 'd mdma_sys \<Rightarrow> u32 \<times> 'd mdma_sys" where
  "mdma_desc_user_data hw desc low s =
     (if desc = 0 then (0, s)
      else if desc AND 3 \<noteq> 0 then (0, s)
      else mdma_chan_read32 hw (if \<not> low then desc + 4 else desc) s)"

section \<open>Descriptors can be read back\<close>

text \<open>The fields as the header of the library and the controller read them.\<close>

definition desc_length :: "bool \<Rightarrow> u32 \<Rightarrow> u32" where
  "desc_length ext w = (if ext then MDMA_DESC_LENGTH_EXT w else MDMA_DESC_LENGTH w)"

definition MDMA_DESC_CUSTOM_R :: "u32 \<Rightarrow> u32" where "MDMA_DESC_CUSTOM_R x = drop_bit 14 x AND 0xFFF"

lemma desc_masks:
  "(0x3FFF :: u32) = mask 14" "(0x3FFFFFF :: u32) = mask 26" "(0xFFF :: u32) = mask 12"
  by (simp_all add: mask_eq_exp_minus_1)

lemma small_bits:
  assumes "w < 2 ^ k" "k < 32"
  shows "bit (w :: u32) i \<Longrightarrow> i < k"
proof (rule ccontr)
  assume b: "bit w i" and n: "\<not> i < k"
  have "w AND mask k = w" using assms(1) by (rule less_mask_eq)
  then show False using b n by (metis bit_and_iff bit_mask_iff)
qed

lemmas desc_consts = MDMA_DESC_LINK_def MDMA_DESC_INTERRUPT_def MDMA_DESC_STOP_def MDMA_DESC_INCREMENT_def
  MDMA_DESC_OWNERSHIP_def MDMA_DESC_CUSTOM_W_def MDMA_DESC_CUSTOM_R_def MDMA_DESC_LENGTH_def MDMA_DESC_LENGTH_EXT_def

text \<open>Bit by bit.\<close>

lemma bit_desc_word:
  "bit (desc_word n cfg) i \<longleftrightarrow>
     i = 30 \<and> nd_desc_type n = DESC_LINK \<or> i = 29 \<and> nd_is_last n \<or> i = 28 \<and> nd_is_stop n \<or>
     nd_desc_type n = DESC_DATA \<and>
       (i = 27 \<and> \<not> cf_addr_inc cfg \<or>
        (if cf_add_info cfg then i < 14 \<and> bit (nd_mem_size n) i \<or> 14 \<le> i \<and> i < 26 \<and> bit (nd_custom_flags n) (i - 14)
         else i < 26 \<and> bit (nd_mem_size n) i))"
  unfolding desc_word_def desc_consts desc_masks
  by (auto simp: bit_or_iff bit_BIT bit_and_iff bit_mask_iff bit_push_bit_iff possible_bit_def)

text \<open>C29: A descriptor says exactly what its node says: the link, interrupt, stop and fixed-address bits, the size, and
  with additional information the user's flags, all read back; and a fresh descriptor belongs to the controller.\<close>

theorem descriptor_reads_back:
  assumes "nd_mem_size n < MDMA_LENGTH_LIMIT (\<not> cf_add_info cfg)"
  shows "(desc_word n cfg AND MDMA_DESC_LINK \<noteq> 0 \<longleftrightarrow> nd_desc_type n = DESC_LINK) \<and>
    (desc_word n cfg AND MDMA_DESC_INTERRUPT \<noteq> 0 \<longleftrightarrow> nd_is_last n) \<and>
    (desc_word n cfg AND MDMA_DESC_STOP \<noteq> 0 \<longleftrightarrow> nd_is_stop n) \<and>
    desc_word n cfg AND MDMA_DESC_OWNERSHIP = 0 \<and>
    (nd_desc_type n = DESC_DATA \<longrightarrow>
       desc_length (\<not> cf_add_info cfg) (desc_word n cfg) = nd_mem_size n \<and>
       (desc_word n cfg AND MDMA_DESC_INCREMENT \<noteq> 0 \<longleftrightarrow> \<not> cf_addr_inc cfg) \<and>
       (cf_add_info cfg \<longrightarrow> MDMA_DESC_CUSTOM_R (desc_word n cfg) = nd_custom_flags n AND 0xFFF))"
proof -
  have sz: "bit (nd_mem_size n) i \<Longrightarrow> i < (if cf_add_info cfg then 14 else 26)" for i
    using assms small_bits [of "nd_mem_size n" "if cf_add_info cfg then 14 else 26" i]
    by (auto simp: MDMA_LENGTH_LIMIT_def)
  have len: "desc_length (\<not> cf_add_info cfg) (desc_word n cfg) = nd_mem_size n" if "nd_desc_type n = DESC_DATA"
    unfolding desc_length_def desc_consts desc_masks
    by (rule bit_eqI) (use sz that in \<open>auto simp: bit_and_iff bit_mask_iff bit_desc_word possible_bit_def\<close>)
  have cust: "MDMA_DESC_CUSTOM_R (desc_word n cfg) = nd_custom_flags n AND 0xFFF"
    if "nd_desc_type n = DESC_DATA" "cf_add_info cfg"
    unfolding desc_consts desc_masks
    by (rule bit_eqI) (use that in \<open>auto simp: bit_and_iff bit_mask_iff bit_desc_word possible_bit_def bit_drop_bit_eq\<close>)
  have own: "desc_word n cfg AND MDMA_DESC_OWNERSHIP = 0"
    using and_BIT [of "desc_word n cfg" 31] by (auto simp: MDMA_DESC_OWNERSHIP_def bit_desc_word split: if_splits)
  show ?thesis
    using len cust own
    by (auto simp: MDMA_DESC_LINK_def MDMA_DESC_INTERRUPT_def MDMA_DESC_STOP_def MDMA_DESC_INCREMENT_def and_BIT bit_desc_word)
qed

theorem descriptor_reads_back_witness:
  "desc_length False (desc_word (demo_node 0x1100 0 0x50000 0x3FFC True) demo_cfg) = 0x3FFC"
  using descriptor_reads_back [of "demo_node 0x1100 0 0x50000 0x3FFC True" demo_cfg]
  by (simp add: demo_node_def demo_cfg_def MDMA_LENGTH_LIMIT_def)

section \<open>Event priorities\<close>

lemma prior_set:
  assumes "i < 16" "j < 16" "v < 16"
  shows "prior_at j (set_prior_at i v p) = (if i = j then v else prior_at j p)"
proof -
  have F: "(0xF :: u32) = mask 4" by (simp add: mask_eq_exp_minus_1)
  have v: "bit v k \<Longrightarrow> k < 4" for k using small_bits [of v 4 k] assms(3) by simp
  have m: "MDMA_GET_PRIOR b ((x AND NOT (MDMA_SET_PRIOR a 0xF)) OR MDMA_SET_PRIOR a v) =
      (if a = b then v else MDMA_GET_PRIOR b x)" if "a < 8" "b < 8" for a b x
  proof (rule bit_eqI)
    fix k
    have d: "a = b" if "4 * a \<le> b * 4 + k" "b * 4 + k < 4 * a + 4" "k < 4" using that by presburger
    show "bit (MDMA_GET_PRIOR b ((x AND NOT (MDMA_SET_PRIOR a 0xF)) OR MDMA_SET_PRIOR a v)) k \<longleftrightarrow>
        bit (if a = b then v else MDMA_GET_PRIOR b x) k"
      using that v d unfolding MDMA_GET_PRIOR_def MDMA_SET_PRIOR_def F
      by (auto simp: bit_and_iff bit_or_iff bit_not_iff bit_mask_iff bit_push_bit_iff bit_drop_bit_eq possible_bit_def
          dest: v)
  qed
  show ?thesis
    using assms m [of i j "fst p"] m [of "i - 8" "j - 8" "snd p"]
    by (auto simp: prior_at_def set_prior_at_def)
qed

text \<open>Giving a priority to an event takes it from the event that had it, which gets the old priority of the first one in
  return; all other events keep theirs. So each priority still belongs to the same number of events.\<close>

theorem priorities_swapped:
  assumes ev: "ev < 16" and prior: "prior < 8" and i: "event_of_prior prior p = Some i"
  shows "i < 16 \<and> prior_at i p = prior \<and>
    (\<forall>j < 16. prior_at j (swap_prior ev prior i p) =
      (if j = i then prior_at ev p else if j = ev then prior else prior_at j p)) \<and>
    mset (map (\<lambda>j. prior_at j (swap_prior ev prior i p)) [0..<16]) = mset (map (\<lambda>j. prior_at j p) [0..<16])"
proof -
  have f: "i < 16" "prior_at i p = prior"
    using i by (auto simp: event_of_prior_def MDMA_EVENT_MAX_NUM_def find_Some_iff)
  have b: "prior_at ev p < 16"
  proof -
    have "w AND 0xF < (16 :: u32)" for w
      using and_mask_less' [of 4 w] by (simp add: mask_eq_exp_minus_1)
    then show ?thesis by (simp add: prior_at_def MDMA_GET_PRIOR_def)
  qed
  have "prior < 16" using prior by (simp add: word_less_nat_alt)
  then have at: "prior_at j (swap_prior ev prior i p) =
      (if j = i then prior_at ev p else if j = ev then prior else prior_at j p)" if "j < 16" for j
    using prior_set [of i j "prior_at ev p" "set_prior_at ev prior p"] prior_set [of ev j prior p] that ev b f
    by (auto simp: swap_prior_def)
  let ?ls = "map (\<lambda>j. prior_at j p) [0..<16]"
  have "map (\<lambda>j. prior_at j (swap_prior ev prior i p)) [0..<16] = ?ls[ev := ?ls ! i, i := ?ls ! ev]"
    by (rule nth_equalityI) (use at ev f in \<open>auto simp: nth_list_update\<close>)
  moreover have "mset (?ls[ev := ?ls ! i, i := ?ls ! ev]) = mset ?ls"
    using mset_swap [of i ?ls ev] ev f by simp
  ultimately show ?thesis using f at by simp
qed

theorem priorities_swapped_witness:
  "prior_at 3 (swap_prior 3 2 2 (0x76543210, 0xFEDCBA98)) = 2 \<and> prior_at 2 (swap_prior 3 2 2 (0x76543210, 0xFEDCBA98)) = 3"
proof -
  have "event_of_prior 2 (0x76543210, 0xFEDCBA98) = Some 2"
    by (simp add: event_of_prior_def MDMA_EVENT_MAX_NUM_def prior_at_def MDMA_GET_PRIOR_def upt_rec)
  from priorities_swapped [OF _ _ this, of 3]
  have a: "\<forall>j < 16. prior_at j (swap_prior 3 2 2 (0x76543210, 0xFEDCBA98)) =
      (if j = 2 then prior_at 3 (0x76543210, 0xFEDCBA98) else if j = 3 then 2 else prior_at j (0x76543210, 0xFEDCBA98))"
    by simp
  have "prior_at 3 (0x76543210, 0xFEDCBA98) = 3" by (simp add: prior_at_def MDMA_GET_PRIOR_def)
  then show ?thesis using spec [OF a, of 2] spec [OF a, of 3] by simp
qed

section \<open>Groups are handed over in order\<close>

text \<open>Register accesses change the device only.\<close>

definition same_objs :: "'d mdma_sys \<Rightarrow> 'd mdma_sys \<Rightarrow> bool" where
  "same_objs s s' \<longleftrightarrow> md_heaps s' = md_heaps s \<and> md_chans s' = md_chans s \<and> md_trans s' = md_trans s \<and>
     md_groups s' = md_groups s \<and> md_nodes s' = md_nodes s"

lemma same_objs_refl [simp]: "same_objs s s"
  by (simp add: same_objs_def)

lemma same_objs_trans: "same_objs s s' \<Longrightarrow> same_objs s' s'' \<Longrightarrow> same_objs s s''"
  by (simp add: same_objs_def)

lemma same_objs_rd: "chan_rd hw c off s = (v, s') \<Longrightarrow> same_objs s s'"
  by (auto simp: chan_rd_def mdma_chan_read32_def same_objs_def Let_def split: prod.splits)

lemma same_objs_wr [simp]: "same_objs s (chan_wr hw c v off s)"
  by (simp add: chan_wr_def mdma_chan_write32_def same_objs_def)

lemma same_objs_mask: "mask_irq hw c s = (v, s') \<Longrightarrow> same_objs s s'"
  unfolding mask_irq_def by (auto simp: Let_def split: prod.splits dest: same_objs_rd intro: same_objs_trans)

lemma same_objs_read32: "mdma_chan_read32 hw a s = (v, s') \<Longrightarrow> same_objs s s'"
  by (auto simp: mdma_chan_read32_def same_objs_def Let_def split: prod.splits)

text \<open>
  The word of the last descriptor of a group, in which the controller sets the ownership bit when it gives
  the group back, and whether the driver has seen that.
\<close>

definition flag_word :: "'d mdma_sys \<Rightarrow> u32 \<Rightarrow> u32" where
  "flag_word s gp = (case md_groups s gp of None \<Rightarrow> 0 | Some g \<Rightarrow> gr_desc_pool_addr g + (gr_desc_pool_size g - 4))"

definition is_done :: "'d mdma_sys \<Rightarrow> u32 \<Rightarrow> bool" where
  "is_done s gp = (case md_groups s gp of None \<Rightarrow> False | Some g \<Rightarrow> gr_group_done g)"

text \<open>
  What is assumed of the controller: \<open>fin d a\<close> says that the descriptor word at \<open>a\<close> (one of \<open>A\<close>) carries the
  ownership bit. It may appear at any access, reading the word shows it, and it stays until the word is written.
\<close>

definition gives_back :: "'d hw \<Rightarrow> ('d \<Rightarrow> u32 \<Rightarrow> bool) \<Rightarrow> u32 set \<Rightarrow> bool" where
  "gives_back hw fin A \<longleftrightarrow> (\<forall>b \<in> A.
     (\<forall>d. fin d b \<longrightarrow> fst (ioread32 hw b d) AND MDMA_DESC_OWNERSHIP \<noteq> 0) \<and>
     (\<forall>d. fst (ioread32 hw b d) AND MDMA_DESC_OWNERSHIP \<noteq> 0 \<longrightarrow> fin (snd (ioread32 hw b d)) b) \<and>
     (\<forall>a d. fin d b \<longrightarrow> fin (snd (ioread32 hw a d)) b) \<and>
     (\<forall>v a d. a \<noteq> b \<longrightarrow> fin d b \<longrightarrow> fin (iowrite32 hw v a d) b))"

definition keeps_fin :: "('d \<Rightarrow> u32 \<Rightarrow> bool) \<Rightarrow> u32 set \<Rightarrow> 'd mdma_sys \<Rightarrow> 'd mdma_sys \<Rightarrow> bool" where
  "keeps_fin fin A s s' \<longleftrightarrow> (\<forall>b \<in> A. fin (md_dev s) b \<longrightarrow> fin (md_dev s') b)"

lemma keeps_fin_trans: "keeps_fin fin A s s1 \<Longrightarrow> keeps_fin fin A s1 s2 \<Longrightarrow> keeps_fin fin A s s2"
  by (simp add: keeps_fin_def)

lemma read32_fin:
  assumes "gives_back hw fin A" "mdma_chan_read32 hw a s = (v, s')"
  shows "keeps_fin fin A s s'" "a \<in> A \<Longrightarrow> fin (md_dev s) a \<Longrightarrow> v AND MDMA_DESC_OWNERSHIP \<noteq> 0"
    "a \<in> A \<Longrightarrow> v AND MDMA_DESC_OWNERSHIP \<noteq> 0 \<Longrightarrow> fin (md_dev s') a"
proof -
  have e: "v = fst (ioread32 hw a (md_dev s))" "md_dev s' = snd (ioread32 hw a (md_dev s))"
    using assms(2) by (auto simp: mdma_chan_read32_def Let_def split: prod.splits)
  show "keeps_fin fin A s s'" "a \<in> A \<Longrightarrow> fin (md_dev s) a \<Longrightarrow> v AND MDMA_DESC_OWNERSHIP \<noteq> 0"
    "a \<in> A \<Longrightarrow> v AND MDMA_DESC_OWNERSHIP \<noteq> 0 \<Longrightarrow> fin (md_dev s') a"
    using assms(1) unfolding e gives_back_def keeps_fin_def by blast+
qed

lemma chan_wr_fin:
  assumes "gives_back hw fin A" "ch_regs c + off \<notin> A"
  shows "keeps_fin fin A s (chan_wr hw c v off s)"
proof -
  have "ch_regs c + off \<noteq> b" if "b \<in> A" for b using assms(2) that by auto
  then show ?thesis
    using assms(1) unfolding gives_back_def keeps_fin_def chan_wr_def mdma_chan_write32_def by simp
qed

lemma mask_irq_fin:
  assumes "gives_back hw fin A" "ch_regs c + reg_irq_mask \<notin> A" "mask_irq hw c s = (v, s')"
  shows "keeps_fin fin A s s'"
proof -
  obtain s1 where r: "chan_rd hw c reg_irq_mask s = (v, s1)" and s': "s' = chan_wr hw c 0 reg_irq_mask s1"
    using assms(3) by (auto simp: mask_irq_def Let_def split: prod.splits)
  show ?thesis
    unfolding s' using keeps_fin_trans [OF read32_fin(1) [OF assms(1) r [unfolded chan_rd_def]] chan_wr_fin [OF assms(1,2)]] .
qed

lemma same_objs_words: "same_objs s s' \<Longrightarrow> flag_word s' gp = flag_word s gp" "same_objs s s' \<Longrightarrow> is_done s' gp = is_done s gp"
  by (simp_all add: same_objs_def flag_word_def is_done_def)

text \<open>
  One step over the group \<open>gp\<close>: either it is not handed over, and then it had been handed over before or was not given
  back yet; or it is, and then it has been given back and is marked.
\<close>

definition hand_over :: "('d \<Rightarrow> u32 \<Rightarrow> bool) \<Rightarrow> u32 set \<Rightarrow> u32 \<Rightarrow> bool \<Rightarrow> 'd mdma_sys \<Rightarrow> 'd mdma_sys \<Rightarrow> bool" where
  "hand_over fin A gp handed s s' \<longleftrightarrow> (\<forall>x. flag_word s' x = flag_word s x) \<and>
     (if handed then \<not> is_done s gp \<and> is_done s' gp \<and> fin (md_dev s') (flag_word s gp)
      else is_done s gp \<or> \<not> fin (md_dev s) (flag_word s gp))"

lemma hand_over_before:
  "hand_over fin A gp handed s1 s' \<Longrightarrow> same_objs s s1 \<Longrightarrow> keeps_fin fin A s s1 \<Longrightarrow> flag_word s gp \<in> A \<Longrightarrow> hand_over fin A gp handed s s'"
  by (auto simp: hand_over_def keeps_fin_def same_objs_words)

lemma hand_over_after:
  "hand_over fin A gp handed s s1 \<Longrightarrow> same_objs s1 s' \<Longrightarrow> keeps_fin fin A s1 s' \<Longrightarrow> flag_word s gp \<in> A \<Longrightarrow> hand_over fin A gp handed s s'"
  by (auto simp: hand_over_def keeps_fin_def same_objs_words)

lemma words_md_trans [simp]:
  "flag_word (s\<lparr>md_trans := tt\<rparr>) gp = flag_word s gp" "is_done (s\<lparr>md_trans := tt\<rparr>) gp = is_done s gp"
  by (simp_all add: flag_word_def is_done_def)

lemma hand_over_trans:
  "hand_over fin A gp handed s s1 \<Longrightarrow> hand_over fin A gp handed s (s1\<lparr>md_trans := tt\<rparr>)"
  "hand_over fin A gp handed (s\<lparr>md_trans := tt\<rparr>) s1 \<Longrightarrow> hand_over fin A gp handed s s1"
  by (simp_all add: hand_over_def split: if_splits)

lemma progress_once:
  assumes dev: "gives_back hw fin A" "flag_word s (tr_next_group t) \<in> A"
    and t: "md_trans s tr = Some t" and run: "progress_loop hw tr (Suc 0) s = Some s'"
  shows "\<exists>handed. hand_over fin A (tr_next_group t) handed s s' \<and> md_chans s' = md_chans s \<and>
    (if handed then \<exists>nxt. group_after t (tr_next_group t) (tr_next_group t) = Some nxt \<and>
       md_trans s' = (md_trans s)(tr \<mapsto> t\<lparr>tr_group_wait := tr_group_wait t + 1, tr_next_group := nxt\<rparr>)
     else same_objs s s')"
proof -
  let ?nx = "tr_next_group t"
  obtain g where g: "md_groups s ?nx = Some g"
    using t run by (auto simp: Option.bind_eq_Some_conv)
  let ?a = "gr_desc_pool_addr g + (gr_desc_pool_size g - 4)"
  have w: "flag_word s ?nx = ?a" "is_done s ?nx = gr_group_done g" using g by (simp_all add: flag_word_def is_done_def)
  obtain val s1 where rd: "mdma_chan_read32 hw ?a s = (val, s1)" by (cases "mdma_chan_read32 hw ?a s")
  note same = same_objs_read32 [OF rd] and fin = read32_fin [OF dev(1) rd]
  consider "gr_group_done g" "s' = s" | "\<not> gr_group_done g" "val AND MDMA_DESC_OWNERSHIP = 0" "s' = s1"
    | nxt where "\<not> gr_group_done g" "val AND MDMA_DESC_OWNERSHIP \<noteq> 0"
        "group_after t ?nx ?nx = Some nxt"
        "do { s \<leftarrow> upd_group ?nx (\<lambda>g. g\<lparr>gr_group_done := True\<rparr>) s1;
              upd_trans tr (\<lambda>t. t\<lparr>tr_group_wait := tr_group_wait t + 1, tr_next_group := nxt\<rparr>) s } = Some s'"
    using run unfolding progress_loop.simps t bind.bind_lunit g
    by (auto simp: rd Let_def Option.bind_eq_Some_conv split: if_splits)
  then show ?thesis
  proof cases
    case 1
    then show ?thesis by (intro exI [of _ False]) (simp add: hand_over_def w)
  next
    case 2
    then have "\<not> fin (md_dev s) ?a" using fin(2) dev(2) w(1) by auto
    then show ?thesis
      using 2 same by (intro exI [of _ False]) (simp add: hand_over_def w same_objs_words [OF same] same_objs_def)
  next
    case (3 nxt)
    have s': "s' = s1\<lparr>md_groups := (md_groups s)(?nx \<mapsto> g\<lparr>gr_group_done := True\<rparr>),
        md_trans := (md_trans s)(tr \<mapsto> t\<lparr>tr_group_wait := tr_group_wait t + 1, tr_next_group := nxt\<rparr>)\<rparr>"
      using 3(4) same g t by (auto simp: upd_group_def upd_trans_def Option.bind_eq_Some_conv same_objs_def)
    have "fin (md_dev s1) ?a" using fin(3) dev(2) w(1) 3(2) by simp
    then have "hand_over fin A ?nx True s s'"
      using 3(1) g by (auto simp: hand_over_def s' w) (auto simp: flag_word_def is_done_def)
    then show ?thesis using 3(3) same by (intro exI [of _ True]) (auto simp: s' same_objs_def)
  qed
qed

text \<open>What does not change while groups come back, and the group that is handed over \<open>k\<close>-th.\<close>

definition closed_list :: "mdma_trans \<Rightarrow> bool" where
  "closed_list t \<longleftrightarrow> tr_group_list t \<noteq> [] \<and> distinct (tr_group_list t) \<and> 0 \<notin> set (tr_group_list t) \<and>
     tr_first_group t = hd (tr_group_list t) \<and> tr_last_group t = last (tr_group_list t)"

definition nth_group :: "mdma_trans \<Rightarrow> nat \<Rightarrow> u32" where
  "nth_group t k =
     (if tr_trans_type t = MDMA_TRANS_RING then tr_group_list t ! (k mod length (tr_group_list t))
      else if k < length (tr_group_list t) then tr_group_list t ! k else 0)"

definition in_sync :: "mdma_trans \<Rightarrow> nat \<Rightarrow> bool" where
  "in_sync t k \<longleftrightarrow> closed_list t \<and> tr_cur_group t = nth_group t k \<and> tr_group_wait t = 0 \<and>
     (tr_trans_type t \<noteq> MDMA_TRANS_RING \<longrightarrow> k \<le> length (tr_group_list t)) \<and>
     (tr_next_group t = 0 \<or> tr_cur_group t = 0 \<or> tr_next_group t = tr_cur_group t)"

lemma next_in_nth:
  assumes "distinct gs" "Suc i < length gs"
  shows "next_in gs (gs ! i) = Some (gs ! Suc i)"
  using assms
proof (induction gs arbitrary: i)
  case (Cons x xs)
  obtain y ys where xs: "xs = y # ys" using Cons.prems by (cases xs) auto
  show ?case
  proof (cases i)
    case (Suc j)
    then have "xs ! j \<in> set xs" using Cons.prems by simp
    then have "x \<noteq> xs ! j" using Cons.prems by auto
    then show ?thesis using Suc Cons.IH [of j] Cons.prems by (simp add: xs)
  qed (simp add: xs)
qed simp

lemma group_after_nth:
  assumes c: "closed_list t" and k: "nth_group t k \<noteq> 0"
  shows "group_after t (nth_group t k) z = Some (if nth_group t (Suc k) = 0 then z else nth_group t (Suc k))"
    "tr_trans_type t \<noteq> MDMA_TRANS_RING \<Longrightarrow> k < length (tr_group_list t)"
proof -
  let ?gs = "tr_group_list t" and ?n = "length (tr_group_list t)"
  have gs: "?gs \<noteq> []" "distinct ?gs" "0 \<notin> set ?gs" "tr_first_group t = hd ?gs" "tr_last_group t = last ?gs"
    using c by (simp_all add: closed_list_def)
  show q: "k < ?n" if "tr_trans_type t \<noteq> MDMA_TRANS_RING" using k that by (auto simp: nth_group_def split: if_splits)
  define i where "i = (if tr_trans_type t = MDMA_TRANS_RING then k mod ?n else k)"
  have i: "i < ?n" "nth_group t k = ?gs ! i" using q gs(1) by (auto simp: i_def nth_group_def)
  have nz: "?gs ! j \<noteq> 0" if "j < ?n" for j using gs(3) that by (metis nth_mem)
  have last: "?gs ! i = last ?gs \<longleftrightarrow> Suc i = ?n"
    using gs(1,2) i(1) by (subst last_conv_nth) (auto simp: nth_eq_iff_index_eq)
  show "group_after t (nth_group t k) z = Some (if nth_group t (Suc k) = 0 then z else nth_group t (Suc k))"
  proof (cases "Suc i = ?n")
    case True
    then have "tr_trans_type t = MDMA_TRANS_RING \<Longrightarrow> Suc k mod ?n = 0" by (simp add: i_def mod_Suc)
    then show ?thesis
      using True i last gs nz [of 0] by (auto simp: group_after_def nth_group_def i_def hd_conv_nth)
  next
    case False
    then have "Suc i < ?n" using i(1) by simp
    moreover have "tr_trans_type t = MDMA_TRANS_RING \<Longrightarrow> Suc k mod ?n = Suc i" using False by (simp add: i_def mod_Suc)
    ultimately have "nth_group t (Suc k) = ?gs ! Suc i" by (auto simp: nth_group_def i_def)
    then show ?thesis
      using False \<open>Suc i < ?n\<close> last gs(5) next_in_nth [OF gs(2) \<open>Suc i < ?n\<close>] nz [OF \<open>Suc i < ?n\<close>] i(2)
      by (simp add: group_after_def)
  qed
qed

lemma progress_call:
  assumes dev: "gives_back hw fin A" "ch_regs c + reg_irq_mask \<notin> A" "tr_cur_group t \<noteq> 0 \<Longrightarrow> flag_word s (tr_cur_group t) \<in> A"
    and t: "md_trans s tr = Some t" "in_sync t k" and chan: "chan \<noteq> 0" "md_chans s chan = Some c"
      "ch_trans c = tr" "tr \<noteq> 0"
    and call: "chan_trans_progress hw chan 1 s = Some (w, s')"
  shows "md_chans s' = md_chans s \<and> (\<forall>x. flag_word s' x = flag_word s x) \<and> (\<exists>t'. md_trans s' tr = Some t' \<and>
    (w = 0 \<and> t' = t\<lparr>tr_next_group := tr_cur_group t\<rparr> \<and>
       (tr_cur_group t = 0 \<or> hand_over fin A (tr_cur_group t) False s s') \<or>
     (\<exists>nxt. w = 1 \<and> t' = t\<lparr>tr_group_wait := 1, tr_next_group := nxt\<rparr> \<and> tr_cur_group t \<noteq> 0 \<and>
        group_after t (tr_cur_group t) (tr_cur_group t) = Some nxt \<and> hand_over fin A (tr_cur_group t) True s s')))"
proof -
  let ?cur = "tr_cur_group t"
  have fl: "tr_first_group t \<noteq> 0" "tr_last_group t \<noteq> 0"
    using t(2) unfolding in_sync_def closed_list_def by (metis hd_in_set last_in_set)+
  have wait: "tr_group_wait t = 0" using t(2) by (simp add: in_sync_def)
  obtain flags s1 where rd: "chan_rd hw c reg_irq_mask s = (flags, s1)" by (cases "chan_rd hw c reg_irq_mask s")
  define s2 where "s2 = chan_wr hw c 0 reg_irq_mask s1"
  have "mask_irq hw c s = (flags, s2)" by (simp add: mask_irq_def rd s2_def)
  note same = same_objs_mask [OF this] and keep = mask_irq_fin [OF dev(1,2) this]
  have nxt: "(if ?cur = 0 then 0 else if tr_next_group t = 0 then ?cur else tr_next_group t) = ?cur"
    using t(2) by (auto simp: in_sync_def)
  let ?t1 = "t\<lparr>tr_next_group := ?cur\<rparr>"
  let ?s3 = "s2\<lparr>md_trans := (md_trans s2)(tr \<mapsto> ?t1)\<rparr>"
  have up: "upd_trans tr (\<lambda>t. t\<lparr>tr_next_group := ?cur\<rparr>) s2 = Some ?s3"
    using same t(1) by (simp add: upd_trans_def same_objs_def)
  obtain s4 t4 where s4: "(if ?cur = 0 then Some ?s3 else progress_loop hw tr (Suc 0) ?s3) = Some s4"
    and t4: "md_trans s4 tr = Some t4" "w = tr_group_wait t4" "s' = chan_wr hw c flags reg_irq_mask s4"
    using call t(1) chan fl unfolding chan_trans_progress_def
    by (auto simp: rd s2_def [symmetric] nxt up Let_def Option.bind_eq_Some_conv split: if_splits)
  have s': "same_objs s4 s'" "keeps_fin fin A s4 s'" unfolding t4(3) using chan_wr_fin [OF dev(1,2)] by simp_all
  have fw: "flag_word ?s3 x = flag_word s x" for x
    using same_objs_words(1) [OF same, of x] by (simp add: flag_word_def)
  show ?thesis
  proof (cases "?cur = 0")
    case True
    then have e: "s4 = ?s3" using s4 by simp
    have "flag_word s' x = flag_word s x" for x using same_objs_words(1) [OF s'(1), of x] fw by (simp add: e)
    then show ?thesis using s'(1) same t4(1,2) wait True e by (auto simp: same_objs_def)
  next
    case False
    have "md_trans ?s3 tr = Some ?t1" "progress_loop hw tr (Suc 0) ?s3 = Some s4" "flag_word ?s3 (tr_next_group ?t1) \<in> A"
      using s4 False dev(3) fw by simp_all
    note po = progress_once [OF dev(1) this(3,1,2)]
    have "tr_next_group ?t1 = ?cur" by simp
    from po [unfolded this] obtain handed where h: "hand_over fin A ?cur handed ?s3 s4"
        "md_chans s4 = md_chans ?s3"
        "if handed then \<exists>nxt. group_after ?t1 ?cur ?cur = Some nxt \<and>
           md_trans s4 = (md_trans ?s3)(tr \<mapsto> ?t1\<lparr>tr_group_wait := tr_group_wait ?t1 + 1, tr_next_group := nxt\<rparr>)
         else same_objs ?s3 s4" by blast
    have fa: "flag_word s ?cur \<in> A" "flag_word s2 ?cur \<in> A" using dev(3) False same_objs_words(1) [OF same] by simp_all
    have h': "hand_over fin A ?cur handed s s'"
      by (rule hand_over_before [OF hand_over_after [OF hand_over_trans(2) [OF h(1)] s' fa(2)] same keep fa(1)])
    have ga: "group_after ?t1 ?cur ?cur = group_after t ?cur ?cur" by (simp add: group_after_def)
    have ch: "md_chans s' = md_chans s" using s'(1) h(2) same by (simp add: same_objs_def)
    have fw': "\<forall>x. flag_word s' x = flag_word s x" using h' by (simp add: hand_over_def)
    show ?thesis
    proof (cases handed)
      case True
      then obtain nxt where n: "group_after t ?cur ?cur = Some nxt" "md_trans s4 tr = Some (t\<lparr>tr_group_wait := 1, tr_next_group := nxt\<rparr>)"
        using h(3) ga wait by auto
      then have "w = 1" "md_trans s' tr = Some (t\<lparr>tr_group_wait := 1, tr_next_group := nxt\<rparr>)"
        using t4(1,2) s'(1) by (auto simp: same_objs_def)
      then show ?thesis using n(1) h' ch fw' True False by auto
    next
      case handed: False
      then have "md_trans s4 tr = Some ?t1" using h(3) by (simp add: same_objs_def)
      then have "w = 0" "md_trans s' tr = Some ?t1" using t4(1,2) s'(1) wait by (auto simp: same_objs_def)
      then show ?thesis using h' ch fw' handed by auto
    qed
  qed
qed

lemma get_group_step:
  assumes dev: "gives_back hw fin A" "ch_regs c + reg_irq_mask \<notin> A" "\<forall>gp \<in> set (tr_group_list t). flag_word s gp \<in> A"
    and t: "md_trans s tr = Some t" "in_sync t k" and chan: "chan \<noteq> 0" "md_chans s chan = Some c"
      "ch_trans c = tr" "tr \<noteq> 0" "tr_chan t = chan"
    and call: "mdma_trans_get_group hw tr s = Some (g, s')"
  shows "md_chans s' = md_chans s \<and> (\<forall>x. flag_word s' x = flag_word s x) \<and> (\<exists>t'. md_trans s' tr = Some t' \<and>
    tr_chan t' = chan \<and> tr_group_list t' = tr_group_list t \<and> tr_trans_type t' = tr_trans_type t \<and>
    (g = 0 \<and> in_sync t' k \<and> (nth_group t k = 0 \<or> hand_over fin A (nth_group t k) False s s') \<or>
     g \<noteq> 0 \<and> g = nth_group t k \<and> in_sync t' (Suc k) \<and> hand_over fin A g True s s'))"
proof -
  have sync: "closed_list t" "tr_cur_group t = nth_group t k" "tr_group_wait t = 0"
      "tr_trans_type t \<noteq> MDMA_TRANS_RING \<longrightarrow> k \<le> length (tr_group_list t)"
    using t(2) by (simp_all add: in_sync_def)
  have cur: "tr_cur_group t \<in> set (tr_group_list t)" if "tr_cur_group t \<noteq> 0"
    using that sync(1) unfolding sync(2) by (auto simp: nth_group_def closed_list_def split: if_splits)
  obtain flags s1 where m: "mask_irq hw c s = (flags, s1)" by (cases "mask_irq hw c s")
  note same = same_objs_mask [OF m] and keep = mask_irq_fin [OF dev(1,2) m]
  have s1: "md_trans s1 tr = Some t" "md_chans s1 = md_chans s" using same t(1) by (simp_all add: same_objs_def)
  have fw1: "flag_word s1 x = flag_word s x" for x by (rule same_objs_words(1) [OF same])
  obtain w s2 where p: "chan_trans_progress hw chan 1 s1 = Some (w, s2)"
    using call chan t(1) by (auto simp: mdma_trans_get_group_def m Option.bind_eq_Some_conv)
  have c1: "md_chans s1 chan = Some c" using chan(2) s1(2) by simp
  have nth: "nth_group t' j = nth_group t j" "closed_list t' = closed_list t"
    if "tr_group_list t' = tr_group_list t" "tr_trans_type t' = tr_trans_type t"
      "tr_first_group t' = tr_first_group t" "tr_last_group t' = tr_last_group t" for t' j
    using that by (simp_all add: nth_group_def closed_list_def)
  have A1: "flag_word s1 (tr_cur_group t) \<in> A" if "tr_cur_group t \<noteq> 0" using dev(3) cur [OF that] fw1 by simp
  have A0: "flag_word s (tr_cur_group t) \<in> A" if "tr_cur_group t \<noteq> 0" using dev(3) cur [OF that] by simp
  note pc = progress_call [OF dev(1,2) A1 s1(1) t(2) chan(1) c1 chan(3,4) p]
  obtain t2 where t2: "md_chans s2 = md_chans s1" "\<forall>x. flag_word s2 x = flag_word s x" "md_trans s2 tr = Some t2"
    and cs: "w = 0 \<and> t2 = t\<lparr>tr_next_group := tr_cur_group t\<rparr> \<and>
       (tr_cur_group t = 0 \<or> hand_over fin A (tr_cur_group t) False s1 s2) \<or>
     (\<exists>nxt. w = 1 \<and> t2 = t\<lparr>tr_group_wait := 1, tr_next_group := nxt\<rparr> \<and> tr_cur_group t \<noteq> 0 \<and>
        group_after t (tr_cur_group t) (tr_cur_group t) = Some nxt \<and> hand_over fin A (tr_cur_group t) True s1 s2)"
    using pc fw1 by auto
  from cs consider (none) "w = 0" "t2 = t\<lparr>tr_next_group := tr_cur_group t\<rparr>"
      "tr_cur_group t = 0 \<or> hand_over fin A (tr_cur_group t) False s1 s2"
    | (some) nxt where "w = 1" "t2 = t\<lparr>tr_group_wait := 1, tr_next_group := nxt\<rparr>" "tr_cur_group t \<noteq> 0"
      "group_after t (tr_cur_group t) (tr_cur_group t) = Some nxt" "hand_over fin A (tr_cur_group t) True s1 s2"
    by blast
  then show ?thesis
  proof cases
    case none
    note w = none(1,2) and h = none(3)
    have g: "g = 0" "s' = chan_wr hw c flags reg_irq_mask s2"
      using call chan t(1) p w by (auto simp: mdma_trans_get_group_def m)
    have s': "same_objs s2 s'" "keeps_fin fin A s2 s'" unfolding g(2) using chan_wr_fin [OF dev(1,2)] by simp_all
    have "md_chans s' = md_chans s" "md_trans s' tr = Some t2" using s'(1) t2 s1(2) by (simp_all add: same_objs_def)
    moreover have "\<forall>x. flag_word s' x = flag_word s x" using same_objs_words(1) [OF s'(1)] t2(2) by simp
    moreover have "nth_group t k = 0 \<or> hand_over fin A (nth_group t k) False s s'"
      using h A0 A1 hand_over_before [OF hand_over_after [OF _ s'] same keep] unfolding sync(2) by blast
    moreover have "nth_group t2 k = nth_group t k" "closed_list t2 = closed_list t"
      by (rule nth; simp add: w(2))+
    then have "in_sync t2 k" using t(2) by (auto simp: in_sync_def w(2))
    moreover have "tr_chan t2 = chan" "tr_group_list t2 = tr_group_list t" "tr_trans_type t2 = tr_trans_type t"
      by (simp_all add: w(2) chan(5))
    ultimately show ?thesis using g(1) by blast
  next
    case some
    note w = some(1-3) and a = some(4) and h = some(5)
    have nz: "nth_group t k \<noteq> 0" using w(3) sync(2) by simp
    note ga = group_after_nth [OF sync(1) nz]
    have a2: "group_after t2 (tr_cur_group t2) 0 = Some (nth_group t (Suc k))"
    proof -
      have "group_after t2 (tr_cur_group t2) 0 = group_after t (nth_group t k) 0"
        using sync(2) by (simp add: w(2) group_after_def)
      then show ?thesis using ga(1) [of 0] by simp
    qed
    let ?t3 = "t2\<lparr>tr_cur_group := nth_group t (Suc k), tr_group_wait := 0\<rparr>"
    let ?s3 = "s2\<lparr>md_trans := (md_trans s2)(tr \<mapsto> ?t3)\<rparr>"
    have g: "g = tr_cur_group t" "s' = chan_wr hw c flags reg_irq_mask ?s3"
      using call chan t(1) p w a2 t2(3) by (auto simp: mdma_trans_get_group_def m upd_trans_def)
    have s': "same_objs ?s3 s'" "keeps_fin fin A ?s3 s'" unfolding g(2) using chan_wr_fin [OF dev(1,2)] by simp_all
    have ho: "hand_over fin A g True s s'"
      unfolding g(1)
      by (rule hand_over_before [OF hand_over_after [OF hand_over_trans(1) [OF h] s' A1 [OF w(3)]] same keep A0 [OF w(3)]])
    have "nxt = (if nth_group t (Suc k) = 0 then tr_cur_group t else nth_group t (Suc k))"
      using a ga(1) [of "tr_cur_group t"] sync(2) by simp
    moreover have "nth_group ?t3 (Suc k) = nth_group t (Suc k)" "closed_list ?t3 = closed_list t"
      by (rule nth; simp add: w(2))+
    ultimately have "in_sync ?t3 (Suc k)" using sync ga(2) by (auto simp: in_sync_def w(2) Suc_le_eq)
    moreover have "tr_chan ?t3 = chan" "tr_group_list ?t3 = tr_group_list t" "tr_trans_type ?t3 = tr_trans_type t"
      by (simp_all add: w(2) chan(5))
    moreover have "md_chans s' = md_chans s" "md_trans s' tr = Some ?t3"
      using s'(1) t2(1) s1(2) by (simp_all add: same_objs_def)
    moreover have "\<forall>x. flag_word s' x = flag_word s x" using ho by (simp add: hand_over_def)
    moreover have "g \<noteq> 0" "g = nth_group t k" using g(1) w(3) sync(2) by simp_all
    ultimately show ?thesis using ho by blast
  qed
qed

text \<open>Returning a group writes its descriptors anew and takes its mark off.\<close>

lemma set_desc_objs: "chan_set_desc hw n cfg s = Some (r, s') \<Longrightarrow> same_objs s s'"
  by (auto simp: chan_set_desc_def mdma_chan_write32_def same_objs_def Let_def Option.bind_eq_Some_conv split: if_splits)

lemma set_descs_objs: "set_descs hw cfg ns s = Some s' \<Longrightarrow> same_objs s s'"
proof (induction ns arbitrary: s)
  case (Cons n ns)
  then show ?case by (auto simp: Option.bind_eq_Some_conv dest!: set_desc_objs intro: same_objs_trans)
qed simp

lemma rest_group_objs:
  assumes "mdma_trans_rest_group hw gp s = Some (r, s')"
  shows "md_chans s' = md_chans s" "md_trans s' = md_trans s" "flag_word s' x = flag_word s x"
    "r = 0 \<Longrightarrow> \<not> is_done s' gp"
proof -
  have "s' = s \<and> r \<noteq> 0 \<or> r = 0 \<and> (\<exists>g s2. md_groups s gp = Some g \<and> same_objs s s2 \<and>
      same_objs (s2\<lparr>md_groups := (md_groups s2)(gp \<mapsto> g\<lparr>gr_cur_indx := 0, gr_group_done := False\<rparr>)\<rparr>) s')"
  proof (cases "gp = 0")
    case True
    then show ?thesis using assms by (auto simp: mdma_trans_rest_group_def)
  next
    case False
    then obtain g where g: "md_groups s gp = Some g"
      using assms by (auto simp: mdma_trans_rest_group_def Option.bind_eq_Some_conv)
    show ?thesis
    proof (cases "gr_trans g = 0")
      case True
      then show ?thesis using assms False g by (auto simp: mdma_trans_rest_group_def)
    next
      case nz: False
      obtain t c ns where o: "md_trans s (gr_trans g) = Some t" "md_chans s (tr_chan t) = Some c"
        using assms False g nz by (auto simp: mdma_trans_rest_group_def Option.bind_eq_Some_conv)
      obtain flags s1 where m: "mask_irq hw c s = (flags, s1)" by (cases "mask_irq hw c s")
      note same = same_objs_mask [OF m]
      obtain ns s2 where d: "set_descs hw (ch_cfg c) ns s1 = Some s2"
        and u: "r = 0" "map_option (chan_wr hw c flags reg_irq_mask) (upd_group gp (\<lambda>g. g\<lparr>gr_cur_indx := 0, gr_group_done := False\<rparr>) s2) = Some s'"
        using assms False g nz o by (auto simp: mdma_trans_rest_group_def m Option.bind_eq_Some_conv split: if_splits)
      have s2: "same_objs s s2" by (rule same_objs_trans [OF same set_descs_objs [OF d]])
      then have "md_groups s2 gp = Some g" using g by (simp add: same_objs_def)
      then have "s' = chan_wr hw c flags reg_irq_mask (s2\<lparr>md_groups := (md_groups s2)(gp \<mapsto> g\<lparr>gr_cur_indx := 0, gr_group_done := False\<rparr>)\<rparr>)"
        using u(2) by (auto simp: upd_group_def)
      then show ?thesis using u(1) g s2 same_objs_wr by blast
    qed
  qed
  then show "md_chans s' = md_chans s" "md_trans s' = md_trans s" "flag_word s' x = flag_word s x"
    "r = 0 \<Longrightarrow> \<not> is_done s' gp"
    by (auto simp: same_objs_def flag_word_def is_done_def)
qed

text \<open>
  A driver at work: before every call of \<open>mdma_trans_get_group\<close> it returns some groups. The log has for every such
  call the worlds before and after it and the group handed over.
\<close>

fun rest_groups :: "'d hw \<Rightarrow> u32 list \<Rightarrow> 'd mdma_sys \<Rightarrow> 'd mdma_sys option" where
  "rest_groups hw [] s = Some s"
| "rest_groups hw (gp # gps) s = do { (_, s) \<leftarrow> mdma_trans_rest_group hw gp s; rest_groups hw gps s }"

fun serve_groups :: "'d hw \<Rightarrow> u32 \<Rightarrow> u32 list list \<Rightarrow> 'd mdma_sys \<Rightarrow> (('d mdma_sys \<times> u32 \<times> 'd mdma_sys) list \<times> 'd mdma_sys) option" where
  "serve_groups hw tr [] s = Some ([], s)"
| "serve_groups hw tr (gps # rests) s = do {
     s \<leftarrow> rest_groups hw gps s;
     (g, s') \<leftarrow> mdma_trans_get_group hw tr s;
     (log, s'') \<leftarrow> serve_groups hw tr rests s';
     Some ((s, g, s') # log, s'') }"

lemma rest_groups_objs:
  "rest_groups hw gps s = Some s' \<Longrightarrow> md_chans s' = md_chans s \<and> md_trans s' = md_trans s \<and> (\<forall>x. flag_word s' x = flag_word s x)"
proof (induction gps arbitrary: s)
  case (Cons gp gps)
  then obtain r s1 where "mdma_trans_rest_group hw gp s = Some (r, s1)" "rest_groups hw gps s1 = Some s'"
    by (auto simp: Option.bind_eq_Some_conv)
  then show ?case using Cons.IH rest_group_objs(1-3) by metis
qed simp

text \<open>The groups of a log in order, and what each entry says: \<open>i\<close> is the place of the group that is due.\<close>

fun log_ok :: "('d \<Rightarrow> u32 \<Rightarrow> bool) \<Rightarrow> mdma_trans \<Rightarrow> nat \<Rightarrow> ('d mdma_sys \<times> u32 \<times> 'd mdma_sys) list \<Rightarrow> bool" where
  "log_ok fin t i [] \<longleftrightarrow> True"
| "log_ok fin t i ((s, g, s') # log) \<longleftrightarrow>
     (if g = 0 then
        (nth_group t i = 0 \<or> is_done s (nth_group t i) \<or> \<not> fin (md_dev s) (flag_word s (nth_group t i))) \<and> log_ok fin t i log
      else g = nth_group t i \<and> \<not> is_done s g \<and> is_done s' g \<and> fin (md_dev s') (flag_word s g) \<and> log_ok fin t (Suc i) log)"

lemma log_ok_cong: "nth_group t' = nth_group t \<Longrightarrow> log_ok fin t' i log = log_ok fin t i log"
  by (induction log arbitrary: i) auto

lemma serve_groups_ok:
  assumes "gives_back hw fin A" "ch_regs c + reg_irq_mask \<notin> A" "\<forall>gp \<in> set (tr_group_list t). flag_word s gp \<in> A"
    and "md_trans s tr = Some t" "in_sync t k" "chan \<noteq> 0" "md_chans s chan = Some c" "ch_trans c = tr" "tr \<noteq> 0"
    "tr_chan t = chan" "serve_groups hw tr rests s = Some (log, s')"
  shows "log_ok fin t k log"
  using assms
proof (induction rests arbitrary: s t k log)
  case (Cons gps rests)
  obtain s0 g s1 log1 where r: "rest_groups hw gps s = Some s0"
    and g: "mdma_trans_get_group hw tr s0 = Some (g, s1)" "serve_groups hw tr rests s1 = Some (log1, s')"
    and log: "log = (s0, g, s1) # log1"
    using Cons.prems(11) by (auto simp: Option.bind_eq_Some_conv)
  have o: "md_chans s0 chan = Some c" "md_trans s0 tr = Some t" "\<forall>gp \<in> set (tr_group_list t). flag_word s0 gp \<in> A"
    using rest_groups_objs [OF r] Cons.prems(3,4,7) by simp_all
  from get_group_step [OF Cons.prems(1,2) o(3,2) Cons.prems(5,6) o(1) Cons.prems(8-10) g(1)]
  obtain t' where t': "md_chans s1 = md_chans s0" "\<forall>x. flag_word s1 x = flag_word s0 x" "md_trans s1 tr = Some t'"
    "tr_chan t' = chan" "tr_group_list t' = tr_group_list t" "tr_trans_type t' = tr_trans_type t"
    "g = 0 \<and> in_sync t' k \<and> (nth_group t k = 0 \<or> hand_over fin A (nth_group t k) False s0 s1) \<or>
     g \<noteq> 0 \<and> g = nth_group t k \<and> in_sync t' (Suc k) \<and> hand_over fin A g True s0 s1" by blast
  have nth: "nth_group t' = nth_group t" using t'(5,6) by (simp add: fun_eq_iff nth_group_def)
  have c1: "md_chans s1 chan = Some c" "\<forall>gp \<in> set (tr_group_list t'). flag_word s1 gp \<in> A"
    using t'(1,2,5) o by simp_all
  note ih = Cons.IH [OF Cons.prems(1,2) c1(2) t'(3) _ Cons.prems(6) c1(1) Cons.prems(8,9) t'(4) g(2), unfolded log_ok_cong [OF nth]]
  from t'(7) show ?case
    using ih [of k] ih [of "Suc k"] by (auto simp: log hand_over_def)
qed simp


text \<open>
  A controller that gives the last descriptor of each of the two groups back some accesses after it was written:
  the state has the time and when the two words are given back.
\<close>

definition slow_fin :: "int \<times> int \<times> int \<Rightarrow> u32 \<Rightarrow> bool" where
  "slow_fin d a \<longleftrightarrow> a = 0x20014 \<and> fst (snd d) \<le> fst d \<or> a = 0x2002C \<and> snd (snd d) \<le> fst d"

definition slow_hw :: "(int \<times> int \<times> int) hw" where
  "slow_hw = \<lparr>hw_read32 = (\<lambda>a d. (if slow_fin d a then 0x80000000 else 0, (fst d + 1, snd d))),
     hw_write32 = (\<lambda>v a (time, x, y). (time + 1, if a = 0x20014 then time + 20 else x, if a = 0x2002C then time + 20 else y)),
     hw_uptime = (\<lambda>d. (0, d))\<rparr>"

lemma slow_gives_back: "gives_back slow_hw slow_fin {0x20014, 0x2002C}"
  by (auto simp: gives_back_def slow_hw_def slow_fin_def ioread32_def iowrite32_def MDMA_DESC_OWNERSHIP_def BIT_def)

definition demo_ready :: "(int \<times> int \<times> int) mdma_sys" where
  "demo_ready = (let s = demo_sys MDMA_TRANS_RING in
     \<lparr>md_heaps = md_heaps s, md_chans = md_chans s,
      md_trans = [0x1050 \<mapsto> (demo_trans MDMA_TRANS_RING)\<lparr>tr_cur_group := 0x1100\<rparr>],
      md_groups = md_groups s, md_nodes = md_nodes s, md_dev = (0, 12, 0)\<rparr>)"

text \<open>The first group is not finished at first; later it is returned, and comes again.\<close>

lemma demo_served:
  "map_option (\<lambda>(l, s). map (\<lambda>(a, g, b). g) l) (serve_groups slow_hw 0x1050 [[], [], [], [], [0x1100], [], []] demo_ready)
     = Some [0, 0, 0x1100, 0x1200, 0, 0, 0x1100]"
  by code_simp


end
