(* ===== verification/I2c.thy ===== *)
theory I2c
  imports Hardware C_Memory "HOL-Library.Monad_Syntax"
begin

text \<open>
  The I2C controller, \<open>src/lib/drivers/i2c.c\<close>, and the access to an EEPROM on its bus,
  \<open>src/lib/drivers/eeprom.c\<close>. The state holds what changes in \<open>struct i2c_config\<close>, the interrupt status of the
  driver, the memory with the buffers, and the device. \<open>None\<close> is a wait without an end. Lengths of type \<open>int\<close> are
  words that are compared as signed numbers; messages are left out.
\<close>

section \<open>Registers\<close>

definition I2C_ISR :: u32 where "I2C_ISR = 0x004"
definition I2C_IER :: u32 where "I2C_IER = 0x008"
definition I2C_CTRL :: u32 where "I2C_CTRL = 0x010"
definition I2C_STATUS :: u32 where "I2C_STATUS = 0x018"
definition I2C_NUMBER :: u32 where "I2C_NUMBER = 0x01C"
definition I2C_STAT_RST :: u32 where "I2C_STAT_RST = 0x020"
definition I2C_PRESCALE :: u32 where "I2C_PRESCALE = 0x024"
definition I2C_FIFOFIL :: u32 where "I2C_FIFOFIL = 0x028"
definition I2C_TRANSMIT :: u32 where "I2C_TRANSMIT = 0x030"
definition I2C_RECEIVE :: u32 where "I2C_RECEIVE = 0x430"

definition EN_INT_TRN_EMPTY_i :: nat where "EN_INT_TRN_EMPTY_i = 2"
definition EN_INT_RX_AL_FULL_i :: nat where "EN_INT_RX_AL_FULL_i = 5"
definition INT_DONE_i :: nat where "INT_DONE_i = 0"
definition INT_TRN_EMPTY_i :: nat where "INT_TRN_EMPTY_i = 2"
definition INT_RCV_FULL_i :: nat where "INT_RCV_FULL_i = 3"
definition INT_TRN_EMPTY_ALM_i :: nat where "INT_TRN_EMPTY_ALM_i = 4"
definition INT_RCV_FULL_ALM_i :: nat where "INT_RCV_FULL_ALM_i = 5"
definition TX_EMPTY_ALMOST_i :: nat where "TX_EMPTY_ALMOST_i = 2"
definition RX_FULL_ALM_i :: nat where "RX_FULL_ALM_i = 3"
definition TX_EMPTY_i :: nat where "TX_EMPTY_i = 4"
definition RX_FULL_i :: nat where "RX_FULL_i = 5"
definition DONE_i :: nat where "DONE_i = 10"
definition I2C_EN_i :: nat where "I2C_EN_i = 0"
definition START_i :: nat where "START_i = 1"
definition RD_i :: nat where "RD_i = 3"
definition WR_i :: nat where "WR_i = 4"
definition REPEAT_i :: nat where "REPEAT_i = 5"
definition STOP_i :: nat where "STOP_i = 6"

definition CMD_WRITE_START :: u32 where "CMD_WRITE_START = BIT I2C_EN_i OR BIT WR_i OR BIT START_i"
definition CMD_WRITE :: u32 where "CMD_WRITE = BIT I2C_EN_i OR BIT WR_i"
definition CMD_READ_REPEAT_START :: u32 where
  "CMD_READ_REPEAT_START = BIT I2C_EN_i OR BIT RD_i OR BIT START_i OR BIT REPEAT_i"
definition CMD_STOP :: u32 where "CMD_STOP = BIT I2C_EN_i OR BIT STOP_i"
definition CMD_READ_REPEAT_STOP :: u32 where
  "CMD_READ_REPEAT_STOP = BIT I2C_EN_i OR BIT RD_i OR BIT START_i OR BIT REPEAT_i OR BIT STOP_i"

definition I2C_TIMEOUT :: u32 where "I2C_TIMEOUT = 100"
definition I2C_TIMEOUT_PER_WR_US :: u32 where "I2C_TIMEOUT_PER_WR_US = 9"
definition TXBUF_SIZE :: u32 where "TXBUF_SIZE = 256"
definition EEPROM_PAGE_SIZE :: u32 where "EEPROM_PAGE_SIZE = 128"

section \<open>State\<close>

datatype device_type = EEPROM | SENSOR

datatype i2c_transaction_type = WRITE_DEV | WRITE_DATA | READ_DATA

datatype i2c_waited_event = TX_EMPTY | TX_EMPTY_ALMOST | RX_FULL | RX_FULL_ALMOST | DONE

record i2c_config =
  ic_base :: u32
  ic_irq_en :: bool
  ic_scl_freq :: u32
  ic_byte_numb :: u32
  ic_device_type :: device_type

record i2c_transaction =
  it_type :: i2c_transaction_type
  it_devaddr :: u8
  it_offset :: u16
  it_buf :: u32
  it_len :: u32

record 'd i2c_sys =
  is_txfifo :: nat
  is_irqstat :: u32
  is_mem :: mem
  is_dev :: 'd

definition ic_write32 :: "'d hw_wide \<Rightarrow> i2c_config \<Rightarrow> u32 \<Rightarrow> u32 \<Rightarrow> 'd i2c_sys \<Rightarrow> 'd i2c_sys" where
  "ic_write32 hw cfg v off s = s\<lparr>is_dev := iowrite32 hw v (ic_base cfg + off) (is_dev s)\<rparr>"

definition ic_write8 :: "'d hw_wide \<Rightarrow> i2c_config \<Rightarrow> u8 \<Rightarrow> u32 \<Rightarrow> 'd i2c_sys \<Rightarrow> 'd i2c_sys" where
  "ic_write8 hw cfg v off s = s\<lparr>is_dev := iowrite8 hw v (ic_base cfg + off) (is_dev s)\<rparr>"

definition ic_read32 :: "'d hw_wide \<Rightarrow> i2c_config \<Rightarrow> u32 \<Rightarrow> 'd i2c_sys \<Rightarrow> u32 \<times> 'd i2c_sys" where
  "ic_read32 hw cfg off s = (let (v, d) = ioread32 hw (ic_base cfg + off) (is_dev s) in (v, s\<lparr>is_dev := d\<rparr>))"

definition ic_read8 :: "'d hw_wide \<Rightarrow> i2c_config \<Rightarrow> u32 \<Rightarrow> 'd i2c_sys \<Rightarrow> u8 \<times> 'd i2c_sys" where
  "ic_read8 hw cfg off s = (let (v, d) = ioread8 hw (ic_base cfg + off) (is_dev s) in (v, s\<lparr>is_dev := d\<rparr>))"

definition ic_uptime :: "'d hw_wide \<Rightarrow> 'd i2c_sys \<Rightarrow> u32 \<times> 'd i2c_sys" where
  "ic_uptime hw s = (let (v, d) = rumboot_platform_get_uptime (hw.truncate hw) (is_dev s) in (v, s\<lparr>is_dev := d\<rparr>))"

section \<open>Waiting\<close>

text \<open>\<open>is_tx_empty\<close>, \<open>is_tx_empty_almost\<close>, \<open>is_rx_full\<close>, \<open>is_rx_full_almost\<close> and \<open>is_op_done\<close>.\<close>

fun event_bit :: "bool \<Rightarrow> i2c_waited_event \<Rightarrow> nat" where
  "event_bit is_irq TX_EMPTY = (if is_irq then INT_TRN_EMPTY_i else TX_EMPTY_i)"
| "event_bit is_irq TX_EMPTY_ALMOST = (if is_irq then INT_TRN_EMPTY_ALM_i else TX_EMPTY_ALMOST_i)"
| "event_bit is_irq RX_FULL = (if is_irq then INT_RCV_FULL_i else RX_FULL_i)"
| "event_bit is_irq RX_FULL_ALMOST = (if is_irq then INT_RCV_FULL_ALM_i else RX_FULL_ALM_i)"
| "event_bit is_irq DONE = (if is_irq then INT_DONE_i else DONE_i)"

definition i2c_check_transaction :: "'d hw_wide \<Rightarrow> i2c_config \<Rightarrow> i2c_waited_event \<Rightarrow> 'd i2c_sys \<Rightarrow> bool \<times> 'd i2c_sys" where
  "i2c_check_transaction hw cfg e s =
     (let (stat, s) = ic_read32 hw cfg I2C_STATUS s in (stat AND BIT (event_bit (ic_irq_en cfg) e) \<noteq> 0, s))"

partial_function (option) i2c_wait_transaction ::
  "'d hw_wide \<Rightarrow> i2c_config \<Rightarrow> i2c_waited_event \<Rightarrow> 'd i2c_sys \<Rightarrow> 'd i2c_sys option" where
  "i2c_wait_transaction hw cfg e s =
     (let (ok, s) = i2c_check_transaction hw cfg e s in if ok then Some s else i2c_wait_transaction hw cfg e s)"

partial_function (option) wait_timeout_from ::
  "'d hw_wide \<Rightarrow> i2c_config \<Rightarrow> i2c_waited_event \<Rightarrow> u32 \<Rightarrow> u32 \<Rightarrow> 'd i2c_sys \<Rightarrow> (int \<times> 'd i2c_sys) option" where
  "wait_timeout_from hw cfg e us start s =
     (let (ok, s) = i2c_check_transaction hw cfg e s in
      if ok then Some (0, s)
      else let (now, s) = ic_uptime hw s in
        if now - start > us then Some (-1, s) else wait_timeout_from hw cfg e us start s)"

definition i2c_wait_transaction_timeout ::
  "'d hw_wide \<Rightarrow> i2c_config \<Rightarrow> i2c_waited_event \<Rightarrow> u32 \<Rightarrow> 'd i2c_sys \<Rightarrow> (int \<times> 'd i2c_sys) option" where
  "i2c_wait_transaction_timeout hw cfg e us s = (let (start, s) = ic_uptime hw s in wait_timeout_from hw cfg e us start s)"

section \<open>Transactions\<close>

definition trans_write_devaddr ::
  "'d hw_wide \<Rightarrow> i2c_config \<Rightarrow> i2c_transaction \<Rightarrow> 'd i2c_sys \<Rightarrow> (int \<times> 'd i2c_sys) option" where
  "trans_write_devaddr hw cfg t s =
     (let offset_h = ucast (drop_bit 8 (it_offset t AND 0xff00));
          offset_l = ucast (it_offset t AND 0x00ff);
          s = ic_write8 hw cfg (it_devaddr t) I2C_TRANSMIT s;
          s = ic_write8 hw cfg offset_h I2C_TRANSMIT s;
          s = ic_write8 hw cfg offset_l I2C_TRANSMIT s;
          s = s\<lparr>is_txfifo := is_txfifo s + 3\<rparr>;
          s = ic_write32 hw cfg 1 I2C_STAT_RST s;
          s = ic_write32 hw cfg CMD_WRITE_START I2C_CTRL s
      in do {
        (r, s) \<leftarrow> i2c_wait_transaction_timeout hw cfg TX_EMPTY I2C_TIMEOUT s;
        Some (if r < 0 then -1 else 0, s) })"

definition set_number :: "'d hw_wide \<Rightarrow> i2c_config \<Rightarrow> u32 \<Rightarrow> 'd i2c_sys \<Rightarrow> 'd i2c_sys" where
  "set_number hw cfg len s = ic_write8 hw cfg (if ic_device_type cfg = EEPROM then ucast len else 255) I2C_NUMBER s"

definition set_fifofil :: "'d hw_wide \<Rightarrow> i2c_config \<Rightarrow> u32 \<Rightarrow> 'd i2c_sys \<Rightarrow> 'd i2c_sys" where
  "set_fifofil hw cfg len s =
     (let fifofil :: u8 =
            (if ic_device_type cfg = EEPROM
             then ucast (if len > 128 then len mod 128 else len)
             else ucast (if len > 256 then len mod 256 else len))
      in ic_write32 hw cfg (push_bit 16 (ucast fifofil) OR ucast fifofil) I2C_FIFOFIL s)"

text \<open>The loop of \<open>write_data_chunk\<close>, with the number of bytes left: a full buffer ends it with that number.\<close>

fun write_bytes :: "'d hw_wide \<Rightarrow> i2c_config \<Rightarrow> nat \<Rightarrow> u32 \<Rightarrow> 'd i2c_sys \<Rightarrow> nat \<times> 'd i2c_sys" where
  "write_bytes hw cfg 0 buf s = (0, s)"
| "write_bytes hw cfg (Suc n) buf s =
     (if is_txfifo s = 256 then (Suc n, s\<lparr>is_txfifo := 0\<rparr>)
      else let s = ic_write8 hw cfg (is_mem s buf) I2C_TRANSMIT s
           in write_bytes hw cfg n (buf + 1) (s\<lparr>is_txfifo := is_txfifo s + 1\<rparr>))"

definition write_data_chunk :: "'d hw_wide \<Rightarrow> i2c_config \<Rightarrow> u32 \<Rightarrow> u32 \<Rightarrow> 'd i2c_sys \<Rightarrow> int \<times> 'd i2c_sys" where
  "write_data_chunk hw cfg buf len s =
     (if buf = 0 \<or> len = 0 then (-1, s)
      else let (left, s) = write_bytes hw cfg (unat len) buf s in (sint (of_nat left :: u32), s))"

definition send_write_cmd :: "'d hw_wide \<Rightarrow> i2c_config \<Rightarrow> 'd i2c_sys \<Rightarrow> 'd i2c_sys" where
  "send_write_cmd hw cfg s = ic_write32 hw cfg CMD_WRITE I2C_CTRL (ic_write32 hw cfg 1 I2C_STAT_RST s)"

text \<open>The loop over the full buffers; the result is an error or the bytes that remain.\<close>

fun write_chunks ::
  "'d hw_wide \<Rightarrow> i2c_config \<Rightarrow> i2c_transaction \<Rightarrow> nat \<Rightarrow> u32 \<Rightarrow> 'd i2c_sys \<Rightarrow> ((int + u32) \<times> 'd i2c_sys) option" where
  "write_chunks hw cfg t 0 rem s = Some (Inr rem, s)"
| "write_chunks hw cfg t (Suc n) rem s =
     (let (ret, s) = write_data_chunk hw cfg (it_buf t) (if sint (it_len t) > 256 then TXBUF_SIZE else it_len t) s
      in if ret < 0 then Some (Inl (-1), s)
         else do {
           let rem = (if ret > 0 then rem + of_int ret else rem);
           (r, s) \<leftarrow> i2c_wait_transaction_timeout hw cfg TX_EMPTY (I2C_TIMEOUT_PER_WR_US * TXBUF_SIZE) (send_write_cmd hw cfg s);
           if r < 0 then Some (Inl (-2), s) else write_chunks hw cfg t n rem s })"

definition trans_write_data ::
  "'d hw_wide \<Rightarrow> i2c_config \<Rightarrow> i2c_transaction \<Rightarrow> 'd i2c_sys \<Rightarrow> (int \<times> 'd i2c_sys) option" where
  "trans_write_data hw cfg t s =
     (let (n, rem, s) =
            (if sint (it_len t) > 256 then
               (let (v, s) = ic_read32 hw cfg I2C_FIFOFIL s in (nat (sint (it_len t)) div 256, v AND 0xff, s))
             else (1, 0, s));
          s = set_number hw cfg (it_len t) s;
          s = set_fifofil hw cfg (it_len t) s
      in do {
        (r, s) \<leftarrow> write_chunks hw cfg t n rem s;
        case r of
          Inl e \<Rightarrow> Some (e, s)
        | Inr rem \<Rightarrow>
            if rem = 0 then Some (0, s)
            else
              let s = set_fifofil hw cfg rem s;
                  (ret, s) = write_data_chunk hw cfg (it_buf t) rem s
              in if ret < 0 then Some (-3, s)
                 else do {
                   (r, s) \<leftarrow> i2c_wait_transaction_timeout hw cfg TX_EMPTY (I2C_TIMEOUT_PER_WR_US * rem) (send_write_cmd hw cfg s);
                   Some (if r < 0 then -4 else 0, s) } })"

text \<open>\<open>read_data_chunk\<close>; its result is not used.\<close>

fun read_bytes :: "'d hw_wide \<Rightarrow> i2c_config \<Rightarrow> nat \<Rightarrow> u32 \<Rightarrow> 'd i2c_sys \<Rightarrow> 'd i2c_sys" where
  "read_bytes hw cfg 0 buf s = s"
| "read_bytes hw cfg (Suc n) buf s =
     (let (v, s) = ic_read8 hw cfg I2C_RECEIVE s
      in read_bytes hw cfg n (buf + 1) (s\<lparr>is_mem := (is_mem s)(buf := v)\<rparr>))"

definition read_data_chunk :: "'d hw_wide \<Rightarrow> i2c_config \<Rightarrow> u32 \<Rightarrow> u32 \<Rightarrow> 'd i2c_sys \<Rightarrow> 'd i2c_sys" where
  "read_data_chunk hw cfg buf len s = (if buf = 0 \<or> len = 0 then s else read_bytes hw cfg (unat len) buf s)"

definition send_read_cmd :: "'d hw_wide \<Rightarrow> i2c_config \<Rightarrow> u8 \<Rightarrow> bool \<Rightarrow> 'd i2c_sys \<Rightarrow> 'd i2c_sys" where
  "send_read_cmd hw cfg devaddr do_stop s =
     (let s = ic_write32 hw cfg 1 I2C_STAT_RST s;
          s = ic_write8 hw cfg (devaddr + 1) I2C_TRANSMIT s
      in ic_write32 hw cfg (if do_stop then CMD_READ_REPEAT_STOP else CMD_READ_REPEAT_START) I2C_CTRL s)"

text \<open>The loop of \<open>trans_read_data\<close>: \<open>do_stop\<close>, once set, stays set.\<close>

fun read_chunks ::
  "'d hw_wide \<Rightarrow> i2c_config \<Rightarrow> i2c_transaction \<Rightarrow> u32 \<Rightarrow> u32 \<Rightarrow> i2c_waited_event \<Rightarrow> bool \<Rightarrow> nat \<Rightarrow> 'd i2c_sys
     \<Rightarrow> 'd i2c_sys option" where
  "read_chunks hw cfg t numb rem e do_stop 0 s = Some s"
| "read_chunks hw cfg t numb rem e do_stop (Suc n) s =
     (let do_stop = (do_stop \<or> n = 0 \<and> it_len t > numb \<and> rem = 0 \<or> ic_device_type cfg = EEPROM)
      in do {
        s \<leftarrow> i2c_wait_transaction hw cfg e (send_read_cmd hw cfg (it_devaddr t) do_stop s);
        let s = read_data_chunk hw cfg (it_buf t) (if sint (it_len t) > 256 then TXBUF_SIZE else it_len t) s;
        read_chunks hw cfg t numb rem e do_stop n s })"

definition trans_read_data ::
  "'d hw_wide \<Rightarrow> i2c_config \<Rightarrow> i2c_transaction \<Rightarrow> 'd i2c_sys \<Rightarrow> (int \<times> 'd i2c_sys) option" where
  "trans_read_data hw cfg t s =
     (let s = set_number hw cfg (it_len t) s;
          s = set_fifofil hw cfg (it_len t) s;
          (v, s) = ic_read8 hw cfg I2C_NUMBER s;
          numb = ucast v;
          e = (if it_len t > numb then RX_FULL else RX_FULL_ALMOST);
          do_stop = (\<not> it_len t > numb);
          numb = (if numb = 255 then 256 else numb)
      in if it_len t > numb \<and> numb = 0 then None
         else
           let (n, rem, s) =
                 (if it_len t > numb then
                    (let (v, s) = ic_read32 hw cfg I2C_FIFOFIL s
                     in (unat (it_len t div numb), drop_bit 16 (v AND 0xff0000), s))
                  else (1, 0, s))
           in do {
             s \<leftarrow> read_chunks hw cfg t numb rem e do_stop n s;
             s \<leftarrow> (if rem = 0 then Some s
                  else do {
                    s \<leftarrow> i2c_wait_transaction hw cfg RX_FULL_ALMOST
                           (send_read_cmd hw cfg (it_devaddr t) True (set_fifofil hw cfg rem s));
                    Some (read_data_chunk hw cfg (it_buf t) rem s) });
             Some (0, ic_write32 hw cfg 0 I2C_STAT_RST s) })"

section \<open>Interface\<close>

definition i2c_irq_enable :: "'d hw_wide \<Rightarrow> i2c_config \<Rightarrow> 'd i2c_sys \<Rightarrow> 'd i2c_sys" where
  "i2c_irq_enable hw cfg s = ic_write32 hw cfg (BIT EN_INT_TRN_EMPTY_i OR BIT EN_INT_RX_AL_FULL_i) I2C_IER s"

definition i2c_init :: "'d hw_wide \<Rightarrow> i2c_config \<Rightarrow> 'd i2c_sys \<Rightarrow> 'd i2c_sys" where
  "i2c_init hw cfg s =
     (let n = ic_byte_numb cfg;
          number = (if n < 256 then n else 255);
          fifofil = (if n < 256 then n else n mod 256);
          s = s\<lparr>is_txfifo := 0\<rparr>;
          s = ic_write32 hw cfg (ic_scl_freq cfg) I2C_PRESCALE s;
          s = ic_write8 hw cfg (ucast number) I2C_NUMBER s;
          s = ic_write32 hw cfg (push_bit 16 fifofil OR fifofil) I2C_FIFOFIL s
      in if ic_irq_en cfg then i2c_irq_enable hw cfg s else s)"

definition i2c_irq_handler :: "'d hw_wide \<Rightarrow> i2c_config \<Rightarrow> 'd i2c_sys \<Rightarrow> 'd i2c_sys" where
  "i2c_irq_handler hw cfg s =
     (let (v, s) = ic_read32 hw cfg I2C_ISR s in s\<lparr>is_irqstat := is_irqstat s OR v\<rparr>)"

definition i2c_execute_transaction ::
  "'d hw_wide \<Rightarrow> i2c_config \<Rightarrow> i2c_transaction \<Rightarrow> 'd i2c_sys \<Rightarrow> (int \<times> 'd i2c_sys) option" where
  "i2c_execute_transaction hw cfg t s =
     (case it_type t of
        WRITE_DEV \<Rightarrow> trans_write_devaddr hw cfg t s
      | WRITE_DATA \<Rightarrow> trans_write_data hw cfg t s
      | READ_DATA \<Rightarrow> trans_read_data hw cfg t s)"

definition i2c_stop_transaction :: "'d hw_wide \<Rightarrow> i2c_config \<Rightarrow> 'd i2c_sys \<Rightarrow> (int \<times> 'd i2c_sys) option" where
  "i2c_stop_transaction hw cfg s = do {
     (_, s) \<leftarrow> i2c_wait_transaction_timeout hw cfg TX_EMPTY (I2C_TIMEOUT * 5) s;
     let s = s\<lparr>is_txfifo := 0\<rparr>;
     Some (0, ic_write32 hw cfg 0 I2C_STAT_RST (ic_write32 hw cfg CMD_STOP I2C_CTRL s)) }"

section \<open>EEPROM\<close>

definition eeprom_chunk_write ::
  "'d hw_wide \<Rightarrow> i2c_config \<Rightarrow> u8 \<Rightarrow> u16 \<Rightarrow> u32 \<Rightarrow> u32 \<Rightarrow> 'd i2c_sys \<Rightarrow> (int \<times> 'd i2c_sys) option" where
  "eeprom_chunk_write hw cfg slave_dev offset buf len s =
     (let t = \<lparr>it_type = WRITE_DEV, it_devaddr = slave_dev, it_offset = offset, it_buf = buf, it_len = len\<rparr>
      in do {
        (r, s) \<leftarrow> i2c_execute_transaction hw cfg t (s\<lparr>is_txfifo := 0\<rparr>);
        if r < 0 then Some (-1, s)
        else do {
          (r, s) \<leftarrow> i2c_execute_transaction hw cfg (t\<lparr>it_type := WRITE_DATA\<rparr>) s;
          if r < 0 then Some (-2, s)
          else do {
            (_, s) \<leftarrow> i2c_stop_transaction hw cfg s;
            Some (0, s) } } })"

definition eeprom_chunk_read ::
  "'d hw_wide \<Rightarrow> i2c_config \<Rightarrow> u8 \<Rightarrow> u16 \<Rightarrow> u32 \<Rightarrow> u32 \<Rightarrow> 'd i2c_sys \<Rightarrow> (int \<times> 'd i2c_sys) option" where
  "eeprom_chunk_read hw cfg slave_dev offset buf len s =
     (if len > EEPROM_PAGE_SIZE then Some (-3, s)
      else
        let t = \<lparr>it_type = WRITE_DEV, it_devaddr = slave_dev, it_offset = offset, it_buf = buf, it_len = len\<rparr>
        in do {
          (r, s) \<leftarrow> i2c_execute_transaction hw cfg t (s\<lparr>is_txfifo := 0\<rparr>);
          if r < 0 then Some (-1, s)
          else do {
            (r, s) \<leftarrow> i2c_execute_transaction hw cfg (t\<lparr>it_type := READ_DATA\<rparr>) s;
            Some (if r < 0 then -2 else 0, s) } })"

text \<open>The loops over pages are the same for both directions; \<open>chunk\<close> is \<open>eeprom_chunk_write\<close> or
  \<open>eeprom_chunk_read\<close>.\<close>

fun page_loop :: "(u16 \<Rightarrow> u32 \<Rightarrow> u32 \<Rightarrow> 'd i2c_sys \<Rightarrow> (int \<times> 'd i2c_sys) option) \<Rightarrow> u32 \<Rightarrow> nat \<Rightarrow> u16 \<Rightarrow> u32 \<Rightarrow> 'd i2c_sys
     \<Rightarrow> (int \<times> 'd i2c_sys) option" where
  "page_loop chunk rem 0 offset buf s =
     (if rem = 0 then Some (0, s)
      else do { (r, s) \<leftarrow> chunk offset buf rem s; Some (if r < 0 then -2 else 0, s) })"
| "page_loop chunk rem (Suc n) offset buf s = do {
     (r, s) \<leftarrow> chunk offset buf EEPROM_PAGE_SIZE s;
     if r < 0 then Some (-1, s)
     else page_loop chunk rem n (offset + ucast EEPROM_PAGE_SIZE) (buf + EEPROM_PAGE_SIZE) s }"

definition eeprom_random_write ::
  "'d hw_wide \<Rightarrow> i2c_config \<Rightarrow> u8 \<Rightarrow> u16 \<Rightarrow> u32 \<Rightarrow> u32 \<Rightarrow> 'd i2c_sys \<Rightarrow> (int \<times> 'd i2c_sys) option" where
  "eeprom_random_write hw cfg slave_dev offset buf len s =
     page_loop (eeprom_chunk_write hw cfg slave_dev) (len mod EEPROM_PAGE_SIZE) (unat (len div EEPROM_PAGE_SIZE)) offset buf s"

definition eeprom_random_read ::
  "'d hw_wide \<Rightarrow> i2c_config \<Rightarrow> u8 \<Rightarrow> u16 \<Rightarrow> u32 \<Rightarrow> u32 \<Rightarrow> 'd i2c_sys \<Rightarrow> (int \<times> 'd i2c_sys) option" where
  "eeprom_random_read hw cfg slave_dev offset buf len s =
     page_loop (eeprom_chunk_read hw cfg slave_dev) (len mod EEPROM_PAGE_SIZE) (unat (len div EEPROM_PAGE_SIZE)) offset buf s"

section \<open>What goes over the bus\<close>

text \<open>A bus that is heard through its transmit and control registers, and that is always ready to send.\<close>

datatype bus_event = Byte u8 | Cmd u32

definition bus_ready :: "'d hw_wide \<Rightarrow> i2c_config \<Rightarrow> ('d \<Rightarrow> bus_event list) \<Rightarrow> bool" where
  "bus_ready hw cfg obs \<longleftrightarrow>
     (\<forall>v a d. obs (hw_write8 hw v a d) = obs d @ (if a = ic_base cfg + I2C_TRANSMIT then [Byte v] else [])) \<and>
     (\<forall>v a d. obs (hw_write32 hw v a d) = obs d @ (if a = ic_base cfg + I2C_CTRL then [Cmd v] else [])) \<and>
     (\<forall>a d. obs (snd (hw_read32 hw a d)) = obs d) \<and> (\<forall>d. obs (snd (hw_uptime hw d)) = obs d) \<and>
     (\<forall>d. bit (fst (hw_read32 hw (ic_base cfg + I2C_STATUS) d)) (event_bit (ic_irq_en cfg) TX_EMPTY))"

text \<open>A step of the driver that says \<open>evs\<close> and leaves the memory alone.\<close>

definition says :: "('d \<Rightarrow> bus_event list) \<Rightarrow> 'd i2c_sys \<Rightarrow> bus_event list \<Rightarrow> 'd i2c_sys \<Rightarrow> bool" where
  "says obs s evs s' \<longleftrightarrow> is_mem s' = is_mem s \<and> obs (is_dev s') = obs (is_dev s) @ evs"

lemma says_trans: "says obs s xs s' \<Longrightarrow> says obs s' ys s'' \<Longrightarrow> says obs s (xs @ ys) s''"
  by (simp add: says_def)

lemma says_refl: "says obs s [] s"
  by (simp add: says_def)

lemma says_fifo [simp]: "says obs s xs (s'\<lparr>is_txfifo := k\<rparr>) = says obs s xs s'" "says obs (s\<lparr>is_txfifo := k\<rparr>) xs s' = says obs s xs s'"
  by (simp_all add: says_def)

lemmas i2c_offsets = I2C_ISR_def I2C_IER_def I2C_CTRL_def I2C_STATUS_def I2C_NUMBER_def I2C_STAT_RST_def
  I2C_PRESCALE_def I2C_FIFOFIL_def I2C_TRANSMIT_def I2C_RECEIVE_def

lemma bus_steps:
  assumes "bus_ready hw cfg obs"
  shows "says obs s [Byte v] (ic_write8 hw cfg v I2C_TRANSMIT s)" "says obs s [] (ic_write8 hw cfg v I2C_NUMBER s)"
    "says obs s [Cmd w] (ic_write32 hw cfg w I2C_CTRL s)" "says obs s [] (ic_write32 hw cfg w I2C_STAT_RST s)"
    "says obs s [] (ic_write32 hw cfg w I2C_FIFOFIL s)"
    "says obs s [] (snd (ic_read32 hw cfg off s))" "says obs s [] (snd (ic_uptime hw s))"
proof -
  have rd: "hw_read32 hw a d = (x, d') \<Longrightarrow> obs d' = obs d" "hw_uptime hw d = (x, d') \<Longrightarrow> obs d' = obs d" for a d x d'
    using assms unfolding bus_ready_def by (metis snd_conv)+
  show "says obs s [Byte v] (ic_write8 hw cfg v I2C_TRANSMIT s)" "says obs s [] (ic_write8 hw cfg v I2C_NUMBER s)"
    "says obs s [Cmd w] (ic_write32 hw cfg w I2C_CTRL s)" "says obs s [] (ic_write32 hw cfg w I2C_STAT_RST s)"
    "says obs s [] (ic_write32 hw cfg w I2C_FIFOFIL s)"
    using assms
    by (simp_all add: bus_ready_def says_def ic_write8_def ic_write32_def iowrite8_def iowrite32_def i2c_offsets)
  show "says obs s [] (snd (ic_read32 hw cfg off s))" "says obs s [] (snd (ic_uptime hw s))"
    by (auto simp: says_def ic_read32_def ic_uptime_def ioread32_def rumboot_platform_get_uptime_def hw.truncate_def
        Let_def split: prod.splits intro: rd)
qed

lemma bus_fifo_update [simp]:
  "ic_write8 hw cfg v off (s\<lparr>is_txfifo := k\<rparr>) = (ic_write8 hw cfg v off s)\<lparr>is_txfifo := k\<rparr>"
  "ic_write32 hw cfg w off (s\<lparr>is_txfifo := k\<rparr>) = (ic_write32 hw cfg w off s)\<lparr>is_txfifo := k\<rparr>"
  by (simp_all add: ic_write8_def ic_write32_def)

lemma bus_fifo [simp]:
  "is_txfifo (ic_write8 hw cfg v off s) = is_txfifo s" "is_txfifo (ic_write32 hw cfg w off s) = is_txfifo s"
  "is_txfifo (snd (ic_read32 hw cfg off s)) = is_txfifo s" "is_txfifo (snd (ic_uptime hw s)) = is_txfifo s"
  by (simp_all add: ic_write8_def ic_write32_def ic_read32_def ic_uptime_def Let_def split: prod.split)

lemma wait_tx_ready:
  assumes r: "bus_ready hw cfg obs"
  shows "\<exists>s'. i2c_wait_transaction_timeout hw cfg TX_EMPTY us s = Some (0, s') \<and> says obs s [] s' \<and> is_txfifo s' = is_txfifo s"
proof -
  obtain start s1 where u: "ic_uptime hw s = (start, s1)" by (cases "ic_uptime hw s")
  obtain v s2 where rd: "ic_read32 hw cfg I2C_STATUS s1 = (v, s2)" by (cases "ic_read32 hw cfg I2C_STATUS s1")
  have "bit v (event_bit (ic_irq_en cfg) TX_EMPTY)"
  proof -
    obtain d where "hw_read32 hw (ic_base cfg + I2C_STATUS) (is_dev s1) = (v, d)"
      using rd by (auto simp: ic_read32_def ioread32_def Let_def split: prod.splits)
    then show ?thesis using r unfolding bus_ready_def by (metis fst_conv)
  qed
  then have "i2c_check_transaction hw cfg TX_EMPTY s1 = (True, s2)"
    by (simp add: i2c_check_transaction_def rd and_BIT del: event_bit.simps)
  then have "i2c_wait_transaction_timeout hw cfg TX_EMPTY us s = Some (0, s2)"
    unfolding i2c_wait_transaction_timeout_def u Let_def prod.case by (subst wait_timeout_from.simps) simp
  moreover have "says obs s [] s2" using bus_steps(6) [OF r, of s1 I2C_STATUS] bus_steps(7) [OF r, of s]
    by (auto simp: u rd says_def)
  moreover have "is_txfifo s2 = is_txfifo s" using bus_fifo(3) [of hw cfg I2C_STATUS s1] bus_fifo(4) [of hw s] by (simp add: u rd)
  ultimately show ?thesis by blast
qed

lemma write_bytes_says:
  assumes r: "bus_ready hw cfg obs" and room: "is_txfifo s + n \<le> 256"
  shows "\<exists>s'. write_bytes hw cfg n buf s = (0, s') \<and> says obs s (map Byte (mem_read (is_mem s) buf n)) s' \<and>
    is_txfifo s' = is_txfifo s + n"
  using room
proof (induction n arbitrary: buf s)
  case 0
  then show ?case by (simp add: says_refl)
next
  case (Suc n)
  let ?s1 = "(ic_write8 hw cfg (is_mem s buf) I2C_TRANSMIT s)\<lparr>is_txfifo := is_txfifo s + 1\<rparr>"
  have s1: "says obs s [Byte (is_mem s buf)] ?s1" using bus_steps(1) [OF r] by simp
  then have m: "is_mem ?s1 = is_mem s" unfolding says_def by blast
  obtain s' where s': "write_bytes hw cfg n (buf + 1) ?s1 = (0, s')"
    "says obs ?s1 (map Byte (mem_read (is_mem s) (buf + 1) n)) s'" "is_txfifo s' = is_txfifo s + 1 + n"
    using Suc.IH [of ?s1 "buf + 1"] Suc.prems m by auto
  have "mem_read (is_mem s) buf (Suc n) = is_mem s buf # mem_read (is_mem s) (buf + 1) n"
    using mem_read_add [of "is_mem s" buf 1 n] by (simp add: mem_read_def)
  then show ?case using s' s1 says_trans [OF s1 s'(2)] Suc.prems by (simp add: Let_def)
qed

text \<open>The messages of one chunk.\<close>

definition chunk_events :: "u8 \<Rightarrow> u16 \<Rightarrow> u8 list \<Rightarrow> bus_event list" where
  "chunk_events slave_dev offset data =
     [Byte slave_dev, Byte (ucast (drop_bit 8 offset)), Byte (ucast offset), Cmd CMD_WRITE_START] @
     map Byte data @ [Cmd CMD_WRITE, Cmd CMD_STOP]"

lemma low_byte: "(ucast (w AND 0xff) :: u8) = ucast (w :: u16)"
proof (rule bit_eqI)
  fix i assume i: "possible_bit TYPE(8 word) i"
  have m: "(0xff :: u16) = mask 8" by (simp add: mask_eq_exp_minus_1)
  have "bit (0xff :: u16) j" if "j < 8" for j
    unfolding m using that by (simp add: bit_mask_iff possible_bit_def)
  then show "bit (ucast (w AND 0xff) :: u8) i = bit (ucast w :: u8) i"
    using i by (auto simp: bit_ucast_iff bit_and_iff possible_bit_def)
qed

lemma chunk_write_says:
  assumes r: "bus_ready hw cfg obs" and buf: "buf \<noteq> 0" and len: "0 < len" "len \<le> 128"
  shows "\<exists>s'. eeprom_chunk_write hw cfg slave_dev offset buf len s = Some (0, s') \<and>
    says obs s (chunk_events slave_dev offset (mem_read (is_mem s) buf (unat len))) s'"
proof -
  let ?t = "\<lparr>it_type = WRITE_DEV, it_devaddr = slave_dev, it_offset = offset, it_buf = buf, it_len = len\<rparr>"
  note st = bus_steps [OF r]
  let ?s0 = "s\<lparr>is_txfifo := 0\<rparr>"
  let ?a1 = "ic_write8 hw cfg slave_dev I2C_TRANSMIT ?s0"
  let ?a2 = "ic_write8 hw cfg (ucast (drop_bit 8 (offset AND 0xff00))) I2C_TRANSMIT ?a1"
  let ?a3 = "(ic_write8 hw cfg (ucast (offset AND 0xff)) I2C_TRANSMIT ?a2)\<lparr>is_txfifo := 3\<rparr>"
  let ?a4 = "ic_write32 hw cfg CMD_WRITE_START I2C_CTRL (ic_write32 hw cfg 1 I2C_STAT_RST ?a3)"
  have a4: "says obs s ([Byte slave_dev] @ [Byte (ucast (drop_bit 8 (offset AND 0xff00)))] @ [Byte (ucast (offset AND 0xff))] @
      [] @ [Cmd CMD_WRITE_START]) ?a4"
    by (rule says_trans [where s' = ?a1]; (rule says_trans [where s' = ?a2])?; (rule says_trans [where s' = ?a3])?;
        (rule says_trans [where s' = "ic_write32 hw cfg 1 I2C_STAT_RST ?a3"])?) (simp_all add: st)
  obtain b where b: "i2c_wait_transaction_timeout hw cfg TX_EMPTY I2C_TIMEOUT ?a4 = Some (0, b)" "says obs ?a4 [] b"
    "is_txfifo b = 3" using wait_tx_ready [OF r, of I2C_TIMEOUT ?a4] by auto
  have dev: "i2c_execute_transaction hw cfg ?t ?s0 = Some (0, b)"
    using b(1) by (simp add: i2c_execute_transaction_def trans_write_devaddr_def Let_def)
  let ?c = "set_fifofil hw cfg len (set_number hw cfg len b)"
  have c: "says obs b ([] @ []) ?c"
    by (rule says_trans [where s' = "set_number hw cfg len b"]) (simp_all add: st set_number_def set_fifofil_def Let_def)
  have cf: "is_txfifo ?c = 3" by (simp add: set_number_def set_fifofil_def Let_def b(3))
  have small: "\<not> sint len > 256"
  proof -
    have u: "0 \<le> uint len" "uint len \<le> 128" using len(2) by (simp_all add: word_le_def)
    then have "signed_take_bit 31 (uint len) = uint len" by (intro signed_take_bit_int_eq_self order_trans [OF _ u(1)]) simp_all
    then show ?thesis using u by (simp add: sint_uint)
  qed
  have l: "unat len \<le> 128" using len(2) by (simp add: word_le_nat_alt)
  obtain d where d: "write_bytes hw cfg (unat len) buf ?c = (0, d)"
    "says obs ?c (map Byte (mem_read (is_mem ?c) buf (unat len))) d"
    using write_bytes_says [OF r, of ?c "unat len" buf] cf l by auto
  have mc: "is_mem ?c = is_mem s" using a4 b(2) c by (simp add: says_def)
  let ?e = "send_write_cmd hw cfg d"
  have e: "says obs d ([] @ [Cmd CMD_WRITE]) ?e"
    unfolding send_write_cmd_def by (rule says_trans [OF st(4) st(3)])
  obtain f where f: "i2c_wait_transaction_timeout hw cfg TX_EMPTY (I2C_TIMEOUT_PER_WR_US * TXBUF_SIZE) ?e = Some (0, f)"
    "says obs ?e [] f" using wait_tx_ready [OF r] by blast
  have data: "i2c_execute_transaction hw cfg (?t\<lparr>it_type := WRITE_DATA\<rparr>) b = Some (0, f)"
    using small buf len(1) d(1) f(1)
    by (simp add: i2c_execute_transaction_def trans_write_data_def write_data_chunk_def Let_def)
  obtain g where g: "i2c_wait_transaction_timeout hw cfg TX_EMPTY (I2C_TIMEOUT * 5) f = Some (0, g)" "says obs f [] g"
    using wait_tx_ready [OF r] by blast
  let ?h = "ic_write32 hw cfg 0 I2C_STAT_RST (ic_write32 hw cfg CMD_STOP I2C_CTRL (g\<lparr>is_txfifo := 0\<rparr>))"
  have h: "says obs g ([Cmd CMD_STOP] @ []) ?h"
    by (rule says_trans [where s' = "ic_write32 hw cfg CMD_STOP I2C_CTRL (g\<lparr>is_txfifo := 0\<rparr>)"])
       (use st(3) [of "g\<lparr>is_txfifo := 0\<rparr>"] st(4) in simp_all)
  have "eeprom_chunk_write hw cfg slave_dev offset buf len s = Some (0, ?h)"
    using dev data g(1) by (simp add: eeprom_chunk_write_def i2c_stop_transaction_def Let_def)
  moreover have "says obs s (chunk_events slave_dev offset (mem_read (is_mem s) buf (unat len))) ?h"
    using a4 b(2) c d(2) e f(2) g(2) h
    by (simp add: says_def chunk_events_def low_byte mc)
  ultimately show ?thesis by blast
qed

text \<open>The specification: pages of 128 bytes, with offsets that go round at 64 KiB.\<close>

function page_events :: "u8 \<Rightarrow> u16 \<Rightarrow> u8 list \<Rightarrow> bus_event list" where
  "page_events slave_dev offset data =
     (if data = [] then []
      else chunk_events slave_dev offset (take 128 data) @ page_events slave_dev (offset + 128) (drop 128 data))"
  by pat_completeness auto
termination by (relation "measure (\<lambda>(_, _, data). length data)") auto

declare page_events.simps [simp del]

lemma page_loop_write:
  assumes r: "bus_ready hw cfg obs" and buf: "buf \<noteq> 0" "unat buf + (128 * n + unat rem) \<le> 2 ^ 32" and rem: "rem < 128"
  shows "\<exists>s'. page_loop (eeprom_chunk_write hw cfg slave_dev) rem n offset buf s = Some (0, s') \<and>
    says obs s (page_events slave_dev offset (mem_read (is_mem s) buf (128 * n + unat rem))) s'"
  using buf
proof (induction n arbitrary: offset buf s)
  case 0
  show ?case
  proof (cases "rem = 0")
    case True
    then show ?thesis by (simp add: says_refl page_events.simps)
  next
    case False
    have l: "0 < rem" "rem \<le> 128" "unat rem \<le> 128" "0 < unat rem"
      using rem False by (simp_all add: word_less_nat_alt word_le_nat_alt unat_gt_0)
    then have "page_events slave_dev offset (mem_read (is_mem s) buf (unat rem)) =
        chunk_events slave_dev offset (mem_read (is_mem s) buf (unat rem))"
      by (subst page_events.simps) (simp add: page_events.simps mem_read_def)
    moreover obtain s' where "eeprom_chunk_write hw cfg slave_dev offset buf rem s = Some (0, s')"
      "says obs s (chunk_events slave_dev offset (mem_read (is_mem s) buf (unat rem))) s'"
      using chunk_write_says [OF r 0(1) l(1,2)] by blast
    ultimately show ?thesis using False by simp
  qed
next
  case (Suc n)
  have b: "(0 :: u32) < 128" "(128 :: u32) \<le> 128" "unat (128 :: u32) = 128" by simp_all
  obtain s1 where s1: "eeprom_chunk_write hw cfg slave_dev offset buf 128 s = Some (0, s1)"
    "says obs s (chunk_events slave_dev offset (mem_read (is_mem s) buf 128)) s1"
    using chunk_write_says [OF r Suc.prems(1) b(1,2), of slave_dev offset s] b(3) by auto
  have u: "unat (buf + 128) = (unat buf + 128) mod 2 ^ 32" by (simp add: unat_word_ariths)
  let ?k = "128 * n + unat rem"
  have m: "is_mem s1 = is_mem s" using s1(2) by (simp add: says_def)
  have ev: "page_events slave_dev offset (mem_read (is_mem s) buf (128 * Suc n + unat rem)) =
      chunk_events slave_dev offset (mem_read (is_mem s) buf 128) @
      page_events slave_dev (offset + 128) (mem_read (is_mem s) (buf + 128) ?k)"
  proof -
    have m: "mem_read (is_mem s) buf (128 * Suc n + unat rem) =
        mem_read (is_mem s) buf 128 @ mem_read (is_mem s) (buf + 128) ?k"
      using mem_read_add [of "is_mem s" buf 128 ?k] by (simp add: add.assoc)
    have "mem_read (is_mem s) buf 128 \<noteq> []" by (simp add: mem_read_def)
    then show ?thesis unfolding m by (subst page_events.simps) simp
  qed
  show ?case
  proof (cases "?k = 0")
    case True
    then have "n = 0" "rem = 0" by (simp_all add: unsigned_eq_0_iff)
    then show ?thesis using s1 ev by (simp add: EEPROM_PAGE_SIZE_def page_events.simps)
  next
    case False
    then have "0 < ?k" by linarith
    then have lt: "unat buf + 128 < 2 ^ 32" using Suc.prems(2) by (simp only: mult_Suc_right)
    then have u': "unat (buf + 128) = unat buf + 128" using u by simp
    then have "buf + 128 \<noteq> 0" by (metis add_is_0 b(3) numeral_eq_iff unat_0 zero_neq_numeral)
    moreover have "unat (buf + 128) + ?k \<le> 2 ^ 32" using Suc.prems(2) u' by simp
    ultimately obtain s' where s': "page_loop (eeprom_chunk_write hw cfg slave_dev) rem n (offset + 128) (buf + 128) s1 = Some (0, s')"
      "says obs s1 (page_events slave_dev (offset + 128) (mem_read (is_mem s1) (buf + 128) ?k)) s'"
      using Suc.IH [of "buf + 128" "offset + 128" s1] by blast
    have "page_loop (eeprom_chunk_write hw cfg slave_dev) rem (Suc n) offset buf s = Some (0, s')"
      using s1(1) s'(1) by (simp add: EEPROM_PAGE_SIZE_def)
    then show ?thesis using says_trans [OF s1(2) s'(2)] ev m by auto
  qed
qed

text \<open>C32: On a bus that is ready, \<open>eeprom_random_write\<close> succeeds and says exactly this: for each page of 128 bytes of
  the buffer a start with device address and offset, the bytes in order, a write command and a stop; the memory is
  left alone.\<close>

theorem eeprom_write_pages:
  assumes "bus_ready hw cfg obs" "buf \<noteq> 0" "unat buf + unat len \<le> 2 ^ 32"
  shows "\<exists>s'. eeprom_random_write hw cfg slave_dev offset buf len s = Some (0, s') \<and> is_mem s' = is_mem s \<and>
    obs (is_dev s') = obs (is_dev s) @ page_events slave_dev offset (mem_read (is_mem s) buf (unat len))"
proof -
  have e: "128 * unat (len div 128) + unat (len mod 128) = unat len"
    by (simp add: unat_div unat_mod)
  have "len mod 128 < 128" by (simp add: word_less_nat_alt unat_mod)
  from page_loop_write [OF assms(1,2), of "unat (len div 128)" "len mod 128" slave_dev offset s] this assms(3)
  show ?thesis by (auto simp: eeprom_random_write_def EEPROM_PAGE_SIZE_def says_def e)
qed

text \<open>A bus that records what it hears.\<close>

definition log_hw :: "bus_event list hw_wide" where
  "log_hw = \<lparr>hw_read32 = (\<lambda>a d. (0x10, d)),
     hw_write32 = (\<lambda>v a d. if a = I2C_CTRL then d @ [Cmd v] else d), hw_uptime = (\<lambda>d. (0, d)),
     hw_read8 = (\<lambda>a d. (0, d)), hw_write8 = (\<lambda>v a d. if a = I2C_TRANSMIT then d @ [Byte v] else d),
     hw_read16 = (\<lambda>a d. (0, d)), hw_write16 = (\<lambda>v a d. d), hw_read64 = (\<lambda>a d. (0, d)), hw_write64 = (\<lambda>v a d. d)\<rparr>"

definition log_cfg :: i2c_config where
  "log_cfg = \<lparr>ic_base = 0, ic_irq_en = False, ic_scl_freq = 0, ic_byte_numb = 0, ic_device_type = EEPROM\<rparr>"

lemma log_ready: "bus_ready log_hw log_cfg (\<lambda>d. d)"
proof -
  have "bit (0x10 :: u32) 4" by (simp add: bit_numeral_rec numeral_eq_Suc)
  then show ?thesis by (simp add: bus_ready_def log_hw_def log_cfg_def TX_EMPTY_i_def)
qed

theorem eeprom_write_pages_witness:
  "\<exists>s'. eeprom_random_write log_hw log_cfg 0xA0 0x1280 0x1000 2 \<lparr>is_txfifo = 0, is_irqstat = 0, is_mem = (\<lambda>a. ucast a), is_dev = []\<rparr> =
       Some (0, s') \<and>
     is_dev s' = [Byte 0xA0, Byte 0x12, Byte 0x80, Cmd CMD_WRITE_START, Byte 0, Byte 1, Cmd CMD_WRITE, Cmd CMD_STOP]"
proof -
  let ?s = "\<lparr>is_txfifo = 0, is_irqstat = 0, is_mem = (\<lambda>a. ucast a), is_dev = []\<rparr>"
  have "mem_read (is_mem ?s) 0x1000 (unat (2 :: u32)) = [0, 1]"
    by (simp add: mem_read_def upt_rec)
  then have e: "page_events 0xA0 0x1280 (mem_read (is_mem ?s) 0x1000 (unat (2 :: u32))) =
      [Byte 0xA0, Byte 0x12, Byte 0x80, Cmd CMD_WRITE_START, Byte 0, Byte 1, Cmd CMD_WRITE, Cmd CMD_STOP]"
    by (simp add: page_events.simps chunk_events_def)
  have "(0x1000 :: u32) \<noteq> 0" "unat (0x1000 :: u32) + unat (2 :: u32) \<le> 2 ^ 32" by simp_all
  from eeprom_write_pages [OF log_ready this, of "0xA0" "0x1280" ?s, unfolded e] show ?thesis by auto
qed

section \<open>Long writes\<close>

text \<open>One attempt of \<open>trans_write_data\<close> to send a whole buffer when the controller's buffer is empty or full.\<close>

lemma full_chunk:
  assumes r: "bus_ready hw cfg obs" and buf: "buf \<noteq> 0"
  shows "is_txfifo s = 0 \<Longrightarrow> \<exists>s'. write_data_chunk hw cfg buf 256 s = (0, s') \<and>
      says obs s (map Byte (mem_read (is_mem s) buf 256)) s' \<and> is_txfifo s' = 256"
    and "is_txfifo s = 256 \<Longrightarrow> write_data_chunk hw cfg buf 256 s = (256, s\<lparr>is_txfifo := 0\<rparr>)"
proof -
  have n: "unat (256 :: u32) = 256" "sint (256 :: u32) = 256" by simp_all
  show "\<exists>s'. write_data_chunk hw cfg buf 256 s = (0, s') \<and>
      says obs s (map Byte (mem_read (is_mem s) buf 256)) s' \<and> is_txfifo s' = 256" if "is_txfifo s = 0"
    using write_bytes_says [OF r, of s 256 buf] that buf by (auto simp: write_data_chunk_def n)
  have w: "write_bytes hw cfg k buf s = (k, s\<lparr>is_txfifo := 0\<rparr>)" if "is_txfifo s = 256" "k \<noteq> 0" for k
    using that by (cases k) simp_all
  then show "write_data_chunk hw cfg buf 256 s = (256, s\<lparr>is_txfifo := 0\<rparr>)" if "is_txfifo s = 256"
    using that buf w [of 256] by (simp add: write_data_chunk_def n)
qed

text \<open>C33: A write of 512 bytes in one transaction sends the first 256 bytes twice, and the rest not at all: the pointer
  into the buffer is never advanced.\<close>

theorem long_write_repeats:
  assumes r: "bus_ready hw cfg obs" and t: "it_type t = WRITE_DATA" "it_len t = 512" "it_buf t \<noteq> 0"
    and s: "is_txfifo s = 0" and fil: "\<forall>d. fst (hw_read32 hw (ic_base cfg + I2C_FIFOFIL) d) AND 0xff = 0"
  shows "\<exists>s'. i2c_execute_transaction hw cfg t s = Some (0, s') \<and>
    obs (is_dev s') = obs (is_dev s) @ map Byte (mem_read (is_mem s) (it_buf t) 256) @ [Cmd CMD_WRITE, Cmd CMD_WRITE] @
      map Byte (mem_read (is_mem s) (it_buf t) 256) @ [Cmd CMD_WRITE]"
proof -
  note st = bus_steps [OF r]
  obtain v s1 where rd: "ic_read32 hw cfg I2C_FIFOFIL s = (v, s1)" by (cases "ic_read32 hw cfg I2C_FIFOFIL s")
  have v: "v AND 0xff = 0"
    using rd fil by (auto simp: ic_read32_def ioread32_def Let_def split: prod.splits) (metis fst_conv)
  have s1: "says obs s [] s1" "is_txfifo s1 = 0"
    using st(6) [of s I2C_FIFOFIL] bus_fifo(3) [of hw cfg I2C_FIFOFIL s] s by (simp_all add: rd)
  let ?s2 = "set_fifofil hw cfg 512 (set_number hw cfg 512 s1)"
  have s2: "says obs s1 ([] @ []) ?s2"
    by (rule says_trans [where s' = "set_number hw cfg 512 s1"]) (simp_all add: st set_number_def set_fifofil_def Let_def)
  have f2: "is_txfifo ?s2 = 0" using s1(2) by (simp add: set_number_def set_fifofil_def Let_def)
  have send: "\<exists>x'. i2c_wait_transaction_timeout hw cfg TX_EMPTY us (send_write_cmd hw cfg x) = Some (0, x') \<and>
      says obs x [Cmd CMD_WRITE] x' \<and> is_txfifo x' = is_txfifo x" for us x
  proof -
    have "says obs x ([] @ [Cmd CMD_WRITE]) (send_write_cmd hw cfg x)"
      unfolding send_write_cmd_def by (rule says_trans [OF st(4) st(3)])
    moreover obtain x' where "i2c_wait_transaction_timeout hw cfg TX_EMPTY us (send_write_cmd hw cfg x) = Some (0, x')"
      "says obs (send_write_cmd hw cfg x) [] x'" "is_txfifo x' = is_txfifo (send_write_cmd hw cfg x)"
      using wait_tx_ready [OF r] by blast
    ultimately show ?thesis using says_trans by (fastforce simp: send_write_cmd_def)
  qed
  let ?w = "\<lambda>x. i2c_wait_transaction_timeout hw cfg TX_EMPTY (I2C_TIMEOUT_PER_WR_US * TXBUF_SIZE) (send_write_cmd hw cfg x)"
  obtain a1 where a1: "write_data_chunk hw cfg (it_buf t) 256 ?s2 = (0, a1)"
    "says obs ?s2 (map Byte (mem_read (is_mem ?s2) (it_buf t) 256)) a1" "is_txfifo a1 = 256"
    using full_chunk(1) [OF r t(3) f2] by blast
  obtain b1 where b1: "?w a1 = Some (0, b1)" "says obs a1 [Cmd CMD_WRITE] b1" "is_txfifo b1 = 256"
    using send [of "I2C_TIMEOUT_PER_WR_US * TXBUF_SIZE" a1] a1(3) by auto
  have a2: "write_data_chunk hw cfg (it_buf t) 256 b1 = (256, b1\<lparr>is_txfifo := 0\<rparr>)"
    by (rule full_chunk(2) [OF r t(3) b1(3)])
  obtain b2 where b2: "?w (b1\<lparr>is_txfifo := 0\<rparr>) = Some (0, b2)" "says obs b1 [Cmd CMD_WRITE] b2" "is_txfifo b2 = 0"
    using send [of "I2C_TIMEOUT_PER_WR_US * TXBUF_SIZE" "b1\<lparr>is_txfifo := 0\<rparr>"] by auto
  have len: "sint (it_len t) = 512" by (simp add: t(2))
  have chunks: "write_chunks hw cfg t 2 0 ?s2 = Some (Inr 256, b2)"
    using a1(1) b1(1) a2 b2(1) by (simp add: numeral_2_eq_2 len TXBUF_SIZE_def)
  let ?s3 = "set_fifofil hw cfg 256 b2"
  have s3: "says obs b2 [] ?s3" "is_txfifo ?s3 = 0" using b2(3) by (simp_all add: st set_fifofil_def Let_def)
  obtain a3 where a3: "write_data_chunk hw cfg (it_buf t) 256 ?s3 = (0, a3)"
    "says obs ?s3 (map Byte (mem_read (is_mem ?s3) (it_buf t) 256)) a3"
    using full_chunk(1) [OF r t(3) s3(2)] by blast
  obtain b3 where b3: "i2c_wait_transaction_timeout hw cfg TX_EMPTY (I2C_TIMEOUT_PER_WR_US * 256) (send_write_cmd hw cfg a3) = Some (0, b3)"
    "says obs a3 [Cmd CMD_WRITE] b3" using send by blast
  have "i2c_execute_transaction hw cfg t s = Some (0, b3)"
    using chunks a3(1) b3(1) by (simp add: i2c_execute_transaction_def t(1) trans_write_data_def len rd v t(2))
  moreover have "obs (is_dev b3) = obs (is_dev s) @ map Byte (mem_read (is_mem s) (it_buf t) 256) @ [Cmd CMD_WRITE, Cmd CMD_WRITE] @
      map Byte (mem_read (is_mem s) (it_buf t) 256) @ [Cmd CMD_WRITE]"
    using s1(1) s2 a1(2) b1(2) b2(2) s3(1) a3(2) b3(2) by (simp add: says_def)
  ultimately show ?thesis by blast
qed

text \<open>The bus of the example with an empty fill register.\<close>

definition mute_hw :: "bus_event list hw_wide" where
  "mute_hw = log_hw\<lparr>hw_read32 := (\<lambda>a d. (if a = I2C_FIFOFIL then 0 else 0x10, d))\<rparr>"

theorem long_write_repeats_witness:
  "\<exists>s'. i2c_execute_transaction mute_hw log_cfg \<lparr>it_type = WRITE_DATA, it_devaddr = 0xA0, it_offset = 0, it_buf = 0x1000, it_len = 512\<rparr>
      \<lparr>is_txfifo = 0, is_irqstat = 0, is_mem = (\<lambda>a. ucast a), is_dev = []\<rparr> = Some (0, s') \<and>
     length (is_dev s') = 515"
proof -
  have "bit (0x10 :: u32) 4" by (simp add: bit_numeral_rec numeral_eq_Suc)
  then have r: "bus_ready mute_hw log_cfg (\<lambda>d. d)"
    by (simp add: bus_ready_def mute_hw_def log_hw_def log_cfg_def TX_EMPTY_i_def i2c_offsets)
  let ?t = "\<lparr>it_type = WRITE_DATA, it_devaddr = 0xA0, it_offset = 0, it_buf = 0x1000, it_len = 512\<rparr>"
  let ?s = "\<lparr>is_txfifo = 0, is_irqstat = 0, is_mem = (\<lambda>a. ucast a), is_dev = []\<rparr>"
  have "\<forall>d. fst (hw_read32 mute_hw (ic_base log_cfg + I2C_FIFOFIL) d) AND 0xff = 0"
    by (simp add: mute_hw_def log_hw_def log_cfg_def)
  from long_write_repeats [OF r _ _ _ _ this, of ?t ?s]
  obtain s' where "i2c_execute_transaction mute_hw log_cfg ?t ?s = Some (0, s')"
    "is_dev s' = map Byte (mem_read (is_mem ?s) 0x1000 256) @ [Cmd CMD_WRITE, Cmd CMD_WRITE] @
      map Byte (mem_read (is_mem ?s) 0x1000 256) @ [Cmd CMD_WRITE]"
    by auto
  then show ?thesis by (intro exI [of _ s']) simp
qed

end
