(* ===== verification/Comm_Ports.thy ===== *)
theory Comm_Ports
  imports Malloc Hardware Mpic128 "HOL-Library.Monad_Syntax"
begin

text \<open>
  The communication ports: \<open>src/lib/drivers/rcm_cp.c\<close>, the older \<open>com_simple.c\<close> and the word FIFO \<open>nfifo.c\<close>.
  A port moves 64-bit words between memory and a link, with one half that transmits and one that receives. The
  driver that copies to buffers has the memory beside the device in its state, \<open>cp_sys\<close>. \<open>None\<close> is a panic or
  a wait without an end; messages are left out. The translation of addresses for the bus is a parameter \<open>dma\<close>.
\<close>

section \<open>The port and its registers\<close>

record rcm_cp_instance =
  cp_base :: u32
  cp_swap_endian :: bool
  cp_two_dimentional :: bool
  cp_txbuf :: u32
  cp_rxbuf :: u32
  cp_rxtargetbuf :: u32
  cp_buflen :: u32
  cp_base_freq_khz :: u32

definition CP_IDLE :: u32 where "CP_IDLE = 0"
definition CP_WORKING :: u32 where "CP_WORKING = 1"
definition CP_DONE :: u32 where "CP_DONE = 2"

definition RCM_CP_MAINCOUNTER_TR :: u32 where "RCM_CP_MAINCOUNTER_TR = 0x00"
definition RCM_CP_ADDRESS_TR :: u32 where "RCM_CP_ADDRESS_TR = 0x04"
definition RCM_CP_BIAS_TR :: u32 where "RCM_CP_BIAS_TR = 0x08"
definition RCM_CP_ROWCOUNTER_TR :: u32 where "RCM_CP_ROWCOUNTER_TR = 0x0C"
definition RCM_CP_ADDRESSMODE_TR :: u32 where "RCM_CP_ADDRESSMODE_TR = 0x10"
definition RCM_CP_CSR_TR :: u32 where "RCM_CP_CSR_TR = 0x14"
definition RCM_CP_INTERRUPTMASK_TR :: u32 where "RCM_CP_INTERRUPTMASK_TR = 0x18"
definition RCM_CP_INTERNALSTATE_TR :: u32 where "RCM_CP_INTERNALSTATE_TR = 0x1C"
definition RCM_CP_MAINCOUNTER_RCV :: u32 where "RCM_CP_MAINCOUNTER_RCV = 0x20"
definition RCM_CP_ADDRESS_RCV :: u32 where "RCM_CP_ADDRESS_RCV = 0x24"
definition RCM_CP_BIAS_RCV :: u32 where "RCM_CP_BIAS_RCV = 0x28"
definition RCM_CP_ROWCOUNTER_RCV :: u32 where "RCM_CP_ROWCOUNTER_RCV = 0x2C"
definition RCM_CP_ADDRESSMODE_RCV :: u32 where "RCM_CP_ADDRESSMODE_RCV = 0x30"
definition RCM_CP_CSR_RCV :: u32 where "RCM_CP_CSR_RCV = 0x34"
definition RCM_CP_INTERRUPTMASK_RCV :: u32 where "RCM_CP_INTERRUPTMASK_RCV = 0x38"
definition RCM_CP_INTERNALSTATE_RCV :: u32 where "RCM_CP_INTERNALSTATE_RCV = 0x3C"
definition RCM_CP_PHYCONFIG :: u32 where "RCM_CP_PHYCONFIG = 0x44"

definition MUST_ALIGN :: u32 where "MUST_ALIGN = 8"

record 'd cp_sys =
  cs_mem :: mem
  cs_dev :: 'd

section \<open>Set-up\<close>

definition cp_check_buffer :: "u32 \<Rightarrow> u32 \<Rightarrow> unit option" where
  "cp_check_buffer buf len =
     (if buf mod MUST_ALIGN \<noteq> 0 then None
      else if len mod MUST_ALIGN \<noteq> 0 then None
      else Some ())"

definition cp_detach_buffers :: "rcm_cp_instance \<Rightarrow> rcm_cp_instance" where
  "cp_detach_buffers inst = inst\<lparr>cp_txbuf := 0, cp_rxbuf := 0, cp_buflen := 0\<rparr>"

definition cp_instance_init :: "u32 \<Rightarrow> u32 \<Rightarrow> rcm_cp_instance \<Rightarrow> rcm_cp_instance" where
  "cp_instance_init base base_freq_khz inst =
     cp_detach_buffers (inst\<lparr>cp_base := base, cp_two_dimentional := False, cp_base_freq_khz := base_freq_khz\<rparr>)"

definition cp_attach_buffers :: "u32 \<Rightarrow> u32 \<Rightarrow> u32 \<Rightarrow> rcm_cp_instance \<Rightarrow> rcm_cp_instance option" where
  "cp_attach_buffers rxbuf txbuf buflen inst = do {
     cp_check_buffer rxbuf buflen;
     cp_check_buffer txbuf buflen;
     Some (inst\<lparr>cp_rxbuf := rxbuf, cp_txbuf := txbuf, cp_buflen := buflen\<rparr>) }"

definition cp_attach_buffers_from_heap :: "string \<Rightarrow> u32 \<Rightarrow> rcm_cp_instance \<Rightarrow> runtime \<Rightarrow> (rcm_cp_instance \<times> runtime) option" where
  "cp_attach_buffers_from_heap heapname buflen inst rt = do {
     (rx, rt) \<leftarrow> rumboot_malloc_from_named_heap_aligned heapname buflen 8 rt;
     (tx, rt) \<leftarrow> rumboot_malloc_from_named_heap_aligned heapname buflen 8 rt;
     inst \<leftarrow> cp_attach_buffers rx tx buflen inst;
     Some (inst, rt) }"

text \<open>The search of the divisor: \<open>best_div\<close>, \<open>best_freq\<close> and \<open>best_freq_delta\<close> after \<open>fdiv\<close>. The subtraction of signed
  integers is exact, for an overflow is undefined.\<close>

definition cp_freq :: "u32 \<Rightarrow> nat \<Rightarrow> int" where
  "cp_freq base_freq_khz fdiv = sint (base_freq_khz div of_nat (fdiv + 1))"

definition speed_step :: "u32 \<Rightarrow> int \<Rightarrow> nat \<Rightarrow> nat \<times> int \<times> int \<Rightarrow> nat \<times> int \<times> int" where
  "speed_step base_freq_khz target_freq_khz fdiv best =
     (let freq = cp_freq base_freq_khz fdiv;
          delta = \<bar>target_freq_khz - freq\<bar>
      in if delta < snd (snd best) then (fdiv, freq, delta) else best)"

definition cp_set_speed :: "'d hw \<Rightarrow> rcm_cp_instance \<Rightarrow> int \<Rightarrow> 'd \<Rightarrow> int \<times> 'd" where
  "cp_set_speed hw inst target_freq_khz d =
     (let (best_div, best_freq, best_freq_delta) =
            fold (speed_step (cp_base_freq_khz inst) target_freq_khz) [0..<16] (0, 0, sint (cp_base_freq_khz inst));
          (v, d) = ioread32 hw (cp_base inst + RCM_CP_PHYCONFIG) d;
          spdreg = (v AND 0xfffffff0) OR of_nat best_div
      in (best_freq, iowrite32 hw spdreg (cp_base inst + RCM_CP_PHYCONFIG) d))"

section \<open>Start and status of a transfer\<close>

definition cp_program_tx :: "'d hw \<Rightarrow> (u32 \<Rightarrow> u32) \<Rightarrow> rcm_cp_instance \<Rightarrow> u32 \<Rightarrow> u32 \<Rightarrow> 'd \<Rightarrow> 'd" where
  "cp_program_tx hw dma inst buf len d =
     (let base = cp_base inst;
          d = iowrite32 hw (drop_bit 3 len) (base + RCM_CP_MAINCOUNTER_TR) d;
          d = iowrite32 hw (dma buf) (base + RCM_CP_ADDRESS_TR) d;
          d = iowrite32 hw 0 (base + RCM_CP_BIAS_TR) d;
          d = iowrite32 hw 0 (base + RCM_CP_ROWCOUNTER_TR) d
      in iowrite32 hw (of_bool (cp_two_dimentional inst)) (base + RCM_CP_ADDRESSMODE_TR) d)"

definition cp_prep_tx :: "'d hw \<Rightarrow> (u32 \<Rightarrow> u32) \<Rightarrow> rcm_cp_instance \<Rightarrow> u32 \<Rightarrow> u32 \<Rightarrow> 'd cp_sys \<Rightarrow> 'd cp_sys option" where
  "cp_prep_tx hw dma inst buf len s = do {
     (buf, s) \<leftarrow>
       (if cp_txbuf inst \<noteq> 0 then
          if cp_buflen inst < len then None
          else Some (cp_txbuf inst, s\<lparr>cs_mem := memmove (cp_txbuf inst) buf (unat len) (cs_mem s)\<rparr>)
        else do { cp_check_buffer buf len; Some (buf, s) });
     Some (s\<lparr>cs_dev := cp_program_tx hw dma inst buf len (cs_dev s)\<rparr>) }"

definition cp_go_tx :: "'d hw \<Rightarrow> rcm_cp_instance \<Rightarrow> 'd cp_sys \<Rightarrow> 'd cp_sys" where
  "cp_go_tx hw inst s = s\<lparr>cs_dev := iowrite32 hw 1 (cp_base inst + RCM_CP_CSR_TR) (cs_dev s)\<rparr>"

definition cp_start_tx :: "'d hw \<Rightarrow> (u32 \<Rightarrow> u32) \<Rightarrow> rcm_cp_instance \<Rightarrow> u32 \<Rightarrow> u32 \<Rightarrow> 'd cp_sys \<Rightarrow> 'd cp_sys option" where
  "cp_start_tx hw dma inst buf len s = do {
     (buf, s) \<leftarrow>
       (if cp_txbuf inst \<noteq> 0 then
          if cp_buflen inst < len then None
          else Some (cp_txbuf inst, s\<lparr>cs_mem := memmove (cp_txbuf inst) buf (unat len) (cs_mem s)\<rparr>)
        else do { cp_check_buffer buf len; Some (buf, s) });
     Some (s\<lparr>cs_dev := iowrite32 hw 1 (cp_base inst + RCM_CP_CSR_TR) (cp_program_tx hw dma inst buf len (cs_dev s))\<rparr>) }"

definition cp_tx_status :: "'d hw \<Rightarrow> rcm_cp_instance \<Rightarrow> 'd \<Rightarrow> u32 \<times> 'd" where
  "cp_tx_status hw inst d =
     (let (status, d) = ioread32 hw (cp_base inst + RCM_CP_CSR_TR) d
      in (status, if status AND BIT 1 \<noteq> 0 then iowrite32 hw (status AND NOT (BIT 1)) (cp_base inst + RCM_CP_CSR_TR) d else d))"

definition cp_program_rx :: "'d hw \<Rightarrow> (u32 \<Rightarrow> u32) \<Rightarrow> rcm_cp_instance \<Rightarrow> u32 \<Rightarrow> u32 \<Rightarrow> 'd \<Rightarrow> 'd" where
  "cp_program_rx hw dma inst buf len d =
     (let base = cp_base inst;
          d = iowrite32 hw (drop_bit 3 len) (base + RCM_CP_MAINCOUNTER_RCV) d;
          d = iowrite32 hw (dma buf) (base + RCM_CP_ADDRESS_RCV) d;
          d = iowrite32 hw 0 (base + RCM_CP_BIAS_RCV) d;
          d = iowrite32 hw 0 (base + RCM_CP_ROWCOUNTER_RCV) d;
          d = iowrite32 hw 0 (base + RCM_CP_ADDRESSMODE_RCV) d
      in iowrite32 hw (of_bool (cp_two_dimentional inst)) (base + RCM_CP_ADDRESSMODE_RCV) d)"

definition cp_prep_rx :: "'d hw \<Rightarrow> (u32 \<Rightarrow> u32) \<Rightarrow> rcm_cp_instance \<Rightarrow> u32 \<Rightarrow> u32 \<Rightarrow> 'd \<Rightarrow> (rcm_cp_instance \<times> 'd) option" where
  "cp_prep_rx hw dma inst buf len d =
     (if len mod 8 \<noteq> 0 then None
      else do {
        (buf, inst) \<leftarrow>
          (if cp_rxbuf inst \<noteq> 0 then
             if cp_buflen inst < len then None
             else Some (cp_rxbuf inst, inst\<lparr>cp_rxtargetbuf := buf\<rparr>)
           else do { cp_check_buffer buf len; Some (buf, inst) });
        Some (inst, cp_program_rx hw dma inst buf len d) })"

definition cp_go_rx :: "'d hw \<Rightarrow> rcm_cp_instance \<Rightarrow> 'd \<Rightarrow> 'd" where
  "cp_go_rx hw inst d = iowrite32 hw 1 (cp_base inst + RCM_CP_CSR_RCV) d"

definition cp_start_rx :: "'d hw \<Rightarrow> (u32 \<Rightarrow> u32) \<Rightarrow> rcm_cp_instance \<Rightarrow> u32 \<Rightarrow> u32 \<Rightarrow> 'd \<Rightarrow> (rcm_cp_instance \<times> 'd) option" where
  "cp_start_rx hw dma inst buf len d =
     (if len mod 8 \<noteq> 0 then None
      else do {
        (buf, inst) \<leftarrow>
          (if cp_rxbuf inst \<noteq> 0 then
             if cp_buflen inst < len then None
             else Some (cp_rxbuf inst, inst\<lparr>cp_rxtargetbuf := buf\<rparr>)
           else do { cp_check_buffer buf len; Some (buf, inst) });
        Some (inst, iowrite32 hw 1 (cp_base inst + RCM_CP_CSR_RCV) (cp_program_rx hw dma inst buf len d)) })"

definition cp_rx_status :: "'d hw \<Rightarrow> rcm_cp_instance \<Rightarrow> 'd \<Rightarrow> u32 \<times> 'd" where
  "cp_rx_status hw inst d =
     (let (status, d) = ioread32 hw (cp_base inst + RCM_CP_CSR_RCV) d
      in (status, if status AND BIT 1 \<noteq> 0 then iowrite32 hw (status AND NOT (BIT 1)) (cp_base inst + RCM_CP_CSR_RCV) d else d))"

section \<open>Waiting\<close>

text \<open>The rest of a round of the polling loops: whether to go on. Without a time limit the clock is not asked.\<close>

definition in_time :: "'d hw \<Rightarrow> u32 \<Rightarrow> u32 \<Rightarrow> 'd \<Rightarrow> bool \<times> 'd" where
  "in_time hw timeout_us start d =
     (if timeout_us = 0 then (True, d)
      else let (now, d) = rumboot_platform_get_uptime hw d in (now - start < timeout_us, d))"

definition start_time :: "'d hw \<Rightarrow> u32 \<Rightarrow> 'd \<Rightarrow> u32 \<times> 'd" where
  "start_time hw timeout_us d = (if timeout_us = 0 then (0, d) else rumboot_platform_get_uptime hw d)"

partial_function (option) tx_poll :: "'d hw \<Rightarrow> u32 \<Rightarrow> u32 \<Rightarrow> u32 \<Rightarrow> 'd \<Rightarrow> (int \<times> 'd) option" where
  "tx_poll hw base timeout_us start d =
     (let (status, d) = ioread32 hw (base + RCM_CP_CSR_TR) d
      in if status AND BIT 2 \<noteq> 0 then
           let (counter, d) = ioread32 hw (base + RCM_CP_MAINCOUNTER_TR) d;
               (arc, d) = ioread32 hw (base + RCM_CP_INTERNALSTATE_TR) d
           in Some (sint (counter + (arc AND 0xFF) + 1), d)
         else if status AND BIT 1 \<noteq> 0 then Some (0, iowrite32 hw 0 (base + RCM_CP_CSR_TR) d)
         else let (go_on, d) = in_time hw timeout_us start d
              in if go_on then tx_poll hw base timeout_us start d else Some (-1, d))"

definition tx_shut_off :: "'d hw \<Rightarrow> u32 \<Rightarrow> 'd \<Rightarrow> int \<times> 'd" where
  "tx_shut_off hw base d =
     (let (irq_mask_saved, d) = ioread32 hw (base + RCM_CP_INTERRUPTMASK_TR) d;
          d = iowrite32 hw 3 (base + RCM_CP_INTERRUPTMASK_TR) d;
          d = iowrite32 hw 6 (base + RCM_CP_CSR_TR) d;
          (counter, d) = ioread32 hw (base + RCM_CP_MAINCOUNTER_TR) d;
          (arc, d) = ioread32 hw (base + RCM_CP_INTERNALSTATE_TR) d;
          r = sint (counter + (arc AND 0xFF));
          d = iowrite32 hw irq_mask_saved (base + RCM_CP_INTERRUPTMASK_TR) d
      in (1 - r, d))"

definition cp_wait_tx :: "'d hw \<Rightarrow> u32 \<Rightarrow> u32 \<Rightarrow> 'd \<Rightarrow> (int \<times> 'd) option" where
  "cp_wait_tx hw base timeout_us d = do {
     let (start, d) = start_time hw timeout_us d;
     (r, d) \<leftarrow> tx_poll hw base timeout_us start d;
     Some (if r < 0 then tx_shut_off hw base d else (r, d)) }"

partial_function (option) wait_clear :: "'d hw \<Rightarrow> u32 \<Rightarrow> u32 \<Rightarrow> u32 \<Rightarrow> 'd \<Rightarrow> 'd option" where
  "wait_clear hw addr bits expected d =
     (let (v, d) = ioread32 hw addr d
      in if v AND bits \<noteq> expected then wait_clear hw addr bits expected d else Some d)"

definition cp_elaborate_tx_exception :: "'d hw \<Rightarrow> u32 \<Rightarrow> 'd \<Rightarrow> 'd option" where
  "cp_elaborate_tx_exception hw base d = do {
     let (status, d) = ioread32 hw (base + RCM_CP_CSR_TR) d;
     let d = iowrite32 hw (status OR 8) (base + RCM_CP_CSR_TR) d;
     d \<leftarrow> wait_clear hw (base + RCM_CP_CSR_TR) 8 0 d;
     Some (iowrite32 hw 0 (base + RCM_CP_CSR_TR) d) }"

partial_function (option) rx_poll :: "'d hw \<Rightarrow> u32 \<Rightarrow> u32 \<Rightarrow> u32 \<Rightarrow> 'd \<Rightarrow> (int \<times> 'd) option" where
  "rx_poll hw base timeout_us start d =
     (let (status, d) = ioread32 hw (base + RCM_CP_CSR_RCV) d
      in if status AND BIT 2 \<noteq> 0 then do {
           d \<leftarrow> wait_clear hw (base + RCM_CP_INTERNALSTATE_RCV) (push_bit 24 0x1F) (push_bit 24 2) d;
           let (counter, d) = ioread32 hw (base + RCM_CP_MAINCOUNTER_RCV) d;
           Some (sint (counter + 1), d) }
         else if status AND BIT 1 \<noteq> 0 then Some (0, iowrite32 hw 0 (base + RCM_CP_CSR_RCV) d)
         else let (go_on, d) = in_time hw timeout_us start d
              in if go_on then rx_poll hw base timeout_us start d else Some (-1, d))"

definition rx_shut_off :: "'d hw \<Rightarrow> u32 \<Rightarrow> 'd \<Rightarrow> int \<times> 'd" where
  "rx_shut_off hw base d =
     (let (irq_mask_saved, d) = ioread32 hw (base + RCM_CP_INTERRUPTMASK_RCV) d;
          d = iowrite32 hw 3 (base + RCM_CP_INTERRUPTMASK_RCV) d;
          d = iowrite32 hw 6 (base + RCM_CP_CSR_RCV) d;
          (counter, d) = ioread32 hw (base + RCM_CP_MAINCOUNTER_RCV) d;
          d = iowrite32 hw irq_mask_saved (base + RCM_CP_INTERRUPTMASK_RCV) d
      in (0 - (sint counter + 1), d))"

definition cp_wait_rx :: "'d hw \<Rightarrow> u32 \<Rightarrow> u32 \<Rightarrow> 'd \<Rightarrow> (int \<times> 'd) option" where
  "cp_wait_rx hw base timeout_us d = do {
     let (start, d) = start_time hw timeout_us d;
     (r, d) \<leftarrow> rx_poll hw base timeout_us start d;
     Some (if r < 0 then rx_shut_off hw base d else (r, d)) }"

partial_function (option) rx_clear_poll :: "'d hw \<Rightarrow> u32 \<Rightarrow> u32 \<Rightarrow> u32 \<Rightarrow> 'd \<Rightarrow> (int \<times> 'd) option" where
  "rx_clear_poll hw base timeout_us start d =
     (let (v, d) = ioread32 hw (base + RCM_CP_CSR_RCV) d
      in if v AND 8 = 0 then Some (0, iowrite32 hw 0 (base + RCM_CP_CSR_RCV) d)
         else let (go_on, d) = in_time hw timeout_us start d
              in if go_on then rx_clear_poll hw base timeout_us start d
                 else let d = iowrite32 hw 0 (base + RCM_CP_MAINCOUNTER_RCV) d
                      in Some (-1, iowrite32 hw 0 (base + RCM_CP_CSR_RCV) d))"

definition cp_elaborate_rx_exception :: "'d hw \<Rightarrow> u32 \<Rightarrow> int \<Rightarrow> u32 \<Rightarrow> 'd \<Rightarrow> (int \<times> 'd) option" where
  "cp_elaborate_rx_exception hw base r timeout_us d =
     (let r = (if r < 0 then - r else r)
      in if r > 0 then
           if r = 1 then Some (0, iowrite32 hw 0 (base + RCM_CP_CSR_RCV) d)
           else let d = iowrite32 hw (of_int (r - 1)) (base + RCM_CP_MAINCOUNTER_RCV) d;
                    (status, d) = ioread32 hw (base + RCM_CP_CSR_RCV) d;
                    d = iowrite32 hw (status OR 8) (base + RCM_CP_CSR_RCV) d;
                    (start, d) = start_time hw timeout_us d
                in rx_clear_poll hw base timeout_us start d
         else let d = iowrite32 hw 0 (base + RCM_CP_MAINCOUNTER_RCV) d
              in Some (0, iowrite32 hw 0 (base + RCM_CP_CSR_RCV) d))"

definition cp_abort_rx :: "'d hw \<Rightarrow> u32 \<Rightarrow> 'd \<Rightarrow> 'd option" where
  "cp_abort_rx hw base d = do {
     let (irq_mask_saved, d) = ioread32 hw (base + RCM_CP_INTERRUPTMASK_RCV) d;
     let d = iowrite32 hw 3 (base + RCM_CP_INTERRUPTMASK_RCV) d;
     let d = iowrite32 hw 6 (base + RCM_CP_CSR_RCV) d;
     d \<leftarrow> wait_clear hw (base + RCM_CP_INTERNALSTATE_RCV) (push_bit 16 0xFF) 0 d;
     let (v, d) = ioread32 hw (base + RCM_CP_INTERNALSTATE_RCV) d;
     let d = iowrite32 hw (v AND 0xFF) (base + RCM_CP_MAINCOUNTER_RCV) d;
     let (status, d) = ioread32 hw (base + RCM_CP_CSR_RCV) d;
     let d = iowrite32 hw (status OR 8) (base + RCM_CP_CSR_RCV) d;
     d \<leftarrow> wait_clear hw (base + RCM_CP_INTERNALSTATE_RCV) 0xFF 0 d;
     let d = iowrite32 hw 0 (base + RCM_CP_CSR_RCV) d;
     Some (iowrite32 hw irq_mask_saved (base + RCM_CP_INTERRUPTMASK_RCV) d) }"

definition cp_wait :: "'d hw \<Rightarrow> rcm_cp_instance \<Rightarrow> bool \<Rightarrow> bool \<Rightarrow> u32 \<Rightarrow> 'd \<Rightarrow> (int \<times> 'd) option" where
  "cp_wait hw inst rx tx timeout_us d =
     map_option (\<lambda>(r, d). (case r of Some () \<Rightarrow> 0 | None \<Rightarrow> -1, d))
       (loop_until_timeout hw timeout_us
          (\<lambda>d. let (st, d) = (if rx then cp_rx_status hw inst d else (0, d))
               in if st \<noteq> 0 then (None, d)
                  else let (st, d) = (if tx then cp_tx_status hw inst d else (0, d))
                       in (if st \<noteq> 0 then None else Some (), d)) d)"

section \<open>The older driver\<close>

datatype com_ams = ONE_DIMENSION | TWO_DIMENSION

definition com_am :: "com_ams \<Rightarrow> u32" where
  "com_am m = (case m of ONE_DIMENSION \<Rightarrow> 0 | TWO_DIMENSION \<Rightarrow> 1)"

record com_cfg =
  MainCounter_WR :: u32
  Address_WR :: u32
  Bias_WR :: u32
  RowCounter_WR :: u16
  AddressMode_WR :: com_ams
  InterruptMask_WR :: u32
  MainCounter_RD :: u32
  Address_RD :: u32
  Bias_RD :: u32
  RowCounter_RD :: u16
  AddressMode_RD :: com_ams
  InterruptMask_RD :: u32

definition MainCounter_tr :: u32 where "MainCounter_tr = 0x00"
definition Address_tr :: u32 where "Address_tr = 0x04"
definition Bias_tr :: u32 where "Bias_tr = 0x08"
definition RowCounter_tr :: u32 where "RowCounter_tr = 0x0C"
definition AddressMode_tr :: u32 where "AddressMode_tr = 0x10"
definition CSR_tr :: u32 where "CSR_tr = 0x14"
definition InterruptMask_tr :: u32 where "InterruptMask_tr = 0x18"
definition MainCounter_rcv :: u32 where "MainCounter_rcv = 0x20"
definition Address_rcv :: u32 where "Address_rcv = 0x24"
definition Bias_rcv :: u32 where "Bias_rcv = 0x28"
definition RowCounter_rcv :: u32 where "RowCounter_rcv = 0x2C"
definition AddressMode_rcv :: u32 where "AddressMode_rcv = 0x30"
definition CSR_rcv :: u32 where "CSR_rcv = 0x34"
definition InterruptMask_rcv :: u32 where "InterruptMask_rcv = 0x38"
definition COM_CONTROL_EN :: u32 where "COM_CONTROL_EN = 0x1"
definition COM_CONTROL_CPL :: u32 where "COM_CONTROL_CPL = 0x2"

definition comp_dma_run_tr :: "'d hw \<Rightarrow> u32 \<Rightarrow> u32 \<Rightarrow> u32 \<Rightarrow> u32 \<Rightarrow> 'd \<Rightarrow> int \<times> 'd" where
  "comp_dma_run_tr hw addr base mask_v count_num d =
     (let d = iowrite32 hw count_num (base + MainCounter_tr) d;
          d = iowrite32 hw addr (base + Address_tr) d;
          d = iowrite32 hw 0 (base + Bias_tr) d;
          d = iowrite32 hw 0 (base + RowCounter_tr) d;
          d = iowrite32 hw 0 (base + AddressMode_tr) d
      in (0, iowrite32 hw mask_v (base + InterruptMask_tr) d))"

definition comp_dma_run_rcv :: "'d hw \<Rightarrow> u32 \<Rightarrow> u32 \<Rightarrow> u32 \<Rightarrow> u32 \<Rightarrow> 'd \<Rightarrow> int \<times> 'd" where
  "comp_dma_run_rcv hw addr base mask_v count_num d =
     (let d = iowrite32 hw count_num (base + MainCounter_rcv) d;
          d = iowrite32 hw addr (base + Address_rcv) d;
          d = iowrite32 hw 0 (base + Bias_rcv) d;
          d = iowrite32 hw 0 (base + RowCounter_rcv) d;
          d = iowrite32 hw 0 (base + AddressMode_rcv) d
      in (0, iowrite32 hw mask_v (base + InterruptMask_rcv) d))"

partial_function (option) com_simple_wait_complete :: "'d hw \<Rightarrow> u32 \<Rightarrow> u32 \<Rightarrow> 'd \<Rightarrow> (int \<times> 'd) option" where
  "com_simple_wait_complete hw base cntrl d =
     (let (res, d) = ioread32 hw (base + cntrl) d
      in if res AND COM_CONTROL_CPL = 0 then com_simple_wait_complete hw base cntrl d else Some (0, d))"

definition comp_dma_run :: "'d hw \<Rightarrow> u32 \<Rightarrow> u32 \<Rightarrow> u32 \<Rightarrow> u32 \<Rightarrow> u32 \<Rightarrow> 'd \<Rightarrow> (int \<times> 'd) option" where
  "comp_dma_run hw src_addr dst_addr base0 base1 count_num d = do {
     let (_, d) = comp_dma_run_tr hw src_addr base0 3 count_num d;
     let (result, d) = comp_dma_run_rcv hw dst_addr base1 3 count_num d;
     let d = iowrite32 hw COM_CONTROL_EN (base0 + CSR_tr) d;
     let d = iowrite32 hw COM_CONTROL_EN (base1 + CSR_rcv) d;
     (r, d) \<leftarrow> com_simple_wait_complete hw base0 CSR_tr d;
     if r \<noteq> 0 then Some (1, d)
     else do {
       (r, d) \<leftarrow> com_simple_wait_complete hw base1 CSR_rcv d;
       Some (if r \<noteq> 0 then 1 else result, d) } }"

text \<open>The flag is a parameter of \<open>comp_dma_irq_run\<close>, a copy that no interrupt handler can reach: nothing but
  this function changes it. The loop has at least one round.\<close>

fun wait_com_int_handled :: "nat \<Rightarrow> u32 \<Rightarrow> bool \<times> u32" where
  "wait_com_int_handled timeout flag =
     (if flag \<noteq> 0 then (True, 0)
      else if timeout \<le> 1 then (False, flag)
      else wait_com_int_handled (timeout - 1) flag)"

declare wait_com_int_handled.simps [simp del]

definition comp_dma_irq_run :: "'d hw \<Rightarrow> u32 \<Rightarrow> u32 \<Rightarrow> u32 \<Rightarrow> u32 \<Rightarrow> u32 \<Rightarrow> u32 \<Rightarrow> u32 \<Rightarrow> 'd \<Rightarrow> int \<times> 'd" where
  "comp_dma_irq_run hw src_addr dst_addr base0 base1 COM0_Cpl COM1_Cpl count_num d =
     (let (_, d) = comp_dma_run_tr hw src_addr base0 0 count_num d;
          (result, d) = comp_dma_run_rcv hw dst_addr base1 0 count_num d;
          d = iowrite32 hw COM_CONTROL_EN (base0 + CSR_tr) d;
          d = iowrite32 hw COM_CONTROL_EN (base1 + CSR_rcv) d
      in (if \<not> fst (wait_com_int_handled 1000 COM0_Cpl) then 1
          else if \<not> fst (wait_com_int_handled 1000 COM1_Cpl) then 1
          else result, d))"

text \<open>Whether an unmasked completion or error is pending.\<close>

definition pending :: "u32 \<Rightarrow> u32 \<Rightarrow> bool" where
  "pending status mask_v =
     ((drop_bit 1 status AND 1 = 1 \<and> mask_v AND 1 = 0) \<or>
      (drop_bit 2 status AND 1 = 1 \<and> drop_bit 1 mask_v AND 1 = 0))"

definition com_status :: "'d hw \<Rightarrow> u32 \<Rightarrow> u32 \<Rightarrow> 'd \<Rightarrow> bool \<times> 'd" where
  "com_status hw base direct d =
     (if direct = 1 then
        let (m, d) = ioread32 hw (base + InterruptMask_tr) d; (st, d) = ioread32 hw (base + CSR_tr) d in (pending st m, d)
      else
        let (m, d) = ioread32 hw (base + InterruptMask_rcv) d; (st, d) = ioread32 hw (base + CSR_rcv) d in (pending st m, d))"

definition clear_com_tr :: "'d hw \<Rightarrow> u32 \<Rightarrow> 'd \<Rightarrow> 'd" where
  "clear_com_tr hw base d =
     (let (m, d) = ioread32 hw (base + InterruptMask_tr) d;
          (st, d) = ioread32 hw (base + CSR_tr) d;
          d = (if drop_bit 1 st AND 1 = 1 \<and> m AND 1 = 0 then iowrite32 hw (st AND 0xd) (base + CSR_tr) d else d);
          d = (if drop_bit 2 st AND 1 = 1 \<and> drop_bit 1 m AND 1 \<noteq> 0 then iowrite32 hw (st AND 0xb) (base + CSR_tr) d else d)
      in iowrite32 hw (st AND 3) (base + CSR_tr) d)"

definition clear_com_rcv :: "'d hw \<Rightarrow> u32 \<Rightarrow> 'd \<Rightarrow> 'd" where
  "clear_com_rcv hw base d =
     (let (m, d) = ioread32 hw (base + InterruptMask_rcv) d;
          (st, d) = ioread32 hw (base + CSR_rcv) d;
          d = (if drop_bit 1 st AND 1 = 1 \<and> m AND 1 = 0
               then iowrite32 hw (st AND 9) (base + CSR_rcv) (iowrite32 hw (st AND 0xd) (base + CSR_rcv) d) else d)
      in if drop_bit 2 st AND 1 = 1 \<and> drop_bit 1 m AND 1 = 0
         then iowrite32 hw (st AND 9) (base + CSR_rcv) (iowrite32 hw (st AND 0xb) (base + CSR_rcv) d) else d)"

definition clear_com_status :: "'d hw \<Rightarrow> u32 \<Rightarrow> u32 \<Rightarrow> 'd \<Rightarrow> 'd" where
  "clear_com_status hw base direct d =
     (if direct = 1 then clear_com_tr hw base d else if direct = 0 then clear_com_rcv hw base d else d)"

definition com_simple_write :: "'d hw \<Rightarrow> u32 \<Rightarrow> com_cfg \<Rightarrow> 'd \<Rightarrow> int \<times> 'd" where
  "com_simple_write hw base cfg d =
     (let d = iowrite32 hw (MainCounter_WR cfg) (base + MainCounter_tr) d;
          d = iowrite32 hw (Address_WR cfg) (base + Address_tr) d;
          d = iowrite32 hw (Bias_WR cfg) (base + Bias_tr) d;
          d = iowrite32 hw (ucast (RowCounter_WR cfg)) (base + RowCounter_tr) d;
          d = iowrite32 hw (com_am (AddressMode_WR cfg)) (base + AddressMode_tr) d;
          d = iowrite32 hw (InterruptMask_WR cfg) (base + InterruptMask_tr) d;
          d = iowrite32 hw (MainCounter_RD cfg) (base + MainCounter_rcv) d;
          d = iowrite32 hw (Address_RD cfg) (base + Address_rcv) d;
          d = iowrite32 hw (Bias_RD cfg) (base + Bias_rcv) d;
          d = iowrite32 hw (ucast (RowCounter_RD cfg)) (base + RowCounter_rcv) d;
          d = iowrite32 hw (com_am (AddressMode_RD cfg)) (base + AddressMode_rcv) d
      in (0, iowrite32 hw (InterruptMask_RD cfg) (base + InterruptMask_rcv) d))"

text \<open>One check after another, up to the first that fails. A failed check of some registers reads them again for
  its message.\<close>

fun check_regs :: "'d hw \<Rightarrow> u32 \<Rightarrow> (u32 \<times> u32 \<times> bool) list \<Rightarrow> 'd \<Rightarrow> int \<times> 'd" where
  "check_regs hw base [] d = (0, d)"
| "check_regs hw base ((off, v, again) # rest) d =
     (let (r, d) = ioread32 hw (base + off) d
      in if r \<noteq> v then (1, if again then snd (ioread32 hw (base + off) d) else d)
         else check_regs hw base rest d)"

definition com_apb_check :: "'d hw \<Rightarrow> u32 \<Rightarrow> com_cfg \<Rightarrow> 'd \<Rightarrow> int \<times> 'd" where
  "com_apb_check hw base cfg d =
     (let (result, d) = com_simple_write hw base cfg d
      in if result \<noteq> 0 then (1, d)
         else check_regs hw base
           [(MainCounter_tr, MainCounter_WR cfg, True), (Address_tr, Address_WR cfg, True), (Bias_tr, Bias_WR cfg, True),
            (RowCounter_tr, ucast (RowCounter_WR cfg), True), (AddressMode_tr, com_am (AddressMode_WR cfg), True),
            (InterruptMask_tr, InterruptMask_WR cfg, False),
            (MainCounter_rcv, MainCounter_RD cfg, False), (Address_rcv, Address_RD cfg, False),
            (Bias_rcv, Bias_RD cfg, False), (RowCounter_tr, ucast (RowCounter_RD cfg), False),
            (AddressMode_rcv, com_am (AddressMode_RD cfg), False), (InterruptMask_rcv, InterruptMask_RD cfg, False)] d)"

fun running_one :: "'d hw \<Rightarrow> u32 \<Rightarrow> u32 \<Rightarrow> nat \<Rightarrow> u32 \<Rightarrow> 'd \<Rightarrow> int \<times> 'd" where
  "running_one hw addr mask_v 0 data d = (0, d)"
| "running_one hw addr mask_v (Suc n) data d =
     (let d = iowrite32 hw (data AND mask_v) addr d;
          (v, d) = ioread32 hw addr d
      in if v \<noteq> data AND mask_v then (1, d) else running_one hw addr mask_v n (push_bit 1 data) d)"

definition com_apb_running_one :: "'d hw \<Rightarrow> u32 \<Rightarrow> u32 \<Rightarrow> u32 \<Rightarrow> int \<Rightarrow> 'd \<Rightarrow> int \<times> 'd" where
  "com_apb_running_one hw base COM_Address mask_v end_number d =
     running_one hw (base + COM_Address) mask_v (nat end_number) 1 d"

section \<open>The word FIFO\<close>

record nfifo_instance =
  nf_base :: u32
  nf_dcr :: bool
  nf_spacing :: u32

definition NFIFO_DATA :: u32 where "NFIFO_DATA = 0"
definition NFIFO_CONTROL :: u32 where "NFIFO_CONTROL = 1"

text \<open>\<open>on_ppc\<close> and \<open>on_nm\<close> say for which processor the code is compiled.\<close>

definition nfifo_instance_init :: "bool \<Rightarrow> bool \<Rightarrow> u32 \<Rightarrow> nfifo_instance" where
  "nfifo_instance_init on_ppc on_nm base = \<lparr>nf_base = base, nf_dcr = on_ppc, nf_spacing = (if on_nm then 8 else 4)\<rparr>"

definition nfifo_reg_read :: "'d hw \<Rightarrow> 'd ppc \<Rightarrow> nfifo_instance \<Rightarrow> u32 \<Rightarrow> 'd \<Rightarrow> u32 \<times> 'd" where
  "nfifo_reg_read hw ppc inst offset d =
     (if nf_dcr inst then dcr_read ppc (nf_base inst + offset * nf_spacing inst) d
      else ioread32 hw (nf_base inst + offset * nf_spacing inst) d)"

definition nfifo_reg_write :: "'d hw \<Rightarrow> 'd ppc \<Rightarrow> nfifo_instance \<Rightarrow> u32 \<Rightarrow> u32 \<Rightarrow> 'd \<Rightarrow> 'd" where
  "nfifo_reg_write hw ppc inst offset v d =
     (if nf_dcr inst then dcr_write ppc (nf_base inst + offset * nf_spacing inst) v d
      else iowrite32 hw v (nf_base inst + offset * nf_spacing inst) d)"

definition nfifo_enable :: "'d hw \<Rightarrow> 'd ppc \<Rightarrow> nfifo_instance \<Rightarrow> bool \<Rightarrow> 'd \<Rightarrow> 'd" where
  "nfifo_enable hw ppc inst enable d =
     (let (status, d) = nfifo_reg_read hw ppc inst NFIFO_CONTROL d
      in nfifo_reg_write hw ppc inst NFIFO_CONTROL (if enable then status OR BIT 0 else status AND NOT (BIT 0)) d)"

definition nfifo_can_read :: "'d hw \<Rightarrow> 'd ppc \<Rightarrow> nfifo_instance \<Rightarrow> 'd \<Rightarrow> bool \<times> 'd" where
  "nfifo_can_read hw ppc inst d =
     (let (v, d) = nfifo_reg_read hw ppc inst NFIFO_CONTROL d in (v AND BIT 2 \<noteq> 0, d))"

definition nfifo_can_write :: "'d hw \<Rightarrow> 'd ppc \<Rightarrow> nfifo_instance \<Rightarrow> 'd \<Rightarrow> bool \<times> 'd" where
  "nfifo_can_write hw ppc inst d =
     (let (v, d) = nfifo_reg_read hw ppc inst NFIFO_CONTROL d in (v AND BIT 1 \<noteq> 0, d))"

partial_function (option) nfifo_read_from :: "'d hw \<Rightarrow> 'd ppc \<Rightarrow> nfifo_instance \<Rightarrow> u32 \<Rightarrow> u32 \<Rightarrow> 'd \<Rightarrow> (u32 \<times> 'd) option" where
  "nfifo_read_from hw ppc inst start timeout_us d =
     (let (ready, d) = nfifo_can_read hw ppc inst d
      in if ready then Some (nfifo_reg_read hw ppc inst NFIFO_DATA d)
         else let (now, d) = rumboot_platform_get_uptime hw d
              in if now - start < timeout_us then nfifo_read_from hw ppc inst start timeout_us d else Some (-1, d))"

definition nfifo_read :: "'d hw \<Rightarrow> 'd ppc \<Rightarrow> nfifo_instance \<Rightarrow> u32 \<Rightarrow> 'd \<Rightarrow> (u32 \<times> 'd) option" where
  "nfifo_read hw ppc inst timeout_us d =
     (let (start, d) = rumboot_platform_get_uptime hw d in nfifo_read_from hw ppc inst start timeout_us d)"

partial_function (option) nfifo_write :: "'d hw \<Rightarrow> 'd ppc \<Rightarrow> nfifo_instance \<Rightarrow> u32 \<Rightarrow> 'd \<Rightarrow> 'd option" where
  "nfifo_write hw ppc inst w d =
     (let (ready, d) = nfifo_can_write hw ppc inst d
      in if ready then Some (nfifo_reg_write hw ppc inst NFIFO_DATA w d) else nfifo_write hw ppc inst w d)"

definition nfifo_read_status :: "'d hw \<Rightarrow> 'd ppc \<Rightarrow> nfifo_instance \<Rightarrow> 'd \<Rightarrow> bool \<times> 'd" where
  "nfifo_read_status hw ppc inst d =
     (let (status, d) = nfifo_reg_read hw ppc inst NFIFO_CONTROL d in (status AND BIT 3 = 0, d))"

section \<open>The divisor of a port\<close>

text \<open>What the search has after the divisors below \<open>n\<close>: the first with the smallest deviation, if one deviates by less
  than the base frequency.\<close>

definition speed_found :: "(nat \<Rightarrow> int) \<Rightarrow> (nat \<Rightarrow> int) \<Rightarrow> int \<Rightarrow> nat \<Rightarrow> nat \<times> int \<times> int \<Rightarrow> bool" where
  "speed_found dev freq b n best =
     (if \<exists>k < n. dev k < b
      then \<exists>k < n. best = (k, freq k, dev k) \<and> dev k < b \<and> (\<forall>j < n. dev k \<le> dev j) \<and> (\<forall>j < k. dev k < dev j)
      else best = (0, 0, b))"

lemma speed_found_step:
  assumes "speed_found dev freq b n best"
  shows "speed_found dev freq b (Suc n) (if dev n < snd (snd best) then (n, freq n, dev n) else best)"
proof (cases "\<exists>k < n. dev k < b")
  case True
  then obtain k where k: "k < n" "best = (k, freq k, dev k)" "dev k < b" "\<forall>j < n. dev k \<le> dev j" "\<forall>j < k. dev k < dev j"
    using assms unfolding speed_found_def by auto
  have ex: "\<exists>k < Suc n. dev k < b" using k(1,3) less_SucI by blast
  show ?thesis
  proof (cases "dev n < dev k")
    case True
    have "\<forall>j < Suc n. dev n \<le> dev j" "\<forall>j < n. dev n < dev j" using True k(4) by (force simp: less_Suc_eq)+
    then show ?thesis using True k ex unfolding speed_found_def by (auto intro!: exI [of _ n])
  next
    case False
    have "\<forall>j < Suc n. dev k \<le> dev j" using False k(4) by (auto simp: less_Suc_eq)
    then show ?thesis using False k ex unfolding speed_found_def by (auto intro!: exI [of _ k])
  qed
next
  case False
  then have b: "best = (0, 0, b)" using assms unfolding speed_found_def by simp
  show ?thesis
  proof (cases "dev n < b")
    case True
    have lt: "\<forall>j < n. dev n < dev j" using True False by (meson not_less less_le_trans)
    then have "\<forall>j < Suc n. dev n \<le> dev j" by (auto simp: less_Suc_eq)
    with lt show ?thesis using True b unfolding speed_found_def by (auto intro!: exI [of _ n])
  next
    case F: False
    then have "\<not> (\<exists>k < Suc n. dev k < b)" using False by (auto simp: less_Suc_eq)
    then show ?thesis using F b unfolding speed_found_def by auto
  qed
qed

lemma speed_search:
  "speed_found (\<lambda>k. \<bar>target - cp_freq b k\<bar>) (cp_freq b) (sint b) n (fold (speed_step b target) [0..<n] (0, 0, sint b))"
proof (induction n)
  case 0
  then show ?case by (simp add: speed_found_def)
next
  case (Suc n)
  have "fold (speed_step b target) [0..<Suc n] (0, 0, sint b) =
      speed_step b target n (fold (speed_step b target) [0..<n] (0, 0, sint b))" by simp
  moreover have "speed_step b target n best =
      (if \<bar>target - cp_freq b n\<bar> < snd (snd best) then (n, cp_freq b n, \<bar>target - cp_freq b n\<bar>) else best)" for best
    by (simp add: speed_step_def Let_def)
  ultimately show ?case using speed_found_step [OF Suc] by (simp only:)
qed

text \<open>\<open>cp_set_speed\<close> takes the first of the 16 divisors whose frequency is nearest to the target and returns that
  frequency, other bits of the register are kept. If no frequency deviates by less than the base frequency, it
  sets divisor 0, the full base frequency, and returns 0.\<close>

theorem port_speed_nearest:
  shows "\<exists>k < 16. snd (cp_set_speed hw inst target d) =
      (let (v, d) = ioread32 hw (cp_base inst + RCM_CP_PHYCONFIG) d
       in iowrite32 hw ((v AND 0xfffffff0) OR of_nat k) (cp_base inst + RCM_CP_PHYCONFIG) d) \<and>
    (if \<exists>j < 16. \<bar>target - cp_freq (cp_base_freq_khz inst) j\<bar> < sint (cp_base_freq_khz inst)
     then fst (cp_set_speed hw inst target d) = cp_freq (cp_base_freq_khz inst) k \<and>
       (\<forall>j < 16. \<bar>target - cp_freq (cp_base_freq_khz inst) k\<bar> \<le> \<bar>target - cp_freq (cp_base_freq_khz inst) j\<bar>) \<and>
       (\<forall>j < k. \<bar>target - cp_freq (cp_base_freq_khz inst) k\<bar> < \<bar>target - cp_freq (cp_base_freq_khz inst) j\<bar>)
     else k = 0 \<and> fst (cp_set_speed hw inst target d) = 0)"
proof -
  let ?b = "cp_base_freq_khz inst"
  obtain k f e where best: "fold (speed_step ?b target) [0..<16] (0, 0, sint ?b) = (k, f, e)" by (metis prod_cases3)
  have r: "fst (cp_set_speed hw inst target d) = f" "snd (cp_set_speed hw inst target d) =
      (let (v, d) = ioread32 hw (cp_base inst + RCM_CP_PHYCONFIG) d
       in iowrite32 hw ((v AND 0xfffffff0) OR of_nat k) (cp_base inst + RCM_CP_PHYCONFIG) d)"
    by (simp_all add: cp_set_speed_def best Let_def split: prod.splits)
  have "speed_found (\<lambda>k. \<bar>target - cp_freq ?b k\<bar>) (cp_freq ?b) (sint ?b) 16 (k, f, e)"
    using speed_search [of target ?b 16] by (simp only: best)
  then show ?thesis unfolding speed_found_def Let_def r
    by (intro exI [of _ k]) (auto split: if_splits prod.splits)
qed

section \<open>A link that has come to rest\<close>

text \<open>A polling loop that never sees its events ends at the timeout, and has written nothing.\<close>

lemma poll_times_out:
  assumes rec: "recorded hw clk log" and t: "t \<noteq> 0"
    and step: "\<And>d. poll d = (let (status, d) = ioread32 hw addr d
        in let (go_on, d) = in_time hw t start d in if go_on then poll d else Some (e d))"
    and e: "\<And>d. log (snd (e d)) = log d @ ws" "\<And>d. fst (e d) = r"
  shows "\<exists>d'. poll d = Some (r, d') \<and> log d' = log d @ ws"
proof (induction "unat t - unat (clk d - start)" arbitrary: d rule: less_induct)
  case less
  obtain st d1 where d1: "ioread32 hw addr d = (st, d1)" by (cases "ioread32 hw addr d")
  obtain now d2 where d2: "rumboot_platform_get_uptime hw d1 = (now, d2)" by (cases "rumboot_platform_get_uptime hw d1")
  note f = recordedD(1) [OF rec d1] recordedD(4) [OF rec d2]
  have p: "poll d = (if clk d - start < t then poll d2 else Some (e d2))"
    using step [of d] f by (simp add: d1 d2 in_time_def t)
  show ?case
  proof (cases "clk d - start < t")
    case True
    have "\<exists>d'. poll d2 = Some (r, d') \<and> log d' = log d2 @ ws"
      by (rule less) (use elapsed_next [OF True] f in simp)
    then show ?thesis using p True f by simp
  next
    case False
    then show ?thesis using p e [of d2] f by (simp add: prod_eq_iff)
  qed
qed

lemma start_time_recorded:
  assumes "recorded hw clk log" "start_time hw t d = (st, d')"
  shows "log d' = log d"
  using assms(2) recordedD(4) [OF assms(1)] by (auto simp: start_time_def split: if_splits)

definition bits_clear :: "u32 \<Rightarrow> u32 \<Rightarrow> bool" where "bits_clear m v \<longleftrightarrow> v AND m = 0"

lemma bits_clearD: "bits_clear m v \<Longrightarrow> n AND m = n \<Longrightarrow> v AND n = 0"
proof -
  assume h: "bits_clear m v" and n: "n AND m = n"
  have "v AND (n AND m) = (v AND m) AND n" by (simp add: ac_simps)
  then show "v AND n = 0" using h n by (simp add: bits_clear_def)
qed

lemma tx_poll_rest:
  assumes "recorded hw clk log" "t \<noteq> 0" "reads_as hw (base + RCM_CP_CSR_TR) (bits_clear 6)"
  shows "\<exists>d'. tx_poll hw base t start d = Some (-1, d') \<and> log d' = log d"
proof -
  have st: "v AND BIT 2 = 0" "v AND BIT 1 = 0" if "ioread32 hw (base + RCM_CP_CSR_TR) d = (v, d')" for v d d'
    using bits_clearD [OF reads_asD [OF assms(3) that]] by (auto simp: BIT_def)
  have "\<exists>d'. tx_poll hw base t start d = Some (-1, d') \<and> log d' = log d @ []"
  proof (rule poll_times_out [OF assms(1,2), where e = "\<lambda>d. (-1, d)"])
    show "tx_poll hw base t start d = (let (status, d) = ioread32 hw (base + RCM_CP_CSR_TR) d
        in let (go_on, d) = in_time hw t start d in if go_on then tx_poll hw base t start d else Some (-1, d))" for d
      by (subst tx_poll.simps, cases "ioread32 hw (base + RCM_CP_CSR_TR) d") (simp add: st [simplified])
  qed simp_all
  then show ?thesis by simp
qed

lemma rx_poll_rest:
  assumes "recorded hw clk log" "t \<noteq> 0" "reads_as hw (base + RCM_CP_CSR_RCV) (bits_clear 6)"
  shows "\<exists>d'. rx_poll hw base t start d = Some (-1, d') \<and> log d' = log d"
proof -
  have st: "v AND BIT 2 = 0" "v AND BIT 1 = 0" if "ioread32 hw (base + RCM_CP_CSR_RCV) d = (v, d')" for v d d'
    using bits_clearD [OF reads_asD [OF assms(3) that]] by (auto simp: BIT_def)
  have "\<exists>d'. rx_poll hw base t start d = Some (-1, d') \<and> log d' = log d @ []"
  proof (rule poll_times_out [OF assms(1,2), where e = "\<lambda>d. (-1, d)"])
    show "rx_poll hw base t start d = (let (status, d) = ioread32 hw (base + RCM_CP_CSR_RCV) d
        in let (go_on, d) = in_time hw t start d in if go_on then rx_poll hw base t start d else Some (-1, d))" for d
      by (subst rx_poll.simps, cases "ioread32 hw (base + RCM_CP_CSR_RCV) d") (simp add: st [simplified])
  qed simp_all
  then show ?thesis by simp
qed

lemma sint_small:
  fixes w :: u32
  assumes "unat w < 2 ^ 31"
  shows "sint w = int (unat w)"
proof -
  have "int (unat w) < int (2 ^ 31)" using assms by (simp only: of_nat_less_iff)
  then have "uint w < 2 ^ 31" by simp
  moreover have "- (2 ^ 31) \<le> uint w" by (rule order_trans [OF _ uint_ge_0]) simp
  ultimately show ?thesis by (simp add: sint_uint signed_take_bit_int_eq_self)
qed

text \<open>A receiver that times out with words outstanding can be recovered exactly. On a link at rest with \<open>left\<close> words
  outstanding, \<open>cp_wait_rx\<close> returns \<open>-(left + 1)\<close>, after shutting the receiver off with its interrupts masked,
  and \<open>cp_elaborate_rx_exception\<close>, given that result, has the controller discard exactly \<open>left\<close> words before
  it resets the port.\<close>

theorem rx_timeout_recovered:
  assumes rec: "recorded hw clk log" and t: "t \<noteq> 0"
    and csr: "reads_as hw (base + RCM_CP_CSR_RCV) (bits_clear 14)"
    and left: "reads_as hw (base + RCM_CP_MAINCOUNTER_RCV) (\<lambda>v. v = left)" "left \<noteq> 0" "unat left < 2 ^ 31"
  shows "\<exists>d1 d2 irqs status. cp_wait_rx hw base t d = Some (- (int (unat left) + 1), d1) \<and>
    cp_elaborate_rx_exception hw base (- (int (unat left) + 1)) t d1 = Some (0, d2) \<and>
    log d2 = log d @
      [(base + RCM_CP_INTERRUPTMASK_RCV, 3), (base + RCM_CP_CSR_RCV, 6), (base + RCM_CP_INTERRUPTMASK_RCV, irqs),
       (base + RCM_CP_MAINCOUNTER_RCV, left), (base + RCM_CP_CSR_RCV, status OR 8), (base + RCM_CP_CSR_RCV, 0)]"
proof -
  have csr6: "reads_as hw (base + RCM_CP_CSR_RCV) (bits_clear 6)"
    using csr bits_clearD [of 14 _ 6] by (auto simp: reads_as_def bits_clear_def)
  obtain st s0 where s0: "start_time hw t d = (st, s0)" by (cases "start_time hw t d")
  obtain a0 where a0: "rx_poll hw base t st s0 = Some (-1, a0)" "log a0 = log s0"
    using rx_poll_rest [OF rec t csr6] by blast
  obtain irqs a1 where a1: "ioread32 hw (base + RCM_CP_INTERRUPTMASK_RCV) a0 = (irqs, a1)"
    by (cases "ioread32 hw (base + RCM_CP_INTERRUPTMASK_RCV) a0")
  define a2 where "a2 = iowrite32 hw 6 (base + RCM_CP_CSR_RCV) (iowrite32 hw 3 (base + RCM_CP_INTERRUPTMASK_RCV) a1)"
  obtain c a3 where a3: "ioread32 hw (base + RCM_CP_MAINCOUNTER_RCV) a2 = (c, a3)"
    by (cases "ioread32 hw (base + RCM_CP_MAINCOUNTER_RCV) a2")
  have c: "c = left" using reads_asD [OF left(1) a3] by simp
  define d1 where "d1 = iowrite32 hw irqs (base + RCM_CP_INTERRUPTMASK_RCV) a3"
  have w: "cp_wait_rx hw base t d = Some (- (int (unat left) + 1), d1)"
    using a1 a3 by (simp add: cp_wait_rx_def s0 a0 rx_shut_off_def Let_def c d1_def a2_def sint_small [OF left(3)])
  have l1: "log d1 = log d @ [(base + RCM_CP_INTERRUPTMASK_RCV, 3), (base + RCM_CP_CSR_RCV, 6), (base + RCM_CP_INTERRUPTMASK_RCV, irqs)]"
    using recordedD(1) [OF rec a1] recordedD(1) [OF rec a3] start_time_recorded [OF rec s0] a0(2)
    by (simp add: d1_def a2_def recordedD(3) [OF rec])
  let ?r = "int (unat left) + 1"
  have of: "(of_int (?r - 1) :: u32) = left" by simp
  have pos: "\<not> - ?r > 0" "\<not> ?r < 0" "?r \<noteq> 1" "- 1 \<noteq> uint left" using left(2) unat_gt_0 [of left] uint_ge_0 [of left] by linarith+
  define b1 where "b1 = iowrite32 hw left (base + RCM_CP_MAINCOUNTER_RCV) d1"
  obtain status b2 where b2: "ioread32 hw (base + RCM_CP_CSR_RCV) b1 = (status, b2)" by (cases "ioread32 hw (base + RCM_CP_CSR_RCV) b1")
  define b3 where "b3 = iowrite32 hw (status OR 8) (base + RCM_CP_CSR_RCV) b2"
  obtain st2 b4 where b4: "start_time hw t b3 = (st2, b4)" by (cases "start_time hw t b3")
  obtain v b5 where b5: "ioread32 hw (base + RCM_CP_CSR_RCV) b4 = (v, b5)" by (cases "ioread32 hw (base + RCM_CP_CSR_RCV) b4")
  have v: "v AND 8 = 0" using bits_clearD [OF reads_asD [OF csr b5]] by simp
  have e: "cp_elaborate_rx_exception hw base (- ?r) t d1 = Some (0, iowrite32 hw 0 (base + RCM_CP_CSR_RCV) b5)"
    using pos b2 b4 of by (simp add: cp_elaborate_rx_exception_def Let_def b1_def b3_def rx_clear_poll.simps b5 v)
  have "log (iowrite32 hw 0 (base + RCM_CP_CSR_RCV) b5) = log d1 @
      [(base + RCM_CP_MAINCOUNTER_RCV, left), (base + RCM_CP_CSR_RCV, status OR 8), (base + RCM_CP_CSR_RCV, 0)]"
    using recordedD(1) [OF rec b2] recordedD(1) [OF rec b5] start_time_recorded [OF rec b4]
    by (simp add: b1_def b3_def recordedD(3) [OF rec])
  then show ?thesis using w e l1 by auto
qed

text \<open>A transmitter that times out does not tell how it ended. On a link at rest with \<open>left\<close> words not sent,
  \<open>cp_wait_tx\<close> returns \<open>1 - left\<close>: with one word unsent that is 0, the value for a complete transfer, and with none
  it is the value for a failed last word. The interrupt mask is restored.\<close>

theorem tx_timeout_ambiguous:
  assumes rec: "recorded hw clk log" and t: "t \<noteq> 0"
    and csr: "reads_as hw (base + RCM_CP_CSR_TR) (bits_clear 6)"
    and left: "reads_as hw (base + RCM_CP_MAINCOUNTER_TR) (\<lambda>v. v = counter)"
      "reads_as hw (base + RCM_CP_INTERNALSTATE_TR) (\<lambda>v. v AND 0xFF = arc)" "unat (counter + arc) < 2 ^ 31"
  shows "\<exists>d' irqs. cp_wait_tx hw base t d = Some (1 - int (unat (counter + arc)), d') \<and>
    log d' = log d @ [(base + RCM_CP_INTERRUPTMASK_TR, 3), (base + RCM_CP_CSR_TR, 6), (base + RCM_CP_INTERRUPTMASK_TR, irqs)]"
proof -
  obtain st s0 where s0: "start_time hw t d = (st, s0)" by (cases "start_time hw t d")
  obtain a0 where a0: "tx_poll hw base t st s0 = Some (-1, a0)" "log a0 = log s0"
    using tx_poll_rest [OF rec t csr] by blast
  obtain irqs a1 where a1: "ioread32 hw (base + RCM_CP_INTERRUPTMASK_TR) a0 = (irqs, a1)"
    by (cases "ioread32 hw (base + RCM_CP_INTERRUPTMASK_TR) a0")
  define a2 where "a2 = iowrite32 hw 6 (base + RCM_CP_CSR_TR) (iowrite32 hw 3 (base + RCM_CP_INTERRUPTMASK_TR) a1)"
  obtain c a3 where a3: "ioread32 hw (base + RCM_CP_MAINCOUNTER_TR) a2 = (c, a3)"
    by (cases "ioread32 hw (base + RCM_CP_MAINCOUNTER_TR) a2")
  obtain e a4 where a4: "ioread32 hw (base + RCM_CP_INTERNALSTATE_TR) a3 = (e, a4)"
    by (cases "ioread32 hw (base + RCM_CP_INTERNALSTATE_TR) a3")
  have c: "c = counter" "e AND 0xFF = arc" using reads_asD [OF left(1) a3] reads_asD [OF left(2) a4] by simp_all
  have w: "cp_wait_tx hw base t d = Some (1 - int (unat (counter + arc)), iowrite32 hw irqs (base + RCM_CP_INTERRUPTMASK_TR) a4)"
    using a1 a3 a4 by (simp add: cp_wait_tx_def s0 a0 tx_shut_off_def Let_def c a2_def sint_small [OF left(3)])
  have "log (iowrite32 hw irqs (base + RCM_CP_INTERRUPTMASK_TR) a4) =
      log d @ [(base + RCM_CP_INTERRUPTMASK_TR, 3), (base + RCM_CP_CSR_TR, 6), (base + RCM_CP_INTERRUPTMASK_TR, irqs)]"
    using recordedD(1) [OF rec a1] recordedD(1) [OF rec a3] recordedD(1) [OF rec a4] start_time_recorded [OF rec s0] a0(2)
    by (simp add: a2_def recordedD(3) [OF rec])
  then show ?thesis using w by blast
qed

text \<open>A port at rest, with one word left.\<close>

definition resting :: "(u32 \<times> (u32 \<times> u32) list) hw" where
  "resting = \<lparr>hw_read32 = (\<lambda>a d. (if a = RCM_CP_MAINCOUNTER_RCV \<or> a = RCM_CP_MAINCOUNTER_TR then 1 else 0, d)),
     hw_write32 = (\<lambda>v a d. (fst d, snd d @ [(a, v)])), hw_uptime = (\<lambda>d. (fst d, fst d + 1, snd d))\<rparr>"

lemma resting_port:
  "recorded resting fst snd" "reads_as resting (0 + RCM_CP_CSR_RCV) (bits_clear 14)"
  "reads_as resting (0 + RCM_CP_CSR_TR) (bits_clear 6)"
  "reads_as resting (0 + RCM_CP_MAINCOUNTER_RCV) (\<lambda>v. v = 1)" "reads_as resting (0 + RCM_CP_MAINCOUNTER_TR) (\<lambda>v. v = 1)"
  "reads_as resting (0 + RCM_CP_INTERNALSTATE_TR) (\<lambda>v. v AND 0xFF = 0)"
  by (simp_all add: recorded_def reads_as_def bits_clear_def resting_def RCM_CP_CSR_RCV_def RCM_CP_CSR_TR_def
      RCM_CP_MAINCOUNTER_RCV_def RCM_CP_MAINCOUNTER_TR_def RCM_CP_INTERNALSTATE_TR_def)

theorem rx_timeout_recovered_witness:
  "\<exists>d1 d2. cp_wait_rx resting 0 5 (0, []) = Some (-2, d1) \<and> cp_elaborate_rx_exception resting 0 (-2) 5 d1 = Some (0, d2)"
proof -
  from rx_timeout_recovered [OF resting_port(1) _ resting_port(2,4), of 5 "(0, [])"]
  obtain d1 d2 where "cp_wait_rx resting 0 5 (0, []) = Some (- (int (unat (1 :: u32)) + 1), d1)"
    "cp_elaborate_rx_exception resting 0 (- (int (unat (1 :: u32)) + 1)) 5 d1 = Some (0, d2)" by auto
  then show ?thesis by auto
qed

theorem tx_timeout_ambiguous_witness:
  "\<exists>d'. cp_wait_tx resting 0 5 (0, []) = Some (0, d')"
  using tx_timeout_ambiguous [OF resting_port(1) _ resting_port(3,5,6), of 5 "(0, [])"] by auto

section \<open>The register check of the older driver\<close>

text \<open>\<open>com_apb_check\<close> compares the row counter of the transmitter with the value for the receiver. So on a port whose
  registers keep all values it reports an error exactly if the two values differ.\<close>

theorem apb_check_wrong_register:
  "fst (com_apb_check flat_regs base cfg d) = (if RowCounter_WR cfg = RowCounter_RD cfg then 0 else 1)"
proof -
  have e: "(ucast (RowCounter_WR cfg) :: u32) = ucast (RowCounter_RD cfg) \<longleftrightarrow> RowCounter_WR cfg = RowCounter_RD cfg"
  proof -
    have "ucast (ucast x :: u32) = x" for x :: u16 by (rule bit_word_eqI) (auto simp: bit_simps)
    then show ?thesis by metis
  qed
  show ?thesis
    by (simp add: com_apb_check_def com_simple_write_def Let_def MainCounter_tr_def Address_tr_def Bias_tr_def
        RowCounter_tr_def AddressMode_tr_def InterruptMask_tr_def MainCounter_rcv_def Address_rcv_def Bias_rcv_def
        RowCounter_rcv_def AddressMode_rcv_def InterruptMask_rcv_def e)
qed

lemma wait_com_result: "fst (wait_com_int_handled n flag) \<longleftrightarrow> flag \<noteq> 0"
  by (induction n flag rule: wait_com_int_handled.induct) (subst wait_com_int_handled.simps, simp)

text \<open>A copied flag is no signal: \<open>comp_dma_irq_run\<close> never sees an interrupt. It succeeds if both arguments are not zero
  before it starts, and fails otherwise, whatever the ports do.\<close>

theorem irq_run_sees_no_interrupt:
  "fst (comp_dma_irq_run hw src dst base0 base1 COM0_Cpl COM1_Cpl n d) = (if COM0_Cpl \<noteq> 0 \<and> COM1_Cpl \<noteq> 0 then 0 else 1)"
  by (simp add: comp_dma_irq_run_def Let_def wait_com_result comp_dma_run_rcv_def split: prod.splits)

end
