(* ===== verification/Uart.thy ===== *)
theory Uart
  imports Mdma_Run
begin

text \<open>
  The serial ports: the PL011, \<open>src/lib/drivers/uart_pl011.c\<close>, and the MUART with its own DMA channels,
  \<open>src/lib/drivers/muart.c\<close>, which uses the channel library of \<open>Mdma_Chan\<close> and \<open>Mdma_Run\<close>. Drivers of registers
  are functions on the device; \<open>None\<close> is a wait without an end or a panic of the library. Buffers are memory in
  the address space of the device. Dumps of registers are left out.
\<close>

section \<open>PL011\<close>

datatype UART_word_length = UART_word_length_5bit | UART_word_length_6bit | UART_word_length_7bit | UART_word_length_8bit

datatype UART_parity = UART_parity_even | UART_parity_odd | UART_parity_no

datatype UART_FIFO_LEVEL = UART_FIFO_LEVEL_NONE | LEVEL_1_8 | LEVEL_1_4 | LEVEL_1_2 | LEVEL_3_4 | LEVEL_7_8

definition word_length_value :: "UART_word_length \<Rightarrow> u32" where
  "word_length_value w = (case w of UART_word_length_5bit \<Rightarrow> 0 | UART_word_length_6bit \<Rightarrow> 1
     | UART_word_length_7bit \<Rightarrow> 2 | UART_word_length_8bit \<Rightarrow> 3)"

definition fifo_level_value :: "UART_FIFO_LEVEL \<Rightarrow> u32" where
  "fifo_level_value l = (case l of UART_FIFO_LEVEL_NONE \<Rightarrow> -1 | LEVEL_1_8 \<Rightarrow> 0 | LEVEL_1_4 \<Rightarrow> 1 | LEVEL_1_2 \<Rightarrow> 2
     | LEVEL_3_4 \<Rightarrow> 3 | LEVEL_7_8 \<Rightarrow> 4)"

record uart_init_params =
  up_wlen :: UART_word_length
  up_uart_sys_freq_hz :: u32
  up_baud_rate :: u32
  up_parity :: UART_parity
  up_rx_fifo_level :: UART_FIFO_LEVEL
  up_tx_fifo_level :: UART_FIFO_LEVEL
  up_int_mask :: u16
  up_use_rts_cts :: bool
  up_loopback :: bool

definition UARTDR :: u32 where "UARTDR = 0x000"
definition UARTRSR :: u32 where "UARTRSR = 0x004"
definition UARTECR :: u32 where "UARTECR = 0x004"
definition UARTFR :: u32 where "UARTFR = 0x018"
definition UARTIBRD :: u32 where "UARTIBRD = 0x024"
definition UARTFBRD :: u32 where "UARTFBRD = 0x028"
definition UARTLCR_H :: u32 where "UARTLCR_H = 0x02C"
definition UARTCR :: u32 where "UARTCR = 0x030"
definition UARTIFLS :: u32 where "UARTIFLS = 0x034"
definition UARTIMSC :: u32 where "UARTIMSC = 0x038"
definition UARTMIS :: u32 where "UARTMIS = 0x040"
definition UARTCR__UARTEN :: u32 where "UARTCR__UARTEN = BIT 0"
definition UARTCR__LBE :: u32 where "UARTCR__LBE = BIT 7"
definition UARTCR__TXE :: u32 where "UARTCR__TXE = BIT 8"
definition UARTCR__RXE :: u32 where "UARTCR__RXE = BIT 9"
definition UARTCR__RTSEN :: u32 where "UARTCR__RTSEN = BIT 14"
definition UARTCR__CTSEN :: u32 where "UARTCR__CTSEN = BIT 15"
definition UARTLCR_H__PEN :: u32 where "UARTLCR_H__PEN = BIT 1"
definition UARTLCR_H__EPS :: u32 where "UARTLCR_H__EPS = BIT 2"
definition UARTLCR_H__FEN :: u32 where "UARTLCR_H__FEN = BIT 4"
definition UARTLCR_H__WLEN :: u32 where "UARTLCR_H__WLEN = push_bit 5 3"
definition UARTLCR_H__WLEN_SHIFT :: nat where "UARTLCR_H__WLEN_SHIFT = 5"
definition UARTFR__BUSY :: u32 where "UARTFR__BUSY = BIT 3"
definition UARTFR__RXFE :: u32 where "UARTFR__RXFE = BIT 4"
definition UARTFR__TXFF :: u32 where "UARTFR__TXFF = BIT 5"
definition UARTFR__RXFF :: u32 where "UARTFR__RXFF = BIT 6"
definition UARTFR__TXFE :: u32 where "UARTFR__TXFE = BIT 7"
definition UARTIFLS_default :: u32 where "UARTIFLS_default = 0x12"

definition uart_reg_write :: "'d hw \<Rightarrow> u32 \<Rightarrow> u32 \<Rightarrow> u32 \<Rightarrow> 'd \<Rightarrow> 'd" where
  "uart_reg_write hw base reg_offset v d = iowrite32 hw v (base + reg_offset) d"

definition uart_reg_read :: "'d hw \<Rightarrow> u32 \<Rightarrow> u32 \<Rightarrow> 'd \<Rightarrow> u32 \<times> 'd" where
  "uart_reg_read hw base reg_offset d = ioread32 hw (base + reg_offset) d"

definition uart_reg_set :: "'d hw \<Rightarrow> u32 \<Rightarrow> u32 \<Rightarrow> u32 \<Rightarrow> 'd \<Rightarrow> 'd" where
  "uart_reg_set hw base reg_offset v d = iomodify32 hw (base + reg_offset) (\<lambda>reg. reg OR v) d"

definition uart_reg_clear :: "'d hw \<Rightarrow> u32 \<Rightarrow> u32 \<Rightarrow> u32 \<Rightarrow> 'd \<Rightarrow> 'd" where
  "uart_reg_clear hw base reg_offset v d = iomodify32 hw (base + reg_offset) (\<lambda>reg. reg AND NOT v) d"

definition uart_reg_check :: "'d hw \<Rightarrow> u32 \<Rightarrow> u32 \<Rightarrow> u32 \<Rightarrow> 'd \<Rightarrow> bool \<times> 'd" where
  "uart_reg_check hw base reg_offset v d =
     (let (reg, d) = ioread32 hw (base + reg_offset) d in (reg AND v = v, d))"

definition uart_flag :: "'d hw \<Rightarrow> u32 \<Rightarrow> u32 \<Rightarrow> u32 \<Rightarrow> bool \<Rightarrow> 'd \<Rightarrow> 'd" where
  "uart_flag hw base reg v enabled d =
     (if enabled then uart_reg_set hw base reg v d else uart_reg_clear hw base reg v d)"

definition uart_enable :: "'d hw \<Rightarrow> u32 \<Rightarrow> bool \<Rightarrow> 'd \<Rightarrow> 'd" where
  "uart_enable hw base enabled d = uart_flag hw base UARTCR UARTCR__UARTEN enabled d"

definition uart_rx_enable :: "'d hw \<Rightarrow> u32 \<Rightarrow> bool \<Rightarrow> 'd \<Rightarrow> 'd" where
  "uart_rx_enable hw base enabled d = uart_flag hw base UARTCR UARTCR__RXE enabled d"

definition uart_tx_enable :: "'d hw \<Rightarrow> u32 \<Rightarrow> bool \<Rightarrow> 'd \<Rightarrow> 'd" where
  "uart_tx_enable hw base enabled d = uart_flag hw base UARTCR UARTCR__TXE enabled d"

definition uart_loopback_enable :: "'d hw \<Rightarrow> u32 \<Rightarrow> bool \<Rightarrow> 'd \<Rightarrow> 'd" where
  "uart_loopback_enable hw base enabled d = uart_flag hw base UARTCR UARTCR__LBE enabled d"

definition uart_fifos_enable :: "'d hw \<Rightarrow> u32 \<Rightarrow> bool \<Rightarrow> 'd \<Rightarrow> 'd" where
  "uart_fifos_enable hw base enabled d = uart_flag hw base UARTLCR_H UARTLCR_H__FEN enabled d"

definition uart_rts_cts_enable :: "'d hw \<Rightarrow> u32 \<Rightarrow> bool \<Rightarrow> 'd \<Rightarrow> 'd" where
  "uart_rts_cts_enable hw base enabled d = uart_flag hw base UARTCR (UARTCR__RTSEN OR UARTCR__CTSEN) enabled d"

definition uart_set_parity :: "'d hw \<Rightarrow> u32 \<Rightarrow> UART_parity \<Rightarrow> 'd \<Rightarrow> 'd" where
  "uart_set_parity hw base parity_v d =
     (case parity_v of
        UART_parity_no \<Rightarrow> uart_reg_clear hw base UARTLCR_H (UARTLCR_H__PEN OR UARTLCR_H__EPS) d
      | UART_parity_even \<Rightarrow> uart_reg_set hw base UARTLCR_H (UARTLCR_H__PEN OR UARTLCR_H__EPS) d
      | UART_parity_odd \<Rightarrow>
          uart_reg_set hw base UARTLCR_H UARTLCR_H__PEN (uart_reg_clear hw base UARTLCR_H UARTLCR_H__EPS d))"

definition uart_fifos_set_rx_fifo_level :: "'d hw \<Rightarrow> u32 \<Rightarrow> UART_FIFO_LEVEL \<Rightarrow> 'd \<Rightarrow> 'd" where
  "uart_fifos_set_rx_fifo_level hw base level d = uart_reg_set hw base UARTIFLS (push_bit 3 (fifo_level_value level)) d"

definition uart_fifos_set_tx_fifo_level :: "'d hw \<Rightarrow> u32 \<Rightarrow> UART_FIFO_LEVEL \<Rightarrow> 'd \<Rightarrow> 'd" where
  "uart_fifos_set_tx_fifo_level hw base level d = uart_reg_set hw base UARTIFLS (fifo_level_value level) d"

text \<open>The divisor of the baud rate: integer and fraction. Division by \<open>0\<close>, which is undefined, gives \<open>0\<close>.\<close>

definition baud_divisors :: "u32 \<Rightarrow> u32 \<Rightarrow> u32 \<times> u32" where
  "baud_divisors uart_sys_freq_hz baudrate_hz =
     (let divisor_i = uart_sys_freq_hz div (16 * baudrate_hz);
          modulo = uart_sys_freq_hz mod (16 * baudrate_hz);
          divisor_f = ((modulo * 64 div (16 * baudrate_hz)) * 10 + 5) div 10
      in (divisor_i, divisor_f))"

definition uart_set_baudrate :: "'d hw \<Rightarrow> u32 \<Rightarrow> u32 \<Rightarrow> u32 \<Rightarrow> 'd \<Rightarrow> 'd" where
  "uart_set_baudrate hw base uart_sys_freq_hz baudrate_hz d =
     (let (divisor_i, divisor_f) = baud_divisors uart_sys_freq_hz baudrate_hz;
          d = uart_reg_write hw base UARTIBRD divisor_i d
      in uart_reg_write hw base UARTFBRD divisor_f d)"

definition uart_set_word_length :: "'d hw \<Rightarrow> u32 \<Rightarrow> UART_word_length \<Rightarrow> 'd \<Rightarrow> 'd" where
  "uart_set_word_length hw base word_length d =
     uart_reg_set hw base UARTLCR_H (push_bit UARTLCR_H__WLEN_SHIFT (word_length_value word_length))
       (uart_reg_clear hw base UARTLCR_H UARTLCR_H__WLEN d)"

definition uart_set_interrupt_mask :: "'d hw \<Rightarrow> u32 \<Rightarrow> u16 \<Rightarrow> 'd \<Rightarrow> 'd" where
  "uart_set_interrupt_mask hw base mask_v d = uart_reg_write hw base UARTIMSC (scast mask_v AND 0x7FF) d"

definition uart_init :: "'d hw \<Rightarrow> u32 \<Rightarrow> uart_init_params \<Rightarrow> 'd \<Rightarrow> 'd" where
  "uart_init hw base p d =
     (let d = uart_set_baudrate hw base (up_uart_sys_freq_hz p) (up_baud_rate p) d;
          d = uart_set_word_length hw base (up_wlen p) d;
          d = (if up_loopback p then uart_loopback_enable hw base (up_loopback p) d else d);
          d = uart_set_parity hw base (up_parity p) d;
          d = uart_set_interrupt_mask hw base (up_int_mask p) d;
          d = (if up_rx_fifo_level p \<noteq> UART_FIFO_LEVEL_NONE
               then uart_fifos_set_rx_fifo_level hw base (up_rx_fifo_level p) d else d);
          d = (if up_tx_fifo_level p \<noteq> UART_FIFO_LEVEL_NONE
               then uart_fifos_set_tx_fifo_level hw base (up_tx_fifo_level p) d else d);
          d = (if up_rx_fifo_level p \<noteq> UART_FIFO_LEVEL_NONE \<or> up_tx_fifo_level p \<noteq> UART_FIFO_LEVEL_NONE
               then uart_fifos_enable hw base True d else d)
      in if up_use_rts_cts p then uart_rts_cts_enable hw base True d else d)"

definition uart_check_rfifo_full :: "'d hw \<Rightarrow> u32 \<Rightarrow> 'd \<Rightarrow> bool \<times> 'd" where
  "uart_check_rfifo_full hw base d = uart_reg_check hw base UARTFR UARTFR__RXFF d"

definition uart_check_rfifo_empty :: "'d hw \<Rightarrow> u32 \<Rightarrow> 'd \<Rightarrow> bool \<times> 'd" where
  "uart_check_rfifo_empty hw base d = uart_reg_check hw base UARTFR UARTFR__RXFE d"

definition uart_check_tfifo_empty :: "'d hw \<Rightarrow> u32 \<Rightarrow> 'd \<Rightarrow> bool \<times> 'd" where
  "uart_check_tfifo_empty hw base d = uart_reg_check hw base UARTFR UARTFR__TXFE d"

definition uart_check_tfifo_full :: "'d hw \<Rightarrow> u32 \<Rightarrow> 'd \<Rightarrow> bool \<times> 'd" where
  "uart_check_tfifo_full hw base d = uart_reg_check hw base UARTFR UARTFR__TXFF d"

definition uart_get_recv_status :: "'d hw \<Rightarrow> u32 \<Rightarrow> 'd \<Rightarrow> u16 \<times> 'd" where
  "uart_get_recv_status hw base d = (let (v, d) = uart_reg_read hw base UARTRSR d in (ucast v, d))"

definition uart_clear_status :: "'d hw \<Rightarrow> u32 \<Rightarrow> 'd \<Rightarrow> 'd" where
  "uart_clear_status hw base d = uart_reg_write hw base UARTECR 0 d"

definition uart_get_mis :: "'d hw \<Rightarrow> u32 \<Rightarrow> 'd \<Rightarrow> u16 \<times> 'd" where
  "uart_get_mis hw base d = (let (v, d) = uart_reg_read hw base UARTMIS d in (ucast (v AND 0x7FF), d))"

definition uart_stop :: "'d hw \<Rightarrow> u32 \<Rightarrow> 'd \<Rightarrow> 'd" where
  "uart_stop hw base d = uart_fifos_enable hw base False (uart_enable hw base False d)"

definition uart_wait_busy :: "'d hw \<Rightarrow> u32 \<Rightarrow> u32 \<Rightarrow> 'd \<Rightarrow> (u32 \<times> 'd) option" where
  "uart_wait_busy hw base timeout_us d =
     map_option (\<lambda>(r, d). (case r of Some _ \<Rightarrow> 1 | None \<Rightarrow> 0, d))
       (loop_until_timeout hw timeout_us
          (\<lambda>d. let (busy, d) = uart_reg_check hw base UARTFR UARTFR__BUSY d in (if \<not> busy then Some () else None, d)) d)"

definition uart_putc :: "'d hw \<Rightarrow> u32 \<Rightarrow> u8 \<Rightarrow> u32 \<Rightarrow> 'd \<Rightarrow> (int \<times> 'd) option" where
  "uart_putc hw base test_char timeout_us d =
     map_option (\<lambda>(r, d). (case r of Some _ \<Rightarrow> 0 | None \<Rightarrow> -1, d))
       (loop_until_timeout hw timeout_us
          (\<lambda>d. let (full, d) = uart_check_tfifo_full hw base d
               in if \<not> full then (Some (), uart_reg_write hw base UARTDR (ucast test_char) d) else (None, d)) d)"

definition uart_getc :: "'d hw \<Rightarrow> u32 \<Rightarrow> u32 \<Rightarrow> 'd \<Rightarrow> (int \<times> 'd) option" where
  "uart_getc hw base timeout_us d =
     map_option (\<lambda>(r, d). (case r of Some v \<Rightarrow> v | None \<Rightarrow> -1, d))
       (loop_until_timeout hw timeout_us
          (\<lambda>d. let (no_data, d) = uart_check_rfifo_empty hw base d
               in if \<not> no_data then let (v, d) = uart_reg_read hw base UARTDR d in (Some (uint (v AND 0xFF)), d)
                  else (None, d)) d)"

section \<open>MUART: registers\<close>

datatype MUART_MODE = RS_232 | RS_485 | RS_422 | RS_TTL

definition mode_value :: "MUART_MODE \<Rightarrow> u32" where
  "mode_value m = (case m of RS_232 \<Rightarrow> 0 | RS_485 \<Rightarrow> 1 | RS_422 \<Rightarrow> 2 | RS_TTL \<Rightarrow> 3)"

text \<open>\<open>wlen\<close> and \<open>stp2\<close> by their values.\<close>

record muart_conf =
  mu_dum :: bool
  mu_wlen :: u32
  mu_stp2 :: u32
  mu_is_even :: bool
  mu_is_parity :: bool
  mu_mode :: MUART_MODE
  mu_is_loopback :: bool
  mu_baud_rate :: u32
  mu_is_dma :: bool

definition MUART_SW_RST :: u32 where "MUART_SW_RST = 0x008"
definition MUART_FIFO_STATE :: u32 where "MUART_FIFO_STATE = 0x014"
definition MUART_STATUS :: u32 where "MUART_STATUS = 0x018"
definition MUART_DTRANS :: u32 where "MUART_DTRANS = 0x020"
definition MUART_DREC :: u32 where "MUART_DREC = 0x028"
definition MUART_BDIV :: u32 where "MUART_BDIV = 0x030"
definition MUART_CTRL :: u32 where "MUART_CTRL = 0x044"
definition MUART_MEN_i :: nat where "MUART_MEN_i = 0"
definition MUART_LBE_i :: nat where "MUART_LBE_i = 1"
definition MUART_APB_MD :: nat where "MUART_APB_MD = 2"
definition MUART_MDS_i :: nat where "MUART_MDS_i = 3"
definition MUART_RTSen_i :: nat where "MUART_RTSen_i = 4"
definition MUART_CTSen_i :: nat where "MUART_CTSen_i = 5"
definition MUART_PEN_i :: nat where "MUART_PEN_i = 7"
definition MUART_EPS_i :: nat where "MUART_EPS_i = 8"
definition MUART_STP2_i :: nat where "MUART_STP2_i = 10"
definition MUART_WLEN_i :: nat where "MUART_WLEN_i = 12"
definition MUART_DUM_i :: nat where "MUART_DUM_i = 15"
definition TX_CHANNEL_R :: u32 where "TX_CHANNEL_R = 0x100"
definition RX_CHANNEL_W :: u32 where "RX_CHANNEL_W = 0x200"

definition calc_bdiv :: "u32 \<Rightarrow> u32" where
  "calc_bdiv baud_rate = (400 * 1000000 div baud_rate) div 8"

definition set_reg :: "('d, 'e) hw_scheme \<Rightarrow> u32 \<Rightarrow> u32 \<Rightarrow> u32 \<Rightarrow> 'd \<Rightarrow> 'd" where
  "set_reg hw base reg_offset v d = iowrite32 hw v (base + reg_offset) d"

definition muart_set_bit :: "('d, 'e) hw_scheme \<Rightarrow> u32 \<Rightarrow> u32 \<Rightarrow> nat \<Rightarrow> 'd \<Rightarrow> 'd" where
  "muart_set_bit hw base reg_offset bit_pos d = iomodify32 hw (base + reg_offset) (\<lambda>reg. reg OR BIT bit_pos) d"

definition reset_bit :: "('d, 'e) hw_scheme \<Rightarrow> u32 \<Rightarrow> u32 \<Rightarrow> nat \<Rightarrow> 'd \<Rightarrow> 'd" where
  "reset_bit hw base reg_offset bit_pos d = iomodify32 hw (base + reg_offset) (\<lambda>reg. reg AND NOT (BIT bit_pos)) d"

definition muart_ctrl_word :: "muart_conf \<Rightarrow> u32" where
  "muart_ctrl_word conf =
     (let ctrl = push_bit MUART_WLEN_i (mu_wlen conf) OR push_bit MUART_STP2_i (mu_stp2 conf);
          ctrl = (if mu_is_even conf then ctrl OR BIT MUART_EPS_i else ctrl);
          ctrl = (if mu_is_loopback conf then ctrl OR BIT MUART_LBE_i else ctrl);
          ctrl = (if mu_is_parity conf then ctrl OR BIT MUART_PEN_i else ctrl);
          ctrl = (case mu_mode conf of
                    RS_232 \<Rightarrow> (ctrl OR (BIT MUART_RTSen_i OR BIT MUART_CTSen_i)) OR push_bit MUART_MDS_i (mode_value (mu_mode conf))
                  | RS_485 \<Rightarrow> (ctrl OR (BIT MUART_RTSen_i AND NOT (BIT MUART_CTSen_i))) OR push_bit MUART_MDS_i (mode_value (mu_mode conf))
                  | _ \<Rightarrow> ctrl)
      in if mu_is_dma conf then (ctrl AND NOT (BIT MUART_APB_MD)) OR BIT MUART_DUM_i else ctrl OR BIT MUART_APB_MD)"

definition muart_init :: "('d, 'e) hw_scheme \<Rightarrow> u32 \<Rightarrow> muart_conf \<Rightarrow> 'd \<Rightarrow> 'd" where
  "muart_init hw base conf d =
     (let (bdiv, d) = ioread32 hw (base + MUART_BDIV) d;
          d = set_reg hw base MUART_CTRL (muart_ctrl_word conf) d
      in set_reg hw base MUART_BDIV (calc_bdiv (mu_baud_rate conf)) d)"

definition muart_enable :: "('d, 'e) hw_scheme \<Rightarrow> u32 \<Rightarrow> 'd \<Rightarrow> 'd" where
  "muart_enable hw base d = muart_set_bit hw base MUART_CTRL MUART_MEN_i d"

definition muart_disable :: "('d, 'e) hw_scheme \<Rightarrow> u32 \<Rightarrow> 'd \<Rightarrow> 'd" where
  "muart_disable hw base d = reset_bit hw base MUART_CTRL MUART_MEN_i d"

partial_function (option) muart_soft_wait :: "('d, 'e) hw_scheme \<Rightarrow> u32 \<Rightarrow> 'd \<Rightarrow> 'd option" where
  "muart_soft_wait hw base d =
     (let (v, d) = ioread32 hw (base + MUART_SW_RST) d in if v AND 1 \<noteq> 0 then muart_soft_wait hw base d else Some d)"

definition muart_soft_reset :: "('d, 'e) hw_scheme \<Rightarrow> u32 \<Rightarrow> 'd \<Rightarrow> 'd option" where
  "muart_soft_reset hw base d = muart_soft_wait hw base (set_reg hw base MUART_SW_RST 1 d)"

partial_function (option) muart_write_char :: "('d, 'e) hw_scheme \<Rightarrow> u32 \<Rightarrow> u8 \<Rightarrow> 'd \<Rightarrow> 'd option" where
  "muart_write_char hw base ch d =
     (let (v, d) = ioread32 hw (base + MUART_FIFO_STATE) d
      in if v AND 0x7ff0000 \<ge> 0x3ff0000 then muart_write_char hw base ch d
         else Some (iowrite32 hw (ucast ch) (base + MUART_DTRANS) d))"

partial_function (option) muart_read_char :: "('d, 'e) hw_scheme \<Rightarrow> u32 \<Rightarrow> 'd \<Rightarrow> (u8 \<times> 'd) option" where
  "muart_read_char hw base d =
     (let (reg, d) = ioread32 hw (base + MUART_FIFO_STATE) d
      in if reg AND 0xfff = 0 then muart_read_char hw base d
         else let (v, d) = ioread32 hw (base + MUART_DREC) d in Some (ucast v, d))"

fun write_data_apb :: "'d hw_wide \<Rightarrow> u32 \<Rightarrow> u32 \<Rightarrow> nat \<Rightarrow> 'd \<Rightarrow> 'd option" where
  "write_data_apb hw base buf 0 d = Some d"
| "write_data_apb hw base buf (Suc n) d = do {
     let (ch, d) = ioread8 hw buf d;
     d \<leftarrow> muart_write_char hw base ch d;
     write_data_apb hw base (buf + 1) n d }"

definition muart_write_data_apb :: "'d hw_wide \<Rightarrow> u32 \<Rightarrow> u32 \<Rightarrow> u32 \<Rightarrow> 'd \<Rightarrow> 'd option" where
  "muart_write_data_apb hw base buf len d = write_data_apb hw base buf (unat len) d"

fun read_data_apb :: "'d hw_wide \<Rightarrow> u32 \<Rightarrow> u32 \<Rightarrow> nat \<Rightarrow> 'd \<Rightarrow> 'd option" where
  "read_data_apb hw base buf 0 d = Some d"
| "read_data_apb hw base buf (Suc n) d = do {
     (ch, d) \<leftarrow> muart_read_char hw base d;
     read_data_apb hw base (buf + 1) n (iowrite8 hw ch buf d) }"

definition muart_read_data_apb :: "'d hw_wide \<Rightarrow> u32 \<Rightarrow> u32 \<Rightarrow> u32 \<Rightarrow> 'd \<Rightarrow> 'd option" where
  "muart_read_data_apb hw base buf len d = read_data_apb hw base buf (unat len) d"

section \<open>MUART: channels\<close>

text \<open>The configuration of the channels; \<open>junk\<close> is what the members have that the code does not set.\<close>

definition muart_cfg :: "u32 \<Rightarrow> mdma_cfg \<Rightarrow> mdma_cfg" where
  "muart_cfg kind junk = junk\<lparr>cf_mode := MDMA_CHAN_POLLING, cf_desc_kind := kind, cf_heap_id := 1,
     cf_burst_width := MDMA_BURST_WIDTH4, cf_event_indx := -1, cf_add_info := True, cf_addr_inc := True\<rparr>"

text \<open>A channel at \<open>regs\<close> with a queue of one group for the buffer: an error code and the channel.\<close>

definition muart_prepare ::
  "'d hw_wide \<Rightarrow> mdma_cfg \<Rightarrow> u32 \<Rightarrow> u32 \<Rightarrow> u32 \<Rightarrow> 'd mdma_sys \<Rightarrow> (int \<times> u32 \<times> 'd mdma_sys) option" where
  "muart_prepare hw junk regs buf len s = do {
     (chan, s) \<leftarrow> mdma_chan_create regs (Some (muart_cfg LONG_DESC junk)) s;
     if chan = 0 then Some (-2, chan, s)
     else do {
       (r, s) \<leftarrow> mdma_trans_create chan MDMA_TRANS_QUEUE s;
       if r \<noteq> 0 then Some (-4, chan, s)
       else do {
         (r, s) \<leftarrow> mdma_trans_add_group chan buf len 0 True s;
         if r \<noteq> 0 then Some (-7, chan, s)
         else do {
           (r, s) \<leftarrow> mdma_chan_config (hw.truncate hw) chan s;
           Some (if r \<noteq> 0 then -8 else 0, chan, s) } } } }"

definition muart_set_chan_mdma_W ::
  "'d hw_wide \<Rightarrow> mdma_cfg \<Rightarrow> u32 \<Rightarrow> u32 \<Rightarrow> u32 \<Rightarrow> 'd mdma_sys \<Rightarrow> (u32 \<times> 'd mdma_sys) option" where
  "muart_set_chan_mdma_W hw junk base buf len s = do {
     (ret, wrc, s) \<leftarrow> muart_prepare hw junk (base + RX_CHANNEL_W) buf len s;
     if ret < 0 then do { s \<leftarrow> mdma_chan_destroy (hw.truncate hw) wrc s; Some (0, s) }
     else Some (wrc, s) }"

definition muart_set_chan_mdma_R ::
  "'d hw_wide \<Rightarrow> mdma_cfg \<Rightarrow> u32 \<Rightarrow> u32 \<Rightarrow> u32 \<Rightarrow> 'd mdma_sys \<Rightarrow> (u32 \<times> 'd mdma_sys) option" where
  "muart_set_chan_mdma_R hw junk base buf len s = do {
     (ret, rdc, s) \<leftarrow> muart_prepare hw junk (base + TX_CHANNEL_R) buf len s;
     if ret < 0 then do { s \<leftarrow> mdma_chan_destroy (hw.truncate hw) rdc s; Some (0, s) }
     else Some (rdc, s) }"

definition muart_finish_transmit_mdma :: "'d hw_wide \<Rightarrow> u32 \<Rightarrow> u32 \<Rightarrow> 'd mdma_sys \<Rightarrow> 'd mdma_sys option" where
  "muart_finish_transmit_mdma hw rdc wrc s = do {
     (_, s) \<leftarrow> mdma_chan_reset (hw.truncate hw) rdc s;
     (_, s) \<leftarrow> mdma_chan_reset (hw.truncate hw) wrc s;
     s \<leftarrow> mdma_chan_destroy (hw.truncate hw) wrc s;
     mdma_chan_destroy (hw.truncate hw) rdc s }"

text \<open>\<open>a || b\<close> and the like on steps: the second runs if the first returned \<open>0\<close>; the result is whether one did not.\<close>

definition fails_one ::
  "('s \<Rightarrow> (int \<times> 's) option) \<Rightarrow> ('s \<Rightarrow> (int \<times> 's) option) \<Rightarrow> 's \<Rightarrow> (bool \<times> 's) option" where
  "fails_one f g s = do {
     (r, s) \<leftarrow> f s;
     if r \<noteq> 0 then Some (True, s) else do { (r, s) \<leftarrow> g s; Some (r \<noteq> 0, s) } }"

fun compare_bytes :: "'d hw_wide \<Rightarrow> u32 \<Rightarrow> u32 \<Rightarrow> nat \<Rightarrow> 'd \<Rightarrow> int \<times> 'd" where
  "compare_bytes hw dst src 0 d = (0, d)"
| "compare_bytes hw dst src (Suc n) d =
     (let (x, d) = ioread8 hw dst d; (y, d) = ioread8 hw src d
      in if x \<noteq> y then (-13, d) else compare_bytes hw (dst + 1) (src + 1) n d)"

text \<open>The state of both ports is read for a message.\<close>

definition report_ports :: "'d hw_wide \<Rightarrow> u32 \<Rightarrow> u32 \<Rightarrow> 'd mdma_sys \<Rightarrow> 'd mdma_sys" where
  "report_ports hw src_base dst_base s =
     (let rd = (\<lambda>a s. snd (mdma_chan_read32 (hw.truncate hw) a s))
      in rd (dst_base + MUART_STATUS) (rd (dst_base + MUART_FIFO_STATE)
           (rd (src_base + MUART_STATUS) (rd (src_base + MUART_FIFO_STATE) s))))"

text \<open>From the start of both channels to the comparison; what follows is the clean-up from label 5 on.\<close>

definition muart_run ::
  "'d hw_wide \<Rightarrow> u32 \<Rightarrow> u32 \<Rightarrow> u32 \<Rightarrow> u32 \<Rightarrow> u32 \<Rightarrow> u32 \<Rightarrow> u32 \<Rightarrow> 'd mdma_sys \<Rightarrow> (int \<times> 'd mdma_sys) option" where
  "muart_run hw src_base dst_base src_addr dst_addr len rdc wrc s = do {
     (r, s) \<leftarrow> mdma_chan_start (hw.truncate hw) wrc s;
     if r \<noteq> 0 then Some (-9, s)
     else do {
       s \<leftarrow> mdma_udelay (hw.truncate hw) 1 s;
       let s = report_ports hw src_base dst_base s;
       (r, s) \<leftarrow> mdma_chan_start (hw.truncate hw) rdc s;
       if r \<noteq> 0 then Some (-9, s)
       else do {
         s \<leftarrow> mdma_udelay (hw.truncate hw) 1 s;
         let s = report_ports hw src_base dst_base s;
         (r, s) \<leftarrow> mdma_chan_wait_trans_end (hw.truncate hw) wrc 1000 s;
         if r \<noteq> 0 then Some (-10, s)
         else do {
           (st, s) \<leftarrow> mdma_chan_get_state (hw.truncate hw) wrc s;
           if st \<noteq> Some MDMA_CHAN_DUMMY then Some (-11, s)
           else do {
             (st, s) \<leftarrow> mdma_chan_get_state (hw.truncate hw) rdc s;
             if st \<noteq> Some MDMA_CHAN_DUMMY then Some (-12, s)
             else let (r, d) = compare_bytes hw dst_addr src_addr (unat len) (md_dev s)
                  in Some (r, s\<lparr>md_dev := d\<rparr>) } } } } }"

definition muart_transmit_data_throught_mdma ::
  "'d hw_wide \<Rightarrow> mdma_cfg \<Rightarrow> u32 \<Rightarrow> u32 \<Rightarrow> u32 \<Rightarrow> u32 \<Rightarrow> u32 \<Rightarrow> 'd mdma_sys \<Rightarrow> (int \<times> 'd mdma_sys) option" where
  "muart_transmit_data_throught_mdma hw junk src_base dst_base src_addr dst_addr len s = do {
     let cfg = muart_cfg NORMAL_DESC junk;
     (rdc, s) \<leftarrow> mdma_chan_create (src_base + TX_CHANNEL_R) (Some cfg) s;
     if rdc = 0 then do { s \<leftarrow> mdma_chan_destroy (hw.truncate hw) rdc s; Some (-1, s) }
     else do {
       (wrc, s) \<leftarrow> mdma_chan_create (dst_base + RX_CHANNEL_W) (Some cfg) s;
       (ret, s) \<leftarrow>
         (if wrc = 0 then Some (-2, s)
          else do {
            (r, s) \<leftarrow> mdma_trans_create rdc MDMA_TRANS_QUEUE s;
            if r \<noteq> 0 then Some (-3, s)
            else do {
              (r, s) \<leftarrow> mdma_trans_create wrc MDMA_TRANS_QUEUE s;
              if r \<noteq> 0 then Some (-4, s)
              else do {
                (failed, s) \<leftarrow> fails_one (mdma_trans_add_group rdc src_addr len 0 True)
                                 (mdma_trans_add_group wrc dst_addr len 0 True) s;
                if failed then Some (-7, s)
                else do {
                  (failed, s) \<leftarrow> fails_one (mdma_chan_config (hw.truncate hw) rdc)
                                   (mdma_chan_config (hw.truncate hw) wrc) s;
                  if failed then Some (-8, s)
                  else do {
                    (ret, s) \<leftarrow> muart_run hw src_base dst_base src_addr dst_addr len rdc wrc s;
                    (_, s) \<leftarrow> mdma_chan_reset (hw.truncate hw) rdc s;
                    (_, s) \<leftarrow> mdma_chan_reset (hw.truncate hw) wrc s;
                    Some (ret, s) } } } } });
       s \<leftarrow> mdma_chan_destroy (hw.truncate hw) wrc s;
       s \<leftarrow> mdma_chan_destroy (hw.truncate hw) rdc s;
       Some (ret, s) } }"

section \<open>Configuration leaves the structure of transfers alone\<close>

definition strip_group :: "mdma_group \<Rightarrow> mdma_group" where
  "strip_group g = g\<lparr>gr_cur_indx := 0, gr_group_done := False\<rparr>"

definition strip_trans :: "mdma_trans \<Rightarrow> mdma_trans" where
  "strip_trans t = t\<lparr>tr_cur_group := 0, tr_next_group := 0, tr_group_wait := 0, tr_ignore_event := False\<rparr>"

definition strip_chan :: "mdma_chan \<Rightarrow> mdma_chan" where
  "strip_chan c = c\<lparr>ch_state := MDMA_CHAN_DUMMY, ch_error := CHAN_NONE_ERR\<rparr>"

definition same_shape :: "'d mdma_sys \<Rightarrow> 'd mdma_sys \<Rightarrow> bool" where
  "same_shape s s' \<longleftrightarrow> md_nodes s' = md_nodes s \<and> md_heaps s' = md_heaps s \<and>
     (\<forall>a. map_option strip_group (md_groups s' a) = map_option strip_group (md_groups s a)) \<and>
     (\<forall>a. map_option strip_trans (md_trans s' a) = map_option strip_trans (md_trans s a)) \<and>
     (\<forall>a. map_option strip_chan (md_chans s' a) = map_option strip_chan (md_chans s a))"

lemma same_shape_refl [simp]: "same_shape s s"
  by (simp add: same_shape_def)

lemma same_shape_trans: "same_shape s s' \<Longrightarrow> same_shape s' s'' \<Longrightarrow> same_shape s s''"
  by (simp add: same_shape_def)

lemma same_objs_shape: "same_objs s s' \<Longrightarrow> same_shape s s'"
  by (simp add: same_objs_def same_shape_def)

lemma upd_shape:
  "upd_group a f s = Some s' \<Longrightarrow> (\<And>g. strip_group (f g) = strip_group g) \<Longrightarrow> same_shape s s'"
  "upd_trans a f2 s = Some s' \<Longrightarrow> (\<And>t. strip_trans (f2 t) = strip_trans t) \<Longrightarrow> same_shape s s'"
  "upd_chan a f3 s = Some s' \<Longrightarrow> (\<And>c. strip_chan (f3 c) = strip_chan c) \<Longrightarrow> same_shape s s'"
  by (auto simp: upd_group_def upd_trans_def upd_chan_def same_shape_def Option.bind_eq_Some_conv)

lemma write32_shape [simp]: "same_shape s (mdma_chan_write32 hw v a s)"
  by (rule same_objs_shape) (simp add: mdma_chan_write32_def same_objs_def)

lemma chan_set_desc_shape:
  assumes "chan_set_desc hw n cfg s = Some (r, s')"
  shows "same_shape s s'"
  using assms
  by (auto simp: chan_set_desc_def mdma_chan_write32_def same_shape_def Let_def Option.bind_eq_Some_conv split: if_splits)

lemma config_nodes_shape: "config_nodes hw cfg ns s = Some (r, s') \<Longrightarrow> same_shape s s'"
proof (induction ns arbitrary: s)
  case (Cons n ns)
  then obtain q s1 where 1: "chan_set_desc hw n cfg s = Some (q, s1)"
    "(if q \<noteq> 0 then Some (-5, s1) else config_nodes hw cfg ns s1) = Some (r, s')"
    by (auto simp: Option.bind_eq_Some_conv)
  show ?case using chan_set_desc_shape [OF 1(1)] 1(2) Cons.IH [of s1] same_shape_trans by (auto split: if_splits)
qed simp

lemma config_groups_shape: "config_groups hw cfg t gs s = Some (r, s') \<Longrightarrow> same_shape s s'"
proof (induction gs arbitrary: s)
  case (Cons gp gs)
  show ?case
  proof (cases "r = -4 \<and> s' = s")
    case False
    obtain g where g: "md_groups s gp = Some g" using Cons.prems by (auto simp: Option.bind_eq_Some_conv)
    obtain q s1 ns where 1: "config_nodes hw cfg ns s = Some (q, s1)"
      "(if q \<noteq> 0 then Some (q, s1) else do {
          s \<leftarrow> upd_group gp (\<lambda>g. g\<lparr>gr_cur_indx := 0, gr_group_done := False\<rparr>) s1;
          config_groups hw cfg t gs s }) = Some (r, s')"
      using Cons.prems False g by (auto simp: Option.bind_eq_Some_conv split: if_splits)
    note n = config_nodes_shape [OF 1(1)]
    show ?thesis
    proof (cases "q = 0")
      case True
      then obtain s2 where 2: "upd_group gp (\<lambda>g. g\<lparr>gr_cur_indx := 0, gr_group_done := False\<rparr>) s1 = Some s2"
        "config_groups hw cfg t gs s2 = Some (r, s')" using 1(2) by (auto simp: Option.bind_eq_Some_conv)
      have "same_shape s1 s2" by (rule upd_shape(1) [OF 2(1)]) (simp add: strip_group_def)
      then show ?thesis using n Cons.IH [OF 2(2)] same_shape_trans by blast
    qed (use 1(2) n in simp)
  qed simp
qed simp

lemma progress_shape:
  assumes "progress_loop hw tr n s = Some s'"
  shows "same_shape s s'"
  using assms
proof (induction n arbitrary: s)
  case (Suc n)
  obtain t g where t: "md_trans s tr = Some t" "md_groups s (tr_next_group t) = Some g"
    using Suc.prems by (auto simp: Option.bind_eq_Some_conv)
  obtain val s1 where rd: "mdma_chan_read32 hw (gr_desc_pool_addr g + (gr_desc_pool_size g - 4)) s = (val, s1)"
    by (cases "mdma_chan_read32 hw (gr_desc_pool_addr g + (gr_desc_pool_size g - 4)) s")
  note same = same_objs_shape [OF same_objs_read32 [OF rd]]
  consider "s' = s" | "s' = s1" | s2 s3 nxt where "upd_group (tr_next_group t) (\<lambda>g. g\<lparr>gr_group_done := True\<rparr>) s1 = Some s2"
        "upd_trans tr (\<lambda>t. t\<lparr>tr_group_wait := tr_group_wait t + 1, tr_next_group := nxt\<rparr>) s2 = Some s3"
        "progress_loop hw tr n s3 = Some s'"
    using Suc.prems unfolding progress_loop.simps t bind.bind_lunit
    by (auto simp: rd Let_def Option.bind_eq_Some_conv split: if_splits)
  then show ?case
  proof cases
    case (3 s2 s3 nxt)
    have "same_shape s1 s2" by (rule upd_shape(1) [OF 3(1)]) (simp add: strip_group_def)
    moreover have "same_shape s2 s3" by (rule upd_shape(2) [OF 3(2)]) (simp add: strip_trans_def)
    ultimately show ?thesis using same Suc.IH [OF 3(3)] same_shape_trans by blast
  qed (use same in simp_all)
qed simp

lemma chan_rd_shape: "same_shape s (snd (chan_rd hw c off s))"
  by (rule same_objs_shape, rule same_objs_rd [of hw c off s "fst (chan_rd hw c off s)"]) simp

lemma chan_progress_shape:
  assumes "chan_trans_progress hw chan b s = Some (n, s')"
  shows "same_shape s s'"
proof (cases "s' = s")
  case False
  obtain c t where c: "md_chans s chan = Some c" "md_trans s (ch_trans c) = Some t" "ch_trans c \<noteq> 0" "chan \<noteq> 0" "\<not> b < 0"
    "\<not> (tr_first_group t = 0 \<or> tr_last_group t = 0)"
    using assms False by (auto simp: chan_trans_progress_def Option.bind_eq_Some_conv split: if_splits)
  obtain fl s1 where rd: "chan_rd hw c reg_irq_mask s = (fl, s1)" by (cases "chan_rd hw c reg_irq_mask s")
  define nxt where "nxt = (if tr_cur_group t = 0 then 0 else if tr_next_group t = 0 then tr_cur_group t else tr_next_group t)"
  obtain s2 s3 where 1: "upd_trans (ch_trans c) (\<lambda>t. t\<lparr>tr_next_group := nxt\<rparr>) (chan_wr hw c 0 reg_irq_mask s1) = Some s2"
    "(if b = 0 \<or> nxt = 0 then Some s2 else progress_loop hw (ch_trans c) (nat b) s2) = Some s3"
    "s' = chan_wr hw c fl reg_irq_mask s3"
    using assms c rd by (auto simp: chan_trans_progress_def Let_def nxt_def Option.bind_eq_Some_conv)
  have "same_shape s s1" by (rule same_objs_shape [OF same_objs_rd [OF rd]])
  moreover have "same_shape s1 (chan_wr hw c 0 reg_irq_mask s1)" "same_shape s3 s'"
    by (simp_all add: 1(3) same_objs_shape)
  moreover have "same_shape (chan_wr hw c 0 reg_irq_mask s1) s2" by (rule upd_shape(2) [OF 1(1)]) (simp add: strip_trans_def)
  moreover have "same_shape s2 s3" using 1(2) progress_shape by (auto split: if_splits)
  ultimately show ?thesis using same_shape_trans by blast
qed simp

lemma config_events_shape:
  assumes "config_events hw c p s = Some (r, s')"
  shows "same_shape s s'"
proof -
  have w: "same_shape s0 (chan_wr hw c v off s0)" for s0 v off by (simp add: same_objs_shape)
  have rd: "same_shape s0 s1" if "chan_rd hw c off s0 = (v, s1)" for s0 s1 off v
    using chan_rd_shape [of s0 hw c off] that by simp
  have "\<exists>s1. same_shape s s1 \<and> (s' = s \<or> same_shape s1 s')"
  proof (cases "s' = s")
    case False
    let ?cfg = "ch_cfg c"
    obtain sa where sa: "same_shape s sa" and rest: "do {
        let (prior_h, s) = chan_rd hw c reg_events_prior_h sa;
        let (prior_l, s) = chan_rd hw c reg_events_prior_l s;
        i \<leftarrow> event_of_prior (cf_event_prior ?cfg) (prior_l, prior_h);
        let s = (if i \<noteq> nat (cf_event_indx ?cfg) then
                   (let p = swap_prior (nat (cf_event_indx ?cfg)) (cf_event_prior ?cfg) i (prior_l, prior_h)
                    in chan_wr hw c (snd p) reg_events_prior_h (chan_wr hw c (fst p) reg_events_prior_l s))
                 else s);
        Some (0, chan_wr hw c p (reg_event_desc_addr (cf_event_prior ?cfg)) s) } = Some (r, s')"
      using assms False unfolding config_events_def Let_def
      apply (simp split: if_splits del: split_paired_Ex)
      by (meson w chan_rd_shape same_shape_trans)+
    obtain ph s1 where 1: "chan_rd hw c reg_events_prior_h sa = (ph, s1)" by (cases "chan_rd hw c reg_events_prior_h sa")
    obtain pl s2 where 2: "chan_rd hw c reg_events_prior_l s1 = (pl, s2)" by (cases "chan_rd hw c reg_events_prior_l s1")
    have "same_shape s2 s'" using rest 1 2
      by (auto simp: Let_def Option.bind_eq_Some_conv split: if_splits intro: w same_shape_trans [OF w] same_shape_trans [OF same_shape_trans [OF w w] w])
    then show ?thesis using sa rd [OF 1] rd [OF 2] same_shape_trans by blast
  qed (use same_shape_refl in blast)
  then show ?thesis using same_shape_trans same_shape_refl by blast
qed

lemma config_shape:
  assumes c: "md_chans s chan = Some c" and t: "md_trans s (ch_trans c) = Some t"
    and call: "mdma_chan_config hw chan s = Some (0, s')"
  shows "same_shape s s'" "tr_last_group t \<noteq> 0"
proof -
  have n: "chan \<noteq> 0" "ch_state c = MDMA_CHAN_DUMMY" "ch_trans c \<noteq> 0" "tr_last_group t \<noteq> 0"
    using call c t by (auto simp: mdma_chan_config_def Let_def split: if_splits)
  then show "tr_last_group t \<noteq> 0" by simp
  obtain s1 where s1: "config_groups hw (ch_cfg c) t (tr_group_list t) s = Some (0, s1)"
    using call c t n by (auto simp: mdma_chan_config_def Let_def Option.bind_eq_Some_conv split: if_splits)
  obtain s2 where s2: "upd_trans (ch_trans c) (\<lambda>t. t\<lparr>tr_cur_group := tr_first_group t, tr_next_group := 0,
       tr_group_wait := 0, tr_ignore_event := False\<rparr>) s1 = Some s2"
    using call c t n s1 by (auto simp: mdma_chan_config_def Let_def Option.bind_eq_Some_conv split: if_splits)
  have w: "same_shape u (chan_wr hw c v off u)" for u v off by (simp add: same_objs_shape)
  have w3: "same_shape s2 (chan_wr hw c v1 o1 (chan_wr hw c v2 o2 (chan_wr hw c v3 o3 s2)))" for v1 o1 v2 o2 v3 o3
    by (rule same_shape_trans [OF w same_shape_trans [OF w w]])
  obtain s3 s4 q where s3: "same_shape s2 s3" "config_events hw c q s3 = Some (0, s4)"
    "do { (_, s) \<leftarrow> chan_trans_progress hw chan (int (tr_group_nmb t)) (snd (chan_rd hw c reg_status s4));
          s \<leftarrow> upd_chan chan (\<lambda>c. c\<lparr>ch_state := MDMA_CHAN_READY, ch_error := CHAN_NONE_ERR\<rparr>) s;
          Some (0 :: int, s) } = Some (0, s')"
    using call c t n s1 s2 that [OF w3]
    by (auto simp: mdma_chan_config_def Let_def Option.bind_eq_Some_conv split: if_splits)
  obtain k s5 where s5: "chan_trans_progress hw chan (int (tr_group_nmb t)) (snd (chan_rd hw c reg_status s4)) = Some (k, s5)"
    "upd_chan chan (\<lambda>c. c\<lparr>ch_state := MDMA_CHAN_READY, ch_error := CHAN_NONE_ERR\<rparr>) s5 = Some s'"
    using s3(3) by (auto simp: Option.bind_eq_Some_conv)
  have "same_shape s1 s2" by (rule upd_shape(2) [OF s2]) (simp add: strip_trans_def)
  moreover have "same_shape s5 s'" by (rule upd_shape(3) [OF s5(2)]) (simp add: strip_chan_def)
  ultimately show "same_shape s s'"
    using config_groups_shape [OF s1] s3(1) config_events_shape [OF s3(2)] chan_rd_shape [of s4 hw c reg_status]
      chan_progress_shape [OF s5(1)] same_shape_trans by blast
qed

lemma views_alt:
  "node_array s gp = (case map_option gr_node_group (md_groups s gp) of None \<Rightarrow> [] | Some a \<Rightarrow>
     (case md_nodes s a of None \<Rightarrow> [] | Some ns \<Rightarrow> ns))"
  "pool_of s gp = (case map_option gr_desc_pool_addr (md_groups s gp) of None \<Rightarrow> 0 | Some a \<Rightarrow> a)"
  "groups_of s chan = (case map_option ch_trans (md_chans s chan) of None \<Rightarrow> [] | Some tr \<Rightarrow>
     (case map_option tr_group_list (md_trans s tr) of None \<Rightarrow> [] | Some gs \<Rightarrow> gs))"
  by (simp_all add: node_array_def pool_of_def groups_of_def split: option.split)

lemma map_option_view:
  assumes "map_option strip x' = map_option strip x" "\<And>y. f (strip y) = f y"
  shows "map_option f x' = map_option f x"
proof (cases x)
  case (Some y)
  then obtain y' where y': "x' = Some y'" "strip y' = strip y" using assms(1) by (cases x') auto
  then have "f y' = f y" using assms(2) by metis
  then show ?thesis using Some y' by simp
qed (use assms(1) in simp)

lemma shape_views:
  assumes "same_shape s s'"
  shows "node_array s' = node_array s" "pool_of s' = pool_of s" "groups_of s' = groups_of s"
proof -
  note sh = assms [unfolded same_shape_def]
  have g: "map_option gr_node_group (md_groups s' a) = map_option gr_node_group (md_groups s a)"
    "map_option gr_desc_pool_addr (md_groups s' a) = map_option gr_desc_pool_addr (md_groups s a)"
    "map_option ch_trans (md_chans s' a) = map_option ch_trans (md_chans s a)"
    "map_option tr_group_list (md_trans s' a) = map_option tr_group_list (md_trans s a)" for a
  proof -
    have e: "map_option strip_group (md_groups s' a) = map_option strip_group (md_groups s a)"
      "map_option strip_chan (md_chans s' a) = map_option strip_chan (md_chans s a)"
      "map_option strip_trans (md_trans s' a) = map_option strip_trans (md_trans s a)" using sh by simp_all
    show "map_option gr_node_group (md_groups s' a) = map_option gr_node_group (md_groups s a)"
      by (rule map_option_view [OF e(1)]) (simp add: strip_group_def)
    show "map_option gr_desc_pool_addr (md_groups s' a) = map_option gr_desc_pool_addr (md_groups s a)"
      by (rule map_option_view [OF e(1)]) (simp add: strip_group_def)
    show "map_option ch_trans (md_chans s' a) = map_option ch_trans (md_chans s a)"
      by (rule map_option_view [OF e(2)]) (simp add: strip_chan_def)
    show "map_option tr_group_list (md_trans s' a) = map_option tr_group_list (md_trans s a)"
      by (rule map_option_view [OF e(3)]) (simp add: strip_trans_def)
  qed
  have n: "md_nodes s' = md_nodes s" using sh by simp
  show "node_array s' = node_array s" by (rule ext) (simp only: views_alt g n)
  show "pool_of s' = pool_of s" by (rule ext) (simp only: views_alt g n)
  show "groups_of s' = groups_of s" by (rule ext) (simp only: views_alt g n)
qed

text \<open>The channel that \<open>muart_prepare\<close> makes.\<close>

lemma prepare_walk:
  assumes fit: "heaps_fit (md_heaps s)" and run: "muart_prepare hw junk regs buf len s = Some (0, chan, s')"
  shows "\<exists>c t ns. md_chans s' chan = Some c \<and> md_trans s' (ch_trans c) = Some t \<and>
    buffer_nodes (muart_cfg LONG_DESC junk) buf len ns \<and>
    dma_walk s' (groups_of s' chan) (length (groups_of s' chan)) (pool_of s' (tr_first_group t)) = (ns, True)"
proof -
  let ?cfg = "muart_cfg LONG_DESC junk"
  obtain s1 s2 s3 where 1: "mdma_chan_create regs (Some ?cfg) s = Some (chan, s1)" "chan \<noteq> 0"
    and 2: "mdma_trans_create chan MDMA_TRANS_QUEUE s1 = Some (0, s2)"
    and 3: "mdma_trans_add_group chan buf len 0 True s2 = Some (0, s3)"
    and 4: "mdma_chan_config (hw.truncate hw) chan s3 = Some (0, s')"
    using run by (auto simp: muart_prepare_def Option.bind_eq_Some_conv split: if_splits)
  obtain s0 where m: "mdma_malloc sizeof_mdma_chan s = Some (chan, s0)" and c1: "md_chans s1 chan = Some
      \<lparr>ch_regs = regs, ch_state = MDMA_CHAN_DUMMY, ch_error = CHAN_NONE_ERR, ch_cfg = ?cfg,
       ch_trans = 0, ch_slave = 0, ch_master = 0\<rparr>" and h1: "md_heaps s1 = md_heaps s0"
    using 1 by (auto simp: mdma_chan_create_def Option.bind_eq_Some_conv split: if_splits)
  have fit1: "heaps_fit (md_heaps s1)"
    using mdma_malloc_fresh [OF m fit] h1 by (auto simp: sizeof_mdma_chan_def grown_def)
  note i2 = trans_create_inv [OF c1 fit1 2]
  have "\<exists>c t. md_chans s2 chan = Some c \<and> ch_cfg c = ?cfg \<and> md_trans s2 (ch_trans c) = Some t \<and> tr_trans_type t = MDMA_TRANS_QUEUE"
    using 2 c1 by (auto simp: mdma_trans_create_def Option.bind_eq_Some_conv upd_chan_def mdma_malloc_def split: if_splits)
  then obtain c t2 where c: "md_chans s2 chan = Some c" "ch_cfg c = ?cfg" and t2: "md_trans s2 (ch_trans c) = Some t2"
    "tr_trans_type t2 = MDMA_TRANS_QUEUE" by blast
  from add_group_inv [OF conjunct1 [OF i2] c(1) 3] i2 c(2) obtain ns where i3: "trans_inv s3 chan"
    "md_chans s3 = md_chans s2" "segments s3 chan = ns" "buffer_nodes ?cfg buf len ns" by auto
  obtain t where t: "md_trans s3 (ch_trans c) = Some t" "tr_trans_type t = MDMA_TRANS_QUEUE"
    using add_group_type [OF conjunct1 [OF i2] c(1) t2(1) 3] t2(2) by auto
  have wf: "trans_wf s3 c t" using i3(1,2) c(1) t(1) by (auto simp: trans_inv_def trans_wf_def)
  have c3: "md_chans s3 chan = Some c" using i3(2) c(1) by simp
  note sh = config_shape [OF c3 t(1) 4]
  have w: "dma_walk s3 (groups_of s3 chan) (length (groups_of s3 chan)) (pool_of s3 (tr_first_group t)) = (ns, True)"
    using closed_queue_walk [OF wf c3 sh(2) t(2)] i3(3) by simp
  have dw: "dma_walk s' gs k p = dma_walk s3 gs k p" for gs k p
    by (induction k arbitrary: p) (simp_all add: shape_views [OF sh(1)] cong: option.case_cong)
  obtain c' where c': "md_chans s' chan = Some c'" "ch_trans c' = ch_trans c"
  proof -
    have "map_option ch_trans (md_chans s' chan) = map_option ch_trans (md_chans s3 chan)"
      by (rule map_option_view [where strip = strip_chan]) (use sh(1) in \<open>simp_all add: same_shape_def strip_chan_def\<close>)
    then show ?thesis using that c3 by auto
  qed
  obtain t' where t': "md_trans s' (ch_trans c) = Some t'" "tr_first_group t' = tr_first_group t"
  proof -
    have "map_option tr_first_group (md_trans s' (ch_trans c)) = map_option tr_first_group (md_trans s3 (ch_trans c))"
      by (rule map_option_view [where strip = strip_trans]) (use sh(1) in \<open>simp_all add: same_shape_def strip_trans_def\<close>)
    then show ?thesis using that t(1) by auto
  qed
  show ?thesis
    using c' t' i3(4) w by (intro exI [of _ c'] exI [of _ t'] exI [of _ ns]) (simp add: dw shape_views [OF sh(1)])
qed

text \<open>The channels of the MUART move exactly the buffer. When \<open>muart_set_chan_mdma_W\<close> or \<open>_R\<close> returns a channel, a
  controller that follows the descriptors from the first group executes data segments that cover the buffer
  without gap or overlap, each within the limit of a descriptor, and stops.\<close>

theorem muart_channel_covers_buffer:
  assumes "heaps_fit (md_heaps s)" "chan \<noteq> 0"
    and "muart_set_chan_mdma_W hw junk base buf len s = Some (chan, s') \<or>
         muart_set_chan_mdma_R hw junk base buf len s = Some (chan, s')"
  shows "\<exists>c t ns. md_chans s' chan = Some c \<and> md_trans s' (ch_trans c) = Some t \<and>
    buffer_nodes (muart_cfg LONG_DESC junk) buf len ns \<and>
    dma_walk s' (groups_of s' chan) (length (groups_of s' chan)) (pool_of s' (tr_first_group t)) = (ns, True)"
proof -
  obtain regs where "muart_prepare hw junk regs buf len s = Some (0, chan, s')"
  proof -
    have ret: "r = 0" if "muart_prepare hw junk regs buf len s = Some (r, q, s1)" "\<not> r < 0" for regs r q s1
      using that by (auto simp: muart_prepare_def Option.bind_eq_Some_conv split: if_splits)
    show ?thesis
      using assms(2,3) that ret
      by (auto simp: muart_set_chan_mdma_W_def muart_set_chan_mdma_R_def Option.bind_eq_Some_conv split: if_splits) blast+
  qed
  then show ?thesis by (rule prepare_walk [OF assms(1)])
qed

section \<open>What the PL011 is told\<close>

lemma fraction_div:
  fixes f m :: nat
  assumes "0 < m"
  shows "64 * f div m = 64 * (f div m) + f mod m * 64 div m" "f mod m * 64 div m < 64" "f mod m * 64 < 64 * m"
proof -
  define q r where "q = f div m" and "r = f mod m"
  have "64 * f = 64 * (q * m + r)" by (simp add: q_def r_def)
  also have "\<dots> = r * 64 + (64 * q) * m" by (simp add: algebra_simps)
  finally have "64 * f = r * 64 + (64 * q) * m" .
  then show "64 * f div m = 64 * (f div m) + f mod m * 64 div m" using assms by (simp add: q_def r_def)
  show "f mod m * 64 < 64 * m" using mod_less_divisor [OF assms, of f] by simp
  then show "f mod m * 64 div m < 64" by (rule less_mult_imp_div_less)
qed

lemma rounding_kept:
  fixes x :: u32
  assumes "unat x < 64"
  shows "unat ((x * 10 + 5) div 10) = unat x"
proof -
  have "unat (x * 10 + 5) = unat x * 10 + 5"
    using assms by (simp add: unat_word_ariths(1) [of _ 5] unat_word_ariths(2) [of _ 10])
  then show ?thesis by (simp add: unat_div)
qed

text \<open>The divisors of the baud rate are exact: together, with six bits of fraction, they are the quotient
  \<open>64 * f / (16 * b)\<close> rounded down, as long as nothing overflows.\<close>

theorem baud_divisor_exact:
  assumes "0 < unat b" "unat b < 2 ^ 22"
  shows "case baud_divisors f b of (i, fr) \<Rightarrow>
    64 * unat i + unat fr = 64 * unat f div (16 * unat b) \<and> unat fr < 64"
proof -
  define m where "m = 16 * unat b"
  have m: "unat (16 * b) = m" "0 < m" "64 * m < 2 ^ 32" using assms by (simp_all add: m_def unat_word_ariths(2))
  define q where "q = unat f mod m * 64 div m"
  note fr = fraction_div [OF m(2), of "unat f"]
  have r: "unat (f mod (16 * b)) = unat f mod m" by (simp only: unat_mod m(1))
  have p: "unat (f mod (16 * b) * 64) = unat f mod m * 64"
    using mod_less [OF less_trans [OF fr(3) m(3)]] by (simp add: unat_word_ariths(2) [of _ 64] r)
  have d: "unat (f mod (16 * b) * 64 div (16 * b)) = q" by (simp only: unat_div p m(1) q_def)
  have q: "q < 64" using fr(2) by (simp add: q_def)
  have e: "unat ((f mod (16 * b) * 64 div (16 * b) * 10 + 5) div 10) = q" using rounding_kept [of "f mod (16 * b) * 64 div (16 * b)"] q d by simp
  have i: "unat (f div (16 * b)) = unat f div m" by (simp only: unat_div m(1))
  have f: "64 * unat f div m = 64 * (unat f div m) + q" using fr(1) by (simp only: q_def)
  show ?thesis unfolding baud_divisors_def Let_def prod.case e i m_def [symmetric] f using q by simp
qed

theorem baud_divisor_exact_witness:
  "case baud_divisors 100000000 38400 of (i, fr) \<Rightarrow> 64 * unat i + unat fr = 64 * unat (100000000 :: u32) div (16 * unat (38400 :: u32)) \<and> unat fr < 64"
  by (rule baud_divisor_exact) simp_all

text \<open>The level of a FIFO cannot be lowered, for the register is only ever or-ed. From its reset value, a request for
  a level of the receive FIFO sets this level if it is 1/2 or 3/4, and another one otherwise.\<close>

theorem fifo_level_from_reset:
  assumes "level \<noteq> UART_FIFO_LEVEL_NONE" "regs (base + UARTIFLS) = UARTIFLS_default"
  shows "(drop_bit 3 (uart_fifos_set_rx_fifo_level flat_regs base level regs (base + UARTIFLS)) = fifo_level_value level)
    \<longleftrightarrow> level \<in> {LEVEL_1_2, LEVEL_3_4}"
  using assms
  by (cases level) (simp_all add: uart_fifos_set_rx_fifo_level_def uart_reg_set_def iomodify32_def fifo_level_value_def UARTIFLS_default_def)

theorem fifo_level_from_reset_witness:
  "drop_bit 3 (uart_fifos_set_rx_fifo_level flat_regs 0 LEVEL_1_8 ((\<lambda>_. 0)(UARTIFLS := UARTIFLS_default)) UARTIFLS) \<noteq>
    fifo_level_value LEVEL_1_8"
  using fifo_level_from_reset [of LEVEL_1_8 "(\<lambda>_. 0)(UARTIFLS := UARTIFLS_default)" 0] by simp

lemma loop_until_inv:
  assumes "loop_until_from hw start t body d = Some r"
  shows "(\<forall>d now d'. P d \<longrightarrow> rumboot_platform_get_uptime hw d = (now, d') \<longrightarrow> P d') \<longrightarrow>
    (\<forall>d d'. P d \<longrightarrow> body d = (None, d') \<longrightarrow> P d') \<longrightarrow> (\<forall>d x d'. P d \<longrightarrow> body d = (Some x, d') \<longrightarrow> Q x d') \<longrightarrow> P d \<longrightarrow>
    (case r of (Some x, d') \<Rightarrow> Q x d' | (None, d') \<Rightarrow> P d')"
    (is "?R hw start t body d r")
proof (rule loop_until_from.raw_induct [of ?R, OF _ assms], goal_cases)
  case (1 f hw start t body d r)
  obtain now d1 where up: "rumboot_platform_get_uptime hw d = (now, d1)" by (cases "rumboot_platform_get_uptime hw d")
  obtain x d2 where b: "body d1 = (x, d2)" by (cases "body d1")
  show ?case
  proof (intro impI)
    assume h: "\<forall>d now d'. P d \<longrightarrow> rumboot_platform_get_uptime hw d = (now, d') \<longrightarrow> P d'"
      "\<forall>d d'. P d \<longrightarrow> body d = (None, d') \<longrightarrow> P d'" "\<forall>d x d'. P d \<longrightarrow> body d = (Some x, d') \<longrightarrow> Q x d'" "P d"
    have p1: "P d1" using h(1,4) up by blast
    show "case r of (Some x, d') \<Rightarrow> Q x d' | (None, d') \<Rightarrow> P d'"
    proof (cases "now - start < t")
      case True
      show ?thesis
      proof (cases x)
        case None
        then have "f hw start t body d2 = Some r" using 1(2) up b True by simp
        moreover have "P d2" using h(2) p1 b None by blast
        ultimately show ?thesis using 1(1) [of hw start t body d2 r] h by blast
      next
        case (Some y)
        then have "r = (Some y, d2)" using 1(2) up b True by simp
        moreover have "Q y d2" using h(3) p1 b Some by blast
        ultimately show ?thesis by simp
      qed
    next
      case False
      then have "r = (None, d1)" using 1(2) up by simp
      then show ?thesis using p1 by simp
    qed
  qed
qed

text \<open>\<open>uart_putc\<close> is all or nothing: it returns 0 and has written exactly its character, or -1 and has written
  nothing.\<close>

theorem putc_all_or_nothing:
  assumes "recorded hw clk log" "uart_putc hw base c t d = Some (r, d')"
  shows "r = 0 \<and> log d' = log d @ [(base + UARTDR, ucast c)] \<or> r = -1 \<and> log d' = log d"
proof -
  let ?body = "\<lambda>d. let (full, d) = uart_check_tfifo_full hw base d
    in if \<not> full then (Some (), uart_reg_write hw base UARTDR (ucast c) d) else (None, d)"
  obtain start d0 where up: "rumboot_platform_get_uptime hw d = (start, d0)" by (cases "rumboot_platform_get_uptime hw d")
  obtain x where x: "loop_until_from hw start t ?body d0 = Some (x, d')" "r = (case x of Some _ \<Rightarrow> 0 | None \<Rightarrow> -1)"
    using assms(2) by (auto simp: uart_putc_def loop_until_timeout_def up)
  have chk: "log d2 = log d1" if "uart_check_tfifo_full hw base d1 = (v, d2)" for d1 v d2
    using that recordedD(1) [OF assms(1)]
    by (auto simp: uart_check_tfifo_full_def uart_reg_check_def Let_def split: prod.splits)
  let ?P = "\<lambda>e. log e = log d" and ?Q = "\<lambda>_ e. log e = log d @ [(base + UARTDR, ucast c)]"
  have "case (x, d') of (Some x, d') \<Rightarrow> ?Q x d' | (None, d') \<Rightarrow> ?P d'"
  proof (rule loop_until_inv [OF x(1), of ?P ?Q, rule_format])
    show "?P d0" using recordedD(4) [OF assms(1) up] by simp
    show "?P e'" if "?P e" "rumboot_platform_get_uptime hw e = (now, e')" for e now e'
      using that recordedD(4) [OF assms(1) that(2)] by simp
    show "?P e'" if "?P e" "?body e = (None, e')" for e e'
      using that chk by (auto simp: Let_def split: prod.splits if_splits)
    show "?Q y e'" if "?P e" "?body e = (Some y, e')" for e y e'
      using that chk by (auto simp: Let_def uart_reg_write_def recordedD(3) [OF assms(1)] split: prod.splits if_splits)
  qed
  then show ?thesis using x(2) by (cases x) simp_all
qed

text \<open>A port with room.\<close>

definition idle_port :: "(u32 \<times> (u32 \<times> u32) list) hw" where
  "idle_port = \<lparr>hw_read32 = (\<lambda>a d. (0, d)), hw_write32 = (\<lambda>v a d. (fst d, snd d @ [(a, v)])),
     hw_uptime = (\<lambda>d. (fst d, fst d + 1, snd d))\<rparr>"

theorem putc_all_or_nothing_witness:
  "\<exists>d'. uart_putc idle_port 0 0x41 5 (0, []) = Some (0, d') \<and> snd d' = [(UARTDR, 0x41)]"
proof -
  have rec: "recorded idle_port fst snd" by (simp add: recorded_def idle_port_def)
  obtain d' where d': "uart_putc idle_port 0 0x41 5 (0, []) = Some (0, d')"
    by (simp add: uart_putc_def loop_until_timeout_def loop_until_from.simps rumboot_platform_get_uptime_def
        uart_check_tfifo_full_def uart_reg_check_def ioread32_def idle_port_def UARTFR__TXFF_def BIT_def)
  then show ?thesis using putc_all_or_nothing [OF rec d'] by auto
qed

text \<open>\<open>uart_init\<close> programs the frame that is asked for, whatever the line control register held before: word length
  and parity are those of the parameters, the FIFOs are on if a level is given or they were on before, and the
  other bits are kept.\<close>

theorem uart_frame_programmed:
  "drop_bit 5 (uart_init flat_regs base p regs (base + UARTLCR_H)) AND 3 = word_length_value (up_wlen p) \<and>
   bit (uart_init flat_regs base p regs (base + UARTLCR_H)) 1 = (up_parity p \<noteq> UART_parity_no) \<and>
   bit (uart_init flat_regs base p regs (base + UARTLCR_H)) 2 = (up_parity p = UART_parity_even) \<and>
   bit (uart_init flat_regs base p regs (base + UARTLCR_H)) 4 =
     (up_rx_fifo_level p \<noteq> UART_FIFO_LEVEL_NONE \<or> up_tx_fifo_level p \<noteq> UART_FIFO_LEVEL_NONE \<or> bit (regs (base + UARTLCR_H)) 4) \<and>
   uart_init flat_regs base p regs (base + UARTLCR_H) AND NOT 0x76 = regs (base + UARTLCR_H) AND NOT 0x76"
proof -
  define old where "old = regs (base + UARTLCR_H)"
  define par where "par = (\<lambda>v :: u32. case up_parity p of UART_parity_no \<Rightarrow> v AND NOT (BIT 1 OR BIT 2)
    | UART_parity_even \<Rightarrow> v OR (BIT 1 OR BIT 2) | UART_parity_odd \<Rightarrow> (v AND NOT (BIT 2)) OR BIT 1)"
  define fen where "fen = (\<lambda>v :: u32. if up_rx_fifo_level p \<noteq> UART_FIFO_LEVEL_NONE \<or> up_tx_fifo_level p \<noteq> UART_FIFO_LEVEL_NONE then v OR BIT 4 else v)"
  have e: "uart_init flat_regs base p regs (base + UARTLCR_H) =
      fen (par ((old AND NOT (push_bit 5 3)) OR push_bit 5 (word_length_value (up_wlen p))))"
    by (cases "up_parity p")
      (simp_all add: uart_init_def Let_def uart_set_baudrate_def uart_set_word_length_def uart_loopback_enable_def
        uart_set_parity_def uart_set_interrupt_mask_def uart_fifos_set_rx_fifo_level_def uart_fifos_set_tx_fifo_level_def
        uart_fifos_enable_def uart_rts_cts_enable_def uart_flag_def uart_reg_write_def uart_reg_set_def uart_reg_clear_def
        iomodify32_def UARTIBRD_def UARTFBRD_def UARTLCR_H_def UARTCR_def UARTIFLS_def UARTIMSC_def UARTLCR_H__PEN_def
        UARTLCR_H__EPS_def UARTLCR_H__FEN_def UARTLCR_H__WLEN_def UARTLCR_H__WLEN_SHIFT_def par_def fen_def old_def
        split: prod.splits)
  define wl where "wl = word_length_value (up_wlen p)"
  have b3: "bit (3 :: u32) n \<longleftrightarrow> n = 0 \<or> n = 1" for n
  proof -
    have "(3 :: u32) = BIT 0 OR BIT 1" by (simp add: BIT_def)
    then show ?thesis by (simp only: bit_or_iff bit_BIT) auto
  qed
  have b76: "bit (0x76 :: u32) n \<longleftrightarrow> n = 1 \<or> n = 2 \<or> n = 4 \<or> n = 5 \<or> n = 6" for n
  proof -
    have "(0x76 :: u32) = BIT 1 OR BIT 2 OR BIT 4 OR BIT 5 OR BIT 6" by (simp add: BIT_def)
    then show ?thesis by (simp only: bit_or_iff bit_BIT) auto
  qed
  have wl: "bit wl n \<Longrightarrow> n < 2" for n
    using small_bits [of wl 2 n] by (cases "up_wlen p") (simp_all add: wl_def word_length_value_def)
  define w0 where "w0 = (old AND NOT (push_bit 5 3)) OR push_bit 5 wl"
  have w0: "bit w0 n \<longleftrightarrow> n < 32 \<and> (if n = 5 \<or> n = 6 then bit wl (n - 5) else bit old n)" for n
  proof (cases "n < 32")
    case True
    have "\<not> bit wl (n - 5)" if "n \<noteq> 5" "n \<noteq> 6" "5 \<le> n" using wl [of "n - 5"] that by auto
    moreover have "bit (push_bit 5 (3 :: u32)) n \<longleftrightarrow> n = 5 \<or> n = 6" using True by (simp only: bit_push_bit_iff b3) auto
    ultimately show ?thesis
      unfolding w0_def bit_or_iff bit_and_iff bit_not_iff bit_push_bit_iff [of 5 wl] using True by auto
  next
    case False
    then show ?thesis using bit_imp_le_length [of w0 n] by auto
  qed
  define w1 where "w1 = par w0"
  have w1: "bit w1 n \<longleftrightarrow> n < 32 \<and> (if n = 1 then up_parity p \<noteq> UART_parity_no
      else if n = 2 then up_parity p = UART_parity_even else bit w0 n)" for n
    using bit_imp_le_length [of w0 n]
    by (cases "up_parity p") (auto simp: w1_def par_def bit_or_iff bit_and_iff bit_not_iff bit_BIT)
  let ?r = "fen w1"
  have r: "bit ?r n \<longleftrightarrow> n < 32 \<and>
      (if n = 1 then up_parity p \<noteq> UART_parity_no else if n = 2 then up_parity p = UART_parity_even
       else if n = 4 then up_rx_fifo_level p \<noteq> UART_FIFO_LEVEL_NONE \<or> up_tx_fifo_level p \<noteq> UART_FIFO_LEVEL_NONE \<or> bit old 4
       else if n = 5 \<or> n = 6 then bit wl (n - 5) else bit old n)" for n
    by (auto simp: fen_def bit_or_iff bit_BIT w1 w0)
  show ?thesis unfolding e wl_def [symmetric] old_def [symmetric] w0_def [symmetric] w1_def [symmetric]
  proof (intro conjI)
    show "drop_bit 5 ?r AND 3 = wl"
    proof (rule bit_word_eqI)
      fix n :: nat
      assume "n < LENGTH(32)"
      then show "bit (drop_bit 5 ?r AND 3) n = bit wl n"
        unfolding bit_and_iff b3 using wl [of n] by (auto simp: bit_drop_bit_eq r)
    qed
    show "bit ?r 1 = (up_parity p \<noteq> UART_parity_no)" "bit ?r 2 = (up_parity p = UART_parity_even)"
      "bit ?r 4 = (up_rx_fifo_level p \<noteq> UART_FIFO_LEVEL_NONE \<or> up_tx_fifo_level p \<noteq> UART_FIFO_LEVEL_NONE \<or> bit old 4)"
      by (simp_all add: r)
    show "?r AND NOT 0x76 = old AND NOT 0x76"
      by (rule bit_word_eqI) (simp add: bit_and_iff bit_not_iff r b76)
  qed
qed

end
