(* ===== verification/Msix.thy ===== *)
theory Msix
  imports Mpic128
begin

text \<open>
  The controller that takes the interrupts of the chip through MSI-X messages to another one,
  \<open>src/lib/drivers/irq-proxy-gic-cdnpcie.c\<close>. Its 64 lines are the interrupts from 128 on; each message raises
  interrupt 0 of the GIC, whose handler dispatches on this controller. The base addresses are parameters:
  \<open>ext\<close> of the generator of messages, \<open>pcie\<close> of the PCIe core, \<open>dist\<close> of the distributor of the GIC.
\<close>

definition EXT_IRQ_GEN_Global_IRQ_Status_l :: u32 where "EXT_IRQ_GEN_Global_IRQ_Status_l = 0x0004"
definition EXT_IRQ_GEN_Global_IRQ_Status_h :: u32 where "EXT_IRQ_GEN_Global_IRQ_Status_h = 0x0008"
definition EXT_IRQ_GEN_Global_IRQ_Mask_l :: u32 where "EXT_IRQ_GEN_Global_IRQ_Mask_l = 0x000C"
definition EXT_IRQ_GEN_Global_IRQ_Mask_h :: u32 where "EXT_IRQ_GEN_Global_IRQ_Mask_h = 0x0010"
definition EXT_IRQ_GEN_v0_Message_Address :: u32 where "EXT_IRQ_GEN_v0_Message_Address = 0x0800"
definition EXT_IRQ_GEN_Global_PBA_Entries_l :: u32 where "EXT_IRQ_GEN_Global_PBA_Entries_l = 0x0C00"
definition EXT_IRQ_GEN_Global_PBA_Entries_h :: u32 where "EXT_IRQ_GEN_Global_PBA_Entries_h = 0x0C04"
definition PCIe_Core_FuncRPConfig :: u32 where "PCIe_Core_FuncRPConfig = 0"
definition PCIe_EP_i_msix_ctrl :: u32 where "PCIe_EP_i_msix_ctrl = 0x00B0"
definition GIC_GENSWINT0 :: u32 where "GIC_GENSWINT0 = 0x00010000"

text \<open>The function of the C library: the number of the lowest bit, from 1 on.\<close>

definition ffs :: "u32 \<Rightarrow> nat" where
  "ffs w = (case find (\<lambda>i. bit w i) [0..<32] of None \<Rightarrow> 0 | Some i \<Rightarrow> i + 1)"

definition msix_set_vector :: "'d hw \<Rightarrow> u32 \<Rightarrow> u32 \<Rightarrow> u32 \<Rightarrow> u32 \<Rightarrow> u32 \<Rightarrow> 'd \<Rightarrow> 'd" where
  "msix_set_vector hw ext vector_number addr data mask_v d =
     (let addr_pointer = ext + EXT_IRQ_GEN_v0_Message_Address + push_bit 4 vector_number;
          d = iowrite32 hw addr addr_pointer d;
          d = iowrite32 hw data (addr_pointer + 8) d
      in iowrite32 hw mask_v (addr_pointer + 12) d)"

definition msix_proxy_init :: "'d hw \<Rightarrow> u32 \<Rightarrow> 'd \<Rightarrow> 'd option" where
  "msix_proxy_init hw pcie d = Some (iowrite32 hw 0x80000000 (pcie + PCIe_Core_FuncRPConfig + PCIe_EP_i_msix_ctrl) d)"

definition msix_proxy_save :: "'d hw \<Rightarrow> u32 \<Rightarrow> 'd \<Rightarrow> 'd" where
  "msix_proxy_save hw pcie d = iowrite32 hw 0xC0000000 (pcie + PCIe_Core_FuncRPConfig + PCIe_EP_i_msix_ctrl) d"

definition msix_proxy_restore :: "'d hw \<Rightarrow> u32 \<Rightarrow> 'd \<Rightarrow> 'd" where
  "msix_proxy_restore hw pcie d = iowrite32 hw 0x80000000 (pcie + PCIe_Core_FuncRPConfig + PCIe_EP_i_msix_ctrl) d"

text \<open>The lines of one half that are pending, not masked, and not left to the PBA.\<close>

definition msix_status :: "'d hw \<Rightarrow> u32 \<Rightarrow> u32 \<Rightarrow> u32 \<Rightarrow> u32 \<Rightarrow> 'd \<Rightarrow> u32 \<times> 'd" where
  "msix_status hw ext status mask_v pba d =
     (let (tmp, d) = ioread32 hw (ext + status) d;
          (m, d) = ioread32 hw (ext + mask_v) d;
          (p, d) = ioread32 hw (ext + pba) d
      in (tmp AND NOT m AND NOT p, d))"

definition msix_status_l :: "'d hw \<Rightarrow> u32 \<Rightarrow> 'd \<Rightarrow> u32 \<times> 'd" where
  "msix_status_l hw ext d = msix_status hw ext EXT_IRQ_GEN_Global_IRQ_Status_l EXT_IRQ_GEN_Global_IRQ_Mask_l EXT_IRQ_GEN_Global_PBA_Entries_l d"

definition msix_status_h :: "'d hw \<Rightarrow> u32 \<Rightarrow> 'd \<Rightarrow> u32 \<times> 'd" where
  "msix_status_h hw ext d = msix_status hw ext EXT_IRQ_GEN_Global_IRQ_Status_h EXT_IRQ_GEN_Global_IRQ_Mask_h EXT_IRQ_GEN_Global_PBA_Entries_h d"

definition msix_first :: int where "msix_first = 128"

text \<open>An interrupt without a pending line is a panic.\<close>

definition msix_proxy_begin :: "'d hw \<Rightarrow> u32 \<Rightarrow> int \<Rightarrow> int \<times> 'd \<Rightarrow> (u32 \<times> int \<times> 'd) option" where
  "msix_proxy_begin hw ext num td =
     (let (tmp, d) = msix_status_l hw ext (snd td)
      in if tmp \<noteq> 0 then Some (of_int (msix_first + int (ffs tmp) - 1), fst td, d)
         else let (tmp, d) = msix_status_h hw ext d
              in if tmp \<noteq> 0 then Some (of_int (msix_first + 32 + int (ffs tmp) - 1), fst td, d) else None)"

definition msix_proxy_end :: "'d hw \<Rightarrow> u32 \<Rightarrow> int \<Rightarrow> int \<times> 'd \<Rightarrow> (int \<times> 'd) option" where
  "msix_proxy_end hw ext irq td =
     (let (tmp, d) = msix_status_l hw ext (snd td);
          d = iowrite32 hw tmp (ext + EXT_IRQ_GEN_Global_IRQ_Status_l) d;
          (tmp, d) = msix_status_h hw ext d
      in Some (fst td, iowrite32 hw tmp (ext + EXT_IRQ_GEN_Global_IRQ_Status_h) d))"

definition msix_proxy_configure :: "'d hw \<Rightarrow> u32 \<Rightarrow> u32 \<Rightarrow> int \<Rightarrow> u32 \<Rightarrow> bool \<Rightarrow> 'd \<Rightarrow> 'd option" where
  "msix_proxy_configure hw ext dist irq flags enable d =
     (let change = (\<lambda>reg mirq d. let (rdata, d) = ioread32 hw (ext + reg) d
            in iowrite32 hw (if \<not> enable then rdata OR BIT mirq else rdata AND NOT (BIT mirq)) (ext + reg) d)
      in if irq \<le> 31 then
           Some (msix_set_vector hw ext (of_int irq) (dist + GICD_REG_SGIR) GIC_GENSWINT0 0
                   (change EXT_IRQ_GEN_Global_IRQ_Mask_l (nat irq) d))
         else if irq \<le> 63 then
           Some (msix_set_vector hw ext (of_int irq) (dist + GICD_REG_SGIR) GIC_GENSWINT0 0
                   (change EXT_IRQ_GEN_Global_IRQ_Mask_h (nat (irq - 32)) d))
         else None)"

text \<open>There is no software interrupt; the call of a null pointer is \<open>None\<close>.\<close>

definition msix_irq_ctl :: "'d hw \<Rightarrow> u32 \<Rightarrow> u32 \<Rightarrow> u32 \<Rightarrow> 'd irq_controller" where
  "msix_irq_ctl hw ext pcie dist =
     \<lparr>ctl_first = msix_first, ctl_last = 255, ctl_init = msix_proxy_init hw pcie,
      ctl_configure = msix_proxy_configure hw ext dist, ctl_begin = msix_proxy_begin hw ext,
      ctl_end = msix_proxy_end hw ext, ctl_generate_swint = (\<lambda>_ _. None),
      ctl_slave_save = None, ctl_slave_restore = None, ctl_adjust_priority = None,
      ctl_priority_max = 0, ctl_priority_min = 0, ctl_priority_default = 0\<rparr>"

definition irq_proxy_handler ::
  "('h \<Rightarrow> int \<Rightarrow> u32 \<Rightarrow> ('d, 'h) irq_sys \<Rightarrow> ('d, 'h) irq_sys option)
     \<Rightarrow> ('h \<Rightarrow> int \<Rightarrow> string \<Rightarrow> ('d, 'h) irq_sys \<Rightarrow> ('d, 'h) irq_sys option)
     \<Rightarrow> nat \<Rightarrow> int \<Rightarrow> u32 \<Rightarrow> ('d, 'h) irq_sys \<Rightarrow> ('d, 'h) irq_sys option" where
  "irq_proxy_handler call xcall nirqs irq arg s =
     rumboot_irq_core_dispatch call xcall nirqs 1 (of_int RUMBOOT_IRQ_TYPE_NORMAL) 0 s"

text \<open>\<open>handler\<close> stands for \<open>irq_proxy_handler\<close>.\<close>

definition rumboot_irq_register_msix_proxy_controller ::
  "'d hw \<Rightarrow> u32 \<Rightarrow> u32 \<Rightarrow> u32 \<Rightarrow> nat \<Rightarrow> 'h \<Rightarrow> ('d, 'h) irq_sys \<Rightarrow> ('d, 'h) irq_sys option" where
  "rumboot_irq_register_msix_proxy_controller hw ext pcie dist nirqs handler s =
     (case rumboot_irq_controller_by_id 0 s of
        Some (Some _) \<Rightarrow>
          (case rumboot_irq_set_handler nirqs 0 0 0 (Some handler) 0 s of
             None \<Rightarrow> None
           | Some s \<Rightarrow>
               (case irq_ctl_dev s ! 0 of
                  None \<Rightarrow> None
                | Some ctl \<Rightarrow>
                    rumboot_irq_register_controller (msix_irq_ctl hw ext pcie dist)
                      (s\<lparr>irq_ctl_dev := (irq_ctl_dev s)[0 := Some (ctl\<lparr>ctl_slave_save := Some (msix_proxy_save hw pcie),
                           ctl_slave_restore := Some (msix_proxy_restore hw pcie)\<rparr>)]\<rparr>)))
      | _ \<Rightarrow> None)"

section \<open>Pending lines\<close>

lemma ffs_lowest:
  assumes "w \<noteq> 0"
  obtains i where "ffs w = i + 1" "i < 32" "bit w i" "\<forall>j < i. \<not> bit w j"
proof (cases "find (\<lambda>i. bit w i) [0..<32]")
  case None
  then have "\<not> bit w k" if "k < 32" for k using that by (auto simp: find_None_iff)
  then have "w = 0" by (intro bit_word_eqI) simp
  then show thesis using assms by simp
next
  case (Some i)
  have "ffs w = i + 1" using Some by (simp add: ffs_def)
  then show thesis using that [of i] Some by (auto simp: find_Some_iff)
qed

text \<open>A device whose status bits are cleared by writing them; \<open>b\<close> selects the upper half.\<close>

definition msix_device ::
  "'d hw \<Rightarrow> u32 \<Rightarrow> (bool \<Rightarrow> 'd \<Rightarrow> u32) \<Rightarrow> (bool \<Rightarrow> 'd \<Rightarrow> u32) \<Rightarrow> (bool \<Rightarrow> 'd \<Rightarrow> u32) \<Rightarrow> bool" where
  "msix_device hw ext st mk pb \<longleftrightarrow>
     (\<forall>d. fst (hw_read32 hw (ext + EXT_IRQ_GEN_Global_IRQ_Status_l) d) = st False d \<and>
          fst (hw_read32 hw (ext + EXT_IRQ_GEN_Global_IRQ_Status_h) d) = st True d \<and>
          fst (hw_read32 hw (ext + EXT_IRQ_GEN_Global_IRQ_Mask_l) d) = mk False d \<and>
          fst (hw_read32 hw (ext + EXT_IRQ_GEN_Global_IRQ_Mask_h) d) = mk True d \<and>
          fst (hw_read32 hw (ext + EXT_IRQ_GEN_Global_PBA_Entries_l) d) = pb False d \<and>
          fst (hw_read32 hw (ext + EXT_IRQ_GEN_Global_PBA_Entries_h) d) = pb True d) \<and>
     (\<forall>a b d. st b (snd (hw_read32 hw a d)) = st b d \<and> mk b (snd (hw_read32 hw a d)) = mk b d \<and>
          pb b (snd (hw_read32 hw a d)) = pb b d) \<and>
     (\<forall>b v d. st b (hw_write32 hw v (ext + EXT_IRQ_GEN_Global_IRQ_Status_l) d) = (if b then st b d else st b d AND NOT v) \<and>
          st b (hw_write32 hw v (ext + EXT_IRQ_GEN_Global_IRQ_Status_h) d) = (if b then st b d AND NOT v else st b d) \<and>
          mk b (hw_write32 hw v (ext + EXT_IRQ_GEN_Global_IRQ_Status_l) d) = mk b d \<and>
          mk b (hw_write32 hw v (ext + EXT_IRQ_GEN_Global_IRQ_Status_h) d) = mk b d \<and>
          pb b (hw_write32 hw v (ext + EXT_IRQ_GEN_Global_IRQ_Status_l) d) = pb b d \<and>
          pb b (hw_write32 hw v (ext + EXT_IRQ_GEN_Global_IRQ_Status_h) d) = pb b d)"

definition msix_open ::
  "(bool \<Rightarrow> 'd \<Rightarrow> u32) \<Rightarrow> (bool \<Rightarrow> 'd \<Rightarrow> u32) \<Rightarrow> (bool \<Rightarrow> 'd \<Rightarrow> u32) \<Rightarrow> bool \<Rightarrow> 'd \<Rightarrow> u32" where
  "msix_open st mk pb b d = st b d AND NOT (mk b d) AND NOT (pb b d)"

definition msix_pending ::
  "(bool \<Rightarrow> 'd \<Rightarrow> u32) \<Rightarrow> (bool \<Rightarrow> 'd \<Rightarrow> u32) \<Rightarrow> (bool \<Rightarrow> 'd \<Rightarrow> u32) \<Rightarrow> 'd \<Rightarrow> nat set" where
  "msix_pending st mk pb d = {n. n < 64 \<and> bit (msix_open st mk pb (32 \<le> n) d) (n mod 32)}"

lemma status_reads:
  assumes "msix_device hw ext st mk pb"
  shows "msix_status_l hw ext d = (v, d') \<Longrightarrow> v = msix_open st mk pb False d \<and> (\<forall>b. st b d' = st b d \<and> mk b d' = mk b d \<and> pb b d' = pb b d)"
    "msix_status_h hw ext d = (v, d') \<Longrightarrow> v = msix_open st mk pb True d \<and> (\<forall>b. st b d' = st b d \<and> mk b d' = mk b d \<and> pb b d' = pb b d)"
proof -
  note dev = assms [unfolded msix_device_def]
  have rd: "ioread32 hw a x = (w, y) \<Longrightarrow> w = fst (hw_read32 hw a x) \<and> (\<forall>b. st b y = st b x \<and> mk b y = mk b x \<and> pb b y = pb b x)" for a x w y
    using dev unfolding ioread32_def by (metis fst_conv snd_conv)
  show "msix_status_l hw ext d = (v, d') \<Longrightarrow> v = msix_open st mk pb False d \<and> (\<forall>b. st b d' = st b d \<and> mk b d' = mk b d \<and> pb b d' = pb b d)"
    using dev unfolding msix_status_l_def msix_status_def
    by (auto simp: msix_open_def Let_def split: prod.splits dest!: rd)
  show "msix_status_h hw ext d = (v, d') \<Longrightarrow> v = msix_open st mk pb True d \<and> (\<forall>b. st b d' = st b d \<and> mk b d' = mk b d \<and> pb b d' = pb b d)"
    using dev unfolding msix_status_h_def msix_status_def
    by (auto simp: msix_open_def Let_def split: prod.splits dest!: rd)
qed

lemma Min_low:
  assumes "m < 64" "bit (msix_open st mk pb (32 \<le> m) d) (m mod 32)" "\<forall>n < m. \<not> bit (msix_open st mk pb (32 \<le> n) d) (n mod 32)"
  shows "Min (msix_pending st mk pb d) = m"
proof (rule Min_eqI)
  show "finite (msix_pending st mk pb d)" by (simp add: msix_pending_def)
  show "m \<in> msix_pending st mk pb d" using assms by (simp add: msix_pending_def)
  show "m \<le> n" if "n \<in> msix_pending st mk pb d" for n
    using that assms(3) by (auto simp: msix_pending_def not_less [symmetric])
qed

lemma begin_lowest:
  assumes dev: "msix_device hw ext st mk pb" and b: "msix_proxy_begin hw ext num (t, d) = Some (irq, t', d')"
  shows "t' = t \<and> sint irq = 128 + int (Min (msix_pending st mk pb d)) \<and>
    (\<forall>b. st b d' = st b d \<and> mk b d' = mk b d \<and> pb b d' = pb b d)"
proof -
  obtain v1 d1 where 1: "msix_status_l hw ext d = (v1, d1)" by (cases "msix_status_l hw ext d")
  obtain v2 d2 where 2: "msix_status_h hw ext d1 = (v2, d2)" by (cases "msix_status_h hw ext d1")
  note r1 = status_reads(1) [OF dev 1] and r2 = status_reads(2) [OF dev 2]
  have low: "v1 = msix_open st mk pb False d" and high: "v2 = msix_open st mk pb True d"
    using r1 r2 by (simp_all add: msix_open_def)
  have small: "sint (of_int (int n) :: u32) = int n" if "n < 256" for n
    using that by (simp add: sint_uint unsigned_of_nat take_bit_nat_eq_self signed_take_bit_int_eq_self)
  show ?thesis
  proof (cases "v1 = 0")
    case False
    obtain i where i: "ffs v1 = i + 1" "i < 32" "bit v1 i" "\<forall>j < i. \<not> bit v1 j" by (rule ffs_lowest [OF False])
    have "Min (msix_pending st mk pb d) = i" by (rule Min_low) (use i low in auto)
    then show ?thesis using b 1 False r1 i small [of "128 + i"] by (auto simp: msix_proxy_begin_def msix_first_def)
  next
    case True
    then have n: "v2 \<noteq> 0" using b 1 2 by (auto simp: msix_proxy_begin_def split: if_splits)
    obtain i where i: "ffs v2 = i + 1" "i < 32" "bit v2 i" "\<forall>j < i. \<not> bit v2 j" by (rule ffs_lowest [OF n])
    have "Min (msix_pending st mk pb d) = 32 + i"
    proof (rule Min_low)
      show "\<forall>n < 32 + i. \<not> bit (msix_open st mk pb (32 \<le> n) d) (n mod 32)"
      proof (intro allI impI)
        fix n assume n: "n < 32 + i"
        show "\<not> bit (msix_open st mk pb (32 \<le> n) d) (n mod 32)"
        proof (cases "32 \<le> n")
          case True
          then have "n mod 32 = n - 32" "n - 32 < i" using n i(2) by (simp_all add: mod_if)
          then show ?thesis using True i(4) high by simp
        qed (use True low in simp)
      qed
    qed (use i high in auto)
    then show ?thesis using b 1 2 True n r1 r2 i small [of "160 + i"] by (auto simp: msix_proxy_begin_def msix_first_def add.assoc)
  qed
qed

lemma end_clears:
  assumes dev: "msix_device hw ext st mk pb" and e: "msix_proxy_end hw ext irq (t, d) = Some (t', d')"
  shows "msix_pending st mk pb d' = {}"
proof -
  obtain v1 d1 where 1: "msix_status_l hw ext d = (v1, d1)" by (cases "msix_status_l hw ext d")
  let ?d = "iowrite32 hw v1 (ext + EXT_IRQ_GEN_Global_IRQ_Status_l) d1"
  obtain v2 d2 where 2: "msix_status_h hw ext ?d = (v2, d2)" by (cases "msix_status_h hw ext ?d")
  note r1 = status_reads(1) [OF dev 1] and r2 = status_reads(2) [OF dev 2]
  have d': "d' = iowrite32 hw v2 (ext + EXT_IRQ_GEN_Global_IRQ_Status_h) d2"
    using e 1 2 by (simp add: msix_proxy_end_def Let_def)
  note w = dev [unfolded msix_device_def iowrite32_def [symmetric]]
  have "msix_open st mk pb False d' = v1 AND NOT v1" "msix_open st mk pb True d' = v2 AND NOT v2"
    using w r1 r2 by (simp_all add: d' msix_open_def iowrite32_def ac_simps)
  then have "msix_open st mk pb b d' = 0" for b by (cases b) simp_all
  then show ?thesis by (simp add: msix_pending_def)
qed

text \<open>Interrupts are lost. A dispatch on this controller runs one handler, that of the lowest pending line, and when it
  ends no line is pending any more: \<open>msix_proxy_end\<close> clears all of them, also those that nobody has handled.\<close>

theorem msix_dispatch_loses:
  fixes s :: "('d, 'h) irq_sys"
  assumes dev: "msix_device hw ext st mk pb"
    and ctl: "rumboot_irq_controller_by_id (sint ctrl) s = Some (Some (msix_irq_ctl hw ext pcie dist))"
    and run: "rumboot_irq_core_dispatch call xcall nirqs ctrl 1 num s = Some s'"
  shows "msix_pending st mk pb (irq_dev s') = {} \<and>
    (\<exists>h arg s1 s2. call h (128 + int (Min (msix_pending st mk pb (irq_dev s)))) arg s1 = Some s2 \<and>
      msix_pending st mk pb (irq_dev s1) = msix_pending st mk pb (irq_dev s))"
proof -
  let ?s0 = "s\<lparr>irq_context_counter := irq_context_counter s + 1, irq_type := 1\<rparr>"
  obtain s1 where s1: "irq_serve call xcall nirqs (Some (msix_irq_ctl hw ext pcie dist)) 1 num ?s0 = Some s1" "irq_dev s' = irq_dev s1"
    using run ctl by (auto simp: rumboot_irq_core_dispatch_def Let_def)
  obtain irq t d s2 t2 d2 where r: "msix_proxy_begin hw ext num (1, irq_dev s) = Some (irq, t, d)"
    "process_irq call nirqs (sint irq) (?s0\<lparr>irq_type := t, irq_dev := d\<rparr>) = Some s2"
    "msix_proxy_end hw ext (sint irq) (irq_type s2, irq_dev s2) = Some (t2, d2)" "irq_dev s1 = d2"
    using s1(1) by (auto simp: irq_serve_def RUMBOOT_IRQ_TYPE_NORMAL_def msix_irq_ctl_def split: option.splits prod.splits)
  note b = begin_lowest [OF dev r(1)]
  obtain h arg s3 where c: "call h (sint irq) arg (?s0\<lparr>irq_type := t, irq_dev := d\<rparr>) = Some s3"
    by (rule process_irqE [OF r(2)])
  have "msix_pending st mk pb d = msix_pending st mk pb (irq_dev s)" using b by (simp add: msix_pending_def msix_open_def)
  then have "\<exists>h arg s1 s2. call h (128 + int (Min (msix_pending st mk pb (irq_dev s)))) arg s1 = Some s2 \<and>
      msix_pending st mk pb (irq_dev s1) = msix_pending st mk pb (irq_dev s)"
    using c b by (intro exI [of _ h] exI [of _ arg] exI [of _ "?s0\<lparr>irq_type := t, irq_dev := d\<rparr>"] exI [of _ s3]) simp
  then show ?thesis using end_clears [OF dev r(3)] s1(2) r(4) by simp
qed

text \<open>Only the first 64 of the 128 lines that the controller claims exist: enabling one of the others through the
  subsystem is a panic.\<close>

theorem msix_upper_lines_panic:
  assumes "rumboot_irq_controller_by_irq i s = Some (msix_irq_ctl hw ext pcie dist)" "192 \<le> i"
  shows "rumboot_irq_enable i s = None"
  using assms
  by (auto simp: rumboot_irq_enable_def msix_irq_ctl_def msix_proxy_configure_def msix_first_def Let_def split: option.splits)

text \<open>Lines 0 and 2 are pending; the handler does nothing.\<close>

definition msix_chip :: "(bool \<Rightarrow> u32) hw" where
  "msix_chip = \<lparr>hw_read32 = (\<lambda>a d. (if a = EXT_IRQ_GEN_Global_IRQ_Status_l then d False
        else if a = EXT_IRQ_GEN_Global_IRQ_Status_h then d True else 0, d)),
     hw_write32 = (\<lambda>v a d. if a = EXT_IRQ_GEN_Global_IRQ_Status_l then d(False := d False AND NOT v)
        else if a = EXT_IRQ_GEN_Global_IRQ_Status_h then d(True := d True AND NOT v) else d),
     hw_uptime = (\<lambda>d. (0, d))\<rparr>"

definition msix_demo :: "(bool \<Rightarrow> u32, unit) irq_sys" where
  "msix_demo = \<lparr>irq_heaps = \<lparr>num_heaps = 0, heaps = []\<rparr>, irq_ctl_dev = [Some (gic_irq_ctl msix_chip 0x9000 0xA000 GIC_GENSWINT0), Some (msix_irq_ctl msix_chip 0 0x8000 0x9000)],
     num_irq_controllers = 2, irq_handler_table = 0, irq_def_hndlr = Some (), irq_def_arg = 0, irq_exception_hndlr = None,
     irq_context_counter = 0, irq_type = 0, irq_tables = (\<lambda>_. None), irq_dev = (\<lambda>b. if b then 0 else 5)\<rparr>"

lemma msix_chip_device: "msix_device msix_chip 0 (\<lambda>b d. d b) (\<lambda>b d. 0) (\<lambda>b d. 0)"
  by (simp add: msix_device_def msix_chip_def EXT_IRQ_GEN_Global_IRQ_Status_l_def EXT_IRQ_GEN_Global_IRQ_Status_h_def
      EXT_IRQ_GEN_Global_IRQ_Mask_l_def EXT_IRQ_GEN_Global_IRQ_Mask_h_def EXT_IRQ_GEN_Global_PBA_Entries_l_def
      EXT_IRQ_GEN_Global_PBA_Entries_h_def)

theorem msix_dispatch_loses_witness:
  "\<exists>s'. rumboot_irq_core_dispatch (\<lambda>h num arg s. Some s) (\<lambda>h num name s. None) 256 1 1 0 msix_demo = Some s' \<and>
     2 \<in> msix_pending (\<lambda>b d. d b) (\<lambda>b d. 0) (\<lambda>b d. 0) (irq_dev msix_demo) \<and>
     msix_pending (\<lambda>b d. d b) (\<lambda>b d. 0) (\<lambda>b d. 0) (irq_dev s') = {}"
proof -
  have f: "ffs 5 = 1" by (simp add: ffs_def upt_conv_Cons)
  have "\<exists>s'. rumboot_irq_core_dispatch (\<lambda>h num arg s. Some s) (\<lambda>h num name s. None) 256 1 1 0 msix_demo = Some s'"
    by (simp add: rumboot_irq_core_dispatch_def rumboot_irq_controller_by_id_def irq_serve_def msix_irq_ctl_def
        msix_proxy_begin_def msix_proxy_end_def msix_status_l_def msix_status_h_def msix_status_def msix_first_def f
        RUMBOOT_IRQ_TYPE_NORMAL_def process_irq_def check_irq_id_def ioread32_def iowrite32_def msix_chip_def
        EXT_IRQ_GEN_Global_IRQ_Status_l_def EXT_IRQ_GEN_Global_IRQ_Status_h_def
        EXT_IRQ_GEN_Global_IRQ_Mask_l_def EXT_IRQ_GEN_Global_IRQ_Mask_h_def EXT_IRQ_GEN_Global_PBA_Entries_l_def
        EXT_IRQ_GEN_Global_PBA_Entries_h_def rumboot_irq_table_get_def msix_demo_def Let_def)
  then obtain s' where s': "rumboot_irq_core_dispatch (\<lambda>h num arg s. Some s) (\<lambda>h num name s. None) 256 1 1 0 msix_demo = Some s'" ..
  have c: "rumboot_irq_controller_by_id (sint (1 :: u32)) msix_demo = Some (Some (msix_irq_ctl msix_chip 0 0x8000 0x9000))"
    by (simp add: rumboot_irq_controller_by_id_def msix_demo_def)
  have "2 \<in> msix_pending (\<lambda>b d. d b) (\<lambda>b d. 0) (\<lambda>b d. 0) (irq_dev msix_demo)"
  proof -
    have "bit (5 :: u32) 2" by (simp add: bit_numeral_rec numeral_eq_Suc)
    then show ?thesis by (simp add: msix_pending_def msix_open_def msix_demo_def)
  qed
  then show ?thesis using msix_dispatch_loses [OF msix_chip_device c s'] s' by blast
qed

theorem msix_upper_lines_panic_witness:
  "rumboot_irq_enable 200 msix_demo = None"
proof (rule msix_upper_lines_panic)
  show "rumboot_irq_controller_by_irq 200 msix_demo = Some (msix_irq_ctl msix_chip 0 0x8000 0x9000)"
    by (simp add: rumboot_irq_controller_by_irq_def controller_search.simps msix_demo_def msix_irq_ctl_def msix_first_def gic_irq_ctl_def)
qed simp

end
