(* ===== verification/Spec2Isabelle.thy ===== *)
theory Spec2Isabelle
  imports Crc C_Memory Heatshrink_Decoder Decompress Boot_Image Boot_Source Hardware Pl022 Boot_Plugins Xmodem
    Malloc Heatshrink_Encoder Encoder_Correct Shrink Irq Irq_Drivers Sdio Bootrom Aes Printf Ini
    Memtest Bitswapper Regpoker Testsuite Gpio Mpic128 Mdma_Chan Mdma_Run I2c Comm_Ports Uart Msix
begin

text \<open>
  RumBoot, a boot loader and its library for the SoCs of RC Module.

  \<^bold>\<open>How the program works.\<close> The boot ROM walks over a table of boot sources
  (\<open>bootsource_try_chain\<close>, \<open>src/lib/bootsource.c\<close>). For each it initialises the plugin of the
  source (\<open>src/lib/bootsrc/\<close>), reads a header and the image behind it into the SPL area, checks
  both against their CRC-32 (\<open>src/lib/bootimage.c\<close>), moves, unpacks or decapsulates the image as
  the flags of the header say, and starts the cluster of CPUs that the header names. The answer of
  the image decides what is tried next. Without a bootable source the ROM enters host mode,
  where images arrive by XMODEM (\<open>src/lib/xmodem.c\<close>).

  \<^bold>\<open>The theories.\<close>
  \<^item> \<open>Prelude\<close>: names of the C integer types, generic facts on words and lists.
  \<^item> \<open>C_Memory\<close>: memory as a function from 32-bit addresses to bytes, loads and stores in either byte
    order, \<open>memmove\<close>, and the swap macros of \<open>include/rumboot/bitswapper.h\<close>.
  \<^item> \<open>Crc\<close>: the tables and loops of \<open>src/lib/algo/crc32.c\<close> and \<open>crc8.c\<close> and the XMODEM CRC. The
    locale \<open>byte_crc\<close> states what a byte-wise register with an injective window detects; all three
    registers interpret it.
  \<^item> \<open>Lzss\<close>: the compressed format as a function on bits, the specification of the decoder.
  \<^item> \<open>Heatshrink_Decoder\<close>: the polling state machine of \<open>src/lib/algo/heatshrink_decoder.c\<close>, its
    invariant \<open>hsd_ok\<close>, and its refinement of the format.
  \<^item> \<open>Decompress\<close>: \<open>rumboot_decompress_buffer\<close>, which moves data through the decoder in memory.
  \<^item> \<open>Heatshrink_Encoder\<close>, \<open>Encoder_Correct\<close>: the compressor of \<open>heatshrink_encoder.c\<close>, its invariant
    \<open>enc_ok\<close> (what the bits produced so far decode to, in every state), termination of a poll by the
    measure \<open>hse_work\<close>, and the runs \<open>enc_run\<close> of its interface.
  \<^item> \<open>Shrink\<close>: compression and decompression of buffers and the test sequences, \<open>src/lib/algo/shrink.c\<close>,
    with the round trip through encoder and decoder.
  \<^item> \<open>Malloc\<close>: the heaps of \<open>src/lib/malloc.c\<close>.
  \<^item> \<open>Irq\<close>: the interrupt subsystem, \<open>src/irq.c\<close>: tables of handlers in the heap, controllers,
    priorities, dispatch. A handler is an arbitrary function on the state; \<open>run_prog\<close> runs programs of
    its operations whose handlers are such programs again, nested up to a given depth (every nesting
    that happens in a finite run is below some depth), and \<open>irq_ok\<close> is the invariant.
  \<^item> \<open>Irq_Drivers\<close>: the controllers \<open>drivers/irq-gic.c\<close>, \<open>irq-nmc.c\<close> and \<open>irq-dummy.c\<close> with the locale
    \<open>irq_lines\<close>, what the subsystem wants of a controller.
  \<^item> \<open>Boot_Image\<close>: the rest of \<open>src/lib/bootimage.c\<close>, with the hooks of \<open>weaklings.c\<close>.
  \<^item> \<open>Boot_Source\<close>: \<open>src/lib/bootsource.c\<close>. The locale \<open>boot_reader\<close> is the contract of a plugin's
    \<open>read\<close> (at most what was asked for, nothing outside the destination, from a device that is ready and
    stays so) and proves what loading an image then guarantees.
  \<^item> \<open>Hardware\<close>: register access and timeouts on a device state of arbitrary type.
  \<^item> \<open>Pl022\<close>: the SPI controller, \<open>src/lib/drivers/pl022.c\<close>.
  \<^item> \<open>Boot_Plugins\<close>: \<open>src/lib/bootsrc/\<close> physmap, boilerplate, eeprom and spiflash, each an
    interpretation of \<open>boot_reader\<close>.
  \<^item> \<open>Sdio\<close>: the plugin for SD and MMC cards, \<open>src/lib/bootsrc/sdio.c\<close>, on a controller that writes to
    memory by itself. The hypothesis \<open>sd_device\<close> says that it may write at any time while its DMA channel runs,
    only where the channel was told and not more than that length, and that it is idle once the code has seen the
    finish bits; a simulated controller meets it.
  \<^item> \<open>Bootrom\<close>: the main program of the ROM, \<open>src/platform/common/bootrom/bootrom.c\<close>, which composes boot
    sources, XMODEM and the execution of images. The endless loop of host mode is a number of rounds.
  \<^item> \<open>Aes\<close>: AES-128 with its modes, \<open>src/lib/algo/aes.c\<close>. No other part of the repository calls it.
  \<^item> \<open>Printf\<close>: formatted output, \<open>src/lib/printf.c\<close>, from directives to characters, and \<open>hexdump.c\<close>.
  \<^item> \<open>Ini\<close>: the parser of configuration files, \<open>src/lib/ini.c\<close>, and the dispatch of their sections in
    the configuration tool (\<open>platform/basis/targets/configtool/ini_loader.c\<close>).
  \<^item> \<open>Memtest\<close>, \<open>Bitswapper\<close>, \<open>Regpoker\<close>, \<open>Testsuite\<close>: the test libraries \<open>src/lib/memtest.c\<close> (on memory
    with stuck bits), \<open>bitswapper.c\<close>, \<open>regpoker.c\<close> (on registers with stuck bits) and \<open>testsuite.c\<close>.
  \<^item> \<open>Gpio\<close>: the registry of \<open>src/lib/gpio.c\<close> and its controllers under \<open>drivers/gpio/\<close>. The locale
    \<open>gpio_bank\<close> is the contract of the registered controllers: output pins keep what was written, and \<open>outs\<close> says
    which pins are outputs.
  \<^item> \<open>Mpic128\<close>: the interrupt controller of the PowerPC chips, \<open>drivers/irq-mpic128.c\<close>, with its timers; which
    vectors are in service is balanced over every dispatch.
  \<^item> \<open>Mdma_Chan\<close>, \<open>Mdma_Run\<close>: the channel library of the MDMA controller, \<open>drivers/mdma_chan_lib.c\<close>. \<open>trans_inv\<close> is
    the invariant of a transfer and \<open>dma_walk\<close> what a controller does that follows its descriptors. \<open>gives_back\<close> says
    how a controller returns descriptors: at any time, seen in the ownership bit, until the word is written again.
  \<^item> \<open>I2c\<close>: the I2C controller and the EEPROM on its bus, \<open>drivers/i2c.c\<close> and \<open>eeprom.c\<close>.
  \<^item> \<open>Comm_Ports\<close>: the serial links between chips, \<open>drivers/rcm_cp.c\<close>, \<open>com_simple.c\<close> and \<open>nfifo.c\<close>: DMA transfers
    with time limits and what is left of them when the time is up.
  \<^item> \<open>Uart\<close>: the UARTs PL011 and MUART, \<open>drivers/uart_pl011.c\<close> and \<open>muart.c\<close>; the latter moves its data through
    channels of \<open>Mdma_Chan\<close>.
  \<^item> \<open>Msix\<close>: the interrupt controller for messages of PCIe, \<open>drivers/irq-proxy-gic-cdnpcie.c\<close>.
  \<^item> \<open>Xmodem\<close>: receiver and sender of \<open>src/lib/xmodem.c\<close> on an abstract serial line.

  \<^bold>\<open>Conventions.\<close> Machine integers are words of their C width; \<open>int\<close> results that are error codes
  are \<open>int\<close>. A C function on memory takes and returns the memory, a driver the device state. A loop
  that may not end is a \<open>partial_function\<close> and not returning is \<open>None\<close>. Pointers are 32 bits wide.
  Console output (\<open>dbg_boot\<close>, \<open>rumboot_printf\<close>) is not modelled where it only reports.

  \<^bold>\<open>Not modelled.\<close> Code that is not part of the program's own logic: vendored Lua and compression
  libraries, start-up assembly, linker scripts, register descriptions, and the tests under
  \<open>src/platform/*/targets\<close>. Of the library, the drivers that only program registers or poll a device whose
  answers the sources do not state: Ethernet, MIL-STD-1553, PCIe, SpaceWire, DDR and the accelerators, the timers and
  watchdogs, the second MDMA interface, and the channel to the test bench. The code of an image (\<open>pf_run\<close>), the
  platform's tables and hooks, and the devices behind the registers are parameters.
\<close>

end
